(* ===== verification/Prelude.thy ===== *)
theory Prelude
  imports Main "HOL-Library.Word" "HOL-Library.Monad_Syntax"
begin

text \<open>
  Shared vocabulary of the development.  The kernel is 32-bit C: \<open>unsigned long\<close> is
  \<open>u32\<close>, \<open>result_t\<close> and the other signed results are mathematical integers
  (every value the kernel returns through them is small).  A computation that can stop the
  machine has an \<open>option\<close> result: \<open>None\<close> is "the kernel panics here" (\<open>BUG\<close>, \<open>BUG_ON\<close>
  and \<open>panic\<close> never return) or "the code makes an access the C standard leaves undefined";
  each definition says which.  \<open>WARN_ON\<close> and \<open>printk\<close> only print and have no effect on
  the modelled states.  The theory also holds the error numbers of include/sins/error.h,
  the bit operations of include/bitops.h and include/asm/bitops.h, and the arithmetic
  lemmas the components share.
\<close>

unbundle bit_operations_syntax

type_synonym u8 = "8 word"
type_synonym u16 = "16 word"
type_synonym u32 = "32 word"
type_synonym u64 = "64 word"

named_theorems kernel_defs \<open>unfolding rules of the small accessor functions\<close>
named_theorems inv_intros \<open>introduction rules of component invariants\<close>

subsection \<open>Panics\<close>

definition bug_on :: "bool \<Rightarrow> unit option" where
  "bug_on c = (if c then None else Some ())"

lemma bug_on_simps [simp]: "bug_on True = None" "bug_on False = Some ()"
  by (simp_all add: bug_on_def)

lemma bug_on_eq_Some [simp]: "bug_on c = Some u \<longleftrightarrow> \<not> c"
  by (simp add: bug_on_def)

subsection \<open>Signed arithmetic\<close>

text \<open>The result of a signed operation on a 32-bit type: overflow is undefined.\<close>

definition c_int :: "int \<Rightarrow> int option" where
  "c_int x = (if - (2 ^ 31) \<le> x \<and> x < 2 ^ 31 then Some x else None)"

lemma c_int_Some: "- (2 ^ 31) \<le> x \<Longrightarrow> x < 2 ^ 31 \<Longrightarrow> c_int x = Some x"
  by (simp add: c_int_def)

subsection \<open>Error numbers (include/sins/error.h)\<close>

text \<open>The C macros are the positive numbers; the kernel returns their negations.\<close>

datatype kerror = ERROR | EBUSY | EINVAL | ENODEV | ENOMEM | ENOSYS | EIO | ENOEXEC

fun errno :: "kerror \<Rightarrow> int" where
  "errno ERROR = 1"
| "errno EBUSY = 2"
| "errno EINVAL = 3"
| "errno ENODEV = 4"
| "errno ENOMEM = 5"
| "errno ENOSYS = 6"
| "errno EIO = 7"
| "errno ENOEXEC = 8"

definition SUCCESS :: int where
  "SUCCESS = 0"

definition err :: "kerror \<Rightarrow> int" where
  "err e = - errno e"

text \<open>The macro \<open>FAILED\<close> of include/sins/kernel.h.\<close>

definition FAILED :: "int \<Rightarrow> bool" where
  "FAILED r \<longleftrightarrow> r < 0"

lemma errno_pos [simp]: "0 < errno e"
  by (cases e) simp_all

lemma errno_inj: "errno e = errno e' \<longleftrightarrow> e = e'"
  by (cases e; cases e') simp_all

lemma err_inj [simp]: "err e = err e' \<longleftrightarrow> e = e'"
  by (simp add: err_def errno_inj)

lemma FAILED_simps [simp]: "FAILED (err e)" "\<not> FAILED SUCCESS"
  by (simp_all add: FAILED_def err_def SUCCESS_def)

lemma err_neg [simp]: "err e < 0" "\<not> 0 \<le> err e" "err e \<noteq> SUCCESS" "SUCCESS \<noteq> err e"
  by (cases e; simp add: err_def SUCCESS_def)+

subsection \<open>Bit operations (include/bitops.h, include/asm/bitops.h)\<close>

definition BIT :: "nat \<Rightarrow> u32" where
  "BIT nr = push_bit nr 1"

definition bit_set :: "u32 \<Rightarrow> nat \<Rightarrow> u32" where
  "bit_set op nr = op OR BIT nr"

definition bit_clear :: "u32 \<Rightarrow> nat \<Rightarrow> u32" where
  "bit_clear op nr = op AND NOT (BIT nr)"

definition bit_test :: "u32 \<Rightarrow> nat \<Rightarrow> u32" where
  "bit_test op nr = op AND BIT nr"

lemma bit_BIT [simp]: "bit (BIT n) m \<longleftrightarrow> m = n \<and> n < 32"
  by (auto simp: BIT_def bit_exp_iff possible_bit_word)

lemma bit_bit_set [simp]: "bit (bit_set op n) m \<longleftrightarrow> bit op m \<or> (m = n \<and> n < 32)"
  by (auto simp: bit_set_def bit_or_iff)

lemma bit_bit_clear [simp]: "bit (bit_clear op n) m \<longleftrightarrow> bit op m \<and> m \<noteq> n"
  by (auto simp: bit_clear_def bit_and_iff bit_not_iff dest: bit_imp_le_length)

lemma bit_test_iff [simp]: "bit_test op n \<noteq> 0 \<longleftrightarrow> bit op n"
proof
  assume "bit_test op n \<noteq> 0"
  then obtain m where "bit (bit_test op n) m"
    by (auto simp: bit_eq_iff)
  then show "bit op n"
    by (auto simp: bit_test_def bit_and_iff)
next
  assume "bit op n"
  then have "bit (bit_test op n) n"
    by (auto simp: bit_test_def bit_and_iff dest: bit_imp_le_length)
  then show "bit_test op n \<noteq> 0"
    by auto
qed

lemma bit_test_eq_0 [simp]: "bit_test op n = 0 \<longleftrightarrow> \<not> bit op n"
  using bit_test_iff by blast

subsection \<open>Signed readings of words\<close>

lemma sint_cases:
  "sint (w :: 'a::len word) =
     (if uint w < 2 ^ (LENGTH('a) - 1) then uint w else uint w - 2 ^ LENGTH('a))"
proof -
  obtain n where n: "LENGTH('a) = Suc n" using len_gt_0 [where ?'a = 'a] by (cases "LENGTH('a)") auto
  show ?thesis
  proof (cases "uint w < 2 ^ n")
    case True
    have "signed_take_bit n (uint w) = uint w"
    proof (rule signed_take_bit_int_eq_self)
      show "- (2 ^ n) \<le> uint w" by (rule order_trans [of _ 0]) simp_all
    qed (rule True)
    then show ?thesis using True n by (simp add: sint_uint)
  next
    case False
    have lt: "uint w < 2 ^ Suc n" using uint_lt2p [of w] n by simp
    have "signed_take_bit n (uint w) = signed_take_bit n (uint w - 2 ^ Suc n)"
      by (rule signed_take_bit_eq_iff_take_bit_eq [THEN iffD2]) (simp add: take_bit_eq_mod)
    also have "\<dots> = uint w - 2 ^ Suc n"
      by (intro signed_take_bit_int_eq_self) (use False lt in simp_all)
    finally show ?thesis using False n by (simp add: sint_uint)
  qed
qed

subsection \<open>Aligned intervals of powers of two\<close>

text \<open>
  Two blocks of sizes \<open>2 ^ i\<close> and \<open>2 ^ j\<close>, each aligned to its size, are nested or disjoint.
\<close>

lemma dyadic_nested:
  fixes a b :: nat
  assumes "2 ^ i dvd a" and "2 ^ j dvd b" and "i \<le> j"
    and "a < b + 2 ^ j" and "b < a + 2 ^ i"
  shows "b \<le> a \<and> a + 2 ^ i \<le> b + 2 ^ j"
proof -
  from \<open>i \<le> j\<close> have "(2::nat) ^ i dvd 2 ^ j" by (rule le_imp_power_dvd)
  then have "2 ^ i dvd b" using assms(2) by (rule dvd_trans)
  then obtain m where m: "b = 2 ^ i * m" by (rule dvdE)
  obtain n where n: "a = 2 ^ i * n" using assms(1) by (rule dvdE)
  have "2 ^ j = 2 ^ i * (2::nat) ^ (j - i)"
    using \<open>i \<le> j\<close> by (simp flip: power_add)
  then have up: "b + 2 ^ j = 2 ^ i * (m + 2 ^ (j - i))"
    by (simp add: m algebra_simps)
  have "2 ^ i * m < 2 ^ i * (n + 1)" using assms(5) by (simp add: m n)
  then have "m \<le> n" by (simp only: mult_less_cancel1) simp
  have "2 ^ i * n < 2 ^ i * (m + 2 ^ (j - i))" using assms(4) by (simp add: n up)
  then have "n + 1 \<le> m + 2 ^ (j - i)" by (simp only: mult_less_cancel1) simp
  then have "2 ^ i * (n + 1) \<le> 2 ^ i * (m + 2 ^ (j - i))" by (rule mult_le_mono2)
  then have "a + 2 ^ i \<le> b + 2 ^ j" by (simp only: up n) (simp add: algebra_simps)
  moreover from \<open>m \<le> n\<close> have "b \<le> a" by (simp add: m n)
  ultimately show ?thesis by simp
qed

lemma dvd_pow2_half: "2 ^ Suc k dvd (a::nat) \<Longrightarrow> 2 ^ k dvd a"
  by (simp add: dvd_mult_right)

lemma dvd_pow2_le: "2 ^ j dvd (a::nat) \<Longrightarrow> k \<le> j \<Longrightarrow> 2 ^ k dvd a"
  by (meson dvd_trans le_imp_power_dvd)

end
