(* ===== verification/Ctype.thy ===== *)
theory Ctype
  imports Prelude
begin

text \<open>
  lib/ctype.c and include/ctype.h: the table of character classes, the tests over it and the case
  conversions.  The lemmas say which bytes each test accepts, so that the users of the tests
  (string conversion, scanning and printing) are reasoned about with inequalities.  The names
  \<open>_U\<close>, \<open>_L\<close>, ... of the source are \<open>C_U\<close>, \<open>C_L\<close>, ... here.
\<close>

definition C_U :: u8 where "C_U = 0x01"
definition C_L :: u8 where "C_L = 0x02"
definition C_D :: u8 where "C_D = 0x04"
definition C_C :: u8 where "C_C = 0x08"
definition C_P :: u8 where "C_P = 0x10"
definition C_S :: u8 where "C_S = 0x20"
definition C_X :: u8 where "C_X = 0x40"
definition C_SP :: u8 where "C_SP = 0x80"

lemmas class_defs = C_U_def C_L_def C_D_def C_C_def C_P_def C_S_def C_X_def C_SP_def

definition ctype_table :: "u8 list" where
  "ctype_table =
  [C_C, C_C, C_C, C_C, C_C, C_C, C_C, C_C,
   C_C, C_C OR C_S, C_C OR C_S, C_C OR C_S, C_C OR C_S, C_C OR C_S, C_C, C_C,
   C_C, C_C, C_C, C_C, C_C, C_C, C_C, C_C,
   C_C, C_C, C_C, C_C, C_C, C_C, C_C, C_C,
   C_S OR C_SP, C_P, C_P, C_P, C_P, C_P, C_P, C_P,
   C_P, C_P, C_P, C_P, C_P, C_P, C_P, C_P,
   C_D, C_D, C_D, C_D, C_D, C_D, C_D, C_D,
   C_D, C_D, C_P, C_P, C_P, C_P, C_P, C_P,
   C_P, C_U OR C_X, C_U OR C_X, C_U OR C_X, C_U OR C_X, C_U OR C_X, C_U OR C_X, C_U,
   C_U, C_U, C_U, C_U, C_U, C_U, C_U, C_U,
   C_U, C_U, C_U, C_U, C_U, C_U, C_U, C_U,
   C_U, C_U, C_U, C_P, C_P, C_P, C_P, C_P,
   C_P, C_L OR C_X, C_L OR C_X, C_L OR C_X, C_L OR C_X, C_L OR C_X, C_L OR C_X, C_L,
   C_L, C_L, C_L, C_L, C_L, C_L, C_L, C_L,
   C_L, C_L, C_L, C_L, C_L, C_L, C_L, C_L,
   C_L, C_L, C_L, C_P, C_P, C_P, C_P, C_C,
   0, 0, 0, 0, 0, 0, 0, 0, 0, 0, 0, 0, 0, 0, 0, 0,
   0, 0, 0, 0, 0, 0, 0, 0, 0, 0, 0, 0, 0, 0, 0, 0,
   C_S OR C_SP, C_P, C_P, C_P, C_P, C_P, C_P, C_P, C_P, C_P, C_P, C_P, C_P, C_P, C_P, C_P,
   C_P, C_P, C_P, C_P, C_P, C_P, C_P, C_P, C_P, C_P, C_P, C_P, C_P, C_P, C_P, C_P,
   C_U, C_U, C_U, C_U, C_U, C_U, C_U, C_U, C_U, C_U, C_U, C_U, C_U, C_U, C_U, C_U,
   C_U, C_U, C_U, C_U, C_U, C_U, C_U, C_P, C_U, C_U, C_U, C_U, C_U, C_U, C_U, C_L,
   C_L, C_L, C_L, C_L, C_L, C_L, C_L, C_L, C_L, C_L, C_L, C_L, C_L, C_L, C_L, C_L,
   C_L, C_L, C_L, C_L, C_L, C_L, C_L, C_P, C_L, C_L, C_L, C_L, C_L, C_L, C_L, C_L]"

definition ismask :: "u8 \<Rightarrow> u8" where "ismask c = ctype_table ! unat c"

definition isalnum :: "u8 \<Rightarrow> bool" where "isalnum c \<longleftrightarrow> ismask c AND (C_U OR C_L OR C_D) \<noteq> 0"
definition isalpha :: "u8 \<Rightarrow> bool" where "isalpha c \<longleftrightarrow> ismask c AND (C_U OR C_L) \<noteq> 0"
definition iscntrl :: "u8 \<Rightarrow> bool" where "iscntrl c \<longleftrightarrow> ismask c AND C_C \<noteq> 0"
definition isdigit :: "u8 \<Rightarrow> bool" where "isdigit c \<longleftrightarrow> ismask c AND C_D \<noteq> 0"
definition isgraph :: "u8 \<Rightarrow> bool" where "isgraph c \<longleftrightarrow> ismask c AND (C_P OR C_U OR C_L OR C_D) \<noteq> 0"
definition islower :: "u8 \<Rightarrow> bool" where "islower c \<longleftrightarrow> ismask c AND C_L \<noteq> 0"
definition isprint :: "u8 \<Rightarrow> bool" where "isprint c \<longleftrightarrow> ismask c AND (C_P OR C_U OR C_L OR C_D OR C_SP) \<noteq> 0"
definition ispunct :: "u8 \<Rightarrow> bool" where "ispunct c \<longleftrightarrow> ismask c AND C_P \<noteq> 0"
definition isspace :: "u8 \<Rightarrow> bool" where "isspace c \<longleftrightarrow> ismask c AND C_S \<noteq> 0"
definition isupper :: "u8 \<Rightarrow> bool" where "isupper c \<longleftrightarrow> ismask c AND C_U \<noteq> 0"
definition isxdigit :: "u8 \<Rightarrow> bool" where "isxdigit c \<longleftrightarrow> ismask c AND (C_D OR C_X) \<noteq> 0"
definition isascii :: "u8 \<Rightarrow> bool" where "isascii c \<longleftrightarrow> c \<le> 0x7f"
definition toascii :: "u8 \<Rightarrow> u8" where "toascii c = c AND 0x7f"

definition tolower :: "u8 \<Rightarrow> u8" where "tolower c = (if isupper c then c - (65 - 97) else c)"
definition toupper :: "u8 \<Rightarrow> u8" where "toupper c = (if islower c then c - (97 - 65) else c)"

text \<open>A statement about all bytes is checked on the 256 of them.\<close>

fun table_ok :: "(int \<Rightarrow> int \<Rightarrow> bool) \<Rightarrow> int \<Rightarrow> int list \<Rightarrow> bool" where
  "table_ok P c [] = True"
| "table_ok P c (k # ks) = (P c k \<and> table_ok P (c + 1) ks)"

lemma table_ok_nth: "table_ok P c ks \<Longrightarrow> n < length ks \<Longrightarrow> P (c + int n) (ks ! n)"
proof (induction ks arbitrary: c n)
  case (Cons k ks)
  then show ?case
    using Cons.IH [of "c + 1" "n - 1"] by (cases n) (simp_all add: algebra_simps)
qed simp

definition ctype_ints :: "int list" where
  "ctype_ints = List.map uint ctype_table"

lemma ctype_ints_eval [code]: "ctype_ints =
  [8, 8, 8, 8, 8, 8, 8, 8,
   8, 40, 40, 40, 40, 40, 8, 8,
   8, 8, 8, 8, 8, 8, 8, 8,
   8, 8, 8, 8, 8, 8, 8, 8,
   160, 16, 16, 16, 16, 16, 16, 16,
   16, 16, 16, 16, 16, 16, 16, 16,
   4, 4, 4, 4, 4, 4, 4, 4,
   4, 4, 16, 16, 16, 16, 16, 16,
   16, 65, 65, 65, 65, 65, 65, 1,
   1, 1, 1, 1, 1, 1, 1, 1,
   1, 1, 1, 1, 1, 1, 1, 1,
   1, 1, 1, 16, 16, 16, 16, 16,
   16, 66, 66, 66, 66, 66, 66, 2,
   2, 2, 2, 2, 2, 2, 2, 2,
   2, 2, 2, 2, 2, 2, 2, 2,
   2, 2, 2, 16, 16, 16, 16, 8,
   0, 0, 0, 0, 0, 0, 0, 0, 0, 0, 0, 0, 0, 0, 0, 0,
   0, 0, 0, 0, 0, 0, 0, 0, 0, 0, 0, 0, 0, 0, 0, 0,
   160, 16, 16, 16, 16, 16, 16, 16, 16, 16, 16, 16, 16, 16, 16, 16,
   16, 16, 16, 16, 16, 16, 16, 16, 16, 16, 16, 16, 16, 16, 16, 16,
   1, 1, 1, 1, 1, 1, 1, 1, 1, 1, 1, 1, 1, 1, 1, 1,
   1, 1, 1, 1, 1, 1, 1, 16, 1, 1, 1, 1, 1, 1, 1, 2,
   2, 2, 2, 2, 2, 2, 2, 2, 2, 2, 2, 2, 2, 2, 2, 2,
   2, 2, 2, 2, 2, 2, 2, 16, 2, 2, 2, 2, 2, 2, 2, 2]"
  by (simp add: ctype_table_def class_defs ctype_ints_def)

lemma length_ctype_table: "length ctype_table = 256"
  by (simp add: ctype_table_def)

lemma table_okD: "table_ok P 0 ctype_ints \<Longrightarrow> P (uint c) (uint (ismask c))"
  using table_ok_nth [of P 0 ctype_ints "unat c"] unsigned_less [of c]
  by (simp add: length_ctype_table ismask_def ctype_ints_def)

definition upper_byte :: "int \<Rightarrow> bool" where
  "upper_byte c \<longleftrightarrow> 65 \<le> c \<and> c \<le> 90 \<or> 192 \<le> c \<and> c \<le> 222 \<and> c \<noteq> 215"
definition lower_byte :: "int \<Rightarrow> bool" where
  "lower_byte c \<longleftrightarrow> 97 \<le> c \<and> c \<le> 122 \<or> 223 \<le> c \<and> c \<noteq> 247"
definition digit_byte :: "int \<Rightarrow> bool" where
  "digit_byte c \<longleftrightarrow> 48 \<le> c \<and> c \<le> 57"
definition graph_byte :: "int \<Rightarrow> bool" where
  "graph_byte c \<longleftrightarrow> 33 \<le> c \<and> c \<le> 126 \<or> 161 \<le> c"

lemmas byte_defs = upper_byte_def lower_byte_def digit_byte_def graph_byte_def

definition in_class :: "int \<Rightarrow> int \<Rightarrow> bool" where
  "in_class m k \<longleftrightarrow> k div m mod 2 = 1"

lemma table_letters:
  "table_ok (\<lambda>c k. (in_class 1 k \<longleftrightarrow> upper_byte c) \<and> (in_class 2 k \<longleftrightarrow> lower_byte c)) 0 ctype_ints"
  by code_simp

lemma table_digits:
  "table_ok (\<lambda>c k. (in_class 4 k \<longleftrightarrow> digit_byte c) \<and>
     (in_class 64 k \<longleftrightarrow> 65 \<le> c \<and> c \<le> 70 \<or> 97 \<le> c \<and> c \<le> 102)) 0 ctype_ints"
  by code_simp

lemma table_spaces:
  "table_ok (\<lambda>c k. (in_class 8 k \<longleftrightarrow> c < 32 \<or> c = 127) \<and> (in_class 128 k \<longleftrightarrow> c = 32 \<or> c = 160) \<and>
     (in_class 32 k \<longleftrightarrow> 9 \<le> c \<and> c \<le> 13 \<or> c = 32 \<or> c = 160)) 0 ctype_ints"
  by code_simp

lemma table_punct:
  "table_ok (\<lambda>c k. in_class 16 k \<longleftrightarrow> graph_byte c \<and> \<not> upper_byte c \<and> \<not> lower_byte c \<and> \<not> digit_byte c) 0 ctype_ints"
  by code_simp

lemma and_or_neq_0: "(k AND (a OR b) :: u8) \<noteq> 0 \<longleftrightarrow> k AND a \<noteq> 0 \<or> k AND b \<noteq> 0"
proof
  assume "k AND (a OR b) \<noteq> 0"
  then obtain n where "bit (k AND (a OR b)) n" by (auto simp: bit_eq_iff)
  then have "bit (k AND a) n \<or> bit (k AND b) n" by (auto simp: bit_simps)
  then show "k AND a \<noteq> 0 \<or> k AND b \<noteq> 0" by auto
next
  assume "k AND a \<noteq> 0 \<or> k AND b \<noteq> 0"
  then obtain n where "bit (k AND a) n \<or> bit (k AND b) n" by (auto simp: bit_eq_iff)
  then have "bit (k AND (a OR b)) n" by (auto simp: bit_simps)
  then show "k AND (a OR b) \<noteq> 0" by auto
qed

lemma and_bit_neq_0: "n < 8 \<Longrightarrow> (k AND push_bit n 1 :: u8) \<noteq> 0 \<longleftrightarrow> in_class (2 ^ n) (uint k)"
proof -
  assume n: "n < 8"
  have "k AND push_bit n 1 \<noteq> 0 \<longleftrightarrow> bit k n"
  proof
    assume "k AND push_bit n 1 \<noteq> 0"
    then obtain m where "bit (k AND push_bit n 1) m" by (auto simp: bit_eq_iff)
    then show "bit k n" by (auto simp: bit_simps)
  next
    assume "bit k n"
    then have "bit (k AND push_bit n 1) n" using n by (auto simp: bit_simps)
    then show "k AND push_bit n 1 \<noteq> 0" by auto
  qed
  also have "\<dots> \<longleftrightarrow> bit (uint k) n" using n by (simp add: bit_unsigned_iff)
  also have "\<dots> \<longleftrightarrow> in_class (2 ^ n) (uint k)"
    by (simp only: in_class_def bit_iff_odd odd_iff_mod_2_eq_one)
  finally show ?thesis .
qed

lemma class_bits:
  "(k AND C_U \<noteq> 0) = in_class 1 (uint k)" "(k AND C_L \<noteq> 0) = in_class 2 (uint k)"
  "(k AND C_D \<noteq> 0) = in_class 4 (uint k)" "(k AND C_C \<noteq> 0) = in_class 8 (uint k)"
  "(k AND C_P \<noteq> 0) = in_class 16 (uint k)" "(k AND C_S \<noteq> 0) = in_class 32 (uint k)"
  "(k AND C_X \<noteq> 0) = in_class 64 (uint k)" "(k AND C_SP \<noteq> 0) = in_class 128 (uint k)"
  using and_bit_neq_0 [of 0 k] and_bit_neq_0 [of 1 k] and_bit_neq_0 [of 2 k] and_bit_neq_0 [of 3 k]
    and_bit_neq_0 [of 4 k] and_bit_neq_0 [of 5 k] and_bit_neq_0 [of 6 k] and_bit_neq_0 [of 7 k]
  by (simp_all add: class_defs)

lemmas class_tests = isalnum_def isalpha_def iscntrl_def isdigit_def isgraph_def islower_def isprint_def
  ispunct_def isspace_def isupper_def isxdigit_def

lemma graph_letters: "upper_byte c \<Longrightarrow> graph_byte c" "lower_byte c \<Longrightarrow> graph_byte c" "digit_byte c \<Longrightarrow> graph_byte c"
  by (auto simp: byte_defs)

lemma class_iffs:
  "isdigit c \<longleftrightarrow> digit_byte (uint c)" "isupper c \<longleftrightarrow> upper_byte (uint c)" "islower c \<longleftrightarrow> lower_byte (uint c)"
  "isspace c \<longleftrightarrow> 9 \<le> uint c \<and> uint c \<le> 13 \<or> uint c = 32 \<or> uint c = 160"
  "iscntrl c \<longleftrightarrow> uint c < 32 \<or> uint c = 127"
  "isxdigit c \<longleftrightarrow> digit_byte (uint c) \<or> 65 \<le> uint c \<and> uint c \<le> 70 \<or> 97 \<le> uint c \<and> uint c \<le> 102"
  "isalpha c \<longleftrightarrow> upper_byte (uint c) \<or> lower_byte (uint c)"
  "isalnum c \<longleftrightarrow> upper_byte (uint c) \<or> lower_byte (uint c) \<or> digit_byte (uint c)"
  "isgraph c \<longleftrightarrow> graph_byte (uint c)"
  "isprint c \<longleftrightarrow> graph_byte (uint c) \<or> uint c = 32 \<or> uint c = 160"
  "ispunct c \<longleftrightarrow> graph_byte (uint c) \<and> \<not> upper_byte (uint c) \<and> \<not> lower_byte (uint c) \<and> \<not> digit_byte (uint c)"
  using table_okD [OF table_letters, of c] table_okD [OF table_digits, of c]
    table_okD [OF table_spaces, of c] table_okD [OF table_punct, of c]
  unfolding class_tests and_or_neq_0 class_bits
  by (blast intro: graph_letters)+

lemma uint_u8_lt: "uint (c :: u8) < 256"
  using unsigned_less [of c] by simp

text \<open>NUL is in no class that the scanners skip.\<close>

lemma class_NUL [simp]: "\<not> isdigit 0" "\<not> isxdigit 0" "\<not> isspace 0" "tolower 0 = 0"
  by (simp_all add: class_iffs byte_defs tolower_def)

lemma uint_arith_u8: "uint (a - b :: u8) = (uint a - uint b) mod 256" "uint (a + b :: u8) = (uint a + uint b) mod 256"
  using uint_word_ariths(1,2) [of a b] by simp_all

lemma uint_tolower: "uint (tolower c) = (if upper_byte (uint c) then uint c + 32 else uint c)"
  using uint_u8_lt [of c] by (auto simp: tolower_def class_iffs uint_arith_u8 byte_defs)

lemma uint_toupper: "uint (toupper c) = (if lower_byte (uint c) then uint c - 32 else uint c)"
  using uint_u8_lt [of c] by (auto simp: toupper_def class_iffs uint_arith_u8 byte_defs)

text \<open>The conversions stay within the letters, apart from the last letters of the two lower-case
  ranges: 0xDF and 0xFF have no upper-case letter 32 below them.\<close>

lemma case_conversions:
  "isupper c \<Longrightarrow> islower (tolower c)" "isupper c \<Longrightarrow> toupper (tolower c) = c"
  "islower c \<Longrightarrow> c \<noteq> 0xDF \<Longrightarrow> c \<noteq> 0xFF \<Longrightarrow> isupper (toupper c)"
  "islower c \<Longrightarrow> c \<noteq> 0xDF \<Longrightarrow> c \<noteq> 0xFF \<Longrightarrow> tolower (toupper c) = c"
  using uint_u8_lt [of c]
  by (auto simp: class_iffs uint_tolower uint_toupper byte_defs word_uint_eq_iff)

end
