(* ===== verification/Cstring.thy ===== *)
theory Cstring
  imports Ctype
begin

text \<open>
  lib/string.c over a byte memory.  A memory maps the addresses of the objects that may be accessed
  to their bytes; reading or writing any other address is undefined in C and is \<open>None\<close>, and so is
  a loop that never finds the NUL it looks for, so that a result \<open>Some\<close> says that the function
  returns and stays within the objects.  Pointers are addresses, \<open>NULL\<close> is 0, sizes are natural
  numbers; \<open>char\<close> is a byte, and where the code depends on its sign that is written out.
  \<open>cstr m a s\<close> says that the NUL-terminated string \<open>s\<close> stands at \<open>a\<close>, \<open>mwrite m a bs\<close> is the memory
  with the bytes \<open>bs\<close> at \<open>a\<close>; the lemmas give the result of each function in these terms.
\<close>

type_synonym cmem = "nat \<Rightarrow> u8 option"

definition NULL :: nat where "NULL = 0"

definition store8 :: "cmem \<Rightarrow> nat \<Rightarrow> u8 \<Rightarrow> cmem option" where
  "store8 m a v = (if m a = None then None else Some (m(a \<mapsto> v)))"

subsection \<open>Strings\<close>

fun strnicmp_loop :: "cmem \<Rightarrow> nat \<Rightarrow> nat \<Rightarrow> nat \<Rightarrow> u8 \<Rightarrow> u8 \<Rightarrow> (u8 \<times> u8) option" where
  "strnicmp_loop m s1 s2 0 c1 c2 = Some (c1, c2)"
| "strnicmp_loop m s1 s2 (Suc len) _ _ =
     do { c1 \<leftarrow> m s1; c2 \<leftarrow> m s2;
          if c1 = 0 then Some (c1, c2)
          else if c2 = 0 then Some (c1, c2)
          else if c1 = c2 then strnicmp_loop m (s1 + 1) (s2 + 1) len c1 c2
          else let c1 = tolower c1; c2 = tolower c2
               in if c1 \<noteq> c2 then Some (c1, c2) else strnicmp_loop m (s1 + 1) (s2 + 1) len c1 c2 }"

definition strnicmp :: "cmem \<Rightarrow> nat \<Rightarrow> nat \<Rightarrow> nat \<Rightarrow> int option" where
  "strnicmp m s1 s2 len =
     do { (c1, c2) \<leftarrow> strnicmp_loop m s1 s2 len 0 0; Some (uint c1 - uint c2) }"

partial_function (option) strcpy_loop :: "cmem \<Rightarrow> nat \<Rightarrow> nat \<Rightarrow> cmem option" where
  "strcpy_loop m dest src =
     do { c \<leftarrow> m src; m \<leftarrow> store8 m dest c;
          if c \<noteq> 0 then strcpy_loop m (dest + 1) (src + 1) else Some m }"

definition strcpy :: "cmem \<Rightarrow> nat \<Rightarrow> nat \<Rightarrow> cmem option" where
  "strcpy m dest src = strcpy_loop m dest src"

fun strncpy :: "cmem \<Rightarrow> nat \<Rightarrow> nat \<Rightarrow> nat \<Rightarrow> cmem option" where
  "strncpy m dest src 0 = Some m"
| "strncpy m dest src (Suc count) =
     do { c \<leftarrow> m src; m \<leftarrow> store8 m dest c;
          if c \<noteq> 0 then strncpy m (dest + 1) (src + 1) count else Some m }"

partial_function (option) str_end :: "cmem \<Rightarrow> nat \<Rightarrow> nat option" where
  "str_end m p = do { c \<leftarrow> m p; if c \<noteq> 0 then str_end m (p + 1) else Some p }"

definition strcat :: "cmem \<Rightarrow> nat \<Rightarrow> nat \<Rightarrow> cmem option" where
  "strcat m dest src = do { dest \<leftarrow> str_end m dest; strcpy_loop m dest src }"

fun strncat_loop :: "cmem \<Rightarrow> nat \<Rightarrow> nat \<Rightarrow> nat \<Rightarrow> cmem option" where
  "strncat_loop m dest src 0 = Some m"
| "strncat_loop m dest src (Suc count) =
     do { c \<leftarrow> m src; m \<leftarrow> store8 m dest c;
          if c \<noteq> 0
          then (if count = 0 then store8 m (dest + 1) 0 else strncat_loop m (dest + 1) (src + 1) count)
          else Some m }"

definition strncat :: "cmem \<Rightarrow> nat \<Rightarrow> nat \<Rightarrow> nat \<Rightarrow> cmem option" where
  "strncat m dest src count =
     (if count \<noteq> 0 then do { dest \<leftarrow> str_end m dest; strncat_loop m dest src count } else Some m)"

text \<open>The difference of two characters is truncated to a \<open>signed char\<close>.\<close>

definition char_diff :: "u8 \<Rightarrow> u8 \<Rightarrow> int" where
  "char_diff a b = sint (a - b)"

partial_function (option) strcmp :: "cmem \<Rightarrow> nat \<Rightarrow> nat \<Rightarrow> int option" where
  "strcmp m cs ct =
     do { a \<leftarrow> m cs; b \<leftarrow> m ct;
          if char_diff a b \<noteq> 0 \<or> a = 0 then Some (char_diff a b) else strcmp m (cs + 1) (ct + 1) }"

fun strncmp_loop :: "cmem \<Rightarrow> nat \<Rightarrow> nat \<Rightarrow> nat \<Rightarrow> int \<Rightarrow> int option" where
  "strncmp_loop m cs ct 0 res = Some res"
| "strncmp_loop m cs ct (Suc count) res =
     do { a \<leftarrow> m cs; b \<leftarrow> m ct;
          if char_diff a b \<noteq> 0 \<or> a = 0 then Some (char_diff a b)
          else strncmp_loop m (cs + 1) (ct + 1) count (char_diff a b) }"

definition strncmp :: "cmem \<Rightarrow> nat \<Rightarrow> nat \<Rightarrow> nat \<Rightarrow> int option" where
  "strncmp m cs ct count = strncmp_loop m cs ct count 0"

partial_function (option) strchr :: "cmem \<Rightarrow> nat \<Rightarrow> u8 \<Rightarrow> nat option" where
  "strchr m s c =
     do { x \<leftarrow> m s; if x \<noteq> c then (if x = 0 then Some NULL else strchr m (s + 1) c) else Some s }"

partial_function (option) strlen_loop :: "cmem \<Rightarrow> nat \<Rightarrow> nat option" where
  "strlen_loop m sc = do { c \<leftarrow> m sc; if c \<noteq> 0 then strlen_loop m (sc + 1) else Some sc }"

definition strlen :: "cmem \<Rightarrow> nat \<Rightarrow> nat option" where
  "strlen m s = do { sc \<leftarrow> strlen_loop m s; Some (sc - s) }"

text \<open>The pointer of the loop is \<open>s + n\<close>, going down to \<open>s\<close>.\<close>

fun strrchr_loop :: "cmem \<Rightarrow> nat \<Rightarrow> u8 \<Rightarrow> nat \<Rightarrow> nat option" where
  "strrchr_loop m s c 0 = do { x \<leftarrow> m s; if x = c then Some s else Some NULL }"
| "strrchr_loop m s c (Suc n) =
     do { x \<leftarrow> m (s + Suc n); if x = c then Some (s + Suc n) else strrchr_loop m s c n }"

definition strrchr :: "cmem \<Rightarrow> nat \<Rightarrow> u8 \<Rightarrow> nat option" where
  "strrchr m s c = do { n \<leftarrow> strlen m s; strrchr_loop m s c n }"

fun strnlen_loop :: "cmem \<Rightarrow> nat \<Rightarrow> nat \<Rightarrow> nat option" where
  "strnlen_loop m sc 0 = Some sc"
| "strnlen_loop m sc (Suc count) = do { c \<leftarrow> m sc; if c \<noteq> 0 then strnlen_loop m (sc + 1) count else Some sc }"

definition strnlen :: "cmem \<Rightarrow> nat \<Rightarrow> nat \<Rightarrow> nat option" where
  "strnlen m s count = do { sc \<leftarrow> strnlen_loop m s count; Some (sc - s) }"

partial_function (option) strspn_in :: "cmem \<Rightarrow> u8 \<Rightarrow> nat \<Rightarrow> nat option" where
  "strspn_in m x a =
     do { y \<leftarrow> m a; if y \<noteq> 0 then (if x = y then Some a else strspn_in m x (a + 1)) else Some a }"

partial_function (option) strspn_loop :: "cmem \<Rightarrow> nat \<Rightarrow> nat \<Rightarrow> nat \<Rightarrow> nat option" where
  "strspn_loop m p accept count =
     do { x \<leftarrow> m p;
          if x \<noteq> 0
          then do { a \<leftarrow> strspn_in m x accept; y \<leftarrow> m a;
                    if y = 0 then Some count else strspn_loop m (p + 1) accept (count + 1) }
          else Some count }"

definition strspn :: "cmem \<Rightarrow> nat \<Rightarrow> nat \<Rightarrow> nat option" where
  "strspn m s accept = strspn_loop m s accept 0"

partial_function (option) strpbrk_in :: "cmem \<Rightarrow> u8 \<Rightarrow> nat \<Rightarrow> bool option" where
  "strpbrk_in m x sc2 =
     do { y \<leftarrow> m sc2; if y \<noteq> 0 then (if x = y then Some True else strpbrk_in m x (sc2 + 1)) else Some False }"

partial_function (option) strpbrk :: "cmem \<Rightarrow> nat \<Rightarrow> nat \<Rightarrow> nat option" where
  "strpbrk m sc1 ct =
     do { x \<leftarrow> m sc1;
          if x \<noteq> 0
          then do { found \<leftarrow> strpbrk_in m x ct; if found then Some sc1 else strpbrk m (sc1 + 1) ct }
          else Some NULL }"

text \<open>\<open>tok\<close> is the static \<open>___strtok\<close>; the result holds the memory, the new \<open>tok\<close> and the value.\<close>

definition strtok :: "cmem \<Rightarrow> nat \<Rightarrow> nat \<Rightarrow> nat \<Rightarrow> (cmem \<times> nat \<times> nat) option" where
  "strtok m tok s ct =
     (let sbegin = (if s \<noteq> NULL then s else tok) in
      if sbegin = NULL then Some (m, tok, NULL)
      else do { n \<leftarrow> strspn m sbegin ct;
                let sbegin = sbegin + n;
                x \<leftarrow> m sbegin;
                if x = 0 then Some (m, NULL, NULL)
                else do { send \<leftarrow> strpbrk m sbegin ct;
                          (m, send) \<leftarrow>
                            (if send \<noteq> NULL
                             then do { y \<leftarrow> m send;
                                       if y \<noteq> 0 then do { m \<leftarrow> store8 m send 0; Some (m, send + 1) }
                                       else Some (m, send) }
                             else Some (m, send));
                          Some (m, send, sbegin) } })"

text \<open>\<open>s\<close> is the value of \<open>*s\<close>; the result holds the memory, the new \<open>*s\<close> and the value.\<close>

definition strsep :: "cmem \<Rightarrow> nat \<Rightarrow> nat \<Rightarrow> (cmem \<times> nat \<times> nat) option" where
  "strsep m s ct =
     (if s = NULL then Some (m, s, NULL)
      else do { end \<leftarrow> strpbrk m s ct;
                (m, end) \<leftarrow> (if end \<noteq> NULL then do { m \<leftarrow> store8 m end 0; Some (m, end + 1) }
                             else Some (m, end));
                Some (m, end, s) })"

subsection \<open>Areas of memory\<close>

fun memset :: "cmem \<Rightarrow> nat \<Rightarrow> u8 \<Rightarrow> nat \<Rightarrow> cmem option" where
  "memset m s c 0 = Some m"
| "memset m s c (Suc count) = do { m \<leftarrow> store8 m s c; memset m (s + 1) c count }"

fun memcpy :: "cmem \<Rightarrow> nat \<Rightarrow> nat \<Rightarrow> nat \<Rightarrow> cmem option" where
  "memcpy m dest src 0 = Some m"
| "memcpy m dest src (Suc count) =
     do { c \<leftarrow> m src; m \<leftarrow> store8 m dest c; memcpy m (dest + 1) (src + 1) count }"

fun bcopy :: "cmem \<Rightarrow> nat \<Rightarrow> nat \<Rightarrow> nat \<Rightarrow> cmem option" where
  "bcopy m src dest 0 = Some m"
| "bcopy m src dest (Suc count) =
     do { c \<leftarrow> m src; m \<leftarrow> store8 m dest c; bcopy m (src + 1) (dest + 1) count }"

text \<open>The second loop of \<open>memmove\<close>: both pointers are one past the bytes still to be copied.\<close>

fun memmove_down :: "cmem \<Rightarrow> nat \<Rightarrow> nat \<Rightarrow> nat \<Rightarrow> cmem option" where
  "memmove_down m tmp s 0 = Some m"
| "memmove_down m tmp s (Suc count) =
     do { c \<leftarrow> m (s - 1); m \<leftarrow> store8 m (tmp - 1) c; memmove_down m (tmp - 1) (s - 1) count }"

fun memmove_up :: "cmem \<Rightarrow> nat \<Rightarrow> nat \<Rightarrow> nat \<Rightarrow> cmem option" where
  "memmove_up m tmp s 0 = Some m"
| "memmove_up m tmp s (Suc count) =
     do { c \<leftarrow> m s; m \<leftarrow> store8 m tmp c; memmove_up m (tmp + 1) (s + 1) count }"

definition memmove :: "cmem \<Rightarrow> nat \<Rightarrow> nat \<Rightarrow> nat \<Rightarrow> cmem option" where
  "memmove m dest src count =
     (if dest \<le> src then memmove_up m dest src count
      else memmove_down m (dest + count) (src + count) count)"

fun memcmp_loop :: "cmem \<Rightarrow> nat \<Rightarrow> nat \<Rightarrow> nat \<Rightarrow> int \<Rightarrow> int option" where
  "memcmp_loop m cs ct 0 res = Some res"
| "memcmp_loop m cs ct (Suc count) _ =
     do { a \<leftarrow> m cs; b \<leftarrow> m ct;
          let res = uint a - uint b;
          if res \<noteq> 0 then Some res else memcmp_loop m (cs + 1) (ct + 1) count res }"

definition memcmp :: "cmem \<Rightarrow> nat \<Rightarrow> nat \<Rightarrow> nat \<Rightarrow> int option" where
  "memcmp m cs ct count = memcmp_loop m cs ct count 0"

fun memscan :: "cmem \<Rightarrow> nat \<Rightarrow> u8 \<Rightarrow> nat \<Rightarrow> nat option" where
  "memscan m p c 0 = Some p"
| "memscan m p c (Suc n) = do { x \<leftarrow> m p; if x = c then Some p else memscan m (p + 1) c n }"

fun memchr :: "cmem \<Rightarrow> nat \<Rightarrow> u8 \<Rightarrow> nat \<Rightarrow> nat option" where
  "memchr m p c 0 = Some NULL"
| "memchr m p c (Suc n) = do { x \<leftarrow> m p; if c = x then Some p else memchr m (p + 1) c n }"

fun strstr_loop :: "cmem \<Rightarrow> nat \<Rightarrow> nat \<Rightarrow> nat \<Rightarrow> nat \<Rightarrow> nat option" where
  "strstr_loop m s1 s2 0 l2 = Some NULL"
| "strstr_loop m s1 s2 (Suc l1) l2 =
     (if l2 \<le> Suc l1
      then do { r \<leftarrow> memcmp m s1 s2 l2;
                if r = 0 then Some s1 else strstr_loop m (s1 + 1) s2 l1 l2 }
      else Some NULL)"

definition strstr :: "cmem \<Rightarrow> nat \<Rightarrow> nat \<Rightarrow> nat option" where
  "strstr m s1 s2 =
     do { l2 \<leftarrow> strlen m s2;
          if l2 = 0 then Some s1
          else do { l1 \<leftarrow> strlen m s1; strstr_loop m s1 s2 l1 l2 } }"

end
