(* ===== verification/Div64.thy ===== *)
theory Div64
  imports Prelude "HOL-Library.Signed_Division"
begin

text \<open>
  lib/div64.c, include/div64.h and the bit searches of include/bitops.h: division of 64-bit numbers
  on a 32-bit machine.  A division by zero is a processor trap and \<open>None\<close>.  The lemmas show
  \<open>do_div64\<close> and the functions over it to be division with remainder, \<open>div_s64_rem\<close> to be the
  division that truncates, and \<open>div64_u64\<close> to be exact only for divisors below \<open>2 ^ 32\<close>.
\<close>

subsection \<open>Bit searches (include/asm/bitops.h)\<close>

text \<open>The instructions \<open>bsf\<close> and \<open>bsr\<close>: the least and the greatest set bit of a nonzero word.\<close>

definition bsf :: "u32 \<Rightarrow> nat" where
  "bsf w = hd (filter (bit w) [0..<32])"
definition bsr :: "u32 \<Rightarrow> nat" where
  "bsr w = last (filter (bit w) [0..<32])"

definition ffs :: "u32 \<Rightarrow> u32" where
  "ffs w = (if w = 0 then 0 else word_of_nat (bsf w) + 1)"
definition fls :: "u32 \<Rightarrow> u32" where
  "fls w = (if w = 0 then 0 else word_of_nat (bsr w) + 1)"
definition ffz :: "u32 \<Rightarrow> u32 option" where
  "ffz w = (if w = 0 then Some 0 else if NOT w = 0 then None else Some (word_of_nat (bsf (NOT w)) + 1))"
definition flz :: "u32 \<Rightarrow> u32 option" where
  "flz w = (if w = 0 then Some 0 else if NOT w = 0 then None else Some (word_of_nat (bsr (NOT w)) + 1))"

subsection \<open>The division\<close>

definition high_word :: "u64 \<Rightarrow> u32" where
  "high_word n = ucast (drop_bit 32 n)"

text \<open>\<open>while ((s64)b > 0 && b < rem)\<close>: doubling the divisor.\<close>

lemma sless_zero: "0 <s (b :: u64) \<longleftrightarrow> 0 < unat b \<and> unat b < 2 ^ 63"
proof -
  have "0 <s b \<longleftrightarrow> 0 < uint b \<and> uint b < 2 ^ 63"
    using uint_lt2p [of b] uint_ge_0 [of b] by (auto simp: word_sless_alt sint_cases)
  moreover have "0 < u \<and> u < 2 ^ 63 \<longleftrightarrow> 0 < nat u \<and> nat u < 2 ^ 63" for u :: int
    by (cases "0 \<le> u") (auto simp: nat_less_iff)
  ultimately show ?thesis by (simp only: unat_eq_nat_uint)
qed

function div64_up :: "u64 \<Rightarrow> u64 \<Rightarrow> u64 \<Rightarrow> u64 \<times> u64" where
  "div64_up b d rem = (if 0 <s b \<and> b < rem then div64_up (b + b) (d + d) rem else (b, d))"
  by pat_completeness auto
termination
proof (relation "measure (\<lambda>(b, d, rem). unat rem - unat b)")
  fix b d rem :: u64
  assume a: "0 <s b \<and> b < rem"
  then have "unat (b + b) = 2 * unat b" "0 < unat b" "unat b < unat rem"
    by (simp_all add: sless_zero unat_word_ariths word_less_nat_alt)
  then show "((b + b, d + d, rem), b, d, rem) \<in> measure (\<lambda>(b, d, rem). unat rem - unat b)"
    by simp
qed simp

declare div64_up.simps [simp del]

text \<open>The subtractions, while the divisor is halved back.\<close>

function div64_down :: "u64 \<Rightarrow> u64 \<Rightarrow> u64 \<Rightarrow> u64 \<Rightarrow> u64 \<times> u64" where
  "div64_down rem b d res =
     (let (rem, res) = (if b \<le> rem then (rem - b, res + d) else (rem, res));
          b = drop_bit 1 b; d = drop_bit 1 d
      in if d \<noteq> 0 then div64_down rem b d res else (res, rem))"
  by pat_completeness auto
termination
proof (relation "measure (\<lambda>(rem, b, d, res). unat d)")
  fix rem b d res :: u64 and x xa y b' d' :: u64
  assume d: "d' = drop_bit 1 d" "d' \<noteq> 0"
  have "unat d' = unat d div 2" by (simp add: d(1) drop_bit_eq_div unat_div)
  moreover have "0 < unat d'" using d(2) by (simp add: unat_gt_0)
  ultimately have "unat d' < unat d" by simp
  then show "((xa, b', d', y), rem, b, d, res) \<in> measure (\<lambda>(rem, b, d, res). unat d)" by simp
qed simp

declare div64_down.simps [simp del]

text \<open>\<open>__div64_32\<close>: the quotient (written back to \<open>*n\<close>) and the remainder.\<close>

definition div64_32 :: "u64 \<Rightarrow> u32 \<Rightarrow> (u64 \<times> u32) option" where
  "div64_32 n base =
     (let rem = n; b = ucast base; high = high_word rem in
      if base = 0 then None
      else let (rem, res) =
             (if base \<le> high
              then let high = high div base
                   in (rem - push_bit 32 (ucast (high * base)), push_bit 32 (ucast high))
              else (rem, 0));
             (b, d) = div64_up b 1 rem;
             (res, rem) = div64_down rem b d res
           in Some (res, ucast rem))"

definition do_div64 :: "u64 \<Rightarrow> u32 \<Rightarrow> (u64 \<times> u32) option" where
  "do_div64 n base =
     (if drop_bit 32 n = 0
      then (if base = 0 then None
            else Some (ucast ((ucast n :: u32) div base), (ucast n :: u32) mod base))
      else div64_32 n base)"

definition div_u64_rem :: "u64 \<Rightarrow> u32 \<Rightarrow> (u64 \<times> u32) option" where
  "div_u64_rem dividend divisor = do_div64 dividend divisor"

definition div_u64 :: "u64 \<Rightarrow> u32 \<Rightarrow> u64 option" where
  "div_u64 dividend divisor = do { (q, r) \<leftarrow> div_u64_rem dividend divisor; Some q }"

text \<open>\<open>s32\<close> and \<open>s64\<close> are the words read with their sign; negation wraps as two's complement.\<close>

definition abs_s32 :: "u32 \<Rightarrow> u32" where
  "abs_s32 x = (if 0 <s x then x else - x)"

definition div_s64_rem :: "u64 \<Rightarrow> u32 \<Rightarrow> (u64 \<times> u32) option" where
  "div_s64_rem dividend divisor =
     (if dividend <s 0
      then do { (quotient, remainder) \<leftarrow> div_u64_rem (- dividend) (abs_s32 divisor);
                let remainder = - remainder;
                let quotient = (if 0 <s divisor then - quotient else quotient);
                Some (quotient, remainder) }
      else do { (quotient, remainder) \<leftarrow> div_u64_rem dividend (abs_s32 divisor);
                let quotient = (if divisor <s 0 then - quotient else quotient);
                Some (quotient, remainder) })"

definition div_s64 :: "u64 \<Rightarrow> u32 \<Rightarrow> u64 option" where
  "div_s64 dividend divisor = do { (q, r) \<leftarrow> div_s64_rem dividend divisor; Some q }"

definition div64_u64 :: "u64 \<Rightarrow> u64 \<Rightarrow> u64 option" where
  "div64_u64 dividend divisor =
     (let high = high_word divisor in
      if high \<noteq> 0
      then let shift = unat (fls high)
           in div_u64 (drop_bit shift dividend) (ucast (drop_bit shift divisor))
      else div_u64 dividend (ucast divisor))"

text \<open>The iterative division never ends for divisor 0.\<close>

partial_function (option) iter_div_loop :: "u64 \<Rightarrow> u32 \<Rightarrow> u32 \<Rightarrow> (u32 \<times> u64) option" where
  "iter_div_loop dividend divisor ret =
     (if ucast divisor \<le> dividend then iter_div_loop (dividend - ucast divisor) divisor (ret + 1)
      else Some (ret, dividend))"

definition iter_div_u64_rem :: "u64 \<Rightarrow> u32 \<Rightarrow> (u32 \<times> u64) option" where
  "iter_div_u64_rem dividend divisor = iter_div_loop dividend divisor 0"

subsection \<open>Correctness\<close>

lemma unat_u64: "unat (n :: u64) < 2 ^ 64" and unat_u32: "unat (k :: u32) < 2 ^ 32"
  using unsigned_less [of n] unsigned_less [of k] by simp_all

lemma unat_high: "unat (high_word n) = unat n div 2 ^ 32"
proof -
  have "unat n div 2 ^ 32 < 2 ^ 32" using unat_u64 [of n] by simp
  then show ?thesis
    by (simp add: high_word_def drop_bit_eq_div unat_div unsigned_ucast_eq take_bit_nat_eq_self)
qed

lemma unat_ucast64 [simp]: "unat (ucast (k :: u32) :: u64) = unat k"
  by (simp add: unsigned_ucast_eq take_bit_nat_eq_self unat_u32 less_trans [OF unat_u32])

text \<open>Doubling: the divisor times a power of two, more than half of the dividend.\<close>

lemma div64_up_spec:
  "unat b = c * 2 ^ k \<Longrightarrow> unat d = 2 ^ k \<Longrightarrow> 0 < c \<Longrightarrow>
   \<exists>j. unat (fst (div64_up b d rem)) = c * 2 ^ j \<and> unat (snd (div64_up b d rem)) = 2 ^ j \<and>
     unat rem < 2 * (c * 2 ^ j)"
proof (induction b d rem arbitrary: k rule: div64_up.induct)
  case (1 b d rem)
  show ?case
  proof (cases "0 <s b \<and> b < rem")
    case True
    then have b: "unat b < 2 ^ 63" by (simp add: sless_zero)
    have "unat d \<le> unat b" using 1(2,3,4) by simp
    then have "2 * unat d < 2 ^ 64" "2 * unat b < 2 ^ 64" using b by simp_all
    then have "unat (b + b) = 2 * unat b" "unat (d + d) = 2 * unat d"
      by (simp_all add: unat_word_ariths)
    then have "unat (b + b) = c * 2 ^ Suc k" "unat (d + d) = 2 ^ Suc k"
      using 1(2,3) by simp_all
    from 1(1) [OF True this 1(4)] show ?thesis using True by (simp add: div64_up.simps [of b d rem])
  next
    case False
    then have e: "div64_up b d rem = (b, d)" by (simp only: div64_up.simps [of b d rem]) simp
    have "0 < unat b" using 1(2,4) by simp
    then have "2 ^ 63 \<le> unat b \<or> unat rem \<le> unat b"
      using False by (auto simp: sless_zero word_less_nat_alt)
    then have "unat rem < 2 * unat b" using unat_u64 [of rem] \<open>0 < unat b\<close> by auto
    then show ?thesis using 1(2,3) e by auto
  qed
qed

lemma div64_down_spec:
  "unat b = c * 2 ^ j \<Longrightarrow> unat d = 2 ^ j \<Longrightarrow> 0 < c \<Longrightarrow> unat rem < 2 * unat b \<Longrightarrow>
   unat res + unat rem div c < 2 ^ 64 \<Longrightarrow>
   unat (fst (div64_down rem b d res)) = unat res + unat rem div c \<and>
   unat (snd (div64_down rem b d res)) = unat rem mod c"
proof (induction j arbitrary: rem b d res)
  case 0
  then have d: "d = 1" by (simp add: word_unat_eq_iff)
  show ?case
  proof (cases "b \<le> rem")
    case True
    then have "unat rem div c = 1" "unat rem mod c = unat rem - c" 
      using 0 by (simp_all add: word_le_nat_alt div_nat_eqI mod_if [of "unat rem" c])
    then show ?thesis using True 0 d
      by (simp add: div64_down.simps [of rem b 1 res] drop_bit_eq_div unat_sub unat_word_ariths)
  next
    case False
    then have "unat rem < c" using 0 by (simp add: word_le_nat_alt)
    then show ?thesis using False d by (simp add: div64_down.simps [of rem b 1 res] drop_bit_eq_div)
  qed
next
  case (Suc j)
  define b' d' where "b' = drop_bit 1 b" and "d' = drop_bit 1 d"
  define rem' res' where "rem' = (if b \<le> rem then rem - b else rem)"
    and "res' = (if b \<le> rem then res + d else res)"
  have b': "unat b' = c * 2 ^ j" and d': "unat d' = 2 ^ j"
    using Suc.prems(1,2) by (simp_all add: b'_def d'_def drop_bit_eq_div unat_div)
  then have "d' \<noteq> 0" by (metis power_not_zero unat_0 zero_neq_numeral)
  then have "div64_down rem b d res = div64_down rem' b' d' res'"
    by (subst div64_down.simps) (simp add: rem'_def res'_def b'_def d'_def Let_def)
  moreover have "unat rem' < 2 * unat b' \<and> unat res' + unat rem' div c = unat res + unat rem div c \<and>
    unat rem' mod c = unat rem mod c"
  proof (cases "b \<le> rem")
    case True
    then have r: "unat rem' = unat rem - unat b" "unat b \<le> unat rem"
      by (simp_all add: rem'_def unat_sub word_le_nat_alt)
    then have rem: "unat rem = unat rem' + c * 2 ^ Suc j" using Suc.prems(1) by simp
    then have q: "unat rem div c = unat rem' div c + 2 ^ Suc j" using Suc.prems(3) by simp
    have "unat (res + d) = unat res + 2 ^ Suc j"
      using Suc.prems(2,5) q by (simp add: unat_word_ariths)
    moreover have "unat res' = unat res + 2 ^ Suc j" using True \<open>unat (res + d) = _\<close> by (simp add: res'_def)
    moreover have "unat b = 2 * unat b'" using Suc.prems(1) b' by simp
    then have "unat rem' < 2 * unat b'" using r Suc.prems(4) by linarith
    moreover have "unat rem' mod c = unat rem mod c" unfolding rem by simp
    ultimately show ?thesis using q by simp
  next
    case False
    then show ?thesis using Suc.prems(1) b' by (simp add: rem'_def res'_def word_le_nat_alt)
  qed
  ultimately show ?case using Suc.IH [OF b' d' Suc.prems(3), of rem' res'] Suc.prems(5) by simp
qed

text \<open>The division proper, for a divisor that is not zero.\<close>

lemma div64_32_spec:
  assumes "base \<noteq> 0"
  shows "\<exists>q r. div64_32 n base = Some (q, r) \<and> unat q = unat n div unat base \<and> unat r = unat n mod unat base"
proof -
  let ?c = "unat base" and ?n = "unat n" and ?h = "unat n div 2 ^ 32"
  have c: "0 < ?c" using assms by (simp add: unat_gt_0)
  define rem res where "rem = (if base \<le> high_word n
      then n - push_bit 32 (ucast (high_word n div base * base)) else n)"
    and "res = (if base \<le> high_word n then push_bit 32 (ucast (high_word n div base)) else (0 :: u64))"
  have nh: "?n = 2 ^ 32 * ?h + ?n mod 2 ^ 32" by simp
  have key: "unat res = 2 ^ 32 * (?h div ?c) \<and> unat rem = ?n - 2 ^ 32 * (?h div ?c * ?c)"
  proof (cases "base \<le> high_word n")
    case True
    have h32: "?h < 2 ^ 32" using unat_u64 [of n] by simp
    have le: "?h div ?c * ?c \<le> ?h" by (rule div_times_less_eq_dividend)
    have q: "unat (high_word n div base) = ?h div ?c" by (simp add: unat_div unat_high)
    have qc: "unat (high_word n div base * base) = ?h div ?c * ?c"
      using le h32 by (simp add: unat_word_ariths(2) q del: div_times_less_eq_dividend)
    have pb: "unat (push_bit 32 (ucast k :: u64)) = 2 ^ 32 * unat k" for k :: u32
      using unat_u32 [of k] by (simp add: push_bit_eq_mult unat_word_ariths(2))
    have "2 ^ 32 * (?h div ?c * ?c) \<le> 2 ^ 32 * ?h" using le by (rule mult_le_mono2)
    also have "\<dots> \<le> ?n" by (rule times_div_less_eq_dividend)
    finally have "push_bit 32 (ucast (high_word n div base * base)) \<le> n"
      by (simp add: word_le_nat_alt pb qc)
    then show ?thesis using True by (simp add: rem_def res_def pb q qc unat_sub)
  next
    case False
    then have "?h < ?c" by (simp add: word_le_nat_alt unat_high not_le)
    then show ?thesis using False by (simp add: rem_def res_def)
  qed
  have "2 ^ 32 * (?h div ?c * ?c) \<le> ?n"
    using mult_le_mono2 [OF div_times_less_eq_dividend [of ?h ?c], of "2 ^ 32"] nh by linarith
  then have split: "?n = unat rem + (2 ^ 32 * (?h div ?c)) * ?c" using key by (simp add: algebra_simps)
  have "?n div ?c = unat rem div ?c + 2 ^ 32 * (?h div ?c)" using c by (subst split) simp
  then have quo: "?n div ?c = unat res + unat rem div ?c" using key by simp
  have md: "?n mod ?c = unat rem mod ?c" by (subst split) simp
  obtain b d where bd: "div64_up (ucast base) 1 rem = (b, d)" by fastforce
  obtain j where j: "unat b = ?c * 2 ^ j" "unat d = 2 ^ j" "unat rem < 2 * (?c * 2 ^ j)"
    using div64_up_spec [of "ucast base" ?c 0 1 rem] c bd by auto
  obtain q r where qr: "div64_down rem b d res = (q, r)" by fastforce
  have "?n div ?c < 2 ^ 64" using unat_u64 [of n] div_le_dividend [of ?n ?c] by linarith
  then have dn: "unat q = ?n div ?c" "unat r = ?n mod ?c"
    using div64_down_spec [OF j(1,2) c, of rem res] j(1,3) quo md qr by simp_all
  have "unat r < 2 ^ 32" using dn(2) unat_u32 [of base] mod_less_divisor [OF c, of ?n] by simp
  then have "unat (ucast r :: u32) = unat r" by (simp add: unsigned_ucast_eq take_bit_nat_eq_self)
  moreover have "div64_32 n base = Some (q, ucast r)"
    using assms bd qr by (simp add: div64_32_def Let_def rem_def res_def split: if_splits)
  ultimately show ?thesis using dn by auto
qed

lemma do_div64_spec:
  assumes "base \<noteq> 0"
  shows "\<exists>q r. do_div64 n base = Some (q, r) \<and> unat q = unat n div unat base \<and> unat r = unat n mod unat base"
proof (cases "drop_bit 32 n = 0")
  case True
  then have "unat n div 2 ^ 32 = 0" by (metis drop_bit_eq_div unat_0 unat_div unat_drop_bit_eq drop_bit_nat_def)
  then have "unat n < 2 ^ 32" by (simp add: div_eq_0_iff)
  then have "unat (ucast n :: u32) = unat n" by (simp add: unsigned_ucast_eq take_bit_nat_eq_self)
  then show ?thesis using True assms by (simp add: do_div64_def unat_div unat_mod)
next
  case False
  then show ?thesis using div64_32_spec [OF assms, of n] by (simp add: do_div64_def)
qed

text \<open>The signed division truncates: it is \<open>sdiv\<close> and \<open>smod\<close> on the signed readings.\<close>

lemma unat_abs_s32: "int (unat (abs_s32 x)) = \<bar>sint x\<bar>"
proof -
  obtain u where u: "uint x = u" "0 \<le> u" "u < 2 ^ 32" using uint_lt2p [of x] uint_ge_0 [of x] by simp
  then show ?thesis
    by (auto simp: abs_s32_def word_sless_alt sint_cases uint_word_ariths(4) zmod_zminus1_eq_if split: if_splits)
qed

lemma unat_neg_s64: "dividend <s 0 \<Longrightarrow> int (unat (- dividend :: u64)) = \<bar>sint dividend\<bar>"
proof -
  obtain u where u: "uint dividend = u" "0 \<le> u" "u < 2 ^ 64"
    using uint_lt2p [of dividend] uint_ge_0 [of dividend] by simp
  then show "dividend <s 0 \<Longrightarrow> ?thesis"
    by (auto simp: word_sless_alt sint_cases uint_word_ariths(4) zmod_zminus1_eq_if split: if_splits)
qed

lemma word_of_int_nat: "x = word_of_int (int (unat x))"
  by simp

lemma div_s64_rem_spec:
  assumes "divisor \<noteq> 0"
  shows "div_s64_rem dividend divisor =
    Some (word_of_int (sint dividend sdiv sint divisor), word_of_int (sint dividend smod sint divisor))"
proof -
  let ?a = "sint dividend" and ?b = "sint divisor"
  have b0: "?b \<noteq> 0" using assms by (simp add: signed_eq_0_iff)
  have ab: "abs_s32 divisor \<noteq> 0" using b0 unat_abs_s32 [of divisor] by auto
  define n where "n = (if dividend <s 0 then - dividend else dividend)"
  have n: "int (unat n) = \<bar>?a\<bar>"
  proof (cases "dividend <s 0")
    case False
    then have "0 \<le> ?a" by (simp add: word_sless_alt)
    then have "?a = uint dividend"
      using uint_lt2p [of dividend] by (auto simp: sint_cases split: if_splits)
    then show ?thesis using False \<open>0 \<le> ?a\<close> by (simp add: n_def)
  next
    case True
    then have "n = - dividend" by (simp add: n_def)
    then show ?thesis using unat_neg_s64 [OF True] by (simp only:)
  qed
  obtain q r where qr: "do_div64 n (abs_s32 divisor) = Some (q, r)"
    "unat q = unat n div unat (abs_s32 divisor)" "unat r = unat n mod unat (abs_s32 divisor)"
    using do_div64_spec [OF ab] by blast
  have "int (unat q) = \<bar>?a\<bar> div \<bar>?b\<bar>" "int (unat r) = \<bar>?a\<bar> mod \<bar>?b\<bar>"
    unfolding qr(2,3) by (simp_all only: zdiv_int zmod_int n unat_abs_s32)
  then have q: "q = word_of_int (\<bar>?a\<bar> div \<bar>?b\<bar>)" and r: "r = word_of_int (\<bar>?a\<bar> mod \<bar>?b\<bar>)"
    by (metis word_of_int_nat)+
  have sd: "?a sdiv ?b = sgn ?a * sgn ?b * (\<bar>?a\<bar> div \<bar>?b\<bar>)" by (simp add: signed_divide_int_def)
  have sm: "?a smod ?b = sgn ?a * (\<bar>?a\<bar> mod \<bar>?b\<bar>)"
    by (simp add: signed_modulo_int_def)
  have neg: "- word_of_int k = (word_of_int (- k) :: 'z::len word)" for k by simp
  show ?thesis
  proof (cases "dividend <s 0")
    case True
    then have "?a < 0" by (simp add: word_sless_alt)
    then have g: "sgn ?a * (\<bar>?a\<bar> mod \<bar>?b\<bar>) = - (\<bar>?a\<bar> mod \<bar>?b\<bar>)"
      "sgn ?a * sgn ?b * (\<bar>?a\<bar> div \<bar>?b\<bar>) = (if 0 < ?b then - (\<bar>?a\<bar> div \<bar>?b\<bar>) else \<bar>?a\<bar> div \<bar>?b\<bar>)"
      using b0 by (simp_all add: sgn_if)
    have "div_s64_rem dividend divisor = Some (if 0 < ?b then - q else q, - r)"
      using True qr(1) by (simp add: div_s64_rem_def div_u64_rem_def n_def word_sless_alt)
    then show ?thesis unfolding sd sm g q r neg by simp
  next
    case False
    then have a: "0 \<le> ?a" by (simp add: word_sless_alt)
    then have g: "sgn ?a * (\<bar>?a\<bar> mod \<bar>?b\<bar>) = \<bar>?a\<bar> mod \<bar>?b\<bar>"
      "sgn ?a * sgn ?b * (\<bar>?a\<bar> div \<bar>?b\<bar>) = (if ?b < 0 then - (\<bar>?a\<bar> div \<bar>?b\<bar>) else \<bar>?a\<bar> div \<bar>?b\<bar>)"
      using b0 by (cases "?a = 0"; simp add: sgn_if)+
    have "div_s64_rem dividend divisor = Some (if ?b < 0 then - q else q, r)"
      using False qr(1) by (simp add: div_s64_rem_def div_u64_rem_def n_def word_sless_alt)
    then show ?thesis unfolding sd sm g q r neg by simp
  qed
qed

lemma iter_div_loop_spec:
  assumes "divisor \<noteq> 0"
  shows "iter_div_loop dividend divisor ret =
    Some (ret + word_of_nat (unat dividend div unat divisor), word_of_nat (unat dividend mod unat divisor))"
proof -
  have c: "0 < unat divisor" using assms by (simp add: unat_gt_0)
  show ?thesis
  proof (induction "unat dividend" arbitrary: dividend ret rule: less_induct)
    case less
    let ?n = "unat dividend" and ?c = "unat divisor"
    show ?case
    proof (cases "ucast divisor \<le> dividend")
      case True
      then have le: "?c \<le> ?n" by (simp add: word_le_nat_alt)
      have s: "unat (dividend - ucast divisor) = ?n - ?c" using True by (simp add: unat_sub)
      have "?n div ?c = Suc ((?n - ?c) div ?c)" "?n mod ?c = (?n - ?c) mod ?c"
        using le c by (simp_all add: div_if mod_if)
      then show ?thesis
        using less [of "dividend - ucast divisor" "ret + 1"] True s le c
        by (subst iter_div_loop.simps) simp
    next
      case False
      then have "?n < ?c" by (simp add: word_le_nat_alt)
      then show ?thesis using False by (subst iter_div_loop.simps) simp
    qed
  qed
qed

text \<open>For a nonzero divisor the 64-by-32-bit division computes quotient and remainder exactly, by
  the fast path and by the shift-and-subtract loop; the signed one truncates towards zero as C does,
  the iterative one agrees with them (its 32-bit quotient wraps), and \<open>div64_u64\<close> is exact when the
  divisor fits in 32 bits.\<close>

theorem div64_exact:
  assumes "base \<noteq> 0"
  shows "do_div64 n base = Some (word_of_nat (unat n div unat base), word_of_nat (unat n mod unat base)) \<and>
    div_u64 n base = Some (n div ucast base) \<and>
    div64_u64 n (ucast base) = Some (n div ucast base) \<and>
    div_s64_rem n base = Some (word_of_int (sint n sdiv sint base), word_of_int (sint n smod sint base)) \<and>
    iter_div_u64_rem n base = Some (word_of_nat (unat n div unat base), n mod ucast base)"
proof -
  obtain q r where qr: "do_div64 n base = Some (q, r)" "unat q = unat n div unat base" "unat r = unat n mod unat base"
    using do_div64_spec [OF assms] by blast
  have w: "q = word_of_nat (unat n div unat base)" "r = word_of_nat (unat n mod unat base)"
    by (simp_all flip: qr(2,3))
  have "unat (n div ucast base) = unat n div unat base" by (simp add: unat_div)
  then have q: "q = n div ucast base" using qr(2) by (simp add: word_unat_eq_iff)
  have down: "(ucast (ucast base :: u64) :: u32) = base"
    by (rule bit_word_eqI) (simp add: bit_ucast_iff)
  have hz: "high_word (ucast base) = 0" using unat_u32 [of base] by (simp add: word_unat_eq_iff unat_high)
  have "word_of_nat (unat n mod unat base) = n mod ucast base"
    by (simp flip: unat_ucast64 unat_mod)
  then show ?thesis
    using qr(1) w q hz down div_s64_rem_spec [OF assms, of n] iter_div_loop_spec [OF assms, of n 0]
    by (auto simp: div_u64_def div_u64_rem_def div64_u64_def iter_div_u64_rem_def Let_def)
qed

lemma div64_exact_witness: "div_u64 0x123456789A 0x1000 = Some 0x1234567"
  using div64_exact [of "0x1000" "0x123456789A"] by simp

text \<open>For a larger divisor \<open>div64_u64\<close> divides by its leading 32 bits and can return too much: here
  the dividend is smaller than the divisor and the quotient 1.\<close>

lemma div64_u64_inexact: "div64_u64 0x100000000 0x100000001 = Some 1"
proof -
  have "high_word 0x100000001 = 1" by (simp add: high_word_def drop_bit_eq_div)
  moreover have "fls 1 = 1" by (simp add: fls_def bsr_def bit_1_iff upt_rec)
  ultimately show ?thesis
    using div64_exact [of "0x80000000" "0x80000000"]
    by (simp add: div64_u64_def Let_def drop_bit_eq_div)
qed

end
