(* ===== verification/Vsprintf.thy ===== *)
theory Vsprintf
  imports Cstring Div64
begin

text \<open>
  lib/vsprintf.c: the conversions between numbers and strings, and the formatted printing into a
  buffer.  The argument list of include/stdarg.h is a pointer into the words of the caller's stack;
  here it is the list of the words not yet read, and reading past its end is \<open>None\<close> (as are accesses
  outside the memory and loops that never end).  \<open>end\<close> is the last byte of the buffer that may be
  written: each character is stored only if its place is not beyond it, and is counted in any case.
\<close>

subsection \<open>Reading numbers\<close>

definition digit_val :: "u8 \<Rightarrow> nat" where
  "digit_val c = (if isdigit c then unat c - 48 else unat (toupper c) - 65 + 10)"

text \<open>The choice of the base from the prefix when the caller gives base 0.\<close>

definition strto_base :: "cmem \<Rightarrow> nat \<Rightarrow> u32 \<Rightarrow> (nat \<times> u32) option" where
  "strto_base m cp base =
     (if base = 0
      then do { c \<leftarrow> m cp;
                if c = 48
                then do { d \<leftarrow> m (cp + 1);
                          if d = 120
                          then do { e \<leftarrow> m (cp + 2);
                                    if isxdigit e then Some (cp + 2, 16) else Some (cp + 1, 8) }
                          else Some (cp + 1, 8) }
                else Some (cp, 10) }
      else Some (cp, base))"

partial_function (option) strtoul_loop :: "cmem \<Rightarrow> nat \<Rightarrow> u32 \<Rightarrow> u32 \<Rightarrow> (u32 \<times> nat) option" where
  "strtoul_loop m cp base result =
     do { c \<leftarrow> m cp;
          if isxdigit c \<and> word_of_nat (digit_val c) < base
          then strtoul_loop m (cp + 1) base (result * base + word_of_nat (digit_val c))
          else Some (result, cp) }"

text \<open>The value and the end of the digits (what \<open>*endp\<close> is set to).\<close>

definition simple_strtoul :: "cmem \<Rightarrow> nat \<Rightarrow> u32 \<Rightarrow> (u32 \<times> nat) option" where
  "simple_strtoul m cp base =
     do { (cp, base) \<leftarrow> strto_base m cp base; strtoul_loop m cp base 0 }"

definition simple_strtol :: "cmem \<Rightarrow> nat \<Rightarrow> u32 \<Rightarrow> (u32 \<times> nat) option" where
  "simple_strtol m cp base =
     do { c \<leftarrow> m cp;
          if c = 45 then do { (v, endp) \<leftarrow> simple_strtoul m (cp + 1) base; Some (- v, endp) }
          else simple_strtoul m cp base }"

partial_function (option) strtoull_loop :: "cmem \<Rightarrow> nat \<Rightarrow> u32 \<Rightarrow> u64 \<Rightarrow> (u64 \<times> nat) option" where
  "strtoull_loop m cp base result =
     do { c \<leftarrow> m cp;
          if isxdigit c \<and> word_of_nat (digit_val c) < (ucast base :: u64)
          then strtoull_loop m (cp + 1) base (result * ucast base + word_of_nat (digit_val c))
          else Some (result, cp) }"

definition simple_strtoull :: "cmem \<Rightarrow> nat \<Rightarrow> u32 \<Rightarrow> (u64 \<times> nat) option" where
  "simple_strtoull m cp base =
     do { (cp, base) \<leftarrow> strto_base m cp base; strtoull_loop m cp base 0 }"

definition simple_strtoll :: "cmem \<Rightarrow> nat \<Rightarrow> u32 \<Rightarrow> (u64 \<times> nat) option" where
  "simple_strtoll m cp base =
     do { c \<leftarrow> m cp;
          if c = 45 then do { (v, endp) \<leftarrow> simple_strtoull m (cp + 1) base; Some (- v, endp) }
          else simple_strtoull m cp base }"

text \<open>The running value of \<open>skip_atoi\<close> is an \<open>int\<close>; its overflow is undefined in C and \<open>None\<close> here.\<close>

partial_function (option) skip_atoi_loop :: "cmem \<Rightarrow> nat \<Rightarrow> int \<Rightarrow> (int \<times> nat) option" where
  "skip_atoi_loop m s i =
     do { c \<leftarrow> m s;
          if isdigit c
          then (if i * 10 + uint c < 2 ^ 31 then skip_atoi_loop m (s + 1) (i * 10 + uint c - 48) else None)
          else Some (i, s) }"

definition skip_atoi :: "cmem \<Rightarrow> nat \<Rightarrow> (int \<times> nat) option" where
  "skip_atoi m s = skip_atoi_loop m s 0"

subsection \<open>Writing numbers\<close>

definition ZEROPAD :: u32 where "ZEROPAD = 1"
definition SIGN :: u32 where "SIGN = 2"
definition PLUS :: u32 where "PLUS = 4"
definition SPACE :: u32 where "SPACE = 8"
definition LEFT :: u32 where "LEFT = 16"
definition SPECIAL :: u32 where "SPECIAL = 32"
definition LARGE :: u32 where "LARGE = 64"

lemmas flag_defs = ZEROPAD_def SIGN_def PLUS_def SPACE_def LEFT_def SPECIAL_def LARGE_def

definition flag :: "u32 \<Rightarrow> u32 \<Rightarrow> bool" where
  "flag type f \<longleftrightarrow> type AND f \<noteq> 0"

text \<open>\<open>if (buf <= end) *buf = c; ++buf;\<close>\<close>

definition put :: "cmem \<Rightarrow> nat \<Rightarrow> nat \<Rightarrow> u8 \<Rightarrow> (cmem \<times> nat) option" where
  "put m buf e c =
     (if buf \<le> e then do { m \<leftarrow> store8 m buf c; Some (m, buf + 1) } else Some (m, buf + 1))"

fun puts :: "cmem \<Rightarrow> nat \<Rightarrow> nat \<Rightarrow> u8 list \<Rightarrow> (cmem \<times> nat) option" where
  "puts m buf e [] = Some (m, buf)"
| "puts m buf e (c # cs) = do { (m, buf) \<leftarrow> put m buf e c; puts m buf e cs }"

text \<open>\<open>while (size-- > 0) put c\<close>, with the value \<open>size\<close> has afterwards.\<close>

function pad_loop :: "cmem \<Rightarrow> nat \<Rightarrow> nat \<Rightarrow> u8 \<Rightarrow> int \<Rightarrow> (cmem \<times> nat \<times> int) option" where
  "pad_loop m buf e c sz =
     (if 0 < sz then do { (m, buf) \<leftarrow> put m buf e c; pad_loop m buf e c (sz - 1) }
      else Some (m, buf, sz - 1))"
  by pat_completeness auto
termination by (relation "measure (\<lambda>(m, buf, e, c, sz). nat sz)") auto

text \<open>\<open>while (i < precision--) put '0'\<close>\<close>

function prec_loop :: "cmem \<Rightarrow> nat \<Rightarrow> nat \<Rightarrow> int \<Rightarrow> int \<Rightarrow> (cmem \<times> nat) option" where
  "prec_loop m buf e i precision =
     (if i < precision then do { (m, buf) \<leftarrow> put m buf e 48; prec_loop m buf e i (precision - 1) }
      else Some (m, buf))"
  by pat_completeness auto
termination by (relation "measure (\<lambda>(m, buf, e, i, precision). nat (precision - i))") auto

declare pad_loop.simps [simp del] prec_loop.simps [simp del]

definition small_digits :: "u8 list" where
  "small_digits = List.map word_of_nat ([48..<58] @ [97..<123])"
definition large_digits :: "u8 list" where
  "large_digits = List.map word_of_nat ([48..<58] @ [65..<91])"

text \<open>The digits, least significant first, as they come to stand in \<open>tmp\<close>.\<close>

partial_function (option) digit_loop :: "u8 list \<Rightarrow> u32 \<Rightarrow> u64 \<Rightarrow> u8 list \<Rightarrow> u8 list option" where
  "digit_loop digits base num tmp =
     (if num \<noteq> 0
      then do { (q, r) \<leftarrow> do_div64 num base; digit_loop digits base q (tmp @ [digits ! unat r]) }
      else Some tmp)"

text \<open>The first part of \<open>number\<close>: the sign character (0 for none), the magnitude and the width left.\<close>

definition number_sign :: "u64 \<Rightarrow> int \<Rightarrow> u32 \<Rightarrow> u8 \<times> u64 \<times> int" where
  "number_sign num sz type =
     (if flag type SIGN
      then (if num <s 0 then (45, - num, sz - 1)
            else if flag type PLUS then (43, num, sz - 1)
            else if flag type SPACE then (32, num, sz - 1)
            else (0, num, sz))
      else (0, num, sz))"

definition number_tmp :: "u8 list \<Rightarrow> u32 \<Rightarrow> u64 \<Rightarrow> u8 list option" where
  "number_tmp digits base num = (if num = 0 then Some [48] else digit_loop digits base num [])"

text \<open>The second part: \<open>sz\<close> is what the width leaves beside the sign, the prefix and the
  \<open>precision\<close>, which is at least the number of digits.\<close>

definition number_out ::
  "cmem \<Rightarrow> nat \<Rightarrow> nat \<Rightarrow> u8 list \<Rightarrow> u32 \<Rightarrow> u32 \<Rightarrow> u8 \<Rightarrow> u8 \<Rightarrow> u8 list \<Rightarrow> int \<Rightarrow> int \<Rightarrow> (cmem \<times> nat) option" where
  "number_out m buf e digits base type c sign tmp precision sz =
     do { (m, buf, sz) \<leftarrow> (if \<not> flag type (ZEROPAD + LEFT) then pad_loop m buf e 32 sz else Some (m, buf, sz));
          (m, buf) \<leftarrow> (if sign \<noteq> 0 then put m buf e sign else Some (m, buf));
          (m, buf) \<leftarrow>
            (if flag type SPECIAL
             then if base = 8 then put m buf e 48
                  else if base = 16 then do { (m, buf) \<leftarrow> put m buf e 48; put m buf e (digits ! 33) }
                  else Some (m, buf)
             else Some (m, buf));
          (m, buf, sz) \<leftarrow> (if \<not> flag type LEFT then pad_loop m buf e c sz else Some (m, buf, sz));
          (m, buf) \<leftarrow> prec_loop m buf e (int (length tmp)) precision;
          (m, buf) \<leftarrow> puts m buf e (rev tmp);
          (m, buf, sz) \<leftarrow> pad_loop m buf e 32 sz;
          Some (m, buf) }"

definition number :: "cmem \<Rightarrow> nat \<Rightarrow> nat \<Rightarrow> u64 \<Rightarrow> u32 \<Rightarrow> int \<Rightarrow> int \<Rightarrow> u32 \<Rightarrow> (cmem \<times> nat) option" where
  "number m buf e num base sz precision type =
     (let digits = (if flag type LARGE then large_digits else small_digits);
          type = (if flag type LEFT then type AND NOT ZEROPAD else type)
      in if base < 2 \<or> 36 < base then Some (m, NULL)
      else
        let c = (if flag type ZEROPAD then 48 else 32);
            (sign, num, sz) = number_sign num sz type;
            sz = (if flag type SPECIAL then if base = 16 then sz - 2 else if base = 8 then sz - 1 else sz else sz)
        in do {
          tmp \<leftarrow> number_tmp digits base num;
          let precision = (if precision < int (length tmp) then int (length tmp) else precision);
          let sz = sz - precision;
          number_out m buf e digits base type c sign tmp precision sz })"

subsection \<open>Formatted printing\<close>

definition va_word :: "u32 list \<Rightarrow> (u32 \<times> u32 list) option" where
  "va_word args = (case args of [] \<Rightarrow> None | w # ws \<Rightarrow> Some (w, ws))"

text \<open>\<open>long long\<close>: two words, the low one first.\<close>

definition va_dword :: "u32 list \<Rightarrow> (u64 \<times> u32 list) option" where
  "va_dword args =
     do { (lo, args) \<leftarrow> va_word args; (hi, args) \<leftarrow> va_word args;
          Some (push_bit 32 (ucast hi) OR ucast lo, args) }"

text \<open>Stores of 16, 32 and 64 bits, little-endian.\<close>

definition store16 :: "cmem \<Rightarrow> nat \<Rightarrow> u32 \<Rightarrow> cmem option" where
  "store16 m p v = do { m \<leftarrow> store8 m p (ucast v); store8 m (p + 1) (ucast (drop_bit 8 v)) }"
definition store32 :: "cmem \<Rightarrow> nat \<Rightarrow> u32 \<Rightarrow> cmem option" where
  "store32 m p v = do { m \<leftarrow> store16 m p v; store16 m (p + 2) (drop_bit 16 v) }"
definition store64 :: "cmem \<Rightarrow> nat \<Rightarrow> u64 \<Rightarrow> cmem option" where
  "store64 m p v = do { m \<leftarrow> store32 m p (ucast v); store32 m (p + 4) (ucast (drop_bit 32 v)) }"

text \<open>The label \<open>repeat\<close>: the flags after the percent sign.\<close>

definition flag_of :: "u8 \<Rightarrow> u32" where
  "flag_of c = (if c = 45 then LEFT else if c = 43 then PLUS else if c = 32 then SPACE
     else if c = 35 then SPECIAL else if c = 48 then ZEROPAD else 0)"

partial_function (option) vs_flags :: "cmem \<Rightarrow> nat \<Rightarrow> u32 \<Rightarrow> (u32 \<times> nat) option" where
  "vs_flags m fmt flags =
     do { c \<leftarrow> m (fmt + 1);
          if flag_of c \<noteq> 0 then vs_flags m (fmt + 1) (flags OR flag_of c) else Some (flags, fmt + 1) }"

definition vs_width :: "cmem \<Rightarrow> nat \<Rightarrow> u32 list \<Rightarrow> u32 \<Rightarrow> (int \<times> u32 \<times> nat \<times> u32 list) option" where
  "vs_width m fmt args flags =
     do { c \<leftarrow> m fmt;
          if isdigit c then do { (w, fmt) \<leftarrow> skip_atoi m fmt; Some (w, flags, fmt, args) }
          else if c = 42
          then do { (w, args) \<leftarrow> va_word args;
                    if sint w < 0 then Some (- sint w, flags OR LEFT, fmt + 1, args)
                    else Some (sint w, flags, fmt + 1, args) }
          else Some (- 1, flags, fmt, args) }"

definition vs_precision :: "cmem \<Rightarrow> nat \<Rightarrow> u32 list \<Rightarrow> (int \<times> nat \<times> u32 list) option" where
  "vs_precision m fmt args =
     do { c \<leftarrow> m fmt;
          if c = 46
          then do { let fmt = fmt + 1;
                    c \<leftarrow> m fmt;
                    (precision, fmt, args) \<leftarrow>
                      (if isdigit c then do { (p, fmt) \<leftarrow> skip_atoi m fmt; Some (p, fmt, args) }
                       else if c = 42
                       then do { (p, args) \<leftarrow> va_word args; Some (sint p, fmt + 1, args) }
                       else Some (- 1, fmt, args));
                    Some (if precision < 0 then 0 else precision, fmt, args) }
          else Some (- 1, fmt, args) }"

text \<open>The qualifier, 0 for none (-1 in the code): \<open>h\<close>, \<open>l\<close>, \<open>L\<close> (also for \<open>ll\<close>) or \<open>Z\<close>.\<close>

definition vs_qualifier :: "cmem \<Rightarrow> nat \<Rightarrow> (u8 \<times> nat) option" where
  "vs_qualifier m fmt =
     do { c \<leftarrow> m fmt;
          if c = 104 \<or> c = 108 \<or> c = 76 \<or> c = 90
          then do { d \<leftarrow> m (fmt + 1);
                    if c = 108 \<and> d = 108 then Some (76, fmt + 2) else Some (c, fmt + 1) }
          else Some (0, fmt) }"

text \<open>The conversions \<open>c\<close> and \<open>s\<close>; their loops test \<open>--field_width > 0\<close> and \<open>len < field_width--\<close>.\<close>

definition vs_char :: "cmem \<Rightarrow> nat \<Rightarrow> nat \<Rightarrow> u32 list \<Rightarrow> u32 \<Rightarrow> int \<Rightarrow> (cmem \<times> nat \<times> u32 list) option" where
  "vs_char m str e args flags field_width =
     do { (m, str, field_width) \<leftarrow>
            (if \<not> flag flags LEFT
             then do { (m, str, w) \<leftarrow> pad_loop m str e 32 (field_width - 1); Some (m, str, w + 1) }
             else Some (m, str, field_width));
          (c, args) \<leftarrow> va_word args;
          (m, str) \<leftarrow> put m str e (ucast c);
          (m, str, w) \<leftarrow> pad_loop m str e 32 (field_width - 1);
          Some (m, str, args) }"

text \<open>Copying the first \<open>n\<close> characters of \<open>s\<close>.\<close>

fun put_from :: "cmem \<Rightarrow> nat \<Rightarrow> nat \<Rightarrow> nat \<Rightarrow> nat \<Rightarrow> (cmem \<times> nat) option" where
  "put_from m str e s 0 = Some (m, str)"
| "put_from m str e s (Suc n) =
     (if str \<le> e
      then do { c \<leftarrow> m s; m \<leftarrow> store8 m str c; put_from m (str + 1) e (s + 1) n }
      else put_from m (str + 1) e (s + 1) n)"

text \<open>\<open>null\<close> is the address of the literal \<open>"<NULL>"\<close>; the precision -1 becomes the largest size.\<close>

definition vs_string :: "nat \<Rightarrow> cmem \<Rightarrow> nat \<Rightarrow> nat \<Rightarrow> u32 list \<Rightarrow> u32 \<Rightarrow> int \<Rightarrow> int \<Rightarrow> (cmem \<times> nat \<times> u32 list) option" where
  "vs_string null m str e args flags field_width precision =
     do { (w, args) \<leftarrow> va_word args;
          let s = (if w = 0 then null else unat w);
          len \<leftarrow> strnlen m s (nat (precision mod 2 ^ 32));
          (m, str, field_width) \<leftarrow>
            (if \<not> flag flags LEFT
             then do { (m, str, k) \<leftarrow> pad_loop m str e 32 (field_width - int len); Some (m, str, k + int len) }
             else Some (m, str, field_width));
          (m, str) \<leftarrow> put_from m str e s len;
          (m, str, k) \<leftarrow> pad_loop m str e 32 (field_width - int len);
          Some (m, str, args) }"

text \<open>The argument of an integer conversion, extended to 64 bits with or without its sign.\<close>

definition vs_integer :: "u32 list \<Rightarrow> u8 \<Rightarrow> u32 \<Rightarrow> (u64 \<times> u32 list) option" where
  "vs_integer args qualifier flags =
     (if qualifier = 76 then va_dword args
      else if qualifier = 108
      then do { (w, args) \<leftarrow> va_word args;
                Some (if flag flags SIGN then scast w else ucast w, args) }
      else if qualifier = 90 then do { (w, args) \<leftarrow> va_word args; Some (ucast w, args) }
      else if qualifier = 104
      then do { (w, args) \<leftarrow> va_word args;
                Some (if flag flags SIGN then scast (ucast w :: u16) else ucast (ucast w :: u16), args) }
      else do { (w, args) \<leftarrow> va_word args;
                Some (if flag flags SIGN then scast w else ucast w, args) })"

text \<open>The base and the flags an integer conversion sets; \<open>None\<close> for another character.\<close>

definition vs_base :: "u8 \<Rightarrow> u32 \<Rightarrow> (u32 \<times> u32) option" where
  "vs_base c flags =
     (if c = 111 then Some (8, flags)
      else if c = 88 then Some (16, flags OR LARGE)
      else if c = 120 then Some (16, flags)
      else if c = 100 \<or> c = 105 then Some (10, flags OR SIGN)
      else if c = 117 then Some (10, flags)
      else None)"

text \<open>One directive, from its percent sign to its last character; \<open>buf\<close> is the start of the buffer.\<close>

definition vs_directive ::
  "nat \<Rightarrow> nat \<Rightarrow> cmem \<Rightarrow> nat \<Rightarrow> nat \<Rightarrow> nat \<Rightarrow> u32 list \<Rightarrow> (cmem \<times> nat \<times> nat \<times> u32 list) option" where
  "vs_directive null buf m str e fmt args =
     do { (flags, fmt) \<leftarrow> vs_flags m fmt 0;
          (field_width, flags, fmt, args) \<leftarrow> vs_width m fmt args flags;
          (precision, fmt, args) \<leftarrow> vs_precision m fmt args;
          (qualifier, fmt) \<leftarrow> vs_qualifier m fmt;
          c \<leftarrow> m fmt;
          if c = 99
          then do { (m, str, args) \<leftarrow> vs_char m str e args flags field_width; Some (m, str, fmt, args) }
          else if c = 115
          then do { (m, str, args) \<leftarrow> vs_string null m str e args flags field_width precision;
                    Some (m, str, fmt, args) }
          else if c = 112
          then do { (w, args) \<leftarrow> va_word args;
                    let (field_width, flags) =
                      (if field_width = - 1 then (8, flags OR ZEROPAD) else (field_width, flags));
                    (m, str) \<leftarrow> number m str e (ucast w) 16 field_width precision flags;
                    Some (m, str, fmt, args) }
          else if c = 110
          then do { (ip, args) \<leftarrow> va_word args;
                    m \<leftarrow> store32 m (unat ip) (word_of_int (int str - int buf));
                    Some (m, str, fmt, args) }
          else if c = 37
          then do { (m, str) \<leftarrow> put m str e 37; Some (m, str, fmt, args) }
          else case vs_base c flags of
            Some (base, flags) \<Rightarrow>
              do { (num, args) \<leftarrow> vs_integer args qualifier flags;
                   (m, str) \<leftarrow> number m str e num base field_width precision flags;
                   Some (m, str, fmt, args) }
          | None \<Rightarrow>
              do { (m, str) \<leftarrow> put m str e 37;
                   if c \<noteq> 0 then do { (m, str) \<leftarrow> put m str e c; Some (m, str, fmt, args) }
                   else Some (m, str, fmt - 1, args) } }"

partial_function (option) vs_loop ::
  "nat \<Rightarrow> nat \<Rightarrow> nat \<Rightarrow> cmem \<Rightarrow> nat \<Rightarrow> nat \<Rightarrow> u32 list \<Rightarrow> (cmem \<times> nat) option" where
  "vs_loop null buf e m str fmt args =
     do { c \<leftarrow> m fmt;
          if c = 0 then Some (m, str)
          else if c \<noteq> 37
          then do { (m, str) \<leftarrow> put m str e c; vs_loop null buf e m str (fmt + 1) args }
          else do { (m, str, fmt, args) \<leftarrow> vs_directive null buf m str e fmt args;
                    vs_loop null buf e m str (fmt + 1) args } }"

text \<open>The addresses of this routine wrap at 32 bits: a size that runs past the end of the address
  space leaves the buffer unbounded.\<close>

definition vs_end :: "nat \<Rightarrow> nat \<Rightarrow> nat \<times> nat" where
  "vs_end buf sz =
     (let e = (buf + sz + (2 ^ 32 - 1)) mod 2 ^ 32
      in if e < (buf + (2 ^ 32 - 1)) mod 2 ^ 32 then (2 ^ 32 - 1, (2 ^ 32 - buf) mod 2 ^ 32) else (e, sz))"

definition vsnprintf :: "nat \<Rightarrow> cmem \<Rightarrow> nat \<Rightarrow> nat \<Rightarrow> nat \<Rightarrow> u32 list \<Rightarrow> (cmem \<times> nat) option" where
  "vsnprintf null m buf sz fmt args =
     (let (e, sz) = vs_end buf sz in
      do { (m, str) \<leftarrow> vs_loop null buf e m buf fmt args;
           m \<leftarrow> (if str \<le> e then store8 m str 0 else if 0 < sz then store8 m e 0 else Some m);
           Some (m, str - buf) })"

definition vsprintf :: "nat \<Rightarrow> cmem \<Rightarrow> nat \<Rightarrow> nat \<Rightarrow> u32 list \<Rightarrow> (cmem \<times> nat) option" where
  "vsprintf null m buf fmt args = vsnprintf null m buf 0xFFFFFFFF fmt args"

text \<open>The variadic entry points: \<open>va_start\<close> makes the words after the format the argument list.\<close>

definition snprintf :: "nat \<Rightarrow> cmem \<Rightarrow> nat \<Rightarrow> nat \<Rightarrow> nat \<Rightarrow> u32 list \<Rightarrow> (cmem \<times> nat) option" where
  "snprintf null m buf sz fmt args = vsnprintf null m buf sz fmt args"

definition sprintf :: "nat \<Rightarrow> cmem \<Rightarrow> nat \<Rightarrow> nat \<Rightarrow> u32 list \<Rightarrow> (cmem \<times> nat) option" where
  "sprintf null m buf fmt args = vsprintf null m buf fmt args"

end
