(* ===== verification/Cstring_Spec.thy ===== *)
theory Cstring_Spec
  imports Cstring
begin

text \<open>
  What each function of lib/string.c computes, in terms of the strings and areas the memory holds:
  copies (overlap included for \<open>memmove\<close>), comparisons, searches, and the two tokenisers.  A source
  that overlaps the destination from below is the one case excluded for the forward copies.
\<close>

fun bytes :: "cmem \<Rightarrow> nat \<Rightarrow> u8 list \<Rightarrow> bool" where
  "bytes m a [] \<longleftrightarrow> True"
| "bytes m a (x # xs) \<longleftrightarrow> m a = Some x \<and> bytes m (Suc a) xs"

definition cstr :: "cmem \<Rightarrow> nat \<Rightarrow> u8 list \<Rightarrow> bool" where
  "cstr m a s \<longleftrightarrow> bytes m a (s @ [0]) \<and> 0 \<notin> set s"

definition writable :: "cmem \<Rightarrow> nat \<Rightarrow> nat \<Rightarrow> bool" where
  "writable m a n \<longleftrightarrow> (\<forall>i < n. m (a + i) \<noteq> None)"

definition mwrite :: "cmem \<Rightarrow> nat \<Rightarrow> u8 list \<Rightarrow> cmem" where
  "mwrite m a bs = (\<lambda>x. if a \<le> x \<and> x < a + length bs then Some (bs ! (x - a)) else m x)"

lemma bytes_append [simp]: "bytes m a (xs @ ys) \<longleftrightarrow> bytes m a xs \<and> bytes m (a + length xs) ys"
  by (induction m a xs rule: bytes.induct) auto

lemma bytes_nth: "bytes m a xs \<longleftrightarrow> (\<forall>i < length xs. m (a + i) = Some (xs ! i))"
proof (induction m a xs rule: bytes.induct)
  case (2 m a x xs)
  show ?case unfolding bytes.simps(2) 2 by (auto simp: less_Suc_eq_0_disj)
qed simp

text \<open>A byte stored; kept folded so that the simplifier sees the memory and not its updates.\<close>

definition mset :: "cmem \<Rightarrow> nat \<Rightarrow> u8 \<Rightarrow> cmem" where
  "mset m a v = m(a \<mapsto> v)"

lemma mset_apply: "mset m a v x = (if x = a then Some v else m x)"
  by (simp add: mset_def)

lemma mset_same [simp]: "mset m a v a = Some v" and mset_other [simp]: "x \<noteq> a \<Longrightarrow> mset m a v x = m x"
  by (simp_all add: mset_apply)

lemma bytes_cong: "(\<And>i. i < length xs \<Longrightarrow> m (a + i) = m' (a + i)) \<Longrightarrow> bytes m a xs \<longleftrightarrow> bytes m' a xs"
  by (simp add: bytes_nth)

lemma bytes_mset [simp]: "d < a \<or> a + length xs \<le> d \<Longrightarrow> bytes (mset m d v) a xs \<longleftrightarrow> bytes m a xs"
  by (rule bytes_cong) (auto simp: mset_apply)

lemma cstr_simps [simp]:
  "cstr m a [] \<longleftrightarrow> m a = Some 0"
  "cstr m a (x # xs) \<longleftrightarrow> m a = Some x \<and> x \<noteq> 0 \<and> cstr m (Suc a) xs"
  by (auto simp: cstr_def)

lemma cstr_append: "cstr m a (xs @ ys) \<longleftrightarrow> bytes m a xs \<and> 0 \<notin> set xs \<and> cstr m (a + length xs) ys"
  by (auto simp: cstr_def)

lemma cstr_bytes: "cstr m a s \<Longrightarrow> bytes m a (s @ [0])"
  by (simp add: cstr_def)

lemma writable_Suc [simp]: "writable m a (Suc n) \<longleftrightarrow> m a \<noteq> None \<and> writable m (Suc a) n"
  by (auto simp: writable_def less_Suc_eq_0_disj)

lemma writable_0 [simp]: "writable m a 0"
  by (simp add: writable_def)

lemma writable_mset [simp]: "writable m a n \<Longrightarrow> writable (mset m d v) a n"
  by (simp add: writable_def mset_apply)

lemma writable_bytes: "bytes m a xs \<Longrightarrow> n \<le> length xs \<Longrightarrow> writable m a n"
  by (simp add: writable_def bytes_nth)

lemma writable_le: "writable m a n \<Longrightarrow> k \<le> n \<Longrightarrow> writable m a k"
  by (simp add: writable_def)

lemma writable_nth: "writable m a n \<Longrightarrow> k < n \<Longrightarrow> \<exists>v. m (a + k) = Some v"
  by (simp add: writable_def)

lemma writable_add: "writable m a (n + k) \<longleftrightarrow> writable m a n \<and> writable m (a + n) k"
proof (induction n arbitrary: a)
  case (Suc n)
  show ?case using Suc [of "Suc a"] by simp
qed simp

lemma store8_Some [simp]: "m a \<noteq> None \<Longrightarrow> store8 m a v = Some (mset m a v)"
  by (simp add: store8_def mset_def)

lemma mwrite_simps: "mwrite m a [] = m" "mwrite m a (b # bs) = mwrite (mset m a b) (Suc a) bs"
  by (auto simp: mwrite_def fun_eq_iff nth_Cons' Suc_le_eq mset_apply)

lemma mwrite_append: "mwrite m a (bs @ cs) = mwrite (mwrite m a bs) (a + length bs) cs"
  by (induction bs arbitrary: m a) (simp_all add: mwrite_simps)

lemma mwrite_bytes: "bytes (mwrite m a bs) a bs"
  by (simp add: bytes_nth mwrite_def)

lemma mwrite_other: "x < a \<or> a + length bs \<le> x \<Longrightarrow> mwrite m a bs x = m x"
  by (auto simp: mwrite_def)

lemma bytes_mwrite_other:
  "d + length bs \<le> a \<or> a + length xs \<le> d \<Longrightarrow> bytes (mwrite m d bs) a xs \<longleftrightarrow> bytes m a xs"
  by (auto simp: bytes_nth mwrite_other)

lemma mwrite_cstr: "0 \<notin> set s \<Longrightarrow> cstr (mwrite m a (s @ [0])) a s"
  using mwrite_bytes [of m a "s @ [0]"] by (simp add: cstr_def)

subsection \<open>Areas\<close>

lemma memset_spec: "writable m s n \<Longrightarrow> memset m s c n = Some (mwrite m s (replicate n c))"
  by (induction n arbitrary: m s) (auto simp: mwrite_simps)

lemma memcpy_spec:
  "bytes m src bs \<Longrightarrow> writable m dest (length bs) \<Longrightarrow> dest \<le> src \<or> src + length bs \<le> dest \<Longrightarrow>
   memcpy m dest src (length bs) = Some (mwrite m dest bs)"
proof (induction bs arbitrary: m dest src)
  case (Cons b bs)
  then have "bytes (mset m dest b) (Suc src) bs" by auto
  then show ?case
    using Cons.IH [of "mset m dest b" "Suc src" "Suc dest"] Cons.prems
    by (auto simp: mwrite_simps)
qed (simp add: mwrite_simps)

lemma bcopy_memcpy: "bcopy m src dest n = memcpy m dest src n"
  by (induction n arbitrary: m src dest) simp_all

lemma memmove_up_memcpy: "memmove_up m dest src n = memcpy m dest src n"
  by (induction n arbitrary: m src dest) simp_all

lemma memmove_down_spec:
  "bytes m src bs \<Longrightarrow> writable m dest (length bs) \<Longrightarrow> src \<le> dest \<Longrightarrow>
   memmove_down m (dest + length bs) (src + length bs) (length bs) = Some (mwrite m dest bs)"
proof (induction bs arbitrary: m rule: rev_induct)
  case (snoc b bs)
  let ?m = "mset m (dest + length bs) b"
  have w: "writable m dest (length bs)" "m (dest + length bs) \<noteq> None"
    using snoc.prems(2) writable_add [of m dest "length bs" 1] by simp_all
  have "memmove_down ?m (dest + length bs) (src + length bs) (length bs) = Some (mwrite ?m dest bs)"
    by (rule snoc.IH) (use snoc.prems w in auto)
  moreover have "mwrite ?m dest bs = mwrite m dest (bs @ [b])"
    by (auto simp: mwrite_def fun_eq_iff nth_append mset_apply)
  ultimately show ?case using snoc.prems w by simp
qed (simp add: mwrite_simps)

text \<open>\<open>memmove\<close> copies whatever the overlap.\<close>

lemma memmove_spec:
  assumes "bytes m src bs" "writable m dest (length bs)"
  shows "memmove m dest src (length bs) = Some (mwrite m dest bs)"
  using memcpy_spec [OF assms] memmove_down_spec [OF assms]
  by (simp add: memmove_def memmove_up_memcpy)

lemma memcmp_spec:
  "bytes m a xs \<Longrightarrow> bytes m b ys \<Longrightarrow> length xs = length ys \<Longrightarrow>
   \<exists>r. memcmp_loop m a b (length xs) 0 = Some r \<and> (r = 0 \<longleftrightarrow> xs = ys) \<and>
     (r < 0 \<longleftrightarrow> ord.lexordp (<) (List.map uint xs) (List.map uint ys))"
proof (induction xs arbitrary: a b ys)
  case (Cons x xs)
  then obtain y ys' where ys: "ys = y # ys'" by (cases ys) auto
  show ?case
  proof (cases "x = y")
    case True
    then show ?thesis using Cons.IH [of "Suc a" "Suc b" ys'] Cons.prems ys
      by (simp add: Let_def ord.lexordp.simps [of _ "_ # _"] ord.lexordp_simps)
  next
    case False
    then have "uint x \<noteq> uint y" by (simp add: word_uint_eq_iff)
    then show ?thesis using Cons.prems ys False
      by (auto simp: Let_def ord.lexordp_simps)
  qed
qed (simp add: ord.lexordp_simps)

lemma memcmp_eq_0:
  assumes "bytes m a xs" "bytes m b ys" "length xs = length ys"
  shows "\<exists>r. memcmp m a b (length xs) = Some r \<and> (r = 0 \<longleftrightarrow> xs = ys)"
  using memcmp_spec [OF assms] by (auto simp: memcmp_def)

lemma memscan_spec:
  "bytes m a xs \<Longrightarrow> memscan m a c (length xs) = Some (a + length (takeWhile (\<lambda>x. x \<noteq> c) xs))"
  by (induction xs arbitrary: a) auto

lemma memchr_spec:
  "bytes m a xs \<Longrightarrow> memchr m a c (length xs) =
     Some (if c \<in> set xs then a + length (takeWhile (\<lambda>x. x \<noteq> c) xs) else NULL)"
  by (induction xs arbitrary: a) auto

subsection \<open>Lengths and copies\<close>

declare mwrite_simps [simp]

text \<open>The loops unfolded once, for a byte that is known.\<close>

lemma str_end_step: "m p = Some c \<Longrightarrow> str_end m p = (if c \<noteq> 0 then str_end m (Suc p) else Some p)"
  by (subst str_end.simps) simp

lemma strlen_loop_step: "m p = Some c \<Longrightarrow> strlen_loop m p = (if c \<noteq> 0 then strlen_loop m (Suc p) else Some p)"
  by (subst strlen_loop.simps) simp

lemma strcpy_loop_step:
  "m src = Some c \<Longrightarrow> m dest \<noteq> None \<Longrightarrow> strcpy_loop m dest src =
     (if c \<noteq> 0 then strcpy_loop (mset m dest c) (Suc dest) (Suc src) else Some (mset m dest c))"
  by (subst strcpy_loop.simps) simp

lemma str_end_spec: "cstr m a s \<Longrightarrow> str_end m a = Some (a + length s)"
  by (induction s arbitrary: a) (simp_all add: str_end_step)

lemma strlen_loop_spec: "cstr m a s \<Longrightarrow> strlen_loop m a = Some (a + length s)"
  by (induction s arbitrary: a) (simp_all add: strlen_loop_step)

lemma strlen_spec: "cstr m a s \<Longrightarrow> strlen m a = Some (length s)"
  by (simp add: strlen_def strlen_loop_spec)

lemma strnlen_loop_spec: "cstr m a s \<Longrightarrow> strnlen_loop m a n = Some (a + min n (length s))"
proof (induction s arbitrary: a n)
  case Nil
  then show ?case by (cases n) simp_all
next
  case (Cons x s)
  then show ?case by (cases n) simp_all
qed

lemma strnlen_spec: "cstr m a s \<Longrightarrow> strnlen m a n = Some (min n (length s))"
  by (simp add: strnlen_def strnlen_loop_spec)

text \<open>The bytes of a string are found again behind the byte just written.\<close>

lemma cstr_mset [simp]: "d < a \<or> a + length s < d \<Longrightarrow> cstr (mset m d v) a s \<longleftrightarrow> cstr m a s"
  unfolding cstr_def by (subst bytes_mset) auto

lemma strcpy_loop_spec:
  "cstr m src s \<Longrightarrow> writable m dest (Suc (length s)) \<Longrightarrow> dest \<le> src \<or> src + length s < dest \<Longrightarrow>
   strcpy_loop m dest src = Some (mwrite m dest (s @ [0]))"
proof (induction s arbitrary: m dest src)
  case Nil
  then show ?case by (simp add: strcpy_loop_step)
next
  case (Cons x s)
  then have "cstr (mset m dest x) (Suc src) s" by auto
  then show ?case
    using Cons.IH [of "mset m dest x" "Suc src" "Suc dest"] Cons.prems
    by (auto simp: strcpy_loop_step)
qed

lemma strcpy_spec:
  assumes "cstr m src s" "writable m dest (Suc (length s))" "dest \<le> src \<or> src + length s < dest"
  shows "strcpy m dest src = Some (mwrite m dest (s @ [0]))"
  using strcpy_loop_spec [OF assms] by (simp add: strcpy_def)

lemma strncpy_spec:
  "cstr m src s \<Longrightarrow> writable m dest (min n (Suc (length s))) \<Longrightarrow> dest \<le> src \<or> src + length s < dest \<Longrightarrow>
   strncpy m dest src n = Some (mwrite m dest (take n (s @ [0])))"
proof (induction s arbitrary: m dest src n)
  case Nil
  then show ?case by (cases n) simp_all
next
  case (Cons x s)
  show ?case
  proof (cases n)
    case (Suc k)
    then have "cstr (mset m dest x) (Suc src) s" using Cons.prems by auto
    then show ?thesis
      using Cons.IH [of "mset m dest x" "Suc src" "Suc dest" k] Cons.prems Suc by auto
  qed simp
qed

lemma strcat_spec:
  assumes "cstr m dest t" "cstr m src s" "writable m dest (Suc (length t + length s))"
    and "dest + length t + length s < src \<or> src + length s < dest"
  shows "strcat m dest src = Some (mwrite m (dest + length t) (s @ [0])) \<and>
    cstr (mwrite m (dest + length t) (s @ [0])) dest (t @ s)"
proof
  have "writable m (dest + length t) (Suc (length s))"
    using assms(3) writable_add [of m dest "length t" "Suc (length s)"] by simp
  then show "strcat m dest src = Some (mwrite m (dest + length t) (s @ [0]))"
    using assms strcpy_loop_spec [OF assms(2), of "dest + length t"]
    by (auto simp: strcat_def str_end_spec)
  have "bytes (mwrite m (dest + length t) (s @ [0])) dest t"
    using assms(1) by (subst bytes_mwrite_other) (auto simp: cstr_def)
  then show "cstr (mwrite m (dest + length t) (s @ [0])) dest (t @ s)"
    using assms(1,2) mwrite_cstr [of s m "dest + length t"] by (simp add: cstr_append) (simp add: cstr_def)
qed

lemma strncat_loop_spec:
  "cstr m src s \<Longrightarrow> writable m dest (Suc (min n (length s))) \<Longrightarrow> dest \<le> src \<or> src + length s < dest \<Longrightarrow>
   0 < n \<Longrightarrow> strncat_loop m dest src n = Some (mwrite m dest (take n s @ [0]))"
proof (induction s arbitrary: m dest src n)
  case Nil
  then show ?case by (cases n) simp_all
next
  case (Cons x s)
  then obtain k where n: "n = Suc k" by (cases n) auto
  then have c: "cstr (mset m dest x) (Suc src) s" using Cons.prems by auto
  have w: "m dest \<noteq> None" "writable m (Suc dest) (Suc (min k (length s)))" using Cons.prems n by auto
  show ?case
  proof (cases "k = 0")
    case True
    then show ?thesis using Cons.prems n w by (auto simp: mset_apply)
  next
    case False
    then show ?thesis
      using Cons.IH [OF c, of "Suc dest" k] Cons.prems n w writable_mset [OF w(2)] by auto
  qed
qed

lemma strncat_spec:
  assumes "cstr m dest t" "cstr m src s" "writable m dest (Suc (length t + min n (length s)))" "0 < n"
    and "dest + length t + length s < src \<or> src + length s < dest"
  shows "strncat m dest src n = Some (mwrite m (dest + length t) (take n s @ [0]))"
proof -
  have "writable m (dest + length t) (Suc (min n (length s)))"
    using assms(3) writable_add [of m dest "length t" "Suc (min n (length s))"] by simp
  then show ?thesis
    using assms strncat_loop_spec [OF assms(2), of "dest + length t" n]
    by (auto simp: strncat_def str_end_spec)
qed

subsection \<open>Comparisons\<close>

text \<open>The truncated difference of two characters is right about equality, and right about the order
  when both are ASCII.\<close>

lemma char_diff_eq_0 [simp]: "char_diff a b = 0 \<longleftrightarrow> a = b"
proof -
  have "sint (a - b) = 0 \<longleftrightarrow> a - b = 0" by (rule signed_eq_0_iff)
  then show ?thesis by (simp only: char_diff_def right_minus_eq)
qed

lemma char_diff_same [simp]: "char_diff a a = 0"
  by simp

lemma char_diff_ascii: "a < 128 \<Longrightarrow> b < 128 \<Longrightarrow> char_diff a b = uint a - uint b"
proof -
  assume "a < 128" "b < 128"
  then have lt: "uint a < 128" "uint b < 128" by (simp_all add: word_less_def)
  have "sint (a - b) = signed_take_bit 7 (uint a - uint b)"
    by (simp add: sint_uint uint_word_ariths(2) take_bit_eq_mod signed_take_bit_eq_iff_take_bit_eq)
  also have "\<dots> = uint a - uint b"
  proof (rule signed_take_bit_int_eq_self)
    have "- 128 \<le> uint a - uint b" "uint a - uint b < 128"
      using lt uint_ge_0 [of a] uint_ge_0 [of b] by linarith+
    then show "- (2 ^ 7) \<le> uint a - uint b" "uint a - uint b < 2 ^ 7" by simp_all
  qed
  finally show ?thesis by (simp add: char_diff_def)
qed

definition ascii :: "u8 list \<Rightarrow> bool" where
  "ascii s \<longleftrightarrow> (\<forall>c \<in> set s. c < 128)"

lemma ascii_simps [simp]: "ascii []" "ascii (c # s) \<longleftrightarrow> c < 128 \<and> ascii s"
  by (simp_all add: ascii_def)

lemma strcmp_step:
  "m cs = Some a \<Longrightarrow> m ct = Some b \<Longrightarrow>
   strcmp m cs ct = (if a \<noteq> b \<or> a = 0 then Some (char_diff a b) else strcmp m (Suc cs) (Suc ct))"
  by (subst strcmp.simps) simp

lemma char_diff_neg: "a < 128 \<Longrightarrow> b < 128 \<Longrightarrow> char_diff a b < 0 \<longleftrightarrow> a < b"
  by (simp add: char_diff_ascii word_less_def)

lemma strcmp_spec:
  "cstr m a s \<Longrightarrow> cstr m b t \<Longrightarrow>
   \<exists>r. strcmp m a b = Some r \<and> (r = 0 \<longleftrightarrow> s = t) \<and>
     (ascii s \<and> ascii t \<longrightarrow> (r < 0 \<longleftrightarrow> ord_class.lexordp s t))"
proof (induction s arbitrary: a b t)
  case Nil
  show ?case
  proof (cases t)
    case (Cons y t')
    then show ?thesis using Nil by (auto simp: strcmp_step char_diff_neg word_neq_0_conv)
  qed (use Nil in \<open>simp add: strcmp_step\<close>)
next
  case (Cons x s)
  show ?case
  proof (cases t)
    case Nil
    then show ?thesis using Cons.prems by (auto simp: strcmp_step char_diff_neg)
  next
    case (Cons y t')
    show ?thesis
    proof (cases "x = y")
      case True
      then show ?thesis using Cons Cons.IH [of "Suc a" "Suc b" t'] Cons.prems by (auto simp: strcmp_step)
    next
      case False
      then show ?thesis using Cons Cons.prems by (auto simp: strcmp_step char_diff_neg)
    qed
  qed
qed

lemma strncmp_spec:
  "cstr m a s \<Longrightarrow> cstr m b t \<Longrightarrow>
   \<exists>r. strncmp_loop m a b n 0 = Some r \<and> (r = 0 \<longleftrightarrow> take n s = take n t) \<and>
     (ascii s \<and> ascii t \<longrightarrow> (r < 0 \<longleftrightarrow> ord_class.lexordp (take n s) (take n t)))"
proof (induction s arbitrary: a b t n)
  case Nil
  then show ?case by (cases n; cases t) (auto simp: char_diff_neg word_neq_0_conv)
next
  case (Cons x s)
  show ?case
  proof (cases n)
    case (Suc k)
    show ?thesis
    proof (cases t)
      case Nil
      then show ?thesis using Cons.prems Suc by (auto simp: char_diff_neg)
    next
      case (Cons y t')
      show ?thesis
      proof (cases "x = y")
        case True
        then show ?thesis using Cons Cons.IH [of "Suc a" "Suc b" t' k] Cons.prems Suc
          by auto
      next
        case False
        then show ?thesis using Cons Cons.prems Suc by (auto simp: char_diff_neg)
      qed
    qed
  qed simp
qed

lemma tolower_eq_0 [simp]: "tolower c = 0 \<longleftrightarrow> c = 0"
  using uint_tolower [of c] uint_ge_0 [of c] by (auto simp: word_uint_eq_iff byte_defs split: if_splits)

lemma strnicmp_spec:
  "cstr m a s \<Longrightarrow> cstr m b t \<Longrightarrow>
   \<exists>r. strnicmp_loop m a b n c c = Some r \<and>
     (fst r = snd r \<longleftrightarrow> List.map tolower (take n s) = List.map tolower (take n t))"
proof (induction s arbitrary: a b t n c)
  case Nil
  then show ?case by (cases n; cases t) auto
next
  case (Cons x s)
  show ?case
  proof (cases n)
    case (Suc k)
    show ?thesis
    proof (cases t)
      case Nil
      then show ?thesis using Cons.prems Suc by auto
    next
      case (Cons y t')
      then show ?thesis
        using Cons.IH [of "Suc a" "Suc b" t' k x] Cons.IH [of "Suc a" "Suc b" t' k "tolower x"] Cons.prems Suc
        by (auto simp: Let_def)
    qed
  qed simp
qed

subsection \<open>Searches\<close>

lemma strchr_step:
  "m s = Some x \<Longrightarrow> strchr m s c = (if x \<noteq> c then if x = 0 then Some NULL else strchr m (Suc s) c else Some s)"
  by (subst strchr.simps) simp

lemma strspn_in_step:
  "m a = Some y \<Longrightarrow> strspn_in m x a = (if y \<noteq> 0 then if x = y then Some a else strspn_in m x (Suc a) else Some a)"
  by (subst strspn_in.simps) simp

lemma strpbrk_in_step:
  "m a = Some y \<Longrightarrow> strpbrk_in m x a = (if y \<noteq> 0 then if x = y then Some True else strpbrk_in m x (Suc a) else Some False)"
  by (subst strpbrk_in.simps) simp

definition find :: "nat \<Rightarrow> (u8 \<Rightarrow> bool) \<Rightarrow> u8 list \<Rightarrow> nat" where
  "find a P s = a + length (takeWhile (\<lambda>x. \<not> P x) s)"

lemma find_simps [simp]: "find a P [] = a" "find a P (x # s) = (if P x then a else find (Suc a) P s)"
  by (simp_all add: find_def)

lemma strchr_spec:
  "cstr m a s \<Longrightarrow> strchr m a c = Some (if c = 0 \<or> c \<in> set s then find a (\<lambda>x. x = c) s else NULL)"
  by (induction s arbitrary: a) (auto simp: strchr_step)

lemma memscan_find: "bytes m a xs \<Longrightarrow> memscan m a c (length xs) = Some (find a (\<lambda>x. x = c) xs)"
  by (simp add: memscan_spec find_def)

text \<open>The last occurrence: the pointer found is the one the search from the left over the reversed
  string would find.\<close>

lemma strrchr_loop_spec:
  "bytes m a xs \<Longrightarrow> xs \<noteq> [] \<Longrightarrow> strrchr_loop m a c (length xs - 1) =
     Some (if c \<in> set xs then a + length (dropWhile (\<lambda>x. x \<noteq> c) (rev xs)) - 1 else NULL)"
proof (induction xs rule: rev_induct)
  case (snoc x xs)
  show ?case
  proof (cases xs)
    case (Cons y ys)
    then have "length (xs @ [x]) - 1 = Suc (length xs - 1)" "m (a + Suc (length xs - 1)) = Some x"
      using snoc.prems by simp_all
    then show ?thesis using snoc Cons by auto
  qed (use snoc in simp)
qed simp

lemma strrchr_spec:
  assumes "cstr m a s"
  shows "strrchr m a c =
    Some (if c \<in> set (s @ [0]) then a + length (dropWhile (\<lambda>x. x \<noteq> c) (rev (s @ [0]))) - 1 else NULL)"
  using strrchr_loop_spec [OF cstr_bytes [OF assms], of c] strlen_spec [OF assms]
  by (simp add: strrchr_def)

lemma strspn_in_spec: "cstr m a s \<Longrightarrow> x \<noteq> 0 \<Longrightarrow> strspn_in m x a = Some (find a (\<lambda>y. y = x) s)"
  by (induction s arbitrary: a) (auto simp: strspn_in_step)

lemma cstr_find: "cstr m a s \<Longrightarrow> x \<noteq> 0 \<Longrightarrow> m (find a (\<lambda>y. y = x) s) = Some (if x \<in> set s then x else 0)"
  by (induction s arbitrary: a) auto

lemma strspn_loop_step:
  assumes "m p = Some x" "cstr m acc d"
  shows "strspn_loop m p acc k =
    (if x = 0 \<or> x \<notin> set d then Some k else strspn_loop m (Suc p) acc (Suc k))"
  using assms cstr_find [OF assms(2), of x] strspn_in_spec [OF assms(2), of x]
  by (subst strspn_loop.simps) (auto simp: Let_def)

lemma strspn_spec:
  "cstr m a s \<Longrightarrow> cstr m acc d \<Longrightarrow> strspn m a acc = Some (length (takeWhile (\<lambda>x. x \<in> set d) s))"
proof -
  have "strspn_loop m a acc k = Some (k + length (takeWhile (\<lambda>x. x \<in> set d) s))"
    if "cstr m a s" "cstr m acc d" for k using that
    by (induction s arbitrary: a k) (simp_all add: strspn_loop_step)
  then show "cstr m a s \<Longrightarrow> cstr m acc d \<Longrightarrow> ?thesis" by (simp add: strspn_def)
qed

lemma strpbrk_in_spec: "cstr m a d \<Longrightarrow> strpbrk_in m x a = Some (x \<in> set d)"
  by (induction d arbitrary: a) (auto simp: strpbrk_in_step)

lemma strpbrk_step:
  assumes "m p = Some x" "cstr m ct d"
  shows "strpbrk m p ct =
    (if x = 0 then Some NULL else if x \<in> set d then Some p else strpbrk m (Suc p) ct)"
  using assms strpbrk_in_spec [OF assms(2), of x] by (subst strpbrk.simps) simp

lemma strpbrk_spec:
  "cstr m a s \<Longrightarrow> cstr m ct d \<Longrightarrow>
   strpbrk m a ct = Some (if set s \<inter> set d = {} then NULL else find a (\<lambda>x. x \<in> set d) s)"
  by (induction s arbitrary: a) (auto simp: strpbrk_step)

lemma cstr_find_set:
  "cstr m a s \<Longrightarrow> set s \<inter> D \<noteq> {} \<Longrightarrow> \<exists>y. m (find a (\<lambda>x. x \<in> D) s) = Some y \<and> y \<noteq> 0"
  by (induction s arbitrary: a) auto

subsection \<open>Tokens\<close>

text \<open>\<open>span\<close>: the token up to the first delimiter and what follows the delimiter, if there is one.\<close>

definition token :: "u8 list \<Rightarrow> u8 list \<Rightarrow> u8 list" where
  "token d s = takeWhile (\<lambda>x. x \<notin> set d) s"

definition rest_of :: "u8 list \<Rightarrow> u8 list \<Rightarrow> u8 list option" where
  "rest_of d s = (case dropWhile (\<lambda>x. x \<notin> set d) s of [] \<Rightarrow> None | x # r \<Rightarrow> Some r)"

lemma rest_of_None: "rest_of d s = None \<longleftrightarrow> set s \<inter> set d = {}"
proof -
  have "rest_of d s = None \<longleftrightarrow> dropWhile (\<lambda>x. x \<notin> set d) s = []"
    by (cases "dropWhile (\<lambda>x. x \<notin> set d) s") (simp_all add: rest_of_def del: dropWhile_eq_Nil_conv)
  then show ?thesis by (auto simp: dropWhile_eq_Nil_conv)
qed

lemma rest_of_Some: "rest_of d s = Some r \<Longrightarrow> \<exists>x \<in> set d. s = token d s @ x # r"
  using takeWhile_dropWhile_id [of "\<lambda>x. x \<notin> set d" s]
  by (auto simp: rest_of_def token_def dropWhile_eq_Cons_conv split: list.splits)

lemma token_None: "rest_of d s = None \<Longrightarrow> token d s = s"
  unfolding rest_of_None token_def by (auto intro: takeWhile_eq_all_conv [THEN iffD2])

lemma strsep_spec:
  assumes "cstr m a s" "cstr m ct d" "a \<noteq> NULL" "\<forall>i < Suc (length d). ct + i < a \<or> a + length s < ct + i"
  shows "case rest_of d s of
      None \<Rightarrow> strsep m a ct = Some (m, NULL, a) \<and> cstr m a (token d s)
    | Some r \<Rightarrow> \<exists>m'. strsep m a ct = Some (m', a + length (token d s) + 1, a) \<and>
        cstr m' a (token d s) \<and> cstr m' (a + length (token d s) + 1) r \<and> cstr m' ct d"
proof (cases "rest_of d s")
  case None
  then show ?thesis
    using assms strpbrk_spec [OF assms(1,2)] token_None [OF None] rest_of_None [THEN iffD1, OF None]
    by (simp add: strsep_def NULL_def)
next
  case (Some r)
  obtain x where x: "x \<in> set d" "s = token d s @ x # r" using rest_of_Some [OF Some] by blast
  let ?p = "a + length (token d s)"
  let ?m = "mset m ?p 0"
  have "strpbrk m a ct = Some ?p"
    using strpbrk_spec [OF assms(1,2)] rest_of_None [of d s] Some by (simp add: find_def token_def)
  moreover have c: "bytes m a (token d s)" "0 \<notin> set (token d s)" "m ?p = Some x" "cstr m (Suc ?p) r"
    using assms(1) x(2) cstr_append [of m a "token d s" "x # r"] by simp_all
  ultimately have "strsep m a ct = Some (?m, ?p + 1, a)"
    using assms(3) by (simp add: strsep_def NULL_def)
  moreover have "cstr ?m a (token d s)" using c by (simp add: cstr_def)
  moreover have "cstr ?m (?p + 1) r" using c by simp
  moreover have "cstr ?m ct d"
  proof -
    have len: "length s = length (token d s) + Suc (length r)" using arg_cong [OF x(2), of length] by simp
    have "bytes ?m ct (d @ [0]) \<longleftrightarrow> bytes m ct (d @ [0])"
    proof (rule bytes_cong)
      fix i assume "i < length (d @ [0])"
      then have "ct + i < a \<or> a + length s < ct + i" using assms(4) by simp
      then have "ct + i \<noteq> ?p" using len by linarith
      then show "?m (ct + i) = m (ct + i)" by simp
    qed
    then show ?thesis using assms(2) unfolding cstr_def by blast
  qed
  ultimately show ?thesis using Some by auto
qed

text \<open>\<open>strtok\<close> skips the leading delimiters and then takes a token as \<open>strsep\<close> does.\<close>

lemma strtok_strsep:
  assumes "cstr m p s" "cstr m ct d" "p = (if a \<noteq> NULL then a else tok)" "p \<noteq> NULL"
  shows "strtok m tok a ct =
    (if dropWhile (\<lambda>x. x \<in> set d) s = [] then Some (m, NULL, NULL)
     else strsep m (p + length (takeWhile (\<lambda>x. x \<in> set d) s)) ct)"
proof -
  let ?t = "takeWhile (\<lambda>x. x \<in> set d) s" and ?u = "dropWhile (\<lambda>x. x \<in> set d) s"
  let ?q = "p + length ?t"
  have "cstr m p (?t @ ?u)" using assms(1) by simp
  then have q: "cstr m ?q ?u" by (simp add: cstr_append del: takeWhile_dropWhile_id)
  note sp = strspn_spec [OF assms(1,2)]
  show ?thesis
  proof (cases ?u)
    case Nil
    have "m ?q = Some 0" using q unfolding Nil by simp
    then show ?thesis using sp assms(3,4) Nil
      by (simp add: strtok_def Let_def del: dropWhile_eq_Nil_conv)
  next
    case (Cons x u)
    have x: "m ?q = Some x" "x \<noteq> 0" using q Cons by simp_all
    note pb = strpbrk_spec [OF q assms(2)]
    obtain e where e: "strpbrk m ?q ct = Some e" "e \<noteq> NULL \<Longrightarrow> \<exists>y. m e = Some y \<and> y \<noteq> 0"
      using pb cstr_find_set [OF q, of "set d"] by (cases "set ?u \<inter> set d = {}") simp_all
    have "?q \<noteq> NULL" using assms(4) by (simp add: NULL_def)
    then show ?thesis using sp x e assms(3,4) Cons
      by (cases "e = NULL") (auto simp: strtok_def strsep_def Let_def)
  qed
qed

fun find_sub :: "u8 list \<Rightarrow> u8 list \<Rightarrow> nat option" where
  "find_sub t [] = (if t = [] then Some 0 else None)"
| "find_sub t (x # s) = (if take (length t) (x # s) = t then Some 0 else map_option Suc (find_sub t s))"

lemma find_sub_Some:
  "find_sub t s = Some i \<Longrightarrow> take (length t) (drop i s) = t \<and> (\<forall>j < i. take (length t) (drop j s) \<noteq> t)"
proof (induction s arbitrary: i)
  case (Cons x s)
  then show ?case by (auto simp: less_Suc_eq_0_disj split: if_splits)
qed (auto split: if_splits)

lemma find_sub_None: "find_sub t s = None \<Longrightarrow> take (length t) (drop i s) \<noteq> t"
proof (induction s arbitrary: i)
  case (Cons x s)
  then show ?case by (cases i) (auto split: if_splits)
qed (auto split: if_splits)

lemma strstr_loop_spec:
  "cstr m a s \<Longrightarrow> cstr m b t \<Longrightarrow> t \<noteq> [] \<Longrightarrow>
   strstr_loop m a b (length s) (length t) =
     Some (case find_sub t s of None \<Rightarrow> NULL | Some i \<Rightarrow> a + i)"
proof (induction s arbitrary: a)
  case (Cons x s)
  let ?n = "length t"
  show ?case
  proof (cases "?n \<le> length (x # s)")
    case True
    have "bytes m a (take ?n (x # s) @ drop ?n (x # s))"
      using Cons.prems(1) by (simp add: cstr_def del: bytes.simps) simp
    then have "bytes m a (take ?n (x # s))" by (simp only: bytes_append)
    moreover have "bytes m b t" using Cons.prems(2) by (simp add: cstr_def)
    moreover have "length (take ?n (x # s)) = ?n" using True by simp
    ultimately obtain r where "memcmp m a b ?n = Some r" "r = 0 \<longleftrightarrow> take ?n (x # s) = t"
      using memcmp_eq_0 by metis
    moreover have "strstr_loop m (Suc a) b (length s) ?n =
        Some (case find_sub t s of None \<Rightarrow> NULL | Some i \<Rightarrow> Suc a + i)"
      by (rule Cons.IH) (use Cons.prems in simp_all)
    ultimately show ?thesis using True by (cases "find_sub t s") simp_all
  next
    case False
    have "find_sub t (x # s) = None"
    proof (rule ccontr)
      assume "find_sub t (x # s) \<noteq> None"
      then obtain i where "find_sub t (x # s) = Some i" by blast
      then have "take ?n (drop i (x # s)) = t" using find_sub_Some by blast
      then have "?n = length (take ?n (drop i (x # s)))" by simp
      then show False using False by simp
    qed
    then show ?thesis using False by simp
  qed
qed simp

lemma strstr_spec:
  "cstr m a s \<Longrightarrow> cstr m b t \<Longrightarrow> strstr m a b = Some (case find_sub t s of None \<Rightarrow> NULL | Some i \<Rightarrow> a + i)"
  using strstr_loop_spec [of m a s b t] strlen_spec [of m a s] strlen_spec [of m b t]
  by (cases "t = []"; cases s) (simp_all add: strstr_def)

end
