(* ===== verification/Vsprintf_Spec.thy ===== *)
theory Vsprintf_Spec
  imports Vsprintf Cstring_Spec
begin

text \<open>
  What lib/vsprintf.c computes.  All output goes through \<open>puts\<close>, which writes a list of characters
  cut off at the end of the buffer (\<open>puts_emit\<close>); \<open>number\<close> is \<open>puts\<close> of an explicit text
  (\<open>number_text\<close>), and reading that text back with \<open>simple_strtoul\<close> gives the number again.
\<close>

subsection \<open>Characters into a bounded buffer\<close>

lemma puts_append: "puts m buf e (xs @ ys) = do { (m, buf) \<leftarrow> puts m buf e xs; puts m buf e ys }"
proof (induction xs arbitrary: m buf)
  case (Cons x xs)
  then show ?case by (cases "put m buf e x") (simp_all add: split_beta)
qed simp

lemma put_puts: "put m buf e c = puts m buf e [c]"
  by (cases "put m buf e c") (auto simp: split_beta)

lemma puts_one: "puts m buf e [c] = put m buf e c"
  by (rule put_puts [symmetric])

lemma puts_two: "puts m buf e [a, b] = do { (m, buf) \<leftarrow> put m buf e a; put m buf e b }"
  unfolding puts.simps(2) [of m buf e a] puts_one ..

lemma pad_loop_puts:
  "pad_loop m buf e c sz =
     do { (m, buf) \<leftarrow> puts m buf e (replicate (nat sz) c); Some (m, buf, min sz 0 - 1) }"
proof (induction "nat sz" arbitrary: m buf sz)
  case 0
  then show ?case by (simp add: pad_loop.simps [of m buf e c sz])
next
  case (Suc n)
  then have s: "0 < sz" "n = nat (sz - 1)" "nat sz = Suc (nat (sz - 1))" "min (sz - 1) 0 = min sz 0" by auto
  show ?case unfolding pad_loop.simps [of m buf e c sz] s(3)
    using s(1) Suc.hyps(1) [OF s(2)] s(4) by (cases "put m buf e c") (simp_all add: split_beta)
qed

lemma prec_loop_puts: "prec_loop m buf e i p = puts m buf e (replicate (nat (p - i)) 48)"
proof (induction "nat (p - i)" arbitrary: m buf p)
  case 0
  then show ?case by (simp add: prec_loop.simps [of m buf e i p])
next
  case (Suc n)
  then have s: "i < p" "n = nat (p - 1 - i)" "nat (p - i) = Suc (nat (p - 1 - i))" by auto
  show ?case unfolding prec_loop.simps [of m buf e i p] s(3)
    using s(1) Suc.hyps(1) [OF s(2)] by (cases "put m buf e 48") (simp_all add: split_beta)
qed

text \<open>A buffer whose bytes are all accessible.\<close>

definition room :: "cmem \<Rightarrow> nat \<Rightarrow> nat \<Rightarrow> bool" where
  "room m b e \<longleftrightarrow> (\<forall>x. b \<le> x \<and> x \<le> e \<longrightarrow> m x \<noteq> None)"

definition emit :: "cmem \<Rightarrow> nat \<Rightarrow> nat \<Rightarrow> u8 list \<Rightarrow> cmem" where
  "emit m b e cs = mwrite m b (take (Suc e - b) cs)"

lemma room_mono: "room m b e \<Longrightarrow> b \<le> b' \<Longrightarrow> room m b' e"
  by (auto simp: room_def)

lemma emit_apply: "emit m b e cs x = (if b \<le> x \<and> x < b + length cs \<and> x \<le> e then Some (cs ! (x - b)) else m x)"
  by (auto simp: emit_def mwrite_def)

lemma room_emit [simp]: "room m b e \<Longrightarrow> room (emit m b' e cs) b e"
  by (simp add: room_def emit_apply)

lemma emit_append: "emit m b e (xs @ ys) = emit (emit m b e xs) (b + length xs) e ys"
  by (auto simp: emit_apply fun_eq_iff nth_append)

lemma emit_Nil [simp]: "emit m b e [] = m"
  by (auto simp: emit_apply fun_eq_iff)

lemma put_emit: "room m b e \<Longrightarrow> put m b e c = Some (emit m b e [c], b + 1)"
  by (auto simp: put_def room_def emit_def mset_def intro!: arg_cong [where f = "mwrite _ _"])
    (auto simp: mwrite_def fun_eq_iff mset_apply)?

lemma puts_emit: "room m b e \<Longrightarrow> puts m b e cs = Some (emit m b e cs, b + length cs)"
proof (induction cs arbitrary: m b)
  case (Cons c cs)
  have "room (emit m b e [c]) (Suc b) e" using Cons.prems room_mono by auto
  then show ?case using Cons put_emit [OF Cons.prems] emit_append [of m b e "[c]" cs] by simp
qed simp

subsection \<open>Digits\<close>

function radix :: "nat \<Rightarrow> nat \<Rightarrow> nat list" where
  "radix b n = (if n = 0 \<or> b < 2 then [] else n mod b # radix b (n div b))"
  by pat_completeness auto
termination by (relation "measure snd") auto

declare radix.simps [simp del]

lemma radix_0 [simp]: "radix b 0 = []"
  by (simp add: radix.simps)

lemma radix_bound: "2 \<le> b \<Longrightarrow> d \<in> set (radix b n) \<Longrightarrow> d < b"
proof (induction b n rule: radix.induct)
  case (1 b n)
  then show ?case by (cases "n = 0") (auto simp: radix.simps [of b n])
qed

lemma radix_value: "2 \<le> b \<Longrightarrow> foldr (\<lambda>d r. r * b + d) (radix b n) 0 = n"
proof (induction b n rule: radix.induct)
  case (1 b n)
  then show ?case by (cases "n = 0") (auto simp: radix.simps [of b n])
qed

lemma radix_length: "2 \<le> b \<Longrightarrow> n < b ^ k \<Longrightarrow> length (radix b n) \<le> k"
proof (induction k arbitrary: n)
  case 0
  then show ?case by (simp add: radix.simps)
next
  case (Suc k)
  then have "n div b < b ^ k" by (simp add: less_mult_imp_div_less mult.commute)
  then show ?case using Suc by (cases "n = 0") (auto simp: radix.simps [of b n])
qed

lemma digit_loop_radix:
  assumes "2 \<le> base"
  shows "digit_loop digits base num tmp = Some (tmp @ List.map ((!) digits) (radix (unat base) (unat num)))"
proof -
  have b: "2 \<le> unat base" "base \<noteq> 0" using assms by (auto simp: word_le_nat_alt)
  show ?thesis
  proof (induction "unat num" arbitrary: num tmp rule: less_induct)
    case less
    show ?case
    proof (cases "num = 0")
      case True
      then show ?thesis by (subst digit_loop.simps) (simp add: radix.simps)
    next
      case False
      then have n: "0 < unat num" by (simp add: unat_gt_0)
      obtain q r where qr: "do_div64 num base = Some (q, r)" "unat q = unat num div unat base"
        "unat r = unat num mod unat base" using do_div64_spec [OF b(2)] by blast
      have "unat q < unat num" using qr(2) b n by simp
      then show ?thesis using less [of q] qr False b n
        by (subst digit_loop.simps) (simp add: radix.simps [of "unat base" "unat num"])
    qed
  qed
qed

text \<open>The digits are 64 at most, so \<open>tmp[66]\<close> holds them.\<close>

lemma radix_fits: "2 \<le> b \<Longrightarrow> length (radix b (unat (num :: u64))) \<le> 64"
proof (rule radix_length)
  assume b: "2 \<le> b"
  have "unat num < 2 ^ 64" by (rule unat_u64)
  also have "(2::nat) ^ 64 \<le> b ^ 64" using b by (rule power_mono) simp
  finally show "unat num < b ^ 64" .
qed

subsection \<open>The text of a number\<close>

definition number_digits :: "u8 list \<Rightarrow> nat \<Rightarrow> nat \<Rightarrow> u8 list" where
  "number_digits digits b n = (if n = 0 then [48] else rev (List.map ((!) digits) (radix b n)))"

definition out_text :: "u8 list \<Rightarrow> u32 \<Rightarrow> u32 \<Rightarrow> u8 \<Rightarrow> u8 list \<Rightarrow> int \<Rightarrow> int \<Rightarrow> u8 list" where
  "out_text digits base type sign ds precision sz =
     (if \<not> flag type LEFT \<and> \<not> flag type ZEROPAD then replicate (nat sz) 32 else []) @
     (if sign \<noteq> 0 then [sign] else []) @
     (if flag type SPECIAL then if base = 8 then [48] else if base = 16 then [48, digits ! 33] else [] else []) @
     (if \<not> flag type LEFT \<and> flag type ZEROPAD then replicate (nat sz) 48 else []) @
     replicate (nat (precision - int (length ds))) 48 @ ds @
     (if flag type LEFT then replicate (nat sz) 32 else [])"

definition number_text :: "u64 \<Rightarrow> u32 \<Rightarrow> int \<Rightarrow> int \<Rightarrow> u32 \<Rightarrow> u8 list" where
  "number_text num base sz precision type =
     (let digits = (if flag type LARGE then large_digits else small_digits);
          (sign, n, sz) = number_sign num sz type;
          sz = (if flag type SPECIAL then if base = 16 then sz - 2 else if base = 8 then sz - 1 else sz else sz);
          ds = number_digits digits (unat base) (unat n);
          precision = (if precision < int (length ds) then int (length ds) else precision)
      in out_text digits base type sign ds precision (sz - precision))"

text \<open>Each flag is a bit of the flag word.\<close>

lemma and_bit_neq_0_32: "n < 32 \<Longrightarrow> (k AND push_bit n 1 :: u32) \<noteq> 0 \<longleftrightarrow> bit k n"
  using bit_test_iff [of k n] by (simp add: bit_test_def BIT_def)

lemma flag_bits:
  "flag t ZEROPAD = bit t 0" "flag t SIGN = bit t 1" "flag t PLUS = bit t 2" "flag t SPACE = bit t 3"
  "flag t LEFT = bit t 4" "flag t SPECIAL = bit t 5" "flag t LARGE = bit t 6"
  using and_bit_neq_0_32 [of 0 t] and_bit_neq_0_32 [of 1 t] and_bit_neq_0_32 [of 2 t] and_bit_neq_0_32 [of 3 t]
    and_bit_neq_0_32 [of 4 t] and_bit_neq_0_32 [of 5 t] and_bit_neq_0_32 [of 6 t]
  by (simp_all add: flag_def flag_defs)

lemma bit_ZEROPAD [simp]: "bit ZEROPAD n \<longleftrightarrow> n = 0" and bit_LARGE [simp]: "bit LARGE n \<longleftrightarrow> n = 6"
  and bit_SIGN [simp]: "bit SIGN n \<longleftrightarrow> n = 1" and bit_LEFT [simp]: "bit LEFT n \<longleftrightarrow> n = 4"
  using bit_BIT [of 0 n] bit_BIT [of 6 n] bit_BIT [of 1 n] bit_BIT [of 4 n]
  by (auto simp: BIT_def flag_defs)

lemma flag_ZERO_LEFT: "flag t (ZEROPAD + LEFT) \<longleftrightarrow> flag t ZEROPAD \<or> flag t LEFT"
proof -
  have "ZEROPAD + LEFT = ZEROPAD OR LEFT" by (simp add: flag_defs)
  then have "t AND (ZEROPAD + LEFT) = (t AND ZEROPAD) OR (t AND LEFT)" by (simp add: bit.conj_disj_distrib)
  then show ?thesis by (auto simp: flag_def) (metis or_eq_0_iff)+
qed

lemma flag_clear:
  "flag (t AND NOT ZEROPAD) ZEROPAD = False" "flag (t AND NOT ZEROPAD) SIGN = flag t SIGN"
  "flag (t AND NOT ZEROPAD) PLUS = flag t PLUS" "flag (t AND NOT ZEROPAD) SPACE = flag t SPACE"
  "flag (t AND NOT ZEROPAD) LEFT = flag t LEFT" "flag (t AND NOT ZEROPAD) SPECIAL = flag t SPECIAL"
  by (simp_all add: flag_bits bit_and_iff bit_not_iff)

lemma number_tmp_digits:
  "2 \<le> base \<Longrightarrow> number_tmp digits base n = Some (rev (number_digits digits (unat base) (unat n)))"
  by (auto simp: number_tmp_def number_digits_def digit_loop_radix unat_eq_0)

lemma number_sign_clear: "number_sign num sz (t AND NOT ZEROPAD) = number_sign num sz t"
  by (simp add: number_sign_def flag_clear)

lemma number_out_puts:
  "number_out m buf e digits base type (if flag type ZEROPAD then 48 else 32) sign tmp precision sz =
     puts m buf e (out_text digits base type sign (rev tmp) precision sz)"
proof -
  have pfx: "(if flag type SPECIAL
      then if base = 8 then put m buf e 48
           else if base = 16 then do { (m, buf) \<leftarrow> put m buf e 48; put m buf e (digits ! 33) }
           else Some (m, buf)
      else Some (m, buf)) = puts m buf e (if flag type SPECIAL
        then if base = 8 then [48] else if base = 16 then [48, digits ! 33] else [] else [])" for m buf
    by (simp add: puts_one puts_two del: puts.simps(2))
  have sg: "(if sign \<noteq> 0 then put m buf e sign else Some (m, buf)) = puts m buf e (if sign \<noteq> 0 then [sign] else [])" for m buf
    by (simp add: puts_one del: puts.simps(2))
  show ?thesis unfolding number_out_def out_text_def pfx sg
    by (cases "flag type LEFT"; cases "flag type ZEROPAD")
      (simp_all add: flag_ZERO_LEFT pad_loop_puts prec_loop_puts puts_append case_prod_unfold)
qed

lemma out_text_clear: "flag type LEFT \<Longrightarrow> out_text digits base (type AND NOT ZEROPAD) = out_text digits base type"
  by (simp add: out_text_def fun_eq_iff flag_clear)

lemma number_puts:
  "number m buf e num base sz precision type =
     (if base < 2 \<or> 36 < base then Some (m, NULL) else puts m buf e (number_text num base sz precision type))"
proof (cases "base < 2 \<or> 36 < base")
  case False
  then have b: "2 \<le> base" by (simp add: not_less)
  obtain sign n w where s: "number_sign num sz type = (sign, n, w)" by (cases "number_sign num sz type")
  show ?thesis
    using False
    by (simp add: number_def number_text_def s number_sign_clear number_tmp_digits [OF b] number_out_puts
        flag_clear out_text_clear Let_def)
qed (simp add: number_def)

subsection \<open>Reading numbers\<close>

definition num_val :: "nat \<Rightarrow> nat \<Rightarrow> u8 list \<Rightarrow> nat" where
  "num_val b k cs = foldl (\<lambda>r c. r * b + digit_val c) k cs"

lemma num_val_simps [simp]: "num_val b k [] = k" "num_val b k (c # cs) = num_val b (k * b + digit_val c) cs"
  by (simp_all add: num_val_def)

definition is_digit :: "nat \<Rightarrow> u8 \<Rightarrow> bool" where
  "is_digit b c \<longleftrightarrow> isxdigit c \<and> digit_val c < b"

lemma is_digit_0 [simp]: "\<not> is_digit b 0"
  by (simp add: is_digit_def)

lemma digit_val_lt: "digit_val c < 2 ^ 32"
proof -
  have "unat x < 256" for x :: u8 using unsigned_less [of x] by simp
  from this [of c] this [of "toupper c"] show ?thesis by (auto simp: digit_val_def)
qed

lemma unat_word_of_nat: "n < 2 ^ LENGTH('a) \<Longrightarrow> unat (word_of_nat n :: 'a::len word) = n"
  by (simp add: unat_of_nat take_bit_nat_eq_self)

lemma digit_val_word: "word_of_nat (digit_val c) < (b :: u32) \<longleftrightarrow> digit_val c < unat b"
  using digit_val_lt [of c] by (simp add: word_less_nat_alt unat_word_of_nat)

lemma digit_val_word64: "word_of_nat (digit_val c) < (ucast (b :: u32) :: u64) \<longleftrightarrow> digit_val c < unat b"
  using digit_val_lt [of c] by (simp add: word_less_nat_alt unat_word_of_nat)

lemma strtoul_loop_step:
  "m p = Some c \<Longrightarrow> strtoul_loop m p base (word_of_nat k) =
     (if is_digit (unat base) c then strtoul_loop m (Suc p) base (word_of_nat (k * unat base + digit_val c))
      else Some (word_of_nat k, p))"
  by (subst strtoul_loop.simps) (simp add: is_digit_def digit_val_word)

lemma strtoull_loop_step:
  "m p = Some c \<Longrightarrow> strtoull_loop m p base (word_of_nat k) =
     (if is_digit (unat base) c then strtoull_loop m (Suc p) base (word_of_nat (k * unat base + digit_val c))
      else Some (word_of_nat k, p))"
  by (subst strtoull_loop.simps) (simp add: is_digit_def digit_val_word64)

lemma strtoul_loop_spec:
  "cstr m p s \<Longrightarrow> strtoul_loop m p base (word_of_nat k) =
     Some (word_of_nat (num_val (unat base) k (takeWhile (is_digit (unat base)) s)),
       p + length (takeWhile (is_digit (unat base)) s))"
proof (induction s arbitrary: p k)
  case (Cons c s)
  then show ?case using strtoul_loop_step [of m p c base k] Cons.IH [of "Suc p" "k * unat base + digit_val c"] by simp
qed (simp add: strtoul_loop_step)

lemma strtoull_loop_spec:
  "cstr m p s \<Longrightarrow> strtoull_loop m p base (word_of_nat k) =
     Some (word_of_nat (num_val (unat base) k (takeWhile (is_digit (unat base)) s)),
       p + length (takeWhile (is_digit (unat base)) s))"
proof (induction s arbitrary: p k)
  case (Cons c s)
  then show ?case using strtoull_loop_step [of m p c base k] Cons.IH [of "Suc p" "k * unat base + digit_val c"] by simp
qed (simp add: strtoull_loop_step)

lemma simple_strtoul_spec:
  assumes "cstr m p s" "base \<noteq> 0"
  shows "simple_strtoul m p base =
      Some (word_of_nat (num_val (unat base) 0 (takeWhile (is_digit (unat base)) s)),
        p + length (takeWhile (is_digit (unat base)) s))"
    "simple_strtoull m p base =
      Some (word_of_nat (num_val (unat base) 0 (takeWhile (is_digit (unat base)) s)),
        p + length (takeWhile (is_digit (unat base)) s))"
  using assms strtoul_loop_spec [OF assms(1), of base 0] strtoull_loop_spec [OF assms(1), of base 0]
  by (simp_all add: simple_strtoul_def simple_strtoull_def strto_base_def)

text \<open>The base chosen for base 0: octal after a zero, hexadecimal after 0x and a digit, else decimal.\<close>

lemma strto_base_0:
  assumes "cstr m p s"
  shows "strto_base m p 0 =
    (case s of c # t \<Rightarrow>
       if c = 48 then case t of d # u \<Rightarrow>
           if d = 120 then if u \<noteq> [] \<and> isxdigit (hd u) then Some (p + 2, 16) else Some (p + 1, 8) else Some (p + 1, 8)
         | [] \<Rightarrow> Some (p + 1, 8)
       else Some (p, 10)
     | [] \<Rightarrow> Some (p, 10))"
proof (cases s)
  case (Cons c t)
  show ?thesis
  proof (cases t)
    case t: (Cons d u)
    show ?thesis using assms Cons t by (cases u) (auto simp: strto_base_def)
  qed (use assms Cons in \<open>simp add: strto_base_def\<close>)
qed (use assms in \<open>simp add: strto_base_def\<close>)

lemma small_digit: "d < 16 \<Longrightarrow> isxdigit (small_digits ! d) \<and> digit_val (small_digits ! d) = d \<and> small_digits ! d \<noteq> 0"
proof -
  have "d = 0 \<or> d = 1 \<or> d = 2 \<or> d = 3 \<or> d = 4 \<or> d = 5 \<or> d = 6 \<or> d = 7 \<or> d = 8 \<or> d = 9 \<or> d = 10 \<or> d = 11 \<or>
      d = 12 \<or> d = 13 \<or> d = 14 \<or> d = 15" if "d < 16" using that by arith
  moreover assume "d < 16"
  ultimately have "d = 0 \<or> d = 1 \<or> d = 2 \<or> d = 3 \<or> d = 4 \<or> d = 5 \<or> d = 6 \<or> d = 7 \<or> d = 8 \<or> d = 9 \<or> d = 10 \<or>
      d = 11 \<or> d = 12 \<or> d = 13 \<or> d = 14 \<or> d = 15" by blast
  then show ?thesis
    by (elim disjE; simp add: small_digits_def class_iffs byte_defs digit_val_def toupper_def nth_append)
qed

lemma number_digits_read:
  assumes "2 \<le> b" "b \<le> 16"
  shows "takeWhile (is_digit b) (number_digits small_digits b n) = number_digits small_digits b n"
    "num_val b 0 (number_digits small_digits b n) = n" "0 \<notin> set (number_digits small_digits b n)"
proof -
  have d: "d < 16 \<and> d < b" if "d \<in> set (radix b n)" for d using radix_bound [OF assms(1) that] assms(2) by simp
  have "is_digit b 48" using assms by (simp add: is_digit_def class_iffs byte_defs digit_val_def)
  then show "takeWhile (is_digit b) (number_digits small_digits b n) = number_digits small_digits b n"
    unfolding takeWhile_eq_all_conv using d small_digit by (auto simp: number_digits_def is_digit_def)
  have "digit_val 48 = 0" by (simp add: class_iffs byte_defs digit_val_def)
  moreover have "foldr (\<lambda>d r. r * b + digit_val (small_digits ! d)) (radix b n) 0 =
      foldr (\<lambda>d r. r * b + d) (radix b n) 0"
    by (rule foldr_cong) (use d small_digit in auto)
  ultimately show "num_val b 0 (number_digits small_digits b n) = n"
    using radix_value [OF assms(1), of n]
    by (auto simp: number_digits_def num_val_def foldl_conv_foldr foldr_map comp_def)
  show "0 \<notin> set (number_digits small_digits b n)" using d small_digit by (auto simp: number_digits_def)
qed

end
