(* ===== verification/Vsscanf.thy ===== *)
theory Vsscanf
  imports Vsprintf
begin

text \<open>
  lib/vsprintf.c, the scanner \<open>vsscanf\<close>.  The state of its loop is a record of the local variables
  that survive an iteration, the memory and the words of the argument list not yet read;
  \<open>field_width\<close> is one of them, since the code never resets it.  A step either goes on with the loop
  or ends it.
\<close>

record scan =
  sc_mem :: cmem
  sc_str :: nat
  sc_fmt :: nat
  sc_args :: "u32 list"
  sc_num :: int
  sc_width :: int

datatype flow = Next scan | Stop scan

text \<open>\<open>while (isspace( *p)) ++p;\<close> and its converse, which stops at the end of the string too.\<close>

partial_function (option) skip_space :: "cmem \<Rightarrow> nat \<Rightarrow> nat option" where
  "skip_space m p = do { c \<leftarrow> m p; if isspace c then skip_space m (p + 1) else Some p }"

partial_function (option) skip_word :: "cmem \<Rightarrow> nat \<Rightarrow> nat option" where
  "skip_word m p = do { c \<leftarrow> m p; if \<not> isspace c \<and> c \<noteq> 0 then skip_word m (p + 1) else Some p }"

text \<open>\<open>do *s++ = *str++; while (field_width-- > 0 && *str);\<close> The result holds the memory, \<open>str\<close> and
  the width.\<close>

function scan_chars :: "cmem \<Rightarrow> nat \<Rightarrow> nat \<Rightarrow> int \<Rightarrow> (cmem \<times> nat \<times> int) option" where
  "scan_chars m s str width =
     do { c \<leftarrow> m str; m \<leftarrow> store8 m s c;
          if 0 < width
          then do { d \<leftarrow> m (str + 1);
                    if d \<noteq> 0 then scan_chars m (s + 1) (str + 1) (width - 1)
                    else Some (m, str + 1, width - 1) }
          else Some (m, str + 1, width - 1) }"
  by pat_completeness auto
termination by (relation "measure (\<lambda>(m, s, str, width). nat width)") auto

declare scan_chars.simps [simp del]

text \<open>\<open>while ( *str && !isspace( *str) && field_width--) *s++ = *str++;\<close>\<close>

partial_function (option) scan_word :: "cmem \<Rightarrow> nat \<Rightarrow> nat \<Rightarrow> int \<Rightarrow> (cmem \<times> nat \<times> nat \<times> int) option" where
  "scan_word m s str width =
     do { c \<leftarrow> m str;
          if c \<noteq> 0 \<and> \<not> isspace c
          then (if width \<noteq> 0 then do { m \<leftarrow> store8 m s c; scan_word m (s + 1) (str + 1) (width - 1) }
                else Some (m, s, str, width - 1))
          else Some (m, s, str, width) }"

definition scan_qualifier :: "cmem \<Rightarrow> nat \<Rightarrow> (u8 \<times> nat) option" where
  "scan_qualifier m fmt =
     do { c \<leftarrow> m fmt;
          if c = 104 \<or> c = 108 \<or> c = 76 \<or> c = 90 then Some (c, fmt + 1) else Some (0, fmt) }"

text \<open>The integer conversions: the width of the object stored into follows from the qualifier.\<close>

definition scan_store :: "scan \<Rightarrow> u8 \<Rightarrow> u32 \<Rightarrow> bool \<Rightarrow> flow option" where
  "scan_store s qualifier base is_sign =
     (let m = sc_mem s; str = sc_str s in
      do { (p, args) \<leftarrow> va_word (sc_args s);
           (m, next) \<leftarrow>
             (if qualifier = 76
              then do { (v, next) \<leftarrow> (if is_sign then simple_strtoll m str base else simple_strtoull m str base);
                        m \<leftarrow> store64 m (unat p) v; Some (m, next) }
              else do { (v, next) \<leftarrow>
                          (if is_sign \<and> qualifier \<noteq> 90 then simple_strtol m str base else simple_strtoul m str base);
                        m \<leftarrow> (if qualifier = 104 then store16 m (unat p) v else store32 m (unat p) v);
                        Some (m, next) });
           let s = s\<lparr>sc_mem := m, sc_args := args, sc_num := sc_num s + 1\<rparr>;
           if next = NULL then Some (Stop s) else Some (Next (s\<lparr>sc_str := next\<rparr>)) })"

definition scan_integer :: "scan \<Rightarrow> u8 \<Rightarrow> u32 \<Rightarrow> bool \<Rightarrow> flow option" where
  "scan_integer s qualifier base is_sign =
     do { str \<leftarrow> skip_space (sc_mem s) (sc_str s);
          let s = s\<lparr>sc_str := str\<rparr>;
          c \<leftarrow> sc_mem s str;
          if c = 0 \<or> \<not> isdigit c then Some (Stop s) else scan_store s qualifier base is_sign }"

text \<open>The conversion character, already passed by the format pointer.\<close>

definition scan_convert :: "nat \<Rightarrow> scan \<Rightarrow> u8 \<Rightarrow> u8 \<Rightarrow> flow option" where
  "scan_convert buf s qualifier c =
     (if c = 99
      then do { (p, args) \<leftarrow> va_word (sc_args s);
                let width = (if sc_width s = - 1 then 1 else sc_width s);
                (m, str, width) \<leftarrow> scan_chars (sc_mem s) (unat p) (sc_str s) width;
                Some (Next (s\<lparr>sc_mem := m, sc_str := str, sc_args := args, sc_num := sc_num s + 1, sc_width := width\<rparr>)) }
      else if c = 115
      then do { (p, args) \<leftarrow> va_word (sc_args s);
                let width = (if sc_width s = - 1 then 2 ^ 31 - 1 else sc_width s);
                str \<leftarrow> skip_space (sc_mem s) (sc_str s);
                (m, e, str, width) \<leftarrow> scan_word (sc_mem s) (unat p) str width;
                m \<leftarrow> store8 m e 0;
                Some (Next (s\<lparr>sc_mem := m, sc_str := str, sc_args := args, sc_num := sc_num s + 1, sc_width := width\<rparr>)) }
      else if c = 110
      then do { (p, args) \<leftarrow> va_word (sc_args s);
                m \<leftarrow> store32 (sc_mem s) (unat p) (word_of_nat (sc_str s - buf));
                Some (Next (s\<lparr>sc_mem := m, sc_args := args\<rparr>)) }
      else if c = 111 then scan_integer s qualifier 8 False
      else if c = 120 \<or> c = 88 then scan_integer s qualifier 16 False
      else if c = 100 \<or> c = 105 then scan_integer s qualifier 10 True
      else if c = 117 then scan_integer s qualifier 10 False
      else if c = 37
      then do { d \<leftarrow> sc_mem s (sc_str s);
                let s = s\<lparr>sc_str := sc_str s + 1\<rparr>;
                if d \<noteq> 37 then Some (Stop s) else Some (Next s) }
      else Some (Stop s))"

text \<open>A directive, behind its percent sign.\<close>

definition scan_directive :: "nat \<Rightarrow> scan \<Rightarrow> flow option" where
  "scan_directive buf s =
     (let m = sc_mem s in
      do { c \<leftarrow> m (sc_fmt s);
           if c = 42
           then do { fmt \<leftarrow> skip_word m (sc_fmt s); str \<leftarrow> skip_word m (sc_str s);
                     Some (Next (s\<lparr>sc_fmt := fmt, sc_str := str\<rparr>)) }
           else do { (width, fmt) \<leftarrow>
                       (if isdigit c then skip_atoi m (sc_fmt s) else Some (sc_width s, sc_fmt s));
                     (qualifier, fmt) \<leftarrow> scan_qualifier m fmt;
                     let s = s\<lparr>sc_width := width, sc_fmt := fmt\<rparr>;
                     c \<leftarrow> m fmt; d \<leftarrow> m (sc_str s);
                     if c = 0 \<or> d = 0 then Some (Stop s)
                     else scan_convert buf (s\<lparr>sc_fmt := fmt + 1\<rparr>) qualifier c } })"

text \<open>The loop body, once \<open>*fmt\<close> and \<open>*str\<close> are known not to be NUL.\<close>

definition scan_step :: "nat \<Rightarrow> scan \<Rightarrow> flow option" where
  "scan_step buf s =
     (let m = sc_mem s in
      do { c \<leftarrow> m (sc_fmt s);
           s \<leftarrow> (if isspace c
                 then do { fmt \<leftarrow> skip_space m (sc_fmt s); str \<leftarrow> skip_space m (sc_str s);
                           Some (s\<lparr>sc_fmt := fmt, sc_str := str\<rparr>) }
                 else Some s);
           c \<leftarrow> m (sc_fmt s);
           if c \<noteq> 37 \<and> c \<noteq> 0
           then do { d \<leftarrow> m (sc_str s);
                     let s = s\<lparr>sc_fmt := sc_fmt s + 1, sc_str := sc_str s + 1\<rparr>;
                     if c \<noteq> d then Some (Stop s) else Some (Next s) }
           else if c = 0 then Some (Stop s)
           else scan_directive buf (s\<lparr>sc_fmt := sc_fmt s + 1\<rparr>) })"

partial_function (option) scan_loop :: "nat \<Rightarrow> scan \<Rightarrow> scan option" where
  "scan_loop buf s =
     do { c \<leftarrow> sc_mem s (sc_fmt s);
          if c = 0 then Some s
          else do { d \<leftarrow> sc_mem s (sc_str s);
                    if d = 0 then Some s
                    else do { r \<leftarrow> scan_step buf s;
                              case r of Next s \<Rightarrow> scan_loop buf s | Stop s \<Rightarrow> Some s } } }"

definition vsscanf :: "cmem \<Rightarrow> nat \<Rightarrow> nat \<Rightarrow> u32 list \<Rightarrow> (cmem \<times> int) option" where
  "vsscanf m buf fmt args =
     do { s \<leftarrow> scan_loop buf \<lparr>sc_mem = m, sc_str = buf, sc_fmt = fmt, sc_args = args, sc_num = 0, sc_width = - 1\<rparr>;
          Some (sc_mem s, sc_num s) }"

definition sscanf :: "cmem \<Rightarrow> nat \<Rightarrow> nat \<Rightarrow> u32 list \<Rightarrow> (cmem \<times> int) option" where
  "sscanf m buf fmt args = vsscanf m buf fmt args"

end
