(* ===== verification/Vsprintf_Props.thy ===== *)
theory Vsprintf_Props
  imports Vsprintf_Spec Vsscanf
begin

text \<open>
  The correctness properties of lib/vsprintf.c: printed numbers read back, the formatter stays in
  its buffer whatever the format, and a format of plain directives prints the concatenation of
  their texts; and two properties of the scanner's widths.
\<close>

subsection \<open>Frames\<close>

text \<open>The output went on from \<open>b\<close> to \<open>b'\<close>, and outside the rest of the buffer nothing changed.\<close>

definition goes :: "nat \<Rightarrow> cmem \<Rightarrow> nat \<Rightarrow> cmem \<Rightarrow> nat \<Rightarrow> bool" where
  "goes e m b m' b' \<longleftrightarrow> b \<le> b' \<and> (\<forall>x. x < b \<or> e < x \<longrightarrow> m' x = m x)"

lemma goes_refl [simp]: "goes e m b m b"
  by (simp add: goes_def)

lemma goes_trans: "goes e m b m' b' \<Longrightarrow> goes e m' b' m'' b'' \<Longrightarrow> goes e m b m'' b''"
  by (auto simp: goes_def)

lemma put_goes: "put m b e c = Some (m', b') \<Longrightarrow> goes e m b m' b'"
  by (auto simp: put_def goes_def store8_def split: if_splits bind_splits)

lemma puts_goes: "puts m b e cs = Some (m', b') \<Longrightarrow> goes e m b m' b'"
proof (induction cs arbitrary: m b)
  case (Cons c cs)
  then obtain m1 b1 where 1: "put m b e c = Some (m1, b1)" "puts m1 b1 e cs = Some (m', b')"
    by (auto split: bind_splits)
  show ?case by (rule goes_trans [OF put_goes [OF 1(1)] Cons.IH [OF 1(2)]])
qed simp

lemma pad_loop_goes: "pad_loop m b e c sz = Some (m', b', k) \<Longrightarrow> goes e m b m' b'"
  unfolding pad_loop_puts by (auto dest!: puts_goes split: bind_splits)

lemma number_goes:
  "number m b e num base sz precision type = Some (m', b') \<Longrightarrow> 2 \<le> base \<Longrightarrow> base \<le> 36 \<Longrightarrow> goes e m b m' b'"
  unfolding number_puts by (auto dest!: puts_goes split: if_splits simp: not_less)

lemma put_from_goes: "put_from m b e s n = Some (m', b') \<Longrightarrow> goes e m b m' b'"
proof (induction n arbitrary: m b s)
  case (Suc n)
  have "\<exists>c m1. put m b e c = Some (m1, b + 1) \<and> put_from m1 (b + 1) e (s + 1) n = Some (m', b')"
    using Suc.prems by (auto simp: put_def split: bind_splits if_splits)
  then show ?case using goes_trans [OF put_goes Suc.IH] by blast
qed simp

lemma va_word_Some: "va_word args = Some (w, ws) \<Longrightarrow> args = w # ws"
  by (auto simp: va_word_def split: list.splits)

lemma vs_char_goes:
  "vs_char m b e args flags width = Some (m', b', args') \<Longrightarrow> goes e m b m' b' \<and> set args' \<subseteq> set args"
  unfolding vs_char_def
  by (auto dest!: pad_loop_goes put_goes va_word_Some split: bind_splits if_splits)
    (blast intro: goes_trans)+

lemma vs_string_goes:
  "vs_string null m b e args flags width precision = Some (m', b', args') \<Longrightarrow>
   goes e m b m' b' \<and> set args' \<subseteq> set args"
  unfolding vs_string_def Let_def
  by (auto dest!: pad_loop_goes put_from_goes va_word_Some split: bind_splits if_splits)
    (blast intro: goes_trans)+

text \<open>What \<open>%n\<close> may write: the integers some argument points to.\<close>

definition targets :: "u32 list \<Rightarrow> nat set" where
  "targets args = {x. \<exists>w \<in> set args. unat w \<le> x \<and> x < unat w + 4}"

definition goes_n :: "nat \<Rightarrow> nat set \<Rightarrow> cmem \<Rightarrow> nat \<Rightarrow> cmem \<Rightarrow> nat \<Rightarrow> bool" where
  "goes_n e T m b m' b' \<longleftrightarrow> b \<le> b' \<and> (\<forall>x. (x < b \<or> e < x) \<and> x \<notin> T \<longrightarrow> m' x = m x)"

lemma goes_goes_n: "goes e m b m' b' \<Longrightarrow> goes_n e T m b m' b'"
  by (auto simp: goes_def goes_n_def)



lemma store32_frame: "store32 m p v = Some m' \<Longrightarrow> x < p \<or> p + 4 \<le> x \<Longrightarrow> m' x = m x"
  by (auto simp: store32_def store16_def store8_def split: bind_splits if_splits)

lemma vs_width_args: "vs_width m fmt args flags = Some (w, fl, fmt', args') \<Longrightarrow> set args' \<subseteq> set args"
  by (auto simp: vs_width_def dest!: va_word_Some split: bind_splits if_splits)

lemma vs_precision_args: "vs_precision m fmt args = Some (w, fmt', args') \<Longrightarrow> set args' \<subseteq> set args"
  by (auto simp: vs_precision_def Let_def dest!: va_word_Some split: bind_splits if_splits)

lemma vs_integer_args: "vs_integer args q flags = Some (n, args') \<Longrightarrow> set args' \<subseteq> set args"
  by (auto simp: vs_integer_def va_dword_def dest!: va_word_Some split: bind_splits if_splits)

lemma vs_base_bounds: "vs_base c flags = Some (base, fl) \<Longrightarrow> 2 \<le> base \<and> base \<le> 36"
  by (auto simp: vs_base_def split: if_splits)

lemma vs_directive_goes:
  assumes "vs_directive null buf m str e fmt args = Some (m', str', fmt', args')"
  shows "goes_n e (targets args) m str m' str' \<and> set args' \<subseteq> set args"
proof -
  obtain flags0 fmt0 w flags fmt1 args1 prec fmt2 args2 q fmt3 c where
    d: "vs_width m fmt0 args flags0 = Some (w, flags, fmt1, args1)"
      "vs_precision m fmt1 args1 = Some (prec, fmt2, args2)" "m fmt3 = Some c"
      "vs_qualifier m fmt2 = Some (q, fmt3)" "vs_flags m fmt 0 = Some (flags0, fmt0)"
    using assms unfolding vs_directive_def by (auto split: bind_splits)
  have sub: "set args2 \<subseteq> set args" using vs_width_args [OF d(1)] vs_precision_args [OF d(2)] by blast
  have n: ?thesis if "goes e m str m' str'" "set args' \<subseteq> set args2"
    using goes_goes_n [OF that(1)] that(2) sub by blast
  note R = assms [unfolded vs_directive_def, simplified d bind.bind_lunit prod.case]
  consider "c = 99" | "c = 115" | "c = 112" | "c = 110" | "c = 37" | "c \<notin> {99, 115, 112, 110, 37}" by blast
  then show ?thesis
  proof cases
    case 1
    then show ?thesis using R d by (auto dest!: vs_char_goes intro!: n split: bind_splits)
  next
    case 2
    then show ?thesis using R d by (auto dest!: vs_string_goes intro!: n split: bind_splits)
  next
    case 3
    then show ?thesis using R d
      by (intro n) (auto simp: Let_def split: bind_splits if_splits dest!: va_word_Some elim!: number_goes)
  next
    case 4
    then obtain ip where ip: "args2 = ip # args'" "store32 m (unat ip) (word_of_int (int str - int buf)) = Some m'" "str' = str"
      using R d by (auto split: bind_splits dest!: va_word_Some)
    have "ip \<in> set args" using ip(1) sub by simp
    then have "goes_n e (targets args) m str m' str'"
      using store32_frame [OF ip(2)] ip(3) by (force simp: goes_n_def targets_def not_less)
    then show ?thesis using ip(1) sub by auto
  next
    case 5
    then show ?thesis using R d by (intro n) (auto split: bind_splits dest!: put_goes)
  next
    case 6
    show ?thesis
    proof (cases "vs_base c flags")
      case None
      then show ?thesis using R d 6
        by (intro n) (auto split: bind_splits if_splits dest!: put_goes intro: goes_trans)
    next
      case (Some bf)
      obtain base fl where "bf = (base, fl)" by (cases bf)
      then show ?thesis using Some R d 6 vs_base_bounds [of c flags base fl]
        by (intro n) (auto split: bind_splits dest!: vs_integer_args elim!: number_goes)
    qed
  qed
qed


lemma vs_end_fits: "0 < buf \<Longrightarrow> buf + sz \<le> 2 ^ 32 \<Longrightarrow> vs_end buf sz = (buf + sz - 1, sz)"
proof -
  assume a: "0 < buf" "buf + sz \<le> 2 ^ 32"
  then have "buf + sz + (2 ^ 32 - 1) = (buf + sz - 1) + 2 ^ 32" "buf + (2 ^ 32 - 1) = (buf - 1) + 2 ^ 32" by simp_all
  then have "(buf + sz + (2 ^ 32 - 1)) mod 2 ^ 32 = buf + sz - 1" "(buf + (2 ^ 32 - 1)) mod 2 ^ 32 = buf - 1"
    using a by (simp_all only: mod_add_self2) simp_all
  then show ?thesis using a by (auto simp: vs_end_def Let_def)
qed

subsection \<open>Memory safety\<close>


subsection \<open>Plain directives\<close>

text \<open>Formats made of text and of directives without flags, width and precision, the words of the
  argument list they take, and the text they stand for.\<close>

datatype piece = Txt u8 | Percent | Signed u8 | Unsigned u8 | Character | String

fun piece_fmt :: "piece \<Rightarrow> u8 list" where
  "piece_fmt (Txt c) = [c]"
| "piece_fmt Percent = [37, 37]"
| "piece_fmt (Signed c) = [37, c]"
| "piece_fmt (Unsigned c) = [37, c]"
| "piece_fmt Character = [37, 99]"
| "piece_fmt String = [37, 115]"

fun piece_ok :: "piece \<Rightarrow> bool" where
  "piece_ok (Txt c) \<longleftrightarrow> c \<noteq> 0 \<and> c \<noteq> 37"
| "piece_ok (Signed c) \<longleftrightarrow> c = 100 \<or> c = 105"
| "piece_ok (Unsigned c) \<longleftrightarrow> c = 111 \<or> c = 117 \<or> c = 120"
| "piece_ok _ \<longleftrightarrow> True"

definition int_text :: "u64 \<Rightarrow> u8 \<Rightarrow> u8 list" where
  "int_text num c = number_digits small_digits (if c = 111 then 8 else if c = 120 then 16 else 10) (unat num)"

text \<open>A string that lies off the buffer \<open>b .. e\<close>.\<close>

definition cstr_off :: "nat \<Rightarrow> nat \<Rightarrow> cmem \<Rightarrow> nat \<Rightarrow> u8 list \<Rightarrow> bool" where
  "cstr_off b e m p s \<longleftrightarrow> cstr m p s \<and> (p + length s < b \<or> e < p)"

inductive renders :: "nat \<Rightarrow> nat \<Rightarrow> cmem \<Rightarrow> piece list \<Rightarrow> u32 list \<Rightarrow> u8 list \<Rightarrow> bool" for b e m where
  Nil: "renders b e m [] args []"
| Txt: "renders b e m ps args t \<Longrightarrow> renders b e m (Txt c # ps) args (c # t)"
| Percent: "renders b e m ps args t \<Longrightarrow> renders b e m (Percent # ps) args (37 # t)"
| Signed: "renders b e m ps args t \<Longrightarrow>
    renders b e m (Signed c # ps) (w # args)
      ((if sint w < 0 then 45 # int_text (word_of_int (- sint w)) c else int_text (word_of_int (sint w)) c) @ t)"
| Unsigned: "renders b e m ps args t \<Longrightarrow>
    renders b e m (Unsigned c # ps) (w # args) (int_text (ucast w) c @ t)"
| Character: "renders b e m ps args t \<Longrightarrow> renders b e m (Character # ps) (w # args) (ucast w # t)"
| String: "renders b e m ps args t \<Longrightarrow> w \<noteq> 0 \<Longrightarrow> cstr_off b e m (unat w) s \<Longrightarrow> length s < 2 ^ 32 \<Longrightarrow>
    renders b e m (String # ps) (w # args) (s @ t)"

text \<open>A conversion character that is no flag, digit, star, dot or qualifier.\<close>

definition plain :: "u8 \<Rightarrow> bool" where
  "plain c \<longleftrightarrow> flag_of c = 0 \<and> \<not> isdigit c \<and> c \<notin> {42, 46, 104, 108, 76, 90}"

lemma vs_directive_plain:
  assumes "m (fmt + 1) = Some c" "plain c"
  shows "vs_flags m fmt 0 = Some (0, fmt + 1)" "vs_width m (fmt + 1) args 0 = Some (- 1, 0, fmt + 1, args)"
    "vs_precision m (fmt + 1) args = Some (- 1, fmt + 1, args)" "vs_qualifier m (fmt + 1) = Some (0, fmt + 1)"
proof -
  show "vs_flags m fmt 0 = Some (0, fmt + 1)"
    using assms by (subst vs_flags.simps) (simp add: plain_def)
qed (use assms in \<open>simp_all add: plain_def vs_width_def vs_precision_def vs_qualifier_def\<close>)

lemma plain_conversions:
  "plain 37" "plain 99" "plain 100" "plain 105" "plain 111" "plain 115" "plain 117" "plain 120"
  by (simp_all add: plain_def flag_of_def class_iffs byte_defs)

lemma flag_0 [simp]: "\<not> flag 0 f"
  by (simp add: flag_def)

lemma number_text_plain:
  "number_text num base (- 1) (- 1) 0 = number_digits small_digits (unat base) (unat num)"
  by (simp add: number_text_def number_sign_def out_text_def Let_def)

lemma flag_SIGN_only: "flag SIGN SIGN" "f \<in> {ZEROPAD, PLUS, SPACE, LEFT, SPECIAL, LARGE} \<Longrightarrow> \<not> flag SIGN f"
  by (auto simp: flag_def flag_defs)

lemma number_text_signed:
  "number_text num base (- 1) (- 1) SIGN =
     (if num <s 0 then 45 # number_digits small_digits (unat base) (unat (- num))
      else number_digits small_digits (unat base) (unat num))"
  by (simp add: number_text_def number_sign_def out_text_def flag_SIGN_only Let_def)

lemma put_from_puts:
  "\<forall>i < length s. m (p + i) = Some (s ! i) \<and> (p + i < b \<or> e < p + i) \<Longrightarrow>
   put_from m b e p (length s) = puts m b e s"
proof (induction s arbitrary: m b p)
  case (Cons c s)
  have c: "m p = Some c" using Cons.prems by force
  have "put_from m' (b + 1) e (p + 1) (length s) = puts m' (b + 1) e s" if "put m b e c = Some (m', b + 1)" for m'
  proof (rule Cons.IH, intro allI impI)
    fix i assume i: "i < length s"
    have q: "m (p + Suc i) = Some (s ! i)" "p + Suc i < b \<or> e < p + Suc i" using Cons.prems i by force+
    have "m' (p + Suc i) = m (p + Suc i)"
      using put_goes [OF that] q(2) by (auto simp: goes_def)
    then show "m' (p + 1 + i) = Some (s ! i) \<and> (p + 1 + i < b + 1 \<or> e < p + 1 + i)" using q by auto
  qed
  then show ?case using c by (auto simp: put_def split: bind_splits)
qed simp

lemma emit_off: "x < b \<or> e < x \<Longrightarrow> b \<le> str \<Longrightarrow> emit m str e u x = m x"
  by (auto simp: emit_apply)

lemma cstr_off_cong:
  "cstr_off b e m p s \<Longrightarrow> (\<And>x. x < b \<or> e < x \<Longrightarrow> m' x = m x) \<Longrightarrow> cstr_off b e m' p s"
proof -
  assume a: "cstr_off b e m p s" "\<And>x. x < b \<or> e < x \<Longrightarrow> m' x = m x"
  have "bytes m' p (s @ [0]) \<longleftrightarrow> bytes m p (s @ [0])"
    by (rule bytes_cong, rule a(2)) (use a(1) in \<open>auto simp: cstr_off_def\<close>)
  then show ?thesis using a(1) unfolding cstr_off_def cstr_def by blast
qed

lemma cstr_off_tail:
  "cstr_off b e m p (xs @ ys) \<Longrightarrow> cstr_off b e m (p + length xs) ys \<and> bytes m p xs"
  by (auto simp: cstr_off_def cstr_append)

lemma pad_loop_none [simp]: "sz \<le> 0 \<Longrightarrow> pad_loop m b e c sz = Some (m, b, sz - 1)"
  by (simp add: pad_loop_puts)

lemma sint_bounds: "- (2 ^ 31) \<le> sint (w :: u32) \<and> sint w < 2 ^ 31"
proof -
  obtain u where "uint w = u" "0 \<le> u" "u < 2 ^ 32" using uint_lt2p [of w] uint_ge_0 [of w] by simp
  then show ?thesis by (auto simp: sint_cases)
qed

lemma sint_scast64: "sint (scast (w :: u32) :: u64) = sint w"
proof -
  have "signed_take_bit 63 (sint w) = sint w"
    by (rule signed_take_bit_int_eq_self) (use sint_bounds [of w] in simp_all)
  then show ?thesis by (simp add: signed_scast_eq)
qed

lemma scast_negative: "(scast (w :: u32) :: u64) <s 0 \<longleftrightarrow> sint w < 0"
  by (simp add: word_sless_alt sint_scast64)

lemma scast_word_of_int: "(scast (w :: u32) :: u64) = word_of_int (sint w)"
  by (rule scast_eq)

text \<open>What one directive of each kind does.\<close>

lemma directive_Percent:
  "m (fmt + 1) = Some 37 \<Longrightarrow> room m str e \<Longrightarrow>
   vs_directive null buf m str e fmt args = Some (emit m str e [37], str + 1, fmt + 1, args)"
  using vs_directive_plain [of m fmt 37, OF _ plain_conversions(1)] by (simp add: vs_directive_def put_emit)

lemma directive_Character:
  "m (fmt + 1) = Some 99 \<Longrightarrow> room m str e \<Longrightarrow>
   vs_directive null buf m str e fmt (w # args) = Some (emit m str e [ucast w], str + 1, fmt + 1, args)"
  using vs_directive_plain [of m fmt 99, OF _ plain_conversions(2)]
  by (simp add: vs_directive_def vs_char_def put_emit va_word_def)

lemma directive_String:
  assumes "m (fmt + 1) = Some 115" "room m str e" "w \<noteq> 0" "cstr_off b e m (unat w) s" "length s < 2 ^ 32" "b \<le> str"
  shows "vs_directive null buf m str e fmt (w # args) = Some (emit m str e s, str + length s, fmt + 1, args)"
proof -
  have "strnlen m (unat w) (nat ((- 1) mod 2 ^ 32)) = Some (length s)"
    using strnlen_spec [of m "unat w" s "nat ((- 1) mod 2 ^ 32)"] assms(4,5) by (simp add: cstr_off_def)
  moreover have "put_from m str e (unat w) (length s) = puts m str e s"
    by (rule put_from_puts) (use assms(4,6) in \<open>auto simp: cstr_off_def cstr_def bytes_nth nth_append\<close>)
  ultimately show ?thesis
    using vs_directive_plain [of m fmt 115, OF assms(1) plain_conversions(6)] assms(1,2,3)
    by (simp add: vs_directive_def vs_string_def va_word_def puts_emit)
qed

lemma directive_Signed:
  assumes "m (fmt + 1) = Some c" "piece_ok (Signed c)" "room m str e"
  shows "vs_directive null buf m str e fmt (w # args) =
    (let t = (if sint w < 0 then 45 # int_text (word_of_int (- sint w)) c else int_text (word_of_int (sint w)) c)
     in Some (emit m str e t, str + length t, fmt + 1, args))"
proof -
  have "plain c" using assms(2) plain_conversions by auto
  note p = vs_directive_plain [of m fmt c, OF assms(1) this]
  have "number m str e (scast w) 10 (- 1) (- 1) SIGN =
      puts m str e (number_text (scast w) 10 (- 1) (- 1) SIGN)" by (simp add: number_puts)
  moreover have "number_text (scast w) 10 (- 1) (- 1) SIGN =
      (if sint w < 0 then 45 # int_text (word_of_int (- sint w)) c else int_text (word_of_int (sint w)) c)"
    using assms(2) scast_negative [of w] by (auto simp: number_text_signed int_text_def)
  ultimately show ?thesis
    using p assms by (auto simp: vs_directive_def vs_base_def vs_integer_def va_word_def flag_SIGN_only puts_emit Let_def)
qed

lemma directive_Unsigned:
  assumes "m (fmt + 1) = Some c" "piece_ok (Unsigned c)" "room m str e"
  shows "vs_directive null buf m str e fmt (w # args) =
    Some (emit m str e (int_text (ucast w) c), str + length (int_text (ucast w) c), fmt + 1, args)"
proof -
  have "plain c" using assms(2) plain_conversions by auto
  note p = vs_directive_plain [of m fmt c, OF assms(1) this]
  show ?thesis
    using p assms by (auto simp: vs_directive_def vs_base_def vs_integer_def va_word_def number_puts
        number_text_plain puts_emit int_text_def)
qed

lemma vs_loop_text:
  assumes "m fmt = Some c" "c \<noteq> 0" "c \<noteq> 37" "room m str e"
    and "vs_loop null buf e (emit m str e [c]) (str + 1) (fmt + 1) args =
      Some (emit (emit m str e [c]) (str + 1) e t, str + 1 + length t)"
  shows "vs_loop null buf e m str fmt args = Some (emit m str e (c # t), str + length (c # t))"
  using assms emit_append [of m str e "[c]" t] by (subst vs_loop.simps) (simp add: put_emit)

lemma vs_loop_directive:
  assumes "m fmt = Some 37" "vs_directive null buf m str e fmt args = Some (emit m str e u, str + length u, fmt + 1, args')"
    and "vs_loop null buf e (emit m str e u) (str + length u) (fmt + 1 + 1) args' =
      Some (emit (emit m str e u) (str + length u) e t, str + length u + length t)"
  shows "vs_loop null buf e m str fmt args = Some (emit m str e (u @ t), str + length (u @ t))"
  using assms emit_append [of m str e u t] by (subst vs_loop.simps) (simp add: add.assoc)

lemma room_step: "room m b e \<Longrightarrow> b \<le> b' \<Longrightarrow> room (emit m b e cs) b' e"
  by (rule room_mono [OF room_emit])

text \<open>One directive and then the rest, which the loop is known to print from any later state.\<close>

lemma vs_loop_piece:
  assumes "cstr_off b e m fmt ([37, c] @ rest)" "\<And>x. x < b \<or> e < x \<Longrightarrow> m x = m0 x" "room m str e" "b \<le> str"
    and "vs_directive null buf m str e fmt args = Some (emit m str e u, str + length u, fmt + 1, args')"
    and IH: "\<And>m str fmt. cstr_off b e m fmt rest \<Longrightarrow> (\<And>x. x < b \<or> e < x \<Longrightarrow> m x = m0 x) \<Longrightarrow> room m str e \<Longrightarrow>
      b \<le> str \<Longrightarrow> vs_loop null buf e m str fmt args' = Some (emit m str e t, str + length t)"
  shows "vs_loop null buf e m str fmt args = Some (emit m str e (u @ t), str + length (u @ t))"
proof (rule vs_loop_directive [OF _ assms(5)])
  note tl = cstr_off_tail [OF assms(1)]
  show "m fmt = Some 37" using tl by simp
  show "vs_loop null buf e (emit m str e u) (str + length u) (fmt + 1 + 1) args' =
      Some (emit (emit m str e u) (str + length u) e t, str + length u + length t)"
  proof (rule IH)
    show "cstr_off b e (emit m str e u) (fmt + 1 + 1) rest"
      by (rule cstr_off_cong [of b e m]) (use tl assms(4) emit_off in auto)
  qed (use assms(2,3,4) emit_off in \<open>auto intro: room_step\<close>)
qed

definition format_of :: "piece list \<Rightarrow> u8 list" where
  "format_of ps = concat (List.map piece_fmt ps)"

lemma format_of_simps: "format_of [] = []" "format_of (p # ps) = piece_fmt p @ format_of ps"
  by (simp_all add: format_of_def)

lemma cstr_off_char: "cstr_off b e m fmt ([37, c] @ rest) \<Longrightarrow> m (fmt + 1) = Some c"
  using cstr_off_tail [of b e m fmt "[37, c]" rest] by simp

lemma vs_loop_renders:
  assumes "renders b e m0 ps args t" "\<forall>p \<in> set ps. piece_ok p" "cstr_off b e m fmt (format_of ps)"
    and "\<And>x. x < b \<or> e < x \<Longrightarrow> m x = m0 x" "room m str e" "b \<le> str"
  shows "vs_loop null buf e m str fmt args = Some (emit m str e t, str + length t)"
  using assms
proof (induction arbitrary: m str fmt rule: renders.induct)
  case (Nil args)
  then show ?case by (subst vs_loop.simps) (simp add: format_of_def cstr_off_def)
next
  case (Txt ps args t c)
  have f: "cstr_off b e m fmt ([c] @ format_of ps)" using Txt.prems(2) by (simp add: format_of_def)
  note tl = cstr_off_tail [OF f]
  have c: "c \<noteq> 0" "c \<noteq> 37" using Txt.prems(1) by auto
  show ?case
  proof (rule vs_loop_text [OF _ c Txt.prems(4)], goal_cases)
    case 1 show ?case using tl by simp
  next
    case 2 show ?case
    proof (rule Txt.IH)
      show "cstr_off b e (emit m str e [c]) (fmt + 1) (format_of ps)"
        by (rule cstr_off_cong [of b e m]) (use tl Txt.prems(5) emit_off in auto)
    qed (use Txt.prems emit_off in \<open>auto intro: room_step\<close>)
  qed
next
  case (Percent ps args t)
  have f: "cstr_off b e m fmt ([37, 37] @ format_of ps)" using Percent.prems(2) by (simp add: format_of_simps)
  have "vs_loop null buf e m str fmt args = Some (emit m str e ([37] @ t), str + length ([37] @ t))"
    by (rule vs_loop_piece [OF f Percent.prems(3,4,5), where args' = args], assumption)
      (use directive_Percent [OF cstr_off_char [OF f] Percent.prems(4)] Percent.IH Percent.prems(1) in auto)
  then show ?case by simp
next
  case (Signed ps args t c w)
  have f: "cstr_off b e m fmt ([37, c] @ format_of ps)" using Signed.prems(2) by (simp add: format_of_simps)
  show ?case
    by (rule vs_loop_piece [OF f Signed.prems(3,4,5), where args' = args], assumption)
      (use directive_Signed [OF cstr_off_char [OF f] _ Signed.prems(4)] Signed.IH Signed.prems(1) in \<open>auto simp: Let_def\<close>)
next
  case (Unsigned ps args t c w)
  have f: "cstr_off b e m fmt ([37, c] @ format_of ps)" using Unsigned.prems(2) by (simp add: format_of_simps)
  show ?case
    by (rule vs_loop_piece [OF f Unsigned.prems(3,4,5), where args' = args], assumption)
      (use directive_Unsigned [OF cstr_off_char [OF f] _ Unsigned.prems(4)] Unsigned.IH Unsigned.prems(1) in auto)
next
  case (Character ps args t w)
  have f: "cstr_off b e m fmt ([37, 99] @ format_of ps)" using Character.prems(2) by (simp add: format_of_simps)
  have "vs_loop null buf e m str fmt (w # args) = Some (emit m str e ([ucast w] @ t), str + length ([ucast w :: u8] @ t))"
    by (rule vs_loop_piece [OF f Character.prems(3,4,5), where args' = args], assumption)
      (use directive_Character [OF cstr_off_char [OF f] Character.prems(4)] Character.IH Character.prems(1) in auto)
  then show ?case by simp
next
  case (String ps args t w s)
  have f: "cstr_off b e m fmt ([37, 115] @ format_of ps)" using String.prems(2) by (simp add: format_of_simps)
  have s: "cstr_off b e m (unat w) s" by (rule cstr_off_cong [OF String.hyps(3)]) (use String.prems(3) in simp)
  show ?case
    by (rule vs_loop_piece [OF f String.prems(3,4,5), where args' = args], assumption)
      (use directive_String [OF cstr_off_char [OF f] String.prems(4) String.hyps(2) s String.hyps(4) String.prems(5)]
        String.IH String.prems(1) in auto)
qed

subsection \<open>The results of printing and reading\<close>

lemma writable_room: "writable m b n \<Longrightarrow> 0 < n \<Longrightarrow> room m b (b + n - 1)"
proof -
  assume a: "writable m b n" "0 < n"
  have "m x \<noteq> None" if "b \<le> x" "x \<le> b + n - 1" for x
    using writable_nth [OF a(1), of "x - b"] that a(2) by auto
  then show ?thesis by (simp add: room_def)
qed

lemma snprintf_renders:
  assumes "renders buf (buf + sz - 1) m ps args t" and "\<forall>p \<in> set ps. piece_ok p"
    and "cstr_off buf (buf + sz - 1) m fmt (format_of ps)" and "writable m buf sz"
    and "0 < buf" and "0 < sz" and "buf + sz \<le> 2 ^ 32"
  shows "\<exists>m'. snprintf null m buf sz fmt args = Some (m', length t) \<and> bytes m' buf (take (sz - 1) t @ [0]) \<and>
    (\<forall>x. x < buf \<or> buf + sz \<le> x \<longrightarrow> m' x = m x) \<and> (\<forall>x. m x \<noteq> None \<longrightarrow> m' x \<noteq> None)"
proof -
  let ?e = "buf + sz - 1"
  have r: "room m buf ?e" using writable_room [OF assms(4)] assms(6) by simp
  let ?m = "emit m buf ?e t"
  have l: "vs_loop null buf ?e m buf fmt args = Some (?m, buf + length t)"
    by (rule vs_loop_renders [OF assms(1-3) _ r]) simp_all
  define p where "p = (if buf + length t \<le> ?e then buf + length t else ?e)"
  have st: "store8 ?m p 0 = Some (mset ?m p 0)"
  proof (rule store8_Some)
    have "room ?m buf ?e" by (rule room_emit [OF r])
    then show "?m p \<noteq> None" using assms(6) by (auto simp: room_def p_def)
  qed
  have "snprintf null m buf sz fmt args = Some (mset ?m p 0, length t)"
    using l st assms(6) by (auto simp: snprintf_def vsnprintf_def vs_end_fits [OF assms(5,7)] p_def simp del: One_nat_def)
  moreover have "bytes (mset ?m p 0) buf (take (sz - 1) t @ [0])"
  proof -
    have p: "p = buf + length (take (sz - 1) t)" using assms(6) by (auto simp: p_def)
    have "bytes ?m buf (take (sz - 1) t)" using assms(6) by (auto simp: bytes_nth emit_apply)
    then show ?thesis unfolding p by simp
  qed
  moreover have "mset ?m p 0 x = m x" if "x < buf \<or> buf + sz \<le> x" for x
    using that assms(6) emit_off [of x buf ?e buf m t] by (auto simp: mset_apply p_def)
  moreover have "mset ?m p 0 x \<noteq> None" if "m x \<noteq> None" for x
    using that by (auto simp: mset_apply emit_apply)
  ultimately show ?thesis by blast
qed

text \<open>C38: A format of text and plain directives (\<open>%d %i %u %o %x %c %s %%\<close>) whose strings lie outside
  the buffer makes \<open>snprintf\<close> succeed: it returns the length of the concatenated texts of the
  pieces and leaves their first \<open>sz - 1\<close> characters, terminated, in the buffer.\<close>

theorem snprintf_prints:
  assumes "renders buf (buf + sz - 1) m ps args t" and "\<forall>p \<in> set ps. piece_ok p"
    and "cstr_off buf (buf + sz - 1) m fmt (format_of ps)" and "writable m buf sz"
    and "0 < buf" and "0 < sz" and "buf + sz \<le> 2 ^ 32"
  shows "\<exists>m'. snprintf null m buf sz fmt args = Some (m', length t) \<and> bytes m' buf (take (sz - 1) t @ [0])"
  using snprintf_renders [OF assms] by blast

text \<open>The memory of the witnesses: the format \<open>"%u:%s"\<close> at 100, the string \<open>"ab"\<close> at 200, a buffer
  of 6 bytes at 10.\<close>

definition ex_mem :: cmem where
  "ex_mem = mwrite (mwrite (mwrite Map.empty 100 [37, 117, 58, 37, 115, 0]) 200 [97, 98, 0]) 10 [1, 1, 1, 1, 1, 1]"

lemma ex_mem_strings:
  "cstr ex_mem 100 [37, 117, 58, 37, 115]" "cstr ex_mem 200 [97, 98]" "writable ex_mem 10 6"
proof -
  show "writable ex_mem 10 6" unfolding ex_mem_def by (rule writable_bytes [OF mwrite_bytes]) simp
qed (simp_all add: ex_mem_def)

lemma ex_mem_renders:
  "renders 10 (10 + 6 - 1) ex_mem [Unsigned 117, Txt 58, String] [7, 200] (int_text 7 117 @ 58 # [97, 98] @ [])"
proof -
  have "renders 10 (10 + 6 - 1) ex_mem [String] [200] ([97, 98] @ [])"
    by (rule renders.String [OF renders.Nil]) (use ex_mem_strings in \<open>simp_all add: cstr_off_def\<close>)
  then have "renders 10 (10 + 6 - 1) ex_mem [Txt 58, String] [200] (58 # [97, 98] @ [])" by (rule renders.Txt)
  then have "renders 10 (10 + 6 - 1) ex_mem [Unsigned 117, Txt 58, String] [7, 200] (int_text (ucast (7 :: u32)) 117 @ 58 # [97, 98] @ [])"
    by (rule renders.Unsigned)
  then show ?thesis by simp
qed

lemma int_text_7: "int_text 7 117 = [55]"
  by (simp add: int_text_def number_digits_def radix.simps small_digits_def)

lemma four: "Suc (Suc (Suc (Suc 0))) = 4"
  by simp

lemma snprintf_prints_witness:
  "\<exists>m'. snprintf 0 ex_mem 10 6 100 [7, 200] = Some (m', 4) \<and> bytes m' 10 [55, 58, 97, 98, 0]"
  using snprintf_prints [OF ex_mem_renders, of 100 0] ex_mem_strings
  by (simp add: int_text_7 cstr_off_def format_of_def four del: bytes.simps)


lemma number_digits_length: "2 \<le> b \<Longrightarrow> length (number_digits digits b (unat (n :: u64))) \<le> 64"
  using radix_fits [of b n] by (simp add: number_digits_def)

lemma number_digits_hd:
  assumes "2 \<le> b" "b \<le> 16"
  shows "number_digits small_digits b n \<noteq> [] \<and> is_digit b (hd (number_digits small_digits b n))"
proof -
  have ne: "number_digits small_digits b n \<noteq> []"
    using assms(1) by (auto simp: number_digits_def radix.simps [of b n])
  have "\<forall>x \<in> set (number_digits small_digits b n). is_digit b x"
    using number_digits_read(1) [OF assms] unfolding takeWhile_eq_all_conv .
  then show ?thesis using ne by simp
qed

text \<open>C39: A number printed with its sign in a base from 2 to 16, and terminated, is read back by
  \<open>simple_strtoll\<close>: the text fits in 65 characters, and the end reported is the end of the text.\<close>

theorem number_round_trip:
  assumes "2 \<le> base" and "base \<le> 16" and "writable m buf (Suc (e - buf))" and "buf + 65 \<le> e"
  shows "\<exists>m' p m''. number m buf e num base (- 1) (- 1) SIGN = Some (m', p) \<and> p \<le> buf + 65 \<and>
    store8 m' p 0 = Some m'' \<and> simple_strtoll m'' buf base = Some (num, p)"
proof -
  let ?b = "unat base"
  define t where "t = number_text num base (- 1) (- 1) SIGN"
  have b: "2 \<le> ?b" "?b \<le> 16" using assms(1,2) by (simp_all add: word_le_nat_alt)
  have b0: "base \<noteq> 0" using assms(1) by auto
  have r: "room m buf e" using writable_room [OF assms(3)] assms(4) by simp
  note rd = number_digits_read [OF b] and sg = number_text_signed [of num base]
  have len: "length t \<le> 65"
    using number_digits_length [OF b(1), of small_digits num] number_digits_length [OF b(1), of small_digits "- num"]
    by (simp add: t_def sg)
  let ?m = "emit m buf e t"
  have "number m buf e num base (- 1) (- 1) SIGN = Some (?m, buf + length t)"
    using b puts_emit [OF r] by (auto simp: number_puts t_def word_less_nat_alt)
  moreover have st: "store8 ?m (buf + length t) 0 = Some (mset ?m (buf + length t) 0)"
    by (rule store8_Some) (use room_emit [OF r] len assms(4) in \<open>auto simp: room_def\<close>)
  moreover have c: "cstr (mset ?m (buf + length t) 0) buf t"
  proof -
    have "bytes ?m buf t" using len assms(4) by (auto simp: bytes_nth emit_apply)
    moreover have "0 \<notin> set t" using rd(3) by (simp add: t_def sg)
    ultimately show ?thesis by (simp add: cstr_def)
  qed
  moreover have "simple_strtoll (mset ?m (buf + length t) 0) buf base = Some (num, buf + length t)"
  proof (cases "num <s 0")
    case True
    then have t: "t = 45 # number_digits small_digits ?b (unat (- num))" by (simp add: t_def sg)
    with c have "cstr (mset ?m (buf + length t) 0) (Suc buf) (number_digits small_digits ?b (unat (- num)))" by simp
    from simple_strtoul_spec(2) [OF this b0] show ?thesis
      using c t b rd by (auto simp: simple_strtoll_def)
  next
    case False
    then have t: "t = number_digits small_digits ?b (unat num)" by (simp add: t_def sg)
    have "\<not> is_digit ?b 45" by (simp add: is_digit_def class_iffs byte_defs)
    then have "hd t \<noteq> 45" "t \<noteq> []"
      using number_digits_hd [OF b, of "unat num"] unfolding t by auto
    then obtain x u where "t = x # u" "x \<noteq> 45" by (cases t) auto
    moreover have "simple_strtoull (mset ?m (buf + length t) 0) buf base = Some (num, buf + length t)"
      using simple_strtoul_spec(2) [OF c b0] rd t by simp
    ultimately show ?thesis using c by (simp add: simple_strtoll_def)
  qed
  ultimately show ?thesis using len by auto
qed

lemma number_round_trip_witness:
  "\<exists>m' p m''. number (mwrite Map.empty 1 (replicate 66 0)) 1 66 (- 255) 16 (- 1) (- 1) SIGN = Some (m', p) \<and>
    store8 m' p 0 = Some m'' \<and> simple_strtoll m'' 1 16 = Some (- 255, p)"
proof -
  have "writable (mwrite Map.empty 1 (replicate 66 0)) 1 (Suc (66 - 1))"
    by (rule writable_bytes [OF mwrite_bytes]) simp
  from number_round_trip [of 16, OF _ _ this, of "- 255"] show ?thesis by auto
qed

subsection \<open>The scanner\<close>

lemma skip_space_none: "m p = Some c \<Longrightarrow> \<not> isspace c \<Longrightarrow> skip_space m p = Some p"
  by (subst skip_space.simps) simp

lemma scan_class: "\<not> isspace 37" "\<not> isdigit 100" "\<not> isdigit 99"
  by (simp_all add: class_iffs byte_defs)

lemma scan_loop_end: "sc_mem s (sc_fmt s) = Some 0 \<Longrightarrow> scan_loop buf s = Some s"
  by (subst scan_loop.simps) simp

lemma unat_10: "unat (10 :: u32) = 10"
  by simp

text \<open>\<open>sscanf(buf, "%d", p)\<close> on a string that does not begin with white space stores the decimal number
  the string begins with and returns 1; if it begins with anything but a digit, a minus sign
  included, nothing is stored and the result is 0.\<close>

theorem sscanf_decimal:
  assumes "cstr m fmt [37, 100]" and "cstr m buf (c # s)" and "\<not> isspace c"
    and "unat p + 4 \<le> fmt \<or> fmt + 2 < unat p"
  shows "sscanf m buf fmt [p] =
    (if isdigit c
     then do { m' \<leftarrow> store32 m (unat p) (word_of_nat (num_val 10 0 (takeWhile (is_digit 10) (c # s))));
               Some (m', 1) }
     else Some (m, 0))"
proof -
  have f: "m fmt = Some 37" "m (fmt + 1) = Some 100" "m (fmt + 2) = Some 0" "m buf = Some c" "c \<noteq> 0"
    using assms(1,2) by (simp_all add: numeral_2_eq_2)
  note sp = skip_space_none [of m buf c, OF f(4) assms(3)]
  let ?v = "word_of_nat (num_val 10 0 (takeWhile (is_digit 10) (c # s))) :: u32"
  let ?n = "buf + length (takeWhile (is_digit 10) (c # s))"
  have v: "simple_strtol m buf 10 = Some (?v, ?n) \<and> ?n \<noteq> NULL" if d: "isdigit c"
  proof -
    have u: "48 \<le> uint c" "uint c \<le> 57" using d by (simp_all add: class_iffs byte_defs)
    then have "c \<noteq> 45" by auto
    moreover have "unat c \<le> 57" using u unat_eq_nat_uint [of c] by linarith
    then have "is_digit 10 c" using d u by (simp add: is_digit_def digit_val_def) (simp add: class_iffs byte_defs)
    then have "takeWhile (is_digit 10) (c # s) \<noteq> []" by simp
    moreover have "simple_strtoul m buf 10 = Some (?v, ?n)"
      using simple_strtoul_spec(1) [OF assms(2), of 10] unat_10 by (simp del: takeWhile.simps)
    ultimately show ?thesis using f(4)
      by (simp add: simple_strtol_def NULL_def del: takeWhile.simps)
  qed
  have keep: "m' (fmt + 2) = Some 0" if "store32 m (unat p) ?v = Some m'" for m'
    using store32_frame [OF that, of "fmt + 2"] assms(4) f(3) by auto
  show ?thesis
  proof (cases "isdigit c")
    case True
    show ?thesis
    proof (cases "store32 m (unat p) ?v")
      case None
      then show ?thesis using True f sp v [OF True] scan_class
        by (simp add: sscanf_def vsscanf_def scan_loop.simps scan_step_def scan_directive_def scan_qualifier_def
            scan_convert_def scan_integer_def scan_store_def va_word_def Let_def)
    next
      case (Some m')
      then show ?thesis using True f sp v [OF True] scan_class scan_loop_end keep [OF Some]
        by (subst sscanf_def, subst vsscanf_def, subst scan_loop.simps)
          (simp add: scan_step_def scan_directive_def scan_qualifier_def scan_convert_def scan_integer_def
            scan_store_def va_word_def Let_def)
    qed
  next
    case False
    then show ?thesis using f sp scan_class
      by (subst sscanf_def, subst vsscanf_def, subst scan_loop.simps)
        (simp add: scan_step_def scan_directive_def scan_qualifier_def scan_convert_def scan_integer_def Let_def)
  qed
qed

lemma sscanf_decimal_witness:
  "sscanf (mwrite (mwrite Map.empty 100 [37, 100, 0]) 200 [45, 52, 0]) 200 100 [10] =
   Some (mwrite (mwrite Map.empty 100 [37, 100, 0]) 200 [45, 52, 0], 0)"
  using sscanf_decimal [of "mwrite (mwrite Map.empty 100 [37, 100, 0]) 200 [45, 52, 0]" 100 200 45 "[52]" 10]
  by (simp add: class_iffs byte_defs)

text \<open>\<open>sscanf(buf, "%c", p)\<close> stores two characters, one more than the width 1 it sets for itself,
  when the input has two.\<close>

theorem sscanf_char_two:
  assumes "cstr m fmt [37, 99]" and "cstr m buf (c # d # s)"
    and "unat p + 2 \<le> fmt \<or> fmt + 2 < unat p" and "unat p \<noteq> buf + 1" and "writable m (unat p) 2"
  shows "\<exists>m'. sscanf m buf fmt [p] = Some (m', 1) \<and> m' (unat p) = Some c \<and> m' (unat p + 1) = Some d"
proof -
  let ?p = "unat p"
  have f: "m fmt = Some 37" "m (fmt + 1) = Some 99" "m (fmt + 2) = Some 0" "m buf = Some c" "c \<noteq> 0"
    "m (buf + 1) = Some d" "d \<noteq> 0"
    using assms(1,2) by (simp_all add: numeral_2_eq_2)
  have w: "m ?p \<noteq> None" "m (?p + 1) \<noteq> None" using writable_nth [OF assms(5), of 0] writable_nth [OF assms(5), of 1] by auto
  let ?m = "mset (mset m ?p c) (?p + 1) d"
  have "scan_chars m ?p buf 1 = Some (?m, buf + 2, - 1)"
    using f w assms(4) by (simp add: scan_chars.simps)
  moreover have "?m (fmt + 2) = Some 0" using assms(3) f(3) by auto
  ultimately have "sscanf m buf fmt [p] = Some (?m, 1)"
    using f scan_class scan_loop_end
    by (subst sscanf_def, subst vsscanf_def, subst scan_loop.simps)
      (simp add: scan_step_def scan_directive_def scan_qualifier_def scan_convert_def va_word_def Let_def)
  then show ?thesis by simp
qed

lemma sscanf_char_two_witness:
  "\<exists>m'. sscanf (mwrite (mwrite (mwrite Map.empty 100 [37, 99, 0]) 200 [97, 98, 0]) 10 [0, 0]) 200 100 [10] = Some (m', 1) \<and>
     m' 11 = Some 98"
proof -
  let ?m = "mwrite (mwrite (mwrite Map.empty 100 [37, 99, 0]) 200 [97, 98, 0]) 10 [0, 0]"
  have "writable ?m 10 2" by (rule writable_bytes [OF mwrite_bytes]) simp
  with sscanf_char_two [of ?m 100 200 97 98 "[]" 10] show ?thesis by auto
qed

section \<open>Buffers without an end\<close>

text \<open>
  \<open>sprintf\<close> and \<open>snprintf\<close>: output that fits its buffer does not depend on where the buffer ends.
\<close>

subsection \<open>A wider buffer\<close>

definition fits :: "nat \<Rightarrow> nat \<Rightarrow> nat \<Rightarrow> bool" where
  "fits e f b \<longleftrightarrow> b \<le> e + 1 \<and> e \<le> f"

lemma fits_le: "fits e f b' \<Longrightarrow> b \<le> b' \<Longrightarrow> fits e f b"
  by (simp add: fits_def)

lemma put_wide: "put m b e c = Some (m', b') \<Longrightarrow> fits e f b' \<Longrightarrow> put m b f c = Some (m', b')"
  by (auto simp: put_def fits_def split: if_splits bind_splits)

lemma puts_wide: "puts m b e cs = Some (m', b') \<Longrightarrow> fits e f b' \<Longrightarrow> puts m b f cs = Some (m', b')"
proof (induction cs arbitrary: m b)
  case (Cons c cs)
  then obtain m1 b1 where 1: "put m b e c = Some (m1, b1)" "puts m1 b1 e cs = Some (m', b')"
    by (auto split: bind_splits)
  have "b1 \<le> b'" using puts_goes [OF 1(2)] by (simp add: goes_def)
  then show ?case using put_wide [OF 1(1) fits_le [OF Cons.prems(2)]] Cons.IH [OF 1(2) Cons.prems(2)] by simp
qed simp

lemma pad_loop_wide:
  assumes "pad_loop m b e c sz = Some (m', b', k)" "fits e f b'"
  shows "pad_loop m b f c sz = Some (m', b', k)"
proof -
  have "puts m b e (replicate (nat sz) c) = Some (m', b')" "k = min sz 0 - 1"
    using assms(1) by (auto simp: pad_loop_puts split: bind_splits)
  then show ?thesis using puts_wide [OF _ assms(2)] by (simp add: pad_loop_puts)
qed

lemma number_wide:
  assumes "number m b e num base sz precision type = Some (m', b')" "fits e f b'"
  shows "number m b f num base sz precision type = Some (m', b')"
  using assms(1) puts_wide [OF _ assms(2)] by (cases "base < 2 \<or> 36 < base") (simp_all add: number_puts)

lemma put_from_wide: "put_from m b e s n = Some (m', b') \<Longrightarrow> fits e f b' \<Longrightarrow> put_from m b f s n = Some (m', b')"
proof (induction n arbitrary: m b s)
  case (Suc n)
  have le: "b + 1 \<le> b'"
  proof -
    obtain m1 where "put_from m1 (b + 1) e (s + 1) n = Some (m', b')"
      using Suc.prems(1) by (auto split: bind_splits if_splits)
    then show ?thesis using put_from_goes by (force simp: goes_def)
  qed
  then have "b \<le> e" "b \<le> f" using Suc.prems(2) by (auto simp: fits_def)
  then show ?case using Suc.prems Suc.IH by (auto split: bind_splits)
qed simp

lemma goes_fits: "goes e m b m' b' \<Longrightarrow> fits e f b' \<Longrightarrow> fits e f b"
  by (auto simp: goes_def intro: fits_le)

lemma vs_char_wide:
  assumes "vs_char m b e args flags width = Some (m', b', args')" and f: "fits e f b'"
  shows "vs_char m b f args flags width = Some (m', b', args')"
proof -
  obtain m1 b1 w1 c args1 m2 b2 w2 where s:
    "(if \<not> flag flags LEFT then do { (m, str, w) \<leftarrow> pad_loop m b e 32 (width - 1); Some (m, str, w + 1) }
      else Some (m, b, width)) = Some (m1, b1, w1)"
    "va_word args = Some (c, args1)" "put m1 b1 e (ucast c) = Some (m2, b2)"
    "pad_loop m2 b2 e 32 (w1 - 1) = Some (m', b', w2)" "args' = args1"
    using assms(1) unfolding vs_char_def by (auto simp only: bind_eq_Some_conv split_paired_Ex prod.case option.inject prod.inject)
  have f2: "fits e f b2" by (rule goes_fits [OF pad_loop_goes [OF s(4)] f])
  have f1: "fits e f b1" by (rule goes_fits [OF put_goes [OF s(3)] f2])
  have "(if \<not> flag flags LEFT then do { (m, str, w) \<leftarrow> pad_loop m b f 32 (width - 1); Some (m, str, w + 1) }
      else Some (m, b, width)) = Some (m1, b1, w1)"
    using s(1) f1 by (auto dest!: pad_loop_wide [OF _ f1] split: if_splits bind_splits)
  then show ?thesis
    using s(2,5) put_wide [OF s(3) f2] pad_loop_wide [OF s(4) f] unfolding vs_char_def by simp
qed

lemma vs_string_wide:
  assumes "vs_string null m b e args flags width precision = Some (m', b', args')" and f: "fits e f b'"
  shows "vs_string null m b f args flags width precision = Some (m', b', args')"
proof -
  obtain w args1 len m1 b1 w1 m2 b2 k where s:
    "va_word args = Some (w, args1)"
    "strnlen m (if w = 0 then null else unat w) (nat (precision mod 2 ^ 32)) = Some len"
    "(if \<not> flag flags LEFT
      then do { (m, str, k) \<leftarrow> pad_loop m b e 32 (width - int len); Some (m, str, k + int len) }
      else Some (m, b, width)) = Some (m1, b1, w1)"
    "put_from m1 b1 e (if w = 0 then null else unat w) len = Some (m2, b2)"
    "pad_loop m2 b2 e 32 (w1 - int len) = Some (m', b', k)" "args' = args1"
    using assms(1) unfolding vs_string_def Let_def by (auto simp only: bind_eq_Some_conv split_paired_Ex prod.case option.inject prod.inject)
  have f2: "fits e f b2" by (rule goes_fits [OF pad_loop_goes [OF s(5)] f])
  have f1: "fits e f b1" by (rule goes_fits [OF put_from_goes [OF s(4)] f2])
  have "(if \<not> flag flags LEFT
      then do { (m, str, k) \<leftarrow> pad_loop m b f 32 (width - int len); Some (m, str, k + int len) }
      else Some (m, b, width)) = Some (m1, b1, w1)"
    using s(3) f1 by (auto dest!: pad_loop_wide [OF _ f1] split: if_splits bind_splits)
  then show ?thesis
    using s(1,2,6) put_from_wide [OF s(4) f2] pad_loop_wide [OF s(5) f] unfolding vs_string_def Let_def by simp
qed

lemma vs_directive_wide:
  assumes "vs_directive null buf m b e fmt args = Some (m', b', fmt', args')" and f: "fits e f b'"
  shows "vs_directive null buf m b f fmt args = Some (m', b', fmt', args')"
proof -
  obtain flags0 fmt0 w flags fmt1 args1 prec fmt2 args2 q fmt3 c where
    d: "vs_flags m fmt 0 = Some (flags0, fmt0)" "vs_width m fmt0 args flags0 = Some (w, flags, fmt1, args1)"
      "vs_precision m fmt1 args1 = Some (prec, fmt2, args2)" "vs_qualifier m fmt2 = Some (q, fmt3)" "m fmt3 = Some c"
    using assms(1) unfolding vs_directive_def by (auto simp only: bind_eq_Some_conv split_paired_Ex prod.case)
  note R = assms(1) [unfolded vs_directive_def, simplified d bind.bind_lunit prod.case]
  note S = vs_directive_def d bind.bind_lunit prod.case
  consider "c = 99" | "c = 115" | "c = 112" | "c = 110" | "c = 37" | "c \<notin> {99, 115, 112, 110, 37}" by blast
  then show ?thesis
  proof cases
    case 1
    then show ?thesis using R by (auto simp: S dest!: vs_char_wide [OF _ f] split: bind_splits)
  next
    case 2
    then show ?thesis using R by (auto simp: S dest!: vs_string_wide [OF _ f] split: bind_splits)
  next
    case 3
    then show ?thesis using R
      by (cases "w = - 1") (auto simp: S Let_def dest!: number_wide [OF _ f] split: bind_splits)
  next
    case 4
    then show ?thesis using R by (simp add: S)
  next
    case 5
    then show ?thesis using R by (auto simp: S dest!: put_wide [OF _ f] split: bind_splits)
  next
    case 6
    show ?thesis
    proof (cases "vs_base c flags")
      case None
      then obtain m1 b1 where 1: "put m b e 37 = Some (m1, b1)"
        "(if c \<noteq> 0 then do { (m, str) \<leftarrow> put m1 b1 e c; Some (m, str, fmt3, args2) } else Some (m1, b1, fmt3 - 1, args2)) =
         Some (m', b', fmt', args')"
        using R 6 by (simp (no_asm_use) only: insert_iff empty_iff simp_thms de_Morgan_disj if_False option.case)
          (auto simp only: bind_eq_Some_conv split_paired_Ex prod.case option.case insert_iff empty_iff if_False simp_thms)
      have "fits e f b1" using 1(2) f goes_fits [OF put_goes f] by (auto split: if_splits bind_splits)
      from put_wide [OF 1(1) this] 1(2) show ?thesis
        using None 6 by (auto simp: S dest!: put_wide [OF _ f] split: if_splits bind_splits)
    next
      case (Some bf)
      then show ?thesis using R 6 by (cases bf) (auto simp: S dest!: number_wide [OF _ f] split: bind_splits)
    qed
  qed
qed

lemma vs_loop_wide:
  assumes "vs_loop null buf e m b fmt args = Some r"
  shows "b \<le> snd r \<and> (fits e f (snd r) \<longrightarrow> vs_loop null buf f m b fmt args = Some r)"
  using assms
proof (rule vs_loop.raw_induct
    [of "\<lambda>null buf e m b fmt args r. b \<le> snd r \<and> (fits e f (snd r) \<longrightarrow> vs_loop null buf f m b fmt args = Some r)", rotated])
  fix loop :: "nat \<Rightarrow> nat \<Rightarrow> nat \<Rightarrow> cmem \<Rightarrow> nat \<Rightarrow> nat \<Rightarrow> u32 list \<Rightarrow> (cmem \<times> nat) option"
    and null buf e b fmt args r and m :: cmem
  assume IH: "\<And>null buf e m b fmt args r. loop null buf e m b fmt args = Some r \<Longrightarrow>
      b \<le> snd r \<and> (fits e f (snd r) \<longrightarrow> vs_loop null buf f m b fmt args = Some r)"
    and P: "do { c \<leftarrow> m fmt;
      if c = 0 then Some (m, b)
      else if c \<noteq> 37 then do { (m, str) \<leftarrow> put m b e c; loop null buf e m str (fmt + 1) args }
      else do { (m, str, fmt, args) \<leftarrow> vs_directive null buf m b e fmt args;
                loop null buf e m str (fmt + 1) args } } = Some r"
  obtain c where c: "m fmt = Some c" using P by (auto split: bind_splits)
  consider "c = 0" | "c \<noteq> 0" "c \<noteq> 37" | "c = 37" by blast
  then show "b \<le> snd r \<and> (fits e f (snd r) \<longrightarrow> vs_loop null buf f m b fmt args = Some r)"
  proof cases
    case 1
    then have "r = (m, b)" using c P by simp
    then show ?thesis using 1 c by (subst vs_loop.simps) simp
  next
    case 2
    then obtain m1 b1 where s: "put m b e c = Some (m1, b1)" "loop null buf e m1 b1 (fmt + 1) args = Some r"
      using c P by (auto split: bind_splits)
    note I = IH [OF s(2)]
    have "b \<le> b1" using put_goes [OF s(1)] by (simp add: goes_def)
    moreover have "vs_loop null buf f m b fmt args = Some r" if g: "fits e f (snd r)"
      using put_wide [OF s(1) fits_le [OF g]] I g 2 c by (subst vs_loop.simps) simp
    ultimately show ?thesis using I by simp
  next
    case 3
    then obtain m1 b1 f1 a1 where s: "vs_directive null buf m b e fmt args = Some (m1, b1, f1, a1)"
      "loop null buf e m1 b1 (f1 + 1) a1 = Some r"
      using c P by (auto split: bind_splits)
    note I = IH [OF s(2)]
    have "b \<le> b1" using vs_directive_goes [OF s(1)] by (simp add: goes_n_def)
    moreover have "vs_loop null buf f m b fmt args = Some r" if g: "fits e f (snd r)"
      using vs_directive_wide [OF s(1) fits_le [OF g]] I g 3 c by (subst vs_loop.simps) simp
    ultimately show ?thesis using I by simp
  qed
qed

subsection \<open>sprintf\<close>

lemma vs_end_unbounded:
  assumes "1 < buf" "buf < 2 ^ 32"
  shows "vs_end buf 0xFFFFFFFF = (2 ^ 32 - 1, 2 ^ 32 - buf)"
proof -
  have 1: "(buf + 0xFFFFFFFF + (2 ^ 32 - 1)) mod 2 ^ 32 = buf - 2"
  proof -
    have "buf + 0xFFFFFFFF + (2 ^ 32 - 1) = buf - 2 + 2 * 2 ^ 32" using assms(1) by simp
    then show ?thesis using assms by (simp only: mod_mult_self1) simp
  qed
  have 2: "(buf + (2 ^ 32 - 1)) mod 2 ^ 32 = buf - 1"
  proof -
    have "buf + (2 ^ 32 - 1) = buf - 1 + 1 * 2 ^ 32" using assms(1) by simp
    then show ?thesis using assms by (simp only: mod_mult_self1) simp
  qed
  have "(2 ^ 32 - buf) mod 2 ^ 32 = 2 ^ 32 - buf" using assms by simp
  then show ?thesis using 1 2 assms by (simp add: vs_end_def Let_def)
qed

text \<open>\<open>sprintf\<close> is \<open>snprintf\<close> without the bound: when \<open>snprintf\<close> into a buffer of \<open>sz\<close> bytes cuts nothing
  off, \<open>sprintf\<close> leaves the same memory and returns the same length.\<close>

lemma sprintf_as_snprintf:
  assumes s: "snprintf null m buf sz fmt args = Some (m', len)" and "len < sz" "1 < buf" "buf + sz \<le> 2 ^ 32"
  shows "sprintf null m buf fmt args = Some (m', len)"
proof -
  let ?e = "buf + sz - 1"
  have b: "0 < buf" "buf < 2 ^ 32" using assms by simp_all
  obtain m1 str where l: "vs_loop null buf ?e m buf fmt args = Some (m1, str)"
    and t: "(if str \<le> ?e then store8 m1 str 0 else if 0 < sz then store8 m1 ?e 0 else Some m1) = Some m'"
    and len: "len = str - buf"
    using s by (auto simp: snprintf_def vsnprintf_def vs_end_fits [OF b(1) assms(4)] simp del: One_nat_def split: bind_splits)
  have w: "buf \<le> str" "fits ?e (2 ^ 32 - 1) str \<longrightarrow> vs_loop null buf (2 ^ 32 - 1) m buf fmt args = Some (m1, str)"
    using vs_loop_wide [OF l, of "2 ^ 32 - 1"] by simp_all
  have str: "str \<le> ?e" using w(1) len assms(2) by simp
  then have "vs_loop null buf (2 ^ 32 - 1) m buf fmt args = Some (m1, str)"
    using w(2) assms(4) by (simp add: fits_def)
  moreover have "store8 m1 str 0 = Some m'" "str \<le> 2 ^ 32 - 1" using t str assms(4) by simp_all
  ultimately show ?thesis
    using vs_end_unbounded [OF assms(3) b(2)] len by (simp add: sprintf_def vsprintf_def vsnprintf_def)
qed

lemma sprintf_renders:
  assumes "renders buf (buf + sz - 1) m ps args t" and "\<forall>p \<in> set ps. piece_ok p"
    and "cstr_off buf (buf + sz - 1) m fmt (format_of ps)" and "writable m buf sz"
    and "1 < buf" and "buf + sz \<le> 2 ^ 32" and "length t < sz"
  shows "\<exists>m'. sprintf null m buf fmt args = Some (m', length t) \<and> bytes m' buf (t @ [0]) \<and>
    (\<forall>x. x < buf \<or> buf + sz \<le> x \<longrightarrow> m' x = m x) \<and> (\<forall>x. m x \<noteq> None \<longrightarrow> m' x \<noteq> None)"
proof -
  have pos: "0 < buf" "0 < sz" using assms(5,7) by simp_all
  from snprintf_renders [OF assms(1-4) pos assms(6), of null] obtain m' where
    m: "snprintf null m buf sz fmt args = Some (m', length t)" "bytes m' buf (take (sz - 1) t @ [0])"
    "\<forall>x. x < buf \<or> buf + sz \<le> x \<longrightarrow> m' x = m x" "\<forall>x. m x \<noteq> None \<longrightarrow> m' x \<noteq> None" by blast
  have "take (sz - 1) t = t" using assms(7) by simp
  then show ?thesis using m sprintf_as_snprintf [OF m(1) assms(7,5,6)] by (simp only:) blast
qed

end
