(* ===== verification/Walk.thy ===== *)
theory Walk
  imports Prelude
begin

text \<open>
  Walking a kernel list whose entries the body may move.  A list is the HOL list of its entries,
  first entry first; \<open>list_for_each_safe\<close> remembers the entry after the current one before it runs
  the body.  Reading the link of an entry that is no longer on the list is \<open>None\<close>: it was
  unlinked, and the walk would circle on it.
\<close>

fun next_in :: "'a list \<Rightarrow> 'a \<Rightarrow> 'a option option" where
  "next_in [] p = None"
| "next_in (x # xs) p =
     (if x = p then Some (case xs of [] \<Rightarrow> None | y # ys \<Rightarrow> Some y) else next_in xs p)"

definition first_in :: "'a list \<Rightarrow> 'a option" where
  "first_in xs = (case xs of [] \<Rightarrow> None | x # _ \<Rightarrow> Some x)"

partial_function (option) each_safe ::
    "('s \<Rightarrow> 'a list) \<Rightarrow> ('a \<Rightarrow> 's \<Rightarrow> 's option) \<Rightarrow> 'a option \<Rightarrow> 's \<Rightarrow> 's option" where
  "each_safe lst body pos s =
     (case pos of
        None \<Rightarrow> Some s
      | Some p \<Rightarrow> do { n \<leftarrow> next_in (lst s) p; s \<leftarrow> body p s; each_safe lst body n s })"

definition for_each_safe :: "('s \<Rightarrow> 'a list) \<Rightarrow> ('a \<Rightarrow> 's \<Rightarrow> 's option) \<Rightarrow> 's \<Rightarrow> 's option" where
  "for_each_safe lst body s = each_safe lst body (first_in (lst s)) s"

text \<open>A loop over a fixed list of things, each step of which may fail.\<close>

fun fold_opt :: "('a \<Rightarrow> 's \<Rightarrow> 's option) \<Rightarrow> 'a list \<Rightarrow> 's \<Rightarrow> 's option" where
  "fold_opt f [] s = Some s"
| "fold_opt f (x # xs) s = do { s \<leftarrow> f x s; fold_opt f xs s }"

lemma fold_opt_append: "fold_opt f (xs @ ys) s = do { s \<leftarrow> fold_opt f xs s; fold_opt f ys s }"
  by (induction xs arbitrary: s) (auto split: bind_splits)

lemma first_in_simps [simp]: "first_in [] = None" "first_in (x # xs) = Some x"
  by (simp_all add: first_in_def)

lemma next_in_split: "p \<notin> set xs \<Longrightarrow> next_in (xs @ p # ys) p = Some (first_in ys)"
  by (induction xs) (auto simp: first_in_def)

lemma each_safe_None [simp]: "each_safe lst body None s = Some s"
  by (subst each_safe.simps) simp

lemma each_safe_Some:
  "each_safe lst body (Some p) s =
     do { n \<leftarrow> next_in (lst s) p; s \<leftarrow> body p s; each_safe lst body n s }"
  by (subst each_safe.simps) simp

text \<open>
  A walk reaches every entry once when the body keeps the entries ahead in place: \<open>I ys s\<close> says
  what holds when the entries \<open>ys\<close> are still to come, \<open>rest\<close> being them at the end of the list.
\<close>

lemma each_safe_induct:
  assumes "I ys s"
    and rest: "\<And>y ys s. I (y # ys) s \<Longrightarrow> \<exists>xs. lst s = xs @ y # ys \<and> y \<notin> set xs"
    and body: "\<And>y ys s. I (y # ys) s \<Longrightarrow> \<exists>s'. body y s = Some s' \<and> I ys s'"
  shows "\<exists>s'. each_safe lst body (first_in ys) s = Some s' \<and> I [] s'"
  using assms(1)
proof (induction ys arbitrary: s)
  case (Cons y ys)
  obtain xs where "lst s = xs @ y # ys" "y \<notin> set xs" using rest [OF Cons.prems] by blast
  then have n: "next_in (lst s) y = Some (first_in ys)" by (simp add: next_in_split)
  obtain s' where s': "body y s = Some s'" "I ys s'" using body [OF Cons.prems] by blast
  from Cons.IH [OF s'(2)] show ?case by (simp add: each_safe_Some n s'(1))
qed simp

end
