(* ===== verification/Console.thy ===== *)
theory Console
  imports Ctype Walk
begin

text \<open>
  drivers/console.c, the text screen, and kernel/console.c, the list of consoles.  Video memory is a
  map from addresses to 16-bit cells; addresses, lines and columns are natural numbers, which is
  faithful as long as nothing wraps: the invariant proved here bounds them all.  \<open>set_origin\<close> and
  \<open>set_cursor\<close> only tell the display controller where the screen starts and the cursor stands; what
  they send is \<open>crtc_origin\<close> and \<open>crtc_cursor\<close>.
\<close>

subsection \<open>The screen (drivers/console.c)\<close>

definition SCREEN_START :: nat where "SCREEN_START = 0xC00B8000"
definition SCREEN_END :: nat where "SCREEN_END = 0xC00C0000"
definition LINES :: nat where "LINES = 25"
definition COLUMNS :: nat where "COLUMNS = 80"

record screen =
  vmem :: "nat \<Rightarrow> u16"
  origin :: nat
  scr_end :: nat
  cpos :: nat
  cx :: nat
  cy :: nat
  crtc_origin :: nat
  crtc_cursor :: nat

definition blank :: u16 where "blank = 0x0720"

definition gotoxy :: "nat \<Rightarrow> nat \<Rightarrow> screen \<Rightarrow> screen" where
  "gotoxy new_x new_y s =
     (if COLUMNS \<le> new_x \<or> LINES \<le> new_y then s
      else s\<lparr>cx := new_x, cy := new_y, cpos := origin s + 2 * (new_y * COLUMNS + new_x)\<rparr>)"

definition set_origin :: "screen \<Rightarrow> screen" where
  "set_origin s = s\<lparr>crtc_origin := (origin s - SCREEN_START) div 2 mod 2 ^ 16\<rparr>"

definition set_cursor :: "screen \<Rightarrow> screen" where
  "set_cursor s = s\<lparr>crtc_cursor := (cpos s - SCREEN_START) div 2 mod 2 ^ 16\<rparr>"

text \<open>\<open>for (i = from; i != to; i += 2) *(u16 *)i = 0x0720\<close>\<close>

definition fill_blank :: "nat \<Rightarrow> nat \<Rightarrow> screen \<Rightarrow> screen" where
  "fill_blank from to s =
     s\<lparr>vmem := fold (\<lambda>k m. m(from + 2 * k := blank)) [0..<(to - from) div 2] (vmem s)\<rparr>"

definition clear :: "screen \<Rightarrow> screen" where
  "clear s = fill_blank SCREEN_START SCREEN_END s"

definition scroll_up :: "screen \<Rightarrow> screen" where
  "scroll_up s =
     (let s = (if scr_end s + 2 * COLUMNS < SCREEN_END
               then s\<lparr>origin := origin s + 2 * COLUMNS, scr_end := scr_end s + 2 * COLUMNS\<rparr>
               else s\<lparr>vmem := (\<lambda>a. if SCREEN_START \<le> a \<and> a < SCREEN_START + COLUMNS * (LINES - 1) * 2
                                  then vmem s (origin s + (a - SCREEN_START)) else vmem s a),
                      origin := SCREEN_START, scr_end := SCREEN_START + COLUMNS * LINES * 2\<rparr>)
      in set_origin (fill_blank (scr_end s - COLUMNS * 2) (scr_end s) s))"

definition scroll_down :: "screen \<Rightarrow> screen" where
  "scroll_down s =
     set_origin (if origin s \<noteq> SCREEN_START
                 then s\<lparr>origin := origin s - 2 * COLUMNS, scr_end := scr_end s - 2 * COLUMNS\<rparr>
                 else s\<lparr>origin := SCREEN_END - COLUMNS * LINES * 2, scr_end := SCREEN_END\<rparr>)"

definition del_char :: "screen \<Rightarrow> screen" where
  "del_char s =
     (if cx s \<noteq> 0
      then s\<lparr>cpos := cpos s - 2, cx := cx s - 1, vmem := (vmem s)(cpos s - 2 := blank)\<rparr>
      else s)"

text \<open>The end of the functions that may leave the last line.\<close>

definition wrap_line :: "screen \<Rightarrow> screen" where
  "wrap_line s = (if LINES \<le> cy s then (scroll_up s)\<lparr>cy := cy s - 1\<rparr> else s)"

definition putchar :: "u16 \<Rightarrow> screen \<Rightarrow> screen" where
  "putchar ch s =
     (let s = s\<lparr>vmem := (vmem s)(cpos s := 0x0700 + ch), cx := cx s + 1\<rparr>;
          s = (if COLUMNS \<le> cx s then s\<lparr>cy := cy s + 1, cx := 0\<rparr> else s);
          s = wrap_line s
      in gotoxy (cx s) (cy s) s)"

definition insert_line :: "screen \<Rightarrow> screen" where
  "insert_line s =
     (let s = wrap_line (s\<lparr>cy := cy s + 1\<rparr>) in gotoxy (cx s) (cy s) s)"

definition cntrl_left :: "screen \<Rightarrow> screen" where
  "cntrl_left s = (let s = s\<lparr>cx := 0\<rparr> in gotoxy (cx s) (cy s) s)"

definition cntrl_vtable :: "screen \<Rightarrow> screen" where
  "cntrl_vtable s =
     (let old_x = cx s; x = (cx s + 7) div 8 * 8; x = (if x = old_x then x + 8 else x);
          s = s\<lparr>cx := x\<rparr>;
          s = (if COLUMNS \<le> cx s then s\<lparr>cy := cy s + 1, cx := 0\<rparr> else s);
          s = wrap_line s
      in gotoxy (cx s) (cy s) s)"

definition cntrl_back :: "screen \<Rightarrow> screen" where
  "cntrl_back s =
     (let s = (if cx s \<noteq> 0 then s\<lparr>cx := cx s - 1\<rparr>
               else if cy s \<noteq> 0 then s\<lparr>cy := cy s - 1, cx := COLUMNS - 1\<rparr> else s)
      in gotoxy (cx s) (cy s) s)"

definition cntrl_beep :: "screen \<Rightarrow> screen" where
  "cntrl_beep s = s\<lparr>vmem := (vmem s)(scr_end s - 2 := 0x0201)\<rparr>"

text \<open>One character of \<open>con_write\<close>.\<close>

definition con_char :: "u8 \<Rightarrow> screen \<Rightarrow> screen" where
  "con_char ch s =
     (if isprint ch then putchar (ucast ch) s
      else if iscntrl ch
      then (if ch = 10 then cntrl_left (insert_line s)
            else if ch = 9 then cntrl_vtable s
            else if ch = 13 then cntrl_left s
            else if ch = 8 then cntrl_back s
            else if ch = 7 then cntrl_beep s
            else s)
      else s)"

definition con_write :: "u8 list \<Rightarrow> screen \<Rightarrow> screen" where
  "con_write buf s = set_cursor (fold con_char buf s)"

definition con_init :: "screen \<Rightarrow> screen" where
  "con_init s = set_cursor (gotoxy 0 0 (clear
     (s\<lparr>origin := SCREEN_START, scr_end := SCREEN_START + LINES * COLUMNS * 2\<rparr>)))"

subsection \<open>The list of consoles (kernel/console.c)\<close>

definition CON_ENABLE :: u32 where "CON_ENABLE = 1"
definition CON_BOOT :: u32 where "CON_BOOT = 2"

text \<open>A \<open>struct console\<close>: its functions are pointers, which may be null.\<close>

record 's console =
  con_fn :: "(u8 list \<Rightarrow> 's \<Rightarrow> 's) option"
  con_release :: "('s \<Rightarrow> 's) option"
  con_flags :: u32

record consoles =
  console_list :: "nat list"

text \<open>\<open>con\<close> gives the \<open>struct console\<close> at a pointer.\<close>

definition register_console ::
    "(nat \<Rightarrow> ('a consoles_scheme) console) \<Rightarrow> nat \<Rightarrow> 'a consoles_scheme \<Rightarrow> int \<times> 'a consoles_scheme" where
  "register_console con c s =
     (if con_fn (con c) = None then (err ERROR, s)
      else (SUCCESS, s\<lparr>console_list := c # console_list s\<rparr>))"

definition unregister_console ::
    "(nat \<Rightarrow> ('a consoles_scheme) console) \<Rightarrow> nat \<Rightarrow> 'a consoles_scheme \<Rightarrow> 'a consoles_scheme" where
  "unregister_console con c s =
     (let s = (case con_release (con c) of None \<Rightarrow> s | Some f \<Rightarrow> f s)
      in s\<lparr>console_list := remove1 c (console_list s)\<rparr>)"

definition console_write ::
    "(nat \<Rightarrow> ('a consoles_scheme) console) \<Rightarrow> u8 list \<Rightarrow> 'a consoles_scheme \<Rightarrow> 'a consoles_scheme option" where
  "console_write con buf s =
     fold_opt (\<lambda>c s. if con_flags (con c) AND CON_ENABLE \<noteq> 0
                    then do { f \<leftarrow> con_fn (con c); Some (f buf s) } else Some s) (console_list s) s"

definition console_init ::
    "(nat \<Rightarrow> ('a consoles_scheme) console) \<Rightarrow> 'a consoles_scheme \<Rightarrow> 'a consoles_scheme option" where
  "console_init con s =
     for_each_safe console_list
       (\<lambda>c s. Some (if con_flags (con c) AND CON_BOOT \<noteq> 0 then unregister_console con c s else s)) s"

subsection \<open>Every write stays inside video memory\<close>

definition screen_ok :: "screen \<Rightarrow> bool" where
  "screen_ok s \<longleftrightarrow> cx s < COLUMNS \<and> cy s < LINES \<and>
     SCREEN_START \<le> origin s \<and> scr_end s = origin s + 2 * (COLUMNS * LINES) \<and> scr_end s \<le> SCREEN_END \<and>
     cpos s = origin s + 2 * (cy s * COLUMNS + cx s)"

text \<open>What lies outside video memory, and the odd addresses inside, stay as they are.\<close>

definition on_screen :: "nat \<Rightarrow> bool" where
  "on_screen a \<longleftrightarrow> SCREEN_START \<le> a \<and> a + 2 \<le> SCREEN_END"

definition keeps_memory :: "screen \<Rightarrow> screen \<Rightarrow> bool" where
  "keeps_memory s s' \<longleftrightarrow> (\<forall>a. \<not> on_screen a \<longrightarrow> vmem s' a = vmem s a)"

lemmas screen_consts = SCREEN_START_def SCREEN_END_def LINES_def COLUMNS_def

lemma keeps_memory_trans: "keeps_memory s t \<Longrightarrow> keeps_memory t u \<Longrightarrow> keeps_memory s u"
  by (simp add: keeps_memory_def)

lemma keeps_memory_refl [simp]: "keeps_memory s s"
  by (simp add: keeps_memory_def)

lemma fill_blank_vmem:
  "vmem (fill_blank from to s) a = (if \<exists>k < (to - from) div 2. a = from + 2 * k then blank else vmem s a)"
proof -
  have "fold (\<lambda>k m. m(from + 2 * k := blank)) [0..<n] m a =
      (if \<exists>k < n. a = from + 2 * k then blank else m a)" for n m
    by (induction n) (auto simp: less_Suc_eq)
  then show ?thesis by (simp add: fill_blank_def)
qed

lemma fill_blank_fields [simp]:
  "origin (fill_blank f t s) = origin s" "scr_end (fill_blank f t s) = scr_end s"
  "cpos (fill_blank f t s) = cpos s" "cx (fill_blank f t s) = cx s" "cy (fill_blank f t s) = cy s"
  by (simp_all add: fill_blank_def)

lemma set_origin_fields [simp]:
  "vmem (set_origin s) = vmem s" "origin (set_origin s) = origin s" "scr_end (set_origin s) = scr_end s"
  "cpos (set_origin s) = cpos s" "cx (set_origin s) = cx s" "cy (set_origin s) = cy s"
  by (simp_all add: set_origin_def)

lemma scroll_up_ok:
  assumes "SCREEN_START \<le> origin s" "scr_end s = origin s + 2 * (COLUMNS * LINES)" "scr_end s \<le> SCREEN_END"
  shows "SCREEN_START \<le> origin (scroll_up s)"
    "scr_end (scroll_up s) = origin (scroll_up s) + 2 * (COLUMNS * LINES)"
    "scr_end (scroll_up s) \<le> SCREEN_END" "keeps_memory s (scroll_up s)"
    "cx (scroll_up s) = cx s" "cy (scroll_up s) = cy s"
  using assms
  by (auto simp: scroll_up_def Let_def keeps_memory_def fill_blank_vmem on_screen_def screen_consts)

lemma gotoxy_ok:
  assumes "SCREEN_START \<le> origin s" "scr_end s = origin s + 2 * (COLUMNS * LINES)" "scr_end s \<le> SCREEN_END"
    and "cx s < COLUMNS" "cy s < LINES"
  shows "screen_ok (gotoxy (cx s) (cy s) s)" "vmem (gotoxy (cx s) (cy s) s) = vmem s"
  using assms by (auto simp: gotoxy_def screen_ok_def)

lemma screen_okD:
  assumes "screen_ok s"
  shows "SCREEN_START \<le> origin s" "scr_end s = origin s + 2 * (COLUMNS * LINES)" "scr_end s \<le> SCREEN_END"
    "cx s < COLUMNS" "cy s < LINES" "cpos s = origin s + 2 * (cy s * COLUMNS + cx s)"
  using assms by (simp_all add: screen_ok_def)

lemma wrap_goto_ok:
  assumes "SCREEN_START \<le> origin s" "scr_end s = origin s + 2 * (COLUMNS * LINES)" "scr_end s \<le> SCREEN_END"
    and "cx s < COLUMNS" "cy s \<le> LINES"
  shows "let t = wrap_line s; u = gotoxy (cx t) (cy t) t in screen_ok u \<and> keeps_memory s u"
proof (cases "LINES \<le> cy s")
  case True
  then have cy: "cy s = LINES" using assms(5) by simp
  note S = scroll_up_ok [OF assms(1-3)]
  let ?t = "(scroll_up s)\<lparr>cy := cy s - 1\<rparr>"
  have "screen_ok (gotoxy (cx ?t) (cy ?t) ?t)" "vmem (gotoxy (cx ?t) (cy ?t) ?t) = vmem ?t"
    using S(1-3,5) assms(4) cy by (intro gotoxy_ok; simp add: LINES_def)+
  then show ?thesis using True S(4) by (simp add: wrap_line_def Let_def keeps_memory_def)
next
  case False
  then have "screen_ok (gotoxy (cx s) (cy s) s)" "vmem (gotoxy (cx s) (cy s) s) = vmem s"
    using assms by (intro gotoxy_ok; simp)+
  then show ?thesis using False by (simp add: wrap_line_def Let_def keeps_memory_def)
qed

lemma cpos_on_screen: "screen_ok s \<Longrightarrow> on_screen (cpos s)"
  by (auto simp: screen_ok_def on_screen_def screen_consts)

lemma con_char_ok:
  assumes ok: "screen_ok s"
  shows "screen_ok (con_char ch s) \<and> keeps_memory s (con_char ch s)"
proof -
  note D = screen_okD [OF ok]
  have put: "screen_ok (putchar c s) \<and> keeps_memory s (putchar c s)" for c
  proof -
    define t where "t = s\<lparr>vmem := (vmem s)(cpos s := 0x0700 + c), cx := cx s + 1\<rparr>"
    define u where "u = (if COLUMNS \<le> cx t then t\<lparr>cy := cy t + 1, cx := 0\<rparr> else t)"
    have "keeps_memory s u" using cpos_on_screen [OF ok]
      by (auto simp: keeps_memory_def u_def t_def)
    moreover have "let t = wrap_line u; v = gotoxy (cx t) (cy t) t in screen_ok v \<and> keeps_memory u v"
      by (rule wrap_goto_ok) (use D in \<open>auto simp: u_def t_def COLUMNS_def\<close>)
    moreover have "putchar c s = (let t = wrap_line u in gotoxy (cx t) (cy t) t)"
      by (simp only: putchar_def Let_def t_def u_def)
    ultimately show ?thesis by (auto simp: Let_def intro: keeps_memory_trans)
  qed
  have line: "screen_ok (insert_line s) \<and> keeps_memory s (insert_line s)"
  proof -
    have "let t = wrap_line (s\<lparr>cy := cy s + 1\<rparr>); v = gotoxy (cx t) (cy t) t
        in screen_ok v \<and> keeps_memory (s\<lparr>cy := cy s + 1\<rparr>) v"
      by (rule wrap_goto_ok) (use D in auto)
    then show ?thesis by (simp add: insert_line_def Let_def keeps_memory_def)
  qed
  have left: "screen_ok (cntrl_left t) \<and> keeps_memory t (cntrl_left t)" if "screen_ok t" for t
    using screen_okD [OF that] gotoxy_ok [of "t\<lparr>cx := 0\<rparr>"]
    by (simp add: cntrl_left_def Let_def keeps_memory_def COLUMNS_def)
  have tab: "screen_ok (cntrl_vtable s) \<and> keeps_memory s (cntrl_vtable s)"
  proof -
    define x where "x = (let x = (cx s + 7) div 8 * 8 in if x = cx s then x + 8 else x)"
    define t where "t = s\<lparr>cx := x\<rparr>"
    define u where "u = (if COLUMNS \<le> cx t then t\<lparr>cy := cy t + 1, cx := 0\<rparr> else t)"
    have "let t = wrap_line u; v = gotoxy (cx t) (cy t) t in screen_ok v \<and> keeps_memory u v"
      by (rule wrap_goto_ok) (use D in \<open>auto simp: u_def t_def COLUMNS_def\<close>)
    moreover have "keeps_memory s u" by (simp add: keeps_memory_def u_def t_def)
    moreover have "cntrl_vtable s = (let t = wrap_line u in gotoxy (cx t) (cy t) t)"
      by (simp only: cntrl_vtable_def Let_def t_def u_def x_def)
    ultimately show ?thesis by (auto simp: Let_def intro: keeps_memory_trans)
  qed
  have bksp: "screen_ok (cntrl_back s) \<and> keeps_memory s (cntrl_back s)"
  proof -
    define t where "t = (if cx s \<noteq> 0 then s\<lparr>cx := cx s - 1\<rparr>
      else if cy s \<noteq> 0 then s\<lparr>cy := cy s - 1, cx := COLUMNS - 1\<rparr> else s)"
    have "SCREEN_START \<le> origin t" "scr_end t = origin t + 2 * (COLUMNS * LINES)" "scr_end t \<le> SCREEN_END"
      "cx t < COLUMNS" "cy t < LINES"
      using D by (auto simp: t_def COLUMNS_def)
    then have "screen_ok (gotoxy (cx t) (cy t) t)" "vmem (gotoxy (cx t) (cy t) t) = vmem t"
      by (rule gotoxy_ok)+
    moreover have "cntrl_back s = gotoxy (cx t) (cy t) t" by (simp only: cntrl_back_def Let_def t_def)
    moreover have "vmem t = vmem s" by (simp add: t_def)
    ultimately show ?thesis by (simp add: keeps_memory_def)
  qed
  have beep: "screen_ok (cntrl_beep s) \<and> keeps_memory s (cntrl_beep s)"
    using ok D by (auto simp: cntrl_beep_def keeps_memory_def screen_ok_def on_screen_def screen_consts)
  have "screen_ok (cntrl_left (insert_line s)) \<and> keeps_memory s (cntrl_left (insert_line s))"
    using line left [of "insert_line s"] by (blast intro: keeps_memory_trans)
  then show ?thesis using put tab left [OF ok] bksp beep ok by (simp add: con_char_def)
qed

lemma con_chars_ok: "screen_ok s \<Longrightarrow> screen_ok (fold con_char buf s) \<and> keeps_memory s (fold con_char buf s)"
proof (induction buf arbitrary: s)
  case (Cons c buf)
  with con_char_ok [of s c] show ?case by (auto intro: keeps_memory_trans)
qed simp

lemma con_write_ok: "screen_ok s \<Longrightarrow> screen_ok (con_write buf s) \<and> keeps_memory s (con_write buf s)"
  using con_chars_ok [of s buf] by (simp add: con_write_def set_cursor_def screen_ok_def keeps_memory_def)

lemma con_init_ok: "screen_ok (con_init s)"
  by (simp add: con_init_def set_cursor_def gotoxy_def clear_def screen_ok_def screen_consts)

end
