(* ===== verification/Printk.thy ===== *)
theory Printk
  imports Vsprintf_Props Console
begin

text \<open>
  kernel/printk.c and kernel/panic.c, and the reports of arch/idt_generic.c: formatting into a static
  buffer and writing it to the consoles.  The static buffers and the string literals are at addresses
  given by an argument; \<open>panic\<close>, which halts for ever, yields the state it halts in.
\<close>

subsection \<open>printk and panic\<close>

text \<open>The bytes of a string literal.\<close>

definition lit :: "string \<Rightarrow> u8 list" where
  "lit s = List.map (\<lambda>c. of_nat (of_char c)) s"

fun read_bytes :: "cmem \<Rightarrow> nat \<Rightarrow> nat \<Rightarrow> u8 list option" where
  "read_bytes m a 0 = Some []"
| "read_bytes m a (Suc n) = do { c \<leftarrow> m a; cs \<leftarrow> read_bytes m (a + 1) n; Some (c # cs) }"

record klog = consoles +
  kbytes :: cmem

record 's print_env =
  p_con :: "nat \<Rightarrow> 's console"
  p_lit :: "u8 list \<Rightarrow> nat"
  printk_buf :: nat
  panic_buf :: nat

definition PRINTK_BUF_SIZE :: nat where "PRINTK_BUF_SIZE = 1024"

definition printk ::
    "('a klog_scheme) print_env \<Rightarrow> u8 list \<Rightarrow> u32 list \<Rightarrow> 'a klog_scheme \<Rightarrow> (int \<times> 'a klog_scheme) option" where
  "printk e fmt args s =
     do { (m, i) \<leftarrow> vsprintf (p_lit e (lit ''<NULL>'')) (kbytes s) (printk_buf e) (p_lit e fmt) args;
          bs \<leftarrow> read_bytes m (printk_buf e) i;
          s \<leftarrow> console_write (p_con e) bs (s\<lparr>kbytes := m\<rparr>);
          Some (int i, s) }"

definition panic ::
    "('a klog_scheme) print_env \<Rightarrow> u8 list \<Rightarrow> u32 list \<Rightarrow> 'a klog_scheme \<Rightarrow> 'a klog_scheme option" where
  "panic e fmt args s =
     do { (m, i) \<leftarrow> vsprintf (p_lit e (lit ''<NULL>'')) (kbytes s) (panic_buf e) (p_lit e fmt) args;
          (i, s) \<leftarrow> printk e (lit ''Kernel panic: %s'') [of_nat (panic_buf e)] (s\<lparr>kbytes := m\<rparr>);
          Some s }"

text \<open>Several calls of \<open>printk\<close>, the results unused.\<close>

definition printks ::
    "('a klog_scheme) print_env \<Rightarrow> (u8 list \<times> u32 list) list \<Rightarrow> 'a klog_scheme \<Rightarrow> 'a klog_scheme option" where
  "printks e ms s = fold_opt (\<lambda>(fmt, args) s. do { (i, s) \<leftarrow> printk e fmt args s; Some s }) ms s"

subsection \<open>What is printed\<close>

lemma read_bytes_spec: "bytes m a xs \<Longrightarrow> read_bytes m a (length xs) = Some xs"
  by (induction xs arbitrary: a) simp_all

text \<open>C21: A message reaches the consoles.  A format of text and plain directives whose text fits the static
  buffer of \<open>printk\<close> is written, whole and unchanged, to every console; memory outside the buffer is
  untouched.\<close>

theorem printk_prints:
  assumes "renders (printk_buf e) (printk_buf e + PRINTK_BUF_SIZE - 1) (kbytes s) ps args t"
    and "\<forall>p \<in> set ps. piece_ok p" "format_of ps = fmt" "length t < PRINTK_BUF_SIZE"
    and "cstr_off (printk_buf e) (printk_buf e + PRINTK_BUF_SIZE - 1) (kbytes s) (p_lit e fmt) fmt"
    and "writable (kbytes s) (printk_buf e) PRINTK_BUF_SIZE" "1 < printk_buf e" "printk_buf e + PRINTK_BUF_SIZE \<le> 2 ^ 32"
  shows "\<exists>m. (\<forall>x. x < printk_buf e \<or> printk_buf e + PRINTK_BUF_SIZE \<le> x \<longrightarrow> m x = kbytes s x) \<and>
    printk e fmt args s =
      map_option (\<lambda>s'. (int (length t), s')) (console_write (p_con e) t (s\<lparr>kbytes := m\<rparr>))"
proof -
  obtain m where m: "sprintf (p_lit e (lit ''<NULL>'')) (kbytes s) (printk_buf e) (p_lit e fmt) args = Some (m, length t)"
    "bytes m (printk_buf e) (t @ [0])" "\<forall>x. x < printk_buf e \<or> printk_buf e + PRINTK_BUF_SIZE \<le> x \<longrightarrow> m x = kbytes s x"
    using sprintf_renders [OF assms(1,2) _ assms(6-8,4), of "p_lit e fmt" "p_lit e (lit ''<NULL>'')"] assms(3,5) by blast
  have "read_bytes m (printk_buf e) (length t) = Some t" using m(2) by (intro read_bytes_spec) simp
  then have "printk e fmt args s =
      map_option (\<lambda>s'. (int (length t), s')) (console_write (p_con e) t (s\<lparr>kbytes := m\<rparr>))"
    using m(1) by (cases "console_write (p_con e) t (s\<lparr>kbytes := m\<rparr>)") (simp_all add: printk_def sprintf_def)
  then show ?thesis using m(3) by blast
qed

text \<open>A console that keeps what it is given; the format at 100, an argument at 200, the buffer at 1000.\<close>

definition ex_log_mem :: cmem where
  "ex_log_mem = mwrite (mwrite (mwrite Map.empty 100 (lit ''pid %s'' @ [0])) 200 (lit ''seven'' @ [0])) 1000 (replicate PRINTK_BUF_SIZE 0)"

record ex_log = klog + shown :: "u8 list"

definition ex_print :: "ex_log print_env" where
  "ex_print = \<lparr>p_con = (\<lambda>_. \<lparr>con_fn = Some (\<lambda>bs s. s\<lparr>shown := shown s @ bs\<rparr>), con_release = None, con_flags = CON_ENABLE\<rparr>),
     p_lit = (\<lambda>_. 100), printk_buf = 1000, panic_buf = 3000\<rparr>"

theorem printk_prints_witness:
  "\<exists>s'. printk ex_print (lit ''pid %s'') [200] \<lparr>console_list = [0], kbytes = ex_log_mem, shown = []\<rparr> = Some (9, s') \<and>
     shown s' = lit ''pid seven''"
proof -
  let ?s = "\<lparr>console_list = [0], kbytes = ex_log_mem, shown = []\<rparr>"
  have c: "cstr ex_log_mem 200 (lit ''seven'')" "cstr ex_log_mem 100 (lit ''pid %s'')"
    unfolding cstr_def ex_log_mem_def
    using bytes_mwrite_other [of 200 _ 100] bytes_mwrite_other [of 1000 _ 200] bytes_mwrite_other [of 1000 _ 100]
      mwrite_bytes [of _ 200 "lit ''seven'' @ [0]"] mwrite_bytes [of _ 100 "lit ''pid %s'' @ [0]"]
    by (simp_all add: lit_def del: bytes.simps bytes_append)
  have w: "writable ex_log_mem 1000 PRINTK_BUF_SIZE"
    unfolding ex_log_mem_def by (rule writable_bytes [OF mwrite_bytes]) simp
  have r: "renders 1000 (1000 + PRINTK_BUF_SIZE - 1) ex_log_mem [Txt 112, Txt 105, Txt 100, Txt 32, String] [200]
      (112 # 105 # 100 # 32 # lit ''seven'' @ [])"
    using c(1) by (intro renders.intros) (simp_all add: cstr_off_def lit_def)
  show ?thesis
    using printk_prints [of ex_print ?s "[Txt 112, Txt 105, Txt 100, Txt 32, String]" "[200]"
        "112 # 105 # 100 # 32 # lit ''seven'' @ []" "lit ''pid %s''"] r c w
    by (auto simp: ex_print_def format_of_def lit_def PRINTK_BUF_SIZE_def cstr_off_def console_write_def CON_ENABLE_def)
qed

end
