(* ===== verification/Page.thy ===== *)
theory Page
  imports Prelude
begin

text \<open>
  include/sins/page.h: the constants of 4 KiB paging, the page-directory and page-table
  entries (\<open>pgd_t\<close>, \<open>pgt_t\<close>: structs around one \<open>u32\<close>), address arithmetic and the two
  order functions.  Lemmas: splitting an address into directory index, table index and offset
  loses nothing; an entry keeps the frame and the flags it is made of; \<open>get_order\<close> is
  the least power of two of pages that holds a size and \<open>get_order_floor\<close> the greatest that
  fits into it.
\<close>

subsection \<open>Constants and address arithmetic\<close>

definition PAGE_OFFSET :: u32 where "PAGE_OFFSET = 0xC0000000"
definition PAGE_SHIFT :: nat where "PAGE_SHIFT = 12"
definition PGD_SHIFT :: nat where "PGD_SHIFT = 22"
definition PAGE_SIZE :: u32 where "PAGE_SIZE = push_bit PAGE_SHIFT 1"
definition PGD_SIZE :: u32 where "PGD_SIZE = push_bit PGD_SHIFT 1"
definition PAGE_MASK :: u32 where "PAGE_MASK = NOT (PAGE_SIZE - 1)"
definition PGD_MASK :: u32 where "PGD_MASK = NOT (PGD_SIZE - 1)"
definition PGT_MASK :: u32 where "PGT_MASK = PAGE_MASK XOR PGD_MASK"

definition PAGE_ALIGN :: "u32 \<Rightarrow> u32" where
  "PAGE_ALIGN addr = (addr + PAGE_SIZE - 1) AND PAGE_MASK"
definition PAGE_FLOOR :: "u32 \<Rightarrow> u32" where
  "PAGE_FLOOR addr = addr AND PAGE_MASK"
definition PAGE_CEIL :: "u32 \<Rightarrow> u32" where
  "PAGE_CEIL addr = PAGE_ALIGN addr"

definition PTRS_PER_PGT :: nat where "PTRS_PER_PGT = 1024"
definition PTRS_PER_PGD :: nat where "PTRS_PER_PGD = 1024"

definition page_offset :: "u32 \<Rightarrow> u32" where
  "page_offset addr = addr AND NOT PAGE_MASK"
definition pgt_index :: "u32 \<Rightarrow> u32" where
  "pgt_index addr = drop_bit PAGE_SHIFT (addr AND PGT_MASK)"
definition pgd_index :: "u32 \<Rightarrow> u32" where
  "pgd_index addr = drop_bit PGD_SHIFT (addr AND PGD_MASK)"

definition va :: "u32 \<Rightarrow> u32" where "va addr = addr + PAGE_OFFSET"
definition pa :: "u32 \<Rightarrow> u32" where "pa addr = addr - PAGE_OFFSET"

definition PAGE_PRESENT :: u32 where "PAGE_PRESENT = push_bit 0 1"
definition PAGE_RW :: u32 where "PAGE_RW = push_bit 1 1"
definition PAGE_USER :: u32 where "PAGE_USER = push_bit 2 1"
definition PAGE_ACCESSED :: u32 where "PAGE_ACCESSED = push_bit 5 1"
definition PAGE_DIRTY :: u32 where "PAGE_DIRTY = push_bit 6 1"
definition PAGE_ADDR_MASK :: u32 where "PAGE_ADDR_MASK = NOT (push_bit 12 1 - 1)"
definition PAGE_FLAGS_MASK :: u32 where "PAGE_FLAGS_MASK = push_bit 12 1 - 1"

lemmas page_consts [kernel_defs] = PAGE_OFFSET_def PAGE_SHIFT_def PGD_SHIFT_def PAGE_SIZE_def
  PGD_SIZE_def PAGE_MASK_def PGD_MASK_def PGT_MASK_def PTRS_PER_PGT_def PTRS_PER_PGD_def
  PAGE_PRESENT_def PAGE_RW_def PAGE_USER_def PAGE_ACCESSED_def PAGE_DIRTY_def
  PAGE_ADDR_MASK_def PAGE_FLAGS_MASK_def

subsection \<open>Directory and table entries\<close>

datatype pgt_t = Pgt (pgt: u32)
datatype pgd_t = Pgd (pgd: u32)

definition pgt_modify :: "pgt_t \<Rightarrow> u32 \<Rightarrow> pgt_t" where
  "pgt_modify e prot = Pgt ((pgt e AND NOT PAGE_FLAGS_MASK) OR prot)"
definition pgd_modify :: "pgd_t \<Rightarrow> u32 \<Rightarrow> pgd_t" where
  "pgd_modify e prot = Pgd ((pgd e AND NOT PAGE_FLAGS_MASK) OR prot)"
definition pgt_check :: "pgt_t \<Rightarrow> u32 \<Rightarrow> u32" where
  "pgt_check e prot = (pgt e AND PAGE_FLAGS_MASK) AND prot"
definition pgd_check :: "pgd_t \<Rightarrow> u32 \<Rightarrow> u32" where
  "pgd_check e prot = (pgd e AND PAGE_FLAGS_MASK) AND prot"
definition mk_pgt :: "u32 \<Rightarrow> u32 \<Rightarrow> pgt_t" where
  "mk_pgt addr prot = Pgt (addr OR prot)"
definition mk_pgd :: "u32 \<Rightarrow> u32 \<Rightarrow> pgd_t" where
  "mk_pgd addr prot = Pgd (addr OR prot)"
definition pgt_present :: "pgt_t \<Rightarrow> bool" where
  "pgt_present e \<longleftrightarrow> pgt_check e PAGE_PRESENT \<noteq> 0"
definition pgd_present :: "pgd_t \<Rightarrow> bool" where
  "pgd_present e \<longleftrightarrow> pgd_check e PAGE_PRESENT \<noteq> 0"
definition pgd_page :: "pgd_t \<Rightarrow> u32" where
  "pgd_page e = pgd e AND PAGE_ADDR_MASK"
definition pgt_page :: "pgt_t \<Rightarrow> u32" where
  "pgt_page e = pgt e AND PAGE_ADDR_MASK"

lemmas page_ops [kernel_defs] = PAGE_ALIGN_def PAGE_FLOOR_def PAGE_CEIL_def page_offset_def
  pgt_index_def pgd_index_def va_def pa_def pgt_modify_def pgd_modify_def pgt_check_def
  pgd_check_def mk_pgt_def mk_pgd_def pgt_present_def pgd_present_def pgd_page_def pgt_page_def

subsection \<open>Orders\<close>

text \<open>The \<open>do ... while (size)\<close> loop the two order functions share.\<close>

function order_loop :: "u32 \<Rightarrow> int \<Rightarrow> int" where
  "order_loop sz order =
     (let sz' = drop_bit 1 sz; order' = order + 1
      in if sz' \<noteq> 0 then order_loop sz' order' else order')"
  by pat_completeness auto
termination
proof (relation "measure (\<lambda>(sz, order). unat sz)")
  fix sz :: u32 and order :: int and x xa
  assume x: "x = drop_bit 1 sz" and "x \<noteq> 0"
  then have "unat sz div 2 \<noteq> 0"
    by (metis unat_drop_bit_eq drop_bit_nat_def power_one_right unat_eq_zero)
  then have "unat sz div 2 < unat sz" by linarith
  with x show "((x, xa), sz, order) \<in> measure (\<lambda>(sz, order). unat sz)"
    by (simp add: unat_drop_bit_eq drop_bit_nat_def)
qed simp

declare order_loop.simps [simp del]

definition get_order :: "u32 \<Rightarrow> int" where
  "get_order sz = order_loop (drop_bit (PAGE_SHIFT - 1) (sz - 1)) (- 1)"

definition get_order_floor :: "u32 \<Rightarrow> int" where
  "get_order_floor sz = order_loop (drop_bit PAGE_SHIFT sz) (- 1)"

subsection \<open>Masks as bit ranges\<close>

lemma PAGE_SIZE_val: "PAGE_SIZE = 4096"
  by (simp add: page_consts)

lemma unat_PAGE_SIZE: "unat PAGE_SIZE = 4096"
  by (simp add: PAGE_SIZE_val)

lemma PAGE_MASK_alt: "PAGE_MASK = NOT (mask 12)"
  by (simp add: page_consts mask_eq_decr_exp)

lemma PGT_MASK_alt: "PGT_MASK = NOT (mask 12) XOR NOT (mask 22)"
  by (simp add: page_consts mask_eq_decr_exp)

lemma PGD_MASK_alt: "PGD_MASK = NOT (mask 22)"
  by (simp add: page_consts mask_eq_decr_exp)

lemma PAGE_FLAGS_MASK_alt: "PAGE_FLAGS_MASK = mask 12"
  by (simp add: page_consts mask_eq_decr_exp)

lemma PAGE_ADDR_MASK_alt: "PAGE_ADDR_MASK = NOT (mask 12)"
  by (simp add: page_consts mask_eq_decr_exp)

lemmas page_masks = PAGE_MASK_alt PGT_MASK_alt PGD_MASK_alt PAGE_FLAGS_MASK_alt PAGE_ADDR_MASK_alt

lemma bit_page_index [simp]:
  "bit (page_offset a) n \<longleftrightarrow> n < 12 \<and> bit a n"
  "bit (PAGE_FLOOR a) n \<longleftrightarrow> 12 \<le> n \<and> bit a n"
  "bit (pgt_index a) n \<longleftrightarrow> n < 10 \<and> bit a (n + 12)"
  "bit (pgd_index a) n \<longleftrightarrow> bit a (n + 22)"
  by (auto simp: page_ops page_masks PAGE_SHIFT_def PGD_SHIFT_def bit_simps ac_simps
      dest: bit_imp_le_length)

text \<open>An address is its three parts put together again.\<close>

lemma address_parts:
  "push_bit 22 (pgd_index a) OR push_bit 12 (pgt_index a) OR page_offset a = a"
proof (rule bit_word_eqI)
  fix n assume "n < LENGTH(32)"
  then show "bit (push_bit 22 (pgd_index a) OR push_bit 12 (pgt_index a) OR page_offset a) n
      = bit a n"
    by (cases "n < 12"; cases "n < 22") (auto simp: bit_simps not_less)
qed

lemma PAGE_FLOOR_offset: "PAGE_FLOOR a OR page_offset a = a"
  by (rule bit_word_eqI) (auto simp: bit_simps not_less)

lemma page_offset_zero_iff: "page_offset a = 0 \<longleftrightarrow> PAGE_FLOOR a = a"
proof
  assume "page_offset a = 0"
  then show "PAGE_FLOOR a = a" using PAGE_FLOOR_offset [of a] by simp
next
  assume f: "PAGE_FLOOR a = a"
  show "page_offset a = 0"
  proof (rule bit_word_eqI)
    fix n
    have "bit (PAGE_FLOOR a) n = bit a n" by (simp only: f)
    then show "bit (page_offset a) n = bit 0 n" by auto
  qed
qed

lemma unat_lt_if_bits: "(\<And>n. bit (w :: u32) n \<Longrightarrow> n < k) \<Longrightarrow> unat w < 2 ^ k"
proof -
  assume b: "\<And>n. bit w n \<Longrightarrow> n < k"
  have "w = take_bit k w"
    by (rule bit_word_eqI) (auto simp: bit_simps dest: b)
  then have "unat w = take_bit k (unat w)"
    by (metis unsigned_take_bit_eq)
  then show "unat w < 2 ^ k"
    by (metis take_bit_nat_less_exp)
qed

lemma pg_index_less: "unat (pgt_index a) < PTRS_PER_PGT" "unat (pgd_index a) < PTRS_PER_PGD"
proof -
  have "unat (pgt_index a) < 2 ^ 10" by (rule unat_lt_if_bits) simp
  then show "unat (pgt_index a) < PTRS_PER_PGT" by (simp add: PTRS_PER_PGT_def)
  have "unat (pgd_index a) < 2 ^ 10"
    by (rule unat_lt_if_bits) (auto dest: bit_imp_le_length)
  then show "unat (pgd_index a) < PTRS_PER_PGD" by (simp add: PTRS_PER_PGD_def)
qed

text \<open>An entry keeps the frame and the flags it was made of.\<close>

lemma pgt_page_mk_pgt:
  assumes "page_offset addr = 0" and "prot AND PAGE_ADDR_MASK = 0"
  shows "pgt_page (mk_pgt addr prot) = addr" "pgt_check (mk_pgt addr prot) prot = prot"
proof -
  have a: "\<not> bit addr n" if "n < 12" for n
  proof -
    have "\<not> bit (page_offset addr) n" by (simp add: assms(1))
    with that show ?thesis by simp
  qed
  have p: "\<not> bit prot n" if "12 \<le> n" for n
  proof -
    have "\<not> bit (prot AND PAGE_ADDR_MASK) n" by (simp add: assms(2))
    with that show ?thesis
      by (auto simp: PAGE_ADDR_MASK_alt bit_simps dest: bit_imp_le_length)
  qed
  have a': "bit addr n \<Longrightarrow> 12 \<le> n" and p': "bit prot n \<Longrightarrow> n < 12" for n
    using a p by (meson not_le)+
  show "pgt_page (mk_pgt addr prot) = addr"
    by (rule bit_word_eqI) (use p in \<open>auto simp: page_ops page_masks bit_simps dest: a' p'\<close>)
  show "pgt_check (mk_pgt addr prot) prot = prot"
    by (rule bit_word_eqI) (use p in \<open>auto simp: page_ops page_masks bit_simps dest: a' p'\<close>)
qed

subsection \<open>Orders are logarithms\<close>

text \<open>The number of binary digits of a natural number.\<close>

fun bitlen :: "nat \<Rightarrow> nat" where
  "bitlen n = (if n = 0 then 0 else Suc (bitlen (n div 2)))"

declare bitlen.simps [simp del]

lemma bitlen_0 [simp]: "bitlen 0 = 0"
  by (subst bitlen.simps) simp

lemma bitlen_step: "n \<noteq> 0 \<Longrightarrow> bitlen n = Suc (bitlen (n div 2))"
  by (subst bitlen.simps) simp

lemma bitlen_upper: "n < 2 ^ bitlen n"
proof (induction n rule: bitlen.induct)
  case (1 n)
  show ?case
  proof (cases "n = 0")
    case False
    then have "n div 2 < 2 ^ bitlen (n div 2)" by (rule 1)
    then show ?thesis by (simp add: bitlen_step [OF False])
  qed simp
qed

lemma bitlen_lower: "n \<noteq> 0 \<Longrightarrow> 2 ^ (bitlen n - 1) \<le> n"
proof (induction n rule: bitlen.induct)
  case (1 n)
  then have step: "bitlen n - 1 = bitlen (n div 2)" by (simp add: bitlen_step)
  show ?case
  proof (cases "n div 2 = 0")
    case True
    with step "1.prems" show ?thesis by simp
  next
    case False
    with 1 have "2 ^ (bitlen (n div 2) - 1) \<le> n div 2" by simp
    moreover have "bitlen (n div 2) = Suc (bitlen (n div 2) - 1)"
      using bitlen_step [OF False] by simp
    then have "(2::nat) ^ bitlen (n div 2) = 2 * 2 ^ (bitlen (n div 2) - 1)"
      by (metis power_Suc)
    ultimately show ?thesis
      unfolding step by linarith
  qed
qed

lemma order_loop_eq: "order_loop sz ord = ord + 1 + int (bitlen (unat sz div 2))"
proof (induction sz ord rule: order_loop.induct)
  case (1 sz ord)
  have u [simp]: "unat (drop_bit (Suc 0) sz) = unat sz div 2"
    by (simp add: unat_drop_bit_eq drop_bit_nat_def)
  show ?case
  proof (cases "drop_bit 1 sz = 0")
    case True
    then have "unat (drop_bit (Suc 0) sz) = 0" by simp
    then have "unat sz div 2 = 0" by (simp only: u)
    then show ?thesis
      using True by (simp add: order_loop.simps [of sz])
  next
    case False
    then have "unat (drop_bit (Suc 0) sz) \<noteq> 0"
      by (simp only: unat_eq_zero One_nat_def not_False_eq_True)
    then have "unat sz div 2 \<noteq> 0" by (simp only: u not_False_eq_True)
    from bitlen_step [OF this] False 1 show ?thesis
      by (simp add: order_loop.simps [of sz] Let_def)
  qed
qed

lemma get_order_eq: "sz \<noteq> 0 \<Longrightarrow> get_order sz = int (bitlen ((unat sz - 1) div 4096))"
proof -
  assume "sz \<noteq> 0"
  then have u: "unat (sz - 1) = unat sz - 1"
    by (rule unat_minus_one)
  have d: "unat (drop_bit 11 (sz - 1)) = (unat sz - 1) div 2048"
    by (simp add: unat_drop_bit_eq drop_bit_nat_def u)
  show ?thesis
    using div_mult2_eq [of "unat sz - 1" 2048 2]
    by (simp add: get_order_def order_loop_eq PAGE_SHIFT_def d del: div_mult2_eq)
qed

lemma get_order_floor_eq: "get_order_floor sz = int (bitlen (unat sz div 8192))"
proof -
  have "unat (drop_bit 12 sz) = unat sz div 4096"
    by (simp add: unat_drop_bit_eq drop_bit_nat_def)
  then show ?thesis
    using div_mult2_eq [of "unat sz" 4096 2]
    by (simp add: get_order_floor_def order_loop_eq PAGE_SHIFT_def)
qed

lemma bitlen_half:
  assumes "m \<noteq> 0"
  shows "2 ^ bitlen (m div 2) \<le> m" "m < 2 ^ Suc (bitlen (m div 2))"
proof -
  have "bitlen m - 1 = bitlen (m div 2)" using bitlen_step [OF assms] by simp
  then show "2 ^ bitlen (m div 2) \<le> m" using bitlen_lower [OF assms] by simp
  have "m < 2 ^ bitlen m" by (rule bitlen_upper)
  then show "m < 2 ^ Suc (bitlen (m div 2))" by (simp only: bitlen_step [OF assms])
qed

text \<open>\<open>get_order_floor\<close> and \<open>get_order\<close> on natural numbers.\<close>

lemma get_order_floor_nat:
  assumes "4096 \<le> n" and "n = unat sz"
  shows "get_order_floor sz = int (bitlen (n div 4096 div 2))"
    and "4096 * 2 ^ bitlen (n div 4096 div 2) \<le> n"
    and "n < 4096 * 2 ^ Suc (bitlen (n div 4096 div 2))"
proof -
  have m: "n div 8192 = n div 4096 div 2"
    using div_mult2_eq [of n 4096 2] by simp
  then show "get_order_floor sz = int (bitlen (n div 4096 div 2))"
    using get_order_floor_eq [of sz] assms(2) by simp
  have "n div 4096 \<noteq> 0" using assms(1) by linarith
  from bitlen_half [OF this] show "4096 * 2 ^ bitlen (n div 4096 div 2) \<le> n"
    "n < 4096 * 2 ^ Suc (bitlen (n div 4096 div 2))" by linarith+
qed

lemma get_order_nat:
  assumes "sz \<noteq> 0" and "n = unat sz"
  shows "get_order sz = int (bitlen ((n - 1) div 4096))"
    and "n \<le> 4096 * 2 ^ bitlen ((n - 1) div 4096)"
    and "j < bitlen ((n - 1) div 4096) \<Longrightarrow> 4096 * 2 ^ j < n"
proof -
  let ?m = "(n - 1) div 4096"
  show "get_order sz = int (bitlen ?m)" using get_order_eq [OF assms(1)] assms(2) by simp
  have "?m < 2 ^ bitlen ?m" by (rule bitlen_upper)
  then show "n \<le> 4096 * 2 ^ bitlen ?m" by linarith
  assume j: "j < bitlen ?m"
  then have "?m \<noteq> 0" by (metis bitlen_0 not_less_zero)
  from bitlen_lower [OF this] have "2 ^ (bitlen ?m - 1) \<le> ?m" .
  moreover from j have "(2::nat) ^ j \<le> 2 ^ (bitlen ?m - 1)" by (intro power_increasing) auto
  ultimately show "4096 * 2 ^ j < n" using \<open>?m \<noteq> 0\<close> by linarith
qed

end
