(* ===== verification/Sched.thy ===== *)
theory Sched
  imports Page
begin

text \<open>
  kernel/sched.c: tasks, their identifiers and the scheduler.  A \<open>struct task_struct *\<close> is the
  address of the task's page.  The lists of tasks are HOL lists, first entry first (the theory
  Klist shows what \<open>list_add\<close>, \<open>list_del\<close> and \<open>list_splice_init\<close> do to them); a wait queue is
  either the \<open>wait_exit\<close> queue of a task or one of those declared elsewhere.  A task is on at most
  one of \<open>run_list\<close>, \<open>ready_list\<close> and the queues, all of which link it through its one
  \<open>run_list\<close> node, so \<open>list_del\<close> takes it off whichever it is on.  Between \<open>irq_save\<close> and
  \<open>irq_restore\<close> an operation is atomic; \<open>switch_to\<close> makes \<open>next\<close> the current task and the operation
  returns there.  \<open>None\<close> is a failed \<open>BUG_ON\<close>.
\<close>

subsection \<open>Tasks\<close>

type_synonym tid = u32

datatype task_state = TASK_RUNNABLE | TASK_WAIT | TASK_ZOMBIE | TASK_DEAD

definition TASK_KTHREAD :: u32 where "TASK_KTHREAD = 1"
definition NR_SIGNALS :: nat where "NR_SIGNALS = 5"
definition NR_OPEN :: nat where "NR_OPEN = 20"
definition NR_PID_LISTS :: nat where "NR_PID_LISTS = 10"
definition TASK_CMD_LENGTH :: nat where "TASK_CMD_LENGTH = 20"
definition TASK_INIT_PID :: u32 where "TASK_INIT_PID = 1"
definition SIG_RESTORER_NULL :: u32 where "SIG_RESTORER_NULL = - 1"

record task_context =
  ctx_esp :: u32
  ctx_eip :: u32

record task =
  tstate :: task_state
  pid :: u32
  cmd :: "u8 list"
  tflags :: u32
  tsignal :: u32
  sig_mask :: u32
  sig_fn :: "nat \<Rightarrow> u32 option"
  sig_restorer :: u32
  exit_code :: int
  time_slice :: u32
  chld_active :: "tid list"
  chld_zombie :: "tid list"
  parent :: "tid option"
  fdt :: "nat \<Rightarrow> u32 option"
  root :: "u32 option"
  pwd :: "u32 option"
  page_dir :: u32
  tcontext :: task_context

definition is_kthread :: "task \<Rightarrow> bool" where
  "is_kthread t \<longleftrightarrow> tflags t AND TASK_KTHREAD \<noteq> 0"

datatype wait_queue = Wait_exit tid | Wait_queue nat

record sched =
  tasks :: "tid \<Rightarrow> task"
  current :: tid
  run_list :: "tid list"
  ready_list :: "tid list"
  queues :: "wait_queue \<Rightarrow> tid list"
  task_list :: "tid list"
  pid_lists :: "nat \<Rightarrow> tid list"
  pid_start :: u32

definition upd_task :: "tid \<Rightarrow> (task \<Rightarrow> task) \<Rightarrow> 'a sched_scheme \<Rightarrow> 'a sched_scheme" where
  "upd_task t f s = s\<lparr>tasks := (tasks s)(t := f (tasks s t))\<rparr>"

definition cur_task :: "'a sched_scheme \<Rightarrow> task" where
  "cur_task s = tasks s (current s)"

text \<open>\<open>list_del(&t->run_list)\<close> and \<open>list_del(&t->child)\<close>.\<close>

definition del_run :: "tid \<Rightarrow> 'a sched_scheme \<Rightarrow> 'a sched_scheme" where
  "del_run t s = s\<lparr>run_list := remove1 t (run_list s), ready_list := remove1 t (ready_list s),
     queues := (\<lambda>q. remove1 t (queues s q))\<rparr>"

definition del_child :: "tid \<Rightarrow> 'a sched_scheme \<Rightarrow> 'a sched_scheme" where
  "del_child t s = s\<lparr>tasks := (\<lambda>p. (tasks s p)\<lparr>chld_active := remove1 t (chld_active (tasks s p)),
     chld_zombie := remove1 t (chld_zombie (tasks s p))\<rparr>)\<rparr>"

subsection \<open>Identifiers\<close>

definition init_pid_lists :: "'a sched_scheme \<Rightarrow> 'a sched_scheme" where
  "init_pid_lists s = fold (\<lambda>i s. s\<lparr>pid_lists := (pid_lists s)(i := [])\<rparr>) [0..<NR_PID_LISTS] s"

definition pid_hash :: "u32 \<Rightarrow> nat" where
  "pid_hash p = unat (p mod of_nat NR_PID_LISTS)"

definition add_to_pid_lists :: "tid \<Rightarrow> 'a sched_scheme \<Rightarrow> 'a sched_scheme" where
  "add_to_pid_lists t s =
     (let i = pid_hash (pid (tasks s t))
      in s\<lparr>pid_lists := (pid_lists s)(i := t # pid_lists s i)\<rparr>)"

definition remove_from_pid_lists :: "tid \<Rightarrow> 'a sched_scheme \<Rightarrow> 'a sched_scheme" where
  "remove_from_pid_lists t s = s\<lparr>pid_lists := (\<lambda>i. remove1 t (pid_lists s i))\<rparr>"

definition get_task_by_pid :: "'a sched_scheme \<Rightarrow> u32 \<Rightarrow> tid option" where
  "get_task_by_pid s p = List.find (\<lambda>t. pid (tasks s t) = p) (pid_lists s (pid_hash p))"

definition calc_time_slice :: "task \<Rightarrow> u32" where
  "calc_time_slice t = 10"

text \<open>The \<open>refind\<close> loop: as long as a task has the candidate, try the next one.\<close>

partial_function (option) find_pid :: "u32 list \<Rightarrow> u32 \<Rightarrow> u32 option" where
  "find_pid pids start = (if start \<in> set pids then find_pid pids (start + 1) else Some start)"

definition find_usable_pid :: "'a sched_scheme \<Rightarrow> (u32 \<times> 'a sched_scheme) option" where
  "find_usable_pid s =
     do { p \<leftarrow> find_pid (map (\<lambda>t. pid (tasks s t)) (task_list s)) (pid_start s);
          Some (p, s\<lparr>pid_start := p + 1\<rparr>) }"

subsection \<open>Start-up\<close>

text \<open>\<open>strncpy\<close> into the 20 bytes of \<open>cmd\<close>; the name is given without its terminator.\<close>

definition cmd_field :: "u8 list \<Rightarrow> u8 list" where
  "cmd_field name = take TASK_CMD_LENGTH (name @ replicate TASK_CMD_LENGTH 0)"

definition idle_name :: "u8 list" where
  "idle_name = [105, 100, 108, 101]"

definition init_task :: "u32 \<Rightarrow> 'a sched_scheme \<Rightarrow> 'a sched_scheme option" where
  "init_task kernel_page_dir s =
     do { let c = current s;
          let s = upd_task c (tstate_update (\<lambda>_. TASK_RUNNABLE)) s;
          (p, s) \<leftarrow> find_usable_pid s;
          let s = upd_task c (\<lambda>t. t\<lparr>pid := p, cmd := cmd_field idle_name, tflags := TASK_KTHREAD,
             tsignal := 0, sig_mask := 0,
             sig_fn := (\<lambda>i. if i < NR_SIGNALS then None else sig_fn t i),
             sig_restorer := SIG_RESTORER_NULL, time_slice := calc_time_slice t, exit_code := 0,
             chld_active := [], chld_zombie := [], parent := None, root := None, pwd := None,
             page_dir := kernel_page_dir,
             fdt := (\<lambda>i. if i < NR_OPEN then None else fdt t i)\<rparr>) s;
          let s = s\<lparr>queues := (queues s)(Wait_exit c := [])\<rparr>;
          let s = s\<lparr>run_list := c # run_list s, task_list := c # task_list s\<rparr>;
          Some (add_to_pid_lists c s) }"

definition sched_init :: "u32 \<Rightarrow> 'a sched_scheme \<Rightarrow> 'a sched_scheme option" where
  "sched_init kernel_page_dir s = init_task kernel_page_dir (init_pid_lists s)"

subsection \<open>Waking, scheduling and waiting\<close>

definition wake_up :: "wait_queue \<Rightarrow> 'a sched_scheme \<Rightarrow> 'a sched_scheme" where
  "wake_up q s =
     (case queues s q of
        [] \<Rightarrow> s
      | fetch # rest \<Rightarrow>
          let s = del_run fetch s; s = s\<lparr>run_list := fetch # run_list s\<rparr>
          in upd_task fetch (tstate_update (\<lambda>_. TASK_RUNNABLE)) s)"

definition wake_up_all :: "wait_queue \<Rightarrow> 'a sched_scheme \<Rightarrow> 'a sched_scheme" where
  "wake_up_all q s =
     (let s = fold (\<lambda>t s. upd_task t (tstate_update (\<lambda>_. TASK_RUNNABLE)) s) (queues s q) s
      in s\<lparr>run_list := queues s q @ run_list s, queues := (queues s)(q := [])\<rparr>)"

text \<open>The first part of \<open>schedule\<close>: what becomes of the current task.\<close>

definition retire :: "'a sched_scheme \<Rightarrow> 'a sched_scheme option" where
  "retire s =
     (let c = current s
      in if time_slice (tasks s c) = 0 \<and> tstate (tasks s c) = TASK_RUNNABLE
         then let s = upd_task c (\<lambda>t. t\<lparr>time_slice := calc_time_slice t\<rparr>) s; s = del_run c s
              in Some (s\<lparr>ready_list := c # ready_list s\<rparr>)
         else if tstate (tasks s c) = TASK_ZOMBIE
         then let s = del_run c s
              in case parent (tasks s c) of
                   None \<Rightarrow> None
                 | Some p \<Rightarrow>
                     let s = del_child c s;
                         s = upd_task p (\<lambda>t. t\<lparr>chld_zombie := c # chld_zombie t\<rparr>) s
                     in Some (wake_up (Wait_exit p) s)
         else Some s)"

text \<open>The second part: an empty \<open>run_list\<close> takes over the \<open>ready_list\<close>.\<close>

definition refill :: "'a sched_scheme \<Rightarrow> 'a sched_scheme" where
  "refill s =
     (if run_list s = []
      then let s = s\<lparr>run_list := ready_list s, ready_list := []\<rparr>
           in fold (\<lambda>t s. upd_task t (tstate_update (\<lambda>_. TASK_RUNNABLE)) s) (run_list s) s
      else s)"

definition schedule :: "'a sched_scheme \<Rightarrow> 'a sched_scheme option" where
  "schedule s =
     do { s \<leftarrow> retire s;
          let s = refill s;
          (case run_list s of
             [] \<Rightarrow> None
           | next # rest \<Rightarrow> Some (if next \<noteq> current s then s\<lparr>current := next\<rparr> else s)) }"

definition sched_tick :: "'a sched_scheme \<Rightarrow> 'a sched_scheme option" where
  "sched_tick s =
     (let c = current s;
          s = (if time_slice (tasks s c) \<noteq> 0 then upd_task c (\<lambda>t. t\<lparr>time_slice := time_slice t - 1\<rparr>) s else s)
      in if time_slice (tasks s c) = 0 then schedule s else Some s)"

definition wait :: "wait_queue \<Rightarrow> 'a sched_scheme \<Rightarrow> 'a sched_scheme option" where
  "wait q s =
     (let c = current s; s = del_run c s; s = s\<lparr>queues := (queues s)(q := c # queues s q)\<rparr>;
          s = upd_task c (tstate_update (\<lambda>_. TASK_WAIT)) s
      in schedule s)"

definition sys_getpid :: "'a sched_scheme \<Rightarrow> u32" where
  "sys_getpid s = pid (cur_task s)"

definition sys_getppid :: "'a sched_scheme \<Rightarrow> u32" where
  "sys_getppid s = (case parent (cur_task s) of None \<Rightarrow> 0 | Some p \<Rightarrow> pid (tasks s p))"

end
