(* ===== verification/Sched_Inv.thy ===== *)
theory Sched_Inv
  imports Sched
begin

text \<open>
  The scheduler keeps every task in exactly one place: a runnable task on \<open>run_list\<close> or
  \<open>ready_list\<close>, a waiting one on one wait queue, and a zombie or a dead one on none.  Under timer
  ticks alone every task of \<open>run_list\<close> gets its whole time slice before any gets a second one, and
  the search for an unused identifier ends.
\<close>

subsection \<open>One place for every task\<close>

definition linked :: "'a sched_scheme \<Rightarrow> tid set" where
  "linked s = set (run_list s) \<union> set (ready_list s) \<union> (\<Union>q. set (queues s q))"

text \<open>The tasks of \<open>X\<close> are in transit: on no list, in any state.\<close>

definition sched_core :: "tid set \<Rightarrow> 'a sched_scheme \<Rightarrow> bool" where
  "sched_core X s \<longleftrightarrow> distinct (run_list s) \<and> distinct (ready_list s) \<and> (\<forall>q. distinct (queues s q)) \<and>
     (\<forall>x\<in>set (run_list s). x \<notin> set (ready_list s)) \<and>
     (\<forall>q. \<forall>x\<in>set (queues s q). x \<notin> set (run_list s) \<and> x \<notin> set (ready_list s)) \<and>
     (\<forall>q r. \<forall>x\<in>set (queues s q). x \<in> set (queues s r) \<longrightarrow> q = r) \<and>
     (\<forall>x. x \<in> linked s \<longrightarrow> x \<notin> X \<and> x \<in> set (task_list s)) \<and>
     (\<forall>t\<in>set (task_list s) - X.
        (tstate (tasks s t) = TASK_RUNNABLE \<longleftrightarrow> t \<in> set (run_list s) \<or> t \<in> set (ready_list s)) \<and>
        (tstate (tasks s t) = TASK_WAIT \<longleftrightarrow> (\<exists>q. t \<in> set (queues s q))))"

definition sched_ok :: "'a sched_scheme \<Rightarrow> bool" where
  "sched_ok s \<longleftrightarrow> sched_core {} s \<and> current s \<in> set (run_list s)"

lemma upd_task_simps [simp]:
  "run_list (upd_task t f s) = run_list s" "ready_list (upd_task t f s) = ready_list s"
  "queues (upd_task t f s) = queues s" "task_list (upd_task t f s) = task_list s"
  "current (upd_task t f s) = current s" "linked (upd_task t f s) = linked s"
  "tasks (upd_task t f s) = (tasks s)(t := f (tasks s t))"
  "pid_lists (upd_task t f s) = pid_lists s" "pid_start (upd_task t f s) = pid_start s"
  by (simp_all add: upd_task_def linked_def)

lemma del_run_simps [simp]:
  "run_list (del_run t s) = remove1 t (run_list s)" "ready_list (del_run t s) = remove1 t (ready_list s)"
  "queues (del_run t s) q = remove1 t (queues s q)" "task_list (del_run t s) = task_list s"
  "current (del_run t s) = current s" "tasks (del_run t s) = tasks s"
  by (simp_all add: del_run_def)

lemma del_child_simps [simp]:
  "run_list (del_child t s) = run_list s" "ready_list (del_child t s) = ready_list s"
  "queues (del_child t s) = queues s" "task_list (del_child t s) = task_list s"
  "current (del_child t s) = current s" "tstate (tasks (del_child t s) x) = tstate (tasks s x)"
  "time_slice (tasks (del_child t s) x) = time_slice (tasks s x)" "parent (tasks (del_child t s) x) = parent (tasks s x)"
  by (simp_all add: del_child_def)

text \<open>What the invariant reads.\<close>

lemma core_cong:
  assumes "sched_core X s" "run_list s' = run_list s" "ready_list s' = ready_list s" "queues s' = queues s"
    "task_list s' = task_list s" "\<And>t. t \<notin> X \<Longrightarrow> tstate (tasks s' t) = tstate (tasks s t)"
  shows "sched_core X s'"
  using assms(1,6) unfolding sched_core_def linked_def assms(2-5) by auto

lemma linked_iff:
  "t \<in> linked s \<longleftrightarrow> t \<in> set (run_list s) \<or> t \<in> set (ready_list s) \<or> (\<exists>q. t \<in> set (queues s q))"
  by (auto simp: linked_def)

lemma coreD:
  assumes "sched_core X s"
  shows "distinct (run_list s)" "distinct (ready_list s)" "distinct (queues s q)"
    "x \<in> set (run_list s) \<Longrightarrow> x \<notin> set (ready_list s)"
    "x \<in> set (queues s q) \<Longrightarrow> x \<notin> set (run_list s) \<and> x \<notin> set (ready_list s)"
    "x \<in> set (queues s q) \<Longrightarrow> x \<in> set (queues s r) \<Longrightarrow> q = r"
    "x \<in> linked s \<Longrightarrow> x \<notin> X \<and> x \<in> set (task_list s)"
    "x \<in> set (task_list s) \<Longrightarrow> x \<notin> X \<Longrightarrow> tstate (tasks s x) = TASK_RUNNABLE \<longleftrightarrow> x \<in> set (run_list s) \<or> x \<in> set (ready_list s)"
    "x \<in> set (task_list s) \<Longrightarrow> x \<notin> X \<Longrightarrow> tstate (tasks s x) = TASK_WAIT \<longleftrightarrow> (\<exists>q. x \<in> set (queues s q))"
proof -
  note c = assms [unfolded sched_core_def]
  show "distinct (run_list s)" "distinct (ready_list s)" "distinct (queues s q)" using c by blast+
  show "x \<in> set (run_list s) \<Longrightarrow> x \<notin> set (ready_list s)" using c by blast
  show "x \<in> set (queues s q) \<Longrightarrow> x \<notin> set (run_list s) \<and> x \<notin> set (ready_list s)" using c by blast
  show "x \<in> set (queues s q) \<Longrightarrow> x \<in> set (queues s r) \<Longrightarrow> q = r" using c by blast
  show "x \<in> linked s \<Longrightarrow> x \<notin> X \<and> x \<in> set (task_list s)" using c by blast
  show "x \<in> set (task_list s) \<Longrightarrow> x \<notin> X \<Longrightarrow> tstate (tasks s x) = TASK_RUNNABLE \<longleftrightarrow> x \<in> set (run_list s) \<or> x \<in> set (ready_list s)"
    "x \<in> set (task_list s) \<Longrightarrow> x \<notin> X \<Longrightarrow> tstate (tasks s x) = TASK_WAIT \<longleftrightarrow> (\<exists>q. x \<in> set (queues s q))"
    using c by blast+
qed

lemma coreI:
  assumes "distinct (run_list s)" "distinct (ready_list s)" "\<And>q. distinct (queues s q)"
    "\<And>x. x \<in> set (run_list s) \<Longrightarrow> x \<notin> set (ready_list s)"
    "\<And>x q. x \<in> set (queues s q) \<Longrightarrow> x \<notin> set (run_list s) \<and> x \<notin> set (ready_list s)"
    "\<And>x q r. x \<in> set (queues s q) \<Longrightarrow> x \<in> set (queues s r) \<Longrightarrow> q = r"
    "\<And>x. x \<in> linked s \<Longrightarrow> x \<notin> X \<and> x \<in> set (task_list s)"
    "\<And>x. x \<in> set (task_list s) \<Longrightarrow> x \<notin> X \<Longrightarrow> tstate (tasks s x) = TASK_RUNNABLE \<longleftrightarrow> x \<in> set (run_list s) \<or> x \<in> set (ready_list s)"
    "\<And>x. x \<in> set (task_list s) \<Longrightarrow> x \<notin> X \<Longrightarrow> tstate (tasks s x) = TASK_WAIT \<longleftrightarrow> (\<exists>q. x \<in> set (queues s q))"
  shows "sched_core X s"
  unfolding sched_core_def using assms by blast

lemma core_unlinked:
  assumes "sched_core X s" "t \<in> X"
  shows "t \<notin> set (run_list s)" "t \<notin> set (ready_list s)" "t \<notin> set (queues s q)"
  using assms by (auto simp: sched_core_def linked_iff)

lemma core_del:
  assumes "sched_core X s" shows "sched_core (insert t X) (del_run t s)"
proof -
  have d: "distinct (run_list s)" "distinct (ready_list s)" "\<And>q. distinct (queues s q)"
    using assms by (auto simp: sched_core_def)
  then show ?thesis
    using assms by (simp add: sched_core_def linked_iff) blast
qed

lemma core_run:
  assumes "sched_core X s" "t \<in> X" "t \<in> set (task_list s)" "tstate (tasks s t) = TASK_RUNNABLE"
  shows "sched_core (X - {t}) (s\<lparr>run_list := t # run_list s\<rparr>)" "sched_core (X - {t}) (s\<lparr>ready_list := t # ready_list s\<rparr>)"
  using assms core_unlinked [OF assms(1,2)] by (auto simp: sched_core_def linked_iff)

lemma core_queue:
  assumes "sched_core X s" "t \<in> X" "t \<in> set (task_list s)" "tstate (tasks s t) = TASK_WAIT"
  shows "sched_core (X - {t}) (s\<lparr>queues := (queues s)(q := t # queues s q)\<rparr>)"
proof -
  note n = core_unlinked [OF assms(1,2)]
  let ?s = "s\<lparr>queues := (queues s)(q := t # queues s q)\<rparr>"
  have m: "x \<in> set (queues ?s r) \<longleftrightarrow> x \<in> set (queues s r) \<or> (r = q \<and> x = t)" for x r by auto
  have d: "distinct (queues ?s r)" for r using assms(1) n by (simp add: sched_core_def)
  have o: "x \<in> set (queues ?s r) \<Longrightarrow> x \<notin> set (run_list s) \<and> x \<notin> set (ready_list s)" for x r
    using assms(1) n unfolding m by (auto simp: sched_core_def)
  have "x \<in> set (queues s r) \<Longrightarrow> x \<in> set (queues s r') \<Longrightarrow> r = r'" for x r r'
    using assms(1) unfolding sched_core_def by blast
  then have u: "x \<in> set (queues ?s r) \<Longrightarrow> x \<in> set (queues ?s r') \<Longrightarrow> r = r'" for x r r'
    using n unfolding m by blast
  have e: "(\<exists>r. x \<in> set (queues ?s r)) \<longleftrightarrow> x = t \<or> (\<exists>r. x \<in> set (queues s r))" for x
    unfolding m by auto
  have l: "x \<in> linked ?s \<longleftrightarrow> x = t \<or> x \<in> linked s" for x
    unfolding linked_iff e by auto
  have old: "distinct (run_list s)" "distinct (ready_list s)" "\<forall>x\<in>set (run_list s). x \<notin> set (ready_list s)"
    "\<And>x. x \<in> linked s \<Longrightarrow> x \<notin> X \<and> x \<in> set (task_list s)"
    "\<And>x. x \<in> set (task_list s) - X \<Longrightarrow>
      (tstate (tasks s x) = TASK_RUNNABLE \<longleftrightarrow> x \<in> set (run_list s) \<or> x \<in> set (ready_list s)) \<and>
      (tstate (tasks s x) = TASK_WAIT \<longleftrightarrow> (\<exists>q. x \<in> set (queues s q)))"
    using assms(1) by (auto simp: sched_core_def)
  have fin: "(tstate (tasks s x) = TASK_RUNNABLE \<longleftrightarrow> x \<in> set (run_list s) \<or> x \<in> set (ready_list s)) \<and>
      (tstate (tasks s x) = TASK_WAIT \<longleftrightarrow> x = t \<or> (\<exists>q. x \<in> set (queues s q)))"
    if "x \<in> set (task_list s) - (X - {t})" for x
    using old(5) [of x] that assms(4) n by (cases "x = t") auto
  have li: "x \<in> linked ?s \<Longrightarrow> x \<notin> X - {t} \<and> x \<in> set (task_list s)" for x
    using old(4) [of x] assms(3) unfolding l by auto
  show ?thesis
  proof (rule coreI)
    show "distinct (queues ?s r)" for r by (rule d)
    show "x \<in> set (queues ?s r) \<Longrightarrow> x \<notin> set (run_list ?s) \<and> x \<notin> set (ready_list ?s)" for x r using o by simp
    show "x \<in> set (queues ?s r) \<Longrightarrow> x \<in> set (queues ?s r') \<Longrightarrow> r = r'" for x r r' by (rule u)
    show "x \<in> linked ?s \<Longrightarrow> x \<notin> X - {t} \<and> x \<in> set (task_list ?s)" for x using li by simp
    show "tstate (tasks ?s x) = TASK_WAIT \<longleftrightarrow> (\<exists>r. x \<in> set (queues ?s r))"
      "tstate (tasks ?s x) = TASK_RUNNABLE \<longleftrightarrow> x \<in> set (run_list ?s) \<or> x \<in> set (ready_list ?s)"
      if "x \<in> set (task_list ?s)" "x \<notin> X - {t}" for x
      unfolding e using fin [of x] that by simp_all
  qed (use old in auto)
qed

lemma core_gone:
  assumes "sched_core X s" "t \<in> X" "tstate (tasks s t) \<noteq> TASK_RUNNABLE" "tstate (tasks s t) \<noteq> TASK_WAIT"
  shows "sched_core (X - {t}) s"
  using assms core_unlinked [OF assms(1,2)] by (auto simp: sched_core_def linked_iff)


subsection \<open>The operations keep it\<close>

lemma fold_runnable:
  "fold (\<lambda>t s. upd_task t (tstate_update (\<lambda>_. TASK_RUNNABLE)) s) ts s =
     s\<lparr>tasks := (\<lambda>x. if x \<in> set ts then (tasks s x)\<lparr>tstate := TASK_RUNNABLE\<rparr> else tasks s x)\<rparr>"
  by (induction ts arbitrary: s) (auto simp: upd_task_def fun_eq_iff)

lemma core_in_list:
  assumes "sched_core X s"
  shows "t \<in> set (run_list s) \<Longrightarrow> t \<in> set (task_list s) \<and> tstate (tasks s t) = TASK_RUNNABLE \<and> t \<notin> X"
    "t \<in> set (ready_list s) \<Longrightarrow> t \<in> set (task_list s) \<and> tstate (tasks s t) = TASK_RUNNABLE \<and> t \<notin> X"
    "t \<in> set (queues s q) \<Longrightarrow> t \<in> set (task_list s) \<and> tstate (tasks s t) = TASK_WAIT \<and> t \<notin> X"
proof -
  have l: "x \<in> set (run_list s) \<Longrightarrow> x \<in> linked s" "x \<in> set (ready_list s) \<Longrightarrow> x \<in> linked s"
    "x \<in> set (queues s q) \<Longrightarrow> x \<in> linked s" for x q by (auto simp: linked_iff)
  show "t \<in> set (run_list s) \<Longrightarrow> t \<in> set (task_list s) \<and> tstate (tasks s t) = TASK_RUNNABLE \<and> t \<notin> X"
    "t \<in> set (ready_list s) \<Longrightarrow> t \<in> set (task_list s) \<and> tstate (tasks s t) = TASK_RUNNABLE \<and> t \<notin> X"
    using coreD(7,8) [OF assms, of t] l by simp_all
  show "t \<in> set (queues s q) \<Longrightarrow> t \<in> set (task_list s) \<and> tstate (tasks s t) = TASK_WAIT \<and> t \<notin> X"
    using coreD(7,9) [OF assms, of t] l(3) [of t q] by auto
qed

lemma wake_up_core:
  assumes "sched_core X s"
  shows "sched_core X (wake_up q s)" "set (run_list s) \<subseteq> set (run_list (wake_up q s))"
    "ready_list (wake_up q s) = ready_list s" "current (wake_up q s) = current s" "task_list (wake_up q s) = task_list s"
proof -
  have "sched_core X (wake_up q s) \<and> set (run_list s) \<subseteq> set (run_list (wake_up q s)) \<and>
    ready_list (wake_up q s) = ready_list s \<and> current (wake_up q s) = current s \<and> task_list (wake_up q s) = task_list s"
  proof (cases "queues s q")
    case (Cons t rest)
    then have t: "t \<in> set (task_list s)" "t \<notin> X" using core_in_list(3) [OF assms, of t q] by auto
    have n: "t \<notin> set (ready_list s)" "t \<notin> set (run_list s)" using coreD(5) [OF assms, of t q] Cons by auto
    let ?s = "upd_task t (tstate_update (\<lambda>_. TASK_RUNNABLE)) (del_run t s)"
    have "sched_core (insert t X) ?s"
      by (rule core_cong [OF core_del [OF assms, of t]]) auto
    then have "sched_core (insert t X - {t}) (?s\<lparr>run_list := t # run_list ?s\<rparr>)"
      by (rule core_run(1)) (use t in auto)
    moreover have "wake_up q s = ?s\<lparr>run_list := t # run_list ?s\<rparr>"
      using Cons by (simp add: wake_up_def Let_def upd_task_def)
    moreover have "insert t X - {t} = X" using t by auto
    ultimately show ?thesis using n by (simp add: remove1_idem) auto
  qed (use assms in \<open>simp add: wake_up_def\<close>)
  then show "sched_core X (wake_up q s)" "set (run_list s) \<subseteq> set (run_list (wake_up q s))"
    "ready_list (wake_up q s) = ready_list s" "current (wake_up q s) = current s" "task_list (wake_up q s) = task_list s"
    by simp_all
qed

lemma wake_up_all_core:
  assumes "sched_core X s"
  shows "sched_core X (wake_up_all q s)" "set (run_list s) \<subseteq> set (run_list (wake_up_all q s))"
    "current (wake_up_all q s) = current s"
proof -
  let ?s = "wake_up_all q s" and ?Q = "queues s q"
  have tk: "tasks ?s x = (if x \<in> set ?Q then (tasks s x)\<lparr>tstate := TASK_RUNNABLE\<rparr> else tasks s x)" for x
    by (simp add: wake_up_all_def Let_def fold_runnable)
  have ls: "run_list ?s = ?Q @ run_list s" "ready_list ?s = ready_list s" "task_list ?s = task_list s"
    "queues ?s = (queues s)(q := [])" "current ?s = current s"
    by (simp_all add: wake_up_all_def Let_def fold_runnable)
  show "set (run_list s) \<subseteq> set (run_list ?s)" "current ?s = current s" by (simp_all add: ls)
  have l: "x \<in> linked ?s \<longleftrightarrow> x \<in> linked s" for x
  proof -
    have "(\<exists>r. x \<in> set (queues ?s r)) \<longleftrightarrow> (\<exists>r. r \<noteq> q \<and> x \<in> set (queues s r))" by (auto simp: ls split: if_splits)
    then show ?thesis unfolding linked_iff by (auto simp: ls)
  qed
  note D = coreD [OF assms]
  have m: "x \<in> set (queues ?s r) \<longleftrightarrow> r \<noteq> q \<and> x \<in> set (queues s r)" for x r by (simp add: ls)
  show "sched_core X ?s"
  proof (rule coreI)
    show "distinct (run_list ?s)" using D(1,3,5) by (auto simp: ls)
    show "distinct (queues ?s r)" for r using D(3) by (simp add: ls)
    show "x \<notin> set (ready_list ?s)" if "x \<in> set (run_list ?s)" for x using that D(4,5) by (auto simp: ls)
    show "x \<notin> set (run_list ?s) \<and> x \<notin> set (ready_list ?s)" if "x \<in> set (queues ?s r)" for x r
      using that D(5) [of x r] D(6) [of x r q] by (auto simp: m ls(1,2))
    show "r = r'" if "x \<in> set (queues ?s r)" "x \<in> set (queues ?s r')" for x r r' using that D(6) by (simp add: m) blast
    show "x \<notin> X \<and> x \<in> set (task_list ?s)" if "x \<in> linked ?s" for x using D(7) that by (simp add: l ls(3))
    show "tstate (tasks ?s x) = TASK_RUNNABLE \<longleftrightarrow> x \<in> set (run_list ?s) \<or> x \<in> set (ready_list ?s)"
      "tstate (tasks ?s x) = TASK_WAIT \<longleftrightarrow> (\<exists>q. x \<in> set (queues ?s q))"
      if "x \<in> set (task_list ?s)" "x \<notin> X" for x
    proof -
      have e: "(\<exists>r. x \<in> set (queues ?s r)) \<longleftrightarrow> x \<notin> set ?Q \<and> (\<exists>r. x \<in> set (queues s r))"
        using D(6) [of x _ q] by (auto simp: m)
      show "tstate (tasks ?s x) = TASK_RUNNABLE \<longleftrightarrow> x \<in> set (run_list ?s) \<or> x \<in> set (ready_list ?s)"
        using D(8) [of x] that by (simp add: tk ls)
      show "tstate (tasks ?s x) = TASK_WAIT \<longleftrightarrow> (\<exists>q. x \<in> set (queues ?s q))"
        unfolding e using D(9) [of x] that by (simp add: tk ls)
    qed
  qed (use D(2) in \<open>simp add: ls\<close>)
qed

lemma refill_core:
  assumes "sched_core X s"
  shows "sched_core X (refill s)" "run_list (refill s) = (if run_list s = [] then ready_list s else run_list s)"
    "ready_list (refill s) = (if run_list s = [] then [] else ready_list s)" "current (refill s) = current s"
    "task_list (refill s) = task_list s" "tasks (refill s) = tasks s" "queues (refill s) = queues s"
proof -
  have r: "refill s = (if run_list s = [] then s\<lparr>run_list := ready_list s, ready_list := []\<rparr> else s)"
  proof -
    have "(tasks s x)\<lparr>tstate := TASK_RUNNABLE\<rparr> = tasks s x" if "x \<in> set (ready_list s)" for x
      using core_in_list(2) [OF assms that] by simp
    then have "(\<lambda>x. if x \<in> set (ready_list s) then (tasks s x)\<lparr>tstate := TASK_RUNNABLE\<rparr> else tasks s x) = tasks s"
      by auto
    then show ?thesis by (auto simp: refill_def Let_def fold_runnable cong: if_cong)
  qed
  have "sched_core X (s\<lparr>run_list := ready_list s, ready_list := []\<rparr>)" if "run_list s = []"
    using assms that by (simp add: sched_core_def linked_iff)
  then show "sched_core X (refill s)" using assms by (simp add: r)
  show "run_list (refill s) = (if run_list s = [] then ready_list s else run_list s)"
    "ready_list (refill s) = (if run_list s = [] then [] else ready_list s)" "current (refill s) = current s"
    "task_list (refill s) = task_list s" "tasks (refill s) = tasks s" "queues (refill s) = queues s"
    by (simp_all add: r)
qed


lemma wake_up_queues: "x \<in> set (queues (wake_up q s) r) \<Longrightarrow> x \<in> set (queues s r)"
  by (auto simp: wake_up_def Let_def split: list.splits dest: notin_set_remove1 set_remove1_subset [THEN subsetD])

text \<open>The choice of the next task, once the current one has been dealt with.\<close>

definition pick :: "'a sched_scheme \<Rightarrow> 'a sched_scheme option" where
  "pick s = (case run_list (refill s) of [] \<Rightarrow> None | next # rest \<Rightarrow> Some ((refill s)\<lparr>current := next\<rparr>))"

lemma schedule_pick: "schedule s = do { s \<leftarrow> retire s; pick s }"
proof -
  have "(case run_list (refill s) of [] \<Rightarrow> None
      | next # rest \<Rightarrow> Some (if next \<noteq> current (refill s) then (refill s)\<lparr>current := next\<rparr> else refill s)) = pick s"
    for s :: "'a sched_scheme"
    by (auto simp: pick_def split: list.splits)
  then show ?thesis by (simp add: schedule_def Let_def)
qed

lemma pick_core:
  assumes "sched_core X s"
  shows "pick s = None \<longleftrightarrow> run_list s = [] \<and> ready_list s = []"
    "pick s = Some s' \<Longrightarrow> sched_core X s' \<and> run_list s' \<noteq> [] \<and> current s' = hd (run_list s') \<and>
      tasks s' = tasks s \<and> queues s' = queues s \<and> task_list s' = task_list s"
proof -
  note r = refill_core [OF assms]
  show "pick s = None \<longleftrightarrow> run_list s = [] \<and> ready_list s = []"
    by (simp add: pick_def r(2) split: list.splits)
  assume "pick s = Some s'"
  then obtain n ns where n: "run_list (refill s) = n # ns" "s' = (refill s)\<lparr>current := n\<rparr>"
    by (auto simp: pick_def split: list.splits)
  have "sched_core X s'" by (rule core_cong [OF r(1)]) (simp_all add: n(2))
  then show "sched_core X s' \<and> run_list s' \<noteq> [] \<and> current s' = hd (run_list s') \<and>
      tasks s' = tasks s \<and> queues s' = queues s \<and> task_list s' = task_list s"
    using n r by simp
qed

lemma current_runnable:
  "sched_ok s \<Longrightarrow> tstate (tasks s (current s)) = TASK_RUNNABLE \<and> current s \<in> set (task_list s)"
  using core_in_list(1) [of "{}" s "current s"] by (auto simp: sched_ok_def)

lemma schedule_ok:
  assumes "sched_ok s"
  shows "\<exists>s'. schedule s = Some s' \<and> sched_ok s' \<and> current s' = hd (run_list s')"
proof -
  let ?c = "current s"
  have core: "sched_core {} s" and cr: "?c \<in> set (run_list s)" using assms by (auto simp: sched_ok_def)
  note c = current_runnable [OF assms]
  have "\<exists>s1. retire s = Some s1 \<and> sched_core {} s1 \<and> (run_list s1 \<noteq> [] \<or> ready_list s1 \<noteq> [])"
  proof (cases "time_slice (tasks s ?c) = 0")
    case True
    let ?s = "del_run ?c (upd_task ?c (\<lambda>t. t\<lparr>time_slice := calc_time_slice t\<rparr>) s)"
    have "sched_core {} (upd_task ?c (\<lambda>t. t\<lparr>time_slice := calc_time_slice t\<rparr>) s)"
      by (rule core_cong [OF core]) auto
    from core_del [OF this, of ?c] have "sched_core {?c} ?s" .
    from core_run(2) [OF this, of ?c] have "sched_core {} (?s\<lparr>ready_list := ?c # ready_list ?s\<rparr>)" using c by simp
    moreover have "retire s = Some (?s\<lparr>ready_list := ?c # ready_list ?s\<rparr>)"
      using True c by (simp add: retire_def Let_def)
    ultimately show ?thesis by auto
  next
    case False
    then show ?thesis using c core cr by (auto simp: retire_def Let_def)
  qed
  then obtain s1 where s1: "retire s = Some s1" "sched_core {} s1" "run_list s1 \<noteq> [] \<or> ready_list s1 \<noteq> []" by blast
  then obtain s2 where s2: "pick s1 = Some s2" using pick_core(1) [OF s1(2)] by (cases "pick s1") auto
  from pick_core(2) [OF s1(2) s2] s1(1) s2 show ?thesis
    by (auto simp: schedule_pick sched_ok_def)
qed

lemma sched_tick_ok:
  assumes "sched_ok s"
  shows "\<exists>s'. sched_tick s = Some s' \<and> sched_ok s'"
proof -
  have "sched_ok (upd_task t (\<lambda>t. t\<lparr>time_slice := time_slice t - 1\<rparr>) s)" for t
    using assms core_cong [of "{}" s "upd_task t (\<lambda>t. t\<lparr>time_slice := time_slice t - 1\<rparr>) s"]
    by (auto simp: sched_ok_def)
  then show ?thesis using assms schedule_ok by (auto simp: sched_tick_def Let_def)
qed

lemma schedule_keeps:
  assumes "sched_ok s" "schedule s = Some s'"
  shows "queues s' = queues s" "task_list s' = task_list s"
proof -
  let ?c = "current s"
  have core: "sched_core {} s" and cr: "?c \<in> set (run_list s)" using assms(1) by (auto simp: sched_ok_def)
  note c = current_runnable [OF assms(1)]
  have q: "remove1 ?c (queues s q) = queues s q" for q
    using coreD(5) [OF core, of ?c q] cr by (intro remove1_idem) auto
  have "\<exists>s1. retire s = Some s1 \<and> sched_core {} s1 \<and> queues s1 = queues s \<and> task_list s1 = task_list s"
  proof (cases "time_slice (tasks s ?c) = 0")
    case True
    let ?s = "del_run ?c (upd_task ?c (\<lambda>t. t\<lparr>time_slice := calc_time_slice t\<rparr>) s)"
    have "sched_core {} (upd_task ?c (\<lambda>t. t\<lparr>time_slice := calc_time_slice t\<rparr>) s)"
      by (rule core_cong [OF core]) auto
    from core_run(2) [OF core_del [OF this, of ?c], of ?c]
    have "sched_core {} (?s\<lparr>ready_list := ?c # ready_list ?s\<rparr>)" using c by simp
    moreover have "retire s = Some (?s\<lparr>ready_list := ?c # ready_list ?s\<rparr>)"
      using True c by (simp add: retire_def Let_def)
    ultimately show ?thesis using q by (auto simp: fun_eq_iff)
  next
    case False
    then show ?thesis using c core by (auto simp: retire_def Let_def)
  qed
  then obtain s1 where s1: "retire s = Some s1" "sched_core {} s1" "queues s1 = queues s" "task_list s1 = task_list s" by blast
  then have "pick s1 = Some s'" using assms(2) by (simp add: schedule_pick)
  from pick_core(2) [OF s1(2) this] s1 show "queues s' = queues s" "task_list s' = task_list s" by auto
qed

lemma tick_keeps:
  assumes "sched_ok s" "sched_tick s = Some s'"
  shows "queues s' = queues s" "task_list s' = task_list s"
proof -
  let ?s = "upd_task (current s) (\<lambda>t. t\<lparr>time_slice := time_slice t - 1\<rparr>) s"
  have ok: "sched_ok ?s"
    using assms core_cong [of "{}" s ?s] by (auto simp: sched_ok_def)
  consider "schedule s = Some s'" | "schedule ?s = Some s'" | "s' = s" | "s' = ?s"
    using assms(2) by (auto simp: sched_tick_def Let_def split: if_splits)
  then show "queues s' = queues s" "task_list s' = task_list s"
    using schedule_keeps [OF assms(1)] schedule_keeps [OF ok] by (cases; simp)+
qed

lemma upd_task_queues: "upd_task t f (s\<lparr>queues := Q\<rparr>) = (upd_task t f s)\<lparr>queues := Q\<rparr>"
  by (cases s) (simp add: upd_task_def)

text \<open>A task that waits while nothing else can run stops the machine.\<close>

lemma wait_ok:
  assumes "sched_ok s"
  shows "wait q s = None \<longleftrightarrow> run_list s = [current s] \<and> ready_list s = []"
    "wait q s = Some s' \<Longrightarrow> sched_ok s' \<and> current s \<in> set (queues s' q) \<and> current s' \<noteq> current s \<and>
       queues s' q = current s # queues s q \<and> (\<forall>r. r \<noteq> q \<longrightarrow> queues s' r = queues s r) \<and>
       task_list s' = task_list s"
proof -
  let ?c = "current s"
  let ?d = "del_run ?c s"
  let ?s = "upd_task ?c (tstate_update (\<lambda>_. TASK_WAIT)) (?d\<lparr>queues := (queues ?d)(q := ?c # queues ?d q)\<rparr>)"
  have core: "sched_core {} s" and cr: "?c \<in> set (run_list s)" using assms by (auto simp: sched_ok_def)
  note c = current_runnable [OF assms]
  note D = coreD [OF core]
  let ?u = "upd_task ?c (tstate_update (\<lambda>_. TASK_WAIT)) ?d"
  have "sched_core {?c} ?u" by (rule core_cong [OF core_del [OF core]]) auto
  then have "sched_core ({?c} - {?c}) (?u\<lparr>queues := (queues ?u)(q := ?c # queues ?u q)\<rparr>)"
    by (rule core_queue) (use c in auto)
  then have cs: "sched_core {} ?s" by (simp add: upd_task_queues)
  have q: "queues ?d r = queues s r" for r using D(5) [of ?c r] cr by (simp, intro remove1_idem) auto
  have w: "wait q s = pick ?s" by (simp add: wait_def Let_def schedule_pick retire_def)
  show "wait q s = None \<longleftrightarrow> run_list s = [?c] \<and> ready_list s = []"
    unfolding w pick_core(1) [OF cs] using cr D(1,4) by (cases "run_list s") (auto simp: remove1_idem split: if_splits)
  show "sched_ok s' \<and> ?c \<in> set (queues s' q) \<and> current s' \<noteq> ?c \<and> queues s' q = ?c # queues s q \<and>
     (\<forall>r. r \<noteq> q \<longrightarrow> queues s' r = queues s r) \<and> task_list s' = task_list s" if "wait q s = Some s'"
  proof -
    note p = pick_core(2) [OF cs that [unfolded w]]
    have h: "current s' \<in> set (run_list s')" using p by (simp add: hd_in_set)
    have cq: "?c \<in> set (queues s' q)" using p by simp
    have "sched_core {} s'" using p by simp
    from coreD(5) [OF this cq] h have "current s' \<noteq> ?c" by auto
    then show ?thesis using p h cq q by (simp add: sched_ok_def)
  qed
qed


subsection \<open>Time slices\<close>

fun ticks :: "nat \<Rightarrow> 'a sched_scheme \<Rightarrow> 'a sched_scheme option" where
  "ticks 0 s = Some s"
| "ticks (Suc n) s = do { s \<leftarrow> sched_tick s; ticks n s }"

text \<open>The tasks the clock ticks find running.\<close>

fun running :: "nat \<Rightarrow> 'a sched_scheme \<Rightarrow> tid list" where
  "running 0 s = []"
| "running (Suc n) s = current s # (case sched_tick s of None \<Rightarrow> [] | Some s \<Rightarrow> running n s)"

lemma ticks_add: "ticks (m + n) s = do { s \<leftarrow> ticks m s; ticks n s }"
  by (induction m arbitrary: s) (auto split: bind_splits)

lemma running_add: "ticks m s = Some s' \<Longrightarrow> running (m + n) s = running m s @ running n s'"
  by (induction m arbitrary: s) (auto split: bind_splits simp: bind_eq_Some_conv)

definition fresh_slices :: "'a sched_scheme \<Rightarrow> bool" where
  "fresh_slices s \<longleftrightarrow> (\<forall>t\<in>set (run_list s) \<union> set (ready_list s). time_slice (tasks s t) = 10)"

text \<open>Ticks that do not use the slice up only count.\<close>

lemma ticks_count:
  assumes "time_slice (tasks s (current s)) = of_nat k" "n < k" "k \<le> 10"
  shows "ticks n s = Some (upd_task (current s) (\<lambda>t. t\<lparr>time_slice := of_nat (k - n)\<rparr>) s) \<and>
    running n s = replicate n (current s)"
  using assms
proof (induction n arbitrary: s k)
  case 0
  then have "(tasks s (current s))\<lparr>time_slice := of_nat k\<rparr> = tasks s (current s)" by (metis task.surjective task.update_convs(10))
  then show ?case by (simp add: upd_task_def)
next
  case (Suc n)
  let ?c = "current s"
  let ?s = "upd_task ?c (\<lambda>t. t\<lparr>time_slice := time_slice t - 1\<rparr>) s"
  obtain j where k: "k = Suc j" using Suc.prems(2) by (cases k) auto
  have u: "unat (of_nat k :: u32) = k" "unat (of_nat j :: u32) = j"
    using Suc.prems(3) k by (simp_all add: unat_of_nat take_bit_nat_eq_self del: of_nat_Suc)
  have nz: "(of_nat k :: u32) \<noteq> 0" "(of_nat j :: u32) \<noteq> 0"
    using u Suc.prems(2) k by (metis unat_0 nat.distinct(1), metis unat_0 Suc_less_SucD not_less0)
  have tk: "sched_tick s = Some ?s"
    using nz Suc.prems(1) k by (simp add: sched_tick_def Let_def)
  have "ticks n ?s = Some (upd_task ?c (\<lambda>t. t\<lparr>time_slice := of_nat (j - n)\<rparr>) ?s) \<and> running n ?s = replicate n ?c"
    using Suc.IH [of ?s j] Suc.prems k by simp
  moreover have "upd_task ?c (\<lambda>t. t\<lparr>time_slice := of_nat (j - n)\<rparr>) ?s = upd_task ?c (\<lambda>t. t\<lparr>time_slice := of_nat (j - n)\<rparr>) s"
    by (simp add: upd_task_def)
  ultimately show ?case by (simp add: tk k)
qed


lemma slice_run:
  assumes "sched_ok s" "run_list s = current s # ts" "time_slice (tasks s (current s)) = 10"
  shows "\<exists>s'. ticks 10 s = Some s' \<and> running 10 s = replicate 10 (current s) \<and> sched_ok s' \<and>
    run_list s' = (if ts = [] then current s # ready_list s else ts) \<and>
    ready_list s' = (if ts = [] then [] else current s # ready_list s) \<and> current s' = hd (run_list s') \<and>
    (\<forall>t. time_slice (tasks s' t) = time_slice (tasks s t))"
proof -
  let ?c = "current s"
  let ?s1 = "upd_task ?c (\<lambda>t. t\<lparr>time_slice := 1\<rparr>) s"
  let ?s2 = "upd_task ?c (\<lambda>t. t\<lparr>time_slice := time_slice t - 1\<rparr>) ?s1"
  have core: "sched_core {} s" using assms(1) by (simp add: sched_ok_def)
  note c = current_runnable [OF assms(1)]
  note D = coreD [OF core]
  have n9: "ticks 9 s = Some ?s1 \<and> running 9 s = replicate 9 ?c"
    using ticks_count [of s 10 9] assms(3) by simp
  let ?u = "upd_task ?c (\<lambda>t. t\<lparr>time_slice := calc_time_slice t\<rparr>) ?s2"
  let ?d = "del_run ?c ?u"
  let ?r = "?d\<lparr>ready_list := ?c # ready_list ?d\<rparr>"
  have r: "retire ?s2 = Some ?r" using c by (simp add: retire_def Let_def)
  have "sched_core {} ?u" by (rule core_cong [OF core]) auto
  from core_run(2) [OF core_del [OF this, of ?c], of ?c] have cr: "sched_core {} ?r" using c by simp
  have nr: "?c \<notin> set (ready_list s)" "?c \<notin> set ts" using D(1,4) assms(2) by auto
  then have rl: "run_list ?r = ts" "ready_list ?r = ?c # ready_list s" using assms(2) by (simp_all add: remove1_idem)
  obtain s' where s': "pick ?r = Some s'" using pick_core(1) [OF cr] rl by (cases "pick ?r") auto
  note p = pick_core(2) [OF cr s']
  have tick: "sched_tick ?s1 = Some s'" using s' r by (simp add: sched_tick_def Let_def schedule_pick)
  have e: "(10 :: nat) = 9 + 1" by simp
  have "ticks 10 s = Some s'" unfolding e ticks_add using n9 tick by simp
  moreover have "running (9 + 1) s = replicate 9 ?c @ [?c]"
    using running_add [OF conjunct1 [OF n9], of 1] n9 tick by simp
  then have "running 10 s = replicate 10 ?c" by (simp add: numeral_eq_Suc)
  moreover have "run_list s' = (if ts = [] then ?c # ready_list s else ts) \<and>
    ready_list s' = (if ts = [] then [] else ?c # ready_list s)"
    using s' rl refill_core(2,3) [OF cr] by (auto simp: pick_def split: list.splits)
  moreover have "time_slice (tasks s' t) = time_slice (tasks s t)" for t
    using p assms(3) by (simp add: calc_time_slice_def)
  moreover have "sched_ok s'" using p by (simp add: sched_ok_def hd_in_set)
  ultimately show ?thesis using p by blast
qed

lemma epoch_run:
  assumes "sched_ok s" "current s = hd (run_list s)" "fresh_slices s"
  shows "\<exists>s'. ticks (10 * length (run_list s)) s = Some s' \<and>
    running (10 * length (run_list s)) s = concat (map (replicate 10) (run_list s)) \<and>
    sched_ok s' \<and> run_list s' = rev (run_list s) @ ready_list s \<and> ready_list s' = [] \<and>
    current s' = hd (run_list s') \<and> fresh_slices s'"
  using assms
proof (induction "run_list s" arbitrary: s)
  case Nil
  then show ?case by (simp add: sched_ok_def flip: Nil.hyps)
next
  case (Cons t ts)
  then have rs: "run_list s = current s # ts" and t: "t = current s" by (metis list.sel(1))+
  have sl: "time_slice (tasks s (current s)) = 10" using Cons.prems(3) rs by (simp add: fresh_slices_def)
  obtain s1 where s1: "ticks 10 s = Some s1" "running 10 s = replicate 10 (current s)" "sched_ok s1"
    "run_list s1 = (if ts = [] then current s # ready_list s else ts)"
    "ready_list s1 = (if ts = [] then [] else current s # ready_list s)" "current s1 = hd (run_list s1)"
    "\<forall>t. time_slice (tasks s1 t) = time_slice (tasks s t)"
    using slice_run [OF Cons.prems(1) rs sl] by blast
  have fr: "fresh_slices s1" using Cons.prems(3) rs s1(4,5,7) by (auto simp: fresh_slices_def)
  show ?case
  proof (cases "ts = []")
    case True
    then show ?thesis using s1 fr rs by (intro exI [of _ s1]) simp
  next
    case False
    obtain s' where s': "ticks (10 * length ts) s1 = Some s'"
      "running (10 * length ts) s1 = concat (map (replicate 10) ts)"
      "sched_ok s'" "run_list s' = rev ts @ current s # ready_list s" "ready_list s' = []"
      "current s' = hd (run_list s')" "fresh_slices s'"
      using Cons.hyps(1) [of s1] s1(3-6) fr False by auto
    have len: "10 * length (run_list s) = 10 + 10 * length ts" using rs by simp
    have "ticks (10 + 10 * length ts) s = Some s'" using s1(1) s'(1) by (simp add: ticks_add)
    moreover have "running (10 + 10 * length ts) s = replicate 10 (current s) @ concat (map (replicate 10) ts)"
      using running_add [OF s1(1)] s1(2) s'(2) by simp
    ultimately show ?thesis unfolding len using s'(3-7) rs by (intro exI [of _ s']) simp
  qed
qed

subsection \<open>The search for an identifier ends\<close>

lemma find_pid_step:
  "find_pid pids start = (if start \<in> set pids then find_pid pids (start + 1) else Some start)"
  by (subst find_pid.simps) simp

lemma find_pid_at:
  "(\<forall>j<k. start + of_nat j \<in> set pids) \<Longrightarrow> start + of_nat k \<notin> set pids \<Longrightarrow>
    find_pid pids start = Some (start + of_nat k)"
proof (induction k arbitrary: start)
  case 0
  then show ?case by (subst find_pid_step) simp
next
  case (Suc k)
  have "find_pid pids (start + 1) = Some (start + 1 + of_nat k)"
  proof (rule Suc.IH)
    show "\<forall>j<k. start + 1 + of_nat j \<in> set pids"
    proof (intro allI impI)
      fix j assume "j < k"
      then show "start + 1 + of_nat j \<in> set pids" using Suc.prems(1) [rule_format, of "Suc j"] by (simp add: ac_simps)
    qed
  qed (use Suc.prems(2) in \<open>simp add: ac_simps\<close>)
  moreover have "start \<in> set pids" using Suc.prems(1) [rule_format, of 0] by simp
  ultimately show ?case by (subst find_pid_step) (simp add: ac_simps)
qed

lemma find_pid_total:
  assumes "length pids < 2 ^ 32"
  shows "\<exists>p. find_pid pids start = Some p \<and> p \<notin> set pids"
proof -
  have "\<exists>k. start + of_nat k \<notin> set pids"
  proof (rule ccontr)
    assume "\<not> ?thesis"
    then have "w \<in> set pids" for w :: u32
      using spec [of "\<lambda>k. start + of_nat k \<in> set pids" "unat (w - start)"] by simp
    then have "set pids = UNIV" by blast
    then have "card (UNIV :: u32 set) \<le> length pids" by (metis card_length)
    then show False using assms by (simp add: card_word)
  qed
  then have k: "start + of_nat (LEAST k. start + of_nat k \<notin> set pids) \<notin> set pids" by (rule LeastI_ex)
  have "start + of_nat j \<in> set pids" if "j < (LEAST k. start + of_nat k \<notin> set pids)" for j
    using not_less_Least [OF that] by simp
  with k show ?thesis using find_pid_at by blast
qed

end
