(* ===== verification/Semaphore.thy ===== *)
theory Semaphore
  imports Sched_Inv
begin

text \<open>
  kernel/semaphore.c over the scheduler: semaphore \<open>i\<close> has the counter \<open>counts i\<close> (the \<open>long\<close> of
  an \<open>atomic_t\<close>, kept at its width) and the wait queue \<open>Wait_queue i\<close>.  Each call is atomic, since
  it runs between \<open>irq_save\<close> and \<open>irq_restore\<close>; a \<open>down\<close> that waits returns when the task is
  woken, without testing the counter again.  \<open>sem_step i\<close> interleaves the calls on one semaphore
  with everything else the scheduler does; its second component is the set of tasks that have
  passed \<open>down\<close> and not yet called \<open>up\<close>.
\<close>

subsection \<open>The operations\<close>

record sem_sched = sched +
  counts :: "nat \<Rightarrow> u32"

definition down :: "nat \<Rightarrow> 'a sem_sched_scheme \<Rightarrow> 'a sem_sched_scheme option" where
  "down i s =
     (let s = s\<lparr>counts := (counts s)(i := counts s i + 1)\<rparr>
      in if counts s i \<noteq> 1 then wait (Wait_queue i) s else Some s)"

definition up :: "nat \<Rightarrow> 'a sem_sched_scheme \<Rightarrow> 'a sem_sched_scheme" where
  "up i s = wake_up (Wait_queue i) (s\<lparr>counts := (counts s)(i := counts s i - 1)\<rparr>)"

subsection \<open>Interleaving\<close>

text \<open>Ghost state: who holds the semaphore.  A woken task is on its way out of \<open>down\<close>.\<close>

inductive sem_step :: "nat \<Rightarrow> sem_sched \<times> tid set \<Rightarrow> sem_sched \<times> tid set \<Rightarrow> bool" for i where
  enter: "current s \<notin> H \<Longrightarrow> down i s = Some s' \<Longrightarrow>
    sem_step i (s, H) (s', if counts s i + 1 = 1 then insert (current s) H else H)"
| leave: "current s \<in> H \<Longrightarrow>
    sem_step i (s, H) (up i s, H - {current s} \<union> set (take 1 (queues s (Wait_queue i))))"
| tick: "sched_tick s = Some s' \<Longrightarrow> sem_step i (s, H) (s', H)"
| yield: "schedule s = Some s' \<Longrightarrow> sem_step i (s, H) (s', H)"
| block: "q \<noteq> Wait_queue i \<Longrightarrow> wait q s = Some s' \<Longrightarrow> sem_step i (s, H) (s', H)"
| wake: "q \<noteq> Wait_queue i \<Longrightarrow> sem_step i (s, H) (wake_up q s, H)"
| wake_all: "q \<noteq> Wait_queue i \<Longrightarrow> sem_step i (s, H) (wake_up_all q s, H)"

inductive_cases sem_stepE: "sem_step i (s, H) (s', H')"

inductive sem_reach :: "nat \<Rightarrow> sem_sched \<times> tid set \<Rightarrow> sem_sched \<times> tid set \<Rightarrow> bool" for i c0 where
  start: "sem_reach i c0 c0"
| step: "sem_reach i c0 c \<Longrightarrow> sem_step i c c' \<Longrightarrow> sem_reach i c0 c'"

subsection \<open>The invariant\<close>

definition sem_inv :: "nat \<Rightarrow> sem_sched \<times> tid set \<Rightarrow> bool" where
  "sem_inv i c \<longleftrightarrow>
     (case c of (s, H) \<Rightarrow> sched_ok s \<and> length (task_list s) < 2 ^ 32 - 1 \<and>
        (\<exists>h. H = {} \<and> queues s (Wait_queue i) = [] \<and> counts s i = 0 \<or>
           H = {h} \<and> h \<notin> set (queues s (Wait_queue i)) \<and>
           counts s i = of_nat (Suc (length (queues s (Wait_queue i))))))"

lemma counts_keeps [simp]:
  "counts (upd_task t f s) = counts s" "counts (del_run t s) = counts s" "counts (del_child t s) = counts s"
  "counts (wake_up q s) = counts s"
  by (simp_all add: upd_task_def del_run_def del_child_def wake_up_def Let_def split: list.splits)

lemma counts_fold: "counts (fold (\<lambda>t s. upd_task t f s) ts s) = counts s"
  by (induction ts arbitrary: s) simp_all

lemma counts_wake_up_all [simp]: "counts (wake_up_all q s) = counts s"
  by (simp add: wake_up_all_def Let_def counts_fold)

lemma counts_refill [simp]: "counts (refill s) = counts s"
  by (simp add: refill_def Let_def counts_fold)

lemma counts_retire: "retire s = Some s' \<Longrightarrow> counts s' = counts s"
  by (auto simp: retire_def Let_def split: if_splits option.splits)

lemma counts_pick: "pick s = Some s' \<Longrightarrow> counts s' = counts s"
  by (auto simp: pick_def split: list.splits)

lemma counts_schedule: "schedule s = Some s' \<Longrightarrow> counts s' = counts s"
  by (auto simp: schedule_pick bind_eq_Some_conv dest!: counts_retire counts_pick)

lemma counts_tick: "sched_tick s = Some s' \<Longrightarrow> counts s' = counts s"
  by (auto simp: sched_tick_def Let_def split: if_splits dest!: counts_schedule)

lemma counts_wait: "wait q s = Some s' \<Longrightarrow> counts s' = counts s"
  by (auto simp: wait_def Let_def dest!: counts_schedule)

lemma sem_inv_cong:
  assumes "sem_inv i (s, H)" "sched_ok s'" "queues s' (Wait_queue i) = queues s (Wait_queue i)"
    "task_list s' = task_list s" "counts s' = counts s"
  shows "sem_inv i (s', H)"
  using assms by (simp add: sem_inv_def)

lemma wake_up_other:
  assumes "sched_ok s" "q \<noteq> r"
  shows "queues (wake_up q s) r = queues s r"
proof (cases "queues s q")
  case (Cons t ts)
  then have "t \<notin> set (queues s r)" using coreD(6) [of "{}" s t q r] assms by (auto simp: sched_ok_def)
  then show ?thesis using Cons by (simp add: wake_up_def Let_def remove1_idem)
qed (simp add: wake_up_def)

lemma wake_up_this:
  assumes "queues s q = t # ts" shows "queues (wake_up q s) q = ts"
  using assms by (simp add: wake_up_def Let_def)

lemma sem_inv_step:
  assumes "sem_inv i (s, H)" "sem_step i (s, H) (s', H')"
  shows "sem_inv i (s', H')"
proof -
  let ?q = "Wait_queue i"
  have ok: "sched_ok s" and len: "length (task_list s) < 2 ^ 32 - 1" using assms(1) by (simp_all add: sem_inv_def)
  have core: "sched_core {} s" and cr: "current s \<in> set (run_list s)" using ok by (simp_all add: sched_ok_def)
  note D = coreD [OF core]
  have cq: "current s \<notin> set (queues s ?q)" using D(5) [of "current s" ?q] cr by auto
  have "set (queues s ?q) \<subseteq> set (task_list s)" using D(7) by (auto simp: linked_iff)
  then have ql: "length (queues s ?q) \<le> length (task_list s)"
    using D(3) [of ?q] by (metis card_mono distinct_card finite_set card_length le_trans)
  consider
      (enter) "H' = (if counts s i = 0 then insert (current s) H else H)" "current s \<notin> H" "down i s = Some s'"
    | (leave) "s' = up i s" "H' = H - {current s} \<union> set (take (Suc 0) (queues s ?q))" "current s \<in> H"
    | (tick) "H' = H" "sched_tick s = Some s'"
    | (yield) "H' = H" "schedule s = Some s'"
    | (block) q where "H' = H" "q \<noteq> ?q" "wait q s = Some s'"
    | (wake) q where "s' = wake_up q s" "H' = H" "q \<noteq> ?q"
    | (wake_all) q where "s' = wake_up_all q s" "H' = H" "q \<noteq> ?q"
    using assms(2) by (rule sem_stepE) blast+
  then show ?thesis
  proof cases
    case enter
    let ?s = "s\<lparr>counts := (counts s)(i := counts s i + 1)\<rparr>"
    have ok': "sched_ok ?s" using ok by (simp add: sched_ok_def sched_core_def linked_def)
    show ?thesis
    proof (cases "counts s i + 1 = 1")
      case True
      then have "counts s i = 0" by simp
      moreover have "counts s i \<noteq> of_nat (Suc (length (queues s ?q)))" if "counts s i = 0"
      proof -
        have "unat (of_nat (Suc (length (queues s ?q))) :: u32) = Suc (length (queues s ?q))"
          using ql len by (simp add: unat_of_nat take_bit_nat_eq_self del: of_nat_Suc)
        then show ?thesis using that by (metis unat_0 nat.distinct(1))
      qed
      ultimately have H: "H = {}" "queues s ?q = []" using assms(1) by (auto simp: sem_inv_def)
      have "s' = ?s" using enter(3) True by (simp add: down_def Let_def)
      then show ?thesis using ok' H len True enter(1) by (auto simp: sem_inv_def)
    next
      case False
      then have w: "wait ?q ?s = Some s'" using enter(3) by (simp add: down_def Let_def)
      note W = wait_ok(2) [OF ok' w]
      have c: "counts s' i = counts s i + 1" using counts_wait [OF w] by simp
      obtain h where H: "H = {h}" "h \<notin> set (queues s ?q)" "counts s i = of_nat (Suc (length (queues s ?q)))"
        using assms(1) False by (auto simp: sem_inv_def)
      have "h \<noteq> current s" using enter(2) H by auto
      then show ?thesis using W H c len False enter(1) by (auto simp: sem_inv_def)
    qed
  next
    case leave
    obtain h where H: "H = {h}" "h \<notin> set (queues s ?q)" "counts s i = of_nat (Suc (length (queues s ?q)))"
      using assms(1) leave(3) by (auto simp: sem_inv_def)
    then have h: "h = current s" using leave(3) by auto
    let ?s = "s\<lparr>counts := (counts s)(i := counts s i - 1)\<rparr>"
    have ok': "sched_ok ?s" using ok by (simp add: sched_ok_def sched_core_def linked_def)
    note W = wake_up_core [of "{}" ?s ?q]
    have s': "s' = wake_up ?q ?s" using leave(1) by (simp add: up_def)
    have "sched_ok s'" using W ok' by (auto simp: sched_ok_def s')
    moreover have c: "counts s' i = counts s i - 1" by (simp add: s')
    moreover have tl: "task_list s' = task_list s" using W(5) ok' by (simp add: s' sched_ok_def)
    ultimately show ?thesis
    proof (cases "queues s ?q")
      case Nil
      then have "s' = ?s" by (simp add: s' wake_up_def)
      then show ?thesis using Nil H h len ok' leave(2) by (simp add: sem_inv_def)
    next
      case (Cons t ts)
      then have "queues s' ?q = ts" using wake_up_this [of ?s ?q t ts] by (simp add: s')
      moreover have "t \<notin> set ts" using D(3) [of ?q] Cons by simp
      ultimately show ?thesis using \<open>sched_ok s'\<close> c tl H h Cons len leave(2) by (simp add: sem_inv_def)
    qed
  next
    case tick
    from sched_tick_ok [OF ok] tick(2) have "sched_ok s'" by auto
    then show ?thesis using sem_inv_cong [OF assms(1)] tick_keeps [OF ok tick(2)] counts_tick [OF tick(2)] tick(1) by simp
  next
    case yield
    from schedule_ok [OF ok] yield(2) have "sched_ok s'" by auto
    then show ?thesis using sem_inv_cong [OF assms(1)] schedule_keeps [OF ok yield(2)] counts_schedule [OF yield(2)] yield(1) by simp
  next
    case (block q)
    note W = wait_ok(2) [OF ok block(3)]
    then have "queues s' ?q = queues s ?q" using block(2) by (metis)
    then show ?thesis using sem_inv_cong [OF assms(1)] W counts_wait [OF block(3)] block(1) by simp
  next
    case (wake q)
    note W = wake_up_core [OF core, of q]
    have "sched_ok s'" using W ok by (auto simp: sched_ok_def wake(1))
    then show ?thesis using sem_inv_cong [OF assms(1)] W(5) wake_up_other [OF ok wake(3)] wake(1,2) by simp
  next
    case (wake_all q)
    note W = wake_up_all_core [OF core, of q]
    have "sched_ok s'" using W ok by (auto simp: sched_ok_def wake_all(1))
    moreover have "queues s' ?q = queues s ?q" "task_list s' = task_list s"
      using wake_all(1,3) by (simp_all add: wake_up_all_def Let_def fold_runnable)
    ultimately show ?thesis using sem_inv_cong [OF assms(1)] wake_all(1,2) by simp
  qed
qed

lemma sem_inv_reach:
  assumes "sem_reach i c0 c" "sem_inv i c0"
  shows "sem_inv i c"
  using assms by (induction rule: sem_reach.induct) (auto intro: sem_inv_step)

end
