(* ===== verification/Tiling.thy ===== *)
theory Tiling
  imports Page
begin

text \<open>
  The ghost state of the buddy allocators (kernel/mm/page_alloc.c and kernel/mm/highmem.c):
  a map from block heads to orders that tiles an interval of pages with aligned blocks of
  \<open>2 ^ k\<close> pages, and what splitting a block into halves and joining two halves do to it.
\<close>

text \<open>The largest order (include/sins/mm.h).\<close>

definition MAX_ORDER :: nat where "MAX_ORDER = 8"

subsection \<open>Tilings\<close>

text \<open>
  The ghost state: \<open>blk p = Some k\<close> says a block of \<open>2 ^ k\<close> pages starts at page \<open>p\<close>.  The
  blocks of a zone tile its pages, each aligned (from the zone's first page) to its size.
\<close>

definition block_fits :: "nat \<Rightarrow> nat \<Rightarrow> nat \<Rightarrow> nat \<Rightarrow> bool" where
  "block_fits b e p k \<longleftrightarrow> b \<le> p \<and> k \<le> MAX_ORDER \<and> 2 ^ k dvd (p - b) \<and> p + 2 ^ k \<le> e"

definition separated :: "(nat \<rightharpoonup> nat) \<Rightarrow> bool" where
  "separated blk \<longleftrightarrow> (\<forall>p q j. blk p = Some j \<longrightarrow> q \<in> dom blk \<longrightarrow> p < q \<longrightarrow> p + 2 ^ j \<le> q)"

definition covered :: "(nat \<rightharpoonup> nat) \<Rightarrow> nat \<Rightarrow> bool" where
  "covered blk x \<longleftrightarrow> (\<exists>p k. blk p = Some k \<and> p \<le> x \<and> x < p + 2 ^ k)"

definition tiled :: "nat \<Rightarrow> nat \<Rightarrow> (nat \<rightharpoonup> nat) \<Rightarrow> bool" where
  "tiled b e blk \<longleftrightarrow>
     (\<forall>p k. blk p = Some k \<longrightarrow> block_fits b e p k) \<and> separated blk \<and>
     (\<forall>x. b \<le> x \<longrightarrow> x < e \<longrightarrow> covered blk x)"

lemma block_fitsD:
  assumes "block_fits b e p k"
  shows "b \<le> p" "k \<le> MAX_ORDER" "2 ^ k dvd (p - b)" "p + 2 ^ k \<le> e" "p < e"
proof -
  show "b \<le> p" "k \<le> MAX_ORDER" "2 ^ k dvd (p - b)" and e: "p + 2 ^ k \<le> e"
    using assms by (auto simp: block_fits_def)
  from e show "p < e" using zero_less_power [of "2::nat" k] by linarith
qed

lemma block_fits_halves:
  assumes "block_fits b e p (Suc k)"
  shows "block_fits b e p k" "block_fits b e (p + 2 ^ k) k"
proof -
  note P = block_fitsD [OF assms]
  have d: "2 ^ k dvd (p - b)" using P(3) by (rule dvd_pow2_half)
  moreover have "p + 2 ^ k - b = (p - b) + 2 ^ k" using P(1) by simp
  ultimately have "2 ^ k dvd (p + 2 ^ k - b)" by simp
  with P d show "block_fits b e p k" "block_fits b e (p + 2 ^ k) k"
    by (simp_all add: block_fits_def)
qed

lemma separatedD:
  "separated blk \<Longrightarrow> blk p = Some j \<Longrightarrow> blk q = Some k \<Longrightarrow> p < q \<Longrightarrow> p + 2 ^ j \<le> q"
  unfolding separated_def by blast

lemma separated_middle:
  assumes "separated blk" "blk p = Some (Suc k)"
  shows "blk (p + 2 ^ k) = None"
proof (rule ccontr)
  assume "blk (p + 2 ^ k) \<noteq> None"
  then obtain i where "blk (p + 2 ^ k) = Some i" by auto
  from separatedD [OF assms this] show False by simp
qed

lemma separated_split:
  assumes s: "separated blk" and p: "blk p = Some (Suc k)"
  shows "separated (blk(p \<mapsto> k, p + 2 ^ k \<mapsto> k))" (is "separated ?blk")
  unfolding separated_def
proof (intro allI impI)
  let ?m = "p + 2 ^ k"
  fix q r j
  assume q: "?blk q = Some j" and r: "r \<in> dom ?blk" and lt: "q < r"
  have pos: "(0::nat) < 2 ^ k" by simp
  consider (pp) "q = p" "j = k" | (mm) "q = ?m" "j = k" | (old) "q \<noteq> p" "q \<noteq> ?m" "blk q = Some j"
    using q by (auto split: if_splits)
  then show "q + 2 ^ j \<le> r"
  proof cases
    case pp
    show ?thesis
    proof (cases "r = ?m")
      case False
      with r lt pp obtain i where "blk r = Some i" by auto
      from separatedD [OF s p this] lt pp show ?thesis by simp
    qed (use pp in simp)
  next
    case mm
    with r lt pos obtain i where "blk r = Some i" by (auto split: if_splits)
    from separatedD [OF s p this] lt mm pos show ?thesis by simp
  next
    case old
    show ?thesis
    proof (cases "r = ?m")
      case True
      show ?thesis
      proof (cases "q < p")
        case True
        from separatedD [OF s old(3) p this] \<open>r = ?m\<close> show ?thesis by simp
      next
        case False
        with old have "p < q" by simp
        from separatedD [OF s p old(3) this] lt \<open>r = ?m\<close> pos show ?thesis by simp
      qed
    next
      case False
      with r p obtain i where "blk r = Some i" by (auto split: if_splits)
      from separatedD [OF s old(3) this lt] show ?thesis .
    qed
  qed
qed

lemma separated_join:
  assumes s: "separated blk" and l: "blk l = Some k" and r: "blk (l + 2 ^ k) = Some k"
  shows "separated (blk(l + 2 ^ k := None, l \<mapsto> Suc k))" (is "separated ?blk")
  unfolding separated_def
proof (intro allI impI)
  let ?r = "l + 2 ^ k"
  fix q x j
  assume q: "?blk q = Some j" and x: "x \<in> dom ?blk" and lt: "q < x"
  from x obtain i where bx: "blk x = Some i" "x = l \<or> x \<noteq> ?r" using l by (auto split: if_splits)
  show "q + 2 ^ j \<le> x"
  proof (cases "q = l")
    case True
    with lt bx have "x \<noteq> ?r" by auto
    moreover from separatedD [OF s l bx(1)] lt True have "?r \<le> x" by simp
    ultimately have "?r < x" by simp
    moreover from True q have "j = Suc k" by simp
    ultimately show ?thesis using separatedD [OF s r bx(1)] True by auto
  next
    case False
    with q have "blk q = Some j" by (auto split: if_splits)
    from separatedD [OF s this bx(1) lt] show ?thesis .
  qed
qed

lemma covered_split:
  assumes p: "blk p = Some (Suc k)" and m: "blk (p + 2 ^ k) = None" and c: "covered blk x"
  shows "covered (blk(p \<mapsto> k, p + 2 ^ k \<mapsto> k)) x" (is "covered ?blk x")
proof -
  from c obtain q j where q: "blk q = Some j" "q \<le> x" "x < q + 2 ^ j"
    by (auto simp: covered_def)
  consider "q \<noteq> p" | "q = p" "x < p + 2 ^ k" | "q = p" "p + 2 ^ k \<le> x" by linarith
  then show ?thesis
  proof cases
    case 1
    with q m have "?blk q = Some j" by auto
    with q show ?thesis unfolding covered_def by blast
  next
    case 2
    have "?blk p = Some k" by simp
    with 2 q show ?thesis unfolding covered_def by blast
  next
    case 3
    have "?blk (p + 2 ^ k) = Some k" by simp
    moreover have "j = Suc k" using 3 q p by simp
    then have "x < p + 2 ^ k + 2 ^ k" using 3 q(3) by simp
    ultimately show ?thesis using 3 unfolding covered_def by blast
  qed
qed

lemma covered_join:
  assumes l: "blk l = Some k" and r: "blk (l + 2 ^ k) = Some k" and c: "covered blk x"
  shows "covered (blk(l + 2 ^ k := None, l \<mapsto> Suc k)) x" (is "covered ?blk x")
proof -
  from c obtain q j where q: "blk q = Some j" "q \<le> x" "x < q + 2 ^ j"
    by (auto simp: covered_def)
  show ?thesis
  proof (cases "q = l \<or> q = l + 2 ^ k")
    case True
    then have "l \<le> x" "x < l + 2 ^ Suc k" using q l r by auto
    moreover have "?blk l = Some (Suc k)" by simp
    ultimately show ?thesis unfolding covered_def by blast
  next
    case False
    with q have "?blk q = Some j" by auto
    with q show ?thesis unfolding covered_def by blast
  qed
qed

lemma tiledD:
  assumes "tiled b e blk"
  shows "blk p = Some k \<Longrightarrow> block_fits b e p k" "separated blk"
    "b \<le> x \<Longrightarrow> x < e \<Longrightarrow> covered blk x"
  using assms by (auto simp: tiled_def)

lemma tiled_unique:
  assumes "separated blk" "blk p = Some j" "blk q = Some k"
    and "x < p + 2 ^ j" "x < q + 2 ^ k" "p \<le> x" "q \<le> x"
  shows "p = q"
proof (rule ccontr)
  assume "p \<noteq> q"
  then consider "p < q" | "q < p" by linarith
  then show False
    using separatedD [OF assms(1-3)] separatedD [OF assms(1,3,2)] assms(4-)
    by cases linarith+
qed

lemma upd2_cases:
  "(m(a \<mapsto> x, c \<mapsto> y)) q = Some j \<Longrightarrow> q = c \<and> j = y \<or> q = a \<and> j = x \<or> m q = Some j"
  "(m(c := None, a \<mapsto> x)) q = Some j \<Longrightarrow> q = a \<and> j = x \<or> m q = Some j"
  by (auto split: if_splits)

lemma tiled_split:
  assumes t: "tiled b e blk" and p: "blk p = Some (Suc k)"
  shows "tiled b e (blk(p \<mapsto> k, p + 2 ^ k \<mapsto> k))" (is "tiled b e ?blk")
  unfolding tiled_def
proof (intro conjI allI impI)
  note S = tiledD(2) [OF t]
  note halves = block_fits_halves [OF tiledD(1) [OF t p]]
  show "separated ?blk" using S p by (rule separated_split)
  fix q j assume "?blk q = Some j"
  from upd2_cases(1) [OF this]
  consider "q = p + 2 ^ k" "j = k" | "q = p" "j = k" | "blk q = Some j" by blast
  then show "block_fits b e q j"
  proof cases
    case 1 with halves(2) show ?thesis by simp
  next
    case 2 with halves(1) show ?thesis by simp
  next
    case 3 then show ?thesis by (rule tiledD(1) [OF t])
  qed
next
  fix x assume "b \<le> x" "x < e"
  from tiledD(3) [OF t this] show "covered ?blk x"
    using p separated_middle [OF tiledD(2) [OF t] p] covered_split by blast
qed

lemma tiled_join:
  assumes t: "tiled b e blk" and l: "blk l = Some k" and r: "blk (l + 2 ^ k) = Some k"
    and al: "2 ^ Suc k dvd (l - b)" and k: "k < MAX_ORDER"
  shows "tiled b e (blk(l + 2 ^ k := None, l \<mapsto> Suc k))" (is "tiled b e ?blk")
  unfolding tiled_def
proof (intro conjI allI impI)
  show "separated ?blk" using tiledD(2) [OF t] l r by (rule separated_join)
  have fit: "block_fits b e l (Suc k)"
    using block_fitsD [OF tiledD(1) [OF t l]] block_fitsD [OF tiledD(1) [OF t r]] al k
    by (simp add: block_fits_def)
  fix q j assume "?blk q = Some j"
  from upd2_cases(2) [OF this]
  consider "q = l" "j = Suc k" | "blk q = Some j" by blast
  then show "block_fits b e q j"
  proof cases
    case 1 with fit show ?thesis by simp
  next
    case 2 then show ?thesis by (rule tiledD(1) [OF t])
  qed
next
  fix x assume "b \<le> x" "x < e"
  from tiledD(3) [OF t this] show "covered ?blk x" by (rule covered_join [OF l r])
qed

subsection \<open>Buddies\<close>

definition buddy_of :: "nat \<Rightarrow> nat \<Rightarrow> nat \<Rightarrow> nat" where
  "buddy_of b p k = (if 2 ^ Suc k dvd (p - b) then p + 2 ^ k else p - 2 ^ k)"

lemma pow2_step_cases:
  fixes a :: nat
  assumes "2 ^ k dvd a"
  obtains (even) "2 ^ Suc k dvd a" "\<not> 2 ^ Suc k dvd a + 2 ^ k"
    | (odd) "\<not> 2 ^ Suc k dvd a" "2 ^ k \<le> a" "2 ^ Suc k dvd a - 2 ^ k"
proof -
  obtain m where m: "a = 2 ^ k * m" using assms by (rule dvdE)
  have up: "a + 2 ^ k = 2 ^ k * (m + 1)" by (simp add: m)
  have dn: "a - 2 ^ k = 2 ^ k * (m - 1)" by (simp add: m diff_mult_distrib2)
  have d: "2 ^ Suc k dvd 2 ^ k * n \<longleftrightarrow> even n" for n :: nat
  proof -
    have "2 ^ Suc k dvd 2 ^ k * n \<longleftrightarrow> 2 ^ k * 2 dvd 2 ^ k * n" by (simp add: mult.commute)
    then show ?thesis by simp
  qed
  show thesis
  proof (cases "even m")
    case True
    then have "2 ^ Suc k dvd a" "\<not> 2 ^ Suc k dvd a + 2 ^ k"
      unfolding up unfolding m d by simp_all
    then show thesis by (rule even)
  next
    case False
    then have "1 \<le> m" by (cases m) auto
    then have "2 ^ k \<le> a" by (simp add: m)
    moreover have "even (m - 1)" using False by simp
    ultimately show thesis using odd d [of m] d [of "m - 1"] False dn m by metis
  qed
qed

lemma buddy_of_props:
  assumes "b \<le> p" "2 ^ k dvd (p - b)"
  shows "b \<le> buddy_of b p k" "2 ^ k dvd (buddy_of b p k - b)"
    "buddy_of b (buddy_of b p k) k = p" "buddy_of b p k \<noteq> p"
    "2 ^ Suc k dvd (min p (buddy_of b p k) - b)"
    "max p (buddy_of b p k) = min p (buddy_of b p k) + 2 ^ k"
proof -
  have pos: "(0::nat) < 2 ^ k" by simp
  have "b \<le> buddy_of b p k \<and> 2 ^ k dvd (buddy_of b p k - b) \<and>
    buddy_of b (buddy_of b p k) k = p \<and> buddy_of b p k \<noteq> p \<and>
    2 ^ Suc k dvd (min p (buddy_of b p k) - b) \<and>
    max p (buddy_of b p k) = min p (buddy_of b p k) + 2 ^ k"
    using assms(2)
  proof (cases rule: pow2_step_cases)
    case even
    then have q: "buddy_of b p k = p + 2 ^ k" by (simp add: buddy_of_def)
    have o: "p + 2 ^ k - b = p - b + 2 ^ k" using assms(1) by simp
    have "\<not> 2 ^ Suc k dvd (p + 2 ^ k - b)" unfolding o by (rule even(2))
    then have i: "buddy_of b (p + 2 ^ k) k = p" by (simp add: buddy_of_def)
    have "2 ^ k dvd (p + 2 ^ k - b)" unfolding o using assms(2) by simp
    moreover have "min p (p + 2 ^ k) = p" "max p (p + 2 ^ k) = p + 2 ^ k" by simp_all
    ultimately show ?thesis using even(1) assms(1) pos unfolding q i by simp
  next
    case odd
    then have q: "buddy_of b p k = p - 2 ^ k" by (simp add: buddy_of_def)
    have le: "b + 2 ^ k \<le> p" using odd(2) assms(1) by linarith
    have o: "p - 2 ^ k - b = p - b - 2 ^ k" by simp
    have d: "2 ^ Suc k dvd (p - 2 ^ k - b)" using odd(3) by (simp only: o)
    then have i: "buddy_of b (p - 2 ^ k) k = p" using le by (simp add: buddy_of_def)
    have h: "2 ^ k dvd p - 2 ^ k - b" using d by (rule dvd_pow2_half)
    have m: "min p (p - 2 ^ k) = p - 2 ^ k" "max p (p - 2 ^ k) = p" by simp_all
    show ?thesis unfolding q i m using d h le pos by linarith
  qed
  then show "b \<le> buddy_of b p k" "2 ^ k dvd (buddy_of b p k - b)"
    "buddy_of b (buddy_of b p k) k = p" "buddy_of b p k \<noteq> p"
    "2 ^ Suc k dvd (min p (buddy_of b p k) - b)"
    "max p (buddy_of b p k) = min p (buddy_of b p k) + 2 ^ k" by blast+
qed

end
