(* ===== verification/Page_Alloc.thy ===== *)
theory Page_Alloc
  imports Tiling
begin

text \<open>
  kernel/mm/page_alloc.c: the buddy allocator.  A \<open>struct page *\<close> is the index of the page in
  the one array \<open>mmap\<close>, a \<open>free_area\<close> is its list of block heads (first entry first) and its
  counter, and the fields of a zone are those of \<open>mem_zone_t\<close> together with the flag words of
  the zone's own slice of the page array.  The record \<open>buddy\<close> holds what
  kernel/mm/highmem.c has in the same shape, so the operations are stated over every record
  that extends it.  \<open>irq_save\<close>/\<open>irq_restore\<close> bracket each operation and are not modelled: the
  operations are atomic.  \<open>None\<close> is a failed \<open>BUG_ON\<close>.
\<close>

subsection \<open>State\<close>

record free_area =
  fa_list :: "nat list"
  fa_size :: u32

record buddy =
  bflags :: "nat \<Rightarrow> u32"
  bbase :: nat
  bend :: nat
  bareas :: "nat \<Rightarrow> free_area"

record mem_zone = buddy +
  base_addr :: u32
  zsize :: u32

definition MMAP_BITS_PRIVATE :: nat where "MMAP_BITS_PRIVATE = 0"
definition MMAP_BITS_USED :: nat where "MMAP_BITS_USED = 1"

definition mmap_test_private :: "'a buddy_scheme \<Rightarrow> nat \<Rightarrow> bool" where
  "mmap_test_private z p \<longleftrightarrow> bit_test (bflags z p) MMAP_BITS_PRIVATE \<noteq> 0"
definition mmap_set_private :: "'a buddy_scheme \<Rightarrow> nat \<Rightarrow> 'a buddy_scheme" where
  "mmap_set_private z p =
     z\<lparr>bflags := (bflags z)(p := bit_set (bflags z p) MMAP_BITS_PRIVATE)\<rparr>"
definition mmap_clear_private :: "'a buddy_scheme \<Rightarrow> nat \<Rightarrow> 'a buddy_scheme" where
  "mmap_clear_private z p =
     z\<lparr>bflags := (bflags z)(p := bit_clear (bflags z p) MMAP_BITS_PRIVATE)\<rparr>"
definition mmap_test_used :: "'a buddy_scheme \<Rightarrow> nat \<Rightarrow> bool" where
  "mmap_test_used z p \<longleftrightarrow> bit_test (bflags z p) MMAP_BITS_USED \<noteq> 0"
definition mmap_set_used :: "'a buddy_scheme \<Rightarrow> nat \<Rightarrow> 'a buddy_scheme" where
  "mmap_set_used z p =
     z\<lparr>bflags := (bflags z)(p := bit_set (bflags z p) MMAP_BITS_USED)\<rparr>"
definition mmap_clear_used :: "'a buddy_scheme \<Rightarrow> nat \<Rightarrow> 'a buddy_scheme" where
  "mmap_clear_used z p =
     z\<lparr>bflags := (bflags z)(p := bit_clear (bflags z p) MMAP_BITS_USED)\<rparr>"

subsection \<open>Free lists\<close>

definition init_free_area :: "'a buddy_scheme \<Rightarrow> nat \<Rightarrow> 'a buddy_scheme" where
  "init_free_area z i = z\<lparr>bareas := (bareas z)(i := \<lparr>fa_list = [], fa_size = 0\<rparr>)\<rparr>"

definition init_add_to_free_area :: "'a buddy_scheme \<Rightarrow> nat \<Rightarrow> nat \<Rightarrow> 'a buddy_scheme" where
  "init_add_to_free_area z p order =
     (let z = mmap_set_private z p; a = bareas z order
      in z\<lparr>bareas := (bareas z)(order := \<lparr>fa_list = p # fa_list a, fa_size = fa_size a + 1\<rparr>)\<rparr>)"

definition add_to_free_area :: "'a buddy_scheme \<Rightarrow> nat \<Rightarrow> nat \<Rightarrow> 'a buddy_scheme option" where
  "add_to_free_area z p order =
     do { bug_on (\<not> mmap_test_private z p);
          let a = bareas z order;
          Some (z\<lparr>bareas := (bareas z)(order :=
            \<lparr>fa_list = p # fa_list a, fa_size = fa_size a + 1\<rparr>)\<rparr>) }"

definition pop_from_free_area :: "'a buddy_scheme \<Rightarrow> nat \<Rightarrow> nat option \<times> 'a buddy_scheme" where
  "pop_from_free_area z order =
     (let a = bareas z order
      in case fa_list a of
           [] \<Rightarrow> (None, z)
         | fetch # rest \<Rightarrow>
             (Some fetch,
              z\<lparr>bareas := (bareas z)(order := \<lparr>fa_list = rest, fa_size = fa_size a - 1\<rparr>)\<rparr>))"

text \<open>
  The C code unlinks the page from whatever list it is on and decrements the counter of
  \<open>order\<close>; the model covers the page being on the list of \<open>order\<close>, and is \<open>None\<close> otherwise
  (the counters and lists would disagree from then on).
\<close>

definition remove_from_free_area :: "'a buddy_scheme \<Rightarrow> nat \<Rightarrow> nat \<Rightarrow> 'a buddy_scheme option" where
  "remove_from_free_area z p order =
     (let a = bareas z order
      in if p \<in> set (fa_list a)
         then Some (z\<lparr>bareas := (bareas z)(order :=
                \<lparr>fa_list = remove1 p (fa_list a), fa_size = fa_size a - 1\<rparr>)\<rparr>)
         else None)"

subsection \<open>Buddies\<close>

definition get_buddy :: "'a buddy_scheme \<Rightarrow> nat \<Rightarrow> nat \<Rightarrow> nat option" where
  "get_buddy z me order =
     (let combine_size = 2 ^ (order + 1); buddy_size = 2 ^ order; offset = me - bbase z;
          left_boy = (offset mod combine_size = 0);
          my_buddy = (if left_boy then bbase z + offset + buddy_size
                      else bbase z + offset - buddy_size)
      in if left_boy \<and> int (my_buddy + buddy_size) - int (bend z) > 0 then None
         else if \<not> mmap_test_private z my_buddy then None
         else if mmap_test_used z my_buddy then None
         else if order = 0 \<or> \<not> mmap_test_private z (my_buddy + 2 ^ (order - 1))
           then Some my_buddy
         else None)"

definition reduce :: "'a buddy_scheme \<Rightarrow> nat \<Rightarrow> nat \<Rightarrow> (nat \<times> 'a buddy_scheme) option" where
  "reduce z p order =
     do { bug_on (order = 0);
          let buddy2 = p + 2 ^ (order - 1);
          z \<leftarrow> add_to_free_area (mmap_set_private z buddy2) buddy2 (order - 1);
          Some (p, z) }"

definition expand :: "'a buddy_scheme \<Rightarrow> nat \<Rightarrow> nat \<Rightarrow> nat \<times> 'a buddy_scheme" where
  "expand z buddy1 buddy2 =
     (let (left_buddy, right_buddy) =
        (if buddy1 < buddy2 then (buddy1, buddy2) else (buddy2, buddy1))
      in (left_buddy, mmap_clear_private z right_buddy))"

subsection \<open>Allocation in one zone\<close>

text \<open>The loop \<open>while(search_order != order)\<close> of \<open>alloc_pages\<close>.\<close>

fun reduce_to :: "'a buddy_scheme \<Rightarrow> nat \<Rightarrow> nat \<Rightarrow> nat \<Rightarrow> (nat \<times> 'a buddy_scheme) option" where
  "reduce_to z fetch search_order order =
     (if search_order = order then Some (fetch, z)
      else do { (fetch, z) \<leftarrow> reduce z fetch search_order;
                (case search_order of
                   0 \<Rightarrow> None
                 | Suc n \<Rightarrow> reduce_to z fetch n order) })"

declare reduce_to.simps [simp del]

text \<open>
  The search over the orders of one zone.  The code's loop ends at
  \<open>search_order == MAX_ORDER + 1\<close>, which a start at or below \<open>MAX_ORDER\<close> reaches.
\<close>

function alloc_search ::
    "'a buddy_scheme \<Rightarrow> nat \<Rightarrow> nat \<Rightarrow> (nat option \<times> 'a buddy_scheme) option" where
  "alloc_search z search_order order =
     (if MAX_ORDER < search_order then Some (None, z)
      else case pop_from_free_area z search_order of
             (Some fetch, z) \<Rightarrow>
               do { (fetch, z) \<leftarrow> reduce_to z fetch search_order order;
                    Some (Some fetch, mmap_set_used z fetch) }
           | (None, z) \<Rightarrow> alloc_search z (search_order + 1) order)"
  by pat_completeness auto
termination by (relation "measure (\<lambda>(z, s, order). MAX_ORDER + 1 - s)") auto

declare alloc_search.simps [simp del]

subsection \<open>Deallocation in one zone\<close>

text \<open>The merging loop of \<open>dealloc_pages\<close>.\<close>

function merge_loop ::
    "'a buddy_scheme \<Rightarrow> nat \<Rightarrow> nat \<Rightarrow> (nat \<times> nat \<times> 'a buddy_scheme) option" where
  "merge_loop z buddy1 order =
     (if MAX_ORDER \<le> order then Some (buddy1, order, z)
      else case get_buddy z buddy1 order of
             None \<Rightarrow> Some (buddy1, order, z)
           | Some buddy2 \<Rightarrow>
               do { z \<leftarrow> remove_from_free_area z buddy2 order;
                    (case expand z buddy1 buddy2 of
                       (b, z) \<Rightarrow> merge_loop z b (order + 1)) })"
  by pat_completeness auto
termination by (relation "measure (\<lambda>(z, b, order). MAX_ORDER - order)") auto

declare merge_loop.simps [simp del]

definition dealloc_zone :: "'a buddy_scheme \<Rightarrow> nat \<Rightarrow> nat \<Rightarrow> 'a buddy_scheme option" where
  "dealloc_zone z p order =
     do { bug_on (\<not> mmap_test_used z p);
          bug_on (MAX_ORDER < order);
          (buddy1, order, z) \<leftarrow> merge_loop (mmap_clear_used z p) p order;
          add_to_free_area z buddy1 order }"

subsection \<open>Building the free lists of a zone\<close>

text \<open>The loop of \<open>_build_zone_buddy_system\<close>; the final \<open>BUG_ON(size != 0)\<close> is its exit.\<close>

definition build_order :: "u32 \<Rightarrow> nat" where
  "build_order sz =
     (if sz > push_bit MAX_ORDER PAGE_SIZE then MAX_ORDER else nat (get_order_floor sz))"

lemma build_order_fits:
  assumes "PAGE_SIZE \<le> sz"
  shows "build_order sz \<le> MAX_ORDER" and "4096 * 2 ^ build_order sz \<le> unat sz"
    and "build_order sz < MAX_ORDER \<Longrightarrow> unat sz < 4096 * 2 ^ Suc (build_order sz)"
proof -
  define n where "n = unat sz"
  have n: "4096 \<le> n" using assms by (simp add: n_def PAGE_SIZE_val word_le_nat_alt)
  have big: "sz > push_bit MAX_ORDER PAGE_SIZE \<longleftrightarrow> 1048576 < n"
    by (simp add: n_def PAGE_SIZE_val word_less_nat_alt MAX_ORDER_def)
  note f = get_order_floor_nat [OF n n_def]
  let ?k = "bitlen (n div 4096 div 2)"
  have small: "?k \<le> 8" if "\<not> 1048576 < n"
  proof (rule ccontr)
    assume "\<not> ?k \<le> 8"
    then have "(2::nat) ^ 9 \<le> 2 ^ ?k" by (intro power_increasing) auto
    with f(2) that show False by simp
  qed
  show "build_order sz \<le> MAX_ORDER"
    using small big by (simp add: build_order_def f(1) MAX_ORDER_def)
  show "4096 * 2 ^ build_order sz \<le> unat sz"
    using f(2) big by (simp add: build_order_def f(1) MAX_ORDER_def flip: n_def)
  show "unat sz < 4096 * 2 ^ Suc (build_order sz)" if "build_order sz < MAX_ORDER"
    using f(3) big that by (simp add: build_order_def f(1) flip: n_def split: if_splits)
qed

lemma unat_push_page: "x \<le> MAX_ORDER \<Longrightarrow> unat (push_bit x PAGE_SIZE) = 4096 * 2 ^ x"
proof -
  assume "x \<le> MAX_ORDER"
  then have "(2::nat) ^ x \<le> 2 ^ 8" by (intro power_increasing) (auto simp: MAX_ORDER_def)
  then have "take_bit 32 (4096 * 2 ^ x :: nat) = 4096 * 2 ^ x"
    by (simp add: take_bit_nat_eq_self_iff)
  then show ?thesis
    by (subst unsigned_push_bit_eq) (simp add: push_bit_eq_mult unat_PAGE_SIZE)
qed

function build_loop :: "'a buddy_scheme \<Rightarrow> nat \<Rightarrow> u32 \<Rightarrow> 'a buddy_scheme option" where
  "build_loop z p sz =
     (if PAGE_SIZE \<le> sz
      then let order = build_order sz
           in build_loop (init_add_to_free_area z p order) (p + 2 ^ order)
                (sz - push_bit order PAGE_SIZE)
      else do { bug_on (sz \<noteq> 0); Some z })"
  by pat_completeness auto
termination
proof (relation "measure (\<lambda>(z, p, sz). unat sz)")
  fix z :: "'a buddy_scheme" and p :: nat and sz :: u32 and x
  assume sz: "PAGE_SIZE \<le> sz" and x: "x = build_order sz"
  have u: "unat (push_bit x PAGE_SIZE) = 4096 * 2 ^ x"
    using build_order_fits(1) [OF sz] by (simp add: x unat_push_page)
  then have "push_bit x PAGE_SIZE \<le> sz" "0 < unat (push_bit x PAGE_SIZE)"
    using build_order_fits(2) [OF sz] by (simp_all add: word_le_nat_alt x)
  then have "unat (sz - push_bit x PAGE_SIZE) < unat sz"
    by (metis unat_sub diff_less order_less_le_trans word_le_nat_alt)
  then show "((init_add_to_free_area z p x, p + 2 ^ x, sz - push_bit x PAGE_SIZE), z, p, sz)
      \<in> measure (\<lambda>(z, p, sz). unat sz)" by simp
qed simp

declare build_loop.simps [simp del]

definition build_zone_buddy_system :: "'a buddy_scheme \<Rightarrow> 'a buddy_scheme option" where
  "build_zone_buddy_system z =
     (let z = fold (\<lambda>i z. init_free_area z i) [0..<MAX_ORDER + 1] z
      in build_loop z (bbase z) (of_nat (bend z - bbase z) * PAGE_SIZE))"

subsection \<open>Accessors\<close>

lemma mmap_bits [simp]:
  "mmap_test_private (mmap_set_private z q) p \<longleftrightarrow> p = q \<or> mmap_test_private z p"
  "mmap_test_private (mmap_clear_private z q) p \<longleftrightarrow> p \<noteq> q \<and> mmap_test_private z p"
  "mmap_test_private (mmap_set_used z q) p \<longleftrightarrow> mmap_test_private z p"
  "mmap_test_private (mmap_clear_used z q) p \<longleftrightarrow> mmap_test_private z p"
  "mmap_test_used (mmap_set_used z q) p \<longleftrightarrow> p = q \<or> mmap_test_used z p"
  "mmap_test_used (mmap_clear_used z q) p \<longleftrightarrow> p \<noteq> q \<and> mmap_test_used z p"
  "mmap_test_used (mmap_set_private z q) p \<longleftrightarrow> mmap_test_used z p"
  "mmap_test_used (mmap_clear_private z q) p \<longleftrightarrow> mmap_test_used z p"
  by (auto simp: mmap_test_private_def mmap_test_used_def mmap_set_private_def
      mmap_clear_private_def mmap_set_used_def mmap_clear_used_def
      MMAP_BITS_PRIVATE_def MMAP_BITS_USED_def)

lemma mmap_frame [simp]:
  "bareas (mmap_set_private z q) = bareas z" "bareas (mmap_clear_private z q) = bareas z"
  "bareas (mmap_set_used z q) = bareas z" "bareas (mmap_clear_used z q) = bareas z"
  "bbase (mmap_set_private z q) = bbase z" "bbase (mmap_clear_private z q) = bbase z"
  "bbase (mmap_set_used z q) = bbase z" "bbase (mmap_clear_used z q) = bbase z"
  "bend (mmap_set_private z q) = bend z" "bend (mmap_clear_private z q) = bend z"
  "bend (mmap_set_used z q) = bend z" "bend (mmap_clear_used z q) = bend z"
  by (simp_all add: mmap_set_private_def mmap_clear_private_def mmap_set_used_def
      mmap_clear_used_def)

lemma mmap_areas [simp]:
  "mmap_test_private (z\<lparr>bareas := a\<rparr>) p = mmap_test_private z p"
  "mmap_test_used (z\<lparr>bareas := a\<rparr>) p = mmap_test_used z p"
  by (simp_all add: mmap_test_private_def mmap_test_used_def)

subsection \<open>The invariant\<close>

text \<open>
  \<open>F\<close> holds the blocks an operation has taken off the free lists and not yet marked used.
  The flag bits of a zone's pages are a function of the tiling: \<open>PRIVATE\<close> marks the block
  heads, \<open>USED\<close> those of allocated blocks; each free list holds the free blocks of its
  order, once, and its counter their number.
\<close>

definition free_at :: "'a buddy_scheme \<Rightarrow> (nat \<rightharpoonup> nat) \<Rightarrow> nat set \<Rightarrow> nat \<Rightarrow> nat set" where
  "free_at z blk F k = {p. blk p = Some k \<and> \<not> mmap_test_used z p \<and> p \<notin> F}"

definition area_ok :: "free_area \<Rightarrow> nat set \<Rightarrow> bool" where
  "area_ok a S \<longleftrightarrow>
     distinct (fa_list a) \<and> set (fa_list a) = S \<and> fa_size a = of_nat (length (fa_list a))"

definition heads_ok :: "'a buddy_scheme \<Rightarrow> (nat \<rightharpoonup> nat) \<Rightarrow> bool" where
  "heads_ok z blk \<longleftrightarrow>
     (\<forall>p. bbase z \<le> p \<longrightarrow> p < bend z \<longrightarrow>
        (mmap_test_private z p \<longleftrightarrow> p \<in> dom blk) \<and> (mmap_test_used z p \<longrightarrow> p \<in> dom blk))"

definition buddy_inv :: "'a buddy_scheme \<Rightarrow> (nat \<rightharpoonup> nat) \<Rightarrow> nat set \<Rightarrow> bool" where
  "buddy_inv z blk F \<longleftrightarrow>
     tiled (bbase z) (bend z) blk \<and> heads_ok z blk \<and>
     F \<subseteq> dom blk \<and> (\<forall>p\<in>F. \<not> mmap_test_used z p) \<and>
     (\<forall>k\<le>MAX_ORDER. area_ok (bareas z k) (free_at z blk F k))"

text \<open>No two free buddies of the same order below \<open>MAX_ORDER\<close> are left apart.\<close>

definition coalesced :: "'a buddy_scheme \<Rightarrow> (nat \<rightharpoonup> nat) \<Rightarrow> nat set \<Rightarrow> bool" where
  "coalesced z blk F \<longleftrightarrow>
     (\<forall>k p. k < MAX_ORDER \<longrightarrow> p \<in> free_at z blk F k \<longrightarrow>
        buddy_of (bbase z) p k \<notin> free_at z blk F k)"

lemma buddy_invD:
  assumes "buddy_inv z blk F"
  shows "tiled (bbase z) (bend z) blk" "heads_ok z blk" "F \<subseteq> dom blk"
    "p \<in> F \<Longrightarrow> \<not> mmap_test_used z p"
    "k \<le> MAX_ORDER \<Longrightarrow> area_ok (bareas z k) (free_at z blk F k)"
  using assms by (auto simp: buddy_inv_def)

lemma buddy_inv_block:
  assumes "buddy_inv z blk F" "blk p = Some k"
  shows "bbase z \<le> p" "k \<le> MAX_ORDER" "2 ^ k dvd (p - bbase z)" "p + 2 ^ k \<le> bend z"
    "p < bend z" "mmap_test_private z p"
proof -
  note b = block_fitsD [OF tiledD(1) [OF buddy_invD(1) [OF assms(1)] assms(2)]]
  show "bbase z \<le> p" "k \<le> MAX_ORDER" "2 ^ k dvd (p - bbase z)" "p + 2 ^ k \<le> bend z" "p < bend z"
    by (fact b)+
  show "mmap_test_private z p"
    using buddy_invD(2) [OF assms(1)] b(1,5) assms(2) by (auto simp: heads_ok_def)
qed

lemma buddy_inv_head:
  assumes "buddy_inv z blk F" "bbase z \<le> p" "p < bend z"
  shows "mmap_test_private z p \<longleftrightarrow> p \<in> dom blk" "mmap_test_used z p \<Longrightarrow> p \<in> dom blk"
  using buddy_invD(2) [OF assms(1)] assms(2,3) by (auto simp: heads_ok_def)

lemma area_ok_tl:
  assumes "area_ok a S" and "fa_list a = p # ps"
  shows "area_ok \<lparr>fa_list = ps, fa_size = fa_size a - 1\<rparr> (S - {p})" "p \<in> S"
  using assms by (auto simp: area_ok_def)

lemma area_ok_remove1:
  assumes "area_ok a S" and "p \<in> S"
  shows "area_ok \<lparr>fa_list = remove1 p (fa_list a), fa_size = fa_size a - 1\<rparr> (S - {p})"
proof -
  from assms have p: "p \<in> set (fa_list a)" by (simp add: area_ok_def)
  then have "length (fa_list a) = Suc (length (remove1 p (fa_list a)))"
    using length_pos_if_in_set [OF p] by (simp add: length_remove1)
  with assms show ?thesis by (simp add: area_ok_def set_remove1_eq)
qed

lemma area_ok_Cons:
  assumes "area_ok a S" and "p \<notin> S"
  shows "area_ok \<lparr>fa_list = p # fa_list a, fa_size = fa_size a + 1\<rparr> (insert p S)"
  using assms by (auto simp: area_ok_def)

lemma free_at_simps [simp]:
  "free_at (z\<lparr>bareas := a\<rparr>) blk F k = free_at z blk F k"
  "free_at (mmap_set_private z p) blk F k = free_at z blk F k"
  "free_at (mmap_clear_private z p) blk F k = free_at z blk F k"
  by (simp_all add: free_at_def)

lemma heads_ok_areas [simp]: "heads_ok (z\<lparr>bareas := a\<rparr>) blk = heads_ok z blk"
  by (simp add: heads_ok_def)

subsection \<open>Steps of the invariant\<close>

lemma free_at_insert: "free_at z blk (insert p F) k = free_at z blk F k - {p}"
  by (auto simp: free_at_def)

lemma pop_Some:
  assumes inv: "buddy_inv z blk {}" and pop: "pop_from_free_area z k = (Some p, z')"
    and kM: "k \<le> MAX_ORDER"
  shows "buddy_inv z' blk {p}" "p \<in> free_at z blk {} k"
    "bflags z' = bflags z" "bbase z' = bbase z" "bend z' = bend z"
proof -
  from pop obtain ps where ps: "fa_list (bareas z k) = p # ps"
    and z': "z' = z\<lparr>bareas := (bareas z)(k := \<lparr>fa_list = ps, fa_size = fa_size (bareas z k) - 1\<rparr>)\<rparr>"
    by (auto simp: pop_from_free_area_def Let_def split: list.splits)
  note ok = area_ok_tl [OF buddy_invD(5) [OF inv kM] ps]
  show p: "p \<in> free_at z blk {} k" by (rule ok(2))
  have "area_ok (bareas z' j) (free_at z' blk {p} j)" if "j \<le> MAX_ORDER" for j
  proof (cases "j = k")
    case True
    then show ?thesis using ok(1) by (simp add: z' free_at_insert)
  next
    case False
    then have "p \<notin> free_at z blk {} j" using p by (auto simp: free_at_def)
    then show ?thesis using buddy_invD(5) [OF inv that] False
      by (simp add: z' free_at_insert)
  qed
  moreover have "blk p = Some k" "\<not> mmap_test_used z p" using p by (simp_all add: free_at_def)
  ultimately show "buddy_inv z' blk {p}"
    using buddy_invD(1,2) [OF inv] by (simp add: buddy_inv_def z' domIff)
  show "bflags z' = bflags z" "bbase z' = bbase z" "bend z' = bend z"
    by (simp_all add: z')
qed

lemma pop_None:
  assumes inv: "buddy_inv z blk F" and pop: "pop_from_free_area z k = (None, z')"
    and kM: "k \<le> MAX_ORDER"
  shows "z' = z" "free_at z blk F k = {}"
  using pop buddy_invD(5) [OF inv kM]
  by (auto simp: pop_from_free_area_def Let_def area_ok_def split: list.splits)

lemma add_to_free_area_inv:
  assumes inv: "buddy_inv z blk (insert p F)" and k: "blk p = Some k" and pF: "p \<notin> F"
  obtains z' where "add_to_free_area z p k = Some z'" "buddy_inv z' blk F"
    "bflags z' = bflags z" "bbase z' = bbase z" "bend z' = bend z"
proof -
  let ?a = "bareas z k"
  let ?z = "z\<lparr>bareas := (bareas z)(k := \<lparr>fa_list = p # fa_list ?a, fa_size = fa_size ?a + 1\<rparr>)\<rparr>"
  have "add_to_free_area z p k = Some ?z"
    using buddy_inv_block(6) [OF inv k] by (simp add: add_to_free_area_def Let_def)
  moreover have "area_ok (bareas ?z j) (free_at ?z blk F j)" if "j \<le> MAX_ORDER" for j
  proof (cases "j = k")
    case True
    have "insert p (free_at z blk (insert p F) k) = free_at z blk F k"
      using buddy_invD(4) [OF inv, of p] k pF by (auto simp: free_at_def)
    moreover have "p \<notin> free_at z blk (insert p F) k" by (simp add: free_at_def)
    note area_ok_Cons [OF buddy_invD(5) [OF inv buddy_inv_block(2) [OF inv k]] this]
    ultimately show ?thesis using True by simp
  next
    case False
    then have "free_at z blk F j = free_at z blk (insert p F) j"
      using k by (auto simp: free_at_def)
    then show ?thesis using buddy_invD(5) [OF inv that] False by simp
  qed
  then have "buddy_inv ?z blk F"
    using buddy_invD(1-4) [OF inv] by (auto simp: buddy_inv_def)
  ultimately show thesis using that by simp
qed

lemma remove_from_free_area_inv:
  assumes inv: "buddy_inv z blk F" and p: "p \<in> free_at z blk F k"
  obtains z' where "remove_from_free_area z p k = Some z'" "buddy_inv z' blk (insert p F)"
    "bflags z' = bflags z" "bbase z' = bbase z" "bend z' = bend z"
proof -
  let ?a = "bareas z k"
  let ?z = "z\<lparr>bareas := (bareas z)(k :=
    \<lparr>fa_list = remove1 p (fa_list ?a), fa_size = fa_size ?a - 1\<rparr>)\<rparr>"
  note ok = buddy_invD(5) [OF inv]
  from p have kM: "k \<le> MAX_ORDER"
    using buddy_inv_block(2) [OF inv, of p k] by (simp add: free_at_def)
  have "remove_from_free_area z p k = Some ?z"
    using ok [OF kM] p by (simp add: remove_from_free_area_def Let_def area_ok_def)
  moreover have "area_ok (bareas ?z j) (free_at ?z blk (insert p F) j)" if "j \<le> MAX_ORDER" for j
  proof (cases "j = k")
    case True
    then show ?thesis using area_ok_remove1 [OF ok [OF kM] p] by (simp add: free_at_insert)
  next
    case False
    then have "p \<notin> free_at z blk F j" using p by (auto simp: free_at_def)
    then show ?thesis using ok [OF that] False by (simp add: free_at_insert)
  qed
  then have "buddy_inv ?z blk (insert p F)"
    using buddy_invD(1-4) [OF inv] p by (auto simp: buddy_inv_def free_at_def)
  ultimately show thesis using that by simp
qed

text \<open>Halving a block in flight: \<open>reduce\<close>.\<close>

lemma heads_ok_set:
  assumes "heads_ok z blk" "p \<in> dom blk"
  shows "heads_ok (mmap_set_private z q) (blk(p \<mapsto> j, q \<mapsto> k))"
  using assms by (auto simp: heads_ok_def)

lemma reduce_inv:
  assumes inv: "buddy_inv z blk {p}" and k: "blk p = Some (Suc k)"
  obtains z' where "reduce z p (Suc k) = Some (p, z')"
    "buddy_inv z' (blk(p \<mapsto> k, p + 2 ^ k \<mapsto> k)) {p}"
    "\<And>q. mmap_test_used z' q = mmap_test_used z q" "bbase z' = bbase z" "bend z' = bend z"
proof -
  let ?q = "p + 2 ^ k"
  let ?blk = "blk(p \<mapsto> k, ?q \<mapsto> k)"
  let ?z1 = "mmap_set_private z ?q"
  note t = buddy_invD(1) [OF inv]
  have nq: "blk ?q = None" using separated_middle [OF tiledD(2) [OF t] k] .
  have pq: "p \<noteq> ?q" by simp
  have used: "\<not> mmap_test_used z ?q"
  proof
    assume "mmap_test_used z ?q"
    moreover have "bbase z \<le> ?q" "?q < bend z"
      using buddy_inv_block(1,4) [OF inv k] by (auto intro: less_le_trans [of _ "p + 2 ^ Suc k"])
    ultimately show False using buddy_inv_head(2) [OF inv] nq by blast
  qed
  have up: "\<not> mmap_test_used z p" using buddy_invD(4) [OF inv] by simp
  have free: "free_at z ?blk {p, ?q} j = free_at z blk {p} j" for j
    using nq by (auto simp: free_at_def)
  have inv1: "buddy_inv ?z1 ?blk (insert ?q {p})"
    using tiled_split [OF t k] heads_ok_set [OF buddy_invD(2) [OF inv], of p] k
      buddy_invD(5) [OF inv] used up free
    by (auto simp: buddy_inv_def insert_commute)
  have "?blk ?q = Some k" "?q \<notin> {p}" using pq by auto
  from add_to_free_area_inv [OF inv1 this] obtain z' where
    a: "add_to_free_area ?z1 ?q k = Some z'" "buddy_inv z' ?blk {p}"
      "bflags z' = bflags ?z1" "bbase z' = bbase ?z1" "bend z' = bend ?z1" by blast
  have "mmap_test_used z' r = mmap_test_used z r" for r
    using mmap_bits(7) [of z ?q r] a(3) by (simp add: mmap_test_used_def)
  then show thesis using that a by (simp add: reduce_def)
qed

text \<open>Merging two free buddies in flight: \<open>expand\<close>.\<close>

lemma expand_inv:
  assumes inv: "buddy_inv z blk {l, l + 2 ^ k}" and l: "blk l = Some k"
    and r: "blk (l + 2 ^ k) = Some k" and al: "2 ^ Suc k dvd (l - bbase z)" and k: "k < MAX_ORDER"
    and bs: "{b1, b2} = {l, l + 2 ^ k}"
  shows "expand z b1 b2 = (l, mmap_clear_private z (l + 2 ^ k))"
    and "buddy_inv (mmap_clear_private z (l + 2 ^ k)) (blk(l + 2 ^ k := None, l \<mapsto> Suc k)) {l}"
      (is "buddy_inv ?z ?blk {l}")
proof -
  have lr: "l < l + 2 ^ k" by simp
  from bs consider "b1 = l" "b2 = l + 2 ^ k" | "b2 = l" "b1 = l + 2 ^ k" by (auto simp: doubleton_eq_iff)
  then show "expand z b1 b2 = (l, mmap_clear_private z (l + 2 ^ k))"
    using lr by cases (simp_all add: expand_def)
  note used = buddy_invD(4) [OF inv]
  have "heads_ok ?z ?blk"
    using buddy_invD(2) [OF inv] used l by (auto simp: heads_ok_def)
  moreover have "free_at ?z ?blk {l} j = free_at z blk {l, l + 2 ^ k} j" for j
    by (auto simp: free_at_def)
  ultimately show "buddy_inv ?z ?blk {l}"
    using tiled_join [OF buddy_invD(1) [OF inv] l r al k] buddy_invD(5) [OF inv] used
    by (simp add: buddy_inv_def)
qed

text \<open>Marking blocks.\<close>

lemma set_used_inv:
  assumes inv: "buddy_inv z blk (insert p F)" and "p \<notin> F"
  shows "buddy_inv (mmap_set_used z p) blk F"
proof -
  have "p \<in> dom blk" using buddy_invD(3) [OF inv] by simp
  moreover have "free_at (mmap_set_used z p) blk F j = free_at z blk (insert p F) j" for j
    by (auto simp: free_at_def)
  ultimately show ?thesis
    using buddy_invD [OF inv] assms(2) by (auto simp: buddy_inv_def heads_ok_def)
qed

lemma clear_used_inv:
  assumes inv: "buddy_inv z blk F" and p: "p \<in> dom blk" and u: "mmap_test_used z p"
  shows "buddy_inv (mmap_clear_used z p) blk (insert p F)"
proof -
  have "free_at (mmap_clear_used z p) blk (insert p F) j = free_at z blk F j" for j
    using u by (auto simp: free_at_def)
  then show ?thesis
    using buddy_invD [OF inv] p by (auto simp: buddy_inv_def heads_ok_def)
qed

subsection \<open>Finding the buddy\<close>

text \<open>
  The key fact behind the last test of \<open>get_buddy\<close>: a block that starts at \<open>q\<close> and is
  smaller than \<open>2 ^ k\<close> leaves a block head in the middle of \<open>q\<close>'s aligned interval.
\<close>

lemma smaller_block_middle:
  assumes t: "tiled b e blk" and q: "blk q = Some j" and jk: "j < k"
    and al: "2 ^ k dvd (q - b)" and end_ok: "q + 2 ^ k \<le> e"
  shows "q + 2 ^ (k - 1) \<in> dom blk"
proof -
  let ?m = "q + 2 ^ (k - 1)"
  have k: "k = Suc (k - 1)" using jk by simp
  have pos: "(0::nat) < 2 ^ (k - 1)" by simp
  have two: "(2::nat) ^ k = 2 ^ (k - 1) + 2 ^ (k - 1)" by (subst k) simp
  note Q = block_fitsD [OF tiledD(1) [OF t q]]
  have "covered blk ?m" using tiledD(3) [OF t, of ?m] Q(1) end_ok two pos by linarith
  then obtain r i where r: "blk r = Some i" "r \<le> ?m" "?m < r + 2 ^ i"
    by (auto simp: covered_def)
  note R = block_fitsD [OF tiledD(1) [OF t r(1)]]
  have "2 ^ (k - 1) dvd (q - b)" by (rule dvd_pow2_le [OF al]) simp
  moreover have "?m - b = (q - b) + 2 ^ (k - 1)" using Q(1) by simp
  ultimately have d: "2 ^ (k - 1) dvd (?m - b)" by simp
  have "(2::nat) ^ j \<le> 2 ^ (k - 1)" using jk by (intro power_increasing) auto
  then have qm: "q + 2 ^ j \<le> ?m" by simp
  have "r = ?m"
  proof (cases "i < k")
    case True
    then have "i \<le> k - 1" by simp
    from dyadic_nested [OF R(3) d this] r(2,3) R(1) Q(1) pos
    have "?m - b \<le> r - b" by linarith
    then show ?thesis using r(2) R(1) by linarith
  next
    case False
    then have "k \<le> i" by simp
    from dyadic_nested [OF al R(3) this] r(2,3) R(1) Q(1) two pos
    have "r - b \<le> q - b" by linarith
    then have rq: "r \<le> q" using R(1) Q(1) by linarith
    have "q < r + 2 ^ i" using r(3) pos by linarith
    then have "r = q" using tiled_unique [OF tiledD(2) [OF t] r(1) q, of q] rq by simp
    then show ?thesis using r q qm by auto
  qed
  then show ?thesis using r(1) by auto
qed

text \<open>An aligned block in the place of a buddy is not larger than the buddy.\<close>

lemma buddy_block_not_larger:
  assumes t: "tiled b e blk" and p: "blk p = Some k" and q: "blk (buddy_of b p k) = Some j"
  shows "j \<le> k"
proof (rule ccontr)
  assume "\<not> j \<le> k"
  then have kj: "Suc k \<le> j" by simp
  note P = block_fitsD [OF tiledD(1) [OF t p]] and Q = block_fitsD [OF tiledD(1) [OF t q]]
  note B = buddy_of_props [OF P(1,3)]
  have "2 ^ Suc k dvd (buddy_of b p k - b)" using Q(3) kj by (rule dvd_pow2_le)
  then have "buddy_of b (buddy_of b p k) k = buddy_of b p k + 2 ^ k" by (simp only: buddy_of_def if_True)
  then have p': "p = buddy_of b p k + 2 ^ k" by (simp only: B(3))
  then have lt: "buddy_of b p k < p" by (metis less_add_same_cancel1 zero_less_numeral zero_less_power)
  from separatedD [OF tiledD(2) [OF t] q p lt]
  have "2 ^ j \<le> (2::nat) ^ k" using p' by linarith
  then have "j \<le> k" by simp
  with kj show False by simp
qed

lemma get_buddy_unfold:
  assumes p: "bbase z \<le> p" "2 ^ k dvd (p - bbase z)"
  shows "get_buddy z p k =
    (let q = buddy_of (bbase z) p k
     in if q + 2 ^ k \<le> bend z \<or> q < p
        then if mmap_test_private z q \<and> \<not> mmap_test_used z q \<and>
                (k = 0 \<or> \<not> mmap_test_private z (q + 2 ^ (k - 1)))
             then Some q else None
        else None)"
proof -
  have l: "(p - bbase z) mod 2 ^ (k + 1) = 0 \<longleftrightarrow> 2 ^ Suc k dvd (p - bbase z)"
    by (simp add: dvd_eq_mod_eq_0)
  have o: "bbase z + (p - bbase z) = p" using p(1) by simp
  have i: "int a - int c > 0 \<longleftrightarrow> \<not> a \<le> c" for a c :: nat by auto
  have pos: "(0::nat) < 2 ^ k" by simp
  show ?thesis
  proof (cases "2 ^ Suc k dvd (p - bbase z)")
    case True
    then have q: "buddy_of (bbase z) p k = p + 2 ^ k" and "\<not> p + 2 ^ k < p"
      by (simp_all only: buddy_of_def if_True)
    with True show ?thesis unfolding get_buddy_def Let_def l o i q by simp
  next
    case False
    then have q: "buddy_of (bbase z) p k = p - 2 ^ k" by (simp only: buddy_of_def if_False)
    have "p - 2 ^ k < p"
      using buddy_of_props(4) [OF p] q by linarith
    with False show ?thesis unfolding get_buddy_def Let_def l o i q by simp
  qed
qed

lemma get_buddy_inv:
  assumes inv: "buddy_inv z blk F" and p: "blk p = Some k" and pF: "p \<in> F"
    and F: "\<And>q. q \<in> F \<Longrightarrow> q \<noteq> buddy_of (bbase z) p k"
  shows "get_buddy z p k =
    (let q = buddy_of (bbase z) p k in if q \<in> free_at z blk F k then Some q else None)"
proof -
  let ?q = "buddy_of (bbase z) p k"
  note t = buddy_invD(1) [OF inv] and P = buddy_inv_block [OF inv p]
  note B = buddy_of_props [OF P(1,3)]
  have range: "?q + 2 ^ k \<le> bend z" if "?q < p"
    using that B(6) P(4) by (simp add: min_def max_def split: if_splits)
  show ?thesis
  proof (cases "?q + 2 ^ k \<le> bend z")
    case False
    with range have "\<not> ?q < p" by blast
    moreover have "?q \<notin> free_at z blk F k"
      using False buddy_inv_block(4) [OF inv] by (auto simp: free_at_def)
    ultimately show ?thesis using False get_buddy_unfold [OF P(1,3)] by (simp add: Let_def)
  next
    case True
    have pos: "(0::nat) < 2 ^ k" by simp
    have qr: "?q < bend z" using True pos by linarith
    note head = buddy_inv_head [OF inv B(1) qr]
    have "mmap_test_private z ?q \<and> \<not> mmap_test_used z ?q \<and>
        (k = 0 \<or> \<not> mmap_test_private z (?q + 2 ^ (k - 1))) \<longleftrightarrow> ?q \<in> free_at z blk F k" (is "?L \<longleftrightarrow> ?R")
    proof
      assume L: ?L
      with head obtain j where j: "blk ?q = Some j" by auto
      have "j \<le> k" using buddy_block_not_larger [OF t p j] .
      moreover have "\<not> j < k"
      proof
        assume jk: "j < k"
        from smaller_block_middle [OF t j jk B(2) True] have "?q + 2 ^ (k - 1) \<in> dom blk" .
        then have "mmap_test_private z (?q + 2 ^ (k - 1))"
          using buddy_inv_block(6) [OF inv] by auto
        with L jk show False by simp
      qed
      ultimately have "blk ?q = Some k" using j by simp
      with L F show ?R by (auto simp: free_at_def)
    next
      assume R: ?R
      then have q: "blk ?q = Some k" "\<not> mmap_test_used z ?q" by (simp_all add: free_at_def)
      have "\<not> mmap_test_private z (?q + 2 ^ (k - 1))" if "k \<noteq> 0"
      proof
        have half: "?q < ?q + 2 ^ (k - 1)" "?q + 2 ^ (k - 1) < ?q + 2 ^ k"
          using that by (cases k; simp)+
        have mid: "?q + 2 ^ (k - 1) < bend z" using half(2) True by linarith
        assume "mmap_test_private z (?q + 2 ^ (k - 1))"
        then obtain i where "blk (?q + 2 ^ (k - 1)) = Some i"
          using buddy_inv_head(1) [OF inv, of "?q + 2 ^ (k - 1)"] B(1) mid by auto
        from separatedD [OF tiledD(2) [OF t] q(1) this half(1)] half(2) show False by linarith
      qed
      with q buddy_inv_block(6) [OF inv q(1)] show ?L by auto
    qed
    then show ?thesis using True get_buddy_unfold [OF P(1,3)] by (simp add: Let_def)
  qed
qed


subsection \<open>Merging\<close>

text \<open>The blocks handed out, by their first page.\<close>

definition allocs :: "'a buddy_scheme \<Rightarrow> (nat \<rightharpoonup> nat) \<Rightarrow> nat \<rightharpoonup> nat" where
  "allocs z blk p = (if mmap_test_used z p then blk p else None)"

lemma free_at_remove: "buddy_inv z blk F \<Longrightarrow> p \<in> F \<Longrightarrow> p \<notin> free_at z blk F k"
  by (simp add: free_at_def)

lemma mmap_used_bflags: "bflags z' = bflags z \<Longrightarrow> mmap_test_used z' q = mmap_test_used z q"
  by (simp add: mmap_test_used_def)

lemma coalesced_mono:
  assumes "coalesced z blk F" "bbase z' = bbase z"
    and sub: "\<And>k. free_at z' blk' F' k \<subseteq> free_at z blk F k"
  shows "coalesced z' blk' F'"
  unfolding coalesced_def assms(2)
proof (intro allI impI notI)
  fix k p assume "k < MAX_ORDER" "p \<in> free_at z' blk' F' k"
    "buddy_of (bbase z) p k \<in> free_at z' blk' F' k"
  then show False using assms(1) subsetD [OF sub] unfolding coalesced_def by metis
qed

lemma get_buddy_single:
  assumes inv: "buddy_inv z blk {p}" and k: "blk p = Some k"
  shows "get_buddy z p k = (if buddy_of (bbase z) p k \<in> free_at z blk {p} k
      then Some (buddy_of (bbase z) p k) else None)"
proof -
  have "q \<in> {p} \<Longrightarrow> q \<noteq> buddy_of (bbase z) p k" for q
    using buddy_of_props(4) [OF buddy_inv_block(1,3) [OF inv k]] by simp
  from get_buddy_inv [OF inv k _ this] show ?thesis by (simp add: Let_def)
qed

lemma merge_step:
  assumes inv: "buddy_inv z blk {p}" and k: "blk p = Some k" and kM: "k < MAX_ORDER"
    and q: "get_buddy z p k = Some q"
  obtains z1 z2 l blk' where "remove_from_free_area z q k = Some z1" "expand z1 p q = (l, z2)"
    "buddy_inv z2 blk' {l}" "blk' l = Some (Suc k)"
    "\<And>x. mmap_test_used z2 x = mmap_test_used z x"
    "allocs z2 blk' = allocs z blk" "bbase z2 = bbase z" "bend z2 = bend z"
    "l \<le> p" "p + 2 ^ k \<le> l + 2 ^ Suc k" "coalesced z blk {p} \<Longrightarrow> coalesced z2 blk' {l}"
proof -
  note P = buddy_inv_block [OF inv k]
  note B = buddy_of_props [OF P(1,3)]
  have q: "q = buddy_of (bbase z) p k" "q \<in> free_at z blk {p} k"
    using get_buddy_single [OF inv k] q by (simp_all split: if_splits)
  from remove_from_free_area_inv [OF inv q(2)] obtain z1 where
    z1: "remove_from_free_area z q k = Some z1" "buddy_inv z1 blk {q, p}" "bflags z1 = bflags z"
      "bbase z1 = bbase z" "bend z1 = bend z" by blast
  define l where "l = min p q"
  have max: "max p q = l + 2 ^ k" using B(6) q(1) l_def by simp
  have qk: "blk q = Some k" using q(2) by (simp add: free_at_def)
  have bs: "{p, q} = {l, l + 2 ^ k}" using max by (auto simp: l_def min_def max_def split: if_splits)
  have lk: "blk l = Some k" "blk (l + 2 ^ k) = Some k"
    using bs k qk by (auto simp: doubleton_eq_iff)
  have "2 ^ Suc k dvd (l - bbase z1)" using B(5) q(1) z1(4) by (simp only: l_def)
  moreover have "buddy_inv z1 blk {l, l + 2 ^ k}" using z1(2) bs by (simp add: insert_commute)
  ultimately have e: "expand z1 p q = (l, mmap_clear_private z1 (l + 2 ^ k))"
    "buddy_inv (mmap_clear_private z1 (l + 2 ^ k)) (blk(l + 2 ^ k := None, l \<mapsto> Suc k)) {l}"
    using expand_inv [OF _ lk _ kM bs] by blast+
  let ?z2 = "mmap_clear_private z1 (l + 2 ^ k)" and ?blk = "blk(l + 2 ^ k := None, l \<mapsto> Suc k)"
  have u: "mmap_test_used ?z2 x = mmap_test_used z x" for x
    using mmap_used_bflags [OF z1(3)] by simp
  have nu: "\<not> mmap_test_used z l" "\<not> mmap_test_used z (l + 2 ^ k)"
    using buddy_invD(4) [OF inv, of p] q(2) bs by (auto simp: doubleton_eq_iff free_at_def)
  have "allocs ?z2 ?blk = allocs z blk" using nu u by (auto simp: allocs_def fun_eq_iff)
  moreover have "free_at ?z2 ?blk {l} j \<subseteq> free_at z blk {p} j" for j
    using u bs by (auto simp: free_at_def doubleton_eq_iff split: if_splits)
  then have "coalesced z blk {p} \<Longrightarrow> coalesced ?z2 ?blk {l}"
    using coalesced_mono [of z blk "{p}" ?z2] z1(4) by simp
  moreover have "l \<le> p" by (simp add: l_def)
  moreover have "p \<le> l + 2 ^ k" using max by linarith
  then have "p + 2 ^ k \<le> l + 2 ^ Suc k" by simp
  ultimately show thesis using that [OF z1(1) e] u z1(4,5) by simp
qed

lemma merge_loop_inv:
  assumes "buddy_inv z blk {p}" "blk p = Some k"
  shows "\<exists>p' k' z' blk'. merge_loop z p k = Some (p', k', z') \<and> buddy_inv z' blk' {p'} \<and>
    blk' p' = Some k' \<and> allocs z' blk' = allocs z blk \<and>
    (\<forall>x. mmap_test_used z' x = mmap_test_used z x) \<and> bbase z' = bbase z \<and> bend z' = bend z \<and>
    p' \<le> p \<and> p + 2 ^ k \<le> p' + 2 ^ k' \<and>
    (k' < MAX_ORDER \<longrightarrow> buddy_of (bbase z') p' k' \<notin> free_at z' blk' {p'} k') \<and>
    (coalesced z blk {p} \<longrightarrow> coalesced z' blk' {p'})"
  using assms
proof (induction "MAX_ORDER - k" arbitrary: z blk p k)
  case 0
  then have "merge_loop z p k = Some (p, k, z)" "\<not> k < MAX_ORDER"
    by (simp_all add: merge_loop.simps)
  with 0 show ?case by blast
next
  case (Suc n)
  then have kM: "k < MAX_ORDER" by simp
  show ?case
  proof (cases "get_buddy z p k")
    case None
    have "buddy_of (bbase z) p k \<notin> free_at z blk {p} k"
      using get_buddy_single [OF Suc.prems] None by (simp split: if_splits)
    moreover have "merge_loop z p k = Some (p, k, z)"
      using None by (simp add: merge_loop.simps)
    ultimately show ?thesis using Suc.prems by blast
  next
    case (Some q)
    obtain z1 z2 l blk' where
      s: "remove_from_free_area z q k = Some z1" "expand z1 p q = (l, z2)"
      "buddy_inv z2 blk' {l}" "blk' l = Some (Suc k)"
      "\<And>x. mmap_test_used z2 x = mmap_test_used z x"
      "allocs z2 blk' = allocs z blk" "bbase z2 = bbase z" "bend z2 = bend z"
      "l \<le> p" "p + 2 ^ k \<le> l + 2 ^ Suc k" "coalesced z blk {p} \<Longrightarrow> coalesced z2 blk' {l}"
      by (rule merge_step [OF Suc.prems kM Some]) (rule that)
    have m: "merge_loop z p k = merge_loop z2 l (Suc k)"
      using kM Some s(1,2) by (subst merge_loop.simps) simp
    have "n = MAX_ORDER - Suc k" using Suc.hyps(2) by simp
    from Suc.hyps(1) [OF this s(3,4)] obtain p' k' z' blk'' where
      i: "merge_loop z2 l (Suc k) = Some (p', k', z')" "buddy_inv z' blk'' {p'}"
      "blk'' p' = Some k'" "allocs z' blk'' = allocs z2 blk'"
      "\<And>x. mmap_test_used z' x = mmap_test_used z2 x" "bbase z' = bbase z2" "bend z' = bend z2"
      "p' \<le> l" "l + 2 ^ Suc k \<le> p' + 2 ^ k'"
      "k' < MAX_ORDER \<Longrightarrow> buddy_of (bbase z') p' k' \<notin> free_at z' blk'' {p'} k'"
      "coalesced z2 blk' {l} \<Longrightarrow> coalesced z' blk'' {p'}" by blast
    have "p' \<le> p" "p + 2 ^ k \<le> p' + 2 ^ k'" using i(8,9) s(9,10) by linarith+
    moreover have "coalesced z blk {p} \<Longrightarrow> coalesced z' blk'' {p'}" using s(11) i(11) by blast
    ultimately show ?thesis
      using i(1-4) i(5)[unfolded s(5)] i(6,7)[unfolded s(7,8)] i(10) unfolding m s(6) by blast
  qed
qed

lemma coalesced_add:
  assumes inv: "buddy_inv z blk F" and k: "blk p = Some k" and c: "coalesced z blk (insert p F)"
    and n: "k < MAX_ORDER \<Longrightarrow> buddy_of (bbase z) p k \<notin> free_at z blk (insert p F) k"
    and pF: "p \<notin> F" "\<not> mmap_test_used z p"
  shows "coalesced z blk F"
  unfolding coalesced_def
proof (intro allI impI)
  fix j x assume j: "j < MAX_ORDER" and x: "x \<in> free_at z blk F j"
  let ?b = "buddy_of (bbase z) x j"
  have bx: "blk x = Some j" using x by (simp add: free_at_def)
  note B = buddy_of_props [OF buddy_inv_block(1,3) [OF inv bx]]
  have in_old: "y \<in> free_at z blk (insert p F) j" if "y \<in> free_at z blk F j" "y \<noteq> p" for y
    using that by (simp add: free_at_def)
  show "?b \<notin> free_at z blk F j"
  proof
    assume b: "?b \<in> free_at z blk F j"
    consider "x = p" | "?b = p" | "x \<noteq> p" "?b \<noteq> p" by blast
    then show False
    proof cases
      case 1
      then have "j = k" "?b \<noteq> p" using bx k B(4) by auto
      then show False using in_old [OF b] n j 1 by simp
    next
      case 2
      then have "j = k" using b k by (simp add: free_at_def)
      moreover have "buddy_of (bbase z) p j = x" using B(3) 2 by simp
      moreover have "x \<noteq> p" using B(4) 2 by simp
      ultimately show False using in_old [OF x] n j by simp
    next
      case 3
      then show False using in_old [OF x] in_old [OF b] c j unfolding coalesced_def by blast
    qed
  qed
qed

lemma dealloc_zone_inv:
  assumes inv: "buddy_inv z blk {}" and a: "allocs z blk p = Some k"
  obtains z' blk' where "dealloc_zone z p k = Some z'" "buddy_inv z' blk' {}"
    "allocs z' blk' = (allocs z blk)(p := None)" "bbase z' = bbase z" "bend z' = bend z"
    "coalesced z blk {} \<Longrightarrow> coalesced z' blk' {}"
proof -
  from a have u: "mmap_test_used z p" and k: "blk p = Some k"
    by (auto simp: allocs_def split: if_splits)
  let ?z = "mmap_clear_used z p"
  have i1: "buddy_inv ?z blk {p}" using clear_used_inv [OF inv _ u] k by auto
  from merge_loop_inv [OF i1 k] obtain p' k' z' blk' where
    m: "merge_loop ?z p k = Some (p', k', z')" "buddy_inv z' blk' {p'}" "blk' p' = Some k'"
      "allocs z' blk' = allocs ?z blk" "\<And>x. mmap_test_used z' x = mmap_test_used ?z x"
      "bbase z' = bbase ?z" "bend z' = bend ?z"
      "k' < MAX_ORDER \<Longrightarrow> buddy_of (bbase z') p' k' \<notin> free_at z' blk' {p'} k'"
      "coalesced ?z blk {p} \<Longrightarrow> coalesced z' blk' {p'}" by blast
  from add_to_free_area_inv [OF m(2,3)] obtain z2 where
    z2: "add_to_free_area z' p' k' = Some z2" "buddy_inv z2 blk' {}" "bflags z2 = bflags z'"
      "bbase z2 = bbase z'" "bend z2 = bend z'" by blast
  have "dealloc_zone z p k = Some z2"
    using u buddy_inv_block(2) [OF inv k] m(1) z2(1) by (simp add: dealloc_zone_def)
  moreover have "allocs z2 blk' = allocs z' blk'"
    using mmap_used_bflags [OF z2(3)] by (simp add: allocs_def fun_eq_iff)
  then have "allocs z2 blk' = (allocs z blk)(p := None)"
    unfolding m(4) by (auto simp: allocs_def fun_eq_iff)
  moreover have "coalesced z2 blk' {}" if "coalesced z blk {}"
  proof -
    have "free_at ?z blk {p} j \<subseteq> free_at z blk {} j" for j by (auto simp: free_at_def)
    with that have "coalesced ?z blk {p}"
      by (intro coalesced_mono [of z blk "{}" ?z blk "{p}"]) simp_all
    from m(9) [OF this] have "coalesced z2 blk' {p'}"
      using mmap_used_bflags [OF z2(3)] z2(4) by (simp add: coalesced_def free_at_def)
    moreover have "k' < MAX_ORDER \<Longrightarrow> buddy_of (bbase z2) p' k' \<notin> free_at z2 blk' {p'} k'"
      using m(8) mmap_used_bflags [OF z2(3)] z2(4) by (simp add: free_at_def)
    moreover have "\<not> mmap_test_used z2 p'"
      using buddy_invD(4) [OF m(2), of p'] mmap_used_bflags [OF z2(3)] by simp
    ultimately show ?thesis using coalesced_add [OF z2(2) m(3)] by simp
  qed
  ultimately show thesis using that z2(2,4,5) m(6,7) by simp
qed


subsection \<open>Splitting down to the requested order\<close>

lemma reduce_step:
  assumes inv: "buddy_inv z blk {p}" and k: "blk p = Some (Suc k)"
  obtains z' blk' where "reduce z p (Suc k) = Some (p, z')" "buddy_inv z' blk' {p}"
    "blk' p = Some k" "\<And>q. mmap_test_used z' q = mmap_test_used z q"
    "allocs z' blk' = allocs z blk" "bbase z' = bbase z" "bend z' = bend z"
    "coalesced z blk {p} \<Longrightarrow> coalesced z' blk' {p}"
proof -
  let ?q = "p + 2 ^ k" and ?blk = "blk(p \<mapsto> k, p + 2 ^ k \<mapsto> k)"
  from reduce_inv [OF inv k] obtain z' where r: "reduce z p (Suc k) = Some (p, z')"
    "buddy_inv z' ?blk {p}" "\<And>q. mmap_test_used z' q = mmap_test_used z q"
    "bbase z' = bbase z" "bend z' = bend z" by blast
  have nq: "blk ?q = None" using separated_middle [OF tiledD(2) [OF buddy_invD(1) [OF inv]] k] .
  have pq: "?q \<noteq> p" by simp
  have up: "\<not> mmap_test_used z p" using buddy_invD(4) [OF inv] by simp
  have qk: "?blk ?q = Some k" by simp
  have uq: "\<not> mmap_test_used z ?q"
    using buddy_inv_head(2) [OF inv, of ?q] nq buddy_inv_block(1) [OF inv k]
      buddy_inv_block(5) [OF r(2) qk] r(5) by auto
  have "coalesced z' ?blk {p}" if c: "coalesced z blk {p}"
  proof (rule coalesced_add [OF r(2) qk])
    have "free_at z' ?blk {?q, p} j \<subseteq> free_at z blk {p} j" for j
      using r(3) nq by (auto simp: free_at_def)
    then show "coalesced z' ?blk (insert ?q {p})" using coalesced_mono [OF c r(4)] by blast
    have "2 ^ Suc k dvd (p - bbase z')" using buddy_inv_block(3) [OF inv k] r(4) by simp
    then have "buddy_of (bbase z') p k = ?q" by (simp only: buddy_of_def if_True)
    then have "buddy_of (bbase z') ?q k = p"
      using buddy_of_props(3) [of "bbase z'" p k] buddy_inv_block(1,3) [OF r(2), of p k] by simp
    then show "buddy_of (bbase z') ?q k \<notin> free_at z' ?blk (insert ?q {p}) k"
      by (simp add: free_at_def)
    show "?q \<notin> {p}" "\<not> mmap_test_used z' ?q" using pq uq r(3) by auto
  qed
  moreover have "allocs z' ?blk = allocs z blk"
    using up uq r(3) by (auto simp: allocs_def fun_eq_iff)
  ultimately show thesis using that r pq by simp
qed

lemma reduce_to_inv:
  assumes "buddy_inv z blk {p}" "blk p = Some s" "k \<le> s"
  shows "\<exists>z' blk'. reduce_to z p s k = Some (p, z') \<and> buddy_inv z' blk' {p} \<and> blk' p = Some k \<and>
    (\<forall>q. mmap_test_used z' q = mmap_test_used z q) \<and> allocs z' blk' = allocs z blk \<and>
    bbase z' = bbase z \<and> bend z' = bend z \<and>
    (coalesced z blk {p} \<longrightarrow> coalesced z' blk' {p})"
  using assms
proof (induction s arbitrary: z blk)
  case 0
  then have "reduce_to z p 0 k = Some (p, z)" by (simp add: reduce_to.simps)
  with 0 show ?case by auto
next
  case (Suc s)
  show ?case
  proof (cases "k = Suc s")
    case True
    then have "reduce_to z p (Suc s) k = Some (p, z)" by (simp add: reduce_to.simps)
    with Suc True show ?thesis by blast
  next
    case False
    obtain z1 blk1 where r: "reduce z p (Suc s) = Some (p, z1)" "buddy_inv z1 blk1 {p}"
      "blk1 p = Some s" "\<And>q. mmap_test_used z1 q = mmap_test_used z q"
      "allocs z1 blk1 = allocs z blk" "bbase z1 = bbase z" "bend z1 = bend z"
      "coalesced z blk {p} \<Longrightarrow> coalesced z1 blk1 {p}"
      by (rule reduce_step [OF Suc.prems(1,2)]) (rule that)
    have m: "reduce_to z p (Suc s) k = reduce_to z1 p s k"
      using False r(1) by (subst reduce_to.simps) simp
    have "k \<le> s" using Suc.prems(3) False by simp
    from Suc.IH [OF r(2,3) this] show ?thesis unfolding m r(4,5,6,7) using r(8) by blast
  qed
qed

lemma alloc_search_inv:
  assumes "buddy_inv z blk {}" "k \<le> s"
  shows "(alloc_search z s k = Some (None, z) \<and> (\<forall>j\<ge>s. free_at z blk {} j = {})) \<or>
    (\<exists>p j z' blk'. alloc_search z s k = Some (Some p, z') \<and> s \<le> j \<and> p \<in> free_at z blk {} j \<and>
       (\<forall>i. s \<le> i \<longrightarrow> i < j \<longrightarrow> free_at z blk {} i = {}) \<and>
       buddy_inv z' blk' {} \<and> allocs z' blk' = (allocs z blk)(p \<mapsto> k) \<and>
       bbase z' = bbase z \<and> bend z' = bend z \<and> (coalesced z blk {} \<longrightarrow> coalesced z' blk' {}))"
  using assms
proof (induction "MAX_ORDER + 1 - s" arbitrary: s)
  case 0
  have "free_at z blk {} j = {}" if "s \<le> j" for j
    using buddy_inv_block(2) [OF 0(2)] that 0(1) by (force simp: free_at_def)
  moreover have "alloc_search z s k = Some (None, z)"
    using 0(1) by (subst alloc_search.simps) simp
  ultimately show ?case by blast
next
  case (Suc n)
  then have sM: "s \<le> MAX_ORDER" by simp
  obtain r z1 where pop: "pop_from_free_area z s = (r, z1)" by fastforce
  show ?case
  proof (cases r)
    case None
    note e = pop_None [OF Suc.prems(1) pop [unfolded None] sM]
    have m: "alloc_search z s k = alloc_search z (Suc s) k"
      using sM pop None e(1) by (subst alloc_search.simps) simp
    have step: "(\<forall>j\<ge>Suc s. P j) \<Longrightarrow> P s \<Longrightarrow> (\<forall>j\<ge>s. P j)" for P
      by (metis le_eq_less_or_eq less_eq_Suc_le)
    have step': "(\<forall>i. Suc s \<le> i \<longrightarrow> i < j \<longrightarrow> P i) \<Longrightarrow> P s \<Longrightarrow> (\<forall>i. s \<le> i \<longrightarrow> i < j \<longrightarrow> P i)" for P j
      by (metis le_eq_less_or_eq less_eq_Suc_le)
    have "n = MAX_ORDER + 1 - Suc s" "k \<le> Suc s" using Suc.hyps(2) Suc.prems(2) by simp_all
    from Suc.hyps(1) [OF this(1) Suc.prems(1) this(2)] show ?thesis
    proof
      assume "alloc_search z (Suc s) k = Some (None, z) \<and> (\<forall>j\<ge>Suc s. free_at z blk {} j = {})"
      then show ?thesis using step [of "\<lambda>j. free_at z blk {} j = {}"] e(2) m by simp
    next
      assume "\<exists>p j z' blk'. alloc_search z (Suc s) k = Some (Some p, z') \<and> Suc s \<le> j \<and>
        p \<in> free_at z blk {} j \<and> (\<forall>i. Suc s \<le> i \<longrightarrow> i < j \<longrightarrow> free_at z blk {} i = {}) \<and>
        buddy_inv z' blk' {} \<and> allocs z' blk' = (allocs z blk)(p \<mapsto> k) \<and>
        bbase z' = bbase z \<and> bend z' = bend z \<and> (coalesced z blk {} \<longrightarrow> coalesced z' blk' {})"
      then obtain p j z' blk' where h: "alloc_search z (Suc s) k = Some (Some p, z')" "Suc s \<le> j"
        "p \<in> free_at z blk {} j" "\<forall>i. Suc s \<le> i \<longrightarrow> i < j \<longrightarrow> free_at z blk {} i = {}"
        "buddy_inv z' blk' {}" "allocs z' blk' = (allocs z blk)(p \<mapsto> k)"
        "bbase z' = bbase z" "bend z' = bend z" "coalesced z blk {} \<longrightarrow> coalesced z' blk' {}"
        by blast
      have "\<forall>i. s \<le> i \<longrightarrow> i < j \<longrightarrow> free_at z blk {} i = {}"
        using step' [of j "\<lambda>j. free_at z blk {} j = {}"] e(2) h(4) by simp
      moreover have "s \<le> j" "alloc_search z s k = Some (Some p, z')" using h(1,2) m by simp_all
      ultimately show ?thesis using h(3,5-9) by blast
    qed
  next
    case (Some p)
    note e = pop_Some [OF Suc.prems(1) pop [unfolded Some] sM]
    have bp: "blk p = Some s" "\<not> mmap_test_used z p" using e(2) by (simp_all add: free_at_def)
    from reduce_to_inv [OF e(1) bp(1) Suc.prems(2)] obtain z2 blk2 where
      r: "reduce_to z1 p s k = Some (p, z2)" "buddy_inv z2 blk2 {p}" "blk2 p = Some k"
      "\<And>q. mmap_test_used z2 q = mmap_test_used z1 q" "allocs z2 blk2 = allocs z1 blk"
      "bbase z2 = bbase z1" "bend z2 = bend z1" "coalesced z1 blk {p} \<Longrightarrow> coalesced z2 blk2 {p}"
      by blast
    have a: "alloc_search z s k = Some (Some p, mmap_set_used z2 p)"
      using sM pop Some r(1) by (subst alloc_search.simps) simp
    have u: "mmap_test_used z1 q = mmap_test_used z q" for q using mmap_used_bflags [OF e(3)] .
    have "allocs (mmap_set_used z2 p) blk2 q = ((allocs z blk)(p \<mapsto> k)) q" for q
      using r(3,4,5) u unfolding allocs_def fun_eq_iff by auto
    then have "allocs (mmap_set_used z2 p) blk2 = (allocs z blk)(p \<mapsto> k)" ..
    moreover have "coalesced (mmap_set_used z2 p) blk2 {}" if c: "coalesced z blk {}"
    proof -
      have "free_at z1 blk {p} j \<subseteq> free_at z blk {} j" for j using u by (auto simp: free_at_def)
      from coalesced_mono [OF c e(4) this] have "coalesced z2 blk2 {p}" by (rule r(8))
      moreover have "free_at (mmap_set_used z2 p) blk2 {} j \<subseteq> free_at z2 blk2 {p} j" for j
        by (auto simp: free_at_def)
      ultimately show ?thesis using coalesced_mono [of z2 blk2 "{p}" "mmap_set_used z2 p"] by simp
    qed
    moreover have "buddy_inv (mmap_set_used z2 p) blk2 {}"
      using set_used_inv [of z2 blk2 p "{}"] r(2) by simp
    moreover have "\<forall>i. s \<le> i \<longrightarrow> i < s \<longrightarrow> free_at z blk {} i = {}" "s \<le> s"
      "bbase (mmap_set_used z2 p) = bbase z" "bend (mmap_set_used z2 p) = bend z"
      using e(4,5) r(6,7) by simp_all
    ultimately show ?thesis using a e(2) by blast
  qed
qed


subsection \<open>Completeness of the search\<close>

text \<open>
  In a coalesced zone an aligned run of \<open>2 ^ k\<close> free pages lies inside one free block, so the
  search fails only when there is no such run.
\<close>

definition run_free :: "'a buddy_scheme \<Rightarrow> (nat \<rightharpoonup> nat) \<Rightarrow> nat \<Rightarrow> nat \<Rightarrow> bool" where
  "run_free z blk q n \<longleftrightarrow> bbase z \<le> q \<and> q + n \<le> bend z \<and>
     (\<forall>p k. allocs z blk p = Some k \<longrightarrow> p + 2 ^ k \<le> q \<or> q + n \<le> p)"

lemma run_free_block:
  assumes inv: "buddy_inv z blk {}" and c: "coalesced z blk {}" and kM: "k \<le> MAX_ORDER"
    and al: "2 ^ k dvd (q - bbase z)" and f: "run_free z blk q (2 ^ k)"
  shows "\<exists>r j. r \<in> free_at z blk {} j \<and> k \<le> j \<and> r \<le> q \<and> q + 2 ^ k \<le> r + 2 ^ j"
  using kM al f
proof (induction k arbitrary: q)
  case 0
  then have "bbase z \<le> q" "q < bend z" by (auto simp: run_free_def)
  from tiledD(3) [OF buddy_invD(1) [OF inv] this] obtain r j where
    r: "blk r = Some j" "r \<le> q" "q < r + 2 ^ j" by (auto simp: covered_def)
  have "\<not> mmap_test_used z r"
  proof
    assume "mmap_test_used z r"
    then have "allocs z blk r = Some j" using r by (simp add: allocs_def)
    with 0(3) r(2,3) show False by (force simp: run_free_def)
  qed
  then have "r \<in> free_at z blk {} j" using r by (simp add: free_at_def)
  with r show ?case by fastforce
next
  case (Suc k)
  let ?m = "q + 2 ^ k" and ?b = "bbase z"
  have q: "?b \<le> q" "q + 2 ^ Suc k \<le> bend z" using Suc.prems(3) by (auto simp: run_free_def)
  have dq: "2 ^ k dvd (q - ?b)" using Suc.prems(2) by (rule dvd_pow2_half)
  have "?m - ?b = (q - ?b) + 2 ^ k" using q by simp
  then have dm: "2 ^ k dvd (?m - ?b)" using dq by simp
  have two: "?m + 2 ^ k = q + 2 ^ Suc k" by simp
  have fq: "run_free z blk q (2 ^ k)" and fm: "run_free z blk ?m (2 ^ k)"
    using Suc.prems(3) by (fastforce simp: run_free_def)+
  have kM: "k \<le> MAX_ORDER" using Suc.prems(1) by simp
  from Suc.IH [OF kM dq fq] obtain r i where
    r: "r \<in> free_at z blk {} i" "k \<le> i" "r \<le> q" "q + 2 ^ k \<le> r + 2 ^ i" by blast
  from Suc.IH [OF kM dm fm] obtain s j where
    s: "s \<in> free_at z blk {} j" "k \<le> j" "s \<le> ?m" "?m + 2 ^ k \<le> s + 2 ^ j" by blast
  have br: "blk r = Some i" and bs: "blk s = Some j" using r(1) s(1) by (simp_all add: free_at_def)
  note R = buddy_inv_block [OF inv br] and S = buddy_inv_block [OF inv bs]
  have pos: "(0::nat) < 2 ^ k" by simp
  have nest: "x \<le> q \<and> q + 2 ^ Suc k \<le> x + 2 ^ l"
    if "Suc k \<le> l" "?b \<le> x" "2 ^ l dvd (x - ?b)" "q < x + 2 ^ l" "x < q + 2 ^ Suc k" for x l
  proof -
    have "x - ?b \<le> q - ?b \<and> (q - ?b) + 2 ^ Suc k \<le> (x - ?b) + 2 ^ l"
      using that q(1) by (intro dyadic_nested Suc.prems(2)) linarith+
    then show ?thesis using that(2) q(1) by linarith
  qed
  consider (big_r) "Suc k \<le> i" | (big_s) "Suc k \<le> j" | (eq) "i = k" "j = k"
    using r(2) s(2) by linarith
  then show ?case
  proof cases
    case big_r
    have "q < r + 2 ^ i" "r < q + 2 ^ Suc k" using r(3,4) pos two by linarith+
    with nest [OF big_r R(1,3)] r(1) big_r show ?thesis by blast
  next
    case big_s
    have "q < s + 2 ^ j" "s < q + 2 ^ Suc k" using s(3,4) pos two by linarith+
    with nest [OF big_s S(1,3)] s(1) big_s show ?thesis by blast
  next
    case eq
    have "r = q" "s = ?m" using r(3,4) s(3,4) eq by auto
    moreover have "buddy_of ?b q k = ?m"
      using Suc.prems(2) by (simp only: buddy_of_def if_True)
    moreover have "k < MAX_ORDER" using Suc.prems(1) by simp
    ultimately show ?thesis using c r(1) s(1) eq unfolding coalesced_def by metis
  qed
qed

lemma alloc_search_complete:
  assumes "buddy_inv z blk {}" "coalesced z blk {}" "k \<le> MAX_ORDER"
    and "2 ^ k dvd (q - bbase z)" "run_free z blk q (2 ^ k)"
  shows "\<exists>p z'. alloc_search z k k = Some (Some p, z')"
proof -
  obtain r j where "r \<in> free_at z blk {} j" "k \<le> j" using run_free_block [OF assms] by blast
  then show ?thesis using alloc_search_inv [OF assms(1), of k k] by blast
qed

text \<open>The blocks handed out never overlap.\<close>

definition allocs_ok :: "nat \<Rightarrow> nat \<Rightarrow> (nat \<rightharpoonup> nat) \<Rightarrow> bool" where
  "allocs_ok b e a \<longleftrightarrow> (\<forall>p k. a p = Some k \<longrightarrow> block_fits b e p k) \<and> separated a"

lemma allocs_allocs_ok:
  assumes "buddy_inv z blk F"
  shows "allocs_ok (bbase z) (bend z) (allocs z blk)"
proof -
  note t = buddy_invD(1) [OF assms]
  have sub: "allocs z blk p = Some k \<Longrightarrow> blk p = Some k" for p k
    by (simp add: allocs_def split: if_splits)
  have "separated (allocs z blk)" unfolding separated_def
  proof (intro allI impI)
    fix p q j assume p: "allocs z blk p = Some j" and q: "q \<in> dom (allocs z blk)" and lt: "p < q"
    from q obtain k where "allocs z blk q = Some k" by blast
    from separatedD [OF tiledD(2) [OF t] sub [OF p] sub [OF this] lt] show "p + 2 ^ j \<le> q" .
  qed
  with sub tiledD(1) [OF t] show ?thesis unfolding allocs_ok_def by blast
qed


subsection \<open>The initial free lists\<close>

text \<open>A state of the building loop: the pages below \<open>p\<close> are tiled by free blocks, the rest
  are untouched, and every block below \<open>MAX_ORDER\<close> is larger than what is left to place.\<close>

definition built_to :: "'a buddy_scheme \<Rightarrow> (nat \<rightharpoonup> nat) \<Rightarrow> nat \<Rightarrow> nat \<Rightarrow> bool" where
  "built_to z blk p n \<longleftrightarrow>
     buddy_inv (z\<lparr>bend := p\<rparr>) blk {} \<and> bbase z \<le> p \<and> p + n = bend z \<and>
     (\<forall>q. p \<le> q \<longrightarrow> q < bend z \<longrightarrow> \<not> mmap_test_private z q) \<and>
     (\<forall>q. bbase z \<le> q \<longrightarrow> q < bend z \<longrightarrow> \<not> mmap_test_used z q) \<and>
     (\<forall>k. 2 ^ k \<le> n \<longrightarrow> k \<le> MAX_ORDER \<longrightarrow> 2 ^ k dvd (p - bbase z)) \<and>
     (\<forall>q k. blk q = Some k \<longrightarrow> k < MAX_ORDER \<longrightarrow> n < 2 ^ k) \<and>
     (\<forall>q r k. blk q = Some k \<longrightarrow> blk r = Some k \<longrightarrow> k < MAX_ORDER \<longrightarrow> q = r)"

lemma tiled_extend:
  assumes t: "tiled b p blk" and bp: "b \<le> p" and k: "k \<le> MAX_ORDER" and d: "2 ^ k dvd (p - b)"
  shows "tiled b (p + 2 ^ k) (blk(p \<mapsto> k))" (is "tiled b ?e ?blk")
proof -
  have fit: "block_fits b p q j" if "blk q = Some j" for q j using tiledD(1) [OF t that] .
  have end_le: "q + 2 ^ j \<le> p" "q < p" if "blk q = Some j" for q j
    using block_fitsD(4,5) [OF fit [OF that]] .
  have "block_fits b ?e q j" if "?blk q = Some j" for q j
  proof (cases "q = p")
    case True
    with that bp k d show ?thesis by (simp add: block_fits_def)
  next
    case False
    with that have "blk q = Some j" by simp
    from block_fitsD [OF fit [OF this]] show ?thesis by (simp add: block_fits_def)
  qed
  moreover have "separated ?blk" unfolding separated_def
  proof (intro allI impI)
    fix q r j assume q: "?blk q = Some j" and r: "r \<in> dom ?blk" and lt: "q < r"
    have "q \<noteq> p" using r lt end_le(2) by (auto split: if_splits) (meson less_asym)
    then have bq: "blk q = Some j" using q by simp
    show "q + 2 ^ j \<le> r"
    proof (cases "r = p")
      case True
      then show ?thesis using end_le(1) [OF bq] by simp
    next
      case False
      with r obtain i where "blk r = Some i" by auto
      from separatedD [OF tiledD(2) [OF t] bq this lt] show ?thesis .
    qed
  qed
  moreover have "covered ?blk x" if "b \<le> x" "x < ?e" for x
  proof (cases "x < p")
    case True
    from tiledD(3) [OF t that(1) this] obtain q j where q: "blk q = Some j" "q \<le> x" "x < q + 2 ^ j"
      by (auto simp: covered_def)
    with end_le(2) [OF q(1)] have "?blk q = Some j" by simp
    with q show ?thesis unfolding covered_def by blast
  next
    case False
    moreover have "?blk p = Some k" by simp
    ultimately show ?thesis using that unfolding covered_def by (meson not_less)
  qed
  ultimately show ?thesis by (simp add: tiled_def)
qed

lemma build_order_pages:
  assumes n: "0 < n" "n < 2 ^ 20" and sz: "sz = of_nat n * PAGE_SIZE"
  shows "PAGE_SIZE \<le> sz" "build_order sz \<le> MAX_ORDER" "2 ^ build_order sz \<le> n"
    "build_order sz < MAX_ORDER \<Longrightarrow> n < 2 ^ Suc (build_order sz)"
    "sz - push_bit (build_order sz) PAGE_SIZE = of_nat (n - 2 ^ build_order sz) * PAGE_SIZE"
proof -
  have u: "unat (of_nat m * PAGE_SIZE) = m * 4096" if "m < 2 ^ 20" for m
  proof -
    have "unat (of_nat m :: u32) = m" using that by (simp add: unat_of_nat take_bit_nat_eq_self_iff)
    then show ?thesis using that by (simp add: unat_word_ariths unat_PAGE_SIZE)
  qed
  have uz: "unat sz = n * 4096" using u n(2) sz by simp
  show p: "PAGE_SIZE \<le> sz" using uz n(1) by (simp add: word_le_nat_alt unat_PAGE_SIZE)
  note f = build_order_fits [OF p]
  show o: "build_order sz \<le> MAX_ORDER" by (rule f(1))
  show le: "2 ^ build_order sz \<le> n" using f(2) uz by simp
  show "n < 2 ^ Suc (build_order sz)" if "build_order sz < MAX_ORDER" using f(3) [OF that] uz by simp
  show "sz - push_bit (build_order sz) PAGE_SIZE = of_nat (n - 2 ^ build_order sz) * PAGE_SIZE"
    (is "?l = ?r")
  proof (rule word_unat_eq_iff [THEN iffD2])
    have "unat ?l = n * 4096 - 4096 * 2 ^ build_order sz"
      using f(2) unat_push_page [OF o] by (simp add: unat_sub word_le_nat_alt uz)
    also have "\<dots> = (n - 2 ^ build_order sz) * 4096" by (simp add: diff_mult_distrib)
    also have "\<dots> = unat ?r" using u [of "n - 2 ^ build_order sz"] n(2) by simp
    finally show "unat ?l = unat ?r" .
  qed
qed


lemma init_add_simps [simp]:
  "bbase (init_add_to_free_area z p k) = bbase z"
  "bend (init_add_to_free_area z p k) = bend z"
  "mmap_test_private (init_add_to_free_area z p k) q \<longleftrightarrow> q = p \<or> mmap_test_private z q"
  "mmap_test_used (init_add_to_free_area z p k) q = mmap_test_used z q"
  "bareas (init_add_to_free_area z p k) = (bareas z)(k :=
     \<lparr>fa_list = p # fa_list (bareas z k), fa_size = fa_size (bareas z k) + 1\<rparr>)"
  by (simp_all add: init_add_to_free_area_def Let_def)

lemma mmap_bend [simp]:
  "mmap_test_private (z\<lparr>bend := e\<rparr>) p = mmap_test_private z p"
  "mmap_test_used (z\<lparr>bend := e\<rparr>) p = mmap_test_used z p"
  by (simp_all add: mmap_test_private_def mmap_test_used_def)

lemma built_toD:
  assumes "built_to z blk p n"
  shows "buddy_inv (z\<lparr>bend := p\<rparr>) blk {}" "bbase z \<le> p" "p + n = bend z"
    "p \<le> q \<Longrightarrow> q < bend z \<Longrightarrow> \<not> mmap_test_private z q"
    "bbase z \<le> q \<Longrightarrow> q < bend z \<Longrightarrow> \<not> mmap_test_used z q"
    "2 ^ k \<le> n \<Longrightarrow> k \<le> MAX_ORDER \<Longrightarrow> 2 ^ k dvd (p - bbase z)"
    "blk q = Some k \<Longrightarrow> k < MAX_ORDER \<Longrightarrow> n < 2 ^ k"
    "blk q = Some k \<Longrightarrow> blk r = Some k \<Longrightarrow> k < MAX_ORDER \<Longrightarrow> q = r"
  using assms unfolding built_to_def by blast+

lemma built_to_step_inv:
  assumes b: "built_to z blk p n" and o: "k \<le> MAX_ORDER" "2 ^ k \<le> n"
  shows "buddy_inv ((init_add_to_free_area z p k)\<lparr>bend := p + 2 ^ k\<rparr>) (blk(p \<mapsto> k)) {}"
    (is "buddy_inv ?z ?blk {}")
proof -
  note B = built_toD [OF b]
  note t = buddy_invD(1) [OF B(1), simplified]
  have lt: "q < p" if "blk q = Some j" for q j
    using buddy_inv_block(5) [OF B(1) that] by simp
  have np: "blk p = None" using lt by (metis less_irrefl not_None_eq)
  have pe: "p + 2 ^ k \<le> bend z" using B(3) o(2) by linarith
  have "tiled (bbase ?z) (bend ?z) ?blk"
    using tiled_extend [OF t B(2) o(1) B(6) [OF o(2,1)]] by simp
  moreover have "heads_ok ?z ?blk" unfolding heads_ok_def
  proof (intro allI impI conjI)
    fix q assume q: "bbase ?z \<le> q" "q < bend ?z"
    then have qr: "bbase z \<le> q" "q < bend z" using pe by simp_all
    show "q \<in> dom ?blk" if "mmap_test_used ?z q" using that B(5) [OF qr] by simp
    show "mmap_test_private ?z q \<longleftrightarrow> q \<in> dom ?blk"
    proof (cases "q < p")
      case True
      then show ?thesis using buddy_inv_head(1) [OF B(1), of q] qr by simp
    next
      case False
      then have "blk q = None" using lt by (metis not_None_eq)
      then show ?thesis using False B(4) [of q] qr by auto
    qed
  qed
  moreover have "area_ok (bareas ?z j) (free_at ?z ?blk {} j)" if j: "j \<le> MAX_ORDER" for j
  proof (cases "j = k")
    case True
    have "p < bend z" using pe zero_less_power [of "2::nat" k] by linarith
    note B(5) [OF B(2) this]
    then have "free_at ?z ?blk {} j = insert p (free_at z blk {} j)"
      using True by (auto simp: free_at_def)
    moreover have "p \<notin> free_at z blk {} j" using np by (simp add: free_at_def)
    moreover have "area_ok (bareas z j) (free_at z blk {} j)"
      using buddy_invD(5) [OF B(1) j] by (simp add: free_at_def)
    ultimately show ?thesis using True area_ok_Cons by simp
  next
    case False
    then have "free_at ?z ?blk {} j = free_at z blk {} j" using np by (auto simp: free_at_def)
    then show ?thesis using buddy_invD(5) [OF B(1) j] False by (simp add: free_at_def)
  qed
  ultimately show ?thesis by (simp add: buddy_inv_def)
qed

lemma built_to_step:
  assumes b: "built_to z blk p n" and o: "k \<le> MAX_ORDER" "2 ^ k \<le> n"
    and mx: "k < MAX_ORDER \<Longrightarrow> n < 2 ^ Suc k"
  shows "built_to (init_add_to_free_area z p k) (blk(p \<mapsto> k)) (p + 2 ^ k) (n - 2 ^ k)"
proof -
  note B = built_toD [OF b]
  have rest: "n - 2 ^ k < 2 ^ k" if "k < MAX_ORDER" using mx [OF that] o(2) by simp
  have "2 ^ j dvd (p + 2 ^ k - bbase z)" if j: "2 ^ j \<le> n - 2 ^ k" "j \<le> MAX_ORDER" for j
  proof -
    have "j \<le> k"
    proof (rule ccontr)
      assume "\<not> j \<le> k"
      then have "k < MAX_ORDER" "(2::nat) ^ k \<le> 2 ^ j" using j(2) by simp_all
      with rest j(1) show False by linarith
    qed
    moreover have "2 ^ j dvd (p - bbase z)" using B(6) [of j] j by simp
    moreover have "p + 2 ^ k - bbase z = (p - bbase z) + 2 ^ k" using B(2) by simp
    ultimately show ?thesis by (simp add: le_imp_power_dvd)
  qed
  moreover have "n - 2 ^ k < 2 ^ j" if "(blk(p \<mapsto> k)) q = Some j" "j < MAX_ORDER" for q j
    using that rest B(7) [of q j] by (cases "q = p") auto
  moreover have "q = r" if "(blk(p \<mapsto> k)) q = Some j" "(blk(p \<mapsto> k)) r = Some j" "j < MAX_ORDER" for q r j
    using that o(2) B(7) [of q j] B(7) [of r j] B(8) [of q j r]
    by (cases "q = p"; cases "r = p") auto
  moreover have "buddy_inv ((init_add_to_free_area z p k)\<lparr>bend := p + 2 ^ k\<rparr>) (blk(p \<mapsto> k)) {}"
    by (rule built_to_step_inv [OF b o])
  moreover have "p + 2 ^ k + (n - 2 ^ k) = bend z" "bbase z \<le> p + 2 ^ k" using B(2,3) o(2) by linarith+
  moreover have "\<not> (q = p \<or> mmap_test_private z q)" if "p + 2 ^ k \<le> q" "q < bend z" for q
    using that B(4) [of q] zero_less_power [of "2::nat" k] by linarith
  moreover note B(5)
  ultimately show ?thesis unfolding built_to_def init_add_simps by blast
qed

lemma build_loop_built:
  assumes "built_to z blk p n" "n < 2 ^ 20" "sz = of_nat n * PAGE_SIZE"
  shows "\<exists>z' blk'. build_loop z p sz = Some z' \<and> built_to z' blk' (bend z) 0 \<and>
    bbase z' = bbase z \<and> bend z' = bend z"
  using assms
proof (induction n arbitrary: z blk p sz rule: less_induct)
  case (less n)
  show ?case
  proof (cases "n = 0")
    case True
    then have "build_loop z p sz = Some z"
      using less.prems(3) by (subst build_loop.simps) (simp add: PAGE_SIZE_val)
    moreover have "p = bend z" using built_toD(3) [OF less.prems(1)] True by simp
    ultimately show ?thesis using less.prems(1) True by blast
  next
    case False
    then have "0 < n" by simp
    note o = build_order_pages [OF this less.prems(2,3)]
    let ?k = "build_order sz"
    have st: "build_loop z p sz =
        build_loop (init_add_to_free_area z p ?k) (p + 2 ^ ?k) (of_nat (n - 2 ^ ?k) * PAGE_SIZE)"
      using o(1,5) by (subst build_loop.simps) (simp add: Let_def)
    have "n - 2 ^ ?k < n" using \<open>0 < n\<close> by simp
    from less.IH [OF this built_to_step [OF less.prems(1) o(2,3,4)] _ refl] less.prems(2)
    show ?thesis unfolding st by simp
  qed
qed

lemma built_to_end:
  assumes "built_to z blk (bend z) 0"
  shows "buddy_inv z blk {}" "coalesced z blk {}" "allocs z blk = Map.empty"
proof -
  note B = built_toD [OF assms]
  show inv: "buddy_inv z blk {}" using B(1) by simp
  show "coalesced z blk {}" unfolding coalesced_def
  proof (intro allI impI notI)
    fix k p assume k: "k < MAX_ORDER" and p: "p \<in> free_at z blk {} k"
      and q: "buddy_of (bbase z) p k \<in> free_at z blk {} k"
    from p q have bp: "blk p = Some k" "blk (buddy_of (bbase z) p k) = Some k"
      by (simp_all add: free_at_def)
    from B(8) [OF this k] buddy_of_props(4) [OF buddy_inv_block(1,3) [OF inv bp(1)]] show False by simp
  qed
  have "\<not> mmap_test_used z p" if "blk p = Some k" for p k
    using B(5) buddy_inv_block(1,5) [OF inv that] by blast
  then show "allocs z blk = Map.empty" by (fastforce simp: allocs_def fun_eq_iff)
qed

lemma fold_init_free_area:
  "bflags (fold (\<lambda>i z. init_free_area z i) is z) = bflags z"
  "bbase (fold (\<lambda>i z. init_free_area z i) is z) = bbase z"
  "bend (fold (\<lambda>i z. init_free_area z i) is z) = bend z"
  "bareas (fold (\<lambda>i z. init_free_area z i) is z) i =
     (if i \<in> set is then \<lparr>fa_list = [], fa_size = 0\<rparr> else bareas z i)"
  by (induction "is" arbitrary: z) (auto simp: init_free_area_def)

lemma build_loop_inv:
  assumes "bbase z \<le> bend z" "bend z - bbase z < 2 ^ 20"
    and fl: "\<And>p. bbase z \<le> p \<Longrightarrow> p < bend z \<Longrightarrow> \<not> mmap_test_private z p \<and> \<not> mmap_test_used z p"
    and ar: "\<And>k. k \<le> MAX_ORDER \<Longrightarrow> bareas z k = \<lparr>fa_list = [], fa_size = 0\<rparr>"
  obtains z' blk where "build_loop z (bbase z) (of_nat (bend z - bbase z) * PAGE_SIZE) = Some z'"
    "buddy_inv z' blk {}" "coalesced z' blk {}" "allocs z' blk = Map.empty" "bbase z' = bbase z" "bend z' = bend z"
proof -
  have "tiled (bbase z) (bbase z) Map.empty"
    by (simp add: tiled_def separated_def)
  then have "buddy_inv (z\<lparr>bend := bbase z\<rparr>) Map.empty {}"
    using ar by (simp add: buddy_inv_def heads_ok_def area_ok_def free_at_def)
  then have "built_to z Map.empty (bbase z) (bend z - bbase z)"
    using fl assms(1) by (simp add: built_to_def)
  from build_loop_built [OF this assms(2) refl] obtain z' blk where
    b: "build_loop z (bbase z) (of_nat (bend z - bbase z) * PAGE_SIZE) = Some z'"
      "built_to z' blk (bend z') 0" "bbase z' = bbase z" "bend z' = bend z"
    by auto
  then show thesis using that built_to_end [OF b(2)] by simp
qed

lemma build_zone_inv:
  assumes "bbase z \<le> bend z" "bend z - bbase z < 2 ^ 20"
    and fl: "\<And>p. bbase z \<le> p \<Longrightarrow> p < bend z \<Longrightarrow> \<not> mmap_test_private z p \<and> \<not> mmap_test_used z p"
  obtains z' blk where "build_zone_buddy_system z = Some z'" "buddy_inv z' blk {}"
    "coalesced z' blk {}" "allocs z' blk = Map.empty" "bbase z' = bbase z" "bend z' = bend z"
proof -
  let ?z = "fold (\<lambda>i z. init_free_area z i) [0..<MAX_ORDER + 1] z"
  note F = fold_init_free_area [of "[0..<MAX_ORDER + 1]" z]
  show thesis
  proof (rule build_loop_inv [of ?z])
    show "\<not> mmap_test_private ?z p \<and> \<not> mmap_test_used ?z p" if "bbase ?z \<le> p" "p < bend ?z" for p
      using fl [of p] that F(1,2,3) by (simp add: mmap_test_private_def mmap_test_used_def)
    show "bareas ?z k = \<lparr>fa_list = [], fa_size = 0\<rparr>" if "k \<le> MAX_ORDER" for k
      using F(4) that by simp
    show "bbase ?z \<le> bend ?z" "bend ?z - bbase ?z < 2 ^ 20" using assms(1,2) F(2,3) by simp_all
    fix z' blk
    assume b: "build_loop ?z (bbase ?z) (of_nat (bend ?z - bbase ?z) * PAGE_SIZE) = Some z'"
      "buddy_inv z' blk {}" "coalesced z' blk {}" "allocs z' blk = Map.empty" "bbase z' = bbase ?z" "bend z' = bend ?z"
    have "build_zone_buddy_system z = Some z'" using b(1) by (simp only: build_zone_buddy_system_def Let_def)
    then show thesis using that [OF _ b(2-4)] b(5,6) F(2,3) by simp
  qed
qed

end
