(* ===== verification/Page_Zones.thy ===== *)
theory Page_Zones
  imports Page_Alloc
begin

text \<open>
  The zone level of kernel/mm/page_alloc.c: the translations between physical addresses,
  pages and zones, \<open>alloc_pages\<close> and \<open>dealloc_pages\<close> over all zones of a type, the
  virtual-address interface over them, and the dump check.  \<open>zones_list\<close> is a function from
  the index of a zone, and \<open>fast_zone_entry\<close> gives for a zone type the chain of zone indices
  that \<open>zone_type_for_each\<close> walks (the theory Mm_Init builds the chains from the \<open>next\<close>
  pointers).  \<open>NULL\<close> results are \<open>None\<close> inside the outer \<open>option\<close> of panics.
\<close>

subsection \<open>State\<close>

record mm =
  zones :: "nat \<Rightarrow> mem_zone"
  fast_zone_entry :: "nat \<Rightarrow> nat list"

definition ZONE_DMA :: nat where "ZONE_DMA = 0"
definition ZONE_NORMAL :: nat where "ZONE_NORMAL = 1"
definition ZONE_HIGHMEM :: nat where "ZONE_HIGHMEM = 2"
definition NR_ZONE_TYPES :: nat where "NR_ZONE_TYPES = 3"
definition ZONE_DMA_LIMIT :: u32 where "ZONE_DMA_LIMIT = 0x1000000"
definition ZONE_NORMAL_LIMIT :: u32 where "ZONE_NORMAL_LIMIT = 0x38000000"
definition ZONE_HIGHMEM_SIZE :: u32 where "ZONE_HIGHMEM_SIZE = 0x8000000"
definition GFP_DMA :: u32 where "GFP_DMA = 1"
definition GFP_NORMAL :: u32 where "GFP_NORMAL = 2"

lemmas zone_consts = ZONE_DMA_def ZONE_NORMAL_def ZONE_HIGHMEM_def NR_ZONE_TYPES_def
  ZONE_DMA_LIMIT_def ZONE_NORMAL_LIMIT_def

text \<open>The chain walked by \<open>zone_for_each\<close> from \<open>from_zone\<close> up to \<open>to_zone\<close>.\<close>

definition zone_for_each :: "mm \<Rightarrow> nat \<Rightarrow> nat \<Rightarrow> nat list" where
  "zone_for_each m from_zone to_zone = concat (map (fast_zone_entry m) [from_zone..<to_zone])"

definition zone_all_for_each :: "mm \<Rightarrow> nat list" where
  "zone_all_for_each m = zone_for_each m ZONE_DMA NR_ZONE_TYPES"

definition set_zone :: "mm \<Rightarrow> nat \<Rightarrow> mem_zone \<Rightarrow> mm" where
  "set_zone m i z = m\<lparr>zones := (zones m)(i := z)\<rparr>"

lemma set_zone_simps [simp]:
  "zones (set_zone m i z) = (zones m)(i := z)"
  "fast_zone_entry (set_zone m i z) = fast_zone_entry m"
  "zone_for_each (set_zone m i z) = zone_for_each m"
  "zone_all_for_each (set_zone m i z) = zone_all_for_each m"
  by (simp_all add: set_zone_def zone_for_each_def zone_all_for_each_def fun_eq_iff)

lemma set_zone_id [simp]: "set_zone m i (zones m i) = m"
  by (simp add: set_zone_def)

subsection \<open>Translations\<close>

definition zone_type_of :: "u32 \<Rightarrow> nat" where
  "zone_type_of addr =
     (if addr < ZONE_DMA_LIMIT then ZONE_DMA
      else if addr < ZONE_NORMAL_LIMIT then ZONE_NORMAL
      else ZONE_HIGHMEM)"

definition in_zone :: "mem_zone \<Rightarrow> u32 \<Rightarrow> bool" where
  "in_zone z addr \<longleftrightarrow> base_addr z \<le> addr \<and> addr < base_addr z + zsize z"

definition phys_to_zone :: "mm \<Rightarrow> u32 \<Rightarrow> nat option" where
  "phys_to_zone m addr =
     (let addr = PAGE_FLOOR addr
      in List.find (\<lambda>i. in_zone (zones m i) addr) (fast_zone_entry m (zone_type_of addr)))"

definition phys_to_page :: "mm \<Rightarrow> u32 \<Rightarrow> nat option" where
  "phys_to_page m addr =
     (let addr = PAGE_FLOOR addr
      in case List.find (\<lambda>i. in_zone (zones m i) addr) (fast_zone_entry m (zone_type_of addr)) of
           None \<Rightarrow> None
         | Some i \<Rightarrow> Some (bbase (zones m i) +
             unat ((addr - base_addr (zones m i)) div PAGE_SIZE)))"

definition page_to_zone :: "mm \<Rightarrow> nat \<Rightarrow> nat option" where
  "page_to_zone m p =
     List.find (\<lambda>i. bbase (zones m i) \<le> p \<and> p < bend (zones m i)) (zone_all_for_each m)"

definition page_to_phys :: "mm \<Rightarrow> nat \<Rightarrow> u32 option" where
  "page_to_phys m p =
     do { i \<leftarrow> page_to_zone m p;
          Some (base_addr (zones m i) + of_nat (p - bbase (zones m i)) * PAGE_SIZE) }"

definition page_to_virt :: "mm \<Rightarrow> nat \<Rightarrow> u32 option" where
  "page_to_virt m p = map_option va (page_to_phys m p)"

definition virt_to_page :: "mm \<Rightarrow> u32 \<Rightarrow> nat option" where
  "virt_to_page m addr = phys_to_page m (pa addr)"

subsection \<open>Allocation and deallocation\<close>

fun alloc_in_zones :: "mm \<Rightarrow> nat list \<Rightarrow> nat \<Rightarrow> (nat option \<times> mm) option" where
  "alloc_in_zones m [] order = Some (None, m)"
| "alloc_in_zones m (i # is) order =
     do { (r, z) \<leftarrow> alloc_search (zones m i) order order;
          (case r of
             Some fetch \<Rightarrow> Some (Some fetch, set_zone m i z)
           | None \<Rightarrow> alloc_in_zones (set_zone m i z) is order) }"

definition alloc_pages :: "mm \<Rightarrow> nat \<Rightarrow> nat \<Rightarrow> (nat option \<times> mm) option" where
  "alloc_pages m zone_type order =
     do { bug_on (NR_ZONE_TYPES \<le> zone_type);
          if MAX_ORDER < order then Some (None, m)
          else alloc_in_zones m (zone_for_each m zone_type (zone_type + 1)) order }"

text \<open>
  The code tests the flag of the page before it looks the zone up; a page of no zone has no
  flags to read, so the model looks the zone up first.  Both ways a page of no zone is \<open>None\<close>.
\<close>

definition dealloc_pages :: "mm \<Rightarrow> nat \<Rightarrow> nat \<Rightarrow> mm option" where
  "dealloc_pages m p order =
     do { i \<leftarrow> page_to_zone m p;
          z \<leftarrow> dealloc_zone (zones m i) p order;
          Some (set_zone m i z) }"

definition get_free_pages :: "mm \<Rightarrow> u32 \<Rightarrow> nat \<Rightarrow> (u32 option \<times> mm) option" where
  "get_free_pages m gfp_mask order =
     do { (page, m) \<leftarrow>
            (if gfp_mask AND GFP_NORMAL \<noteq> 0 then alloc_pages m ZONE_NORMAL order
             else if gfp_mask AND GFP_DMA \<noteq> 0 then alloc_pages m ZONE_DMA order
             else Some (None, m));
          (case page of
             Some p \<Rightarrow> do { v \<leftarrow> page_to_virt m p; Some (Some v, m) }
           | None \<Rightarrow> Some (None, m)) }"

definition free_pages :: "mm \<Rightarrow> u32 \<Rightarrow> nat \<Rightarrow> mm option" where
  "free_pages m addr order = do { p \<leftarrow> virt_to_page m addr; dealloc_pages m p order }"

text \<open>The counters the dump checks: \<open>None\<close> is the failed \<open>BUG_ON\<close>, the result what it prints.\<close>

definition zone_page_alloc_dump :: "mem_zone \<Rightarrow> u32 list option" where
  "zone_page_alloc_dump z =
     fold (\<lambda>i r. do { out \<leftarrow> r;
            let count = fold (\<lambda>_ n. n + 1) (fa_list (bareas z i)) (0 :: u32);
            bug_on (fa_size (bareas z i) \<noteq> count);
            Some (out @ [count]) })
       [0..<MAX_ORDER + 1] (Some [])"

subsection \<open>Regions\<close>

text \<open>The loop of \<open>split_to\<close>, \<open>i\<close> running up to \<open>1 << from_order\<close> in steps of \<open>1 << to_order\<close>.\<close>

definition split_to :: "'a buddy_scheme \<Rightarrow> nat \<Rightarrow> nat \<Rightarrow> nat \<Rightarrow> 'a buddy_scheme option" where
  "split_to z p from_order to_order =
     do { bug_on (from_order < to_order);
          Some (fold (\<lambda>n z.
            let i = n * 2 ^ to_order;
                z = (if mmap_test_private z p then mmap_set_private z (p + i) else z)
            in if mmap_test_used z p then mmap_set_used z (p + i) else z)
            [0..<2 ^ (from_order - to_order)] z) }"

text \<open>
  The loop of \<open>dealloc_region\<close>.  Its callers have checked that the bounds are multiples of
  \<open>PAGE_SIZE\<close>; for other bounds the code's \<open>i != end\<close> would step over the end, which the model
  counts as a failure.
\<close>

function dealloc_region_loop :: "mm \<Rightarrow> u32 \<Rightarrow> u32 \<Rightarrow> mm option" where
  "dealloc_region_loop m i e =
     (if i = e then Some m
      else do { p \<leftarrow> phys_to_page m i;
                m \<leftarrow> dealloc_pages m p 0;
                if e - i < PAGE_SIZE then None else dealloc_region_loop m (i + PAGE_SIZE) e })"
  by pat_completeness auto
termination
proof (relation "measure (\<lambda>(m, i, e). unat (e - i))")
  fix i e :: u32 and m :: mm and p x
  assume "i \<noteq> e" "\<not> e - i < PAGE_SIZE"
  then have "unat (e - i - PAGE_SIZE) < unat (e - i)"
    by (simp add: not_less unat_sub word_le_nat_alt unat_PAGE_SIZE)
  then show "((x, i + PAGE_SIZE, e), m, i, e) \<in> measure (\<lambda>(m, i, e). unat (e - i))"
    by (simp add: diff_diff_add)
qed simp

declare dealloc_region_loop.simps [simp del]

definition dealloc_region :: "mm \<Rightarrow> u32 \<Rightarrow> u32 \<Rightarrow> mm option" where
  "dealloc_region m b e =
     do { bug_on (b mod PAGE_SIZE \<noteq> 0);
          bug_on (e mod PAGE_SIZE \<noteq> 0);
          bug_on (b > e);
          z \<leftarrow> phys_to_zone m b;
          bug_on (phys_to_zone m e \<noteq> Some z);
          dealloc_region_loop m b e }"

text \<open>
  The body of the two loops of \<open>alloc_region\<close> for a block of order \<open>k\<close>.  The inner loop is a
  \<open>list_for_each_safe\<close> whose body takes at most the current entry off the list, so it visits
  the entries the list has when the loop starts.  The zone is the local copy \<open>z\<close>; \<open>m\<close> is the
  state at entry, whose address fields the loop does not change.
\<close>

definition region_visit ::
    "mm \<Rightarrow> u32 \<Rightarrow> u32 \<Rightarrow> nat \<Rightarrow> nat \<Rightarrow> mem_zone \<times> u32 \<times> u32 \<Rightarrow> (mem_zone \<times> u32 \<times> u32) option" where
  "region_visit m b e k p s =
     (case s of (z, lo, hi) \<Rightarrow>
        do { phys_addr \<leftarrow> page_to_phys m p;
             let phys_addr_end = phys_addr + push_bit k PAGE_SIZE;
             if (b \<ge> phys_addr \<and> b < phys_addr_end) \<or> (phys_addr > b \<and> e > phys_addr)
             then do { z \<leftarrow> remove_from_free_area z p k;
                       z \<leftarrow> split_to (mmap_set_used z p) p k 0;
                       Some (z, if phys_addr < lo then phys_addr else lo,
                             if phys_addr_end > hi then phys_addr_end else hi) }
             else Some s })"

fun region_visits ::
    "mm \<Rightarrow> u32 \<Rightarrow> u32 \<Rightarrow> nat \<Rightarrow> nat list \<Rightarrow> mem_zone \<times> u32 \<times> u32 \<Rightarrow> (mem_zone \<times> u32 \<times> u32) option" where
  "region_visits m b e k [] s = Some s"
| "region_visits m b e k (p # ps) s =
     do { s \<leftarrow> region_visit m b e k p s; region_visits m b e k ps s }"

fun region_orders ::
    "mm \<Rightarrow> u32 \<Rightarrow> u32 \<Rightarrow> nat list \<Rightarrow> mem_zone \<times> u32 \<times> u32 \<Rightarrow> (mem_zone \<times> u32 \<times> u32) option" where
  "region_orders m b e [] s = Some s"
| "region_orders m b e (k # ks) s =
     do { s \<leftarrow> region_visits m b e k (fa_list (bareas (fst s) k)) s; region_orders m b e ks s }"

definition alloc_region :: "mm \<Rightarrow> u32 \<Rightarrow> u32 \<Rightarrow> mm option" where
  "alloc_region m b e =
     do { bug_on (b mod PAGE_SIZE \<noteq> 0);
          bug_on (e mod PAGE_SIZE \<noteq> 0);
          bug_on (b > e);
          i \<leftarrow> phys_to_zone m b;
          bug_on (phys_to_zone m e \<noteq> Some i);
          (z, lo, hi) \<leftarrow> region_orders m b e [0..<MAX_ORDER + 1] (zones m i, - 1, 0);
          m \<leftarrow> dealloc_region (set_zone m i z) lo b;
          dealloc_region m e hi }"

fun build_zones :: "mm \<Rightarrow> nat list \<Rightarrow> mm option" where
  "build_zones m [] = Some m"
| "build_zones m (i # is) =
     do { z \<leftarrow> build_zone_buddy_system (zones m i); build_zones (set_zone m i z) is }"

text \<open>\<open>load\<close> and \<open>pgt_end\<close> are the linker symbol \<open>__load\<close> and the variable \<open>__kernel_pgt_end\<close>.\<close>

definition page_alloc_init :: "mm \<Rightarrow> u32 \<Rightarrow> u32 \<Rightarrow> mm option" where
  "page_alloc_init m load pgt_end =
     do { m \<leftarrow> build_zones m (zone_all_for_each m);
          alloc_region m (PAGE_FLOOR (pa load)) (PAGE_CEIL (pa pgt_end)) }"

end
