(* ===== verification/Alloc_Interface.thy ===== *)
theory Alloc_Interface
  imports Tiling
begin

text \<open>
  The contract of a page allocator, shared by kernel/mm/page_alloc.c and
  kernel/mm/highmem.c: a state represents the map of the blocks it has handed out; \<open>alloc\<close>
  adds a fresh block of the order asked for or changes nothing, \<open>dealloc\<close> of a block that
  is out removes it, and neither panics.  The lemmas are about any sequence of such calls.
\<close>

definition blocks_disjoint :: "(nat \<rightharpoonup> nat) \<Rightarrow> bool" where
  "blocks_disjoint a \<longleftrightarrow>
     (\<forall>p q j k. a p = Some j \<longrightarrow> a q = Some k \<longrightarrow> p \<noteq> q \<longrightarrow> {p..<p + 2 ^ j} \<inter> {q..<q + 2 ^ k} = {})"

lemma separated_blocks_disjoint:
  assumes s: "separated a" shows "blocks_disjoint a"
  unfolding blocks_disjoint_def
proof (intro allI impI)
  fix p q j k assume p: "a p = Some j" and q: "a q = Some k" and "p \<noteq> q"
  then consider "p < q" | "q < p" by linarith
  then show "{p..<p + 2 ^ j} \<inter> {q..<q + 2 ^ k} = {}"
    using separatedD [OF s p q] separatedD [OF s q p] by cases auto
qed

datatype request = Alloc nat | Free nat nat

text \<open>A client: it allocates at any time and frees blocks it holds (the map \<open>a\<close>), each once.\<close>

fun serve :: "('s \<Rightarrow> nat \<Rightarrow> (nat option \<times> 's) option) \<Rightarrow> ('s \<Rightarrow> nat \<Rightarrow> nat \<Rightarrow> 's option) \<Rightarrow>
    's \<Rightarrow> (nat \<rightharpoonup> nat) \<Rightarrow> request list \<Rightarrow> ('s \<times> (nat \<rightharpoonup> nat)) option" where
  "serve alloc dealloc s a [] = Some (s, a)"
| "serve alloc dealloc s a (Alloc k # rs) =
     do { (r, s) \<leftarrow> alloc s k;
          serve alloc dealloc s (case r of None \<Rightarrow> a | Some p \<Rightarrow> a(p \<mapsto> k)) rs }"
| "serve alloc dealloc s a (Free p k # rs) =
     (if a p = Some k
      then do { s \<leftarrow> dealloc s p k; serve alloc dealloc s (a(p := None)) rs }
      else serve alloc dealloc s a rs)"

locale page_allocator =
  fixes rel :: "'s \<Rightarrow> (nat \<rightharpoonup> nat) \<Rightarrow> bool"
    and alloc :: "'s \<Rightarrow> nat \<Rightarrow> (nat option \<times> 's) option"
    and dealloc :: "'s \<Rightarrow> nat \<Rightarrow> nat \<Rightarrow> 's option"
  assumes rel_separated: "rel s a \<Longrightarrow> separated a"
    and alloc_total: "rel s a \<Longrightarrow> \<exists>r s'. alloc s k = Some (r, s')"
    and alloc_none: "rel s a \<Longrightarrow> alloc s k = Some (None, s') \<Longrightarrow> s' = s"
    and alloc_some: "rel s a \<Longrightarrow> alloc s k = Some (Some p, s') \<Longrightarrow>
      a p = None \<and> rel s' (a(p \<mapsto> k))"
    and dealloc_ok: "rel s a \<Longrightarrow> a p = Some k \<Longrightarrow> \<exists>s'. dealloc s p k = Some s' \<and> rel s' (a(p := None))"
begin

lemma rel_disjoint: "rel s a \<Longrightarrow> blocks_disjoint a"
  by (rule separated_blocks_disjoint) (rule rel_separated)

text \<open>A fresh block overlaps none of those already out.\<close>

lemma alloc_fresh:
  assumes "rel s a" "alloc s k = Some (Some p, s')" "a q = Some j"
  shows "{p..<p + 2 ^ k} \<inter> {q..<q + 2 ^ j} = {}"
proof -
  note n = alloc_some [OF assms(1,2)]
  then have "q \<noteq> p" using assms(3) by auto
  with assms(3) rel_disjoint [OF conjunct2 [OF n]] show ?thesis
    unfolding blocks_disjoint_def by (metis fun_upd_apply)
qed

lemma alloc_dealloc:
  assumes "rel s a" "alloc s k = Some (Some p, s')"
  shows "\<exists>s''. dealloc s' p k = Some s'' \<and> rel s'' a"
proof -
  note n = alloc_some [OF assms]
  then have "(a(p \<mapsto> k))(p := None) = a" by auto
  with dealloc_ok [OF conjunct2 [OF n], of p k] show ?thesis by simp
qed

lemma serve_rel: "rel s a \<Longrightarrow> \<exists>s' a'. serve alloc dealloc s a rs = Some (s', a') \<and> rel s' a'"
proof (induction rs arbitrary: s a)
  case Nil
  then show ?case by simp
next
  case (Cons r rs)
  show ?case
  proof (cases r)
    case (Alloc k)
    from alloc_total [OF Cons.prems] obtain x s1 where x: "alloc s k = Some (x, s1)" by blast
    have "rel s1 (case x of None \<Rightarrow> a | Some p \<Rightarrow> a(p \<mapsto> k))"
      using alloc_none [OF Cons.prems] alloc_some [OF Cons.prems] x Cons.prems
      by (cases x) auto
    from Cons.IH [OF this] show ?thesis using Alloc x by simp
  next
    case (Free p k)
    then show ?thesis using dealloc_ok [OF Cons.prems, of p k] Cons by auto
  qed
qed

end

end
