(* ===== verification/Zone_Inv.thy ===== *)
theory Zone_Inv
  imports Page_Zones Alloc_Interface
begin

text \<open>
  The invariant of the zone level and the refinement of kernel/mm/page_alloc.c: the state
  represents a map from the first page of every block handed out to its order
  (\<open>mm_rel\<close>); the translations between pages and physical addresses invert each other,
  \<open>alloc_pages\<close> adds a block that overlaps no other, \<open>dealloc_pages\<close> removes it again.
\<close>

subsection \<open>Page-aligned addresses\<close>

lemma unat_PAGE_FLOOR: "unat (PAGE_FLOOR a) = unat a div 4096 * 4096"
proof -
  have "PAGE_FLOOR a = push_bit 12 (drop_bit 12 a)"
    by (rule bit_word_eqI) (auto simp: bit_simps)
  moreover have "unat (drop_bit 12 a) = unat a div 4096"
    by (simp add: unat_drop_bit_eq drop_bit_nat_def)
  moreover have "unat a div 4096 * 4096 < 2 ^ 32"
    using order.strict_trans1 [OF div_times_less_eq_dividend [of "unat a" 4096] unsigned_less [of a]]
    by simp
  ultimately show ?thesis
    by (simp only: unsigned_push_bit_eq)
      (simp add: push_bit_eq_mult take_bit_nat_eq_self_iff)
qed

lemma unat_page_addr:
  assumes "unat a + n * 4096 < 2 ^ 32"
  shows "unat (a + of_nat n * PAGE_SIZE) = unat a + n * 4096"
proof -
  have "unat (of_nat n :: u32) = n"
    using assms by (simp add: unat_of_nat take_bit_nat_eq_self_iff)
  then have "unat (of_nat n * PAGE_SIZE) = n * 4096"
    using assms by (simp add: unat_word_ariths unat_PAGE_SIZE)
  then show ?thesis using assms by (simp add: unat_word_ariths)
qed

lemma find_SomeD:
  assumes "List.find P xs = Some x"
  shows "x \<in> set xs" "P x"
  using assms by (induction xs) (auto split: if_splits)

lemma find_eq_Some:
  assumes "x \<in> set xs" "P x" and u: "\<And>y. y \<in> set xs \<Longrightarrow> P y \<Longrightarrow> y = x"
  shows "List.find P xs = Some x"
proof (cases "List.find P xs")
  case None
  with assms(1,2) show ?thesis by (simp add: find_None_iff)
next
  case (Some y)
  with u [OF find_SomeD [OF Some]] show ?thesis by simp
qed

subsection \<open>The operations of a zone keep its place\<close>

definition same_place :: "mem_zone \<Rightarrow> mem_zone \<Rightarrow> bool" where
  "same_place z z' \<longleftrightarrow> bbase z' = bbase z \<and> bend z' = bend z \<and>
     base_addr z' = base_addr z \<and> zsize z' = zsize z"

lemma more_place:
  assumes "buddy.more z' = buddy.more (z :: mem_zone)"
  shows "base_addr z' = base_addr z" "zsize z' = zsize z"
  using assms by (cases z; cases z'; simp)+

lemma mmap_more [simp]:
  "buddy.more (mmap_set_private z p) = buddy.more z" "buddy.more (mmap_clear_private z p) = buddy.more z"
  "buddy.more (mmap_set_used z p) = buddy.more z" "buddy.more (mmap_clear_used z p) = buddy.more z"
  by (simp_all add: mmap_set_private_def mmap_clear_private_def mmap_set_used_def mmap_clear_used_def)

lemma add_to_free_area_more: "add_to_free_area z p k = Some z' \<Longrightarrow> buddy.more z' = buddy.more z"
  by (auto simp: add_to_free_area_def Let_def bug_on_def split: if_splits)

lemma pop_more: "pop_from_free_area z k = (r, z') \<Longrightarrow> buddy.more z' = buddy.more z"
  by (auto simp: pop_from_free_area_def Let_def split: list.splits)

lemma remove_more: "remove_from_free_area z p k = Some z' \<Longrightarrow> buddy.more z' = buddy.more z"
  by (auto simp: remove_from_free_area_def Let_def split: if_splits)

lemma expand_more: "expand z p q = (l, z') \<Longrightarrow> buddy.more z' = buddy.more z"
  by (auto simp: expand_def Let_def split: if_splits)

lemma reduce_more: "reduce z p k = Some (q, z') \<Longrightarrow> buddy.more z' = buddy.more z"
  by (auto simp: reduce_def bug_on_def Let_def split: if_splits bind_splits dest!: add_to_free_area_more)

lemma reduce_to_more: "reduce_to z p s k = Some (q, z') \<Longrightarrow> buddy.more z' = buddy.more z"
proof (induction s arbitrary: z p)
  case 0
  then show ?case by (subst (asm) reduce_to.simps) (auto split: if_splits bind_splits dest: reduce_more)
next
  case (Suc s)
  show ?case
  proof (cases "Suc s = k")
    case True
    with Suc.prems show ?thesis by (simp add: reduce_to.simps)
  next
    case False
    then obtain p1 z1 where "reduce z p (Suc s) = Some (p1, z1)" "reduce_to z1 p1 s k = Some (q, z')"
      using Suc.prems by (subst (asm) reduce_to.simps) (auto split: bind_splits)
    with Suc.IH show ?thesis by (auto dest: reduce_more)
  qed
qed

lemma alloc_search_more: "alloc_search z s k = Some (r, z') \<Longrightarrow> buddy.more z' = buddy.more z"
proof (induction z s k rule: alloc_search.induct)
  case (1 z s k)
  show ?case
  proof (cases "MAX_ORDER < s")
    case True
    with "1.prems" show ?thesis by (simp add: alloc_search.simps)
  next
    case False
    obtain f z1 where pop: "pop_from_free_area z s = (f, z1)" by fastforce
    show ?thesis
    proof (cases f)
      case None
      then have "alloc_search z1 (s + 1) k = Some (r, z')"
        using "1.prems" False pop by (subst (asm) alloc_search.simps) simp
      then show ?thesis using "1.IH" [OF False pop [symmetric] None] pop_more [OF pop] by simp
    next
      case (Some p)
      then show ?thesis using "1.prems" False pop pop_more [OF pop]
        by (subst (asm) alloc_search.simps) (auto split: bind_splits dest!: reduce_to_more)
    qed
  qed
qed

lemma merge_loop_more: "merge_loop z p k = Some (p', k', z') \<Longrightarrow> buddy.more z' = buddy.more z"
proof (induction z p k rule: merge_loop.induct)
  case (1 z p k)
  show ?case
  proof (cases "MAX_ORDER \<le> k \<or> get_buddy z p k = None")
    case True
    with "1.prems" show ?thesis by (subst (asm) merge_loop.simps) (auto split: if_splits)
  next
    case False
    then obtain q where q: "get_buddy z p k = Some q" by auto
    from False "1.prems" q obtain z1 where z1: "remove_from_free_area z q k = Some z1"
      by (subst (asm) merge_loop.simps) (auto split: bind_splits)
    obtain l z2 where e: "expand z1 p q = (l, z2)" by fastforce
    have "merge_loop z2 l (k + 1) = Some (p', k', z')"
      using "1.prems" False q z1 e by (subst (asm) merge_loop.simps) simp
    then have "buddy.more z' = buddy.more z2"
      using False by (intro "1.IH" [OF _ q z1 e [symmetric]]) auto
    then show ?thesis using remove_more [OF z1] expand_more [OF e] by simp
  qed
qed

lemma dealloc_zone_more: "dealloc_zone z p k = Some z' \<Longrightarrow> buddy.more z' = buddy.more z"
  by (auto simp: dealloc_zone_def bug_on_def split: if_splits bind_splits
      dest!: merge_loop_more add_to_free_area_more)

lemma init_add_more: "buddy.more (init_add_to_free_area z p k) = buddy.more z"
  by (simp add: init_add_to_free_area_def Let_def)

lemma build_loop_more: "build_loop z p sz = Some z' \<Longrightarrow> buddy.more z' = buddy.more z"
proof (induction z p sz rule: build_loop.induct)
  case (1 z p sz)
  show ?case
  proof (cases "PAGE_SIZE \<le> sz")
    case True
    then have "build_loop z p sz = build_loop (init_add_to_free_area z p (build_order sz))
        (p + 2 ^ build_order sz) (sz - push_bit (build_order sz) PAGE_SIZE)"
      by (subst build_loop.simps) (simp add: Let_def)
    with "1.prems" "1.IH" [OF True refl] show ?thesis by (simp add: init_add_more)
  next
    case False
    with "1.prems" show ?thesis
      by (subst (asm) build_loop.simps) (auto simp: bug_on_def split: if_splits)
  qed
qed

subsection \<open>The layout of the zones\<close>

definition zone_ok :: "nat \<Rightarrow> mem_zone \<Rightarrow> bool" where
  "zone_ok t z \<longleftrightarrow> bbase z < bend z \<and> 4096 dvd unat (base_addr z) \<and>
     unat (zsize z) = (bend z - bbase z) * 4096 \<and>
     unat (base_addr z) + unat (zsize z) < 2 ^ 32 \<and>
     (t = ZONE_DMA \<longrightarrow> unat (base_addr z) + unat (zsize z) \<le> unat ZONE_DMA_LIMIT) \<and>
     (t = ZONE_NORMAL \<longrightarrow> ZONE_DMA_LIMIT \<le> base_addr z \<and>
        unat (base_addr z) + unat (zsize z) \<le> unat ZONE_NORMAL_LIMIT) \<and>
     (t = ZONE_HIGHMEM \<longrightarrow> ZONE_NORMAL_LIMIT \<le> base_addr z)"

definition zones_apart :: "mem_zone \<Rightarrow> mem_zone \<Rightarrow> bool" where
  "zones_apart z z' \<longleftrightarrow>
     (bend z \<le> bbase z' \<or> bend z' \<le> bbase z) \<and>
     (unat (base_addr z) + unat (zsize z) \<le> unat (base_addr z') \<or>
      unat (base_addr z') + unat (zsize z') \<le> unat (base_addr z))"

definition layout_ok :: "mm \<Rightarrow> bool" where
  "layout_ok m \<longleftrightarrow> distinct (zone_all_for_each m) \<and>
     (\<forall>t<NR_ZONE_TYPES. \<forall>i\<in>set (fast_zone_entry m t). zone_ok t (zones m i)) \<and>
     (\<forall>i\<in>set (zone_all_for_each m). \<forall>j\<in>set (zone_all_for_each m).
        i \<noteq> j \<longrightarrow> zones_apart (zones m i) (zones m j))"

lemma set_zone_all:
  "i \<in> set (zone_all_for_each m) \<longleftrightarrow> (\<exists>t<NR_ZONE_TYPES. i \<in> set (fast_zone_entry m t))"
  by (force simp: zone_all_for_each_def zone_for_each_def ZONE_DMA_def)

lemma layout_okD:
  assumes "layout_ok m"
  shows "t < NR_ZONE_TYPES \<Longrightarrow> i \<in> set (fast_zone_entry m t) \<Longrightarrow> zone_ok t (zones m i)"
    "i \<in> set (zone_all_for_each m) \<Longrightarrow> j \<in> set (zone_all_for_each m) \<Longrightarrow> i \<noteq> j \<Longrightarrow>
      zones_apart (zones m i) (zones m j)"
    "distinct (zone_all_for_each m)"
  using assms by (auto simp: layout_ok_def)

lemma same_place_set_zone:
  assumes "same_place (zones m i) z"
  shows "layout_ok (set_zone m i z) = layout_ok m"
    "page_to_zone (set_zone m i z) = page_to_zone m"
    "page_to_phys (set_zone m i z) = page_to_phys m"
    "phys_to_zone (set_zone m i z) = phys_to_zone m"
    "phys_to_page (set_zone m i z) = phys_to_page m"
proof -
  let ?m = "set_zone m i z"
  have p: "bbase (zones ?m j) = bbase (zones m j)" "bend (zones ?m j) = bend (zones m j)"
    "base_addr (zones ?m j) = base_addr (zones m j)" "zsize (zones ?m j) = zsize (zones m j)" for j
    using assms by (auto simp: same_place_def)
  show "layout_ok ?m = layout_ok m"
    unfolding layout_ok_def zone_ok_def zones_apart_def p by simp
  show z: "page_to_zone ?m = page_to_zone m"
    unfolding page_to_zone_def p by (simp add: fun_eq_iff)
  show "page_to_phys ?m = page_to_phys m"
    unfolding page_to_phys_def p z by (simp add: fun_eq_iff)
  show "phys_to_zone ?m = phys_to_zone m" "phys_to_page ?m = phys_to_page m"
    unfolding phys_to_zone_def phys_to_page_def in_zone_def p by (simp_all add: fun_eq_iff)
qed

lemma zone_ok_words:
  assumes "zone_ok t z"
  shows "in_zone z a \<longleftrightarrow> unat (base_addr z) \<le> unat a \<and> unat a < unat (base_addr z) + unat (zsize z)"
proof -
  have "unat (base_addr z + zsize z) = unat (base_addr z) + unat (zsize z)"
    using assms by (simp add: zone_ok_def unat_word_ariths)
  then show ?thesis by (simp add: in_zone_def word_le_nat_alt word_less_nat_alt)
qed

lemma zone_ok_type:
  assumes z: "zone_ok t z" and t: "t < NR_ZONE_TYPES"
    and a: "unat (base_addr z) \<le> unat a" "unat a < unat (base_addr z) + unat (zsize z)"
  shows "zone_type_of a = t"
proof -
  from t consider "t = 0" | "t = 1" | "t = 2" unfolding NR_ZONE_TYPES_def by linarith
  then show ?thesis
    using z a by cases (auto simp: zone_ok_def zone_type_of_def zone_consts
        word_less_nat_alt word_le_nat_alt)
qed

lemma page_to_zone_eq:
  assumes l: "layout_ok m" and i: "i \<in> set (zone_all_for_each m)"
    and p: "bbase (zones m i) \<le> p" "p < bend (zones m i)"
  shows "page_to_zone m p = Some i"
  unfolding page_to_zone_def
proof (rule find_eq_Some)
  fix j assume j: "j \<in> set (zone_all_for_each m)" "bbase (zones m j) \<le> p \<and> p < bend (zones m j)"
  show "j = i"
  proof (rule ccontr)
    assume "j \<noteq> i"
    from layout_okD(2) [OF l j(1) i this] j(2) p show False by (auto simp: zones_apart_def)
  qed
qed (use i p in auto)

lemma page_to_zoneD:
  assumes "page_to_zone m p = Some i"
  shows "i \<in> set (zone_all_for_each m)" "bbase (zones m i) \<le> p" "p < bend (zones m i)"
  using find_SomeD [OF assms [unfolded page_to_zone_def]] by auto

lemma zone_lookup:
  assumes l: "layout_ok m" and t: "t < NR_ZONE_TYPES" and i: "i \<in> set (fast_zone_entry m t)"
    and a: "unat (base_addr (zones m i)) \<le> unat a"
      "unat a < unat (base_addr (zones m i)) + unat (zsize (zones m i))"
  shows "List.find (\<lambda>i. in_zone (zones m i) (PAGE_FLOOR a))
      (fast_zone_entry m (zone_type_of (PAGE_FLOOR a))) = Some i"
proof -
  note z = layout_okD(1) [OF l t i]
  have dv: "4096 dvd unat (base_addr (zones m i))" "4096 dvd unat (base_addr (zones m i)) + unat (zsize (zones m i))"
    using z by (auto simp: zone_ok_def)
  have f: "unat (base_addr (zones m i)) \<le> unat (PAGE_FLOOR a)"
    "unat (PAGE_FLOOR a) < unat (base_addr (zones m i)) + unat (zsize (zones m i))"
    using a dv(1) unfolding unat_PAGE_FLOOR by (auto simp: dvd_def)
  have ty: "zone_type_of (PAGE_FLOOR a) = t" using zone_ok_type [OF z t f] .
  show ?thesis unfolding ty
  proof (rule find_eq_Some)
    show "in_zone (zones m i) (PAGE_FLOOR a)" using zone_ok_words [OF z] f by simp
    fix j assume j: "j \<in> set (fast_zone_entry m t)" and jz: "in_zone (zones m j) (PAGE_FLOOR a)"
    show "j = i"
    proof (rule ccontr)
      assume "j \<noteq> i"
      with i j t have "zones_apart (zones m i) (zones m j)"
        by (intro layout_okD(2) [OF l]) (auto simp: set_zone_all)
      with jz zone_ok_words [OF layout_okD(1) [OF l t j]] f show False by (auto simp: zones_apart_def)
    qed
  qed (rule i)
qed

lemma page_phys:
  assumes l: "layout_ok m" and i: "i \<in> set (zone_all_for_each m)"
    and p: "bbase (zones m i) \<le> p" "p < bend (zones m i)"
  obtains a where "page_to_phys m p = Some a"
    "unat a = unat (base_addr (zones m i)) + (p - bbase (zones m i)) * 4096"
    "phys_to_zone m a = Some i" "phys_to_page m a = Some p" "PAGE_FLOOR a = a"
proof -
  from i obtain t where t: "t < NR_ZONE_TYPES" "i \<in> set (fast_zone_entry m t)"
    by (auto simp: set_zone_all)
  let ?z = "zones m i" and ?n = "p - bbase (zones m i)"
  note z = layout_okD(1) [OF l t]
  have n: "?n < bend ?z - bbase ?z" using p by simp
  then have top: "unat (base_addr ?z) + ?n * 4096 < unat (base_addr ?z) + unat (zsize ?z)"
    using z by (simp add: zone_ok_def)
  let ?a = "base_addr ?z + of_nat ?n * PAGE_SIZE"
  have ua: "unat ?a = unat (base_addr ?z) + ?n * 4096"
    using z top by (intro unat_page_addr) (auto simp: zone_ok_def)
  have fa: "PAGE_FLOOR ?a = ?a"
  proof (rule word_unat_eq_iff [THEN iffD2])
    have "4096 dvd unat ?a" unfolding ua using z by (auto simp: zone_ok_def)
    then show "unat (PAGE_FLOOR ?a) = unat ?a" unfolding unat_PAGE_FLOOR by simp
  qed
  note lk = zone_lookup [OF l t, of ?a, unfolded ua fa, OF le_add1 top]
  have "(?a - base_addr ?z) div PAGE_SIZE = of_nat ?n * PAGE_SIZE div PAGE_SIZE" by simp
  moreover have "unat (of_nat ?n * PAGE_SIZE) = ?n * 4096"
    using unat_page_addr [of 0 ?n] ua z top by (simp add: zone_ok_def)
  ultimately have "unat ((?a - base_addr ?z) div PAGE_SIZE) = ?n"
    by (simp add: unat_div_distrib unat_PAGE_SIZE)
  then have "phys_to_page m ?a = Some p"
    using lk p(1) fa by (simp add: phys_to_page_def)
  moreover have "phys_to_zone m ?a = Some i" using lk fa by (simp add: phys_to_zone_def)
  moreover have "page_to_phys m p = Some ?a"
    using page_to_zone_eq [OF l i p] by (simp add: page_to_phys_def)
  ultimately show thesis using that ua fa by blast
qed

lemma phys_to_page_inverse:
  assumes l: "layout_ok m" and a: "phys_to_page m a = Some p"
  shows "page_to_phys m p = Some (PAGE_FLOOR a)"
proof -
  let ?f = "PAGE_FLOOR a" and ?t = "zone_type_of (PAGE_FLOOR a)"
  have t: "?t < NR_ZONE_TYPES" by (simp add: zone_type_of_def zone_consts)
  from a obtain i where i: "List.find (\<lambda>i. in_zone (zones m i) ?f) (fast_zone_entry m ?t) = Some i"
    and p: "p = bbase (zones m i) + unat ((?f - base_addr (zones m i)) div PAGE_SIZE)"
    by (auto simp: phys_to_page_def Let_def split: option.splits)
  let ?z = "zones m i"
  note im = find_SomeD(1) [OF i] and iz = find_SomeD(2) [OF i]
  note z = layout_okD(1) [OF l t im]
  note r = zone_ok_words [OF z, THEN iffD1, OF iz]
  have u: "unat (?f - base_addr ?z) = unat ?f - unat (base_addr ?z)"
    using r by (simp add: unat_sub word_le_nat_alt)
  have d: "4096 dvd unat ?f - unat (base_addr ?z)"
    using z unat_PAGE_FLOOR [of a] by (intro dvd_diff_nat) (auto simp: zone_ok_def)
  define n where "n = unat ((?f - base_addr ?z) div PAGE_SIZE)"
  have n: "n * 4096 = unat ?f - unat (base_addr ?z)"
    using d by (simp add: n_def unat_div_distrib unat_PAGE_SIZE u)
  moreover have "unat (zsize ?z) = (bend ?z - bbase ?z) * 4096" using z by (simp add: zone_ok_def)
  ultimately have "n < bend ?z - bbase ?z" using r by linarith
  then have rng: "bbase ?z \<le> p" "p < bend ?z" "p - bbase ?z = n" using p by (simp_all add: n_def)
  have iall: "i \<in> set (zone_all_for_each m)" using im t by (auto simp: set_zone_all)
  from page_phys [OF l iall rng(1,2)] obtain a' where a': "page_to_phys m p = Some a'"
    "unat a' = unat (base_addr ?z) + n * 4096" using rng(3) by metis
  then have "unat a' = unat ?f" using n r by simp
  then have "a' = ?f" by (rule word_unat_eq_iff [THEN iffD2])
  with a' show ?thesis by simp
qed


subsection \<open>The map of blocks handed out\<close>

definition mm_inv :: "mm \<Rightarrow> (nat \<Rightarrow> nat \<rightharpoonup> nat) \<Rightarrow> bool" where
  "mm_inv m blk \<longleftrightarrow> layout_ok m \<and>
     (\<forall>i\<in>set (zone_all_for_each m).
        buddy_inv (zones m i) (blk i) {} \<and> coalesced (zones m i) (blk i) {})"

definition mm_allocs :: "mm \<Rightarrow> (nat \<Rightarrow> nat \<rightharpoonup> nat) \<Rightarrow> nat \<rightharpoonup> nat" where
  "mm_allocs m blk p =
     (case page_to_zone m p of None \<Rightarrow> None | Some i \<Rightarrow> allocs (zones m i) (blk i) p)"

definition mm_rel :: "mm \<Rightarrow> (nat \<rightharpoonup> nat) \<Rightarrow> bool" where
  "mm_rel m a \<longleftrightarrow> (\<exists>blk. mm_inv m blk \<and> a = mm_allocs m blk)"

lemma mm_invD:
  assumes "mm_inv m blk"
  shows "layout_ok m" "i \<in> set (zone_all_for_each m) \<Longrightarrow> buddy_inv (zones m i) (blk i) {}"
    "i \<in> set (zone_all_for_each m) \<Longrightarrow> coalesced (zones m i) (blk i) {}"
  using assms by (auto simp: mm_inv_def)

lemma allocs_block:
  assumes "buddy_inv z blk F" "allocs z blk p = Some k"
  shows "block_fits (bbase z) (bend z) p k" "bbase z \<le> p" "p < bend z"
proof -
  show f: "block_fits (bbase z) (bend z) p k"
    using allocs_allocs_ok [OF assms(1)] assms(2) by (simp add: allocs_ok_def)
  show "bbase z \<le> p" "p < bend z" using block_fitsD [OF f] by simp_all
qed

lemma mm_allocs_zone:
  assumes inv: "mm_inv m blk" and i: "i \<in> set (zone_all_for_each m)"
  shows "allocs (zones m i) (blk i) p = Some k \<Longrightarrow> mm_allocs m blk p = Some k"
    "bbase (zones m i) \<le> p \<Longrightarrow> p < bend (zones m i) \<Longrightarrow>
      mm_allocs m blk p = allocs (zones m i) (blk i) p"
  using page_to_zone_eq [OF mm_invD(1) [OF inv] i] allocs_block [OF mm_invD(2) [OF inv i]]
  by (auto simp: mm_allocs_def)

lemma mm_allocsD:
  assumes "mm_allocs m blk p = Some k"
  obtains i where "page_to_zone m p = Some i" "i \<in> set (zone_all_for_each m)"
    "allocs (zones m i) (blk i) p = Some k"
  using assms page_to_zoneD that by (auto simp: mm_allocs_def split: option.splits)

lemma mm_allocs_separated:
  assumes inv: "mm_inv m blk"
  shows "separated (mm_allocs m blk)"
  unfolding separated_def
proof (intro allI impI)
  fix p q j assume p: "mm_allocs m blk p = Some j" and qd: "q \<in> dom (mm_allocs m blk)" and lt: "p < q"
  from qd obtain k where q: "mm_allocs m blk q = Some k" by auto
  from mm_allocsD [OF p] obtain i where
    i: "i \<in> set (zone_all_for_each m)" "allocs (zones m i) (blk i) p = Some j" .
  from mm_allocsD [OF q] obtain i' where
    i': "i' \<in> set (zone_all_for_each m)" "allocs (zones m i') (blk i') q = Some k" .
  note P = allocs_block [OF mm_invD(2) [OF inv i(1)] i(2)]
  note Q = allocs_block [OF mm_invD(2) [OF inv i'(1)] i'(2)]
  show "p + 2 ^ j \<le> q"
  proof (cases "i = i'")
    case True
    have "separated (allocs (zones m i) (blk i))"
      using allocs_allocs_ok [OF mm_invD(2) [OF inv i(1)]] by (simp add: allocs_ok_def)
    from separatedD [OF this i(2) _ lt] i'(2) True show ?thesis by simp
  next
    case False
    from layout_okD(2) [OF mm_invD(1) [OF inv] i(1) i'(1) False]
    have "bend (zones m i) \<le> bbase (zones m i')" using P Q lt by (auto simp: zones_apart_def)
    then show ?thesis using block_fitsD(4) [OF P(1)] Q(2) by linarith
  qed
qed

text \<open>Replacing one zone by the result of an operation on it.\<close>

lemma mm_upd:
  assumes inv: "mm_inv m blk" and i: "i \<in> set (zone_all_for_each m)"
    and z: "buddy_inv z b {}" "coalesced z b {}" "same_place (zones m i) z"
  shows "mm_inv (set_zone m i z) (blk(i := b))"
    "mm_allocs (set_zone m i z) (blk(i := b)) p =
      (if page_to_zone m p = Some i then allocs z b p else mm_allocs m blk p)"
proof -
  show "mm_inv (set_zone m i z) (blk(i := b))"
    using inv z same_place_set_zone(1) [OF z(3)] by (auto simp: mm_inv_def)
  show "mm_allocs (set_zone m i z) (blk(i := b)) p =
      (if page_to_zone m p = Some i then allocs z b p else mm_allocs m blk p)"
    unfolding mm_allocs_def same_place_set_zone(2) [OF z(3)] by (auto split: option.splits)
qed

lemma mm_upd_one:
  assumes inv: "mm_inv m blk" and i: "i \<in> set (zone_all_for_each m)"
    and z: "buddy_inv z b {}" "coalesced z b {}" "same_place (zones m i) z"
    and a: "allocs z b = (allocs (zones m i) (blk i))(p := r)"
    and p: "bbase (zones m i) \<le> p" "p < bend (zones m i)"
  shows "mm_inv (set_zone m i z) (blk(i := b))"
    "mm_allocs (set_zone m i z) (blk(i := b)) = (mm_allocs m blk)(p := r)"
proof -
  show "mm_inv (set_zone m i z) (blk(i := b))" by (rule mm_upd(1) [OF inv i z])
  show "mm_allocs (set_zone m i z) (blk(i := b)) = (mm_allocs m blk)(p := r)"
  proof
    fix q
    have "page_to_zone m p = Some i" using page_to_zone_eq [OF mm_invD(1) [OF inv] i p] .
    then show "mm_allocs (set_zone m i z) (blk(i := b)) q = ((mm_allocs m blk)(p := r)) q"
      unfolding mm_upd(2) [OF inv i z] a by (auto simp: mm_allocs_def)
  qed
qed

subsection \<open>The operations\<close>

lemma alloc_in_zones_inv:
  assumes inv: "mm_inv m blk" and sub: "set is \<subseteq> set (zone_all_for_each m)"
  shows "(alloc_in_zones m is k = Some (None, m) \<and>
      (\<forall>i\<in>set is. \<forall>j\<ge>k. free_at (zones m i) (blk i) {} j = {})) \<or>
    (\<exists>p i z b. alloc_in_zones m is k = Some (Some p, set_zone m i z) \<and> i \<in> set is \<and>
       buddy_inv z b {} \<and> coalesced z b {} \<and> same_place (zones m i) z \<and>
       allocs z b = (allocs (zones m i) (blk i))(p \<mapsto> k) \<and> allocs (zones m i) (blk i) p = None)"
  using sub
proof (induction "is")
  case Nil
  then show ?case by simp
next
  case (Cons i js)
  then have i: "i \<in> set (zone_all_for_each m)" by simp
  note I = mm_invD(2,3) [OF inv i]
  from alloc_search_inv [OF I(1), of k k] consider
    (none) "alloc_search (zones m i) k k = Some (None, zones m i)"
      "\<forall>j\<ge>k. free_at (zones m i) (blk i) {} j = {}"
  | (some) p j z b where "alloc_search (zones m i) k k = Some (Some p, z)"
      "p \<in> free_at (zones m i) (blk i) {} j" "buddy_inv z b {}"
      "allocs z b = (allocs (zones m i) (blk i))(p \<mapsto> k)"
      "bbase z = bbase (zones m i)" "bend z = bend (zones m i)" "coalesced z b {}"
    using I(2) by blast
  then show ?case
  proof cases
    case none
    then have e: "alloc_in_zones m (i # js) k = alloc_in_zones m js k" by simp
    have "set js \<subseteq> set (zone_all_for_each m)" using Cons.prems by simp
    from Cons.IH [OF this] show ?thesis
    proof (elim disjE)
      assume "alloc_in_zones m js k = Some (None, m) \<and>
        (\<forall>i\<in>set js. \<forall>j\<ge>k. free_at (zones m i) (blk i) {} j = {})"
      then show ?thesis using none(2) e by (intro disjI1) simp
    next
      assume "\<exists>p i z b. alloc_in_zones m js k = Some (Some p, set_zone m i z) \<and> i \<in> set js \<and>
        buddy_inv z b {} \<and> coalesced z b {} \<and> same_place (zones m i) z \<and>
        allocs z b = (allocs (zones m i) (blk i))(p \<mapsto> k) \<and> allocs (zones m i) (blk i) p = None"
      then show ?thesis unfolding e by (intro disjI2) (meson list.set_intros(2))
    qed
  next
    case some
    have "same_place (zones m i) z"
      using more_place [OF alloc_search_more [OF some(1)]] some(5,6) by (simp add: same_place_def)
    moreover have "allocs (zones m i) (blk i) p = None"
      using some(2) by (simp add: free_at_def allocs_def)
    moreover have "alloc_in_zones m (i # js) k = Some (Some p, set_zone m i z)" using some(1) by simp
    ultimately show ?thesis using some(3,4,7) by (metis list.set_intros(1))
  qed
qed

lemma chain_all: "t < NR_ZONE_TYPES \<Longrightarrow> set (zone_for_each m t (t + 1)) \<subseteq> set (zone_all_for_each m)"
  by (auto simp: set_zone_all zone_for_each_def)

lemma mm_alloc_step:
  assumes "mm_rel m a" "t < NR_ZONE_TYPES" "k \<le> MAX_ORDER"
  shows "alloc_pages m t k = Some (None, m) \<or>
    (\<exists>p m' i. alloc_pages m t k = Some (Some p, m') \<and> i \<in> set (fast_zone_entry m t) \<and>
       block_fits (bbase (zones m i)) (bend (zones m i)) p k \<and> a p = None \<and> mm_rel m' (a(p \<mapsto> k)) \<and>
       page_to_phys m' = page_to_phys m \<and> phys_to_page m' = phys_to_page m)"
proof -
  from assms(1) obtain blk where inv: "mm_inv m blk" and a: "a = mm_allocs m blk"
    by (auto simp: mm_rel_def)
  have e: "alloc_pages m t k = alloc_in_zones m (zone_for_each m t (t + 1)) k"
    using assms(2,3) by (simp add: alloc_pages_def)
  from alloc_in_zones_inv [OF inv chain_all [OF assms(2)], of k] consider
    "alloc_in_zones m (zone_for_each m t (t + 1)) k = Some (None, m)"
  | p i z b where "alloc_in_zones m (zone_for_each m t (t + 1)) k = Some (Some p, set_zone m i z)"
      "i \<in> set (zone_for_each m t (t + 1))" "buddy_inv z b {}" "coalesced z b {}"
      "same_place (zones m i) z" "allocs z b = (allocs (zones m i) (blk i))(p \<mapsto> k)"
      "allocs (zones m i) (blk i) p = None"
    by blast
  then show ?thesis
  proof cases
    case 1 then show ?thesis using e by simp
  next
    case 2
    from 2(2) have i: "i \<in> set (zone_all_for_each m)" "i \<in> set (fast_zone_entry m t)"
      using chain_all [OF assms(2)] by (auto simp: zone_for_each_def)
    have "allocs z b p = Some k" using 2(6) by simp
    note B = allocs_block [OF 2(3) this]
    have pl: "bbase z = bbase (zones m i)" "bend z = bend (zones m i)"
      using 2(5) by (simp_all add: same_place_def)
    note B = B [unfolded pl]
    note U = mm_upd_one [OF inv i(1) 2(3,4,5,6) B(2,3)]
    have "a p = None" using mm_allocs_zone(2) [OF inv i(1) B(2,3)] 2(7) a by simp
    moreover have "mm_rel (set_zone m i z) (a(p \<mapsto> k))" using U a unfolding mm_rel_def by metis
    ultimately show ?thesis using e 2(1) i(2) B(1) same_place_set_zone(3,5) [OF 2(5)] by auto
  qed
qed

lemma mm_alloc_complete:
  assumes "mm_rel m a" "t < NR_ZONE_TYPES" "k \<le> MAX_ORDER" and i: "i \<in> set (fast_zone_entry m t)"
    and q: "bbase (zones m i) \<le> q" "q + 2 ^ k \<le> bend (zones m i)" "2 ^ k dvd (q - bbase (zones m i))"
    and free: "\<And>p j. a p = Some j \<Longrightarrow> p + 2 ^ j \<le> q \<or> q + 2 ^ k \<le> p"
  shows "\<exists>p m'. alloc_pages m t k = Some (Some p, m')"
proof -
  from assms(1) obtain blk where inv: "mm_inv m blk" and a: "a = mm_allocs m blk"
    by (auto simp: mm_rel_def)
  have ia: "i \<in> set (zone_all_for_each m)" using i assms(2) by (auto simp: set_zone_all)
  have "run_free (zones m i) (blk i) q (2 ^ k)"
    using q free mm_allocs_zone(1) [OF inv ia] a by (simp add: run_free_def)
  from run_free_block [OF mm_invD(2,3) [OF inv ia] assms(3) q(3) this]
  obtain r j where "r \<in> free_at (zones m i) (blk i) {} j" "k \<le> j" by blast
  moreover have "i \<in> set (zone_for_each m t (t + 1))" using i by (simp add: zone_for_each_def)
  ultimately show ?thesis
    using alloc_in_zones_inv [OF inv chain_all [OF assms(2)], of k] assms(2,3)
    by (auto simp: alloc_pages_def)
qed

lemma mm_dealloc_step:
  assumes "mm_rel m a" "a p = Some k"
  shows "\<exists>m'. dealloc_pages m p k = Some m' \<and> mm_rel m' (a(p := None)) \<and>
    page_to_phys m' = page_to_phys m \<and> phys_to_page m' = phys_to_page m \<and> phys_to_zone m' = phys_to_zone m"
proof -
  from assms(1) obtain blk where inv: "mm_inv m blk" and a: "a = mm_allocs m blk"
    by (auto simp: mm_rel_def)
  from assms(2)[unfolded a] obtain i where i: "page_to_zone m p = Some i"
    "i \<in> set (zone_all_for_each m)" "allocs (zones m i) (blk i) p = Some k" by (rule mm_allocsD)
  note I = mm_invD(2,3) [OF inv i(2)]
  from dealloc_zone_inv [OF I(1) i(3)] I(2) obtain z b where
    z: "dealloc_zone (zones m i) p k = Some z" "buddy_inv z b {}"
      "allocs z b = (allocs (zones m i) (blk i))(p := None)"
      "bbase z = bbase (zones m i)" "bend z = bend (zones m i)" "coalesced z b {}" by metis
  have pl: "same_place (zones m i) z"
    using more_place [OF dealloc_zone_more [OF z(1)]] z(4,5) by (simp add: same_place_def)
  note U = mm_upd_one [OF inv i(2) z(2,6) pl z(3) page_to_zoneD(2,3) [OF i(1)]]
  have "dealloc_pages m p k = Some (set_zone m i z)" using i(1) z(1) by (simp add: dealloc_pages_def)
  moreover have "mm_rel (set_zone m i z) (a(p := None))" using U a unfolding mm_rel_def by metis
  ultimately show ?thesis using same_place_set_zone [OF pl] by blast
qed

text \<open>The allocator of each zone type satisfies the contract of the interface.\<close>

lemma mm_rel_separated: "mm_rel m a \<Longrightarrow> separated a"
  using mm_allocs_separated by (auto simp: mm_rel_def)

lemma alloc_pages_large: "MAX_ORDER < k \<Longrightarrow> t < NR_ZONE_TYPES \<Longrightarrow> alloc_pages m t k = Some (None, m)"
  by (simp add: alloc_pages_def)

lemma page_allocator_zone:
  assumes t: "t < NR_ZONE_TYPES"
  shows "page_allocator mm_rel (\<lambda>m k. alloc_pages m t k) dealloc_pages"
proof
  fix m a k
  assume r: "mm_rel m a"
  show "separated a" using mm_rel_separated [OF r] .
  note c = mm_alloc_step [OF r t, of k] alloc_pages_large [OF _ t, of k m]
  show "\<exists>r m'. alloc_pages m t k = Some (r, m')" using c by (cases "k \<le> MAX_ORDER") auto
  show "m' = m" if "alloc_pages m t k = Some (None, m')" for m'
    using that c by (cases "k \<le> MAX_ORDER") auto
  show "a p = None \<and> mm_rel m' (a(p \<mapsto> k))" if "alloc_pages m t k = Some (Some p, m')" for p m'
    using that c by (cases "k \<le> MAX_ORDER") auto
  show "\<exists>m'. dealloc_pages m p k = Some m' \<and> mm_rel m' (a(p := None))" if "a p = Some k" for p
    using mm_dealloc_step [OF r that] by blast
qed

interpretation dma: page_allocator mm_rel "\<lambda>m k. alloc_pages m ZONE_DMA k" dealloc_pages
  by (rule page_allocator_zone) (simp add: zone_consts)

interpretation normal: page_allocator mm_rel "\<lambda>m k. alloc_pages m ZONE_NORMAL k" dealloc_pages
  by (rule page_allocator_zone) (simp add: zone_consts)

interpretation highmem: page_allocator mm_rel "\<lambda>m k. alloc_pages m ZONE_HIGHMEM k" dealloc_pages
  by (rule page_allocator_zone) (simp add: zone_consts)

end
