(* ===== verification/Kmalloc.thy ===== *)
theory Kmalloc
  imports Zone_Inv
begin

text \<open>
  kernel/mm/kmalloc.c: objects of 16 to 512 bytes carved out of single pages.  A page in use
  has a head at its start with the lists of its used and its free objects, an object a list
  head in front of its bytes; pages of one object size are on one list.  Lists are HOL lists
  of addresses, first entry first.  The page allocator is a parameter of the two operations:
  \<open>get\<close> is \<open>get_free_page(GFP_NORMAL | GFP_DMA)\<close> and \<open>put\<close> is \<open>free_page\<close>; the locale
  \<open>page_source\<close> states what kmalloc relies on and is interpreted on the functions of
  Page_Zones.
\<close>

subsection \<open>State and operations\<close>

record page_head =
  kindex :: nat
  used_list :: "u32 list"
  free_list :: "u32 list"

record kmem =
  kpages :: "u32 \<Rightarrow> page_head"
  page_list :: "nat \<Rightarrow> u32 list"

definition KMALLOC_MAX_ORDER :: nat where "KMALLOC_MAX_ORDER = 5"
definition KMALLOC_SHIFT :: nat where "KMALLOC_SHIFT = 4"
definition KMALLOC_MASK :: u32 where "KMALLOC_MASK = push_bit KMALLOC_SHIFT 1 - 1"

text \<open>\<open>sizeof\<close>: one word and three list heads; one list head.\<close>

definition sizeof_page_head :: nat where "sizeof_page_head = 28"
definition sizeof_obj_head :: nat where "sizeof_obj_head = 8"

text \<open>The loop of \<open>init_page\<close>; \<open>offset\<close> stays far below the word size.\<close>

function init_page_loop :: "u32 \<Rightarrow> nat \<Rightarrow> nat \<Rightarrow> u32 list \<Rightarrow> u32 list" where
  "init_page_loop page offset obj_size free =
     (if offset + sizeof_obj_head + obj_size \<le> unat PAGE_SIZE
      then init_page_loop page (offset + (sizeof_obj_head + obj_size)) obj_size
             ((page + of_nat offset) # free)
      else free)"
  by pat_completeness auto
termination by (relation "measure (\<lambda>(page, offset, s, free). unat PAGE_SIZE - offset)")
  (auto simp: sizeof_obj_head_def)

declare init_page_loop.simps [simp del]

definition init_page :: "u32 \<Rightarrow> nat \<Rightarrow> page_head" where
  "init_page page order =
     \<lparr>kindex = order, used_list = [],
      free_list = init_page_loop page sizeof_page_head (2 ^ (order + KMALLOC_SHIFT)) []\<rparr>"

function kmalloc_index_loop :: "u32 \<Rightarrow> int \<Rightarrow> int" where
  "kmalloc_index_loop sz index =
     (if sz \<noteq> 0 then kmalloc_index_loop (drop_bit 1 sz) (index + 1) else index)"
  by pat_completeness auto
termination
proof (relation "measure (\<lambda>(sz, index). unat sz)")
  fix sz :: u32 and index :: int
  assume "sz \<noteq> 0"
  then have "unat sz div 2 < unat sz" by (metis unat_eq_zero div_less_dividend gr0I one_less_numeral_iff semiring_norm(76))
  then show "((drop_bit 1 sz, index + 1), sz, index) \<in> measure (\<lambda>(sz, index). unat sz)"
    by (simp add: unat_drop_bit_eq drop_bit_nat_def)
qed simp

declare kmalloc_index_loop.simps [simp del]

definition kmalloc_index :: "u32 \<Rightarrow> int" where
  "kmalloc_index sz =
     (let index = (if sz AND KMALLOC_MASK \<noteq> 0 then 0 else - 1);
          index = kmalloc_index_loop (drop_bit KMALLOC_SHIFT sz) index
      in if index > int KMALLOC_MAX_ORDER then - 1 else index)"

definition kmalloc_init :: "kmem \<Rightarrow> kmem" where
  "kmalloc_init k = fold (\<lambda>i k. k\<lparr>page_list := (page_list k)(i := [])\<rparr>) [0..<KMALLOC_MAX_ORDER + 1] k"

definition list_move_to :: "'a \<Rightarrow> 'a list \<Rightarrow> 'a list" where
  "list_move_to x xs = x # remove1 x xs"

text \<open>The page of \<open>index\<close> an object is taken from: the first, or a new one put in front.\<close>

definition kmalloc_page ::
    "('s \<Rightarrow> (u32 option \<times> 's) option) \<Rightarrow> kmem \<Rightarrow> 's \<Rightarrow> nat \<Rightarrow> (u32 option \<times> kmem \<times> 's) option" where
  "kmalloc_page get k s index =
     (if page_list k index = [] \<or> free_list (kpages k (hd (page_list k index))) = []
      then do { (page, s) \<leftarrow> get s;
                (case page of
                   Some page \<Rightarrow>
                     Some (Some page,
                       k\<lparr>kpages := (kpages k)(page := init_page page index),
                         page_list := (page_list k)(index := page # page_list k index)\<rparr>, s)
                 | None \<Rightarrow> Some (None, k, s)) }
      else Some (Some (hd (page_list k index)), k, s))"

definition kmalloc ::
    "('s \<Rightarrow> (u32 option \<times> 's) option) \<Rightarrow> kmem \<Rightarrow> 's \<Rightarrow> u32 \<Rightarrow> (u32 option \<times> kmem \<times> 's) option" where
  "kmalloc get k s sz =
     (let index = kmalloc_index sz
      in do { bug_on (index = - 1);
              (page, k, s) \<leftarrow> kmalloc_page get k s (nat index);
              (case page of
                 None \<Rightarrow> Some (None, k, s)
               | Some page \<Rightarrow>
                   (let h = kpages k page
                    in case free_list h of
                         [] \<Rightarrow> None
                       | fetch # free \<Rightarrow>
                           let h = h\<lparr>used_list := fetch # used_list h, free_list := free\<rparr>;
                               k = k\<lparr>kpages := (kpages k)(page := h)\<rparr>;
                               k = (if free_list h = []
                                    then k\<lparr>page_list := (page_list k)(kindex h :=
                                           list_move_to page (page_list k (kindex h)))\<rparr>
                                    else k)
                           in Some (Some (fetch + of_nat sizeof_obj_head), k, s))) })"

text \<open>\<open>kfree\<close> unlinks the object from the list it is on; one that is on none is undefined.\<close>

definition kfree ::
    "('s \<Rightarrow> u32 \<Rightarrow> 's option) \<Rightarrow> kmem \<Rightarrow> 's \<Rightarrow> u32 \<Rightarrow> (kmem \<times> 's) option" where
  "kfree put k s addr =
     (if addr = 0 then Some (k, s)
      else let page = PAGE_FLOOR addr; h = kpages k page; obj = addr - of_nat sizeof_obj_head
           in if obj \<notin> set (used_list h @ free_list h) then None
              else let h = h\<lparr>used_list := remove1 obj (used_list h),
                             free_list := list_move_to obj (free_list h)\<rparr>;
                       k = k\<lparr>kpages := (kpages k)(page := h)\<rparr>
                   in if used_list h = []
                      then do { s \<leftarrow> put s page;
                                Some (k\<lparr>page_list := (page_list k)(kindex h :=
                                        remove1 page (page_list k (kindex h)))\<rparr>, s) }
                      else Some (k\<lparr>page_list := (page_list k)(kindex h :=
                                   list_move_to page (page_list k (kindex h)))\<rparr>, s))"

definition kmalloc_dump :: "kmem \<Rightarrow> nat list" where
  "kmalloc_dump k =
     map (\<lambda>i. fold (\<lambda>_ n. n + 1) (page_list k i) 0) [0..<KMALLOC_MAX_ORDER + 1]"

subsection \<open>The object size\<close>

lemma kmalloc_index_loop_eq: "kmalloc_index_loop sz i = i + int (bitlen (unat sz))"
proof (induction sz i rule: kmalloc_index_loop.induct)
  case (1 sz i)
  show ?case
  proof (cases "sz = 0")
    case True
    then show ?thesis by (simp add: kmalloc_index_loop.simps)
  next
    case False
    then have "unat sz \<noteq> 0" by (simp add: unat_eq_zero)
    moreover have "unat (drop_bit 1 sz) = unat sz div 2" by (simp add: unat_drop_bit_eq drop_bit_nat_def)
    ultimately show ?thesis using 1 False bitlen_step [of "unat sz"]
      by (subst kmalloc_index_loop.simps) simp
  qed
qed

lemma kmask_zero: "sz AND KMALLOC_MASK = 0 \<longleftrightarrow> 16 dvd unat sz"
proof -
  have "KMALLOC_MASK = mask 4" by (simp add: KMALLOC_MASK_def KMALLOC_SHIFT_def mask_eq_decr_exp)
  then have "sz AND KMALLOC_MASK = take_bit 4 sz" by (simp add: take_bit_eq_mask)
  moreover have "unat (take_bit 4 sz) = unat sz mod 16"
    by (subst unsigned_take_bit_eq) (simp add: take_bit_eq_mod)
  ultimately show ?thesis by (metis dvd_eq_mod_eq_0 unat_eq_zero)
qed

lemma kmalloc_index_eq:
  "kmalloc_index sz =
     (let i = (if 16 dvd unat sz then - 1 else 0) + int (bitlen (unat sz div 16))
      in if i > 5 then - 1 else i)"
proof -
  have "unat (drop_bit KMALLOC_SHIFT sz) = unat sz div 16"
    by (simp add: KMALLOC_SHIFT_def unat_drop_bit_eq drop_bit_nat_def)
  then show ?thesis
    by (simp add: kmalloc_index_def kmalloc_index_loop_eq kmask_zero KMALLOC_MAX_ORDER_def Let_def)
qed

text \<open>The object is large enough unless the size is a multiple of 16 that is no power of two.\<close>

lemma kmalloc_index_fits:
  assumes i: "kmalloc_index sz = int i" and ok: "\<not> 16 dvd unat sz \<or> (\<exists>j. unat sz = 16 * 2 ^ j)"
  shows "unat sz \<le> 2 ^ (i + KMALLOC_SHIFT)" "i \<le> KMALLOC_MAX_ORDER"
proof -
  let ?n = "unat sz div 16"
  show "i \<le> KMALLOC_MAX_ORDER"
    using i by (auto simp: kmalloc_index_eq KMALLOC_MAX_ORDER_def Let_def split: if_splits)
  have two: "(2::nat) ^ (i + KMALLOC_SHIFT) = 2 ^ i * 16" by (simp add: KMALLOC_SHIFT_def power_add)
  show "unat sz \<le> 2 ^ (i + KMALLOC_SHIFT)"
  proof (cases "16 dvd unat sz")
    case False
    then have "i = bitlen ?n" using i by (auto simp: kmalloc_index_eq Let_def split: if_splits)
    then have "?n < 2 ^ i" using bitlen_upper by simp
    then show ?thesis unfolding two by linarith
  next
    case True
    with ok obtain j where j: "unat sz = 16 * 2 ^ j" by blast
    then have n: "?n = 2 ^ j" by simp
    have "bitlen ?n = Suc i" using i True by (auto simp: kmalloc_index_eq Let_def split: if_splits)
    then have "(2::nat) ^ j < 2 ^ Suc i" using bitlen_upper [of ?n] n by simp
    then have "j \<le> i" by (simp only: power_strict_increasing_iff)
    then have "(2::nat) ^ j \<le> 2 ^ i" by (intro power_increasing) auto
    then show ?thesis unfolding two j by simp
  qed
qed


subsection \<open>The objects of a page\<close>

definition obj_step :: "nat \<Rightarrow> nat" where
  "obj_step i = sizeof_obj_head + 2 ^ (i + KMALLOC_SHIFT)"

definition slot_fits :: "nat \<Rightarrow> nat \<Rightarrow> bool" where
  "slot_fits i n \<longleftrightarrow> sizeof_page_head + Suc n * obj_step i \<le> 4096"

definition slot :: "u32 \<Rightarrow> nat \<Rightarrow> nat \<Rightarrow> u32" where
  "slot v i n = v + of_nat (sizeof_page_head + n * obj_step i)"

definition slots :: "u32 \<Rightarrow> nat \<Rightarrow> u32 set" where
  "slots v i = {slot v i n |n. slot_fits i n}"

lemma page_offset_dvd: "page_offset v = 0 \<longleftrightarrow> 4096 dvd unat v"
proof -
  have "page_offset v = 0 \<longleftrightarrow> unat (PAGE_FLOOR v) = unat v"
    unfolding page_offset_zero_iff by (simp add: word_unat_eq_iff)
  then show ?thesis unfolding unat_PAGE_FLOOR by (auto simp: dvd_eq_mod_eq_0 minus_mod_eq_div_mult [symmetric])
qed

lemma page_top: "4096 dvd unat (v :: u32) \<Longrightarrow> unat v + 4096 \<le> 2 ^ 32"
proof -
  assume "4096 dvd unat v"
  then obtain n where n: "unat v = 4096 * n" by (rule dvdE)
  have "unat v < 2 ^ 32" using unsigned_less [of v] by simp
  then have "n < 2 ^ 20" unfolding n by simp
  then show ?thesis unfolding n by simp
qed

lemma slot_props:
  assumes v: "page_offset v = 0" and n: "slot_fits i n"
  shows "unat (slot v i n) = unat v + sizeof_page_head + n * obj_step i"
    "unat (slot v i n + of_nat sizeof_obj_head) =
      unat v + sizeof_page_head + n * obj_step i + sizeof_obj_head"
    "PAGE_FLOOR (slot v i n + of_nat sizeof_obj_head) = v"
    "sizeof_page_head + n * obj_step i + sizeof_obj_head + 2 ^ (i + KMALLOC_SHIFT) \<le> 4096"
proof -
  have d: "4096 dvd unat v" using v by (simp add: page_offset_dvd)
  note top = page_top [OF d]
  show le: "sizeof_page_head + n * obj_step i + sizeof_obj_head + 2 ^ (i + KMALLOC_SHIFT) \<le> 4096"
    using n by (simp add: slot_fits_def obj_step_def)
  have pos: "(0::nat) < 2 ^ (i + KMALLOC_SHIFT)" by simp
  have add: "unat (v + of_nat x) = unat v + x" if "x < 4096" for x
  proof -
    have "unat (of_nat x :: u32) = x" using that by (simp add: unat_of_nat take_bit_nat_eq_self_iff)
    then show ?thesis using top that by (simp add: unat_word_ariths)
  qed
  show "unat (slot v i n) = unat v + sizeof_page_head + n * obj_step i"
    unfolding slot_def by (subst add) (use le pos in linarith)+
  have e: "slot v i n + of_nat sizeof_obj_head =
      v + of_nat (sizeof_page_head + n * obj_step i + sizeof_obj_head)"
    by (simp add: slot_def)
  show u: "unat (slot v i n + of_nat sizeof_obj_head) =
      unat v + sizeof_page_head + n * obj_step i + sizeof_obj_head"
    unfolding e by (subst add) (use le pos in linarith)+
  from d obtain w where w: "unat v = 4096 * w" by (rule dvdE)
  define x where "x = sizeof_page_head + n * obj_step i + sizeof_obj_head"
  have "x < 4096" using le pos unfolding x_def by linarith
  then have "(4096 * w + x) div 4096 = w" by simp
  then have "(unat v + sizeof_page_head + n * obj_step i + sizeof_obj_head) div 4096 = w"
    unfolding w x_def by (simp only: add.assoc)
  then have "unat (PAGE_FLOOR (slot v i n + of_nat sizeof_obj_head)) = unat v"
    unfolding unat_PAGE_FLOOR u using w by simp
  then show "PAGE_FLOOR (slot v i n + of_nat sizeof_obj_head) = v" by (simp add: word_unat_eq_iff)
qed

lemma slot_inj:
  assumes "page_offset v = 0" "slot_fits i n" "slot_fits i m" "slot v i n = slot v i m"
  shows "n = m"
proof -
  have "n * obj_step i = m * obj_step i"
    using slot_props(1) [OF assms(1,2)] slot_props(1) [OF assms(1,3)] unfolding assms(4) by linarith
  moreover have "0 < obj_step i" by (simp add: obj_step_def)
  ultimately show ?thesis by simp
qed

lemma init_page_loop_slots:
  assumes v: "page_offset v = 0"
  shows "distinct acc \<Longrightarrow> set acc = {slot v i m |m. m < n \<and> slot_fits i m} \<Longrightarrow>
    (\<forall>m<n. slot_fits i m) \<Longrightarrow>
    distinct (init_page_loop v (sizeof_page_head + n * obj_step i) (2 ^ (i + KMALLOC_SHIFT)) acc) \<and>
    set (init_page_loop v (sizeof_page_head + n * obj_step i) (2 ^ (i + KMALLOC_SHIFT)) acc) = slots v i"
proof (induction "4096 - n" arbitrary: n acc rule: less_induct)
  case less
  let ?off = "sizeof_page_head + n * obj_step i" and ?sz = "2 ^ (i + KMALLOC_SHIFT)"
  have fit: "?off + sizeof_obj_head + ?sz \<le> unat PAGE_SIZE \<longleftrightarrow> slot_fits i n"
    by (simp add: slot_fits_def obj_step_def unat_PAGE_SIZE algebra_simps)
  have mono: "slot_fits i m" if "slot_fits i m'" "m \<le> m'" for m m'
  proof -
    have "Suc m * obj_step i \<le> Suc m' * obj_step i" using that(2) by (intro mult_le_mono1) simp
    then show ?thesis using that(1) by (simp only: slot_fits_def)
  qed
  show ?case
  proof (cases "slot_fits i n")
    case False
    then have "m < n \<and> slot_fits i m \<longleftrightarrow> slot_fits i m" for m using mono by (meson not_le)
    then have "set acc = slots v i" using less.prems(2) by (simp add: slots_def)
    then show ?thesis using False fit less.prems(1) by (subst (1 2) init_page_loop.simps) simp
  next
    case True
    have off: "?off + (sizeof_obj_head + ?sz) = sizeof_page_head + Suc n * obj_step i"
      by (simp add: obj_step_def)
    have st: "init_page_loop v ?off ?sz acc =
        init_page_loop v (sizeof_page_head + Suc n * obj_step i) ?sz (slot v i n # acc)"
    proof -
      have c: "?off + sizeof_obj_head + ?sz \<le> unat PAGE_SIZE" using True fit by blast
      show ?thesis by (subst init_page_loop.simps) (simp only: c if_True off slot_def)
    qed
    have "slot v i n \<notin> set acc" unfolding less.prems(2) using slot_inj [OF v True] by auto
    then have 1: "distinct (slot v i n # acc)" using less.prems(1) by simp
    have 2: "set (slot v i n # acc) = {slot v i m |m. m < Suc n \<and> slot_fits i m}"
      using less.prems(2) True by (auto simp: less_Suc_eq)
    have 3: "\<forall>m<Suc n. slot_fits i m" using less.prems(3) True by (simp add: less_Suc_eq)
    have "n < 4096"
    proof -
      have "1 \<le> obj_step i" by (simp add: obj_step_def sizeof_obj_head_def)
      then have "n * 1 \<le> n * obj_step i" by (rule mult_le_mono2)
      then show ?thesis using True by (simp only: slot_fits_def sizeof_page_head_def mult_Suc)
    qed
    then have "4096 - Suc n < 4096 - n" by simp
    from less.hyps [OF this 1 2 3] show ?thesis unfolding st .
  qed
qed

lemma init_page_slots:
  assumes "page_offset v = 0"
  shows "distinct (free_list (init_page v i))" "set (free_list (init_page v i)) = slots v i"
  using init_page_loop_slots [OF assms, of "[]" i 0] by (simp_all add: init_page_def)

lemma slots_nonempty: "i \<le> KMALLOC_MAX_ORDER \<Longrightarrow> slots v i \<noteq> {}"
proof -
  assume "i \<le> KMALLOC_MAX_ORDER"
  then have "(2::nat) ^ (i + KMALLOC_SHIFT) \<le> 2 ^ (5 + KMALLOC_SHIFT)"
    by (intro power_increasing) (simp_all add: KMALLOC_MAX_ORDER_def)
  then have "slot_fits i 0"
    by (simp add: slot_fits_def obj_step_def sizeof_page_head_def sizeof_obj_head_def KMALLOC_SHIFT_def)
  then show "slots v i \<noteq> {}" by (auto simp: slots_def)
qed


subsection \<open>The invariant\<close>

definition page_shape :: "kmem \<Rightarrow> u32 \<Rightarrow> nat \<Rightarrow> bool" where
  "page_shape k v i \<longleftrightarrow> page_offset v = 0 \<and> v \<noteq> 0 \<and> kindex (kpages k v) = i \<and>
     distinct (used_list (kpages k v) @ free_list (kpages k v)) \<and>
     set (used_list (kpages k v) @ free_list (kpages k v)) = slots v i"

definition page_ok :: "kmem \<Rightarrow> u32 \<Rightarrow> nat \<Rightarrow> bool" where
  "page_ok k v i \<longleftrightarrow> page_shape k v i \<and> used_list (kpages k v) \<noteq> []"

definition kmem_ok :: "kmem \<Rightarrow> u32 set \<Rightarrow> bool" where
  "kmem_ok k A \<longleftrightarrow> A = (\<Union>i\<le>KMALLOC_MAX_ORDER. set (page_list k i)) \<and>
     (\<forall>i\<le>KMALLOC_MAX_ORDER. distinct (page_list k i) \<and> (\<forall>v\<in>set (page_list k i). page_ok k v i))"

text \<open>In between, a page may be without used objects.\<close>

definition kmem_but :: "kmem \<Rightarrow> u32 set \<Rightarrow> u32 \<Rightarrow> bool" where
  "kmem_but k A u \<longleftrightarrow> A = (\<Union>i\<le>KMALLOC_MAX_ORDER. set (page_list k i)) \<and>
     (\<forall>i\<le>KMALLOC_MAX_ORDER. distinct (page_list k i) \<and>
        (\<forall>v\<in>set (page_list k i). page_shape k v i \<and> (v \<noteq> u \<longrightarrow> used_list (kpages k v) \<noteq> [])))"

lemma kmem_but_ok:
  "kmem_but k A u \<Longrightarrow> used_list (kpages k u) \<noteq> [] \<Longrightarrow> kmem_ok k A"
  "kmem_ok k A \<Longrightarrow> kmem_but k A u"
  unfolding kmem_but_def kmem_ok_def page_ok_def by metis+

text \<open>The live objects: address and index of the size class.\<close>

definition live :: "kmem \<Rightarrow> u32 set \<Rightarrow> (u32 \<times> nat) set" where
  "live k A = {(ob + of_nat sizeof_obj_head, kindex (kpages k v)) |v ob. v \<in> A \<and> ob \<in> set (used_list (kpages k v))}"

definition obj_bytes :: "u32 \<times> nat \<Rightarrow> nat set" where
  "obj_bytes x = {unat (fst x)..<unat (fst x) + 2 ^ (snd x + KMALLOC_SHIFT)}"

lemma page_okD:
  assumes "page_ok k v i"
  shows "page_offset v = 0" "v \<noteq> 0" "kindex (kpages k v) = i"
    "distinct (used_list (kpages k v) @ free_list (kpages k v))"
    "set (used_list (kpages k v) @ free_list (kpages k v)) = slots v i"
    "used_list (kpages k v) \<noteq> []"
  using assms by (simp_all add: page_ok_def page_shape_def)

lemma kmem_okD:
  assumes "kmem_ok k A"
  shows "v \<in> A \<Longrightarrow> \<exists>i\<le>KMALLOC_MAX_ORDER. v \<in> set (page_list k i) \<and> page_ok k v i"
    "i \<le> KMALLOC_MAX_ORDER \<Longrightarrow> v \<in> set (page_list k i) \<Longrightarrow> page_ok k v i \<and> v \<in> A"
    "i \<le> KMALLOC_MAX_ORDER \<Longrightarrow> distinct (page_list k i)"
  using assms unfolding kmem_ok_def by blast+

lemma live_slot:
  assumes "kmem_ok k A" "x \<in> live k A"
  obtains v i n where "v \<in> A" "page_ok k v i" "slot_fits i n" "slot v i n \<in> set (used_list (kpages k v))"
    "x = (slot v i n + of_nat sizeof_obj_head, i)" "i \<le> KMALLOC_MAX_ORDER" "v \<in> set (page_list k i)"
proof -
  from assms(2) obtain v ob where v: "v \<in> A" "ob \<in> set (used_list (kpages k v))"
    "x = (ob + of_nat sizeof_obj_head, kindex (kpages k v))" by (auto simp: live_def)
  from kmem_okD(1) [OF assms(1) v(1)] obtain i where
    i: "i \<le> KMALLOC_MAX_ORDER" "v \<in> set (page_list k i)" "page_ok k v i" by blast
  have "ob \<in> slots v i" using page_okD(5) [OF i(3)] v(2) by auto
  then obtain n where "ob = slot v i n" "slot_fits i n" by (auto simp: slots_def)
  with v i page_okD(3) [OF i(3)] that show thesis by simp
qed

text \<open>Live objects do not overlap.\<close>

lemma live_disjoint:
  assumes ok: "kmem_ok k A" and x: "x \<in> live k A" and y: "y \<in> live k A" and ne: "x \<noteq> y"
  shows "obj_bytes x \<inter> obj_bytes y = {}"
proof -
  obtain v i n where X: "page_ok k v i" "slot_fits i n" "x = (slot v i n + of_nat sizeof_obj_head, i)"
    by (rule live_slot [OF ok x])
  obtain w j m where Y: "page_ok k w j" "slot_fits j m" "y = (slot w j m + of_nat sizeof_obj_head, j)"
    by (rule live_slot [OF ok y])
  note V = page_okD(1) [OF X(1)] and W = page_okD(1) [OF Y(1)]
  note P = slot_props(2,4) [OF V X(2)] and Q = slot_props(2,4) [OF W Y(2)]
  show ?thesis
  proof (cases "v = w")
    case True
    then have ij: "i = j" using page_okD(3) [OF X(1)] page_okD(3) [OF Y(1)] by simp
    then have "n \<noteq> m" using ne X(3) Y(3) True by auto
    then have "Suc n * obj_step i \<le> m * obj_step i \<or> Suc m * obj_step i \<le> n * obj_step i"
      by (metis less_eq_Suc_le mult_le_mono1 nat_neq_iff)
    moreover have "obj_step i = sizeof_obj_head + 2 ^ (i + KMALLOC_SHIFT)" by (simp add: obj_step_def)
    moreover have "Suc n * obj_step i = obj_step i + n * obj_step i" "Suc m * obj_step i = obj_step i + m * obj_step i"
      by simp_all
    moreover have "unat (slot w j m + of_nat sizeof_obj_head) =
        unat v + sizeof_page_head + m * obj_step i + sizeof_obj_head" using Q(1) True ij by simp
    ultimately have "unat (fst x) + 2 ^ (i + KMALLOC_SHIFT) \<le> unat (fst y) \<or>
        unat (fst y) + 2 ^ (i + KMALLOC_SHIFT) \<le> unat (fst x)"
      unfolding X(3) Y(3) fst_conv P(1) by linarith
    then show ?thesis unfolding obj_bytes_def using X(3) Y(3) ij by auto
  next
    case False
    from V W obtain a b where ab: "unat v = 4096 * a" "unat w = 4096 * b"
      by (auto simp: page_offset_dvd elim!: dvdE)
    with False have "a \<noteq> b" by (auto simp: word_unat_eq_iff)
    then have "unat v + 4096 \<le> unat w \<or> unat w + 4096 \<le> unat v" unfolding ab by linarith
    then show ?thesis unfolding obj_bytes_def X(3) Y(3) fst_conv snd_conv P(1) Q(1)
      using P(2) Q(2) by auto
  qed
qed

subsection \<open>The page source\<close>

locale page_source =
  fixes srel :: "'s \<Rightarrow> u32 set \<Rightarrow> bool"
    and get :: "'s \<Rightarrow> (u32 option \<times> 's) option"
    and put :: "'s \<Rightarrow> u32 \<Rightarrow> 's option"
  assumes get_total: "srel s A \<Longrightarrow> \<exists>r s'. get s = Some (r, s')"
    and get_none: "srel s A \<Longrightarrow> get s = Some (None, s') \<Longrightarrow> s' = s"
    and get_some: "srel s A \<Longrightarrow> get s = Some (Some v, s') \<Longrightarrow>
      v \<notin> A \<and> page_offset v = 0 \<and> v \<noteq> 0 \<and> srel s' (insert v A)"
    and put_ok: "srel s A \<Longrightarrow> v \<in> A \<Longrightarrow> \<exists>s'. put s v = Some s' \<and> srel s' (A - {v})"

text \<open>Moving an object from the free to the used list of a page.\<close>

definition take_obj :: "kmem \<Rightarrow> u32 \<Rightarrow> u32 \<Rightarrow> u32 list \<Rightarrow> kmem" where
  "take_obj k v fetch free =
     k\<lparr>kpages := (kpages k)(v := (kpages k v)\<lparr>used_list := fetch # used_list (kpages k v), free_list := free\<rparr>)\<rparr>"

lemma kmalloc_eq:
  assumes "kmalloc_index sz = int i" "kmalloc_page get k s i = Some (Some v, k1, s1)"
    "free_list (kpages k1 v) = fetch # free"
  shows "kmalloc get k s sz = Some (Some (fetch + of_nat sizeof_obj_head),
    (if free = [] then (take_obj k1 v fetch free)\<lparr>page_list := (page_list k1)(kindex (kpages k1 v) :=
        list_move_to v (page_list k1 (kindex (kpages k1 v))))\<rparr> else take_obj k1 v fetch free), s1)"
  using assms by (simp add: kmalloc_def take_obj_def Let_def)


lemma set_list_move_to [simp]: "x \<in> set xs \<Longrightarrow> distinct xs \<Longrightarrow> set (list_move_to x xs) = set xs"
  by (auto simp: list_move_to_def set_remove1_eq)

lemma distinct_list_move_to [simp]: "distinct xs \<Longrightarrow> distinct (list_move_to x xs)"
  by (auto simp: list_move_to_def)

lemma kmem_ok_reorder:
  assumes ok: "kmem_ok k A" and i: "v \<in> set (page_list k i)" "i \<le> KMALLOC_MAX_ORDER"
  shows "kmem_ok (k\<lparr>page_list := (page_list k)(i := list_move_to v (page_list k i))\<rparr>) A"
    "live (k\<lparr>page_list := pl\<rparr>) A = live k A"
proof -
  have d: "distinct (page_list k i)" using kmem_okD(3) [OF ok i(2)] .
  have s: "set (((page_list k)(i := list_move_to v (page_list k i))) j) = set (page_list k j)" for j
    using i(1) d by simp
  have dj: "distinct (((page_list k)(i := list_move_to v (page_list k i))) j)" if "distinct (page_list k j)" for j
    using that d by simp
  let ?k = "k\<lparr>page_list := (page_list k)(i := list_move_to v (page_list k i))\<rparr>"
  have p: "page_list ?k = (page_list k)(i := list_move_to v (page_list k i))" by simp
  have o: "page_ok ?k w j = page_ok k w j" for w j by (simp add: page_ok_def page_shape_def)
  show "kmem_ok ?k A" using ok dj unfolding kmem_ok_def p s o by blast
  show "live (k\<lparr>page_list := pl\<rparr>) A = live k A" by (simp add: live_def)
qed

lemma kmem_butD:
  assumes "kmem_but k A u" "i \<le> KMALLOC_MAX_ORDER" "v \<in> set (page_list k i)"
  shows "page_shape k v i" "v \<in> A"
  using assms by (auto simp: kmem_but_def)

lemma take_obj_ok:
  assumes but: "kmem_but k A v" and v: "v \<in> set (page_list k i)" "i \<le> KMALLOC_MAX_ORDER"
    and f: "free_list (kpages k v) = fetch # free"
  shows "kmem_ok (take_obj k v fetch free) A"
    "live (take_obj k v fetch free) A = insert (fetch + of_nat sizeof_obj_head, i) (live k A)"
    "fetch \<in> slots v i" "fetch \<notin> set (used_list (kpages k v))"
proof -
  let ?k = "take_obj k v fetch free"
  note sh = kmem_butD(1) [OF but v(2,1)]
  have shv: "page_shape ?k v i" using sh f by (auto simp: page_shape_def take_obj_def)
  have shw: "page_shape ?k w j = page_shape k w j" "used_list (kpages ?k w) = used_list (kpages k w)"
    if "w \<noteq> v" for w j
    using that by (simp_all add: page_shape_def take_obj_def)
  have i_only: "j = i" if "v \<in> set (page_list k j)" "j \<le> KMALLOC_MAX_ORDER" for j
    using kmem_butD(1) [OF but that(2,1)] sh by (simp add: page_shape_def)
  have "kmem_but ?k A v" unfolding kmem_but_def
  proof (intro conjI allI impI ballI)
    have pl: "page_list ?k = page_list k" by (simp add: take_obj_def)
    show "A = (\<Union>i\<le>KMALLOC_MAX_ORDER. set (page_list ?k i))" using but by (simp add: kmem_but_def pl)
    fix j assume j: "j \<le> KMALLOC_MAX_ORDER"
    show "distinct (page_list ?k j)" using but j by (simp add: kmem_but_def pl)
    fix w assume w: "w \<in> set (page_list ?k j)"
    show "page_shape ?k w j"
    proof (cases "w = v")
      case True
      then show ?thesis using i_only [of j] j w shv by (simp add: pl)
    next
      case False
      then show ?thesis using shw(1) [OF False] kmem_butD(1) [OF but j, of w] w by (simp add: pl)
    qed
    show "used_list (kpages ?k w) \<noteq> []" if "w \<noteq> v"
      using shw(2) [OF that] that but j w by (simp add: kmem_but_def pl)
  qed
  moreover have "used_list (kpages ?k v) \<noteq> []" by (simp add: take_obj_def)
  ultimately show "kmem_ok ?k A" by (rule kmem_but_ok(1))
  have vA: "v \<in> A" "kindex (kpages k v) = i" using kmem_butD(2) [OF but v(2,1)] sh by (simp_all add: page_shape_def)
  have ul: "set (used_list (kpages ?k w)) = (if w = v then insert fetch (set (used_list (kpages k w)))
      else set (used_list (kpages k w)))" "kindex (kpages ?k w) = kindex (kpages k w)" for w
    by (simp_all add: take_obj_def)
  show "live ?k A = insert (fetch + of_nat sizeof_obj_head, i) (live k A)"
    unfolding live_def ul using vA by (auto split: if_splits)
  show "fetch \<in> slots v i" "fetch \<notin> set (used_list (kpages k v))"
    using sh f by (auto simp: page_shape_def)
qed

text \<open>A fresh page in front of its list.\<close>

definition add_page :: "kmem \<Rightarrow> u32 \<Rightarrow> nat \<Rightarrow> kmem" where
  "add_page k v i = k\<lparr>kpages := (kpages k)(v := init_page v i),
     page_list := (page_list k)(i := v # page_list k i)\<rparr>"

lemma add_page_ok:
  assumes ok: "kmem_ok k A" and v: "v \<notin> A" "page_offset v = 0" "v \<noteq> 0" and i: "i \<le> KMALLOC_MAX_ORDER"
  shows "kmem_but (add_page k v i) (insert v A) v" "live (add_page k v i) (insert v A) = live k A"
    "free_list (kpages (add_page k v i) v) \<noteq> []"
proof -
  let ?k = "add_page k v i"
  note ip = init_page_slots [OF v(2), of i]
  have notin: "v \<notin> set (page_list k j)" if "j \<le> KMALLOC_MAX_ORDER" for j
    using kmem_okD(2) [OF ok that] v(1) by blast
  have kp: "kpages ?k v = init_page v i" "w \<noteq> v \<Longrightarrow> kpages ?k w = kpages k w" for w
    by (simp_all add: add_page_def)
  have pl: "set (page_list ?k j) = (if j = i then insert v (set (page_list k i)) else set (page_list k j))" for j
    by (simp add: add_page_def)
  have u0: "used_list (init_page v i) = []" "kindex (init_page v i) = i" by (simp_all add: init_page_def)
  show "kmem_but ?k (insert v A) v" unfolding kmem_but_def
  proof (intro conjI allI impI ballI)
    have "A = (\<Union>i\<le>KMALLOC_MAX_ORDER. set (page_list k i))" using ok by (simp add: kmem_ok_def)
    then show "insert v A = (\<Union>i\<le>KMALLOC_MAX_ORDER. set (page_list ?k i))"
      unfolding pl using i by (auto split: if_splits)
    fix j assume j: "j \<le> KMALLOC_MAX_ORDER"
    show "distinct (page_list ?k j)"
      using kmem_okD(3) [OF ok j] notin [OF j] by (cases "j = i") (simp_all add: add_page_def)
    fix w assume w: "w \<in> set (page_list ?k j)"
    have old: "w \<noteq> v \<Longrightarrow> page_ok k w j"
      using w kmem_okD(2) [OF ok j, of w] unfolding pl by (auto split: if_splits)
    show "page_shape ?k w j"
    proof (cases "w = v")
      case True
      then have "j = i" using w notin [OF j] unfolding pl by (auto split: if_splits)
      then show ?thesis using True v ip u0 by (simp add: page_shape_def kp)
    next
      case False
      then show ?thesis using old kp(2) by (simp add: page_ok_def page_shape_def)
    qed
    show "used_list (kpages ?k w) \<noteq> []" if "w \<noteq> v" using old that kp(2) by (simp add: page_ok_def)
  qed
  have "live ?k (insert v A) = live ?k A" using kp(1) u0 by (auto simp: live_def)
  also have "\<dots> = live k A" unfolding live_def using kp(2) v(1) by (metis (no_types, lifting))
  finally show "live ?k (insert v A) = live k A" .
  show "free_list (kpages ?k v) \<noteq> []" using ip(2) slots_nonempty [OF i, of v] kp(1) by auto
qed

text \<open>Moving an object from the used to the free list.\<close>

definition put_obj :: "kmem \<Rightarrow> u32 \<Rightarrow> u32 \<Rightarrow> kmem" where
  "put_obj k v ob = k\<lparr>kpages := (kpages k)(v := (kpages k v)\<lparr>
     used_list := remove1 ob (used_list (kpages k v)), free_list := list_move_to ob (free_list (kpages k v))\<rparr>)\<rparr>"

lemma live_other:
  assumes ok: "kmem_ok k A" and v: "v \<in> A" "page_ok k v i"
    and ob: "ob \<in> set (used_list (kpages k v))" and w: "w \<in> A" "x \<in> set (used_list (kpages k w))"
    and e: "x + of_nat sizeof_obj_head = ob + of_nat sizeof_obj_head"
  shows "w = v \<and> x = ob"
proof -
  have x: "x = ob" using e by simp
  from kmem_okD(1) [OF ok w(1)] obtain j where j: "page_ok k w j" by blast
  from page_okD(5) [OF v(2)] ob obtain n where n: "ob = slot v i n" "slot_fits i n"
    by (auto simp: slots_def)
  from page_okD(5) [OF j] w(2) obtain m where m: "x = slot w j m" "slot_fits j m"
    by (auto simp: slots_def)
  have "w = v" using slot_props(3) [OF page_okD(1) [OF v(2)] n(2)] slot_props(3) [OF page_okD(1) [OF j] m(2)]
      n(1) m(1) x by simp
  with x show ?thesis by simp
qed

lemma put_obj_ok:
  assumes ok: "kmem_ok k A" and v: "v \<in> A" "page_ok k v i" "v \<in> set (page_list k i)" "i \<le> KMALLOC_MAX_ORDER"
    and ob: "ob \<in> set (used_list (kpages k v))"
  shows "kmem_but (put_obj k v ob) A v"
    "live (put_obj k v ob) A = live k A - {(ob + of_nat sizeof_obj_head, i)}"
    "used_list (kpages (put_obj k v ob) v) = remove1 ob (used_list (kpages k v))"
proof -
  let ?k = "put_obj k v ob"
  note P = page_okD [OF v(2)]
  have nf: "ob \<notin> set (free_list (kpages k v))" using P(4) ob by auto
  have pl: "page_list ?k = page_list k" by (simp add: put_obj_def)
  have ul: "used_list (kpages ?k w) = (if w = v then remove1 ob (used_list (kpages k v)) else used_list (kpages k w))"
    "kindex (kpages ?k w) = kindex (kpages k w)"
    "free_list (kpages ?k w) = (if w = v then ob # free_list (kpages k v) else free_list (kpages k w))" for w
    using nf by (simp_all add: put_obj_def list_move_to_def remove1_idem)
  show "used_list (kpages ?k v) = remove1 ob (used_list (kpages k v))" by (simp add: ul)
  have du: "distinct (used_list (kpages k v))" using P(4) by simp
  have shv: "page_shape ?k v i"
    using P ob du unfolding page_shape_def ul by (auto simp: set_remove1_eq)
  have i_only: "j = i" if "v \<in> set (page_list k j)" "j \<le> KMALLOC_MAX_ORDER" for j
    using kmem_okD(2) [OF ok that(2,1)] P(3) page_okD(3) by blast
  show "kmem_but ?k A v" unfolding kmem_but_def pl
  proof (intro conjI allI impI ballI)
    show "A = (\<Union>i\<le>KMALLOC_MAX_ORDER. set (page_list k i))" using ok by (simp add: kmem_ok_def)
    fix j assume j: "j \<le> KMALLOC_MAX_ORDER"
    show "distinct (page_list k j)" using kmem_okD(3) [OF ok j] .
    fix w assume w: "w \<in> set (page_list k j)"
    note W = kmem_okD(2) [OF ok j w]
    show "page_shape ?k w j"
    proof (cases "w = v")
      case True
      then show ?thesis using i_only [of j] j w shv by simp
    next
      case False
      then show ?thesis using W by (simp add: page_ok_def page_shape_def ul)
    qed
    show "used_list (kpages ?k w) \<noteq> []" if "w \<noteq> v" using W that by (simp add: page_ok_def ul)
  qed
  have "set (used_list (kpages ?k w)) = (if w = v then set (used_list (kpages k v)) - {ob} else set (used_list (kpages k w)))" for w
    using du by (simp add: ul set_remove1_eq)
  then have "live ?k A = {(x + of_nat sizeof_obj_head, kindex (kpages k w)) |w x. w \<in> A \<and>
      x \<in> (if w = v then set (used_list (kpages k v)) - {ob} else set (used_list (kpages k w)))}"
    by (simp add: live_def ul)
  also have "\<dots> = live k A - {(ob + of_nat sizeof_obj_head, i)}"
  proof (intro subset_antisym subsetI)
    fix y assume "y \<in> {(x + of_nat sizeof_obj_head, kindex (kpages k w)) |w x. w \<in> A \<and>
      x \<in> (if w = v then set (used_list (kpages k v)) - {ob} else set (used_list (kpages k w)))}"
    then obtain w x where y: "y = (x + of_nat sizeof_obj_head, kindex (kpages k w))" "w \<in> A"
      "x \<in> set (used_list (kpages k w))" "w = v \<Longrightarrow> x \<noteq> ob" by (auto split: if_splits)
    then have "x + of_nat sizeof_obj_head \<noteq> ob + of_nat sizeof_obj_head"
      using live_other [OF ok v(1,2) ob y(2,3)] by blast
    then show "y \<in> live k A - {(ob + of_nat sizeof_obj_head, i)}" using y by (auto simp: live_def)
  next
    fix y assume "y \<in> live k A - {(ob + of_nat sizeof_obj_head, i)}"
    then obtain w x where y: "y = (x + of_nat sizeof_obj_head, kindex (kpages k w))" "w \<in> A"
      "x \<in> set (used_list (kpages k w))" "y \<noteq> (ob + of_nat sizeof_obj_head, i)" by (auto simp: live_def)
    have "w = v \<Longrightarrow> x \<noteq> ob" using y(1,4) P(3) by auto
    with y(3) have "x \<in> (if w = v then set (used_list (kpages k v)) - {ob} else set (used_list (kpages k w)))"
      by auto
    with y(1,2) show "y \<in> {(x + of_nat sizeof_obj_head, kindex (kpages k w)) |w x. w \<in> A \<and>
      x \<in> (if w = v then set (used_list (kpages k v)) - {ob} else set (used_list (kpages k w)))}"
      by blast
  qed
  finally show "live ?k A = live k A - {(ob + of_nat sizeof_obj_head, i)}" .
qed

text \<open>A page without used objects leaves its list.\<close>

lemma drop_page_ok:
  assumes but: "kmem_but k A v" and v: "v \<in> set (page_list k i)" "i \<le> KMALLOC_MAX_ORDER"
    and u: "used_list (kpages k v) = []"
  shows "kmem_ok (k\<lparr>page_list := (page_list k)(i := remove1 v (page_list k i))\<rparr>) (A - {v})"
    "live (k\<lparr>page_list := pl\<rparr>) (A - {v}) = live k A"
proof -
  let ?k = "k\<lparr>page_list := (page_list k)(i := remove1 v (page_list k i))\<rparr>"
  have d: "distinct (page_list k i)" using but v(2) by (simp add: kmem_but_def)
  have only: "j = i" if "v \<in> set (page_list k j)" "j \<le> KMALLOC_MAX_ORDER" for j
    using kmem_butD(1) [OF but that(2,1)] kmem_butD(1) [OF but v(2,1)] by (simp add: page_shape_def)
  have s: "set (page_list ?k j) = set (page_list k j) - {v}" if "j \<le> KMALLOC_MAX_ORDER" for j
    using only [of j] d that by (auto simp: set_remove1_eq)
  have o: "page_ok ?k w j = page_ok k w j" for w j by (simp add: page_ok_def page_shape_def)
  show "kmem_ok ?k (A - {v})" unfolding kmem_ok_def o
  proof (intro conjI allI impI ballI)
    have "A = (\<Union>j\<le>KMALLOC_MAX_ORDER. set (page_list k j))" using but by (simp add: kmem_but_def)
    then show "A - {v} = (\<Union>j\<le>KMALLOC_MAX_ORDER. set (page_list ?k j))" using s by auto
    fix j assume j: "j \<le> KMALLOC_MAX_ORDER"
    show "distinct (page_list ?k j)" using but j d by (simp add: kmem_but_def)
    fix w assume "w \<in> set (page_list ?k j)"
    then have "w \<in> set (page_list k j)" "w \<noteq> v" using s [OF j] by auto
    then show "page_ok k w j" using but j by (simp add: kmem_but_def page_ok_def)
  qed
  have "w \<in> A - {v} \<and> x \<in> set (used_list (kpages k w)) \<longleftrightarrow> w \<in> A \<and> x \<in> set (used_list (kpages k w))" for w x
    using u by auto
  then show "live (k\<lparr>page_list := pl\<rparr>) (A - {v}) = live k A" unfolding live_def by simp
qed

context page_source
begin

lemma kmalloc_page_inv:
  assumes ok: "kmem_ok k A" and s: "srel s A" and i: "i \<le> KMALLOC_MAX_ORDER"
  shows "kmalloc_page get k s i = Some (None, k, s) \<or>
    (\<exists>v k1 s1 A1. kmalloc_page get k s i = Some (Some v, k1, s1) \<and> kmem_but k1 A1 v \<and> srel s1 A1 \<and>
       v \<in> set (page_list k1 i) \<and> free_list (kpages k1 v) \<noteq> [] \<and> live k1 A1 = live k A)"
proof (cases "page_list k i = [] \<or> free_list (kpages k (hd (page_list k i))) = []")
  case False
  then have "hd (page_list k i) \<in> set (page_list k i)" by simp
  moreover have "kmalloc_page get k s i = Some (Some (hd (page_list k i)), k, s)"
    using False by (simp add: kmalloc_page_def)
  moreover have "kmem_but k A (hd (page_list k i))" by (rule kmem_but_ok(2) [OF ok])
  ultimately show ?thesis using False s by blast
next
  case True
  from get_total [OF s] obtain r s1 where g: "get s = Some (r, s1)" by blast
  show ?thesis
  proof (cases r)
    case None
    then show ?thesis using g get_none [OF s] True by (simp add: kmalloc_page_def)
  next
    case (Some v)
    note n = get_some [OF s g [unfolded Some]]
    have "kmalloc_page get k s i = Some (Some v, add_page k v i, s1)"
      using True g Some by (simp add: kmalloc_page_def add_page_def)
    moreover have "v \<in> set (page_list (add_page k v i) i)" by (simp add: add_page_def)
    ultimately show ?thesis using add_page_ok [OF ok, of v i] n i by blast
  qed
qed

lemma kmalloc_inv:
  assumes ok: "kmem_ok k A" and s: "srel s A" and i: "kmalloc_index sz = int i"
  shows "kmalloc get k s sz = Some (None, k, s) \<or>
    (\<exists>a k' s' A'. kmalloc get k s sz = Some (Some a, k', s') \<and> kmem_ok k' A' \<and> srel s' A' \<and>
       (a, i) \<notin> live k A \<and> live k' A' = insert (a, i) (live k A) \<and> a \<noteq> 0)"
proof -
  have iM: "i \<le> KMALLOC_MAX_ORDER"
    using i by (auto simp: kmalloc_index_def Let_def split: if_splits)
  from kmalloc_page_inv [OF ok s iM] show ?thesis
  proof (elim disjE exE conjE)
    assume "kmalloc_page get k s i = Some (None, k, s)"
    then show ?thesis using i by (simp add: kmalloc_def Let_def)
  next
    fix v k1 s1 A1
    assume p: "kmalloc_page get k s i = Some (Some v, k1, s1)" "kmem_but k1 A1 v" "srel s1 A1"
      "v \<in> set (page_list k1 i)" "free_list (kpages k1 v) \<noteq> []" "live k1 A1 = live k A"
    then obtain fetch free where f: "free_list (kpages k1 v) = fetch # free" by (cases "free_list (kpages k1 v)") auto
    let ?a = "fetch + of_nat sizeof_obj_head"
    note T = take_obj_ok [OF p(2,4) iM f]
    note sh = kmem_butD(1) [OF p(2) iM p(4)]
    from T(3) obtain n where n: "fetch = slot v i n" "slot_fits i n" by (auto simp: slots_def)
    have v0: "page_offset v = 0" using sh by (simp add: page_shape_def)
    note S = slot_props [OF v0 n(2)]
    have a0: "?a \<noteq> 0" using S(3) n(1) sh by (auto simp: page_shape_def PAGE_FLOOR_def)
    have fresh: "(?a, i) \<notin> live k1 A1"
    proof
      assume "(?a, i) \<in> live k1 A1"
      then obtain w ob where w: "w \<in> A1" "ob \<in> set (used_list (kpages k1 w))" "?a = ob + of_nat sizeof_obj_head"
        by (auto simp: live_def)
      then have ob: "ob = fetch" by simp
      from w(1) p(2) obtain j where j: "j \<le> KMALLOC_MAX_ORDER" "w \<in> set (page_list k1 j)"
        by (auto simp: kmem_but_def)
      have shw: "page_shape k1 w j" using kmem_butD(1) [OF p(2) j] .
      then have "ob \<in> slots w j" using w(2) by (auto simp: page_shape_def)
      then obtain m where m: "ob = slot w j m" "slot_fits j m" by (auto simp: slots_def)
      have "w = v" using slot_props(3) [of w j m] shw m S(3) n(1) ob by (simp add: page_shape_def)
      then show False using T(4) w(2) ob by simp
    qed
    have ki: "kindex (kpages k1 v) = i" using sh by (simp add: page_shape_def)
    let ?k = "take_obj k1 v fetch free"
    have pl: "page_list ?k = page_list k1" by (simp add: take_obj_def)
    note R = kmem_ok_reorder [OF T(1), of v i, unfolded pl, OF p(4) iM]
    show ?thesis
    proof (cases "free = []")
      case True
      then show ?thesis using kmalloc_eq [OF i p(1) f] R T(2) p(3,6) fresh a0 ki by auto
    next
      case False
      then show ?thesis using kmalloc_eq [OF i p(1) f] T(1,2) p(3,6) fresh a0 by auto
    qed
  qed
qed

lemma kfree_inv:
  assumes ok: "kmem_ok k A" and s: "srel s A" and a: "(a, i) \<in> live k A"
  shows "\<exists>k' s' A'. kfree put k s a = Some (k', s') \<and> kmem_ok k' A' \<and> srel s' A' \<and>
    live k' A' = live k A - {(a, i)}"
proof -
  obtain v j n where v: "v \<in> A" "page_ok k v j" "slot_fits j n" "slot v j n \<in> set (used_list (kpages k v))"
    "(a, i) = (slot v j n + of_nat sizeof_obj_head, j)" "j \<le> KMALLOC_MAX_ORDER" "v \<in> set (page_list k j)"
    by (rule live_slot [OF ok a])
  let ?ob = "slot v j n"
  have ai: "a = ?ob + of_nat sizeof_obj_head" "i = j" using v(5) by simp_all
  note P = page_okD [OF v(2)] and S = slot_props [OF page_okD(1) [OF v(2)] v(3)]
  have a0: "a \<noteq> 0" using S(3) P(2) by (auto simp: ai PAGE_FLOOR_def)
  note O = put_obj_ok [OF ok v(1,2,7,6,4)]
  have iv: "v \<in> set (page_list (put_obj k v ?ob) j)" using v(7) by (simp add: put_obj_def)
  have pl: "page_list (put_obj k v ?ob) = page_list k" by (simp add: put_obj_def)
  have fa: "PAGE_FLOOR a = v" "a - of_nat sizeof_obj_head = ?ob" using S(3) by (simp_all add: ai)
  have e: "kfree put k s a = (if used_list (kpages (put_obj k v ?ob) v) = []
      then do { s \<leftarrow> put s v; Some ((put_obj k v ?ob)\<lparr>page_list := (page_list k)(j := remove1 v (page_list k j))\<rparr>, s) }
      else Some ((put_obj k v ?ob)\<lparr>page_list := (page_list k)(j := list_move_to v (page_list k j))\<rparr>, s))"
    using a0 v(4) P(3) by (simp add: kfree_def fa Let_def put_obj_def)
  show ?thesis
  proof (cases "used_list (kpages (put_obj k v ?ob) v) = []")
    case True
    from put_ok [OF s v(1)] obtain s' where s': "put s v = Some s'" "srel s' (A - {v})" by blast
    note D = drop_page_ok [OF O(1) iv v(6) True, unfolded pl]
    show ?thesis using e True s' D O(2) ai by auto
  next
    case False
    note R = kmem_ok_reorder [OF kmem_but_ok(1) [OF O(1) False] iv v(6), unfolded pl]
    show ?thesis using e False s R O(2) ai by auto
  qed
qed

end

subsection \<open>The page source of the kernel\<close>

definition kget :: "mm \<Rightarrow> (u32 option \<times> mm) option" where
  "kget m = get_free_pages m (GFP_NORMAL OR GFP_DMA) 0"

definition kput :: "mm \<Rightarrow> u32 \<Rightarrow> mm option" where
  "kput m v = free_pages m v 0"

text \<open>The pages whose addresses are in \<open>A\<close> are handed out as single pages.\<close>

definition mm_owns :: "mm \<Rightarrow> u32 set \<Rightarrow> bool" where
  "mm_owns m A \<longleftrightarrow> (\<exists>a. mm_rel m a \<and>
     (\<forall>v\<in>A. \<exists>p. virt_to_page m v = Some p \<and> page_to_virt m p = Some v \<and> a p = Some 0))"


lemma kget_alloc: "kget m = do { (page, m) \<leftarrow> alloc_pages m ZONE_NORMAL 0;
    (case page of Some p \<Rightarrow> do { v \<leftarrow> page_to_virt m p; Some (Some v, m) } | None \<Rightarrow> Some (None, m)) }"
proof -
  have "(GFP_NORMAL OR GFP_DMA) AND GFP_NORMAL \<noteq> 0" by (simp add: GFP_NORMAL_def GFP_DMA_def)
  then show ?thesis by (simp add: kget_def get_free_pages_def)
qed

lemma va_page:
  assumes "PAGE_FLOOR a = a" "unat a < 0x38000000"
  shows "page_offset (va a) = 0" "va a \<noteq> 0" "pa (va a) = a"
proof -
  have d: "4096 dvd unat a" using assms(1) by (simp flip: page_offset_dvd add: page_offset_zero_iff)
  have u: "unat (va a) = unat a + 0xC0000000"
    using assms(2) by (simp add: va_def PAGE_OFFSET_def unat_word_ariths)
  have "4096 dvd unat (va a)" unfolding u using d by (simp add: dvd_add)
  then show "page_offset (va a) = 0" by (simp add: page_offset_dvd)
  show "va a \<noteq> 0" using u by (metis add_is_0 unat_0 zero_neq_numeral)
  show "pa (va a) = a" by (simp add: pa_def va_def)
qed

lemma kget_step:
  assumes rel: "mm_rel m a"
  shows "kget m = Some (None, m) \<or>
    (\<exists>p v m'. kget m = Some (Some v, m') \<and> virt_to_page m v = Some p \<and> page_to_virt m p = Some v \<and>
       page_offset v = 0 \<and> v \<noteq> 0 \<and> a p = None \<and> mm_rel m' (a(p \<mapsto> 0)) \<and>
       virt_to_page m' = virt_to_page m \<and> page_to_virt m' = page_to_virt m)"
proof -
  have t: "ZONE_NORMAL < NR_ZONE_TYPES" "0 \<le> MAX_ORDER" by (simp_all add: zone_consts)
  from mm_alloc_step [OF rel t] show ?thesis
  proof (elim disjE exE conjE)
    assume "alloc_pages m ZONE_NORMAL 0 = Some (None, m)"
    then show ?thesis by (simp add: kget_alloc)
  next
    fix p m' i
    assume p: "alloc_pages m ZONE_NORMAL 0 = Some (Some p, m')" "i \<in> set (fast_zone_entry m ZONE_NORMAL)"
      "block_fits (bbase (zones m i)) (bend (zones m i)) p 0" "a p = None" "mm_rel m' (a(p \<mapsto> 0))"
      "page_to_phys m' = page_to_phys m" "phys_to_page m' = phys_to_page m"
    have l: "layout_ok m" using rel by (auto simp: mm_rel_def mm_inv_def)
    have i: "i \<in> set (zone_all_for_each m)" using p(2) t(1) by (auto simp: set_zone_all)
    note B = block_fitsD [OF p(3)]
    from page_phys [OF l i B(1,5)] obtain x where x: "page_to_phys m p = Some x"
      "unat x = unat (base_addr (zones m i)) + (p - bbase (zones m i)) * 4096"
      "phys_to_page m x = Some p" "PAGE_FLOOR x = x" by metis
    have "unat x < 0x38000000"
    proof -
      have "p - bbase (zones m i) < bend (zones m i) - bbase (zones m i)" using B(1,5) by simp
      then show ?thesis using layout_okD(1) [OF l t(1) p(2)] x(2)
        by (simp add: zone_ok_def zone_consts)
    qed
    note V = va_page [OF x(4) this]
    have "virt_to_page m (va x) = Some p" "page_to_virt m p = Some (va x)"
      using x V(3) by (simp_all add: virt_to_page_def page_to_virt_def)
    moreover have "virt_to_page m' = virt_to_page m" "page_to_virt m' = page_to_virt m"
      using p(6,7) by (simp_all add: virt_to_page_def page_to_virt_def fun_eq_iff)
    moreover have "kget m = Some (Some (va x), m')"
      using p(1) calculation by (simp add: kget_alloc)
    ultimately show ?thesis using V(1,2) p(4,5) by blast
  qed
qed

interpretation kpages: page_source mm_owns kget kput
proof
  fix m A
  assume "mm_owns m A"
  then obtain a where rel: "mm_rel m a"
    and A: "\<And>v. v \<in> A \<Longrightarrow> \<exists>p. virt_to_page m v = Some p \<and> page_to_virt m p = Some v \<and> a p = Some 0"
    by (auto simp: mm_owns_def)
  note g = kget_step [OF rel]
  show "\<exists>r m'. kget m = Some (r, m')" using g by auto
  show "m' = m" if "kget m = Some (None, m')" for m' using g that by auto
  show "v \<notin> A \<and> page_offset v = 0 \<and> v \<noteq> 0 \<and> mm_owns m' (insert v A)"
    if "kget m = Some (Some v, m')" for v m'
  proof -
    from g that obtain p where p: "virt_to_page m v = Some p" "page_to_virt m p = Some v"
      "page_offset v = 0" "v \<noteq> 0" "a p = None" "mm_rel m' (a(p \<mapsto> 0))"
      "virt_to_page m' = virt_to_page m" "page_to_virt m' = page_to_virt m" by auto
    have "v \<notin> A" using A [of v] p(1,5) by auto
    moreover have "\<exists>q. virt_to_page m' w = Some q \<and> page_to_virt m' q = Some w \<and> (a(p \<mapsto> 0)) q = Some 0"
      if "w \<in> insert v A" for w
    proof (cases "w = v")
      case True
      then show ?thesis using p(1,2,7,8) by simp
    next
      case False
      with that A [of w] obtain q where q: "virt_to_page m w = Some q" "page_to_virt m q = Some w" "a q = Some 0"
        by blast
      then have "q \<noteq> p" using p(5) by auto
      with q p(7,8) show ?thesis by simp
    qed
    then have "mm_owns m' (insert v A)" unfolding mm_owns_def using p(6) by blast
    ultimately show ?thesis using p(3,4) by blast
  qed
  show "\<exists>m'. kput m v = Some m' \<and> mm_owns m' (A - {v})" if v: "v \<in> A" for v
  proof -
    from A [OF v] obtain p where p: "virt_to_page m v = Some p" "page_to_virt m p = Some v" "a p = Some 0"
      by blast
    from mm_dealloc_step [OF rel p(3)] obtain m' where m': "dealloc_pages m p 0 = Some m'"
      "mm_rel m' (a(p := None))" "page_to_phys m' = page_to_phys m" "phys_to_page m' = phys_to_page m"
      by blast
    have tr: "virt_to_page m' = virt_to_page m" "page_to_virt m' = page_to_virt m"
      using m'(3,4) by (simp_all add: virt_to_page_def page_to_virt_def fun_eq_iff)
    have "\<exists>q. virt_to_page m' w = Some q \<and> page_to_virt m' q = Some w \<and> (a(p := None)) q = Some 0"
      if w: "w \<in> A - {v}" for w
    proof -
      from A [of w] w obtain q where q: "virt_to_page m w = Some q" "page_to_virt m q = Some w" "a q = Some 0"
        by blast
      have "q \<noteq> p" using q(2) p(2) w by auto
      with q tr show ?thesis by auto
    qed
    then have "mm_owns m' (A - {v})" unfolding mm_owns_def using m'(2) by blast
    then show ?thesis using p(1) m'(1) by (simp add: kput_def free_pages_def)
  qed
qed

end
