(* ===== verification/Fs_State.thy ===== *)
theory Fs_State
  imports Semaphore Kmalloc Walk
begin

text \<open>
  The data of the file system layer (include/sins/fs.h, include/fs/minix.h) and the kernel state
  it works on: the tasks and their wait queues, the page allocator, the object allocator and the
  bytes of memory.  An object is named by its address, the address \<open>kmalloc\<close> returned for it; a
  nullable pointer is a \<open>u32 option\<close>.  List heads inside objects are the HOL lists of the entries,
  first entry first.  Function pointers to drivers and file system types, which are registered at run time,
  are collected in the record \<open>env\<close>, an argument of the operations that call them; a driver may
  change the whole state, and that includes whatever other tasks do while it sleeps.
\<close>

subsection \<open>Memory\<close>

record vm = sem_sched +
  vmm :: mm
  vkm :: kmem
  kernel_dir :: u32
  ram :: "u32 \<Rightarrow> u8"

text \<open>\<open>kmalloc\<close>, \<open>kfree\<close>, \<open>get_free_page(GFP_NORMAL | GFP_DMA)\<close> and \<open>free_page\<close>.\<close>

definition kalloc :: "u32 \<Rightarrow> 'a vm_scheme \<Rightarrow> (u32 option \<times> 'a vm_scheme) option" where
  "kalloc sz s =
     do { (a, k, m) \<leftarrow> kmalloc kget (vkm s) (vmm s) sz;
          Some (a, s\<lparr>vkm := k, vmm := m\<rparr>) }"

definition krelease :: "u32 \<Rightarrow> 'a vm_scheme \<Rightarrow> 'a vm_scheme option" where
  "krelease a s =
     do { (k, m) \<leftarrow> kfree kput (vkm s) (vmm s) a;
          Some (s\<lparr>vkm := k, vmm := m\<rparr>) }"

definition get_page :: "'a vm_scheme \<Rightarrow> (u32 option \<times> 'a vm_scheme) option" where
  "get_page s = do { (v, m) \<leftarrow> kget (vmm s); Some (v, s\<lparr>vmm := m\<rparr>) }"

definition put_page :: "u32 \<Rightarrow> 'a vm_scheme \<Rightarrow> 'a vm_scheme option" where
  "put_page v s = do { m \<leftarrow> kput (vmm s) v; Some (s\<lparr>vmm := m\<rparr>) }"

definition load_bytes :: "'a vm_scheme \<Rightarrow> u32 \<Rightarrow> nat \<Rightarrow> u8 list" where
  "load_bytes s a n = map (\<lambda>i. ram s (a + of_nat i)) [0..<n]"

definition store_bytes :: "u32 \<Rightarrow> u8 list \<Rightarrow> 'a vm_scheme \<Rightarrow> 'a vm_scheme" where
  "store_bytes a bs s = s\<lparr>ram := fold (\<lambda>i m. m(a + of_nat i := bs ! i)) [0..<length bs] (ram s)\<rparr>"

text \<open>Little-endian reads.\<close>

definition load16 :: "'a vm_scheme \<Rightarrow> u32 \<Rightarrow> u16" where
  "load16 s a = word_of_int (horner_sum uint 256 (load_bytes s a 2))"

definition load32 :: "'a vm_scheme \<Rightarrow> u32 \<Rightarrow> u32" where
  "load32 s a = word_of_int (horner_sum uint 256 (load_bytes s a 4))"

definition store_u32 :: "u32 \<Rightarrow> u32 \<Rightarrow> 'a vm_scheme \<Rightarrow> 'a vm_scheme" where
  "store_u32 a v s = store_bytes a (map (\<lambda>i. ucast (drop_bit (8 * i) v)) [0..<4]) s"

subsection \<open>Device numbers, file types and flags\<close>

definition MAJOR :: "u32 \<Rightarrow> u32" where "MAJOR dev = drop_bit 20 dev"
definition MINOR :: "u32 \<Rightarrow> u32" where "MINOR dev = dev AND 0x000FFFFF"
definition MKDEV :: "u32 \<Rightarrow> u32 \<Rightarrow> u32" where
  "MKDEV major minor = push_bit 20 major + (minor AND 0x000FFFFF)"

definition MAX_NAME_LEN :: nat where "MAX_NAME_LEN = 20"
definition NR_CHRDEVS :: nat where "NR_CHRDEVS = 32"
definition NR_BLKDEVS :: nat where "NR_BLKDEVS = 32"

definition FT_MASK :: u32 where "FT_MASK = 0x0F000"
definition FT_CHR :: u32 where "FT_CHR = 0x01000"
definition FT_BLK :: u32 where "FT_BLK = 0x02000"
definition FT_REG :: u32 where "FT_REG = 0x03000"
definition FT_DIR :: u32 where "FT_DIR = 0x04000"

definition IS_CHR :: "u32 \<Rightarrow> bool" where "IS_CHR mode \<longleftrightarrow> mode AND FT_MASK = FT_CHR"
definition IS_BLK :: "u32 \<Rightarrow> bool" where "IS_BLK mode \<longleftrightarrow> mode AND FT_MASK = FT_BLK"
definition IS_REG :: "u32 \<Rightarrow> bool" where "IS_REG mode \<longleftrightarrow> mode AND FT_MASK = FT_REG"
definition IS_DIR :: "u32 \<Rightarrow> bool" where "IS_DIR mode \<longleftrightarrow> mode AND FT_MASK = FT_DIR"

definition SET_CHR :: "u32 \<Rightarrow> u32" where "SET_CHR mode = mode OR (FT_MASK AND FT_CHR)"
definition SET_BLK :: "u32 \<Rightarrow> u32" where "SET_BLK mode = mode OR (FT_MASK AND FT_BLK)"
definition SET_REG :: "u32 \<Rightarrow> u32" where "SET_REG mode = mode OR (FT_MASK AND FT_REG)"
definition SET_DIR :: "u32 \<Rightarrow> u32" where "SET_DIR mode = mode OR (FT_MASK AND FT_DIR)"

definition O_CREAT :: u32 where "O_CREAT = 0x04"
definition O_TRUNC :: u32 where "O_TRUNC = 0x08"
definition O_MASK :: u32 where "O_MASK = 0x1F"
definition BLK_READ :: nat where "BLK_READ = 0"
definition BLK_WRITE :: nat where "BLK_WRITE = 1"
definition BLOCK_SIZE :: nat where "BLOCK_SIZE = 4096"

subsection \<open>Objects\<close>

text \<open>The three static tables of operations an inode can have.\<close>

datatype inode_fops = Def_file_fops | Def_chr_fops | Def_blk_fops

text \<open>\<open>i_word\<close> is the union of \<open>size\<close> and \<open>rdev\<close>, \<open>i_zone\<close> the zone table of a minix inode.\<close>

record inode =
  i_nr :: u32
  i_mode :: u32
  i_uid :: u32
  i_word :: u32
  i_mtime :: u32
  i_atime :: u32
  i_ctime :: u32
  i_gid :: u32
  i_nlinks :: u32
  i_fops :: "inode_fops option"
  i_sb :: "u32 option"
  i_dirty :: bool
  i_ref :: u32
  i_zone :: "nat \<Rightarrow> u16"

definition i_size :: "inode \<Rightarrow> int" where "i_size i = sint (i_word i)"
definition i_rdev :: "inode \<Rightarrow> u32" where "i_rdev i = i_word i"

definition zero_inode :: inode where
  "zero_inode = \<lparr>i_nr = 0, i_mode = 0, i_uid = 0, i_word = 0, i_mtime = 0, i_atime = 0, i_ctime = 0,
     i_gid = 0, i_nlinks = 0, i_fops = None, i_sb = None, i_dirty = False, i_ref = 0, i_zone = (\<lambda>_. 0)\<rparr>"

record dentry =
  d_name :: "u8 list"
  d_name_len :: nat
  d_parent :: "u32 option"
  d_sb :: "u32 option"
  d_inode :: "u32 option"
  d_children :: "u32 list"
  d_mount :: "u32 option"
  d_ref :: u32

definition zero_dentry :: dentry where
  "zero_dentry = \<lparr>d_name = replicate MAX_NAME_LEN 0, d_name_len = 0, d_parent = None, d_sb = None,
     d_inode = None, d_children = [], d_mount = None, d_ref = 0\<rparr>"

record filp =
  f_flags :: u32
  f_pos :: int
  f_inode :: u32
  f_private :: "u32 option"
  f_ref :: u32

record minix_super_block =
  ms_ninodes :: u16
  ms_nzones :: u16
  ms_imap_blocks :: u16
  ms_zmap_blocks :: u16
  ms_firstdatazone :: u16
  ms_log_zone_size :: u16
  ms_max_size :: u32
  ms_magic :: u16
  ms_imap :: "nat \<Rightarrow> u32 option"
  ms_zmap :: "nat \<Rightarrow> u32 option"

record super_block =
  sb_fs_type :: "nat option"
  sb_magic :: u32
  sb_dev :: u32
  sb_parent :: u32
  sb_root :: "u32 option"
  sb_inodes :: "u32 list"
  sb_dentries :: "u32 list"
  sb_minix :: minix_super_block

record blk =
  b_nr :: u32
  b_dev :: u32
  b_data :: u32
  b_dirty :: bool
  b_uptodate :: bool

record minix_block =
  mb_data :: u32
  mb_blk :: u32
  mb_dirty :: bool

record char_device =
  cd_name :: "u8 list option"
  cd_fops :: "nat option"
  cd_ref :: u32

record block_device =
  bd_name :: "u8 list option"
  bd_rw :: "nat option"
  bd_block_size :: u32
  bd_ref :: u32

record fs = vm +
  inodes :: "u32 \<Rightarrow> inode"
  dentries :: "u32 \<Rightarrow> dentry"
  files :: "u32 \<Rightarrow> filp"
  supers :: "u32 \<Rightarrow> super_block"
  blks :: "u32 \<Rightarrow> blk"
  minix_blocks :: "u32 \<Rightarrow> minix_block"
  inode_hash :: "nat \<Rightarrow> u32 list"
  dentry_hash :: "nat \<Rightarrow> u32 list"
  iput_lock :: bool
  fs_types :: "nat list"
  fst_supers :: "nat \<Rightarrow> u32 list"
  droot :: u32
  iroot :: u32
  chrdevs :: "nat \<Rightarrow> char_device"
  blkdevs :: "nat \<Rightarrow> block_device"

text \<open>\<open>droot\<close> and \<open>iroot\<close> are the addresses of the two static objects of fs/super.c.\<close>

text \<open>\<open>sizeof\<close> the structures on the 32-bit machine, as passed to \<open>kmalloc\<close>.\<close>

definition sizeof_file :: u32 where "sizeof_file = 20"
definition sizeof_inode :: u32 where "sizeof_inode = 92"
definition sizeof_dentry :: u32 where "sizeof_dentry = 76"
definition sizeof_super_block :: u32 where "sizeof_super_block = 128"
definition sizeof_block :: u32 where "sizeof_block = 16"
definition sizeof_minix_block :: u32 where "sizeof_minix_block = 12"

subsection \<open>Tables of operations\<close>

text \<open>
  A null entry is \<open>None\<close>.  The position argument of \<open>read\<close>, \<open>write\<close> and \<open>readdir\<close> is left out: the
  callers always pass \<open>&filp->pos\<close>.
\<close>

record 's file_operations =
  fo_open :: "(u32 \<Rightarrow> u32 \<Rightarrow> 's \<Rightarrow> (int \<times> 's) option) option"
  fo_read :: "(u32 \<Rightarrow> u32 \<Rightarrow> u32 \<Rightarrow> 's \<Rightarrow> (int \<times> 's) option) option"
  fo_readdir :: "(u32 \<Rightarrow> u32 \<Rightarrow> u32 \<Rightarrow> 's \<Rightarrow> (int \<times> 's) option) option"
  fo_write :: "(u32 \<Rightarrow> u32 \<Rightarrow> u32 \<Rightarrow> 's \<Rightarrow> (int \<times> 's) option) option"
  fo_ioctl :: "(u32 \<Rightarrow> u32 \<Rightarrow> u32 \<Rightarrow> 's \<Rightarrow> (int \<times> 's) option) option"
  fo_lseek :: "(u32 \<Rightarrow> int \<Rightarrow> int \<Rightarrow> 's \<Rightarrow> (int \<times> 's) option) option"
  fo_close :: "(u32 \<Rightarrow> u32 \<Rightarrow> 's \<Rightarrow> (int \<times> 's) option) option"

record 's super_operations =
  so_lookup :: "(u32 \<Rightarrow> u8 list \<Rightarrow> 's \<Rightarrow> (u32 option \<times> 's) option) option"
  so_read_inode :: "(u32 \<Rightarrow> 's \<Rightarrow> (int \<times> 's) option) option"
  so_write_inode :: "(u32 \<Rightarrow> 's \<Rightarrow> (int \<times> 's) option) option"

record 's file_system_type =
  ft_name :: "u8 list option"
  ft_get_super :: "(u32 \<Rightarrow> 's \<Rightarrow> (int \<times> 's) option) option"
  ft_sops :: "('s super_operations) option"
  ft_fops :: "('s file_operations) option"

text \<open>
  What the operations call without knowing it: the drivers' tables by the numbers they are
  registered under, and what has become of the state when a \<open>wait\<close> returns.
\<close>

record 's env =
  chr_driver :: "nat \<Rightarrow> 's file_operations"
  blk_driver :: "nat \<Rightarrow> nat \<Rightarrow> u32 \<Rightarrow> 's \<Rightarrow> 's option"
  fs_driver :: "nat \<Rightarrow> 's file_system_type"
  sleep_on :: "wait_queue \<Rightarrow> 's \<Rightarrow> 's option"

text \<open>\<open>if (op != NULL) ret = op(...)\<close> with the value of \<open>ret\<close> otherwise.\<close>

definition call_op :: "'f option \<Rightarrow> int \<Rightarrow> ('f \<Rightarrow> 's \<Rightarrow> (int \<times> 's) option) \<Rightarrow> 's \<Rightarrow> (int \<times> 's) option" where
  "call_op f ret arg s = (case f of None \<Rightarrow> Some (ret, s) | Some f \<Rightarrow> arg f s)"

text \<open>\<open>wait_event(queue, event)\<close>: as long as the event has not come, wait.\<close>

partial_function (option) wait_event ::
    "'s env \<Rightarrow> wait_queue \<Rightarrow> ('s \<Rightarrow> bool) \<Rightarrow> 's \<Rightarrow> 's option" where
  "wait_event e q event s =
     (if event s then Some s else do { s \<leftarrow> sleep_on e q s; wait_event e q event s })"

subsection \<open>Updating one object\<close>

definition set_inode :: "u32 \<Rightarrow> (inode \<Rightarrow> inode) \<Rightarrow> 'a fs_scheme \<Rightarrow> 'a fs_scheme" where
  "set_inode i f s = s\<lparr>inodes := (inodes s)(i := f (inodes s i))\<rparr>"
definition set_dentry :: "u32 \<Rightarrow> (dentry \<Rightarrow> dentry) \<Rightarrow> 'a fs_scheme \<Rightarrow> 'a fs_scheme" where
  "set_dentry d f s = s\<lparr>dentries := (dentries s)(d := f (dentries s d))\<rparr>"
definition set_file :: "u32 \<Rightarrow> (filp \<Rightarrow> filp) \<Rightarrow> 'a fs_scheme \<Rightarrow> 'a fs_scheme" where
  "set_file a f s = s\<lparr>files := (files s)(a := f (files s a))\<rparr>"
definition set_super :: "u32 \<Rightarrow> (super_block \<Rightarrow> super_block) \<Rightarrow> 'a fs_scheme \<Rightarrow> 'a fs_scheme" where
  "set_super a f s = s\<lparr>supers := (supers s)(a := f (supers s a))\<rparr>"
definition set_blk :: "u32 \<Rightarrow> (blk \<Rightarrow> blk) \<Rightarrow> 'a fs_scheme \<Rightarrow> 'a fs_scheme" where
  "set_blk a f s = s\<lparr>blks := (blks s)(a := f (blks s a))\<rparr>"
definition set_minix_block :: "u32 \<Rightarrow> (minix_block \<Rightarrow> minix_block) \<Rightarrow> 'a fs_scheme \<Rightarrow> 'a fs_scheme" where
  "set_minix_block a f s = s\<lparr>minix_blocks := (minix_blocks s)(a := f (minix_blocks s a))\<rparr>"

end
