(* ===== verification/Inode.thy ===== *)
theory Inode
  imports Fs_State
begin

text \<open>
  fs/inode.c: inodes in memory, found through a hash of file system and number and counted by
  their users.  Reading an inode from disk may sleep; \<open>iput_lock\<close> keeps readers out while an
  inode is being written back.  \<open>None\<close> is a failed \<open>BUG_ON\<close>, a null pointer the code follows, or a
  wait that never ends.
\<close>

definition NR_HASH_LISTS :: nat where "NR_HASH_LISTS = 20"

text \<open>The wait queue \<open>wait_iput\<close>.\<close>

definition wait_iput :: wait_queue where "wait_iput = Wait_queue 1"

definition ptr :: "u32 option \<Rightarrow> u32" where
  "ptr p = (case p of None \<Rightarrow> 0 | Some a \<Rightarrow> a)"

subsection \<open>The hash\<close>

definition inode_hash_index :: "u32 option \<Rightarrow> u32 \<Rightarrow> nat" where
  "inode_hash_index sb nr = unat ((ptr sb + nr * 301) mod of_nat NR_HASH_LISTS)"

definition is_inode :: "'a fs_scheme \<Rightarrow> u32 option \<Rightarrow> u32 \<Rightarrow> u32 \<Rightarrow> bool" where
  "is_inode s sb nr p \<longleftrightarrow> i_sb (inodes s p) = sb \<and> i_nr (inodes s p) = nr"

definition icache ::
    "u32 option \<Rightarrow> u32 \<Rightarrow> u32 option \<Rightarrow> 'a fs_scheme \<Rightarrow> (u32 option \<times> 'a fs_scheme) option" where
  "icache sb nr cached s =
     (let index = inode_hash_index sb nr
      in case List.find (is_inode s sb nr) (inode_hash s index) of
           Some pos \<Rightarrow>
             do { bug_on (cached \<noteq> None \<and> cached \<noteq> Some pos);
                  Some (Some pos, s) }
         | None \<Rightarrow>
             (case cached of
                Some i \<Rightarrow> Some (Some i, s\<lparr>inode_hash := (inode_hash s)(index := i # inode_hash s index)\<rparr>)
              | None \<Rightarrow> Some (None, s)))"

text \<open>
  \<open>list_del\<close> takes the entry off the list it is on; the links of one that is on none are null.
\<close>

definition idecache :: "u32 \<Rightarrow> 'a fs_scheme \<Rightarrow> 'a fs_scheme option" where
  "idecache i s =
     (let index = inode_hash_index (i_sb (inodes s i)) (i_nr (inodes s i))
      in case List.find (is_inode s (i_sb (inodes s i)) (i_nr (inodes s i))) (inode_hash s index) of
           None \<Rightarrow> Some s
         | Some pos \<Rightarrow>
             do { bug_on (\<not> (\<exists>j\<in>set [0..<NR_HASH_LISTS]. i \<in> set (inode_hash s j)));
                  Some (s\<lparr>inode_hash := (\<lambda>j. remove1 i (inode_hash s j))\<rparr>) })"

subsection \<open>References\<close>

definition iref :: "u32 \<Rightarrow> 'a fs_scheme \<Rightarrow> 'a fs_scheme option" where
  "iref i s =
     do { bug_on (i_ref (inodes s i) = 0);
          Some (set_inode i (\<lambda>x. x\<lparr>i_ref := i_ref x + 1\<rparr>) s) }"

definition init_file_type_specific :: "inode \<Rightarrow> inode" where
  "init_file_type_specific x =
     x\<lparr>i_fops := Some (if IS_REG (i_mode x) then Def_file_fops
                       else if IS_CHR (i_mode x) then Def_chr_fops
                       else if IS_BLK (i_mode x) then Def_blk_fops
                       else Def_file_fops)\<rparr>"

text \<open>The operations of the file system a super block belongs to.\<close>

definition sops_of :: "('a fs_scheme) env \<Rightarrow> 'a fs_scheme \<Rightarrow> u32 option \<Rightarrow> (('a fs_scheme) super_operations) option" where
  "sops_of e s sb =
     do { b \<leftarrow> sb; f \<leftarrow> sb_fs_type (supers s b); ft_sops (fs_driver e f) }"

definition list_del_use :: "u32 \<Rightarrow> 'a fs_scheme \<Rightarrow> 'a fs_scheme" where
  "list_del_use i s = s\<lparr>supers := (\<lambda>b. (supers s b)\<lparr>sb_inodes := remove1 i (sb_inodes (supers s b))\<rparr>)\<rparr>"

definition new_inode :: "u32 \<Rightarrow> u32 \<Rightarrow> inode" where
  "new_inode sb nr = zero_inode\<lparr>i_nr := nr, i_sb := Some sb, i_ref := 1\<rparr>"

definition iget :: "('a fs_scheme) env \<Rightarrow> u32 \<Rightarrow> u32 \<Rightarrow> 'a fs_scheme \<Rightarrow> (u32 option \<times> 'a fs_scheme) option" where
  "iget e sb nr s =
     do { (found, s) \<leftarrow> icache (Some sb) nr None s;
          (case found of
             Some i \<Rightarrow> do { s \<leftarrow> iref i s; Some (Some i, s) }
           | None \<Rightarrow>
               do { (i, s) \<leftarrow> kalloc sizeof_inode s;
                    (case i of
                       None \<Rightarrow> Some (None, s)
                     | Some i \<Rightarrow>
                         do { let s = set_inode i (\<lambda>_. new_inode sb nr) s;
                              let s = set_super sb (\<lambda>b. b\<lparr>sb_inodes := i # sb_inodes b\<rparr>) s;
                              sops \<leftarrow> sops_of e s (Some sb);
                              s \<leftarrow> wait_event e wait_iput (\<lambda>s. \<not> iput_lock s) s;
                              read_inode \<leftarrow> so_read_inode sops;
                              (r, s) \<leftarrow> read_inode i s;
                              (tmp, s) \<leftarrow> (if FAILED r then Some (None, s) else icache (Some sb) nr None s);
                              if FAILED r \<or> tmp \<noteq> None
                              then do { s \<leftarrow> krelease i (list_del_use i s); Some (tmp, s) }
                              else do { let s = set_inode i init_file_type_specific s;
                                        (_, s) \<leftarrow> icache (Some sb) nr (Some i) s;
                                        Some (Some i, s) } }) }) }"

definition iput :: "('a fs_scheme) env \<Rightarrow> u32 \<Rightarrow> 'a fs_scheme \<Rightarrow> 'a fs_scheme option" where
  "iput e i s =
     do { bug_on (i_ref (inodes s i) = 0);
          let s = set_inode i (\<lambda>x. x\<lparr>i_ref := i_ref x - 1\<rparr>) s;
          if i_ref (inodes s i) = 0
          then do { s \<leftarrow> idecache i (list_del_use i s);
                    s \<leftarrow> (if i_dirty (inodes s i)
                         then do { sops \<leftarrow> sops_of e s (i_sb (inodes s i));
                                   (case so_write_inode sops of
                                      None \<Rightarrow> Some s
                                    | Some write_inode \<Rightarrow>
                                        do { (ret, s) \<leftarrow> write_inode i (s\<lparr>iput_lock := True\<rparr>);
                                             Some (wake_up_all wait_iput (s\<lparr>iput_lock := False\<rparr>)) }) }
                         else Some s);
                    krelease i s }
          else Some s }"

definition icache_setup :: "'a fs_scheme \<Rightarrow> 'a fs_scheme" where
  "icache_setup s =
     s\<lparr>inode_hash := fold (\<lambda>i h. h(i := [])) [0..<NR_HASH_LISTS] (inode_hash s)\<rparr>"

end
