(* ===== verification/Dentry.thy ===== *)
theory Dentry
  imports Inode
begin

text \<open>
  fs/dentry.c: the tree of directory entries in memory.  An entry counts its users and its
  children, holds its inode and its parent, and is found through a hash of these two.
  \<open>None\<close> is a failed \<open>BUG_ON\<close> or a null pointer the code follows.
\<close>

definition dentry_hash_index :: "u32 \<Rightarrow> u32 option \<Rightarrow> nat" where
  "dentry_hash_index i par = unat ((i + ptr par * 301) mod of_nat NR_HASH_LISTS)"

definition is_dentry :: "'a fs_scheme \<Rightarrow> u32 \<Rightarrow> u32 option \<Rightarrow> u32 \<Rightarrow> bool" where
  "is_dentry s i par p \<longleftrightarrow> d_inode (dentries s p) = Some i \<and> d_parent (dentries s p) = par"

definition dcache ::
    "u32 \<Rightarrow> u32 option \<Rightarrow> u32 option \<Rightarrow> 'a fs_scheme \<Rightarrow> (u32 option \<times> 'a fs_scheme) option" where
  "dcache i par cached s =
     (let index = dentry_hash_index i par
      in case List.find (is_dentry s i par) (dentry_hash s index) of
           Some pos \<Rightarrow>
             do { bug_on (cached \<noteq> None \<and> cached \<noteq> Some pos);
                  Some (Some pos, s) }
         | None \<Rightarrow>
             (case cached of
                Some d \<Rightarrow> Some (Some d, s\<lparr>dentry_hash := (dentry_hash s)(index := d # dentry_hash s index)\<rparr>)
              | None \<Rightarrow> Some (None, s)))"

definition ddecache :: "u32 \<Rightarrow> 'a fs_scheme \<Rightarrow> 'a fs_scheme option" where
  "ddecache d s =
     do { i \<leftarrow> d_inode (dentries s d);
          let par = d_parent (dentries s d);
          (case List.find (is_dentry s i par) (dentry_hash s (dentry_hash_index i par)) of
             None \<Rightarrow> Some s
           | Some pos \<Rightarrow>
               do { bug_on (\<not> (\<exists>j\<in>set [0..<NR_HASH_LISTS]. d \<in> set (dentry_hash s j)));
                    Some (s\<lparr>dentry_hash := (\<lambda>j. remove1 d (dentry_hash s j))\<rparr>) }) }"

definition dref :: "u32 \<Rightarrow> 'a fs_scheme \<Rightarrow> 'a fs_scheme option" where
  "dref d s =
     do { bug_on (d_ref (dentries s d) = 0);
          Some (set_dentry d (\<lambda>x. x\<lparr>d_ref := d_ref x + 1\<rparr>) s) }"

text \<open>A new entry: its parent, when it has one, gains a user and a child.\<close>

definition dget :: "u32 \<Rightarrow> u32 option \<Rightarrow> 'a fs_scheme \<Rightarrow> (u32 option \<times> 'a fs_scheme) option" where
  "dget i par s =
     do { (found, s) \<leftarrow> dcache i par None s;
          (case found of
             Some d \<Rightarrow> do { s \<leftarrow> dref d s; Some (Some d, s) }
           | None \<Rightarrow>
               do { (d, s) \<leftarrow> kalloc sizeof_dentry s;
                    (case d of
                       None \<Rightarrow> Some (None, s)
                     | Some d \<Rightarrow>
                         do { let s = set_dentry d (\<lambda>_. zero_dentry) s;
                              s \<leftarrow> (case par of
                                     None \<Rightarrow> Some s
                                   | Some p \<Rightarrow>
                                       do { s \<leftarrow> dref p s;
                                            Some (set_dentry p (\<lambda>x. x\<lparr>d_children := d # d_children x\<rparr>) s) });
                              let sb = i_sb (inodes s i);
                              s \<leftarrow> iref i s;
                              let s = set_dentry d (\<lambda>x. x\<lparr>d_parent := par, d_sb := sb, d_inode := Some i,
                                        d_children := [], d_mount := None, d_ref := d_ref x + 1\<rparr>) s;
                              b \<leftarrow> sb;
                              let s = set_super b (\<lambda>x. x\<lparr>sb_dentries := d # sb_dentries x\<rparr>) s;
                              (_, s) \<leftarrow> dcache i par (Some d) s;
                              Some (Some d, s) }) }) }"

definition list_del_duse :: "u32 \<Rightarrow> 'a fs_scheme \<Rightarrow> 'a fs_scheme" where
  "list_del_duse d s = s\<lparr>supers := (\<lambda>b. (supers s b)\<lparr>sb_dentries := remove1 d (sb_dentries (supers s b))\<rparr>)\<rparr>"

definition list_del_dchild :: "u32 \<Rightarrow> 'a fs_scheme \<Rightarrow> 'a fs_scheme" where
  "list_del_dchild d s = s\<lparr>dentries := (\<lambda>p. (dentries s p)\<lparr>d_children := remove1 d (d_children (dentries s p))\<rparr>)\<rparr>"

text \<open>The last user of an entry gives up its parent and its inode.\<close>

partial_function (option) dput :: "('a fs_scheme) env \<Rightarrow> u32 \<Rightarrow> 'a fs_scheme \<Rightarrow> 'a fs_scheme option" where
  "dput e d s =
     do { bug_on (d_ref (dentries s d) = 0);
          let s = set_dentry d (\<lambda>x. x\<lparr>d_ref := d_ref x - 1\<rparr>) s;
          if d_ref (dentries s d) = 0
          then do { let s = list_del_duse d s;
                    s \<leftarrow> (case d_parent (dentries s d) of
                           None \<Rightarrow> Some s
                         | Some p \<Rightarrow> dput e p (list_del_dchild d s));
                    i \<leftarrow> d_inode (dentries s d);
                    s \<leftarrow> iput e i s;
                    bug_on (d_children (dentries s d) \<noteq> []);
                    s \<leftarrow> ddecache d s;
                    krelease d s }
          else Some s }"

definition dcache_setup :: "'a fs_scheme \<Rightarrow> 'a fs_scheme" where
  "dcache_setup s =
     s\<lparr>dentry_hash := fold (\<lambda>i h. h(i := [])) [0..<NR_HASH_LISTS] (dentry_hash s)\<rparr>"

end
