(* ===== verification/Super.thy ===== *)
theory Super
  imports Dentry
begin

text \<open>
  fs/super.c: file system types, super blocks and mounting.  A \<open>struct file_system_type *\<close> is a
  number, \<open>fs_driver\<close> of the environment gives what it points to.  Names are compared as strings.
  \<open>None\<close> is a panic, a failed \<open>BUG_ON\<close> or a null pointer the code follows.
\<close>

subsection \<open>File system types\<close>

definition fst_name_is :: "('a fs_scheme) env \<Rightarrow> u8 list option \<Rightarrow> nat \<Rightarrow> bool" where
  "fst_name_is e name f \<longleftrightarrow> ft_name (fs_driver e f) = name"

definition register_filesystem :: "('a fs_scheme) env \<Rightarrow> nat \<Rightarrow> 'a fs_scheme \<Rightarrow> int \<times> 'a fs_scheme" where
  "register_filesystem e f s =
     (let t = fs_driver e f
      in if ft_name t = None \<or> ft_get_super t = None then (err EINVAL, s)
         else if (case ft_sops t of None \<Rightarrow> True
                  | Some ops \<Rightarrow> so_read_inode ops = None \<or> so_lookup ops = None) then (err EINVAL, s)
         else if ft_fops t = None then (err EINVAL, s)
         else if List.find (fst_name_is e (ft_name t)) (fs_types s) \<noteq> None then (err EINVAL, s)
         else (SUCCESS, s\<lparr>fs_types := f # fs_types s, fst_supers := (fst_supers s)(f := [])\<rparr>))"

definition unregister_filesystem :: "('a fs_scheme) env \<Rightarrow> u8 list \<Rightarrow> 'a fs_scheme \<Rightarrow> int \<times> 'a fs_scheme" where
  "unregister_filesystem e name s =
     (case List.find (fst_name_is e (Some name)) (fs_types s) of
        None \<Rightarrow> (err EINVAL, s)
      | Some f \<Rightarrow>
          if fst_supers s f = [] then (SUCCESS, s\<lparr>fs_types := remove1 f (fs_types s)\<rparr>)
          else (err EBUSY, s))"

subsection \<open>Super blocks\<close>

text \<open>\<open>kmalloc\<close> leaves \<open>sb_minix\<close> as the memory was.\<close>

definition alloc_super_block :: "u32 \<Rightarrow> u32 \<Rightarrow> 'a fs_scheme \<Rightarrow> (u32 option \<times> 'a fs_scheme) option" where
  "alloc_super_block dev de s =
     do { (sb, s) \<leftarrow> kalloc sizeof_super_block s;
          (case sb of
             None \<Rightarrow> Some (None, s)
           | Some sb \<Rightarrow>
               do { let s = set_super sb (\<lambda>b. b\<lparr>sb_fs_type := None, sb_magic := 0, sb_dev := dev, sb_parent := de\<rparr>) s;
                    bug_on (d_mount (dentries s de) \<noteq> None);
                    s \<leftarrow> dref de s;
                    let s = set_dentry de (d_mount_update (\<lambda>_. Some sb)) s;
                    Some (Some sb, set_super sb (\<lambda>b. b\<lparr>sb_root := None, sb_inodes := [], sb_dentries := []\<rparr>) s) }) }"

definition dealloc_super_block :: "('a fs_scheme) env \<Rightarrow> u32 option \<Rightarrow> 'a fs_scheme \<Rightarrow> 'a fs_scheme option" where
  "dealloc_super_block e sb s =
     do { sb \<leftarrow> sb;
          s \<leftarrow> dput e (sb_parent (supers s sb)) s;
          krelease sb s }"

subsection \<open>Mounting\<close>

text \<open>The loop of \<open>do_mount\<close> over the registered types.\<close>

partial_function (option) mount_loop ::
    "('a fs_scheme) env \<Rightarrow> u32 \<Rightarrow> nat option \<Rightarrow> 'a fs_scheme \<Rightarrow> (int \<times> 'a fs_scheme) option" where
  "mount_loop e sb pos s =
     (case pos of
        None \<Rightarrow> Some (err ERROR, s)
      | Some f \<Rightarrow>
          do { let s = set_super sb (sb_fs_type_update (\<lambda>_. Some f)) s;
               get_super \<leftarrow> ft_get_super (fs_driver e f);
               (r, s) \<leftarrow> get_super sb s;
               if FAILED r then do { n \<leftarrow> next_in (fs_types s) f; mount_loop e sb n s }
               else Some (SUCCESS, s\<lparr>fst_supers := (fst_supers s)(f := sb # fst_supers s f)\<rparr>) })"

definition do_mount :: "('a fs_scheme) env \<Rightarrow> u32 \<Rightarrow> u32 \<Rightarrow> 'a fs_scheme \<Rightarrow> (int \<times> 'a fs_scheme) option" where
  "do_mount e dev de s =
     do { (sb, s) \<leftarrow> alloc_super_block dev de s;
          (case sb of
             None \<Rightarrow> Some (err ENOMEM, s)
           | Some sb \<Rightarrow> mount_loop e sb (first_in (fs_types s)) s) }"

definition init_droot :: "'a fs_scheme \<Rightarrow> 'a fs_scheme option" where
  "init_droot s =
     do { s \<leftarrow> dref (droot s) s;
          s \<leftarrow> iref (iroot s) s;
          let s = set_dentry (droot s) (\<lambda>d. d\<lparr>d_inode := Some (iroot s), d_parent := Some (droot s)\<rparr>) s;
          s \<leftarrow> dref (droot s) s;
          Some (set_inode (iroot s) (i_mode_update SET_DIR) s) }"

definition mount_root :: "('a fs_scheme) env \<Rightarrow> u32 \<Rightarrow> 'a fs_scheme \<Rightarrow> 'a fs_scheme option" where
  "mount_root e dev s =
     do { s \<leftarrow> init_droot s;
          (r, s) \<leftarrow> do_mount e dev (droot s) s;
          bug_on (FAILED r);
          let s = upd_task (current s) (\<lambda>t. t\<lparr>root := Some (droot s), pwd := Some (droot s)\<rparr>) s;
          s \<leftarrow> dref (droot s) s;
          dref (droot s) s }"

end
