(* ===== verification/Namei.thy ===== *)
theory Namei
  imports Super
begin

text \<open>
  fs/namei.c: from a path to the entry it names.  A path is the list of its characters before the
  NUL; \<open>None\<close> as a path is the null pointer.  \<open>None\<close> as a result is a failed \<open>BUG_ON\<close>, a null
  pointer the code follows, or a walk up that never meets its end.
\<close>

definition slash :: u8 where "slash = 47"
definition dot :: u8 where "dot = 46"

subsection \<open>One component\<close>

text \<open>From a mount point to the root of what is mounted there.\<close>

partial_function (option) mounted :: "'a fs_scheme \<Rightarrow> u32 \<Rightarrow> u32 option" where
  "mounted s d =
     (case d_mount (dentries s d) of
        None \<Rightarrow> Some d
      | Some sb \<Rightarrow> do { r \<leftarrow> sb_root (supers s sb); mounted s r })"

text \<open>\<open>strncmp(entry->name, name, len) == 0\<close> for the \<open>len\<close> characters of a component.\<close>

definition entry_matches :: "'a fs_scheme \<Rightarrow> u8 list \<Rightarrow> u32 \<Rightarrow> bool" where
  "entry_matches s name d \<longleftrightarrow>
     take (length name) (takeWhile (\<lambda>c. c \<noteq> 0) (d_name (dentries s d))) = name"

definition find_entry ::
    "('a fs_scheme) env \<Rightarrow> u32 \<Rightarrow> u8 list \<Rightarrow> 'a fs_scheme \<Rightarrow> (u32 option \<times> 'a fs_scheme) option" where
  "find_entry e d name s =
     do { iter \<leftarrow> mounted s d;
          s \<leftarrow> dref iter s;
          (case List.find (entry_matches s name) (d_children (dentries s iter)) of
             Some entry \<Rightarrow>
               do { s \<leftarrow> dref entry s;
                    s \<leftarrow> dput e iter s;
                    Some (Some entry, s) }
           | None \<Rightarrow>
               do { sops \<leftarrow> sops_of e s (d_sb (dentries s iter));
                    lookup \<leftarrow> so_lookup sops;
                    (find, s) \<leftarrow> lookup iter name s;
                    s \<leftarrow> dput e iter s;
                    Some (find, s) }) }"

text \<open>The entry above: over a mounted root it is the one the file system is mounted on.\<close>

definition parent_of :: "'a fs_scheme \<Rightarrow> u32 \<Rightarrow> u32 option" where
  "parent_of s d =
     (case d_parent (dentries s d) of
        Some p \<Rightarrow> Some p
      | None \<Rightarrow> do { sb \<leftarrow> d_sb (dentries s d); Some (sb_parent (supers s sb)) })"

subsection \<open>The walk\<close>

lemma takeWhile_ne: "takeWhile P xs \<noteq> [] \<Longrightarrow> length (dropWhile P xs) < length xs"
  by (cases xs) (auto simp: less_Suc_eq_le length_dropWhile_le split: if_splits)

lemma tl_shorter: "x \<in> set xs \<Longrightarrow> length (tl xs) < length xs"
  by (cases xs) auto

text \<open>
  The loop of \<open>lookup\<close>; the list is the path from \<open>begin\<close> on.  The components up to the next \<open>/\<close>
  are looked up one by one, each step holding a reference to the entry it has reached.
\<close>

function lookup_loop ::
    "('a fs_scheme) env \<Rightarrow> u32 option \<Rightarrow> u8 list \<Rightarrow> u32 \<Rightarrow> 'a fs_scheme \<Rightarrow> (u32 option \<times> 'a fs_scheme) option" where
  "lookup_loop e rt path iter s =
     (let name = takeWhile (\<lambda>c. c \<noteq> slash) path; after = dropWhile (\<lambda>c. c \<noteq> slash) path
      in if name = []
         then if after = [] then Some (Some iter, s) else lookup_loop e rt (tl path) iter s
         else if name = [dot]
         then if after = [] then Some (Some iter, s) else lookup_loop e rt after iter s
         else if name = [dot, dot]
         then if rt = Some iter
              then if after = [] then Some (Some iter, s) else lookup_loop e rt after iter s
              else do { p \<leftarrow> parent_of s iter;
                        s \<leftarrow> dref p s;
                        s \<leftarrow> dput e iter s;
                        if after = [] then Some (Some p, s) else lookup_loop e rt after p s }
         else do { i \<leftarrow> d_inode (dentries s iter);
                   (found, s) \<leftarrow> (if IS_DIR (i_mode (inodes s i)) then find_entry e iter name s
                                else Some (None, s));
                   s \<leftarrow> dput e iter s;
                   (case found of
                      None \<Rightarrow> Some (None, s)
                    | Some d \<Rightarrow> if after = [] then Some (Some d, s) else lookup_loop e rt after d s) })"
  by pat_completeness auto

termination
  by (relation "measure (\<lambda>(e, rt, path, iter, s). length path)")
    (simp_all add: takeWhile_ne tl_shorter del: length_tl)

declare lookup_loop.simps [simp del]

text \<open>The loop at \<open>finish\<close>.\<close>

partial_function (option) follow_mount ::
    "('a fs_scheme) env \<Rightarrow> u32 \<Rightarrow> 'a fs_scheme \<Rightarrow> (u32 \<times> 'a fs_scheme) option" where
  "follow_mount e iter s =
     (case d_mount (dentries s iter) of
        None \<Rightarrow> Some (iter, s)
      | Some sb \<Rightarrow>
          do { r \<leftarrow> sb_root (supers s sb);
               s \<leftarrow> dref r s;
               s \<leftarrow> dput e iter s;
               follow_mount e r s })"

definition lookup ::
    "('a fs_scheme) env \<Rightarrow> u8 list option \<Rightarrow> bool \<Rightarrow> 'a fs_scheme \<Rightarrow> (u32 option \<times> 'a fs_scheme) option" where
  "lookup e pathname fromroot s =
     do { path \<leftarrow> pathname;
          let absolute = (path \<noteq> [] \<and> hd path = slash);
          let iter = (if absolute then root (cur_task s) else pwd (cur_task s));
          let path = (if absolute then tl path else path);
          let (iter, rt) = (if iter = None \<or> fromroot then (droot s, Some (droot s))
                            else (the iter, root (cur_task s)));
          s \<leftarrow> dref iter s;
          (found, s) \<leftarrow> lookup_loop e rt path iter s;
          (case found of
             None \<Rightarrow> Some (None, s)
           | Some d \<Rightarrow> do { (d, s) \<leftarrow> follow_mount e d s; Some (Some d, s) }) }"

subsection \<open>The callers\<close>

definition open_namei ::
    "('a fs_scheme) env \<Rightarrow> u8 list option \<Rightarrow> u32 \<Rightarrow> 'a fs_scheme \<Rightarrow> (int \<times> u32 option \<times> 'a fs_scheme) option" where
  "open_namei e filename fl s =
     do { (find, s) \<leftarrow> lookup e filename False s;
          (case find of
             None \<Rightarrow> Some (err ERROR, None, s)
           | Some d \<Rightarrow>
               do { i \<leftarrow> d_inode (dentries s d);
                    s \<leftarrow> iref i s;
                    s \<leftarrow> dput e d s;
                    Some (SUCCESS, Some i, s) }) }"

text \<open>The loop of \<open>sys_chdir\<close>: is \<open>rt\<close> on the way from \<open>iter\<close> up to \<open>droot\<close>?\<close>

partial_function (option) below :: "'a fs_scheme \<Rightarrow> u32 \<Rightarrow> u32 \<Rightarrow> bool option" where
  "below s rt iter =
     (if iter = droot s then Some (iter = rt)
      else if iter = rt then Some True
      else do { p \<leftarrow> parent_of s iter; below s rt p })"

definition is_directory :: "'a fs_scheme \<Rightarrow> u32 \<Rightarrow> bool option" where
  "is_directory s d = do { i \<leftarrow> d_inode (dentries s d); Some (IS_DIR (i_mode (inodes s i))) }"

definition sys_chdir :: "('a fs_scheme) env \<Rightarrow> u8 list option \<Rightarrow> 'a fs_scheme \<Rightarrow> (int \<times> 'a fs_scheme) option" where
  "sys_chdir e filename s =
     do { (find, s) \<leftarrow> lookup e filename False s;
          (case find of
             None \<Rightarrow> Some (err ERROR, s)
           | Some d \<Rightarrow>
               do { let rt = (case root (cur_task s) of None \<Rightarrow> droot s | Some r \<Rightarrow> r);
                    inside \<leftarrow> below s rt d;
                    dir \<leftarrow> (if inside then is_directory s d else Some False);
                    if inside \<and> dir
                    then do { p \<leftarrow> pwd (cur_task s);
                              s \<leftarrow> dput e p s;
                              Some (SUCCESS, upd_task (current s) (pwd_update (\<lambda>_. Some d)) s) }
                    else do { s \<leftarrow> dput e d s; Some (err ERROR, s) } }) }"

definition sys_chroot :: "('a fs_scheme) env \<Rightarrow> u8 list option \<Rightarrow> 'a fs_scheme \<Rightarrow> (int \<times> 'a fs_scheme) option" where
  "sys_chroot e filename s =
     do { (find, s) \<leftarrow> lookup e filename True s;
          (case find of
             None \<Rightarrow> Some (err ERROR, s)
           | Some d \<Rightarrow>
               do { dir \<leftarrow> is_directory s d;
                    if dir
                    then do { s \<leftarrow> (case root (cur_task s) of None \<Rightarrow> Some s | Some r \<Rightarrow> dput e r s);
                              let s = upd_task (current s) (root_update (\<lambda>_. Some d)) s;
                              s \<leftarrow> dref d s;
                              s \<leftarrow> (case pwd (cur_task s) of None \<Rightarrow> Some s | Some p \<Rightarrow> dput e p s);
                              Some (SUCCESS, upd_task (current s) (pwd_update (\<lambda>_. Some d)) s) }
                    else do { s \<leftarrow> dput e d s; Some (err ERROR, s) } }) }"

subsection \<open>The name of the working directory\<close>

text \<open>
  The first loop of \<open>sys_getcwd\<close> walks from \<open>pwd\<close> up to \<open>root\<close> and makes a list of the entries it
  passes, each in an object of its own; the last one is in front.  \<open>False\<close>: no memory.
\<close>

definition sizeof_cwd_name :: u32 where "sizeof_cwd_name = 12"

partial_function (option) cwd_names :: "u32 option \<Rightarrow> u32 option \<Rightarrow> (u32 \<times> u32) list \<Rightarrow> 'a fs_scheme \<Rightarrow>
    (bool \<times> (u32 \<times> u32) list \<times> 'a fs_scheme) option" where
  "cwd_names iter rt names s =
     (if iter = rt then Some (True, names, s)
      else do { (cwd, s) \<leftarrow> kalloc sizeof_cwd_name s;
                (case cwd of
                   None \<Rightarrow> Some (False, names, s)
                 | Some c \<Rightarrow>
                     do { d \<leftarrow> iter;
                          let up = (case (d_parent (dentries s d), d_sb (dentries s d)) of
                                      (None, Some sb) \<Rightarrow> Some (sb_parent (supers s sb))
                                    | (p, _) \<Rightarrow> p);
                          cwd_names up rt ((c, d) # names) s }) })"

definition store_byte :: "u32 \<Rightarrow> u8 \<Rightarrow> 'a fs_scheme \<Rightarrow> 'a fs_scheme" where
  "store_byte a v s = s\<lparr>ram := (ram s)(a := v)\<rparr>"

text \<open>\<open>strncpy\<close> copies up to and including a NUL.\<close>

definition strncpy_bytes :: "nat \<Rightarrow> u8 list \<Rightarrow> u8 list" where
  "strncpy_bytes n bs =
     (let k = length (takeWhile (\<lambda>c. c \<noteq> 0) bs) in take (min n (Suc k)) bs)"

text \<open>The second loop; the result is where \<open>begin\<close> has got to, and whether the buffer was too small.\<close>

fun print_names :: "(u32 \<times> u32) list \<Rightarrow> u32 \<Rightarrow> u32 \<Rightarrow> u32 \<Rightarrow> 'a fs_scheme \<Rightarrow> bool \<times> u32 \<times> 'a fs_scheme" where
  "print_names [] len need at s = (True, at, s)"
| "print_names ((c, d) # names) len need at s =
     (if d_parent (dentries s d) = None then print_names names len need at s
      else let n = d_name_len (dentries s d); need = need + of_nat n + 1
           in if need < len - 1
              then let s = store_byte at slash s;
                       s = store_bytes (at + 1) (strncpy_bytes n (d_name (dentries s d))) s
                   in print_names names len need (at + 1 + of_nat n) s
              else (False, at, store_byte at 0 s))"

fun release_names :: "(u32 \<times> u32) list \<Rightarrow> 'a fs_scheme \<Rightarrow> 'a fs_scheme option" where
  "release_names [] s = Some s"
| "release_names ((c, d) # names) s = do { s \<leftarrow> krelease c s; release_names names s }"

definition sys_getcwd :: "u32 \<Rightarrow> u32 \<Rightarrow> 'a fs_scheme \<Rightarrow> (int \<times> 'a fs_scheme) option" where
  "sys_getcwd buf len s =
     do { (ok, names, s) \<leftarrow> cwd_names (pwd (cur_task s)) (root (cur_task s)) [] s;
          let (ret, s) =
            (if \<not> ok then (err ENOMEM, s)
             else if len = 0 then (err EINVAL, s)
             else let (fits, at, s) = print_names names len 0 buf (store_byte buf 0 s)
                  in if \<not> fits then (sint (at - buf), s)
                     else let (at, s) = (if at = buf then (at + 1, store_byte at slash s)
                                             else (at, s))
                          in (sint (at - buf), store_byte at 0 s));
          s \<leftarrow> release_names names s;
          Some (ret, s) }"

end
