(* ===== verification/File_Dev.thy ===== *)
theory File_Dev
  imports Fs_State
begin

text \<open>
  fs/file_dev.c: the operations of files and directories hand a call on to the file system the
  inode belongs to.  \<open>None\<close> is a null pointer the code follows.
\<close>

definition fs_ops :: "('a fs_scheme) env \<Rightarrow> 'a fs_scheme \<Rightarrow> u32 \<Rightarrow> (('a fs_scheme) file_operations) option" where
  "fs_ops e s filp =
     do { sb \<leftarrow> i_sb (inodes s (f_inode (files s filp)));
          f \<leftarrow> sb_fs_type (supers s sb);
          ft_fops (fs_driver e f) }"

definition file_open :: "('a fs_scheme) env \<Rightarrow> u32 \<Rightarrow> u32 \<Rightarrow> 'a fs_scheme \<Rightarrow> (int \<times> 'a fs_scheme) option" where
  "file_open e i filp s =
     do { ops \<leftarrow> fs_ops e s filp; call_op (fo_open ops) SUCCESS (\<lambda>f. f i filp) s }"

definition file_read :: "('a fs_scheme) env \<Rightarrow> u32 \<Rightarrow> u32 \<Rightarrow> u32 \<Rightarrow> 'a fs_scheme \<Rightarrow> (int \<times> 'a fs_scheme) option" where
  "file_read e filp buf sz s =
     do { ops \<leftarrow> fs_ops e s filp; call_op (fo_read ops) (err ENOSYS) (\<lambda>f. f filp buf sz) s }"

definition file_readdir :: "('a fs_scheme) env \<Rightarrow> u32 \<Rightarrow> u32 \<Rightarrow> u32 \<Rightarrow> 'a fs_scheme \<Rightarrow> (int \<times> 'a fs_scheme) option" where
  "file_readdir e filp buf len s =
     do { ops \<leftarrow> fs_ops e s filp; call_op (fo_readdir ops) (err ENOSYS) (\<lambda>f. f filp buf len) s }"

definition file_write :: "('a fs_scheme) env \<Rightarrow> u32 \<Rightarrow> u32 \<Rightarrow> u32 \<Rightarrow> 'a fs_scheme \<Rightarrow> (int \<times> 'a fs_scheme) option" where
  "file_write e filp buf sz s =
     do { ops \<leftarrow> fs_ops e s filp; call_op (fo_write ops) (err ENOSYS) (\<lambda>f. f filp buf sz) s }"

definition file_ioctl :: "('a fs_scheme) env \<Rightarrow> u32 \<Rightarrow> u32 \<Rightarrow> u32 \<Rightarrow> 'a fs_scheme \<Rightarrow> (int \<times> 'a fs_scheme) option" where
  "file_ioctl e filp request arg s =
     do { ops \<leftarrow> fs_ops e s filp; call_op (fo_ioctl ops) (err ENOSYS) (\<lambda>f. f filp request arg) s }"

definition file_lseek :: "('a fs_scheme) env \<Rightarrow> u32 \<Rightarrow> int \<Rightarrow> int \<Rightarrow> 'a fs_scheme \<Rightarrow> (int \<times> 'a fs_scheme) option" where
  "file_lseek e filp offset whence s =
     do { ops \<leftarrow> fs_ops e s filp;
          (ret, s) \<leftarrow> call_op (fo_lseek ops) (err ENOSYS) (\<lambda>f. f filp offset whence) s;
          Some (ret, if 0 \<le> ret then set_file filp (f_pos_update (\<lambda>_. ret)) s else s) }"

definition file_close :: "('a fs_scheme) env \<Rightarrow> u32 \<Rightarrow> u32 \<Rightarrow> 'a fs_scheme \<Rightarrow> (int \<times> 'a fs_scheme) option" where
  "file_close e i filp s =
     do { ops \<leftarrow> fs_ops e s filp; call_op (fo_close ops) SUCCESS (\<lambda>f. f i filp) s }"

definition def_file_fops :: "('a fs_scheme) env \<Rightarrow> ('a fs_scheme) file_operations" where
  "def_file_fops e = \<lparr>fo_open = Some (file_open e), fo_read = Some (file_read e),
     fo_readdir = Some (file_readdir e), fo_write = Some (file_write e), fo_ioctl = Some (file_ioctl e),
     fo_lseek = Some (file_lseek e), fo_close = Some (file_close e)\<rparr>"

end
