(* ===== verification/Char_Dev.thy ===== *)
theory Char_Dev
  imports Fs_State
begin

text \<open>
  fs/char_dev.c: the table of character device drivers and the file operations that hand a call on
  to the driver of the inode's device.  \<open>None\<close> is a failed \<open>BUG_ON\<close>, an access outside the table
  or a null pointer the code follows.  Names are compared as strings.
\<close>

definition set_chrdev :: "nat \<Rightarrow> (char_device \<Rightarrow> char_device) \<Rightarrow> 'a fs_scheme \<Rightarrow> 'a fs_scheme" where
  "set_chrdev m f s = s\<lparr>chrdevs := (chrdevs s)(m := f (chrdevs s m))\<rparr>"

subsection \<open>Registration\<close>

text \<open>The loop over the free majors counts down from the last to 1.\<close>

fun free_chrdev :: "'a fs_scheme \<Rightarrow> nat \<Rightarrow> nat option" where
  "free_chrdev s 0 = None"
| "free_chrdev s (Suc m) = (if cd_fops (chrdevs s (Suc m)) = None then Some (Suc m) else free_chrdev s m)"

definition register_chrdev ::
    "nat \<Rightarrow> u8 list option \<Rightarrow> nat option \<Rightarrow> 'a fs_scheme \<Rightarrow> int \<times> 'a fs_scheme" where
  "register_chrdev major name fops s =
     (if fops = None then (err ERROR, s)
      else if NR_CHRDEVS \<le> major then (err EINVAL, s)
      else if major = 0
      then (case free_chrdev s (NR_CHRDEVS - 1) of
              Some m \<Rightarrow> (int m, set_chrdev m (\<lambda>d. d\<lparr>cd_name := name, cd_fops := fops\<rparr>) s)
            | None \<Rightarrow> (err EBUSY, s))
      else if cd_fops (chrdevs s major) \<noteq> None \<and> cd_fops (chrdevs s major) \<noteq> fops then (err EBUSY, s)
      else (SUCCESS, set_chrdev major (\<lambda>d. d\<lparr>cd_name := name, cd_fops := fops\<rparr>) s))"

text \<open>\<open>strcmp\<close> follows the registered name, which may be null.\<close>

definition unregister_chrdev :: "nat \<Rightarrow> u8 list \<Rightarrow> 'a fs_scheme \<Rightarrow> (int \<times> 'a fs_scheme) option" where
  "unregister_chrdev major name s =
     (if NR_CHRDEVS \<le> major then Some (err EINVAL, s)
      else if cd_ref (chrdevs s major) \<noteq> 0 then Some (err EBUSY, s)
      else if cd_fops (chrdevs s major) = None then Some (err EINVAL, s)
      else do { n \<leftarrow> cd_name (chrdevs s major);
                if n \<noteq> name then Some (err EINVAL, s)
                else Some (SUCCESS, set_chrdev major (\<lambda>d. d\<lparr>cd_name := None, cd_fops := None\<rparr>) s) })"

subsection \<open>File operations\<close>

text \<open>The index of an inode's device.\<close>

definition chr_major :: "'a fs_scheme \<Rightarrow> u32 \<Rightarrow> nat option" where
  "chr_major s i =
     (let m = unat (MAJOR (i_rdev (inodes s i))) in if NR_CHRDEVS \<le> m then None else Some m)"

definition chrdev_open :: "('a fs_scheme) env \<Rightarrow> u32 \<Rightarrow> u32 \<Rightarrow> 'a fs_scheme \<Rightarrow> (int \<times> 'a fs_scheme) option" where
  "chrdev_open e i filp s =
     do { m \<leftarrow> chr_major s i;
          let s = set_chrdev m (\<lambda>d. d\<lparr>cd_ref := cd_ref d + 1\<rparr>) s;
          (ret, s) \<leftarrow> (case cd_fops (chrdevs s m) of
               None \<Rightarrow> Some (err ENODEV, s)
             | Some f \<Rightarrow> call_op (fo_open (chr_driver e f)) SUCCESS (\<lambda>f. f i filp) s);
          Some (ret, if FAILED ret then set_chrdev m (\<lambda>d. d\<lparr>cd_ref := cd_ref d - 1\<rparr>) s else s) }"

text \<open>The driver of an open file.\<close>

definition chr_ops :: "('a fs_scheme) env \<Rightarrow> 'a fs_scheme \<Rightarrow> u32 \<Rightarrow> ('a fs_scheme) file_operations option" where
  "chr_ops e s i = do { m \<leftarrow> chr_major s i; f \<leftarrow> cd_fops (chrdevs s m); Some (chr_driver e f) }"

definition chrdev_read :: "('a fs_scheme) env \<Rightarrow> u32 \<Rightarrow> u32 \<Rightarrow> u32 \<Rightarrow> 'a fs_scheme \<Rightarrow> (int \<times> 'a fs_scheme) option" where
  "chrdev_read e filp buf sz s =
     do { ops \<leftarrow> chr_ops e s (f_inode (files s filp));
          call_op (fo_read ops) (err ENOSYS) (\<lambda>f. f filp buf sz) s }"

definition chrdev_write :: "('a fs_scheme) env \<Rightarrow> u32 \<Rightarrow> u32 \<Rightarrow> u32 \<Rightarrow> 'a fs_scheme \<Rightarrow> (int \<times> 'a fs_scheme) option" where
  "chrdev_write e filp buf sz s =
     do { ops \<leftarrow> chr_ops e s (f_inode (files s filp));
          call_op (fo_write ops) (err ENOSYS) (\<lambda>f. f filp buf sz) s }"

definition chrdev_ioctl :: "('a fs_scheme) env \<Rightarrow> u32 \<Rightarrow> u32 \<Rightarrow> u32 \<Rightarrow> 'a fs_scheme \<Rightarrow> (int \<times> 'a fs_scheme) option" where
  "chrdev_ioctl e filp request arg s =
     do { ops \<leftarrow> chr_ops e s (f_inode (files s filp));
          call_op (fo_ioctl ops) (err ENOSYS) (\<lambda>f. f filp request arg) s }"

definition chrdev_lseek :: "('a fs_scheme) env \<Rightarrow> u32 \<Rightarrow> int \<Rightarrow> int \<Rightarrow> 'a fs_scheme \<Rightarrow> (int \<times> 'a fs_scheme) option" where
  "chrdev_lseek e filp offset whence s =
     do { ops \<leftarrow> chr_ops e s (f_inode (files s filp));
          (ret, s) \<leftarrow> call_op (fo_lseek ops) (err ENOSYS) (\<lambda>f. f filp offset whence) s;
          Some (ret, if 0 \<le> ret then set_file filp (f_pos_update (\<lambda>_. ret)) s else s) }"

definition chrdev_close :: "('a fs_scheme) env \<Rightarrow> u32 \<Rightarrow> u32 \<Rightarrow> 'a fs_scheme \<Rightarrow> (int \<times> 'a fs_scheme) option" where
  "chrdev_close e i filp s =
     do { m \<leftarrow> chr_major s i;
          ops \<leftarrow> chr_ops e s i;
          (ret, s) \<leftarrow> call_op (fo_close ops) SUCCESS (\<lambda>f. f i filp) s;
          Some (ret, set_chrdev m (\<lambda>d. d\<lparr>cd_ref := cd_ref d - 1\<rparr>) s) }"

definition def_chr_fops :: "('a fs_scheme) env \<Rightarrow> ('a fs_scheme) file_operations" where
  "def_chr_fops e = \<lparr>fo_open = Some (chrdev_open e), fo_read = Some (chrdev_read e), fo_readdir = None,
     fo_write = Some (chrdev_write e), fo_ioctl = Some (chrdev_ioctl e), fo_lseek = Some (chrdev_lseek e),
     fo_close = Some (chrdev_close e)\<rparr>"

end
