(* ===== verification/Block_Dev.thy ===== *)
theory Block_Dev
  imports Fs_State "HOL-Library.Signed_Division"
begin

text \<open>
  fs/block_dev.c: the table of block device drivers, reading and releasing one block (there is no
  buffer cache), and the file operations of block devices.  A driver's \<open>rw_handler\<close> gets the
  direction and the address of the \<open>struct block\<close>.  \<open>None\<close> is a panic, a failed \<open>BUG_ON\<close>, a null
  pointer the code follows or a signed overflow.
\<close>

definition set_blkdev :: "nat \<Rightarrow> (block_device \<Rightarrow> block_device) \<Rightarrow> 'a fs_scheme \<Rightarrow> 'a fs_scheme" where
  "set_blkdev m f s = s\<lparr>blkdevs := (blkdevs s)(m := f (blkdevs s m))\<rparr>"

subsection \<open>Blocks\<close>

definition get_empty_blk :: "u32 \<Rightarrow> u32 \<Rightarrow> 'a fs_scheme \<Rightarrow> (u32 option \<times> 'a fs_scheme) option" where
  "get_empty_blk dev block_nr s =
     do { (b, s) \<leftarrow> kalloc sizeof_block s;
          (case b of
             None \<Rightarrow> Some (None, s)
           | Some b \<Rightarrow>
               do { (data, s) \<leftarrow> get_page s;
                    (case data of
                       None \<Rightarrow> do { s \<leftarrow> krelease b s; Some (None, s) }
                     | Some v \<Rightarrow>
                         Some (Some b, set_blk b (\<lambda>_. \<lparr>b_nr = block_nr, b_dev = dev, b_data = v,
                           b_dirty = False, b_uptodate = False\<rparr>) s)) }) }"

definition put_blk :: "u32 \<Rightarrow> 'a fs_scheme \<Rightarrow> 'a fs_scheme option" where
  "put_blk b s = do { s \<leftarrow> put_page (b_data (blks s b)) s; krelease b s }"

text \<open>The driver of a device number.\<close>

definition blk_handler :: "'a fs_scheme \<Rightarrow> u32 \<Rightarrow> nat option" where
  "blk_handler s dev =
     (let m = unat (MAJOR dev) in if NR_BLKDEVS \<le> m then None else bd_rw (blkdevs s m))"

definition bread :: "('a fs_scheme) env \<Rightarrow> u32 \<Rightarrow> u32 \<Rightarrow> 'a fs_scheme \<Rightarrow> (u32 option \<times> 'a fs_scheme) option" where
  "bread e dev block_nr s =
     do { rw \<leftarrow> blk_handler s dev;
          (b, s) \<leftarrow> get_empty_blk dev block_nr s;
          (case b of
             None \<Rightarrow> Some (None, s)
           | Some b \<Rightarrow>
               do { s \<leftarrow> blk_driver e rw BLK_READ b s;
                    if b_uptodate (blks s b) then Some (Some b, s)
                    else do { s \<leftarrow> put_blk b s; Some (None, s) } }) }"

definition brelse :: "('a fs_scheme) env \<Rightarrow> u32 \<Rightarrow> 'a fs_scheme \<Rightarrow> 'a fs_scheme option" where
  "brelse e b s =
     do { s \<leftarrow> (if b_dirty (blks s b)
               then do { rw \<leftarrow> blk_handler s (b_dev (blks s b)); blk_driver e rw BLK_WRITE b s }
               else Some s);
          bug_on (b_dirty (blks s b));
          put_blk b s }"

subsection \<open>Registration\<close>

fun free_blkdev :: "'a fs_scheme \<Rightarrow> nat \<Rightarrow> nat option" where
  "free_blkdev s 0 = None"
| "free_blkdev s (Suc m) = (if bd_name (blkdevs s (Suc m)) = None then Some (Suc m) else free_blkdev s m)"

definition register_blkdev ::
    "nat \<Rightarrow> u8 list option \<Rightarrow> nat option \<Rightarrow> u32 \<Rightarrow> 'a fs_scheme \<Rightarrow> int \<times> 'a fs_scheme" where
  "register_blkdev major name rw_handler block_size s =
     (if name = None \<or> rw_handler = None then (err EINVAL, s)
      else if NR_BLKDEVS \<le> major then (err EINVAL, s)
      else let find = (if major = 0 then free_blkdev s (NR_BLKDEVS - 1)
                       else if bd_name (blkdevs s major) \<noteq> None then None else Some major)
           in case find of
                None \<Rightarrow> (err EBUSY, s)
              | Some m \<Rightarrow> (SUCCESS, set_blkdev m (\<lambda>d. d\<lparr>bd_name := name, bd_rw := rw_handler,
                                                   bd_block_size := block_size\<rparr>) s))"

text \<open>\<open>strcmp\<close> follows the registered name even when nothing is registered.\<close>

definition unregister_blkdev :: "nat \<Rightarrow> u8 list \<Rightarrow> 'a fs_scheme \<Rightarrow> (int \<times> 'a fs_scheme) option" where
  "unregister_blkdev major name s =
     (if NR_BLKDEVS \<le> major then Some (err EINVAL, s)
      else if bd_ref (blkdevs s major) \<noteq> 0 then Some (err EBUSY, s)
      else do { n \<leftarrow> bd_name (blkdevs s major);
                if n \<noteq> name then Some (err EINVAL, s)
                else Some (SUCCESS, set_blkdev major
                       (\<lambda>d. d\<lparr>bd_name := None, bd_rw := None, bd_block_size := 0\<rparr>) s) })"

subsection \<open>File operations\<close>

definition blk_major :: "'a fs_scheme \<Rightarrow> u32 \<Rightarrow> nat option" where
  "blk_major s i =
     (let m = unat (MAJOR (i_rdev (inodes s i))) in if NR_BLKDEVS \<le> m then None else Some m)"

definition blkdev_open :: "u32 \<Rightarrow> u32 \<Rightarrow> 'a fs_scheme \<Rightarrow> (int \<times> 'a fs_scheme) option" where
  "blkdev_open i filp s =
     do { m \<leftarrow> blk_major s i;
          let s = set_blkdev m (\<lambda>d. d\<lparr>bd_ref := bd_ref d + 1\<rparr>) s;
          let ret = (if bd_rw (blkdevs s m) \<noteq> None then SUCCESS else err ENODEV);
          Some (ret, if FAILED ret then set_blkdev m (\<lambda>d. d\<lparr>bd_ref := bd_ref d - 1\<rparr>) s else s) }"

text \<open>\<open>while (chars-- > 0) { *to = *from; from++; to++; }\<close>\<close>

fun copy_chars :: "nat \<Rightarrow> u32 \<Rightarrow> u32 \<Rightarrow> (u32 \<Rightarrow> u8) \<Rightarrow> u32 \<Rightarrow> u8" where
  "copy_chars 0 dst src m = m"
| "copy_chars (Suc n) dst src m = copy_chars n (dst + 1) (src + 1) (m(dst := m src))"

text \<open>The loops of \<open>blkdev_read\<close> and \<open>blkdev_write\<close>; the result is the value returned.\<close>

function blk_read_loop :: "('a fs_scheme) env \<Rightarrow> u32 \<Rightarrow> u32 \<Rightarrow> u32 \<Rightarrow> u32 \<Rightarrow> nat \<Rightarrow> int \<Rightarrow>
    'a fs_scheme \<Rightarrow> (int \<times> 'a fs_scheme) option" where
  "blk_read_loop e filp block offset buf sz read s =
     (if sz = 0 then Some (read, s)
      else do {
        (b, s) \<leftarrow> bread e (i_rdev (inodes s (f_inode (files s filp)))) block s;
        (case b of
           None \<Rightarrow> Some (if read \<noteq> 0 then read else err EIO, s)
         | Some b \<Rightarrow>
             do { let chars = (if sz < BLOCK_SIZE then sz else BLOCK_SIZE);
                  let p = offset + b_data (blks s b);
                  pos \<leftarrow> c_int (f_pos (files s filp) + int chars);
                  let s = set_file filp (f_pos_update (\<lambda>_. pos)) s;
                  let s = s\<lparr>ram := copy_chars chars buf p (ram s)\<rparr>;
                  s \<leftarrow> brelse e b s;
                  blk_read_loop e filp (block + 1) 0 (buf + of_nat chars) (sz - chars) (read + int chars) s }) })"
  by pat_completeness auto
termination by (relation "measure (\<lambda>(e, filp, block, offset, buf, sz, read, s). sz)")
  (auto simp: BLOCK_SIZE_def split: if_splits)

declare blk_read_loop.simps [simp del]

function blk_write_loop :: "('a fs_scheme) env \<Rightarrow> u32 \<Rightarrow> u32 \<Rightarrow> u32 \<Rightarrow> u32 \<Rightarrow> nat \<Rightarrow> int \<Rightarrow>
    'a fs_scheme \<Rightarrow> (int \<times> 'a fs_scheme) option" where
  "blk_write_loop e filp block offset buf sz written s =
     (if sz = 0 then Some (written, s)
      else do {
        (b, s) \<leftarrow> bread e (i_rdev (inodes s (f_inode (files s filp)))) block s;
        (case b of
           None \<Rightarrow> Some (if written \<noteq> 0 then written else err EIO, s)
         | Some b \<Rightarrow>
             do { let chars = (if sz < BLOCK_SIZE then sz else BLOCK_SIZE);
                  let p = offset + b_data (blks s b);
                  pos \<leftarrow> c_int (f_pos (files s filp) + int chars);
                  let s = set_file filp (f_pos_update (\<lambda>_. pos)) s;
                  let s = s\<lparr>ram := copy_chars chars p buf (ram s)\<rparr>;
                  let s = set_blk b (b_dirty_update (\<lambda>_. True)) s;
                  s \<leftarrow> brelse e b s;
                  blk_write_loop e filp (block + 1) 0 (buf + of_nat chars) (sz - chars) (written + int chars) s }) })"
  by pat_completeness auto
termination by (relation "measure (\<lambda>(e, filp, block, offset, buf, sz, written, s). sz)")
  (auto simp: BLOCK_SIZE_def split: if_splits)

declare blk_write_loop.simps [simp del]

definition blkdev_read :: "('a fs_scheme) env \<Rightarrow> u32 \<Rightarrow> u32 \<Rightarrow> u32 \<Rightarrow> 'a fs_scheme \<Rightarrow> (int \<times> 'a fs_scheme) option" where
  "blkdev_read e filp buf sz s =
     (let pos = f_pos (files s filp)
      in blk_read_loop e filp (word_of_int (pos sdiv int BLOCK_SIZE)) (word_of_int (pos smod int BLOCK_SIZE))
           buf (unat sz) 0 s)"

definition blkdev_write :: "('a fs_scheme) env \<Rightarrow> u32 \<Rightarrow> u32 \<Rightarrow> u32 \<Rightarrow> 'a fs_scheme \<Rightarrow> (int \<times> 'a fs_scheme) option" where
  "blkdev_write e filp buf sz s =
     (let pos = f_pos (files s filp)
      in blk_write_loop e filp (word_of_int (pos sdiv int BLOCK_SIZE)) (word_of_int (pos smod int BLOCK_SIZE))
           buf (unat sz) 0 s)"

definition blkdev_ioctl :: "u32 \<Rightarrow> u32 \<Rightarrow> u32 \<Rightarrow> 'a fs_scheme \<Rightarrow> (int \<times> 'a fs_scheme) option" where
  "blkdev_ioctl filp request arg s = Some (err ENOSYS, s)"

definition blkdev_lseek :: "u32 \<Rightarrow> int \<Rightarrow> int \<Rightarrow> 'a fs_scheme \<Rightarrow> (int \<times> 'a fs_scheme) option" where
  "blkdev_lseek filp offset whence s =
     (if whence = 0
      then if offset < 0 then Some (err EINVAL, s)
           else Some (offset, set_file filp (f_pos_update (\<lambda>_. offset)) s)
      else if whence = 1
      then do { pos \<leftarrow> c_int (f_pos (files s filp) + offset);
                if pos < 0 then Some (err EINVAL, s)
                else Some (pos, set_file filp (f_pos_update (\<lambda>_. pos)) s) }
      else Some (err EINVAL, s))"

definition blkdev_close :: "u32 \<Rightarrow> u32 \<Rightarrow> 'a fs_scheme \<Rightarrow> (int \<times> 'a fs_scheme) option" where
  "blkdev_close i filp s =
     do { m \<leftarrow> blk_major s i;
          Some (SUCCESS, set_blkdev m (\<lambda>d. d\<lparr>bd_ref := bd_ref d - 1\<rparr>) s) }"

definition def_blk_fops :: "('a fs_scheme) env \<Rightarrow> ('a fs_scheme) file_operations" where
  "def_blk_fops e = \<lparr>fo_open = Some blkdev_open, fo_read = Some (blkdev_read e), fo_readdir = None,
     fo_write = Some (blkdev_write e), fo_ioctl = Some blkdev_ioctl, fo_lseek = Some blkdev_lseek,
     fo_close = Some blkdev_close\<rparr>"

end
