(* ===== verification/Open.thy ===== *)
theory Open
  imports Namei File_Dev Char_Dev Block_Dev
begin

text \<open>
  fs/open.c: the system calls on file descriptors.  \<open>fdt\<close> of a task maps its descriptors to open
  files; an open file counts the descriptors it is behind, of whatever task, and lives until the
  last of them is closed.  Reading, writing and the others go through the operations of the inode,
  which are those of character devices, of block devices or of the file system.
\<close>

subsection \<open>Operations of an inode\<close>

definition inode_ops :: "('a fs_scheme) env \<Rightarrow> 'a fs_scheme \<Rightarrow> u32 \<Rightarrow> (('a fs_scheme) file_operations) option" where
  "inode_ops e s i =
     (case i_fops (inodes s i) of
        None \<Rightarrow> None
      | Some Def_file_fops \<Rightarrow> Some (def_file_fops e)
      | Some Def_chr_fops \<Rightarrow> Some (def_chr_fops e)
      | Some Def_blk_fops \<Rightarrow> Some (def_blk_fops e))"

text \<open>\<open>inode->fops != NULL && inode->fops->op != NULL\<close>\<close>

definition inode_op :: "('a fs_scheme) env \<Rightarrow> 'a fs_scheme \<Rightarrow> u32 \<Rightarrow> (('a fs_scheme) file_operations \<Rightarrow> 'f option) \<Rightarrow> 'f option" where
  "inode_op e s i op = (case inode_ops e s i of None \<Rightarrow> None | Some ops \<Rightarrow> op ops)"

subsection \<open>Descriptors\<close>

text \<open>The offset of \<open>fdt\<close> in a \<open>struct task_struct\<close>.  A descriptor being set up holds the address of its own table.\<close>

definition FDT_OFFSET :: u32 where "FDT_OFFSET = 132"

definition set_fd :: "nat \<Rightarrow> u32 option \<Rightarrow> 'a sched_scheme \<Rightarrow> 'a sched_scheme" where
  "set_fd fd f s = upd_task (current s) (\<lambda>t. t\<lparr>fdt := (fdt t)(fd := f)\<rparr>) s"

definition cur_fd :: "'a sched_scheme \<Rightarrow> nat \<Rightarrow> u32 option" where
  "cur_fd s fd = fdt (cur_task s) fd"

definition get_unused_fd :: "'a sched_scheme \<Rightarrow> nat option \<times> 'a sched_scheme" where
  "get_unused_fd s =
     (case List.find (\<lambda>i. cur_fd s i = None) [0..<NR_OPEN] of
        None \<Rightarrow> (None, s)
      | Some i \<Rightarrow> (Some i, set_fd i (Some (current s + FDT_OFFSET)) s))"

definition put_used_fd :: "nat \<Rightarrow> 'a sched_scheme \<Rightarrow> 'a sched_scheme" where
  "put_used_fd fd s = set_fd fd None s"

subsection \<open>Opening and closing\<close>

text \<open>\<open>memset(f, 0, sizeof(f))\<close> clears only the first word; \<open>private_data\<close> stays as it was.\<close>

definition new_file :: "u32 \<Rightarrow> u32 \<Rightarrow> filp \<Rightarrow> filp" where
  "new_file fl i x = x\<lparr>f_flags := fl, f_pos := 0, f_inode := i, f_ref := 1\<rparr>"

definition sys_open :: "('a fs_scheme) env \<Rightarrow> u8 list option \<Rightarrow> u32 \<Rightarrow> 'a fs_scheme \<Rightarrow> (int \<times> 'a fs_scheme) option" where
  "sys_open e filename fl s =
     (case get_unused_fd s of
        (None, s) \<Rightarrow> Some (err ERROR, s)
      | (Some fd, s) \<Rightarrow>
          do { let fl = fl AND O_MASK;
               (r, inode, s) \<leftarrow> open_namei e filename fl s;
               if FAILED r then Some (r, put_used_fd fd s)
               else do {
                 i \<leftarrow> inode;
                 (f, s) \<leftarrow> kalloc sizeof_file s;
                 (case f of
                    None \<Rightarrow> do { s \<leftarrow> iput e i s; Some (err ENOMEM, put_used_fd fd s) }
                  | Some f \<Rightarrow>
                      do { let s = set_file f (new_file fl i) s;
                           let s = set_fd fd (Some f) s;
                           (ret, s) \<leftarrow> call_op (inode_op e s i fo_open) SUCCESS (\<lambda>op. op i f) s;
                           if FAILED ret
                           then do { s \<leftarrow> krelease f s; s \<leftarrow> iput e i s; Some (ret, put_used_fd fd s) }
                           else Some (int fd, s) }) } })"

definition sys_creat :: "('a fs_scheme) env \<Rightarrow> u8 list option \<Rightarrow> 'a fs_scheme \<Rightarrow> (int \<times> 'a fs_scheme) option" where
  "sys_creat e pathname s = sys_open e pathname (O_CREAT OR O_TRUNC) s"

definition sys_close :: "('a fs_scheme) env \<Rightarrow> nat \<Rightarrow> 'a fs_scheme \<Rightarrow> (int \<times> 'a fs_scheme) option" where
  "sys_close e fd s =
     (if NR_OPEN \<le> fd then Some (err EINVAL, s)
      else case cur_fd s fd of
             None \<Rightarrow> Some (err EINVAL, s)
           | Some f \<Rightarrow>
               (let s = put_used_fd fd s; i = f_inode (files s f);
                    s = set_file f (\<lambda>x. x\<lparr>f_ref := f_ref x - 1\<rparr>) s
                in if f_ref (files s f) = 0
                   then do { (ret, s) \<leftarrow> call_op (inode_op e s i fo_close) SUCCESS (\<lambda>op. op i f) s;
                             s \<leftarrow> iput e i s;
                             s \<leftarrow> krelease f s;
                             Some (ret, s) }
                   else Some (SUCCESS, s)))"

subsection \<open>Using an open file\<close>

text \<open>The descriptor checks the calls share.\<close>

definition with_file :: "nat \<Rightarrow> (u32 \<Rightarrow> 'a sched_scheme \<Rightarrow> (int \<times> 'a sched_scheme) option) \<Rightarrow>
    'a sched_scheme \<Rightarrow> (int \<times> 'a sched_scheme) option" where
  "with_file fd f s =
     (if NR_OPEN \<le> fd then Some (err EINVAL, s)
      else case cur_fd s fd of None \<Rightarrow> Some (err EINVAL, s) | Some a \<Rightarrow> f a s)"

definition sys_readdir :: "('a fs_scheme) env \<Rightarrow> nat \<Rightarrow> u32 \<Rightarrow> u32 \<Rightarrow> 'a fs_scheme \<Rightarrow> (int \<times> 'a fs_scheme) option" where
  "sys_readdir e fd buf len =
     with_file fd (\<lambda>a s. let i = f_inode (files s a)
                         in if \<not> IS_DIR (i_mode (inodes s i)) then Some (err ERROR, s)
                            else call_op (inode_op e s i fo_readdir) (err ENOSYS) (\<lambda>op. op a buf len) s)"

definition sys_read :: "('a fs_scheme) env \<Rightarrow> nat \<Rightarrow> u32 \<Rightarrow> u32 \<Rightarrow> 'a fs_scheme \<Rightarrow> (int \<times> 'a fs_scheme) option" where
  "sys_read e fd buf sz =
     with_file fd (\<lambda>a s. call_op (inode_op e s (f_inode (files s a)) fo_read) (err ENOSYS) (\<lambda>op. op a buf sz) s)"

definition sys_write :: "('a fs_scheme) env \<Rightarrow> nat \<Rightarrow> u32 \<Rightarrow> u32 \<Rightarrow> 'a fs_scheme \<Rightarrow> (int \<times> 'a fs_scheme) option" where
  "sys_write e fd buf sz =
     with_file fd (\<lambda>a s. call_op (inode_op e s (f_inode (files s a)) fo_write) (err ENOSYS) (\<lambda>op. op a buf sz) s)"

definition sys_ioctl :: "('a fs_scheme) env \<Rightarrow> nat \<Rightarrow> u32 \<Rightarrow> u32 \<Rightarrow> 'a fs_scheme \<Rightarrow> (int \<times> 'a fs_scheme) option" where
  "sys_ioctl e fd request arg =
     with_file fd (\<lambda>a s. call_op (inode_op e s (f_inode (files s a)) fo_ioctl) (err ENOSYS) (\<lambda>op. op a request arg) s)"

definition sys_lseek :: "('a fs_scheme) env \<Rightarrow> nat \<Rightarrow> int \<Rightarrow> int \<Rightarrow> 'a fs_scheme \<Rightarrow> (int \<times> 'a fs_scheme) option" where
  "sys_lseek e fd offset whence =
     with_file fd (\<lambda>a s. call_op (inode_op e s (f_inode (files s a)) fo_lseek) (err ENOSYS) (\<lambda>op. op a offset whence) s)"

subsection \<open>Duplicating\<close>

definition sys_dup :: "nat \<Rightarrow> 'a fs_scheme \<Rightarrow> (int \<times> 'a fs_scheme) option" where
  "sys_dup old_fd =
     with_file old_fd (\<lambda>f s.
       case get_unused_fd s of
         (None, s) \<Rightarrow> Some (err ERROR, s)
       | (Some new_fd, s) \<Rightarrow>
           Some (int new_fd, set_file f (\<lambda>x. x\<lparr>f_ref := f_ref x + 1\<rparr>) (set_fd new_fd (Some f) s)))"

definition sys_dup2 :: "nat \<Rightarrow> nat \<Rightarrow> 'a fs_scheme \<Rightarrow> (int \<times> 'a fs_scheme) option" where
  "sys_dup2 old_fd new_fd s =
     (if NR_OPEN \<le> old_fd \<or> NR_OPEN \<le> new_fd then Some (err EINVAL, s)
      else if cur_fd s old_fd = None \<or> cur_fd s new_fd = None then Some (err EINVAL, s)
      else if old_fd = new_fd then Some (int old_fd, s)
      else do { f \<leftarrow> cur_fd s old_fd;
                Some (int new_fd, set_file f (\<lambda>x. x\<lparr>f_ref := f_ref x + 1\<rparr>) (set_fd new_fd (Some f) s)) })"

end
