(* ===== verification/Page_Table.thy ===== *)
theory Page_Table
  imports Fs_State
begin

text \<open>
  kernel/mm/page_table.c: the page directory of a task.  Directories and tables are pages of kernel
  memory, read and written as words of \<open>ram\<close>; \<open>kernel_dir\<close> is the global \<open>kernel_page_dir\<close>.
  \<open>None\<close> is a failed \<open>BUG_ON\<close>, or a page the allocator does not know.
\<close>

subsection \<open>Entries in memory\<close>

definition pgd_at :: "'a vm_scheme \<Rightarrow> u32 \<Rightarrow> nat \<Rightarrow> pgd_t" where
  "pgd_at s dir i = Pgd (load32 s (dir + 4 * of_nat i))"
definition pgt_at :: "'a vm_scheme \<Rightarrow> u32 \<Rightarrow> nat \<Rightarrow> pgt_t" where
  "pgt_at s tab i = Pgt (load32 s (tab + 4 * of_nat i))"
definition set_pgd :: "u32 \<Rightarrow> nat \<Rightarrow> pgd_t \<Rightarrow> 'a vm_scheme \<Rightarrow> 'a vm_scheme" where
  "set_pgd dir i d = store_u32 (dir + 4 * of_nat i) (pgd d)"
definition set_pgt :: "u32 \<Rightarrow> nat \<Rightarrow> pgt_t \<Rightarrow> 'a vm_scheme \<Rightarrow> 'a vm_scheme" where
  "set_pgt tab i t = store_u32 (tab + 4 * of_nat i) (pgt t)"

text \<open>\<open>get_zeroed_page(GFP_NORMAL | GFP_DMA)\<close>\<close>

definition get_zeroed_page :: "'a vm_scheme \<Rightarrow> (u32 option \<times> 'a vm_scheme) option" where
  "get_zeroed_page s =
     do { (v, s) \<leftarrow> get_page s;
          (case v of
             None \<Rightarrow> Some (None, s)
           | Some a \<Rightarrow> Some (Some a, store_bytes a (replicate 4096 0) s)) }"

text \<open>\<open>alloc_pages\<close>, \<open>dealloc_pages\<close> and \<open>page_to_phys\<close> on the state.\<close>

definition vm_alloc :: "nat \<Rightarrow> nat \<Rightarrow> 'a vm_scheme \<Rightarrow> (nat option \<times> 'a vm_scheme) option" where
  "vm_alloc zone order s = do { (p, m) \<leftarrow> alloc_pages (vmm s) zone order; Some (p, s\<lparr>vmm := m\<rparr>) }"

definition vm_dealloc :: "nat \<Rightarrow> 'a vm_scheme \<Rightarrow> 'a vm_scheme option" where
  "vm_dealloc p s = do { m \<leftarrow> dealloc_pages (vmm s) p 0; Some (s\<lparr>vmm := m\<rparr>) }"

subsection \<open>Operations\<close>

definition get_avail_pages :: "nat \<Rightarrow> 'a vm_scheme \<Rightarrow> (nat option \<times> 'a vm_scheme) option" where
  "get_avail_pages order s =
     do { (p, s) \<leftarrow> vm_alloc ZONE_HIGHMEM order s;
          (p, s) \<leftarrow> (if p = None then vm_alloc ZONE_NORMAL order s else Some (p, s));
          (if p = None then vm_alloc ZONE_DMA order s else Some (p, s)) }"

definition copy_empty_page_dir :: "'a vm_scheme \<Rightarrow> (u32 option \<times> 'a vm_scheme) option" where
  "copy_empty_page_dir s =
     do { (dest, s) \<leftarrow> get_page s;
          (case dest of
             None \<Rightarrow> Some (None, s)
           | Some d \<Rightarrow> Some (Some d, store_bytes d (load_bytes s (kernel_dir s) 4096) s)) }"

text \<open>The two loops of \<open>free_page_dir\<close>.\<close>

definition free_table_entry :: "u32 \<Rightarrow> nat \<Rightarrow> 'a vm_scheme \<Rightarrow> 'a vm_scheme option" where
  "free_table_entry tab ti s =
     (if pgt_present (pgt_at s tab ti)
      then do { p \<leftarrow> phys_to_page (vmm s) (pgt_page (pgt_at s tab ti)); vm_dealloc p s }
      else Some s)"

definition free_dir_entry :: "u32 \<Rightarrow> nat \<Rightarrow> 'a vm_scheme \<Rightarrow> 'a vm_scheme option" where
  "free_dir_entry dir di s =
     (if pgd_present (pgd_at s dir di)
      then let tab = va (pgd_page (pgd_at s dir di))
           in do { s \<leftarrow> fold_opt (free_table_entry tab) [0..<PTRS_PER_PGT] s; put_page tab s }
      else Some s)"

definition free_page_dir :: "u32 \<Rightarrow> 'a vm_scheme \<Rightarrow> 'a vm_scheme option" where
  "free_page_dir dir s =
     do { s \<leftarrow> fold_opt (free_dir_entry dir) [0..<unat (PAGE_OFFSET div PGD_SIZE)] s;
          put_page dir s }"

definition USER_PAGE_MASK :: u32 where
  "USER_PAGE_MASK = PAGE_PRESENT OR PAGE_RW OR PAGE_USER"

text \<open>
  The loop after \<open>failed\<close> starts with \<open>total_count = now_count = 0\<close>, so it does nothing.
\<close>

definition load_page :: "u32 \<Rightarrow> u32 \<Rightarrow> 'a vm_scheme \<Rightarrow> (nat option \<times> 'a vm_scheme) option" where
  "load_page dir start_addr s =
     do { bug_on (page_offset start_addr \<noteq> 0);
          if PAGE_OFFSET < start_addr + PAGE_SIZE then Some (None, s)
          else do {
            (pages, s) \<leftarrow> get_avail_pages 0 s;
            (case pages of
               None \<Rightarrow> Some (None, s)
             | Some p \<Rightarrow>
                 do { let pgd_i = unat (pgd_index start_addr);
                      (now_pgt, s) \<leftarrow>
                        (if \<not> pgd_present (pgd_at s dir pgd_i)
                         then do { (t, s) \<leftarrow> get_zeroed_page s;
                                   (case t of
                                      None \<Rightarrow> Some (None, s)
                                    | Some t \<Rightarrow> Some (Some t, set_pgd dir pgd_i (mk_pgd (pa t) USER_PAGE_MASK) s)) }
                         else Some (Some (va (pgd_page (pgd_at s dir pgd_i))), s));
                      (case now_pgt of
                         None \<Rightarrow> do { s \<leftarrow> vm_dealloc p s; Some (None, s) }
                       | Some t \<Rightarrow>
                           do { let ti = unat (pgt_index start_addr);
                                bug_on (pgt_present (pgt_at s t ti));
                                real_addr \<leftarrow> page_to_phys (vmm s) p;
                                Some (Some p, set_pgt t ti (mk_pgt real_addr USER_PAGE_MASK) s) }) }) } }"

end
