(* ===== verification/Thread.thy ===== *)
theory Thread
  imports Open Page_Table
begin

text \<open>
  The life of a task: \<open>kernel_thread\<close> and \<open>kthread_release\<close> of kernel/sched.c, the registers of
  arch/sched.c, and kernel/exit.c.  \<open>None\<close> is a failed \<open>BUG_ON\<close>, a null pointer the code follows,
  or a wait that never ends.  A call that switches to another task and never comes back, as
  \<open>sys_exit\<close> does, yields the state the other task finds.
\<close>

subsection \<open>Saved registers (include/asm/processor.h, arch/sched.c)\<close>

record pt_regs =
  r_ebx :: u32
  r_ecx :: u32
  r_edx :: u32
  r_edi :: u32
  r_esi :: u32
  r_ebp :: u32
  r_eax :: u32
  r_gs :: u32
  r_fs :: u32
  r_es :: u32
  r_ds :: u32
  r_ori_eax :: u32
  r_err_code :: u32
  r_eip :: u32
  r_cs :: u32
  r_eflags :: u32
  r_esp :: u32
  r_ss :: u32

definition sizeof_pt_regs :: u32 where "sizeof_pt_regs = 72"
definition GDT_KERNEL_CS :: u32 where "GDT_KERNEL_CS = 1"
definition GDT_KERNEL_DS :: u32 where "GDT_KERNEL_DS = 2"
definition X86_EFLAGS_IF :: u32 where "X86_EFLAGS_IF = 0x200"
definition X86_EFLAGS_IOPL :: u32 where "X86_EFLAGS_IOPL = 0x3000"

definition store_regs :: "u32 \<Rightarrow> pt_regs \<Rightarrow> 'a vm_scheme \<Rightarrow> 'a vm_scheme" where
  "store_regs a r s =
     fold (\<lambda>(i, v). store_u32 (a + 4 * of_nat i) v)
       (enumerate 0 [r_ebx r, r_ecx r, r_edx r, r_edi r, r_esi r, r_ebp r, r_eax r, r_gs r, r_fs r,
          r_es r, r_ds r, r_ori_eax r, r_err_code r, r_eip r, r_cs r, r_eflags r, r_esp r, r_ss r]) s"

definition load_regs :: "'a vm_scheme \<Rightarrow> u32 \<Rightarrow> pt_regs" where
  "load_regs s a =
     (let w = (\<lambda>i. load32 s (a + 4 * of_nat i))
      in \<lparr>r_ebx = w 0, r_ecx = w 1, r_edx = w 2, r_edi = w 3, r_esi = w 4, r_ebp = w 5, r_eax = w 6,
          r_gs = w 7, r_fs = w 8, r_es = w 9, r_ds = w 10, r_ori_eax = w 11, r_err_code = w 12,
          r_eip = w 13, r_cs = w 14, r_eflags = w 15, r_esp = w 16, r_ss = w 17\<rparr>)"

text \<open>
  The first context of a thread: \<open>kthread_wrapper\<close> pops these registers and returns to
  \<open>_kthread_wrapper\<close>, which calls the function in \<open>ecx\<close> with the argument in \<open>edx\<close>.  The two
  assembly routines are given by their addresses.
\<close>

record entry_points =
  kthread_wrapper :: u32
  kthread_wrapper' :: u32

definition kthread_regs :: "entry_points \<Rightarrow> u32 \<Rightarrow> u32 \<Rightarrow> pt_regs" where
  "kthread_regs w pfn data =
     \<lparr>r_ebx = 0, r_ecx = pfn, r_edx = data, r_edi = 0, r_esi = 0, r_ebp = 0, r_eax = 0,
      r_gs = push_bit 3 GDT_KERNEL_DS, r_fs = push_bit 3 GDT_KERNEL_DS,
      r_es = push_bit 3 GDT_KERNEL_DS, r_ds = push_bit 3 GDT_KERNEL_DS, r_ori_eax = 0,
      r_err_code = 0, r_eip = kthread_wrapper' w, r_cs = push_bit 3 GDT_KERNEL_CS,
      r_eflags = X86_EFLAGS_IF, r_esp = 0, r_ss = 0\<rparr>"

definition arch_kthread_context_init ::
    "entry_points \<Rightarrow> u32 \<Rightarrow> u32 \<Rightarrow> u32 \<Rightarrow> 'a vm_scheme \<Rightarrow> task_context \<times> 'a vm_scheme" where
  "arch_kthread_context_init w pfn data stack s =
     (let regs = stack - sizeof_pt_regs
      in (\<lparr>ctx_esp = regs, ctx_eip = kthread_wrapper w\<rparr>, store_regs regs (kthread_regs w pfn data) s))"

subsection \<open>Making a thread\<close>

text \<open>\<open>strncpy(task->cmd, cmd, 20); task->cmd[19] = 0\<close>, the name given without its terminator.\<close>

definition thread_cmd :: "u8 list \<Rightarrow> u8 list \<Rightarrow> u8 list" where
  "thread_cmd name old =
     (let new = take TASK_CMD_LENGTH (name @ [0])
      in (new @ drop (length new) old)[TASK_CMD_LENGTH - 1 := 0])"

definition new_task :: "u32 \<Rightarrow> u8 list \<Rightarrow> task \<Rightarrow> task \<Rightarrow> task" where
  "new_task p name cur t =
     t\<lparr>tstate := TASK_RUNNABLE, pid := p, cmd := thread_cmd name (cmd t), tflags := TASK_KTHREAD,
       tsignal := 0, sig_mask := sig_mask cur,
       sig_fn := (\<lambda>i. if i < NR_SIGNALS then None else sig_fn t i),
       sig_restorer := SIG_RESTORER_NULL, time_slice := calc_time_slice t, exit_code := 0,
       chld_active := [], chld_zombie := []\<rparr>"

definition dref_opt :: "u32 option \<Rightarrow> 'a fs_scheme \<Rightarrow> 'a fs_scheme option" where
  "dref_opt d s = (case d of None \<Rightarrow> Some s | Some d \<Rightarrow> dref d s)"

text \<open>The loop that hands the open files on: each gains a descriptor.\<close>

definition share_fd :: "u32 \<Rightarrow> nat \<Rightarrow> 'a fs_scheme \<Rightarrow> 'a fs_scheme" where
  "share_fd t i s =
     (let f = cur_fd s i; s = upd_task t (\<lambda>x. x\<lparr>fdt := (fdt x)(i := f)\<rparr>) s
      in case f of None \<Rightarrow> s | Some a \<Rightarrow> set_file a (\<lambda>x. x\<lparr>f_ref := f_ref x + 1\<rparr>) s)"

definition kernel_thread ::
    "entry_points \<Rightarrow> u8 list \<Rightarrow> u32 \<Rightarrow> u32 \<Rightarrow> 'a fs_scheme \<Rightarrow> (int \<times> 'a fs_scheme) option" where
  "kernel_thread w name pfn data s =
     do { (t, s) \<leftarrow> get_page s;
          (case t of
             None \<Rightarrow> Some (err ENOMEM, s)
           | Some t \<Rightarrow>
               do { (p, s) \<leftarrow> find_usable_pid s;
                    let s = upd_task t (new_task p name (cur_task s)) s;
                    let s = s\<lparr>queues := (queues s)(Wait_exit t := [])\<rparr>;
                    let (ctx, s) = arch_kthread_context_init w pfn data (t + PAGE_SIZE) s;
                    let s = upd_task t (tcontext_update (\<lambda>_. ctx)) s;
                    (dir, s) \<leftarrow> copy_empty_page_dir s;
                    (case dir of
                       None \<Rightarrow> do { s \<leftarrow> put_page t s; Some (err ENOMEM, s) }
                     | Some dir \<Rightarrow>
                         do { let cur = cur_task s;
                              let s = upd_task t (\<lambda>x. x\<lparr>page_dir := dir, parent := Some (current s),
                                        pwd := pwd cur, root := root cur\<rparr>) s;
                              s \<leftarrow> dref_opt (pwd cur) s;
                              s \<leftarrow> dref_opt (root cur) s;
                              let s = fold (share_fd t) [0..<NR_OPEN] s;
                              let s = s\<lparr>ready_list := t # ready_list s, task_list := t # task_list s\<rparr>;
                              let s = upd_task (current s) (\<lambda>x. x\<lparr>chld_active := t # chld_active x\<rparr>) s;
                              let s = add_to_pid_lists t s;
                              Some (sint p, s) }) }) }"

subsection \<open>Releasing a thread\<close>

text \<open>The children of a dead task go to \<open>init\<close>; without a task of that identifier the code follows null.\<close>

definition adopt_children :: "u32 \<Rightarrow> 'a sched_scheme \<Rightarrow> 'a sched_scheme option" where
  "adopt_children t s =
     (let x = tasks s t
      in if chld_active x = [] \<and> chld_zombie x = [] then Some s
         else do {
           init \<leftarrow> get_task_by_pid s TASK_INIT_PID;
           let s = fold (\<lambda>c. upd_task c (parent_update (\<lambda>_. Some init))) (chld_active x @ chld_zombie x) s;
           let s = upd_task init (\<lambda>y. y\<lparr>chld_active := chld_active x @ chld_active y,
                                        chld_zombie := chld_zombie x @ chld_zombie y\<rparr>) s;
           Some (if chld_zombie (tasks s init) \<noteq> [] then wake_up (Wait_exit init) s else s) })"

text \<open>
  \<open>if (task->root);\<close> guards nothing: \<open>dput\<close> is called whatever \<open>root\<close> is, and a null root is
  \<open>None\<close>.
\<close>

definition kthread_release :: "('a fs_scheme) env \<Rightarrow> u32 \<Rightarrow> 'a fs_scheme \<Rightarrow> 'a fs_scheme option" where
  "kthread_release e t s =
     do { bug_on (tstate (tasks s t) \<noteq> TASK_DEAD);
          bug_on (pid (tasks s t) = 0);
          let s = remove_from_pid_lists t s;
          let s = s\<lparr>task_list := remove1 t (task_list s)\<rparr>;
          s \<leftarrow> adopt_children t (del_child t s);
          r \<leftarrow> root (tasks s t);
          s \<leftarrow> dput e r s;
          s \<leftarrow> (case pwd (tasks s t) of None \<Rightarrow> Some s | Some d \<Rightarrow> dput e d s);
          s \<leftarrow> free_page_dir (page_dir (tasks s t)) s;
          put_page t s }"

subsection \<open>Signals sent (kernel/signal.c)\<close>

definition SIGALRM :: nat where "SIGALRM = 0"
definition SIGUSR1 :: nat where "SIGUSR1 = 1"
definition SIGUSR2 :: nat where "SIGUSR2 = 2"
definition SIGKILL :: nat where "SIGKILL = 3"
definition SIGCHLD :: nat where "SIGCHLD = 4"
definition SIG_UNMASK :: u32 where "SIG_UNMASK = BIT SIGKILL"

definition sys_kill :: "u32 \<Rightarrow> nat \<Rightarrow> 'a sched_scheme \<Rightarrow> int \<times> 'a sched_scheme" where
  "sys_kill p sig s =
     (case get_task_by_pid s p of
        None \<Rightarrow> (err ERROR, s)
      | Some t \<Rightarrow>
          if is_kthread (tasks s t) then (err ERROR, s)
          else if NR_SIGNALS \<le> sig then (err ERROR, s)
          else (SUCCESS, upd_task t (\<lambda>x. x\<lparr>tsignal := bit_set (tsignal x) sig\<rparr>) s))"

subsection \<open>Ending and waiting (kernel/exit.c)\<close>

definition close_if_open :: "('a fs_scheme) env \<Rightarrow> nat \<Rightarrow> 'a fs_scheme \<Rightarrow> 'a fs_scheme option" where
  "close_if_open e i s =
     (if cur_fd s i = None then Some s else do { (r, s) \<leftarrow> sys_close e i s; Some s })"

definition sys_exit :: "('a fs_scheme) env \<Rightarrow> int \<Rightarrow> 'a fs_scheme \<Rightarrow> 'a fs_scheme option" where
  "sys_exit e code s =
     do { let c = current s;
          bug_on (pid (tasks s c) = 0);
          s \<leftarrow> fold_opt (close_if_open e) [0..<NR_OPEN] s;
          let s = upd_task c (\<lambda>t. t\<lparr>tstate := TASK_ZOMBIE, exit_code := code\<rparr>) s;
          s \<leftarrow> (if is_kthread (tasks s c) then Some s
               else do { p \<leftarrow> parent (tasks s c);
                         Some (snd (sys_kill (pid (tasks s p)) SIGCHLD s)) });
          schedule s }"

text \<open>What \<open>sys_wait_pid\<close> and \<open>sys_wait_chld\<close> do with a task that has ended.\<close>

definition reap :: "('a fs_scheme) env \<Rightarrow> u32 \<Rightarrow> 'a fs_scheme \<Rightarrow> (int \<times> 'a fs_scheme) option" where
  "reap e t s =
     do { let s = upd_task t (tstate_update (\<lambda>_. TASK_DEAD)) s;
          let code = exit_code (tasks s t);
          s \<leftarrow> kthread_release e t s;
          Some (code, s) }"

definition sys_wait_pid :: "('a fs_scheme) env \<Rightarrow> u32 \<Rightarrow> 'a fs_scheme \<Rightarrow> (int \<times> 'a fs_scheme) option" where
  "sys_wait_pid e p s =
     (case get_task_by_pid s p of
        None \<Rightarrow> Some (err ERROR, s)
      | Some t \<Rightarrow>
          if parent (tasks s t) \<noteq> Some (current s) then Some (err ERROR, s)
          else do { s \<leftarrow> wait_event e (Wait_exit (current s)) (\<lambda>s. tstate (tasks s t) = TASK_ZOMBIE) s;
                    reap e t s })"

definition sys_wait_chld :: "('a fs_scheme) env \<Rightarrow> u32 \<Rightarrow> 'a fs_scheme \<Rightarrow> (int \<times> 'a fs_scheme) option" where
  "sys_wait_chld e ptr_pid s =
     do { let c = current s;
          s \<leftarrow> wait_event e (Wait_exit c) (\<lambda>s. chld_zombie (tasks s c) \<noteq> []) s;
          t \<leftarrow> first_in (chld_zombie (tasks s c));
          bug_on (pid (tasks s t) = 0);
          let s = (if ptr_pid \<noteq> 0 then store_u32 ptr_pid (pid (tasks s t)) s else s);
          reap e t s }"

end
