(* ===== verification/Signal.thy ===== *)
theory Signal
  imports Thread
begin

text \<open>
  kernel/signal.c and arch/signal.c: handlers, masks, and the delivery of a signal on the way back
  to user mode.  The frame a handler runs on is written to the user's stack in \<open>ram\<close>; user memory
  is taken as the running task sees it, and every access to it as possible.  Handlers are user
  addresses.  The registers of the task are a value here; \<open>sys_sigreturn\<close> finds them at the top of
  the task's page.
\<close>

definition NR_sigreturn :: u32 where "NR_sigreturn = 17"

text \<open>The eight bytes of \<open>retcode\<close>: \<open>movl $17, %eax; int $0x80\<close> and a pad.\<close>

definition retcode :: "u8 list" where
  "retcode = [0xb8] @ map (\<lambda>i. ucast (drop_bit (8 * i) NR_sigreturn)) [0..<4] @ [0xcd, 0x80, 0]"

definition push :: "u32 \<Rightarrow> u32 \<times> 'a vm_scheme \<Rightarrow> u32 \<times> 'a vm_scheme" where
  "push v x = (case x of (esp, s) \<Rightarrow> (esp - 4, store_u32 (esp - 4) v s))"

text \<open>The result is the new \<open>sig_restorer\<close>: where the frame starts.\<close>

definition arch_setup_sig_handler ::
    "pt_regs \<Rightarrow> u32 \<Rightarrow> 'a vm_scheme \<Rightarrow> u32 \<times> pt_regs \<times> 'a vm_scheme" where
  "arch_setup_sig_handler r handler s =
     (let (esp, s) = fold push [r_eax r, r_ebx r, r_ecx r, r_edx r, r_edi r, r_esi r, r_ebp r,
            r_eip r, r_eflags r, r_esp r] (r_esp r, s);
          esp = esp - 8;
          s = store_bytes esp retcode s;
          (esp, s) = push esp (esp, s)
      in (esp, r\<lparr>r_eip := handler, r_esp := esp\<rparr>, s))"

definition arch_sig_restore :: "u32 \<Rightarrow> pt_regs \<Rightarrow> 'a vm_scheme \<Rightarrow> u32 \<times> pt_regs" where
  "arch_sig_restore restorer r s =
     (let w = (\<lambda>i. load32 s (restorer + 12 + 4 * of_nat i));
          r = r\<lparr>r_esp := w 0, r_eflags := w 1, r_eip := w 2, r_ebp := w 3, r_esi := w 4, r_edi := w 5,
                r_edx := w 6, r_ecx := w 7, r_ebx := w 8, r_eax := w 9\<rparr>
      in (r_eax r, r))"

definition arch_check_user_regs :: "pt_regs \<Rightarrow> int" where
  "arch_check_user_regs r =
     (if r_esp r > PAGE_OFFSET \<or> r_eip r \<ge> PAGE_OFFSET \<or> r_eflags r AND X86_EFLAGS_IOPL \<noteq> 0 \<or>
         r_eflags r AND X86_EFLAGS_IF = 0
      then err ERROR else 0)"

definition from_kernel :: "pt_regs \<Rightarrow> bool" where
  "from_kernel r \<longleftrightarrow> r_cs r AND 3 \<noteq> 3"

subsection \<open>System calls\<close>

definition sys_sigaction :: "nat \<Rightarrow> u32 \<Rightarrow> 'a sched_scheme \<Rightarrow> int \<times> 'a sched_scheme" where
  "sys_sigaction sig handler s =
     (if NR_SIGNALS \<le> sig then (err ERROR, s)
      else if PAGE_OFFSET \<le> handler then (err ERROR, s)
      else if BIT sig AND SIG_UNMASK \<noteq> 0 then (err ERROR, s)
      else (SUCCESS, upd_task (current s)
              (\<lambda>t. t\<lparr>sig_fn := (sig_fn t)(sig := if handler = 0 then None else Some handler)\<rparr>) s))"

definition sys_sigmask :: "nat \<Rightarrow> bool \<Rightarrow> 'a sched_scheme \<Rightarrow> int \<times> 'a sched_scheme" where
  "sys_sigmask sig m s =
     (if NR_SIGNALS \<le> sig then (err ERROR, s)
      else if BIT sig AND SIG_UNMASK \<noteq> 0 then (err ERROR, s)
      else (SUCCESS, upd_task (current s)
              (\<lambda>t. t\<lparr>sig_mask := (if m then bit_set (sig_mask t) sig else bit_clear (sig_mask t) sig)\<rparr>) s))"

text \<open>
  What becomes of a system call that may end the task: it returns with a value, or the task is gone
  and the state is the one another task finds.
\<close>

datatype ('r, 's) outcome = Returns 'r 's | Gone 's

definition die :: "('a fs_scheme) env \<Rightarrow> 'a fs_scheme \<Rightarrow> ('r, 'a fs_scheme) outcome option" where
  "die e s = do { s \<leftarrow> sys_exit e (- 1) s; Some (Gone s) }"

definition sys_sigreturn :: "('a fs_scheme) env \<Rightarrow> 'a fs_scheme \<Rightarrow> (u32, 'a fs_scheme) outcome option" where
  "sys_sigreturn e s =
     (let c = current s; at = c - sizeof_pt_regs + PAGE_SIZE
      in if sig_restorer (tasks s c) = SIG_RESTORER_NULL then die e s
         else let (ret, r) = arch_sig_restore (sig_restorer (tasks s c)) (load_regs s at) s;
                  s = store_regs at r s
              in if FAILED (arch_check_user_regs r) then die e s
                 else Some (Returns ret (upd_task c (sig_restorer_update (\<lambda>_. SIG_RESTORER_NULL)) s)))"

subsection \<open>Delivery\<close>

definition first_signal :: "u32 \<Rightarrow> nat option" where
  "first_signal w = List.find (bit w) [0..<NR_SIGNALS]"

text \<open>
  \<open>do_signal\<close> on the way back to user mode, with the registers it may change.  The test for a masked
  signal is \<open>sig_mask && BIT(i) && ~SIG_UNMASK\<close>, which is true whenever any signal is masked.
  \<open>SIGCHLD\<close> is ignored when it has no handler, every other signal without one ends the task.
\<close>

definition do_signal ::
    "('a fs_scheme) env \<Rightarrow> pt_regs \<Rightarrow> 'a fs_scheme \<Rightarrow> (pt_regs, 'a fs_scheme) outcome option" where
  "do_signal e r s =
     (let c = current s; t = tasks s c
      in if tsignal t = 0 then Some (Returns r s)
         else if from_kernel r then Some (Returns r s)
         else do {
           bug_on (is_kthread t);
           if sig_restorer t \<noteq> SIG_RESTORER_NULL then Some (Returns r s)
           else do {
             i \<leftarrow> first_signal (tsignal t);
             let clear = upd_task c (\<lambda>x. x\<lparr>tsignal := bit_clear (tsignal x) i\<rparr>);
             if sig_mask t \<noteq> 0 \<and> BIT i \<noteq> 0 \<and> NOT SIG_UNMASK \<noteq> 0 then Some (Returns r (clear s))
             else case sig_fn t i of
                    None \<Rightarrow> if i = SIGCHLD then Some (Returns r (clear s)) else die e s
                  | Some handler \<Rightarrow>
                      if 0 \<le> arch_check_user_regs r
                      then let (restorer, r, s) = arch_setup_sig_handler r handler s;
                               s = upd_task c (sig_restorer_update (\<lambda>_. restorer)) s
                           in if restorer = SIG_RESTORER_NULL then die e s else Some (Returns r (clear s))
                      else die e s } })"

end
