(* ===== verification/Ram.thy ===== *)
theory Ram
  imports Fs_State
begin

text \<open>
  What a load finds after stores: addresses are 32-bit words and wrap around, so two places are
  apart when neither is less than the width of an access above the other.
\<close>

lemma unat_small: "n < 2 ^ 32 \<Longrightarrow> unat (of_nat n :: u32) = n"
  by (simp add: unat_of_nat take_bit_nat_eq_self)

lemma unat_lt_u32: "unat (x :: u32) < 2 ^ 32"
  using unsigned_less [of x] by simp

lemma fold_store:
  assumes "n \<le> 2 ^ 32"
  shows "fold (\<lambda>i m. m(a + of_nat i := bs ! i)) [0..<n] m x =
    (if unat (x - a) < n then bs ! unat (x - a) else m (x :: u32))"
  using assms
proof (induction n)
  case (Suc n)
  have "x = a + of_nat n \<longleftrightarrow> unat (x - a) = n"
  proof
    assume "x = a + of_nat n"
    then show "unat (x - a) = n" using Suc.prems by (simp add: unat_small)
  next
    assume "unat (x - a) = n"
    then have "of_nat n = x - a" by (metis of_nat_unat ucast_id)
    then show "x = a + of_nat n" by simp
  qed
  then show ?case using Suc by (auto simp: less_Suc_eq)
qed simp

lemma ram_store_bytes:
  assumes "length bs \<le> 2 ^ 32"
  shows "ram (store_bytes a bs s) x = (if unat (x - a) < length bs then bs ! unat (x - a) else ram s x)"
  by (simp add: store_bytes_def fold_store [OF assms])

lemma store_bytes_keeps [simp]:
  "tasks (store_bytes a bs s) = tasks s" "current (store_bytes a bs s) = current s"
  "vkm (store_bytes a bs s) = vkm s" "vmm (store_bytes a bs s) = vmm s"
  "queues (store_bytes a bs s) = queues s" "kernel_dir (store_bytes a bs s) = kernel_dir s"
  by (simp_all add: store_bytes_def)

lemma store_u32_keeps [simp]:
  "tasks (store_u32 a v s) = tasks s" "current (store_u32 a v s) = current s"
  "vkm (store_u32 a v s) = vkm s" "vmm (store_u32 a v s) = vmm s"
  "queues (store_u32 a v s) = queues s" "kernel_dir (store_u32 a v s) = kernel_dir s"
  by (simp_all add: store_u32_def)

lemma load_store_bytes:
  assumes "length bs \<le> 2 ^ 32"
  shows "load_bytes (store_bytes a bs s) a (length bs) = bs"
  using assms by (auto simp: load_bytes_def ram_store_bytes unat_small intro: nth_equalityI)

lemma load_bytes_cong:
  assumes "\<And>i. i < n \<Longrightarrow> ram s (a + of_nat i) = ram t (a + of_nat i)"
  shows "load_bytes s a n = load_bytes t a n"
  using assms by (simp add: load_bytes_def)

text \<open>A word is its four bytes.\<close>

lemma word_bytes:
  "word_of_int (horner_sum uint 256 (map (\<lambda>i. ucast (drop_bit (8 * i) v) :: u8) [0..<4])) = (v :: u32)"
proof -
  have b: "uint (ucast (drop_bit k v) :: u8) = uint v div 2 ^ k mod 256" for k
  proof -
    have "uint (drop_bit k v) = drop_bit k (uint v)"
      using unsigned_less [of v, where ?'a = int] by (simp only: unsigned_drop_bit_eq) (simp add: take_bit_int_eq_self)
    then show ?thesis by (simp only: unsigned_ucast_eq take_bit_eq_mod drop_bit_eq_div) simp
  qed
  define x where "x = uint v"
  have x: "0 \<le> x" "x < 2 ^ 32" using unsigned_less [of v, where ?'a = int] by (simp_all add: x_def)
  have "x div 65536 = x div 256 div 256" "x div 16777216 = x div 256 div 256 div 256"
    by (simp_all add: zdiv_zmult2_eq [symmetric])
  moreover have "x div 16777216 mod 256 = x div 16777216" using x by (intro mod_pos_pos_trivial) auto
  ultimately have e: "x mod 256 + 256 * (x div 256 mod 256 + 256 * (x div 65536 mod 256 + 256 * (x div 16777216 mod 256))) = x"
    by (metis mod_mult_div_eq)
  have h: "horner_sum uint 256 [p, q, r, t] = uint p + 256 * (uint q + 256 * (uint r + 256 * uint t))"
    for p q r t :: u8 by simp
  have b0: "uint (ucast (drop_bit 0 v) :: u8) = x mod 256" "uint (ucast (drop_bit 8 v) :: u8) = x div 256 mod 256"
    "uint (ucast (drop_bit 16 v) :: u8) = x div 65536 mod 256"
    "uint (ucast (drop_bit 24 v) :: u8) = x div 16777216 mod 256"
    by (simp_all only: b x_def) simp_all
  have "map (\<lambda>i. ucast (drop_bit (8 * i) v) :: u8) [0..<4] =
      [ucast (drop_bit 0 v), ucast (drop_bit 8 v), ucast (drop_bit 16 v), ucast (drop_bit 24 v)]"
    by (simp add: upt_rec)
  then have "horner_sum uint 256 (map (\<lambda>i. ucast (drop_bit (8 * i) v) :: u8) [0..<4]) = x"
    by (simp only: h b0 e)
  then show ?thesis by (simp only: x_def word_of_int_uint)
qed

lemma load_store_u32: "load32 (store_u32 a v s) a = v"
  using load_store_bytes [of "map (\<lambda>i. ucast (drop_bit (8 * i) v)) [0..<4]" a s]
  by (simp only: load32_def store_u32_def length_map length_upt) (simp add: word_bytes del: upt.simps)

definition apart :: "nat \<Rightarrow> u32 \<Rightarrow> nat \<Rightarrow> u32 \<Rightarrow> bool" where
  "apart n a m b \<longleftrightarrow> n \<le> unat (b - a) \<and> m \<le> unat (a - b)"

lemma ram_apart:
  assumes "apart n a (length bs) b" "i < n" "length bs \<le> 2 ^ 32"
  shows "ram (store_bytes b bs s) (a + of_nat i) = ram s (a + of_nat i)"
proof -
  have "\<not> unat (a + of_nat i - b) < length bs"
  proof
    assume l: "unat (a + of_nat i - b) < length bs"
    define d where "d = a - b"
    have i: "unat (of_nat i :: u32) = i" using assms(1,2) unat_lt_u32 [of "b - a"]
      by (intro unat_small) (simp add: apart_def)
    have s: "a + of_nat i - b = d + of_nat i" by (simp add: d_def)
    have d: "length bs \<le> unat d" using assms(1) by (simp add: apart_def d_def)
    have ba: "b - a = - d" by (simp add: d_def)
    show False
    proof (cases "unat d + i < 2 ^ 32")
      case True
      then have "unat (d + of_nat i) = unat d + i" by (simp add: unat_word_ariths(1) i)
      then show False using l s d by simp
    next
      case False
      have "d \<noteq> 0"
      proof
        assume "d = 0"
        then show False using assms(1,2) ba by (simp add: apart_def)
      qed
      then have "unat (- d) = 2 ^ 32 - unat d" using unat_sub_if' [of 0 d] by (simp add: word_le_nat_alt unat_gt_0)
      then have "n \<le> 2 ^ 32 - unat d" using assms(1) ba by (simp add: apart_def)
      then show False using False assms(2) unat_lt_u32 [of d] by simp
    qed
  qed
  then show ?thesis using assms(3) by (simp add: ram_store_bytes)
qed

lemma load32_apart:
  assumes "apart 4 a (length bs) b" "length bs \<le> 2 ^ 32"
  shows "load32 (store_bytes b bs s) a = load32 s a"
  unfolding load32_def by (rule arg_cong [where f = "\<lambda>x. word_of_int (horner_sum uint 256 x)"])
    (rule load_bytes_cong, rule ram_apart [OF assms(1) _ assms(2)])

lemma load32_store_u32:
  "apart 4 a 4 b \<Longrightarrow> load32 (store_u32 b v s) a = load32 s a"
  unfolding store_u32_def by (rule load32_apart) simp_all

lemma load32_cong:
  assumes "\<And>i. i < 4 \<Longrightarrow> ram s (a + of_nat i) = ram t (a + of_nat i)"
  shows "load32 s a = load32 t a"
  unfolding load32_def by (rule arg_cong [where f = "\<lambda>x. word_of_int (horner_sum uint 256 x)"])
    (rule load_bytes_cong, rule assms)

text \<open>Words at multiples of four from a base.\<close>

lemma apart_words_less:
  assumes "i < j" "j < 2 ^ 30"
  shows "4 \<le> unat ((a + 4 * of_nat j) - (a + 4 * of_nat i) :: u32)"
    "4 \<le> unat ((a + 4 * of_nat i) - (a + 4 * of_nat j) :: u32)"
proof -
  define d :: u32 where "d = of_nat (4 * (j - i))"
  have d: "unat d = 4 * (j - i)" unfolding d_def using assms by (intro unat_small) simp
  have e: "(a + 4 * of_nat j) - (a + 4 * of_nat i) = d"
    using assms(1) by (simp add: d_def of_nat_diff algebra_simps)
  then show "4 \<le> unat ((a + 4 * of_nat j) - (a + 4 * of_nat i))" using d assms(1) by simp
  have m: "(a + 4 * of_nat i) - (a + 4 * of_nat j) = - d" using e by (metis minus_diff_eq)
  have "0 < d" using d assms(1) by (simp add: word_less_nat_alt)
  then have "unat (- d) = 2 ^ 32 - unat d" using unat_sub_if' [of 0 d] by (simp add: word_le_nat_alt unat_gt_0)
  moreover have "j - i < 2 ^ 30" using assms by simp
  ultimately show "4 \<le> unat ((a + 4 * of_nat i) - (a + 4 * of_nat j))" using d by (simp only: m) simp
qed

lemma apart_words:
  assumes "i \<noteq> j" "i < 2 ^ 30" "j < 2 ^ 30"
  shows "apart 4 (a + 4 * of_nat i) 4 (a + 4 * of_nat j)"
proof (cases "i < j")
  case True
  show ?thesis using apart_words_less [OF True assms(3), of a] by (simp add: apart_def)
next
  case False
  then have "j < i" using assms(1) by simp
  show ?thesis using apart_words_less [OF \<open>j < i\<close> assms(2), of a] by (simp add: apart_def)
qed

definition store_words :: "u32 \<Rightarrow> u32 list \<Rightarrow> 'a vm_scheme \<Rightarrow> 'a vm_scheme" where
  "store_words a ws s = fold (\<lambda>(i, v). store_u32 (a + 4 * of_nat i) v) (enumerate 0 ws) s"

lemma store_words_keeps [simp]:
  "tasks (store_words a ws s) = tasks s" "current (store_words a ws s) = current s"
proof -
  have "tasks (fold (\<lambda>(i, v). store_u32 (a + 4 * of_nat i) v) xs s) = tasks s \<and>
      current (fold (\<lambda>(i, v). store_u32 (a + 4 * of_nat i) v) xs s) = current s" for xs :: "(nat \<times> u32) list"
    by (induction xs arbitrary: s) auto
  then show "tasks (store_words a ws s) = tasks s" "current (store_words a ws s) = current s"
    by (simp_all add: store_words_def)
qed

lemma load_store_words:
  assumes "length ws < 2 ^ 30" "k < length ws"
  shows "load32 (store_words a ws s) (a + 4 * of_nat k) = ws ! k"
  using assms
proof (induction ws rule: rev_induct)
  case (snoc w ws)
  have e: "store_words a (ws @ [w]) s = store_u32 (a + 4 * of_nat (length ws)) w (store_words a ws s)"
    by (simp add: store_words_def enumerate_append_eq)
  show ?case
  proof (cases "k = length ws")
    case True
    then show ?thesis by (simp add: e load_store_u32)
  next
    case False
    then have k: "k < length ws" using snoc.prems by simp
    have "apart 4 (a + 4 * of_nat k) 4 (a + 4 * of_nat (length ws))"
      using k snoc.prems by (intro apart_words) auto
    then show ?thesis using k snoc by (simp add: e load32_store_u32 nth_append)
  qed
qed simp

lemma length_load_bytes [simp]: "length (load_bytes s a n) = n"
  by (simp add: load_bytes_def)

lemma load_bytes_nth [simp]: "i < n \<Longrightarrow> load_bytes s a n ! i = ram s (a + of_nat i)"
  by (simp add: load_bytes_def)

lemma load_store_inside:
  assumes "k + length bs \<le> n" "n < 2 ^ 32"
  shows "load_bytes (store_bytes (d + of_nat k) bs s) d n =
    take k (load_bytes s d n) @ bs @ drop (k + length bs) (load_bytes s d n)"
proof (rule nth_equalityI)
  fix i assume "i < length (load_bytes (store_bytes (d + of_nat k) bs s) d n)"
  then have i: "i < n" by simp
  have u: "unat (of_nat i - of_nat k :: u32) = (if k \<le> i then i - k else 2 ^ 32 - (k - i))"
  proof (cases "k \<le> i")
    case True
    have "of_nat i - of_nat k = (of_nat (i - k) :: u32)" using True by (simp add: of_nat_diff)
    moreover have "unat (of_nat (i - k) :: u32) = i - k" using i assms(2) by (intro unat_small) simp
    ultimately show ?thesis using True by (simp only: if_True)
  next
    case False
    define x :: u32 where "x = of_nat (k - i)"
    have x: "unat x = k - i" unfolding x_def using False assms by (intro unat_small) simp
    have "of_nat i - of_nat k = - x" using False by (simp add: x_def of_nat_diff)
    moreover have "unat (- x) = 2 ^ 32 - unat x"
      using unat_sub_if' [of 0 x] x False by (simp add: word_le_nat_alt)
    ultimately show ?thesis using x False by simp
  qed
  have b: "length bs \<le> 2 ^ 32" using assms by simp
  have lt: "\<not> 2 ^ 32 - (k - i) < length bs" if "\<not> k \<le> i" using that assms by simp
  show "load_bytes (store_bytes (d + of_nat k) bs s) d n ! i =
      (take k (load_bytes s d n) @ bs @ drop (k + length bs) (load_bytes s d n)) ! i"
    using i assms lt by (auto simp: ram_store_bytes [OF b] u nth_append not_le)
qed (use assms in auto)

end
