(* ===== verification/Signal_Frame.thy ===== *)
theory Signal_Frame
  imports Signal Ram
begin

text \<open>
  Signals from delivery to return: the frame \<open>arch_setup_sig_handler\<close> leaves on the user's stack
  gives \<open>arch_sig_restore\<close> the registers back, wherever the stack pointer stands.
\<close>

subsection \<open>Registers in memory\<close>

definition regs_list :: "pt_regs \<Rightarrow> u32 list" where
  "regs_list r = [r_ebx r, r_ecx r, r_edx r, r_edi r, r_esi r, r_ebp r, r_eax r, r_gs r, r_fs r,
     r_es r, r_ds r, r_ori_eax r, r_err_code r, r_eip r, r_cs r, r_eflags r, r_esp r, r_ss r]"

lemma store_regs_words: "store_regs a r s = store_words a (regs_list r) s"
  by (simp only: store_regs_def store_words_def regs_list_def)

lemma load_store_regs: "load_regs (store_regs a r s) a = r"
proof -
  have w: "load32 (store_regs a r s) (a + 4 * of_nat k) = regs_list r ! k" if "k < 18" for k
    unfolding store_regs_words using that by (intro load_store_words) (simp_all add: regs_list_def)
  show ?thesis
    unfolding load_regs_def Let_def
    using w [of 0] w [of 1] w [of 2] w [of 3] w [of 4] w [of 5] w [of 6] w [of 7] w [of 8]
      w [of 9] w [of 10] w [of 11] w [of 12] w [of 13] w [of 14] w [of 15] w [of 16] w [of 17]
    by (simp add: regs_list_def)
qed

subsection \<open>The frame\<close>

definition restored :: "pt_regs \<Rightarrow> pt_regs \<Rightarrow> pt_regs" where
  "restored r q = q\<lparr>r_esp := r_esp r, r_eflags := r_eflags r, r_eip := r_eip r, r_ebp := r_ebp r,
     r_esi := r_esi r, r_edi := r_edi r, r_edx := r_edx r, r_ecx := r_ecx r, r_ebx := r_ebx r, r_eax := r_eax r\<rparr>"

definition frame_words :: "pt_regs \<Rightarrow> u32 list" where
  "frame_words r = [r_esp r, r_eflags r, r_eip r, r_ebp r, r_esi r, r_edi r, r_edx r, r_ecx r, r_ebx r, r_eax r]"

lemma setup_result:
  assumes "arch_setup_sig_handler r h s = (res, r', s')"
  shows "res = r_esp r - 52" "r' = r\<lparr>r_eip := h, r_esp := res\<rparr>" "tasks s' = tasks s" "current s' = current s"
  using assms by (auto simp: arch_setup_sig_handler_def push_def Let_def)

lemma setup_frame:
  assumes "arch_setup_sig_handler r h s = (res, r', s')" "k < 10"
  shows "load32 s' (res + 12 + 4 * of_nat k) = frame_words r ! k"
proof -
  define e where "e = r_esp r - 40"
  have off: "apart 4 (e + 4 * of_nat k) 8 (e - 8)" "apart 4 (e + 4 * of_nat k) 4 (e - 12)"
  proof -
    have u: "unat (4 * of_nat k + 8 :: u32) = 4 * k + 8" "unat (4 * of_nat k + 12 :: u32) = 4 * k + 12"
      using assms(2) unat_small [of "4 * k + 8"] unat_small [of "4 * k + 12"] by simp_all
    have m: "unat (- (4 * of_nat k + 8) :: u32) = 2 ^ 32 - (4 * k + 8)"
        "unat (- (4 * of_nat k + 12) :: u32) = 2 ^ 32 - (4 * k + 12)"
      using unat_sub_if' [of 0 "4 * of_nat k + 8 :: u32"] unat_sub_if' [of 0 "4 * of_nat k + 12 :: u32"] u
      by (simp_all add: word_le_nat_alt)
    have "e + 4 * of_nat k - (e - 8) = 4 * of_nat k + 8" "e - 8 - (e + 4 * of_nat k) = - (4 * of_nat k + 8)"
      "e + 4 * of_nat k - (e - 12) = 4 * of_nat k + 12" "e - 12 - (e + 4 * of_nat k) = - (4 * of_nat k + 12)"
      by simp_all
    then show "apart 4 (e + 4 * of_nat k) 8 (e - 8)" "apart 4 (e + 4 * of_nat k) 4 (e - 12)"
      using u m assms(2) by (simp_all only: apart_def) simp_all
  qed
  have len: "length retcode = 8" by (simp add: retcode_def)
  define t where "t = snd (fold push [r_eax r, r_ebx r, r_ecx r, r_edx r, r_edi r, r_esi r, r_ebp r,
     r_eip r, r_eflags r, r_esp r] (r_esp r, s))"
  have "s' = store_u32 (e - 12) (e - 8) (store_bytes (e - 8) retcode t)" "res + 12 = e"
    using assms(1) by (auto simp: arch_setup_sig_handler_def push_def Let_def t_def e_def)
  moreover have "load32 t (e + 4 * of_nat k) = frame_words r ! k"
  proof -
    have "t = store_u32 e (r_esp r) (store_u32 (e + 4) (r_eflags r) (store_u32 (e + 8) (r_eip r)
       (store_u32 (e + 12) (r_ebp r) (store_u32 (e + 16) (r_esi r) (store_u32 (e + 20) (r_edi r)
       (store_u32 (e + 24) (r_edx r) (store_u32 (e + 28) (r_ecx r) (store_u32 (e + 32) (r_ebx r)
       (store_u32 (e + 36) (r_eax r) s)))))))))"
      by (simp add: t_def push_def e_def)
    moreover have "k \<in> {0, 1, 2, 3, 4, 5, 6, 7, 8, 9}" using assms(2) by auto
    ultimately show ?thesis
      by (auto simp: frame_words_def load_store_u32 load32_store_u32 apart_def)
  qed
  ultimately show ?thesis using off len
    by (simp add: load32_store_u32 load32_apart)
qed

lemma restore_frame:
  assumes "arch_setup_sig_handler r h s = (res, r', s')"
    and same: "\<And>i. i < 52 \<Longrightarrow> ram t (res + of_nat i) = ram s' (res + of_nat i)"
  shows "arch_sig_restore res q t = (r_eax r, restored r q)"
proof -
  have w: "load32 t (res + 12 + 4 * of_nat k) = frame_words r ! k" if "k < 10" for k
  proof -
    have "load32 t (res + 12 + 4 * of_nat k) = load32 s' (res + 12 + 4 * of_nat k)"
    proof (rule load32_cong)
      fix i :: nat assume "i < 4"
      then show "ram t (res + 12 + 4 * of_nat k + of_nat i) = ram s' (res + 12 + 4 * of_nat k + of_nat i)"
        using same [of "12 + 4 * k + i"] that by (simp add: algebra_simps)
    qed
    then show ?thesis using setup_frame [OF assms(1) that] by simp
  qed
  show ?thesis
    unfolding arch_sig_restore_def Let_def
    using w [of 0] w [of 1] w [of 2] w [of 3] w [of 4] w [of 5] w [of 6] w [of 7] w [of 8] w [of 9]
    by (simp add: frame_words_def restored_def add.assoc)
qed

end
