(* ===== verification/Zone_Region.thy ===== *)
theory Zone_Region
  imports Zone_Inv
begin

text \<open>
  \<open>alloc_region\<close> and \<open>page_alloc_init\<close> of kernel/mm/page_alloc.c: the blocks that meet a
  region are taken off the free lists and split into used single pages, and the pages around
  the region are given back.  The lemmas lead to: \<open>alloc_region\<close> of a free region reserves
  exactly its pages, and \<open>page_alloc_init\<close> establishes the invariant with nothing handed
  out but the kernel image.
\<close>

subsection \<open>Shattering a block into used pages\<close>

definition shatter :: "(nat \<rightharpoonup> nat) \<Rightarrow> nat \<Rightarrow> nat \<Rightarrow> nat \<rightharpoonup> nat" where
  "shatter blk p n q = (if p \<le> q \<and> q < p + n then Some 0 else blk q)"

lemma shatter_simps [simp]:
  "p \<le> q \<Longrightarrow> q < p + n \<Longrightarrow> shatter blk p n q = Some 0"
  "\<not> (p \<le> q \<and> q < p + n) \<Longrightarrow> shatter blk p n q = blk q"
  by (auto simp: shatter_def)

lemma tiled_shatter:
  assumes t: "tiled b e blk" and p: "blk p = Some k"
  shows "tiled b e (shatter blk p (2 ^ k))" (is "tiled b e ?blk")
proof -
  note S = tiledD(2) [OF t] and P = block_fitsD [OF tiledD(1) [OF t p]]
  have "block_fits b e q j" if q: "?blk q = Some j" for q j
  proof (cases "p \<le> q \<and> q < p + 2 ^ k")
    case True
    with q P show ?thesis by (auto simp: block_fits_def)
  next
    case False
    with q tiledD(1) [OF t] show ?thesis by simp
  qed
  moreover have "separated ?blk" unfolding separated_def
  proof (intro allI impI)
    fix q r j assume q: "?blk q = Some j" and rd: "r \<in> dom ?blk" and lt: "q < r"
    show "q + 2 ^ j \<le> r"
    proof (cases "p \<le> q \<and> q < p + 2 ^ k")
      case True
      with q lt show ?thesis by simp
    next
      case out: False
      with q have bq: "blk q = Some j" by simp
      have lt': "q < r" by (rule lt)
      show ?thesis
      proof (cases "p \<le> r \<and> r < p + 2 ^ k")
        case True
        with out lt have "q < p" by linarith
        from separatedD [OF S bq p this] True show ?thesis by linarith
      next
        case False
        with rd obtain i where "blk r = Some i" by auto
        from separatedD [OF S bq this lt'] show ?thesis .
      qed
    qed
  qed
  moreover have "covered ?blk x" if "b \<le> x" "x < e" for x
  proof (cases "p \<le> x \<and> x < p + 2 ^ k")
    case True
    then have "?blk x = Some 0" by simp
    moreover have "x \<le> x" "x < x + 2 ^ 0" by simp_all
    ultimately show ?thesis unfolding covered_def by blast
  next
    case False
    from tiledD(3) [OF t that] obtain q j where q: "blk q = Some j" "q \<le> x" "x < q + 2 ^ j"
      by (auto simp: covered_def)
    have "\<not> (p \<le> q \<and> q < p + 2 ^ k)"
    proof
      assume r: "p \<le> q \<and> q < p + 2 ^ k"
      then have "p = q" using tiled_unique [OF S p q(1), of q] by simp
      with q p False show False by simp
    qed
    then have "?blk q = Some j" using q(1) by simp
    with q show ?thesis unfolding covered_def by blast
  qed
  ultimately show ?thesis by (simp add: tiled_def)
qed

lemma split_fold:
  assumes "mmap_test_private z p" "mmap_test_used z p"
  shows "let z' = fold (\<lambda>n z.
            let i = n * 2 ^ 0;
                z = (if mmap_test_private z p then mmap_set_private z (p + i) else z)
            in if mmap_test_used z p then mmap_set_used z (p + i) else z) [0..<n] z
    in bareas z' = bareas z \<and> bbase z' = bbase z \<and> bend z' = bend z \<and> buddy.more z' = buddy.more z \<and>
      (\<forall>q. (mmap_test_private z' q \<longleftrightarrow> mmap_test_private z q \<or> p \<le> q \<and> q < p + n) \<and>
           (mmap_test_used z' q \<longleftrightarrow> mmap_test_used z q \<or> p \<le> q \<and> q < p + n))"
  using assms
proof (induction n)
  case 0
  then show ?case by (auto simp: Let_def)
next
  case (Suc n)
  let ?f = "\<lambda>n z :: 'a buddy_scheme. let i = n * 2 ^ 0;
      z = (if mmap_test_private z p then mmap_set_private z (p + i) else z)
    in if mmap_test_used z p then mmap_set_used z (p + i) else z"
  define z1 where "z1 = fold ?f [0..<n] z"
  have I: "bareas z1 = bareas z" "bbase z1 = bbase z" "bend z1 = bend z" "buddy.more z1 = buddy.more z"
    "\<And>q. mmap_test_private z1 q \<longleftrightarrow> mmap_test_private z q \<or> p \<le> q \<and> q < p + n"
    "\<And>q. mmap_test_used z1 q \<longleftrightarrow> mmap_test_used z q \<or> p \<le> q \<and> q < p + n"
    using Suc.IH [OF Suc.prems] unfolding z1_def [symmetric] Let_def [of z1] by blast+
  have a: "bareas (mmap_set_private z x) = bareas z" "bareas (mmap_set_used z x) = bareas z"
    for x and z :: "'a buddy_scheme"
    by (simp_all add: mmap_set_private_def mmap_set_used_def)
  have n: "q = p + n \<or> X \<or> p \<le> q \<and> q < p + n \<longleftrightarrow> X \<or> p \<le> q \<and> q < p + Suc n" for q X by auto
  have "fold ?f [0..<Suc n] z = ?f n z1" by (simp add: z1_def)
  also have "\<dots> = mmap_set_used (mmap_set_private z1 (p + n)) (p + n)"
    using I(5) [of p] I(6) [of p] Suc.prems by (simp add: Let_def)
  finally have f: "fold ?f [0..<Suc n] z = mmap_set_used (mmap_set_private z1 (p + n)) (p + n)" .
  show ?case unfolding f Let_def [of "mmap_set_used _ _"] mmap_bits a mmap_more I n
    by (simp add: I(2,3))
qed

lemma split_to_eq:
  assumes "mmap_test_private z p" "mmap_test_used z p"
  obtains z' where "split_to z p k 0 = Some z'" "bareas z' = bareas z" "bbase z' = bbase z"
    "bend z' = bend z" "buddy.more z' = buddy.more z"
    "\<And>q. mmap_test_private z' q \<longleftrightarrow> mmap_test_private z q \<or> p \<le> q \<and> q < p + 2 ^ k"
    "\<And>q. mmap_test_used z' q \<longleftrightarrow> mmap_test_used z q \<or> p \<le> q \<and> q < p + 2 ^ k"
  using split_fold [OF assms, of "2 ^ k"] that by (simp add: split_to_def Let_def)

text \<open>One block taken off its free list and split into used pages.\<close>

lemma take_block:
  assumes inv: "buddy_inv z blk {}" and c: "coalesced z blk {}" and p: "p \<in> free_at z blk {} k"
  obtains z1 z' where "remove_from_free_area z p k = Some z1"
    "split_to (mmap_set_used z1 p) p k 0 = Some z'" "buddy_inv z' (shatter blk p (2 ^ k)) {}"
    "coalesced z' (shatter blk p (2 ^ k)) {}" "bbase z' = bbase z" "bend z' = bend z"
    "buddy.more z' = buddy.more z"
    "allocs z' (shatter blk p (2 ^ k)) = shatter (allocs z blk) p (2 ^ k)"
    "\<And>j. free_at z' (shatter blk p (2 ^ k)) {} j = free_at z blk {} j - (if j = k then {p} else {})"
proof -
  let ?blk = "shatter blk p (2 ^ k)"
  have bp: "blk p = Some k" "\<not> mmap_test_used z p" using p by (simp_all add: free_at_def)
  note P = buddy_inv_block [OF inv bp(1)]
  note S = tiledD(2) [OF buddy_invD(1) [OF inv]]
  from remove_from_free_area_inv [OF inv p] obtain z1 where z1: "remove_from_free_area z p k = Some z1"
    "buddy_inv z1 blk {p}" "bflags z1 = bflags z" "bbase z1 = bbase z" "bend z1 = bend z" by blast
  let ?u = "mmap_set_used z1 p"
  have pu: "mmap_test_private ?u p" "mmap_test_used ?u p"
    using buddy_inv_block(6) [OF z1(2) bp(1)] by simp_all
  from split_to_eq [OF pu, of k] obtain z' where z': "split_to ?u p k 0 = Some z'"
    "bareas z' = bareas ?u" "bbase z' = bbase ?u" "bend z' = bend ?u" "buddy.more z' = buddy.more ?u"
    "\<And>q. mmap_test_private z' q \<longleftrightarrow> mmap_test_private ?u q \<or> p \<le> q \<and> q < p + 2 ^ k"
    "\<And>q. mmap_test_used z' q \<longleftrightarrow> mmap_test_used ?u q \<or> p \<le> q \<and> q < p + 2 ^ k"
    by blast
  have fl: "mmap_test_private z' q \<longleftrightarrow> mmap_test_private z q \<or> p \<le> q \<and> q < p + 2 ^ k"
    "mmap_test_used z' q \<longleftrightarrow> mmap_test_used z q \<or> p \<le> q \<and> q < p + 2 ^ k" for q
  proof -
    have "mmap_test_private z1 q = mmap_test_private z q" using z1(3) by (simp add: mmap_test_private_def)
    then show "mmap_test_private z' q \<longleftrightarrow> mmap_test_private z q \<or> p \<le> q \<and> q < p + 2 ^ k"
      using z'(6) [of q] by auto
    show "mmap_test_used z' q \<longleftrightarrow> mmap_test_used z q \<or> p \<le> q \<and> q < p + 2 ^ k"
      using z'(7) [of q] mmap_used_bflags [OF z1(3), of q] by auto
  qed
  have inside: "q = p" if "blk q = Some j" "p \<le> q" "q < p + 2 ^ k" for q j
    using tiled_unique [OF S bp(1) that(1), of q] that by simp
  have fr: "free_at z' ?blk {} j = free_at z blk {} j - (if j = k then {p} else {})" for j
  proof (rule set_eqI)
    fix q
    show "q \<in> free_at z' ?blk {} j \<longleftrightarrow> q \<in> free_at z blk {} j - (if j = k then {p} else {})"
    proof (cases "p \<le> q \<and> q < p + 2 ^ k")
      case True
      then have "blk q = Some j \<Longrightarrow> q = p \<and> j = k" using inside [of q j] bp(1) by auto
      then show ?thesis using True fl(2) [of q] by (auto simp: free_at_def)
    next
      case False
      then have "q \<noteq> p" by auto
      then show ?thesis using False fl(2) [of q] by (auto simp: free_at_def)
    qed
  qed
  have ar: "bareas z' = bareas z1" using z'(2) by (simp add: mmap_set_used_def)
  have "area_ok (bareas z' j) (free_at z' ?blk {} j)" if "j \<le> MAX_ORDER" for j
  proof -
    have "free_at z' ?blk {} j = free_at z1 blk {p} j"
      unfolding fr using bp mmap_used_bflags [OF z1(3)] by (auto simp: free_at_def)
    then show ?thesis using buddy_invD(5) [OF z1(2) that] ar by simp
  qed
  moreover have "heads_ok z' ?blk" unfolding heads_ok_def
  proof (intro allI impI)
    fix q assume q: "bbase z' \<le> q" "q < bend z'"
    then have h: "mmap_test_private z q \<longleftrightarrow> q \<in> dom blk" "mmap_test_used z q \<Longrightarrow> q \<in> dom blk"
      using buddy_inv_head [OF inv, of q] z'(3,4) z1(4,5) by auto
    show "(mmap_test_private z' q \<longleftrightarrow> q \<in> dom ?blk) \<and> (mmap_test_used z' q \<longrightarrow> q \<in> dom ?blk)"
      using h fl by (cases "p \<le> q \<and> q < p + 2 ^ k") auto
  qed
  moreover have "tiled (bbase z') (bend z') ?blk"
    using tiled_shatter [OF buddy_invD(1) [OF inv] bp(1)] z'(3,4) z1(4,5) by simp
  ultimately have inv': "buddy_inv z' ?blk {}" by (simp add: buddy_inv_def)
  moreover have "coalesced z' ?blk {}"
    by (rule coalesced_mono [OF c]) (use z'(3) z1(4) fr in auto)
  moreover have "allocs z' ?blk = shatter (allocs z blk) p (2 ^ k)"
    using fl by (auto simp: allocs_def shatter_def fun_eq_iff)
  ultimately show thesis using that z1 z' fr remove_more [OF z1(1)] by simp
qed

subsection \<open>The loop of alloc_region\<close>

definition zaddr :: "mem_zone \<Rightarrow> nat \<Rightarrow> u32" where
  "zaddr z q = base_addr z + of_nat (q - bbase z) * PAGE_SIZE"

lemma zaddr_props:
  assumes l: "layout_ok m" and i: "i \<in> set (zone_all_for_each m)"
    and q: "bbase (zones m i) \<le> q" "q \<le> bend (zones m i)"
  shows "unat (zaddr (zones m i) q) = unat (base_addr (zones m i)) + (q - bbase (zones m i)) * 4096"
    "q < bend (zones m i) \<Longrightarrow> page_to_phys m q = Some (zaddr (zones m i) q)"
    "q < bend (zones m i) \<Longrightarrow> phys_to_zone m (zaddr (zones m i) q) = Some i"
    "q < bend (zones m i) \<Longrightarrow> phys_to_page m (zaddr (zones m i) q) = Some q"
    "zaddr (zones m i) q mod PAGE_SIZE = 0"
proof -
  let ?z = "zones m i"
  from i obtain t where t: "t < NR_ZONE_TYPES" "i \<in> set (fast_zone_entry m t)"
    by (auto simp: set_zone_all)
  note z = layout_okD(1) [OF l t]
  have "(q - bbase ?z) * 4096 \<le> (bend ?z - bbase ?z) * 4096" using q by simp
  then have "unat (base_addr ?z) + (q - bbase ?z) * 4096 < 2 ^ 32" using z by (simp add: zone_ok_def)
  then show u: "unat (zaddr ?z q) = unat (base_addr ?z) + (q - bbase ?z) * 4096"
    unfolding zaddr_def by (rule unat_page_addr)
  have "4096 dvd unat (zaddr ?z q)" unfolding u using z by (simp add: zone_ok_def)
  then have "unat (zaddr ?z q mod PAGE_SIZE) = 0" by (simp add: unat_mod_distrib unat_PAGE_SIZE)
  then show "zaddr ?z q mod PAGE_SIZE = 0" by (simp only: unat_eq_zero)
  show pp: "page_to_phys m q = Some (zaddr ?z q)" if "q < bend ?z"
    using page_to_zone_eq [OF l i q(1) that] by (simp add: page_to_phys_def zaddr_def)
  show "phys_to_zone m (zaddr ?z q) = Some i" "phys_to_page m (zaddr ?z q) = Some q" if "q < bend ?z"
    using page_phys [OF l i q(1) that] pp [OF that] by (metis option.inject)+
qed

definition hit :: "nat \<Rightarrow> nat \<Rightarrow> nat \<Rightarrow> nat \<Rightarrow> bool" where
  "hit B E p k \<longleftrightarrow> p \<le> B \<and> B < p + 2 ^ k \<or> B < p \<and> p < E"

text \<open>
  The state of the loop after the blocks \<open>H\<close> have been taken: \<open>m\<close> and \<open>blk\<close> are the state at
  entry.
\<close>

definition region_state ::
    "mm \<Rightarrow> nat \<Rightarrow> (nat \<rightharpoonup> nat) \<Rightarrow> (nat \<times> nat) set \<Rightarrow> mem_zone \<times> u32 \<times> u32 \<Rightarrow> bool" where
  "region_state m i blk H s \<longleftrightarrow>
     (case s of (z, lo, hi) \<Rightarrow>
        same_place (zones m i) z \<and>
        (\<exists>blk'. buddy_inv z blk' {} \<and> coalesced z blk' {} \<and>
           (\<forall>k. free_at z blk' {} k = free_at (zones m i) blk {} k - {p. (p, k) \<in> H}) \<and>
           allocs z blk' = (\<lambda>q. if \<exists>(p, k)\<in>H. p \<le> q \<and> q < p + 2 ^ k then Some 0
                                else allocs (zones m i) blk q)) \<and>
        (\<forall>(p, k)\<in>H. lo \<le> zaddr z p \<and> zaddr z (p + 2 ^ k) \<le> hi) \<and>
        (H \<noteq> {} \<longrightarrow> (\<exists>(p, k)\<in>H. lo = zaddr z p) \<and> (\<exists>(p, k)\<in>H. hi = zaddr z (p + 2 ^ k))) \<and>
        (H = {} \<longrightarrow> lo = - 1 \<and> hi = 0))"


lemma push_page_of_nat: "push_bit k PAGE_SIZE = of_nat (2 ^ k) * PAGE_SIZE"
  by (simp add: push_bit_eq_mult ac_simps)

lemma zaddr_add: "bbase z \<le> p \<Longrightarrow> zaddr z p + push_bit k PAGE_SIZE = zaddr z (p + 2 ^ k)"
proof -
  assume "bbase z \<le> p"
  then have "p + 2 ^ k - bbase z = (p - bbase z) + 2 ^ k" by simp
  then show ?thesis by (simp add: zaddr_def push_page_of_nat algebra_simps)
qed

lemma zaddr_same: "same_place z z' \<Longrightarrow> zaddr z' = zaddr z"
  by (simp add: zaddr_def same_place_def fun_eq_iff)

lemma zaddr_mono:
  assumes "layout_ok m" "i \<in> set (zone_all_for_each m)"
    and "bbase (zones m i) \<le> p" "p \<le> bend (zones m i)"
    and "bbase (zones m i) \<le> q" "q \<le> bend (zones m i)"
  shows "zaddr (zones m i) p \<le> zaddr (zones m i) q \<longleftrightarrow> p \<le> q"
    "zaddr (zones m i) p < zaddr (zones m i) q \<longleftrightarrow> p < q"
    "zaddr (zones m i) p = zaddr (zones m i) q \<longleftrightarrow> p = q"
proof -
  note u = zaddr_props(1) [OF assms(1,2,3,4)] zaddr_props(1) [OF assms(1,2,5,6)]
  show le: "zaddr (zones m i) p \<le> zaddr (zones m i) q \<longleftrightarrow> p \<le> q"
    and lt: "zaddr (zones m i) p < zaddr (zones m i) q \<longleftrightarrow> p < q"
    using assms(3-6) unfolding word_le_nat_alt word_less_nat_alt u by auto
  show "zaddr (zones m i) p = zaddr (zones m i) q \<longleftrightarrow> p = q"
    using le lt by (simp add: order.order_iff_strict) (metis less_irrefl)
qed

lemma region_visit_step:
  assumes l: "layout_ok m" and i: "i \<in> set (zone_all_for_each m)"
    and inv0: "buddy_inv (zones m i) blk {}"
    and s: "region_state m i blk H s" and p: "p \<in> free_at (zones m i) blk {} k" and pH: "(p, k) \<notin> H"
    and B: "bbase (zones m i) \<le> B" "B < bend (zones m i)"
    and E: "bbase (zones m i) \<le> E" "E < bend (zones m i)"
  shows "\<exists>s'. region_visit m (zaddr (zones m i) B) (zaddr (zones m i) E) k p s = Some s' \<and>
    region_state m i blk (if hit B E p k then insert (p, k) H else H) s'"
proof -
  let ?z = "zones m i"
  obtain z lo hi where s': "s = (z, lo, hi)" by (cases s)
  from s s' obtain blk' where r: "same_place ?z z" "buddy_inv z blk' {}" "coalesced z blk' {}"
    "\<And>k. free_at z blk' {} k = free_at ?z blk {} k - {p. (p, k) \<in> H}"
    "allocs z blk' = (\<lambda>q. if \<exists>(p, k)\<in>H. p \<le> q \<and> q < p + 2 ^ k then Some 0 else allocs ?z blk q)"
    "\<And>p k. (p, k) \<in> H \<Longrightarrow> lo \<le> zaddr z p \<and> zaddr z (p + 2 ^ k) \<le> hi"
    "H \<noteq> {} \<Longrightarrow> (\<exists>(p, k)\<in>H. lo = zaddr z p) \<and> (\<exists>(p, k)\<in>H. hi = zaddr z (p + 2 ^ k))"
    "H = {} \<Longrightarrow> lo = - 1 \<and> hi = 0"
    unfolding region_state_def by auto
  have bp: "blk p = Some k" using p by (simp add: free_at_def)
  note P = buddy_inv_block [OF inv0 bp]
  note za = zaddr_same [OF r(1)]
  have pe: "bbase ?z \<le> p + 2 ^ k" using P(1) by simp
  note pp = zaddr_props(2) [OF l i P(1) less_imp_le [OF P(5)] P(5)]
  note mB = zaddr_mono [OF l i B(1) less_imp_le [OF B(2)]]
  note mp = zaddr_mono [OF l i P(1) less_imp_le [OF P(5)]]
  have h: "(zaddr ?z B \<ge> zaddr ?z p \<and> zaddr ?z B < zaddr ?z (p + 2 ^ k)) \<or>
      (zaddr ?z p > zaddr ?z B \<and> zaddr ?z E > zaddr ?z p) \<longleftrightarrow> hit B E p k"
    unfolding mp(1) [OF B(1) less_imp_le [OF B(2)]] mB(2) [OF pe P(4)]
      mB(2) [OF P(1) less_imp_le [OF P(5)]] mp(2) [OF E(1) less_imp_le [OF E(2)]] hit_def by simp
  have rv: "region_visit m (zaddr ?z B) (zaddr ?z E) k p (z, lo, hi) =
    (if hit B E p k
     then do { z \<leftarrow> remove_from_free_area z p k; z \<leftarrow> split_to (mmap_set_used z p) p k 0;
               Some (z, if zaddr ?z p < lo then zaddr ?z p else lo,
                     if zaddr ?z (p + 2 ^ k) > hi then zaddr ?z (p + 2 ^ k) else hi) }
     else Some (z, lo, hi))"
    unfolding region_visit_def prod.case pp Option.bind.simps Let_def zaddr_add [OF P(1)] h ..
  show ?thesis
  proof (cases "hit B E p k")
    case False
    then have "region_visit m (zaddr ?z B) (zaddr ?z E) k p s = Some s"
      unfolding s' rv by simp
    then show ?thesis using s False by simp
  next
    case True
    have "p \<in> free_at z blk' {} k" using p pH r(4) by simp
    from take_block [OF r(2,3) this] obtain z1 z' where t:
      "remove_from_free_area z p k = Some z1" "split_to (mmap_set_used z1 p) p k 0 = Some z'"
      "buddy_inv z' (shatter blk' p (2 ^ k)) {}" "coalesced z' (shatter blk' p (2 ^ k)) {}"
      "bbase z' = bbase z" "bend z' = bend z" "buddy.more z' = buddy.more z"
      "allocs z' (shatter blk' p (2 ^ k)) = shatter (allocs z blk') p (2 ^ k)"
      "\<And>j. free_at z' (shatter blk' p (2 ^ k)) {} j = free_at z blk' {} j - (if j = k then {p} else {})"
      by blast
    let ?lo = "if zaddr ?z p < lo then zaddr ?z p else lo"
    let ?hi = "if zaddr ?z (p + 2 ^ k) > hi then zaddr ?z (p + 2 ^ k) else hi"
    have v: "region_visit m (zaddr ?z B) (zaddr ?z E) k p s = Some (z', ?lo, ?hi)"
      using True t(1,2) unfolding s' rv by simp
    have pl: "same_place ?z z'"
      using r(1) t(5,6) more_place [OF t(7)] by (simp add: same_place_def)
    note za' = zaddr_same [OF pl]
    have "region_state m i blk (insert (p, k) H) (z', ?lo, ?hi)" unfolding region_state_def prod.case
    proof (intro conjI exI [of _ "shatter blk' p (2 ^ k)"])
      show "\<forall>j. free_at z' (shatter blk' p (2 ^ k)) {} j =
          free_at ?z blk {} j - {q. (q, j) \<in> insert (p, k) H}"
        unfolding t(9) r(4) by auto
      show "allocs z' (shatter blk' p (2 ^ k)) =
        (\<lambda>q. if \<exists>(p, k)\<in>insert (p, k) H. p \<le> q \<and> q < p + 2 ^ k then Some 0 else allocs ?z blk q)"
        unfolding t(8) r(5) shatter_def by (auto simp: fun_eq_iff)
      show "\<forall>(q, j)\<in>insert (p, k) H. ?lo \<le> zaddr z' q \<and> zaddr z' (q + 2 ^ j) \<le> ?hi"
        using r(6) unfolding za za' by (force simp: not_less)
      show "insert (p, k) H \<noteq> {} \<longrightarrow> (\<exists>(q, j)\<in>insert (p, k) H. ?lo = zaddr z' q) \<and>
          (\<exists>(q, j)\<in>insert (p, k) H. ?hi = zaddr z' (q + 2 ^ j))"
      proof (cases "H = {}")
        case True
        have top: "zaddr ?z p < - 1"
        proof -
          have "unat (zaddr ?z p) < unat (zaddr ?z (p + 2 ^ k))"
            using mp(2) [OF pe P(4)] by (simp add: word_less_nat_alt)
          then show ?thesis by (metis word_less_nat_alt word_n1_ge order_le_less_trans order_less_le leD)
        qed
        have "zaddr ?z (p + 2 ^ k) > 0"
          using mp(2) [OF pe P(4)] by (metis less_add_same_cancel1 word_gt_0 word_not_simps(1) zero_less_numeral zero_less_power)
        then show ?thesis using True r(8) top za' by simp
      next
        case False
        then show ?thesis using r(7) unfolding za za' by auto
      qed
    qed (use pl t in simp_all)
    then show ?thesis using v True by auto
  qed
qed


lemma region_visits_state:
  assumes l: "layout_ok m" and i: "i \<in> set (zone_all_for_each m)"
    and inv0: "buddy_inv (zones m i) blk {}"
    and B: "bbase (zones m i) \<le> B" "B < bend (zones m i)"
    and E: "bbase (zones m i) \<le> E" "E < bend (zones m i)"
  shows "region_state m i blk H s \<Longrightarrow> set ps \<subseteq> free_at (zones m i) blk {} k \<Longrightarrow> distinct ps \<Longrightarrow>
    (\<forall>p\<in>set ps. (p, k) \<notin> H) \<Longrightarrow>
    \<exists>s'. region_visits m (zaddr (zones m i) B) (zaddr (zones m i) E) k ps s = Some s' \<and>
      region_state m i blk (H \<union> {(p, k) |p. p \<in> set ps \<and> hit B E p k}) s'"
proof (induction ps arbitrary: H s)
  case Nil
  then show ?case by simp
next
  case (Cons p ps)
  let ?H = "if hit B E p k then insert (p, k) H else H"
  have "p \<in> free_at (zones m i) blk {} k" "(p, k) \<notin> H" using Cons.prems by auto
  from region_visit_step [OF l i inv0 Cons.prems(1) this B E] obtain s1 where
    s1: "region_visit m (zaddr (zones m i) B) (zaddr (zones m i) E) k p s = Some s1"
      "region_state m i blk ?H s1" by blast
  have "set ps \<subseteq> free_at (zones m i) blk {} k" "distinct ps" "\<forall>q\<in>set ps. (q, k) \<notin> ?H"
    using Cons.prems by (auto split: if_splits)
  from Cons.IH [OF s1(2) this] obtain s2 where
    s2: "region_visits m (zaddr (zones m i) B) (zaddr (zones m i) E) k ps s1 = Some s2"
      "region_state m i blk (?H \<union> {(q, k) |q. q \<in> set ps \<and> hit B E q k}) s2" by blast
  have "?H \<union> {(q, k) |q. q \<in> set ps \<and> hit B E q k} =
      H \<union> {(q, k) |q. q \<in> set (p # ps) \<and> hit B E q k}" by auto
  with s1(1) s2 show ?case by auto
qed

lemma region_orders_state:
  assumes l: "layout_ok m" and i: "i \<in> set (zone_all_for_each m)"
    and inv0: "buddy_inv (zones m i) blk {}"
    and B: "bbase (zones m i) \<le> B" "B < bend (zones m i)"
    and E: "bbase (zones m i) \<le> E" "E < bend (zones m i)"
  shows "region_state m i blk H s \<Longrightarrow> distinct ks \<Longrightarrow> set ks \<subseteq> {..MAX_ORDER} \<Longrightarrow>
    (\<forall>(p, k)\<in>H. k \<notin> set ks) \<Longrightarrow>
    \<exists>s'. region_orders m (zaddr (zones m i) B) (zaddr (zones m i) E) ks s = Some s' \<and>
      region_state m i blk
        (H \<union> {(p, k). k \<in> set ks \<and> p \<in> free_at (zones m i) blk {} k \<and> hit B E p k}) s'"
proof (induction ks arbitrary: H s)
  case Nil
  then show ?case by simp
next
  case (Cons k ks)
  obtain z lo hi where s: "s = (z, lo, hi)" by (cases s)
  from Cons.prems(1) s obtain blk' where r: "buddy_inv z blk' {}"
    "\<And>k. free_at z blk' {} k = free_at (zones m i) blk {} k - {p. (p, k) \<in> H}"
    by (auto simp: region_state_def)
  have kM: "k \<le> MAX_ORDER" using Cons.prems(3) by simp
  have no: "{p. (p, k) \<in> H} = {}" using Cons.prems(4) by fastforce
  have ps: "set (fa_list (bareas z k)) = free_at (zones m i) blk {} k" "distinct (fa_list (bareas z k))"
    using buddy_invD(5) [OF r(1) kM] r(2) [of k] no by (simp_all add: area_ok_def)
  have "\<forall>p\<in>set (fa_list (bareas z k)). (p, k) \<notin> H" using no by auto
  from region_visits_state [OF l i inv0 B E Cons.prems(1) eq_refl [OF ps(1)] ps(2) this]
  obtain s1 where s1:
    "region_visits m (zaddr (zones m i) B) (zaddr (zones m i) E) k (fa_list (bareas (fst s) k)) s = Some s1"
    "region_state m i blk (H \<union> {(p, k) |p. p \<in> free_at (zones m i) blk {} k \<and> hit B E p k}) s1"
    unfolding s fst_conv ps(1) by blast
  have "distinct ks" "set ks \<subseteq> {..MAX_ORDER}"
    "\<forall>(p, j)\<in>H \<union> {(p, k) |p. p \<in> free_at (zones m i) blk {} k \<and> hit B E p k}. j \<notin> set ks"
    using Cons.prems(2,3,4) by auto
  from Cons.IH [OF s1(2) this] obtain s2 where
    s2: "region_orders m (zaddr (zones m i) B) (zaddr (zones m i) E) ks s1 = Some s2"
    "region_state m i blk (H \<union> {(p, k) |p. p \<in> free_at (zones m i) blk {} k \<and> hit B E p k} \<union>
        {(p, k). k \<in> set ks \<and> p \<in> free_at (zones m i) blk {} k \<and> hit B E p k}) s2" by blast
  have "H \<union> {(p, k) |p. p \<in> free_at (zones m i) blk {} k \<and> hit B E p k} \<union>
      {(p, k). k \<in> set ks \<and> p \<in> free_at (zones m i) blk {} k \<and> hit B E p k} =
    H \<union> {(p, j). j \<in> set (k # ks) \<and> p \<in> free_at (zones m i) blk {} j \<and> hit B E p j}"
    by auto
  with s1(1) s2 show ?case by simp
qed

text \<open>All the free blocks a region meets.\<close>

definition hits :: "mm \<Rightarrow> nat \<Rightarrow> (nat \<rightharpoonup> nat) \<Rightarrow> nat \<Rightarrow> nat \<Rightarrow> (nat \<times> nat) set" where
  "hits m i blk B E = {(p, k). p \<in> free_at (zones m i) blk {} k \<and> hit B E p k}"

lemma region_orders_all:
  assumes l: "layout_ok m" and i: "i \<in> set (zone_all_for_each m)"
    and inv0: "buddy_inv (zones m i) blk {}" "coalesced (zones m i) blk {}"
    and B: "bbase (zones m i) \<le> B" "B < bend (zones m i)"
    and E: "bbase (zones m i) \<le> E" "E < bend (zones m i)"
  shows "\<exists>s. region_orders m (zaddr (zones m i) B) (zaddr (zones m i) E) [0..<MAX_ORDER + 1]
      (zones m i, - 1, 0) = Some s \<and> region_state m i blk (hits m i blk B E) s"
proof -
  have init: "region_state m i blk {} (zones m i, - 1, 0)"
    using inv0 by (auto simp: region_state_def same_place_def)
  have M: "k \<le> MAX_ORDER" if "p \<in> free_at (zones m i) blk {} k" for p k
    using that buddy_inv_block(2) [OF inv0(1)] by (auto simp: free_at_def)
  have "{} \<union> {(p, k). k \<in> set [0..<MAX_ORDER + 1] \<and> p \<in> free_at (zones m i) blk {} k \<and> hit B E p k}
      = hits m i blk B E"
    using M by (fastforce simp: hits_def)
  moreover have "distinct [0..<MAX_ORDER + 1]" "set [0..<MAX_ORDER + 1] \<subseteq> {..MAX_ORDER}" by auto
  ultimately show ?thesis
    using region_orders_state [OF l i inv0(1) B E init, of "[0..<MAX_ORDER + 1]"] by simp
qed


lemma run_free_page:
  assumes inv: "buddy_inv z blk {}" and f: "run_free z blk q n" and x: "q \<le> x" "x < q + n"
  obtains p k where "p \<in> free_at z blk {} k" "p \<le> x" "x < p + 2 ^ k" "blk p = Some k"
proof -
  have "bbase z \<le> x" "x < bend z" using f x by (auto simp: run_free_def)
  from tiledD(3) [OF buddy_invD(1) [OF inv] this] obtain p k where
    p: "blk p = Some k" "p \<le> x" "x < p + 2 ^ k" by (auto simp: covered_def)
  have "\<not> mmap_test_used z p"
  proof
    assume "mmap_test_used z p"
    then have "allocs z blk p = Some k" using p(1) by (simp add: allocs_def)
    with f p(2,3) x show False by (force simp: run_free_def)
  qed
  with p that show thesis by (simp add: free_at_def)
qed

text \<open>The free blocks that meet a free run are an interval of pages around it.\<close>

lemma hits_interval:
  assumes inv: "buddy_inv (zones m i) blk {}" and BE: "B \<le> E"
    and f: "run_free (zones m i) blk B (max 1 (E - B))"
  obtains L R where "L \<le> B" "E \<le> R" "B < R" "bbase (zones m i) \<le> L" "R \<le> bend (zones m i)"
    "\<exists>k. (L, k) \<in> hits m i blk B E" "\<exists>p k. (p, k) \<in> hits m i blk B E \<and> R = p + 2 ^ k \<and>
       p \<le> max B (E - 1) \<and> 2 ^ k dvd (p - bbase (zones m i)) \<and> k \<le> MAX_ORDER"
    "\<And>p k. (p, k) \<in> hits m i blk B E \<Longrightarrow> L \<le> p \<and> p + 2 ^ k \<le> R"
    "\<And>q. (\<exists>(p, k)\<in>hits m i blk B E. p \<le> q \<and> q < p + 2 ^ k) \<longleftrightarrow> L \<le> q \<and> q < R"
    "\<And>q. L \<le> q \<Longrightarrow> q < R \<Longrightarrow> allocs (zones m i) blk q = None"
proof -
  let ?z = "zones m i" and ?X = "max B (E - 1)"
  note S = tiledD(2) [OF buddy_invD(1) [OF inv]]
  have X: "B \<le> ?X" "?X < B + max 1 (E - B)" using BE by auto
  have "B < B + max 1 (E - B)" by simp
  from run_free_page [OF inv f le_refl this] obtain L l where
    L: "L \<in> free_at ?z blk {} l" "L \<le> B" "B < L + 2 ^ l" "blk L = Some l" by blast
  from run_free_page [OF inv f X] obtain p k where
    P: "p \<in> free_at ?z blk {} k" "p \<le> ?X" "?X < p + 2 ^ k" "blk p = Some k" by blast
  let ?R = "p + 2 ^ k"
  have hL: "(L, l) \<in> hits m i blk B E" using L by (simp add: hits_def hit_def)
  have hP: "(p, k) \<in> hits m i blk B E"
    using P X BE by (auto simp: hits_def hit_def)
  have bl: "blk q = Some j" if "(q, j) \<in> hits m i blk B E" for q j
    using that by (simp add: hits_def free_at_def)
  have lo: "L \<le> q" if h: "(q, j) \<in> hits m i blk B E" for q j
  proof (cases "q \<le> B")
    case True
    then have "B < q + 2 ^ j" using h by (auto simp: hits_def hit_def)
    then have "q = L" using tiled_unique [OF S bl [OF h] L(4), of B] L True by simp
    then show ?thesis by simp
  qed (use L(2) in simp)
  have hi: "q + 2 ^ j \<le> ?R" if h: "(q, j) \<in> hits m i blk B E" for q j
  proof -
    have qX: "q \<le> ?X" using h X by (auto simp: hits_def hit_def)
    consider "q < p" | "q = p" | "p < q" by linarith
    then show ?thesis
    proof cases
      case 1
      from separatedD [OF S bl [OF h] P(4) 1] show ?thesis by simp
    next
      case 2
      then show ?thesis using bl [OF h] P(4) by simp
    next
      case 3
      from separatedD [OF S P(4) bl [OF h] 3] qX P(3) show ?thesis by linarith
    qed
  qed
  have cover: "\<exists>(r, j)\<in>hits m i blk B E. r \<le> q \<and> q < r + 2 ^ j" if q: "L \<le> q" "q < ?R" for q
  proof (cases "q < L + 2 ^ l")
    case True
    with q hL show ?thesis by auto
  next
    case qL: False
    show ?thesis
    proof (cases "p \<le> q")
      case True
      with q hP show ?thesis by auto
    next
      case False
      have "B \<le> q" "q < B + max 1 (E - B)" using qL False L(3) P(2) X(2) by linarith+
      from run_free_page [OF inv f this] obtain r j where
        r: "r \<in> free_at ?z blk {} j" "r \<le> q" "q < r + 2 ^ j" "blk r = Some j" by blast
      have "hit B E r j" using r(2,3) qL L(3) False P(2) X BE unfolding hit_def by (auto simp: max_def split: if_splits)
      with r show ?thesis by (auto simp: hits_def)
    qed
  qed
  have iff: "(\<exists>(r, j)\<in>hits m i blk B E. r \<le> q \<and> q < r + 2 ^ j) \<longleftrightarrow> L \<le> q \<and> q < ?R" for q
    using cover lo hi by (fastforce intro: order_trans less_le_trans)
  have none: "allocs ?z blk q = None" if q: "L \<le> q" "q < ?R" for q
  proof (rule ccontr)
    assume "allocs ?z blk q \<noteq> None"
    then obtain j where "allocs ?z blk q = Some j" by auto
    then have j: "blk q = Some j" "mmap_test_used ?z q" by (auto simp: allocs_def split: if_splits)
    from cover [OF q] obtain r i' where h: "(r, i') \<in> hits m i blk B E" "r \<le> q" "q < r + 2 ^ i'" by blast
    have "r = q" using tiled_unique [OF S bl [OF h(1)] j(1), of q] h(2,3) by simp
    with h(1) j(2) show False by (simp add: hits_def free_at_def)
  qed
  note PB = buddy_inv_block [OF inv P(4)] and LB = buddy_inv_block [OF inv L(4)]
  show thesis
  proof (rule that [of L ?R])
    show "E \<le> ?R" "B < ?R" using P(3) by auto
    show "\<exists>p' k'. (p', k') \<in> hits m i blk B E \<and> p + 2 ^ k = p' + 2 ^ k' \<and> p' \<le> ?X \<and>
        2 ^ k' dvd (p' - bbase ?z) \<and> k' \<le> MAX_ORDER"
      using hP P(2) PB(2,3) by blast
  qed (use L(2) LB(1) PB(4) hL lo hi iff none in blast)+
qed

subsection \<open>Giving back the surroundings\<close>

lemma dealloc_region_loop_inv:
  assumes "mm_rel m a" "\<And>q. x \<le> q \<Longrightarrow> q < y \<Longrightarrow> a q = Some 0" "x \<le> y"
    and "\<And>q. x \<le> q \<Longrightarrow> q < y \<Longrightarrow> phys_to_page m (zaddr z q) = Some q"
    and "\<And>q. x \<le> q \<Longrightarrow> q \<le> y \<Longrightarrow> unat (zaddr z q) = base + q * 4096 - off"
    and "off \<le> x * 4096" "bbase z \<le> x"
  shows "\<exists>m'. dealloc_region_loop m (zaddr z x) (zaddr z y) = Some m' \<and>
    mm_rel m' (\<lambda>q. if x \<le> q \<and> q < y then None else a q) \<and> phys_to_zone m' = phys_to_zone m \<and>
    phys_to_page m' = phys_to_page m"
  using assms
proof (induction "y - x" arbitrary: x m a)
  case 0
  then have "x = y" by simp
  moreover have "(\<lambda>q. if x \<le> q \<and> q < y then None else a q) = a" using calculation by (auto simp: fun_eq_iff)
  ultimately show ?case using 0 by (simp add: dealloc_region_loop.simps)
next
  case (Suc n)
  then have xy: "x < y" by simp
  have u: "unat (zaddr z x) = base + x * 4096 - off" "unat (zaddr z y) = base + y * 4096 - off"
    using Suc.prems(5) xy by auto
  then have lt: "unat (zaddr z x) + 4096 \<le> unat (zaddr z y)" using xy Suc.prems(6) by linarith
  then have ne: "zaddr z x \<noteq> zaddr z y" by auto
  have "unat (zaddr z y - zaddr z x) = unat (zaddr z y) - unat (zaddr z x)"
    using lt by (simp add: unat_sub word_le_nat_alt)
  then have far: "\<not> zaddr z y - zaddr z x < PAGE_SIZE"
    using lt by (simp add: word_less_nat_alt unat_PAGE_SIZE)
  have ax: "a x = Some 0" using Suc.prems(2) xy by simp
  from mm_dealloc_step [OF Suc.prems(1) ax] obtain m1 where
    m1: "dealloc_pages m x 0 = Some m1" "mm_rel m1 (a(x := None))"
      "phys_to_page m1 = phys_to_page m" "phys_to_zone m1 = phys_to_zone m" by blast
  have next_a: "zaddr z x + PAGE_SIZE = zaddr z (Suc x)"
    using zaddr_add [OF Suc.prems(7), of 0] by simp
  have st: "dealloc_region_loop m (zaddr z x) (zaddr z y) = dealloc_region_loop m1 (zaddr z (Suc x)) (zaddr z y)"
    using ne far m1(1) Suc.prems(4) [OF le_refl xy] next_a by (subst dealloc_region_loop.simps) simp
  have "n = y - Suc x" using Suc.hyps(2) by simp
  note IH = Suc.hyps(1) [OF this m1(2)]
  have "\<exists>m'. dealloc_region_loop m1 (zaddr z (Suc x)) (zaddr z y) = Some m' \<and>
    mm_rel m' (\<lambda>q. if Suc x \<le> q \<and> q < y then None else (a(x := None)) q) \<and>
    phys_to_zone m' = phys_to_zone m1 \<and> phys_to_page m' = phys_to_page m1"
  proof (rule IH)
    show "(a(x := None)) q = Some 0" if "Suc x \<le> q" "q < y" for q using Suc.prems(2) that by simp
    show "phys_to_page m1 (zaddr z q) = Some q" if "Suc x \<le> q" "q < y" for q
      using Suc.prems(4) m1(3) that by simp
    show "unat (zaddr z q) = base + q * 4096 - off" if "Suc x \<le> q" "q \<le> y" for q
      using Suc.prems(5) that by simp
  qed (use xy Suc.prems(6,7) in auto)
  moreover have "(\<lambda>q. if Suc x \<le> q \<and> q < y then None else (a(x := None)) q) =
      (\<lambda>q. if x \<le> q \<and> q < y then None else a q)"
    using xy by (auto simp: fun_eq_iff)
  ultimately show ?case unfolding st using m1(3,4) by auto
qed


definition addr_ok :: "mm \<Rightarrow> nat \<Rightarrow> mem_zone \<Rightarrow> bool" where
  "addr_ok m i z \<longleftrightarrow>
     (\<forall>q. bbase z \<le> q \<longrightarrow> q < bend z \<longrightarrow>
        phys_to_zone m (zaddr z q) = Some i \<and> phys_to_page m (zaddr z q) = Some q) \<and>
     (\<forall>q. bbase z \<le> q \<longrightarrow> q \<le> bend z \<longrightarrow>
        unat (zaddr z q) = unat (base_addr z) + q * 4096 - bbase z * 4096 \<and>
        zaddr z q mod PAGE_SIZE = 0)"

lemma addr_okI:
  assumes "layout_ok m" "i \<in> set (zone_all_for_each m)"
  shows "addr_ok m i (zones m i)"
  unfolding addr_ok_def using zaddr_props [OF assms] by (simp add: diff_mult_distrib)

lemma dealloc_region_inv:
  assumes rel: "mm_rel m a" and ok: "addr_ok m i z" and xy: "bbase z \<le> x" "x \<le> y" "y < bend z"
    and a: "\<And>q. x \<le> q \<Longrightarrow> q < y \<Longrightarrow> a q = Some 0"
  shows "\<exists>m'. dealloc_region m (zaddr z x) (zaddr z y) = Some m' \<and>
    mm_rel m' (\<lambda>q. if x \<le> q \<and> q < y then None else a q) \<and> addr_ok m' i z"
proof -
  have p: "phys_to_zone m (zaddr z q) = Some i" "phys_to_page m (zaddr z q) = Some q"
    "unat (zaddr z q) = unat (base_addr z) + q * 4096 - bbase z * 4096" "zaddr z q mod PAGE_SIZE = 0"
    if "x \<le> q" "q \<le> y" for q
    using ok that xy by (auto simp: addr_ok_def)
  have "bbase z * 4096 \<le> x * 4096" using xy(1) by simp
  from dealloc_region_loop_inv [OF rel a xy(2) p(2) p(3) this xy(1)] obtain m' where
    m': "dealloc_region_loop m (zaddr z x) (zaddr z y) = Some m'"
    "mm_rel m' (\<lambda>q. if x \<le> q \<and> q < y then None else a q)" "phys_to_zone m' = phys_to_zone m"
    "phys_to_page m' = phys_to_page m" by auto
  have "\<not> zaddr z x > zaddr z y"
    using p(3) [of x] p(3) [of y] xy by (simp add: word_less_nat_alt)
  then have "dealloc_region m (zaddr z x) (zaddr z y) = Some m'"
    using p(1,4) xy(2) m'(1) by (simp add: dealloc_region_def)
  moreover have "addr_ok m' i z" using ok m'(3,4) by (simp add: addr_ok_def)
  ultimately show ?thesis using m'(2) by blast
qed

lemma alloc_region_inv:
  assumes rel: "mm_rel m a" and i: "i \<in> set (zone_all_for_each m)"
    and B: "bbase (zones m i) \<le> B" and BE: "B \<le> E"
    and f: "\<And>p k. a p = Some k \<Longrightarrow> p + 2 ^ k \<le> B \<or> B + max 1 (E - B) \<le> p"
    and top: "(max B (E - 1) - bbase (zones m i)) div 2 ^ MAX_ORDER * 2 ^ MAX_ORDER + 2 ^ MAX_ORDER
        < bend (zones m i) - bbase (zones m i)"
  shows "\<exists>m'. alloc_region m (zaddr (zones m i) B) (zaddr (zones m i) E) = Some m' \<and>
    mm_rel m' (\<lambda>q. if B \<le> q \<and> q < E then Some 0 else a q)"
proof -
  let ?z = "zones m i" and ?X = "max B (E - 1)"
  from rel obtain blk where inv: "mm_inv m blk" and a: "a = mm_allocs m blk"
    by (auto simp: mm_rel_def)
  note l = mm_invD(1) [OF inv] and I = mm_invD(2,3) [OF inv i]
  have X256: "?X - bbase ?z < (?X - bbase ?z) div 2 ^ MAX_ORDER * 2 ^ MAX_ORDER + 2 ^ MAX_ORDER"
    by (rule div_mult_mod_eq [of "?X - bbase ?z" "2 ^ MAX_ORDER", THEN subst]) simp
  then have XE: "?X + 1 < bend ?z" using top B by linarith
  then have BEz: "B < bend ?z" "E < bend ?z" "bbase ?z \<le> E" using B BE by (auto simp: max_def split: if_splits)
  have run: "run_free ?z (blk i) B (max 1 (E - B))"
    unfolding run_free_def
  proof (intro conjI allI impI)
    show "B + max 1 (E - B) \<le> bend ?z" using XE BEz by auto
    fix p k assume "allocs ?z (blk i) p = Some k"
    then show "p + 2 ^ k \<le> B \<or> B + max 1 (E - B) \<le> p"
      using f mm_allocs_zone(1) [OF inv i] a by simp
  qed (rule B)
  obtain L R where LR: "L \<le> B" "E \<le> R" "B < R" "bbase ?z \<le> L" "R \<le> bend ?z"
    "\<exists>k. (L, k) \<in> hits m i (blk i) B E" "\<exists>p k. (p, k) \<in> hits m i (blk i) B E \<and> R = p + 2 ^ k \<and>
       p \<le> ?X \<and> 2 ^ k dvd (p - bbase ?z) \<and> k \<le> MAX_ORDER"
    "\<And>p k. (p, k) \<in> hits m i (blk i) B E \<Longrightarrow> L \<le> p \<and> p + 2 ^ k \<le> R"
    "\<And>q. (\<exists>(p, k)\<in>hits m i (blk i) B E. p \<le> q \<and> q < p + 2 ^ k) \<longleftrightarrow> L \<le> q \<and> q < R"
    "\<And>q. L \<le> q \<Longrightarrow> q < R \<Longrightarrow> allocs ?z (blk i) q = None"
    by (rule hits_interval [OF I(1) BE run]) (rule that)
  have Rtop: "R < bend ?z"
  proof -
    from LR(7) obtain p k where p: "R = p + 2 ^ k" "p \<le> ?X" "2 ^ k dvd (p - bbase ?z)" "k \<le> MAX_ORDER"
      "(p, k) \<in> hits m i (blk i) B E" by blast
    let ?Y = "(?X - bbase ?z) div 2 ^ MAX_ORDER * 2 ^ MAX_ORDER"
    have "p - bbase ?z < ?Y + 2 ^ MAX_ORDER" using p(2) X256 by linarith
    moreover have "(p - bbase ?z) + 2 ^ k \<le> ?Y + 2 ^ MAX_ORDER"
    proof (cases "?Y < (p - bbase ?z) + 2 ^ k")
      case True
      then show ?thesis using dyadic_nested [OF p(3) _ p(4), of ?Y] calculation by simp
    qed simp
    moreover have "bbase ?z \<le> p" using LR(8) [OF p(5)] LR(4) by simp
    ultimately show ?thesis using top p(1) by linarith
  qed
  from region_orders_all [OF l i I B BEz(1) BEz(3,2)] obtain z lo hi where
    ro: "region_orders m (zaddr ?z B) (zaddr ?z E) [0..<MAX_ORDER + 1] (?z, - 1, 0) = Some (z, lo, hi)"
    and rs: "region_state m i (blk i) (hits m i (blk i) B E) (z, lo, hi)" by auto
  from rs obtain blk' where r: "same_place ?z z" "buddy_inv z blk' {}" "coalesced z blk' {}"
    "allocs z blk' = (\<lambda>q. if \<exists>(p, k)\<in>hits m i (blk i) B E. p \<le> q \<and> q < p + 2 ^ k then Some 0
       else allocs ?z (blk i) q)"
    "\<And>p k. (p, k) \<in> hits m i (blk i) B E \<Longrightarrow> lo \<le> zaddr z p \<and> zaddr z (p + 2 ^ k) \<le> hi"
    "\<exists>(p, k)\<in>hits m i (blk i) B E. lo = zaddr z p" "\<exists>(p, k)\<in>hits m i (blk i) B E. hi = zaddr z (p + 2 ^ k)"
    using LR(6) unfolding region_state_def prod.case by blast
  note za = zaddr_same [OF r(1)]
  have mono: "bbase ?z \<le> p \<Longrightarrow> p \<le> q \<Longrightarrow> q \<le> bend ?z \<Longrightarrow> zaddr ?z p \<le> zaddr ?z q" for p q
    using zaddr_mono(1) [OF l i, of p q] by simp
  have lo: "lo = zaddr ?z L"
  proof (rule order.antisym)
    show "lo \<le> zaddr ?z L" using LR(6) r(5) za by metis
    from r(6) obtain p k where "(p, k) \<in> hits m i (blk i) B E" "lo = zaddr ?z p" unfolding za by blast
    with LR(4,5,8) show "zaddr ?z L \<le> lo" using mono [of L p] by fastforce
  qed
  have hi: "hi = zaddr ?z R"
  proof (rule order.antisym)
    show "zaddr ?z R \<le> hi" using LR(7) r(5) za by metis
    from r(7) obtain p k where p: "(p, k) \<in> hits m i (blk i) B E" "hi = zaddr ?z (p + 2 ^ k)"
      unfolding za by blast
    with LR(4,5) LR(8) [OF p(1)] show "hi \<le> zaddr ?z R" using mono [of "p + 2 ^ k" R] by simp
  qed
  let ?a = "\<lambda>q. if L \<le> q \<and> q < R then Some 0 else a q"
  note U = mm_upd [OF inv i r(2,3,1)]
  have "mm_allocs (set_zone m i z) (blk(i := blk')) = ?a"
  proof
    fix q
    have "page_to_zone m q = Some i" if "L \<le> q" "q < R"
      using page_to_zone_eq [OF l i] that LR(4,5) by simp
    then show "mm_allocs (set_zone m i z) (blk(i := blk')) q = ?a q"
      unfolding U(2) r(4) LR(9) a by (auto simp: mm_allocs_def)
  qed
  with U(1) have rel1: "mm_rel (set_zone m i z) ?a" unfolding mm_rel_def by metis
  have ok0: "addr_ok m i ?z" by (rule addr_okI [OF l i])
  then have ok1: "addr_ok (set_zone m i z) i ?z"
    using same_place_set_zone [OF r(1)] by (simp add: addr_ok_def)
  have "B < bend ?z" using BEz by simp
  from dealloc_region_inv [OF rel1 ok1 LR(4,1) this] LR(3) obtain m2 where
    m2: "dealloc_region (set_zone m i z) (zaddr ?z L) (zaddr ?z B) = Some m2"
    "mm_rel m2 (\<lambda>q. if L \<le> q \<and> q < B then None else ?a q)" "addr_ok m2 i ?z" by auto
  from dealloc_region_inv [OF m2(2,3) BEz(3) LR(2) Rtop] LR(1) BE obtain m3 where
    m3: "dealloc_region m2 (zaddr ?z E) (zaddr ?z R) = Some m3"
    "mm_rel m3 (\<lambda>q. if E \<le> q \<and> q < R then None else if L \<le> q \<and> q < B then None else ?a q)" by auto
  have none: "a q = None" if "L \<le> q" "q < R" for q
    using LR(4,5,10) that mm_allocs_zone(2) [OF inv i, of q] a by simp
  have "(\<lambda>q. if E \<le> q \<and> q < R then None else if L \<le> q \<and> q < B then None else ?a q) =
      (\<lambda>q. if B \<le> q \<and> q < E then Some 0 else a q)"
    using none LR(1,2,3) BE by (auto simp: fun_eq_iff)
  moreover have "\<not> zaddr ?z E < zaddr ?z B" using mono [OF B BE] BEz by (simp add: leD)
  then have "alloc_region m (zaddr ?z B) (zaddr ?z E) = Some m3"
    using ok0 B BEz ro m2(1) m3(1) lo hi
    by (simp add: alloc_region_def addr_ok_def)
  ultimately show ?thesis using m3(2) by auto
qed


subsection \<open>Starting up\<close>

lemma build_zone_more:
  assumes "build_zone_buddy_system z = Some z'" shows "buddy.more z' = buddy.more z"
proof -
  have f: "buddy.more (fold (\<lambda>i z. init_free_area z i) is z) = buddy.more z" for "is"
    by (induction "is" arbitrary: z) (auto simp: init_free_area_def)
  from build_loop_more [OF assms [unfolded build_zone_buddy_system_def Let_def]] show ?thesis
    unfolding f .
qed

definition zone_clear :: "mem_zone \<Rightarrow> bool" where
  "zone_clear z \<longleftrightarrow>
     (\<forall>p. bbase z \<le> p \<longrightarrow> p < bend z \<longrightarrow> \<not> mmap_test_private z p \<and> \<not> mmap_test_used z p)"

lemma build_zones_inv:
  assumes "\<And>i. i \<in> set is \<Longrightarrow> zone_clear (zones m i) \<and> bbase (zones m i) < bend (zones m i) \<and>
      bend (zones m i) - bbase (zones m i) < 2 ^ 20"
    and "distinct is"
  shows "\<exists>m' blk. build_zones m is = Some m' \<and> fast_zone_entry m' = fast_zone_entry m \<and>
    (\<forall>i. i \<notin> set is \<longrightarrow> zones m' i = zones m i) \<and>
    (\<forall>i\<in>set is. same_place (zones m i) (zones m' i) \<and> buddy_inv (zones m' i) (blk i) {} \<and>
       coalesced (zones m' i) (blk i) {} \<and> allocs (zones m' i) (blk i) = Map.empty)"
  using assms
proof (induction "is" arbitrary: m)
  case Nil
  then show ?case by simp
next
  case (Cons i js)
  have z: "zone_clear (zones m i)" "bbase (zones m i) \<le> bend (zones m i)"
    "bend (zones m i) - bbase (zones m i) < 2 ^ 20"
    using Cons.prems(1) [of i] by simp_all
  have cl: "\<not> mmap_test_private (zones m i) p \<and> \<not> mmap_test_used (zones m i) p"
    if "bbase (zones m i) \<le> p" "p < bend (zones m i)" for p
    using z(1) that by (simp add: zone_clear_def)
  obtain z' b where b: "build_zone_buddy_system (zones m i) = Some z'" "buddy_inv z' b {}"
    "coalesced z' b {}" "allocs z' b = Map.empty" "bbase z' = bbase (zones m i)"
    "bend z' = bend (zones m i)"
    using build_zone_inv [OF z(2,3) cl] by metis
  have pl: "same_place (zones m i) z'"
    using b(5,6) more_place [OF build_zone_more [OF b(1)]] by (simp add: same_place_def)
  have nj: "i \<notin> set js" "distinct js" using Cons.prems(2) by simp_all
  let ?m = "set_zone m i z'"
  have zj: "zones ?m j = zones m j" if "j \<in> set js" for j using that nj(1) by auto
  have pre: "zone_clear (zones ?m j) \<and> bbase (zones ?m j) < bend (zones ?m j) \<and>
      bend (zones ?m j) - bbase (zones ?m j) < 2 ^ 20" if "j \<in> set js" for j
    unfolding zj [OF that] using Cons.prems(1) [of j] that by simp
  from Cons.IH [OF pre nj(2)] obtain m' blk where m':
    "build_zones ?m js = Some m'" "fast_zone_entry m' = fast_zone_entry m"
    "\<And>j. j \<notin> set js \<Longrightarrow> zones m' j = zones ?m j"
    "\<And>j. j \<in> set js \<Longrightarrow> same_place (zones ?m j) (zones m' j) \<and> buddy_inv (zones m' j) (blk j) {} \<and>
       coalesced (zones m' j) (blk j) {} \<and> allocs (zones m' j) (blk j) = Map.empty"
    by auto
  have zi: "zones m' i = z'" using m'(3) [OF nj(1)] by simp
  show ?case
  proof (intro exI [of _ m'] exI [of _ "blk(i := b)"] conjI allI impI ballI)
    show "build_zones m (i # js) = Some m'" using b(1) m'(1) by simp
    show "fast_zone_entry m' = fast_zone_entry m" by (rule m'(2))
    show "zones m' j = zones m j" if "j \<notin> set (i # js)" for j using m'(3) [of j] that by simp
    fix j assume j: "j \<in> set (i # js)"
    have "same_place (zones m j) (zones m' j) \<and> buddy_inv (zones m' j) ((blk(i := b)) j) {} \<and>
        coalesced (zones m' j) ((blk(i := b)) j) {} \<and> allocs (zones m' j) ((blk(i := b)) j) = Map.empty"
    proof (cases "j = i")
      case True
      then show ?thesis using zi b pl by simp
    next
      case False
      then have "j \<in> set js" using j by simp
      from m'(4) [OF this] zj [OF this] False show ?thesis by simp
    qed
    then show "same_place (zones m j) (zones m' j)" "buddy_inv (zones m' j) ((blk(i := b)) j) {}"
      "coalesced (zones m' j) ((blk(i := b)) j) {}" "allocs (zones m' j) ((blk(i := b)) j) = Map.empty"
      by blast+
  qed
qed

lemma same_places:
  assumes "fast_zone_entry m' = fast_zone_entry m"
    and "\<And>i. i \<in> set (zone_all_for_each m) \<Longrightarrow> same_place (zones m i) (zones m' i)"
  shows "layout_ok m' = layout_ok m" "zone_all_for_each m' = zone_all_for_each m"
proof -
  show z: "zone_all_for_each m' = zone_all_for_each m"
    using assms(1) by (simp add: zone_all_for_each_def zone_for_each_def)
  have 1: "zone_ok t (zones m' i) = zone_ok t (zones m i)" if "i \<in> set (fast_zone_entry m t)" "t < NR_ZONE_TYPES" for i t
  proof -
    have "i \<in> set (zone_all_for_each m)" using that set_zone_all by blast
    from assms(2) [OF this] show ?thesis by (simp add: zone_ok_def same_place_def)
  qed
  have 2: "zones_apart (zones m' i) (zones m' j) = zones_apart (zones m i) (zones m j)"
    if "i \<in> set (zone_all_for_each m)" "j \<in> set (zone_all_for_each m)" for i j
    using assms(2) [OF that(1)] assms(2) [OF that(2)] by (simp add: zones_apart_def same_place_def)
  show "layout_ok m' = layout_ok m"
    unfolding layout_ok_def z assms(1) using 1 2 by auto
qed

lemma zone_ok_pages: "zone_ok t z \<Longrightarrow> bbase z < bend z \<and> bend z - bbase z < 2 ^ 20"
  by (auto simp: zone_ok_def)

lemma page_alloc_init_inv:
  assumes l: "layout_ok m" and cl: "\<And>i. i \<in> set (zone_all_for_each m) \<Longrightarrow> zone_clear (zones m i)"
    and i: "i \<in> set (zone_all_for_each m)"
    and B: "bbase (zones m i) \<le> B" and BE: "B \<le> E"
    and top: "(max B (E - 1) - bbase (zones m i)) div 2 ^ MAX_ORDER * 2 ^ MAX_ORDER + 2 ^ MAX_ORDER
        < bend (zones m i) - bbase (zones m i)"
    and b: "PAGE_FLOOR (pa load) = zaddr (zones m i) B" and e: "PAGE_CEIL (pa pgt_end) = zaddr (zones m i) E"
  shows "\<exists>m'. page_alloc_init m load pgt_end = Some m' \<and>
    mm_rel m' (\<lambda>q. if B \<le> q \<and> q < E then Some 0 else None)"
proof -
  have pre: "zone_clear (zones m j) \<and> bbase (zones m j) < bend (zones m j) \<and>
      bend (zones m j) - bbase (zones m j) < 2 ^ 20" if "j \<in> set (zone_all_for_each m)" for j
  proof -
    from that obtain t where "t < NR_ZONE_TYPES" "j \<in> set (fast_zone_entry m t)" by (auto simp: set_zone_all)
    from zone_ok_pages [OF layout_okD(1) [OF l this]] cl [OF that] show ?thesis by blast
  qed
  from build_zones_inv [OF pre layout_okD(3) [OF l]] obtain m1 blk where m1:
    "build_zones m (zone_all_for_each m) = Some m1" "fast_zone_entry m1 = fast_zone_entry m"
    "\<And>j. j \<in> set (zone_all_for_each m) \<Longrightarrow> same_place (zones m j) (zones m1 j) \<and>
       buddy_inv (zones m1 j) (blk j) {} \<and> coalesced (zones m1 j) (blk j) {} \<and>
       allocs (zones m1 j) (blk j) = Map.empty"
    by blast
  have sp: "same_place (zones m j) (zones m1 j)" if "j \<in> set (zone_all_for_each m)" for j
    using m1(3) that by blast
  note pl = same_places [OF m1(2) sp]
  have "mm_inv m1 blk" using m1(3) l pl by (simp add: mm_inv_def)
  moreover have "mm_allocs m1 blk q = None" for q
  proof (cases "page_to_zone m1 q")
    case (Some j)
    then show ?thesis using page_to_zoneD(1) [OF Some] m1(3) pl(2) by (simp add: mm_allocs_def)
  qed (simp add: mm_allocs_def)
  then have "mm_allocs m1 blk = Map.empty" by auto
  ultimately have rel: "mm_rel m1 Map.empty" unfolding mm_rel_def by metis
  have si: "bbase (zones m1 i) = bbase (zones m i)" "bend (zones m1 i) = bend (zones m i)"
    using sp [OF i] by (simp_all add: same_place_def)
  have za: "zaddr (zones m1 i) = zaddr (zones m i)" using zaddr_same [OF sp [OF i]] .
  have "i \<in> set (zone_all_for_each m1)" "bbase (zones m1 i) \<le> B" using i pl(2) B si by simp_all
  from alloc_region_inv [OF rel this BE] top obtain m2 where
    "alloc_region m1 (zaddr (zones m i) B) (zaddr (zones m i) E) = Some m2"
    "mm_rel m2 (\<lambda>q. if B \<le> q \<and> q < E then Some 0 else Map.empty q)"
    unfolding si za by auto
  then show ?thesis using m1(1) b e by (simp add: page_alloc_init_def)
qed

end
