(* ===== verification/Highmem.thy ===== *)
theory Highmem
  imports Zone_Inv
begin

text \<open>
  kernel/mm/highmem.c: the allocator of the kernel's window for high memory and the
  functions that map pages into it (\<open>kmap\<close>, \<open>ioremap\<close>).  A \<open>high_map_t *\<close> is its index in
  the array \<open>hmap .. hmap_end\<close> (fields \<open>bbase\<close>, \<open>bend\<close>), its \<open>entry\<close> the index of a slot in
  the window's page tables (\<open>pgtab\<close>).  The file has its own copy of the buddy algorithm, and
  so has this theory; the lemmas show the copy equal to the operations of Page_Alloc, which
  carries the invariant over, and then that a mapping holds exactly the frames asked for
  and disturbs no other live mapping.
\<close>

subsection \<open>State and operations\<close>

record highmem = buddy +
  hentry :: "nat \<Rightarrow> nat"
  pgtab :: "nat \<Rightarrow> pgt_t"

definition init_add_to_high_area :: "highmem \<Rightarrow> nat \<Rightarrow> nat \<Rightarrow> highmem" where
  "init_add_to_high_area h p order =
     (let h = mmap_set_private h p; a = bareas h order
      in h\<lparr>bareas := (bareas h)(order := \<lparr>fa_list = p # fa_list a, fa_size = fa_size a + 1\<rparr>)\<rparr>)"

definition init_high_area :: "highmem \<Rightarrow> highmem" where
  "init_high_area h =
     fold (\<lambda>i h. h\<lparr>bareas := (bareas h)(i := \<lparr>fa_list = [], fa_size = 0\<rparr>)\<rparr>) [0..<MAX_ORDER + 1] h"

text \<open>\<open>high_base\<close> is the index of the first slot of the window's page tables.\<close>

definition init_high_map :: "nat \<Rightarrow> highmem \<Rightarrow> highmem" where
  "init_high_map high_base h =
     fold (\<lambda>iter h. h\<lparr>hentry := (hentry h)(iter := high_base + (iter - bbase h))\<rparr>)
       [bbase h..<bend h] h"

definition add_to_high_area :: "highmem \<Rightarrow> nat \<Rightarrow> nat \<Rightarrow> highmem option" where
  "add_to_high_area h p order =
     do { bug_on (\<not> mmap_test_private h p);
          let a = bareas h order;
          Some (h\<lparr>bareas := (bareas h)(order :=
            \<lparr>fa_list = p # fa_list a, fa_size = fa_size a + 1\<rparr>)\<rparr>) }"

definition pop_from_high_area :: "highmem \<Rightarrow> nat \<Rightarrow> nat option \<times> highmem" where
  "pop_from_high_area h order =
     (let a = bareas h order
      in case fa_list a of
           [] \<Rightarrow> (None, h)
         | fetch # rest \<Rightarrow>
             (Some fetch,
              h\<lparr>bareas := (bareas h)(order := \<lparr>fa_list = rest, fa_size = fa_size a - 1\<rparr>)\<rparr>))"

definition remove_from_high_area :: "highmem \<Rightarrow> nat \<Rightarrow> nat \<Rightarrow> highmem option" where
  "remove_from_high_area h p order =
     (let a = bareas h order
      in if p \<in> set (fa_list a)
         then Some (h\<lparr>bareas := (bareas h)(order :=
                \<lparr>fa_list = remove1 p (fa_list a), fa_size = fa_size a - 1\<rparr>)\<rparr>)
         else None)"

definition high_get_buddy :: "highmem \<Rightarrow> nat \<Rightarrow> nat \<Rightarrow> nat option" where
  "high_get_buddy h me order =
     (let combine_size = 2 ^ (order + 1); buddy_size = 2 ^ order; offset = me - bbase h;
          left_boy = (offset mod combine_size = 0);
          my_buddy = (if left_boy then bbase h + offset + buddy_size
                      else bbase h + offset - buddy_size)
      in if left_boy \<and> int (my_buddy + buddy_size) - int (bend h) > 0 then None
         else if \<not> mmap_test_private h my_buddy then None
         else if mmap_test_used h my_buddy then None
         else if order = 0 \<or> \<not> mmap_test_private h (my_buddy + 2 ^ (order - 1))
           then Some my_buddy
         else None)"

definition high_reduce :: "highmem \<Rightarrow> nat \<Rightarrow> nat \<Rightarrow> (nat \<times> highmem) option" where
  "high_reduce h p order =
     do { bug_on (order = 0);
          let buddy2 = p + 2 ^ (order - 1);
          h \<leftarrow> add_to_high_area (mmap_set_private h buddy2) buddy2 (order - 1);
          Some (p, h) }"

definition high_expand :: "highmem \<Rightarrow> nat \<Rightarrow> nat \<Rightarrow> nat \<times> highmem" where
  "high_expand h buddy1 buddy2 =
     (let (left_buddy, right_buddy) =
        (if buddy1 < buddy2 then (buddy1, buddy2) else (buddy2, buddy1))
      in (left_buddy, mmap_clear_private h right_buddy))"

function high_build_loop :: "highmem \<Rightarrow> nat \<Rightarrow> u32 \<Rightarrow> highmem option" where
  "high_build_loop h p sz =
     (if PAGE_SIZE \<le> sz
      then let order = build_order sz
           in high_build_loop (init_add_to_high_area h p order) (p + 2 ^ order)
                (sz - push_bit order PAGE_SIZE)
      else do { bug_on (sz \<noteq> 0); Some h })"
  by pat_completeness auto
termination
proof (relation "measure (\<lambda>(h, p, sz). unat sz)")
  fix h :: highmem and p :: nat and sz :: u32 and x
  assume sz: "PAGE_SIZE \<le> sz" and x: "x = build_order sz"
  have u: "unat (push_bit x PAGE_SIZE) = 4096 * 2 ^ x"
    using build_order_fits(1) [OF sz] by (simp add: x unat_push_page)
  then have "push_bit x PAGE_SIZE \<le> sz" "0 < unat (push_bit x PAGE_SIZE)"
    using build_order_fits(2) [OF sz] by (simp_all add: word_le_nat_alt x)
  then have "unat (sz - push_bit x PAGE_SIZE) < unat sz"
    by (metis unat_sub diff_less order_less_le_trans word_le_nat_alt)
  then show "((init_add_to_high_area h p x, p + 2 ^ x, sz - push_bit x PAGE_SIZE), h, p, sz)
      \<in> measure (\<lambda>(h, p, sz). unat sz)" by simp
qed simp

declare high_build_loop.simps [simp del]

definition build_buddy_system :: "highmem \<Rightarrow> highmem option" where
  "build_buddy_system h = high_build_loop h (bbase h) (of_nat (bend h - bbase h) * PAGE_SIZE)"

text \<open>
  \<open>sizeof(high_map_t)\<close> is 16: two words and the two pointers of a list head.  The array comes
  from zeroed pages, so its flag words start at 0; \<open>None\<close> covers the failed \<open>BUG_ON(hmap ==
  NULL)\<close>.
\<close>

definition highmem_init :: "mm \<Rightarrow> nat \<Rightarrow> (nat \<Rightarrow> pgt_t) \<Rightarrow> (highmem \<times> mm) option" where
  "highmem_init m high_base tab =
     (let need_size = ZONE_HIGHMEM_SIZE div PAGE_SIZE * 16
      in do { (hmap, m) \<leftarrow> get_free_pages m (GFP_DMA OR GFP_NORMAL) (nat (get_order need_size));
              bug_on (hmap = None);
              let h = \<lparr>bflags = (\<lambda>_. 0), bbase = 0, bend = unat (need_size div 16),
                       bareas = (\<lambda>_. \<lparr>fa_list = [], fa_size = 0\<rparr>),
                       hentry = (\<lambda>_. 0), pgtab = tab\<rparr>;
              h \<leftarrow> build_buddy_system (init_high_map high_base (init_high_area h));
              Some (h, m) })"

fun high_reduce_to :: "highmem \<Rightarrow> nat \<Rightarrow> nat \<Rightarrow> nat \<Rightarrow> (nat \<times> highmem) option" where
  "high_reduce_to h fetch search_order order =
     (if search_order = order then Some (fetch, h)
      else do { (fetch, h) \<leftarrow> high_reduce h fetch search_order;
                (case search_order of
                   0 \<Rightarrow> None
                 | Suc n \<Rightarrow> high_reduce_to h fetch n order) })"

declare high_reduce_to.simps [simp del]

function high_search :: "highmem \<Rightarrow> nat \<Rightarrow> nat \<Rightarrow> (nat option \<times> highmem) option" where
  "high_search h search_order order =
     (if MAX_ORDER < search_order then Some (None, h)
      else case pop_from_high_area h search_order of
             (Some fetch, h) \<Rightarrow>
               do { (fetch, h) \<leftarrow> high_reduce_to h fetch search_order order;
                    let h = mmap_set_used h fetch;
                    bug_on (\<not> mmap_test_private h fetch);
                    Some (Some fetch, h) }
           | (None, h) \<Rightarrow> high_search h (search_order + 1) order)"
  by pat_completeness auto
termination by (relation "measure (\<lambda>(h, s, order). MAX_ORDER + 1 - s)") auto

declare high_search.simps [simp del]

definition alloc_high_map :: "highmem \<Rightarrow> nat \<Rightarrow> (nat option \<times> highmem) option" where
  "alloc_high_map h order =
     (if MAX_ORDER < order then Some (None, h) else high_search h order order)"

function high_merge_loop :: "highmem \<Rightarrow> nat \<Rightarrow> nat \<Rightarrow> (nat \<times> nat \<times> highmem) option" where
  "high_merge_loop h buddy1 order =
     (if MAX_ORDER \<le> order then Some (buddy1, order, h)
      else case high_get_buddy h buddy1 order of
             None \<Rightarrow> Some (buddy1, order, h)
           | Some buddy2 \<Rightarrow>
               do { h \<leftarrow> remove_from_high_area h buddy2 order;
                    (case high_expand h buddy1 buddy2 of
                       (b, h) \<Rightarrow> high_merge_loop h b (order + 1)) })"
  by pat_completeness auto
termination by (relation "measure (\<lambda>(h, b, order). MAX_ORDER - order)") auto

declare high_merge_loop.simps [simp del]

definition dealloc_high_map :: "highmem \<Rightarrow> nat \<Rightarrow> nat \<Rightarrow> highmem option" where
  "dealloc_high_map h p order =
     do { bug_on (\<not> mmap_test_used h p);
          bug_on (MAX_ORDER < order);
          (buddy1, order, h) \<leftarrow> high_merge_loop (mmap_clear_used h p) p order;
          add_to_high_area h buddy1 order }"

definition hmap_to_virt :: "highmem \<Rightarrow> nat \<Rightarrow> u32 option" where
  "hmap_to_virt h hm =
     do { bug_on (hm < bbase h);
          bug_on (bend h \<le> hm);
          Some (PAGE_OFFSET + ZONE_NORMAL_LIMIT + of_nat (hm - bbase h) * PAGE_SIZE) }"

definition virt_to_hmap :: "highmem \<Rightarrow> u32 \<Rightarrow> nat option" where
  "virt_to_hmap h addr =
     do { bug_on (addr < PAGE_OFFSET + ZONE_NORMAL_LIMIT);
          Some (bbase h + unat ((addr - PAGE_OFFSET - ZONE_NORMAL_LIMIT) div PAGE_SIZE)) }"

text \<open>The loop of \<open>kmap\<close> and \<open>ioremap\<close> that fills the slots \<open>i\<close> to \<open>1 << order\<close>.\<close>

fun map_pages :: "highmem \<Rightarrow> nat \<Rightarrow> nat list \<Rightarrow> u32 \<Rightarrow> highmem" where
  "map_pages h hm [] phys = h"
| "map_pages h hm (i # is) phys =
     map_pages (h\<lparr>pgtab := (pgtab h)(hentry h (hm + i) := mk_pgt phys (PAGE_PRESENT OR PAGE_RW))\<rparr>)
       hm is (phys + PAGE_SIZE)"

definition kmap :: "mm \<Rightarrow> highmem \<Rightarrow> nat \<Rightarrow> nat \<Rightarrow> (u32 option \<times> highmem) option" where
  "kmap m h page order =
     do { phys \<leftarrow> page_to_phys m page;
          (hm, h) \<leftarrow> alloc_high_map h order;
          (case hm of
             Some hm \<Rightarrow>
               do { let h = map_pages h hm [0..<2 ^ order] phys;
                    v \<leftarrow> hmap_to_virt h hm;
                    Some (Some v, h) }
           | None \<Rightarrow> Some (None, h)) }"

definition kunmap :: "highmem \<Rightarrow> u32 \<Rightarrow> nat \<Rightarrow> highmem option" where
  "kunmap h mapped order = do { hm \<leftarrow> virt_to_hmap h mapped; dealloc_high_map h hm order }"

definition ioremap :: "highmem \<Rightarrow> u32 \<Rightarrow> u32 \<Rightarrow> (u32 option \<times> highmem) option" where
  "ioremap h addr sz =
     (let order = nat (get_order sz)
      in do { bug_on (PAGE_ALIGN addr \<noteq> addr);
              (hm, h) \<leftarrow> alloc_high_map h order;
              (case hm of
                 Some hm \<Rightarrow>
                   do { let h = map_pages h hm [0..<2 ^ order] addr;
                        v \<leftarrow> hmap_to_virt h hm;
                        Some (Some v, h) }
               | None \<Rightarrow> Some (None, h)) })"

definition iounmap :: "highmem \<Rightarrow> u32 \<Rightarrow> u32 \<Rightarrow> highmem option" where
  "iounmap h mapped sz = kunmap h mapped (nat (get_order sz))"

definition highmem_dump :: "highmem \<Rightarrow> u32 list option" where
  "highmem_dump h =
     fold (\<lambda>i r. do { out \<leftarrow> r;
            let count = fold (\<lambda>_ n. n + 1) (fa_list (bareas h i)) (0 :: u32);
            bug_on (fa_size (bareas h i) \<noteq> count);
            Some (out @ [count]) })
       [0..<MAX_ORDER + 1] (Some [])"

subsection \<open>The copy is the allocator of Page_Alloc\<close>

lemma high_ops:
  "init_add_to_high_area = init_add_to_free_area"
  "add_to_high_area = add_to_free_area"
  "pop_from_high_area = pop_from_free_area"
  "remove_from_high_area = remove_from_free_area"
  "high_get_buddy = get_buddy"
  "high_expand = expand"
  by (simp_all add: fun_eq_iff init_add_to_high_area_def init_add_to_free_area_def
      add_to_high_area_def add_to_free_area_def pop_from_high_area_def pop_from_free_area_def
      remove_from_high_area_def remove_from_free_area_def high_get_buddy_def get_buddy_def
      high_expand_def expand_def)

lemma high_reduce_eq: "high_reduce = reduce"
  by (simp add: fun_eq_iff high_reduce_def reduce_def high_ops)

lemma high_reduce_to_eq: "high_reduce_to h p s k = reduce_to h p s k"
  by (induction s arbitrary: h p)
    (simp_all add: high_reduce_to.simps [of _ _ _ k] reduce_to.simps [of _ _ _ k] high_reduce_eq)

lemma high_build_loop_eq: "high_build_loop h p sz = build_loop h p sz"
proof (induction h p sz rule: high_build_loop.induct)
  case (1 h p sz)
  then show ?case
    by (simp add: high_build_loop.simps [of h p sz] build_loop.simps [of h p sz] high_ops Let_def)
qed

lemma high_merge_loop_eq: "high_merge_loop h p k = merge_loop h p k"
proof (induction h p k rule: high_merge_loop.induct)
  case (1 h p k)
  show ?case
  proof (cases "MAX_ORDER \<le> k \<or> get_buddy h p k = None")
    case True
    then show ?thesis
      by (subst high_merge_loop.simps, subst merge_loop.simps) (auto simp: high_ops)
  next
    case False
    then obtain q where q: "get_buddy h p k = Some q" "\<not> MAX_ORDER \<le> k" by auto
    show ?thesis
    proof (cases "remove_from_free_area h q k")
      case None
      then show ?thesis using q
        by (subst high_merge_loop.simps, subst merge_loop.simps) (simp add: high_ops)
    next
      case (Some h1)
      obtain l h2 where e: "expand h1 p q = (l, h2)" by fastforce
      have "high_merge_loop h2 l (k + 1) = merge_loop h2 l (k + 1)"
        using "1.IH" [OF q(2), of q h1 l h2] q Some e by (simp add: high_ops)
      then show ?thesis using q Some e
        by (subst high_merge_loop.simps, subst merge_loop.simps) (simp add: high_ops)
    qed
  qed
qed

lemma dealloc_high_map_eq: "dealloc_high_map = dealloc_zone"
  by (simp add: fun_eq_iff dealloc_high_map_def dealloc_zone_def high_ops high_merge_loop_eq)


lemma high_search_eq:
  assumes inv: "buddy_inv h blk {}" and ks: "k \<le> s"
  shows "high_search h s k = alloc_search h s k"
  using ks
proof (induction "MAX_ORDER + 1 - s" arbitrary: s)
  case 0
  then show ?case by (subst high_search.simps, subst alloc_search.simps) simp
next
  case (Suc n)
  then have sM: "s \<le> MAX_ORDER" by simp
  obtain r h1 where pop: "pop_from_free_area h s = (r, h1)" by fastforce
  show ?case
  proof (cases r)
    case None
    have "h1 = h" using pop_None(1) [OF inv pop [unfolded None] sM] .
    moreover have "high_search h (Suc s) k = alloc_search h (Suc s) k"
      using Suc.hyps(1) [of "Suc s"] Suc.hyps(2) Suc.prems by simp
    ultimately show ?thesis using pop None sM
      by (subst high_search.simps, subst alloc_search.simps) (simp add: high_ops)
  next
    case (Some p)
    note e = pop_Some [OF inv pop [unfolded Some] sM]
    have bp: "blk p = Some s" using e(2) by (simp add: free_at_def)
    from reduce_to_inv [OF e(1) bp Suc.prems] obtain h2 blk2 where
      r: "reduce_to h1 p s k = Some (p, h2)" "buddy_inv h2 blk2 {p}" "blk2 p = Some k" by blast
    have "mmap_test_private h2 p" by (rule buddy_inv_block(6) [OF r(2,3)])
    then show ?thesis using pop Some sM r(1)
      by (subst high_search.simps, subst alloc_search.simps)
        (simp add: high_ops high_reduce_to_eq Let_def)
  qed
qed

subsection \<open>The contract\<close>

definition hm_inv :: "highmem \<Rightarrow> (nat \<rightharpoonup> nat) \<Rightarrow> bool" where
  "hm_inv h blk \<longleftrightarrow> buddy_inv h blk {} \<and> coalesced h blk {} \<and>
     bbase h \<le> bend h \<and> bend h - bbase h \<le> 32768 \<and> inj_on (hentry h) {bbase h..<bend h}"

definition hm_rel :: "highmem \<Rightarrow> (nat \<rightharpoonup> nat) \<Rightarrow> bool" where
  "hm_rel h a \<longleftrightarrow> (\<exists>blk. hm_inv h blk \<and> a = allocs h blk)"

lemma more_entries:
  assumes "buddy.more h' = buddy.more (h :: highmem)"
  shows "hentry h' = hentry h" "pgtab h' = pgtab h"
  using assms by (cases h; cases h'; simp)+

lemma alloc_high_map_inv:
  assumes inv: "hm_inv h blk"
  shows "alloc_high_map h k = Some (None, h) \<or>
    (\<exists>p h' blk'. alloc_high_map h k = Some (Some p, h') \<and> k \<le> MAX_ORDER \<and> hm_inv h' blk' \<and>
       allocs h blk p = None \<and> allocs h' blk' = (allocs h blk)(p \<mapsto> k) \<and>
       bbase h' = bbase h \<and> bend h' = bend h \<and> hentry h' = hentry h \<and> pgtab h' = pgtab h)"
proof (cases "k \<le> MAX_ORDER")
  case False
  then show ?thesis by (simp add: alloc_high_map_def)
next
  case True
  have I: "buddy_inv h blk {}" "coalesced h blk {}" using inv by (simp_all add: hm_inv_def)
  have e: "alloc_high_map h k = alloc_search h k k"
    using True high_search_eq [OF I(1)] by (simp add: alloc_high_map_def)
  from alloc_search_inv [OF I(1), of k k] consider
    "alloc_search h k k = Some (None, h)"
  | p j h' blk' where "alloc_search h k k = Some (Some p, h')" "p \<in> free_at h blk {} j"
      "buddy_inv h' blk' {}" "allocs h' blk' = (allocs h blk)(p \<mapsto> k)"
      "bbase h' = bbase h" "bend h' = bend h" "coalesced h' blk' {}"
    using I(2) by blast
  then show ?thesis
  proof cases
    case 1 then show ?thesis using e by simp
  next
    case 2
    note m = more_entries [OF alloc_search_more [OF 2(1)]]
    have "hm_inv h' blk'" using inv 2 m by (simp add: hm_inv_def)
    moreover have "allocs h blk p = None" using 2(2) by (simp add: allocs_def free_at_def)
    ultimately show ?thesis using e 2 m True by auto
  qed
qed

lemma dealloc_high_map_inv:
  assumes inv: "hm_inv h blk" and a: "allocs h blk p = Some k"
  shows "\<exists>h' blk'. dealloc_high_map h p k = Some h' \<and> hm_inv h' blk' \<and>
    allocs h' blk' = (allocs h blk)(p := None) \<and> pgtab h' = pgtab h \<and> hentry h' = hentry h"
proof -
  have I: "buddy_inv h blk {}" "coalesced h blk {}" using inv by (simp_all add: hm_inv_def)
  from dealloc_zone_inv [OF I(1) a] I(2) obtain h' b where
    z: "dealloc_zone h p k = Some h'" "buddy_inv h' b {}" "allocs h' b = (allocs h blk)(p := None)"
      "bbase h' = bbase h" "bend h' = bend h" "coalesced h' b {}" by metis
  note m = more_entries [OF dealloc_zone_more [OF z(1)]]
  have "hm_inv h' b" using inv z m by (simp add: hm_inv_def)
  with z m show ?thesis unfolding dealloc_high_map_eq by blast
qed

lemma hm_rel_separated: "hm_rel h a \<Longrightarrow> separated a"
  using allocs_allocs_ok by (auto simp: hm_rel_def hm_inv_def allocs_ok_def)

interpretation hmap: page_allocator hm_rel alloc_high_map dealloc_high_map
proof
  fix h a k
  assume r: "hm_rel h a"
  show "separated a" using r by (rule hm_rel_separated)
  from r obtain blk where inv: "hm_inv h blk" and a: "a = allocs h blk" by (auto simp: hm_rel_def)
  note c = alloc_high_map_inv [OF inv, of k]
  show "\<exists>r h'. alloc_high_map h k = Some (r, h')" using c by auto
  show "h' = h" if "alloc_high_map h k = Some (None, h')" for h' using that c by auto
  show "a p = None \<and> hm_rel h' (a(p \<mapsto> k))" if "alloc_high_map h k = Some (Some p, h')" for p h'
    using that c a unfolding hm_rel_def by (auto simp: fun_eq_iff)
  show "\<exists>h'. dealloc_high_map h p k = Some h' \<and> hm_rel h' (a(p := None))" if "a p = Some k" for p
    using dealloc_high_map_inv [OF inv, of p k] that a unfolding hm_rel_def by metis
qed


subsection \<open>Mappings\<close>

lemma map_pages_fields:
  "bflags (map_pages h hm is phys) = bflags h" "bbase (map_pages h hm is phys) = bbase h"
  "bend (map_pages h hm is phys) = bend h" "bareas (map_pages h hm is phys) = bareas h"
  "hentry (map_pages h hm is phys) = hentry h"
  by (induction "is" arbitrary: h phys) simp_all

lemma buddy_inv_fields:
  assumes "bflags h' = bflags h" "bbase h' = bbase h" "bend h' = bend h" "bareas h' = bareas h"
  shows "buddy_inv h' blk F = buddy_inv h blk F" "coalesced h' blk F = coalesced h blk F"
    "allocs h' blk = allocs h blk"
proof -
  have u: "mmap_test_used h' p = mmap_test_used h p" "mmap_test_private h' p = mmap_test_private h p" for p
    using assms(1) by (simp_all add: mmap_test_used_def mmap_test_private_def)
  have f: "free_at h' blk F k = free_at h blk F k" for k by (simp add: free_at_def u)
  show "buddy_inv h' blk F = buddy_inv h blk F" "coalesced h' blk F = coalesced h blk F"
    "allocs h' blk = allocs h blk"
    unfolding buddy_inv_def coalesced_def allocs_def heads_ok_def u f assms(2,3,4) by (rule refl)+
qed

lemma map_pages_rel: "hm_rel (map_pages h hm is phys) a = hm_rel h a"
  unfolding hm_rel_def hm_inv_def map_pages_fields
    buddy_inv_fields [OF map_pages_fields(1-4)] by (rule refl)

lemma map_pages_out:
  "s \<notin> (\<lambda>i. hentry h (hm + i)) ` set is \<Longrightarrow> pgtab (map_pages h hm is phys) s = pgtab h s"
  by (induction "is" arbitrary: h phys) simp_all

lemma map_pages_in:
  assumes "inj_on (hentry h) {hm..<hm + n}" "j \<le> i" "i < n"
  shows "pgtab (map_pages h hm [j..<n] phys) (hentry h (hm + i)) =
    mk_pgt (phys + of_nat (i - j) * PAGE_SIZE) (PAGE_PRESENT OR PAGE_RW)"
  using assms
proof (induction "n - j" arbitrary: j h phys)
  case 0
  then show ?case by simp
next
  case (Suc m)
  then have jn: "j < n" by simp
  let ?h = "h\<lparr>pgtab := (pgtab h)(hentry h (hm + j) := mk_pgt phys (PAGE_PRESENT OR PAGE_RW))\<rparr>"
  have st: "map_pages h hm [j..<n] phys = map_pages ?h hm [Suc j..<n] (phys + PAGE_SIZE)"
    using jn by (simp add: upt_conv_Cons)
  have ne: "hentry h (hm + x) \<noteq> hentry h (hm + j)" if "x \<noteq> j" "x < n" for x
    using inj_onD [OF Suc.prems(1), of "hm + x" "hm + j"] that jn by auto
  show ?case
  proof (cases "i = j")
    case True
    have "hentry ?h (hm + j) \<notin> (\<lambda>i. hentry ?h (hm + i)) ` set [Suc j..<n]"
    proof
      assume "hentry ?h (hm + j) \<in> (\<lambda>i. hentry ?h (hm + i)) ` set [Suc j..<n]"
      then obtain x where "Suc j \<le> x" "x < n" "hentry h (hm + x) = hentry h (hm + j)" by auto
      with ne [of x] show False by simp
    qed
    from map_pages_out [OF this] show ?thesis unfolding st True by simp
  next
    case False
    then have ji: "Suc j \<le> i" using Suc.prems(2) by simp
    have "m = n - Suc j" using Suc.hyps(2) by simp
    from Suc.hyps(1) [OF this, of ?h] Suc.prems(1,3) ji
    have "pgtab (map_pages ?h hm [Suc j..<n] (phys + PAGE_SIZE)) (hentry h (hm + i)) =
      mk_pgt (phys + PAGE_SIZE + of_nat (i - Suc j) * PAGE_SIZE) (PAGE_PRESENT OR PAGE_RW)" by simp
    moreover have "i - j = Suc (i - Suc j)" using ji by simp
    ultimately show ?thesis unfolding st by (simp add: algebra_simps)
  qed
qed

lemma hm_rel_block:
  assumes "hm_rel h a" "a p = Some k"
  shows "block_fits (bbase h) (bend h) p k" "inj_on (hentry h) {bbase h..<bend h}"
    "bend h - bbase h \<le> 32768"
  using assms allocs_block(1) by (auto simp: hm_rel_def hm_inv_def)

lemma window_round_trip:
  assumes "bbase h \<le> p" "p < bend h" "bend h - bbase h \<le> 32768"
  obtains v where "hmap_to_virt h p = Some v" "virt_to_hmap h v = Some p"
    "unat v = 0xF8000000 + (p - bbase h) * 4096"
proof -
  let ?v = "PAGE_OFFSET + ZONE_NORMAL_LIMIT + of_nat (p - bbase h) * PAGE_SIZE"
  let ?n = "p - bbase h"
  have n: "?n < 32768" using assms by linarith
  have b: "PAGE_OFFSET + ZONE_NORMAL_LIMIT = 0xF8000000"
    by (simp add: PAGE_OFFSET_def ZONE_NORMAL_LIMIT_def)
  have u: "unat ?v = 0xF8000000 + ?n * 4096"
    unfolding b by (subst unat_page_addr) (use n in simp_all)
  have "?v - PAGE_OFFSET - ZONE_NORMAL_LIMIT = of_nat ?n * PAGE_SIZE" by simp
  moreover have "unat (of_nat ?n * PAGE_SIZE) = ?n * 4096" using unat_page_addr [of 0 ?n] n by simp
  ultimately have "unat ((?v - PAGE_OFFSET - ZONE_NORMAL_LIMIT) div PAGE_SIZE) = ?n"
    by (simp add: unat_div_distrib unat_PAGE_SIZE)
  moreover have "\<not> ?v < PAGE_OFFSET + ZONE_NORMAL_LIMIT"
    unfolding word_less_nat_alt u unfolding b by simp
  ultimately have "virt_to_hmap h ?v = Some p" using assms(1) by (simp add: virt_to_hmap_def)
  moreover have "hmap_to_virt h p = Some ?v" using assms(1,2) by (simp add: hmap_to_virt_def)
  ultimately show thesis using that u by blast
qed

text \<open>\<open>window_maps h p n phys\<close>: the \<open>n\<close> slots from \<open>p\<close> on map the frames from \<open>phys\<close> on.\<close>

definition window_maps :: "highmem \<Rightarrow> nat \<Rightarrow> nat \<Rightarrow> u32 \<Rightarrow> bool" where
  "window_maps h p n phys \<longleftrightarrow>
     (\<forall>i<n. pgtab h (hentry h (p + i)) =
        mk_pgt (phys + of_nat i * PAGE_SIZE) (PAGE_PRESENT OR PAGE_RW))"

definition map_into :: "highmem \<Rightarrow> nat \<Rightarrow> u32 \<Rightarrow> (u32 option \<times> highmem) option" where
  "map_into h order phys =
     do { (hm, h) \<leftarrow> alloc_high_map h order;
          (case hm of
             Some hm \<Rightarrow>
               do { let h = map_pages h hm [0..<2 ^ order] phys;
                    v \<leftarrow> hmap_to_virt h hm;
                    Some (Some v, h) }
           | None \<Rightarrow> Some (None, h)) }"

lemma map_into_inv:
  assumes rel: "hm_rel h a"
  shows "map_into h k phys = Some (None, h) \<or>
    (\<exists>v h' p. map_into h k phys = Some (Some v, h') \<and> k \<le> MAX_ORDER \<and> virt_to_hmap h' v = Some p \<and>
       a p = None \<and> hm_rel h' (a(p \<mapsto> k)) \<and> window_maps h' p (2 ^ k) phys \<and>
       (\<forall>q j phys'. a q = Some j \<longrightarrow> window_maps h q (2 ^ j) phys' \<longrightarrow> window_maps h' q (2 ^ j) phys'))"
proof -
  from rel obtain blk where inv: "hm_inv h blk" and a: "a = allocs h blk" by (auto simp: hm_rel_def)
  from alloc_high_map_inv [OF inv, of k] consider
    "alloc_high_map h k = Some (None, h)"
  | p h1 blk1 where "alloc_high_map h k = Some (Some p, h1)" "k \<le> MAX_ORDER" "hm_inv h1 blk1"
      "allocs h blk p = None" "allocs h1 blk1 = (allocs h blk)(p \<mapsto> k)"
      "bbase h1 = bbase h" "bend h1 = bend h" "hentry h1 = hentry h" "pgtab h1 = pgtab h"
    by blast
  then show ?thesis
  proof cases
    case 1 then show ?thesis by (simp add: map_into_def)
  next
    case 2
    let ?h = "map_pages h1 p [0..<2 ^ k] phys"
    have rel1: "hm_rel h1 (a(p \<mapsto> k))" using 2(3,5) a unfolding hm_rel_def by metis
    have "(a(p \<mapsto> k)) p = Some k" by simp
    note B = hm_rel_block [OF rel1 this]
    note F = block_fitsD [OF B(1)]
    obtain v where v: "hmap_to_virt ?h p = Some v" "virt_to_hmap ?h v = Some p"
      using window_round_trip [of ?h p] F B(3) by (auto simp: map_pages_fields)
    have ij: "inj_on (hentry h1) {p..<p + 2 ^ k}"
      using F by (intro inj_on_subset [OF B(2)]) auto
    have "window_maps ?h p (2 ^ k) phys"
      using map_pages_in [OF ij, of 0 _ phys] by (simp add: window_maps_def map_pages_fields)
    moreover have "window_maps ?h q (2 ^ j) phys'" if q: "a q = Some j" "window_maps h q (2 ^ j) phys'" for q j phys'
      unfolding window_maps_def
    proof (intro allI impI)
      fix i :: nat assume i: "i < 2 ^ j"
      have "q \<noteq> p" using q(1) 2(4) a by auto
      with q(1) have qa: "(a(p \<mapsto> k)) q = Some j" by simp
      note Q = block_fitsD [OF hm_rel_block(1) [OF rel1 qa]]
      have "{p..<p + 2 ^ k} \<inter> {q..<q + 2 ^ j} = {}"
        using hmap.rel_disjoint [OF rel1] qa \<open>q \<noteq> p\<close> unfolding blocks_disjoint_def by (metis fun_upd_same)
      then have "q + i \<notin> {p..<p + 2 ^ k}" using i by auto
      then have "hentry h1 (q + i) \<noteq> hentry h1 (p + x)" if "x < 2 ^ k" for x
        using inj_onD [OF B(2), of "q + i" "p + x"] that Q F i by auto
      then have "hentry h1 (q + i) \<notin> (\<lambda>i. hentry h1 (p + i)) ` set [0..<2 ^ k]"
        by (metis (no_types, lifting) atLeastLessThan_iff image_iff set_upt)
      from map_pages_out [OF this] q(2) i 2(8,9)
      show "pgtab ?h (hentry ?h (q + i)) = mk_pgt (phys' + of_nat i * PAGE_SIZE) (PAGE_PRESENT OR PAGE_RW)"
        by (simp add: window_maps_def map_pages_fields)
    qed
    moreover have "hm_rel ?h (a(p \<mapsto> k))" using rel1 by (simp add: map_pages_rel)
    moreover have "map_into h k phys = Some (Some v, ?h)" using 2(1) v(1) by (simp add: map_into_def Let_def)
    ultimately show ?thesis using v(2) 2(2,4) a by auto
  qed
qed

lemma kmap_into: "page_to_phys m page = Some phys \<Longrightarrow> kmap m h page k = map_into h k phys"
  by (simp add: kmap_def map_into_def)

lemma ioremap_into: "PAGE_ALIGN addr = addr \<Longrightarrow> ioremap h addr sz = map_into h (nat (get_order sz)) addr"
  by (simp add: ioremap_def map_into_def Let_def)

lemma kunmap_inv:
  assumes rel: "hm_rel h a" and v: "virt_to_hmap h v = Some p" and p: "a p = Some k"
  shows "\<exists>h'. kunmap h v k = Some h' \<and> hm_rel h' (a(p := None)) \<and> pgtab h' = pgtab h"
proof -
  from rel obtain blk where inv: "hm_inv h blk" and a: "a = allocs h blk" by (auto simp: hm_rel_def)
  from dealloc_high_map_inv [OF inv, of p k] p a obtain h' blk' where
    "dealloc_high_map h p k = Some h'" "hm_inv h' blk'" "allocs h' blk' = a(p := None)" "pgtab h' = pgtab h"
    by blast
  with v show ?thesis unfolding hm_rel_def kunmap_def by (metis bind.bind_lunit)
qed


subsection \<open>Starting up\<close>

lemma init_high_map_fields:
  "bflags (init_high_map b h) = bflags h" "bbase (init_high_map b h) = bbase h"
  "bend (init_high_map b h) = bend h" "bareas (init_high_map b h) = bareas h"
  "pgtab (init_high_map b h) = pgtab h"
  "hentry (init_high_map b h) q = (if bbase h \<le> q \<and> q < bend h then b + (q - bbase h) else hentry h q)"
proof -
  have f: "bflags (fold (\<lambda>iter h. h\<lparr>hentry := (hentry h)(iter := b + (iter - bbase h))\<rparr>) is h) = bflags h \<and>
    bbase (fold (\<lambda>iter h. h\<lparr>hentry := (hentry h)(iter := b + (iter - bbase h))\<rparr>) is h) = bbase h \<and>
    bend (fold (\<lambda>iter h. h\<lparr>hentry := (hentry h)(iter := b + (iter - bbase h))\<rparr>) is h) = bend h \<and>
    bareas (fold (\<lambda>iter h. h\<lparr>hentry := (hentry h)(iter := b + (iter - bbase h))\<rparr>) is h) = bareas h \<and>
    pgtab (fold (\<lambda>iter h. h\<lparr>hentry := (hentry h)(iter := b + (iter - bbase h))\<rparr>) is h) = pgtab h \<and>
    hentry (fold (\<lambda>iter h. h\<lparr>hentry := (hentry h)(iter := b + (iter - bbase h))\<rparr>) is h) q =
      (if q \<in> set is then b + (q - bbase h) else hentry h q)" for "is"
    by (induction "is" arbitrary: h) auto
  show "bflags (init_high_map b h) = bflags h" "bbase (init_high_map b h) = bbase h"
    "bend (init_high_map b h) = bend h" "bareas (init_high_map b h) = bareas h"
    "pgtab (init_high_map b h) = pgtab h"
    "hentry (init_high_map b h) q = (if bbase h \<le> q \<and> q < bend h then b + (q - bbase h) else hentry h q)"
    using f [of "[bbase h..<bend h]"] by (simp_all add: init_high_map_def)
qed

lemma init_high_area_fields:
  "bflags (init_high_area h) = bflags h" "bbase (init_high_area h) = bbase h"
  "bend (init_high_area h) = bend h"
  "k \<le> MAX_ORDER \<Longrightarrow> bareas (init_high_area h) k = \<lparr>fa_list = [], fa_size = 0\<rparr>"
proof -
  have "init_high_area = fold (\<lambda>i h. init_free_area h i) [0..<MAX_ORDER + 1]"
    by (simp add: fun_eq_iff init_high_area_def init_free_area_def)
  then show "bflags (init_high_area h) = bflags h" "bbase (init_high_area h) = bbase h"
    "bend (init_high_area h) = bend h"
    "k \<le> MAX_ORDER \<Longrightarrow> bareas (init_high_area h) k = \<lparr>fa_list = [], fa_size = 0\<rparr>"
    using fold_init_free_area [of "[0..<MAX_ORDER + 1]" h] by (simp_all del: upt_Suc)
qed

lemma build_buddy_system_inv:
  assumes "bbase h \<le> bend h" "bend h - bbase h \<le> 32768" "bflags h = (\<lambda>_. 0)"
  shows "\<exists>h'. build_buddy_system (init_high_map b (init_high_area h)) = Some h' \<and> hm_rel h' Map.empty"
proof -
  let ?h = "init_high_map b (init_high_area h)"
  note F = init_high_map_fields [of b "init_high_area h"] init_high_area_fields [where h = h]
  have fl: "\<not> mmap_test_private ?h p \<and> \<not> mmap_test_used ?h p" for p
    using assms(3) F(1,7) by (simp add: mmap_test_private_def mmap_test_used_def)
  have bb: "bbase ?h = bbase h" "bend ?h = bend h" using F by simp_all
  show ?thesis
  proof (rule build_loop_inv [of ?h])
    show "bbase ?h \<le> bend ?h" "bend ?h - bbase ?h < 2 ^ 20" using assms bb by simp_all
    show "\<not> mmap_test_private ?h p \<and> \<not> mmap_test_used ?h p" for p by (rule fl)
    show "bareas ?h k = \<lparr>fa_list = [], fa_size = 0\<rparr>" if "k \<le> MAX_ORDER" for k
      using F that by simp
    fix h' blk
    assume z: "build_loop ?h (bbase ?h) (of_nat (bend ?h - bbase ?h) * PAGE_SIZE) = Some h'"
      "buddy_inv h' blk {}" "coalesced h' blk {}" "allocs h' blk = Map.empty"
      "bbase h' = bbase ?h" "bend h' = bend ?h"
    note e = more_entries [OF build_loop_more [OF z(1)]]
    have "inj_on (hentry h') {bbase h..<bend h}"
      unfolding e(1) inj_on_def F(6) using F(8,9) by auto
    then have "hm_inv h' blk" using z(2,3,5,6) bb assms(1,2) by (simp add: hm_inv_def)
    then have "hm_rel h' Map.empty" unfolding hm_rel_def using z(4) by metis
    then show ?thesis using z(1) by (simp only: build_buddy_system_def high_build_loop_eq) blast
  qed
qed

end
