(* ===== verification/Mm_Props.thy ===== *)
theory Mm_Props
  imports Zone_Region Highmem Kmalloc
begin

text \<open>
  The properties of the memory management and, for each with hypotheses, an instance on a
  small concrete state: one normal zone of 512 pages in two free blocks (\<open>ex_mm\<close>), and a
  window of 512 slots (\<open>ex_hm\<close>).
\<close>

subsection \<open>Concrete states\<close>

definition ex_area :: "nat \<Rightarrow> free_area" where
  "ex_area k = (if k = 8 then \<lparr>fa_list = [256, 0], fa_size = 2\<rparr> else \<lparr>fa_list = [], fa_size = 0\<rparr>)"

definition ex_flags :: "nat \<Rightarrow> u32" where
  "ex_flags p = (if p = 0 \<or> p = 256 then 1 else 0)"

definition ex_zone :: mem_zone where
  "ex_zone = \<lparr>bflags = ex_flags, bbase = 0, bend = 512, bareas = ex_area,
     base_addr = 0x1000000, zsize = 0x200000\<rparr>"

definition ex_mm :: mm where
  "ex_mm = \<lparr>zones = (\<lambda>_. ex_zone), fast_zone_entry = (\<lambda>t. if t = 1 then [0] else [])\<rparr>"

definition ex_hm :: highmem where
  "ex_hm = \<lparr>bflags = ex_flags, bbase = 0, bend = 512, bareas = ex_area,
     hentry = (\<lambda>q. q), pgtab = (\<lambda>_. Pgt 0)\<rparr>"

definition ex_blk :: "nat \<rightharpoonup> nat" where
  "ex_blk = [0 \<mapsto> 8, 256 \<mapsto> 8]"

lemma ex_fields [simp]:
  "bflags ex_zone = ex_flags" "bbase ex_zone = 0" "bend ex_zone = 512" "bareas ex_zone = ex_area"
  "bflags ex_hm = ex_flags" "bbase ex_hm = 0" "bend ex_hm = 512" "bareas ex_hm = ex_area"
  "zones ex_mm i = ex_zone" "hentry ex_hm q = q" "base_addr ex_zone = 0x1000000"
  by (simp_all add: ex_zone_def ex_hm_def ex_mm_def)

lemma ex_bits: "bit (ex_flags p) n \<longleftrightarrow> (p = 0 \<or> p = 256) \<and> n = 0"
  by (simp add: ex_flags_def bit_1_iff)

lemma ex_blk_Some: "ex_blk p = Some k \<longleftrightarrow> (p = 0 \<or> p = 256) \<and> k = 8"
  by (auto simp: ex_blk_def)

lemma ex_tiled: "tiled 0 512 ex_blk"
proof -
  have "block_fits 0 512 p k" if "ex_blk p = Some k" for p k
  proof -
    have "(256::nat) dvd 256" by simp
    then show ?thesis using that by (auto simp: ex_blk_Some block_fits_def MAX_ORDER_def)
  qed
  moreover have "separated ex_blk" by (auto simp: separated_def ex_blk_Some domIff)
  moreover have "covered ex_blk x" if "x < 512" for x
    using that by (cases "x < 256") (force simp: covered_def ex_blk_Some)+
  ultimately show ?thesis by (simp add: tiled_def)
qed

lemma ex_inv:
  assumes "bflags z = ex_flags" "bbase z = 0" "bend z = 512" "bareas z = ex_area"
  shows "buddy_inv z ex_blk {}" "coalesced z ex_blk {}" "allocs z ex_blk = Map.empty"
proof -
  have u: "\<not> mmap_test_used z p" "mmap_test_private z p \<longleftrightarrow> p = 0 \<or> p = 256" for p
    using assms(1) by (simp_all add: mmap_test_used_def mmap_test_private_def ex_bits
        MMAP_BITS_USED_def MMAP_BITS_PRIVATE_def)
  have f: "free_at z ex_blk {} k = (if k = 8 then {0, 256} else {})" for k
    by (auto simp: free_at_def u ex_blk_Some)
  have "heads_ok z ex_blk" by (auto simp: heads_ok_def u ex_blk_Some domIff ex_blk_def)
  moreover have "area_ok (ex_area k) (free_at z ex_blk {} k)" for k
    by (auto simp: f area_ok_def ex_area_def)
  ultimately show "buddy_inv z ex_blk {}" using ex_tiled by (simp add: buddy_inv_def assms(2,3,4))
  show "coalesced z ex_blk {}" by (auto simp: coalesced_def f MAX_ORDER_def)
  show "allocs z ex_blk = Map.empty" by (simp add: allocs_def u fun_eq_iff)
qed

lemma ex_chain: "set (fast_zone_entry ex_mm t) = (if t = 1 then {0} else {})"
  "zone_all_for_each ex_mm = [0]" "zone_for_each ex_mm 1 2 = [0]"
  by (simp_all add: ex_mm_def zone_all_for_each_def zone_for_each_def zone_consts eval_nat_numeral)

lemma ex_layout: "layout_ok ex_mm"
proof -
  have "zone_ok 1 ex_zone" by (simp add: zone_ok_def zone_consts ex_zone_def word_le_nat_alt)
  then show ?thesis by (simp add: layout_ok_def ex_chain)
qed

lemma ex_mm_rel: "mm_rel ex_mm Map.empty"
proof -
  note E = ex_inv [of ex_zone, simplified]
  have "mm_inv ex_mm (\<lambda>_. ex_blk)" using E ex_layout by (simp add: mm_inv_def ex_chain)
  moreover have "mm_allocs ex_mm (\<lambda>_. ex_blk) p = None" for p
    using E(3) by (simp add: mm_allocs_def split: option.splits)
  then have "Map.empty = mm_allocs ex_mm (\<lambda>_. ex_blk)" by auto
  ultimately show ?thesis unfolding mm_rel_def by blast
qed

lemma ex_hm_rel: "hm_rel ex_hm Map.empty"
proof -
  note E = ex_inv [of ex_hm, simplified]
  have "hm_inv ex_hm ex_blk" using E by (simp add: hm_inv_def inj_on_def)
  with E(3) show ?thesis unfolding hm_rel_def by metis
qed

subsection \<open>The buddy allocator\<close>

text \<open>C1: whatever sequence of requests a client makes of a zone type, freeing only blocks it
  holds, the page allocator never fails a \<open>BUG_ON\<close>, keeps its invariant, and never has two
  overlapping blocks out.\<close>

theorem page_alloc_serves:
  assumes "mm_rel m a" and "t < NR_ZONE_TYPES"
  shows "\<exists>m' a'. serve (\<lambda>m k. alloc_pages m t k) dealloc_pages m a rs = Some (m', a') \<and>
    mm_rel m' a' \<and> blocks_disjoint a'"
  using page_allocator.serve_rel [OF page_allocator_zone [OF assms(2)] assms(1), of rs]
    page_allocator.rel_disjoint [OF page_allocator_zone [OF assms(2)]] by blast

theorem page_alloc_serves_witness:
  "\<exists>m' a'. serve (\<lambda>m k. alloc_pages m 1 k) dealloc_pages ex_mm Map.empty
      [Alloc 0, Alloc 1, Free 0 0, Alloc 2] = Some (m', a') \<and> mm_rel m' a' \<and> blocks_disjoint a'"
  by (rule page_alloc_serves [OF ex_mm_rel]) (simp add: zone_consts)

text \<open>C3: \<open>alloc_pages\<close> either returns \<open>NULL\<close> and changes nothing, or hands out an aligned block
  of exactly the order asked for, inside one zone of the type, that overlaps no block already
  out, and changes the set of blocks handed out by that block only.\<close>

theorem alloc_pages_spec:
  assumes "mm_rel m a" and "t < NR_ZONE_TYPES" and "k \<le> MAX_ORDER"
  shows "alloc_pages m t k = Some (None, m) \<or>
    (\<exists>p m' i. alloc_pages m t k = Some (Some p, m') \<and> i \<in> set (fast_zone_entry m t) \<and>
       block_fits (bbase (zones m i)) (bend (zones m i)) p k \<and>
       (\<forall>q j. a q = Some j \<longrightarrow> {p..<p + 2 ^ k} \<inter> {q..<q + 2 ^ j} = {}) \<and> mm_rel m' (a(p \<mapsto> k)))"
  using mm_alloc_step [OF assms]
    page_allocator.alloc_fresh [OF page_allocator_zone [OF assms(2)] assms(1), of k] by blast

theorem alloc_pages_spec_witness:
  "alloc_pages ex_mm 1 1 = Some (None, ex_mm) \<or>
    (\<exists>p m' i. alloc_pages ex_mm 1 1 = Some (Some p, m') \<and> i \<in> set (fast_zone_entry ex_mm 1) \<and>
       block_fits (bbase (zones ex_mm i)) (bend (zones ex_mm i)) p 1 \<and>
       (\<forall>q j. None = Some j \<longrightarrow> {p..<p + 2 ^ 1} \<inter> {q..<q + 2 ^ j} = {}) \<and> mm_rel m' [p \<mapsto> 1])"
  using alloc_pages_spec [OF ex_mm_rel, of 1 1] by (simp add: zone_consts MAX_ORDER_def)

text \<open>C15: \<open>alloc_pages\<close> fails only for want of memory: whenever some zone of the type has an
  aligned run of \<open>2 ^ k\<close> pages none of which is handed out, it returns a block.  (Freed blocks
  are always merged as far as they can be.)\<close>

theorem alloc_pages_complete:
  assumes "mm_rel m a" and "t < NR_ZONE_TYPES" and "k \<le> MAX_ORDER" and "i \<in> set (fast_zone_entry m t)"
    and "bbase (zones m i) \<le> q" and "q + 2 ^ k \<le> bend (zones m i)" and "2 ^ k dvd (q - bbase (zones m i))"
    and "\<And>p j. a p = Some j \<Longrightarrow> p + 2 ^ j \<le> q \<or> q + 2 ^ k \<le> p"
  shows "\<exists>p m'. alloc_pages m t k = Some (Some p, m')"
  by (rule mm_alloc_complete [OF assms])

theorem alloc_pages_complete_witness: "\<exists>p m'. alloc_pages ex_mm 1 2 = Some (Some p, m')"
  by (rule alloc_pages_complete [OF ex_mm_rel, of 1 2 0 0])
    (simp_all add: zone_consts MAX_ORDER_def ex_chain)

text \<open>\<open>dealloc_pages\<close> of a block that is out never fails a \<open>BUG_ON\<close> and takes exactly that
  block out of the set of blocks handed out.\<close>

theorem dealloc_pages_spec:
  assumes "mm_rel m a" and "a p = Some k"
  shows "\<exists>m'. dealloc_pages m p k = Some m' \<and> mm_rel m' (a(p := None))"
  using mm_dealloc_step [OF assms] by blast

theorem dealloc_pages_spec_witness:
  "\<exists>p m1 m2. alloc_pages ex_mm 1 0 = Some (Some p, m1) \<and> dealloc_pages m1 p 0 = Some m2 \<and>
     mm_rel m2 ([p \<mapsto> 0](p := None))"
proof -
  from mm_alloc_complete [OF ex_mm_rel, of 1 0 0 0] obtain p m1 where
    p: "alloc_pages ex_mm 1 0 = Some (Some p, m1)"
    by (auto simp: zone_consts MAX_ORDER_def ex_chain)
  from normal.alloc_some [OF ex_mm_rel] p have "mm_rel m1 [p \<mapsto> 0]" by (simp add: zone_consts)
  from dealloc_pages_spec [OF this, of p 0] p show ?thesis by auto
qed


subsection \<open>Addresses and regions\<close>

text \<open>the translations between pages and physical addresses invert each other: every page
  of a zone has an address that leads back to it, and an address that lies in a zone leads to
  the page whose address is its page frame.\<close>

theorem phys_page_round_trip:
  assumes "layout_ok m" and "i \<in> set (zone_all_for_each m)"
    and "bbase (zones m i) \<le> p" and "p < bend (zones m i)"
  shows "(\<exists>a. page_to_phys m p = Some a \<and> phys_to_page m a = Some p \<and> phys_to_zone m a = Some i \<and>
      page_offset a = 0) \<and>
    (\<forall>b q. phys_to_page m b = Some q \<longrightarrow> page_to_phys m q = Some (PAGE_FLOOR b))"
  using page_phys [OF assms] phys_to_page_inverse [OF assms(1)] page_offset_zero_iff by metis+

theorem phys_page_round_trip_witness:
  "\<exists>a. page_to_phys ex_mm 7 = Some a \<and> phys_to_page ex_mm a = Some 7 \<and> phys_to_zone ex_mm a = Some 0 \<and>
    page_offset a = 0"
  by (rule conjunct1 [OF phys_page_round_trip [OF ex_layout, of 0 7]]) (simp_all add: ex_chain)

text \<open>\<open>alloc_region\<close> of a run of free pages marks exactly these pages as handed out, one by
  one, and gives everything else it took back, provided the block that holds the end of the
  run does not end with the zone.\<close>

theorem alloc_region_exact:
  assumes "mm_rel m a" and "i \<in> set (zone_all_for_each m)"
    and "bbase (zones m i) \<le> B" and "B \<le> E"
    and "\<And>p k. a p = Some k \<Longrightarrow> p + 2 ^ k \<le> B \<or> B + max 1 (E - B) \<le> p"
    and "(max B (E - 1) - bbase (zones m i)) div 2 ^ MAX_ORDER * 2 ^ MAX_ORDER + 2 ^ MAX_ORDER
        < bend (zones m i) - bbase (zones m i)"
  shows "\<exists>m'. alloc_region m (zaddr (zones m i) B) (zaddr (zones m i) E) = Some m' \<and>
    mm_rel m' (\<lambda>q. if B \<le> q \<and> q < E then Some 0 else a q)"
  by (rule alloc_region_inv [OF assms])

theorem alloc_region_exact_witness:
  "\<exists>m'. alloc_region ex_mm (zaddr (zones ex_mm 0) 3) (zaddr (zones ex_mm 0) 10) = Some m' \<and>
    mm_rel m' (\<lambda>q. if 3 \<le> q \<and> q < 10 then Some 0 else None)"
  by (rule alloc_region_exact [OF ex_mm_rel]) (simp_all add: ex_chain MAX_ORDER_def)

text \<open>\<open>page_alloc_init\<close> on zones whose page flags are clear succeeds and leaves the allocator
  with nothing handed out but the pages of the kernel image.\<close>

theorem page_alloc_init_spec:
  assumes "layout_ok m" and "\<And>i. i \<in> set (zone_all_for_each m) \<Longrightarrow> zone_clear (zones m i)"
    and "i \<in> set (zone_all_for_each m)" and "bbase (zones m i) \<le> B" and "B \<le> E"
    and "(max B (E - 1) - bbase (zones m i)) div 2 ^ MAX_ORDER * 2 ^ MAX_ORDER + 2 ^ MAX_ORDER
        < bend (zones m i) - bbase (zones m i)"
    and "PAGE_FLOOR (pa load) = zaddr (zones m i) B" and "PAGE_CEIL (pa pgt_end) = zaddr (zones m i) E"
  shows "\<exists>m'. page_alloc_init m load pgt_end = Some m' \<and>
    mm_rel m' (\<lambda>q. if B \<le> q \<and> q < E then Some 0 else None)"
  by (rule page_alloc_init_inv [OF assms])

definition ex_boot :: mm where
  "ex_boot = ex_mm\<lparr>zones := (\<lambda>_. ex_zone\<lparr>bflags := (\<lambda>_. 0)\<rparr>)\<rparr>"

theorem page_alloc_init_spec_witness:
  "\<exists>m'. page_alloc_init ex_boot 0xC1000123 0xC1004567 = Some m' \<and>
    mm_rel m' (\<lambda>q. if 0 \<le> q \<and> q < 5 then Some 0 else None)"
proof (rule page_alloc_init_spec [of ex_boot 0 0 5])
  have c: "zone_all_for_each ex_boot = [0]" "\<And>t. fast_zone_entry ex_boot t = fast_zone_entry ex_mm t"
    using ex_chain(2) by (simp_all add: ex_boot_def zone_all_for_each_def zone_for_each_def)
  have "zone_ok 1 (ex_zone\<lparr>bflags := (\<lambda>_. 0)\<rparr>)" by (simp add: zone_ok_def zone_consts ex_zone_def word_le_nat_alt)
  then show "layout_ok ex_boot" by (simp add: layout_ok_def c ex_chain(1)) (simp add: ex_boot_def)
  show "0 \<in> set (zone_all_for_each ex_boot)" by (simp add: c)
  show "zone_clear (zones ex_boot i)" for i
    by (simp add: ex_boot_def zone_clear_def mmap_test_private_def mmap_test_used_def)
qed (simp_all add: ex_boot_def MAX_ORDER_def zaddr_def ex_zone_def page_ops page_consts)

subsection \<open>The window for high memory\<close>

text \<open>\<open>kmap\<close> either returns \<open>NULL\<close> and changes nothing, or an address in the window whose
  slots map exactly the frames of the block of pages, with every mapping that was live before
  unchanged.\<close>

theorem kmap_spec:
  assumes "hm_rel h a" and "page_to_phys m page = Some phys"
  shows "kmap m h page k = Some (None, h) \<or>
    (\<exists>v h' p. kmap m h page k = Some (Some v, h') \<and> virt_to_hmap h' v = Some p \<and> a p = None \<and>
       hm_rel h' (a(p \<mapsto> k)) \<and> window_maps h' p (2 ^ k) phys \<and>
       (\<forall>q j phys'. a q = Some j \<longrightarrow> window_maps h q (2 ^ j) phys' \<longrightarrow> window_maps h' q (2 ^ j) phys'))"
  using map_into_inv [OF assms(1), of k phys] unfolding kmap_into [OF assms(2)] by blast

lemma ex_phys: "page_to_phys ex_mm 7 = Some 0x1007000"
proof -
  have "page_to_zone ex_mm 7 = Some 0" by (simp add: page_to_zone_def ex_chain)
  then show ?thesis by (simp add: page_to_phys_def PAGE_SIZE_val)
qed

theorem kmap_spec_witness:
  "kmap ex_mm ex_hm 7 2 = Some (None, ex_hm) \<or>
    (\<exists>v h' p. kmap ex_mm ex_hm 7 2 = Some (Some v, h') \<and> virt_to_hmap h' v = Some p \<and>
       hm_rel h' [p \<mapsto> 2] \<and> window_maps h' p (2 ^ 2) 0x1007000)"
  using kmap_spec [OF ex_hm_rel ex_phys, of 2] by blast

text \<open>\<open>ioremap\<close> of a page-aligned address maps a run of frames that covers the size asked
  for, and \<open>iounmap\<close> of the returned address with the same size undoes the allocation.\<close>

theorem ioremap_iounmap:
  assumes "hm_rel h a" and "page_offset addr = 0" and "sz \<noteq> 0"
    and "ioremap h addr sz = Some (Some v, h')"
  shows "\<exists>p k. k = nat (get_order sz) \<and> virt_to_hmap h' v = Some p \<and> window_maps h' p (2 ^ k) addr \<and>
      unat sz \<le> 4096 * 2 ^ k \<and> (\<exists>h''. iounmap h' v sz = Some h'' \<and> hm_rel h'' a)"
proof -
  have al: "PAGE_ALIGN addr = addr"
  proof -
    have "PAGE_ALIGN addr = PAGE_FLOOR (addr + 4095)" by (simp add: page_ops PAGE_SIZE_val add.commute)
    moreover have d: "4096 dvd unat addr" using assms(2) by (simp add: page_offset_dvd)
    have "unat (addr + 4095) = unat addr + 4095"
      using page_top [OF d] by (simp add: unat_word_ariths)
    then have "unat (PAGE_FLOOR (addr + 4095)) = unat addr"
      using d by (auto simp: unat_PAGE_FLOOR elim!: dvdE)
    ultimately show ?thesis by (simp add: word_unat_eq_iff)
  qed
  let ?k = "nat (get_order sz)"
  from map_into_inv [OF assms(1), of ?k addr] assms(4) ioremap_into [OF al, of h sz] obtain p where
    p: "virt_to_hmap h' v = Some p" "a p = None" "hm_rel h' (a(p \<mapsto> ?k))" "window_maps h' p (2 ^ ?k) addr"
    by auto
  have "(a(p \<mapsto> ?k))(p := None) = a" using p(2) by auto
  with kunmap_inv [OF p(3,1), of ?k] have "\<exists>h''. iounmap h' v sz = Some h'' \<and> hm_rel h'' a"
    by (auto simp: iounmap_def)
  moreover have "unat sz \<le> 4096 * 2 ^ ?k" using get_order_nat(1,2) [OF assms(3) refl] by simp
  ultimately show ?thesis using p by blast
qed


lemma ex_hm_alloc:
  assumes "k \<le> MAX_ORDER"
  shows "\<exists>p h'. alloc_high_map ex_hm k = Some (Some p, h')"
proof -
  note E = ex_inv [of ex_hm, simplified]
  have "(2::nat) ^ k \<le> 2 ^ 8" using assms by (intro power_increasing) (simp_all add: MAX_ORDER_def)
  then have "run_free ex_hm ex_blk 0 (2 ^ k)" using E(3) by (simp add: run_free_def)
  from alloc_search_complete [OF E(1,2) assms _ this] show ?thesis
    using assms high_search_eq [OF E(1), of k k] by (simp add: alloc_high_map_def)
qed

theorem ioremap_iounmap_witness:
  "\<exists>v h' p. ioremap ex_hm 0xFEC00000 0x1800 = Some (Some v, h') \<and> virt_to_hmap h' v = Some p \<and>
    window_maps h' p 2 0xFEC00000 \<and> (\<exists>h''. iounmap h' v 0x1800 = Some h'' \<and> hm_rel h'' Map.empty)"
proof -
  have al: "page_offset 0xFEC00000 = 0" "PAGE_ALIGN 0xFEC00000 = 0xFEC00000"
    by (simp_all add: page_ops page_consts)
  have o: "nat (get_order 0x1800) = 1" by (simp add: get_order_eq bitlen_step)
  have "ioremap ex_hm 0xFEC00000 0x1800 \<noteq> Some (None, ex_hm)"
    using ex_hm_alloc [of 1] by (auto simp: ioremap_def o al(2) MAX_ORDER_def Let_def split: bind_splits)
  then obtain v h' where i: "ioremap ex_hm 0xFEC00000 0x1800 = Some (Some v, h')"
    using map_into_inv [OF ex_hm_rel, of 1 "0xFEC00000"] ioremap_into [OF al(2), of ex_hm "0x1800"] o by auto
  from ioremap_iounmap [OF ex_hm_rel al(1) _ i] show ?thesis using i o by auto
qed

subsection \<open>Objects\<close>


definition ex_kmem :: kmem where
  "ex_kmem = \<lparr>kpages = (\<lambda>_. \<lparr>kindex = 0, used_list = [], free_list = []\<rparr>), page_list = (\<lambda>_. [])\<rparr>"

lemma ex_kmem_ok: "kmem_ok ex_kmem {}" "mm_owns ex_mm {}" "live ex_kmem {} = {}"
  using ex_mm_rel by (auto simp: kmem_ok_def ex_kmem_def mm_owns_def live_def)


text \<open>\<open>kfree\<close> of a live object never fails, makes exactly that object not live, and keeps the
  invariant (a page whose last object goes is given back).\<close>

theorem kfree_spec:
  assumes "kmem_ok k A" and "mm_owns m A" and "(ad, i) \<in> live k A"
  shows "\<exists>k' m' A'. kfree kput k m ad = Some (k', m') \<and> kmem_ok k' A' \<and> mm_owns m' A' \<and>
    live k' A' = live k A - {(ad, i)}"
  by (rule kpages.kfree_inv [OF assms])

theorem kfree_spec_witness:
  "\<exists>ad k1 m1 k2 m2 A2. kmalloc kget ex_kmem ex_mm 100 = Some (Some ad, k1, m1) \<and>
    kfree kput k1 m1 ad = Some (k2, m2) \<and> kmem_ok k2 A2 \<and> live k2 A2 = {}"
proof -
  have i: "kmalloc_index 100 = int 3" by (simp add: kmalloc_index_eq bitlen_step)
  have "\<exists>p m'. alloc_pages ex_mm ZONE_NORMAL 0 = Some (Some p, m')"
    by (rule mm_alloc_complete [OF ex_mm_rel, of _ _ 0 0]) (simp_all add: zone_consts MAX_ORDER_def ex_chain)
  then have "kget ex_mm \<noteq> Some (None, ex_mm)" by (auto simp: kget_alloc split: bind_splits)
  then have "kmalloc kget ex_kmem ex_mm 100 \<noteq> Some (None, ex_kmem, ex_mm)"
    using kget_step [OF ex_mm_rel]
    by (auto simp: kmalloc_def i kmalloc_page_def ex_kmem_def Let_def bug_on_def split: list.splits)
  with kpages.kmalloc_inv [OF ex_kmem_ok(1,2) i] ex_kmem_ok(3) obtain ad k1 m1 A1 where
    1: "kmalloc kget ex_kmem ex_mm 100 = Some (Some ad, k1, m1)" "kmem_ok k1 A1" "mm_owns m1 A1"
      "live k1 A1 = {(ad, 3)}" by auto
  from kfree_spec [OF 1(2,3), of ad 3] 1(1,4) show ?thesis by auto
qed

text \<open>the size class of a request holds the request, for every size that is not a multiple
  of 16 and every power of two from 16 on; the classes go up to 512 bytes.\<close>

theorem kmalloc_index_sufficient:
  assumes "kmalloc_index sz = int i" and "\<not> 16 dvd unat sz \<or> (\<exists>j. unat sz = 16 * 2 ^ j)"
  shows "unat sz \<le> 2 ^ (i + KMALLOC_SHIFT) \<and> i \<le> KMALLOC_MAX_ORDER"
  using kmalloc_index_fits [OF assms] by blast

theorem kmalloc_index_sufficient_witness: "unat (100 :: u32) \<le> 2 ^ (3 + KMALLOC_SHIFT)"
proof -
  have "kmalloc_index 100 = int 3" by (simp add: kmalloc_index_eq bitlen_step)
  from kmalloc_index_sufficient [OF this] show ?thesis by simp
qed

text \<open>for the other multiples of 16 the class is too small: a request of 48 bytes gets an
  object of 32, and the class is too small for every multiple of 16 between two powers of two.\<close>

theorem kmalloc_index_too_small:
  "kmalloc_index 48 = 1 \<and>
   (\<forall>(sz :: u32) i j. unat sz = 16 * j \<longrightarrow> 2 ^ i < j \<longrightarrow> j < 2 ^ Suc i \<longrightarrow> i \<le> 5 \<longrightarrow>
      kmalloc_index sz = int i \<and> 2 ^ (i + KMALLOC_SHIFT) < unat sz)"
proof (intro conjI allI impI)
  show "kmalloc_index 48 = 1" by (simp add: kmalloc_index_eq bitlen_step)
  fix sz :: u32 and i j :: nat assume j: "unat sz = 16 * j" "2 ^ i < j" "j < 2 ^ Suc i" "i \<le> 5"
  have "j \<noteq> 0" using j(2) by simp
  from bitlen_lower [OF this] bitlen_upper [of j] j(2,3)
  have "(2::nat) ^ (bitlen j - 1) < 2 ^ Suc i" "(2::nat) ^ i < 2 ^ bitlen j" by linarith+
  then have "bitlen j - 1 < Suc i" "i < bitlen j" by (simp_all only: power_strict_increasing_iff)
  then have "bitlen j = Suc i" by linarith
  then show "kmalloc_index sz = int i" using j(1,4) by (simp add: kmalloc_index_eq)
  show "2 ^ (i + KMALLOC_SHIFT) < unat sz" using j(1,2) by (simp add: KMALLOC_SHIFT_def power_add)
qed

theorem kmalloc_index_too_small_witness:
  "kmalloc_index 96 = int 2 \<and> 2 ^ (2 + KMALLOC_SHIFT) < unat (96 :: u32)"
proof -
  have "unat (96 :: u32) = 16 * 6" "2 ^ 2 < (6 :: nat)" "6 < (2::nat) ^ Suc 2" "2 \<le> (5::nat)" by simp_all
  then show ?thesis using kmalloc_index_too_small by blast
qed

text \<open>\<open>get_order\<close> is the least order whose block holds the size, \<open>get_order_floor\<close> the
  greatest whose block fits into it.\<close>

theorem get_order_bounds:
  assumes "4096 \<le> unat sz"
  shows "(\<forall>k. unat sz \<le> 4096 * 2 ^ k \<longleftrightarrow> nat (get_order sz) \<le> k) \<and>
    (\<forall>k. 4096 * 2 ^ k \<le> unat sz \<longleftrightarrow> k \<le> nat (get_order_floor sz))"
proof (intro conjI allI)
  fix k
  have "sz \<noteq> 0" using assms by auto
  note o = get_order_nat [OF this refl]
  show "unat sz \<le> 4096 * 2 ^ k \<longleftrightarrow> nat (get_order sz) \<le> k"
  proof
    assume "unat sz \<le> 4096 * 2 ^ k"
    then have "\<not> k < bitlen ((unat sz - 1) div 4096)" using o(3) [of k] by linarith
    then show "nat (get_order sz) \<le> k" using o(1) by simp
  next
    assume "nat (get_order sz) \<le> k"
    then have "(2::nat) ^ bitlen ((unat sz - 1) div 4096) \<le> 2 ^ k" using o(1) by (intro power_increasing) simp_all
    then show "unat sz \<le> 4096 * 2 ^ k" using o(2) by linarith
  qed
  note f = get_order_floor_nat [OF assms refl]
  show "4096 * 2 ^ k \<le> unat sz \<longleftrightarrow> k \<le> nat (get_order_floor sz)"
  proof
    assume "4096 * 2 ^ k \<le> unat sz"
    then have "(2::nat) ^ k < 2 ^ Suc (bitlen (unat sz div 4096 div 2))" using f(3) by linarith
    then have "k < Suc (bitlen (unat sz div 4096 div 2))" by (simp only: power_strict_increasing_iff)
    then show "k \<le> nat (get_order_floor sz)" using f(1) by simp
  next
    assume "k \<le> nat (get_order_floor sz)"
    then have "(2::nat) ^ k \<le> 2 ^ bitlen (unat sz div 4096 div 2)" using f(1) by (intro power_increasing) simp_all
    then show "4096 * 2 ^ k \<le> unat sz" using f(2) by linarith
  qed
qed

theorem get_order_bounds_witness: "unat (0x1800 :: u32) \<le> 4096 * 2 ^ 1 \<longleftrightarrow> nat (get_order 0x1800) \<le> 1"
proof -
  have "4096 \<le> unat (0x1800 :: u32)" by simp
  from get_order_bounds [OF this] show ?thesis by blast
qed

end
