(* ===== verification/Sched_Props.thy ===== *)
theory Sched_Props
  imports Semaphore
begin

text \<open>
  The properties of the scheduler and of semaphores, with their witnesses on a machine of three
  tasks.
\<close>

subsection \<open>A machine of three tasks\<close>

definition ex_task :: "u32 \<Rightarrow> task" where
  "ex_task p = \<lparr>tstate = TASK_RUNNABLE, pid = p, cmd = [], tflags = TASK_KTHREAD, tsignal = 0, sig_mask = 0,
     sig_fn = (\<lambda>_. None), sig_restorer = SIG_RESTORER_NULL, exit_code = 0, time_slice = 10,
     chld_active = [], chld_zombie = [], parent = None, fdt = (\<lambda>_. None), root = None, pwd = None,
     page_dir = 0, tcontext = \<lparr>ctx_esp = 0, ctx_eip = 0\<rparr>\<rparr>"

definition ex_sched :: sem_sched where
  "ex_sched = \<lparr>tasks = ex_task, current = 1, run_list = [1, 2, 3], ready_list = [], queues = (\<lambda>_. []),
     task_list = [3, 2, 1], pid_lists = (\<lambda>_. []), pid_start = 1, counts = (\<lambda>_. 0)\<rparr>"

lemma ex_sched_ok: "sched_ok ex_sched" "fresh_slices ex_sched"
  by (auto simp: sched_ok_def sched_core_def linked_def ex_sched_def ex_task_def fresh_slices_def)

subsection \<open>The scheduler\<close>

text \<open>C7: Every operation of the scheduler keeps every task in exactly one place, with a state that
  fits the place, and the current task on \<open>run_list\<close>.  \<open>schedule\<close> and the clock tick always find a
  task; \<open>wait\<close> fails its \<open>BUG_ON\<close> exactly when the waiting task was the only one that could run.\<close>

theorem scheduler_invariant:
  assumes "sched_ok s"
  shows "(\<exists>s'. schedule s = Some s' \<and> sched_ok s' \<and> current s' = hd (run_list s')) \<and>
    (\<exists>s'. sched_tick s = Some s' \<and> sched_ok s') \<and>
    sched_ok (wake_up q s) \<and> sched_ok (wake_up_all q s) \<and>
    (wait q s = None \<longleftrightarrow> run_list s = [current s] \<and> ready_list s = []) \<and>
    (\<forall>s'. wait q s = Some s' \<longrightarrow> sched_ok s' \<and> queues s' q = current s # queues s q \<and> current s' \<noteq> current s)"
proof -
  have core: "sched_core {} s" using assms by (simp add: sched_ok_def)
  have "sched_ok (wake_up q s)" using wake_up_core [OF core, of q] assms by (auto simp: sched_ok_def)
  moreover have "sched_ok (wake_up_all q s)" using wake_up_all_core [OF core, of q] assms by (auto simp: sched_ok_def)
  ultimately show ?thesis
    using schedule_ok [OF assms] sched_tick_ok [OF assms] wait_ok(1) [OF assms, of q] wait_ok(2) [OF assms, of q] by blast
qed

theorem scheduler_invariant_witness:
  "\<exists>s'. wait (Wait_queue 0) ex_sched = Some s' \<and> sched_ok s' \<and> queues s' (Wait_queue 0) = [1] \<and> current s' \<noteq> 1"
proof -
  have n: "wait (Wait_queue 0) ex_sched \<noteq> None"
    using scheduler_invariant [OF ex_sched_ok(1), of "Wait_queue 0"] by (auto simp: ex_sched_def)
  have "queues ex_sched (Wait_queue 0) = []" "current ex_sched = 1" by (simp_all add: ex_sched_def)
  with n show ?thesis using scheduler_invariant [OF ex_sched_ok(1), of "Wait_queue 0"] by auto
qed

text \<open>C31: Under clock ticks alone the tasks of \<open>run_list\<close> run one after the other, each for its whole
  slice of ten ticks, and after that all of them are on \<open>run_list\<close> again with fresh slices (in
  the opposite order): none starves.\<close>

theorem time_slices_fair:
  assumes "sched_ok s" and "current s = hd (run_list s)" and "fresh_slices s"
  shows "running (10 * length (run_list s)) s = concat (map (replicate 10) (run_list s)) \<and>
    (\<exists>s'. ticks (10 * length (run_list s)) s = Some s' \<and> sched_ok s' \<and> fresh_slices s' \<and>
       run_list s' = rev (run_list s) @ ready_list s \<and> ready_list s' = [] \<and> current s' = hd (run_list s'))"
  using epoch_run [OF assms] by blast

theorem time_slices_fair_witness:
  "running 30 ex_sched = replicate 10 1 @ replicate 10 2 @ replicate 10 3 \<and>
    (\<exists>s'. ticks 30 ex_sched = Some s' \<and> run_list s' = [3, 2, 1])"
proof -
  have r: "run_list ex_sched = [1, 2, 3]" "ready_list ex_sched = []" "current ex_sched = hd (run_list ex_sched)"
    by (simp_all add: ex_sched_def)
  show ?thesis using time_slices_fair [OF ex_sched_ok(1) r(3) ex_sched_ok(2)] unfolding r by auto
qed

text \<open>C36: With fewer than \<open>2 ^ 32\<close> tasks the search for an identifier ends, and the identifier it
  returns belongs to no task.\<close>

theorem find_usable_pid_total:
  assumes "length (task_list s) < 2 ^ 32"
  shows "\<exists>p s'. find_usable_pid s = Some (p, s') \<and> (\<forall>t\<in>set (task_list s). pid (tasks s t) \<noteq> p)"
proof -
  obtain p where "find_pid (map (\<lambda>t. pid (tasks s t)) (task_list s)) (pid_start s) = Some p"
    "p \<notin> set (map (\<lambda>t. pid (tasks s t)) (task_list s))"
    using find_pid_total [of "map (\<lambda>t. pid (tasks s t)) (task_list s)" "pid_start s"] assms by auto
  then show ?thesis by (auto simp: find_usable_pid_def)
qed

theorem find_usable_pid_total_witness:
  "\<exists>p s'. find_usable_pid ex_sched = Some (p, s') \<and> p \<noteq> 1 \<and> p \<noteq> 2 \<and> p \<noteq> 3"
  using find_usable_pid_total [of ex_sched] by (auto simp: ex_sched_def ex_task_def)

subsection \<open>Semaphores\<close>

text \<open>C4: From a state where nobody has used the semaphore, whatever the interleaving: at most one
  task is past \<open>down\<close>, a task waits only while another is past it (no wake-up is lost), and the
  counter is the number of tasks that hold it or wait.\<close>

theorem semaphore_mutex:
  assumes "sem_reach i (s0, {}) (s, H)" and "sched_ok s0" and "length (task_list s0) < 2 ^ 32 - 1"
    and "counts s0 i = 0" and "queues s0 (Wait_queue i) = []"
  shows "(\<forall>t\<in>H. \<forall>u\<in>H. t = u) \<and> (queues s (Wait_queue i) \<noteq> [] \<longrightarrow> H \<noteq> {}) \<and>
    counts s i = of_nat (card H + length (queues s (Wait_queue i)))"
  using sem_inv_reach [OF assms(1)] assms(2-5) by (auto simp: sem_inv_def)

lemma sched_ok_counts: "sched_ok (s\<lparr>counts := c\<rparr>) = sched_ok s"
  by (simp add: sched_ok_def sched_core_def linked_def)

lemma ex_sem_run:
  "\<exists>s. sem_reach 0 (ex_sched, {}) (s, {1}) \<and> queues s (Wait_queue 0) = [2]"
proof -
  let ?s1 = "ex_sched\<lparr>counts := (counts ex_sched)(0 := 1)\<rparr>"
  have d1: "down 0 ex_sched = Some ?s1" by (simp add: down_def Let_def) (simp add: ex_sched_def)
  have "sem_step 0 (ex_sched, {}) (?s1, {1})"
    using sem_step.enter [OF _ d1, of "{}"] by (simp add: ex_sched_def)
  then have r1: "sem_reach 0 (ex_sched, {}) (?s1, {1})" by (rule sem_reach.step [OF sem_reach.start])
  obtain s2 where w: "wait (Wait_queue 5) ?s1 = Some s2" "current s2 = 2" "run_list s2 = [2, 3]"
    by (simp add: wait_def schedule_def retire_def refill_def del_run_def upd_task_def ex_sched_def ex_task_def Let_def)
  have ok1: "sched_ok ?s1" unfolding sched_ok_counts by (rule ex_sched_ok(1))
  note W = wait_ok(2) [OF ok1 w(1)]
  have c2: "counts s2 0 = 1" using counts_wait [OF w(1)] by simp
  have q2: "queues s2 (Wait_queue 0) = []" using W by (simp add: ex_sched_def)
  have "sem_step 0 (?s1, {1}) (s2, {1})" by (rule sem_step.block [OF _ w(1)]) simp
  then have r2: "sem_reach 0 (ex_sched, {}) (s2, {1})" by (rule sem_reach.step [OF r1])
  let ?s3 = "s2\<lparr>counts := (counts s2)(0 := counts s2 0 + 1)\<rparr>"
  have ok3: "sched_ok ?s3" unfolding sched_ok_counts using W by blast
  have "\<not> (run_list ?s3 = [current ?s3] \<and> ready_list ?s3 = [])"
    using w(3) by simp
  then obtain s3 where s3: "wait (Wait_queue 0) ?s3 = Some s3" using wait_ok(1) [OF ok3, of "Wait_queue 0"] by auto
  have d: "down 0 s2 = Some s3" using s3 c2 by (simp add: down_def Let_def)
  have "sem_step 0 (s2, {1}) (s3, {1})" using sem_step.enter [OF _ d, of "{1}"] w(2) c2 by simp
  then have "sem_reach 0 (ex_sched, {}) (s3, {1})" by (rule sem_reach.step [OF r2])
  moreover have "queues s3 (Wait_queue 0) = [2]" using wait_ok(2) [OF ok3 s3] w(2) q2 by simp
  ultimately show ?thesis by blast
qed

theorem semaphore_mutex_witness:
  "\<exists>s. sem_reach 0 (ex_sched, {}) (s, {1}) \<and> queues s (Wait_queue 0) = [2] \<and> counts s 0 = 2"
proof -
  obtain s where s: "sem_reach 0 (ex_sched, {}) (s, {1})" "queues s (Wait_queue 0) = [2]" using ex_sem_run by blast
  have "counts s 0 = of_nat (card {1 :: tid} + length (queues s (Wait_queue 0)))"
    using semaphore_mutex [OF s(1) ex_sched_ok(1)] by (simp add: ex_sched_def)
  then show ?thesis using s by (intro exI [of _ s]) simp
qed

end
