(* ===== verification/Ex_Fs.thy ===== *)
theory Ex_Fs
  imports Mm_Props Sched_Props Fs_State
begin

text \<open>
  A concrete state of the kernel for the examples: the three tasks of Sched_Props, the memory of
  Mm_Props, and nothing open, cached or mounted; and an environment without drivers whose waits
  return at once.
\<close>

definition ex_inode :: inode where "ex_inode = zero_inode"

definition ex_super :: super_block where
  "ex_super = \<lparr>sb_fs_type = None, sb_magic = 0, sb_dev = 0, sb_parent = 0, sb_root = None, sb_inodes = [],
     sb_dentries = [], sb_minix = \<lparr>ms_ninodes = 0, ms_nzones = 0, ms_imap_blocks = 0, ms_zmap_blocks = 0,
     ms_firstdatazone = 0, ms_log_zone_size = 0, ms_max_size = 0, ms_magic = 0, ms_imap = (\<lambda>_. None),
     ms_zmap = (\<lambda>_. None)\<rparr>\<rparr>"

definition ex_fs :: fs where
  "ex_fs = \<lparr>tasks = ex_task, current = 1, run_list = [1, 2, 3], ready_list = [], queues = (\<lambda>_. []),
     task_list = [3, 2, 1], pid_lists = (\<lambda>_. []), pid_start = 1, counts = (\<lambda>_. 0),
     vmm = ex_mm, vkm = ex_kmem, kernel_dir = 0, ram = (\<lambda>_. 0),
     inodes = (\<lambda>_. ex_inode), dentries = (\<lambda>_. zero_dentry),
     files = (\<lambda>_. \<lparr>f_flags = 0, f_pos = 0, f_inode = 0, f_private = None, f_ref = 0\<rparr>),
     supers = (\<lambda>_. ex_super),
     blks = (\<lambda>_. \<lparr>b_nr = 0, b_dev = 0, b_data = 0, b_dirty = False, b_uptodate = False\<rparr>),
     minix_blocks = (\<lambda>_. \<lparr>mb_data = 0, mb_blk = 0, mb_dirty = False\<rparr>),
     inode_hash = (\<lambda>_. []), dentry_hash = (\<lambda>_. []), iput_lock = False, fs_types = [], fst_supers = (\<lambda>_. []),
     droot = 0xC0200000, iroot = 0xC0200100,
     chrdevs = (\<lambda>_. \<lparr>cd_name = None, cd_fops = None, cd_ref = 0\<rparr>),
     blkdevs = (\<lambda>_. \<lparr>bd_name = None, bd_rw = None, bd_block_size = 0, bd_ref = 0\<rparr>)\<rparr>"

definition no_ops :: "'s file_operations" where
  "no_ops = \<lparr>fo_open = None, fo_read = None, fo_readdir = None, fo_write = None, fo_ioctl = None,
     fo_lseek = None, fo_close = None\<rparr>"

definition ex_env :: "'s env" where
  "ex_env = \<lparr>chr_driver = (\<lambda>_. no_ops), blk_driver = (\<lambda>_ _ _ s. Some s),
     fs_driver = (\<lambda>_. \<lparr>ft_name = None, ft_get_super = None, ft_sops = None, ft_fops = None\<rparr>),
     sleep_on = (\<lambda>_ s. Some s)\<rparr>"

end
