(* ===== verification/Entry.thy ===== *)
theory Entry
  imports Signal_Frame Ex_Fs
begin

text \<open>
  System calls from the \<open>int $0x80\<close> of a stub to its \<open>iret\<close>: the numbers of
  include/sins/syscalls.h, the table of kernel/syscall.c, the stubs of lib/syscalls.c and
  \<open>system_call\<close> of arch/entry.S.  Registers are a \<open>pt_regs\<close>; the frame \<open>SAVE_ALL\<close> leaves is in
  memory, at the top of the task's page, where the handlers find it.
\<close>

subsection \<open>Numbers and table\<close>

datatype syscall =
    Sys_open | Sys_creat | Sys_close | Sys_read | Sys_write | Sys_ioctl | Sys_lseek | Sys_exec
  | Sys_exit | Sys_wait_pid | Sys_wait_chld | Sys_chdir | Sys_chroot | Sys_getcwd | Sys_dup | Sys_dup2
  | Sys_readdir | Sys_sigreturn | Sys_sigaction | Sys_sigmask | Sys_kill | Sys_getpid | Sys_getppid
  | Sys_time

definition syscall_table :: "syscall list" where
  "syscall_table =
     [Sys_open, Sys_creat, Sys_close, Sys_read, Sys_write, Sys_ioctl, Sys_lseek, Sys_exec, Sys_exit,
      Sys_wait_pid, Sys_wait_chld, Sys_chdir, Sys_chroot, Sys_getcwd, Sys_dup, Sys_dup2, Sys_readdir,
      Sys_sigreturn, Sys_sigaction, Sys_sigmask, Sys_kill, Sys_getpid, Sys_getppid, Sys_time]"

definition NR_SYSTEM_CALLS :: u32 where "NR_SYSTEM_CALLS = 24"

text \<open>\<open>__NR_open\<close> and the others.\<close>

fun NR :: "syscall \<Rightarrow> u32" where
  "NR Sys_open = 0" | "NR Sys_creat = 1" | "NR Sys_close = 2" | "NR Sys_read = 3" | "NR Sys_write = 4"
| "NR Sys_ioctl = 5" | "NR Sys_lseek = 6" | "NR Sys_exec = 7" | "NR Sys_exit = 8" | "NR Sys_wait_pid = 9"
| "NR Sys_wait_chld = 10" | "NR Sys_chdir = 11" | "NR Sys_chroot = 12" | "NR Sys_getcwd = 13"
| "NR Sys_dup = 14" | "NR Sys_dup2 = 15" | "NR Sys_readdir = 16" | "NR Sys_sigreturn = 17"
| "NR Sys_sigaction = 18" | "NR Sys_sigmask = 19" | "NR Sys_kill = 20" | "NR Sys_getpid = 21"
| "NR Sys_getppid = 22" | "NR Sys_time = 23"

text \<open>The registers of a stub at its \<open>int\<close>: the number in \<open>eax\<close>, the arguments in \<open>ebx\<close>, \<open>ecx\<close>, \<open>edx\<close>.\<close>

definition syscall0 :: "syscall \<Rightarrow> pt_regs \<Rightarrow> pt_regs" where
  "syscall0 c r = r\<lparr>r_eax := NR c\<rparr>"
definition syscall1 :: "syscall \<Rightarrow> u32 \<Rightarrow> pt_regs \<Rightarrow> pt_regs" where
  "syscall1 c a r = r\<lparr>r_eax := NR c, r_ebx := a\<rparr>"
definition syscall2 :: "syscall \<Rightarrow> u32 \<Rightarrow> u32 \<Rightarrow> pt_regs \<Rightarrow> pt_regs" where
  "syscall2 c a b r = r\<lparr>r_eax := NR c, r_ebx := a, r_ecx := b\<rparr>"
definition syscall3 :: "syscall \<Rightarrow> u32 \<Rightarrow> u32 \<Rightarrow> u32 \<Rightarrow> pt_regs \<Rightarrow> pt_regs" where
  "syscall3 c a b d r = r\<lparr>r_eax := NR c, r_ebx := a, r_ecx := b, r_edx := d\<rparr>"

text \<open>The stubs of lib/syscalls.c: how many arguments each passes.\<close>

fun stub :: "syscall \<Rightarrow> u32 list \<Rightarrow> pt_regs \<Rightarrow> pt_regs option" where
  "stub c [] r = (if c \<in> {Sys_sigreturn, Sys_getpid, Sys_getppid} then Some (syscall0 c r) else None)"
| "stub c [a] r =
     (if c \<in> {Sys_creat, Sys_close, Sys_exit, Sys_wait_pid, Sys_wait_chld, Sys_chdir, Sys_chroot, Sys_dup, Sys_time}
      then Some (syscall1 c a r) else None)"
| "stub c [a, b] r =
     (if c \<in> {Sys_open, Sys_getcwd, Sys_dup2, Sys_sigaction, Sys_sigmask, Sys_kill} then Some (syscall2 c a b r) else None)"
| "stub c [a, b, d] r =
     (if c \<in> {Sys_read, Sys_write, Sys_ioctl, Sys_lseek, Sys_exec, Sys_readdir} then Some (syscall3 c a b d r) else None)"
| "stub c _ r = None"

subsection \<open>The handlers\<close>

text \<open>A string of the user, up to its NUL; a null pointer is no string.\<close>

partial_function (option) user_bytes :: "(u32 \<Rightarrow> u8) \<Rightarrow> u32 \<Rightarrow> u8 list option" where
  "user_bytes m a = (if m a = 0 then Some [] else do { cs \<leftarrow> user_bytes m (a + 1); Some (m a # cs) })"

definition user_string :: "u32 \<Rightarrow> 'a vm_scheme \<Rightarrow> u8 list option option" where
  "user_string a s = (if a = 0 then Some None else map_option Some (user_bytes (ram s) a))"

definition returns :: "int \<times> 's \<Rightarrow> (u32, 's) outcome option" where
  "returns x = Some (Returns (word_of_int (fst x)) (snd x))"

text \<open>
  The functions behind the table, on the words the stub has passed.  \<open>exec\<close> and \<open>time\<close> are
  arguments: their models work on larger states.
\<close>

fun kernel_call ::
    "('a fs_scheme) env \<Rightarrow> (u32 list \<Rightarrow> 'a fs_scheme \<Rightarrow> (u32, 'a fs_scheme) outcome option) \<Rightarrow>
     (u32 list \<Rightarrow> 'a fs_scheme \<Rightarrow> (u32, 'a fs_scheme) outcome option) \<Rightarrow>
     syscall \<Rightarrow> u32 \<Rightarrow> u32 \<Rightarrow> u32 \<Rightarrow> 'a fs_scheme \<Rightarrow> (u32, 'a fs_scheme) outcome option" where
  "kernel_call e ex ti Sys_open a b d s = do { f \<leftarrow> user_string a s; x \<leftarrow> sys_open e f b s; returns x }"
| "kernel_call e ex ti Sys_creat a b d s = do { f \<leftarrow> user_string a s; x \<leftarrow> sys_creat e f s; returns x }"
| "kernel_call e ex ti Sys_close a b d s = do { x \<leftarrow> sys_close e (unat a) s; returns x }"
| "kernel_call e ex ti Sys_read a b d s = do { x \<leftarrow> sys_read e (unat a) b d s; returns x }"
| "kernel_call e ex ti Sys_write a b d s = do { x \<leftarrow> sys_write e (unat a) b d s; returns x }"
| "kernel_call e ex ti Sys_ioctl a b d s = do { x \<leftarrow> sys_ioctl e (unat a) b d s; returns x }"
| "kernel_call e ex ti Sys_lseek a b d s = do { x \<leftarrow> sys_lseek e (unat a) (sint b) (sint d) s; returns x }"
| "kernel_call e ex ti Sys_exec a b d s = ex [a, b, d] s"
| "kernel_call e ex ti Sys_exit a b d s = do { s \<leftarrow> sys_exit e (sint a) s; Some (Gone s) }"
| "kernel_call e ex ti Sys_wait_pid a b d s = do { x \<leftarrow> sys_wait_pid e a s; returns x }"
| "kernel_call e ex ti Sys_wait_chld a b d s = do { x \<leftarrow> sys_wait_chld e a s; returns x }"
| "kernel_call e ex ti Sys_chdir a b d s = do { f \<leftarrow> user_string a s; x \<leftarrow> sys_chdir e f s; returns x }"
| "kernel_call e ex ti Sys_chroot a b d s = do { f \<leftarrow> user_string a s; x \<leftarrow> sys_chroot e f s; returns x }"
| "kernel_call e ex ti Sys_getcwd a b d s = do { x \<leftarrow> sys_getcwd a b s; returns x }"
| "kernel_call e ex ti Sys_dup a b d s = do { x \<leftarrow> sys_dup (unat a) s; returns x }"
| "kernel_call e ex ti Sys_dup2 a b d s = do { x \<leftarrow> sys_dup2 (unat a) (unat b) s; returns x }"
| "kernel_call e ex ti Sys_readdir a b d s = do { x \<leftarrow> sys_readdir e (unat a) b d s; returns x }"
| "kernel_call e ex ti Sys_sigreturn a b d s = sys_sigreturn e s"
| "kernel_call e ex ti Sys_sigaction a b d s = returns (sys_sigaction (unat a) b s)"
| "kernel_call e ex ti Sys_sigmask a b d s = returns (sys_sigmask (unat a) (b \<noteq> 0) s)"
| "kernel_call e ex ti Sys_kill a b d s = returns (sys_kill a (unat b) s)"
| "kernel_call e ex ti Sys_getpid a b d s = Some (Returns (sys_getpid s) s)"
| "kernel_call e ex ti Sys_getppid a b d s = Some (Returns (sys_getppid s) s)"
| "kernel_call e ex ti Sys_time a b d s = ti [a] s"

subsection \<open>Entry and return (arch/entry.S)\<close>

text \<open>How the machine goes on: in user mode with these registers, in kernel mode at an address, or in
  another task.\<close>

datatype 's resume = User pt_regs 's | Kernel u32 's | Other 's

text \<open>The frame starts 72 bytes below the end of the task's page; the two words \<open>SAVE_ALL\<close> skips keep
  what they held.\<close>

definition frame_at :: "'a vm_scheme \<Rightarrow> u32" where
  "frame_at s = current s - sizeof_pt_regs + PAGE_SIZE"

definition save_all :: "u32 \<Rightarrow> pt_regs \<Rightarrow> 'a vm_scheme \<Rightarrow> 'a vm_scheme" where
  "save_all at r s =
     store_regs at (r\<lparr>r_ori_eax := r_ori_eax (load_regs s at), r_err_code := r_err_code (load_regs s at)\<rparr>) s"

text \<open>
  A number out of range goes to \<open>bad_system_call\<close>, which prints and leaves with \<open>ret\<close>: it pops the
  saved \<open>eip\<close> and nothing else.
\<close>

definition system_call ::
    "('a fs_scheme) env \<Rightarrow> (syscall \<Rightarrow> u32 \<Rightarrow> u32 \<Rightarrow> u32 \<Rightarrow> 'a fs_scheme \<Rightarrow> (u32, 'a fs_scheme) outcome option) \<Rightarrow>
     pt_regs \<Rightarrow> 'a fs_scheme \<Rightarrow> ('a fs_scheme) resume option" where
  "system_call e call r s =
     (if NR_SYSTEM_CALLS - 1 < r_eax r then Some (Kernel (r_eip r) s)
      else do {
        let at = frame_at s;
        let s = save_all at r s;
        out \<leftarrow> call (syscall_table ! unat (r_eax r)) (r_ebx r) (r_ecx r) (r_edx r) s;
        (case out of
           Gone s \<Rightarrow> Some (Other s)
         | Returns v s \<Rightarrow> do {
             let s = store_u32 (at + 0x18) v s;
             out \<leftarrow> do_signal e (load_regs s at) s;
             (case out of
                Gone s \<Rightarrow> Some (Other s)
              | Returns r s \<Rightarrow>
                  let s = store_regs at r s; r = load_regs s at
                  in Some (if from_kernel r then Kernel (r_eip r) s else User r s)) }) })"

section \<open>Properties\<close>

text \<open>
  Properties of the way into the kernel and back.
\<close>

subsection \<open>The table\<close>

lemma NR_table: "syscall_table ! unat (NR c) = c" "NR c < NR_SYSTEM_CALLS"
  by (cases c; simp add: syscall_table_def NR_SYSTEM_CALLS_def)+

lemma NR_in_range: "\<not> NR_SYSTEM_CALLS - 1 < NR c"
  by (cases c; simp add: NR_SYSTEM_CALLS_def)


text \<open>The arguments a handler finds on its stack.\<close>

definition arg_regs :: "pt_regs \<Rightarrow> u32 list" where
  "arg_regs r = [r_ebx r, r_ecx r, r_edx r]"

lemma stub_regs:
  assumes "stub c args r = Some q"
  shows "r_eax q = NR c" "take (length args) (arg_regs q) = args" "r_cs q = r_cs r" "r_eip q = r_eip r" "r_esp q = r_esp r"
  using assms
  by (auto elim!: stub.elims split: if_splits simp: syscall0_def syscall1_def syscall2_def syscall3_def arg_regs_def)

subsection \<open>The frame\<close>

lemma load_save_all:
  "load_regs (save_all at r s) at =
     r\<lparr>r_ori_eax := r_ori_eax (load_regs s at), r_err_code := r_err_code (load_regs s at)\<rparr>"
  by (simp add: save_all_def load_store_regs)

lemma load_regs_eax:
  "load_regs (store_u32 (at + 0x18) v s) at = (load_regs s at)\<lparr>r_eax := v\<rparr>"
proof -
  have w: "load32 (store_u32 (at + 0x18) v s) (at + 4 * of_nat k) = load32 s (at + 4 * of_nat k)" if "k \<noteq> 6" "k < 18" for k
  proof -
    have "k \<in> {0, 1, 2, 3, 4, 5, 7, 8, 9, 10, 11, 12, 13, 14, 15, 16, 17}" using that by (auto simp: eval_nat_numeral less_Suc_eq)
    then show ?thesis by (auto simp: load32_store_u32 apart_def)
  qed
  show ?thesis
    unfolding load_regs_def Let_def
    using w [of 0] w [of 1] w [of 2] w [of 3] w [of 4] w [of 5] w [of 7] w [of 8] w [of 9] w [of 10] w [of 11] w [of 12]
      w [of 13] w [of 14] w [of 15] w [of 16] w [of 17] load_store_u32 [of "at + 0x18" v s]
    by simp
qed


lemma do_signal_none: "tsignal (tasks s (current s)) = 0 \<Longrightarrow> do_signal e r s = Some (Returns r s)"
  by (simp add: do_signal_def Let_def)

text \<open>C8: System calls reach their handlers.  A stub of the library enters the kernel with the number of its
  call in \<open>eax\<close> and its arguments in \<open>ebx\<close>, \<open>ecx\<close> and \<open>edx\<close>; the table has the handler of that call
  under that number, which finds the arguments on its stack; when it returns, leaving the frame alone,
  and no signal waits, the stub goes on in user mode behind its \<open>int\<close> with the result in \<open>eax\<close> and
  every other register as it was.\<close>

theorem syscall_served:
  assumes "stub c args r = Some q" and "r_cs r AND 3 = 3"
    and "call c (r_ebx q) (r_ecx q) (r_edx q) (save_all (frame_at s) q s) = Some (Returns v t)"
    and "load_regs t (frame_at s) = load_regs (save_all (frame_at s) q s) (frame_at s)"
    and "tsignal (tasks t (current t)) = 0"
  shows "take (length args) [r_ebx q, r_ecx q, r_edx q] = args \<and>
    (\<exists>p u. system_call e call q s = Some (User p u) \<and>
       p\<lparr>r_ori_eax := 0, r_err_code := 0\<rparr> = q\<lparr>r_eax := v, r_ori_eax := 0, r_err_code := 0\<rparr> \<and>
       r_eip p = r_eip r \<and> r_esp p = r_esp r \<and> tasks u = tasks t \<and> current u = current t)"
proof -
  let ?at = "frame_at s"
  let ?t = "store_u32 (?at + 0x18) v t"
  have q: "r_eax q = NR c" "r_cs q = r_cs r" "r_eip q = r_eip r" "r_esp q = r_esp r" using stub_regs [OF assms(1)] by simp_all
  define p where "p = load_regs ?t ?at"
  have p: "p = q\<lparr>r_ori_eax := r_ori_eax (load_regs s ?at), r_err_code := r_err_code (load_regs s ?at), r_eax := v\<rparr>"
    by (simp add: p_def load_regs_eax assms(4) load_save_all)
  have "\<not> from_kernel p" using assms(2) q(2) by (simp add: p from_kernel_def)
  moreover have "do_signal e p ?t = Some (Returns p ?t)" using assms(5) by (intro do_signal_none) simp
  ultimately have "system_call e call q s = Some (User p (store_regs ?at p ?t))"
    using assms(3) by (simp add: system_call_def NR_in_range NR_table q(1) load_store_regs Let_def flip: p_def)
  moreover have "tasks (store_regs ?at p ?t) = tasks t" "current (store_regs ?at p ?t) = current t"
    by (simp_all add: store_regs_def)
  moreover have "take (length args) [r_ebx q, r_ecx q, r_edx q] = args"
    using stub_regs(2) [OF assms(1)] by (simp add: arg_regs_def)
  ultimately show ?thesis using q(3,4) by (auto simp: p)
qed


text \<open>A program that asks for its process number, and one that asks for call 24.\<close>

definition ex_user :: "u32 \<Rightarrow> pt_regs" where
  "ex_user n = \<lparr>r_ebx = 0, r_ecx = 0, r_edx = 0, r_edi = 0, r_esi = 0, r_ebp = 0, r_eax = n, r_gs = 0x23, r_fs = 0x23,
     r_es = 0x23, r_ds = 0x23, r_ori_eax = 0, r_err_code = 0, r_eip = 0x1000, r_cs = 0x1b, r_eflags = 0x200,
     r_esp = 0xBFFFF000, r_ss = 0x23\<rparr>"

abbreviation ex_call :: "syscall \<Rightarrow> u32 \<Rightarrow> u32 \<Rightarrow> u32 \<Rightarrow> fs \<Rightarrow> (u32, fs) outcome option" where
  "ex_call \<equiv> kernel_call ex_env (\<lambda>_ _. None) (\<lambda>_ _. None)"

lemma save_all_keeps [simp]: "tasks (save_all at r s) = tasks s" "current (save_all at r s) = current s"
  by (simp_all add: save_all_def store_regs_def)

theorem syscall_served_witness:
  "\<exists>p u. system_call ex_env ex_call (syscall0 Sys_getpid (ex_user 7)) ex_fs = Some (User p u) \<and>
     r_eax p = pid (ex_task 1) \<and> r_eip p = 0x1000"
proof -
  let ?q = "syscall0 Sys_getpid (ex_user 7)"
  have 1: "stub Sys_getpid [] (ex_user 7) = Some ?q" "r_cs (ex_user 7) AND 3 = 3" by (simp_all add: ex_user_def)
  have 2: "ex_call Sys_getpid (r_ebx ?q) (r_ecx ?q) (r_edx ?q) (save_all (frame_at ex_fs) ?q ex_fs) =
      Some (Returns (pid (ex_task 1)) (save_all (frame_at ex_fs) ?q ex_fs))"
    by (simp add: sys_getpid_def cur_task_def) (simp add: ex_fs_def)
  have 3: "tsignal (tasks (save_all (frame_at ex_fs) ?q ex_fs) (current (save_all (frame_at ex_fs) ?q ex_fs))) = 0"
    by (simp add: ex_fs_def ex_task_def)
  from syscall_served [where call = ex_call and s = ex_fs and e = ex_env, OF 1 2 refl 3] obtain p u where
    "system_call ex_env ex_call ?q ex_fs = Some (User p u)" "r_eip p = 0x1000"
    "p\<lparr>r_ori_eax := 0, r_err_code := 0\<rparr> = ?q\<lparr>r_eax := pid (ex_task 1), r_ori_eax := 0, r_err_code := 0\<rparr>"
    by (auto simp: ex_user_def)
  moreover have "r_eax (p\<lparr>r_ori_eax := 0, r_err_code := 0\<rparr>) = r_eax p" by simp
  ultimately show ?thesis by auto
qed


end
