(* ===== verification/Timer.thy ===== *)
theory Timer
  imports Walk Div64
begin

text \<open>
  kernel/timer.c: timers hashed by their deadline into \<open>NR_TIMER_LISTS\<close> lists; each tick looks at
  the one list its deadline can be on.  A \<open>struct timer_handler *\<close> is an address.  Timer functions
  are pointers to code elsewhere: \<open>call f data s\<close> is what a call of function \<open>f\<close> does to the whole
  state, so a function may itself arm or disarm timers.  \<open>None\<close> is a failed \<open>BUG_ON\<close>, a call of
  a null function, or an operation that would break a list: arming a timer that is already armed.
  kernel/notifier.c is here too: chains of functions to call.
\<close>

subsection \<open>State\<close>

record timer =
  expires :: u32
  tjiffies :: u64
  tfunction :: "nat option"
  tdata :: u32
  times :: u32

record timers =
  handlers :: "u32 \<Rightarrow> timer"
  jiffies :: u64
  timer_lists :: "nat \<Rightarrow> u32 list"

definition NR_TIMER_LISTS :: nat where "NR_TIMER_LISTS = 60"
definition TIMER_INFINITE :: u32 where "TIMER_INFINITE = - 1"
definition TIMER_ONCE :: u32 where "TIMER_ONCE = 1"

definition list_nr :: "u64 \<Rightarrow> nat option" where
  "list_nr j = do { (q, r) \<leftarrow> do_div64 j (of_nat NR_TIMER_LISTS); Some (unat r) }"

definition timer_linked :: "u32 \<Rightarrow> 'a timers_scheme \<Rightarrow> bool" where
  "timer_linked h s \<longleftrightarrow> (\<exists>i\<in>set [0..<NR_TIMER_LISTS]. h \<in> set (timer_lists s i))"

definition call_function ::
    "(nat \<Rightarrow> u32 \<Rightarrow> 's \<Rightarrow> 's option) \<Rightarrow> nat option \<Rightarrow> u32 \<Rightarrow> 's \<Rightarrow> 's option" where
  "call_function call f data s = (case f of None \<Rightarrow> None | Some f \<Rightarrow> call f data s)"

subsection \<open>Operations\<close>

definition timer_init :: "'a timers_scheme \<Rightarrow> 'a timers_scheme" where
  "timer_init s =
     fold (\<lambda>i s. s\<lparr>timer_lists := (timer_lists s)(i := [])\<rparr>) [0..<NR_TIMER_LISTS] (s\<lparr>jiffies := 0\<rparr>)"

definition add_timer ::
    "(nat \<Rightarrow> u32 \<Rightarrow> 'a timers_scheme \<Rightarrow> 'a timers_scheme option) \<Rightarrow> u32 \<Rightarrow> 'a timers_scheme \<Rightarrow> 'a timers_scheme option" where
  "add_timer call h s =
     (let t = handlers s h
      in do { bug_on (expires t = 0 \<and> times t = TIMER_INFINITE);
              bug_on (tfunction t = None);
              if times t = 0 then Some s
              else if expires t = 0
              then do { s \<leftarrow> call_function call (tfunction t) (tdata t) s;
                        bug_on (timer_linked h s);
                        Some s }
              else do { let tmp = ucast (expires t) + jiffies s;
                        i \<leftarrow> list_nr tmp;
                        bug_on (timer_linked h s);
                        Some (s\<lparr>handlers := (handlers s)(h := t\<lparr>tjiffies := tmp\<rparr>),
                                timer_lists := (timer_lists s)(i := h # timer_lists s i)\<rparr>) } })"

definition del_timer :: "u32 \<Rightarrow> 'a timers_scheme \<Rightarrow> 'a timers_scheme" where
  "del_timer h s = s\<lparr>timer_lists := (\<lambda>i. remove1 h (timer_lists s i))\<rparr>"

text \<open>One round of the loop of \<open>do_timer\<close>.\<close>

definition timer_visit ::
    "(nat \<Rightarrow> u32 \<Rightarrow> 'a timers_scheme \<Rightarrow> 'a timers_scheme option) \<Rightarrow> u64 \<Rightarrow> u32 \<Rightarrow> 'a timers_scheme \<Rightarrow>
     'a timers_scheme option" where
  "timer_visit call now h s =
     do { bug_on (now > tjiffies (handlers s h));
          if now = tjiffies (handlers s h)
          then do { s \<leftarrow> call_function call (tfunction (handlers s h)) (tdata (handlers s h)) s;
                    let t = handlers s h;
                    let s = (if times t \<noteq> TIMER_INFINITE
                             then s\<lparr>handlers := (handlers s)(h := t\<lparr>times := times t - 1\<rparr>)\<rparr> else s);
                    let s = del_timer h s;
                    if times (handlers s h) \<noteq> 0 then add_timer call h s else Some s }
          else Some s }"

definition do_timer ::
    "(nat \<Rightarrow> u32 \<Rightarrow> 'a timers_scheme \<Rightarrow> 'a timers_scheme option) \<Rightarrow> 'a timers_scheme \<Rightarrow> 'a timers_scheme option" where
  "do_timer call s =
     do { let now = jiffies s;
          i \<leftarrow> list_nr now;
          s \<leftarrow> for_each_safe (\<lambda>s. timer_lists s i) (timer_visit call now) s;
          Some (s\<lparr>jiffies := jiffies s + 1\<rparr>) }"

subsection \<open>Notifier chains (kernel/notifier.c)\<close>

record notifiers =
  nfunction :: "u32 \<Rightarrow> nat option"
  chains :: "u32 \<Rightarrow> u32 list"

definition init_notifier_chain :: "u32 \<Rightarrow> 'a notifiers_scheme \<Rightarrow> 'a notifiers_scheme" where
  "init_notifier_chain c s = s\<lparr>chains := (chains s)(c := [])\<rparr>"

definition add_notifier :: "u32 \<Rightarrow> u32 \<Rightarrow> 'a notifiers_scheme \<Rightarrow> 'a notifiers_scheme option" where
  "add_notifier h c s =
     do { bug_on (nfunction s h = None);
          Some (s\<lparr>chains := (chains s)(c := h # chains s c)\<rparr>) }"

definition del_notifier :: "u32 \<Rightarrow> 'a notifiers_scheme \<Rightarrow> 'a notifiers_scheme" where
  "del_notifier h s = s\<lparr>chains := (\<lambda>c. remove1 h (chains s c))\<rparr>"

definition do_notifier ::
    "(nat \<Rightarrow> u32 \<Rightarrow> 'a notifiers_scheme \<Rightarrow> 'a notifiers_scheme option) \<Rightarrow> u32 \<Rightarrow> u32 \<Rightarrow>
     'a notifiers_scheme \<Rightarrow> 'a notifiers_scheme option" where
  "do_notifier call c data s =
     for_each_safe (\<lambda>s. chains s c)
       (\<lambda>h s. do { bug_on (nfunction s h = None); call_function call (nfunction s h) data s }) s"

section \<open>What the wheel does\<close>

text \<open>
  What a tick does, seen from outside: the armed timers are a map from handlers to deadlines, and
  a tick calls exactly the functions whose deadline it is and moves those timers on.  The functions
  are required to leave the timers alone, and to return.
\<close>

definition armed :: "'a timers_scheme \<Rightarrow> u32 \<Rightarrow> (u64 \<times> u32) option" where
  "armed s h = (if timer_linked h s then Some (tjiffies (handlers s h), times (handlers s h)) else None)"

definition timer_ok :: "timer \<Rightarrow> bool" where
  "timer_ok t \<longleftrightarrow> expires t \<noteq> 0 \<and> times t \<noteq> 0 \<and> tfunction t \<noteq> None"

definition timers_ok :: "'a timers_scheme \<Rightarrow> bool" where
  "timers_ok s \<longleftrightarrow>
     (\<forall>i<NR_TIMER_LISTS. distinct (timer_lists s i) \<and>
        (\<forall>h\<in>set (timer_lists s i). timer_ok (handlers s h) \<and>
           jiffies s \<le> tjiffies (handlers s h) \<and> unat (tjiffies (handlers s h)) mod NR_TIMER_LISTS = i))"

text \<open>A timer after its function has run: \<open>None\<close> when that was the last time.\<close>

definition fired :: "u64 \<Rightarrow> timer \<Rightarrow> (u64 \<times> u32) option" where
  "fired now t =
     (let n = (if times t = TIMER_INFINITE then TIMER_INFINITE else times t - 1)
      in if n = 0 then None else Some (now + ucast (expires t), n))"

definition due :: "'a timers_scheme \<Rightarrow> u32 list" where
  "due s = filter (\<lambda>h. tjiffies (handlers s h) = jiffies s)
     (timer_lists s (unat (jiffies s) mod NR_TIMER_LISTS))"

definition plain_call :: "(nat \<Rightarrow> u32 \<Rightarrow> 'a \<Rightarrow> 'a) \<Rightarrow> nat \<Rightarrow> u32 \<Rightarrow> 'a timers_scheme \<Rightarrow> 'a timers_scheme option" where
  "plain_call g f d s = Some (timers.more_update (g f d) s)"

definition run_function :: "(nat \<Rightarrow> u32 \<Rightarrow> 'a \<Rightarrow> 'a) \<Rightarrow> timer \<Rightarrow> 'a \<Rightarrow> 'a" where
  "run_function g t = g (the (tfunction t)) (tdata t)"

definition same_timer :: "timer \<Rightarrow> timer \<Rightarrow> bool" where
  "same_timer t u \<longleftrightarrow> expires u = expires t \<and> tfunction u = tfunction t \<and> tdata u = tdata t"

lemma list_nr_eq: "list_nr j = Some (unat j mod NR_TIMER_LISTS)"
proof -
  have "(of_nat NR_TIMER_LISTS :: u32) \<noteq> 0" "unat (of_nat NR_TIMER_LISTS :: u32) = 60"
    by (simp_all add: NR_TIMER_LISTS_def)
  with do_div64_spec [of "of_nat NR_TIMER_LISTS" j] obtain q r where
    "do_div64 j (of_nat NR_TIMER_LISTS) = Some (q, r)" "unat r = unat j mod 60" by auto
  then show ?thesis by (simp add: list_nr_def NR_TIMER_LISTS_def)
qed

lemma timer_linked_iff: "timer_linked h s \<longleftrightarrow> (\<exists>i<NR_TIMER_LISTS. h \<in> set (timer_lists s i))"
  by (auto simp: timer_linked_def)

lemma timers_okD:
  assumes "timers_ok s" "i < NR_TIMER_LISTS"
  shows "distinct (timer_lists s i)"
    "h \<in> set (timer_lists s i) \<Longrightarrow> timer_ok (handlers s h)"
    "h \<in> set (timer_lists s i) \<Longrightarrow> jiffies s \<le> tjiffies (handlers s h)"
    "h \<in> set (timer_lists s i) \<Longrightarrow> unat (tjiffies (handlers s h)) mod NR_TIMER_LISTS = i"
  using assms by (auto simp: timers_ok_def)

text \<open>Where an armed timer is: on the list of its deadline, and on no other.\<close>

lemma linked_where:
  "timers_ok s \<Longrightarrow> timer_linked h s \<longleftrightarrow> h \<in> set (timer_lists s (unat (tjiffies (handlers s h)) mod NR_TIMER_LISTS))"
  unfolding timer_linked_iff by (metis timers_okD(4) mod_less_divisor NR_TIMER_LISTS_def zero_less_numeral)

subsection \<open>One timer\<close>

lemma del_timer_simps [simp]:
  "handlers (del_timer h s) = handlers s" "jiffies (del_timer h s) = jiffies s"
  "timer_lists (del_timer h s) i = remove1 h (timer_lists s i)"
  "timers.more (del_timer h s) = timers.more s"
  by (simp_all add: del_timer_def)

lemma del_timer_ok: "timers_ok s \<Longrightarrow> timers_ok (del_timer h s)"
  unfolding timers_ok_def by (auto dest: notin_set_remove1 simp: distinct_remove1)

lemma del_timer_unlinked: "timers_ok s \<Longrightarrow> timer_linked k (del_timer h s) \<longleftrightarrow> k \<noteq> h \<and> timer_linked k s"
  unfolding timer_linked_iff by (auto simp: timers_okD(1))

lemma add_timer_armed:
  assumes ok: "timers_ok s" and t: "timer_ok (handlers s h)" and free: "\<not> timer_linked h s"
    and room: "unat (jiffies s) + unat (expires (handlers s h)) < 2 ^ 64"
  defines "d \<equiv> jiffies s + ucast (expires (handlers s h))"
  defines "s' \<equiv> s\<lparr>handlers := (handlers s)(h := handlers s h\<lparr>tjiffies := d\<rparr>),
     timer_lists := (timer_lists s)(unat d mod NR_TIMER_LISTS := h # timer_lists s (unat d mod NR_TIMER_LISTS))\<rparr>"
  shows "add_timer call h s = Some s'" "timers_ok s'" "unat d = unat (jiffies s) + unat (expires (handlers s h))"
proof -
  have d: "ucast (expires (handlers s h)) + jiffies s = d" by (simp add: d_def)
  show "add_timer call h s = Some s'"
    using t free by (auto simp: add_timer_def Let_def d list_nr_eq timer_ok_def s'_def)
  show u: "unat d = unat (jiffies s) + unat (expires (handlers s h))"
    unfolding d_def by (subst unat_word_ariths(1)) (use room in simp)
  then have le: "jiffies s \<le> d" by (simp add: word_le_nat_alt)
  show "timers_ok s'"
    using timers_okD [OF ok] free t le unfolding timer_linked_iff
    by (auto simp: timers_ok_def s'_def timer_ok_def)
qed

lemma timers_ok_frame:
  assumes "timers_ok s" "jiffies s' = jiffies s" "timer_lists s' = timer_lists s"
    and "\<And>i k. i < NR_TIMER_LISTS \<Longrightarrow> k \<in> set (timer_lists s i) \<Longrightarrow> handlers s' k = handlers s k"
  shows "timers_ok s'"
  using assms by (auto simp: timers_ok_def)

text \<open>The function runs, the count goes down, and the timer is armed again unless it was the last time.\<close>

lemma visit_due:
  assumes ok: "timers_ok s" and li: "timer_linked h s" and now: "tjiffies (handlers s h) = jiffies s"
    and room: "unat (jiffies s) + 2 ^ 32 < 2 ^ 64"
  shows "\<exists>s'. timer_visit (plain_call g) (jiffies s) h s = Some s' \<and> timers_ok s' \<and> jiffies s' = jiffies s \<and>
    timers.more s' = run_function g (handlers s h) (timers.more s) \<and>
    armed s' h = fired (jiffies s) (handlers s h) \<and> same_timer (handlers s h) (handlers s' h) \<and>
    (\<forall>k. k \<noteq> h \<longrightarrow> handlers s' k = handlers s k \<and> timer_linked k s' = timer_linked k s) \<and>
    (\<forall>i. timer_lists s' i = remove1 h (timer_lists s i) \<or> timer_lists s' i = h # remove1 h (timer_lists s i))"
proof -
  define t where "t = handlers s h"
  define n where "n = (if times t = TIMER_INFINITE then TIMER_INFINITE else times t - 1)"
  define s1 where "s1 = timers.more_update (run_function g t) s"
  define s2 where "s2 = s1\<lparr>handlers := (handlers s)(h := t\<lparr>times := n\<rparr>)\<rparr>"
  define s3 where "s3 = del_timer h s2"
  have t: "timer_ok t" using ok li by (auto simp: t_def timer_linked_iff dest: timers_okD(2))
  then obtain f where f: "tfunction t = Some f" by (auto simp: timer_ok_def)
  have call: "call_function (plain_call g) (tfunction t) (tdata t) s = Some s1"
    by (simp add: call_function_def plain_call_def s1_def run_function_def f)
  have s1: "handlers s1 = handlers s" "jiffies s1 = jiffies s" "timer_lists s1 = timer_lists s"
    "timers.more s1 = run_function g t (timers.more s)"
    by (simp_all add: s1_def)
  have same: "s1\<lparr>handlers := (handlers s)(h := t\<lparr>times := n\<rparr>)\<rparr> = s1" if "times t = TIMER_INFINITE"
  proof -
    have "t\<lparr>times := n\<rparr> = t" using that by (simp add: n_def)
    then have "(handlers s)(h := t\<lparr>times := n\<rparr>) = handlers s1" by (simp add: s1 t_def)
    then show ?thesis by simp
  qed
  have s2: "(if times (handlers s1 h) \<noteq> TIMER_INFINITE
      then s1\<lparr>handlers := (handlers s1)(h := handlers s1 h\<lparr>times := times (handlers s1 h) - 1\<rparr>)\<rparr> else s1) = s2"
  proof (cases "times t = TIMER_INFINITE")
    case True
    then show ?thesis using same by (simp add: s2_def s1 flip: t_def)
  next
    case False
    then show ?thesis by (simp add: s2_def s1 n_def flip: t_def)
  qed
  have eq: "timer_visit (plain_call g) (jiffies s) h s =
      (if n \<noteq> 0 then add_timer (plain_call g) h s3 else Some s3)"
    using now by (simp add: timer_visit_def Let_def call s2 s3_def flip: t_def) (simp add: s2_def)
  have unl: "\<not> timer_linked h s3" "\<And>k. k \<noteq> h \<Longrightarrow> timer_linked k s3 = timer_linked k s"
    using del_timer_unlinked [OF ok] by (simp_all add: s3_def timer_linked_iff s2_def s1)
  have ok3: "timers_ok s3"
    by (rule timers_ok_frame [OF del_timer_ok [OF ok, of h]])
      (auto simp: s3_def s2_def s1 timers_okD(1) [OF ok])
  have s3: "handlers s3 h = t\<lparr>times := n\<rparr>" "\<And>k. k \<noteq> h \<Longrightarrow> handlers s3 k = handlers s k"
    "jiffies s3 = jiffies s" "\<And>i. timer_lists s3 i = remove1 h (timer_lists s i)"
    "timers.more s3 = run_function g t (timers.more s)"
    by (simp_all add: s3_def s2_def s1)
  show ?thesis
  proof (cases "n = 0")
    case True
    then have "fired (jiffies s) t = None" by (simp add: fired_def n_def Let_def)
    then show ?thesis using True unl ok3 s3 by (auto simp: eq armed_def same_timer_def simp flip: t_def)
  next
    case False
    have "unat (expires t) < 2 ^ 32" using unsigned_less [of "expires t"] by simp
    then have small: "unat (jiffies s3) + unat (expires (handlers s3 h)) < 2 ^ 64" using room s3 by simp
    have "timer_ok (handlers s3 h)" using False t s3 by (simp add: timer_ok_def)
    note a = add_timer_armed [OF ok3 this unl(1) small]
    let ?d = "jiffies s3 + ucast (expires (handlers s3 h))"
    let ?s = "s3\<lparr>handlers := (handlers s3)(h := handlers s3 h\<lparr>tjiffies := ?d\<rparr>),
     timer_lists := (timer_lists s3)(unat ?d mod NR_TIMER_LISTS := h # timer_lists s3 (unat ?d mod NR_TIMER_LISTS))\<rparr>"
    have b: "add_timer (plain_call g) h s3 = Some ?s" "timers_ok ?s"
      by (rule a)+
    have "unat ?d mod NR_TIMER_LISTS < NR_TIMER_LISTS" by (simp add: NR_TIMER_LISTS_def)
    then have li': "timer_linked k ?s \<longleftrightarrow> k = h \<or> timer_linked k s3" for k
      unfolding timer_linked_iff by (simp add: fun_upd_apply) (metis list.set_intros set_ConsD)
    have "fired (jiffies s) t = Some (?d, n)" using False by (simp add: fired_def n_def Let_def s3)
    then have "armed ?s h = fired (jiffies s) t" using li' by (simp add: armed_def s3)
    then show ?thesis using False b li' unl s3 by (auto simp: eq same_timer_def simp flip: t_def)
  qed
qed

subsection \<open>One tick\<close>

lemma linked_jiffies [simp]: "timer_linked h (s\<lparr>jiffies := j\<rparr>) = timer_linked h s"
  by (simp add: timer_linked_def)

lemma do_timer_tick:
  assumes ok: "timers_ok s" and room: "unat (jiffies s) + 2 ^ 32 < 2 ^ 64"
  shows "\<exists>s'. do_timer (plain_call g) s = Some s' \<and> timers_ok s' \<and> jiffies s' = jiffies s + 1 \<and>
    (\<forall>h. same_timer (handlers s h) (handlers s' h)) \<and>
    timers.more s' = fold (\<lambda>h. run_function g (handlers s h)) (due s) (timers.more s) \<and>
    (\<forall>h. armed s' h = (if timer_linked h s \<and> tjiffies (handlers s h) = jiffies s
                      then fired (jiffies s) (handlers s h) else armed s h))"
proof -
  define i where "i = unat (jiffies s) mod NR_TIMER_LISTS"
  define L where "L = timer_lists s i"
  have i: "i < NR_TIMER_LISTS" by (simp add: i_def NR_TIMER_LISTS_def)
  define J where "J = (\<lambda>front ys u. L = front @ ys \<and> timers_ok u \<and> jiffies u = jiffies s \<and>
    (\<forall>h. same_timer (handlers s h) (handlers u h)) \<and>
    timers.more u = fold (\<lambda>h. run_function g (handlers s h))
      (filter (\<lambda>h. tjiffies (handlers s h) = jiffies s) front) (timers.more s) \<and>
    (\<forall>h. h \<notin> set front \<longrightarrow> handlers u h = handlers s h \<and> timer_linked h u = timer_linked h s) \<and>
    (\<forall>h\<in>set front. armed u h =
       (if tjiffies (handlers s h) = jiffies s then fired (jiffies s) (handlers s h) else armed s h)) \<and>
    (\<exists>xs. timer_lists u i = xs @ ys))"
  define I where "I = (\<lambda>ys u. \<exists>front. J front ys u)"
  have start: "I L s" unfolding I_def by (rule exI [of _ "[]"]) (simp add: J_def L_def ok same_timer_def)
  have rest: "\<exists>xs. timer_lists u i = xs @ y # ys \<and> y \<notin> set xs" if "I (y # ys) u" for y ys u
  proof -
    from that have ok: "timers_ok u" and ex: "\<exists>xs. timer_lists u i = xs @ y # ys"
      by (auto simp: I_def J_def)
    with timers_okD(1) [OF ok i] show ?thesis by auto
  qed
  have body: "\<exists>u'. timer_visit (plain_call g) (jiffies s) y u = Some u' \<and> I ys u'" if Iy: "I (y # ys) u" for y ys u
  proof -
    obtain front where J: "J front (y # ys) u" using Iy by (auto simp: I_def)
    then obtain xs where u7: "timer_lists u i = xs @ y # ys" by (auto simp: J_def)
    have same: "\<And>h. same_timer (handlers s h) (handlers u h)" using J by (simp add: J_def)
    have u: "L = front @ y # ys" "timers_ok u" "jiffies u = jiffies s"
      "timers.more u = fold (\<lambda>h. run_function g (handlers s h))
        (filter (\<lambda>h. tjiffies (handlers s h) = jiffies s) front) (timers.more s)"
      "\<And>h. h \<notin> set front \<Longrightarrow> handlers u h = handlers s h \<and> timer_linked h u = timer_linked h s"
      "\<And>h. h \<in> set front \<Longrightarrow> armed u h =
        (if tjiffies (handlers s h) = jiffies s then fired (jiffies s) (handlers s h) else armed s h)"
      "timer_lists u i = xs @ y # ys"
      using J u7 by (simp_all add: J_def)
    have dist: "distinct L" using timers_okD(1) [OF ok i] by (simp add: L_def)
    have y: "handlers u y = handlers s y" "timer_linked y s" "timer_linked y u" "y \<notin> set front"
      using u(1) dist u(5) [of y] i by (auto simp: timer_linked_iff L_def intro!: exI [of _ i])
    have le: "jiffies s \<le> tjiffies (handlers s y)" using timers_okD(3) [OF ok i, of y] u(1) by (simp add: L_def)
    show ?thesis
    proof (cases "tjiffies (handlers s y) = jiffies s")
      case False
      then have "timer_visit (plain_call g) (jiffies s) y u = Some u"
        using le y by (simp add: timer_visit_def Let_def bug_on_def)
      moreover have "armed u y = armed s y" using y by (simp add: armed_def)
      then have "J (front @ [y]) ys u" using u same False by (auto simp: J_def)
      then have "I ys u" by (auto simp: I_def)
      ultimately show ?thesis by blast
    next
      case True
      have "tjiffies (handlers u y) = jiffies u" "unat (jiffies u) + 2 ^ 32 < 2 ^ 64"
        using True y u room by simp_all
      from visit_due [OF u(2) y(3) this, of g] obtain u' where u':
        "timer_visit (plain_call g) (jiffies s) y u = Some u'" "timers_ok u'" "jiffies u' = jiffies s"
        "timers.more u' = run_function g (handlers s y) (timers.more u)"
        "armed u' y = fired (jiffies s) (handlers s y)" "same_timer (handlers s y) (handlers u' y)"
        "\<And>k. k \<noteq> y \<Longrightarrow> handlers u' k = handlers u k \<and> timer_linked k u' = timer_linked k u"
        "timer_lists u' i = remove1 y (timer_lists u i) \<or> timer_lists u' i = y # remove1 y (timer_lists u i)"
        using u(3) y(1) by auto
      have nxs: "y \<notin> set xs" using timers_okD(1) [OF u(2) i] u(7) by simp
      have "\<exists>xs'. timer_lists u' i = xs' @ ys"
        using u'(8) u(7) nxs by (auto simp: remove1_append intro: exI [of _ "y # xs"])
      moreover have "armed u' h = armed u h" if "h \<in> set front" for h
        using u'(7) [of h] that y(4) by (cases "h = y") (auto simp: armed_def)
      moreover have "same_timer (handlers s h) (handlers u' h)" for h
        using same [of h] u'(6,7) by (cases "h = y") simp_all
      ultimately have "J (front @ [y]) ys u'" using u u' True by (auto simp: J_def)
      then have "I ys u'" by (auto simp: I_def)
      then show ?thesis using u'(1) by blast
    qed
  qed
  obtain u where walk: "for_each_safe (\<lambda>s. timer_lists s i) (timer_visit (plain_call g) (jiffies s)) s = Some u"
    and u: "I [] u"
  proof -
    have "\<exists>u. each_safe (\<lambda>s. timer_lists s i) (timer_visit (plain_call g) (jiffies s)) (first_in L) s = Some u \<and> I [] u"
      using start by (rule each_safe_induct) (erule rest, erule body)
    then show ?thesis using that by (auto simp: for_each_safe_def L_def)
  qed
  from u have same: "\<And>h. same_timer (handlers s h) (handlers u h)" by (auto simp: I_def J_def)
  from u have U: "timers_ok u" "jiffies u = jiffies s"
    "timers.more u = fold (\<lambda>h. run_function g (handlers s h)) (due s) (timers.more s)"
    "\<And>h. h \<notin> set L \<Longrightarrow> handlers u h = handlers s h \<and> timer_linked h u = timer_linked h s"
    "\<And>h. h \<in> set L \<Longrightarrow> armed u h =
        (if tjiffies (handlers s h) = jiffies s then fired (jiffies s) (handlers s h) else armed s h)"
    by (auto simp: I_def J_def due_def L_def i_def)
  have inL: "h \<in> set L" if "timer_linked h s" "tjiffies (handlers s h) = jiffies s" for h
    using that linked_where [OF ok, of h] by (simp add: L_def i_def)
  have Lin: "timer_linked h s" if "h \<in> set L" for h using that i by (auto simp: timer_linked_iff L_def)
  have A: "armed u h = (if timer_linked h s \<and> tjiffies (handlers s h) = jiffies s
      then fired (jiffies s) (handlers s h) else armed s h)" for h
    using U(4,5) [of h] inL [of h] Lin [of h] by (cases "h \<in> set L") (auto simp: armed_def)
  have later: "jiffies s < tjiffies (handlers u h)" if "timer_linked h u" for h
  proof (cases "timer_linked h s \<and> tjiffies (handlers s h) = jiffies s")
    case True
    then have "timer_ok (handlers s h)" using ok by (auto simp: timer_linked_iff dest: timers_okD(2))
    then have e: "0 < unat (expires (handlers s h))" by (simp add: timer_ok_def unat_gt_0)
    have "fired (jiffies s) (handlers s h) = armed u h" using A [of h] True by simp
    then have "tjiffies (handlers u h) = jiffies s + ucast (expires (handlers s h))"
      using that by (auto simp: armed_def fired_def Let_def split: if_splits)
    moreover have "unat (expires (handlers s h)) < 2 ^ 32" using unsigned_less [of "expires (handlers s h)"] by simp
    then have "unat (jiffies s + ucast (expires (handlers s h)) :: u64) = unat (jiffies s) + unat (expires (handlers s h))"
      by (subst unat_word_ariths(1)) (use room in simp)
    ultimately show ?thesis using e by (simp add: word_less_nat_alt)
  next
    case False
    then have "armed s h = armed u h" using A [of h] by auto
    then have "timer_linked h s" "tjiffies (handlers u h) = tjiffies (handlers s h)"
      using that by (auto simp: armed_def split: if_splits)
    moreover then have "jiffies s \<le> tjiffies (handlers s h)" using ok by (auto simp: timer_linked_iff dest: timers_okD(3))
    ultimately show ?thesis using False by (simp add: order.not_eq_order_implies_strict)
  qed
  define s' where "s' = u\<lparr>jiffies := jiffies u + 1\<rparr>"
  have run: "do_timer (plain_call g) s = Some s'"
    by (simp add: do_timer_def Let_def list_nr_eq walk s'_def flip: i_def)
  have ok': "timers_ok s'"
    unfolding timers_ok_def
  proof (intro allI impI conjI ballI)
    fix j h assume j: "j < NR_TIMER_LISTS"
    show "distinct (timer_lists s' j)" using timers_okD(1) [OF U(1) j] by (simp add: s'_def)
    assume "h \<in> set (timer_lists s' j)"
    then have h: "h \<in> set (timer_lists u j)" by (simp add: s'_def)
    then have "jiffies s < tjiffies (handlers u h)" using later j by (auto simp: timer_linked_iff)
    then show "jiffies s' \<le> tjiffies (handlers s' h)" by (simp add: s'_def U(2) inc_le)
    show "timer_ok (handlers s' h)" "unat (tjiffies (handlers s' h)) mod NR_TIMER_LISTS = j"
      using timers_okD(2,4) [OF U(1) j h] by (simp_all add: s'_def)
  qed
  have "armed s' h = armed u h" for h by (simp add: armed_def s'_def)
  then show ?thesis using run ok' A U(2,3) same by (auto simp: s'_def)
qed

subsection \<open>Many timer_ticks\<close>

fun timer_ticks ::
    "(nat \<Rightarrow> u32 \<Rightarrow> 'a timers_scheme \<Rightarrow> 'a timers_scheme option) \<Rightarrow> nat \<Rightarrow> 'a timers_scheme \<Rightarrow> 'a timers_scheme option" where
  "timer_ticks call 0 s = Some s"
| "timer_ticks call (Suc n) s = do { s \<leftarrow> do_timer call s; timer_ticks call n s }"

text \<open>An armed timer stays as it is until the tick of its deadline, and that tick comes.\<close>

lemma ticks_until_due:
  assumes "timers_ok s" "timer_linked h s" "unat (tjiffies (handlers s h)) = unat (jiffies s) + n"
    and "unat (tjiffies (handlers s h)) + 2 ^ 32 < 2 ^ 64"
  shows "\<exists>s'. timer_ticks (plain_call g) n s = Some s' \<and> timers_ok s' \<and> timer_linked h s' \<and>
    jiffies s' = tjiffies (handlers s h) \<and> handlers s' h = handlers s h"
  using assms
proof (induction n arbitrary: s)
  case 0
  then show ?case by (simp add: word_unat_eq_iff)
next
  case (Suc n)
  have "unat (jiffies s) + 2 ^ 32 < 2 ^ 64" using Suc.prems by simp
  from do_timer_tick [OF Suc.prems(1) this, of g] obtain u where u:
    "do_timer (plain_call g) s = Some u" "timers_ok u" "jiffies u = jiffies s + 1"
    "same_timer (handlers s h) (handlers u h)"
    "armed u h = (if timer_linked h s \<and> tjiffies (handlers s h) = jiffies s
                  then fired (jiffies s) (handlers s h) else armed s h)" by blast
  have "tjiffies (handlers s h) \<noteq> jiffies s" using Suc.prems(3) by auto
  then have "armed u h = armed s h" using u(5) by simp
  then have a: "timer_linked h u" "tjiffies (handlers u h) = tjiffies (handlers s h)"
    "times (handlers u h) = times (handlers s h)"
    using Suc.prems(2) by (auto simp: armed_def split: if_splits)
  then have e: "handlers u h = handlers s h" using u(4) by (auto simp: same_timer_def)
  have "unat (jiffies u) = unat (jiffies s) + 1"
    unfolding u(3) by (subst unat_word_ariths(1)) (use Suc.prems in simp)
  then have "unat (tjiffies (handlers u h)) = unat (jiffies u) + n" using Suc.prems(3) e by simp
  from Suc.IH [OF u(2) a(1) this] Suc.prems(4) e show ?case by (simp add: u(1))
qed

lemma due_iff:
  assumes "timers_ok s"
  shows "h \<in> set (due s) \<longleftrightarrow> timer_linked h s \<and> tjiffies (handlers s h) = jiffies s"
  using linked_where [OF assms, of h] by (auto simp: due_def timer_linked_iff NR_TIMER_LISTS_def)

end
