(* ===== verification/Time.thy ===== *)
theory Time
  imports Div64 "HOL-Library.Signed_Division"
begin

text \<open>
  kernel/time.c and include/asm/time.h: reading the CMOS clock and turning a date into seconds.
  An \<open>int\<close> or \<open>long\<close> of the C code is an \<open>int\<close> whose every operation goes through \<open>c_int\<close>:
  \<open>None\<close> is a signed overflow, an access outside \<open>month\<close>, or a clock that never holds still.
  The clock chip is a parameter: \<open>cmos addr s\<close> is the byte \<open>CMOS_READ(addr)\<close> yields in the
  state \<open>s\<close> of the chip and the state after the read.
\<close>

subsection \<open>Dates to seconds\<close>

record tm =
  tm_sec :: int
  tm_min :: int
  tm_hour :: int
  tm_mday :: int
  tm_mon :: int
  tm_year :: int

definition MINUTE :: int where "MINUTE = 60"
definition HOUR :: int where "HOUR = 60 * MINUTE"
definition DAY :: int where "DAY = 24 * HOUR"
definition YEAR :: int where "YEAR = 365 * DAY"

definition month :: "int list" where
  "month = [0,
     DAY * 31,
     DAY * (31 + 29),
     DAY * (31 + 29 + 31),
     DAY * (31 + 29 + 31 + 30),
     DAY * (31 + 29 + 31 + 30 + 31),
     DAY * (31 + 29 + 31 + 30 + 31 + 30),
     DAY * (31 + 29 + 31 + 30 + 31 + 30 + 31),
     DAY * (31 + 29 + 31 + 30 + 31 + 30 + 31 + 31),
     DAY * (31 + 29 + 31 + 30 + 31 + 30 + 31 + 31 + 30),
     DAY * (31 + 29 + 31 + 30 + 31 + 30 + 31 + 31 + 30 + 31),
     DAY * (31 + 29 + 31 + 30 + 31 + 30 + 31 + 31 + 30 + 31 + 30)]"

definition mktime :: "tm \<Rightarrow> int option" where
  "mktime tm =
     do { year \<leftarrow> c_int (tm_year tm - 1970);
          years \<leftarrow> c_int (YEAR * year);
          y1 \<leftarrow> c_int (year + 1);
          leaps \<leftarrow> c_int (DAY * (y1 sdiv 4));
          res \<leftarrow> c_int (years + leaps);
          m \<leftarrow> (if 0 \<le> tm_mon tm \<and> tm_mon tm < 12 then Some (month ! nat (tm_mon tm)) else None);
          res \<leftarrow> c_int (res + m);
          res \<leftarrow> (if 1 < tm_mon tm
                 then do { y2 \<leftarrow> c_int (year + 2);
                           if y2 smod 4 \<noteq> 0 then c_int (res - DAY) else Some res }
                 else Some res);
          d1 \<leftarrow> c_int (tm_mday tm - 1);
          days \<leftarrow> c_int (DAY * d1);
          res \<leftarrow> c_int (res + days);
          hours \<leftarrow> c_int (HOUR * tm_hour tm);
          res \<leftarrow> c_int (res + hours);
          mins \<leftarrow> c_int (MINUTE * tm_min tm);
          res \<leftarrow> c_int (res + mins);
          c_int (res + tm_sec tm) }"

subsection \<open>The clock\<close>

definition BCD_TO_BIN :: "int \<Rightarrow> int" where
  "BCD_TO_BIN v = (v AND 15) + drop_bit 4 v * 10"

text \<open>The \<open>do ... while\<close> of \<open>arch_read_time\<close>: read everything until the seconds hold still.\<close>

partial_function (option) read_loop :: "(nat \<Rightarrow> 's \<Rightarrow> u8 \<times> 's) \<Rightarrow> 's \<Rightarrow> (tm \<times> 's) option" where
  "read_loop cmos s =
     (let (sec, s) = cmos 0 s; (min, s) = cmos 2 s; (hour, s) = cmos 4 s; (mday, s) = cmos 7 s;
          (mon, s) = cmos 8 s; (year, s) = cmos 9 s; (again, s) = cmos 0 s
      in if sec \<noteq> again then read_loop cmos s
         else Some (\<lparr>tm_sec = uint sec, tm_min = uint min, tm_hour = uint hour, tm_mday = uint mday,
                     tm_mon = uint mon - 1, tm_year = uint year\<rparr>, s))"

definition arch_read_time :: "(nat \<Rightarrow> 's \<Rightarrow> u8 \<times> 's) \<Rightarrow> 's \<Rightarrow> (tm \<times> 's) option" where
  "arch_read_time cmos s =
     do { (time, s) \<leftarrow> read_loop cmos s;
          Some (\<lparr>tm_sec = BCD_TO_BIN (tm_sec time), tm_min = BCD_TO_BIN (tm_min time),
                 tm_hour = BCD_TO_BIN (tm_hour time), tm_mday = BCD_TO_BIN (tm_mday time),
                 tm_mon = BCD_TO_BIN (tm_mon time),
                 tm_year = BCD_TO_BIN (tm_year time) + 2000\<rparr>, s) }"

text \<open>\<open>time_init\<close> yields the new \<open>startup_time\<close>.\<close>

definition time_init :: "(nat \<Rightarrow> 's \<Rightarrow> u8 \<times> 's) \<Rightarrow> 's \<Rightarrow> (int \<times> 's) option" where
  "time_init cmos s =
     do { (now, s) \<leftarrow> arch_read_time cmos s;
          startup_time \<leftarrow> mktime now;
          Some (startup_time, s) }"

definition HZ :: u32 where "HZ = 100"

text \<open>\<open>startup_time + (u32)tmp_jiffies\<close> is an unsigned sum, read back as a \<open>long\<close>.\<close>

definition current_time :: "int \<Rightarrow> u64 \<Rightarrow> int option" where
  "current_time startup_time jiffies =
     do { (tmp_jiffies, r) \<leftarrow> do_div64 jiffies HZ;
          Some (sint (word_of_int startup_time + (ucast tmp_jiffies :: u32))) }"

definition sys_time ::
    "(nat \<Rightarrow> 's \<Rightarrow> u8 \<times> 's) \<Rightarrow> int \<Rightarrow> u64 \<Rightarrow> bool \<Rightarrow> 's \<Rightarrow> (int \<times> tm option \<times> 's) option" where
  "sys_time cmos startup_time jiffies want s =
     do { (tm, s) \<leftarrow> (if want then do { (now, s) \<leftarrow> arch_read_time cmos s; Some (Some now, s) }
                    else Some (None, s));
          now \<leftarrow> current_time startup_time jiffies;
          Some (now, tm, s) }"

subsection \<open>Reference calendar\<close>

definition leap :: "nat \<Rightarrow> bool" where
  "leap y \<longleftrightarrow> 4 dvd y \<and> (\<not> 100 dvd y \<or> 400 dvd y)"

definition month_days :: "nat \<Rightarrow> nat list" where
  "month_days y = [31, if leap y then 29 else 28, 31, 30, 31, 30, 31, 31, 30, 31, 30, 31]"

definition year_days :: "nat \<Rightarrow> nat" where
  "year_days y = sum_list (month_days y)"

text \<open>Days from 1 January 1970 to day \<open>d\<close> of month \<open>m\<close> (both counted from 1) of year \<open>y\<close>.\<close>

definition epoch_days :: "nat \<Rightarrow> nat \<Rightarrow> nat \<Rightarrow> nat" where
  "epoch_days y m d = sum_list (map year_days [1970..<y]) + sum_list (take (m - 1) (month_days y)) + (d - 1)"

record date =
  d_year :: nat
  d_month :: nat
  d_day :: nat
  d_hour :: nat
  d_min :: nat
  d_sec :: nat

definition valid_date :: "date \<Rightarrow> bool" where
  "valid_date d \<longleftrightarrow> 1 \<le> d_month d \<and> d_month d \<le> 12 \<and>
     1 \<le> d_day d \<and> d_day d \<le> month_days (d_year d) ! (d_month d - 1) \<and>
     d_hour d < 24 \<and> d_min d < 60 \<and> d_sec d < 60"

definition epoch_seconds :: "date \<Rightarrow> int" where
  "epoch_seconds d = int (epoch_days (d_year d) (d_month d) (d_day d)) * 86400 +
     int (d_hour d) * 3600 + int (d_min d) * 60 + int (d_sec d)"

definition tm_of :: "date \<Rightarrow> tm" where
  "tm_of d = \<lparr>tm_sec = int (d_sec d), tm_min = int (d_min d), tm_hour = int (d_hour d),
     tm_mday = int (d_day d), tm_mon = int (d_month d) - 1, tm_year = int (d_year d)\<rparr>"

lemma leap_epoch: "y < 2100 \<Longrightarrow> 1970 \<le> y \<Longrightarrow> leap y \<longleftrightarrow> 4 dvd y"
proof -
  assume y: "y < 2100" "1970 \<le> y"
  have "100 dvd y \<longleftrightarrow> y = 2000" using y by (auto elim!: dvdE)
  then show ?thesis by (auto simp: leap_def)
qed

lemma year_days_eq: "year_days y = (if leap y then 366 else 365)"
  by (simp add: year_days_def month_days_def)

lemma years_days:
  "n \<le> 129 \<Longrightarrow> sum_list (map year_days [1970..<1970 + n]) = 365 * n + (n + 1) div 4"
proof (induction n)
  case (Suc n)
  have l: "leap (1970 + n) \<longleftrightarrow> 4 dvd (n + 2)"
    using Suc.prems by (subst leap_epoch) (auto, presburger+)
  have "(n + 2) div 4 = (n + 1) div 4 + (if 4 dvd (n + 2) then 1 else 0)" by presburger
  moreover have "[1970..<1970 + Suc n] = [1970..<1970 + n] @ [1970 + n]" by (simp only: add_Suc_right upt_Suc) simp
  ultimately show ?case using Suc l by (simp del: upt_Suc add: year_days_eq [of "1970 + n"])
qed simp

lemma months: "1 \<le> m \<Longrightarrow> m \<le> 12 \<Longrightarrow> m \<in> {1,2,3,4,5,6,7,8,9,10,11,12::nat}"
  by (simp only: insert_iff empty_iff) presburger

lemma month_table:
  assumes "1 \<le> m" "m \<le> 12"
  shows "month ! (m - 1) - (if 2 < m \<and> \<not> leap y then DAY else 0) =
    DAY * int (sum_list (take (m - 1) (month_days y)))"
proof -
  from months [OF assms] show ?thesis by (auto simp: month_def month_days_def take_Cons' nth_Cons')
qed

lemma month_days_max: "1 \<le> m \<Longrightarrow> m \<le> 12 \<Longrightarrow>
  sum_list (take (m - 1) (month_days y)) + month_days y ! (m - 1) \<le> year_days y"
proof -
  assume "1 \<le> m" "m \<le> 12"
  from months [OF this] show ?thesis by (auto simp: year_days_eq month_days_def take_Cons' nth_Cons')
qed

text \<open>The year loop of the reference is the code's closed form with its magic offsets.\<close>

lemma sdiv_nat: "0 \<le> a \<Longrightarrow> 0 < b \<Longrightarrow> (a::int) sdiv b = a div b"
  by (cases "a = 0") (simp_all add: signed_divide_int_def)

lemma smod_nat: "0 \<le> a \<Longrightarrow> 0 < b \<Longrightarrow> (a::int) smod b = a mod b"
  by (cases "a = 0") (simp_all add: signed_modulo_int_def sdiv_nat minus_div_mult_eq_mod)

lemma valid_dateD:
  assumes "valid_date d"
  shows "1 \<le> d_month d" "d_month d \<le> 12" "1 \<le> d_day d" "d_hour d < 24" "d_min d < 60" "d_sec d < 60"
    "d_day d \<le> 31" "sum_list (take (d_month d - 1) (month_days (d_year d))) + d_day d \<le> 366"
proof -
  show m: "1 \<le> d_month d" "d_month d \<le> 12" "1 \<le> d_day d" "d_hour d < 24" "d_min d < 60" "d_sec d < 60"
    using assms by (simp_all add: valid_date_def)
  have day: "d_day d \<le> month_days (d_year d) ! (d_month d - 1)" using assms by (simp add: valid_date_def)
  moreover have "month_days (d_year d) ! (d_month d - 1) \<le> 31"
    using months [OF m(1,2)] by (auto simp: month_days_def nth_Cons')
  ultimately show "d_day d \<le> 31" by simp
  have "year_days (d_year d) \<le> 366" by (simp add: year_days_eq)
  then show "sum_list (take (d_month d - 1) (month_days (d_year d))) + d_day d \<le> 366"
    using month_days_max [OF m(1,2), of "d_year d"] day by linarith
qed

lemma mktime_epoch:
  assumes "valid_date d" "1970 \<le> d_year d" "d_year d \<le> 2037"
  shows "mktime (tm_of d) = Some (epoch_seconds d)"
proof -
  note v = valid_dateD [OF assms(1)]
  define n where "n = d_year d - 1970"
  have y: "d_year d = 1970 + n" "n \<le> 67" using assms by (simp_all add: n_def)
  define M where "M = sum_list (take (d_month d - 1) (month_days (d_year d)))"
  have lp: "leap (d_year d) \<longleftrightarrow> (n + 2) mod 4 = 0"
    using assms y by (subst leap_epoch) (auto, presburger+)
  have mon: "month ! (d_month d - 1) = DAY * int M + (if 2 < d_month d \<and> \<not> leap (d_year d) then DAY else 0)"
    using month_table [OF v(1,2), of "d_year d"] by (simp add: M_def)
  have E: "epoch_seconds d = (365 * int n + int ((n + 1) div 4) + int M + int (d_day d) - 1) * 86400
      + int (d_hour d) * 3600 + int (d_min d) * 60 + int (d_sec d)"
    using v(3) years_days [of n] y by (simp add: epoch_seconds_def epoch_days_def M_def of_nat_diff del: upt_Suc)
  have q: "(n + 1) div 4 \<le> 17" using y by simp
  have nm: "nat (int (d_month d) - 1) = d_month d - 1" using v(1) by (simp add: nat_diff_distrib')
  have bM: "M + d_day d \<le> 366" using v(8) by (simp add: M_def)
  have c: "c_int x = Some x" if "- 2147483648 \<le> x" "x < 2147483648" for x
    using that by (simp add: c_int_def)
  have sm: "(int n + 2) smod 4 \<noteq> 0 \<longleftrightarrow> \<not> leap (d_year d)"
    by (simp add: smod_nat lp) presburger
  have sd: "(int n + 1) sdiv 4 = int ((n + 1) div 4)" by (simp add: sdiv_nat zdiv_int)
  show ?thesis
    using v(1-7) y q bM
    by (simp add: mktime_def tm_of_def c E mon [unfolded One_nat_def] nm sm sd YEAR_def DAY_def HOUR_def MINUTE_def)
qed

subsection \<open>Reading the clock\<close>

text \<open>How a clock chip in BCD mode holds a number of two digits.\<close>

definition bcd :: "nat \<Rightarrow> u8" where
  "bcd n = of_nat (16 * (n div 10) + n mod 10)"

definition clock_regs :: "date \<Rightarrow> nat \<Rightarrow> u8" where
  "clock_regs d = (\<lambda>_. 0)(0 := bcd (d_sec d), 2 := bcd (d_min d), 4 := bcd (d_hour d), 7 := bcd (d_day d),
     8 := bcd (d_month d), 9 := bcd (d_year d - 2000))"

text \<open>A chip whose registers hold still while they are read.\<close>

definition steady :: "(nat \<Rightarrow> u8) \<Rightarrow> nat \<Rightarrow> unit \<Rightarrow> u8 \<times> unit" where
  "steady regs = (\<lambda>a s. (regs a, s))"

lemma uint_bcd: "n < 100 \<Longrightarrow> uint (bcd n) = int (16 * (n div 10) + n mod 10)"
proof -
  assume "n < 100"
  then have "n div 10 < 10" "n mod 10 < 10" by auto
  then have "16 * (n div 10) + n mod 10 < 256" by linarith
  then have "unat (bcd n) = 16 * (n div 10) + n mod 10"
    unfolding bcd_def unat_of_nat by (intro mod_less) simp
  then show ?thesis by (metis uint_nat)
qed

lemma BCD_TO_BIN_eq: "BCD_TO_BIN v = v mod 16 + (v div 16) * 10"
proof -
  have "v AND 15 = v mod 16" using take_bit_eq_mask [of 4 v] by (simp add: take_bit_eq_mod mask_eq_exp_minus_1)
  then show ?thesis by (simp add: BCD_TO_BIN_def drop_bit_eq_div)
qed

lemma BCD_TO_BIN_bcd: "n < 100 \<Longrightarrow> BCD_TO_BIN (uint (bcd n)) = int n"
proof -
  assume n: "n < 100"
  define a b where "a = int (n div 10)" and "b = int (n mod 10)"
  have ab: "int n = 10 * a + b" "0 \<le> b" "b < 10"
    unfolding a_def b_def by (metis mult_div_mod_eq of_nat_add of_nat_mult of_nat_numeral) simp_all
  have "uint (bcd n) = 16 * a + b" using uint_bcd [OF n] by (simp add: a_def b_def)
  moreover have "(16 * a + b) mod 16 = b" "(16 * a + b) div 16 = a" using ab by simp_all
  ultimately show ?thesis using ab(1) by (simp add: BCD_TO_BIN_eq)
qed

text \<open>The month is decremented before it is decoded, which loses October.\<close>

lemma BCD_month:
  assumes "1 \<le> m" "m \<le> 12"
  shows "BCD_TO_BIN (uint (bcd m) - 1) = (if m = 10 then 15 else int m - 1)"
  using months [OF assms] by (auto simp: uint_bcd BCD_TO_BIN_eq)

lemma read_loop_steady:
  "read_loop (steady r) s = Some (\<lparr>tm_sec = uint (r 0), tm_min = uint (r 2), tm_hour = uint (r 4),
     tm_mday = uint (r 7), tm_mon = uint (r 8) - 1, tm_year = uint (r 9)\<rparr>, s)"
  by (subst read_loop.simps) (simp add: steady_def)

lemma arch_read_time_steady:
  assumes "valid_date d" "2000 \<le> d_year d" "d_year d < 2100"
  shows "arch_read_time (steady (clock_regs d)) s =
    Some ((tm_of d)\<lparr>tm_mon := if d_month d = 10 then 15 else int (d_month d) - 1\<rparr>, s)"
proof -
  note v = valid_dateD [OF assms(1)]
  show ?thesis
    using v assms(2,3)
    by (simp add: arch_read_time_def read_loop_steady clock_regs_def BCD_TO_BIN_bcd BCD_month tm_of_def of_nat_diff)
qed

lemma time_init_steady:
  assumes "valid_date d" "2000 \<le> d_year d" "d_year d \<le> 2037"
  shows "time_init (steady (clock_regs d)) s =
    (if d_month d = 10 then None else Some (epoch_seconds d, s))"
proof (cases "d_month d = 10")
  case True
  then show ?thesis using arch_read_time_steady [of d s] assms
    by (simp add: time_init_def mktime_def tm_of_def split: bind_splits)
next
  case False
  have "(tm_of d)\<lparr>tm_mon := int (d_month d) - 1\<rparr> = tm_of d" by (simp add: tm_of_def)
  then show ?thesis using arch_read_time_steady [of d s] mktime_epoch [of d] assms False
    by (simp add: time_init_def)
qed

lemma current_time_eq:
  assumes "0 \<le> t0" "t0 + int (unat j div 100) < 2 ^ 31"
  shows "current_time t0 j = Some (t0 + int (unat j div 100))"
proof -
  obtain q r where qr: "do_div64 j HZ = Some (q, r)" "unat q = unat j div 100"
    using do_div64_spec [of HZ j] by (auto simp: HZ_def)
  have u: "uint (word_of_int t0 + (ucast q :: u32)) = t0 + int (unat j div 100)"
  proof -
    have "ucast q = (word_of_int (int (unat j div 100)) :: u32)"
      using qr(2) by (simp add: ucast_eq uint_nat)
    then have "(word_of_int t0 + (ucast q :: u32)) = word_of_int (t0 + int (unat j div 100))"
      by simp
    then show ?thesis using assms by (simp only: uint_word_of_int_eq) (simp add: take_bit_int_eq_self_iff)
  qed
  then show ?thesis using assms by (simp add: current_time_def qr(1) sint_cases)
qed

end
