(* ===== verification/Irq.thy ===== *)
theory Irq
  imports Prelude
begin

text \<open>
  kernel/irq.c and include/asm/irq.h: the table of interrupt handlers and the two mask registers
  of the interrupt controllers.  A handler is a pointer to code elsewhere, \<open>call f\<close> is what it
  does.  \<open>imr\<close> holds the mask registers by their port: reading the port yields the byte last
  written to it (8259A, OCW1 and IMR).  \<open>None\<close> is a failed \<open>BUG_ON\<close> or an access outside \<open>irqs\<close>.
\<close>

subsection \<open>State\<close>

definition NR_IRQS :: nat where "NR_IRQS = 16"

record irq_desc =
  irq_name :: "u8 list option"
  irq_handler :: "nat option"
  irq_disable_count :: u32

record irqs =
  irq_descs :: "nat \<Rightarrow> irq_desc"
  imr :: "u32 \<Rightarrow> u8"

subsection \<open>The controllers\<close>

text \<open>The port of a line's controller and the line's number there.\<close>

definition irq_port :: "nat \<Rightarrow> u32 \<times> nat" where
  "irq_port irq = (if 8 \<le> irq then (0xA1, irq - 8) else (0x21, irq))"

definition arch_enable_irq :: "nat \<Rightarrow> 'a irqs_scheme \<Rightarrow> 'a irqs_scheme" where
  "arch_enable_irq irq s =
     (let (port, irq) = irq_port irq
      in s\<lparr>imr := (imr s)(port := ucast (ucast (imr s port) AND NOT (BIT irq)))\<rparr>)"

definition arch_disable_irq :: "nat \<Rightarrow> 'a irqs_scheme \<Rightarrow> 'a irqs_scheme" where
  "arch_disable_irq irq s =
     (let (port, irq) = irq_port irq
      in s\<lparr>imr := (imr s)(port := ucast (ucast (imr s port) AND BIT irq))\<rparr>)"

text \<open>The last two bytes \<open>i8259_init\<close> writes mask every line.\<close>

definition i8259_init :: "'a irqs_scheme \<Rightarrow> 'a irqs_scheme" where
  "i8259_init s = s\<lparr>imr := (imr s)(0x21 := 0xFF, 0xA1 := 0xFF)\<rparr>"

subsection \<open>Operations\<close>

definition do_irq ::
    "(nat \<Rightarrow> 'a irqs_scheme \<Rightarrow> 'a irqs_scheme option) \<Rightarrow> nat \<Rightarrow> 'a irqs_scheme \<Rightarrow> 'a irqs_scheme option" where
  "do_irq call irq s =
     do { bug_on (NR_IRQS \<le> irq);
          (case irq_handler (irq_descs s irq) of None \<Rightarrow> Some s | Some f \<Rightarrow> call f s) }"

definition set_desc :: "nat \<Rightarrow> (irq_desc \<Rightarrow> irq_desc) \<Rightarrow> 'a irqs_scheme \<Rightarrow> 'a irqs_scheme" where
  "set_desc irq f s = s\<lparr>irq_descs := (irq_descs s)(irq := f (irq_descs s irq))\<rparr>"

definition enable_irq :: "nat \<Rightarrow> 'a irqs_scheme \<Rightarrow> 'a irqs_scheme option" where
  "enable_irq irq s =
     (if NR_IRQS \<le> irq then None
      else if irq_disable_count (irq_descs s irq) \<noteq> 0
      then Some (set_desc irq (irq_disable_count_update (\<lambda>n. n - 1)) s)
      else Some (arch_enable_irq irq s))"

definition disable_irq :: "nat \<Rightarrow> 'a irqs_scheme \<Rightarrow> 'a irqs_scheme option" where
  "disable_irq irq s =
     (if NR_IRQS \<le> irq then None
      else let s = (if irq_disable_count (irq_descs s irq) = 0 then arch_disable_irq irq s else s)
           in Some (set_desc irq (irq_disable_count_update (\<lambda>n. n + 1)) s))"

definition request_irq :: "nat \<Rightarrow> nat \<Rightarrow> u8 list \<Rightarrow> 'a irqs_scheme \<Rightarrow> (int \<times> 'a irqs_scheme) option" where
  "request_irq irq handler name s =
     do { bug_on (NR_IRQS \<le> irq);
          if irq_handler (irq_descs s irq) = None \<and> length name \<noteq> 0
          then Some (SUCCESS, set_desc irq (\<lambda>d. d\<lparr>irq_handler := Some handler, irq_name := Some name\<rparr>) s)
          else Some (err ERROR, s) }"

definition free_irq :: "nat \<Rightarrow> 'a irqs_scheme \<Rightarrow> 'a irqs_scheme option" where
  "free_irq irq s =
     do { bug_on (NR_IRQS \<le> irq);
          Some (set_desc irq (\<lambda>d. d\<lparr>irq_handler := None, irq_name := None\<rparr>) s) }"

subsection \<open>Which lines are masked\<close>

definition masked :: "'a irqs_scheme \<Rightarrow> nat \<Rightarrow> bool" where
  "masked s irq = (case irq_port irq of (port, n) \<Rightarrow> bit (imr s port) n)"

lemma set_desc_simps [simp]:
  "imr (set_desc irq f s) = imr s" "masked (set_desc irq f s) k = masked s k"
  "irq_descs (set_desc irq f s) k = (if k = irq then f (irq_descs s irq) else irq_descs s k)"
  by (simp_all add: set_desc_def masked_def)

lemma arch_irq_descs [simp]:
  "irq_descs (arch_enable_irq irq s) = irq_descs s" "irq_descs (arch_disable_irq irq s) = irq_descs s"
  by (simp_all add: arch_enable_irq_def arch_disable_irq_def split: prod.splits)

lemma irq_port_lt: "irq < NR_IRQS \<Longrightarrow> irq_port irq = (p, n) \<Longrightarrow> n < 8"
  by (auto simp: irq_port_def NR_IRQS_def split: if_splits)

lemma irq_port_inj: "irq < NR_IRQS \<Longrightarrow> irq' < NR_IRQS \<Longrightarrow> irq_port irq = irq_port irq' \<longleftrightarrow> irq = irq'"
  by (auto simp: irq_port_def NR_IRQS_def split: if_splits)

lemma masked_enable:
  assumes "irq < NR_IRQS" "k < NR_IRQS"
  shows "masked (arch_enable_irq irq s) k \<longleftrightarrow> masked s k \<and> k \<noteq> irq"
proof -
  obtain p n where pn: "irq_port irq = (p, n)" by fastforce
  obtain p' n' where pn': "irq_port k = (p', n')" by fastforce
  have n: "n < 8" "n' < 8" using irq_port_lt assms pn pn' by blast+
  have "irq = k \<longleftrightarrow> p = p' \<and> n = n'" using irq_port_inj [OF assms] pn pn' by auto
  then show ?thesis using n
    by (auto simp: masked_def arch_enable_irq_def pn pn' bit_simps)
qed

text \<open>\<open>arch_disable_irq\<close> keeps one bit of the mask and clears all others.\<close>

lemma masked_disable:
  assumes "irq < NR_IRQS" "k < NR_IRQS"
  shows "masked (arch_disable_irq irq s) k \<longleftrightarrow>
    masked s k \<and> (k = irq \<or> fst (irq_port k) \<noteq> fst (irq_port irq))"
proof -
  obtain p n where pn: "irq_port irq = (p, n)" by fastforce
  obtain p' n' where pn': "irq_port k = (p', n')" by fastforce
  have n: "n < 8" "n' < 8" using irq_port_lt assms pn pn' by blast+
  have "irq = k \<longleftrightarrow> p = p' \<and> n = n'" using irq_port_inj [OF assms] pn pn' by auto
  then show ?thesis using n
    by (auto simp: masked_def arch_disable_irq_def pn pn' bit_simps)
qed

text \<open>
  \<open>disable_irq\<close> never masks a line: the line it is called for stays as it was, and the other lines
  of its controller are unmasked.
\<close>

lemma disable_irq_masks_nothing:
  assumes "irq < NR_IRQS" "disable_irq irq s = Some s'" "k < NR_IRQS" "masked s' k"
  shows "masked s k"
  using assms by (auto simp: disable_irq_def masked_disable split: if_splits)

lemma enable_irq_spec:
  assumes "irq < NR_IRQS" "irq_disable_count (irq_descs s irq) = 0"
  shows "\<exists>s'. enable_irq irq s = Some s' \<and> (\<forall>k<NR_IRQS. masked s' k \<longleftrightarrow> masked s k \<and> k \<noteq> irq)"
  using assms by (simp add: enable_irq_def masked_enable)

text \<open>A handler once requested answers its line until it is freed, and nobody can take it over.\<close>

lemma request_irq_exclusive:
  assumes "request_irq irq h name s = Some (SUCCESS, s')" "h' \<noteq> h"
  shows "request_irq irq h' name' s' = Some (err ERROR, s')" "do_irq call irq s' = call h s'"
    "free_irq irq s' = Some s'' \<Longrightarrow> name' \<noteq> [] \<Longrightarrow> \<exists>t. request_irq irq h' name' s'' = Some (SUCCESS, t)"
  using assms by (auto simp: request_irq_def free_irq_def do_irq_def bug_on_def split: if_splits option.splits)

end
