(* ===== verification/Boot.thy ===== *)
theory Boot
  imports Printk Entry Timer Time Irq
begin

text \<open>
  init/main.c, kernel/initcall.c, include/sins/init.h and arch/timer.c: how the kernel starts.  The
  functions called on the way are modelled in other theories, on states of their own; here they are
  arguments on one state, and what is modelled is their order, and where the start ends in a panic.
\<close>

subsection \<open>Initialisers\<close>

datatype initcall_level = Pure | Arch | Archdone | Subsys | Fs_level | Device

text \<open>A \<open>initcall_t\<close>: the addresses of its name and of its function, and the function.\<close>

record 's initcall =
  ic_name :: u32
  ic_handler :: u32
  ic_call :: "'s \<Rightarrow> (int \<times> 's) option"

text \<open>The start goes on, or the kernel has panicked.\<close>

datatype 's start = Started 's | Panicked 's

fun initcall_loop ::
    "('a klog_scheme) print_env \<Rightarrow> ('a klog_scheme) initcall list \<Rightarrow> 'a klog_scheme \<Rightarrow> ('a klog_scheme) start option" where
  "initcall_loop pe [] s = Some (Started s)"
| "initcall_loop pe (c # cs) s =
     do { (i, s) \<leftarrow> printk pe (lit (''handler = %p, name = %s'' @ [CHR 0x0A])) [ic_handler c, ic_name c] s;
          (res, s) \<leftarrow> ic_call c s;
          if FAILED res
          then do { s \<leftarrow> panic pe (lit (''initcall function: %s failed, error code %d.'' @ [CHR 0x0A]))
                           [ic_name c, word_of_int res] s;
                    Some (Panicked s) }
          else initcall_loop pe cs s }"

text \<open>The table of a level is at \<open>begin\<close>; an entry has eight bytes.\<close>

definition do_initcalls ::
    "('a klog_scheme) print_env \<Rightarrow> u32 \<Rightarrow> ('a klog_scheme) initcall list \<Rightarrow> 'a klog_scheme \<Rightarrow>
     ('a klog_scheme) start option" where
  "do_initcalls pe begin' cs s =
     do { (i, s) \<leftarrow> printk pe (lit (''begin = %p, end = %p'' @ [CHR 0x0A])) [begin', begin' + 8 * of_nat (length cs)] s;
          initcall_loop pe cs s }"

text \<open>A step after which the start goes on only if it has not panicked.\<close>

fun go_on :: "('s \<Rightarrow> ('s start) option) \<Rightarrow> 's start \<Rightarrow> ('s start) option" where
  "go_on f (Started s) = f s"
| "go_on f (Panicked s) = Some (Panicked s)"

subsection \<open>start_kernel\<close>

record 's parts =
  p_level :: "initcall_level \<Rightarrow> u32 \<times> 's initcall list"
  p_time_init :: "'s \<Rightarrow> 's option"
  p_parse_boot_params :: "u32 \<Rightarrow> u32 \<Rightarrow> 's \<Rightarrow> 's option"
  p_timer_init :: "'s \<Rightarrow> 's option"
  p_mm_init :: "'s \<Rightarrow> 's option"
  p_sched_init :: "'s \<Rightarrow> 's option"
  p_irq :: "bool \<Rightarrow> 's \<Rightarrow> 's"
  p_kernel_thread :: "u8 list \<Rightarrow> 's \<Rightarrow> 's option"

definition do_level ::
    "('a klog_scheme) print_env \<Rightarrow> ('a klog_scheme) parts \<Rightarrow> initcall_level \<Rightarrow> 'a klog_scheme \<Rightarrow>
     ('a klog_scheme) start option" where
  "do_level pe p l s = (case p_level p l of (begin', cs) \<Rightarrow> do_initcalls pe begin' cs s)"

definition start_kernel ::
    "('a klog_scheme) print_env \<Rightarrow> ('a klog_scheme) parts \<Rightarrow> u32 \<Rightarrow> u32 \<Rightarrow> 'a klog_scheme \<Rightarrow>
     ('a klog_scheme) start option" where
  "start_kernel pe p magic addr s =
     do { x \<leftarrow> do_level pe p Pure (p_irq p False s);
          go_on (\<lambda>s. do {
            s \<leftarrow> p_time_init p s;
            s \<leftarrow> p_parse_boot_params p magic addr s;
            s \<leftarrow> p_timer_init p s;
            x \<leftarrow> do_level pe p Arch s;
            go_on (\<lambda>s. do {
              x \<leftarrow> do_level pe p Archdone s;
              go_on (\<lambda>s. do {
                s \<leftarrow> p_mm_init p s;
                s \<leftarrow> p_sched_init p s;
                x \<leftarrow> do_level pe p Subsys s;
                go_on (\<lambda>s. do {
                  x \<leftarrow> do_level pe p Fs_level s;
                  go_on (\<lambda>s. do {
                    s \<leftarrow> p_kernel_thread p (lit ''init'') (p_irq p True s);
                    Some (Started s) }) x }) x }) x }) x }) x }"

subsection \<open>The init thread\<close>

text \<open>
  \<open>init\<close>: system calls by way of the stubs, as a program makes them; literals are addresses.
  When \<open>exec\<close> works it does not return here, and the loop of \<open>wait_chld\<close> is reached by no path but a
  result of \<open>exec\<close> that is not an error.
\<close>

definition init_thread ::
    "('a klog_scheme) print_env \<Rightarrow> ('a klog_scheme) parts \<Rightarrow>
     (syscall \<Rightarrow> u32 list \<Rightarrow> 'a klog_scheme \<Rightarrow> (u32 \<times> 'a klog_scheme) option) \<Rightarrow> 'a klog_scheme \<Rightarrow>
     ('a klog_scheme) start option" where
  "init_thread pe p call s =
     do { x \<leftarrow> do_level pe p Device s;
          go_on (\<lambda>s. do {
            (tty_fd, s) \<leftarrow> call Sys_open [of_nat (p_lit pe (lit ''/dev/tty'')), 0] s;
            if tty_fd <s 0
            then do { s \<leftarrow> panic pe (lit ''BUG on %s(%s:%d), %s'')
                             [of_nat (p_lit pe (lit ''init'')), of_nat (p_lit pe (lit ''init/main.c'')), 26,
                              of_nat (p_lit pe (lit ''/dev/tty could not be opened.''))] s;
                      Some (Panicked s) }
            else do {
              (r, s) \<leftarrow> call Sys_dup [tty_fd] s;
              (r, s) \<leftarrow> call Sys_dup [tty_fd] s;
              (ret, s) \<leftarrow> call Sys_exec [of_nat (p_lit pe (lit ''/bin/sh'')), 0, 0] s;
              (r, s) \<leftarrow> call Sys_close [0] s;
              (r, s) \<leftarrow> call Sys_close [1] s;
              (r, s) \<leftarrow> call Sys_close [2] s;
              if ret <s 0
              then do { s \<leftarrow> panic pe (lit (''exec returns %d.'' @ [CHR 0x0A] @ ''Please add 'sh' program to disk.'' @ [CHR 0x0A]))
                               [ret] s;
                        Some (Panicked s) }
              else Some (Started s) } }) x }"

text \<open>One turn of its endless loop; \<open>chld_pid\<close> is the address of the local variable.\<close>

definition init_turn ::
    "('a klog_scheme) print_env \<Rightarrow> (syscall \<Rightarrow> u32 list \<Rightarrow> 'a klog_scheme \<Rightarrow> (u32 \<times> 'a klog_scheme) option) \<Rightarrow>
     u32 \<Rightarrow> (u32 \<Rightarrow> 'a klog_scheme \<Rightarrow> u32) \<Rightarrow> 'a klog_scheme \<Rightarrow> 'a klog_scheme option" where
  "init_turn pe call chld_pid load s =
     do { (ret, s) \<leftarrow> call Sys_wait_chld [chld_pid] s;
          (i, s) \<leftarrow> printk pe (lit ''INIT:child[%d] returns %d.'') [load chld_pid s, ret] s;
          Some s }"

subsection \<open>The timer interrupt (arch/timer.c)\<close>

text \<open>The scheduler beside the timers.\<close>

record clockwork = timers +
  clk_sched :: sched

definition timer_handler ::
    "(nat \<Rightarrow> u32 \<Rightarrow> 'a clockwork_scheme \<Rightarrow> 'a clockwork_scheme option) \<Rightarrow> 'a clockwork_scheme \<Rightarrow> 'a clockwork_scheme option" where
  "timer_handler call s =
     do { s \<leftarrow> do_timer call s; t \<leftarrow> sched_tick (clk_sched s); Some (s\<lparr>clk_sched := t\<rparr>) }"

definition LATCH :: nat where "LATCH = 1193180 div unat HZ"
definition IRQ_TIMER :: nat where "IRQ_TIMER = 0"

text \<open>The bytes written to the ports of the timer chip, and the interrupt line; \<open>handler\<close> is the number
  of \<open>timer_handler\<close>.\<close>

definition timer_setup ::
    "nat \<Rightarrow> (nat \<times> nat) list \<times> 'a irqs_scheme \<Rightarrow> (int \<times> (nat \<times> nat) list \<times> 'a irqs_scheme) option" where
  "timer_setup handler x =
     (case x of (ports, s) \<Rightarrow>
        do { (res, s) \<leftarrow> request_irq IRQ_TIMER handler (lit ''timer'') s;
             if FAILED res then Some (err ERROR, ports, s)
             else do { s \<leftarrow> enable_irq IRQ_TIMER s;
                       Some (res, ports @ [(0x43, 0x36), (0x40, LATCH mod 256), (0x40, LATCH div 256)], s) } })"

end
