(* ===== verification/Clock_Props.thy ===== *)
theory Clock_Props
  imports Time Timer Irq Console
begin

text \<open>
  Properties of the clock, the timers, the interrupt lines and the text screen.
\<close>

subsection \<open>The calendar\<close>

text \<open>C24: From 1970 to 2037 \<open>mktime\<close> counts the seconds from the start of 1970 to a date exactly as
  the calendar does, leap years included, without an overflow.\<close>

theorem mktime_counts_seconds:
  assumes "valid_date d" "1970 \<le> d_year d" "d_year d \<le> 2037"
  shows "mktime (tm_of d) = Some (epoch_seconds d)"
  by (rule mktime_epoch [OF assms])

definition ex_date :: "nat \<Rightarrow> date" where
  "ex_date m = \<lparr>d_year = 2024, d_month = m, d_day = 29, d_hour = 23, d_min = 59, d_sec = 58\<rparr>"

lemma ex_date_ok: "m \<in> {2, 10} \<Longrightarrow> valid_date (ex_date m)"
  by (auto simp: valid_date_def ex_date_def month_days_def leap_def)

theorem mktime_counts_seconds_witness:
  "valid_date (ex_date 2) \<and> mktime (tm_of (ex_date 2)) = Some (epoch_seconds (ex_date 2))"
  using mktime_counts_seconds [of "ex_date 2"] ex_date_ok [of 2] by (simp add: ex_date_def)

text \<open>C34: \<open>time_init\<close> sets the clock right from the registers of the clock chip, except in October: the
  month is decremented before it is decoded from BCD, so October (0x10) becomes 15 and \<open>mktime\<close> reads
  behind the table of months.\<close>

theorem time_init_fails_in_october:
  assumes "valid_date d" "2000 \<le> d_year d" "d_year d \<le> 2037"
  shows "time_init (steady (clock_regs d)) s = (if d_month d = 10 then None else Some (epoch_seconds d, s))"
  by (rule time_init_steady [OF assms])

theorem time_init_fails_in_october_witness:
  "time_init (steady (clock_regs (ex_date 10))) () = None \<and>
   time_init (steady (clock_regs (ex_date 2))) () = Some (epoch_seconds (ex_date 2), ())"
proof -
  have "2000 \<le> d_year (ex_date m)" "d_year (ex_date m) \<le> 2037" "d_month (ex_date m) = m" for m
    by (simp_all add: ex_date_def)
  then show ?thesis
    using time_init_fails_in_october [of "ex_date 10" "()"] time_init_fails_in_october [of "ex_date 2" "()"]
      ex_date_ok by simp
qed

subsection \<open>Timers\<close>

text \<open>C22: A tick of the timer wheel is a tick of a map from timers to deadlines.  It never fails; it
  calls the functions of exactly the timers whose deadline it is; such a timer is armed again, one
  period later with its count reduced, or gone after its last time; all others stay as they were.\<close>

theorem do_timer_refines:
  assumes "timers_ok s" and "unat (jiffies s) + 2 ^ 32 < 2 ^ 64"
  shows "\<exists>s'. do_timer (plain_call g) s = Some s' \<and> timers_ok s' \<and> jiffies s' = jiffies s + 1 \<and>
    set (due s) = {h. timer_linked h s \<and> tjiffies (handlers s h) = jiffies s} \<and>
    timers.more s' = fold (\<lambda>h. run_function g (handlers s h)) (due s) (timers.more s) \<and>
    (\<forall>h. armed s' h = (if timer_linked h s \<and> tjiffies (handlers s h) = jiffies s
                      then fired (jiffies s) (handlers s h) else armed s h))"
  using do_timer_tick [OF assms, of g] due_iff [OF assms(1)] by blast

definition ex_timers :: "nat timers_scheme" where
  "ex_timers = \<lparr>handlers = (\<lambda>_. \<lparr>expires = 60, tjiffies = 7, tfunction = Some 0, tdata = 0, times = 3\<rparr>),
     jiffies = 7, timer_lists = (\<lambda>i. if i = 7 then [64] else []), \<dots> = 0\<rparr>"

lemma ex_timers_ok: "timers_ok ex_timers" "timer_linked 64 ex_timers" "jiffies ex_timers = 7"
  by (auto simp: timers_ok_def ex_timers_def timer_ok_def NR_TIMER_LISTS_def timer_linked_def)

theorem do_timer_refines_witness:
  "\<exists>s'. do_timer (plain_call (\<lambda>_ _ n. n + 1)) ex_timers = Some s' \<and> armed s' 64 = Some (67, 2)"
proof -
  obtain s' where "do_timer (plain_call (\<lambda>_ _ n. n + 1)) ex_timers = Some s'"
    "armed s' 64 = fired 7 (handlers ex_timers 64)"
    using do_timer_refines [OF ex_timers_ok(1), of "\<lambda>_ _ n. n + 1"] ex_timers_ok(2,3)
    by (auto simp: ex_timers_def)
  then show ?thesis by (auto simp: fired_def ex_timers_def TIMER_INFINITE_def)
qed

text \<open>C23: A timer runs when it is due: after as many ticks as its deadline is away, none of which
  fails, its deadline is the current time, it is still armed and it is among those the next tick calls.\<close>

theorem timer_due_in_time:
  assumes "timers_ok s" "timer_linked h s" "unat (tjiffies (handlers s h)) = unat (jiffies s) + n"
    and "unat (tjiffies (handlers s h)) + 2 ^ 32 < 2 ^ 64"
  shows "\<exists>s'. timer_ticks (plain_call g) n s = Some s' \<and> h \<in> set (due s') \<and> handlers s' h = handlers s h"
proof -
  from ticks_until_due [OF assms, of g] obtain s' where
    "timer_ticks (plain_call g) n s = Some s'" "timers_ok s'" "timer_linked h s'"
    "jiffies s' = tjiffies (handlers s h)" "handlers s' h = handlers s h" by blast
  then show ?thesis by (auto simp: due_iff)
qed

theorem timer_due_in_time_witness:
  "\<exists>s'. timer_ticks (plain_call (\<lambda>_ _ n. n + 1)) 5 (ex_timers\<lparr>jiffies := 2\<rparr>) = Some s' \<and> 64 \<in> set (due s')"
proof -
  have "timers_ok (ex_timers\<lparr>jiffies := 2\<rparr>)"
    by (auto simp: timers_ok_def ex_timers_def timer_ok_def NR_TIMER_LISTS_def)
  from timer_due_in_time [OF this, of 64 5 "\<lambda>_ _ n. n + 1"] show ?thesis
    by (auto simp: ex_timers_def timer_linked_def NR_TIMER_LISTS_def)
qed

subsection \<open>Interrupt lines\<close>

text \<open>C35: \<open>disable_irq\<close> never masks a line.  The mask register is combined with \<open>&\<close> instead of \<open>|\<close>: the
  line asked for keeps its state and every other line of the same controller is unmasked, so a line
  that was enabled goes on interrupting.  \<open>enable_irq\<close> of a line not disabled unmasks exactly that line.\<close>

theorem disable_irq_masks_nothing_else_unmasks:
  assumes "irq < NR_IRQS" "k < NR_IRQS" "irq_disable_count (irq_descs s irq) = 0"
  shows "(\<exists>s'. disable_irq irq s = Some s' \<and>
      (masked s' k \<longleftrightarrow> masked s k \<and> (k = irq \<or> fst (irq_port k) \<noteq> fst (irq_port irq)))) \<and>
    (\<exists>s'. enable_irq irq s = Some s' \<and> (masked s' k \<longleftrightarrow> masked s k \<and> k \<noteq> irq))"
  using assms by (auto simp: disable_irq_def enable_irq_def masked_disable masked_enable)

definition ex_irqs :: irqs where
  "ex_irqs = i8259_init \<lparr>irq_descs = (\<lambda>_. \<lparr>irq_name = None, irq_handler = None, irq_disable_count = 0\<rparr>), imr = (\<lambda>_. 0)\<rparr>"

theorem disable_irq_masks_nothing_else_unmasks_witness:
  "\<exists>s'. disable_irq 1 ex_irqs = Some s' \<and> masked ex_irqs 4 \<and> \<not> masked s' 4"
proof -
  have "masked ex_irqs 4" by (simp add: masked_def ex_irqs_def i8259_init_def irq_port_def)
  with disable_irq_masks_nothing_else_unmasks [of 1 4 ex_irqs] show ?thesis
    by (auto simp: NR_IRQS_def ex_irqs_def i8259_init_def irq_port_def)
qed

subsection \<open>The text screen\<close>

text \<open>C25: Whatever is printed, the screen stays well-formed (cursor inside the screen, the visible lines
  inside video memory) and no byte outside video memory is written.\<close>

theorem con_write_stays_on_screen:
  assumes "screen_ok s"
  shows "screen_ok (con_write buf s) \<and> keeps_memory s (con_write buf s) \<and> screen_ok (con_init s)"
  using con_write_ok [OF assms] con_init_ok by blast

definition ex_screen :: screen where
  "ex_screen = con_init \<lparr>vmem = (\<lambda>_. 0), origin = 0, scr_end = 0, cpos = 0, cx = 0, cy = 0, crtc_origin = 0, crtc_cursor = 0\<rparr>"

theorem con_write_stays_on_screen_witness: "screen_ok (con_write [104, 105, 10, 9, 8, 7] ex_screen)"
  using con_write_stays_on_screen [of ex_screen] con_init_ok by (simp add: ex_screen_def)

end
