(* ===== verification/Cstring_Props.thy ===== *)
theory Cstring_Props
  imports Cstring_Spec
begin

text \<open>
  The correctness properties of lib/string.c and lib/ctype.c, each with a witness on a concrete
  memory.
\<close>

text \<open>\<open>memmove\<close> succeeds on every readable source and writable destination, however they overlap:
  afterwards the destination holds the bytes the source held before, and every byte outside the
  destination is unchanged.\<close>

theorem memmove_correct:
  assumes "bytes m src bs" and "writable m dest (length bs)"
  shows "\<exists>m'. memmove m dest src (length bs) = Some m' \<and> bytes m' dest bs \<and>
    (\<forall>x. x < dest \<or> dest + length bs \<le> x \<longrightarrow> m' x = m x)"
  using memmove_spec [OF assms] mwrite_bytes mwrite_other by blast

lemma memmove_correct_witness:
  "\<exists>m'. memmove (mwrite Map.empty 4 [1, 2, 3, 4]) 5 4 3 = Some m' \<and> bytes m' 5 [1, 2, 3]"
  using memmove_correct [of "mwrite Map.empty 4 [1, 2, 3, 4]" 4 "[1, 2, 3]" 5]
  by (auto simp: numeral_3_eq_3 mset_apply)

text \<open>\<open>strcpy\<close> and \<open>strcat\<close> build the string they should and touch nothing else, \<open>strncpy\<close> writes
  the first \<open>n\<close> bytes of the terminated source, and \<open>strlen\<close> measures the result, when the
  destination has room and the areas are disjoint.\<close>

theorem string_copies:
  assumes "cstr m dest t" and "cstr m src s" and "writable m dest (Suc (length t + length s))"
    and "dest + length t + length s < src \<or> src + length s < dest"
  shows "strcpy m dest src = Some (mwrite m dest (s @ [0])) \<and>
    strncpy m dest src n = Some (mwrite m dest (take n (s @ [0]))) \<and>
    strcat m dest src = Some (mwrite m (dest + length t) (s @ [0])) \<and>
    strlen (mwrite m (dest + length t) (s @ [0])) dest = Some (length t + length s) \<and>
    strlen (mwrite m dest (s @ [0])) dest = Some (length s)"
proof -
  have 0: "0 \<notin> set s" using assms(2) by (simp add: cstr_def)
  have w: "writable m dest (Suc (length s))" "writable m dest (min n (Suc (length s)))"
    by (rule writable_le [OF assms(3)], simp)+
  show ?thesis
    using strcpy_spec [OF assms(2) w(1)] strncpy_spec [OF assms(2) w(2)] strcat_spec [OF assms(1,2,3)] assms(4)
      strlen_spec [of "mwrite m (dest + length t) (s @ [0])" dest "t @ s"]
      strlen_spec [OF mwrite_cstr [OF 0]]
    by auto
qed

lemma string_copies_witness:
  "strlen (mwrite (mwrite (mwrite Map.empty 20 [7, 0]) 1 [5, 6, 0, 0]) 3 [7, 0]) 1 = Some 3"
proof -
  have "writable (mwrite (mwrite Map.empty 20 [7, 0]) 1 [5, 6, 0, 0]) 1 4"
    by (rule writable_bytes [OF mwrite_bytes]) simp
  then have "strlen (mwrite (mwrite (mwrite Map.empty 20 [7, 0]) 1 [5, 6, 0, 0]) (1 + length [5, 6 :: u8]) ([7] @ [0])) 1 =
      Some (length [5, 6 :: u8] + length [7 :: u8])"
    by (intro string_copies [of _ 1 "[5, 6]" 20 "[7]" 0, THEN conjunct2, THEN conjunct2, THEN conjunct2, THEN conjunct1])
      (auto simp: mset_apply)
  then show ?thesis by (simp del: mwrite_simps add: eval_nat_numeral)
qed

text \<open>Comparing two strings with \<open>strcmp\<close>, their first \<open>n\<close> characters with \<open>strncmp\<close> or
  \<open>strnicmp\<close>: the result is zero exactly if they are equal (up to case for \<open>strnicmp\<close>), and, since
  the difference is truncated to a \<open>signed char\<close>, its sign is the lexicographic order for ASCII
  strings.\<close>

theorem string_comparisons:
  assumes "cstr m a s" and "cstr m b t"
  shows "\<exists>r r' r''. strcmp m a b = Some r \<and> strncmp m a b n = Some r' \<and> strnicmp m a b n = Some r'' \<and>
    (r = 0 \<longleftrightarrow> s = t) \<and> (r' = 0 \<longleftrightarrow> take n s = take n t) \<and>
    (r'' = 0 \<longleftrightarrow> List.map tolower (take n s) = List.map tolower (take n t)) \<and>
    (ascii s \<and> ascii t \<longrightarrow> (r < 0 \<longleftrightarrow> ord_class.lexordp s t) \<and>
       (r' < 0 \<longleftrightarrow> ord_class.lexordp (take n s) (take n t)))"
proof -
  obtain q where q: "strnicmp_loop m a b n 0 0 = Some q"
    "fst q = snd q \<longleftrightarrow> List.map tolower (take n s) = List.map tolower (take n t)"
    using strnicmp_spec [OF assms, of n 0] by blast
  have "strnicmp m a b n = Some (uint (fst q) - uint (snd q))"
    using q(1) by (simp add: strnicmp_def split: prod.splits)
  moreover have "uint (fst q) - uint (snd q) = 0 \<longleftrightarrow> fst q = snd q"
    by (simp add: word_uint_eq_iff)
  ultimately show ?thesis
    using strcmp_spec [OF assms] strncmp_spec [OF assms, of n] q(2) by (simp add: strncmp_def) blast
qed

lemma string_comparisons_witness:
  "\<exists>r r' r''. strcmp (mwrite (mwrite Map.empty 1 [97, 66, 0]) 9 [97, 98, 0]) 1 9 = Some r \<and>
     strncmp (mwrite (mwrite Map.empty 1 [97, 66, 0]) 9 [97, 98, 0]) 1 9 1 = Some r' \<and>
     strnicmp (mwrite (mwrite Map.empty 1 [97, 66, 0]) 9 [97, 98, 0]) 1 9 1 = Some r'' \<and> r \<noteq> 0 \<and> r' = 0"
  using string_comparisons [of "mwrite (mwrite Map.empty 1 [97, 66, 0]) 9 [97, 98, 0]" 1 "[97, 66]" 9 "[97, 98]" 1]
  by (auto simp: mset_apply)

text \<open>The searches return the first (\<open>strchr\<close>, \<open>strpbrk\<close>, \<open>strstr\<close>) or the last (\<open>strrchr\<close>)
  place where the character, one of the characters, or the string occurs, and \<open>NULL\<close> when there is
  none; \<open>strspn\<close> measures the longest prefix of accepted characters.\<close>

theorem string_searches:
  assumes "cstr m a s" and "cstr m b d"
  shows "strchr m a c = Some (if c \<in> set (s @ [0]) then a + length (takeWhile (\<lambda>x. x \<noteq> c) s) else NULL) \<and>
    strrchr m a c = Some (if c \<in> set (s @ [0]) then a + length (dropWhile (\<lambda>x. x \<noteq> c) (rev (s @ [0]))) - 1 else NULL) \<and>
    strpbrk m a b = Some (if set s \<inter> set d = {} then NULL else a + length (takeWhile (\<lambda>x. x \<notin> set d) s)) \<and>
    strspn m a b = Some (length (takeWhile (\<lambda>x. x \<in> set d) s)) \<and>
    (\<exists>p. strstr m a b = Some p \<and>
      (if \<exists>i \<le> length s. take (length d) (drop i s) = d
       then \<exists>i. p = a + i \<and> take (length d) (drop i s) = d \<and> (\<forall>j < i. take (length d) (drop j s) \<noteq> d)
       else p = NULL))"
proof -
  have "\<exists>p. strstr m a b = Some p \<and>
      (if \<exists>i \<le> length s. take (length d) (drop i s) = d
       then \<exists>i. p = a + i \<and> take (length d) (drop i s) = d \<and> (\<forall>j < i. take (length d) (drop j s) \<noteq> d)
       else p = NULL)"
  proof (cases "find_sub d s")
    case None
    then show ?thesis using strstr_spec [OF assms] find_sub_None [OF None] by simp
  next
    case (Some i)
    have f: "take (length d) (drop i s) = d" "\<forall>j < i. take (length d) (drop j s) \<noteq> d"
      using find_sub_Some [OF Some] by simp_all
    have "\<exists>i \<le> length s. take (length d) (drop i s) = d"
    proof (cases "i \<le> length s")
      case False
      then have "d = []" using f(1) by simp
      then show ?thesis by auto
    qed (use f in blast)
    then show ?thesis using strstr_spec [OF assms] Some f by auto
  qed
  then show ?thesis
    using strchr_spec [OF assms(1), of c] strrchr_spec [OF assms(1), of c] strpbrk_spec [OF assms] strspn_spec [OF assms]
    by (auto simp: find_def)
qed

lemma string_searches_witness:
  "strchr (mwrite (mwrite Map.empty 1 [97, 66, 97, 0]) 9 [66, 0]) 1 97 = Some 1 \<and>
   strrchr (mwrite (mwrite Map.empty 1 [97, 66, 97, 0]) 9 [66, 0]) 1 97 = Some 3"
  using string_searches [of "mwrite (mwrite Map.empty 1 [97, 66, 97, 0]) 9 [66, 0]" 1 "[97, 66, 97]" 9 "[66]" 97]
  by (simp add: mset_apply)

text \<open>\<open>strsep\<close> ends the first field of a string at its first delimiter and leaves the pointer behind
  that delimiter, or NULL when there is none; \<open>strtok\<close> does the same after skipping the delimiters
  in front, continuing where the last call stopped when it is given NULL, and returns NULL when only
  delimiters are left.\<close>

theorem string_tokens:
  assumes "cstr m p s" and "cstr m ct d" and "p = (if a \<noteq> NULL then a else tok)" and "p \<noteq> NULL"
    and "\<forall>i < Suc (length d). ct + i < p \<or> p + length s < ct + i"
  shows "(case rest_of d s of
       None \<Rightarrow> strsep m p ct = Some (m, NULL, p) \<and> cstr m p (token d s)
     | Some r \<Rightarrow> \<exists>m'. strsep m p ct = Some (m', p + length (token d s) + 1, p) \<and>
         cstr m' p (token d s) \<and> cstr m' (p + length (token d s) + 1) r \<and> cstr m' ct d) \<and>
    strtok m tok a ct =
      (if dropWhile (\<lambda>x. x \<in> set d) s = [] then Some (m, NULL, NULL)
       else strsep m (p + length (takeWhile (\<lambda>x. x \<in> set d) s)) ct)"
  using strsep_spec [OF assms(1,2,4,5)] strtok_strsep [OF assms(1,2,3,4)] by blast

lemma string_tokens_witness:
  "\<exists>m'. strsep (mwrite (mwrite Map.empty 1 [97, 47, 98, 0]) 9 [47, 0]) 1 9 = Some (m', Suc (Suc (Suc 0)), 1) \<and>
    cstr m' (Suc (Suc (Suc 0))) [98]"
proof -
  have "\<forall>i < Suc (length [47 :: u8]). 9 + i < 1 \<or> 1 + length [97, 47, 98 :: u8] < 9 + i" by simp
  from string_tokens [of "mwrite (mwrite Map.empty 1 [97, 47, 98, 0]) 9 [47, 0]" 1 "[97, 47, 98]" 9 "[47]" 1 0, OF _ _ _ _ this]
  show ?thesis by (auto simp: mset_apply rest_of_def token_def NULL_def)
qed

text \<open>The case conversions of the table are inverse to each other on letters, apart from the two
  lower-case codes without a partner, and leave every other byte alone.\<close>

theorem case_conversion_round_trip:
  shows "(if isupper c then islower (tolower c) \<and> toupper (tolower c) = c else tolower c = c) \<and>
    (if islower c \<and> c \<noteq> 0xDF \<and> c \<noteq> 0xFF then isupper (toupper c) \<and> tolower (toupper c) = c
     else islower c \<or> toupper c = c)"
  using case_conversions [of c] by (auto simp: tolower_def toupper_def)

end
