(* ===== verification/Keyboard.thy ===== *)
theory Keyboard
  imports Fs_State Irq
begin

text \<open>
  drivers/keyboard.c: the key map, the interrupt handler that turns scan codes into key events and
  \<open>keyboard_read\<close>, which takes the oldest event.  The lists \<open>free_events\<close> and \<open>events_list\<close> are the
  HOL lists of the addresses of their events; \<open>ev_kv\<close> is the key value stored in an event.
  \<open>None\<close> is a failed \<open>BUG_ON\<close>, a null pointer the code follows or a use of freed memory.
\<close>

subsection \<open>The key map\<close>

type_synonym keyval = "u8 list"

definition KEYVAL :: "u8 list \<Rightarrow> keyval" where "KEYVAL bs = take 4 (bs @ replicate 4 0)"
definition K :: "u8 \<Rightarrow> keyval" where "K c = KEYVAL [c]"

text \<open>A special key: its type with bit 7, and a number.\<close>

definition K2 :: "u8 \<Rightarrow> u8 \<Rightarrow> keyval" where "K2 t n = KEYVAL [t, n]"

definition KT_ESC :: u8 where "KT_ESC = 0"
definition KT_SHIFT :: u8 where "KT_SHIFT = 1"
definition KT_ALT :: u8 where "KT_ALT = 2"
definition KT_CTRL :: u8 where "KT_CTRL = 3"

definition MAP_COLS :: nat where "MAP_COLS = 3"
definition NR_SCAN_CODES :: nat where "NR_SCAN_CODES = 0x80"
definition NR_EVENTS :: nat where "NR_EVENTS = 10"

text \<open>Three columns for each scan code; the rows the initialiser leaves out are zero.\<close>

definition keymap :: "keyval list" where
  "keymap = [
    K 0, K 0, K 0, K2 128 0, K2 128 0, K2 128 0, K 49, K 33, K 0, K 50, K 64, K 0, K 51, K 35, K 0,
    K 52, K 36, K 0, K 53, K 37, K 0, K 54, K 94, K 0, K 55, K 38, K 0, K 56, K 42, K 0, K 57, K 40, K 0,
    K 48, K 41, K 0, K 45, K 95, K 0, K 61, K 43, K 0, K 8, K 8, K 0, K 9, K 9, K 0, K 113, K 81, K 0,
    K 119, K 87, K 0, K 101, K 69, K 0, K 114, K 82, K 0, K 116, K 84, K 0, K 121, K 89, K 0,
    K 117, K 85, K 0, K 105, K 73, K 0, K 111, K 79, K 0, K 112, K 80, K 0, K 91, K 123, K 0,
    K 93, K 125, K 0, K 13, K 13, K2 134 0, K2 131 0, K2 131 0, K2 131 1, K 97, K 65, K 0, K 115, K 83, K 0,
    K 100, K 68, K 0, K 102, K 70, K 0, K 103, K 71, K 0, K 104, K 72, K 0, K 106, K 74, K 0,
    K 107, K 75, K 0, K 108, K 76, K 0, K 59, K 58, K 0, K 39, K 34, K 0, K 96, K 126, K 0,
    K2 129 0, K2 129 0, K 0, K 92, K 124, K 0, K 122, K 90, K 0, K 120, K 88, K 0, K 99, K 67, K 0,
    K 118, K 86, K 0, K 98, K 66, K 0, K 110, K 78, K 0, K 109, K 77, K 0, K 44, K 60, K 0, K 46, K 62, K 0,
    K 47, K 63, K 0, K2 129 1, K2 129 1, K 0, K 42, K 42, K 0, K2 130 0, K2 130 0, K2 130 1,
    K 32, K 32, K 0, K2 133 0, K2 133 0, K 0, K2 132 0, K2 132 0, K 0, K2 132 1, K2 132 1, K 0,
    K2 132 2, K2 132 2, K 0, K2 132 3, K2 132 3, K 0, K2 132 4, K2 132 4, K 0, K2 132 5, K2 132 5, K 0,
    K2 132 6, K2 132 6, K 0, K2 132 7, K2 132 7, K 0, K2 132 8, K2 132 8, K 0, K2 132 9, K2 132 9, K 0,
    K2 133 1, K2 133 1, K 0, K2 133 2, K2 133 2, K 0, K2 134 1, K 55, K2 135 0, K2 134 2, K 56, K2 135 1,
    K2 134 3, K 57, K2 135 2, K2 134 4, K 45, K 0, K2 134 5, K 52, K2 135 3, K2 134 6, K 53, K 0,
    K2 134 7, K 54, K2 135 4, K2 134 8, K 43, K 0, K2 134 9, K 49, K2 135 5, K2 134 10, K 50, K2 135 6,
    K2 134 11, K 51, K2 135 7, K2 134 12, K 48, K2 135 8, K2 134 13, K 46, K2 135 9, K 0, K 0, K 0,
    K 0, K 0, K 0, K 0, K 0, K 0, K2 132 10, K2 132 10, K 0, K2 132 11, K2 132 11, K 0, K 0, K 0, K 0,
    K 0, K 0, K 0, K 0, K 0, K2 136 0, K 0, K 0, K2 136 1, K 0, K 0, K2 137 0, K 0, K 0, K 0, K 0, K 0, K 0] @ replicate (32 * MAP_COLS) (K 0)"

subsection \<open>State\<close>

record kbd = fs +
  kbd_shift :: bool
  kbd_ctrl :: bool
  free_events :: "u32 list"
  events_list :: "u32 list"
  ev_kv :: "u32 \<Rightarrow> keyval"
  kirqs :: irqs

definition sizeof_kbd_event :: u32 where "sizeof_kbd_event = 12"
definition wait_kbd :: wait_queue where "wait_kbd = Wait_queue 2"

subsection \<open>The interrupt handler\<close>

text \<open>The second half of the handler: queue the key value, unless no event is free.\<close>

definition queue_key :: "keyval \<Rightarrow> 'a kbd_scheme \<Rightarrow> 'a kbd_scheme option" where
  "queue_key kv s =
     (case free_events s of
        [] \<Rightarrow> do { bug_on (events_list s = []); Some s }
      | event # rest \<Rightarrow>
          let s = s\<lparr>ev_kv := (ev_kv s)(event := kv)\<rparr>;
              s = s\<lparr>free_events := rest, events_list := events_list s @ [event]\<rparr>
          in Some (wake_up wait_kbd s))"

text \<open>\<open>code\<close> is the byte read from port \<open>0x60\<close>.\<close>

definition keyboard_handler :: "u8 \<Rightarrow> 'a kbd_scheme \<Rightarrow> 'a kbd_scheme option" where
  "keyboard_handler code s =
     (if code = 0xE1 then Some s
      else if code = 0xE0 then Some s
      else let kv = unat (code AND 0x7F) * MAP_COLS;
               make = (code AND 0x80 = 0);
               v = keymap ! kv ! 0
           in if v AND 0x80 \<noteq> 0
              then let t = v AND 0x7F
                   in if t = KT_ESC then Some s
                      else if t = KT_SHIFT then Some (s\<lparr>kbd_shift := \<not> kbd_shift s\<rparr>)
                      else if t = KT_ALT then Some s
                      else if t = KT_CTRL then Some (s\<lparr>kbd_ctrl := \<not> kbd_ctrl s\<rparr>)
                      else Some s
              else if make then queue_key (keymap ! (kv + (if kbd_shift s then 1 else 0))) s
              else Some s)"

subsection \<open>Reading\<close>

definition keyboard_read :: "('a kbd_scheme) env \<Rightarrow> 'a kbd_scheme \<Rightarrow> (keyval \<times> 'a kbd_scheme) option" where
  "keyboard_read e s =
     do { s \<leftarrow> wait_event e wait_kbd (\<lambda>s. events_list s \<noteq> []) s;
          (case events_list s of
             [] \<Rightarrow> None
           | event # rest \<Rightarrow>
               let s = s\<lparr>events_list := rest, free_events := free_events s @ [event]\<rparr>
               in Some (ev_kv s event, s)) }"

subsection \<open>Start-up\<close>

definition IRQ_KEYBOARD :: nat where "IRQ_KEYBOARD = 1"
definition keyboard_name :: "u8 list" where "keyboard_name = [107, 101, 121, 98, 111, 97, 114, 100]"

text \<open>One round of the allocation loop: \<open>memset\<close> comes before the test for null.\<close>

definition alloc_event :: "'a kbd_scheme \<Rightarrow> 'a kbd_scheme option" where
  "alloc_event s =
     do { (a, s) \<leftarrow> kalloc sizeof_kbd_event s;
          event \<leftarrow> a;
          let s = s\<lparr>ev_kv := (ev_kv s)(event := K 0)\<rparr>;
          Some (s\<lparr>free_events := event # free_events s\<rparr>) }"

text \<open>
  When the line is taken, the clean-up loop frees the entry after the one it stands on and goes on
  from there, through freed memory, until it frees the list head.
\<close>

definition keyboard_setup :: "nat \<Rightarrow> 'a kbd_scheme \<Rightarrow> (int \<times> 'a kbd_scheme) option" where
  "keyboard_setup handler s =
     do { let s = s\<lparr>events_list := [], free_events := []\<rparr>;
          s \<leftarrow> fold_opt (\<lambda>_. alloc_event) [0..<NR_EVENTS] s;
          (res, q) \<leftarrow> request_irq IRQ_KEYBOARD handler keyboard_name (kirqs s);
          let s = s\<lparr>kirqs := q\<rparr>;
          bug_on (FAILED res);
          q \<leftarrow> enable_irq IRQ_KEYBOARD (kirqs s);
          Some (SUCCESS, s\<lparr>kirqs := q\<rparr>) }"

end
