(* ===== verification/Tty.thy ===== *)
theory Tty
  imports Keyboard Console Char_Dev
begin

text \<open>
  drivers/tty.c: line input from the keyboard with echo, and output to the text screen.  The list
  head a terminal's \<open>private_data\<close> points to is the HOL list of the addresses of its \<open>tty_char\<close>s.
  \<open>printk\<close> of the echo goes to the only console registered, the text screen.  \<open>None\<close> is a null
  pointer the code follows, a panic of the allocator or a line that never ends.
\<close>

record tty = kbd +
  tty_lists :: "u32 \<Rightarrow> u32 list"
  tty_data :: "u32 \<Rightarrow> u8"
  scr :: screen

definition sizeof_tty_char :: u32 where "sizeof_tty_char = 12"
definition sizeof_list_head :: u32 where "sizeof_list_head = 8"
definition read_sem :: nat where "read_sem = 0"

definition set_tty_list :: "u32 \<Rightarrow> (u32 list \<Rightarrow> u32 list) \<Rightarrow> 'a tty_scheme \<Rightarrow> 'a tty_scheme" where
  "set_tty_list h f s = s\<lparr>tty_lists := (tty_lists s)(h := f (tty_lists s h))\<rparr>"

definition tty_print :: "u8 list \<Rightarrow> 'a tty_scheme \<Rightarrow> 'a tty_scheme" where
  "tty_print bs s = s\<lparr>scr := con_write bs (scr s)\<rparr>"

subsection \<open>The characters of a line\<close>

definition push_char :: "u8 \<Rightarrow> u32 \<Rightarrow> 'a tty_scheme \<Rightarrow> (int \<times> 'a tty_scheme) option" where
  "push_char b filp s =
     do { (c, s) \<leftarrow> kalloc sizeof_tty_char s;
          (case c of
             None \<Rightarrow> Some (err ENOMEM, s)
           | Some c \<Rightarrow>
               do { let s = s\<lparr>tty_data := (tty_data s)(c := b)\<rparr>;
                    h \<leftarrow> f_private (files s filp);
                    Some (SUCCESS, set_tty_list h (\<lambda>cs. cs @ [c]) s) }) }"

text \<open>From the end of the list, or from its front.\<close>

definition pop_char :: "bool \<Rightarrow> u32 \<Rightarrow> 'a tty_scheme \<Rightarrow> (int \<times> 'a tty_scheme) option" where
  "pop_char from_end filp s =
     do { h \<leftarrow> f_private (files s filp);
          let cs = tty_lists s h;
          if cs = [] then Some (err ERROR, s)
          else do { let c = (if from_end then last cs else hd cs);
                    let s = set_tty_list h (remove1 c) s;
                    let ret = uint (tty_data s c);
                    s \<leftarrow> krelease c s;
                    Some (ret, s) } }"

definition tty_isbreak :: "keyval \<Rightarrow> bool" where
  "tty_isbreak kv \<longleftrightarrow> kv ! 0 = 13"

subsection \<open>File operations\<close>

definition tty_open :: "u32 \<Rightarrow> u32 \<Rightarrow> 'a tty_scheme \<Rightarrow> (int \<times> 'a tty_scheme) option" where
  "tty_open i filp s =
     do { (p, s) \<leftarrow> kalloc sizeof_list_head s;
          let s = set_file filp (f_private_update (\<lambda>_. p)) s;
          (case p of
             None \<Rightarrow> Some (err ENOMEM, s)
           | Some h \<Rightarrow> Some (SUCCESS, set_tty_list h (\<lambda>_. []) s)) }"

definition tty_close :: "u32 \<Rightarrow> u32 \<Rightarrow> 'a tty_scheme \<Rightarrow> (int \<times> 'a tty_scheme) option" where
  "tty_close i filp s =
     do { h \<leftarrow> f_private (files s filp);
          s \<leftarrow> for_each_safe (\<lambda>s. tty_lists s h)
                (\<lambda>c s. krelease c (set_tty_list h (remove1 c) s)) s;
          s \<leftarrow> krelease h s;
          Some (SUCCESS, s) }"

definition tty_write :: "u32 \<Rightarrow> u32 \<Rightarrow> u32 \<Rightarrow> 'a tty_scheme \<Rightarrow> (int \<times> 'a tty_scheme) option" where
  "tty_write filp buf sz s = Some (sint sz, tty_print (load_bytes s buf (unat sz)) s)"

text \<open>\<open>down(&read_sem)\<close> as the calling task sees it: it goes on when \<open>wait\<close> has returned.\<close>

definition down_read :: "('a tty_scheme) env \<Rightarrow> 'a tty_scheme \<Rightarrow> 'a tty_scheme option" where
  "down_read e s =
     (let s = s\<lparr>counts := (counts s)(read_sem := counts s read_sem + 1)\<rparr>
      in if counts s read_sem \<noteq> 1 then sleep_on e (Wait_queue read_sem) s else Some s)"

text \<open>The body of the \<open>while (1)\<close>: \<open>True\<close> when it leaves the loop.\<close>

definition tty_key :: "keyval \<Rightarrow> u32 \<Rightarrow> 'a tty_scheme \<Rightarrow> (bool \<times> 'a tty_scheme) option" where
  "tty_key kv filp s =
     (let c = kv ! 0
      in if tty_isbreak kv then Some (True, tty_print [10] s)
         else if isprint c
         then do { (res, s) \<leftarrow> push_char c filp s;
                   if 0 \<le> res then Some (False, tty_print [c] s) else Some (True, s) }
         else if c = 8
         then do { (res, s) \<leftarrow> pop_char True filp s;
                   Some (False, if 0 \<le> res then tty_print [8, 32, 8] s else s) }
         else if c = 9
         then do { (res, s) \<leftarrow> push_char 32 filp s;
                   if 0 \<le> res then Some (False, tty_print [32] s) else Some (True, s) }
         else Some (False, s))"

partial_function (option) tty_line :: "('a tty_scheme) env \<Rightarrow> u32 \<Rightarrow> 'a tty_scheme \<Rightarrow> 'a tty_scheme option" where
  "tty_line e filp s =
     do { (kv, s) \<leftarrow> keyboard_read e s;
          (leave, s) \<leftarrow> tty_key kv filp s;
          if leave then Some s else tty_line e filp s }"

text \<open>The loop that fills the reader's buffer; \<open>n\<close> bytes still fit.\<close>

fun tty_fill :: "nat \<Rightarrow> u32 \<Rightarrow> u32 \<Rightarrow> int \<Rightarrow> 'a tty_scheme \<Rightarrow> (int \<times> 'a tty_scheme) option" where
  "tty_fill 0 filp buf read_count s = Some (read_count, s)"
| "tty_fill (Suc n) filp buf read_count s =
     do { (res, s) \<leftarrow> pop_char False filp s;
          if 0 \<le> res
          then tty_fill n filp buf (read_count + 1)
                 (store_bytes (buf + word_of_int read_count) [word_of_int res] s)
          else Some (read_count, store_bytes (buf + word_of_int read_count) [0] s) }"

definition tty_read :: "('a tty_scheme) env \<Rightarrow> u32 \<Rightarrow> u32 \<Rightarrow> u32 \<Rightarrow> 'a tty_scheme \<Rightarrow> (int \<times> 'a tty_scheme) option" where
  "tty_read e filp buf sz s =
     do { s \<leftarrow> down_read e s;
          s \<leftarrow> tty_line e filp s;
          (read_count, s) \<leftarrow> tty_fill (unat sz) filp buf 0 s;
          Some (read_count, up read_sem s) }"

definition tty_fops :: "('a tty_scheme) env \<Rightarrow> ('a tty_scheme) file_operations" where
  "tty_fops e = \<lparr>fo_open = Some tty_open, fo_read = Some (tty_read e), fo_readdir = None,
     fo_write = Some tty_write, fo_ioctl = None, fo_lseek = None, fo_close = Some tty_close\<rparr>"

definition DEV_TTY :: nat where "DEV_TTY = 1"
definition tty_name :: "u8 list" where "tty_name = [116, 116, 121]"

text \<open>\<open>fops\<close> is the address of \<open>tty_fops\<close>.\<close>

definition tty_setup :: "nat \<Rightarrow> 'a tty_scheme \<Rightarrow> int \<times> 'a tty_scheme" where
  "tty_setup fops s = (SUCCESS, snd (register_chrdev DEV_TTY (Some tty_name) (Some fops) s))"

end
