(* ===== verification/Mm_Init.thy ===== *)
theory Mm_Init
  imports Highmem Kmalloc Div64
begin

text \<open>
  kernel/mm/init.c: how the kernel finds its memory.  \<open>mem_zones_create\<close> turns the BIOS memory
  map into \<open>zones_list\<close>, \<open>paging_init\<close> builds the page tables of the linear mapping,
  \<open>mem_map_create\<close> finds room for the array of \<open>struct page\<close>, and \<open>mm_init\<close> starts the
  allocators.  The linker symbols (\<open>__boot\<close>, \<open>__load\<close>, \<open>__end\<close>), the page tables the loader left
  behind and the parsed boot parameters are the arguments.  A write beyond the end of
  \<open>zones_list\<close> is \<open>None\<close>, as is a failed \<open>BUG_ON\<close>.
\<close>

subsection \<open>The zones\<close>

record memory_map =
  mp_base :: u64
  mp_size :: u64
  mp_type :: u32

definition MMAP_USABLE :: u32 where "MMAP_USABLE = 1"
definition NR_ZONES :: nat where "NR_ZONES = 10"
definition GB :: u64 where "GB = push_bit 30 1"

text \<open>The \<open>next\<close> pointers of \<open>zones_list\<close> are indices; the array starts zeroed.\<close>

record zone_table =
  zt_zone :: "nat \<Rightarrow> mem_zone"
  zt_next :: "nat \<Rightarrow> nat option"

definition zero_zone :: mem_zone where
  "zero_zone = \<lparr>bflags = (\<lambda>_. 0), bbase = 0, bend = 0, bareas = (\<lambda>_. \<lparr>fa_list = [], fa_size = 0\<rparr>),
     base_addr = 0, zsize = 0\<rparr>"

definition zero_table :: zone_table where
  "zero_table = \<lparr>zt_zone = (\<lambda>_. zero_zone), zt_next = (\<lambda>_. None)\<rparr>"

definition set_next :: "zone_table \<Rightarrow> nat \<Rightarrow> nat option \<Rightarrow> zone_table" where
  "set_next s i v = s\<lparr>zt_next := (zt_next s)(i := v)\<rparr>"

definition zone_piece :: "zone_table \<Rightarrow> nat \<Rightarrow> u32 \<Rightarrow> u32 \<Rightarrow> nat \<times> zone_table" where
  "zone_piece s i base sz =
     (if PAGE_SIZE \<le> sz
      then (1, s\<lparr>zt_zone := (zt_zone s)(i := (zt_zone s i)\<lparr>base_addr := base, zsize := sz\<rparr>)\<rparr>)
      else (0, s))"

lemma PAGE_ALIGN_limits:
  "PAGE_ALIGN ZONE_DMA_LIMIT = ZONE_DMA_LIMIT" "PAGE_ALIGN ZONE_NORMAL_LIMIT = ZONE_NORMAL_LIMIT"
  by (simp_all add: page_ops page_consts zone_consts)

function add_to_zones_list :: "zone_table \<Rightarrow> nat \<Rightarrow> u32 \<Rightarrow> u32 \<Rightarrow> (nat \<times> zone_table) option" where
  "add_to_zones_list s index base sz =
     (let aligned_base = PAGE_ALIGN base; aligned_size = sz - (aligned_base - base)
      in if aligned_size < PAGE_SIZE then Some (0, s)
         else if NR_ZONES \<le> index then None
         else do {
           let s = set_next s index None;
           (count, s) \<leftarrow>
             (if aligned_base < ZONE_DMA_LIMIT \<and> ZONE_DMA_LIMIT \<le> aligned_base + sz
              then let (count, s) = zone_piece s index aligned_base (ZONE_DMA_LIMIT - aligned_base)
                   in do { (n, s) \<leftarrow> add_to_zones_list s (index + count) ZONE_DMA_LIMIT
                                       (base + sz - ZONE_DMA_LIMIT);
                           Some (count + n, s) }
              else if aligned_base < ZONE_NORMAL_LIMIT \<and> ZONE_NORMAL_LIMIT \<le> aligned_base + sz
              then let (count, s) = zone_piece s index aligned_base (ZONE_NORMAL_LIMIT - aligned_base)
                   in do { (n, s) \<leftarrow> add_to_zones_list s (index + count) ZONE_NORMAL_LIMIT
                                       (base + sz - ZONE_NORMAL_LIMIT);
                           Some (count + n, s) }
              else Some (zone_piece s index aligned_base (PAGE_FLOOR aligned_size)));
           Some (count, if count \<noteq> 0 \<and> index \<noteq> 0 then set_next s (index - 1) (Some index) else s) })"
  by pat_completeness auto
termination
  by (relation "measure (\<lambda>(s, index, base, sz). 2 - zone_type_of (PAGE_ALIGN base))")
    (auto simp: PAGE_ALIGN_limits zone_type_of_def, auto simp: zone_consts)

declare add_to_zones_list.simps [simp del]

text \<open>The loop of \<open>mem_zones_create\<close> over the memory map.\<close>

fun zones_loop :: "memory_map list \<Rightarrow> u64 \<Rightarrow> nat \<Rightarrow> zone_table \<Rightarrow> zone_table option" where
  "zones_loop [] base zones_index s = Some s"
| "zones_loop (m # ms) base zones_index s =
     (if mp_type m = MMAP_USABLE \<and> base \<le> mp_base m
      then if 4 * GB \<le> mp_base m + mp_size m then Some s
           else do { (count, s) \<leftarrow> add_to_zones_list s zones_index (ucast (mp_base m)) (ucast (mp_size m));
                     bug_on (NR_ZONES \<le> zones_index + count);
                     zones_loop ms (mp_base m) (zones_index + count) s }
      else zones_loop ms (mp_base m) zones_index s)"

text \<open>
  The loop of \<open>init_fast_zone_entry\<close>, which cuts the chain of zones where the type changes;
  \<open>fast\<close> is the array of entries.  The chain has at most \<open>NR_ZONES\<close> zones, so one more step of
  fuel lets the loop end.
\<close>

fun fast_loop :: "nat \<Rightarrow> (nat \<Rightarrow> u32) \<Rightarrow> nat option \<Rightarrow> (nat \<Rightarrow> nat option) \<times> (nat \<Rightarrow> nat option) \<Rightarrow>
    ((nat \<Rightarrow> nat option) \<times> (nat \<Rightarrow> nat option)) option" where
  "fast_loop 0 addr iter nf = None"
| "fast_loop (Suc fuel) addr None nf = Some nf"
| "fast_loop (Suc fuel) addr (Some i) (next, fast) =
     (let n = next i;
          enter = (\<lambda>t. if fast t = None then fast(t := Some i) else fast);
          cut = (\<lambda>limit. case n of
                   Some j \<Rightarrow> if limit \<le> addr j then next(i := None) else next
                 | None \<Rightarrow> next)
      in fast_loop fuel addr n
           (if addr i < ZONE_DMA_LIMIT then (cut ZONE_DMA_LIMIT, enter ZONE_DMA)
            else if ZONE_DMA_LIMIT \<le> addr i \<and> addr i < ZONE_NORMAL_LIMIT
              then (cut ZONE_NORMAL_LIMIT, enter ZONE_NORMAL)
            else if ZONE_NORMAL_LIMIT \<le> addr i then (next, enter ZONE_HIGHMEM)
            else (next, fast)))"

definition init_fast_zone_entry ::
    "zone_table \<Rightarrow> ((nat \<Rightarrow> nat option) \<times> (nat \<Rightarrow> nat option)) option" where
  "init_fast_zone_entry s =
     fast_loop (Suc NR_ZONES) (\<lambda>i. base_addr (zt_zone s i)) (Some 0) (zt_next s, \<lambda>_. None)"

text \<open>The zones \<open>zone_type_for_each\<close> visits from an entry on, by following \<open>next\<close>.\<close>

fun chain :: "nat \<Rightarrow> (nat \<Rightarrow> nat option) \<Rightarrow> nat option \<Rightarrow> nat list option" where
  "chain 0 next iter = None"
| "chain (Suc fuel) next None = Some []"
| "chain (Suc fuel) next (Some i) = do { is \<leftarrow> chain fuel next (next i); Some (i # is) }"

definition mem_zones_create :: "memory_map list \<Rightarrow> mm option" where
  "mem_zones_create ms =
     do { s \<leftarrow> zones_loop ms 0 0 zero_table;
          (next, fast) \<leftarrow> init_fast_zone_entry s;
          dma \<leftarrow> chain (Suc NR_ZONES) next (fast ZONE_DMA);
          normal \<leftarrow> chain (Suc NR_ZONES) next (fast ZONE_NORMAL);
          high \<leftarrow> chain (Suc NR_ZONES) next (fast ZONE_HIGHMEM);
          Some \<lparr>zones = zt_zone s,
                fast_zone_entry = (\<lambda>t. if t = ZONE_DMA then dma else if t = ZONE_NORMAL then normal
                                       else if t = ZONE_HIGHMEM then high else [])\<rparr> }"

text \<open>What \<open>mem_zones_dump\<close> prints of each zone.\<close>

definition mem_zones_dump :: "mm \<Rightarrow> (u32 \<times> u32 \<times> nat \<times> nat) list" where
  "mem_zones_dump m =
     map (\<lambda>i. (base_addr (zones m i), zsize (zones m i), bbase (zones m i), bend (zones m i)))
       (zone_all_for_each m)"

subsection \<open>Sizes\<close>

record mem_info =
  total_size :: u64
  usable_size :: u64
  limit :: u64
  usable_limit :: u64

fun info_loop :: "memory_map list \<Rightarrow> u64 \<Rightarrow> u64 \<Rightarrow> u64 \<times> u64" where
  "info_loop [] tot lim = (tot, lim)"
| "info_loop (m # ms) tot lim =
     (if mp_type m = MMAP_USABLE then info_loop ms (tot + mp_size m) (mp_base m + mp_size m)
      else info_loop ms tot lim)"

definition mem_info_init :: "memory_map list \<Rightarrow> mm \<Rightarrow> mem_info" where
  "mem_info_init ms m =
     (let usable = fold (\<lambda>i n. n + ucast (zsize (zones m i))) (zone_all_for_each m) 0;
          (tot, lim) = info_loop ms 0 0
      in \<lparr>total_size = tot, usable_size = usable, limit = lim,
          usable_limit = (if 4 * GB < lim then 4 * GB else lim)\<rparr>)"

subsection \<open>The page tables of the kernel\<close>

definition ceil_div :: "u32 \<Rightarrow> u32 \<Rightarrow> u32" where
  "ceil_div num d = (if num mod d \<noteq> 0 then num div d + 1 else num div d)"

text \<open>
  What \<open>paging_init\<close> works on: the linker symbols, and the directory and the tables the loader
  set up (\<open>pgd_page\<close> of an entry is the address of its table, which the loader maps one to one).
\<close>

record boot_env =
  be_load :: u32
  be_end :: u32
  be_pgd :: "nat \<Rightarrow> pgd_t"
  be_pgt :: "u32 \<Rightarrow> nat \<Rightarrow> pgt_t"

definition pgd_first :: nat where
  "pgd_first = unat (pgd_index PAGE_OFFSET)"

text \<open>The two counting loops: a directory entry or a table entry that is not present ends its
  loop.\<close>

definition count_boot_pages :: "boot_env \<Rightarrow> u32" where
  "count_boot_pages e =
     (let dirs = takeWhile (\<lambda>d. pgd_present (be_pgd e d)) [pgd_first..<PTRS_PER_PGD]
      in of_nat (sum_list (map (\<lambda>d. length
           (takeWhile (\<lambda>p. pgt_present (be_pgt e (pgd_page (be_pgd e d)) p)) [0..<PTRS_PER_PGT])) dirs)))"

text \<open>
  \<open>kp_dir\<close> is the page directory at \<open>kernel_page_dir\<close> and \<open>kp_tab\<close> the tables from
  \<open>__kernel_pgt_base\<close> on, as one array of entries, each of four bytes.
\<close>

record kernel_paging =
  kp_dir_addr :: u32
  kp_pgt_base :: u32
  kp_pgt_end :: u32
  kp_dir :: "nat \<Rightarrow> pgd_t"
  kp_tab :: "nat \<Rightarrow> pgt_t"

definition virt_mem_size :: "mem_info \<Rightarrow> u32" where
  "virt_mem_size i =
     (if ucast ZONE_NORMAL_LIMIT < usable_limit i then ZONE_NORMAL_LIMIT else ucast (usable_limit i))"

definition fill_dir :: "u32 \<Rightarrow> (nat \<Rightarrow> pgd_t) \<Rightarrow> nat \<Rightarrow> pgd_t" where
  "fill_dir pgt_base dir =
     (let dir = fold (\<lambda>d f. f(d := mk_pgd 0 0)) [0..<pgd_first] dir
      in fold (\<lambda>d f. f(d := mk_pgd (pa (pgt_base + 4 * of_nat (PTRS_PER_PGT * (d - pgd_first))))
                                 (PAGE_PRESENT OR PAGE_RW))) [pgd_first..<PTRS_PER_PGD] dir)"

text \<open>The entries from \<open>from\<close> to \<open>to\<close> map consecutive frames, starting with frame 0.\<close>

definition fill_tab :: "nat \<Rightarrow> nat \<Rightarrow> (nat \<Rightarrow> pgt_t) \<Rightarrow> nat \<Rightarrow> pgt_t" where
  "fill_tab from to tab =
     fold (\<lambda>i f. f(i := mk_pgt (of_nat (i - from) * PAGE_SIZE) (PAGE_PRESENT OR PAGE_RW))) [from..<to] tab"

definition low_entries :: "mem_info \<Rightarrow> nat" where
  "low_entries i = PTRS_PER_PGT * unat (ceil_div (virt_mem_size i div PAGE_SIZE) (of_nat PTRS_PER_PGT))"

definition do_paging_init :: "mem_info \<Rightarrow> kernel_paging \<Rightarrow> kernel_paging" where
  "do_paging_init i k =
     (let n = low_entries i; last = unat (kp_pgt_end k - kp_pgt_base k) div 4
      in k\<lparr>kp_dir := fill_dir (kp_pgt_base k) (kp_dir k),
           kp_tab := fill_tab n last (fill_tab 0 n (kp_tab k))\<rparr>)"

definition need_pages :: "mem_info \<Rightarrow> u32" where
  "need_pages i = ceil_div (ZONE_HIGHMEM_SIZE div PAGE_SIZE) (of_nat PTRS_PER_PGT) + 1 +
     ceil_div (virt_mem_size i div PAGE_SIZE) (of_nat PTRS_PER_PGT)"

definition paging_init ::
    "boot_env \<Rightarrow> mem_info \<Rightarrow> (nat \<Rightarrow> pgd_t) \<Rightarrow> (nat \<Rightarrow> pgt_t) \<Rightarrow> kernel_paging option" where
  "paging_init e i dir tab =
     (let kernel_page_dir = PAGE_ALIGN (be_end e);
          nr_total_pages = count_boot_pages e;
          nr_used_pages = (pgd_index (PAGE_ALIGN (be_end e)) - pgd_index PAGE_OFFSET) * of_nat PTRS_PER_PGT
             + pgt_index (PAGE_ALIGN (be_end e));
          nr_need_pages = need_pages i;
          pgt_base = kernel_page_dir + 4 * of_nat PTRS_PER_PGD;
          pgt_end = pgt_base + 4 * ((nr_need_pages - 1) * of_nat PTRS_PER_PGT)
      in do { bug_on (nr_total_pages - nr_used_pages < nr_need_pages);
              Some (do_paging_init i \<lparr>kp_dir_addr = kernel_page_dir, kp_pgt_base = pgt_base,
                                       kp_pgt_end = pgt_end, kp_dir = dir, kp_tab = tab\<rparr>) })"

definition kernel_pgt_highmem_base :: "kernel_paging \<Rightarrow> u32" where
  "kernel_pgt_highmem_base k =
     va (pgd_page (kp_dir k (unat (pgd_index (PAGE_OFFSET + ZONE_NORMAL_LIMIT)))))"

subsection \<open>The array of pages\<close>

definition SIZEOF_PAGE :: u32 where "SIZEOF_PAGE = 12"

definition align_down :: "u32 \<Rightarrow> u32 \<Rightarrow> u32" where
  "align_down num sz = num div sz * sz"

text \<open>The search of \<open>cut_zone_size\<close>: the state is \<open>real_size\<close>, \<open>max_size\<close> and \<open>fix_zone\<close>.\<close>

fun cut_loop :: "mm \<Rightarrow> u32 \<Rightarrow> u32 \<Rightarrow> nat list \<Rightarrow> u32 \<times> u32 \<times> nat option \<Rightarrow> u32 \<times> u32 \<times> nat option" where
  "cut_loop m load pgt_end [] r = r"
| "cut_loop m load pgt_end (i # is) (real_size, max_size, fix_zone) =
     (let z = zones m i;
          real_size =
            (if base_addr z \<le> pa load \<and> pa (PAGE_ALIGN pgt_end) \<le> base_addr z + zsize z
             then zsize z + base_addr z - pa (PAGE_ALIGN pgt_end) else zsize z)
      in cut_loop m load pgt_end is
           (if max_size < real_size then (real_size, real_size, Some i) else (real_size, max_size, fix_zone)))"

definition cut_zone_size :: "mm \<Rightarrow> u32 \<Rightarrow> u32 \<Rightarrow> u32 \<Rightarrow> (u32 \<times> mm) option" where
  "cut_zone_size m load pgt_end need_size =
     (case cut_loop m load pgt_end (zone_for_each m ZONE_DMA ZONE_HIGHMEM) (0, 0, None) of
        (real_size, max_size, fix_zone) \<Rightarrow>
          do { i \<leftarrow> fix_zone;
               bug_on (real_size \<le> PAGE_CEIL need_size);
               let z = (zones m i)\<lparr>zsize := zsize (zones m i) - PAGE_CEIL need_size\<rparr>;
               Some (va (base_addr z + zsize z), set_zone m i z) })"

text \<open>Page structures are numbered from the start of the array.\<close>

fun do_mem_map_create :: "mm \<Rightarrow> nat list \<Rightarrow> nat \<Rightarrow> mm" where
  "do_mem_map_create m [] base = m"
| "do_mem_map_create m (i # is) base =
     (let z = zones m i; e = base + unat (zsize z div PAGE_SIZE)
      in do_mem_map_create
           (set_zone m i (z\<lparr>bbase := base, bend := e,
              bflags := (\<lambda>p. if base \<le> p \<and> p < e then 0 else bflags z p)\<rparr>)) is e)"

definition mem_map_create :: "mm \<Rightarrow> mem_info \<Rightarrow> u32 \<Rightarrow> u32 \<Rightarrow> (u32 \<times> mm) option" where
  "mem_map_create m i load pgt_end =
     do { (q, r) \<leftarrow> do_div64 (ucast SIZEOF_PAGE * usable_size i) (PAGE_SIZE + SIZEOF_PAGE);
          let need_size = align_down (ucast q) SIZEOF_PAGE;
          (mmap, m) \<leftarrow> cut_zone_size m load pgt_end need_size;
          Some (mmap, do_mem_map_create m (zone_all_for_each m) 0) }"

subsection \<open>Start-up\<close>

record mm_state =
  ms_mm :: mm
  ms_info :: mem_info
  ms_paging :: kernel_paging
  ms_mmap :: u32
  ms_high :: highmem
  ms_kmem :: kmem

definition mm_init ::
    "boot_env \<Rightarrow> memory_map list \<Rightarrow> (nat \<Rightarrow> pgd_t) \<Rightarrow> (nat \<Rightarrow> pgt_t) \<Rightarrow> kmem \<Rightarrow> mm_state option" where
  "mm_init e ms dir tab km =
     do { m \<leftarrow> mem_zones_create ms;
          let i = mem_info_init ms m;
          k \<leftarrow> paging_init e i dir tab;
          (mmap, m) \<leftarrow> mem_map_create m i (be_load e) (kp_pgt_end k);
          m \<leftarrow> page_alloc_init m (be_load e) (kp_pgt_end k);
          (h, m) \<leftarrow> highmem_init m (unat (kernel_pgt_highmem_base k - kp_pgt_base k) div 4) (kp_tab k);
          Some \<lparr>ms_mm = m, ms_info = i, ms_paging = k\<lparr>kp_tab := pgtab h\<rparr>, ms_mmap = mmap,
                ms_high = h, ms_kmem = kmalloc_init km\<rparr> }"

end
