(* ===== verification/Boot_Params.thy ===== *)
theory Boot_Params
  imports Fs_State Mm_Init
begin

text \<open>
  kernel/boot_params.c: copying what the boot loader left in memory into \<open>boot_params\<close>.  The
  structures of include/boot/multiboot.h are read at their offsets.  The memory map is kept as the
  list of its entries in the form mm/init.c uses, with its type beside each; \<open>None\<close> is a \<open>BUG\<close> or
  a write outside the arrays of \<open>boot_params\<close>.
\<close>

definition NR_MMAP_ENTRYS :: nat where "NR_MMAP_ENTRYS = 30"
definition NR_DRIVES :: nat where "NR_DRIVES = 5"
definition MULTIBOOT_BOOTLOADER_MAGIC :: u32 where "MULTIBOOT_BOOTLOADER_MAGIC = 0x2BADB002"

record drive_info =
  di_mode :: u8
  di_cylinders :: u16
  di_heads :: u8
  di_sectors :: u8

record boot_params =
  bp_boot_device :: u32
  bp_mmap :: "memory_map list"
  bp_drives :: "drive_info list"

definition CHECK_FLAG :: "u32 \<Rightarrow> nat \<Rightarrow> bool" where
  "CHECK_FLAG flags b \<longleftrightarrow> flags AND push_bit b 1 \<noteq> 0"

text \<open>Entry \<open>i\<close> of the boot loader's memory map at \<open>a\<close>.\<close>

definition sizeof_multiboot_memory_map :: nat where "sizeof_multiboot_memory_map = 24"

definition boot_mmap_entry :: "'a vm_scheme \<Rightarrow> u32 \<Rightarrow> nat \<Rightarrow> memory_map" where
  "boot_mmap_entry s a i =
     (let p = a + of_nat (i * sizeof_multiboot_memory_map)
      in \<lparr>mp_base = ucast (load32 s (p + 4)) + push_bit 32 (ucast (load32 s (p + 8))),
          mp_size = ucast (load32 s (p + 12)) + push_bit 32 (ucast (load32 s (p + 16))),
          mp_type = load32 s (p + 20)\<rparr>)"

definition boot_drive :: "'a vm_scheme \<Rightarrow> u32 \<Rightarrow> drive_info" where
  "boot_drive s a =
     \<lparr>di_mode = ram s (a + 5), di_cylinders = load16 s (a + 6), di_heads = ram s (a + 8),
      di_sectors = ram s (a + 9)\<rparr>"

text \<open>The loop over the drives; \<open>ds\<close> are those already copied.\<close>

function boot_drives_loop :: "'a vm_scheme \<Rightarrow> u32 \<Rightarrow> u32 \<Rightarrow> drive_info list \<Rightarrow> drive_info list option" where
  "boot_drives_loop s drive_addr drive_end ds =
     (if drive_addr < drive_end
      then if NR_DRIVES \<le> length ds then None
           else boot_drives_loop s (drive_addr + load32 s drive_addr) drive_end (ds @ [boot_drive s drive_addr])
      else Some ds)"
  by pat_completeness auto
termination by (relation "measure (\<lambda>(s, a, e, ds). NR_DRIVES - length ds)") auto

declare boot_drives_loop.simps [simp del]

definition parse_boot_params :: "u32 \<Rightarrow> u32 \<Rightarrow> 'a vm_scheme \<Rightarrow> boot_params \<Rightarrow> boot_params option" where
  "parse_boot_params magic mbi s bp =
     do { bug_on (magic \<noteq> MULTIBOOT_BOOTLOADER_MAGIC);
          let flags = load32 s mbi;
          bug_on (CHECK_FLAG flags 4 \<and> CHECK_FLAG flags 5);
          let bp = (if CHECK_FLAG flags 1 then bp\<lparr>bp_boot_device := load32 s (mbi + 12)\<rparr> else bp);
          bp \<leftarrow> (if CHECK_FLAG flags 6
                then do { let a = load32 s (mbi + 48);
                          let len = unat (load32 s (mbi + 44)) div sizeof_multiboot_memory_map;
                          bug_on (NR_MMAP_ENTRYS < len);
                          Some (bp\<lparr>bp_mmap := map (boot_mmap_entry s a) [0..<len]\<rparr>) }
                else Some bp);
          (if CHECK_FLAG flags 7
           then do { let a = load32 s (mbi + 56);
                     ds \<leftarrow> boot_drives_loop s a (a + load32 s (mbi + 52)) [];
                     Some (bp\<lparr>bp_drives := ds\<rparr>) }
           else Some bp) }"

end
