(* ===== verification/Hd.thy ===== *)
theory Hd
  imports Block_Dev Super Boot_Params Irq
begin

text \<open>
  drivers/hd.c: the driver of the AT disk controller.  What the code writes to the controller's
  ports is the list \<open>hd_ports\<close> of (port, byte) pairs, oldest first; what it reads from them are
  arguments: \<open>st\<close> gives the status bytes in the order they are read, \<open>words\<close> the 512 bytes of the
  data port.  \<open>None\<close> is a panic, a division by zero or an access outside the two tables.
\<close>

subsection \<open>State\<close>

record hd_i_struct =
  hi_head :: u32
  hi_sect :: u32
  hi_cyl :: u32
  hi_wpcom :: u32
  hi_lzone :: u32
  hi_ctl :: u32

record hd_struct =
  start_sect :: u32
  nr_sects :: u32
  hd_enable :: u8

datatype hd_intr_fn = Read_intr | Write_intr

record hdisk = fs +
  hd_info :: "nat \<Rightarrow> hd_i_struct"
  hd_tab :: "nat \<Rightarrow> hd_struct"
  do_hd :: "hd_intr_fn option"
  wait_blk :: "u32 option"
  intr_done :: nat
  hd_ports :: "(u32 \<times> u8) list"
  hd_irqs :: irqs

definition wait_hd :: wait_queue where "wait_hd = Wait_queue 3"
definition wait_done :: wait_queue where "wait_done = Wait_queue 4"

definition HD_DATA :: u32 where "HD_DATA = 0x1f0"
definition HD_CMD :: u32 where "HD_CMD = 0x3f6"
definition ERR_STAT :: u8 where "ERR_STAT = 0x01"
definition DRQ_STAT :: u8 where "DRQ_STAT = 0x08"
definition SEEK_STAT :: u8 where "SEEK_STAT = 0x10"
definition WRERR_STAT :: u8 where "WRERR_STAT = 0x20"
definition READY_STAT :: u8 where "READY_STAT = 0x40"
definition BUSY_STAT :: u8 where "BUSY_STAT = 0x80"
definition WIN_READ :: u32 where "WIN_READ = 0x20"
definition WIN_WRITE :: u32 where "WIN_WRITE = 0x30"

subsection \<open>Interrupts\<close>

text \<open>0 when the controller is ready and has sought, 1 otherwise.\<close>

definition win_result :: "u8 \<Rightarrow> int" where
  "win_result i =
     (if i AND (BUSY_STAT OR READY_STAT OR WRERR_STAT OR SEEK_STAT OR ERR_STAT) = READY_STAT OR SEEK_STAT
      then 0 else 1)"

text \<open>The number of retries left when the controller answers (0 if it never does).\<close>

fun controller_wait :: "(nat \<Rightarrow> u8) \<Rightarrow> nat \<Rightarrow> nat \<Rightarrow> nat" where
  "controller_wait st i 0 = 0"
| "controller_wait st i (Suc retries) =
     (if retries \<noteq> 0 \<and> st i AND 0xc0 \<noteq> 0x40 then controller_wait st (i + 1) retries else retries)"

definition controller_ready :: "(nat \<Rightarrow> u8) \<Rightarrow> nat" where
  "controller_ready st = controller_wait st 0 1000"

text \<open>The end both handlers share: the block is done.\<close>

definition intr_end :: "(blk \<Rightarrow> blk) \<Rightarrow> u32 \<Rightarrow> 'a hdisk_scheme \<Rightarrow> 'a hdisk_scheme" where
  "intr_end f b s =
     (if intr_done s = 2048 then wake_up wait_hd (wake_up wait_done (set_blk b f s)) else s)"

definition read_intr :: "(nat \<Rightarrow> u8) \<Rightarrow> u8 list \<Rightarrow> 'a hdisk_scheme \<Rightarrow> 'a hdisk_scheme option" where
  "read_intr st words s =
     do { bug_on (win_result (st 0) \<noteq> 0);
          b \<leftarrow> wait_blk s;
          let s = (if st 1 AND DRQ_STAT \<noteq> 0 \<and> intr_done s \<noteq> 2048
                   then (store_bytes (b_data (blks s b) + of_nat (intr_done s * 2)) words s)
                          \<lparr>intr_done := intr_done s + 256\<rparr>
                   else s);
          Some (intr_end (b_uptodate_update (\<lambda>_. True)) b s) }"

text \<open>The second component is what goes out through the data port.\<close>

definition write_intr :: "(nat \<Rightarrow> u8) \<Rightarrow> 'a hdisk_scheme \<Rightarrow> (u8 list \<times> 'a hdisk_scheme) option" where
  "write_intr st s =
     do { bug_on (win_result (st 0) \<noteq> 0);
          b \<leftarrow> wait_blk s;
          let (words, s) = (if st 1 AND DRQ_STAT \<noteq> 0 \<and> intr_done s \<noteq> 2048
                   then (load_bytes s (b_data (blks s b) + of_nat (intr_done s * 2)) 512,
                         s\<lparr>intr_done := intr_done s + 256\<rparr>)
                   else ([], s));
          Some (words, intr_end (b_dirty_update (\<lambda>_. False)) b s) }"

definition hd_intr :: "(nat \<Rightarrow> u8) \<Rightarrow> u8 list \<Rightarrow> 'a hdisk_scheme \<Rightarrow> 'a hdisk_scheme option" where
  "hd_intr st words s =
     (case do_hd s of
        None \<Rightarrow> None
      | Some Read_intr \<Rightarrow> read_intr st words s
      | Some Write_intr \<Rightarrow> map_option snd (write_intr st s))"

subsection \<open>Commands\<close>

definition outb :: "u32 \<Rightarrow> u32 \<Rightarrow> 'a hdisk_scheme \<Rightarrow> 'a hdisk_scheme" where
  "outb v port s = s\<lparr>hd_ports := hd_ports s @ [(port, ucast v)]\<rparr>"

definition hd_out :: "('a hdisk_scheme) env \<Rightarrow> (nat \<Rightarrow> u8) \<Rightarrow> u32 \<Rightarrow> u32 \<Rightarrow> u32 \<Rightarrow> u32 \<Rightarrow> u32 \<Rightarrow> u32 \<Rightarrow>
    hd_intr_fn \<Rightarrow> u32 \<Rightarrow> 'a hdisk_scheme \<Rightarrow> 'a hdisk_scheme option" where
  "hd_out e st drive nsect sect head cyl c intr_addr b s =
     do { bug_on (1 < drive \<or> 15 < head);
          s \<leftarrow> wait_event e wait_hd (\<lambda>s. queues s wait_done = []) s;
          bug_on (controller_ready st = 0);
          let s = s\<lparr>intr_done := 0, do_hd := Some intr_addr, wait_blk := Some b\<rparr>;
          let i = hd_info s (unat drive);
          let s = outb (hi_ctl i) HD_CMD s;
          let s = outb (hi_wpcom i) (HD_DATA + 1) s;
          let s = outb nsect (HD_DATA + 2) s;
          let s = outb sect (HD_DATA + 3) s;
          let s = outb cyl (HD_DATA + 4) s;
          let s = outb (drop_bit 8 cyl) (HD_DATA + 5) s;
          let s = outb (0xA0 OR push_bit 4 drive OR head) (HD_DATA + 6) s;
          let s = outb c (HD_DATA + 7) s;
          sleep_on e wait_done s }"

definition rw_abs_hd :: "('a hdisk_scheme) env \<Rightarrow> (nat \<Rightarrow> u8) \<Rightarrow> nat \<Rightarrow> u32 \<Rightarrow> u32 \<Rightarrow> u32 \<Rightarrow> u32 \<Rightarrow> u32 \<Rightarrow>
    'a hdisk_scheme \<Rightarrow> 'a hdisk_scheme option" where
  "rw_abs_hd e st rw nr sec head cyl b s =
     (if rw = BLK_WRITE
      then hd_out e st nr (of_nat (BLOCK_SIZE div 512)) sec head cyl WIN_WRITE Write_intr b s
      else if rw = BLK_READ
      then hd_out e st nr (of_nat (BLOCK_SIZE div 512)) sec head cyl WIN_READ Read_intr b s
      else None)"

text \<open>The first sector of a block on the disk, when the partition has it.\<close>

definition hd_first_sector :: "'a hdisk_scheme \<Rightarrow> u32 \<Rightarrow> u32 option" where
  "hd_first_sector s b =
     (let block = b_nr (blks s b) * of_nat (BLOCK_SIZE div 512);
          dev = MINOR (b_dev (blks s b))
      in if of_nat (5 * NR_DRIVES) \<le> dev \<or> hd_enable (hd_tab s (unat dev)) = 0 \<or>
           nr_sects (hd_tab s (unat dev)) < block + of_nat (BLOCK_SIZE div 512)
         then None else Some (block + start_sect (hd_tab s (unat dev))))"

text \<open>Cylinder, head and sector of a sector number: two \<open>divl\<close> instructions.\<close>

definition hd_geometry :: "hd_i_struct \<Rightarrow> u32 \<Rightarrow> (u32 \<times> u32 \<times> u32) option" where
  "hd_geometry i block =
     (if hi_sect i = 0 \<or> hi_head i = 0 then None
      else let sec = block mod hi_sect i; block = block div hi_sect i
           in Some (block div hi_head i, block mod hi_head i, sec))"

definition hd_rw_handler :: "('a hdisk_scheme) env \<Rightarrow> (nat \<Rightarrow> u8) \<Rightarrow> nat \<Rightarrow> u32 \<Rightarrow> 'a hdisk_scheme \<Rightarrow> 'a hdisk_scheme option" where
  "hd_rw_handler e st rw b s =
     do { block \<leftarrow> hd_first_sector s b;
          let dev = MINOR (b_dev (blks s b)) div 5;
          (cyl, head, sec) \<leftarrow> hd_geometry (hd_info s (unat dev)) block;
          rw_abs_hd e st rw dev (sec + 1) head cyl b s }"

subsection \<open>Partitions\<close>

definition drive_geometry :: "drive_info \<Rightarrow> hd_i_struct" where
  "drive_geometry d =
     \<lparr>hi_head = ucast (di_heads d), hi_sect = ucast (di_sectors d), hi_cyl = ucast (di_cylinders d),
      hi_wpcom = - 1, hi_lzone = 920, hi_ctl = (if 8 < di_heads d then bit_set 0 3 else 0)\<rparr>"

text \<open>Entry \<open>j - 1\<close> of the partition table, 16 bytes each.\<close>

definition add_partition :: "nat \<Rightarrow> u32 \<Rightarrow> nat \<Rightarrow> 'a hdisk_scheme \<Rightarrow> 'a hdisk_scheme" where
  "add_partition i data j s =
     (let p = data + 0x1BE + of_nat (16 * (j - 1));
          ss = load32 s (p + 8); ns = load32 s (p + 12)
      in if ss = 0 \<and> ns = 0 then s
         else s\<lparr>hd_tab := (hd_tab s)(j + 5 * i := \<lparr>start_sect = ss, nr_sects = ns, hd_enable = 1\<rparr>)\<rparr>)"

definition DEV_HD :: nat where "DEV_HD = 1"

definition partition_drive :: "('a hdisk_scheme) env \<Rightarrow> boot_params \<Rightarrow> nat \<Rightarrow> 'a hdisk_scheme \<Rightarrow> 'a hdisk_scheme option" where
  "partition_drive e bp i s =
     do { bug_on (NR_DRIVES \<le> i);
          let g = drive_geometry (bp_drives bp ! i);
          let s = s\<lparr>hd_info := (hd_info s)(i := g),
                    hd_tab := (hd_tab s)(i * 5 := \<lparr>start_sect = 0, nr_sects = hi_head g * hi_sect g * hi_cyl g,
                                                hd_enable = 1\<rparr>)\<rparr>;
          (b, s) \<leftarrow> bread e (MKDEV (of_nat DEV_HD) (of_nat (i * 5))) 0 s;
          b \<leftarrow> b;
          let data = b_data (blks s b);
          bug_on (ram s (data + 510) \<noteq> 0x55 \<or> ram s (data + 511) \<noteq> 0xAA);
          let s = fold (add_partition i data) [1..<5] s;
          brelse e b s }"

definition partition :: "('a hdisk_scheme) env \<Rightarrow> boot_params \<Rightarrow> 'a hdisk_scheme \<Rightarrow> 'a hdisk_scheme option" where
  "partition e bp s = fold_opt (partition_drive e bp) [0..<length (bp_drives bp)] s"

subsection \<open>Start-up\<close>

definition IRQ_AT_WINI :: nat where "IRQ_AT_WINI = 14"
definition IRQ_CASCADE :: nat where "IRQ_CASCADE = 2"
definition hd_name :: "u8 list" where "hd_name = [104, 100]"

text \<open>\<open>handler\<close> and \<open>rw_handler\<close> are the addresses of \<open>hd_intr\<close> and \<open>hd_rw_handler\<close>.\<close>

definition hd_setup :: "('a hdisk_scheme) env \<Rightarrow> boot_params \<Rightarrow> nat \<Rightarrow> nat \<Rightarrow> 'a hdisk_scheme \<Rightarrow>
    (int \<times> 'a hdisk_scheme) option" where
  "hd_setup e bp handler rw_handler s =
     do { (ret, q) \<leftarrow> request_irq IRQ_AT_WINI handler hd_name (hd_irqs s);
          let s = s\<lparr>hd_irqs := q\<rparr>;
          if FAILED ret then Some (ret, s)
          else do {
            q \<leftarrow> enable_irq IRQ_AT_WINI (hd_irqs s);
            q \<leftarrow> enable_irq IRQ_CASCADE q;
            let s = s\<lparr>hd_irqs := q\<rparr>;
            let (ret, s) = register_blkdev DEV_HD (Some hd_name) (Some rw_handler) 512 s;
            if FAILED ret then Some (ret, s)
            else do { s \<leftarrow> partition e bp s;
                      s \<leftarrow> mount_root e (MKDEV (of_nat DEV_HD) 1) s;
                      Some (SUCCESS, s) } } }"

end
