(* ===== verification/Drv_Props.thy ===== *)
theory Drv_Props
  imports Tty Hd Ram Ex_Fs
begin

text \<open>
  Properties of the keyboard and the hard disk drivers.
\<close>

subsection \<open>The keyboard queue\<close>

text \<open>What the driver is to its reader: the state of the shift key and the keys not yet read.\<close>

definition kbd_abs :: "'a kbd_scheme \<Rightarrow> bool \<times> keyval list" where
  "kbd_abs s = (kbd_shift s, map (ev_kv s) (events_list s))"

text \<open>A key pressed or released, when at most \<open>n\<close> keys are kept.\<close>

definition kbd_key :: "nat \<Rightarrow> u8 \<Rightarrow> bool \<times> keyval list \<Rightarrow> bool \<times> keyval list" where
  "kbd_key n code = (\<lambda>(shift, pending).
     if code = 0xE0 \<or> code = 0xE1 then (shift, pending)
     else let row = unat (code AND 0x7F) * MAP_COLS; c = keymap ! row ! 0
          in if c AND 0x80 \<noteq> 0 then (if c AND 0x7F = KT_SHIFT then \<not> shift else shift, pending)
             else if code AND 0x80 = 0 \<and> length pending < n
             then (shift, pending @ [keymap ! (row + (if shift then 1 else 0))])
             else (shift, pending))"

definition kbd_ok :: "nat \<Rightarrow> 'a kbd_scheme \<Rightarrow> bool" where
  "kbd_ok n s \<longleftrightarrow> 0 < n \<and> distinct (free_events s @ events_list s) \<and> length (free_events s @ events_list s) = n"

lemma wake_up_kbd [simp]:
  "kbd_shift (wake_up q s) = kbd_shift s" "kbd_ctrl (wake_up q s) = kbd_ctrl s"
  "free_events (wake_up q s) = free_events s" "events_list (wake_up q s) = events_list s"
  "ev_kv (wake_up q s) = ev_kv s"
  by (simp_all add: wake_up_def upd_task_def del_run_def Let_def split: list.splits)

lemma queue_key_spec:
  assumes "kbd_ok n s"
  shows "\<exists>s'. queue_key kv s = Some s' \<and> kbd_ok n s' \<and>
    kbd_abs s' = (kbd_shift s, map (ev_kv s) (events_list s) @ (if length (events_list s) < n then [kv] else []))"
proof (cases "free_events s")
  case Nil
  then show ?thesis using assms by (auto simp: queue_key_def kbd_ok_def kbd_abs_def)
next
  case (Cons ev rest)
  then show ?thesis using assms by (auto simp: queue_key_def kbd_ok_def kbd_abs_def Let_def)
qed

lemma handler_keeps_ok:
  "kbd_ok n (s\<lparr>kbd_shift := b\<rparr>) = kbd_ok n s" "kbd_ok n (s\<lparr>kbd_ctrl := b\<rparr>) = kbd_ok n s"
  by (simp_all add: kbd_ok_def)

text \<open>C26: The keyboard driver is a queue of at most as many keys as there are events.  The interrupt
  handler never fails; a key pressed is translated by the state of shift and appended unless the
  queue is full, a special key or a released one only changes the modifiers, and a read takes the
  oldest key.\<close>

theorem keyboard_refines_queue:
  assumes "kbd_ok n s"
  shows "(\<exists>s'. keyboard_handler code s = Some s' \<and> kbd_ok n s' \<and> kbd_abs s' = kbd_key n code (kbd_abs s)) \<and>
    (\<forall>kv kvs. kbd_abs s = (kbd_shift s, kv # kvs) \<longrightarrow>
       (\<exists>s'. keyboard_read e s = Some (kv, s') \<and> kbd_ok n s' \<and> kbd_abs s' = (kbd_shift s, kvs)))"
proof (intro conjI allI impI)
  show "\<exists>s'. keyboard_handler code s = Some s' \<and> kbd_ok n s' \<and> kbd_abs s' = kbd_key n code (kbd_abs s)"
    using assms queue_key_spec [OF assms, of "keymap ! (unat (code AND 0x7F) * MAP_COLS + (if kbd_shift s then 1 else 0))"]
    by (auto simp: keyboard_handler_def kbd_key_def Let_def kbd_abs_def handler_keeps_ok KT_ESC_def KT_SHIFT_def
      KT_ALT_def KT_CTRL_def)
next
  fix kv kvs assume q: "kbd_abs s = (kbd_shift s, kv # kvs)"
  then obtain ev rest where ev: "events_list s = ev # rest" "ev_kv s ev = kv" "map (ev_kv s) rest = kvs"
    by (auto simp: kbd_abs_def)
  then have "wait_event e wait_kbd (\<lambda>s. events_list s \<noteq> []) s = Some s" by (subst wait_event.simps) simp
  then show "\<exists>s'. keyboard_read e s = Some (kv, s') \<and> kbd_ok n s' \<and> kbd_abs s' = (kbd_shift s, kvs)"
    using ev assms by (auto simp: keyboard_read_def kbd_ok_def kbd_abs_def)
qed

definition ex_kbd :: kbd where
  "ex_kbd = fs.extend ex_fs (kbd.fields False False [64, 96] [] (\<lambda>_. K 0)
     \<lparr>irq_descs = (\<lambda>_. \<lparr>irq_name = None, irq_handler = None, irq_disable_count = 0\<rparr>), imr = (\<lambda>_. 0xFF)\<rparr>)"

lemma ex_kbd_ok: "kbd_ok 2 ex_kbd" "kbd_abs ex_kbd = (False, [])"
  by (simp_all add: kbd_ok_def kbd_abs_def ex_kbd_def fs.defs kbd.defs)

theorem keyboard_refines_queue_witness:
  "\<exists>s s' s''. keyboard_handler 0x1E ex_kbd = Some s \<and> keyboard_read ex_env s = Some (K 97, s') \<and>
     keyboard_handler 0x2A s' = Some s'' \<and> kbd_abs s'' = (True, [])"
proof -
  have k: "keymap ! 90 = K 97" "keymap ! 126 = K2 129 0" by (simp_all add: keymap_def)
  obtain s where s: "keyboard_handler 0x1E ex_kbd = Some s" "kbd_ok 2 s" "kbd_abs s = (False, [K 97])"
    using keyboard_refines_queue [OF ex_kbd_ok(1), of "0x1E"] ex_kbd_ok(2)
    by (auto simp: kbd_key_def Let_def MAP_COLS_def k K_def KEYVAL_def)
  then obtain s' where s': "keyboard_read ex_env s = Some (K 97, s')" "kbd_ok 2 s'" "kbd_abs s' = (False, [])"
    using keyboard_refines_queue [OF s(2), of 0 ex_env] by (auto simp: kbd_abs_def)
  obtain s'' where "keyboard_handler 0x2A s' = Some s''" "kbd_abs s'' = (True, [])"
    using keyboard_refines_queue [OF s'(2), of "0x2A"] s'(3)
    by (auto simp: kbd_key_def Let_def MAP_COLS_def k K2_def KEYVAL_def KT_SHIFT_def)
  then show ?thesis using s s' by blast
qed

subsection \<open>Where the disk reads and writes\<close>




definition ex_hd :: hdisk where
  "ex_hd = fs.extend (ex_fs\<lparr>blks := (\<lambda>_. \<lparr>b_nr = 3, b_dev = MKDEV 1 1, b_data = 0xC0400000, b_dirty = False, b_uptodate = False\<rparr>)\<rparr>)
     (hdisk.fields (\<lambda>_. \<lparr>hi_head = 16, hi_sect = 63, hi_cyl = 100, hi_wpcom = - 1, hi_lzone = 920, hi_ctl = 8\<rparr>)
       (\<lambda>_. \<lparr>start_sect = 63, nr_sects = 2000, hd_enable = 1\<rparr>) (Some Read_intr) (Some 64) 0 []
       \<lparr>irq_descs = (\<lambda>_. \<lparr>irq_name = None, irq_handler = None, irq_disable_count = 0\<rparr>), imr = (\<lambda>_. 0xFF)\<rparr>)"

lemmas ex_hd_defs = ex_hd_def ex_fs_def fs.defs hdisk.defs


text \<open>The check of the block number overflows: block 0x1FFFFFFF of any partition passes it, and the
  transfer starts eight sectors before the partition, in whatever lies there.\<close>

theorem hd_block_number_wraps:
  assumes "MINOR (b_dev (blks s b)) < of_nat (5 * NR_DRIVES)"
    and "hd_enable (hd_tab s (unat (MINOR (b_dev (blks s b))))) \<noteq> 0" "b_nr (blks s b) = 0x1FFFFFFF"
  shows "hd_first_sector s b = Some (start_sect (hd_tab s (unat (MINOR (b_dev (blks s b))))) - 8)"
proof -
  have z: "\<not> x < (4294967296 :: u32)" for x by (simp add: word_less_nat_alt)
  have "(4294967288 :: u32) = - 8" by simp
  then show ?thesis using assms by (simp add: hd_first_sector_def Let_def BLOCK_SIZE_def not_le z)
qed

theorem hd_block_number_wraps_witness:
  "hd_first_sector (set_blk 64 (b_nr_update (\<lambda>_. 0x1FFFFFFF)) ex_hd) 64 = Some 55"
  using hd_block_number_wraps [of "set_blk 64 (b_nr_update (\<lambda>_. 0x1FFFFFFF)) ex_hd" 64]
  by (simp add: set_blk_def ex_hd_defs MINOR_def MKDEV_def NR_DRIVES_def)

subsection \<open>Reading a block\<close>

lemma wake_up_hd [simp]:
  "intr_done (wake_up q s) = intr_done s" "wait_blk (wake_up q s) = wait_blk s" "blks (wake_up q s) = blks s"
  "ram (wake_up q s) = ram s"
  by (simp_all add: wake_up_def upd_task_def del_run_def Let_def split: list.splits)

lemma intr_end_hd [simp]:
  "intr_done (intr_end f b s) = intr_done s" "wait_blk (intr_end f b s) = wait_blk s" "ram (intr_end f b s) = ram s"
  "blks (intr_end f b s) = (if intr_done s = 2048 then (blks s)(b := f (blks s b)) else blks s)"
  by (simp_all add: intr_end_def set_blk_def)

lemma load_bytes_hd [simp]:
  "load_bytes (intr_end f b s) a n = load_bytes s a n" "load_bytes (s\<lparr>intr_done := m\<rparr>) a n = load_bytes s a n"
  by (simp_all add: load_bytes_def)

lemma store_bytes_hd [simp]:
  "intr_done (store_bytes a bs s) = intr_done s" "wait_blk (store_bytes a bs s) = wait_blk s"
  "blks (store_bytes a bs s) = blks s"
  by (simp_all add: store_bytes_def)

lemma load_bytes_prefix: "take n (load_bytes s a (n + m)) = load_bytes s a n"
  by (simp add: load_bytes_def take_map)

lemma load_bytes_extend:
  assumes "n + length bs < 2 ^ 32"
  shows "load_bytes (store_bytes (a + of_nat n) bs s) a (n + length bs) = load_bytes s a n @ bs"
  using load_store_inside [of n bs "n + length bs" a s] assms by (simp add: load_bytes_prefix)

lemma read_intr_sectors:
  assumes "wait_blk s = Some b" "intr_done s = 0" "length ws \<le> 8" "\<forall>w\<in>set ws. length w = 512"
    and "win_result (st 0) = 0" "st 1 AND DRQ_STAT \<noteq> 0"
  shows "\<exists>s'. fold_opt (read_intr st) ws s = Some s' \<and> wait_blk s' = Some b \<and> intr_done s' = 256 * length ws \<and>
    blks s' = (if length ws = 8 then (blks s)(b := (blks s b)\<lparr>b_uptodate := True\<rparr>) else blks s) \<and>
    load_bytes s' (b_data (blks s b)) (512 * length ws) = concat ws"
  using assms(3,4)
proof (induction ws rule: rev_induct)
  case Nil
  then show ?case using assms(1,2) by (simp add: load_bytes_def)
next
  case (snoc w ws)
  then obtain t where t: "fold_opt (read_intr st) ws s = Some t" "wait_blk t = Some b"
    "intr_done t = 256 * length ws" "blks t = blks s"
    "load_bytes t (b_data (blks s b)) (512 * length ws) = concat ws"
    by auto
  let ?d = "b_data (blks s b)"
  let ?t = "store_bytes (?d + of_nat (512 * length ws)) w t"
  have w: "length w = 512" "length ws < 8" using snoc.prems by simp_all
  have "read_intr st w t = Some (intr_end (b_uptodate_update (\<lambda>_. True)) b (?t\<lparr>intr_done := 256 * length ws + 256\<rparr>))"
    using t w(2) assms(5,6) by (simp add: read_intr_def Let_def mult.commute)
  moreover have "load_bytes ?t ?d (512 * length ws + 512) = concat ws @ w"
    using load_bytes_extend [of "512 * length ws" w ?d t] w t(5) by simp
  ultimately show ?case using t w
    by (simp add: fold_opt_append add.commute [of 512] add.commute [of 256])
qed

text \<open>Eight interrupts read a block.  When the controller delivers its eight sectors without an
  error, the driver never panics, the buffer holds the sectors in order and the block is marked up
  to date exactly then.\<close>

theorem hd_reads_block:
  assumes "wait_blk s = Some b" "intr_done s = 0" "length ws = 8" "\<forall>w\<in>set ws. length w = 512"
    and "win_result (st 0) = 0" "st 1 AND DRQ_STAT \<noteq> 0"
  shows "\<exists>s'. fold_opt (read_intr st) ws s = Some s' \<and> b_uptodate (blks s' b) \<and>
    load_bytes s' (b_data (blks s b)) BLOCK_SIZE = concat ws"
  using read_intr_sectors [OF assms(1,2) _ assms(4-6)] assms(3) by (auto simp: BLOCK_SIZE_def)

theorem hd_reads_block_witness:
  "\<exists>s'. fold_opt (read_intr (\<lambda>_. 0x58)) (map (\<lambda>n. replicate 512 n) [1, 2, 3, 4, 5, 6, 7, 8]) ex_hd = Some s' \<and>
     b_uptodate (blks s' 64)"
proof -
  have "wait_blk ex_hd = Some 64" "intr_done ex_hd = 0" by (simp_all add: ex_hd_defs)
  from hd_reads_block [OF this, of "map (\<lambda>n. replicate 512 n) [1, 2, 3, 4, 5, 6, 7, 8]" "\<lambda>_. 0x58"] show ?thesis
    by (auto simp: win_result_def DRQ_STAT_def BUSY_STAT_def READY_STAT_def WRERR_STAT_def SEEK_STAT_def ERR_STAT_def)
qed

end
