(* ===== verification/Minix.thy ===== *)
theory Minix
  imports Namei Block_Dev "HOL-Library.Signed_Division"
begin

text \<open>
  fs/minix/: the minix file system, read-only.  Its blocks have 1024 bytes, four to a block of the
  device layer; structures on disk are read from memory with little-endian loads at the offsets
  the packed C structures have.  \<open>None\<close> is a failed \<open>BUG_ON\<close>, a null pointer the code follows, or
  an access outside an array.
\<close>

definition MINIX_SUPER_MAGIC :: u16 where "MINIX_SUPER_MAGIC = 0x137F"
definition MINIX_MAP_SLOTS :: nat where "MINIX_MAP_SLOTS = 8"
definition MINIX_BLOCK_SIZE :: nat where "MINIX_BLOCK_SIZE = 1024"
definition MINIX_ROOT_INR :: u32 where "MINIX_ROOT_INR = 1"
definition MINIX_NAME_LEN :: nat where "MINIX_NAME_LEN = 14"
definition sizeof_minix_d_inode :: nat where "sizeof_minix_d_inode = 32"
definition sizeof_minix_dentry :: nat where "sizeof_minix_dentry = 16"
definition INODES_PER_BLOCK :: nat where "INODES_PER_BLOCK = MINIX_BLOCK_SIZE div sizeof_minix_d_inode"
definition DENTRIES_PER_BLOCK :: nat where "DENTRIES_PER_BLOCK = MINIX_BLOCK_SIZE div sizeof_minix_dentry"

subsection \<open>Blocks (block.c)\<close>

text \<open>When there is no memory for the \<open>struct minix_block\<close> the device block is not given back.\<close>

definition get_minix_block ::
    "('a fs_scheme) env \<Rightarrow> u32 \<Rightarrow> u32 \<Rightarrow> 'a fs_scheme \<Rightarrow> (u32 option \<times> 'a fs_scheme) option" where
  "get_minix_block e dev n s =
     (let per = of_nat (BLOCK_SIZE div MINIX_BLOCK_SIZE); block = n div per;
          offset = n mod per * of_nat MINIX_BLOCK_SIZE
      in do { (b, s) \<leftarrow> bread e dev block s;
              (case b of
                 None \<Rightarrow> Some (None, s)
               | Some b \<Rightarrow>
                   do { (mb, s) \<leftarrow> kalloc sizeof_minix_block s;
                        (case mb of
                           None \<Rightarrow> Some (None, s)
                         | Some mb \<Rightarrow>
                             Some (Some mb, set_minix_block mb (\<lambda>_. \<lparr>mb_data = b_data (blks s b) + offset,
                               mb_blk = b, mb_dirty = False\<rparr>) s)) }) })"

definition put_minix_block :: "('a fs_scheme) env \<Rightarrow> u32 option \<Rightarrow> 'a fs_scheme \<Rightarrow> 'a fs_scheme option" where
  "put_minix_block e mb s =
     do { mb \<leftarrow> mb;
          bug_on (mb_data (minix_blocks s mb) = 0);
          let b = mb_blk (minix_blocks s mb);
          let s = (if mb_dirty (minix_blocks s mb) then set_blk b (b_dirty_update (\<lambda>_. True)) s else s);
          s \<leftarrow> brelse e b s;
          krelease mb s }"

text \<open>Entry \<open>i\<close> of the table of zones in block \<open>n\<close>; 0 when the block cannot be read.\<close>

definition zone_entry ::
    "('a fs_scheme) env \<Rightarrow> u32 \<Rightarrow> u32 \<Rightarrow> u32 \<Rightarrow> 'a fs_scheme \<Rightarrow> (u32 \<times> 'a fs_scheme) option" where
  "zone_entry e dev n i s =
     do { (mb, s) \<leftarrow> get_minix_block e dev n s;
          (case mb of
             None \<Rightarrow> Some (0, s)
           | Some b \<Rightarrow>
               do { let z = load16 s (mb_data (minix_blocks s b) + 2 * i);
                    s \<leftarrow> put_minix_block e (Some b) s;
                    Some (ucast z, s) }) }"

definition inode_dev :: "'a fs_scheme \<Rightarrow> u32 \<Rightarrow> u32 option" where
  "inode_dev s i = do { sb \<leftarrow> i_sb (inodes s i); Some (sb_dev (supers s sb)) }"

text \<open>\<open>create\<close> has no effect in the code as it stands.\<close>

definition bmap ::
    "('a fs_scheme) env \<Rightarrow> u32 \<Rightarrow> u32 \<Rightarrow> bool \<Rightarrow> 'a fs_scheme \<Rightarrow> (u32 \<times> 'a fs_scheme) option" where
  "bmap e i block create s =
     do { bug_on (7 + 512 + 512 * 512 \<le> block);
          let zone = (\<lambda>k. ucast (i_zone (inodes s i) k) :: u32);
          if block < 7 then Some (zone (unat block), s)
          else if block - 7 < 512
          then (if zone 7 = 0 then Some (0, s)
                else do { dev \<leftarrow> inode_dev s i; zone_entry e dev (zone 7) (block - 7) s })
          else let block = block - 7 - 512
               in if zone 8 = 0 then Some (0, s)
                  else do { dev \<leftarrow> inode_dev s i;
                            (z, s) \<leftarrow> zone_entry e dev (zone 8) (drop_bit 9 block) s;
                            if z = 0 then Some (0, s)
                            else do { dev \<leftarrow> inode_dev s i; zone_entry e dev z (block AND 511) s } } }"

definition minix_bmap :: "('a fs_scheme) env \<Rightarrow> u32 \<Rightarrow> u32 \<Rightarrow> 'a fs_scheme \<Rightarrow> (u32 \<times> 'a fs_scheme) option" where
  "minix_bmap e i block s = bmap e i block False s"

definition minix_create_block :: "('a fs_scheme) env \<Rightarrow> u32 \<Rightarrow> u32 \<Rightarrow> 'a fs_scheme \<Rightarrow> (u32 \<times> 'a fs_scheme) option" where
  "minix_create_block e i block s = bmap e i block True s"

subsection \<open>Inodes (inode.c)\<close>

definition MINIX_IFMT :: u16 where "MINIX_IFMT = 0xF000"
definition MINIX_ISREG :: "u16 \<Rightarrow> bool" where "MINIX_ISREG mode \<longleftrightarrow> mode AND MINIX_IFMT = 0x8000"
definition MINIX_ISDIR :: "u16 \<Rightarrow> bool" where "MINIX_ISDIR mode \<longleftrightarrow> mode AND MINIX_IFMT = 0x4000"
definition MINIX_ISCHR :: "u16 \<Rightarrow> bool" where "MINIX_ISCHR mode \<longleftrightarrow> mode AND MINIX_IFMT = 0x2000"
definition MINIX_ISBLK :: "u16 \<Rightarrow> bool" where "MINIX_ISBLK mode \<longleftrightarrow> mode AND MINIX_IFMT = 0x6000"

text \<open>What \<open>minix_read_inode\<close> makes of the inode on disk at \<open>d\<close>; \<open>False\<close>: its type is unknown.\<close>

definition decode_inode :: "'a fs_scheme \<Rightarrow> u32 \<Rightarrow> inode \<Rightarrow> inode \<times> bool" where
  "decode_inode s d x =
     (let mode = load16 s d;
          zone = (\<lambda>k. load16 s (d + 14 + 2 * of_nat k));
          z = ucast (zone 0) :: u32;
          time = load32 s (d + 8);
          x = x\<lparr>i_uid := ucast (load16 s (d + 2)), i_word := load32 s (d + 4), i_mtime := time,
                i_atime := time, i_ctime := time, i_gid := ucast (ram s (d + 12)),
                i_nlinks := ucast (ram s (d + 13))\<rparr>;
          zones = (\<lambda>x. x\<lparr>i_zone := (\<lambda>k. if k < 9 then zone k else i_zone x k)\<rparr>)
      in if MINIX_ISDIR mode then (zones (i_mode_update SET_DIR x), True)
         else if MINIX_ISREG mode then (zones (i_mode_update SET_REG x), True)
         else if MINIX_ISCHR mode
         then (zones (i_mode_update SET_CHR x\<lparr>i_word := MKDEV (drop_bit 8 z) (z AND 255)\<rparr>), True)
         else if MINIX_ISBLK mode
         then (zones (i_mode_update SET_BLK x\<lparr>i_word := MKDEV (drop_bit 8 z) (z AND 255)\<rparr>), True)
         else (x, False))"

text \<open>The block is dereferenced before it is tested: a block that cannot be read is \<open>None\<close>.\<close>

definition minix_read_inode :: "('a fs_scheme) env \<Rightarrow> u32 \<Rightarrow> 'a fs_scheme \<Rightarrow> (int \<times> 'a fs_scheme) option" where
  "minix_read_inode e i s =
     do { sb \<leftarrow> i_sb (inodes s i);
          let m = sb_minix (supers s sb);
          let n = i_nr (inodes s i) - 1;
          let blk_nr = 2 + ucast (ms_imap_blocks m) + ucast (ms_zmap_blocks m) + n div of_nat INODES_PER_BLOCK;
          (block, s) \<leftarrow> get_minix_block e (sb_dev (supers s sb)) blk_nr s;
          b \<leftarrow> block;
          let d = mb_data (minix_blocks s b) + n mod of_nat INODES_PER_BLOCK * of_nat sizeof_minix_d_inode;
          let (x, known) = decode_inode s d (inodes s i);
          s \<leftarrow> put_minix_block e (Some b) (set_inode i (\<lambda>_. x) s);
          Some (if known then SUCCESS else err ERROR, s) }"

definition minix_write_inode :: "u32 \<Rightarrow> 'a fs_scheme \<Rightarrow> (int \<times> 'a fs_scheme) option" where
  "minix_write_inode i s = Some (SUCCESS, s)"

text \<open>The name in a directory entry on disk: up to 14 characters, or up to the NUL.\<close>

definition disk_name :: "'a fs_scheme \<Rightarrow> u32 \<Rightarrow> u8 list" where
  "disk_name s d = takeWhile (\<lambda>c. c \<noteq> 0) (load_bytes s (d + 2) MINIX_NAME_LEN)"

text \<open>
  \<open>dentry_ret\<close> for an entry on disk whose name matches.  \<open>strncpy\<close> fills 14 bytes of the name or up to
  the NUL.
\<close>

definition found_entry ::
    "('a fs_scheme) env \<Rightarrow> u32 \<Rightarrow> u32 \<Rightarrow> u32 \<Rightarrow> 'a fs_scheme \<Rightarrow> (u32 option \<times> 'a fs_scheme) option" where
  "found_entry e par sb d s =
     do { (i, s) \<leftarrow> iget e sb (ucast (load16 s d)) s;
          (case i of
             None \<Rightarrow> Some (None, s)
           | Some i \<Rightarrow>
               do { (de, s) \<leftarrow> dget i (Some par) s;
                    (case de of
                       None \<Rightarrow> do { s \<leftarrow> iput e i s; Some (None, s) }
                     | Some x \<Rightarrow>
                         (let name = disk_name s d
                          in Some (Some x, set_dentry x (\<lambda>y. y\<lparr>d_name_len := length name,
                               d_name := name @ 0 # drop (Suc (length name)) (d_name y)\<rparr>) s))) }) }"

text \<open>
  The loop of \<open>minix_lookup\<close>: \<open>d\<close> is the entry looked at, \<open>mb\<close> the block it is in.  The test for the
  end of the block is the body of the \<open>if (minix_d->inr)\<close> before it, so it is skipped at an unused
  entry.  A name of 15 characters or more overruns \<open>tmp_name_buf\<close>.
\<close>

function lookup_entries ::
    "('a fs_scheme) env \<Rightarrow> u32 \<Rightarrow> u32 \<Rightarrow> u32 \<Rightarrow> u8 list \<Rightarrow> nat \<Rightarrow> nat \<Rightarrow> u32 \<Rightarrow> u32 option \<Rightarrow> 'a fs_scheme \<Rightarrow>
     (u32 option \<times> u32 option \<times> 'a fs_scheme) option" where
  "lookup_entries e par i sb name n k d mb s =
     (if n \<le> k then Some (None, mb, s)
      else let check = (\<lambda>d mb s.
                 if MINIX_NAME_LEN < length name then None
                 else if load16 s d \<noteq> 0 \<and> disk_name s d = name
                 then do { (r, s) \<leftarrow> found_entry e par sb d s; Some (r, mb, s) }
                 else lookup_entries e par i sb name n (k + 1) (d + of_nat sizeof_minix_dentry) mb s)
           in if load16 s d = 0 then check d mb s
              else do { b \<leftarrow> mb;
                        if d < mb_data (minix_blocks s b) + of_nat MINIX_BLOCK_SIZE then check d mb s
                        else do {
                          s \<leftarrow> put_minix_block e (Some b) s;
                          (block, s) \<leftarrow> minix_bmap e i (of_nat (k div DENTRIES_PER_BLOCK)) s;
                          (mb, s) \<leftarrow> (if block = 0 then Some (None, s)
                                    else get_minix_block e (sb_dev (supers s sb)) block s);
                          (case mb of
                             None \<Rightarrow> lookup_entries e par i sb name n (k + DENTRIES_PER_BLOCK) d None s
                           | Some b \<Rightarrow> check (mb_data (minix_blocks s b)) (Some b) s) } })"
  by pat_completeness auto
termination
  by (relation "measure (\<lambda>(e, par, i, sb, name, n, k, d, mb, s). n - k)")
    (auto simp: DENTRIES_PER_BLOCK_def MINIX_BLOCK_SIZE_def sizeof_minix_dentry_def)

declare lookup_entries.simps [simp del]

definition minix_lookup ::
    "('a fs_scheme) env \<Rightarrow> u32 \<Rightarrow> u8 list \<Rightarrow> 'a fs_scheme \<Rightarrow> (u32 option \<times> 'a fs_scheme) option" where
  "minix_lookup e par name s =
     do { i \<leftarrow> d_inode (dentries s par);
          let n = unat (i_word (inodes s i)) div sizeof_minix_dentry;
          let block = (ucast (i_zone (inodes s i) 0) :: u32);
          if block = 0 then Some (None, s)
          else do {
            sb \<leftarrow> i_sb (inodes s i);
            (mb, s) \<leftarrow> get_minix_block e (sb_dev (supers s sb)) block s;
            (case mb of
               None \<Rightarrow> Some (None, s)
             | Some b \<Rightarrow>
                 do { (r, mb, s) \<leftarrow> lookup_entries e par i sb name n 0 (mb_data (minix_blocks s b)) (Some b) s;
                      s \<leftarrow> (if mb = None then Some s else put_minix_block e mb s);
                      Some (r, s) }) } }"

end
