(* ===== verification/Minix_File.thy ===== *)
theory Minix_File
  imports Minix File_Dev
begin

text \<open>
  fs/minix/read.c, super.c and main.c: reading files and directories, and mounting.  \<open>None\<close> is a
  failed \<open>BUG_ON\<close>, a null pointer the code follows, or an access outside an array.
\<close>

subsection \<open>Reading a file (read.c)\<close>

text \<open>
  The loop of \<open>minix_file_read\<close>; \<open>left\<close> is what is still to be read, the result is its value at the
  end.  A missing block is a hole, which ends the loop after it has been filled with zeros; when the
  file ends with the hole the count is taken back although the position has moved.
\<close>

function file_read_loop ::
    "('a fs_scheme) env \<Rightarrow> u32 \<Rightarrow> u32 \<Rightarrow> nat \<Rightarrow> 'a fs_scheme \<Rightarrow> (nat \<times> 'a fs_scheme) option" where
  "file_read_loop e filp buf left s =
     (if left = 0 then Some (0, s)
      else do {
        let i = f_inode (files s filp);
        let pos = f_pos (files s filp);
        (nr, s) \<leftarrow> minix_bmap e i (word_of_int (pos sdiv int MINIX_BLOCK_SIZE)) s;
        dev \<leftarrow> inode_dev s i;
        (mb, s) \<leftarrow> (if nr \<noteq> 0 then get_minix_block e dev nr s else Some (None, s));
        if nr \<noteq> 0 \<and> mb = None then Some (left, s)
        else do {
          let nr = (word_of_int (pos smod int MINIX_BLOCK_SIZE) :: u32);
          let chars = unat (min (of_nat MINIX_BLOCK_SIZE - nr) (of_nat left));
          let sz = i_size (inodes s i);
          let remains = min (if pos < sz then nat (sz - pos) else 0) chars;
          let pos = pos + int remains;
          let s = set_file filp (f_pos_update (\<lambda>_. pos)) s;
          (case mb of
             Some b \<Rightarrow>
               do { let s = s\<lparr>ram := copy_chars remains buf (mb_data (minix_blocks s b) + nr) (ram s)\<rparr>;
                    s \<leftarrow> put_minix_block e (Some b) s;
                    if sz \<le> pos \<or> remains = 0 then Some (left - remains, s)
                    else file_read_loop e filp (buf + of_nat remains) (left - remains) s }
           | None \<Rightarrow>
               if pos < sz then Some (left - remains, store_bytes buf (replicate remains 0) s)
               else Some (left, s)) } })"
  by pat_completeness auto
termination by (relation "measure (\<lambda>(e, filp, buf, left, s). left)") auto

declare file_read_loop.simps [simp del]

definition minix_file_read ::
    "('a fs_scheme) env \<Rightarrow> u32 \<Rightarrow> u32 \<Rightarrow> u32 \<Rightarrow> 'a fs_scheme \<Rightarrow> (int \<times> 'a fs_scheme) option" where
  "minix_file_read e filp buf sz s =
     do { (left, s) \<leftarrow> file_read_loop e filp buf (unat sz) s;
          Some (if unat sz - left \<noteq> 0 then int (unat sz - left) else err EIO, s) }"

definition minix_file_write :: "u32 \<Rightarrow> u32 \<Rightarrow> u32 \<Rightarrow> 'a fs_scheme \<Rightarrow> (int \<times> 'a fs_scheme) option" where
  "minix_file_write filp buf sz s = Some (err ERROR, s)"

subsection \<open>Reading a directory\<close>

text \<open>\<open>sizeof(struct dir)\<close>\<close>

definition sizeof_dir :: u32 where "sizeof_dir = 20"

text \<open>Entry \<open>i\<close> of the user's buffer gets the name of entry \<open>j\<close> of the page \<open>tmp\<close>.\<close>

definition put_dir_name :: "u32 \<Rightarrow> u32 \<Rightarrow> nat \<Rightarrow> nat \<Rightarrow> 'a fs_scheme \<Rightarrow> 'a fs_scheme" where
  "put_dir_name buf tmp i j s =
     (let dst = buf + of_nat i * sizeof_dir; src = tmp + of_nat j * of_nat sizeof_minix_dentry + 2;
          s = store_bytes dst (strncpy_bytes MINIX_NAME_LEN (load_bytes s src MINIX_NAME_LEN)) s
      in store_byte (dst + of_nat MINIX_NAME_LEN) 0 s)"

function readdir_loop ::
    "('a fs_scheme) env \<Rightarrow> u32 \<Rightarrow> u32 \<Rightarrow> u32 \<Rightarrow> nat \<Rightarrow> nat \<Rightarrow> 'a fs_scheme \<Rightarrow> (int \<times> 'a fs_scheme) option" where
  "readdir_loop e filp buf tmp len i s =
     (if len \<le> i then Some (int i, s)
      else do {
        let sz = min (of_nat (len - i) * of_nat sizeof_minix_dentry) PAGE_SIZE;
        (ret, s) \<leftarrow> minix_file_read e filp tmp sz s;
        if 0 < ret
        then do {
          let n = nat ret div sizeof_minix_dentry;
          let s = fold (\<lambda>j. put_dir_name buf tmp (i + j) j) [0..<n] s;
          if nat ret mod sizeof_minix_dentry \<noteq> 0 then Some (err ERROR, s)
          else if nat ret < unat sz \<or> n = 0 then Some (int (i + n), s)
          else readdir_loop e filp buf tmp len (i + n) s }
        else if ret = err EIO \<and> i = 0 then Some (ret, s)
        else Some (int i, s) })"
  by pat_completeness auto
termination by (relation "measure (\<lambda>(e, filp, buf, tmp, len, i, s). len - i)") auto

declare readdir_loop.simps [simp del]

definition minix_file_readdir ::
    "('a fs_scheme) env \<Rightarrow> u32 \<Rightarrow> u32 \<Rightarrow> u32 \<Rightarrow> 'a fs_scheme \<Rightarrow> (int \<times> 'a fs_scheme) option" where
  "minix_file_readdir e filp buf len s =
     do { (tmp, s) \<leftarrow> get_page s;
          (case tmp of
             None \<Rightarrow> Some (err ENOMEM, s)
           | Some tmp \<Rightarrow>
               do { (ret, s) \<leftarrow> readdir_loop e filp buf tmp (unat len) 0 s;
                    s \<leftarrow> put_page tmp s;
                    Some (ret, s) }) }"

subsection \<open>Mounting (super.c)\<close>

text \<open>The header of the super block on disk; the two tables of bitmaps are cleared.\<close>

definition decode_super :: "'a fs_scheme \<Rightarrow> u32 \<Rightarrow> minix_super_block" where
  "decode_super s a = \<lparr>ms_ninodes = load16 s a, ms_nzones = load16 s (a + 2),
     ms_imap_blocks = load16 s (a + 4), ms_zmap_blocks = load16 s (a + 6),
     ms_firstdatazone = load16 s (a + 8), ms_log_zone_size = load16 s (a + 10),
     ms_max_size = load32 s (a + 12), ms_magic = load16 s (a + 16),
     ms_imap = (\<lambda>_. None), ms_zmap = (\<lambda>_. None)\<rparr>"

text \<open>
  The loop that reads \<open>n\<close> blocks of a bitmap into the slots \<open>put\<close> sets, from slot \<open>i\<close> and block
  \<open>block\<close> on; the result is the first block not read.  There are \<open>MINIX_MAP_SLOTS\<close> slots.
\<close>

fun read_map ::
    "('a fs_scheme) env \<Rightarrow> u32 \<Rightarrow> (nat \<Rightarrow> u32 option \<Rightarrow> 'a fs_scheme \<Rightarrow> 'a fs_scheme) \<Rightarrow> nat \<Rightarrow> nat \<Rightarrow> u32 \<Rightarrow>
     'a fs_scheme \<Rightarrow> (u32 \<times> 'a fs_scheme) option" where
  "read_map e dev put 0 i block s = Some (block, s)"
| "read_map e dev put (Suc n) i block s =
     do { (mb, s) \<leftarrow> get_minix_block e dev block s;
          bug_on (MINIX_MAP_SLOTS \<le> i);
          let s = put i mb s;
          if mb = None then Some (block, s) else read_map e dev put n (i + 1) (block + 1) s }"

definition put_imap :: "u32 \<Rightarrow> nat \<Rightarrow> u32 option \<Rightarrow> 'a fs_scheme \<Rightarrow> 'a fs_scheme" where
  "put_imap sb i mb =
     set_super sb (\<lambda>b. b\<lparr>sb_minix := sb_minix b\<lparr>ms_imap := (ms_imap (sb_minix b))(i := mb)\<rparr>\<rparr>)"
definition put_zmap :: "u32 \<Rightarrow> nat \<Rightarrow> u32 option \<Rightarrow> 'a fs_scheme \<Rightarrow> 'a fs_scheme" where
  "put_zmap sb i mb =
     set_super sb (\<lambda>b. b\<lparr>sb_minix := sb_minix b\<lparr>ms_zmap := (ms_zmap (sb_minix b))(i := mb)\<rparr>\<rparr>)"

text \<open>The slot of a bitmap that holds bit \<open>i\<close>, and that bit.\<close>

definition map_byte :: "'a fs_scheme \<Rightarrow> (nat \<Rightarrow> u32 option) \<Rightarrow> nat \<Rightarrow> u32 option" where
  "map_byte s tab i =
     (if MINIX_MAP_SLOTS \<le> i div 8192 then None
      else do { b \<leftarrow> tab (i div 8192); Some (mb_data (minix_blocks s b) + of_nat (i div 8 mod 1024)) })"

text \<open>The free bits below \<open>n\<close>, counted from the top.\<close>

fun count_free :: "'a fs_scheme \<Rightarrow> (nat \<Rightarrow> u32 option) \<Rightarrow> nat \<Rightarrow> nat \<Rightarrow> nat option" where
  "count_free s tab 0 free = Some free"
| "count_free s tab (Suc i) free =
     do { a \<leftarrow> map_byte s tab i;
          count_free s tab i (if bit (ram s a) (i mod 8) then free else free + 1) }"

fun release_map :: "('a fs_scheme) env \<Rightarrow> (nat \<Rightarrow> u32 option) \<Rightarrow> nat \<Rightarrow> nat \<Rightarrow> 'a fs_scheme \<Rightarrow> 'a fs_scheme option" where
  "release_map e tab 0 i s = Some s"
| "release_map e tab (Suc n) i s =
     do { s \<leftarrow> (if tab i = None then Some s else put_minix_block e (tab i) s);
          release_map e tab n (i + 1) s }"

text \<open>\<open>release_map\<close> and \<open>release_blk\<close> at the end of \<open>minix_get_super\<close>.\<close>

definition undo_super ::
    "('a fs_scheme) env \<Rightarrow> u32 \<Rightarrow> u32 \<Rightarrow> int \<Rightarrow> 'a fs_scheme \<Rightarrow> (int \<times> 'a fs_scheme) option" where
  "undo_super e sb blk ret s =
     do { s \<leftarrow> release_map e (ms_imap (sb_minix (supers s sb))) MINIX_MAP_SLOTS 0 s;
          s \<leftarrow> release_map e (ms_zmap (sb_minix (supers s sb))) MINIX_MAP_SLOTS 0 s;
          s \<leftarrow> put_minix_block e (Some blk) s;
          Some (ret, s) }"

definition set_low_bit :: "u32 \<Rightarrow> 'a fs_scheme \<Rightarrow> 'a fs_scheme" where
  "set_low_bit a s = store_byte a (ram s a OR 1) s"

definition minix_get_super :: "('a fs_scheme) env \<Rightarrow> u32 \<Rightarrow> 'a fs_scheme \<Rightarrow> (int \<times> 'a fs_scheme) option" where
  "minix_get_super e sb s =
     do { let dev = sb_dev (supers s sb);
          (blk, s) \<leftarrow> get_minix_block e dev 1 s;
          (case blk of
             None \<Rightarrow> Some (err ERROR, s)
           | Some blk \<Rightarrow>
               do { let m = decode_super s (mb_data (minix_blocks s blk));
                    if ms_magic m \<noteq> MINIX_SUPER_MAGIC
                    then do { s \<leftarrow> put_minix_block e (Some blk) s; Some (err ERROR, s) }
                    else do {
                      let s = set_super sb (sb_minix_update (\<lambda>_. m)) s;
                      (block, s) \<leftarrow> read_map e dev (put_imap sb) (unat (ms_imap_blocks m)) 0 2 s;
                      (block, s) \<leftarrow> read_map e dev (put_zmap sb) (unat (ms_zmap_blocks m)) 0 block s;
                      if block \<noteq> ucast (ms_imap_blocks m) + ucast (ms_zmap_blocks m) + 2
                      then undo_super e sb blk SUCCESS s
                      else do {
                        let imap = ms_imap (sb_minix (supers s sb));
                        let zmap = ms_zmap (sb_minix (supers s sb));
                        i0 \<leftarrow> imap 0;
                        z0 \<leftarrow> zmap 0;
                        let s = set_low_bit (mb_data (minix_blocks s i0)) s;
                        let s = set_low_bit (mb_data (minix_blocks s z0)) s;
                        free_blocks \<leftarrow> count_free s zmap (unat (ms_nzones m)) 0;
                        free_inodes \<leftarrow> count_free s imap (unat (ms_ninodes m) + 1) 0;
                        (root_inode, s) \<leftarrow> iget e sb MINIX_ROOT_INR s;
                        (case root_inode of
                           None \<Rightarrow> undo_super e sb blk (err ERROR) s
                         | Some r \<Rightarrow>
                             do { (d, s) \<leftarrow> dget r None s;
                                  let s = set_super sb (sb_root_update (\<lambda>_. d)) s;
                                  bug_on (d = None);
                                  s \<leftarrow> put_minix_block e (Some blk) s;
                                  Some (SUCCESS, s) }) } } }) }"

subsection \<open>The type (main.c)\<close>

definition minix_fops :: "('a fs_scheme) env \<Rightarrow> ('a fs_scheme) file_operations" where
  "minix_fops e = \<lparr>fo_open = None, fo_read = Some (minix_file_read e),
     fo_readdir = Some (minix_file_readdir e), fo_write = Some minix_file_write, fo_ioctl = None,
     fo_lseek = None, fo_close = None\<rparr>"

definition minix_sops :: "('a fs_scheme) env \<Rightarrow> ('a fs_scheme) super_operations" where
  "minix_sops e = \<lparr>so_lookup = Some (minix_lookup e), so_read_inode = Some (minix_read_inode e),
     so_write_inode = Some minix_write_inode\<rparr>"

definition minix_type :: "('a fs_scheme) env \<Rightarrow> ('a fs_scheme) file_system_type" where
  "minix_type e = \<lparr>ft_name = Some [109, 105, 110, 105, 120], ft_get_super = Some (minix_get_super e),
     ft_sops = Some (minix_sops e), ft_fops = Some (minix_fops e)\<rparr>"

definition minix_fs_setup :: "('a fs_scheme) env \<Rightarrow> nat \<Rightarrow> 'a fs_scheme \<Rightarrow> int \<times> 'a fs_scheme" where
  "minix_fs_setup e f s = register_filesystem e f s"

end
