(* ===== verification/Disk_Spec.thy ===== *)
theory Disk_Spec
  imports Block_Dev Ram Minix_File
begin

text \<open>
  The memory of the file system layer: objects from \<open>kmalloc\<close> and single pages, with the pages in
  \<open>B\<close> handed out to its users besides those \<open>A\<close> the object allocator has.  The steps here are what
  the block layer and the file system need of the allocators.
\<close>

subsection \<open>Pages beside those of the object allocator\<close>

definition owns_beside :: "u32 set \<Rightarrow> mm \<Rightarrow> u32 set \<Rightarrow> bool" where
  "owns_beside B m A \<longleftrightarrow> A \<inter> B = {} \<and> mm_owns m (A \<union> B)"

interpretation beside: page_source "owns_beside B" kget kput for B
proof
  fix m A
  assume o: "owns_beside B m A"
  then have d: "A \<inter> B = {}" and r: "mm_owns m (A \<union> B)" by (simp_all add: owns_beside_def)
  show "\<exists>r m'. kget m = Some (r, m')" by (rule kpages.get_total [OF r])
  show "m' = m" if "kget m = Some (None, m')" for m' using kpages.get_none [OF r that] .
  show "v \<notin> A \<and> page_offset v = 0 \<and> v \<noteq> 0 \<and> owns_beside B m' (insert v A)" if "kget m = Some (Some v, m')" for v m'
    using kpages.get_some [OF r that] d by (simp add: owns_beside_def)
  show "\<exists>m'. kput m v = Some m' \<and> owns_beside B m' (A - {v})" if v: "v \<in> A" for v
  proof -
    have "A \<union> B - {v} = (A - {v}) \<union> B" using d v by auto
    then show ?thesis using kpages.put_ok [OF r, of v] v d by (auto simp: owns_beside_def)
  qed
qed

definition fs_mem :: "'a vm_scheme \<Rightarrow> u32 set \<Rightarrow> u32 set \<Rightarrow> bool" where
  "fs_mem s A B \<longleftrightarrow> kmem_ok (vkm s) A \<and> owns_beside B (vmm s) A"

abbreviation objects :: "'a vm_scheme \<Rightarrow> u32 set \<Rightarrow> (u32 \<times> nat) set" where
  "objects s A \<equiv> live (vkm s) A"

lemma kget_kernel:
  assumes "mm_rel m a" "kget m = Some (Some v, m')"
  shows "PAGE_OFFSET \<le> v"
proof -
  have t: "ZONE_NORMAL < NR_ZONE_TYPES" by (simp add: zone_consts)
  have "0 \<le> MAX_ORDER" by simp
  from mm_alloc_step [OF assms(1) t this] show ?thesis
  proof (elim disjE exE conjE)
    assume "alloc_pages m ZONE_NORMAL 0 = Some (None, m)"
    then show ?thesis using assms(2) by (simp add: kget_alloc)
  next
    fix p m' i
    assume p: "alloc_pages m ZONE_NORMAL 0 = Some (Some p, m')" "i \<in> set (fast_zone_entry m ZONE_NORMAL)"
      "block_fits (bbase (zones m i)) (bend (zones m i)) p 0" "page_to_phys m' = page_to_phys m"
    have l: "layout_ok m" using assms(1) by (auto simp: mm_rel_def mm_inv_def)
    have i: "i \<in> set (zone_all_for_each m)" using p(2) t by (auto simp: set_zone_all)
    note B = block_fitsD [OF p(3)]
    from page_phys [OF l i B(1,5)] obtain x where x: "page_to_phys m p = Some x"
      "unat x = unat (base_addr (zones m i)) + (p - bbase (zones m i)) * 4096" by metis
    have "p - bbase (zones m i) < bend (zones m i) - bbase (zones m i)" using B(1,5) by simp
    then have "unat x < 0x38000000" using layout_okD(1) [OF l t p(2)] x(2) by (simp add: zone_ok_def zone_consts)
    then have "unat (va x) = unat x + 0xC0000000" by (simp add: va_def PAGE_OFFSET_def unat_word_ariths)
    moreover have "v = va x" using assms(2) p(1,4) x(1) by (simp add: kget_alloc page_to_virt_def)
    ultimately show ?thesis by (simp add: PAGE_OFFSET_def word_le_nat_alt)
  qed
qed

lemma get_page_mem:
  assumes "fs_mem s A B"
  shows "get_page s = Some (None, s) \<or>
    (\<exists>v m. get_page s = Some (Some v, s\<lparr>vmm := m\<rparr>) \<and> v \<notin> B \<and> page_offset v = 0 \<and> PAGE_OFFSET \<le> v \<and>
       fs_mem (s\<lparr>vmm := m\<rparr>) A (insert v B))"
proof -
  have r: "mm_owns (vmm s) (A \<union> B)" and d: "A \<inter> B = {}" and k: "kmem_ok (vkm s) A"
    using assms by (simp_all add: fs_mem_def owns_beside_def)
  obtain a where a: "mm_rel (vmm s) a" using r by (auto simp: mm_owns_def)
  obtain x m where x: "kget (vmm s) = Some (x, m)" using kpages.get_total [OF r] by blast
  show ?thesis
  proof (cases x)
    case None
    then show ?thesis using x kpages.get_none [OF r, of m] by (simp add: get_page_def)
  next
    case (Some v)
    then show ?thesis using x kpages.get_some [OF r, of v m] kget_kernel [OF a, of v m] d k
      by (auto simp: get_page_def fs_mem_def owns_beside_def)
  qed
qed

lemma put_page_mem:
  assumes "fs_mem s A B" "v \<in> B"
  shows "\<exists>m. put_page v s = Some (s\<lparr>vmm := m\<rparr>) \<and> fs_mem (s\<lparr>vmm := m\<rparr>) A (B - {v})"
proof -
  have r: "mm_owns (vmm s) (A \<union> B)" and d: "A \<inter> B = {}" and k: "kmem_ok (vkm s) A"
    using assms by (simp_all add: fs_mem_def owns_beside_def)
  have e: "A \<union> B - {v} = A \<union> (B - {v})" using d assms(2) by auto
  obtain m where "kput (vmm s) v = Some m" "mm_owns m (A \<union> B - {v})" using kpages.put_ok [OF r, of v] assms(2) by auto
  then show ?thesis using d k unfolding e by (auto simp: put_page_def fs_mem_def owns_beside_def)
qed

lemma kalloc_mem:
  assumes "fs_mem s A B" "kmalloc_index sz = int i"
  shows "kalloc sz s = Some (None, s) \<or>
    (\<exists>ad k m A'. kalloc sz s = Some (Some ad, s\<lparr>vkm := k, vmm := m\<rparr>) \<and> fs_mem (s\<lparr>vkm := k, vmm := m\<rparr>) A' B \<and>
       (ad, i) \<notin> objects s A \<and> live k A' = insert (ad, i) (objects s A))"
proof -
  have "kmem_ok (vkm s) A" "owns_beside B (vmm s) A" using assms(1) by (simp_all add: fs_mem_def)
  from beside.kmalloc_inv [OF this assms(2)] show ?thesis by (fastforce simp: kalloc_def fs_mem_def)
qed

lemma krelease_mem:
  assumes "fs_mem s A B" "(ad, i) \<in> objects s A"
  shows "\<exists>k m A'. krelease ad s = Some (s\<lparr>vkm := k, vmm := m\<rparr>) \<and> fs_mem (s\<lparr>vkm := k, vmm := m\<rparr>) A' B \<and>
    live k A' = objects s A - {(ad, i)}"
proof -
  have "kmem_ok (vkm s) A" "owns_beside B (vmm s) A" using assms(1) by (simp_all add: fs_mem_def)
  from beside.kfree_inv [OF this assms(2)] show ?thesis by (fastforce simp: krelease_def fs_mem_def)
qed

lemma fs_mem_cong: "vkm s' = vkm s \<Longrightarrow> vmm s' = vmm s \<Longrightarrow> fs_mem s' A B = fs_mem s A B"
  by (simp add: fs_mem_def)

text \<open>Two objects at one address are one.\<close>

lemma objects_inj:
  assumes "fs_mem s A B" "(ad, i) \<in> objects s A" "(ad, j) \<in> objects s A"
  shows "i = j"
proof (rule ccontr)
  assume "i \<noteq> j"
  then have "obj_bytes (ad, i) \<inter> obj_bytes (ad, j) = {}"
    using assms by (intro live_disjoint [of "vkm s" A]) (auto simp: fs_mem_def)
  moreover have "unat ad \<in> obj_bytes (ad, i)" "unat ad \<in> obj_bytes (ad, j)" by (simp_all add: obj_bytes_def)
  ultimately show False by blast
qed

section \<open>The disk\<close>

text \<open>
  Reading blocks when the driver is a disk: what \<open>bread\<close>, \<open>get_minix_block\<close> and the zone tables of
  a minix inode give, and that they leave everything else alone.
\<close>

subsection \<open>Disks\<close>

text \<open>The contents of the blocks of a device; \<open>None\<close> is a block that cannot be read.\<close>

type_synonym disk = "u32 \<Rightarrow> u32 \<Rightarrow> u8 list option"

definition disk_driver :: "disk \<Rightarrow> nat \<Rightarrow> u32 \<Rightarrow> 'a fs_scheme \<Rightarrow> 'a fs_scheme option" where
  "disk_driver D rw b s =
     (if rw = BLK_READ
      then case D (b_dev (blks s b)) (b_nr (blks s b)) of
             None \<Rightarrow> Some s
           | Some c \<Rightarrow> Some (store_bytes (b_data (blks s b)) c (set_blk b (b_uptodate_update (\<lambda>_. True)) s))
      else Some s)"

text \<open>The driver of every device is the disk; a block has \<open>BLOCK_SIZE\<close> bytes.\<close>

definition on_disk :: "('a fs_scheme) env \<Rightarrow> disk \<Rightarrow> bool" where
  "on_disk e D \<longleftrightarrow> (\<forall>m. blk_driver e m = disk_driver D) \<and> (\<forall>dev n c. D dev n = Some c \<longrightarrow> length c = BLOCK_SIZE)"

text \<open>
  Nothing has changed but the records of blocks, the allocators and free memory: memory of
  user space and the pages in \<open>B\<close> is as it was.
\<close>

definition quiet :: "u32 set \<Rightarrow> 'a fs_scheme \<Rightarrow> 'a fs_scheme \<Rightarrow> bool" where
  "quiet B s s' \<longleftrightarrow> inodes s' = inodes s \<and> files s' = files s \<and> supers s' = supers s \<and> blkdevs s' = blkdevs s \<and>
     (\<forall>x. x < PAGE_OFFSET \<or> PAGE_FLOOR x \<in> B \<longrightarrow> ram s' x = ram s x)"

lemma quiet_refl [simp]: "quiet B s s"
  by (simp add: quiet_def)

lemma quiet_trans: "quiet B s t \<Longrightarrow> quiet C t u \<Longrightarrow> B \<subseteq> C \<Longrightarrow> quiet B s u"
  by (auto simp: quiet_def)

lemma PAGE_FLOOR_inside:
  assumes "page_offset v = 0" "unat (x - v) < 4096"
  shows "PAGE_FLOOR x = v"
proof -
  obtain V where V: "unat v = 4096 * V" using assms(1) by (auto simp: page_offset_dvd elim!: dvdE)
  define k where "k = unat (x - v)"
  have k: "k < 4096" using assms(2) by (simp add: k_def)
  have "V < 2 ^ 20" using unat_lt_u32 [of v] by (simp add: V)
  then have "4096 * V + k < 2 ^ 32" using k by simp
  moreover have "unat (v + (x - v)) = (unat v + k) mod 2 ^ 32" unfolding k_def by (subst unat_word_ariths(1)) simp
  then have "unat x = (unat v + k) mod 2 ^ 32" by simp
  ultimately have "unat x = 4096 * V + k" by (simp add: V)
  then have "unat (PAGE_FLOOR x) = unat v" using k by (simp add: unat_PAGE_FLOOR V)
  then show ?thesis by (simp add: word_unat_eq_iff)
qed

lemma PAGE_OFFSET_floor: "PAGE_OFFSET \<le> PAGE_FLOOR x \<Longrightarrow> PAGE_OFFSET \<le> x"
  by (simp add: word_le_nat_alt unat_PAGE_FLOOR)

lemma quiet_store:
  assumes "page_offset v = 0" "PAGE_OFFSET \<le> v" "v \<notin> B" "length bs \<le> 4096"
  shows "quiet B s (store_bytes v bs s)"
proof -
  have "\<not> unat (x - v) < length bs" if "x < PAGE_OFFSET \<or> PAGE_FLOOR x \<in> B" for x
  proof
    assume "unat (x - v) < length bs"
    then have "PAGE_FLOOR x = v" using assms(1,4) by (intro PAGE_FLOOR_inside) simp_all
    then show False using that assms(2,3) PAGE_OFFSET_floor [of x] by auto
  qed
  then show ?thesis using assms(4) by (auto simp: quiet_def ram_store_bytes) (simp_all add: store_bytes_def)
qed

subsection \<open>Blocks\<close>

lemma index_16: "kmalloc_index sizeof_block = int 0" "kmalloc_index sizeof_minix_block = int 0"
  by (simp_all add: kmalloc_index_eq sizeof_block_def sizeof_minix_block_def bitlen_step)

text \<open>A block in use: its record, its page and its contents.\<close>

definition holds_block :: "'a fs_scheme \<Rightarrow> u32 \<Rightarrow> u32 \<Rightarrow> bool" where
  "holds_block s b v \<longleftrightarrow> page_offset v = 0 \<and> PAGE_OFFSET \<le> v \<and> b_data (blks s b) = v \<and> \<not> b_dirty (blks s b)"

lemma bread_spec:
  assumes m: "fs_mem s A B" and e: "on_disk e D" and h: "blk_handler s dev \<noteq> None"
  shows "(\<exists>s' A'. bread e dev n s = Some (None, s') \<and> fs_mem s' A' B \<and> quiet B s s') \<or>
    (\<exists>b s' A' v c. bread e dev n s = Some (Some b, s') \<and> fs_mem s' A' (insert v B) \<and> quiet B s s' \<and> v \<notin> B \<and>
       holds_block s' b v \<and> (b, 0) \<in> objects s' A' \<and> D dev n = Some c \<and> load_bytes s' v BLOCK_SIZE = c)"
proof -
  obtain rw where rw: "blk_handler s dev = Some rw" using h by blast
  from kalloc_mem [OF m index_16(1)] show ?thesis
  proof (elim disjE exE conjE)
    assume "kalloc sizeof_block s = Some (None, s)"
    then show ?thesis using m rw by (auto simp: bread_def get_empty_blk_def)
  next
    fix b k1 m1 A1 assume b: "kalloc sizeof_block s = Some (Some b, s\<lparr>vkm := k1, vmm := m1\<rparr>)"
      "fs_mem (s\<lparr>vkm := k1, vmm := m1\<rparr>) A1 B" "live k1 A1 = insert (b, 0) (objects s A)"
    let ?s1 = "s\<lparr>vkm := k1, vmm := m1\<rparr>"
    have b0: "(b, 0) \<in> objects ?s1 A1" using b(3) by simp
    from get_page_mem [OF b(2)] show ?thesis
    proof (elim disjE exE conjE)
      assume g: "get_page ?s1 = Some (None, ?s1)"
      from krelease_mem [OF b(2) b0] obtain k2 m2 A2 where
        "krelease b ?s1 = Some (?s1\<lparr>vkm := k2, vmm := m2\<rparr>)" "fs_mem (?s1\<lparr>vkm := k2, vmm := m2\<rparr>) A2 B" by blast
      then show ?thesis using rw b(1) g by (auto simp: bread_def get_empty_blk_def quiet_def)
    next
      fix v m2 assume g: "get_page ?s1 = Some (Some v, ?s1\<lparr>vmm := m2\<rparr>)" "v \<notin> B" "page_offset v = 0" "PAGE_OFFSET \<le> v"
        "fs_mem (?s1\<lparr>vmm := m2\<rparr>) A1 (insert v B)"
      define s2 where "s2 = set_blk b (\<lambda>_. \<lparr>b_nr = n, b_dev = dev, b_data = v, b_dirty = False, b_uptodate = False\<rparr>)
        (?s1\<lparr>vmm := m2\<rparr>)"
      have s2: "fs_mem s2 A1 (insert v B)" "quiet B s s2" "vkm s2 = k1"
        using g(5) by (simp_all add: s2_def fs_mem_def set_blk_def quiet_def)
      have br: "bread e dev n s = (do { s \<leftarrow> disk_driver D BLK_READ b s2;
          if b_uptodate (blks s b) then Some (Some b, s) else do { s \<leftarrow> put_blk b s; Some (None, s) } })"
        using rw b(1) g(1) e by (simp add: bread_def get_empty_blk_def s2_def on_disk_def)
      show ?thesis
      proof (cases "D dev n")
        case None
        have d: "disk_driver D BLK_READ b s2 = Some s2" using None by (simp add: disk_driver_def s2_def set_blk_def)
        have bd: "b_data (blks s2 b) = v" "\<not> b_uptodate (blks s2 b)" by (simp_all add: s2_def set_blk_def)
        from put_page_mem [OF s2(1), of v] obtain m3 where p: "put_page v s2 = Some (s2\<lparr>vmm := m3\<rparr>)"
          "fs_mem (s2\<lparr>vmm := m3\<rparr>) A1 B" using g(2) by auto
        have "(b, 0) \<in> objects (s2\<lparr>vmm := m3\<rparr>) A1" using b0 s2(3) by simp
        from krelease_mem [OF p(2) this] obtain k4 m4 A4 where
          r: "krelease b (s2\<lparr>vmm := m3\<rparr>) = Some (s2\<lparr>vmm := m3, vkm := k4, vmm := m4\<rparr>)"
          "fs_mem (s2\<lparr>vmm := m3, vkm := k4, vmm := m4\<rparr>) A4 B" by blast
        have "quiet B s (s2\<lparr>vmm := m3, vkm := k4, vmm := m4\<rparr>)" using s2(2) by (simp add: quiet_def)
        then show ?thesis using br d bd p r by (auto simp: put_blk_def)
      next
        case (Some c)
        then have c: "length c = BLOCK_SIZE" using e by (simp add: on_disk_def)
        let ?s3 = "store_bytes v c (set_blk b (b_uptodate_update (\<lambda>_. True)) s2)"
        have d: "disk_driver D BLK_READ b s2 = Some ?s3" using Some by (simp add: disk_driver_def s2_def set_blk_def)
        have bs: "blks ?s3 b = \<lparr>b_nr = n, b_dev = dev, b_data = v, b_dirty = False, b_uptodate = True\<rparr>"
          by (simp add: s2_def set_blk_def store_bytes_def)
        have "quiet B s2 (set_blk b (b_uptodate_update (\<lambda>_. True)) s2)" by (simp add: quiet_def set_blk_def)
        moreover have "quiet B (set_blk b (b_uptodate_update (\<lambda>_. True)) s2) ?s3"
          using g(2-4) c by (intro quiet_store) (simp_all add: BLOCK_SIZE_def)
        ultimately have "quiet B s ?s3" using s2(2) by (blast intro: quiet_trans)
        moreover have "fs_mem ?s3 A1 (insert v B)" "vkm ?s3 = k1" using s2(1,3) by (simp_all add: fs_mem_def set_blk_def)
        moreover have "load_bytes ?s3 v BLOCK_SIZE = c"
          using load_store_bytes [of c v] c by (simp add: BLOCK_SIZE_def)
        ultimately show ?thesis using br d bs b(3) g(2-4) Some by (auto simp: holds_block_def)
      qed
    qed
  qed
qed

lemma brelse_spec:
  assumes m: "fs_mem s A (insert v B)" and v: "v \<notin> B" "holds_block s b v" "(b, 0) \<in> objects s A"
  shows "\<exists>k m A'. brelse e b s = Some (s\<lparr>vkm := k, vmm := m\<rparr>) \<and> fs_mem (s\<lparr>vkm := k, vmm := m\<rparr>) A' B \<and>
    live k A' = objects s A - {(b, 0)}"
proof -
  from put_page_mem [OF m, of v] obtain m1 where p: "put_page v s = Some (s\<lparr>vmm := m1\<rparr>)" "fs_mem (s\<lparr>vmm := m1\<rparr>) A B"
    using v(1) by auto
  have "(b, 0) \<in> objects (s\<lparr>vmm := m1\<rparr>) A" using v(3) by simp
  from krelease_mem [OF p(2) this] show ?thesis
    using p(1) v(2) by (auto simp: brelse_def put_blk_def holds_block_def)
qed

subsection \<open>Blocks of the minix file system\<close>

text \<open>What is on the disk in minix block \<open>n\<close>.\<close>

definition minix_block_of :: "disk \<Rightarrow> u32 \<Rightarrow> u32 \<Rightarrow> u8 list option" where
  "minix_block_of D dev n =
     map_option (\<lambda>c. take MINIX_BLOCK_SIZE (drop (unat (n mod 4) * MINIX_BLOCK_SIZE) c)) (D dev (n div 4))"

definition holds_minix :: "'a fs_scheme \<Rightarrow> u32 set \<Rightarrow> u32 \<Rightarrow> u32 \<Rightarrow> bool" where
  "holds_minix s A mb v \<longleftrightarrow> holds_block s (mb_blk (minix_blocks s mb)) v \<and> \<not> mb_dirty (minix_blocks s mb) \<and>
     mb_data (minix_blocks s mb) \<noteq> 0 \<and> mb \<noteq> mb_blk (minix_blocks s mb) \<and>
     (mb_blk (minix_blocks s mb), 0) \<in> objects s A \<and> (mb, 0) \<in> objects s A"

text \<open>The bytes of the block, in the kernel's part of memory.\<close>

definition minix_bytes :: "'a fs_scheme \<Rightarrow> u32 \<Rightarrow> u8 list \<Rightarrow> bool" where
  "minix_bytes s mb c \<longleftrightarrow> length c = MINIX_BLOCK_SIZE \<and> load_bytes s (mb_data (minix_blocks s mb)) MINIX_BLOCK_SIZE = c \<and>
     (\<forall>k<MINIX_BLOCK_SIZE. PAGE_OFFSET \<le> mb_data (minix_blocks s mb) + of_nat k)"

lemma minix_offset: "n mod of_nat (BLOCK_SIZE div MINIX_BLOCK_SIZE) = (n :: u32) mod 4"
  "n div of_nat (BLOCK_SIZE div MINIX_BLOCK_SIZE) = n div 4" "unat (n mod 4) < 4"
  by (simp_all add: BLOCK_SIZE_def MINIX_BLOCK_SIZE_def unat_mod)

lemma inside_page:
  assumes "page_offset v = 0" "PAGE_OFFSET \<le> v" "k < 4096"
  shows "unat (v + of_nat k) = unat v + k" "PAGE_OFFSET \<le> v + of_nat k" "v + of_nat k \<noteq> 0"
proof -
  obtain V where V: "unat v = 4096 * V" using assms(1) by (auto simp: page_offset_dvd elim!: dvdE)
  have "V < 2 ^ 20" using unat_lt_u32 [of v] by (simp add: V)
  moreover have "unat (of_nat k :: u32) = k" using assms(3) by (intro unat_small) simp
  ultimately show u: "unat (v + of_nat k) = unat v + k" using assms(3) by (simp add: unat_word_ariths V)
  then show o: "PAGE_OFFSET \<le> v + of_nat k" using assms(2) by (simp add: word_le_nat_alt)
  then show "v + of_nat k \<noteq> 0" by (auto simp: PAGE_OFFSET_def)
qed

lemma get_minix_block_spec:
  assumes m: "fs_mem s A B" and e: "on_disk e D" and h: "blk_handler s dev \<noteq> None"
  shows "(\<exists>s' A' B'. get_minix_block e dev n s = Some (None, s') \<and> fs_mem s' A' B' \<and> B \<subseteq> B' \<and> quiet B s s') \<or>
    (\<exists>mb s' A' v c. get_minix_block e dev n s = Some (Some mb, s') \<and> fs_mem s' A' (insert v B) \<and> quiet B s s' \<and> v \<notin> B \<and>
       holds_minix s' A' mb v \<and> minix_block_of D dev n = Some c \<and> minix_bytes s' mb c)"
  using bread_spec [OF m e h, of "n div 4"]
proof (elim disjE exE conjE)
  fix s1 A1 assume "bread e dev (n div 4) s = Some (None, s1)" "fs_mem s1 A1 B" "quiet B s s1"
  then show ?thesis by (auto simp: get_minix_block_def Let_def minix_offset)
next
  fix b s1 A1 v c
  assume b: "bread e dev (n div 4) s = Some (Some b, s1)" "fs_mem s1 A1 (insert v B)" "quiet B s s1" "v \<notin> B"
    "holds_block s1 b v" "(b, 0) \<in> objects s1 A1" "D dev (n div 4) = Some c" "load_bytes s1 v BLOCK_SIZE = c"
  show ?thesis using kalloc_mem [OF b(2) index_16(2)]
  proof (elim disjE exE conjE)
    assume "kalloc sizeof_minix_block s1 = Some (None, s1)"
    then show ?thesis using b by (auto simp: get_minix_block_def Let_def minix_offset)
  next
    fix mb k m2 A2 assume mb: "kalloc sizeof_minix_block s1 = Some (Some mb, s1\<lparr>vkm := k, vmm := m2\<rparr>)"
      "fs_mem (s1\<lparr>vkm := k, vmm := m2\<rparr>) A2 (insert v B)" "(mb, 0) \<notin> objects s1 A1" "live k A2 = insert (mb, 0) (objects s1 A1)"
    let ?o = "unat (n mod 4) * MINIX_BLOCK_SIZE"
    define s2 where "s2 = set_minix_block mb (\<lambda>_. \<lparr>mb_data = v + of_nat ?o, mb_blk = b, mb_dirty = False\<rparr>) (s1\<lparr>vkm := k, vmm := m2\<rparr>)"
    have bd: "b_data (blks s1 b) = v" using b(5) by (simp add: holds_block_def)
    have g: "get_minix_block e dev n s = Some (Some mb, s2)"
      using b(1) mb(1) bd by (simp add: get_minix_block_def Let_def minix_offset s2_def set_minix_block_def)
    have o: "?o + k < 4096" if "k < MINIX_BLOCK_SIZE" for k
      using minix_offset(3) [of n] that by (simp add: MINIX_BLOCK_SIZE_def)
    have v: "page_offset v = 0" "PAGE_OFFSET \<le> v" using b(5) by (simp_all add: holds_block_def)
    have s2: "minix_blocks s2 mb = \<lparr>mb_data = v + of_nat ?o, mb_blk = b, mb_dirty = False\<rparr>" "ram s2 = ram s1"
      by (simp_all add: s2_def set_minix_block_def)
    have "fs_mem s2 A2 (insert v B)" using mb(2) by (simp add: s2_def fs_mem_def set_minix_block_def)
    moreover have "quiet B s s2" using b(3) by (simp add: quiet_def s2_def set_minix_block_def)
    moreover have "holds_minix s2 A2 mb v"
      using b(5,6) mb(3,4) inside_page(3) [OF v o [of 0]] s2(1)
      by (auto simp: holds_minix_def holds_block_def MINIX_BLOCK_SIZE_def) (simp_all add: s2_def set_minix_block_def)
    moreover have c: "length c = 4096" using e b(7) by (simp add: on_disk_def BLOCK_SIZE_def)
    have "load_bytes s2 (v + of_nat ?o) MINIX_BLOCK_SIZE = take MINIX_BLOCK_SIZE (drop ?o c)"
    proof (rule nth_equalityI)
      show l: "length (load_bytes s2 (v + of_nat ?o) MINIX_BLOCK_SIZE) = length (take MINIX_BLOCK_SIZE (drop ?o c))"
        using c o [of "MINIX_BLOCK_SIZE - 1"] by (simp add: MINIX_BLOCK_SIZE_def)
      fix i assume "i < length (load_bytes s2 (v + of_nat ?o) MINIX_BLOCK_SIZE)"
      then have i: "i < MINIX_BLOCK_SIZE" by simp
      have "ram s1 (v + of_nat (?o + i)) = c ! (?o + i)"
        using b(8) o [OF i] by (auto simp: BLOCK_SIZE_def)
      then show "load_bytes s2 (v + of_nat ?o) MINIX_BLOCK_SIZE ! i = take MINIX_BLOCK_SIZE (drop ?o c) ! i"
        using i c o [OF i] by (simp add: s2(2) add.assoc)
    qed
    then have "minix_bytes s2 mb (take MINIX_BLOCK_SIZE (drop ?o c))"
      using c o [of "MINIX_BLOCK_SIZE - 1"] inside_page(2) [OF v o] unfolding minix_bytes_def s2
      by (auto simp: MINIX_BLOCK_SIZE_def add.assoc)
    moreover have "minix_block_of D dev n = Some (take MINIX_BLOCK_SIZE (drop ?o c))"
      using b(7) by (simp add: minix_block_of_def)
    ultimately show ?thesis using g b(4) by blast
  qed
qed

lemma put_minix_block_spec:
  assumes m: "fs_mem s A (insert v B)" and v: "v \<notin> B" "holds_minix s A mb v"
  shows "\<exists>s' A'. put_minix_block e (Some mb) s = Some s' \<and> fs_mem s' A' B \<and> quiet B s s' \<and> ram s' = ram s"
proof -
  let ?b = "mb_blk (minix_blocks s mb)"
  have h: "holds_block s ?b v" "(?b, 0) \<in> objects s A" "(mb, 0) \<in> objects s A" "mb \<noteq> ?b"
    using v(2) by (simp_all add: holds_minix_def)
  from brelse_spec [OF m v(1) h(1,2), of e] obtain k m1 A1 where b: "brelse e ?b s = Some (s\<lparr>vkm := k, vmm := m1\<rparr>)"
    "fs_mem (s\<lparr>vkm := k, vmm := m1\<rparr>) A1 B" "live k A1 = objects s A - {(?b, 0)}" by blast
  have "(mb, 0) \<in> objects (s\<lparr>vkm := k, vmm := m1\<rparr>) A1" using b(3) h(3,4) by simp
  from krelease_mem [OF b(2) this] obtain k2 m2 A2 where
    "krelease mb (s\<lparr>vkm := k, vmm := m1\<rparr>) = Some (s\<lparr>vkm := k, vmm := m1, vkm := k2, vmm := m2\<rparr>)"
    "fs_mem (s\<lparr>vkm := k, vmm := m1, vkm := k2, vmm := m2\<rparr>) A2 B" by blast
  then show ?thesis using b(1) v(2) by (auto simp: put_minix_block_def holds_minix_def quiet_def)
qed

subsection \<open>Zones of a file\<close>

text \<open>
  The zone of a file's block by the tables on the disk: seven zones in the inode, a table of 512 in
  zone 7, a table of tables in zone 8.  Zone 0 is a hole; a table that cannot be read has none.
\<close>

definition table_zone :: "disk \<Rightarrow> u32 \<Rightarrow> u32 \<Rightarrow> nat \<Rightarrow> u32" where
  "table_zone D dev z i =
     (case minix_block_of D dev z of
        None \<Rightarrow> 0
      | Some c \<Rightarrow> ucast (word_of_int (horner_sum uint 256 [c ! (2 * i), c ! (2 * i + 1)]) :: u16))"

definition file_zone :: "disk \<Rightarrow> u32 \<Rightarrow> (nat \<Rightarrow> u16) \<Rightarrow> nat \<Rightarrow> u32" where
  "file_zone D dev zone n =
     (if n < 7 then ucast (zone n)
      else if n < 519 then (if zone 7 = 0 then 0 else table_zone D dev (ucast (zone 7)) (n - 7))
      else if zone 8 = 0 then 0
      else let z = table_zone D dev (ucast (zone 8)) ((n - 519) div 512)
           in if z = 0 then 0 else table_zone D dev z ((n - 519) mod 512))"

definition MAX_FILE_BLOCKS :: nat where "MAX_FILE_BLOCKS = 7 + 512 + 512 * 512"

text \<open>What an operation leaves: more pages may be out, when memory ran short on the way.\<close>

definition settles :: "u32 set \<Rightarrow> 'a fs_scheme \<Rightarrow> 'a fs_scheme \<Rightarrow> bool" where
  "settles B s s' \<longleftrightarrow> quiet B s s' \<and> (\<exists>A' B'. fs_mem s' A' B' \<and> B \<subseteq> B')"

lemma settlesD:
  assumes "settles B s s'"
  obtains A' B' where "fs_mem s' A' B'" "B \<subseteq> B'" "quiet B s s'"
  using assms by (auto simp: settles_def)

lemma settles_trans:
  "quiet B s t \<Longrightarrow> settles C t u \<Longrightarrow> B \<subseteq> C \<Longrightarrow> settles B s u"
  by (auto simp: settles_def intro: quiet_trans)

lemma quiet_handler: "quiet B s s' \<Longrightarrow> blk_handler s' dev = blk_handler s dev"
  by (simp add: quiet_def blk_handler_def Let_def)

lemma zone_entry_spec:
  assumes m: "fs_mem s A B" and e: "on_disk e D" and h: "blk_handler s dev \<noteq> None" and i: "unat i < 512"
  shows "\<exists>z s'. zone_entry e dev n i s = Some (z, s') \<and> settles B s s' \<and> (z = 0 \<or> z = table_zone D dev n (unat i))"
  using get_minix_block_spec [OF m e h, of n]
proof (elim disjE exE conjE)
  fix s1 A1 B1 assume "get_minix_block e dev n s = Some (None, s1)" "fs_mem s1 A1 B1" "B \<subseteq> B1" "quiet B s s1"
  then show ?thesis by (auto simp: zone_entry_def settles_def)
next
  fix mb s1 A1 v c
  assume g: "get_minix_block e dev n s = Some (Some mb, s1)" "fs_mem s1 A1 (insert v B)" "quiet B s s1" "v \<notin> B"
    "holds_minix s1 A1 mb v" "minix_block_of D dev n = Some c" "minix_bytes s1 mb c"
  from put_minix_block_spec [OF g(2,4,5), of e] obtain s2 A2 where p: "put_minix_block e (Some mb) s1 = Some s2"
    "fs_mem s2 A2 B" "quiet B s1 s2" by blast
  let ?a = "mb_data (minix_blocks s1 mb)"
  have r: "ram s1 (?a + of_nat k) = c ! k" if "k < 1024" for k
    using g(7) that by (auto simp: minix_bytes_def MINIX_BLOCK_SIZE_def)
  have "2 * i + of_nat k = (of_nat (2 * unat i + k) :: u32)" for k by simp
  then have "load_bytes s1 (?a + 2 * i) 2 = [c ! (2 * unat i), c ! (2 * unat i + 1)]"
    using r [of "2 * unat i"] r [of "2 * unat i + 1"] i
    by (simp add: load_bytes_def upt_rec ac_simps)
  then have "ucast (load16 s1 (?a + 2 * i)) = table_zone D dev n (unat i)"
    by (simp add: load16_def table_zone_def g(6))
  then show ?thesis using g(1,3) p by (auto simp: zone_entry_def settles_def intro: quiet_trans)
qed

lemma ucast_16_eq_0: "ucast w = (0 :: u32) \<longleftrightarrow> w = (0 :: u16)"
proof -
  have "unat (ucast w :: u32) = unat w"
    using unsigned_less [of w, where ?'a = nat] by (simp add: unsigned_ucast_eq take_bit_nat_eq_self)
  then show ?thesis by (metis unsigned_0 unsigned_word_eqI)
qed

lemma unat_and_511: "unat (x AND 511 :: u32) = unat x mod 512"
proof -
  have "x AND 511 = x mod 512" using take_bit_eq_mask [of 9 x] by (simp add: mask_eq_exp_minus_1 take_bit_eq_mod)
  then show ?thesis by (simp add: unat_mod)
qed

lemma bmap_spec:
  assumes m: "fs_mem s A B" and e: "on_disk e D" and dev: "inode_dev s i = Some dev" and h: "blk_handler s dev \<noteq> None"
    and n: "unat n < MAX_FILE_BLOCKS"
  shows "\<exists>z s'. minix_bmap e i n s = Some (z, s') \<and> settles B s s' \<and>
    (z = 0 \<or> z = file_zone D dev (i_zone (inodes s i)) (unat n))"
proof -
  let ?z = "i_zone (inodes s i)"
  have s0: "settles B s s" using m by (auto simp: settles_def)
  have lim: "\<not> 7 + 512 + 512 * 512 \<le> n" using n by (simp add: MAX_FILE_BLOCKS_def word_le_nat_alt)
  consider "unat n < 7" | "7 \<le> unat n" "unat n < 519" | "519 \<le> unat n" by linarith
  then show ?thesis
  proof cases
    case 1
    then show ?thesis using lim s0 by (simp add: minix_bmap_def bmap_def Let_def word_less_nat_alt file_zone_def)
  next
    case 2
    then have u: "unat (n - 7) = unat n - 7" by (simp add: unat_sub word_le_nat_alt)
    have c: "\<not> n < 7" "n - 7 < 512" using 2 u by (simp_all add: word_less_nat_alt)
    show ?thesis
    proof (cases "?z 7 = 0")
      case True
      then show ?thesis using lim c s0 2 by (simp add: minix_bmap_def bmap_def Let_def file_zone_def)
    next
      case False
      then show ?thesis using lim c dev 2 u zone_entry_spec [OF m e h, of "n - 7" "ucast (?z 7)"]
        by (auto simp: minix_bmap_def bmap_def Let_def file_zone_def ucast_16_eq_0)
    qed
  next
    case 3
    have u: "unat (n - 7) = unat n - 7" using 3 by (simp add: unat_sub word_le_nat_alt)
    then have u2: "unat (n - 7 - 512) = unat n - 519" using 3 by (subst unat_sub) (simp_all add: word_le_nat_alt)
    have c: "\<not> n < 7" "\<not> n - 7 < 512" using 3 u by (simp_all add: word_less_nat_alt)
    have d: "unat (drop_bit 9 (n - 7 - 512)) = (unat n - 519) div 512"
      by (subst unat_drop_bit_eq) (simp only: u2, simp add: drop_bit_eq_div)
    have w: "unat ((n - 7 - 512) AND 511) = (unat n - 519) mod 512"
      using u2 by (simp add: unat_and_511)
    have b: "(unat n - 519) div 512 < 512" "(unat n - 519) mod 512 < 512" using n by (simp_all add: MAX_FILE_BLOCKS_def)
    show ?thesis
    proof (cases "?z 8 = 0")
      case True
      then show ?thesis using lim c s0 3 by (simp add: minix_bmap_def bmap_def Let_def file_zone_def)
    next
      case False
      from zone_entry_spec [OF m e h, of "drop_bit 9 (n - 7 - 512)" "ucast (?z 8)"] b(1) obtain z s1 where
        z: "zone_entry e dev (ucast (?z 8)) (drop_bit 9 (n - 7 - 512)) s = Some (z, s1)" "settles B s s1"
          "z = 0 \<or> z = table_zone D dev (ucast (?z 8)) ((unat n - 519) div 512)" unfolding d by blast
      from z(2) obtain A1 B1 where q: "fs_mem s1 A1 B1" "B \<subseteq> B1" "quiet B s s1" by (rule settlesD)
      have h1: "blk_handler s1 dev \<noteq> None" "inode_dev s1 i = Some dev"
        using h dev q(3) quiet_handler [OF q(3)] by (simp_all add: inode_dev_def quiet_def)
      from zone_entry_spec [OF q(1) e h1(1), of "(n - 7 - 512) AND 511" z] b(2) obtain z2 s2 where
        z2: "zone_entry e dev z ((n - 7 - 512) AND 511) s1 = Some (z2, s2)" "settles B1 s1 s2"
          "z2 = 0 \<or> z2 = table_zone D dev z ((unat n - 519) mod 512)" unfolding w by blast
      have r: "minix_bmap e i n s = (if z = 0 then Some (0, s1) else Some (z2, s2))"
        using lim c dev False z(1) z2(1) h1(2) by (simp add: minix_bmap_def bmap_def Let_def ucast_16_eq_0)
      show ?thesis using r z(2,3) z2(3) settles_trans [OF q(3) z2(2) q(2)] False 3
        by (cases "z = 0") (auto simp: file_zone_def Let_def)
    qed
  qed
qed

end
