(* ===== verification/File_Props.thy ===== *)
theory File_Props
  imports Disk_Spec Ex_Fs
begin

text \<open>
  Reading a file: what \<open>minix_file_read\<close> puts into the buffer of the user is what the zones of the
  file hold on the disk.
\<close>

subsection \<open>The contents of a file\<close>



subsection \<open>Copying to the user\<close>




subsection \<open>One turn of the loop\<close>



text \<open>A block read into the buffer and given back.\<close>

definition same_files :: "'a fs_scheme \<Rightarrow> 'a fs_scheme \<Rightarrow> bool" where
  "same_files s s' \<longleftrightarrow> inodes s' = inodes s \<and> supers s' = supers s \<and> blkdevs s' = blkdevs s"

lemma same_files_refl [simp]: "same_files s s"
  by (simp add: same_files_def)






subsection \<open>The loop\<close>
















section \<open>Properties\<close>

text \<open>
  Properties of reading files of the Minix file system.
\<close>







end
