(* ===== verification/Fd_Inv.thy ===== *)
theory Fd_Inv
  imports Thread
begin

text \<open>
  Open files are counted: \<open>ref_count\<close> of an open file is the number of descriptors, of all tasks,
  that are behind it.  The operations on descriptors keep this, as long as what they call does.
\<close>

subsection \<open>Descriptors of a file\<close>

definition fd_refs :: "'a fs_scheme \<Rightarrow> u32 \<Rightarrow> (u32 \<times> nat) set" where
  "fd_refs s a = {(t, i). t \<in> set (task_list s) \<and> i < NR_OPEN \<and> fdt (tasks s t) i = Some a}"

definition fd_ok :: "'a fs_scheme \<Rightarrow> bool" where
  "fd_ok s \<longleftrightarrow> current s \<in> set (task_list s) \<and> length (task_list s) * NR_OPEN < 2 ^ 32 \<and>
     (\<forall>a. fd_refs s a \<noteq> {} \<longrightarrow> unat (f_ref (files s a)) = card (fd_refs s a))"

text \<open>Nothing that concerns descriptors has changed.\<close>

definition fd_same :: "'a fs_scheme \<Rightarrow> 'a fs_scheme \<Rightarrow> bool" where
  "fd_same s s' \<longleftrightarrow> current s' = current s \<and> task_list s' = task_list s \<and>
     (\<forall>t\<in>set (task_list s). fdt (tasks s' t) = fdt (tasks s t)) \<and>
     (\<forall>a. f_ref (files s' a) = f_ref (files s a))"

named_theorems fd_frame \<open>operations that leave the descriptors alone\<close>

lemma fd_same_refl [simp]: "fd_same s s"
  by (simp add: fd_same_def)

lemma fd_same_trans: "fd_same s t \<Longrightarrow> fd_same t u \<Longrightarrow> fd_same s u"
  by (simp add: fd_same_def)

lemma fd_refs_same: "fd_same s s' \<Longrightarrow> fd_refs s' = fd_refs s"
  by (auto simp: fd_refs_def fd_same_def fun_eq_iff)

lemma fd_ok_same: "fd_same s s' \<Longrightarrow> fd_ok s \<Longrightarrow> fd_ok s'"
  by (simp add: fd_ok_def fd_refs_same) (simp add: fd_same_def)

lemma fd_refs_subset: "fd_refs s a \<subseteq> set (task_list s) \<times> {..<NR_OPEN}"
  by (auto simp: fd_refs_def)

lemma finite_fd_refs [simp]: "finite (fd_refs s a)"
  by (rule finite_subset [OF fd_refs_subset]) simp

lemma card_fd_refs: "card (fd_refs s a) \<le> length (task_list s) * NR_OPEN"
proof -
  have "card (fd_refs s a) \<le> card (set (task_list s) \<times> {..<NR_OPEN})"
    by (rule card_mono [OF _ fd_refs_subset]) simp
  also have "\<dots> \<le> length (task_list s) * NR_OPEN"
    by (simp add: card_cartesian_product card_length)
  finally show ?thesis .
qed

lemma fd_ok_small: "fd_ok s \<Longrightarrow> card (fd_refs s a) < 2 ^ 32"
  using card_fd_refs [of s a] by (simp add: fd_ok_def)

lemma fd_ok_count: "fd_ok s \<Longrightarrow> p \<in> fd_refs s a \<Longrightarrow> unat (f_ref (files s a)) = card (fd_refs s a)"
  by (auto simp: fd_ok_def)

lemma cur_fd_ref: "fd_ok s \<Longrightarrow> i < NR_OPEN \<Longrightarrow> cur_fd s i = Some a \<Longrightarrow> (current s, i) \<in> fd_refs s a"
  by (simp add: fd_ok_def fd_refs_def cur_fd_def cur_task_def)

subsection \<open>Changing one descriptor\<close>

lemma set_fd_simps [simp]:
  "current (set_fd i f s) = current s" "task_list (set_fd i f s) = task_list s" "files (set_fd i f s) = files s"
  "inodes (set_fd i f s) = inodes s"
  by (simp_all add: set_fd_def upd_task_def)

lemma set_file_simps [simp]:
  "current (set_file a f s) = current s" "task_list (set_file a f s) = task_list s"
  "tasks (set_file a f s) = tasks s" "files (set_file a f s) = (files s)(a := f (files s a))"
  "inodes (set_file a f s) = inodes s"
  by (simp_all add: set_file_def)

lemma cur_fd_set_fd [simp]: "cur_fd (set_fd i f s) j = (if j = i then f else cur_fd s j)"
  by (simp add: cur_fd_def cur_task_def set_fd_def upd_task_def)

lemma cur_fd_set_file [simp]: "cur_fd (set_file a f s) j = cur_fd s j"
  by (simp add: cur_fd_def cur_task_def)

lemma set_fd_set_fd [simp]: "set_fd i f (set_fd i g s) = set_fd i f s"
  by (simp add: set_fd_def upd_task_def)

lemma fd_refs_set_file [simp]: "fd_refs (set_file a f s) = fd_refs s"
  by (simp add: fd_refs_def fun_eq_iff)

lemma fd_refs_set_fd:
  assumes "current s \<in> set (task_list s)" "i < NR_OPEN"
  shows "fd_refs (set_fd i f s) a = fd_refs s a - {(current s, i)} \<union> (if f = Some a then {(current s, i)} else {})"
  using assms by (auto simp: fd_refs_def set_fd_def upd_task_def split: if_splits)

lemma fd_ok_link:
  assumes "fd_ok s" "i < NR_OPEN" "cur_fd s i = None" "fd_refs s a \<noteq> {}"
  shows "fd_ok (set_file a (\<lambda>x. x\<lparr>f_ref := f_ref x + 1\<rparr>) (set_fd i (Some a) s))" (is "fd_ok (set_file _ _ ?s)")
proof -
  have c: "current s \<in> set (task_list s)" using assms(1) by (simp add: fd_ok_def)
  have n: "(current s, i) \<notin> fd_refs s b" for b
    using assms(3) by (simp add: fd_refs_def cur_fd_def cur_task_def)
  have r: "fd_refs ?s b = (if b = a then insert (current s, i) (fd_refs s a) else fd_refs s b)" for b
    using n [of b] by (auto simp: fd_refs_set_fd [OF c assms(2)])
  have k: "card (fd_refs ?s a) = Suc (card (fd_refs s a))" by (simp only: r) (simp add: n)
  have lt: "Suc (card (fd_refs s a)) < 2 ^ 32"
    using card_fd_refs [of ?s a, unfolded k] assms(1) by (simp add: fd_ok_def)
  have "unat (f_ref (files s a)) = card (fd_refs s a)" using assms(1,4) by (simp add: fd_ok_def)
  then have "unat (f_ref (files s a) + 1) = Suc (card (fd_refs s a))"
    using lt by (simp add: unat_word_ariths)
  then show ?thesis using assms(1) n [of a] by (auto simp: fd_ok_def r)
qed

lemma fd_ok_unlink:
  assumes "fd_ok s" "i < NR_OPEN" "cur_fd s i = Some a"
  defines "t \<equiv> set_file a (\<lambda>x. x\<lparr>f_ref := f_ref x - 1\<rparr>) (put_used_fd i s)"
  shows "fd_ok t" and "f_ref (files t a) = 0 \<longleftrightarrow> fd_refs t a = {}"
proof -
  have c: "current s \<in> set (task_list s)" using assms(1) by (simp add: fd_ok_def)
  have m: "(current s, i) \<in> fd_refs s a" by (rule cur_fd_ref [OF assms(1-3)])
  have o: "(current s, i) \<notin> fd_refs s b" if "b \<noteq> a" for b
    using assms(3) that by (simp add: fd_refs_def cur_fd_def cur_task_def)
  have r: "fd_refs t b = (if b = a then fd_refs s a - {(current s, i)} else fd_refs s b)" for b
    using o [of b] by (auto simp: t_def put_used_fd_def fd_refs_set_fd [OF c assms(2)])
  have k: "card (fd_refs t a) = card (fd_refs s a) - 1" using m by (simp add: r)
  have u: "unat (f_ref (files s a)) = card (fd_refs s a)" by (rule fd_ok_count [OF assms(1) m])
  moreover have "0 < card (fd_refs s a)" using m card_gt_0_iff by fastforce
  ultimately have "unat (f_ref (files s a) - 1) = card (fd_refs s a) - 1"
    by (subst unat_sub) (simp_all add: word_le_nat_alt)
  then have v: "unat (f_ref (files t a)) = card (fd_refs t a)" by (simp only: k) (simp add: t_def put_used_fd_def)
  then show "f_ref (files t a) = 0 \<longleftrightarrow> fd_refs t a = {}" by (simp add: unat_eq_0 [symmetric])
  show "fd_ok t" using assms(1) v o by (auto simp: fd_ok_def r) (auto simp: t_def put_used_fd_def)
qed

subsection \<open>What leaves descriptors alone\<close>

lemma fd_same_upd_task [fd_frame]:
  "t \<notin> set (task_list s) \<or> (\<forall>x. fdt (f x) = fdt x) \<Longrightarrow> fd_same s (upd_task t f s)"
  by (auto simp: fd_same_def upd_task_def)

lemma fd_same_memory [fd_frame]:
  "fd_same s (store_bytes a bs s)" "fd_same s (store_u32 a v s)"
  "krelease a s = Some s' \<Longrightarrow> fd_same s s'" "put_page a s = Some s' \<Longrightarrow> fd_same s s'"
  "get_page s = Some (p, s') \<Longrightarrow> fd_same s s'" "kalloc n s = Some (p, s') \<Longrightarrow> fd_same s s'"
  by (auto simp: fd_same_def store_bytes_def store_u32_def krelease_def put_page_def get_page_def kalloc_def
      split: Option.bind_splits)

lemma fd_same_objects [fd_frame]:
  "fd_same s (set_inode i f s)" "fd_same s (set_dentry d g s)" "fd_same s (list_del_use i s)"
  "dref d s = Some s' \<Longrightarrow> fd_same s s'" "idecache i s = Some s' \<Longrightarrow> fd_same s s'"
  by (auto simp: fd_same_def set_inode_def set_dentry_def list_del_use_def dref_def idecache_def Let_def
      split: option.splits Option.bind_splits)

lemma fd_same_dref_opt [fd_frame]: "dref_opt d s = Some s' \<Longrightarrow> fd_same s s'"
  by (auto simp: dref_opt_def split: option.splits intro: fd_frame)

lemma fd_same_wake_up_all [fd_frame]: "fd_same s (wake_up_all q s)"
proof -
  have "fd_same s (fold (\<lambda>t s. upd_task t (tstate_update (\<lambda>_. TASK_RUNNABLE)) s) ts s)" for ts
  proof (induction ts arbitrary: s)
    case (Cons t ts)
    have "fd_same s (upd_task t (tstate_update (\<lambda>_. TASK_RUNNABLE)) s)" by (rule fd_same_upd_task) simp
    with Cons show ?case by (auto intro: fd_same_trans)
  qed simp
  from this [of "queues s q"] show ?thesis by (simp add: wake_up_all_def Let_def fd_same_def)
qed

text \<open>The functions registered with the kernel that a close can reach keep the counts.\<close>

definition closes_keep_fds :: "('a fs_scheme) env \<Rightarrow> bool" where
  "closes_keep_fds e \<longleftrightarrow>
     (\<forall>k op i f s r s'. fo_close (chr_driver e k) = Some op \<and> op i f s = Some (r, s') \<and> fd_ok s \<longrightarrow> fd_ok s') \<and>
     (\<forall>k ops op i f s r s'. ft_fops (fs_driver e k) = Some ops \<and> fo_close ops = Some op \<and>
        op i f s = Some (r, s') \<and> fd_ok s \<longrightarrow> fd_ok s') \<and>
     (\<forall>k ops op i s r s'. ft_sops (fs_driver e k) = Some ops \<and> so_write_inode ops = Some op \<and>
        op i s = Some (r, s') \<and> fd_ok s \<longrightarrow> fd_ok s')"

lemma closes_keepD:
  assumes "closes_keep_fds e" "fd_ok s"
  shows "fo_close (chr_driver e k) = Some op \<Longrightarrow> op i f s = Some (r, s') \<Longrightarrow> fd_ok s'"
    and "ft_fops (fs_driver e k) = Some ops \<Longrightarrow> fo_close ops = Some op \<Longrightarrow> op i f s = Some (r, s') \<Longrightarrow> fd_ok s'"
    and "ft_sops (fs_driver e k) = Some sops \<Longrightarrow> so_write_inode sops = Some w \<Longrightarrow> w i s = Some (r, s') \<Longrightarrow> fd_ok s'"
  using assms unfolding closes_keep_fds_def by - (blast | metis)+

lemma call_op_keeps:
  assumes "call_op op r arg s = Some (r', s')" "fd_ok s"
    and "\<And>f. op = Some f \<Longrightarrow> arg f s = Some (r', s') \<Longrightarrow> fd_ok s'"
  shows "fd_ok s'"
  using assms by (auto simp: call_op_def split: option.splits)

lemma fd_ok_set_chrdev [simp]: "fd_ok (set_chrdev m f s) = fd_ok s"
  by (simp add: fd_ok_def set_chrdev_def fd_refs_def)

lemma fd_ok_set_blkdev [simp]: "fd_ok (set_blkdev m f s) = fd_ok s"
  by (simp add: fd_ok_def set_blkdev_def fd_refs_def)

lemma fd_ok_iput_lock [simp]: "fd_ok (s\<lparr>iput_lock := b\<rparr>) = fd_ok s"
  by (simp add: fd_ok_def fd_refs_def)

lemma inode_close_keeps:
  assumes "closes_keep_fds e" "call_op (inode_op e s i fo_close) r0 (\<lambda>op. op i f) s = Some (r, s')" "fd_ok s"
  shows "fd_ok s'"
proof (rule call_op_keeps [OF assms(2,3)])
  fix op assume op: "inode_op e s i fo_close = Some op" "op i f s = Some (r, s')"
  consider "op = file_close e" | "op = chrdev_close e" | "op = blkdev_close"
    using op(1) by (auto simp: inode_op_def inode_ops_def def_file_fops_def def_chr_fops_def def_blk_fops_def
        split: option.splits inode_fops.splits)
  then show "fd_ok s'"
  proof cases
    case 1
    then obtain ops where "fs_ops e s f = Some ops" and c: "call_op (fo_close ops) SUCCESS (\<lambda>g. g i f) s = Some (r, s')"
      using op(2) by (auto simp: file_close_def split: Option.bind_splits)
    then obtain k where k: "ft_fops (fs_driver e k) = Some ops"
      by (auto simp: fs_ops_def split: Option.bind_splits)
    show ?thesis by (rule call_op_keeps [OF c assms(3)]) (rule closes_keepD(2) [OF assms(1,3) k])
  next
    case 2
    then obtain m ops t where "chr_ops e s i = Some ops" and c: "call_op (fo_close ops) SUCCESS (\<lambda>g. g i f) s = Some (r, t)"
      and s': "s' = set_chrdev m (\<lambda>d. d\<lparr>cd_ref := cd_ref d - 1\<rparr>) t"
      using op(2) by (auto simp: chrdev_close_def split: Option.bind_splits)
    then obtain k where k: "ops = chr_driver e k"
      by (auto simp: chr_ops_def split: Option.bind_splits)
    have "fd_ok t"
      by (rule call_op_keeps [OF c assms(3)]) (rule closes_keepD(1) [OF assms(1,3)], unfold k)
    then show ?thesis by (simp add: s')
  next
    case 3
    then show ?thesis using op(2) assms(3) by (auto simp: blkdev_close_def split: Option.bind_splits)
  qed
qed

lemma iput_keeps:
  assumes "closes_keep_fds e" "iput e i s = Some s'" "fd_ok s"
  shows "fd_ok s'"
proof -
  let ?s = "set_inode i (\<lambda>x. x\<lparr>i_ref := i_ref x - 1\<rparr>) s"
  have s: "fd_ok ?s" using assms(3) by (rule fd_ok_same [OF fd_same_objects(1)])
  show ?thesis
  proof (cases "i_ref (inodes ?s i) = 0")
    case False
    then show ?thesis using assms(2) s by (auto simp: iput_def Let_def split: Option.bind_splits)
  next
    case True
    obtain t u where t: "idecache i (list_del_use i ?s) = Some t" and r: "krelease i u = Some s'"
      and u: "(if i_dirty (inodes t i)
               then do { sops \<leftarrow> sops_of e t (i_sb (inodes t i));
                         case so_write_inode sops of None \<Rightarrow> Some t
                         | Some w \<Rightarrow> do { (ret, s) \<leftarrow> w i (t\<lparr>iput_lock := True\<rparr>);
                                          Some (wake_up_all wait_iput (s\<lparr>iput_lock := False\<rparr>)) } }
               else Some t) = Some u"
      using assms(2) True by (auto simp: iput_def Let_def split: Option.bind_splits)
    have "fd_ok t"
      using s fd_ok_same [OF fd_same_objects(3)] fd_ok_same [OF fd_same_objects(5) [OF t]] by blast
    have "fd_ok u"
    proof (cases "t = u")
      case False
      then obtain k ops w ret v where w: "ft_sops (fs_driver e k) = Some ops" "so_write_inode ops = Some w"
        "w i (t\<lparr>iput_lock := True\<rparr>) = Some (ret, v)" and u': "u = wake_up_all wait_iput (v\<lparr>iput_lock := False\<rparr>)"
        using u by (auto simp: sops_of_def split: Option.bind_splits if_splits option.splits)
      have "fd_ok v" by (rule closes_keepD(3) [OF assms(1) _ w]) (use \<open>fd_ok t\<close> in simp)
      then show ?thesis unfolding u' by (intro fd_ok_same [OF fd_same_wake_up_all]) simp
    qed (use \<open>fd_ok t\<close> in simp)
    then show ?thesis by (rule fd_ok_same [OF fd_same_memory(3) [OF r]])
  qed
qed

subsection \<open>Closing and duplicating\<close>

lemma sys_close_keeps:
  assumes "closes_keep_fds e" "fd_ok s" "sys_close e fd s = Some (r, s')"
  shows "fd_ok s'"
proof (cases "NR_OPEN \<le> fd \<or> cur_fd s fd = None")
  case True
  then show ?thesis using assms(2,3) by (auto simp: sys_close_def split: if_splits)
next
  case False
  then obtain a where a: "fd < NR_OPEN" "cur_fd s fd = Some a" by auto
  let ?t = "set_file a (\<lambda>x. x\<lparr>f_ref := f_ref x - 1\<rparr>) (put_used_fd fd s)"
  have t: "fd_ok ?t" by (rule fd_ok_unlink(1) [OF assms(2) a])
  show ?thesis
  proof (cases "f_ref (files ?t a) = 0")
    case False
    then show ?thesis using assms(3) a t by (auto simp: sys_close_def Let_def put_used_fd_def)
  next
    case True
    then obtain u v ret where u: "call_op (inode_op e ?t (f_inode (files s a)) fo_close) SUCCESS (\<lambda>op. op (f_inode (files s a)) a) ?t = Some (ret, u)"
      "iput e (f_inode (files s a)) u = Some v" "krelease a v = Some s'"
      using assms(3) a by (auto simp: sys_close_def Let_def put_used_fd_def split: Option.bind_splits)
    have "fd_ok v" by (rule iput_keeps [OF assms(1) u(2) inode_close_keeps [OF assms(1) u(1) t]])
    then show ?thesis by (rule fd_ok_same [OF fd_same_memory(3) [OF u(3)]])
  qed
qed

lemma get_unused_fd_Some:
  "get_unused_fd s = (Some i, s') \<Longrightarrow> i < NR_OPEN \<and> cur_fd s i = None \<and> s' = set_fd i (Some (current s + FDT_OFFSET)) s"
  by (auto simp: get_unused_fd_def find_Some_iff split: option.splits)

lemma sys_dup_keeps:
  assumes "fd_ok s" "sys_dup fd s = Some (r, s')"
  shows "fd_ok s'"
proof (cases "NR_OPEN \<le> fd \<or> cur_fd s fd = None")
  case True
  then show ?thesis using assms by (auto simp: sys_dup_def with_file_def split: if_splits)
next
  case False
  then obtain a where a: "fd < NR_OPEN" "cur_fd s fd = Some a" by auto
  then have ne: "fd_refs s a \<noteq> {}" using cur_fd_ref [OF assms(1) a] by auto
  show ?thesis
  proof (cases "fst (get_unused_fd s)")
    case None
    then show ?thesis using assms a by (auto simp: sys_dup_def with_file_def get_unused_fd_def split: option.splits)
  next
    case (Some i)
    then have i: "get_unused_fd s = (Some i, snd (get_unused_fd s))" by (metis prod.collapse)
    note j = get_unused_fd_Some [OF i]
    then have "s' = set_file a (\<lambda>x. x\<lparr>f_ref := f_ref x + 1\<rparr>) (set_fd i (Some a) s)"
      using assms(2) a i by (auto simp: sys_dup_def with_file_def)
    then show ?thesis using fd_ok_link [OF assms(1)] j ne by simp
  qed
qed

text \<open>\<open>dup2\<close> forgets the file that was behind the descriptor it takes over.\<close>

lemma sys_dup2_forgets:
  assumes "fd_ok s" "sys_dup2 old new s = Some (r, s')" "\<not> FAILED r"
    and "cur_fd s old = Some a" "cur_fd s new = Some b" "a \<noteq> b"
  shows "unat (f_ref (files s' b)) = Suc (card (fd_refs s' b))" "unat (f_ref (files s' a)) = card (fd_refs s' a)"
proof -
  have n: "old < NR_OPEN" "new < NR_OPEN" using assms(2,3) by (auto simp: sys_dup2_def split: if_splits)
  have ne: "old \<noteq> new" using assms(4-6) by auto
  have s': "s' = set_file a (\<lambda>x. x\<lparr>f_ref := f_ref x + 1\<rparr>) (set_fd new (Some a) s)"
    using assms(2,4,5) n ne by (simp add: sys_dup2_def)
  have c: "current s \<in> set (task_list s)" using assms(1) by (simp add: fd_ok_def)
  have b: "(current s, new) \<in> fd_refs s b" by (rule cur_fd_ref [OF assms(1) n(2) assms(5)])
  have a: "(current s, old) \<in> fd_refs s a" by (rule cur_fd_ref [OF assms(1) n(1) assms(4)])
  have na: "(current s, new) \<notin> fd_refs s a" using assms(5,6) by (simp add: fd_refs_def cur_fd_def cur_task_def)
  have "fd_refs s' b = fd_refs s b - {(current s, new)}"
    using assms(6) by (simp add: s' fd_refs_set_fd [OF c n(2)])
  moreover have "0 < card (fd_refs s b)" using b card_gt_0_iff by fastforce
  ultimately show "unat (f_ref (files s' b)) = Suc (card (fd_refs s' b))"
    using fd_ok_count [OF assms(1) b] b assms(6) by (simp add: s')
  have "fd_refs s' a = insert (current s, new) (fd_refs s a)"
    using na by (auto simp: s' fd_refs_set_fd [OF c n(2)])
  then have k: "card (fd_refs s' a) = Suc (card (fd_refs s a))" using na by simp
  have "Suc (card (fd_refs s a)) < 2 ^ 32"
    using card_fd_refs [of s' a, unfolded k] assms(1) by (simp add: fd_ok_def s')
  then show "unat (f_ref (files s' a)) = card (fd_refs s' a)"
    using fd_ok_count [OF assms(1) a] by (simp only: k) (simp add: s' unat_word_ariths)
qed

subsection \<open>A new thread shares the open files\<close>

lemma share_fd_simps [simp]:
  "current (share_fd t i s) = current s" "task_list (share_fd t i s) = task_list s"
  "tasks (share_fd t i s) u =
     (if u = t then (tasks s t)\<lparr>fdt := (fdt (tasks s t))(i := cur_fd s i)\<rparr> else tasks s u)"
  "f_ref (files (share_fd t i s) a) = (if cur_fd s i = Some a then f_ref (files s a) + 1 else f_ref (files s a))"
  by (auto simp: share_fd_def Let_def upd_task_def split: option.splits)

lemma share_fds:
  assumes "t \<noteq> current s"
  shows "current (fold (share_fd t) [0..<n] s) = current s"
    and "task_list (fold (share_fd t) [0..<n] s) = task_list s"
    and "u \<noteq> t \<Longrightarrow> tasks (fold (share_fd t) [0..<n] s) u = tasks s u"
    and "fdt (tasks (fold (share_fd t) [0..<n] s) t) i = (if i < n then cur_fd s i else fdt (tasks s t) i)"
    and "f_ref (files (fold (share_fd t) [0..<n] s) a) = f_ref (files s a) + of_nat (card {i. i < n \<and> cur_fd s i = Some a})"
proof (induction n arbitrary: i u a)
  case (Suc n)
  let ?f = "fold (share_fd t) [0..<n] s"
  note f = Suc.IH
  have c: "cur_fd ?f n = cur_fd s n" using f(1) f(3) [of "current s"] assms by (simp add: cur_fd_def cur_task_def)
  { case 1 show ?case using f(1) by simp }
  { case 2 show ?case using f(2) by simp }
  { case 3 then show ?case using f(3) by simp }
  { case 4 show ?case using f(4) [of i] c by (auto simp: less_Suc_eq) }
  { case 5
    have e: "{i. i < Suc n \<and> cur_fd s i = Some a} =
        (if cur_fd s n = Some a then insert n {i. i < n \<and> cur_fd s i = Some a} else {i. i < n \<and> cur_fd s i = Some a})"
      by (auto simp: less_Suc_eq)
    show ?case using f(5) [of a] c by (simp add: e) }
qed simp_all

lemma share_fds_ok:
  assumes "fd_ok s" "t \<notin> set (task_list s)" "Suc (length (task_list s)) * NR_OPEN < 2 ^ 32"
    and "s' = fold (share_fd t) [0..<NR_OPEN] s" "fd_same (s'\<lparr>task_list := t # task_list s'\<rparr>) u"
  shows "fd_ok u"
proof -
  let ?v = "s'\<lparr>task_list := t # task_list s'\<rparr>"
  have c: "current s \<in> set (task_list s)" and ne: "t \<noteq> current s" using assms(1,2) by (auto simp: fd_ok_def)
  note sh = share_fds [OF ne, where n = NR_OPEN, folded assms(4)]
  let ?new = "\<lambda>a. {i. i < NR_OPEN \<and> cur_fd s i = Some a}"
  have r: "fd_refs ?v a = fd_refs s a \<union> Pair t ` ?new a" for a
    using assms(2) by (auto simp: fd_refs_def sh(2,4)) (metis sh(3))+
  have d: "fd_refs s a \<inter> Pair t ` ?new a = {}" for a using assms(2) by (auto simp: fd_refs_def)
  have k: "card (fd_refs ?v a) = card (fd_refs s a) + card (?new a)" for a
    by (simp only: r) (simp add: card_Un_disjoint d card_image inj_on_def)
  have lt: "card (fd_refs ?v a) < 2 ^ 32" for a
    using card_fd_refs [of ?v a] assms(3) sh(2) by simp
  have "unat (f_ref (files ?v a)) = card (fd_refs ?v a)" if "fd_refs ?v a \<noteq> {}" for a
  proof -
    have "fd_refs s a \<noteq> {}"
    proof (cases "?new a = {}")
      case False
      then show ?thesis using c by (auto simp: fd_refs_def cur_fd_def cur_task_def)
    qed (use that r in simp)
    then have "unat (f_ref (files s a)) = card (fd_refs s a)" using assms(1) by (simp add: fd_ok_def)
    moreover have "unat (of_nat (card (?new a)) :: u32) = card (?new a)"
      using lt [of a] k [of a] by (simp add: unat_of_nat)
    ultimately show ?thesis using lt [of a] k [of a] sh(5) [of a] by (simp add: unat_word_ariths)
  qed
  then have "fd_ok ?v" using c assms(3) sh(1,2) by (simp add: fd_ok_def)
  then show ?thesis by (rule fd_ok_same [OF assms(5)])
qed

lemma fd_same_find_pid [fd_frame]: "find_usable_pid s = Some (p, s') \<Longrightarrow> fd_same s s'"
  by (auto simp: find_usable_pid_def fd_same_def split: Option.bind_splits)

lemma fd_same_store_regs [fd_frame]: "fd_same s (store_regs a r s)"
proof -
  have "fd_same s (fold (\<lambda>(i, v). store_u32 (a + 4 * of_nat i) v) xs s)" for xs :: "(nat \<times> u32) list"
  proof (induction xs arbitrary: s)
    case (Cons x xs)
    show ?case using fd_same_trans [OF fd_same_memory(2) Cons.IH] by (cases x) simp
  qed simp
  then show ?thesis unfolding store_regs_def .
qed

lemma fd_same_copy_dir [fd_frame]:
  assumes "copy_empty_page_dir s = Some (d, s')"
  shows "fd_same s s'"
proof -
  obtain p u where g: "get_page s = Some (p, u)" and s': "s' = u \<or> (\<exists>a bs. s' = store_bytes a bs u)"
    using assms by (auto simp: copy_empty_page_dir_def split: Option.bind_splits option.splits) blast
  show ?thesis using s' fd_same_memory(5) [OF g] fd_same_trans [OF fd_same_memory(5) [OF g] fd_same_memory(1)] by auto
qed

text \<open>The end of \<open>kernel_thread\<close>, from the loop over the descriptors on.\<close>

definition share_end :: "u32 \<Rightarrow> 'a fs_scheme \<Rightarrow> 'a fs_scheme" where
  "share_end t s =
     (let u = fold (share_fd t) [0..<NR_OPEN] s;
          u = u\<lparr>ready_list := t # ready_list u, task_list := t # task_list u\<rparr>;
          u = upd_task (current u) (\<lambda>x. x\<lparr>chld_active := t # chld_active x\<rparr>) u
      in add_to_pid_lists t u)"

lemma kernel_thread_keeps:
  assumes "fd_ok s" "kernel_thread w name pfn data s = Some (r, s')"
    and "Suc (length (task_list s)) * NR_OPEN < 2 ^ 32"
    and fresh: "\<forall>t u. get_page s = Some (Some t, u) \<longrightarrow> t \<notin> set (task_list s)"
  shows "fd_ok s'"
proof -
  obtain q s1 where q: "get_page s = Some (q, s1)"
    using assms(2) by (auto simp: kernel_thread_def split: Option.bind_splits)
  show ?thesis
  proof (cases q)
    case None
    then show ?thesis using assms(1,2) fd_ok_same [OF fd_same_memory(5) [OF q]] by (simp add: kernel_thread_def q)
  next
    case (Some t)
    then have t: "t \<notin> set (task_list s)" using fresh q by blast
    obtain p s2 where p: "find_usable_pid s1 = Some (p, s2)"
      using assms(2) Some by (auto simp: kernel_thread_def q split: Option.bind_splits)
    define s3 where "s3 = (let s = upd_task t (new_task p name (cur_task s2)) s2
      in s\<lparr>queues := (queues s)(Wait_exit t := [])\<rparr>)"
    define ctx where "ctx = fst (arch_kthread_context_init w pfn data (t + PAGE_SIZE) s3)"
    define s4 where "s4 = upd_task t (tcontext_update (\<lambda>_. ctx))
      (snd (arch_kthread_context_init w pfn data (t + PAGE_SIZE) s3))"
    have k: "copy_empty_page_dir s4 \<bind> (\<lambda>(dir, s). case dir of
        None \<Rightarrow> put_page t s \<bind> (\<lambda>s. Some (err ENOMEM, s))
      | Some dir \<Rightarrow>
          dref_opt (pwd (cur_task s)) (upd_task t (\<lambda>x. x\<lparr>page_dir := dir, parent := Some (current s),
            pwd := pwd (cur_task s), root := root (cur_task s)\<rparr>) s) \<bind> (\<lambda>s7.
          dref_opt (root (cur_task s)) s7 \<bind> (\<lambda>s8. Some (sint p, share_end t s8)))) = Some (r, s')"
      using assms(2) Some
      by (simp only: kernel_thread_def q p s4_def s3_def ctx_def share_end_def Let_def case_prod_beta bind.bind_lunit
          option.case fst_conv snd_conv)
    obtain dir s5 where dir: "copy_empty_page_dir s4 = Some (dir, s5)" using k by (cases "copy_empty_page_dir s4") auto
    note k = k [unfolded dir, simplified]
    have e: "fd_same s s2" by (rule fd_same_trans [OF fd_same_memory(5) [OF q] fd_same_find_pid [OF p]])
    then have t2: "t \<notin> set (task_list s2)" using t by (simp add: fd_same_def)
    have "fd_same s2 s3" unfolding s3_def using t2 by (simp add: Let_def fd_same_def upd_task_def)
    moreover have "fd_same s3 s4" unfolding s4_def arch_kthread_context_init_def Let_def
      by (simp only: snd_conv) (rule fd_same_trans [OF fd_same_store_regs fd_same_upd_task], simp)
    ultimately have s5: "fd_same s s5" using e fd_same_copy_dir [OF dir] by (blast intro: fd_same_trans)
    then have t5: "t \<notin> set (task_list s5)" using t by (simp add: fd_same_def)
    show ?thesis
    proof (cases dir)
      case None
      then have "put_page t s5 = Some s'" using k by (auto split: Option.bind_splits)
      then show ?thesis using fd_ok_same [OF fd_same_trans [OF s5 fd_same_memory(4)]] assms(1) by blast
    next
      case (Some d)
      define s6 where "s6 = upd_task t (\<lambda>x. x\<lparr>page_dir := d, parent := Some (current s5),
        pwd := pwd (cur_task s5), root := root (cur_task s5)\<rparr>) s5"
      obtain s7 s8 where r: "dref_opt (pwd (cur_task s5)) s6 = Some s7" "dref_opt (root (cur_task s5)) s7 = Some s8"
        and s': "s' = share_end t s8"
        using k Some by (auto simp: s6_def split: Option.bind_splits)
      have "fd_same s5 s6" unfolding s6_def using t5 by (intro fd_same_upd_task) simp
      then have s8: "fd_same s s8"
        using s5 fd_same_dref_opt [OF r(1)] fd_same_dref_opt [OF r(2)] by (blast intro: fd_same_trans)
      show ?thesis
      proof (rule share_fds_ok [OF fd_ok_same [OF s8 assms(1)] _ _ refl])
        show "t \<notin> set (task_list s8)" "Suc (length (task_list s8)) * NR_OPEN < 2 ^ 32"
          using s8 t assms(3) by (simp_all add: fd_same_def)
        show "fd_same (fold (share_fd t) [0..<NR_OPEN] s8\<lparr>task_list := t # task_list (fold (share_fd t) [0..<NR_OPEN] s8)\<rparr>) s'"
          by (simp add: s' share_end_def Let_def fd_same_def add_to_pid_lists_def upd_task_def)
      qed
    qed
  qed
qed

end
