(* ===== verification/Fs_Props.thy ===== *)
theory Fs_Props
  imports Fd_Inv Ex_Fs
begin

text \<open>
  Properties of the file system layer.
\<close>

subsection \<open>Descriptors\<close>

text \<open>C16: Open files are counted.  The counter of every open file that a descriptor is behind is the
  number of descriptors, of all tasks, behind it; \<open>dup\<close>, which never fails, \<open>close\<close> and the creation
  of a thread, which shares the files of its parent, keep that, and \<open>close\<close> finds the counter zero
  exactly when no descriptor of any task is left.\<close>

theorem open_files_counted:
  assumes "fd_ok s"
  shows "(\<exists>r s'. sys_dup fd s = Some (r, s') \<and> fd_ok s') \<and>
    (\<forall>r s'. closes_keep_fds e \<and> sys_close e fd s = Some (r, s') \<longrightarrow> fd_ok s') \<and>
    (\<forall>a t. fd < NR_OPEN \<and> cur_fd s fd = Some a \<and>
       t = set_file a (\<lambda>x. x\<lparr>f_ref := f_ref x - 1\<rparr>) (put_used_fd fd s) \<longrightarrow> (f_ref (files t a) = 0 \<longleftrightarrow> fd_refs t a = {})) \<and>
    (\<forall>r s'. kernel_thread w name pfn data s = Some (r, s') \<and> Suc (length (task_list s)) * NR_OPEN < 2 ^ 32 \<and>
       (\<forall>t u. get_page s = Some (Some t, u) \<longrightarrow> t \<notin> set (task_list s)) \<longrightarrow> fd_ok s')"
proof (intro conjI allI impI)
  obtain r s' where "sys_dup fd s = Some (r, s')"
    by (cases "sys_dup fd s") (auto simp: sys_dup_def with_file_def split: if_splits option.splits prod.splits)
  then show "\<exists>r s'. sys_dup fd s = Some (r, s') \<and> fd_ok s'" using sys_dup_keeps [OF assms] by blast
qed (use assms sys_close_keeps kernel_thread_keeps fd_ok_unlink(2) in \<open>blast+\<close>)

definition ex_open :: fs where
  "ex_open = set_fd 0 (Some 100) (set_fd 1 (Some 200)
     (ex_fs\<lparr>files := (\<lambda>_. \<lparr>f_flags = 0, f_pos = 0, f_inode = 0, f_private = None, f_ref = 1\<rparr>)\<rparr>))"

lemma ex_open_fdt: "fdt (tasks ex_open t) i =
    (if t = 1 \<and> i = 0 then Some 100 else if t = 1 \<and> i = 1 then Some 200 else None)"
  by (simp add: ex_open_def set_fd_def upd_task_def ex_fs_def ex_task_def)

lemma ex_open_ok: "fd_ok ex_open"
proof -
  have l: "task_list ex_open = [3, 2, 1]" "current ex_open = 1" "f_ref (files ex_open a) = 1" for a
    by (simp_all add: ex_open_def set_fd_def upd_task_def ex_fs_def)
  have "fd_refs ex_open a = (if a = 100 then {(1, 0)} else if a = 200 then {(1, 1)} else {})" for a
    by (auto simp: fd_refs_def ex_open_fdt l NR_OPEN_def split: if_splits)
  then show ?thesis by (simp add: fd_ok_def l NR_OPEN_def)
qed

theorem open_files_counted_witness: "\<exists>r s'. sys_dup 0 ex_open = Some (r, s') \<and> fd_ok s'"
  using open_files_counted [OF ex_open_ok, of 0 ex_env] by blast

text \<open>C32: \<open>dup2\<close> loses an open file.  It links the old file to the new descriptor without closing what
  was behind it: that file keeps one count too many, so it is never released.\<close>

theorem dup2_forgets_file:
  assumes "fd_ok s" "sys_dup2 old new s = Some (r, s')" "\<not> FAILED r"
    and "cur_fd s old = Some a" "cur_fd s new = Some b" "a \<noteq> b"
  shows "unat (f_ref (files s' b)) = Suc (card (fd_refs s' b)) \<and> unat (f_ref (files s' a)) = card (fd_refs s' a)"
  using sys_dup2_forgets [OF assms] by simp

theorem dup2_forgets_file_witness:
  "\<exists>r s'. sys_dup2 0 1 ex_open = Some (r, s') \<and> unat (f_ref (files s' 200)) = Suc (card (fd_refs s' 200))"
proof -
  have c: "cur_fd ex_open 0 = Some 100" "cur_fd ex_open 1 = Some 200"
    by (simp_all add: cur_fd_def cur_task_def ex_open_fdt) (simp_all add: ex_open_def set_fd_def upd_task_def ex_fs_def)
  then obtain s' where s': "sys_dup2 0 1 ex_open = Some (1, s')" by (simp add: sys_dup2_def NR_OPEN_def)
  show ?thesis
    using dup2_forgets_file [OF ex_open_ok s' _ c] s' by (simp add: FAILED_def)
qed

subsection \<open>Roots\<close>






































end
