(* ===== verification/Gates.thy ===== *)
theory Gates
  imports Prelude
begin

text \<open>
  arch/gdt.c and arch/idt.c: the segment and gate descriptors, as the processor reads them.  A table is
  a list of 64-bit entries; the addresses of the assembly entries of arch/entry.S are an argument.
\<close>

unbundle bit_operations_syntax

subsection \<open>Segments (gdt.c, include/asm/processor.h)\<close>

definition GDT_ENTRY :: "u64 \<Rightarrow> u64 \<Rightarrow> u64 \<Rightarrow> u64" where
  "GDT_ENTRY attr base limit =
     push_bit (56 - 24) (base AND 0xff000000) OR
     push_bit 40 (attr AND 0xf0ff) OR
     push_bit (32 - 16) (base AND 0x00ff0000) OR
     push_bit 16 (base AND 0x0000ffff) OR
     (limit AND 0x0000ffff) OR
     push_bit (48 - 16) (limit AND 0x000f0000)"

definition NR_GDT_ENTRYS :: nat where "NR_GDT_ENTRYS = 32"
definition GDT_KERNEL_CODE :: nat where "GDT_KERNEL_CODE = 1"
definition GDT_KERNEL_DATA :: nat where "GDT_KERNEL_DATA = 2"
definition GDT_USER_CS :: nat where "GDT_USER_CS = 3"
definition GDT_USER_DS :: nat where "GDT_USER_DS = 4"
definition GDT_TSS :: nat where "GDT_TSS = 5"

definition gdt_initial :: "u64 list" where
  "gdt_initial =
     (replicate NR_GDT_ENTRYS 0)
       [GDT_KERNEL_CODE := GDT_ENTRY 0xc09b 0 0xfffff,
        GDT_KERNEL_DATA := GDT_ENTRY 0xc093 0 0xfffff,
        GDT_USER_CS := GDT_ENTRY 0xc0fb 0 0xfffff,
        GDT_USER_DS := GDT_ENTRY 0xc3f3 0 0xfffff]"

text \<open>\<open>gdt_setup\<close>: the table the processor is given, with the task segment at \<open>tss\<close>.\<close>

definition gdt_setup :: "u32 \<Rightarrow> u64 list \<Rightarrow> u64 list" where
  "gdt_setup tss gdt = gdt[GDT_TSS := GDT_ENTRY 0x0089 (ucast tss) 103]"

text \<open>The fields of the task segment that are set: the kernel's stack.\<close>

record tss_struct =
  esp0 :: u32
  ss0 :: u32

definition write_esp0 :: "u32 \<Rightarrow> tss_struct \<Rightarrow> tss_struct" where
  "write_esp0 a t = t\<lparr>esp0 := a\<rparr>"

subsection \<open>Gates (idt.c, include/asm/processor.h)\<close>

text \<open>\<open>_set_gate\<close>: the low half is \<open>eax\<close> with its low half replaced by that of the address, the high half
  is \<open>edx\<close>, the address, with its low half replaced by the attributes.\<close>

definition set_gate :: "u32 \<Rightarrow> u32 \<Rightarrow> u32 \<Rightarrow> u64" where
  "set_gate type dpl addr =
     (let attr = (0x8000 + push_bit 13 dpl + push_bit 8 type) AND 0xffff;
          eax = (0x00080000 AND 0xffff0000) OR (addr AND 0xffff);
          edx = (addr AND 0xffff0000) OR attr
      in push_bit 32 (ucast edx) OR ucast eax)"

definition set_intr_gate :: "nat \<Rightarrow> u32 \<Rightarrow> u64 list \<Rightarrow> u64 list" where
  "set_intr_gate n addr idt = idt[n := set_gate 14 0 addr]"
definition set_trap_gate :: "nat \<Rightarrow> u32 \<Rightarrow> u64 list \<Rightarrow> u64 list" where
  "set_trap_gate n addr idt = idt[n := set_gate 15 0 addr]"
definition set_system_gate :: "nat \<Rightarrow> u32 \<Rightarrow> u64 list \<Rightarrow> u64 list" where
  "set_system_gate n addr idt = idt[n := set_gate 15 3 addr]"

definition NR_IDT_ENTRYS :: nat where "NR_IDT_ENTRYS = 256"
definition NR_EXTERNAL_VECTORS :: nat where "NR_EXTERNAL_VECTORS = 0x20"
definition NR_IRQ_LINES :: nat where "NR_IRQ_LINES = 16"

text \<open>The entries of arch/entry.S.\<close>

datatype entry =
    Divide_error | Debug_trap | Nmi | Int3 | Overflow | Bounds | Invalid_op | Device_not_available
  | Double_fault | Coprocessor_segment_overrun | Invalid_tss | Segment_not_present | Stack_segment
  | General_protection | Page_fault | Reserved | Coprocessor_error | System_call | Irq_start

definition idt_setup :: "(entry \<Rightarrow> u32) \<Rightarrow> u64 list \<Rightarrow> u64 list" where
  "idt_setup at idt =
     (let idt = set_trap_gate 0 (at Divide_error) idt;
          idt = set_trap_gate 1 (at Debug_trap) idt;
          idt = set_trap_gate 2 (at Nmi) idt;
          idt = set_system_gate 3 (at Int3) idt;
          idt = set_system_gate 4 (at Overflow) idt;
          idt = set_system_gate 5 (at Bounds) idt;
          idt = set_trap_gate 6 (at Invalid_op) idt;
          idt = set_trap_gate 7 (at Device_not_available) idt;
          idt = set_trap_gate 8 (at Double_fault) idt;
          idt = set_trap_gate 9 (at Coprocessor_segment_overrun) idt;
          idt = set_trap_gate 10 (at Invalid_tss) idt;
          idt = set_trap_gate 11 (at Segment_not_present) idt;
          idt = set_trap_gate 12 (at Stack_segment) idt;
          idt = set_trap_gate 13 (at General_protection) idt;
          idt = set_trap_gate 14 (at Page_fault) idt;
          idt = set_trap_gate 15 (at Reserved) idt;
          idt = set_trap_gate 16 (at Coprocessor_error) idt;
          idt = fold (\<lambda>i. set_trap_gate i (at Reserved)) [17..<NR_IDT_ENTRYS] idt;
          idt = set_system_gate 0x80 (at System_call) idt
      in fold (\<lambda>i. set_intr_gate i (at Irq_start + 8 * of_nat (i - NR_EXTERNAL_VECTORS)))
           [NR_EXTERNAL_VECTORS..<NR_EXTERNAL_VECTORS + NR_IRQ_LINES] idt)"

subsection \<open>What the processor reads\<close>

definition gate_offset :: "u64 \<Rightarrow> u32" where
  "gate_offset g = ucast (push_bit 16 (drop_bit 48 g)) OR ucast (g AND 0xffff)"
definition gate_selector :: "u64 \<Rightarrow> nat" where
  "gate_selector g = unat (drop_bit 16 g AND 0xffff)"
definition gate_type :: "u64 \<Rightarrow> nat" where
  "gate_type g = unat (drop_bit 40 g AND 0x1f)"
definition gate_dpl :: "u64 \<Rightarrow> nat" where
  "gate_dpl g = unat (drop_bit 45 g AND 3)"
definition gate_present :: "u64 \<Rightarrow> bool" where
  "gate_present g \<longleftrightarrow> bit g 47"

definition seg_base :: "u64 \<Rightarrow> u32" where
  "seg_base g = ucast (drop_bit 16 g AND 0xffffff) OR push_bit 24 (ucast (drop_bit 56 g))"
definition seg_limit :: "u64 \<Rightarrow> nat" where
  "seg_limit g = unat ((g AND 0xffff) OR push_bit 16 (drop_bit 48 g AND 0xf))"

text \<open>A program may raise vector \<open>n\<close> with \<open>int n\<close>.\<close>

definition user_may_raise :: "u64 list \<Rightarrow> nat \<Rightarrow> bool" where
  "user_may_raise idt n \<longleftrightarrow> gate_present (idt ! n) \<and> gate_dpl (idt ! n) = 3"

section \<open>Properties\<close>

text \<open>
  Properties of the descriptor tables.
\<close>


subsection \<open>Gates read back\<close>

text \<open>A gate from its fields.\<close>

definition gate_word :: "u32 \<Rightarrow> u32 \<Rightarrow> u32 \<Rightarrow> u64" where
  "gate_word sel attr addr =
     push_bit 32 (ucast ((addr AND NOT (mask 16)) OR (attr AND mask 16))) OR
     ucast ((push_bit 16 sel AND NOT (mask 16)) OR (addr AND mask 16))"

lemma masks: "(0xffff0000 :: u32) = NOT (mask 16)" "(0xffff :: u32) = mask 16" "(0xffff :: u64) = mask 16"
  "(3 :: u64) = mask 2" "(0x1f :: u64) = mask 5"
  by (simp_all add: mask_eq_exp_minus_1)

lemma set_gate_word: "set_gate type dpl addr = gate_word 8 (0x8000 + push_bit 13 dpl + push_bit 8 type) addr"
proof -
  have "(0x00080000 :: u32) = push_bit 16 8" by simp
  then show ?thesis unfolding set_gate_def gate_word_def Let_def masks
    by (simp add: and.assoc)
qed

lemma gate_word_fields:
  "gate_offset (gate_word sel attr addr) = addr"
  "drop_bit 16 (gate_word sel attr addr) AND mask 16 = ucast sel AND mask 16"
  "drop_bit 40 (gate_word sel attr addr) AND mask 5 = ucast (drop_bit 8 attr) AND mask 5"
  "drop_bit 45 (gate_word sel attr addr) AND mask 2 = ucast (drop_bit 13 attr) AND mask 2"
  "bit (gate_word sel attr addr) 47 = bit attr 15"
  unfolding gate_offset_def masks gate_word_def
  by (auto simp: bit_simps intro!: bit_word_eqI)

lemma set_gate_fields:
  assumes "type = 14 \<or> type = 15" "dpl = 0 \<or> dpl = 3"
  shows "gate_offset (set_gate type dpl addr) = addr" "gate_selector (set_gate type dpl addr) = 8"
    "gate_type (set_gate type dpl addr) = unat type" "gate_dpl (set_gate type dpl addr) = unat dpl"
    "gate_present (set_gate type dpl addr)"
  unfolding set_gate_word gate_word_fields(1) gate_selector_def gate_type_def gate_dpl_def gate_present_def masks
    gate_word_fields
  using assms by (auto simp: mask_eq_exp_minus_1)

subsection \<open>The interrupt table\<close>

lemma length_gates [simp]:
  "length (set_intr_gate n a idt) = length idt" "length (set_trap_gate n a idt) = length idt"
  "length (set_system_gate n a idt) = length idt"
  by (simp_all add: set_intr_gate_def set_trap_gate_def set_system_gate_def)

lemma nth_fold_update:
  assumes "n < length xs"
  shows "fold (\<lambda>i xs. xs[i := f i]) [a..<b] xs ! n = (if a \<le> n \<and> n < b then f n else xs ! n)"
    and "length (fold (\<lambda>i xs. xs[i := f i]) [a..<b] xs) = length xs"
proof -
  have "(fold (\<lambda>i xs. xs[i := f i]) [a..<b] xs ! n = (if a \<le> n \<and> n < b then f n else xs ! n)) \<and>
    length (fold (\<lambda>i xs. xs[i := f i]) [a..<b] xs) = length xs"
    using assms
  proof (induction b)
    case (Suc b)
    then show ?case by (cases "a \<le> b") (auto simp: nth_list_update less_Suc_eq)
  qed simp
  then show "fold (\<lambda>i xs. xs[i := f i]) [a..<b] xs ! n = (if a \<le> n \<and> n < b then f n else xs ! n)"
    "length (fold (\<lambda>i xs. xs[i := f i]) [a..<b] xs) = length xs" by simp_all
qed

text \<open>Where vector \<open>n\<close> goes: the exceptions of the processor in their order, then nothing but \<open>reserved\<close>,
  the system call at 0x80, and the interrupt lines from 0x20 on.\<close>

definition exceptions :: "entry list" where
  "exceptions = [Divide_error, Debug_trap, Nmi, Int3, Overflow, Bounds, Invalid_op, Device_not_available, Double_fault,
     Coprocessor_segment_overrun, Invalid_tss, Segment_not_present, Stack_segment, General_protection, Page_fault,
     Reserved, Coprocessor_error]"

definition vector_at :: "(entry \<Rightarrow> u32) \<Rightarrow> nat \<Rightarrow> u32" where
  "vector_at at n =
     (if 32 \<le> n \<and> n < 48 then at Irq_start + 8 * of_nat (n - 32)
      else if n = 128 then at System_call
      else if n < length exceptions then at (exceptions ! n) else at Reserved)"

definition user_vectors :: "nat set" where "user_vectors = {3, 4, 5, 128}"

definition first_gates :: "(entry \<Rightarrow> u32) \<Rightarrow> u64 list \<Rightarrow> u64 list" where
  "first_gates at idt = fold (\<lambda>i xs. xs[i := set_gate 15 (if i \<in> user_vectors then 3 else 0) (at (exceptions ! i))]) [0..<17] idt"

lemma idt_setup_folds:
  "idt_setup at idt =
     fold (\<lambda>i xs. xs[i := set_gate 14 0 (at Irq_start + 8 * of_nat (i - NR_EXTERNAL_VECTORS))])
       [NR_EXTERNAL_VECTORS..<NR_EXTERNAL_VECTORS + NR_IRQ_LINES]
       ((fold (\<lambda>i xs. xs[i := set_gate 15 0 (at Reserved)]) [17..<NR_IDT_ENTRYS] (first_gates at idt))
          [0x80 := set_gate 15 3 (at System_call)])"
proof -
  have "[0..<17] = [0, 1, 2, 3, 4, 5, 6, 7, 8, 9, 10, 11, 12, 13, 14, 15, 16]" by (simp add: upt_rec)
  then show ?thesis
    by (simp add: idt_setup_def Let_def first_gates_def set_intr_gate_def [abs_def]
        set_trap_gate_def [abs_def] set_system_gate_def [abs_def] exceptions_def user_vectors_def)
qed

lemma idt_setup_nth:
  assumes "length idt = NR_IDT_ENTRYS" "n < NR_IDT_ENTRYS"
  shows "idt_setup at idt ! n =
    set_gate (if 32 \<le> n \<and> n < 48 then 14 else 15) (if n \<in> user_vectors then 3 else 0) (vector_at at n)"
proof -
  have [simp]: "length exceptions = 17" by (simp add: exceptions_def)
  have l: "length (first_gates at idt) = length idt" "length idt = 256"
    using assms(1) nth_fold_update(2) [of 0 idt] by (simp_all add: first_gates_def NR_IDT_ENTRYS_def)
  have f: "first_gates at idt ! n =
      (if n < 17 then set_gate 15 (if n \<in> user_vectors then 3 else 0) (at (exceptions ! n)) else idt ! n)"
    unfolding first_gates_def using assms by (simp add: nth_fold_update)
  define A where "A = fold (\<lambda>i xs. xs[i := set_gate 15 0 (at Reserved)]) [17..<NR_IDT_ENTRYS] (first_gates at idt)"
  define B where "B = A[0x80 := set_gate 15 3 (at System_call)]"
  have n: "n < 256" using assms(2) by (simp add: NR_IDT_ENTRYS_def)
  have A: "length A = 256" "A ! n = (if 17 \<le> n then set_gate 15 0 (at Reserved) else first_gates at idt ! n)"
    using nth_fold_update [of n "first_gates at idt"] l n assms(2) by (simp_all add: A_def)
  have B: "length B = 256" "B ! n = (if n = 128 then set_gate 15 3 (at System_call) else A ! n)"
    using A n by (simp_all add: B_def nth_list_update)
  have r: "NR_EXTERNAL_VECTORS \<le> n \<and> n < NR_EXTERNAL_VECTORS + NR_IRQ_LINES \<longleftrightarrow> 32 \<le> n \<and> n < 48"
    by (simp add: NR_EXTERNAL_VECTORS_def NR_IRQ_LINES_def)
  have "idt_setup at idt ! n =
      (if 32 \<le> n \<and> n < 48 then set_gate 14 0 (at Irq_start + 8 * of_nat (n - NR_EXTERNAL_VECTORS)) else B ! n)"
    unfolding idt_setup_folds A_def [symmetric] B_def [symmetric]
    using nth_fold_update(1) [of n B] B(1) n r by simp
  then show ?thesis
    by (simp add: B(2) A(2) f vector_at_def user_vectors_def NR_EXTERNAL_VECTORS_def)
qed

text \<open>C10: The interrupt table keeps programs out of the kernel.  After \<open>idt_setup\<close> every one of the 256 vectors
  has a gate into the kernel's code segment, to the entry of its exception, of its interrupt line or of the
  system calls; interrupt lines, and only they, enter with interrupts off; a program can raise vectors 3,
  4, 5 and 0x80 with \<open>int\<close> and no others.\<close>

theorem gates_keep_programs_out:
  assumes "length idt = NR_IDT_ENTRYS" "n < NR_IDT_ENTRYS" "g = idt_setup at idt ! n"
  shows "gate_present g \<and> gate_selector g = 8 * GDT_KERNEL_CODE \<and> gate_offset g = vector_at at n \<and>
    (gate_type g = 14 \<longleftrightarrow> NR_EXTERNAL_VECTORS \<le> n \<and> n < NR_EXTERNAL_VECTORS + NR_IRQ_LINES) \<and>
    (user_may_raise (idt_setup at idt) n \<longleftrightarrow> n \<in> {3, 4, 5, 0x80})"
proof -
  have g: "g = set_gate (if 32 \<le> n \<and> n < 48 then 14 else 15) (if n \<in> user_vectors then 3 else 0) (vector_at at n)"
    using idt_setup_nth [OF assms(1,2)] assms(3) by simp
  have "gate_dpl g = (if n \<in> user_vectors then 3 else 0)" "gate_type g = (if 32 \<le> n \<and> n < 48 then 14 else 15)"
    unfolding g by (simp_all add: set_gate_fields)
  moreover have "gate_present g" "gate_selector g = 8" "gate_offset g = vector_at at n"
    unfolding g by (simp_all add: set_gate_fields)
  ultimately show ?thesis
    unfolding user_may_raise_def assms(3) [symmetric]
    by (simp add: GDT_KERNEL_CODE_def NR_EXTERNAL_VECTORS_def NR_IRQ_LINES_def user_vectors_def)
qed

theorem gates_keep_programs_out_witness:
  "\<not> user_may_raise (idt_setup (\<lambda>_. 0xC0100000) (replicate 256 0)) 0x21 \<and>
   user_may_raise (idt_setup (\<lambda>_. 0xC0100000) (replicate 256 0)) 0x80 \<and>
   gate_offset (idt_setup (\<lambda>_. 0xC0100000) (replicate 256 0) ! 0x21) = 0xC0100008"
  using gates_keep_programs_out [where idt = "replicate 256 0" and n = 33 and at = "\<lambda>_. 0xC0100000", OF _ _ refl]
    gates_keep_programs_out [where idt = "replicate 256 0" and n = 128 and at = "\<lambda>_. 0xC0100000", OF _ _ refl]
  by (simp add: NR_IDT_ENTRYS_def vector_at_def)

subsection \<open>Segments\<close>

text \<open>The four flat segments: the whole address space; the bits of \<open>0xc3f3\<close> outside the mask are dropped.\<close>

lemma gdt_segments:
  "\<forall>i\<in>{GDT_KERNEL_CODE, GDT_KERNEL_DATA, GDT_USER_CS, GDT_USER_DS}.
     seg_base (gdt_initial ! i) = 0 \<and> seg_limit (gdt_initial ! i) = 0xfffff \<and> gate_present (gdt_initial ! i) \<and>
     gate_dpl (gdt_initial ! i) = (if i \<in> {GDT_USER_CS, GDT_USER_DS} then 3 else 0)"
  by (simp add: gdt_initial_def GDT_KERNEL_CODE_def GDT_KERNEL_DATA_def GDT_USER_CS_def GDT_USER_DS_def
      NR_GDT_ENTRYS_def GDT_ENTRY_def seg_base_def seg_limit_def gate_present_def gate_dpl_def bit_iff_and_push_bit_not_eq_0)

end
