(* ===== verification/Klist.thy ===== *)
theory Klist
  imports Prelude
begin

text \<open>
  include/list.h: the doubly linked circular lists of the kernel, as updates of a heap of
  \<open>next\<close> and \<open>prev\<close> pointers in the order the code makes them.  \<open>clist h head xs\<close> says that the
  heap holds a well-formed list with head \<open>head\<close> and entries \<open>xs\<close>.  The lemmas show each
  operation to be the list operation it stands for and to leave the rest of the heap alone;
  the other theories model such lists as HOL lists on the strength of them.
\<close>

subsection \<open>The heap and the operations\<close>

record 'a lheap =
  nxt :: "'a \<Rightarrow> 'a"
  prv :: "'a \<Rightarrow> 'a"

definition set_nxt :: "'a lheap \<Rightarrow> 'a \<Rightarrow> 'a \<Rightarrow> 'a lheap" where
  "set_nxt h a v = h\<lparr>nxt := (nxt h)(a := v)\<rparr>"
definition set_prv :: "'a lheap \<Rightarrow> 'a \<Rightarrow> 'a \<Rightarrow> 'a lheap" where
  "set_prv h a v = h\<lparr>prv := (prv h)(a := v)\<rparr>"

lemma set_ptr_simps [simp]:
  "nxt (set_nxt h a v) x = (if x = a then v else nxt h x)" "prv (set_nxt h a v) = prv h"
  "prv (set_prv h a v) x = (if x = a then v else prv h x)" "nxt (set_prv h a v) = nxt h"
  by (simp_all add: set_nxt_def set_prv_def)

definition INIT_LIST_HEAD :: "'a lheap \<Rightarrow> 'a \<Rightarrow> 'a lheap" where
  "INIT_LIST_HEAD h l = set_prv (set_nxt h l l) l l"

definition list_add_between :: "'a lheap \<Rightarrow> 'a \<Rightarrow> 'a \<Rightarrow> 'a \<Rightarrow> 'a lheap" where
  "list_add_between h new pr ne =
     (let h = set_prv h ne new; h = set_nxt h new ne; h = set_prv h new pr in set_nxt h pr new)"

definition list_add :: "'a lheap \<Rightarrow> 'a \<Rightarrow> 'a \<Rightarrow> 'a lheap" where
  "list_add h new head = list_add_between h new head (nxt h head)"

definition list_add_tail :: "'a lheap \<Rightarrow> 'a \<Rightarrow> 'a \<Rightarrow> 'a lheap" where
  "list_add_tail h new head = list_add_between h new (prv h head) head"

definition list_del_between :: "'a lheap \<Rightarrow> 'a \<Rightarrow> 'a \<Rightarrow> 'a lheap" where
  "list_del_between h pr ne = (let h = set_prv h ne pr in set_nxt h pr ne)"

definition list_del :: "'a lheap \<Rightarrow> 'a \<Rightarrow> 'a lheap" where
  "list_del h entry = list_del_between h (prv h entry) (nxt h entry)"

definition list_replace :: "'a lheap \<Rightarrow> 'a \<Rightarrow> 'a \<Rightarrow> 'a lheap" where
  "list_replace h old new =
     (let h = set_nxt h new (nxt h old);
          h = set_prv h (nxt h new) new;
          h = set_prv h new (prv h old)
      in set_nxt h (prv h new) new)"

definition list_replace_init :: "'a lheap \<Rightarrow> 'a \<Rightarrow> 'a \<Rightarrow> 'a lheap" where
  "list_replace_init h old new = INIT_LIST_HEAD (list_replace h old new) old"

definition list_del_init :: "'a lheap \<Rightarrow> 'a \<Rightarrow> 'a lheap" where
  "list_del_init h entry = INIT_LIST_HEAD (list_del_between h (prv h entry) (nxt h entry)) entry"

definition list_move :: "'a lheap \<Rightarrow> 'a \<Rightarrow> 'a \<Rightarrow> 'a lheap" where
  "list_move h l head = list_add (list_del_between h (prv h l) (nxt h l)) l head"

definition list_move_tail :: "'a lheap \<Rightarrow> 'a \<Rightarrow> 'a \<Rightarrow> 'a lheap" where
  "list_move_tail h l head = list_add_tail (list_del_between h (prv h l) (nxt h l)) l head"

definition list_is_last :: "'a lheap \<Rightarrow> 'a \<Rightarrow> 'a \<Rightarrow> bool" where
  "list_is_last h l head \<longleftrightarrow> nxt h l = head"

definition list_empty :: "'a lheap \<Rightarrow> 'a \<Rightarrow> bool" where
  "list_empty h head \<longleftrightarrow> nxt h head = head"

definition list_empty_careful :: "'a lheap \<Rightarrow> 'a \<Rightarrow> bool" where
  "list_empty_careful h head \<longleftrightarrow> (let ne = nxt h head in ne = head \<and> ne = prv h head)"

definition list_is_singular :: "'a lheap \<Rightarrow> 'a \<Rightarrow> bool" where
  "list_is_singular h head \<longleftrightarrow> \<not> list_empty h head \<and> nxt h head = prv h head"

definition list_cut_between :: "'a lheap \<Rightarrow> 'a \<Rightarrow> 'a \<Rightarrow> 'a \<Rightarrow> 'a lheap" where
  "list_cut_between h l head entry =
     (let new_first = nxt h entry;
          h = set_nxt h l (nxt h head);
          h = set_prv h (nxt h l) l;
          h = set_prv h l entry;
          h = set_nxt h entry l;
          h = set_nxt h head new_first
      in set_prv h new_first head)"

definition list_cut_position :: "'a lheap \<Rightarrow> 'a \<Rightarrow> 'a \<Rightarrow> 'a \<Rightarrow> 'a lheap" where
  "list_cut_position h l head entry =
     (if list_empty h head then h
      else if list_is_singular h head \<and> (nxt h head \<noteq> entry \<and> head \<noteq> entry) then h
      else if entry = head then INIT_LIST_HEAD h l
      else list_cut_between h l head entry)"

definition list_splice_between :: "'a lheap \<Rightarrow> 'a \<Rightarrow> 'a \<Rightarrow> 'a \<Rightarrow> 'a lheap" where
  "list_splice_between h l pr ne =
     (let fi = nxt h l; la = prv h l;
          h = set_prv h fi pr; h = set_nxt h pr fi; h = set_nxt h la ne
      in set_prv h ne la)"

definition list_splice :: "'a lheap \<Rightarrow> 'a \<Rightarrow> 'a \<Rightarrow> 'a lheap" where
  "list_splice h l head = (if \<not> list_empty h l then list_splice_between h l head (nxt h head) else h)"

definition list_splice_tail :: "'a lheap \<Rightarrow> 'a \<Rightarrow> 'a \<Rightarrow> 'a lheap" where
  "list_splice_tail h l head = (if \<not> list_empty h l then list_splice_between h l (prv h head) head else h)"

definition list_splice_init :: "'a lheap \<Rightarrow> 'a \<Rightarrow> 'a \<Rightarrow> 'a lheap" where
  "list_splice_init h l head =
     (if \<not> list_empty h l then INIT_LIST_HEAD (list_splice_between h l head (nxt h head)) l else h)"

definition list_splice_tail_init :: "'a lheap \<Rightarrow> 'a \<Rightarrow> 'a \<Rightarrow> 'a lheap" where
  "list_splice_tail_init h l head =
     (if \<not> list_empty h l then INIT_LIST_HEAD (list_splice_between h l (prv h head) head) l else h)"

text \<open>The iteration macros: the entries visited, in order.  A list that is not circular through
  its head would be walked for ever, so the walk has fuel and \<open>None\<close> for running out of it.\<close>

fun walk :: "nat \<Rightarrow> ('a \<Rightarrow> 'a) \<Rightarrow> 'a \<Rightarrow> 'a \<Rightarrow> 'a list option" where
  "walk 0 f head pos = None"
| "walk (Suc n) f head pos =
     (if pos = head then Some [] else do { ps \<leftarrow> walk n f head (f pos); Some (pos # ps) })"

definition list_for_each :: "nat \<Rightarrow> 'a lheap \<Rightarrow> 'a \<Rightarrow> 'a list option" where
  "list_for_each n h head = walk n (nxt h) head (nxt h head)"

definition list_for_each_prev :: "nat \<Rightarrow> 'a lheap \<Rightarrow> 'a \<Rightarrow> 'a list option" where
  "list_for_each_prev n h head = walk n (prv h) head (prv h head)"

text \<open>The \<open>entry\<close> macros iterate over the structures the nodes are embedded in; an entry is
  identified with its node, since \<open>container_of\<close> only subtracts the member's offset.\<close>

definition list_first_entry :: "'a lheap \<Rightarrow> 'a \<Rightarrow> 'a" where
  "list_first_entry h head = nxt h head"

definition list_for_each_entry :: "nat \<Rightarrow> 'a lheap \<Rightarrow> 'a \<Rightarrow> 'a list option" where
  "list_for_each_entry n h head = walk n (nxt h) head (nxt h head)"

definition list_for_each_entry_reverse :: "nat \<Rightarrow> 'a lheap \<Rightarrow> 'a \<Rightarrow> 'a list option" where
  "list_for_each_entry_reverse n h head = walk n (prv h) head (prv h head)"

definition list_prepare_entry :: "'a option \<Rightarrow> 'a \<Rightarrow> 'a" where
  "list_prepare_entry pos head = (case pos of None \<Rightarrow> head | Some p \<Rightarrow> p)"

definition list_for_each_entry_continue :: "nat \<Rightarrow> 'a lheap \<Rightarrow> 'a \<Rightarrow> 'a \<Rightarrow> 'a list option" where
  "list_for_each_entry_continue n h pos head = walk n (nxt h) head (nxt h pos)"

definition list_for_each_entry_continue_reverse :: "nat \<Rightarrow> 'a lheap \<Rightarrow> 'a \<Rightarrow> 'a \<Rightarrow> 'a list option" where
  "list_for_each_entry_continue_reverse n h pos head = walk n (prv h) head (prv h pos)"

definition list_for_each_entry_from :: "nat \<Rightarrow> 'a lheap \<Rightarrow> 'a \<Rightarrow> 'a \<Rightarrow> 'a list option" where
  "list_for_each_entry_from n h pos head = walk n (nxt h) head pos"

text \<open>The safe iterations read the next node before the body runs; \<open>body\<close> changes the heap and
  \<open>dir\<close> is the pointer field followed.\<close>

fun walk_safe :: "nat \<Rightarrow> ('a lheap \<Rightarrow> 'a \<Rightarrow> 'a) \<Rightarrow> ('a lheap \<Rightarrow> 'a \<Rightarrow> 'a lheap) \<Rightarrow> 'a \<Rightarrow> 'a lheap \<Rightarrow> 'a \<Rightarrow> 'a \<Rightarrow> 'a lheap option" where
  "walk_safe 0 dir body head h pos n = None"
| "walk_safe (Suc k) dir body head h pos n =
     (if pos = head then Some h
      else let h = body h pos; pos = n; n = dir h pos in walk_safe k dir body head h pos n)"

definition list_for_each_safe :: "nat \<Rightarrow> ('a lheap \<Rightarrow> 'a \<Rightarrow> 'a lheap) \<Rightarrow> 'a lheap \<Rightarrow> 'a \<Rightarrow> 'a lheap option" where
  "list_for_each_safe k body h head = walk_safe k nxt body head h (nxt h head) (nxt h (nxt h head))"

definition list_for_each_prev_safe :: "nat \<Rightarrow> ('a lheap \<Rightarrow> 'a \<Rightarrow> 'a lheap) \<Rightarrow> 'a lheap \<Rightarrow> 'a \<Rightarrow> 'a lheap option" where
  "list_for_each_prev_safe k body h head = walk_safe k prv body head h (prv h head) (prv h (prv h head))"

definition list_for_each_entry_safe :: "nat \<Rightarrow> ('a lheap \<Rightarrow> 'a \<Rightarrow> 'a lheap) \<Rightarrow> 'a lheap \<Rightarrow> 'a \<Rightarrow> 'a lheap option" where
  "list_for_each_entry_safe k body h head =
     (let pos = nxt h head; n = nxt h pos in walk_safe k nxt body head h pos n)"

definition list_for_each_entry_safe_continue ::
  "nat \<Rightarrow> ('a lheap \<Rightarrow> 'a \<Rightarrow> 'a lheap) \<Rightarrow> 'a lheap \<Rightarrow> 'a \<Rightarrow> 'a \<Rightarrow> 'a lheap option" where
  "list_for_each_entry_safe_continue k body h pos head =
     (let pos = nxt h pos; n = nxt h pos in walk_safe k nxt body head h pos n)"

definition list_for_each_entry_safe_from ::
  "nat \<Rightarrow> ('a lheap \<Rightarrow> 'a \<Rightarrow> 'a lheap) \<Rightarrow> 'a lheap \<Rightarrow> 'a \<Rightarrow> 'a \<Rightarrow> 'a lheap option" where
  "list_for_each_entry_safe_from k body h pos head =
     (let n = nxt h pos in walk_safe k nxt body head h pos n)"

definition list_for_each_entry_safe_reverse ::
  "nat \<Rightarrow> ('a lheap \<Rightarrow> 'a \<Rightarrow> 'a lheap) \<Rightarrow> 'a lheap \<Rightarrow> 'a \<Rightarrow> 'a lheap option" where
  "list_for_each_entry_safe_reverse k body h head =
     (let pos = prv h head; n = prv h pos in walk_safe k prv body head h pos n)"

subsection \<open>Well-formed lists\<close>

definition edge :: "'a lheap \<Rightarrow> 'a \<Rightarrow> 'a \<Rightarrow> bool" where
  "edge h a b \<longleftrightarrow> nxt h a = b \<and> prv h b = a"

definition clist :: "'a lheap \<Rightarrow> 'a \<Rightarrow> 'a list \<Rightarrow> bool" where
  "clist h head xs \<longleftrightarrow> distinct (head # xs) \<and> successively (edge h) (head # xs @ [head])"

text \<open>A path survives a change of pointers that are not on it.\<close>

lemma path_frame:
  assumes "successively (edge h) ps"
    and "\<And>x. x \<in> set (butlast ps) \<Longrightarrow> nxt h' x = nxt h x"
    and "\<And>x. x \<in> set (tl ps) \<Longrightarrow> prv h' x = prv h x"
  shows "successively (edge h') ps"
  using assms
proof (induction ps rule: induct_list012)
  case (3 x y zs)
  have "successively (edge h') (y # zs)"
    by (rule 3) (use 3 in \<open>auto dest: in_set_butlastD list.set_sel(2)\<close>)
  moreover have "edge h' x y" using 3 by (simp add: edge_def)
  ultimately show ?case by simp
qed auto

text \<open>The heap outside a set is unchanged.\<close>

definition same_off :: "'a set \<Rightarrow> 'a lheap \<Rightarrow> 'a lheap \<Rightarrow> bool" where
  "same_off S h h' \<longleftrightarrow> (\<forall>x. x \<notin> S \<longrightarrow> nxt h' x = nxt h x \<and> prv h' x = prv h x)"

lemma same_off_clist:
  assumes "same_off S h h'" "set (head # xs) \<inter> S = {}" "clist h head xs"
  shows "clist h' head xs"
  unfolding clist_def
proof
  have out: "x \<notin> S" if "x \<in> set (head # xs @ [head])" for x using assms(2) that by auto
  show "successively (edge h') (head # xs @ [head])"
  proof (rule path_frame)
    show "successively (edge h) (head # xs @ [head])" using assms(3) by (simp add: clist_def)
    show "nxt h' x = nxt h x" if "x \<in> set (butlast (head # xs @ [head]))" for x
      using out [OF in_set_butlastD [OF that]] assms(1) by (simp add: same_off_def)
    show "prv h' x = prv h x" if "x \<in> set (tl (head # xs @ [head]))" for x
      using out [of x] that assms(1) by (simp add: same_off_def)
  qed
qed (use assms in \<open>simp add: clist_def\<close>)

lemma same_off_mono: "same_off S h h' \<Longrightarrow> S \<subseteq> T \<Longrightarrow> same_off T h h'"
  by (auto simp: same_off_def)

lemma same_off_trans: "same_off S h h' \<Longrightarrow> same_off S h' h'' \<Longrightarrow> same_off S h h''"
  by (simp add: same_off_def)

text \<open>A list taken apart between two neighbours, and put together again.\<close>

definition before :: "'a \<Rightarrow> 'a list \<Rightarrow> 'a" where "before head ys = last (head # ys)"
definition after :: "'a list \<Rightarrow> 'a \<Rightarrow> 'a" where "after zs head = hd (zs @ [head])"

lemma before_after_simps [simp]:
  "before head [] = head" "before head (ys @ [y]) = y" "before head [y] = y"
  "after [] head = head" "after (z # zs) head = z"
  by (simp_all add: before_def after_def)

lemma clist_split:
  "clist h head (ys @ zs) \<longleftrightarrow> distinct (head # ys @ zs) \<and> successively (edge h) (head # ys) \<and>
     successively (edge h) (zs @ [head]) \<and> edge h (before head ys) (after zs head)"
proof -
  have "head # (ys @ zs) @ [head] = (head # ys) @ (zs @ [head])" by simp
  then show ?thesis unfolding clist_def by (simp only: successively_append_iff before_def after_def) auto
qed

lemma clist_cut3:
  "clist h head (ys @ xs @ zs) \<longleftrightarrow> distinct (head # ys @ xs @ zs) \<and> successively (edge h) (head # ys) \<and>
     successively (edge h) xs \<and> successively (edge h) (zs @ [head]) \<and>
     (if xs = [] then edge h (before head ys) (after zs head)
      else edge h (before head ys) (hd xs) \<and> edge h (last xs) (after zs head))"
proof (cases "xs = []")
  case True
  then show ?thesis by (simp add: clist_split)
next
  case False
  have "head # (ys @ xs @ zs) @ [head] = (head # ys) @ (xs @ (zs @ [head]))" by simp
  then show ?thesis using False unfolding clist_def by (simp only: successively_append_iff before_def after_def) auto
qed

lemma before_in: "before head ys \<in> set (head # ys)"
  unfolding before_def by (rule last_in_set) simp

lemma after_in: "after zs head \<in> set (zs @ [head])"
  by (cases zs) simp_all

text \<open>The two outer parts survive any change at the inner ends and elsewhere.\<close>

lemma outer_frame:
  assumes d: "distinct (head # ys @ zs)"
    and p: "successively (edge h) (head # ys)" "successively (edge h) (zs @ [head])"
    and n: "\<And>x. x \<in> set (head # ys @ zs) \<Longrightarrow> x \<noteq> before head ys \<Longrightarrow> nxt h' x = nxt h x"
    and v: "\<And>x. x \<in> set (head # ys @ zs) \<Longrightarrow> x \<noteq> after zs head \<Longrightarrow> prv h' x = prv h x"
  shows "successively (edge h') (head # ys)" "successively (edge h') (zs @ [head])"
proof -
  have dz: "distinct (zs @ [head])" using d by auto
  have "butlast (head # ys) @ [before head ys] = head # ys"
    unfolding before_def by (rule append_butlast_last_id) simp
  then have "distinct (butlast (head # ys) @ [before head ys])" using d by simp
  then have b: "x \<noteq> before head ys" if "x \<in> set (butlast (head # ys))" for x
    using that unfolding distinct_append by auto
  have bz: "x \<noteq> before head ys" if "x \<in> set zs" for x
    using that d before_in [of head ys] by auto
  have a: "x \<noteq> after zs head" if "x \<in> set (tl (zs @ [head]))" for x
    using that dz by (cases zs) auto
  have ay: "x \<noteq> after zs head" if "x \<in> set ys" for x
    using that d after_in [of zs head] by auto
  show "successively (edge h') (head # ys)"
  proof (rule path_frame [OF p(1)])
    fix x assume x: "x \<in> set (butlast (head # ys))"
    have "x \<in> set (head # ys @ zs)" using in_set_butlastD [OF x] by auto
    then show "nxt h' x = nxt h x" using n b [OF x] by blast
  next
    fix x assume "x \<in> set (tl (head # ys))"
    then have "x \<in> set ys" by simp
    then show "prv h' x = prv h x" using v ay by simp
  qed
  show "successively (edge h') (zs @ [head])"
  proof (rule path_frame [OF p(2)])
    fix x assume "x \<in> set (butlast (zs @ [head]))"
    then have "x \<in> set zs" by simp
    then show "nxt h' x = nxt h x" using n bz by simp
  next
    fix x assume x: "x \<in> set (tl (zs @ [head]))"
    have "x \<in> set (head # ys @ zs)" using list.set_sel(2) [OF _ x] by auto
    then show "prv h' x = prv h x" using v a [OF x] by blast
  qed
qed

lemma clist_ends:
  assumes "clist h head (ys @ zs)"
  shows "nxt h (before head ys) = after zs head" "prv h (after zs head) = before head ys"
  using assms by (simp_all only: clist_split edge_def)

lemma clist_head:
  assumes "clist h head xs"
  shows "nxt h head = after xs head" "prv h head = before head xs"
  using clist_ends(1) [of h head "[]" xs] clist_ends(2) [of h head xs "[]"] assms by simp_all

subsection \<open>The operations on lists\<close>

lemma INIT_LIST_HEAD_clist: "clist (INIT_LIST_HEAD h l) l []" "same_off {l} h (INIT_LIST_HEAD h l)"
  by (simp_all add: clist_def edge_def INIT_LIST_HEAD_def same_off_def)

lemma list_add_between_clist:
  assumes c: "clist h head (ys @ zs)" and n: "new \<notin> set (head # ys @ zs)"
  shows "clist (list_add_between h new (before head ys) (after zs head)) head (ys @ [new] @ zs)"
    "same_off (set (head # new # ys @ zs)) h (list_add_between h new (before head ys) (after zs head))"
proof -
  let ?h = "list_add_between h new (before head ys) (after zs head)"
  note C = c [unfolded clist_split]
  have ne: "new \<noteq> before head ys" "new \<noteq> after zs head" using n before_in [of head ys] after_in [of zs head] by auto
  have f: "nxt ?h x = (if x = before head ys then new else if x = new then after zs head else nxt h x)"
    "prv ?h x = (if x = new then before head ys else if x = after zs head then new else prv h x)" for x
    by (simp_all add: list_add_between_def Let_def)
  have o: "successively (edge ?h) (head # ys)" "successively (edge ?h) (zs @ [head])"
    by (rule outer_frame [of head ys zs h]; use C n in \<open>(simp add: f)?\<close>; force)+
  show "clist ?h head (ys @ [new] @ zs)"
    unfolding clist_cut3 using C n o ne by (auto simp add: edge_def f)
  show "same_off (set (head # new # ys @ zs)) h ?h"
    using before_in [of head ys] after_in [of zs head] by (auto simp: same_off_def f)
qed


lemma list_add_clist:
  assumes c: "clist h head xs" and n: "new \<notin> set (head # xs)"
  shows "clist (list_add h new head) head (new # xs)"
    "same_off (set (head # new # xs)) h (list_add h new head)"
  using list_add_between_clist [of h head "[]" xs new] c n clist_head(1) [OF c]
  by (simp_all add: list_add_def)

lemma list_add_tail_clist:
  assumes c: "clist h head xs" and n: "new \<notin> set (head # xs)"
  shows "clist (list_add_tail h new head) head (xs @ [new])"
    "same_off (set (head # new # xs)) h (list_add_tail h new head)"
  using list_add_between_clist [of h head xs "[]" new] c n clist_head(2) [OF c]
  by (simp_all add: list_add_tail_def)

lemma clist_at:
  assumes "clist h head (ys @ x # zs)"
  shows "prv h x = before head ys" "nxt h x = after zs head"
  using clist_ends(2) [of h head ys "x # zs"] clist_ends(1) [of h head "ys @ [x]" zs] assms
  by simp_all

lemma list_del_between_clist:
  assumes c: "clist h head (ys @ x # zs)"
  shows "clist (list_del_between h (prv h x) (nxt h x)) head (ys @ zs)"
    "same_off (set (head # ys @ zs)) h (list_del_between h (prv h x) (nxt h x))"
proof -
  define h' where "h' = list_del_between h (prv h x) (nxt h x)"
  note C = c [unfolded clist_cut3 [of h head ys "[x]" zs, simplified]]
  note at = clist_at [OF c]
  have f: "nxt h' y = (if y = before head ys then after zs head else nxt h y)"
    "prv h' y = (if y = after zs head then before head ys else prv h y)" for y
    by (simp_all add: h'_def list_del_between_def Let_def at)
  have d: "distinct (head # ys @ zs)" using C by auto
  have o: "successively (edge h') (head # ys)" "successively (edge h') (zs @ [head])"
    by (rule outer_frame [OF d, of h]; use C in \<open>(simp add: f)?\<close>; force)+
  have "clist h' head (ys @ zs)"
    unfolding clist_split using d o by (simp add: edge_def f)
  then show "clist (list_del_between h (prv h x) (nxt h x)) head (ys @ zs)" by (simp only: h'_def)
  have "same_off (set (head # ys @ zs)) h h'"
    using before_in [of head ys] after_in [of zs head] by (auto simp: same_off_def f)
  then show "same_off (set (head # ys @ zs)) h (list_del_between h (prv h x) (nxt h x))" by (simp only: h'_def)
qed

lemma list_del_clist:
  assumes "clist h head (ys @ x # zs)"
  shows "clist (list_del h x) head (ys @ zs)" "same_off (set (head # ys @ zs)) h (list_del h x)"
  using list_del_between_clist [OF assms] by (simp_all add: list_del_def)

lemma list_del_init_clist:
  assumes c: "clist h head (ys @ x # zs)"
  shows "clist (list_del_init h x) head (ys @ zs)" "clist (list_del_init h x) x []"
    "same_off (set (head # x # ys @ zs)) h (list_del_init h x)"
proof -
  note D = list_del_between_clist [OF c]
  note I = INIT_LIST_HEAD_clist [where h = "list_del_between h (prv h x) (nxt h x)" and l = x]
  have "x \<notin> set (head # ys @ zs)" using c by (auto simp: clist_def)
  then show "clist (list_del_init h x) head (ys @ zs)"
    unfolding list_del_init_def by (intro same_off_clist [OF I(2) _ D(1)]) auto
  show "clist (list_del_init h x) x []" unfolding list_del_init_def by (rule I(1))
  show "same_off (set (head # x # ys @ zs)) h (list_del_init h x)"
    unfolding list_del_init_def
    by (rule same_off_trans [OF same_off_mono [OF D(2)] same_off_mono [OF I(2)]]) auto
qed

lemma list_replace_clist:
  assumes c: "clist h head (ys @ old # zs)" and n: "new \<notin> set (head # ys @ old # zs)"
  shows "clist (list_replace h old new) head (ys @ new # zs)"
    "same_off (set (head # new # ys @ zs)) h (list_replace h old new)"
proof -
  let ?h = "list_replace h old new"
  note C = c [unfolded clist_cut3 [of h head ys "[old]" zs, simplified]]
  note at = clist_at [OF c]
  have ne: "new \<noteq> before head ys" "new \<noteq> after zs head" "old \<noteq> before head ys" "old \<noteq> after zs head" "old \<noteq> new"
    using n C before_in [of head ys] after_in [of zs head] by auto
  have f: "nxt ?h y = (if y = before head ys then new else if y = new then after zs head else nxt h y)"
    "prv ?h y = (if y = new then before head ys else if y = after zs head then new else prv h y)" for y
    using ne by (auto simp add: list_replace_def Let_def at)
  have o: "successively (edge ?h) (head # ys)" "successively (edge ?h) (zs @ [head])"
    by (rule outer_frame [of head ys zs h]; use C n in \<open>(simp add: f)?\<close>; force)+
  have "clist ?h head (ys @ [new] @ zs)"
    unfolding clist_cut3 using C n o ne by (auto simp: edge_def f)
  then show "clist ?h head (ys @ new # zs)" by simp
  show "same_off (set (head # new # ys @ zs)) h ?h"
    using before_in [of head ys] after_in [of zs head] by (auto simp: same_off_def f)
qed

lemma list_replace_init_clist:
  assumes c: "clist h head (ys @ old # zs)" and n: "new \<notin> set (head # ys @ old # zs)"
  shows "clist (list_replace_init h old new) head (ys @ new # zs)" "clist (list_replace_init h old new) old []"
proof -
  note I = INIT_LIST_HEAD_clist [where h = "list_replace h old new" and l = old]
  have "old \<notin> set (head # ys @ new # zs)" using c n by (auto simp: clist_def)
  then show "clist (list_replace_init h old new) head (ys @ new # zs)"
    unfolding list_replace_init_def by (intro same_off_clist [OF I(2) _ list_replace_clist(1) [OF c n]]) auto
  show "clist (list_replace_init h old new) old []" unfolding list_replace_init_def by (rule I(1))
qed

text \<open>Moving an entry to another list, and within one list.\<close>

lemma list_move_clist:
  assumes c: "clist h a (ys @ x # zs)" and d: "clist h b us"
    and dj: "set (a # ys @ x # zs) \<inter> set (b # us) = {}"
  shows "clist (list_move h x b) a (ys @ zs)" "clist (list_move h x b) b (x # us)"
    "clist (list_move_tail h x b) a (ys @ zs)" "clist (list_move_tail h x b) b (us @ [x])"
proof -
  note D = list_del_between_clist [OF c]
  have d': "clist (list_del_between h (prv h x) (nxt h x)) b us"
    by (rule same_off_clist [OF D(2) _ d]) (use dj in auto)
  have xb: "x \<notin> set (b # us)" using dj by auto
  have xa: "x \<notin> set (a # ys @ zs)" using c by (auto simp: clist_def)
  note A = list_add_clist [OF d' xb] and T = list_add_tail_clist [OF d' xb]
  show "clist (list_move h x b) b (x # us)" "clist (list_move_tail h x b) b (us @ [x])"
    using A(1) T(1) by (simp_all add: list_move_def list_move_tail_def)
  have "set (a # ys @ zs) \<inter> set (b # x # us) = {}" using dj xa by auto
  then show "clist (list_move h x b) a (ys @ zs)" "clist (list_move_tail h x b) a (ys @ zs)"
    unfolding list_move_def list_move_tail_def
    using same_off_clist [OF A(2) _ D(1)] same_off_clist [OF T(2) _ D(1)] by blast+
qed

lemma list_move_same_clist:
  assumes c: "clist h a (ys @ x # zs)"
  shows "clist (list_move h x a) a (x # ys @ zs)" "clist (list_move_tail h x a) a (ys @ zs @ [x])"
proof -
  note D = list_del_between_clist [OF c]
  have "x \<notin> set (a # ys @ zs)" using c by (auto simp: clist_def)
  note A = list_add_clist [OF D(1) this] and T = list_add_tail_clist [OF D(1) this]
  show "clist (list_move h x a) a (x # ys @ zs)" "clist (list_move_tail h x a) a (ys @ zs @ [x])"
    using A(1) T(1) by (simp_all add: list_move_def list_move_tail_def)
qed

text \<open>The tests.\<close>

lemma list_tests:
  assumes c: "clist h head xs"
  shows "list_empty h head \<longleftrightarrow> xs = []" "list_empty_careful h head \<longleftrightarrow> xs = []"
    "list_is_singular h head \<longleftrightarrow> length xs = 1"
    "x \<in> set xs \<Longrightarrow> list_is_last h x head \<longleftrightarrow> x = last xs"
proof -
  note E = clist_head [OF c]
  have d: "distinct (head # xs)" using c by (simp add: clist_def)
  have ne: "after xs head \<noteq> head" if "xs \<noteq> []" using that d by (cases xs) auto
  show e: "list_empty h head \<longleftrightarrow> xs = []" using E(1) ne by (auto simp: list_empty_def)
  then show "list_empty_careful h head \<longleftrightarrow> xs = []"
    using E ne by (auto simp: list_empty_careful_def list_empty_def Let_def)
  show "list_is_singular h head \<longleftrightarrow> length xs = 1"
  proof (cases xs)
    case (Cons y ys)
    then show ?thesis using E e d by (cases ys rule: rev_cases) (auto simp: list_is_singular_def before_def)
  qed (use e in \<open>simp add: list_is_singular_def\<close>)
  show "list_is_last h x head \<longleftrightarrow> x = last xs" if "x \<in> set xs"
  proof -
    from that obtain ys zs where xs: "xs = ys @ x # zs" by (meson split_list)
    have "nxt h x = after zs head" using clist_at(2) [of h head ys x zs] c xs by simp
    then show ?thesis using d xs by (cases zs) (auto simp: list_is_last_def)
  qed
qed


lemma successively_sub: "successively P (as @ bs @ cs) \<Longrightarrow> successively P bs"
  by (simp add: successively_append_iff)

lemma last_notin_butlast: "distinct xs \<Longrightarrow> x \<in> set (butlast xs) \<Longrightarrow> x \<noteq> last xs"
  by (cases xs rule: rev_cases) auto

lemma hd_notin_tl: "distinct xs \<Longrightarrow> x \<in> set (tl xs) \<Longrightarrow> x \<noteq> hd xs"
  by (cases xs) auto

lemma list_splice_between_clist:
  assumes c: "clist h head (ys @ zs)" and l: "clist h l xs" and ne: "xs \<noteq> []"
    and dj: "set (head # ys @ zs) \<inter> set (l # xs) = {}"
  shows "clist (list_splice_between h l (before head ys) (after zs head)) head (ys @ xs @ zs)"
    "same_off (set (head # ys @ xs @ zs)) h (list_splice_between h l (before head ys) (after zs head))"
proof -
  define h' where "h' = list_splice_between h l (before head ys) (after zs head)"
  note C = c [unfolded clist_split]
  have fi: "nxt h l = hd xs" "prv h l = last xs"
    using clist_head [OF l] ne by (simp_all add: before_def after_def)
  have f: "nxt h' x = (if x = last xs then after zs head else if x = before head ys then hd xs else nxt h x)"
    "prv h' x = (if x = after zs head then last xs else if x = hd xs then before head ys else prv h x)" for x
    by (simp_all add: h'_def list_splice_between_def Let_def fi)
  have xs: "distinct xs" "successively (edge h) xs"
    using l successively_sub [of "edge h" "[l]" xs "[l]"] by (simp_all add: clist_def)
  have mem: "last xs \<in> set xs" "hd xs \<in> set xs" using ne by simp_all
  note bi = before_in [of head ys] and ai = after_in [of zs head]
  have out: "x \<noteq> last xs" "x \<noteq> hd xs" if "x \<in> set (head # ys @ zs)" for x using that mem dj by auto
  have inn: "x \<noteq> before head ys" "x \<noteq> after zs head" if "x \<in> set xs" for x
    using that bi ai dj by auto
  have o: "successively (edge h') (head # ys)" "successively (edge h') (zs @ [head])"
    by (rule outer_frame [of head ys zs h]; use C out in \<open>(simp add: f)?\<close>; force)+
  have "successively (edge h') xs"
  proof (rule path_frame [OF xs(2)])
    show "nxt h' x = nxt h x" if "x \<in> set (butlast xs)" for x
      using last_notin_butlast [OF xs(1) that] inn [OF in_set_butlastD [OF that]] by (simp add: f)
    show "prv h' x = prv h x" if "x \<in> set (tl xs)" for x
      using hd_notin_tl [OF xs(1) that] inn [OF list.set_sel(2) [OF ne that]] by (simp add: f)
  qed
  moreover have "edge h' (before head ys) (hd xs)" "edge h' (last xs) (after zs head)"
    using inn [OF mem(1)] inn [OF mem(2)] out bi ai by (auto simp: edge_def f)
  moreover have "distinct (head # ys @ xs @ zs)" using C xs dj by auto
  ultimately have "clist h' head (ys @ xs @ zs)" unfolding clist_cut3 using o ne by simp
  then show "clist (list_splice_between h l (before head ys) (after zs head)) head (ys @ xs @ zs)"
    by (simp only: h'_def)
  have "same_off (set (head # ys @ xs @ zs)) h h'"
    using bi ai mem by (auto simp: same_off_def f)
  then show "same_off (set (head # ys @ xs @ zs)) h (list_splice_between h l (before head ys) (after zs head))"
    by (simp only: h'_def)
qed

lemma list_splice_clist:
  assumes c: "clist h head ys" and l: "clist h l xs" and dj: "set (head # ys) \<inter> set (l # xs) = {}"
  shows "clist (list_splice h l head) head (xs @ ys)" "clist (list_splice_tail h l head) head (ys @ xs)"
    "clist (list_splice_init h l head) head (xs @ ys)" "clist (list_splice_init h l head) l []"
    "clist (list_splice_tail_init h l head) head (ys @ xs)" "clist (list_splice_tail_init h l head) l []"
proof -
  note e = list_tests(1) [OF l]
  have "clist (list_splice h l head) head (xs @ ys) \<and> clist (list_splice_tail h l head) head (ys @ xs) \<and>
    clist (list_splice_init h l head) head (xs @ ys) \<and> clist (list_splice_init h l head) l [] \<and>
    clist (list_splice_tail_init h l head) head (ys @ xs) \<and> clist (list_splice_tail_init h l head) l []"
  proof (cases "xs = []")
    case True
    then show ?thesis using c l e
      by (simp add: list_splice_def list_splice_tail_def list_splice_init_def list_splice_tail_init_def)
  next
    case False
    let ?a = "list_splice_between h l head (nxt h head)" and ?b = "list_splice_between h l (prv h head) head"
    have A: "clist ?a head (xs @ ys)"
      using list_splice_between_clist(1) [of h head "[]" ys l xs] c l False dj clist_head(1) [OF c] by simp
    have B: "clist ?b head (ys @ xs)"
      using list_splice_between_clist(1) [of h head ys "[]" l xs] c l False dj clist_head(2) [OF c] by simp
    have dl: "set (head # xs @ ys) \<inter> {l} = {}" "set (head # ys @ xs) \<inter> {l} = {}"
      using dj l by (auto simp: clist_def)
    note I = INIT_LIST_HEAD_clist [where l = l]
    show ?thesis
      using A B e False same_off_clist [OF I(2) dl(1) A] same_off_clist [OF I(2) dl(2) B] I(1)
      by (simp add: list_splice_def list_splice_tail_def list_splice_init_def list_splice_tail_init_def)
  qed
  then show "clist (list_splice h l head) head (xs @ ys)" "clist (list_splice_tail h l head) head (ys @ xs)"
    "clist (list_splice_init h l head) head (xs @ ys)" "clist (list_splice_init h l head) l []"
    "clist (list_splice_tail_init h l head) head (ys @ xs)" "clist (list_splice_tail_init h l head) l []"
    by blast+
qed

lemma list_cut_between_clist:
  assumes c: "clist h head (ys @ zs)" and ne: "ys \<noteq> []" and l: "l \<notin> set (head # ys @ zs)"
  shows "clist (list_cut_between h l head (last ys)) l ys" "clist (list_cut_between h l head (last ys)) head zs"
proof -
  define h' where "h' = list_cut_between h l head (last ys)"
  note C = c [unfolded clist_split]
  have be: "before head ys = last ys" using ne by (simp add: before_def)
  have nf: "nxt h (last ys) = after zs head" "nxt h head = hd ys"
    using clist_ends(1) [OF c] clist_head(1) [OF c] ne be by (simp_all add: after_def)
  have mem: "last ys \<in> set ys" "hd ys \<in> set ys" using ne by simp_all
  have ne': "l \<noteq> last ys" "l \<noteq> hd ys" "l \<noteq> head" "head \<noteq> last ys" "head \<noteq> hd ys" "l \<noteq> after zs head"
    using l C mem after_in [of zs head] by auto
  have f: "nxt h' x = (if x = head then after zs head else if x = last ys then l else if x = l then hd ys else nxt h x)"
    "prv h' x = (if x = after zs head then head else if x = l then last ys else if x = hd ys then l else prv h x)" for x
    using ne' by (simp_all add: h'_def list_cut_between_def Let_def nf)
  note ai = after_in [of zs head]
  have ay: "x \<noteq> after zs head" if "x \<in> set ys" for x using that ai C by auto
  have dy: "distinct ys" using C by simp
  have sy: "successively (edge h) ys" using C successively_sub [of "edge h" "[head]" ys "[]"] by simp
  have sz: "successively (edge h) (zs @ [head])" using C by simp
  have Y: "successively (edge h') ys"
  proof (rule path_frame [OF sy])
    show "nxt h' x = nxt h x" if "x \<in> set (butlast ys)" for x
      using last_notin_butlast [OF dy that] in_set_butlastD [OF that] C l by (auto simp: f)
    show "prv h' x = prv h x" if "x \<in> set (tl ys)" for x
      using hd_notin_tl [OF dy that] list.set_sel(2) [OF ne that] ay C l by (auto simp: f)
  qed
  have Z: "successively (edge h') (zs @ [head])"
  proof (rule path_frame [OF sz])
    show "nxt h' x = nxt h x" if "x \<in> set (butlast (zs @ [head]))" for x
      using that C l mem by (auto simp: f)
    have dz: "distinct (zs @ [head])" using C by auto
    show "prv h' x = prv h x" if "x \<in> set (tl (zs @ [head]))" for x
    proof -
      have "x \<noteq> after zs head" using hd_notin_tl [OF dz that] by (simp add: after_def)
      moreover have "x \<in> set (zs @ [head])" using list.set_sel(2) [OF _ that] by simp
      then have "x \<noteq> l" "x \<noteq> hd ys" using l C mem by auto
      ultimately show ?thesis by (simp add: f)
    qed
  qed
  have "edge h' l (hd ys)" "edge h' (last ys) l" using ne' ay mem by (auto simp: edge_def f)
  then have "clist h' l ([] @ ys @ [])" unfolding clist_cut3 using Y ne dy l by simp
  then show "clist (list_cut_between h l head (last ys)) l ys" by (simp add: h'_def)
  have "edge h' head (after zs head)" by (simp add: edge_def f)
  then have "clist h' head ([] @ zs)" unfolding clist_split using Z C by simp
  then show "clist (list_cut_between h l head (last ys)) head zs" by (simp add: h'_def)
qed

lemma list_cut_position_clist:
  assumes c: "clist h head (ys @ zs)" and l: "clist h l []" "l \<notin> set (head # ys @ zs)"
  shows "clist (list_cut_position h l head (before head ys)) l ys"
    "clist (list_cut_position h l head (before head ys)) head zs"
proof -
  note T = list_tests [OF c]
  have "clist (list_cut_position h l head (before head ys)) l ys \<and>
    clist (list_cut_position h l head (before head ys)) head zs"
  proof (cases "ys = []")
    case True
    note I = INIT_LIST_HEAD_clist [where h = h and l = l]
    have "set (head # zs) \<inter> {l} = {}" using l(2) by auto
    from same_off_clist [OF I(2) this] have "clist (INIT_LIST_HEAD h l) head zs" using c True by simp
    moreover have "clist h head [] \<and> clist h l [] \<and> zs = []" if "list_empty h head"
      using that T(1) True c l(1) by simp
    ultimately show ?thesis using True I(1) by (auto simp: list_cut_position_def)
  next
    case False
    have b: "before head ys = last ys" using False by (simp add: before_def)
    have hd: "head \<noteq> last ys" using c False by (auto simp: clist_def)
    have "nxt h head = last ys" if "list_is_singular h head"
    proof -
      from that T(3) False have "length ys = 1" "zs = []" by (cases ys; simp)+
      then obtain y where "ys = [y]" by (cases ys) auto
      then show ?thesis using clist_head(1) [OF c] by simp
    qed
    then have "list_cut_position h l head (before head ys) = list_cut_between h l head (last ys)"
      using T(1) False hd b by (auto simp: list_cut_position_def)
    then show ?thesis using list_cut_between_clist [OF c False l(2)] by simp
  qed
  then show "clist (list_cut_position h l head (before head ys)) l ys"
    "clist (list_cut_position h l head (before head ys)) head zs" by blast+
qed

subsection \<open>Iteration\<close>

lemma walk_nxt:
  "clist h head (ys @ zs) \<Longrightarrow> length zs < n \<Longrightarrow> walk n (nxt h) head (after zs head) = Some zs"
proof (induction zs arbitrary: ys n)
  case Nil
  then show ?case by (cases n) simp_all
next
  case (Cons z zs)
  then obtain m where n: "n = Suc m" "length zs < m" by (cases n) auto
  have "z \<noteq> head" using Cons.prems(1) by (auto simp: clist_def)
  moreover have "nxt h z = after zs head" using clist_at(2) [OF Cons.prems(1)] .
  moreover have "walk m (nxt h) head (after zs head) = Some zs"
    using Cons.IH [of "ys @ [z]" m] Cons.prems(1) n(2) by simp
  ultimately show ?case by (simp add: n(1))
qed

lemma walk_prv:
  "clist h head (ys @ zs) \<Longrightarrow> length ys < n \<Longrightarrow> walk n (prv h) head (before head ys) = Some (rev ys)"
proof (induction ys arbitrary: zs n rule: rev_induct)
  case Nil
  then show ?case by (cases n) simp_all
next
  case (snoc y ys)
  then obtain m where n: "n = Suc m" "length ys < m" by (cases n) auto
  have "y \<noteq> head" using snoc.prems(1) by (auto simp: clist_def)
  moreover have "prv h y = before head ys" using clist_at(1) [of h head ys y zs] snoc.prems(1) by simp
  moreover have "walk m (prv h) head (before head ys) = Some (rev ys)"
    using snoc.IH [of "y # zs" m] snoc.prems(1) n(2) by simp
  ultimately show ?case by (simp add: n(1))
qed

lemma list_for_each_clist:
  assumes "clist h head xs" "length xs < n"
  shows "list_for_each n h head = Some xs" "list_for_each_prev n h head = Some (rev xs)"
    "list_for_each_entry n h head = Some xs" "list_for_each_entry_reverse n h head = Some (rev xs)"
  using walk_nxt [of h head "[]" xs n] walk_prv [of h head xs "[]" n] clist_head [OF assms(1)] assms
  by (simp_all add: list_for_each_def list_for_each_prev_def list_for_each_entry_def list_for_each_entry_reverse_def)

text \<open>Starting in the middle: after, before or at an entry.\<close>

lemma list_for_each_entry_mid_clist:
  assumes "clist h head (ys @ x # zs)" "length (ys @ x # zs) < n"
  shows "list_for_each_entry_continue n h x head = Some zs"
    "list_for_each_entry_continue_reverse n h x head = Some (rev ys)"
    "list_for_each_entry_from n h x head = Some (x # zs)"
  using walk_nxt [of h head "ys @ [x]" zs n] walk_prv [of h head ys "x # zs" n] walk_nxt [of h head ys "x # zs" n]
    clist_at [OF assms(1)] assms
  by (simp_all add: list_for_each_entry_continue_def list_for_each_entry_continue_reverse_def
      list_for_each_entry_from_def)

lemma list_for_each_entry_prepare_clist:
  assumes "clist h head xs" "length xs < n"
  shows "list_for_each_entry_continue n h (list_prepare_entry None head) head = Some xs"
  using list_for_each_clist(3) [OF assms]
  by (simp add: list_prepare_entry_def list_for_each_entry_continue_def list_for_each_entry_def)

text \<open>The safe iterations may unlink every entry they visit: those that start at an entry keep
  what is before it.\<close>

lemma walk_safe_del:
  "clist h head (ys @ zs) \<Longrightarrow> length zs < k \<Longrightarrow>
   (\<forall>h z ws. clist h head (ys @ z # ws) \<longrightarrow> clist (body h z) head (ys @ ws)) \<Longrightarrow>
   \<exists>h'. walk_safe k nxt body head h (after zs head) (nxt h (after zs head)) = Some h' \<and> clist h' head ys"
proof (induction zs arbitrary: h k)
  case Nil
  then show ?case by (cases k) auto
next
  case (Cons z zs)
  then obtain m where k: "k = Suc m" "length zs < m" by (cases k) auto
  have "z \<noteq> head" using Cons.prems(1) by (auto simp: clist_def)
  moreover have "nxt h z = after zs head" using clist_at(2) [of h head ys z zs] Cons.prems(1) by simp
  moreover have "clist (body h z) head (ys @ zs)" using Cons.prems(1,3) by blast
  ultimately show ?case using Cons.IH [of "body h z" m] Cons.prems(3) k by (simp add: Let_def)
qed

lemma walk_safe_del_prv:
  "clist h head ys \<Longrightarrow> length ys < k \<Longrightarrow>
   (\<forall>h z ws. clist h head (ws @ [z]) \<longrightarrow> clist (body h z) head ws) \<Longrightarrow>
   \<exists>h'. walk_safe k prv body head h (before head ys) (prv h (before head ys)) = Some h' \<and> clist h' head []"
proof (induction ys arbitrary: h k rule: rev_induct)
  case Nil
  then show ?case by (cases k) auto
next
  case (snoc z ys)
  then obtain m where k: "k = Suc m" "length ys < m" by (cases k) auto
  have "z \<noteq> head" using snoc.prems(1) by (auto simp: clist_def)
  moreover have "prv h z = before head ys" using clist_at(1) [of h head ys z "[]"] snoc.prems(1) by simp
  moreover have "clist (body h z) head ys" using snoc.prems(1,3) by blast
  ultimately show ?case using snoc.IH [of "body h z" m] snoc.prems(3) k by (simp add: Let_def)
qed

lemma list_for_each_safe_del:
  assumes "clist h head xs" "length xs < k"
    and "\<And>h z ws. clist h head (z # ws) \<Longrightarrow> clist (body h z) head ws"
  shows "\<exists>h'. list_for_each_safe k body h head = Some h' \<and> clist h' head []"
    "\<exists>h'. list_for_each_entry_safe k body h head = Some h' \<and> clist h' head []"
  using walk_safe_del [of h head "[]" xs k body] clist_head(1) [OF assms(1)] assms
  by (auto simp: list_for_each_safe_def list_for_each_entry_safe_def)

lemma list_for_each_safe_mid_del:
  assumes "clist h head (ys @ x # zs)" "length (ys @ x # zs) < k"
    and "\<And>h ys z ws. clist h head (ys @ z # ws) \<Longrightarrow> clist (body h z) head (ys @ ws)"
  shows "\<exists>h'. list_for_each_entry_safe_from k body h x head = Some h' \<and> clist h' head ys"
    "\<exists>h'. list_for_each_entry_safe_continue k body h x head = Some h' \<and> clist h' head (ys @ [x])"
proof -
  have "nxt h x = after zs head" using clist_at(2) [OF assms(1)] .
  then show "\<exists>h'. list_for_each_entry_safe_from k body h x head = Some h' \<and> clist h' head ys"
    "\<exists>h'. list_for_each_entry_safe_continue k body h x head = Some h' \<and> clist h' head (ys @ [x])"
    using walk_safe_del [of h head ys "x # zs" k body] walk_safe_del [of h head "ys @ [x]" zs k body]
      assms(1,2) assms(3) [of _ ys] assms(3) [of _ "ys @ [x]"]
    by (simp_all add: Let_def list_for_each_entry_safe_from_def list_for_each_entry_safe_continue_def)
qed

lemma list_for_each_safe_reverse_del:
  assumes "clist h head xs" "length xs < k"
    and "\<And>h z ws. clist h head (ws @ [z]) \<Longrightarrow> clist (body h z) head ws"
  shows "\<exists>h'. list_for_each_prev_safe k body h head = Some h' \<and> clist h' head []"
    "\<exists>h'. list_for_each_entry_safe_reverse k body h head = Some h' \<and> clist h' head []"
  using walk_safe_del_prv [of h head xs k body] clist_head(2) [OF assms(1)] assms
  by (auto simp: list_for_each_prev_safe_def list_for_each_entry_safe_reverse_def)

subsection \<open>The interface of lists\<close>

text \<open>What the users of lists rely on: a queue with insertion at both ends and removal.\<close>

locale list_api =
  fixes rep :: "'h \<Rightarrow> 'a \<Rightarrow> 'a list \<Rightarrow> bool"
    and add_first :: "'h \<Rightarrow> 'a \<Rightarrow> 'a \<Rightarrow> 'h"
    and add_last :: "'h \<Rightarrow> 'a \<Rightarrow> 'a \<Rightarrow> 'h"
    and remove :: "'h \<Rightarrow> 'a \<Rightarrow> 'h"
    and is_empty :: "'h \<Rightarrow> 'a \<Rightarrow> bool"
    and front :: "'h \<Rightarrow> 'a \<Rightarrow> 'a"
  assumes rep_distinct: "rep h r xs \<Longrightarrow> distinct (r # xs)"
    and add_first_rep: "rep h r xs \<Longrightarrow> x \<notin> set (r # xs) \<Longrightarrow> rep (add_first h x r) r (x # xs)"
    and add_last_rep: "rep h r xs \<Longrightarrow> x \<notin> set (r # xs) \<Longrightarrow> rep (add_last h x r) r (xs @ [x])"
    and remove_rep: "rep h r (ys @ x # zs) \<Longrightarrow> rep (remove h x) r (ys @ zs)"
    and is_empty_rep: "rep h r xs \<Longrightarrow> is_empty h r \<longleftrightarrow> xs = []"
    and front_rep: "rep h r (x # xs) \<Longrightarrow> front h r = x"

text \<open>Taking the first entry, as the allocators and the scheduler do it.\<close>

definition take_first :: "('h \<Rightarrow> 'a \<Rightarrow> 'h) \<Rightarrow> ('h \<Rightarrow> 'a \<Rightarrow> bool) \<Rightarrow> ('h \<Rightarrow> 'a \<Rightarrow> 'a) \<Rightarrow> 'h \<Rightarrow> 'a \<Rightarrow> 'a option \<times> 'h" where
  "take_first remove is_empty front h r =
     (if is_empty h r then (None, h) else let x = front h r in (Some x, remove h x))"

fun take_all :: "('h \<Rightarrow> 'a \<Rightarrow> 'h) \<Rightarrow> ('h \<Rightarrow> 'a \<Rightarrow> bool) \<Rightarrow> ('h \<Rightarrow> 'a \<Rightarrow> 'a) \<Rightarrow> nat \<Rightarrow> 'h \<Rightarrow> 'a \<Rightarrow> 'a list" where
  "take_all remove is_empty front 0 h r = []"
| "take_all remove is_empty front (Suc n) h r =
     (case take_first remove is_empty front h r of
        (None, h) \<Rightarrow> [] | (Some x, h) \<Rightarrow> x # take_all remove is_empty front n h r)"

context list_api
begin

lemma take_first_rep:
  assumes "rep h r xs"
  shows "case xs of [] \<Rightarrow> take_first remove is_empty front h r = (None, h)
    | x # ys \<Rightarrow> \<exists>h'. take_first remove is_empty front h r = (Some x, h') \<and> rep h' r ys"
  using assms is_empty_rep [OF assms] front_rep [of h r] remove_rep [of h r "[]"]
  by (auto simp: take_first_def Let_def split: list.splits)

lemma add_all_rep:
  "rep h r xs \<Longrightarrow> distinct (r # xs @ ys) \<Longrightarrow> rep (fold (\<lambda>x h. add_last h x r) ys h) r (xs @ ys)"
proof (induction ys arbitrary: h xs)
  case (Cons y ys)
  from add_last_rep [OF Cons.prems(1), of y] Cons.prems(2)
  show ?case using Cons.IH [of "add_last h y r" "xs @ [y]"] by auto
qed simp

lemma take_all_rep: "rep h r xs \<Longrightarrow> length xs \<le> n \<Longrightarrow> take_all remove is_empty front n h r = xs"
proof (induction n arbitrary: h xs)
  case 0
  then show ?case by simp
next
  case (Suc n)
  from take_first_rep [OF Suc.prems(1)] show ?case
    using Suc by (cases xs) auto
qed

text \<open>First in, first out.\<close>

lemma fifo:
  assumes "rep h r []" "distinct (r # ys)" "length ys \<le> n"
  shows "take_all remove is_empty front n (fold (\<lambda>x h. add_last h x r) ys h) r = ys"
  using take_all_rep [OF add_all_rep [OF assms(1)]] assms(2,3) by simp

end

interpretation klist: list_api clist list_add list_add_tail list_del_init list_empty nxt
proof
  fix h :: "'a lheap" and r x :: 'a and xs ys zs :: "'a list"
  show "clist h r xs \<Longrightarrow> distinct (r # xs)" by (simp add: clist_def)
  show "clist h r xs \<Longrightarrow> x \<notin> set (r # xs) \<Longrightarrow> clist (list_add h x r) r (x # xs)"
    by (rule list_add_clist(1))
  show "clist h r xs \<Longrightarrow> x \<notin> set (r # xs) \<Longrightarrow> clist (list_add_tail h x r) r (xs @ [x])"
    by (rule list_add_tail_clist(1))
  show "clist h r (ys @ x # zs) \<Longrightarrow> clist (list_del_init h x) r (ys @ zs)"
    by (rule list_del_init_clist(1))
  show "clist h r xs \<Longrightarrow> list_empty h r \<longleftrightarrow> xs = []" by (rule list_tests(1))
  show "clist h r (x # xs) \<Longrightarrow> nxt h r = x" using clist_head(1) [of h r "x # xs"] by simp
qed

end
