(* ===== verification/Hlist.thy ===== *)
theory Hlist
  imports Prelude
begin

text \<open>
  include/list.h, the lists with a single-pointer head.  A node's \<open>pprev\<close> is the address of the
  pointer that points to it: the \<open>first\<close> field of a head or the \<open>next\<close> field of a node
  (\<open>hloc\<close>).  \<open>hlist h a xs\<close> says that head \<open>a\<close> leads through exactly the nodes \<open>xs\<close> with every
  \<open>pprev\<close> right; each operation is shown to be the list operation it stands for and to leave
  the lists of the other heads alone.  A dereference of NULL is \<open>None\<close>.
\<close>

datatype ('n, 'a) hloc = First 'a | Next 'n

record ('n, 'a) hheap =
  hfirst :: "'a \<Rightarrow> 'n option"
  hnext :: "'n \<Rightarrow> 'n option"
  hpprev :: "'n \<Rightarrow> ('n, 'a) hloc option"

fun hload :: "('n, 'a) hheap \<Rightarrow> ('n, 'a) hloc \<Rightarrow> 'n option" where
  "hload h (First a) = hfirst h a"
| "hload h (Next n) = hnext h n"

fun hstore :: "('n, 'a) hheap \<Rightarrow> ('n, 'a) hloc \<Rightarrow> 'n option \<Rightarrow> ('n, 'a) hheap" where
  "hstore h (First a) v = h\<lparr>hfirst := (hfirst h)(a := v)\<rparr>"
| "hstore h (Next n) v = h\<lparr>hnext := (hnext h)(n := v)\<rparr>"

definition set_pprev :: "('n, 'a) hheap \<Rightarrow> 'n \<Rightarrow> ('n, 'a) hloc option \<Rightarrow> ('n, 'a) hheap" where
  "set_pprev h n p = h\<lparr>hpprev := (hpprev h)(n := p)\<rparr>"

definition INIT_HLIST_HEAD :: "('n, 'a) hheap \<Rightarrow> 'a \<Rightarrow> ('n, 'a) hheap" where
  "INIT_HLIST_HEAD h a = hstore h (First a) None"

definition INIT_HLIST_NODE :: "('n, 'a) hheap \<Rightarrow> 'n \<Rightarrow> ('n, 'a) hheap" where
  "INIT_HLIST_NODE h n = set_pprev (hstore h (Next n) None) n None"

definition hlist_unhashed :: "('n, 'a) hheap \<Rightarrow> 'n \<Rightarrow> bool" where
  "hlist_unhashed h n \<longleftrightarrow> hpprev h n = None"

definition hlist_empty :: "('n, 'a) hheap \<Rightarrow> 'a \<Rightarrow> bool" where
  "hlist_empty h a \<longleftrightarrow> hfirst h a = None"

definition hlist_del :: "('n, 'a) hheap \<Rightarrow> 'n \<Rightarrow> ('n, 'a) hheap option" where
  "hlist_del h n =
     do { pprev \<leftarrow> hpprev h n;
          let ne = hnext h n;
          let h = hstore h pprev ne;
          Some (case ne of None \<Rightarrow> h | Some x \<Rightarrow> set_pprev h x (Some pprev)) }"

definition hlist_del_init :: "('n, 'a) hheap \<Rightarrow> 'n \<Rightarrow> ('n, 'a) hheap option" where
  "hlist_del_init h n =
     (if \<not> hlist_unhashed h n then do { h \<leftarrow> hlist_del h n; Some (INIT_HLIST_NODE h n) } else Some h)"

definition hlist_add_head :: "('n, 'a) hheap \<Rightarrow> 'n \<Rightarrow> 'a \<Rightarrow> ('n, 'a) hheap" where
  "hlist_add_head h n a =
     (let first = hfirst h a;
          h = hstore h (Next n) first;
          h = (case first of None \<Rightarrow> h | Some x \<Rightarrow> set_pprev h x (Some (Next n)));
          h = hstore h (First a) (Some n)
      in set_pprev h n (Some (First a)))"

definition hlist_add_before :: "('n, 'a) hheap \<Rightarrow> 'n \<Rightarrow> 'n \<Rightarrow> ('n, 'a) hheap option" where
  "hlist_add_before h n ne =
     do { let h = set_pprev h n (hpprev h ne);
          let h = hstore h (Next n) (Some ne);
          let h = set_pprev h ne (Some (Next n));
          p \<leftarrow> hpprev h n;
          Some (hstore h p (Some n)) }"

definition hlist_add_after :: "('n, 'a) hheap \<Rightarrow> 'n \<Rightarrow> 'n \<Rightarrow> ('n, 'a) hheap" where
  "hlist_add_after h n ne =
     (let h = hstore h (Next ne) (hnext h n);
          h = hstore h (Next n) (Some ne);
          h = set_pprev h ne (Some (Next n))
      in case hnext h ne of None \<Rightarrow> h | Some x \<Rightarrow> set_pprev h x (Some (Next ne)))"

definition hlist_move_list :: "('n, 'a) hheap \<Rightarrow> 'a \<Rightarrow> 'a \<Rightarrow> ('n, 'a) hheap" where
  "hlist_move_list h old new =
     (let h = hstore h (First new) (hfirst h old);
          h = (case hfirst h new of None \<Rightarrow> h | Some x \<Rightarrow> set_pprev h x (Some (First new)))
      in hstore h (First old) None)"

text \<open>The nodes an iteration visits, with fuel as for the two-pointer lists.\<close>

fun hwalk :: "nat \<Rightarrow> ('n, 'a) hheap \<Rightarrow> 'n option \<Rightarrow> 'n list option" where
  "hwalk 0 h pos = None"
| "hwalk (Suc k) h pos =
     (case pos of None \<Rightarrow> Some [] | Some p \<Rightarrow> do { ps \<leftarrow> hwalk k h (hnext h p); Some (p # ps) })"

definition hlist_for_each :: "nat \<Rightarrow> ('n, 'a) hheap \<Rightarrow> 'a \<Rightarrow> 'n list option" where
  "hlist_for_each k h a = hwalk k h (hfirst h a)"

definition hlist_for_each_entry_continue :: "nat \<Rightarrow> ('n, 'a) hheap \<Rightarrow> 'n \<Rightarrow> 'n list option" where
  "hlist_for_each_entry_continue k h p = hwalk k h (hnext h p)"

definition hlist_for_each_entry_from :: "nat \<Rightarrow> ('n, 'a) hheap \<Rightarrow> 'n option \<Rightarrow> 'n list option" where
  "hlist_for_each_entry_from k h pos = hwalk k h pos"

text \<open>The safe iteration: the successor is read before the body runs.\<close>

fun hwalk_safe :: "nat \<Rightarrow> (('n, 'a) hheap \<Rightarrow> 'n \<Rightarrow> ('n, 'a) hheap option) \<Rightarrow> ('n, 'a) hheap \<Rightarrow> 'n option \<Rightarrow> ('n, 'a) hheap option" where
  "hwalk_safe 0 body h pos = None"
| "hwalk_safe (Suc k) body h pos =
     (case pos of None \<Rightarrow> Some h
      | Some p \<Rightarrow> do { let n = hnext h p; h \<leftarrow> body h p; hwalk_safe k body h n })"

definition hlist_for_each_safe ::
  "nat \<Rightarrow> (('n, 'a) hheap \<Rightarrow> 'n \<Rightarrow> ('n, 'a) hheap option) \<Rightarrow> ('n, 'a) hheap \<Rightarrow> 'a \<Rightarrow> ('n, 'a) hheap option" where
  "hlist_for_each_safe k body h a = hwalk_safe k body h (hfirst h a)"

subsection \<open>Well-formed lists\<close>

fun hpath :: "('n, 'a) hheap \<Rightarrow> ('n, 'a) hloc \<Rightarrow> 'n list \<Rightarrow> bool" where
  "hpath h l [] \<longleftrightarrow> True"
| "hpath h l (x # xs) \<longleftrightarrow> hload h l = Some x \<and> hpprev h x = Some l \<and> hpath h (Next x) xs"

fun hend :: "('n, 'a) hloc \<Rightarrow> 'n list \<Rightarrow> ('n, 'a) hloc" where
  "hend l [] = l"
| "hend l (x # xs) = hend (Next x) xs"

definition hlist :: "('n, 'a) hheap \<Rightarrow> 'a \<Rightarrow> 'n list \<Rightarrow> bool" where
  "hlist h a xs \<longleftrightarrow> distinct xs \<and> hpath h (First a) xs \<and> hload h (hend (First a) xs) = None"

lemma hload_hstore [simp]: "hload (hstore h l v) m = (if m = l then v else hload h m)"
  by (cases l; cases m; simp)

lemma hload_set_pprev [simp]: "hload (set_pprev h n p) m = hload h m"
  by (cases m) (simp_all add: set_pprev_def)

lemma hpprev_hstore [simp]: "hpprev (hstore h l v) n = hpprev h n"
  by (cases l) simp_all

lemma hpprev_set_pprev [simp]: "hpprev (set_pprev h n p) m = (if m = n then p else hpprev h m)"
  by (simp add: set_pprev_def)

lemma hnext_hload: "hnext h n = hload h (Next n)"
  by simp

lemma hfirst_hload: "hfirst h a = hload h (First a)"
  by simp

lemmas hload_fold = hnext_hload hfirst_hload

declare hload.simps [simp del] hstore.simps [simp del]

lemma hend_append [simp]: "hend l (xs @ ys) = hend (hend l xs) ys"
  by (induction l xs rule: hend.induct) simp_all

lemma hend_snoc: "xs \<noteq> [] \<Longrightarrow> hend l xs = Next (last xs)"
  by (induction l xs rule: hend.induct) auto

lemma hend_cases: "hend l xs = l \<and> xs = [] \<or> (\<exists>x \<in> set xs. hend l xs = Next x \<and> x = last xs)"
  using hend_snoc [of xs l] by (cases "xs = []") auto

lemma hend_Next_neq_First [simp]: "hend (Next x) xs \<noteq> First a" "First a \<noteq> hend (Next x) xs"
  using hend_cases [of "Next x" xs] by (metis hloc.distinct(1))+

lemma hend_Next: "hend l xs = Next n \<Longrightarrow> l = Next n \<or> n \<in> set xs"
  using hend_cases [of l xs] by (metis hloc.inject(2))

lemma hend_disjoint: "hend (Next z) zs = hend (First a) ys \<Longrightarrow> z \<in> set ys \<or> set zs \<inter> set ys \<noteq> {}"
  using hend_cases [of "Next z" zs] hend_cases [of "First a" ys]
  by (metis disjoint_iff hend_Next_neq_First(1) hloc.inject(2))

lemma hpath_append [simp]: "hpath h l (xs @ ys) \<longleftrightarrow> hpath h l xs \<and> hpath h (hend l xs) ys"
  by (induction h l xs rule: hpath.induct) auto

text \<open>Outside the locations of a set of pointers nothing changes.\<close>

lemma hpath_frame:
  assumes "hpath h l xs"
    and "xs \<noteq> [] \<Longrightarrow> hload h' l = hload h l"
    and "\<And>x. x \<in> set (butlast xs) \<Longrightarrow> hload h' (Next x) = hload h (Next x)"
    and "\<And>x. x \<in> set xs \<Longrightarrow> hpprev h' x = hpprev h x"
  shows "hpath h' l xs"
  using assms
proof (induction xs arbitrary: l)
  case (Cons x xs)
  have "hpath h' (Next x) xs"
  proof (rule Cons.IH)
    show "hpath h (Next x) xs" using Cons.prems(1) by simp
    show "hload h' (Next x) = hload h (Next x)" if "xs \<noteq> []" using Cons.prems(3) [of x] that by simp
    show "hload h' (Next y) = hload h (Next y)" if "y \<in> set (butlast xs)" for y
      using Cons.prems(3) [of y] that by (cases "xs = []") auto
    show "hpprev h' y = hpprev h y" if "y \<in> set xs" for y using Cons.prems(4) [of y] that by simp
  qed
  then show ?case using Cons.prems by simp
qed simp

lemma hlist_head_iff: "hlist h a xs \<Longrightarrow> hlist_empty h a \<longleftrightarrow> xs = []"
  by (cases xs) (auto simp: hlist_def hlist_empty_def hload_fold)

lemma hlist_unhashed_iff: "hlist h a xs \<Longrightarrow> x \<in> set xs \<Longrightarrow> \<not> hlist_unhashed h x"
  by (auto simp: hlist_def hlist_unhashed_def dest!: split_list)

lemma INIT_HLIST_HEAD_hlist: "hlist (INIT_HLIST_HEAD h a) a []"
  by (simp add: hlist_def INIT_HLIST_HEAD_def hload_fold)

text \<open>A list is determined by its head, and two heads share no node.\<close>

lemma hlist_other:
  assumes "hlist h a xs" "hlist h b ys" "a \<noteq> b"
  shows "set xs \<inter> set ys = {}"
proof -
  have pre: "\<forall>x \<in> set ps. x \<notin> set ys" if "xs = ps @ qs" for ps qs
    using that
  proof (induction ps arbitrary: qs rule: rev_induct)
    case (snoc p ps)
    then have IH: "\<forall>x \<in> set ps. x \<notin> set ys" by simp
    have "hpprev h p = Some (hend (First a) ps)" using assms(1) snoc.prems by (simp add: hlist_def)
    moreover have "p \<notin> set ys"
    proof
      assume "p \<in> set ys"
      then obtain us vs where ys: "ys = us @ p # vs" by (auto dest: split_list)
      then have "hpprev h p = Some (hend (First b) us)" using assms(2) by (simp add: hlist_def)
      with calculation have "hend (First a) ps = hend (First b) us" by simp
      then show False using hend_cases [of "First a" ps] hend_cases [of "First b" us] assms(3) IH ys by auto
    qed
    ultimately show ?case using IH by simp
  qed simp
  show ?thesis using pre [of xs "[]"] by auto
qed

subsection \<open>The operations\<close>

lemma hlist_del_hlist:
  assumes "hlist h a (ys @ x # zs)"
  shows "\<exists>h'. hlist_del h x = Some h' \<and> hlist h' a (ys @ zs) \<and>
    (\<forall>b ws. b \<noteq> a \<and> hlist h b ws \<longrightarrow> hlist h' b ws)"
proof -
  let ?p = "hend (First a) ys"
  define h' where "h' = (case hnext h x of None \<Rightarrow> hstore h ?p (hnext h x)
    | Some y \<Rightarrow> set_pprev (hstore h ?p (hnext h x)) y (Some ?p))"
  have d: "distinct (ys @ x # zs)" and py: "hpath h (First a) ys" and x: "hpprev h x = Some ?p"
    and pz: "hpath h (Next x) zs" and e: "hload h (hend (Next x) zs) = None"
    using assms by (simp_all add: hlist_def)
  have del: "hlist_del h x = Some h'" using x by (simp add: hlist_del_def h'_def Let_def)
  have pp: "?p = First a \<or> (\<exists>y \<in> set ys. ?p = Next y \<and> y = last ys \<and> ys \<noteq> [])"
    using hend_cases [of "First a" ys] by auto
  have nx: "hnext h x = (case zs of [] \<Rightarrow> None | z # _ \<Rightarrow> Some z)" using pz e by (cases zs) (auto simp: hload_fold)
  have ld: "hload h' l = (if l = ?p then hnext h x else hload h l)" for l
    by (simp add: h'_def split: option.splits)
  have pv: "hpprev h' y = (if hnext h x = Some y then Some ?p else hpprev h y)" for y
    by (auto simp: h'_def split: option.splits)
  have lastbut: "y \<notin> set (butlast ys)" if "y = last ys" "ys \<noteq> []" for y
    using d that by (induction ys rule: rev_induct) auto
  have 1: "hpath h' (First a) ys"
  proof (rule hpath_frame [OF py])
    show "hload h' (First a) = hload h (First a)" if "ys \<noteq> []" using ld pp hend_snoc [OF that, of "First a"] by auto
    show "hload h' (Next y) = hload h (Next y)" if "y \<in> set (butlast ys)" for y
      using ld pp lastbut that by auto
    show "hpprev h' y = hpprev h y" if "y \<in> set ys" for y
      using pv nx d that by (auto split: list.splits)
  qed
  have 2: "hpath h' ?p zs \<and> hload h' (hend ?p zs) = None"
  proof (cases zs)
    case Nil
    then show ?thesis using ld nx by simp
  next
    case (Cons z zs')
    have "hpath h' (Next z) zs'"
    proof (rule hpath_frame)
      show "hpath h (Next z) zs'" using pz Cons by simp
      show "hload h' (Next z) = hload h (Next z)" using ld pp d Cons by auto
      show "hload h' (Next y) = hload h (Next y)" if "y \<in> set (butlast zs')" for y
        using ld pp d Cons in_set_butlastD [OF that] by auto
      show "hpprev h' y = hpprev h y" if "y \<in> set zs'" for y using pv nx d Cons that by auto
    qed
    moreover have "hend (Next z) zs' \<noteq> ?p" using hend_disjoint [of z zs' a ys] d Cons by auto
    ultimately show ?thesis using ld [of ?p] ld [of "hend (Next z) zs'"] pv [of z] nx Cons e by simp
  qed
  have "hlist h' b ws" if b: "b \<noteq> a" "hlist h b ws" for b ws
  proof -
    have dj: "set (ys @ x # zs) \<inter> set ws = {}" using hlist_other [OF assms b(2)] b(1) by simp
    have off: "hload h' (First b) = hload h (First b)"
      "y \<in> set ws \<Longrightarrow> hload h' (Next y) = hload h (Next y)"
      "y \<in> set ws \<Longrightarrow> hpprev h' y = hpprev h y" for y
      using ld pv pp dj b(1) nx by (auto split: list.splits)
    have "hpath h' (First b) ws"
      by (rule hpath_frame [where h = h]) (use b off in \<open>auto simp: hlist_def dest: in_set_butlastD\<close>)
    then show ?thesis using b(2) off hend_cases [of "First b" ws] by (auto simp: hlist_def)
  qed
  then show ?thesis using del 1 2 d by (auto simp: hlist_def)
qed

lemma hlist_del_init_hlist:
  assumes "hlist h a (ys @ x # zs)"
  shows "\<exists>h'. hlist_del_init h x = Some h' \<and> hlist h' a (ys @ zs) \<and> hlist_unhashed h' x \<and>
    (\<forall>b ws. b \<noteq> a \<and> hlist h b ws \<longrightarrow> hlist h' b ws)"
proof -
  obtain h' where h': "hlist_del h x = Some h'" "hlist h' a (ys @ zs)"
    "\<forall>b ws. b \<noteq> a \<and> hlist h b ws \<longrightarrow> hlist h' b ws"
    using hlist_del_hlist [OF assms] by blast
  have frame: "hlist (INIT_HLIST_NODE h' x) b ws" if "hlist h' b ws" "x \<notin> set ws" for b ws
  proof -
    have "hpath (INIT_HLIST_NODE h' x) (First b) ws"
      by (rule hpath_frame [where h = h'])
        (use that in \<open>auto simp: hlist_def INIT_HLIST_NODE_def dest: in_set_butlastD\<close>)
    moreover have "hend (First b) ws \<noteq> Next x" using hend_cases [of "First b" ws] that(2) by auto
    ultimately show ?thesis using that by (auto simp: hlist_def INIT_HLIST_NODE_def)
  qed
  have "x \<notin> set (ys @ zs)" using assms by (simp add: hlist_def)
  moreover have "x \<notin> set ws" if "b \<noteq> a" "hlist h b ws" for b ws
    using hlist_other [OF assms that(2)] that(1) by auto
  moreover have "\<not> hlist_unhashed h x" using hlist_unhashed_iff [OF assms] by simp
  ultimately show ?thesis using h' frame
    by (auto simp: hlist_del_init_def hlist_unhashed_def INIT_HLIST_NODE_def)
qed

lemma hlist_add_head_hlist:
  assumes "hlist h a xs" "x \<notin> set xs"
  shows "hlist (hlist_add_head h x a) a (x # xs)"
    "b \<noteq> a \<Longrightarrow> hlist h b ws \<Longrightarrow> x \<notin> set ws \<Longrightarrow> hlist (hlist_add_head h x a) b ws"
proof -
  let ?h = "hlist_add_head h x a"
  have ld: "hload ?h l = (if l = First a then Some x else if l = Next x then hfirst h a else hload h l)" for l
    by (simp add: hlist_add_head_def Let_def split: option.splits)
  have pv: "hpprev ?h y = (if y = x then Some (First a) else if hfirst h a = Some y then Some (Next x)
    else hpprev h y)" for y
    by (auto simp: hlist_add_head_def Let_def split: option.splits)
  have f: "hfirst h a = (case xs of [] \<Rightarrow> None | y # _ \<Rightarrow> Some y)"
    using assms(1) by (cases xs) (auto simp: hlist_def hload_fold)
  have "hpath ?h (Next x) xs \<and> hload ?h (hend (Next x) xs) = None"
  proof (cases xs)
    case Nil
    then show ?thesis using ld f by simp
  next
    case (Cons y ys)
    have "hpath ?h (Next y) ys"
      by (rule hpath_frame [where h = h])
        (use assms ld pv f Cons in \<open>auto simp: hlist_def dest: in_set_butlastD\<close>)
    moreover have "hend (Next y) ys \<noteq> Next x \<and> hend (Next y) ys \<noteq> First a"
      using hend_Next [of "Next y" ys x] assms(2) Cons by auto
    ultimately show ?thesis
      using assms ld [of "Next x"] ld [of "hend (Next y) ys"] pv f Cons by (auto simp: hlist_def)
  qed
  then show "hlist ?h a (x # xs)" using assms ld pv by (simp add: hlist_def)
  show "hlist ?h b ws" if b: "b \<noteq> a" "hlist h b ws" "x \<notin> set ws"
  proof -
    have dj: "set xs \<inter> set ws = {}" using hlist_other [OF assms(1) b(2)] b(1) by simp
    have "hpath ?h (First b) ws"
      by (rule hpath_frame [where h = h])
        (use b ld pv f dj in \<open>auto simp: hlist_def dest: in_set_butlastD split: list.splits\<close>)
    moreover have "hend (First b) ws \<noteq> Next x \<and> hend (First b) ws \<noteq> First a"
      using hend_Next [of "First b" ws x] hend_cases [of "First b" ws] b by auto
    ultimately show ?thesis using b(2) ld [of "hend (First b) ws"] by (simp add: hlist_def)
  qed
qed

lemma hlist_add_after_hlist:
  assumes "hlist h a (ys @ x # zs)" "n \<notin> set (ys @ x # zs)"
  shows "hlist (hlist_add_after h x n) a (ys @ x # n # zs)"
proof -
  let ?h = "hlist_add_after h x n"
  have d: "distinct (ys @ x # zs)" and py: "hpath h (First a) (ys @ [x])"
    and pz: "hpath h (Next x) zs" and e: "hload h (hend (Next x) zs) = None"
    using assms by (simp_all add: hlist_def)
  have nx: "hnext h x = (case zs of [] \<Rightarrow> None | z # _ \<Rightarrow> Some z)"
    using pz e by (cases zs) (auto simp: hload_fold)
  have ne: "n \<noteq> x" using assms(2) by auto
  have ld: "hload ?h l = (if l = Next x then Some n else if l = Next n then hnext h x else hload h l)" for l
    using ne by (simp add: hlist_add_after_def Let_def hnext_hload split: option.splits)
  have pv: "hpprev ?h y = (if hnext h x = Some y then Some (Next n) else if y = n then Some (Next x)
    else hpprev h y)" for y
    using ne by (auto simp: hlist_add_after_def Let_def hnext_hload split: option.splits)
  have 1: "hpath ?h (First a) (ys @ [x])"
    by (rule hpath_frame [OF py]) (use ld pv nx d assms(2) in \<open>auto split: list.splits\<close>)
  have "hpath ?h (Next n) zs \<and> hload ?h (hend (Next n) zs) = None"
  proof (cases zs)
    case Nil
    then show ?thesis using ld nx ne by simp
  next
    case (Cons z zs')
    have "hpath ?h (Next z) zs'"
      by (rule hpath_frame [where h = h])
        (use pz ld pv nx d assms(2) Cons in \<open>auto dest: in_set_butlastD\<close>)
    moreover have "hend (Next z) zs' \<noteq> Next x \<and> hend (Next z) zs' \<noteq> Next n"
      using hend_Next [of "Next z" zs' x] hend_Next [of "Next z" zs' n] d assms(2) Cons by auto
    ultimately show ?thesis
      using e ld [of "Next n"] ld [of "hend (Next z) zs'"] pv nx ne Cons by auto
  qed
  moreover have "hpprev ?h n = Some (Next x)" using pv nx assms(2) by (auto split: list.splits)
  ultimately show ?thesis using 1 d assms(2) ld [of "Next x"] by (auto simp: hlist_def)
qed

lemma hlist_add_before_hlist:
  assumes "hlist h a (ys @ x # zs)" "n \<notin> set (ys @ x # zs)"
  shows "\<exists>h'. hlist_add_before h n x = Some h' \<and> hlist h' a (ys @ n # x # zs)"
proof -
  let ?p = "hend (First a) ys"
  define h' where "h' = hstore (set_pprev (hstore (set_pprev h n (Some ?p)) (Next n) (Some x)) x
    (Some (Next n))) ?p (Some n)"
  have d: "distinct (ys @ x # zs)" and py: "hpath h (First a) ys" and x: "hpprev h x = Some ?p"
    and pz: "hpath h (Next x) zs" and e: "hload h (hend (Next x) zs) = None"
    using assms by (simp_all add: hlist_def)
  have ne: "n \<noteq> x" "x \<noteq> n" using assms(2) by auto
  have add: "hlist_add_before h n x = Some h'" using x ne by (simp add: hlist_add_before_def h'_def Let_def)
  have pp: "?p = First a \<or> (\<exists>y \<in> set ys. ?p = Next y \<and> y = last ys \<and> ys \<noteq> [])"
    using hend_cases [of "First a" ys] by auto
  have pn: "?p \<noteq> Next n" "?p \<noteq> Next x" using pp assms(2) d by auto
  have ld: "hload h' l = (if l = ?p then Some n else if l = Next n then Some x else hload h l)" for l
    by (simp add: h'_def)
  have pv: "hpprev h' y = (if y = x then Some (Next n) else if y = n then Some ?p else hpprev h y)" for y
    by (simp add: h'_def)
  have lastbut: "y \<notin> set (butlast ys)" if "y = last ys" "ys \<noteq> []" for y
    using d that by (induction ys rule: rev_induct) auto
  have 1: "hpath h' (First a) ys"
  proof (rule hpath_frame [OF py])
    show "hload h' (First a) = hload h (First a)" if "ys \<noteq> []" using ld pp hend_snoc [OF that, of "First a"] by auto
    show "hload h' (Next y) = hload h (Next y)" if "y \<in> set (butlast ys)" for y
      using ld pp lastbut that assms(2) in_set_butlastD [OF that] by auto
    show "hpprev h' y = hpprev h y" if "y \<in> set ys" for y using pv d assms(2) that by auto
  qed
  have 2: "hpath h' (Next x) zs"
  proof (rule hpath_frame [OF pz])
    show "hload h' (Next x) = hload h (Next x)" using ld [of "Next x"] pn ne by simp
    show "hload h' (Next y) = hload h (Next y)" if "y \<in> set (butlast zs)" for y
      using ld [of "Next y"] pp d assms(2) in_set_butlastD [OF that] by auto
    show "hpprev h' y = hpprev h y" if "y \<in> set zs" for y using pv d assms(2) that by auto
  qed
  have "hend (Next x) zs \<noteq> ?p \<and> hend (Next x) zs \<noteq> Next n"
    using hend_disjoint [of x zs a ys] hend_Next [of "Next x" zs n] d assms(2) by auto
  then have 3: "hload h' (hend (Next x) zs) = None" using ld [of "hend (Next x) zs"] e by auto
  show ?thesis using add 1 2 3 d assms(2) ne pn ld [of ?p] ld [of "Next n"] pv by (auto simp: hlist_def)
qed

lemma hlist_move_list_hlist:
  assumes "hlist h old xs" "hlist h new []" "old \<noteq> new"
  shows "hlist (hlist_move_list h old new) old []" "hlist (hlist_move_list h old new) new xs"
proof -
  let ?h = "hlist_move_list h old new"
  have ld: "hload ?h l = (if l = First old then None else if l = First new then hfirst h old else hload h l)" for l
    using assms(3) by (simp add: hlist_move_list_def Let_def hfirst_hload split: option.splits)
  have pv: "hpprev ?h y = (if hfirst h old = Some y then Some (First new) else hpprev h y)" for y
    using assms(3) by (auto simp: hlist_move_list_def Let_def hfirst_hload split: option.splits)
  show "hlist ?h old []" using ld by (simp add: hlist_def)
  have f: "hfirst h old = (case xs of [] \<Rightarrow> None | y # _ \<Rightarrow> Some y)"
    using assms(1) by (cases xs) (auto simp: hlist_def hload_fold)
  show "hlist ?h new xs"
  proof (cases xs)
    case Nil
    then show ?thesis using ld f assms(3) by (simp add: hlist_def)
  next
    case (Cons y ys)
    have "hpath ?h (Next y) ys"
      by (rule hpath_frame [where h = h])
        (use assms(1) ld pv f Cons in \<open>auto simp: hlist_def\<close>)
    moreover have "hend (Next y) ys \<noteq> First old \<and> hend (Next y) ys \<noteq> First new"
      by simp
    ultimately show ?thesis
      using assms ld [of "First new"] ld [of "hend (Next y) ys"] pv f Cons by (simp add: hlist_def)
  qed
qed

subsection \<open>Iteration\<close>

lemma hwalk_path:
  "hpath h l xs \<Longrightarrow> hload h (hend l xs) = None \<Longrightarrow> length xs < k \<Longrightarrow> hwalk k h (hload h l) = Some xs"
proof (induction xs arbitrary: l k)
  case Nil
  then show ?case by (cases k) simp_all
next
  case (Cons x xs)
  then show ?case by (cases k) (auto simp: hnext_hload)
qed

lemma hlist_for_each_hlist:
  "hlist h a xs \<Longrightarrow> length xs < k \<Longrightarrow> hlist_for_each k h a = Some xs"
  using hwalk_path [of h "First a" xs k] by (simp add: hlist_def hlist_for_each_def hfirst_hload)

lemma hlist_for_each_entry_continue_hlist:
  "hlist h a (ys @ x # zs) \<Longrightarrow> length zs < k \<Longrightarrow> hlist_for_each_entry_continue k h x = Some zs"
  using hwalk_path [of h "Next x" zs k] by (simp add: hlist_def hlist_for_each_entry_continue_def hnext_hload)

text \<open>The safe iteration may unlink every node it visits.\<close>

lemma hlist_for_each_safe_del:
  assumes "hlist h a xs" "length xs < k"
    and body: "\<And>h x zs. hlist h a (x # zs) \<Longrightarrow> \<exists>h'. body h x = Some h' \<and> hlist h' a zs"
  shows "\<exists>h'. hlist_for_each_safe k body h a = Some h' \<and> hlist h' a []"
proof -
  have "\<exists>h'. hwalk_safe k body h (hfirst h a) = Some h' \<and> hlist h' a []"
    using assms(1,2)
  proof (induction xs arbitrary: h k)
    case Nil
    then show ?case by (cases k) (auto simp: hlist_def hload_fold)
  next
    case (Cons x xs)
    then obtain m where k: "k = Suc m" "length xs < m" by (cases k) auto
    have f: "hfirst h a = Some x" using Cons.prems(1) by (simp add: hlist_def hload_fold)
    obtain h' where h': "body h x = Some h'" "hlist h' a xs" using body [OF Cons.prems(1)] by blast
    have "hnext h x = hfirst h' a"
      using Cons.prems(1) h'(2) by (cases xs) (auto simp: hlist_def hload_fold)
    then show ?case using Cons.IH [OF h'(2) k(2)] f h'(1) k(1) by (simp add: Let_def)
  qed
  then show ?thesis by (simp add: hlist_for_each_safe_def)
qed

end
