(* ===== verification/List_Props.thy ===== *)
theory List_Props
  imports Klist Hlist
begin

text \<open>
  The correctness properties of include/list.h with a witness for each: \<open>ex_list xs\<close> is the heap
  in which node 0 heads the list of the numbers \<open>xs\<close>, built by the code's own
  \<open>list_add_tail\<close>.
\<close>

definition nil_heap :: "nat lheap" where
  "nil_heap = \<lparr>nxt = \<lambda>x. x, prv = \<lambda>x. x\<rparr>"

definition ex_list :: "nat list \<Rightarrow> nat lheap" where
  "ex_list xs = fold (\<lambda>x h. list_add_tail h x 0) xs nil_heap"

lemma nil_heap_clist: "clist nil_heap n []"
  by (simp add: clist_def nil_heap_def edge_def)

lemma ex_list_clist: "distinct (0 # xs) \<Longrightarrow> clist (ex_list xs) 0 xs"
  using klist.add_all_rep [OF nil_heap_clist, of 0 xs] by (simp add: ex_list_def)

lemma ex_list_other: "distinct (0 # xs) \<Longrightarrow> n \<notin> set (0 # xs) \<Longrightarrow> clist (ex_list xs) n []"
proof (induction xs rule: rev_induct)
  case Nil
  then show ?case by (simp add: ex_list_def nil_heap_clist)
next
  case (snoc x xs)
  have "same_off (set (0 # x # xs)) (ex_list xs) (ex_list (xs @ [x]))"
    using list_add_tail_clist(2) [OF ex_list_clist [of xs], of x] snoc.prems(1) by (simp add: ex_list_def)
  then show ?case by (rule same_off_clist) (use snoc in auto)
qed

text \<open>C40: On a well-formed circular list every operation is the operation on sequences: insertion at
  either end, removal with and without reinitialisation, replacement, moving an entry to either
  end; the emptiness tests decide emptiness and the removed entry is its own empty list.\<close>

theorem list_ops_refine:
  assumes "clist h head (ys @ x # zs)" and "n \<notin> set (head # ys @ x # zs)"
  shows "clist (list_add h n head) head (n # ys @ x # zs) \<and>
    clist (list_add_tail h n head) head (ys @ x # zs @ [n]) \<and>
    clist (list_del h x) head (ys @ zs) \<and>
    clist (list_del_init h x) head (ys @ zs) \<and> clist (list_del_init h x) x [] \<and>
    clist (list_replace h x n) head (ys @ n # zs) \<and>
    clist (list_move h x head) head (x # ys @ zs) \<and>
    clist (list_move_tail h x head) head (ys @ zs @ [x]) \<and>
    \<not> list_empty h head \<and> (list_empty (list_del_init h x) head \<longleftrightarrow> ys @ zs = [])"
  using list_add_clist(1) [OF assms] list_add_tail_clist(1) [OF assms] list_del_clist(1) [OF assms(1)]
    list_del_init_clist(1,2) [OF assms(1)] list_replace_clist(1) [OF assms]
    list_move_same_clist [OF assms(1)] list_tests(1) [OF assms(1)]
    list_tests(1) [OF list_del_init_clist(1) [OF assms(1)]]
  by simp

lemma list_ops_refine_witness:
  "clist (list_del_init (ex_list [1, 2, 3]) 2) 0 [1, 3] \<and> clist (list_add (ex_list [1, 2, 3]) 4 0) 0 [4, 1, 2, 3]"
  using list_ops_refine [of "ex_list [1, 2, 3]" 0 "[1]" 2 "[3]" 4] ex_list_clist [of "[1, 2, 3]"] by simp

text \<open>Splicing a list into another one at either end concatenates them and, in the \<open>init\<close>
  variants, leaves the source empty; cutting a list at an entry splits it there, the first part
  going to the empty list given.\<close>

theorem list_splice_cut_spec:
  assumes "clist h head (ys @ zs)" and "clist h l xs" and "set (head # ys @ zs) \<inter> set (l # xs) = {}"
  shows "clist (list_splice h l head) head (xs @ ys @ zs) \<and>
    clist (list_splice_tail h l head) head (ys @ zs @ xs) \<and>
    clist (list_splice_init h l head) head (xs @ ys @ zs) \<and> clist (list_splice_init h l head) l [] \<and>
    clist (list_splice_tail_init h l head) head (ys @ zs @ xs) \<and> clist (list_splice_tail_init h l head) l [] \<and>
    (xs = [] \<longrightarrow> clist (list_cut_position h l head (before head ys)) l ys \<and>
                clist (list_cut_position h l head (before head ys)) head zs)"
proof -
  have "clist (list_cut_position h l head (before head ys)) l ys \<and>
    clist (list_cut_position h l head (before head ys)) head zs" if "xs = []"
    using list_cut_position_clist [OF assms(1), of l] assms(2,3) that by auto
  then show ?thesis using list_splice_clist [OF assms] by simp
qed

lemma list_splice_cut_spec_witness:
  "clist (list_cut_position (ex_list [1, 2, 3]) 7 0 2) 7 [1, 2] \<and>
   clist (list_cut_position (ex_list [1, 2, 3]) 7 0 2) 0 [3]"
  using list_splice_cut_spec [of "ex_list [1, 2, 3]" 0 "[1, 2]" "[3]" 7 "[]"]
    ex_list_clist [of "[1, 2, 3]"] ex_list_other [of "[1, 2, 3]" 7]
  by (simp add: before_def)

text \<open>Entries added at the tail of an empty list come back in the order they were added, when the
  first entry is taken off with \<open>list_del_init\<close> until \<open>list_empty\<close>; and the safe iteration
  whose body unlinks the entry it visits ends with the list empty.\<close>

theorem list_fifo:
  assumes "clist h head []" and "distinct (head # xs)" and "length xs < n"
  shows "take_all list_del_init list_empty nxt n (fold (\<lambda>x h. list_add_tail h x head) xs h) head = xs \<and>
    (\<exists>h'. list_for_each_safe n list_del_init (fold (\<lambda>x h. list_add_tail h x head) xs h) head = Some h' \<and>
      clist h' head [])"
proof
  show "take_all list_del_init list_empty nxt n (fold (\<lambda>x h. list_add_tail h x head) xs h) head = xs"
    by (rule klist.fifo) (use assms in auto)
  have "clist (fold (\<lambda>x h. list_add_tail h x head) xs h) head xs"
    using klist.add_all_rep [OF assms(1), of xs] assms(2) by simp
  then show "\<exists>h'. list_for_each_safe n list_del_init (fold (\<lambda>x h. list_add_tail h x head) xs h) head = Some h' \<and>
      clist h' head []"
    by (rule list_for_each_safe_del) (use assms(3) list_del_init_clist(1) [of _ _ "[]"] in auto)
qed

lemma list_fifo_witness:
  "take_all list_del_init list_empty nxt 9 (fold (\<lambda>x h. list_add_tail h x 0) [5, 3, 8] nil_heap) (0::nat) = [5, 3, 8]"
  using list_fifo [OF nil_heap_clist, of 0 "[5, 3, 8]" 9] by simp

text \<open>On the lists with a single-pointer head, insertion at the head, before and after a node,
  and removal are the operations on sequences, removal leaves the node unhashed and every other
  list as it was, and an iteration visits the nodes in order.\<close>

theorem hlist_ops_refine:
  assumes "hlist h a (ys @ x # zs)" and "n \<notin> set (ys @ x # zs)" and "hlist h b ws" and "b \<noteq> a"
  shows "hlist (hlist_add_head h n a) a (n # ys @ x # zs) \<and>
    hlist (hlist_add_after h x n) a (ys @ x # n # zs) \<and>
    (\<exists>h'. hlist_add_before h n x = Some h' \<and> hlist h' a (ys @ n # x # zs)) \<and>
    (\<exists>h'. hlist_del h x = Some h' \<and> hlist h' a (ys @ zs) \<and> hlist h' b ws) \<and>
    (\<exists>h'. hlist_del_init h x = Some h' \<and> hlist h' a (ys @ zs) \<and> hlist_unhashed h' x \<and> hlist h' b ws) \<and>
    hlist_for_each (Suc (length (ys @ x # zs))) h a = Some (ys @ x # zs)"
  using hlist_add_head_hlist(1) [OF assms(1,2)] hlist_add_after_hlist [OF assms(1,2)]
    hlist_add_before_hlist [OF assms(1,2)] hlist_del_hlist [OF assms(1)] hlist_del_init_hlist [OF assms(1)]
    hlist_for_each_hlist [OF assms(1), of "Suc (length (ys @ x # zs))"] assms(3,4)
  by blast

definition ex_hheap :: "(nat, bool) hheap" where
  "ex_hheap = hlist_add_head (hlist_add_head \<lparr>hfirst = \<lambda>_. None, hnext = \<lambda>_. None, hpprev = \<lambda>_. None\<rparr> 2 True) 1 True"

lemma ex_hheap_hlist: "hlist ex_hheap True [1, 2]" "hlist ex_hheap False []"
proof -
  let ?h = "\<lparr>hfirst = \<lambda>_. None, hnext = \<lambda>_. None, hpprev = \<lambda>_. None\<rparr> :: (nat, bool) hheap"
  have "hlist ?h a []" for a by (simp add: hlist_def hload.simps)
  then have "hlist (hlist_add_head ?h 2 True) True [2]" "hlist (hlist_add_head ?h 2 True) False []"
    using hlist_add_head_hlist(1) [of ?h True "[]" 2]
      hlist_add_head_hlist(2) [of ?h True "[]" 2 False "[]"] by auto
  then show "hlist ex_hheap True [1, 2]" "hlist ex_hheap False []"
    using hlist_add_head_hlist(1) [of "hlist_add_head ?h 2 True" True "[2]" 1]
      hlist_add_head_hlist(2) [of "hlist_add_head ?h 2 True" True "[2]" 1 False "[]"]
    by (auto simp: ex_hheap_def)
qed

lemma hlist_ops_refine_witness:
  "hlist_for_each 3 ex_hheap True = Some [1, 2] \<and> hlist (hlist_add_after ex_hheap 1 9) True [1, 9, 2]"
  using hlist_ops_refine [of ex_hheap True "[]" 1 "[2]" 9 False "[]"] ex_hheap_hlist
  by (simp add: numeral_3_eq_3)

end
