(* ===== verification/Mm_Init_Spec.thy ===== *)
theory Mm_Init_Spec
  imports Mm_Init Zone_Region
begin

text \<open>
  What kernel/mm/init.c achieves.  A memory map of ascending regions whose usable ones begin on a
  page is cut at the limits of the zone types (\<open>pieces\<close>) and written to \<open>zones_list\<close> in order;
  the chains of the zone types then hold exactly the zones of their type, and the pages
  of the zones are exactly the whole pages of the usable regions below 4 GB.  The page tables map
  the linear window, and the array of page structures is laid out over the zones.
\<close>

subsection \<open>Cutting a region\<close>


definition DMA :: nat where "DMA = 0x1000000"
definition NORMAL :: nat where "NORMAL = 0x38000000"

definition window_lo :: "nat \<Rightarrow> nat" where
  "window_lo t = (if t = ZONE_DMA then 0 else if t = ZONE_NORMAL then DMA else NORMAL)"

definition window_hi :: "nat \<Rightarrow> nat" where
  "window_hi t = (if t = ZONE_DMA then DMA else if t = ZONE_NORMAL then NORMAL else 2 ^ 32)"

definition piece :: "nat \<Rightarrow> nat \<Rightarrow> nat \<Rightarrow> (nat \<times> nat) list" where
  "piece b e t =
     (let l = max b (window_lo t); h = min (e div 4096 * 4096) (window_hi t)
      in if l < h then [(l, h)] else [])"

definition pieces :: "nat \<Rightarrow> nat \<Rightarrow> (nat \<times> nat) list" where
  "pieces b e = concat (map (piece b e) [0..<NR_ZONE_TYPES])"

text \<open>Writing intervals to \<open>zones_list\<close> from an index on, each linked to its predecessor.\<close>

definition put_zone :: "zone_table \<Rightarrow> nat \<Rightarrow> nat \<times> nat \<Rightarrow> zone_table" where
  "put_zone s i p = s\<lparr>zt_zone := (zt_zone s)(i := (zt_zone s i)
     \<lparr>base_addr := of_nat (fst p), zsize := of_nat (snd p - fst p)\<rparr>)\<rparr>"

fun place :: "nat \<Rightarrow> (nat \<times> nat) list \<Rightarrow> zone_table \<Rightarrow> zone_table" where
  "place i [] s = s"
| "place i (p # ps) s =
     (let s = put_zone (set_next s i None) i p
      in place (Suc i) ps (if i = 0 then s else set_next s (i - 1) (Some i)))"

lemma windows: "window_lo 0 = 0" "window_lo (Suc 0) = DMA" "window_lo 2 = NORMAL"
  "window_hi 0 = DMA" "window_hi (Suc 0) = NORMAL" "window_hi 2 = 2 ^ 32"
  by (simp_all add: window_lo_def window_hi_def zone_consts)

lemma limits: "unat ZONE_DMA_LIMIT = DMA" "unat ZONE_NORMAL_LIMIT = NORMAL"
  by (simp_all add: zone_consts DMA_def NORMAL_def)

lemma pieces_alt: "pieces b e = piece b e 0 @ piece b e (Suc 0) @ piece b e 2"
proof -
  have "[0..<NR_ZONE_TYPES] = [0, Suc 0, 2]" by (simp add: NR_ZONE_TYPES_def upt_rec)
  then show ?thesis by (simp add: pieces_def)
qed

lemma dvd_limits: "4096 dvd DMA" "4096 dvd NORMAL" "DMA < NORMAL" "NORMAL < 2 ^ 32"
  by (simp_all add: DMA_def NORMAL_def)

lemma floor_le: "4096 dvd (l :: nat) \<Longrightarrow> l \<le> e div 4096 * 4096 \<longleftrightarrow> l \<le> e"
  by (auto elim!: dvdE simp: less_eq_div_iff_mult_less_eq) 

lemma pieces_simps:
  assumes "e < 2 ^ 32"
  shows "NORMAL \<le> b \<Longrightarrow> pieces b e = (if b < e div 4096 * 4096 then [(b, e div 4096 * 4096)] else [])"
    "DMA \<le> b \<Longrightarrow> b < NORMAL \<Longrightarrow> NORMAL \<le> e \<Longrightarrow> pieces b e = (b, NORMAL) # pieces NORMAL e"
    "DMA \<le> b \<Longrightarrow> e < NORMAL \<Longrightarrow> pieces b e = (if b < e div 4096 * 4096 then [(b, e div 4096 * 4096)] else [])"
    "b < DMA \<Longrightarrow> DMA \<le> e \<Longrightarrow> pieces b e = (b, DMA) # pieces DMA e"
    "e < DMA \<Longrightarrow> pieces b e = (if b < e div 4096 * 4096 then [(b, e div 4096 * 4096)] else [])"
  using assms floor_le [OF dvd_limits(1), of e] floor_le [OF dvd_limits(2), of e] dvd_limits
    div_times_less_eq_dividend [of e 4096]
  by (auto simp: pieces_alt piece_def windows Let_def min_def max_def)

lemma PAGE_ALIGN_dvd:
  assumes "4096 dvd unat (base :: u32)"
  shows "PAGE_ALIGN base = base"
proof -
  have m: "base = PAGE_FLOOR base"
    using assms by (intro word_unat_eq_iff [THEN iffD2]) (simp add: unat_PAGE_FLOOR)
  have z: "\<not> bit base n" if "n < 12" for n
    using arg_cong [OF m, of "\<lambda>w. bit w n"] that by simp
  have "base AND mask 12 = 0"
    by (rule bit_word_eqI) (auto simp: bit_simps dest: z)
  then have "base + mask 12 = base OR mask 12" by (rule disjunctive_add_eq_or)
  moreover have eq: "base + PAGE_SIZE - 1 = base + mask 12" by (simp add: PAGE_SIZE_val mask_eq_decr_exp)
  ultimately have "PAGE_ALIGN base = (base OR mask 12) AND NOT (mask 12)"
    by (simp add: PAGE_ALIGN_def PAGE_MASK_alt eq)
  also have "\<dots> = base" by (rule bit_word_eqI) (auto simp: bit_simps dest: z)
  finally show ?thesis .
qed

lemma set_next_commute: "j \<noteq> k \<Longrightarrow> set_next (set_next s j v) k w = set_next (set_next s k w) j v"
  by (simp add: set_next_def fun_upd_twist)

lemma put_zone_set_next: "put_zone (set_next s j v) i p = set_next (put_zone s i p) j v"
  by (simp add: put_zone_def set_next_def)

lemma place_set_next: "Suc j < i \<Longrightarrow> place i ps (set_next s j v) = set_next (place i ps s) j v"
proof (induction ps arbitrary: i s)
  case (Cons p ps)
  then show ?case
    by (cases i) (simp_all add: Let_def set_next_commute [of j] put_zone_set_next)
qed simp

lemma zone_piece_put:
  assumes "b < h" "4096 dvd b" "4096 dvd h" "h \<le> 2 ^ 32 - 1" "unat base = b"
  shows "zone_piece s i base (of_nat h - base) = (1, put_zone s i (b, h))"
proof -
  have bb: "base = of_nat b" using assms(5) by auto
  have sz: "of_nat h - base = (of_nat (h - b) :: u32)" using assms(1) by (simp add: bb of_nat_diff)
  have "4096 \<le> h - b" using assms(1-3) by (meson dvd_diff_nat dvd_imp_le zero_less_diff)
  moreover have "unat (of_nat (h - b) :: u32) = h - b"
    using assms(4) by (simp add: unat_of_nat take_bit_nat_eq_self)
  ultimately have "PAGE_SIZE \<le> (of_nat (h - b) :: u32)" by (simp add: word_le_nat_alt unat_PAGE_SIZE)
  then show ?thesis by (simp add: zone_piece_def put_zone_def sz) (simp add: bb)
qed

text \<open>What one call does with an aligned region that ends below 4 GB, before it recurs.\<close>

definition link_prev :: "nat \<Rightarrow> zone_table \<Rightarrow> zone_table" where
  "link_prev i s = (if i = 0 then s else set_next s (i - 1) (Some i))"

lemma place_Cons: "place i (p # ps) s = link_prev i (place (Suc i) ps (put_zone (set_next s i None) i p))"
  by (cases i) (simp_all add: link_prev_def Let_def place_set_next)

lemma add_unaligned:
  assumes "4096 dvd unat base" and "PAGE_SIZE \<le> sz" and "i < NR_ZONES"
  shows "add_to_zones_list s i base sz =
    (if base < ZONE_DMA_LIMIT \<and> ZONE_DMA_LIMIT \<le> base + sz
     then do { (n, s) \<leftarrow> add_to_zones_list (put_zone (set_next s i None) i (unat base, DMA)) (i + 1)
                 ZONE_DMA_LIMIT (base + sz - ZONE_DMA_LIMIT); Some (1 + n, link_prev i s) }
     else if base < ZONE_NORMAL_LIMIT \<and> ZONE_NORMAL_LIMIT \<le> base + sz
     then do { (n, s) \<leftarrow> add_to_zones_list (put_zone (set_next s i None) i (unat base, NORMAL)) (i + 1)
                 ZONE_NORMAL_LIMIT (base + sz - ZONE_NORMAL_LIMIT); Some (1 + n, link_prev i s) }
     else Some (1, link_prev i (put_zone (set_next s i None) i
        (unat base, unat base + unat (PAGE_FLOOR sz)))))"
proof -
  have D: "ZONE_DMA_LIMIT = of_nat DMA" "ZONE_NORMAL_LIMIT = of_nat NORMAL"
    by (simp_all add: zone_consts DMA_def NORMAL_def)
  have zp: "zone_piece s i base (ZONE_DMA_LIMIT - base) = (1, put_zone s i (unat base, DMA))"
    if "base < ZONE_DMA_LIMIT" for s
    unfolding D(1) by (rule zone_piece_put)
      (use assms(1) that dvd_limits in \<open>auto simp: word_less_nat_alt limits\<close>)
  have zn: "zone_piece s i base (ZONE_NORMAL_LIMIT - base) = (1, put_zone s i (unat base, NORMAL))"
    if "base < ZONE_NORMAL_LIMIT" for s
    unfolding D(2) by (rule zone_piece_put)
      (use assms(1) that dvd_limits in \<open>auto simp: word_less_nat_alt limits\<close>)
  have zh: "zone_piece s i base (PAGE_FLOOR sz) = (1, put_zone s i (unat base, unat base + unat (PAGE_FLOOR sz)))"
    for s
  proof -
    have "4096 \<le> unat (PAGE_FLOOR sz)" using assms(2) by (simp add: unat_PAGE_FLOOR word_le_nat_alt unat_PAGE_SIZE)
    then show ?thesis by (simp add: zone_piece_def put_zone_def word_le_nat_alt unat_PAGE_SIZE)
  qed
  have al: "PAGE_ALIGN base = base" by (rule PAGE_ALIGN_dvd) (rule assms(1))
  have na: "\<not> sz < PAGE_SIZE" "\<not> NR_ZONES \<le> i" using assms by auto
  show ?thesis
  proof (cases "base < ZONE_DMA_LIMIT \<and> ZONE_DMA_LIMIT \<le> base + sz")
    case True
    then show ?thesis
      by (subst add_to_zones_list.simps, simp only: Let_def al diff_self diff_zero na if_False if_True zp prod.case simp_thms)
        (simp add: link_prev_def bind_splits split: option.splits)
  next
    case False
    show ?thesis
    proof (cases "base < ZONE_NORMAL_LIMIT \<and> ZONE_NORMAL_LIMIT \<le> base + sz")
      case True
      then show ?thesis using False
        by (subst add_to_zones_list.simps, simp only: Let_def al diff_self diff_zero na if_False if_True zn prod.case simp_thms)
          (simp add: link_prev_def bind_splits split: option.splits)
    next
      case n: False
      show ?thesis
        by (subst add_to_zones_list.simps, simp only: Let_def al diff_self diff_zero na if_False if_True False n zh prod.case simp_thms)
          (simp add: link_prev_def)
    qed
  qed
qed

lemma floor_add:
  assumes "4096 dvd (b :: nat)"
  shows "(b + n) div 4096 * 4096 = b + n div 4096 * 4096"
  using assms by (auto elim!: dvdE)

lemma add_to_zones_list_pieces:
  assumes "4096 dvd unat base" and "unat base + unat sz < 2 ^ 32"
    and "length (pieces (unat base) (unat base + unat sz)) + i \<le> NR_ZONES"
  shows "add_to_zones_list s i base sz =
    Some (length (pieces (unat base) (unat base + unat sz)), place i (pieces (unat base) (unat base + unat sz)) s)"
  using assms
proof (induction "2 - zone_type_of base" arbitrary: s i base sz rule: less_induct)
  case less
  let ?b = "unat base" and ?e = "unat base + unat sz"
  have al: "PAGE_ALIGN base = base" by (rule PAGE_ALIGN_dvd) (rule less.prems(1))
  have sum: "unat (base + sz) = ?e"
    using less.prems(2) by (simp add: unat_word_ariths)
  note P = pieces_simps [OF less.prems(2), of ?b] floor_add [OF less.prems(1), of "unat sz"]
  note W = word_less_nat_alt word_le_nat_alt limits sum
  show ?case
  proof (cases "unat sz < 4096")
    case True
    then have "add_to_zones_list s i base sz = Some (0, s)"
      by (subst add_to_zones_list.simps) (simp add: al word_less_nat_alt unat_PAGE_SIZE)
    moreover have "pieces ?b ?e = []"
    proof -
      have "?e div 4096 * 4096 = ?b" using True P(6) by simp
      then show ?thesis by (simp add: pieces_alt piece_def Let_def)
    qed
    ultimately show ?thesis by simp
  next
    case False
    then have ps: "PAGE_SIZE \<le> sz" by (simp add: word_le_nat_alt unat_PAGE_SIZE)
    have ne: "pieces ?b ?e \<noteq> []"
    proof -
      have "?b < ?e div 4096 * 4096" using False P(6) by simp
      then show ?thesis using less.prems(2)
        by (auto simp: pieces_alt piece_def Let_def windows max_def min_def DMA_def NORMAL_def split: if_splits)
    qed
    then have i: "i < NR_ZONES" using less.prems(3) by (cases "pieces ?b ?e") auto
    note step = add_unaligned [OF less.prems(1) ps i, of s]
    have rec: "add_to_zones_list s' (i + 1) lim (base + sz - lim) =
        Some (length (pieces (unat lim) ?e), place (i + 1) (pieces (unat lim) ?e) s')"
      if "lim \<in> {ZONE_DMA_LIMIT, ZONE_NORMAL_LIMIT}" "base < lim" "lim \<le> base + sz"
        "pieces ?b ?e = (?b, unat lim) # pieces (unat lim) ?e" for lim s'
    proof -
      have d: "4096 dvd unat lim" using that(1) dvd_limits by (auto simp: limits)
      have e: "unat lim + unat (base + sz - lim) = ?e"
        using that(3) sum by (simp add: unat_sub word_le_nat_alt)
      have "2 - zone_type_of lim < 2 - zone_type_of base"
        using that(1,2) by (auto simp: zone_type_of_def zone_consts split: if_splits)
      moreover have "length (pieces (unat lim) ?e) + (i + 1) \<le> NR_ZONES" using less.prems(3) that(4) by simp
      ultimately show ?thesis using less.hyps [of lim "base + sz - lim" "i + 1" s'] less.prems(2) by (simp add: e d)
    qed
    show ?thesis
    proof (cases "base < ZONE_DMA_LIMIT \<and> ZONE_DMA_LIMIT \<le> base + sz")
      case True
      then have p: "pieces ?b ?e = (?b, unat ZONE_DMA_LIMIT) # pieces (unat ZONE_DMA_LIMIT) ?e"
        using P(4) by (simp add: W)
      then show ?thesis using True rec [of ZONE_DMA_LIMIT]
        by (simp add: step p place_Cons limits del: place.simps(2))
    next
      case nd: False
      show ?thesis
      proof (cases "base < ZONE_NORMAL_LIMIT \<and> ZONE_NORMAL_LIMIT \<le> base + sz")
        case True
        then have "DMA \<le> ?b" using nd dvd_limits by (auto simp: W)
        then have p: "pieces ?b ?e = (?b, unat ZONE_NORMAL_LIMIT) # pieces (unat ZONE_NORMAL_LIMIT) ?e"
          using P(2) True by (simp add: W)
        then show ?thesis using True rec [of ZONE_NORMAL_LIMIT] unfolding step if_not_P [OF nd]
          by (simp add: p place_Cons limits del: place.simps(2))
      next
        case nn: False
        have "pieces ?b ?e = (if ?b < ?e div 4096 * 4096 then [(?b, ?e div 4096 * 4096)] else [])"
          using nd nn P(1,3,5) by (simp only: W) linarith
        then have p: "pieces ?b ?e = [(?b, ?b + unat (PAGE_FLOOR sz))]"
          using ne P(6) by (simp add: unat_PAGE_FLOOR split: if_splits)
        then show ?thesis unfolding step if_not_P [OF nd] if_not_P [OF nn] by (simp add: p place_Cons del: place.simps(2)) 
      qed
    qed
  qed
qed


subsection \<open>The whole memory map\<close>

definition usable :: "memory_map \<Rightarrow> bool" where
  "usable m \<longleftrightarrow> mp_type m = MMAP_USABLE"

definition map_end :: "memory_map \<Rightarrow> nat" where
  "map_end m = unat (mp_base m) + unat (mp_size m)"

text \<open>The usable regions before the first that reaches 4 GB.\<close>

definition taken :: "memory_map list \<Rightarrow> memory_map list" where
  "taken ms = filter usable (takeWhile (\<lambda>m. usable m \<longrightarrow> map_end m < 2 ^ 32) ms)"

definition map_zones :: "memory_map list \<Rightarrow> (nat \<times> nat) list" where
  "map_zones ms = concat (map (\<lambda>m. pieces (unat (mp_base m)) (map_end m)) (taken ms))"

text \<open>A memory map as a BIOS reports it: ascending regions that do not overlap, whose usable ones
  begin on a page.\<close>

definition map_ok :: "memory_map list \<Rightarrow> bool" where
  "map_ok ms \<longleftrightarrow> successively (\<lambda>m m'. map_end m \<le> unat (mp_base m')) ms \<and>
     (\<forall>m\<in>set ms. map_end m < 2 ^ 64 \<and> (usable m \<longrightarrow> 4096 dvd unat (mp_base m)))"

lemma map_ok_Cons:
  assumes "map_ok (m # ms)"
  shows "map_ok ms" "map_end m < 2 ^ 64" "usable m \<Longrightarrow> 4096 dvd unat (mp_base m)"
    "ms \<noteq> [] \<Longrightarrow> map_end m \<le> unat (mp_base (hd ms))"
  using assms by (cases ms; auto simp: map_ok_def)+

lemma taken_Cons:
  "taken (m # ms) = (if usable m then if map_end m < 2 ^ 32 then m # taken ms else [] else taken ms)"
  by (simp add: taken_def)

lemma place_append: "place i (ps @ qs) s = place (i + length ps) qs (place i ps s)"
  by (induction ps arbitrary: i s) (simp_all add: Let_def)

lemma zones_loop_place:
  assumes "map_ok ms" and "ms \<noteq> [] \<longrightarrow> base \<le> mp_base (hd ms)" and "n + length (map_zones ms) < NR_ZONES"
  shows "zones_loop ms base n s = Some (place n (map_zones ms) s)"
  using assms
proof (induction ms arbitrary: base n s)
  case (Cons m ms)
  note ok = map_ok_Cons [OF Cons.prems(1)]
  have le: "ms \<noteq> [] \<longrightarrow> mp_base m \<le> mp_base (hd ms)"
    using ok(4) by (auto simp: map_end_def word_le_nat_alt)
  have sum: "unat (mp_base m + mp_size m) = map_end m"
    using ok(2) by (simp add: map_end_def unat_word_ariths)
  have G: "4 * GB \<le> mp_base m + mp_size m \<longleftrightarrow> 2 ^ 32 \<le> map_end m"
    by (simp add: word_le_nat_alt sum GB_def)
  have b: "base \<le> mp_base m" using Cons.prems(2) by simp
  show ?case
  proof (cases "usable m")
    case False
    then have "map_zones (m # ms) = map_zones ms" by (simp add: map_zones_def taken_Cons)
    then show ?thesis using False Cons.IH [OF ok(1) le, of n s] Cons.prems(3) by (simp add: usable_def)
  next
    case u: True
    show ?thesis
    proof (cases "map_end m < 2 ^ 32")
      case False
      then have "map_zones (m # ms) = []" by (simp add: map_zones_def taken_Cons u)
      then show ?thesis using u b G False by (simp add: usable_def)
    next
      case True
      let ?p = "pieces (unat (mp_base m)) (map_end m)"
      have mz: "map_zones (m # ms) = ?p @ map_zones ms" using u True by (simp add: map_zones_def taken_Cons)
      have c: "unat (ucast (mp_base m) :: u32) = unat (mp_base m)" "unat (ucast (mp_size m) :: u32) = unat (mp_size m)"
        using True by (simp_all add: map_end_def unsigned_ucast_eq take_bit_nat_eq_self)
      have "add_to_zones_list s n (ucast (mp_base m)) (ucast (mp_size m)) = Some (length ?p, place n ?p s)"
        using add_to_zones_list_pieces [of "ucast (mp_base m)" "ucast (mp_size m)" n s] ok(3) [OF u] True Cons.prems(3)
        by (simp add: c mz map_end_def)
      then show ?thesis using u b G True Cons.IH [OF ok(1) le, of "n + length ?p" "place n ?p s"] Cons.prems(3)
        by (simp add: usable_def mz place_append)
    qed
  qed
qed (simp add: map_zones_def taken_def)

subsection \<open>The zones of a memory map\<close>

lemma zt_zone_set_next [simp]: "zt_zone (set_next s i v) = zt_zone s"
  by (simp add: set_next_def)

lemma zt_place_zone:
  "zt_zone (place i ps s) j =
    (if i \<le> j \<and> j < i + length ps
     then (zt_zone s j)\<lparr>base_addr := of_nat (fst (ps ! (j - i))), zsize := of_nat (snd (ps ! (j - i)) - fst (ps ! (j - i)))\<rparr>
     else zt_zone s j)"
  by (induction ps arbitrary: i s) (auto simp: Let_def put_zone_def nth_Cons')

lemma zt_place_next:
  "zt_next (place i ps s) j =
    (if i \<le> j \<and> j < i + length ps then (if Suc j < i + length ps then Some (Suc j) else None)
     else if ps \<noteq> [] \<and> Suc j = i then Some i else zt_next s j)"
proof (induction ps arbitrary: i s)
  case (Cons p ps)
  show ?case
    by (simp add: Let_def Cons.IH, cases i) (auto simp: put_zone_def set_next_def)
qed auto

subsection \<open>The chains of the zone types\<close>

definition types_mono :: "(nat \<Rightarrow> u32) \<Rightarrow> nat \<Rightarrow> bool" where
  "types_mono addr n \<longleftrightarrow> (\<forall>j<n. \<forall>i\<le>j. zone_type_of (addr i) \<le> zone_type_of (addr j))"

definition same_type :: "(nat \<Rightarrow> u32) \<Rightarrow> nat \<Rightarrow> nat \<Rightarrow> bool" where
  "same_type addr i j \<longleftrightarrow> zone_type_of (addr i) = zone_type_of (addr j)"

text \<open>The \<open>next\<close> pointers once the loop has passed the zones from \<open>k\<close> on.\<close>

definition cut_next :: "(nat \<Rightarrow> u32) \<Rightarrow> nat \<Rightarrow> nat \<Rightarrow> (nat \<Rightarrow> nat option) \<Rightarrow> nat \<Rightarrow> nat option" where
  "cut_next addr n k nx j =
     (if k \<le> j \<and> Suc j < n \<and> \<not> same_type addr (Suc j) j then None else nx j)"

definition first_fast :: "(nat \<Rightarrow> u32) \<Rightarrow> nat \<Rightarrow> nat \<Rightarrow> (nat \<Rightarrow> nat option) \<Rightarrow> nat \<Rightarrow> nat option" where
  "first_fast addr n k fs t =
     (case fs t of Some i \<Rightarrow> Some i | None \<Rightarrow> List.find (\<lambda>j. zone_type_of (addr j) = t) [k..<n])"

text \<open>One turn of the loop, on zones in the order of their types.\<close>

lemma fast_step:
  assumes "types_mono addr n" and "k < n" and "nx k = (if Suc k < n then Some (Suc k) else None)"
  shows "fast_loop (Suc fuel) addr (Some k) (nx, fs) =
    fast_loop fuel addr (nx k)
      (if Suc k < n \<and> \<not> same_type addr (Suc k) k then nx(k := None) else nx,
       if fs (zone_type_of (addr k)) = None then fs(zone_type_of (addr k) := Some k) else fs)"
proof -
  have m: "Suc k < n \<Longrightarrow> zone_type_of (addr k) \<le> zone_type_of (addr (Suc k))"
    using assms(1) unfolding types_mono_def by auto
  have lt: "ZONE_DMA_LIMIT < ZONE_NORMAL_LIMIT" by (simp add: zone_consts)
  consider "addr k < ZONE_DMA_LIMIT" | "ZONE_DMA_LIMIT \<le> addr k" "addr k < ZONE_NORMAL_LIMIT"
    | "ZONE_NORMAL_LIMIT \<le> addr k" by force
  then show ?thesis
  proof cases
    case 1
    then have t: "zone_type_of (addr k) = ZONE_DMA" by (simp add: zone_type_of_def)
    have "same_type addr (Suc k) k \<longleftrightarrow> \<not> ZONE_DMA_LIMIT \<le> addr (Suc k)"
      unfolding same_type_def t using lt by (auto simp: zone_type_of_def ZONE_DMA_def ZONE_NORMAL_def ZONE_HIGHMEM_def)
    then show ?thesis using 1 assms(3) by (simp add: Let_def t)
  next
    case 2
    then have t: "zone_type_of (addr k) = ZONE_NORMAL" by (auto simp: zone_type_of_def not_less [symmetric])
    have "Suc k < n \<Longrightarrow> same_type addr (Suc k) k \<longleftrightarrow> \<not> ZONE_NORMAL_LIMIT \<le> addr (Suc k)"
      using m unfolding same_type_def t
      by (auto simp: zone_type_of_def ZONE_DMA_def ZONE_NORMAL_def ZONE_HIGHMEM_def not_less split: if_splits)
    moreover have "\<not> addr k < ZONE_DMA_LIMIT" using 2(1) by simp
    ultimately show ?thesis using 2 assms(3) by (simp add: Let_def t)
  next
    case 3
    then have t: "zone_type_of (addr k) = ZONE_HIGHMEM" using lt by (auto simp: zone_type_of_def)
    have "Suc k < n \<Longrightarrow> same_type addr (Suc k) k"
      using m unfolding same_type_def t by (auto simp: zone_type_of_def ZONE_DMA_def ZONE_NORMAL_def ZONE_HIGHMEM_def split: if_splits)
    moreover have "\<not> addr k < ZONE_NORMAL_LIMIT" "\<not> addr k < ZONE_DMA_LIMIT" using 3 lt by auto
    ultimately show ?thesis using 3 assms(3) by (simp add: Let_def t)
  qed
qed

lemma fast_loop_run:
  assumes "types_mono addr n" and "\<And>j. k \<le> j \<Longrightarrow> j < n \<Longrightarrow> nx j = (if Suc j < n then Some (Suc j) else None)"
    and "k \<le> n" and "n - k < fuel"
  shows "fast_loop fuel addr (if k < n then Some k else None) (nx, fs) =
    Some (cut_next addr n k nx, first_fast addr n k fs)"
  using assms(2-4)
proof (induction "n - k" arbitrary: k fuel nx fs)
  case 0
  then have "k = n" by simp
  moreover obtain f where "fuel = Suc f" using 0(4) by (cases fuel) auto
  ultimately show ?case by (auto simp: cut_next_def first_fast_def fun_eq_iff split: option.splits)
next
  case (Suc d)
  obtain f where f: "fuel = Suc f" using Suc.prems(3) by (cases fuel) auto
  have k: "k < n" using Suc.hyps(2) by simp
  let ?nx = "if Suc k < n \<and> \<not> same_type addr (Suc k) k then nx(k := None) else nx"
  let ?fs = "if fs (zone_type_of (addr k)) = None then fs(zone_type_of (addr k) := Some k) else fs"
  have nx: "?nx j = (if Suc j < n then Some (Suc j) else None)" if "Suc k \<le> j" "j < n" for j
    using Suc.prems(1) [of j] that by auto
  have "fast_loop fuel addr (if k < n then Some k else None) (nx, fs) =
      fast_loop f addr (if Suc k < n then Some (Suc k) else None) (?nx, ?fs)"
    using fast_step [OF assms(1) k, of nx f fs] Suc.prems(1) [of k] k f by simp
  also have "\<dots> = Some (cut_next addr n (Suc k) ?nx, first_fast addr n (Suc k) ?fs)"
    by (rule Suc.hyps(1)) (use Suc.hyps(2) Suc.prems f nx in auto)
  also have "cut_next addr n (Suc k) ?nx = cut_next addr n k nx"
  proof
    fix j
    show "cut_next addr n (Suc k) ?nx j = cut_next addr n k nx j"
      by (cases "j = k") (auto simp: cut_next_def Suc_le_eq)
  qed
  also have "first_fast addr n (Suc k) ?fs = first_fast addr n k fs"
    using k by (auto simp: first_fast_def fun_eq_iff upt_rec [of k n] split: option.splits)
  finally show ?case .
qed

lemma chain_run:
  assumes "types_mono addr n" and "\<And>j. k \<le> j \<Longrightarrow> j < n \<Longrightarrow> nx j = (if Suc j < n then Some (Suc j) else None)"
    and "k < n" and "n - k < fuel" and "l \<le> k"
  shows "chain fuel (cut_next addr n l nx) (Some k) = Some (filter (\<lambda>j. same_type addr j k) [k..<n])"
  using assms(2-5)
proof (induction "n - k" arbitrary: k fuel)
  case (Suc d)
  obtain f where f: "fuel = Suc (Suc f)" using Suc.prems(2,3) by (cases fuel; cases "fuel - 1") auto
  show ?case
  proof (cases "Suc k < n \<and> same_type addr (Suc k) k")
    case True
    have "chain (Suc f) (cut_next addr n l nx) (Some (Suc k)) = Some (filter (\<lambda>j. same_type addr j (Suc k)) [Suc k..<n])"
      by (rule Suc.hyps(1)) (use Suc.hyps(2) Suc.prems f True in auto)
    moreover have "cut_next addr n l nx k = Some (Suc k)"
      using True Suc.prems(1) [of k] by (simp add: cut_next_def)
    moreover have "same_type addr j (Suc k) = same_type addr j k" for j
      using True by (simp add: same_type_def)
    ultimately show ?thesis using f Suc.prems(2) by (simp add: upt_rec [of k] same_type_def)
  next
    case False
    have "cut_next addr n l nx k = None"
      using False Suc.prems by (auto simp: cut_next_def)
    moreover have "\<not> same_type addr j k" if "Suc k \<le> j" "j < n" for j
    proof -
      have "zone_type_of (addr k) \<le> zone_type_of (addr (Suc k))" "zone_type_of (addr (Suc k)) \<le> zone_type_of (addr j)"
        using assms(1) that unfolding types_mono_def by auto
      with False that show ?thesis by (auto simp: same_type_def)
    qed
    then have "filter (\<lambda>j. same_type addr j k) [Suc k..<n] = []" by (auto simp: filter_empty_conv)
    ultimately show ?thesis using f Suc.prems(2) by (simp add: upt_rec [of k] same_type_def)
  qed
qed simp

lemma find_upt:
  "List.find P [0..<n] = Some k \<Longrightarrow> k < n \<and> P k \<and> (\<forall>j<k. \<not> P j)"
  by (auto simp: find_Some_iff)

lemma chain_type:
  assumes "types_mono addr n" and "\<And>j. j < n \<Longrightarrow> nx j = (if Suc j < n then Some (Suc j) else None)"
    and "n < fuel"
  shows "chain fuel (cut_next addr n 0 nx) (first_fast addr n 0 (\<lambda>_. None) t) =
    Some (filter (\<lambda>j. zone_type_of (addr j) = t) [0..<n])"
proof (cases "List.find (\<lambda>j. zone_type_of (addr j) = t) [0..<n]")
  case None
  obtain f where "fuel = Suc f" using assms(3) by (cases fuel) auto
  moreover have "filter (\<lambda>j. zone_type_of (addr j) = t) [0..<n] = []"
    using None by (auto simp: find_None_iff filter_empty_conv)
  ultimately show ?thesis using None by (simp add: first_fast_def)
next
  case (Some k)
  note k = find_upt [OF Some]
  have "chain fuel (cut_next addr n 0 nx) (Some k) = Some (filter (\<lambda>j. same_type addr j k) [k..<n])"
    by (rule chain_run [OF assms(1)]) (use assms k in auto)
  moreover have "[0..<n] = [0..<k] @ [k..<n]" using k upt_add_eq_append [of 0 k "n - k"] by simp
  moreover have "filter (\<lambda>j. zone_type_of (addr j) = t) [0..<k] = []" using k by (auto simp: filter_empty_conv)
  ultimately show ?thesis using Some k by (simp add: first_fast_def same_type_def)
qed


subsection \<open>The zones that result\<close>

definition interval_ok :: "nat \<times> nat \<Rightarrow> bool" where
  "interval_ok p \<longleftrightarrow> fst p < snd p \<and> 4096 dvd fst p \<and> 4096 dvd snd p \<and> snd p < 2 ^ 32 \<and>
     (\<exists>t<NR_ZONE_TYPES. window_lo t \<le> fst p \<and> snd p \<le> window_hi t)"

definition ascending :: "(nat \<times> nat) list \<Rightarrow> bool" where
  "ascending ps \<longleftrightarrow> sorted_wrt (\<lambda>p q. snd p \<le> fst q) ps"

lemma pieces_ok:
  assumes "4096 dvd b" "e < 2 ^ 32"
  shows "\<forall>p\<in>set (pieces b e). interval_ok p \<and> b \<le> fst p \<and> snd p \<le> e" "ascending (pieces b e)"
proof -
  have e: "e div 4096 * 4096 \<le> e" by simp
  have "\<forall>p\<in>set (piece b e t). interval_ok p \<and> b \<le> fst p \<and> snd p \<le> e" if "t < NR_ZONE_TYPES" for t
  proof -
    have d: "4096 dvd window_lo t" "4096 dvd window_hi t" "window_hi t \<le> 2 ^ 32"
      using dvd_limits by (auto simp: window_lo_def window_hi_def)
    let ?l = "max b (window_lo t)" and ?h = "min (e div 4096 * 4096) (window_hi t)"
    have "4096 dvd ?l" using assms(1) d by (simp add: max_def)
    moreover have "4096 dvd ?h" using d by (simp add: min_def)
    moreover have "?h < 2 ^ 32" using e assms(2) by linarith
    ultimately show ?thesis using that e by (auto simp: piece_def Let_def interval_ok_def)
  qed
  then show "\<forall>p\<in>set (pieces b e). interval_ok p \<and> b \<le> fst p \<and> snd p \<le> e"
    by (auto simp: pieces_def)
  show "ascending (pieces b e)" using dvd_limits
    by (auto simp: ascending_def pieces_alt piece_def Let_def windows sorted_wrt_append)
qed

lemma ascending_append:
  "ascending (ps @ qs) \<longleftrightarrow> ascending ps \<and> ascending qs \<and> (\<forall>p\<in>set ps. \<forall>q\<in>set qs. snd p \<le> fst q)"
  by (simp add: ascending_def sorted_wrt_append)

lemma map_zones_bound:
  assumes "map_ok ms"
  shows "p \<in> set (map_zones ms) \<Longrightarrow> ms \<noteq> [] \<and> unat (mp_base (hd ms)) \<le> fst p"
  using assms
proof (induction ms)
  case (Cons m ms)
  note ok = map_ok_Cons [OF Cons.prems(2)]
  have ge: "unat (mp_base m) \<le> map_end m" by (simp add: map_end_def)
  have "p \<in> set (map_zones ms) \<Longrightarrow> unat (mp_base m) \<le> fst p"
    using Cons.IH ok ge by fastforce
  then show ?case using Cons.prems(1) pieces_ok(1) [OF ok(3)]
    by (auto simp: map_zones_def taken_Cons split: if_splits)
qed (simp add: map_zones_def taken_def)

lemma map_zones_ok:
  assumes "map_ok ms"
  shows "ascending (map_zones ms) \<and> (\<forall>p\<in>set (map_zones ms). interval_ok p)"
  using assms
proof (induction ms)
  case (Cons m ms)
  note ok = map_ok_Cons [OF Cons.prems]
  note IH = Cons.IH [OF ok(1)]
  show ?case
  proof (cases "usable m \<and> map_end m < 2 ^ 32")
    case True
    then have mz: "map_zones (m # ms) = pieces (unat (mp_base m)) (map_end m) @ map_zones ms"
      by (simp add: map_zones_def taken_Cons)
    note P = pieces_ok [OF ok(3) conjunct2 [OF True]]
    have "snd p \<le> fst q" if "p \<in> set (pieces (unat (mp_base m)) (map_end m))" "q \<in> set (map_zones ms)" for p q
    proof -
      have "snd p \<le> map_end m" using P(1) True that(1) by auto
      also have "\<dots> \<le> unat (mp_base (hd ms))" using map_zones_bound [OF ok(1) that(2)] ok(4) by simp
      also have "\<dots> \<le> fst q" using map_zones_bound [OF ok(1) that(2)] by simp
      finally show ?thesis .
    qed
    then show ?thesis using IH P True by (auto simp: mz ascending_append)
  next
    case False
    then show ?thesis using IH by (auto simp: map_zones_def taken_Cons ascending_def)
  qed
qed (simp add: map_zones_def taken_def ascending_def)

lemma piece_cover:
  assumes "4096 dvd b" "4096 dvd x" "e < 2 ^ 32"
  shows "(\<exists>p\<in>set (pieces b e). fst p \<le> x \<and> x < snd p) \<longleftrightarrow> b \<le> x \<and> x + 4096 \<le> e"
proof -
  have "x < e div 4096 * 4096 \<longleftrightarrow> x + 4096 \<le> e"
    using assms(2) by (auto elim!: dvdE)
  moreover have "e div 4096 * 4096 \<le> e" by simp
  ultimately show ?thesis using assms(3) dvd_limits
    by (auto simp: pieces_alt piece_def Let_def windows max_def min_def)
qed


text \<open>Where the zone type of an interval that does not cross a limit comes from.\<close>

lemma interval_type:
  assumes "interval_ok p"
  shows "zone_type_of (of_nat (fst p)) < NR_ZONE_TYPES"
    "window_lo (zone_type_of (of_nat (fst p))) \<le> fst p" "snd p \<le> window_hi (zone_type_of (of_nat (fst p)))"
    "unat (of_nat (fst p) :: u32) = fst p" "unat (of_nat (snd p - fst p) :: u32) = snd p - fst p"
proof -
  obtain t where t: "t < NR_ZONE_TYPES" "window_lo t \<le> fst p" "snd p \<le> window_hi t"
    using assms by (auto simp: interval_ok_def)
  have b: "fst p < snd p" "snd p < 2 ^ 32" using assms by (auto simp: interval_ok_def)
  show u: "unat (of_nat (fst p) :: u32) = fst p" "unat (of_nat (snd p - fst p) :: u32) = snd p - fst p"
    using b by (simp_all add: unat_of_nat take_bit_nat_eq_self del: of_nat_diff)
  have "t = 0 \<or> t = 1 \<or> t = 2" using t(1) by (auto simp: NR_ZONE_TYPES_def)
  then have "zone_type_of (of_nat (fst p)) = t"
    using t(2,3) b u(1) dvd_limits
    by (auto simp: zone_type_of_def word_less_nat_alt limits windows zone_consts(1-3))
  with t show "zone_type_of (of_nat (fst p)) < NR_ZONE_TYPES"
    "window_lo (zone_type_of (of_nat (fst p))) \<le> fst p" "snd p \<le> window_hi (zone_type_of (of_nat (fst p)))"
    by simp_all
qed

text \<open>The zones are exactly the intervals, in order, and each chain lists those of its type.\<close>

definition zones_are :: "mm \<Rightarrow> (nat \<times> nat) list \<Rightarrow> bool" where
  "zones_are m Z \<longleftrightarrow>
     (\<forall>i<length Z. base_addr (zones m i) = of_nat (fst (Z ! i)) \<and>
        zsize (zones m i) = of_nat (snd (Z ! i) - fst (Z ! i))) \<and>
     (\<forall>t<NR_ZONE_TYPES. fast_zone_entry m t = filter (\<lambda>i. zone_type_of (of_nat (fst (Z ! i))) = t) [0..<length Z])"

lemma zone_type_mono: "a \<le> b \<Longrightarrow> zone_type_of a \<le> zone_type_of b"
proof -
  assume "a \<le> b"
  moreover have "ZONE_DMA_LIMIT \<le> ZONE_NORMAL_LIMIT" by (simp add: zone_consts)
  ultimately show ?thesis by (auto simp: zone_type_of_def ZONE_DMA_def ZONE_NORMAL_def ZONE_HIGHMEM_def)
qed

lemma by_type:
  "(if t = ZONE_DMA then F ZONE_DMA else if t = ZONE_NORMAL then F ZONE_NORMAL
    else if t = ZONE_HIGHMEM then F ZONE_HIGHMEM else d) = (if t < NR_ZONE_TYPES then F t else d)"
proof -
  consider "t = 0" | "t = 1" | "t = 2" | "3 \<le> t" by linarith
  then show ?thesis by cases (simp_all add: zone_consts(1-4))
qed

lemma mem_zones_create_zones:
  assumes "map_ok ms" and "map_zones ms \<noteq> []" and "length (map_zones ms) < NR_ZONES"
  shows "\<exists>m. mem_zones_create ms = Some m \<and> zones_are m (map_zones ms) \<and>
    (\<forall>i. bflags (zones m i) = (\<lambda>_. 0))"
proof -
  let ?Z = "map_zones ms" and ?n = "length (map_zones ms)"
  let ?s = "place 0 ?Z zero_table"
  let ?addr = "\<lambda>i. base_addr (zt_zone ?s i)"
  note ok = map_zones_ok [OF assms(1)]
  have l: "zones_loop ms 0 0 zero_table = Some ?s"
    using zones_loop_place [OF assms(1), of 0 0 zero_table] assms(3) by simp
  have addr: "?addr i = of_nat (fst (?Z ! i))" if "i < ?n" for i
    using that by (simp add: zt_place_zone)
  have iv: "interval_ok (?Z ! i)" if "i < ?n" for i using ok that by simp
  have mono: "types_mono ?addr ?n"
    unfolding types_mono_def
  proof (intro allI impI)
    fix j i assume j: "j < ?n" and i: "i \<le> j"
    have "fst (?Z ! i) \<le> fst (?Z ! j)"
    proof (cases "i = j")
      case False
      then have "snd (?Z ! i) \<le> fst (?Z ! j)"
        using ok i j sorted_wrt_nth_less [of "\<lambda>p q. snd p \<le> fst q" ?Z i j] by (simp add: ascending_def)
      moreover have "fst (?Z ! i) < snd (?Z ! i)" using iv [of i] i j by (simp add: interval_ok_def)
      ultimately show ?thesis by simp
    qed simp
    then have "?addr i \<le> ?addr j"
      using interval_type(4) [OF iv [of i]] interval_type(4) [OF iv [of j]] i j by (simp add: addr word_le_nat_alt)
    then show "zone_type_of (?addr i) \<le> zone_type_of (?addr j)" by (rule zone_type_mono)
  qed
  have nx: "zt_next ?s j = (if Suc j < ?n then Some (Suc j) else None)" if "j < ?n" for j
    using that by (simp add: zt_place_next)
  have f: "init_fast_zone_entry ?s = Some (cut_next ?addr ?n 0 (zt_next ?s), first_fast ?addr ?n 0 (\<lambda>_. None))"
    using fast_loop_run [OF mono, of 0 "zt_next ?s" "Suc NR_ZONES" "\<lambda>_. None"] nx assms(2,3)
    by (simp add: init_fast_zone_entry_def)
  have c: "chain (Suc NR_ZONES) (cut_next ?addr ?n 0 (zt_next ?s)) (first_fast ?addr ?n 0 (\<lambda>_. None) t) =
      Some (filter (\<lambda>j. zone_type_of (?addr j) = t) [0..<?n])" for t
    by (rule chain_type [OF mono]) (use nx assms(3) in auto)
  have e: "filter (\<lambda>j. zone_type_of (?addr j) = t) [0..<?n] =
      filter (\<lambda>i. zone_type_of (of_nat (fst (?Z ! i))) = t) [0..<?n]" for t
    by (rule filter_cong) (auto simp: addr)
  let ?m = "\<lparr>zones = zt_zone ?s,
    fast_zone_entry = (\<lambda>t. if t < NR_ZONE_TYPES then filter (\<lambda>i. zone_type_of (of_nat (fst (?Z ! i))) = t) [0..<?n] else [])\<rparr>"
  have "mem_zones_create ms = Some ?m"
    by (simp add: mem_zones_create_def l f c e)
      (rule ext, rule by_type [where F = "\<lambda>t. filter (\<lambda>i. zone_type_of (of_nat (fst (?Z ! i))) = t) [0..<?n]"])
  moreover have "zones_are ?m ?Z" by (simp add: zones_are_def zt_place_zone)
  moreover have "bflags (zones ?m i) = (\<lambda>_. 0)" for i
    by (simp add: zt_place_zone zero_table_def zero_zone_def)
  ultimately show ?thesis by blast
qed


lemma ascending_nth:
  "ascending Z \<Longrightarrow> i < j \<Longrightarrow> j < length Z \<Longrightarrow> snd (Z ! i) \<le> fst (Z ! j)"
  using sorted_wrt_nth_less [of "\<lambda>p q. snd p \<le> fst q" Z i j] by (simp add: ascending_def)

lemma zones_are_nth:
  assumes "zones_are m Z" "\<forall>p\<in>set Z. interval_ok p" "i < length Z"
  shows "unat (base_addr (zones m i)) = fst (Z ! i)" "unat (zsize (zones m i)) = snd (Z ! i) - fst (Z ! i)"
  using assms interval_type(4,5) [of "Z ! i"] by (auto simp: zones_are_def simp del: of_nat_diff)

lemma zones_are_in_zone:
  assumes "zones_are m Z" "\<forall>p\<in>set Z. interval_ok p" "i < length Z"
  shows "in_zone (zones m i) a \<longleftrightarrow> fst (Z ! i) \<le> unat a \<and> unat a < snd (Z ! i)"
proof -
  note n = zones_are_nth [OF assms]
  have ok: "interval_ok (Z ! i)" using assms by simp
  then have "unat (base_addr (zones m i) + zsize (zones m i)) = snd (Z ! i)"
    by (simp add: unat_word_ariths n interval_ok_def)
  then show ?thesis by (simp add: in_zone_def word_le_nat_alt word_less_nat_alt n)
qed

lemma interval_zone_type:
  assumes "interval_ok p" "fst p \<le> unat a" "unat a < snd p"
  shows "zone_type_of (of_nat (fst p)) = zone_type_of a"
proof -
  note t = interval_type [OF assms(1)]
  have "fst p < DMA \<Longrightarrow> snd p \<le> DMA" "DMA \<le> fst p \<Longrightarrow> fst p < NORMAL \<Longrightarrow> snd p \<le> NORMAL"
    using t(2,3) dvd_limits by (auto simp: zone_type_of_def word_less_nat_alt limits t(4) window_lo_def window_hi_def zone_consts(1-3) split: if_splits)
  then show ?thesis using assms(2,3)
    by (auto simp: zone_type_of_def word_less_nat_alt limits t(4))
qed

text \<open>The pages of the zones.\<close>

lemma zones_are_phys:
  assumes "zones_are m Z" "\<forall>p\<in>set Z. interval_ok p"
  shows "phys_to_zone m a \<noteq> None \<longleftrightarrow> (\<exists>p\<in>set Z. fst p \<le> unat (PAGE_FLOOR a) \<and> unat (PAGE_FLOOR a) < snd p)"
proof -
  let ?a = "PAGE_FLOOR a"
  have t: "zone_type_of ?a < NR_ZONE_TYPES" by (simp add: zone_type_of_def zone_consts)
  have "phys_to_zone m a \<noteq> None \<longleftrightarrow> (\<exists>i\<in>set (fast_zone_entry m (zone_type_of ?a)). in_zone (zones m i) ?a)"
    by (auto simp: phys_to_zone_def find_None_iff Let_def)
  also have "\<dots> \<longleftrightarrow> (\<exists>i<length Z. zone_type_of (of_nat (fst (Z ! i))) = zone_type_of ?a \<and> in_zone (zones m i) ?a)"
    using assms(1) t by (auto simp: zones_are_def)
  also have "\<dots> \<longleftrightarrow> (\<exists>i<length Z. fst (Z ! i) \<le> unat ?a \<and> unat ?a < snd (Z ! i))"
    using zones_are_in_zone [OF assms] interval_zone_type assms(2) by (meson nth_mem)
  also have "\<dots> \<longleftrightarrow> (\<exists>p\<in>set Z. fst p \<le> unat ?a \<and> unat ?a < snd p)"
    by (metis in_set_conv_nth)
  finally show ?thesis .
qed

lemma map_zones_cover:
  assumes "map_ok ms" "4096 dvd x"
  shows "(\<exists>p\<in>set (map_zones ms). fst p \<le> x \<and> x < snd p) \<longleftrightarrow>
    (\<exists>r\<in>set (taken ms). unat (mp_base r) \<le> x \<and> x + 4096 \<le> map_end r)"
  using assms(1)
proof (induction ms)
  case (Cons m ms)
  note ok = map_ok_Cons [OF Cons.prems]
  show ?case using Cons.IH [OF ok(1)] piece_cover [OF ok(3) assms(2), of "map_end m"]
    by (auto simp: map_zones_def taken_Cons bex_Un)
qed (simp add: map_zones_def taken_def)

end
