(* ===== verification/Mem_Map_Spec.thy ===== *)
theory Mem_Map_Spec
  imports Mm_Init_Spec
begin

text \<open>
  The array of page structures and the page tables of the kernel (kernel/mm/init.c): the array
  lies in pages taken off the end of one zone and is at most one entry (12 bytes) longer than the
  room made for it, its slices make the zones a layout the page allocator can start on, and the
  tables map the kernel's linear window to the physical memory.
\<close>

subsection \<open>The array of pages\<close>

lemma by_type_concat:
  assumes "sorted (map f xs)" and "\<forall>x\<in>set xs. f x < (3 :: nat)"
  shows "filter (\<lambda>x. f x = 0) xs @ filter (\<lambda>x. f x = 1) xs @ filter (\<lambda>x. f x = 2) xs = xs"
  using assms
proof (induction xs)
  case (Cons x xs)
  have n: "filter (\<lambda>y. f y = t) xs = []" if "t < f x" for t
    using Cons.prems(1) that by (auto simp: filter_empty_conv)
  have "f x < 3" using Cons.prems(2) by simp
  then have "f x = 0 \<or> f x = 1 \<or> f x = 2" by linarith
  then show ?case using Cons.IH Cons.prems n [of 0] n [of 1] by auto
qed simp

lemma types_sorted:
  assumes "ascending Z" "\<forall>p\<in>set Z. interval_ok p"
  shows "sorted (map (\<lambda>i. zone_type_of (of_nat (fst (Z ! i)))) [0..<length Z])"
proof -
  have "zone_type_of (of_nat (fst (Z ! i))) \<le> zone_type_of (of_nat (fst (Z ! j)))"
    if "i < j" "j < length Z" for i j
  proof (rule zone_type_mono)
    have iv: "interval_ok (Z ! i)" "interval_ok (Z ! j)" using assms(2) that by simp_all
    have "snd (Z ! i) \<le> fst (Z ! j)" using ascending_nth [OF assms(1) that] .
    moreover have "fst (Z ! i) < snd (Z ! i)" using iv(1) by (simp add: interval_ok_def)
    ultimately show "(of_nat (fst (Z ! i)) :: u32) \<le> of_nat (fst (Z ! j))"
      by (simp add: word_le_nat_alt interval_type(4) [OF iv(1)] interval_type(4) [OF iv(2)])
  qed
  then show ?thesis by (auto simp: sorted_iff_nth_mono_less)
qed

lemma zones_are_all:
  assumes "zones_are m Z" "ascending Z" "\<forall>p\<in>set Z. interval_ok p"
  shows "zone_all_for_each m = [0..<length Z]"
proof -
  let ?f = "\<lambda>i. zone_type_of (of_nat (fst (Z ! i)))"
  have b: "\<forall>x\<in>set [0..<length Z]. ?f x < 3"
    using interval_type(1) assms(3) by (auto simp: NR_ZONE_TYPES_def)
  have "[ZONE_DMA..<NR_ZONE_TYPES] = [0, 1, 2]" by (simp add: zone_consts upt_rec)
  then have "zone_all_for_each m = fast_zone_entry m 0 @ fast_zone_entry m 1 @ fast_zone_entry m 2"
    by (simp add: zone_all_for_each_def zone_for_each_def)
  also have "\<dots> = filter (\<lambda>x. ?f x = 0) [0..<length Z] @ filter (\<lambda>x. ?f x = 1) [0..<length Z] @
      filter (\<lambda>x. ?f x = 2) [0..<length Z]"
    using assms(1) by (simp add: zones_are_def NR_ZONE_TYPES_def)
  also have "\<dots> = [0..<length Z]" by (rule by_type_concat [OF types_sorted [OF assms(2,3)] b])
  finally show ?thesis .
qed

text \<open>The pages before zone \<open>i\<close>.\<close>

definition npages :: "nat \<times> nat \<Rightarrow> nat" where
  "npages p = (snd p - fst p) div 4096"

definition pages_before :: "(nat \<times> nat) list \<Rightarrow> nat \<Rightarrow> nat" where
  "pages_before Z i = sum_list (map npages (take i Z))"

lemma pages_before_Suc: "i < length Z \<Longrightarrow> pages_before Z (Suc i) = pages_before Z i + npages (Z ! i)"
  by (simp add: pages_before_def take_Suc_conv_app_nth)

lemma pages_before_mono: "i \<le> j \<Longrightarrow> pages_before Z i \<le> pages_before Z j"
  by (simp add: pages_before_def) (metis le_add1 map_append sum_list_append take_add le_iff_add)

text \<open>What \<open>_mem_map_create\<close> gives each zone.\<close>

definition mapped_zone :: "mem_zone \<Rightarrow> nat \<Rightarrow> nat \<Rightarrow> mem_zone" where
  "mapped_zone z b e = z\<lparr>bbase := b, bend := e, bflags := (\<lambda>p. if b \<le> p \<and> p < e then 0 else bflags z p)\<rparr>"

lemma mem_map_run:
  assumes "\<And>j. k \<le> j \<Longrightarrow> j < length Z \<Longrightarrow> unat (zsize (zones m j)) = 4096 * npages (Z ! j)" and "k \<le> length Z"
  shows "fast_zone_entry (do_mem_map_create m [k..<length Z] (pages_before Z k)) = fast_zone_entry m \<and>
    zones (do_mem_map_create m [k..<length Z] (pages_before Z k)) =
     (\<lambda>i. if k \<le> i \<and> i < length Z then mapped_zone (zones m i) (pages_before Z i) (pages_before Z (Suc i))
          else zones m i)"
  using assms
proof (induction "length Z - k" arbitrary: k m)
  case 0
  then have "k = length Z" by simp
  then show ?case by (auto simp: fun_eq_iff)
next
  case (Suc d)
  have k: "k < length Z" using Suc.hyps(2) by simp
  let ?z = "mapped_zone (zones m k) (pages_before Z k) (pages_before Z (Suc k))"
  have "unat (zsize (zones m k) div PAGE_SIZE) = npages (Z ! k)"
    using Suc.prems(1) [of k] k by (simp add: unat_div unat_PAGE_SIZE)
  then have step: "do_mem_map_create m [k..<length Z] (pages_before Z k) =
      do_mem_map_create (set_zone m k ?z) [Suc k..<length Z] (pages_before Z (Suc k))"
    using k by (simp add: upt_rec [of k] Let_def mapped_zone_def pages_before_Suc)
  show ?case
    unfolding step using Suc.hyps(1) [of "Suc k" "set_zone m k ?z"] Suc.hyps(2) Suc.prems
    by (auto simp: fun_eq_iff)
qed


lemma npages_ok: "interval_ok p \<Longrightarrow> 0 < npages p \<and> snd p - fst p = 4096 * npages p"
  by (auto simp: interval_ok_def npages_def elim!: dvdE)

lemma mem_map_layout:
  assumes "zones_are m Z" "ascending Z" "\<forall>p\<in>set Z. interval_ok p"
  defines "m' \<equiv> do_mem_map_create m (zone_all_for_each m) 0"
  shows "layout_ok m'" "zone_all_for_each m' = zone_all_for_each m" "zones_are m' Z"
    "\<And>i. i < length Z \<Longrightarrow> bbase (zones m' i) = pages_before Z i \<and> bend (zones m' i) = pages_before Z (Suc i)"
    "\<And>i. i < length Z \<Longrightarrow> zone_clear (zones m' i)"
proof -
  have sz: "unat (zsize (zones m j)) = 4096 * npages (Z ! j)" if "j < length Z" for j
    using zones_are_nth(2) [OF assms(1,3) that] npages_ok [of "Z ! j"] assms(3) that by simp
  note all = zones_are_all [OF assms(1-3)]
  have run: "fast_zone_entry m' = fast_zone_entry m" "zones m' =
     (\<lambda>i. if i < length Z then mapped_zone (zones m i) (pages_before Z i) (pages_before Z (Suc i)) else zones m i)"
    using mem_map_run [of 0 Z m] sz by (simp_all add: m'_def all) (simp_all add: pages_before_def)
  show all': "zone_all_for_each m' = zone_all_for_each m"
    by (simp add: zone_all_for_each_def zone_for_each_def run)
  show za: "zones_are m' Z" using assms(1) by (simp add: zones_are_def run mapped_zone_def)
  show "bbase (zones m' i) = pages_before Z i \<and> bend (zones m' i) = pages_before Z (Suc i)" if "i < length Z" for i
    using that by (simp add: run mapped_zone_def)
  show "zone_clear (zones m' i)" if "i < length Z" for i
    using that by (simp add: run mapped_zone_def zone_clear_def mmap_test_private_def mmap_test_used_def)
  note n = zones_are_nth [OF za assms(3)]
  have ok: "interval_ok (Z ! i)" if "i < length Z" for i using assms(3) that by simp
  have b: "bbase (zones m' i) = pages_before Z i" "bend (zones m' i) = pages_before Z (Suc i)" if "i < length Z" for i
    using that by (simp_all add: run mapped_zone_def)
  have zok: "zone_ok t (zones m' i)" if "t < NR_ZONE_TYPES" "i \<in> set (fast_zone_entry m' t)" for t i
  proof -
    have i: "i < length Z" "zone_type_of (of_nat (fst (Z ! i))) = t"
      using za that by (auto simp: zones_are_def)
    note T = interval_type [OF ok [OF i(1)]]
    have sum: "unat (base_addr (zones m' i)) + unat (zsize (zones m' i)) = snd (Z ! i)"
      using ok [OF i(1)] by (simp add: n [OF i(1)] interval_ok_def)
    have lo: "window_lo t \<le> fst (Z ! i)" "snd (Z ! i) \<le> window_hi t" using T(2,3) i(2) by simp_all
    show ?thesis
      unfolding zone_ok_def sum
      using ok [OF i(1)] npages_ok [OF ok [OF i(1)]] lo
      by (auto simp: b [OF i(1)] n [OF i(1)] pages_before_Suc [OF i(1)] interval_ok_def word_le_nat_alt limits
          window_lo_def window_hi_def zone_consts(1-3))
  qed
  have apart: "zones_apart (zones m' i) (zones m' j)" if "i < j" "j < length Z" for i j
  proof -
    have i: "i < length Z" using that by simp
    have "pages_before Z (Suc i) \<le> pages_before Z j" using that by (intro pages_before_mono) simp
    moreover have "fst (Z ! i) + (snd (Z ! i) - fst (Z ! i)) \<le> fst (Z ! j)"
      using ascending_nth [OF assms(2) that] ok [OF i] by (simp add: interval_ok_def)
    ultimately show ?thesis by (simp add: zones_apart_def b n i that(2))
  qed
  have sym: "zones_apart z z' = zones_apart z' z" for z z' by (auto simp: zones_apart_def)
  show "layout_ok m'"
    unfolding layout_ok_def all' all
  proof (intro conjI ballI allI impI)
    fix i j assume "i \<in> set [0..<length Z]" "j \<in> set [0..<length Z]" "i \<noteq> j"
    then show "zones_apart (zones m' i) (zones m' j)"
      using apart [of i j] apart [of j i] sym by (cases "i < j") auto
  qed (use zok in auto)
qed

subsection \<open>Room for the array\<close>

lemma rest_le:
  fixes b s p q :: u32
  assumes "b \<le> q" "q \<le> p" "p \<le> b + s" "unat b + unat s < 2 ^ 32"
  shows "s + b - p \<le> s"
proof -
  have bp: "unat b \<le> unat p" using assms(1,2) by (simp add: word_le_nat_alt)
  have "unat (b + s) = unat b + unat s"
    using assms(4) by (subst unat_word_ariths(1)) simp
  then have "unat (b + s - p) = unat b + unat s - unat p" using assms(3) by (simp add: unat_sub)
  then show ?thesis using bp by (subst add.commute) (simp add: word_le_nat_alt)
qed

lemma cut_loop_run:
  assumes "cut_loop m load pgt_end is (r, mx, fx) = (r', mx', fx')" and "r \<le> mx"
    and "\<And>i. fx = Some i \<Longrightarrow> mx \<le> zsize (zones m i)" and "pa load \<le> pa (PAGE_ALIGN pgt_end)"
    and "\<And>i. i \<in> set is \<Longrightarrow> unat (base_addr (zones m i)) + unat (zsize (zones m i)) < 2 ^ 32"
  shows "r' \<le> mx' \<and> (\<forall>i. fx' = Some i \<longrightarrow> mx' \<le> zsize (zones m i) \<and> (i \<in> set is \<or> fx = Some i))"
  using assms
proof (induction "is" arbitrary: r mx fx)
  case (Cons k ks)
  let ?z = "zones m k" and ?p = "pa (PAGE_ALIGN pgt_end)"
  define real where "real = (if base_addr ?z \<le> pa load \<and> ?p \<le> base_addr ?z + zsize ?z
    then zsize ?z + base_addr ?z - ?p else zsize ?z)"
  have real: "real \<le> zsize ?z"
    unfolding real_def using Cons.prems(4) Cons.prems(5) [of k] by (auto intro!: rest_le)
  show ?case
  proof (cases "mx < real")
    case True
    then have c: "cut_loop m load pgt_end ks (real, real, Some k) = (r', mx', fx')"
      using Cons.prems(1) by (simp add: Let_def flip: real_def)
    have "r' \<le> mx' \<and> (\<forall>i. fx' = Some i \<longrightarrow> mx' \<le> zsize (zones m i) \<and> (i \<in> set ks \<or> Some k = Some i))"
      by (rule Cons.IH [OF c]) (use real Cons.prems(4,5) in auto)
    then show ?thesis by auto
  next
    case False
    then have c: "cut_loop m load pgt_end ks (real, mx, fx) = (r', mx', fx')"
      using Cons.prems(1) by (simp add: Let_def flip: real_def)
    have "r' \<le> mx' \<and> (\<forall>i. fx' = Some i \<longrightarrow> mx' \<le> zsize (zones m i) \<and> (i \<in> set ks \<or> fx = Some i))"
      by (rule Cons.IH [OF c]) (use False Cons.prems(3-5) in auto)
    then show ?thesis by auto
  qed
qed simp


lemma unat_PAGE_CEIL:
  assumes "unat a + 4095 < 2 ^ 32"
  shows "unat (PAGE_CEIL a) = (unat a + 4095) div 4096 * 4096"
proof -
  have "PAGE_CEIL a = PAGE_FLOOR (a + 4095)"
    by (simp add: PAGE_CEIL_def PAGE_ALIGN_def PAGE_FLOOR_def PAGE_SIZE_val add.commute)
  moreover have "unat (a + 4095) = unat a + 4095" using assms by (subst unat_word_ariths(1)) simp
  ultimately show ?thesis by (simp add: unat_PAGE_FLOOR)
qed

definition shrunk :: "(nat \<times> nat) list \<Rightarrow> nat \<Rightarrow> nat \<Rightarrow> (nat \<times> nat) list" where
  "shrunk Z i c = Z[i := (fst (Z ! i), snd (Z ! i) - c)]"

lemma shrunk_ok:
  assumes "ascending Z" "\<forall>p\<in>set Z. interval_ok p" "i < length Z" "c < snd (Z ! i) - fst (Z ! i)" "4096 dvd c"
  shows "ascending (shrunk Z i c)" "\<forall>p\<in>set (shrunk Z i c). interval_ok p" "length (shrunk Z i c) = length Z"
proof -
  have ok: "interval_ok (Z ! i)" using assms(2,3) by simp
  then have "interval_ok (fst (Z ! i), snd (Z ! i) - c)"
    using assms(4,5) by (auto simp: interval_ok_def dvd_diff_nat intro: order_trans [OF diff_le_self])
  then show "\<forall>p\<in>set (shrunk Z i c). interval_ok p"
    using assms(2) by (auto simp: shrunk_def dest!: set_update_subset_insert [THEN subsetD])
  show "ascending (shrunk Z i c)"
    unfolding ascending_def sorted_wrt_iff_nth_less
  proof (intro allI impI)
    fix j k assume jk: "j < k" "k < length (shrunk Z i c)"
    then have "snd (Z ! j) \<le> fst (Z ! k)" by (intro ascending_nth [OF assms(1)]) (simp_all add: shrunk_def)
    then show "snd (shrunk Z i c ! j) \<le> fst (shrunk Z i c ! k)"
      using jk assms(3) by (cases "j = i"; cases "k = i") (simp_all add: shrunk_def)
  qed
qed (simp add: shrunk_def)

lemma cut_zone_size_run:
  assumes "zones_are m Z" "ascending Z" "\<forall>p\<in>set Z. interval_ok p"
    and "cut_zone_size m load pgt_end need = Some (a, m')" and "pa load \<le> pa (PAGE_ALIGN pgt_end)"
    and "unat need + 4095 < 2 ^ 32"
  defines "c \<equiv> (unat need + 4095) div 4096 * 4096"
  shows "\<exists>i<length Z. c < snd (Z ! i) - fst (Z ! i) \<and> zones_are m' (shrunk Z i c) \<and>
    unat (pa a) = snd (Z ! i) - c \<and> (\<forall>j. bflags (zones m' j) = bflags (zones m j))"
proof -
  let ?l = "zone_for_each m ZONE_DMA ZONE_HIGHMEM"
  obtain r mx fx where r: "cut_loop m load pgt_end ?l (0, 0, None) = (r, mx, fx)" by (metis prod_cases3)
  with assms(4) obtain i where i: "fx = Some i" "\<not> r \<le> PAGE_CEIL need"
    and m': "a = va (base_addr (zones m i) + (zsize (zones m i) - PAGE_CEIL need))"
      "m' = set_zone m i ((zones m i)\<lparr>zsize := zsize (zones m i) - PAGE_CEIL need\<rparr>)"
    by (auto simp: cut_zone_size_def bind_eq_Some_conv)
  have sub: "set ?l \<subseteq> set (zone_all_for_each m)"
    by (force simp: zone_all_for_each_def zone_for_each_def zone_consts)
  have inl: "j < length Z" if "j \<in> set ?l" for j
    using sub that zones_are_all [OF assms(1-3)] by auto
  have nw: "unat (base_addr (zones m j)) + unat (zsize (zones m j)) < 2 ^ 32" if "j < length Z" for j
  proof -
    have "interval_ok (Z ! j)" using assms(3) that by simp
    then show ?thesis using zones_are_nth [OF assms(1,3) that] by (simp add: interval_ok_def)
  qed
  have cr: "r \<le> mx \<and> (\<forall>k. fx = Some k \<longrightarrow> mx \<le> zsize (zones m k) \<and> (k \<in> set ?l \<or> None = Some k))"
    by (rule cut_loop_run [OF r]) (use assms(5) nw inl in auto)
  then have il: "i < length Z" and rz: "r \<le> zsize (zones m i)" using i inl by auto
  note n = zones_are_nth [OF assms(1,3) il]
  have ok: "interval_ok (Z ! i)" using assms(3) il by simp
  have pc: "unat (PAGE_CEIL need) = c" unfolding c_def by (rule unat_PAGE_CEIL) (rule assms(6))
  have lt: "PAGE_CEIL need < zsize (zones m i)" using i(2) rz by (simp add: not_le)
  then have c: "c < snd (Z ! i) - fst (Z ! i)" using pc n by (simp add: word_less_nat_alt)
  have u: "unat (zsize (zones m i) - PAGE_CEIL need) = snd (Z ! i) - c - fst (Z ! i)"
    using lt by (simp add: unat_sub pc n add.commute)
  have z: "zsize (zones m i) - PAGE_CEIL need = of_nat (snd (Z ! i) - c - fst (Z ! i))"
    unfolding u [symmetric] by simp
  have "zsize (zones m i) = of_nat (snd (Z ! i) - fst (Z ! i))" using assms(1) il by (simp add: zones_are_def)
  with z have z': "of_nat (snd (Z ! i) - fst (Z ! i)) - PAGE_CEIL need = of_nat (snd (Z ! i) - (c + fst (Z ! i)))"
    by (simp del: of_nat_diff)
  have za: "zones_are m' (shrunk Z i c)"
    using assms(1) il
    by (auto simp: zones_are_def m'(2) shrunk_def nth_list_update z' simp del: of_nat_diff intro!: filter_cong)
  have ok': "\<forall>p\<in>set (shrunk Z i c). interval_ok p"
    by (rule shrunk_ok(2) [OF assms(2,3) il c]) (simp add: c_def)
  have "unat (base_addr (zones m' i) + zsize (zones m' i)) = snd (Z ! i) - c"
  proof -
    have il': "i < length (shrunk Z i c)" using il by (simp add: shrunk_def)
    have "interval_ok (shrunk Z i c ! i)" using ok' il' by simp
    moreover have "fst (Z ! i) + (snd (Z ! i) - (c + fst (Z ! i))) = snd (Z ! i) - c" using c by linarith
    ultimately show ?thesis using zones_are_nth [OF za ok' il'] il
      by (subst unat_word_ariths(1)) (simp add: interval_ok_def shrunk_def)
  qed
  then have "unat (pa a) = snd (Z ! i) - c" by (simp add: m' pa_def va_def)
  then show ?thesis using il c za by (auto simp: m'(2))
qed


text \<open>The size of the array.\<close>

lemma pages_before_bound:
  assumes "ascending Z" "\<forall>p\<in>set Z. interval_ok p"
  shows "i < length Z \<Longrightarrow> 4096 * pages_before Z (Suc i) \<le> snd (Z ! i)"
proof (induction i)
  case 0
  then have "interval_ok (Z ! 0)" using assms(2) by simp
  then have "4096 * npages (Z ! 0) \<le> snd (Z ! 0)" using npages_ok [of "Z ! 0"] by linarith
  then show ?case using 0 by (simp add: pages_before_Suc) (simp add: pages_before_def)
next
  case (Suc i)
  have "snd (Z ! i) \<le> fst (Z ! Suc i)" using ascending_nth [OF assms(1), of i "Suc i"] Suc.prems by simp
  moreover have "interval_ok (Z ! Suc i)" using assms(2) Suc.prems by simp
  then have "snd (Z ! Suc i) - fst (Z ! Suc i) = 4096 * npages (Z ! Suc i)" "fst (Z ! Suc i) < snd (Z ! Suc i)"
    using npages_ok by (auto simp: interval_ok_def)
  ultimately show ?case using Suc by (simp add: pages_before_Suc)
qed

lemma fold_sizes:
  "fold (\<lambda>i n. n + ucast (f i :: u32)) is (of_nat k) = (of_nat (k + sum_list (map (\<lambda>i. unat (f i)) is)) :: u64)"
proof (induction "is" arbitrary: k)
  case (Cons i "is")
  have "(of_nat k + ucast (f i) :: u64) = of_nat (k + unat (f i))" by (simp add: of_nat_unat)
  then show ?case using Cons.IH [of "k + unat (f i)"] by (simp add: add.assoc)
qed simp

lemma sum_upt_nth: "length xs = n \<Longrightarrow> sum_list (map (\<lambda>i. f (xs ! i)) [0..<n]) = sum_list (map f xs)"
  by (rule arg_cong [of _ _ sum_list]) (simp add: list_eq_iff_nth_eq)

lemma usable_size_pages:
  assumes "zones_are m Z" "ascending Z" "\<forall>p\<in>set Z. interval_ok p"
  shows "usable_size (mem_info_init ms m) = of_nat (4096 * pages_before Z (length Z))"
proof -
  have "map (\<lambda>i. unat (zsize (zones m i))) [0..<length Z] = map (\<lambda>i. 4096 * npages (Z ! i)) [0..<length Z]"
    using zones_are_nth(2) [OF assms(1,3)] npages_ok assms(3) by (intro map_cong) auto
  then have "sum_list (map (\<lambda>i. unat (zsize (zones m i))) [0..<length Z]) =
      sum_list (map (\<lambda>i. 4096 * npages (Z ! i)) [0..<length Z])"
    by (rule arg_cong)
  also have "\<dots> = 4096 * pages_before Z (length Z)"
    using sum_upt_nth [OF refl, of npages Z]
    by (simp add: pages_before_def sum_list_const_mult)
  finally have "sum_list (map (\<lambda>i. unat (zsize (zones m i))) [0..<length Z]) = 4096 * pages_before Z (length Z)" .
  then show ?thesis
    using fold_sizes [of "\<lambda>i. zsize (zones m i)" "[0..<length Z]" 0]
    by (simp add: mem_info_init_def zones_are_all [OF assms] case_prod_unfold Let_def)
qed

lemma array_arith:
  fixes N q need c :: nat
  assumes "q = 12 * (4096 * N) div 4108" "need = q div 12 * 12" "c = (need + 4095) div 4096"
  shows "12 * N \<le> 4108 * c + 12"
proof -
  have "12 * (4096 * N) < 4108 * q + 4108"
    unfolding assms(1) using dividend_less_times_div [of 4108 "12 * (4096 * N)"] by simp
  moreover have "q < need + 12"
    unfolding assms(2) using dividend_less_times_div [of 12 q] by (simp add: mult.commute)
  moreover have "need + 4095 < 4096 * c + 4096"
    unfolding assms(3) using dividend_less_times_div [of 4096 "need + 4095"] by simp
  ultimately have b: "49152 * N \<le> 16826368 * c + 49295" by linarith
  show ?thesis
  proof (rule ccontr)
    assume "\<not> 12 * N \<le> 4108 * c + 12"
    then have "1027 * c + 4 \<le> 3 * N" by linarith
    with b show False by linarith
  qed
qed


text \<open>The pages of all zones together.\<close>

definition mapped_pages :: "mm \<Rightarrow> nat" where
  "mapped_pages m = sum_list (map (\<lambda>i. bend (zones m i) - bbase (zones m i)) (zone_all_for_each m))"

lemma pages_before_shrunk:
  assumes "i < length Z" "interval_ok (Z ! i)" "4096 * d < snd (Z ! i) - fst (Z ! i)"
  shows "pages_before (shrunk Z i (4096 * d)) (length Z) = pages_before Z (length Z) - d"
    "d \<le> pages_before Z (length Z)"
proof -
  have n: "npages (fst (Z ! i), snd (Z ! i) - 4096 * d) = npages (Z ! i) - d" "d \<le> npages (Z ! i)"
    using npages_ok [OF assms(2)] assms(3) by (simp_all add: npages_def diff_commute [of _ "4096 * d"] flip: diff_mult_distrib2)
  have "map npages (shrunk Z i (4096 * d)) = (map npages Z)[i := npages (Z ! i) - d]"
    by (simp add: shrunk_def map_update n)
  moreover have "npages (Z ! i) \<le> sum_list (map npages Z)"
    using elem_le_sum_list [of i "map npages Z"] assms(1) by simp
  ultimately show "pages_before (shrunk Z i (4096 * d)) (length Z) = pages_before Z (length Z) - d"
    "d \<le> pages_before Z (length Z)"
    using assms(1) n(2) by (simp_all add: pages_before_def sum_list_update shrunk_def)
qed

lemma shrunk_cover:
  assumes "ascending Z" "\<forall>p\<in>set Z. interval_ok p" "i < length Z" "c < snd (Z ! i) - fst (Z ! i)"
  shows "(\<exists>p\<in>set (shrunk Z i c). fst p \<le> x \<and> x < snd p) \<longleftrightarrow>
    (\<exists>p\<in>set Z. fst p \<le> x \<and> x < snd p) \<and> \<not> (snd (Z ! i) - c \<le> x \<and> x < snd (Z ! i))"
proof -
  have nth: "(\<exists>p\<in>set xs. P p) \<longleftrightarrow> (\<exists>j<length xs. P (xs ! j))" for xs and P :: "nat \<times> nat \<Rightarrow> bool"
    by (metis in_set_conv_nth)
  have ok: "fst (Z ! j) < snd (Z ! j)" if "j < length Z" for j
    using assms(2) that by (simp add: interval_ok_def)
  have one: "j = i" if "j < length Z" "fst (Z ! j) \<le> x" "x < snd (Z ! j)" "snd (Z ! i) - c \<le> x" "x < snd (Z ! i)" for j
    using that assms(3,4) ascending_nth [OF assms(1), of i j] ascending_nth [OF assms(1), of j i] ok
    by (cases i j rule: linorder_cases) auto
  show ?thesis
    unfolding nth
  proof
    assume "\<exists>j<length (shrunk Z i c). fst (shrunk Z i c ! j) \<le> x \<and> x < snd (shrunk Z i c ! j)"
    then obtain j where j: "j < length Z" "fst (shrunk Z i c ! j) \<le> x" "x < snd (shrunk Z i c ! j)"
      by (auto simp: shrunk_def)
    then have "fst (Z ! j) \<le> x" "x < snd (Z ! j)" "j = i \<Longrightarrow> x < snd (Z ! i) - c"
      using assms(3) by (cases "j = i"; simp add: shrunk_def)+
    with j(1) one show "(\<exists>j<length Z. fst (Z ! j) \<le> x \<and> x < snd (Z ! j)) \<and> \<not> (snd (Z ! i) - c \<le> x \<and> x < snd (Z ! i))"
      by (metis not_le)
  next
    assume "(\<exists>j<length Z. fst (Z ! j) \<le> x \<and> x < snd (Z ! j)) \<and> \<not> (snd (Z ! i) - c \<le> x \<and> x < snd (Z ! i))"
    then obtain j where "j < length Z" "fst (Z ! j) \<le> x" "x < snd (Z ! j)" "\<not> (snd (Z ! i) - c \<le> x \<and> x < snd (Z ! i))"
      by blast
    then show "\<exists>j<length (shrunk Z i c). fst (shrunk Z i c ! j) \<le> x \<and> x < snd (shrunk Z i c ! j)"
      using assms(3) by (intro exI [of _ j], cases "j = i") (auto simp: shrunk_def)
  qed
qed

lemma mem_map_create_run:
  assumes "map_ok ms" and "map_zones ms \<noteq> []" and "length (map_zones ms) < NR_ZONES"
    and "mem_zones_create ms = Some m"
    and "mem_map_create m (mem_info_init ms m) load pgt_end = Some (a, m')"
    and "pa load \<le> pa (PAGE_ALIGN pgt_end)"
  shows "layout_ok m' \<and> (\<forall>i\<in>set (zone_all_for_each m'). zone_clear (zones m' i)) \<and>
    (\<exists>hi. 12 * mapped_pages m' \<le> hi - unat (pa a) + 12 \<and>
       (\<forall>x. phys_to_zone m' x \<noteq> None \<longleftrightarrow> phys_to_zone m x \<noteq> None \<and>
          \<not> (unat (pa a) \<le> unat (PAGE_FLOOR x) \<and> unat (PAGE_FLOOR x) < hi)))"
proof -
  let ?Z = "map_zones ms"
  define N where "N = pages_before ?Z (length ?Z)"
  have za: "zones_are m ?Z" using mem_zones_create_zones [OF assms(1-3)] assms(4) by auto
  note ok = conjunct1 [OF map_zones_ok [OF assms(1)]] conjunct2 [OF map_zones_ok [OF assms(1)]]
  have N: "4096 * N < 2 ^ 32"
  proof -
    obtain l where l: "length ?Z = Suc l" using assms(2) by (cases "length ?Z") auto
    then have "4096 * N \<le> snd (?Z ! l)" using pages_before_bound [OF ok, of l] by (simp add: N_def)
    moreover have "interval_ok (?Z ! l)" using ok(2) l by simp
    ultimately show ?thesis by (simp add: interval_ok_def)
  qed
  obtain q r m1 where d: "do_div64 (ucast SIZEOF_PAGE * usable_size (mem_info_init ms m)) (PAGE_SIZE + SIZEOF_PAGE) = Some (q, r)"
    and cut: "cut_zone_size m load pgt_end (align_down (ucast q) SIZEOF_PAGE) = Some (a, m1)"
    and m': "m' = do_mem_map_create m1 (zone_all_for_each m1) 0"
    using assms(5) by (auto simp: mem_map_create_def Let_def bind_eq_Some_conv split: prod.splits)
  let ?need = "align_down (ucast q) SIZEOF_PAGE"
  have "ucast SIZEOF_PAGE * usable_size (mem_info_init ms m) = of_nat (12 * (4096 * N))"
    by (simp add: usable_size_pages [OF za ok] N_def SIZEOF_PAGE_def)
  moreover have "unat (of_nat (12 * (4096 * N)) :: u64) = 12 * (4096 * N)"
    using N by (simp add: unat_of_nat take_bit_nat_eq_self del: of_nat_mult)
  moreover have "PAGE_SIZE + SIZEOF_PAGE = 4108" by (simp add: PAGE_SIZE_val SIZEOF_PAGE_def)
  ultimately have q: "unat q = 12 * (4096 * N) div 4108"
    using do_div64_spec [of "PAGE_SIZE + SIZEOF_PAGE" "ucast SIZEOF_PAGE * usable_size (mem_info_init ms m)"] d by auto
  have "4108 * unat q \<le> 12 * (4096 * N)" unfolding q by (rule times_div_less_eq_dividend)
  then have ql: "unat q < 2 ^ 32 - 4096" using N by simp
  then have "unat (ucast q :: u32) = unat q" by (simp add: unsigned_ucast_eq take_bit_nat_eq_self)
  then have need: "unat ?need = unat q div 12 * 12"
    using ql by (simp add: align_down_def SIZEOF_PAGE_def unat_word_ariths(2) unat_div)
  let ?d = "(unat ?need + 4095) div 4096"
  have "unat q div 12 * 12 \<le> unat q" by simp
  then have nl: "unat ?need + 4095 < 2 ^ 32" unfolding need using ql by simp
  have "\<exists>i<length ?Z. 4096 * ?d < snd (?Z ! i) - fst (?Z ! i) \<and> zones_are m1 (shrunk ?Z i (4096 * ?d)) \<and>
      unat (pa a) = snd (?Z ! i) - 4096 * ?d"
    using cut_zone_size_run [OF za ok cut assms(6) nl] unfolding mult.commute [of _ 4096] by blast
  then obtain i where i: "i < length ?Z" "4096 * ?d < snd (?Z ! i) - fst (?Z ! i)" "zones_are m1 (shrunk ?Z i (4096 * ?d))"
    "unat (pa a) = snd (?Z ! i) - 4096 * ?d"
    by blast
  have iv: "interval_ok (?Z ! i)" using ok i(1) by simp
  note sh = shrunk_ok [OF ok i(1,2) dvd_triv_left]
  note L = mem_map_layout [OF i(3) sh(1,2), folded m']
  have n: "mapped_pages m' = N - ?d"
  proof -
    let ?S = "shrunk ?Z i (4096 * ?d)"
    have "mapped_pages m' = sum_list (map (\<lambda>j. npages (?S ! j)) [0..<length ?S])"
      unfolding mapped_pages_def L(2) zones_are_all [OF i(3) sh(1,2)]
      by (rule arg_cong [of _ _ sum_list], rule map_cong) (simp_all add: L(4) pages_before_Suc)
    also have "\<dots> = pages_before ?S (length ?S)" using sum_upt_nth [OF refl, of npages ?S] by (simp add: pages_before_def)
    finally show ?thesis using pages_before_shrunk(1) [OF i(1) iv i(2)] sh(3) by (simp add: N_def)
  qed
  have fit: "12 * mapped_pages m' \<le> snd (?Z ! i) - unat (pa a) + 12"
    using array_arith [OF q need refl] i(2,4) by (simp add: n)
  have cover: "phys_to_zone m' x \<noteq> None \<longleftrightarrow> phys_to_zone m x \<noteq> None \<and>
      \<not> (unat (pa a) \<le> unat (PAGE_FLOOR x) \<and> unat (PAGE_FLOOR x) < snd (?Z ! i))" for x
    unfolding zones_are_phys [OF L(3) sh(2)] zones_are_phys [OF za ok(2)] i(4)
    by (rule shrunk_cover [OF ok i(1,2)])
  show ?thesis
    using L(1) fit cover L(5) by (auto simp: L(2) zones_are_all [OF i(3) sh(1,2)])
qed

end
