(* ===== verification/Paging_Spec.thy ===== *)
theory Paging_Spec
  imports Mem_Map_Spec
begin

text \<open>
  What \<open>paging_init\<close> (kernel/mm/init.c) builds: the walk of the processor through the directory
  and the tables takes the linear address of every physical address below the end of low memory
  back to it, and the tables lie where \<open>__kernel_pgt_base\<close> and \<open>__kernel_pgt_end\<close> say.
\<close>

subsection \<open>The page tables of the kernel\<close>

text \<open>The walk the processor makes: the directory entry gives the table, whose entries are those of
  the array from \<open>__kernel_pgt_base\<close> on.\<close>

definition kernel_translate :: "kernel_paging \<Rightarrow> u32 \<Rightarrow> u32 option" where
  "kernel_translate k v =
     (let d = kp_dir k (unat (pgd_index v))
      in if pgd_present d
         then let t = kp_tab k (unat (pgd_page d - pa (kp_pgt_base k)) div 4 + unat (pgt_index v))
              in if pgt_present t then Some (pgt_page t OR page_offset v) else None
         else None)"

lemma fold_upd: "fold (\<lambda>i f. f(i := g i)) [a..<b] f j = (if a \<le> j \<and> j < b then g j else f j)"
proof (induction "b - a" arbitrary: a f)
  case (Suc n)
  then have "a < b" by simp
  moreover have "fold (\<lambda>i f. f(i := g i)) [Suc a..<b] (f(a := g a)) j = (if Suc a \<le> j \<and> j < b then g j else (f(a := g a)) j)"
    using Suc by simp
  ultimately show ?case by (cases "j = a") (auto simp: upt_conv_Cons)
qed auto

lemma fill_tab_nth:
  "fill_tab a b tab j = (if a \<le> j \<and> j < b then mk_pgt (of_nat (j - a) * PAGE_SIZE) (PAGE_PRESENT OR PAGE_RW) else tab j)"
  by (simp add: fill_tab_def fold_upd)

lemma pgd_first_val: "pgd_first = 768"
  by (simp add: pgd_first_def page_ops page_consts)

lemma fill_dir_nth:
  "fill_dir base dir j =
    (if j < 768 then mk_pgd 0 0
     else if j < 1024 then mk_pgd (pa (base + 4 * of_nat (1024 * (j - 768)))) (PAGE_PRESENT OR PAGE_RW) else dir j)"
  unfolding fill_dir_def Let_def fold_upd by (auto simp: pgd_first_val PTRS_PER_PGD_def PTRS_PER_PGT_def)

lemma unat_pgd_index: "unat (pgd_index a) = unat a div 2 ^ 22"
proof -
  have "pgd_index a = drop_bit 22 a"
    by (rule bit_word_eqI) (auto simp: bit_drop_bit_eq add.commute)
  then show ?thesis by (simp add: drop_bit_eq_div unat_div)
qed

lemma unat_pgt_index: "unat (pgt_index a) = unat a div 4096 mod 1024"
proof -
  have "pgt_index a = take_bit 10 (drop_bit 12 a)"
    by (rule bit_word_eqI) (auto simp: bit_simps add.commute)
  then show ?thesis by (simp add: drop_bit_eq_div take_bit_eq_mod unat_div unat_mod)
qed

lemma unat_page_offset: "unat (page_offset a) = unat a mod 4096"
proof -
  have "page_offset a = take_bit 12 a"
    by (rule bit_word_eqI) (auto simp: bit_simps)
  then show ?thesis by (simp add: take_bit_eq_mod unat_mod)
qed

lemma entry_flags:
  assumes "unat a mod 4096 = 0"
  shows "pgd_present (mk_pgd a (PAGE_PRESENT OR PAGE_RW))" "pgd_page (mk_pgd a (PAGE_PRESENT OR PAGE_RW)) = a"
    "pgt_present (mk_pgt a (PAGE_PRESENT OR PAGE_RW))" "pgt_page (mk_pgt a (PAGE_PRESENT OR PAGE_RW)) = a"
proof -
  have "PAGE_FLOOR a = a"
    using assms by (intro word_unat_eq_iff [THEN iffD2]) (simp add: unat_PAGE_FLOOR mult.commute minus_mod_eq_mult_div [symmetric])
  then have o: "page_offset a = 0" by (simp add: page_offset_zero_iff)
  have f: "(PAGE_PRESENT OR PAGE_RW) AND PAGE_ADDR_MASK = 0" by (simp add: page_consts)
  show p: "pgt_page (mk_pgt a (PAGE_PRESENT OR PAGE_RW)) = a" using pgt_page_mk_pgt(1) [OF o f] .
  then show "pgd_page (mk_pgd a (PAGE_PRESENT OR PAGE_RW)) = a" by (simp add: pgd_page_def pgt_page_def mk_pgd_def mk_pgt_def)
  have b: "bit (pgt (mk_pgt a (PAGE_PRESENT OR PAGE_RW))) 0" by (simp add: mk_pgt_def page_consts bit_simps)
  have one: "pgt_check e PAGE_PRESENT \<noteq> 0" if "bit (pgt e) 0" for e
  proof -
    have "bit (pgt_check e PAGE_PRESENT) 0" using that by (simp add: pgt_check_def page_masks bit_simps) (simp add: PAGE_PRESENT_def)
    then show ?thesis by auto
  qed
  show q: "pgt_present (mk_pgt a (PAGE_PRESENT OR PAGE_RW))" using one [OF b] by (simp add: pgt_present_def)
  then show "pgd_present (mk_pgd a (PAGE_PRESENT OR PAGE_RW))"
    by (simp add: pgt_present_def pgd_present_def pgt_check_def pgd_check_def mk_pgt_def mk_pgd_def)
qed

lemma ceil_nat: "((n :: nat) + 1023) div 1024 = (if n mod 1024 \<noteq> 0 then n div 1024 + 1 else n div 1024)"
proof -
  have "n + 1023 = (n mod 1024 + 1023) + 1024 * (n div 1024)" by simp
  then have "(n + 1023) div 1024 = n div 1024 + (n mod 1024 + 1023) div 1024"
    by (simp only: div_mult_self2)
  moreover have "(n mod 1024 + 1023) div 1024 = (if n mod 1024 \<noteq> 0 then 1 else 0)"
    by (auto intro!: div_nat_eqI)
  ultimately show ?thesis by simp
qed

lemma unat_ceil_div: "unat (ceil_div n (of_nat PTRS_PER_PGT)) = (unat n + 1023) div 1024"
proof -
  have b: "unat n < 2 ^ LENGTH(32)" by (rule unsigned_less)
  have lt: "unat n div 1024 < 2 ^ 22" using b by (simp add: less_mult_imp_div_less)
  have "(n mod 1024 \<noteq> 0) = (unat n mod 1024 \<noteq> 0)" by (simp add: unat_mod flip: unat_eq_zero)
  moreover have "unat (n div 1024 + 1) = unat n div 1024 + 1"
    using lt by (subst unat_word_ariths(1)) (simp add: unat_div)
  ultimately show ?thesis unfolding ceil_nat by (simp add: ceil_div_def PTRS_PER_PGT_def unat_div)
qed

lemma low_entries_val: "low_entries i = 1024 * ((unat (virt_mem_size i) div 4096 + 1023) div 1024)"
  by (simp add: low_entries_def unat_ceil_div) (simp add: PTRS_PER_PGT_def unat_div unat_PAGE_SIZE)

lemma virt_mem_size_le: "unat (virt_mem_size i) \<le> 0x38000000"
proof (cases "ucast ZONE_NORMAL_LIMIT < usable_limit i")
  case True
  then show ?thesis by (simp add: virt_mem_size_def zone_consts)
next
  case False
  then have "unat (usable_limit i) \<le> 0x38000000" by (simp add: not_less word_le_nat_alt zone_consts)
  then show ?thesis using False by (simp add: virt_mem_size_def unsigned_ucast_eq take_bit_nat_eq_self)
qed

lemma kernel_translate_linear:
  assumes "unat (kp_pgt_base k) mod 4096 = 0" "PAGE_OFFSET \<le> kp_pgt_base k"
    and "unat (kp_pgt_base k) + 2 ^ 20 \<le> 2 ^ 32"
    and "unat x < unat (virt_mem_size i) div 4096 * 4096"
  shows "kernel_translate (do_paging_init i k) (va x) = Some x"
proof -
  let ?b = "kp_pgt_base k"
  have x: "unat x < 0x38000000" using assms(4) virt_mem_size_le [of i] by (meson div_times_less_eq_dividend le_less_trans not_le order_less_le_trans)
  have vx: "unat (va x) = unat x + 0xC0000000"
    using x unfolding va_def by (subst unat_word_ariths(1)) (simp add: page_consts)
  define d where "d = unat x div 2 ^ 22"
  have d: "unat (pgd_index (va x)) = 768 + d" "d < 256"
    using x by (simp_all add: unat_pgd_index vx d_def)
  let ?t = "pa (?b + 4 * of_nat (1024 * d))"
  have ub: "0xC0000000 \<le> unat ?b" using assms(2) by (simp add: word_le_nat_alt page_consts)
  have add: "unat (?b + 4 * of_nat (1024 * d)) = unat ?b + 4096 * d"
  proof -
    have "unat (4 * of_nat (1024 * d) :: u32) = 4096 * d"
      using d(2) by (subst unat_word_ariths(2)) (simp add: unat_of_nat take_bit_nat_eq_self del: of_nat_mult)
    then show ?thesis using d(2) assms(3) by (subst unat_word_ariths(1)) simp
  qed
  have ut: "unat ?t = unat ?b + 4096 * d - 0xC0000000"
    using ub add by (simp add: pa_def unat_sub word_le_nat_alt page_consts del: of_nat_mult)
  have "unat ?t mod 4096 = 0"
  proof -
    have "unat ?b = 4096 * (unat ?b div 4096)" using mult_div_mod_eq [of 4096 "unat ?b"] assms(1) by simp
    then have "unat ?t = 4096 * (unat ?b div 4096 + d - 0xC0000)" using ub unfolding ut by linarith
    then show ?thesis by simp
  qed
  note e = entry_flags(1,2) [OF this]
  have dir: "kp_dir (do_paging_init i k) (768 + d) = mk_pgd ?t (PAGE_PRESENT OR PAGE_RW)"
    using d(2) by (simp add: do_paging_init_def Let_def fill_dir_nth)
  have "pa ?b \<le> ?t" using ut ub by (simp add: word_le_nat_alt) (simp add: pa_def unat_sub word_le_nat_alt page_consts)
  then have "unat (?t - pa ?b) = 4096 * d"
    using ut ub by (simp add: unat_sub del: of_nat_mult) (simp add: pa_def unat_sub word_le_nat_alt page_consts)
  then have ti: "unat (?t - pa ?b) div 4 + unat (pgt_index (va x)) = unat x div 4096"
  proof -
    have "(unat x + 0xC0000000) div 4096 = unat x div 4096 + 768 * 1024"
      using div_mult_self1 [of 4096 "unat x" 786432] by simp
    then have "(unat x + 0xC0000000) div 4096 mod 1024 = unat x div 4096 mod 1024"
      by (simp only: mod_mult_self1)
    moreover have "1024 * d + unat x div 4096 mod 1024 = unat x div 4096"
      unfolding d_def using div_mult2_eq [of "unat x" 4096 1024] by simp
    ultimately show ?thesis using \<open>unat (?t - pa ?b) = 4096 * d\<close> by (simp add: unat_pgt_index vx)
  qed
  have n: "unat x div 4096 < low_entries i"
  proof -
    have "unat x div 4096 < unat (virt_mem_size i) div 4096" using assms(4) by (simp add: div_less_iff_less_mult)
    also have "\<dots> \<le> low_entries i" unfolding low_entries_val
      using dividend_less_times_div [of 1024 "unat (virt_mem_size i) div 4096 + 1023"] by simp
    finally show ?thesis .
  qed
  let ?f = "of_nat (unat x div 4096) * PAGE_SIZE :: u32"
  have uf: "unat ?f = unat x div 4096 * 4096"
    using x by (subst unat_word_ariths(2)) (simp add: unat_of_nat take_bit_nat_eq_self unat_PAGE_SIZE div_less_iff_less_mult)
  have tab: "kp_tab (do_paging_init i k) (unat x div 4096) = mk_pgt ?f (PAGE_PRESENT OR PAGE_RW)"
    using n by (simp add: do_paging_init_def Let_def fill_tab_nth)
  have f: "?f = PAGE_FLOOR x" by (rule word_unat_eq_iff [THEN iffD2]) (simp add: uf unat_PAGE_FLOOR)
  have "unat ?f mod 4096 = 0" by (simp add: uf)
  note g = entry_flags(3,4) [OF this]
  have "(unat x + 0xC0000000) mod 4096 = unat x mod 4096"
    using mod_mult_self1 [of "unat x" 786432 4096] by simp
  then have o: "page_offset (va x) = page_offset x"
    by (intro word_unat_eq_iff [THEN iffD2]) (simp add: unat_page_offset vx)
  have kb: "kp_pgt_base (do_paging_init i k) = ?b" by (simp add: do_paging_init_def Let_def)
  then show ?thesis
    unfolding kernel_translate_def Let_def d(1) dir e kb ti tab using e(1) g unfolding f by (simp add: o PAGE_FLOOR_offset)
qed

text \<open>Where the tables lie: \<open>PAGE_ALIGN(__end)\<close> is the directory, the tables follow.\<close>

lemma paging_init_tables:
  assumes "paging_init e i dir tab = Some k" and "unat (be_end e) + 2 ^ 21 < 2 ^ 32"
  shows "kp_pgt_base k = PAGE_CEIL (be_end e) + 4096"
    "unat (kp_pgt_base k) = (unat (be_end e) + 4095) div 4096 * 4096 + 4096"
    "unat (kp_pgt_end k) = unat (kp_pgt_base k) + 4096 * (32 + (unat (virt_mem_size i) div 4096 + 1023) div 1024)"
    "\<exists>k0. k = do_paging_init i k0 \<and> kp_pgt_base k0 = kp_pgt_base k"
proof -
  define base where "base = PAGE_ALIGN (be_end e) + 4 * of_nat PTRS_PER_PGD"
  define n where "n = (unat (virt_mem_size i) div 4096 + 1023) div 1024"
  define k0 where "k0 = \<lparr>kp_dir_addr = PAGE_ALIGN (be_end e), kp_pgt_base = base,
    kp_pgt_end = base + 4 * ((need_pages i - 1) * of_nat PTRS_PER_PGT), kp_dir = dir, kp_tab = tab\<rparr>"
  have k: "k = do_paging_init i k0"
    using assms(1) by (simp add: paging_init_def Let_def k0_def base_def bind_eq_Some_conv)
  then show "\<exists>k0. k = do_paging_init i k0 \<and> kp_pgt_base k0 = kp_pgt_base k"
    by (intro exI [of _ k0]) (simp add: do_paging_init_def Let_def)
  have b: "kp_pgt_base k = base" "kp_pgt_end k = base + 4 * ((need_pages i - 1) * of_nat PTRS_PER_PGT)"
    by (simp_all add: k do_paging_init_def Let_def k0_def)
  show B: "kp_pgt_base k = PAGE_CEIL (be_end e) + 4096"
    by (simp add: b(1) base_def PAGE_CEIL_def PTRS_PER_PGD_def)
  have c: "unat (PAGE_CEIL (be_end e)) = (unat (be_end e) + 4095) div 4096 * 4096"
    by (rule unat_PAGE_CEIL) (use assms(2) in simp)
  have le: "(unat (be_end e) + 4095) div 4096 * 4096 \<le> unat (be_end e) + 4095" by simp
  show U: "unat (kp_pgt_base k) = (unat (be_end e) + 4095) div 4096 * 4096 + 4096"
    unfolding B using c le assms(2) by (subst unat_word_ariths(1)) simp
  have n224: "n \<le> 224"
  proof -
    have "unat (virt_mem_size i) div 4096 \<le> 0x38000000 div 4096" using virt_mem_size_le [of i] by (rule div_le_mono)
    then have "unat (virt_mem_size i) div 4096 + 1023 < 225 * 1024" by simp
    then show ?thesis unfolding n_def using less_mult_imp_div_less by fastforce
  qed
  have cd: "ceil_div (virt_mem_size i div PAGE_SIZE) (of_nat PTRS_PER_PGT) = of_nat n"
    by (rule word_unat_eq_iff [THEN iffD2])
      (use n224 in \<open>simp add: unat_ceil_div unat_div unat_PAGE_SIZE n_def unat_of_nat take_bit_nat_eq_self\<close>)
  have "need_pages i - 1 = of_nat (32 + n)"
    by (simp add: need_pages_def cd) (simp add: ceil_div_def ZONE_HIGHMEM_SIZE_def PAGE_SIZE_val PTRS_PER_PGT_def)
  then have "4 * ((need_pages i - 1) * of_nat PTRS_PER_PGT) = (of_nat (4096 * (32 + n)) :: u32)"
    by (simp add: PTRS_PER_PGT_def)
  then have "unat (4 * ((need_pages i - 1) * of_nat PTRS_PER_PGT)) = 4096 * (32 + n)"
    using n224 by (simp add: unat_of_nat take_bit_nat_eq_self del: of_nat_mult of_nat_add)
  then show "unat (kp_pgt_end k) = unat (kp_pgt_base k) + 4096 * (32 + (unat (virt_mem_size i) div 4096 + 1023) div 1024)"
    using b U le assms(2) n224 unfolding n_def [symmetric] by (simp only: b(2) flip: b(1)) (subst unat_word_ariths(1), simp)
qed

lemma highmem_base_val:
  assumes "paging_init e i dir tab = Some k" and "unat (be_end e) + 2 ^ 21 < 2 ^ 32"
  shows "kernel_pgt_highmem_base k = kp_pgt_base k + 0xE0000"
proof -
  obtain k0 where k: "k = do_paging_init i k0" "kp_pgt_base k0 = kp_pgt_base k"
    using paging_init_tables(4) [OF assms] by blast
  let ?t = "pa (kp_pgt_base k + 4 * of_nat (1024 * 224))"
  have "unat (pgd_index (PAGE_OFFSET + ZONE_NORMAL_LIMIT)) = 992"
    by (simp add: unat_pgd_index page_consts zone_consts)
  then have d: "kp_dir k (unat (pgd_index (PAGE_OFFSET + ZONE_NORMAL_LIMIT))) = mk_pgd ?t (PAGE_PRESENT OR PAGE_RW)"
    using k(2) by (subst k(1)) (simp add: do_paging_init_def Let_def fill_dir_nth)
  have "page_offset ?t = 0"
  proof -
    have z: "unat (kp_pgt_base k) mod 4096 = 0" by (simp add: paging_init_tables(2) [OF assms])
    have "?t = kp_pgt_base k + 0x400E0000" by (simp add: pa_def page_consts)
    then have "unat ?t mod 4096 = (unat (kp_pgt_base k) + 0x400E0000) mod 2 ^ 32 mod 4096"
      by (simp add: unat_word_ariths(1))
    also have "\<dots> = (unat (kp_pgt_base k) + 0x400E0000) mod 4096"
      by (rule mod_mod_cancel) simp
    also have "\<dots> = 0" using z mod_mult_self1 [of "unat (kp_pgt_base k)" 262368 4096] by simp
    finally show ?thesis by (intro word_unat_eq_iff [THEN iffD2]) (simp add: unat_page_offset)
  qed
  then have "unat ?t mod 4096 = 0" by (metis unat_page_offset unat_0)
  then show ?thesis by (simp add: kernel_pgt_highmem_base_def d entry_flags(2) va_def pa_def)
qed

end
