(* ===== verification/Mm_Init_Props.thy ===== *)
theory Mm_Init_Props
  imports Paging_Spec
begin

text \<open>
  The properties of kernel/mm/init.c with their witnesses.
\<close>

subsection \<open>Zones\<close>

definition in_window :: "nat \<Rightarrow> mem_zone \<Rightarrow> bool" where
  "in_window t z \<longleftrightarrow> window_lo t \<le> unat (base_addr z) \<and>
     unat (base_addr z) + unat (zsize z) \<le> window_hi t \<and> 0 < unat (zsize z)"

lemma zones_are_window:
  assumes "zones_are m Z" "\<forall>p\<in>set Z. interval_ok p" "t < NR_ZONE_TYPES" "i \<in> set (fast_zone_entry m t)"
  shows "in_window t (zones m i)"
proof -
  have i: "i < length Z" "zone_type_of (of_nat (fst (Z ! i))) = t"
    using assms(1,3,4) by (auto simp: zones_are_def)
  have ok: "interval_ok (Z ! i)" using assms(2) i by simp
  show ?thesis
    using interval_type [OF ok] zones_are_nth [OF assms(1,2) i(1)] i(2) ok
    by (simp add: in_window_def interval_ok_def)
qed

text \<open>C28: On a memory map of ascending regions whose usable ones begin on a page,
  \<open>mem_zones_create\<close> succeeds; a physical address is then in a zone of the chain of its type
  exactly when its whole page lies in a usable region, and every zone of a chain lies between the
  limits of its type.\<close>

theorem mem_zones_create_spec:
  assumes "map_ok ms" and "map_zones ms \<noteq> []" and "length (map_zones ms) < NR_ZONES"
  shows "\<exists>m. mem_zones_create ms = Some m \<and>
    (\<forall>a. phys_to_zone m a \<noteq> None \<longleftrightarrow>
       (\<exists>r\<in>set (taken ms). unat (mp_base r) \<le> unat (PAGE_FLOOR a) \<and> unat (PAGE_FLOOR a) + 4096 \<le> map_end r)) \<and>
    (\<forall>t<NR_ZONE_TYPES. \<forall>i\<in>set (fast_zone_entry m t). in_window t (zones m i))"
proof -
  obtain m where m: "mem_zones_create ms = Some m" "zones_are m (map_zones ms)"
    using mem_zones_create_zones [OF assms] by auto
  have iv: "\<forall>p\<in>set (map_zones ms). interval_ok p" using map_zones_ok [OF assms(1)] by blast
  have d: "4096 dvd unat (PAGE_FLOOR a)" for a by (simp add: unat_PAGE_FLOOR)
  show ?thesis
  proof (intro exI [of _ m] conjI allI impI ballI)
    show "phys_to_zone m a \<noteq> None \<longleftrightarrow>
        (\<exists>r\<in>set (taken ms). unat (mp_base r) \<le> unat (PAGE_FLOOR a) \<and> unat (PAGE_FLOOR a) + 4096 \<le> map_end r)" for a
      unfolding zones_are_phys [OF m(2) iv] by (rule map_zones_cover [OF assms(1) d])
    show "in_window t (zones m i)" if "t < NR_ZONE_TYPES" "i \<in> set (fast_zone_entry m t)" for t i
      by (rule zones_are_window [OF m(2) iv that])
  qed (rule m(1))
qed

definition ex_bios :: "memory_map list" where
  "ex_bios = [\<lparr>mp_base = 0, mp_size = 0x9fc00, mp_type = MMAP_USABLE\<rparr>,
    \<lparr>mp_base = 0x9fc00, mp_size = 0x400, mp_type = 2\<rparr>,
    \<lparr>mp_base = 0x100000, mp_size = 0x3ef0000, mp_type = MMAP_USABLE\<rparr>]"

lemma ex_bios_ok:
  "map_ok ex_bios" "map_zones ex_bios = [(0, 0x9f000), (0x100000, 0x1000000), (0x1000000, 0x3ff0000)]"
  by (simp_all add: ex_bios_def map_ok_def map_end_def map_zones_def taken_def usable_def MMAP_USABLE_def
      pieces_alt piece_def windows DMA_def NORMAL_def)

theorem mem_zones_create_spec_witness:
  "\<exists>m. mem_zones_create ex_bios = Some m \<and> phys_to_zone m 0x9efff \<noteq> None \<and> phys_to_zone m 0x9f000 = None"
proof -
  have t: "set (taken ex_bios) = {ex_bios ! 0, ex_bios ! 2}"
    by (simp add: ex_bios_def taken_def usable_def map_end_def MMAP_USABLE_def)
  obtain m where m: "mem_zones_create ex_bios = Some m"
    "\<And>a. phys_to_zone m a \<noteq> None \<longleftrightarrow> (\<exists>r\<in>set (taken ex_bios). unat (mp_base r) \<le> unat (PAGE_FLOOR a) \<and>
        unat (PAGE_FLOOR a) + 4096 \<le> map_end r)"
    using mem_zones_create_spec [OF ex_bios_ok(1)] by (auto simp: ex_bios_ok(2) NR_ZONES_def)
  have "phys_to_zone m 0x9efff \<noteq> None"
    unfolding m(2) t by (simp add: ex_bios_def map_end_def unat_PAGE_FLOOR)
  moreover have "\<not> phys_to_zone m 0x9f000 \<noteq> None"
    unfolding m(2) t by (simp add: ex_bios_def map_end_def unat_PAGE_FLOOR)
  ultimately show ?thesis using m(1) by (intro exI [of _ m]) simp
qed

text \<open>The behaviour on a base that is not on a page: the region ends before the limit of 16 MB, and
  the sum of the aligned base and the size does not.  The second zone gets almost 4 GB.\<close>

lemma unaligned_tail:
  "add_to_zones_list s (Suc 0) 0x1000000 (- 1024) =
     Some (1, set_next ((set_next s (Suc 0) None)\<lparr>zt_zone := (zt_zone s)(Suc 0 := (zt_zone s (Suc 0))
       \<lparr>base_addr := 0x1000000, zsize := - 4096\<rparr>)\<rparr>) 0 (Some (Suc 0)))"
  by (subst add_to_zones_list.simps)
    (simp add: Let_def zone_consts page_ops page_consts NR_ZONES_def zone_piece_def set_next_def)

lemma unaligned_base_wraps:
  "\<exists>s'. add_to_zones_list s 0 0xffd800 0x2400 = Some (2, s') \<and>
     base_addr (zt_zone s' 1) = 0x1000000 \<and> zsize (zt_zone s' 1) = 0xfffff000"
  by (subst add_to_zones_list.simps)
    (simp add: Let_def zone_consts page_ops page_consts NR_ZONES_def zone_piece_def set_next_def
      unaligned_tail)

subsection \<open>The array of pages\<close>

text \<open>After \<open>mem_map_create\<close> the zones are a layout the page allocator can start on, their pages
  are those of before without a range that begins at the address of the array, and this range is at
  most one entry of 12 bytes shorter than the array.\<close>

theorem mem_map_create_spec:
  assumes "map_ok ms" and "map_zones ms \<noteq> []" and "length (map_zones ms) < NR_ZONES"
    and "mem_zones_create ms = Some m"
    and "mem_map_create m (mem_info_init ms m) load pgt_end = Some (a, m')"
    and "pa load \<le> pa (PAGE_ALIGN pgt_end)"
  shows "layout_ok m' \<and> (\<forall>i\<in>set (zone_all_for_each m'). zone_clear (zones m' i)) \<and>
    (\<exists>hi. 12 * mapped_pages m' \<le> hi - unat (pa a) + 12 \<and>
       (\<forall>x. phys_to_zone m' x \<noteq> None \<longleftrightarrow> phys_to_zone m x \<noteq> None \<and>
          \<not> (unat (pa a) \<le> unat (PAGE_FLOOR x) \<and> unat (PAGE_FLOOR x) < hi)))"
  by (rule mem_map_create_run [OF assms])

definition ex_map :: "memory_map list" where
  "ex_map = [\<lparr>mp_base = 0x100000, mp_size = 4210688, mp_type = MMAP_USABLE\<rparr>]"

lemma ex_map_ok: "map_ok ex_map" "map_zones ex_map = [(0x100000, 0x504000)]"
  by (simp_all add: ex_map_def map_ok_def map_end_def map_zones_def taken_def usable_def pieces_alt piece_def
      windows DMA_def NORMAL_def)

lemma ex_map_run:
  assumes m: "zones_are m [(0x100000, 0x504000)]"
  shows "mem_map_create m (mem_info_init ex_map m) 0xC0100000 0xC0120000 =
    Some (0xC0501000, do_mem_map_create (set_zone m 0 ((zones m 0)\<lparr>zsize := 0x401000\<rparr>)) [0] 0)"
    "mapped_pages (do_mem_map_create (set_zone m 0 ((zones m 0)\<lparr>zsize := 0x401000\<rparr>)) [0] 0) = 1025"
proof -
  have iv: "ascending [(0x100000, 0x504000)]" "\<forall>p\<in>set [(0x100000, 0x504000)]. interval_ok p"
    using map_zones_ok [OF ex_map_ok(1)] by (simp_all add: ex_map_ok(2))
  have u: "usable_size (mem_info_init ex_map m) = 4210688"
    using usable_size_pages [OF m iv] by (simp add: pages_before_def npages_def)
  have z: "base_addr (zones m 0) = 0x100000" "zsize (zones m 0) = 0x404000"
    using m by (simp_all add: zones_are_def)
  have all: "zone_all_for_each m = [0]" using zones_are_all [OF m iv] by simp
  have t: "zone_type_of 0x100000 = 0" by (simp add: zone_type_of_def zone_consts)
  have f: "zone_for_each m ZONE_DMA ZONE_HIGHMEM = [0]"
    using m t by (simp add: zone_for_each_def zones_are_def zone_consts upt_rec)
  show "mem_map_create m (mem_info_init ex_map m) 0xC0100000 0xC0120000 =
      Some (0xC0501000, do_mem_map_create (set_zone m 0 ((zones m 0)\<lparr>zsize := 0x401000\<rparr>)) [0] 0)"
    by (simp add: mem_map_create_def u do_div64_def SIZEOF_PAGE_def PAGE_SIZE_val align_down_def cut_zone_size_def f all z
        Let_def page_ops page_consts del: do_mem_map_create.simps)
  show "mapped_pages (do_mem_map_create (set_zone m 0 ((zones m 0)\<lparr>zsize := 0x401000\<rparr>)) [0] 0) = 1025"
    by (simp add: mapped_pages_def all Let_def PAGE_SIZE_val)
qed

text \<open>On this map the array does have the one entry too many: 1025 entries of 12 bytes at physical
  0x501000, where the region ends at 0x504000.\<close>

theorem mem_map_create_spec_witness:
  "\<exists>m m'. mem_zones_create ex_map = Some m \<and>
    mem_map_create m (mem_info_init ex_map m) 0xC0100000 0xC0120000 = Some (0xC0501000, m') \<and>
    layout_ok m' \<and> unat (pa 0xC0501000) + 12 * mapped_pages m' = 0x504000 + 12"
proof -
  obtain m where m: "mem_zones_create ex_map = Some m" "zones_are m [(0x100000, 0x504000)]"
    using mem_zones_create_zones [OF ex_map_ok(1)] by (auto simp: ex_map_ok(2) NR_ZONES_def)
  note run = ex_map_run [OF m(2)]
  have "layout_ok (do_mem_map_create (set_zone m 0 ((zones m 0)\<lparr>zsize := 0x401000\<rparr>)) [0] 0)"
    by (rule conjunct1, rule mem_map_create_spec [OF ex_map_ok(1) _ _ m(1) run(1)])
      (simp_all add: ex_map_ok(2) NR_ZONES_def page_ops page_consts)
  then show ?thesis using m(1) run by (intro exI [of _ m] exI conjI) (assumption | simp add: page_ops page_consts)+
qed

subsection \<open>Page tables\<close>

text \<open>C30: After \<open>paging_init\<close> the processor translates the linear address of every physical address in
  a whole page of low memory to that address, and no address below \<open>PAGE_OFFSET\<close>.\<close>

theorem kernel_linear_map:
  assumes "paging_init e i dir tab = Some k" and "PAGE_OFFSET \<le> be_end e" and "unat (be_end e) + 2 ^ 21 < 2 ^ 32"
  shows "(\<forall>x. unat x < unat (virt_mem_size i) div 4096 * 4096 \<longrightarrow> kernel_translate k (va x) = Some x) \<and>
    (\<forall>v<PAGE_OFFSET. kernel_translate k v = None)"
proof -
  obtain k0 where k: "k = do_paging_init i k0" "kp_pgt_base k0 = kp_pgt_base k"
    using paging_init_tables(4) [OF assms(1,3)] by blast
  note U = paging_init_tables(2) [OF assms(1,3)]
  have e: "unat PAGE_OFFSET \<le> unat (be_end e)" using assms(2) by (simp add: word_le_nat_alt)
  have ge: "unat (be_end e) \<le> unat (kp_pgt_base k)" "unat (kp_pgt_base k) \<le> unat (be_end e) + 8191"
    unfolding U using dividend_less_times_div [of 4096 "unat (be_end e) + 4095"] by simp_all
  have l: "kernel_translate k (va x) = Some x" if "unat x < unat (virt_mem_size i) div 4096 * 4096" for x
    unfolding k(1) by (rule kernel_translate_linear) (use U e ge assms(3) that k(2) in \<open>simp_all add: word_le_nat_alt\<close>)
  have "kernel_translate k v = None" if "v < PAGE_OFFSET" for v
  proof -
    have "unat v < 0xC0000000" using that by (simp add: word_less_nat_alt page_consts)
    then have "unat (pgd_index v) < 768" by (simp add: unat_pgd_index less_mult_imp_div_less)
    then have "kp_dir k (unat (pgd_index v)) = mk_pgd 0 0"
      by (subst k(1)) (simp add: do_paging_init_def Let_def fill_dir_nth)
    then show ?thesis by (simp add: kernel_translate_def Let_def pgd_present_def pgd_check_def mk_pgd_def)
  qed
  with l show ?thesis by blast
qed

definition ex_boot_env :: boot_env where
  "ex_boot_env = \<lparr>be_load = 0xC0100000, be_end = 0xC0123456,
     be_pgd = (\<lambda>d. if d < 772 then mk_pgd 0x1000 3 else mk_pgd 0 0), be_pgt = (\<lambda>_ _. mk_pgt 0 3)\<rparr>"

definition ex_info :: mem_info where
  "ex_info = \<lparr>total_size = 0x4000000, usable_size = 0x4000000, limit = 0x4000000, usable_limit = 0x4000000\<rparr>"

lemma takeWhile_upt: "takeWhile (\<lambda>d. d < n) [a..<b] = [a..<min n b]"
  by (induction "b - a" arbitrary: a) (auto simp: upt_rec [of _ b] upt_rec [of _ "min n b"])

lemma ex_paging: "\<exists>k. paging_init ex_boot_env ex_info dir tab = Some k"
proof -
  have v: "virt_mem_size ex_info = 0x4000000" by (simp add: virt_mem_size_def ex_info_def zone_consts)
  have n: "need_pages ex_info = 49"
    by (simp add: need_pages_def v ceil_div_def ZONE_HIGHMEM_SIZE_def PAGE_SIZE_val PTRS_PER_PGT_def)
  have p: "pgd_present (mk_pgd 0x1000 3)" "\<not> pgd_present (mk_pgd 0 0)" "pgt_present (mk_pgt 0 3)"
    by (simp_all add: page_ops page_consts)
  have "pgd_present (be_pgd ex_boot_env d) \<longleftrightarrow> d < 772" for d
    by (simp add: ex_boot_env_def p)
  then have d: "takeWhile (\<lambda>d. pgd_present (be_pgd ex_boot_env d)) [768..<PTRS_PER_PGD] = [768..<772]"
    unfolding PTRS_PER_PGD_def by (simp only: takeWhile_upt) simp
  have t: "length (takeWhile (\<lambda>q. pgt_present (be_pgt ex_boot_env a q)) [0..<PTRS_PER_PGT]) = 1024" for a
    by (simp add: ex_boot_env_def p takeWhile_eq_all_conv [THEN iffD2] PTRS_PER_PGT_def)
  have "count_boot_pages ex_boot_env = 4096"
    unfolding count_boot_pages_def Let_def pgd_first_val d t by (simp add: sum_list_triv)
  then show ?thesis
    by (simp add: paging_init_def Let_def n bind_eq_Some_conv)
      (simp add: ex_boot_env_def page_ops page_consts word_less_nat_alt)
qed

theorem kernel_linear_map_witness:
  "\<exists>k. paging_init ex_boot_env ex_info (\<lambda>_. mk_pgd 0 0) (\<lambda>_. mk_pgt 0 0) = Some k \<and> kernel_translate k (va 0x123456) = Some 0x123456 \<and>
    kernel_translate k 0x8000000 = None"
proof -
  obtain k where k: "paging_init ex_boot_env ex_info (\<lambda>_. mk_pgd 0 0) (\<lambda>_. mk_pgt 0 0) = Some k" using ex_paging by blast
  have v: "unat (virt_mem_size ex_info) = 0x4000000" by (simp add: virt_mem_size_def ex_info_def zone_consts)
  have "(\<forall>x. unat x < unat (virt_mem_size ex_info) div 4096 * 4096 \<longrightarrow> kernel_translate k (va x) = Some x) \<and>
    (\<forall>v<PAGE_OFFSET. kernel_translate k v = None)"
    by (rule kernel_linear_map [OF k]) (simp_all add: ex_boot_env_def page_consts)
  then show ?thesis using k by (intro exI [of _ k]) (simp add: v page_consts)
qed

text \<open>The tables of the window for high memory lie inside the pages \<open>paging_init\<close> reserves only
  when low memory has more than 892 MB; below that the window's own entries are beyond
  \<open>__kernel_pgt_end\<close>, in pages the page allocator gives out.\<close>

theorem window_tables_reserved:
  assumes "paging_init e i dir tab = Some k" and "unat (be_end e) + 2 ^ 21 < 2 ^ 32"
  shows "unat (kernel_pgt_highmem_base k) + 4096 * 32 \<le> unat (kp_pgt_end k) \<longleftrightarrow>
    0x37C01000 \<le> unat (virt_mem_size i)"
proof -
  let ?v = "unat (virt_mem_size i) div 4096"
  have "unat (kp_pgt_base k) \<le> unat (be_end e) + 8191"
    unfolding paging_init_tables(2) [OF assms] using div_times_less_eq_dividend [of "unat (be_end e) + 4095" 4096] by simp
  then have b: "unat (kernel_pgt_highmem_base k) = unat (kp_pgt_base k) + 4096 * 224"
    unfolding highmem_base_val [OF assms] using assms(2) by (subst unat_word_ariths(1)) simp
  have "224 \<le> (?v + 1023) div 1024 \<longleftrightarrow> 223 * 1024 < ?v"
    by (auto simp: less_eq_div_iff_mult_less_eq)
  also have "\<dots> \<longleftrightarrow> 223 * 1024 + 1 \<le> ?v" by linarith
  also have "\<dots> \<longleftrightarrow> 0x37C01000 \<le> unat (virt_mem_size i)"
    by (simp only: less_eq_div_iff_mult_less_eq) simp
  finally show ?thesis unfolding b paging_init_tables(3) [OF assms] by simp
qed

theorem window_tables_reserved_witness:
  "\<exists>k. paging_init ex_boot_env ex_info (\<lambda>_. mk_pgd 0 0) (\<lambda>_. mk_pgt 0 0) = Some k \<and>
    \<not> unat (kernel_pgt_highmem_base k) + 4096 * 32 \<le> unat (kp_pgt_end k)"
proof -
  obtain k where k: "paging_init ex_boot_env ex_info (\<lambda>_. mk_pgd 0 0) (\<lambda>_. mk_pgt 0 0) = Some k" using ex_paging by blast
  have v: "unat (virt_mem_size ex_info) = 0x4000000" by (simp add: virt_mem_size_def ex_info_def zone_consts)
  show ?thesis using window_tables_reserved [OF k] k v by (intro exI [of _ k]) (simp add: ex_boot_env_def)
qed

end
