(* ===== verification/Proc.thy ===== *)
theory Proc
  imports Char_Dev
begin

text \<open>
  drivers/proc.c: the character device that reads as a table of the tasks.  A \<open>struct task_info\<close>
  is written field by field into the reader's buffer; \<open>strncpy\<close> fills its field with zeros after
  the name, \<open>strcpy\<close> stops after the terminator.  \<open>None\<close> is a \<open>strcpy\<close> from a name of 20 bytes
  without terminator.
\<close>

text \<open>The offsets of the fields of \<open>struct task_info\<close>, and its size.\<close>

definition ti_state :: u32 where "ti_state = 0"
definition ti_pid :: u32 where "ti_pid = 4"
definition ti_flags :: u32 where "ti_flags = 8"
definition ti_cmd :: u32 where "ti_cmd = 12"
definition ti_time_slice :: u32 where "ti_time_slice = 32"
definition ti_ppid :: u32 where "ti_ppid = 36"
definition ti_pcmd :: u32 where "ti_pcmd = 40"
definition ti_files :: u32 where "ti_files = 60"
definition ti_root :: u32 where "ti_root = 64"
definition ti_pwd :: u32 where "ti_pwd = 84"
definition sizeof_task_info :: nat where "sizeof_task_info = 104"

fun state_number :: "task_state \<Rightarrow> u32" where
  "state_number TASK_RUNNABLE = 0"
| "state_number TASK_WAIT = 1"
| "state_number TASK_ZOMBIE = 2"
| "state_number TASK_DEAD = 3"

text \<open>\<open>strncpy(dest, name, n)\<close> of a name in an array of \<open>n\<close> bytes.\<close>

definition name_field :: "nat \<Rightarrow> u8 list \<Rightarrow> u8 list" where
  "name_field n name =
     (let w = takeWhile (\<lambda>c. c \<noteq> 0) (take n name) in w @ replicate (n - length w) 0)"

definition c_name :: "u8 list \<Rightarrow> u8 list option" where
  "c_name name = (if 0 \<in> set name then Some (takeWhile (\<lambda>c. c \<noteq> 0) name @ [0]) else None)"

definition slash_name :: "u8 list" where "slash_name = [47, 0]"

text \<open>What \<open>root\<close> and \<open>pwd\<close> show: the last name of the path, \<open>/\<close> for the root directory.\<close>

definition write_dir :: "u32 \<Rightarrow> u32 option \<Rightarrow> 'a fs_scheme \<Rightarrow> 'a fs_scheme" where
  "write_dir p d s =
     (case d of
        None \<Rightarrow> store_bytes p slash_name s
      | Some d \<Rightarrow>
          let s' = store_bytes p (name_field MAX_NAME_LEN (d_name (dentries s d))) s
          in if takeWhile (\<lambda>c. c \<noteq> 0) (load_bytes s' p MAX_NAME_LEN) = [] then store_bytes p slash_name s' else s')"

definition open_files :: "task \<Rightarrow> nat" where
  "open_files t = length (filter (\<lambda>i. fdt t i \<noteq> None) [0..<NR_OPEN])"

definition write_task_info :: "u32 \<Rightarrow> tid \<Rightarrow> 'a fs_scheme \<Rightarrow> 'a fs_scheme option" where
  "write_task_info info t s =
     do { let x = tasks s t;
          let s = store_u32 (info + ti_state) (state_number (tstate x)) s;
          let s = store_u32 (info + ti_pid) (pid x) s;
          let s = store_bytes (info + ti_cmd) (name_field TASK_CMD_LENGTH (cmd x)) s;
          let s = store_u32 (info + ti_time_slice) (time_slice x) s;
          let s = store_u32 (info + ti_flags) (tflags x) s;
          s \<leftarrow> (case parent x of
                 None \<Rightarrow> Some (store_bytes (info + ti_pcmd) [0] (store_u32 (info + ti_ppid) (- 1) s))
               | Some p \<Rightarrow>
                   do { let s = store_u32 (info + ti_ppid) (pid (tasks s p)) s;
                        w \<leftarrow> c_name (cmd (tasks s p));
                        Some (store_bytes (info + ti_pcmd) w s) });
          let s = store_u32 (info + ti_files) (of_nat (open_files x)) s;
          let s = write_dir (info + ti_root) (root x) s;
          Some (write_dir (info + ti_pwd) (pwd x) s) }"

text \<open>The loop over \<open>task_list\<close>: it stops when the buffer is full.\<close>

fun proc_loop :: "tid list \<Rightarrow> nat \<Rightarrow> nat \<Rightarrow> u32 \<Rightarrow> 'a fs_scheme \<Rightarrow> (nat \<times> 'a fs_scheme) option" where
  "proc_loop [] count max_count info s = Some (count, s)"
| "proc_loop (t # ts) count max_count info s =
     (if count \<noteq> max_count
      then do { s \<leftarrow> write_task_info info t s;
                proc_loop ts (count + 1) max_count (info + of_nat sizeof_task_info) s }
      else Some (count, s))"

definition proc_read :: "u32 \<Rightarrow> u32 \<Rightarrow> u32 \<Rightarrow> 'a fs_scheme \<Rightarrow> (int \<times> 'a fs_scheme) option" where
  "proc_read filp buf sz s =
     do { (count, s) \<leftarrow> proc_loop (task_list s) 0 (unat sz div sizeof_task_info) buf s;
          Some (int (count * sizeof_task_info), s) }"

definition proc_fops :: "('a fs_scheme) file_operations" where
  "proc_fops = \<lparr>fo_open = None, fo_read = Some proc_read, fo_readdir = None, fo_write = None,
     fo_ioctl = None, fo_lseek = None, fo_close = None\<rparr>"

definition DEV_PROC :: nat where "DEV_PROC = 8"
definition proc_name :: "u8 list" where "proc_name = [112, 114, 111, 99]"

text \<open>\<open>fops\<close> is the address of \<open>proc_fops\<close>.\<close>

definition proc_setup :: "nat \<Rightarrow> 'a fs_scheme \<Rightarrow> int \<times> 'a fs_scheme" where
  "proc_setup fops s = (SUCCESS, snd (register_chrdev DEV_PROC (Some proc_name) (Some fops) s))"

end
