(* ===== verification/User.thy ===== *)
theory User
  imports Printk Entry Vsscanf
begin

text \<open>
  User programs: the memory of a program, the system calls it makes, and the library functions that
  print and read (tools/generic/libc.c).  \<open>trap\<close> is \<open>int $0x80\<close> in the stub of a call: it is given
  the words the stub passes and may change whatever the state holds; \<open>None\<close> is a call that does not
  come back.  String literals, buffers and other static data are at addresses given by an argument.
\<close>

record user =
  umem :: cmem

record 's umachine =
  trap :: "syscall \<Rightarrow> u32 list \<Rightarrow> 's \<Rightarrow> (u32 \<times> 's) option"
  u_lit :: "u8 list \<Rightarrow> nat"
  libc_buf :: nat

definition STDIN :: u32 where "STDIN = 0"
definition STDOUT :: u32 where "STDOUT = 1"

text \<open>A store through a pointer, and a load of a word.\<close>

definition ustore8 :: "nat \<Rightarrow> u8 \<Rightarrow> 'a user_scheme \<Rightarrow> 'a user_scheme option" where
  "ustore8 a v s = do { m \<leftarrow> store8 (umem s) a v; Some (s\<lparr>umem := m\<rparr>) }"

definition fetch32 :: "cmem \<Rightarrow> nat \<Rightarrow> u32 option" where
  "fetch32 m a =
     do { b0 \<leftarrow> m a; b1 \<leftarrow> m (a + 1); b2 \<leftarrow> m (a + 2); b3 \<leftarrow> m (a + 3);
          Some (ucast b0 OR push_bit 8 (ucast b1) OR push_bit 16 (ucast b2) OR push_bit 24 (ucast b3)) }"

text \<open>A call whose result is not used.\<close>

definition trap_only :: "('a user_scheme) umachine \<Rightarrow> syscall \<Rightarrow> u32 list \<Rightarrow> 'a user_scheme \<Rightarrow> 'a user_scheme option" where
  "trap_only m c args s = do { (r, s) \<leftarrow> trap m c args s; Some s }"

definition printf ::
    "('a user_scheme) umachine \<Rightarrow> u8 list \<Rightarrow> u32 list \<Rightarrow> 'a user_scheme \<Rightarrow> (int \<times> 'a user_scheme) option" where
  "printf m fmt args s =
     do { (mem, i) \<leftarrow> vsprintf (u_lit m (lit ''<NULL>'')) (umem s) (libc_buf m) (u_lit m fmt) args;
          let s = s\<lparr>umem := mem\<rparr>;
          s \<leftarrow> (if 0 < i then trap_only m Sys_write [STDOUT, of_nat (libc_buf m), of_nat i] s else Some s);
          Some (int i, s) }"

definition print ::
    "('a user_scheme) umachine \<Rightarrow> string \<Rightarrow> u32 list \<Rightarrow> 'a user_scheme \<Rightarrow> 'a user_scheme option" where
  "print m fmt args s = do { (i, s) \<leftarrow> printf m (lit fmt) args s; Some s }"

definition scanf ::
    "('a user_scheme) umachine \<Rightarrow> u8 list \<Rightarrow> u32 list \<Rightarrow> 'a user_scheme \<Rightarrow> (int \<times> 'a user_scheme) option" where
  "scanf m fmt args s =
     do { (i, s) \<leftarrow> trap m Sys_read [STDIN, of_nat (libc_buf m), 4095] s;
          if i <s 0 then Some (sint i, s)
          else do { s \<leftarrow> ustore8 (libc_buf m + unat i) 0 s;
                    (mem, r) \<leftarrow> vsscanf (umem s) (libc_buf m) (u_lit m fmt) args;
                    Some (r, s\<lparr>umem := mem\<rparr>) } }"

subsection \<open>Words in memory\<close>

lemma fetch32_store32:
  assumes "writable m a 4"
  shows "\<exists>m'. store32 m a v = Some m' \<and> fetch32 m' a = Some v \<and> (\<forall>x. x < a \<or> a + 4 \<le> x \<longrightarrow> m' x = m x) \<and>
    (\<forall>x. m x \<noteq> None \<longrightarrow> m' x \<noteq> None)"
proof -
  have w: "m a \<noteq> None" "m (a + 1) \<noteq> None" "m (a + 2) \<noteq> None" "m (a + 3) \<noteq> None"
    using writable_nth [OF assms, of 0] writable_nth [OF assms, of 1] writable_nth [OF assms, of 2] writable_nth [OF assms, of 3]
    by auto
  define w0 w1 w2 w3 :: u32 where "w0 = ucast (ucast v :: u8)" and "w1 = ucast (ucast (drop_bit 8 v) :: u8)"
    and "w2 = ucast (ucast (drop_bit 16 v) :: u8)" and "w3 = ucast (ucast (drop_bit 8 (drop_bit 16 v)) :: u8)"
  have v: "w0 OR push_bit 8 w1 OR push_bit 16 w2 OR push_bit 24 w3 = v"
  proof (rule bit_word_eqI)
    fix n assume "n < LENGTH(32)"
    moreover have "24 + (n - 24) = n" if "24 \<le> n" using that by simp
    ultimately show "bit (w0 OR push_bit 8 w1 OR push_bit 16 w2 OR push_bit 24 w3) n = bit v n"
      unfolding w0_def w1_def w2_def w3_def
      by (cases "n < 8"; cases "n < 16"; cases "n < 24") (auto simp: bit_simps)
  qed
  have "store32 m a v = Some (mset (mset (mset (mset m a (ucast v)) (a + 1) (ucast (drop_bit 8 v)))
      (a + 2) (ucast (drop_bit 16 v))) (a + 3) (ucast (drop_bit 8 (drop_bit 16 v))))"
    using w by (simp add: store32_def store16_def mset_apply numeral_3_eq_3)
  then show ?thesis using v by (auto simp: fetch32_def mset_apply w0_def w1_def w2_def w3_def)
qed

lemma fetch32_cong: "(\<And>x. a \<le> x \<Longrightarrow> x < a + 4 \<Longrightarrow> m' x = m x) \<Longrightarrow> fetch32 m' a = fetch32 m a"
  by (simp add: fetch32_def)

end
