(* ===== verification/Shell.thy ===== *)
theory Shell
  imports User
begin

text \<open>
  The shell (tools/sh/main.c).  Its static arrays are at the addresses in \<open>sh_data\<close>, the static
  counters in the state; \<open>task_done\<close> may be changed by any system call, for the handler of SIGCHLD runs
  on the way back from one.
\<close>

record shell = user +
  sh_argc :: u32
  task_done :: int

record sh_data =
  buf_at :: nat
  arg_buf_at :: nat
  arg_ptrs_at :: nat
  path_at :: nat
  exec_path_at :: nat

definition BUF_SIZE :: nat where "BUF_SIZE = 1024"
definition ARG_BUF_SIZE :: nat where "ARG_BUF_SIZE = 4096"
definition NR_ARG_PTRS :: nat where "NR_ARG_PTRS = 1024"
definition PATH_SIZE :: nat where "PATH_SIZE = 128"

abbreviation "newline \<equiv> [CHR 0x0A]"
abbreviation "quote \<equiv> [CHR 0x27]"

subsection \<open>Built-in commands\<close>

definition sh_help :: "('a shell_scheme) umachine \<Rightarrow> 'a shell_scheme \<Rightarrow> 'a shell_scheme option" where
  "sh_help m = print m (''It's a shell parser.You can use it by type'' @ '' 'COMMAND arg1 arg2 ...'' @ quote @ newline) []"

definition sh_hello :: "('a shell_scheme) umachine \<Rightarrow> 'a shell_scheme \<Rightarrow> 'a shell_scheme option" where
  "sh_hello m =
     print m (newline @ [CHR 0x09] @ ''Hello guy.It's a SINS program.'' @ newline @ [CHR 0x09] @
       ''You can use it like bash(a UNIX world program).'' @
       ''Type 'help' for some useful information.'' @ newline @ replicate 8 (CHR 0x09) @ ''GOOD LUCK.'' @ newline) []"

text \<open>\<open>argv[i]\<close>, and a number argument: its value and whether it takes the whole string.\<close>

definition arg :: "u32 \<Rightarrow> nat \<Rightarrow> 'a shell_scheme \<Rightarrow> nat option" where
  "arg argv i s = map_option unat (fetch32 (umem s) (unat argv + 4 * i))"

definition number_arg :: "nat \<Rightarrow> 'a shell_scheme \<Rightarrow> (int \<times> bool) option" where
  "number_arg a s =
     do { (v, endp) \<leftarrow> simple_strtol (umem s) a 10; len \<leftarrow> strlen (umem s) a; Some (sint v, endp = a + len) }"

definition invalid_argument :: "('a shell_scheme) umachine \<Rightarrow> nat \<Rightarrow> 'a shell_scheme \<Rightarrow> 'a shell_scheme option" where
  "invalid_argument m a = print m (''invalid argument '%s'' @ quote @ newline) [of_nat a]"

definition sh_exit :: "('a shell_scheme) umachine \<Rightarrow> int \<Rightarrow> u32 \<Rightarrow> 'a shell_scheme \<Rightarrow> 'a shell_scheme option" where
  "sh_exit m argc argv s =
     (if argc = 0 then trap_only m Sys_exit [0] s
      else if argc = 1
      then do { a \<leftarrow> arg argv 0 s; (res, ok) \<leftarrow> number_arg a s;
                if ok then trap_only m Sys_exit [word_of_int res] s else invalid_argument m a s }
      else print m (''invalid arguments num.'' @ newline) [] s)"

text \<open>\<open>cd\<close> and \<open>root\<close>: one path, one system call.\<close>

definition sh_path_call ::
    "('a shell_scheme) umachine \<Rightarrow> syscall \<Rightarrow> string \<Rightarrow> int \<Rightarrow> u32 \<Rightarrow> 'a shell_scheme \<Rightarrow> 'a shell_scheme option" where
  "sh_path_call m c failed argc argv s =
     (if argc = 0 then print m (''you need an argument.'' @ newline) [] s
      else if argc \<noteq> 1 then print m (''invalid arguments num.'' @ newline) [] s
      else do { a \<leftarrow> arg argv 0 s;
                (r, s) \<leftarrow> trap m c [of_nat a] s;
                if r <s 0 then print m (failed @ newline) [] s else Some s })"

definition sh_cd :: "('a shell_scheme) umachine \<Rightarrow> int \<Rightarrow> u32 \<Rightarrow> 'a shell_scheme \<Rightarrow> 'a shell_scheme option" where
  "sh_cd m = sh_path_call m Sys_chdir ''change working directory failed.''"
definition sh_root :: "('a shell_scheme) umachine \<Rightarrow> int \<Rightarrow> u32 \<Rightarrow> 'a shell_scheme \<Rightarrow> 'a shell_scheme option" where
  "sh_root m = sh_path_call m Sys_chroot ''change root directory failed.''"

definition send_signal :: "('a shell_scheme) umachine \<Rightarrow> int \<Rightarrow> int \<Rightarrow> 'a shell_scheme \<Rightarrow> 'a shell_scheme option" where
  "send_signal m p sig s =
     do { (r, s) \<leftarrow> trap m Sys_kill [word_of_int p, word_of_int sig] s;
          if r <s 0 then print m (''signal send failed!'' @ newline) [] s else Some s }"

text \<open>With two arguments, a bad second one is reported and the signal sent nevertheless.\<close>

definition sh_kill :: "('a shell_scheme) umachine \<Rightarrow> int \<Rightarrow> u32 \<Rightarrow> 'a shell_scheme \<Rightarrow> 'a shell_scheme option" where
  "sh_kill m argc argv s =
     (if argc = 0 then print m ''kill need at least one parameters'' [] s
      else if argc = 1
      then do { a \<leftarrow> arg argv 0 s; (p, ok) \<leftarrow> number_arg a s;
                if ok \<and> 0 \<le> p then send_signal m p (int SIGKILL) s else invalid_argument m a s }
      else if argc = 2
      then do { a \<leftarrow> arg argv 0 s; (p, ok) \<leftarrow> number_arg a s;
                if \<not> ok then invalid_argument m a s
                else do {
                  b \<leftarrow> arg argv 1 s; (v, ok) \<leftarrow> number_arg b s;
                  if p < 0
                  then do { s \<leftarrow> (if \<not> ok \<or> v < 0 then invalid_argument m b s else Some s);
                            send_signal m v (- p) s }
                  else do { s \<leftarrow> (if \<not> ok \<or> 0 < v then invalid_argument m b s else Some s);
                            send_signal m p (- v) s } } }
      else print m (''invalid arguments num.'' @ newline) [] s)"

subsection \<open>Other programs\<close>

text \<open>The path of a command, in the local array; \<open>None\<close> inside is a command that is refused.\<close>

definition sh_exec_path ::
    "('a shell_scheme) umachine \<Rightarrow> sh_data \<Rightarrow> nat \<Rightarrow> 'a shell_scheme \<Rightarrow> (bool \<times> 'a shell_scheme) option" where
  "sh_exec_path m d command s =
     do { len \<leftarrow> strlen (umem s) command;
          if PATH_SIZE \<le> length (lit ''/bin/'') + len + 1
          then do { s \<leftarrow> print m (''command:%s is too long.'' @ newline) [of_nat command] s; Some (False, s) }
          else do {
            c0 \<leftarrow> umem s command;
            c1 \<leftarrow> (if 2 \<le> len then umem s (command + 1) else Some 0);
            if 2 \<le> len \<and> c0 = 46 \<and> c1 = 47
            then (if len = 2
                  then do { s \<leftarrow> print m (''what you want to execute?'' @ newline) [] s; Some (False, s) }
                  else do { (mem, i) \<leftarrow> sprintf (u_lit m (lit ''<NULL>'')) (umem s) (exec_path_at d) (u_lit m (lit ''%s''))
                                          [of_nat (command + 2)];
                            Some (True, s\<lparr>umem := mem\<rparr>) })
            else do { (mem, i) \<leftarrow> sprintf (u_lit m (lit ''<NULL>'')) (umem s) (exec_path_at d) (u_lit m (lit ''/bin/%s''))
                                    [of_nat command];
                      Some (True, s\<lparr>umem := mem\<rparr>) } } }"

definition sh_exec ::
    "('a shell_scheme) umachine \<Rightarrow> sh_data \<Rightarrow> nat \<Rightarrow> int \<Rightarrow> u32 \<Rightarrow> bool \<Rightarrow> 'a shell_scheme \<Rightarrow> 'a shell_scheme option" where
  "sh_exec m d command argc argv noblock s =
     do { (go, s) \<leftarrow> sh_exec_path m d command s;
          if \<not> go then Some s
          else do {
            (p, s) \<leftarrow> trap m Sys_exec [of_nat (exec_path_at d), word_of_int argc, argv] s;
            if p <s 0 then print m (''execute %s failed.'' @ newline) [of_nat (exec_path_at d)] s
            else if noblock then Some s
            else do { s \<leftarrow> trap_only m Sys_wait_pid [p] s; Some (s\<lparr>task_done := task_done s - 1\<rparr>) } } }"

subsection \<open>Reading a command\<close>

text \<open>
  The label \<open>continue_read\<close>: \<open>i\<close> and \<open>start\<close> are unsigned, so a failed read is a very long one, and
  the test for a negative result never holds.
\<close>

partial_function (option) read_command ::
    "('a shell_scheme) umachine \<Rightarrow> sh_data \<Rightarrow> u32 \<Rightarrow> 'a shell_scheme \<Rightarrow> (int \<times> 'a shell_scheme) option" where
  "read_command m d start s =
     do { (i, s) \<leftarrow> trap m Sys_read [STDIN, of_nat (buf_at d) + start, 1023] s;
          let start = start + i;
          if 1023 \<le> start
          then do { s \<leftarrow> print m (''command is too large.(max size = 1024)'' @ newline) [] s; Some (err ERROR, s) }
          else if i = 0 then do { s \<leftarrow> ustore8 (buf_at d) 0 s; Some (err ERROR, s) }
          else do {
            c \<leftarrow> umem s (unat (of_nat (buf_at d) + start - 1));
            if c = 92 then read_command m d (start - 1) s
            else do { s \<leftarrow> ustore8 (buf_at d + 1023) 0 s; Some (SUCCESS, s) } } }"

definition fetch_command ::
    "('a shell_scheme) umachine \<Rightarrow> sh_data \<Rightarrow> 'a shell_scheme \<Rightarrow> (int \<times> 'a shell_scheme) option" where
  "fetch_command m d s =
     do { (ret, s) \<leftarrow> trap m Sys_getcwd [of_nat (path_at d), 128] s;
          s \<leftarrow> (if ret <s 0
               then do { s \<leftarrow> print m (''can't get current working directory.'' @ newline) [] s; trap_only m Sys_exit [0] s }
               else Some s);
          s \<leftarrow> print m ''%s>'' [of_nat (path_at d)] s;
          read_command m d 0 s }"

subsection \<open>Taking a command apart\<close>

definition add_to_arg_buf :: "sh_data \<Rightarrow> nat \<Rightarrow> nat \<Rightarrow> 'a shell_scheme \<Rightarrow> 'a shell_scheme option" where
  "add_to_arg_buf d begin' e s =
     (if begin' \<noteq> e
      then do { let dest = arg_buf_at d + (begin' - buf_at d);
                m \<leftarrow> strcpy (umem s) dest begin';
                m \<leftarrow> store32 m (arg_ptrs_at d + 4 * unat (sh_argc s)) (of_nat dest);
                Some (s\<lparr>umem := m, sh_argc := sh_argc s + 1\<rparr>) }
      else Some s)"

text \<open>The loop over the command, and the last word.\<close>

partial_function (option) split_loop :: "sh_data \<Rightarrow> nat \<Rightarrow> nat \<Rightarrow> 'a shell_scheme \<Rightarrow> 'a shell_scheme option" where
  "split_loop d iter begin' s =
     do { c \<leftarrow> umem s iter;
          if c = 0 then add_to_arg_buf d begin' iter s
          else if isspace c
          then do { s \<leftarrow> ustore8 iter 0 s;
                    s \<leftarrow> add_to_arg_buf d begin' iter s;
                    split_loop d (iter + 1) (iter + 1) s }
          else split_loop d (iter + 1) begin' s }"

definition split_command :: "sh_data \<Rightarrow> 'a shell_scheme \<Rightarrow> 'a shell_scheme option" where
  "split_command d s =
     do { m \<leftarrow> memset (umem s) (arg_ptrs_at d) 0 (4 * NR_ARG_PTRS);
          split_loop d (buf_at d) (buf_at d) (s\<lparr>umem := m, sh_argc := 0\<rparr>) }"

text \<open>Whether the string at \<open>a\<close> is this literal.\<close>

definition is_word :: "('a shell_scheme) umachine \<Rightarrow> nat \<Rightarrow> string \<Rightarrow> 'a shell_scheme \<Rightarrow> bool option" where
  "is_word m a w s = do { r \<leftarrow> strcmp (umem s) a (u_lit m (lit w)); Some (r = 0) }"

definition do_command ::
    "('a shell_scheme) umachine \<Rightarrow> sh_data \<Rightarrow> nat \<Rightarrow> int \<Rightarrow> u32 \<Rightarrow> bool \<Rightarrow> 'a shell_scheme \<Rightarrow> 'a shell_scheme option" where
  "do_command m d command argc argv noblock s =
     do { help \<leftarrow> is_word m command ''help'' s;
          if help then sh_help m s else do {
          hello \<leftarrow> is_word m command ''hello'' s;
          if hello then sh_hello m s else do {
          exit \<leftarrow> is_word m command ''exit'' s;
          if exit then sh_exit m argc argv s else do {
          cd \<leftarrow> is_word m command ''cd'' s;
          if cd then sh_cd m argc argv s else do {
          kill \<leftarrow> is_word m command ''kill'' s;
          if kill then sh_kill m argc argv s else do {
          root \<leftarrow> is_word m command ''root'' s;
          if root then sh_root m argc argv s
          else sh_exec m d command argc argv noblock s } } } } } }"

definition execute_command ::
    "('a shell_scheme) umachine \<Rightarrow> sh_data \<Rightarrow> 'a shell_scheme \<Rightarrow> 'a shell_scheme option" where
  "execute_command m d s =
     do { s \<leftarrow> split_command d s;
          let argc = sh_argc s;
          let argv = of_nat (arg_ptrs_at d) + 4;
          if argc = 0 then Some s
          else do {
            last \<leftarrow> arg (of_nat (arg_ptrs_at d)) (unat (argc - 1)) s;
            command \<leftarrow> arg (of_nat (arg_ptrs_at d)) 0 s;
            background \<leftarrow> is_word m last ''&'' s;
            if background then do_command m d command (sint (argc - 2)) argv True s
            else do_command m d command (sint (argc - 1)) argv False s } }"

subsection \<open>The main loop\<close>

definition setup_signal :: "('a shell_scheme) umachine \<Rightarrow> nat \<Rightarrow> 'a shell_scheme \<Rightarrow> 'a shell_scheme option" where
  "setup_signal m handler s =
     do { s \<leftarrow> trap_only m Sys_sigmask [of_nat SIGCHLD, 0] s;
          trap_only m Sys_sigaction [of_nat SIGCHLD, of_nat handler] s }"

definition sigchld_handler :: "'a shell_scheme \<Rightarrow> 'a shell_scheme" where
  "sigchld_handler s = s\<lparr>task_done := task_done s + 1\<rparr>"

partial_function (option) reap_loop ::
    "('a shell_scheme) umachine \<Rightarrow> int \<Rightarrow> int \<Rightarrow> 'a shell_scheme \<Rightarrow> 'a shell_scheme option" where
  "reap_loop m i done' s =
     (if i = done' then Some s
      else do { s \<leftarrow> trap_only m Sys_wait_chld [0] s; reap_loop m (i + 1) done' s })"

text \<open>One turn of the endless loop of \<open>main\<close>.\<close>

definition sh_turn :: "('a shell_scheme) umachine \<Rightarrow> sh_data \<Rightarrow> 'a shell_scheme \<Rightarrow> 'a shell_scheme option" where
  "sh_turn m d s =
     do { (r, s) \<leftarrow> fetch_command m d s;
          s \<leftarrow> (if 0 \<le> r then execute_command m d s else Some s);
          let done' = task_done s;
          s \<leftarrow> reap_loop m 0 done' s;
          Some (s\<lparr>task_done := task_done s - done'\<rparr>) }"

definition sh_start :: "('a shell_scheme) umachine \<Rightarrow> nat \<Rightarrow> 'a shell_scheme \<Rightarrow> 'a shell_scheme option" where
  "sh_start m handler s = do { s \<leftarrow> sh_hello m s; setup_signal m handler s }"

section \<open>Properties\<close>

text \<open>
  Properties of the shell: a command line becomes its words, and the path of a program fits its array.
\<close>

subsection \<open>Words\<close>

text \<open>The words of a line: what stands between blanks.\<close>

function words :: "u8 list \<Rightarrow> u8 list list" where
  "words xs =
     (let ys = dropWhile isspace xs
      in if ys = [] then [] else takeWhile (\<lambda>c. \<not> isspace c) ys # words (dropWhile (\<lambda>c. \<not> isspace c) ys))"
  by pat_completeness auto
termination
proof (relation "measure length")
  fix xs ys :: "u8 list" assume ys: "ys = dropWhile isspace xs" "ys \<noteq> []"
  then have "\<not> isspace (hd ys)" by (simp add: hd_dropWhile)
  then have "length (dropWhile (\<lambda>c. \<not> isspace c) ys) < length ys"
    using ys(2) by (cases ys) (auto intro: le_imp_less_Suc length_dropWhile_le)
  then show "(dropWhile (\<lambda>c. \<not> isspace c) ys, xs) \<in> measure length"
    using length_dropWhile_le [of isspace xs] ys(1) by simp
qed simp

declare words.simps [simp del]

text \<open>The same with a word \<open>w\<close> that has begun, as the loop goes.\<close>

lemma words_Nil [simp]: "words [] = []"
  by (simp add: words.simps [of "[]"])

lemma words_space: "isspace c \<Longrightarrow> words (c # cs) = words cs"
  by (simp add: words.simps [of "c # cs"] words.simps [of cs])

lemma words_word:
  assumes "\<forall>c\<in>set w. \<not> isspace c" "w \<noteq> []"
  shows "words w = [w]" "isspace c \<Longrightarrow> words (w @ c # cs) = w # words cs"
proof -
  have d: "dropWhile isspace (w @ ys) = w @ ys" for ys using assms by (cases w) auto
  show "words w = [w]"
    using assms d [of "[]"] by (subst words.simps) (simp add: takeWhile_eq_all_conv [THEN iffD2] dropWhile_eq_Nil_conv [THEN iffD2])
  show "words (w @ c # cs) = w # words cs" if "isspace c"
    using assms d that
    by (subst words.simps) (simp add: takeWhile_append2 dropWhile_append2 words_space Let_def)
qed

subsection \<open>The arrays of the shell\<close>

definition area :: "nat \<Rightarrow> nat \<Rightarrow> nat set" where
  "area a n = {x. a \<le> x \<and> x < a + n}"

text \<open>The static arrays are apart, and in memory.\<close>

definition sh_ok :: "sh_data \<Rightarrow> cmem \<Rightarrow> bool" where
  "sh_ok d m \<longleftrightarrow>
     writable m (buf_at d) BUF_SIZE \<and> writable m (arg_buf_at d) ARG_BUF_SIZE \<and> writable m (arg_ptrs_at d) (4 * NR_ARG_PTRS) \<and>
     area (buf_at d) BUF_SIZE \<inter> area (arg_buf_at d) ARG_BUF_SIZE = {} \<and>
     area (buf_at d) BUF_SIZE \<inter> area (arg_ptrs_at d) (4 * NR_ARG_PTRS) = {} \<and>
     area (arg_buf_at d) ARG_BUF_SIZE \<inter> area (arg_ptrs_at d) (4 * NR_ARG_PTRS) = {} \<and>
     arg_buf_at d + ARG_BUF_SIZE \<le> 2 ^ 32"

text \<open>The words found so far, each in \<open>arg_buf\<close> before offset \<open>b\<close>, with its pointer.\<close>

definition has_words :: "sh_data \<Rightarrow> cmem \<Rightarrow> nat \<Rightarrow> u8 list list \<Rightarrow> bool" where
  "has_words d m b ws \<longleftrightarrow> 2 * length ws \<le> b \<and>
     (\<forall>k<length ws. \<exists>o'. fetch32 m (arg_ptrs_at d + 4 * k) = Some (of_nat (arg_buf_at d + o')) \<and>
        cstr m (arg_buf_at d + o') (ws ! k) \<and> o' + length (ws ! k) < b)"

lemma has_words_mono: "has_words d m b ws \<Longrightarrow> b \<le> c \<Longrightarrow> has_words d m c ws"
  by (auto simp: has_words_def) (meson less_le_trans)

lemma has_words_cong:
  assumes "has_words d m b ws" "b \<le> ARG_BUF_SIZE" "length ws \<le> NR_ARG_PTRS"
    and "\<And>x. x \<in> area (arg_ptrs_at d) (4 * length ws) \<Longrightarrow> m' x = m x"
    and "\<And>x. x \<in> area (arg_buf_at d) b \<Longrightarrow> m' x = m x"
  shows "has_words d m' b ws"
  unfolding has_words_def
proof (intro conjI allI impI)
  fix k assume k: "k < length ws"
  then obtain o' where o: "fetch32 m (arg_ptrs_at d + 4 * k) = Some (of_nat (arg_buf_at d + o'))"
    "cstr m (arg_buf_at d + o') (ws ! k)" "o' + length (ws ! k) < b" using assms(1) by (auto simp: has_words_def)
  have "fetch32 m' (arg_ptrs_at d + 4 * k) = fetch32 m (arg_ptrs_at d + 4 * k)"
    using k by (intro fetch32_cong assms(4)) (simp add: area_def)
  moreover have "cstr m' (arg_buf_at d + o') (ws ! k)"
    using o(2) unfolding cstr_def
    by (subst bytes_cong [where m' = m]) (use o(3) assms(5) in \<open>auto simp: area_def\<close>)
  ultimately show "\<exists>o'. fetch32 m' (arg_ptrs_at d + 4 * k) = Some (of_nat (arg_buf_at d + o')) \<and>
      cstr m' (arg_buf_at d + o') (ws ! k) \<and> o' + length (ws ! k) < b" using o by auto
qed (use assms(1) in \<open>simp add: has_words_def\<close>)

text \<open>Where the loop stands: \<open>rest\<close> of the line from \<open>i\<close> on, the word from \<open>b\<close> to \<open>i\<close>, the words before.\<close>

definition at_rest :: "sh_data \<Rightarrow> nat \<Rightarrow> nat \<Rightarrow> u8 list \<Rightarrow> u8 list \<Rightarrow> u8 list list \<Rightarrow> 'a shell_scheme \<Rightarrow> bool" where
  "at_rest d b i w rest ws s \<longleftrightarrow> sh_ok d (umem s) \<and> i = b + length w \<and> i + length rest < BUF_SIZE \<and>
     bytes (umem s) (buf_at d + b) w \<and> cstr (umem s) (buf_at d + i) rest \<and> 0 \<notin> set w \<and>
     has_words d (umem s) b ws \<and> unat (sh_argc s) = length ws"

lemma has_words_snoc:
  assumes "has_words d m b ws" "fetch32 m (arg_ptrs_at d + 4 * length ws) = Some (of_nat (arg_buf_at d + b))"
    and "cstr m (arg_buf_at d + b) w" "w \<noteq> []"
  shows "has_words d m (Suc (b + length w)) (ws @ [w])"
  unfolding has_words_def
proof (intro conjI allI impI)
  have "2 * length ws \<le> b" using assms(1) by (simp add: has_words_def)
  moreover obtain n where "length w = Suc n" using assms(4) by (cases w) simp_all
  ultimately show "2 * length (ws @ [w]) \<le> Suc (b + length w)" by simp
  fix k assume "k < length (ws @ [w])"
  then consider "k < length ws" | "k = length ws" by fastforce
  then show "\<exists>o'. fetch32 m (arg_ptrs_at d + 4 * k) = Some (of_nat (arg_buf_at d + o')) \<and>
      cstr m (arg_buf_at d + o') ((ws @ [w]) ! k) \<and> o' + length ((ws @ [w]) ! k) < Suc (b + length w)"
  proof cases
    case 1
    then show ?thesis using assms(1) by (force simp: has_words_def nth_append)
  next
    case 2
    then show ?thesis using assms(2,3) by auto
  qed
qed

lemma area_apart: "area a n \<inter> area b k = {} \<Longrightarrow> 0 < n \<Longrightarrow> 0 < k \<Longrightarrow> a + n \<le> b \<or> b + k \<le> a"
  by (rule ccontr) (auto simp: area_def not_le dest!: equals0D [of _ "max a b"])

lemma sh_apart:
  assumes "sh_ok d m"
  shows "buf_at d + 1024 \<le> arg_buf_at d \<or> arg_buf_at d + 4096 \<le> buf_at d"
    "buf_at d + 1024 \<le> arg_ptrs_at d \<or> arg_ptrs_at d + 4096 \<le> buf_at d"
    "arg_buf_at d + 4096 \<le> arg_ptrs_at d \<or> arg_ptrs_at d + 4096 \<le> arg_buf_at d"
  using assms area_apart [of "buf_at d" 1024 "arg_buf_at d" 4096] area_apart [of "buf_at d" 1024 "arg_ptrs_at d" 4096]
    area_apart [of "arg_buf_at d" 4096 "arg_ptrs_at d" 4096]
  by (simp_all add: sh_ok_def BUF_SIZE_def ARG_BUF_SIZE_def NR_ARG_PTRS_def)

lemma sh_ok_keeps: "sh_ok d m \<Longrightarrow> (\<And>x. m x \<noteq> None \<Longrightarrow> m' x \<noteq> None) \<Longrightarrow> sh_ok d m'"
  by (auto simp: sh_ok_def writable_def)

text \<open>A word goes into \<open>arg_buf\<close>, at the offset it has in the line.\<close>

lemma add_word:
  assumes ok: "sh_ok d (umem s)" and i: "i = b + length w" "i < BUF_SIZE" and w: "cstr (umem s) (buf_at d + b) w"
    and ws: "has_words d (umem s) b ws" "unat (sh_argc s) = length ws"
  shows "\<exists>m. add_to_arg_buf d (buf_at d + b) (buf_at d + i) s =
      Some (s\<lparr>umem := m, sh_argc := of_nat (length (ws @ (if w = [] then [] else [w])))\<rparr>) \<and>
    sh_ok d m \<and> has_words d m (Suc i) (ws @ (if w = [] then [] else [w])) \<and>
    (\<forall>x\<in>area (buf_at d) BUF_SIZE. m x = umem s x)"
proof (cases "w = []")
  case True
  have "sh_argc s = of_nat (length ws)" unfolding ws(2) [symmetric] by simp
  then show ?thesis using True ok i has_words_mono [OF ws(1)] by (intro exI [of _ "umem s"]) (simp add: add_to_arg_buf_def)
next
  case False
  let ?m1 = "mwrite (umem s) (arg_buf_at d + b) (w @ [0])" and ?p = "arg_ptrs_at d + 4 * length ws"
  note ap = sh_apart [OF ok]
  have k: "2 * length ws \<le> b" using ws(1) by (simp add: has_words_def)
  have l: "b + length w < 1024" using i by (simp add: BUF_SIZE_def)
  have wr: "writable (umem s) (arg_buf_at d) (b + Suc (length w))"
    by (rule writable_le [of _ _ ARG_BUF_SIZE]) (use ok l in \<open>simp_all add: sh_ok_def ARG_BUF_SIZE_def\<close>)
  have copy: "strcpy (umem s) (arg_buf_at d + b) (buf_at d + b) = Some ?m1"
    using wr [unfolded writable_add] ap(1) l by (intro strcpy_spec [OF w]) auto
  have keep1: "?m1 x \<noteq> None" if "umem s x \<noteq> None" for x using that by (auto simp: mwrite_def)
  have "writable ?m1 (arg_ptrs_at d) (4 * NR_ARG_PTRS)" using sh_ok_keeps [OF ok keep1] by (simp add: sh_ok_def)
  then have "writable ?m1 (arg_ptrs_at d) (4 * length ws + 4)"
    by (rule writable_le) (use k l in \<open>simp add: NR_ARG_PTRS_def\<close>)
  then have "writable ?m1 ?p 4" unfolding writable_add by simp
  from fetch32_store32 [OF this, of "of_nat (arg_buf_at d + b)"] obtain m where
    m: "store32 ?m1 ?p (of_nat (arg_buf_at d + b)) = Some m" "fetch32 m ?p = Some (of_nat (arg_buf_at d + b))"
      "\<forall>x. x < ?p \<or> ?p + 4 \<le> x \<longrightarrow> m x = ?m1 x" "\<forall>x. ?m1 x \<noteq> None \<longrightarrow> m x \<noteq> None" by blast
  have 4: "4 * length ws + 4 \<le> 4096" using k l by simp
  have same: "m x = umem s x" if "x \<in> area (buf_at d) 1024 \<union> area (arg_ptrs_at d) (4 * length ws) \<union> area (arg_buf_at d) b" for x
    using that ap l 4 m(3) by (auto simp: area_def mwrite_def)
  have "has_words d m b ws"
    using k l by (intro has_words_cong [OF ws(1)]) (auto simp: ARG_BUF_SIZE_def NR_ARG_PTRS_def same)
  moreover have "cstr m (arg_buf_at d + b) w"
  proof -
    have "m x = ?m1 x" if "x \<in> area (arg_buf_at d + b) (Suc (length w))" for x
      using that ap(3) l 4 m(3) by (auto simp: area_def)
    then have "bytes m (arg_buf_at d + b) (w @ [0]) = bytes ?m1 (arg_buf_at d + b) (w @ [0])"
      by (intro bytes_cong) (simp add: area_def)
    then show ?thesis using w by (simp add: cstr_def mwrite_bytes del: bytes_append)
  qed
  ultimately have hw: "has_words d m (Suc i) (ws @ [w])" using has_words_snoc m(2) False i(1) by blast
  have "sh_argc s + 1 = of_nat (Suc (length ws))" unfolding ws(2) [symmetric] by simp
  then have "add_to_arg_buf d (buf_at d + b) (buf_at d + i) s =
      Some (s\<lparr>umem := m, sh_argc := of_nat (length (ws @ [w]))\<rparr>)"
    using False i(1) copy m(1) ws(2) by (simp add: add_to_arg_buf_def Let_def)
  moreover have "sh_ok d m" using ok by (rule sh_ok_keeps) (use keep1 m(4) in blast)
  ultimately show ?thesis using hw False same by (auto simp: BUF_SIZE_def)
qed

lemma words_or_none: "\<forall>c\<in>set w. \<not> isspace c \<Longrightarrow> words w = (if w = [] then [] else [w])"
  by (simp add: words_word)

lemma has_words_argc: "has_words d m n ws \<Longrightarrow> n \<le> 1024 \<Longrightarrow> unat (of_nat (length ws) :: u32) = length ws"
  by (intro unat_small) (simp add: has_words_def)

lemma split_loop_spec:
  assumes "at_rest d b i w rest ws s" "\<forall>c\<in>set w. \<not> isspace c"
  shows "\<exists>s'. split_loop d (buf_at d + i) (buf_at d + b) s = Some s' \<and> sh_ok d (umem s') \<and>
    has_words d (umem s') (Suc (i + length rest)) (ws @ words (w @ rest)) \<and>
    unat (sh_argc s') = length (ws @ words (w @ rest))"
  using assms
proof (induction rest arbitrary: b i w ws s)
  case Nil
  have a: "sh_ok d (umem s)" "i = b + length w" "i < BUF_SIZE" "umem s (buf_at d + i) = Some 0"
    "has_words d (umem s) b ws" "unat (sh_argc s) = length ws" "bytes (umem s) (buf_at d + b) w" "0 \<notin> set w"
    using Nil.prems(1) by (auto simp: at_rest_def)
  have "cstr (umem s) (buf_at d + b) w" using a(2,4,7,8) by (simp add: cstr_def add.assoc)
  from add_word [OF a(1-3) this a(5,6)] obtain m where
    m: "add_to_arg_buf d (buf_at d + b) (buf_at d + i) s = Some (s\<lparr>umem := m, sh_argc := of_nat (length (ws @ words w))\<rparr>)"
      "sh_ok d m" "has_words d m (Suc i) (ws @ words w)" unfolding words_or_none [OF Nil.prems(2)] by blast
  have "unat (of_nat (length (ws @ words w)) :: u32) = length (ws @ words w)"
    using a(3) by (intro has_words_argc [OF m(3)]) (simp add: BUF_SIZE_def)
  then show ?case using a(4) m by (subst split_loop.simps) simp
next
  case (Cons c cs)
  have a: "sh_ok d (umem s)" "i = b + length w" "i + length (c # cs) < BUF_SIZE" "umem s (buf_at d + i) = Some c" "c \<noteq> 0"
    "cstr (umem s) (buf_at d + Suc i) cs" "has_words d (umem s) b ws" "unat (sh_argc s) = length ws"
    "bytes (umem s) (buf_at d + b) w" "0 \<notin> set w"
    using Cons.prems(1) by (auto simp: at_rest_def)
  show ?case
  proof (cases "isspace c")
    case True
    let ?s = "s\<lparr>umem := mset (umem s) (buf_at d + i) 0\<rparr>"
    have st: "ustore8 (buf_at d + i) 0 s = Some ?s" using a(4) by (simp add: ustore8_def)
    have ok: "sh_ok d (umem ?s)" using a(1) by (rule sh_ok_keeps) (simp add: mset_apply)
    have k: "2 * length ws \<le> b" using a(7) by (simp add: has_words_def)
    have "buf_at d + i \<notin> area (arg_ptrs_at d) (4 * length ws)" "buf_at d + i \<notin> area (arg_buf_at d) b"
      using sh_apart [OF a(1)] a(2,3) k by (auto simp: area_def BUF_SIZE_def)
    then have hw: "has_words d (umem ?s) b ws"
      using k a(2,3) by (intro has_words_cong [OF a(7)]) (auto simp: mset_apply BUF_SIZE_def ARG_BUF_SIZE_def NR_ARG_PTRS_def)
    have w: "cstr (umem ?s) (buf_at d + b) w"
      using a(2,9,10) by (simp add: cstr_def add.assoc)
    have i: "i < BUF_SIZE" using a(3) by simp
    from add_word [OF ok a(2) i w hw] a(8) obtain m where
      m: "add_to_arg_buf d (buf_at d + b) (buf_at d + i) ?s = Some (?s\<lparr>umem := m, sh_argc := of_nat (length (ws @ words w))\<rparr>)"
        "sh_ok d m" "has_words d m (Suc i) (ws @ words w)" "\<forall>x\<in>area (buf_at d) BUF_SIZE. m x = umem ?s x"
      unfolding words_or_none [OF Cons.prems(2)] by auto
    let ?t = "?s\<lparr>umem := m, sh_argc := of_nat (length (ws @ words w))\<rparr>"
    have "bytes m (buf_at d + Suc i) (cs @ [0]) = bytes (umem s) (buf_at d + Suc i) (cs @ [0])"
      using m(4) a(3) by (intro bytes_cong) (simp add: area_def mset_apply)
    then have "cstr m (buf_at d + Suc i) cs" using a(6) by (simp add: cstr_def del: bytes_append)
    moreover have "unat (of_nat (length (ws @ words w)) :: u32) = length (ws @ words w)"
      using i by (intro has_words_argc [OF m(3)]) (simp add: BUF_SIZE_def)
    ultimately have "at_rest d (Suc i) (Suc i) [] cs (ws @ words w) ?t"
      using m(2,3) a(3) by (simp add: at_rest_def)
    from Cons.IH [OF this] obtain s' where s': "split_loop d (buf_at d + Suc i) (buf_at d + Suc i) ?t = Some s'"
      "sh_ok d (umem s')" "has_words d (umem s') (Suc (Suc i + length cs)) ((ws @ words w) @ words cs)"
      "unat (sh_argc s') = length ((ws @ words w) @ words cs)" by auto
    have "words (w @ c # cs) = words w @ words cs"
      using words_word [OF Cons.prems(2)] words_space True by (cases "w = []") simp_all
    moreover have "split_loop d (buf_at d + i) (buf_at d + b) s = Some s'"
      using a(4,5) True st m(1) s'(1) by (subst split_loop.simps) simp
    ultimately show ?thesis using s'(2-4) by (intro exI [of _ s']) simp
  next
    case False
    have "at_rest d b (Suc i) (w @ [c]) cs ws s"
      using a by (simp add: at_rest_def add.assoc)
    from Cons.IH [OF this] Cons.prems(2) False obtain s' where
      s': "split_loop d (buf_at d + Suc i) (buf_at d + b) s = Some s'" "sh_ok d (umem s')"
      "has_words d (umem s') (Suc (Suc i + length cs)) (ws @ words ((w @ [c]) @ cs))"
      "unat (sh_argc s') = length (ws @ words ((w @ [c]) @ cs))" by auto
    moreover have "split_loop d (buf_at d + i) (buf_at d + b) s = split_loop d (buf_at d + Suc i) (buf_at d + b) s"
      using a(4,5) False by (subst split_loop.simps) simp
    ultimately show ?thesis by (intro exI [of _ s']) simp
  qed
qed

text \<open>C18: The shell splits a line into its words.  A terminated line of less than 1024 characters leaves \<open>argc\<close> at
  the number of its words, and the pointers of \<open>arg_ptrs\<close>, in order, at the words in \<open>arg_buf\<close>.\<close>

theorem shell_splits_line:
  assumes "sh_ok d (umem s)" and "cstr (umem s) (buf_at d) line" and "length line < BUF_SIZE"
  shows "\<exists>s'. split_command d s = Some s' \<and> unat (sh_argc s') = length (words line) \<and>
    (\<forall>k<length (words line). \<exists>p. fetch32 (umem s') (arg_ptrs_at d + 4 * k) = Some p \<and>
       cstr (umem s') (unat p) (words line ! k) \<and>
       arg_buf_at d \<le> unat p \<and> unat p + length (words line ! k) < arg_buf_at d + ARG_BUF_SIZE)"
proof -
  let ?m = "mwrite (umem s) (arg_ptrs_at d) (replicate (4 * NR_ARG_PTRS) 0)"
  let ?s = "s\<lparr>umem := ?m, sh_argc := 0\<rparr>"
  have m: "memset (umem s) (arg_ptrs_at d) 0 (4 * NR_ARG_PTRS) = Some ?m"
    using assms(1) by (intro memset_spec) (simp add: sh_ok_def)
  have "bytes ?m (buf_at d) (line @ [0]) = bytes (umem s) (buf_at d) (line @ [0])"
    using sh_apart(2) [OF assms(1)] assms(3) by (intro bytes_mwrite_other) (auto simp: BUF_SIZE_def NR_ARG_PTRS_def)
  then have "cstr ?m (buf_at d) line" using assms(2) by (simp add: cstr_def del: bytes_append)
  moreover have "sh_ok d ?m" using assms(1) by (rule sh_ok_keeps) (simp add: mwrite_def)
  ultimately have "at_rest d 0 0 [] line [] ?s" using assms(3) by (simp add: at_rest_def has_words_def)
  from split_loop_spec [OF this] obtain s' where
    s': "split_loop d (buf_at d) (buf_at d) ?s = Some s'" "sh_ok d (umem s')"
      "has_words d (umem s') (Suc (length line)) (words line)" "unat (sh_argc s') = length (words line)" by auto
  have "\<exists>p. fetch32 (umem s') (arg_ptrs_at d + 4 * k) = Some p \<and> cstr (umem s') (unat p) (words line ! k) \<and>
      arg_buf_at d \<le> unat p \<and> unat p + length (words line ! k) < arg_buf_at d + ARG_BUF_SIZE" if k: "k < length (words line)" for k
  proof -
    obtain o' where o': "fetch32 (umem s') (arg_ptrs_at d + 4 * k) = Some (of_nat (arg_buf_at d + o'))"
      "cstr (umem s') (arg_buf_at d + o') (words line ! k)" "o' + length (words line ! k) < Suc (length line)"
      using s'(3) k unfolding has_words_def by blast
    have l: "o' + length (words line ! k) < ARG_BUF_SIZE" using o'(3) assms(3) by (simp add: BUF_SIZE_def ARG_BUF_SIZE_def)
    then have "unat (of_nat (arg_buf_at d + o') :: u32) = arg_buf_at d + o'"
      using assms(1) by (intro unat_small) (simp add: sh_ok_def)
    then show ?thesis using o' l by auto
  qed
  then show ?thesis using m s'(1,4) by (simp add: split_command_def)
qed

subsection \<open>An example\<close>

definition ex_sh_data :: sh_data where
  "ex_sh_data = \<lparr>buf_at = 1000, arg_buf_at = 3000, arg_ptrs_at = 8000, path_at = 13000, exec_path_at = 14000\<rparr>"

definition ex_line :: "u8 list" where "ex_line = lit ''ls  -a''"

definition ex_sh_mem :: cmem where
  "ex_sh_mem = mwrite (mwrite (mwrite (mwrite (mwrite (mwrite (mwrite (\<lambda>_. Some 0)
     1000 (ex_line @ [0])) 100 (lit ''/bin/%s'' @ [0])) 200 (lit ''%s'' @ [0])) 300 (lit ''ls'' @ [0])) 400 (lit ''./a'' @ [0]))
     500 [0]) 600 [0]"

definition ex_shell :: shell where "ex_shell = \<lparr>umem = ex_sh_mem, sh_argc = 0, task_done = 0\<rparr>"

definition ex_machine :: "shell umachine" where
  "ex_machine = \<lparr>trap = (\<lambda>c args s. Some (0, s)), u_lit = (\<lambda>s. if s = lit ''/bin/%s'' then 100 else 200), libc_buf = 20000\<rparr>"

lemma ex_sh_ok: "sh_ok ex_sh_data ex_sh_mem"
proof -
  have "ex_sh_mem x \<noteq> None" for x by (simp add: ex_sh_mem_def mwrite_def)
  then show ?thesis
    by (auto simp: sh_ok_def ex_sh_data_def writable_def area_def BUF_SIZE_def ARG_BUF_SIZE_def NR_ARG_PTRS_def)
qed

lemma ex_sh_strings:
  "cstr ex_sh_mem 1000 ex_line" "cstr ex_sh_mem 100 (lit ''/bin/%s'')" "cstr ex_sh_mem 200 (lit ''%s'')"
  "cstr ex_sh_mem 300 (lit ''ls'')" "cstr ex_sh_mem 400 (lit ''./a'')"
  by (simp_all add: ex_sh_mem_def ex_line_def lit_def mwrite_def)

lemma ex_words: "words ex_line = [lit ''ls'', lit ''-a'']"
  by (simp add: ex_line_def lit_def words.simps class_iffs)

theorem shell_splits_line_witness:
  "\<exists>s' p. split_command ex_sh_data ex_shell = Some s' \<and> sh_argc s' = 2 \<and>
     fetch32 (umem s') (8000 + 4) = Some p \<and> cstr (umem s') (unat p) (lit ''-a'')"
proof -
  obtain s' where s': "split_command ex_sh_data ex_shell = Some s'" "unat (sh_argc s') = length (words ex_line)"
    "\<forall>k<length (words ex_line). \<exists>p. fetch32 (umem s') (arg_ptrs_at ex_sh_data + 4 * k) = Some p \<and>
       cstr (umem s') (unat p) (words ex_line ! k) \<and>
       arg_buf_at ex_sh_data \<le> unat p \<and> unat p + length (words ex_line ! k) < arg_buf_at ex_sh_data + ARG_BUF_SIZE"
    using shell_splits_line [of ex_sh_data ex_shell ex_line] ex_sh_ok ex_sh_strings(1)
    by (auto simp: ex_shell_def ex_sh_data_def ex_line_def lit_def BUF_SIZE_def)
  have "sh_argc s' = 2" using s'(2) by (simp add: ex_words word_unat_eq_iff)
  moreover have "\<exists>p. fetch32 (umem s') (8000 + 4) = Some p \<and> cstr (umem s') (unat p) (lit ''-a'')"
    using s'(3) [rule_format, of 1] by (auto simp: ex_words ex_sh_data_def)
  ultimately show ?thesis using s'(1) by blast
qed

subsection \<open>The path of a program\<close>

lemma sprintf_path:
  assumes "renders (exec_path_at d) (exec_path_at d + PATH_SIZE - 1) mem ps args p" "\<forall>x\<in>set ps. piece_ok x"
    and "format_of ps = fmt" "cstr_off (exec_path_at d) (exec_path_at d + PATH_SIZE - 1) mem a fmt"
    and "writable mem (exec_path_at d) PATH_SIZE" "1 < exec_path_at d" "exec_path_at d + PATH_SIZE \<le> 2 ^ 32"
    and "length p < PATH_SIZE" "0 \<notin> set p"
  shows "\<exists>mem'. sprintf null mem (exec_path_at d) a args = Some (mem', length p) \<and> cstr mem' (exec_path_at d) p \<and>
    (\<forall>x. x < exec_path_at d \<or> exec_path_at d + PATH_SIZE \<le> x \<longrightarrow> mem' x = mem x)"
  using sprintf_renders [OF assms(1,2) _ assms(5-8), of a null] assms(3,4,9) by (auto simp: cstr_def simp del: bytes_append)

text \<open>The path of a program fits.  A command of at most 121 characters, other than \<open>./\<close> alone, gives the path
  \<open>/bin/\<close> and the command, or what follows \<open>./\<close>, terminated in the array of 128 bytes, and nothing
  outside that array is written.\<close>

theorem exec_path_fits:
  assumes "cstr_off (exec_path_at d) (exec_path_at d + PATH_SIZE - 1) (umem s) command c"
    and "\<And>w. w \<in> {''%s'', ''/bin/%s''} \<Longrightarrow>
      cstr_off (exec_path_at d) (exec_path_at d + PATH_SIZE - 1) (umem s) (u_lit m (lit w)) (lit w)"
    and "writable (umem s) (exec_path_at d) PATH_SIZE" "1 < exec_path_at d" "exec_path_at d + PATH_SIZE \<le> 2 ^ 32"
    and "0 < command" "command + length c < 2 ^ 32" "length c \<le> 121" "c \<noteq> lit ''./''"
    and p: "p = (if take 2 c = lit ''./'' then drop 2 c else lit ''/bin/'' @ c)"
  shows "\<exists>mem. sh_exec_path m d command s = Some (True, s\<lparr>umem := mem\<rparr>) \<and> cstr mem (exec_path_at d) p \<and>
    length p < PATH_SIZE \<and> (\<forall>x. x < exec_path_at d \<or> exec_path_at d + PATH_SIZE \<le> x \<longrightarrow> mem x = umem s x)"
proof -
  let ?b = "exec_path_at d" and ?e = "exec_path_at d + PATH_SIZE - 1"
  have c: "cstr (umem s) command c" "0 \<notin> set c" using assms(1) by (simp_all add: cstr_off_def cstr_def)
  have len: "strlen (umem s) command = Some (length c)" by (rule strlen_spec [OF c(1)])
  have lp: "length p < PATH_SIZE" using assms(8) by (auto simp: p PATH_SIZE_def lit_def)
  have fits: "\<not> PATH_SIZE \<le> length (lit ''/bin/'') + length c + 1" using assms(8) by (simp add: PATH_SIZE_def lit_def)
  have zp: "0 \<notin> set p" using c(2) by (auto simp: p lit_def dest: in_set_dropD)
  have word: "unat (of_nat n :: u32) = n" if "n \<le> command + length c" for n using that assms(7) by (intro unat_small) simp
  have nz: "of_nat n \<noteq> (0 :: u32)" if "0 < n" "n \<le> command + length c" for n
    using word [OF that(2)] that(1) by (cases "of_nat n = (0 :: u32)") simp_all
  show ?thesis
  proof (cases "take 2 c = lit ''./''")
    case True
    then obtain r where r: "c = 46 # 47 # r" by (cases c; cases "tl c") (auto simp: lit_def numeral_2_eq_2)
    have "r \<noteq> []" using assms(9) r by (auto simp: lit_def)
    have off: "cstr_off ?b ?e (umem s) (command + 2) r" using assms(1) r by (auto simp: cstr_off_def numeral_2_eq_2)
    have "renders ?b ?e (umem s) [String] [of_nat (command + 2)] (r @ [])"
    proof (rule renders.String [OF renders.Nil])
      show "of_nat (command + 2) \<noteq> (0 :: u32)"
        using r by (intro nz) simp_all
      show "cstr_off ?b ?e (umem s) (unat (of_nat (command + 2) :: u32)) r"
        using off word [of "command + 2"] r by simp
    qed (use assms(8) r in simp)
    then have ren: "renders ?b ?e (umem s) [String] [of_nat (command + 2)] p" using True r by (simp add: p)
    have f: "\<forall>x\<in>set [String]. piece_ok x" "format_of [String] = lit ''%s''" by (simp_all add: format_of_def lit_def)
    from sprintf_path [OF ren f assms(2) assms(3-5) lp zp, of "u_lit m (lit ''<NULL>'')"] obtain mem where
      "sprintf (u_lit m (lit ''<NULL>'')) (umem s) ?b (u_lit m (lit ''%s'')) [of_nat (command + 2)] = Some (mem, length p)"
      "cstr mem ?b p" "\<forall>x. x < ?b \<or> ?b + PATH_SIZE \<le> x \<longrightarrow> mem x = umem s x" by blast
    then show ?thesis using c(1) len fits r \<open>r \<noteq> []\<close> lp by (auto simp: sh_exec_path_def)
  next
    case False
    have "renders ?b ?e (umem s) [String] [of_nat command] (c @ [])"
      by (rule renders.String [OF renders.Nil]) (use assms(1,6,8) word [of command] nz [of command] in simp_all)
    then have ren: "renders ?b ?e (umem s) [Txt 47, Txt 98, Txt 105, Txt 110, Txt 47, String] [of_nat command] p"
      using False by (simp add: p lit_def renders.Txt)
    have f: "\<forall>x\<in>set [Txt 47, Txt 98, Txt 105, Txt 110, Txt 47, String]. piece_ok x"
      "format_of [Txt 47, Txt 98, Txt 105, Txt 110, Txt 47, String] = lit ''/bin/%s''" by (simp_all add: format_of_def lit_def)
    from sprintf_path [OF ren f assms(2) assms(3-5) lp zp, of "u_lit m (lit ''<NULL>'')"] obtain mem where
      "sprintf (u_lit m (lit ''<NULL>'')) (umem s) ?b (u_lit m (lit ''/bin/%s'')) [of_nat command] = Some (mem, length p)"
      "cstr mem ?b p" "\<forall>x. x < ?b \<or> ?b + PATH_SIZE \<le> x \<longrightarrow> mem x = umem s x" by blast
    then show ?thesis using c(1) len fits lp False by (cases c; cases "tl c") (auto simp: sh_exec_path_def lit_def)
  qed
qed

theorem exec_path_fits_witness:
  "(\<exists>mem. sh_exec_path ex_machine ex_sh_data 300 ex_shell = Some (True, ex_shell\<lparr>umem := mem\<rparr>) \<and> cstr mem 14000 (lit ''/bin/ls'')) \<and>
   (\<exists>mem. sh_exec_path ex_machine ex_sh_data 400 ex_shell = Some (True, ex_shell\<lparr>umem := mem\<rparr>) \<and> cstr mem 14000 (lit ''a''))"
proof -
  have w: "writable (umem ex_shell) 14000 PATH_SIZE" by (simp add: writable_def ex_shell_def ex_sh_mem_def mwrite_def)
  have l: "cstr_off 14000 (14000 + PATH_SIZE - 1) (umem ex_shell) (u_lit ex_machine (lit w)) (lit w)"
    if "w \<in> {''%s'', ''/bin/%s''}" for w
    using that ex_sh_strings by (auto simp: ex_shell_def ex_machine_def cstr_off_def lit_def)
  have c: "cstr_off 14000 (14000 + PATH_SIZE - 1) (umem ex_shell) 300 (lit ''ls'')"
    "cstr_off 14000 (14000 + PATH_SIZE - 1) (umem ex_shell) 400 (lit ''./a'')"
    using ex_sh_strings by (simp_all add: ex_shell_def cstr_off_def lit_def)
  show ?thesis
    using exec_path_fits [of ex_sh_data ex_shell 300 "lit ''ls''" ex_machine]
      exec_path_fits [of ex_sh_data ex_shell 400 "lit ''./a''" ex_machine] w l c
    by (auto simp: ex_sh_data_def PATH_SIZE_def lit_def)
qed

end
