(* ===== verification/Space_Spec.thy ===== *)
theory Space_Spec
  imports Page_Table Ram Paging_Spec
begin

text \<open>
  What a page directory is to the processor and to the allocator: the pages it consists of and
  those it maps, each at one place, and how the operations of kernel/mm/page_table.c change them.
\<close>

subsection \<open>Words of pages\<close>

lemma apart_pages:
  assumes "page_offset b = 0" "page_offset c = 0" "b \<noteq> c"
    and "o1 + n1 \<le> 4096" "o2 + n2 \<le> 4096" "0 < n1" "0 < n2"
  shows "apart n1 (b + of_nat o1) n2 (c + of_nat o2)"
proof -
  obtain B C where BC: "unat b = 4096 * B" "unat c = 4096 * C"
    using assms(1,2) by (auto simp: page_offset_dvd elim!: dvdE)
  have lt: "B < 2 ^ 20" "C < 2 ^ 20" using unat_lt_u32 [of b] unat_lt_u32 [of c] by (simp_all add: BC)
  have ne: "B \<noteq> C" using assms(3) BC by (metis word_unat_eq_iff)
  have o1: "o1 < 4096" "o2 < 4096" using assms(4-7) by simp_all
  have s: "unat (x + of_nat k) = 4096 * X + k" if "unat x = 4096 * X" "X < 2 ^ 20" "k < 4096" for x :: u32 and X k
  proof -
    have "unat (of_nat k :: u32) = k" using that(3) by (intro unat_small) simp
    moreover have "4096 * X + k < 2 ^ 32" using that(2,3) by simp
    ultimately show ?thesis using that(1) by (simp add: unat_word_ariths)
  qed
  note u = s [OF BC(1) lt(1) o1(1)] s [OF BC(2) lt(2) o1(2)]
  have d: "n \<le> unat (y - x)" if "unat x = 4096 * X + k" "unat y = 4096 * Y + l" "X \<noteq> Y" "Y < 2 ^ 20" "X < 2 ^ 20"
      "k + n \<le> 4096" "l < 4096" for x y :: u32 and X Y k l n
  proof (cases "X < Y")
    case True
    then have "unat x \<le> unat y" using that by simp
    then have "unat (y - x) = unat y - unat x" by (simp add: unat_sub word_le_nat_alt)
    then show ?thesis using that True by simp
  next
    case False
    then have "Y < X" using that(3) by simp
    then have "unat y < unat x" using that by simp
    then have "unat (y - x) = 2 ^ 32 + unat y - unat x"
      using unat_sub_if' [of y x] by (simp add: word_le_nat_alt)
    then show ?thesis using that \<open>Y < X\<close> by simp
  qed
  show ?thesis unfolding apart_def
    using d [OF u(1) u(2) ne lt(2) lt(1) assms(4) o1(2)] d [OF u(2) u(1) ne [symmetric] lt assms(5) o1(1)] by simp
qed

definition word_at :: "'a vm_scheme \<Rightarrow> u32 \<Rightarrow> nat \<Rightarrow> u32" where
  "word_at s b i = load32 s (b + 4 * of_nat i)"

lemma word_at_store:
  assumes "page_offset b = 0" "page_offset c = 0" "i < 1024" "j < 1024"
  shows "word_at (store_u32 (c + 4 * of_nat j) v s) b i = (if b = c \<and> i = j then v else word_at s b i)"
proof -
  consider "b = c" "i = j" | "b = c" "i \<noteq> j" | "b \<noteq> c" by blast
  then show ?thesis
  proof cases
    case 2
    then have "apart 4 (b + 4 * of_nat i) 4 (c + 4 * of_nat j)" using assms apart_words [of i j c] by simp
    then show ?thesis using 2 by (simp add: word_at_def load32_store_u32)
  next
    case 3
    then have "apart 4 (b + of_nat (4 * i)) 4 (c + of_nat (4 * j))" using assms by (intro apart_pages) simp_all
    then show ?thesis using 3 by (simp add: word_at_def load32_store_u32)
  qed (simp add: word_at_def load_store_u32)
qed

lemma word_at_clear:
  assumes "page_offset b = 0" "page_offset c = 0" "i < 1024"
  shows "word_at (store_bytes c (replicate 4096 0) s) b i = (if b = c then 0 else word_at s b i)"
proof (cases "b = c")
  case True
  have "load_bytes (store_bytes c (replicate 4096 0) s) (c + 4 * of_nat i) 4 = replicate 4 0"
  proof (rule nth_equalityI)
    fix k assume "k < length (load_bytes (store_bytes c (replicate 4096 0) s) (c + 4 * of_nat i) 4)"
    then have k: "k < 4" by simp
    have "c + 4 * of_nat i + of_nat k - c = (of_nat (4 * i + k) :: u32)" by simp
    moreover have "unat (of_nat (4 * i + k) :: u32) = 4 * i + k" using assms(3) k by (intro unat_small) simp
    ultimately have "unat (c + 4 * of_nat i + of_nat k - c) = 4 * i + k" by (simp only:)
    then show "load_bytes (store_bytes c (replicate 4096 0) s) (c + 4 * of_nat i) 4 ! k = replicate 4 0 ! k"
      using k assms(3) by (simp add: ram_store_bytes)
  qed simp
  moreover have "replicate 4 (0 :: u8) = [0, 0, 0, 0]" by (simp add: numeral_eq_Suc)
  ultimately show ?thesis using True by (simp only: word_at_def load32_def) simp
next
  case False
  then have "apart 4 (b + of_nat (4 * i)) 4096 (c + of_nat 0)" using assms by (intro apart_pages) simp_all
  then show ?thesis using False by (simp add: word_at_def load32_apart)
qed

subsection \<open>The pages of an address space\<close>

text \<open>
  Where a page stands in an address space: the directory itself, the table of a directory entry
  below \<open>PAGE_OFFSET\<close>, or a page mapped by an entry of such a table.
\<close>

datatype slot = Dir | Tab nat | Leaf nat nat

definition USER_PGDS :: nat where "USER_PGDS = 768"

text \<open>The physical address of the page at a slot.\<close>

definition tab_phys :: "'a vm_scheme \<Rightarrow> u32 \<Rightarrow> nat \<Rightarrow> u32 option" where
  "tab_phys s dir i =
     (if i < USER_PGDS \<and> pgd_present (pgd_at s dir i) then Some (pgd_page (pgd_at s dir i)) else None)"

definition leaf_phys :: "'a vm_scheme \<Rightarrow> u32 \<Rightarrow> nat \<Rightarrow> u32 option" where
  "leaf_phys s t j =
     (if j < PTRS_PER_PGT \<and> pgt_present (pgt_at s t j) then Some (pgt_page (pgt_at s t j)) else None)"

fun slot_phys :: "'a vm_scheme \<Rightarrow> u32 \<Rightarrow> slot \<Rightarrow> u32 option" where
  "slot_phys s dir Dir = Some (pa dir)"
| "slot_phys s dir (Tab i) = tab_phys s dir i"
| "slot_phys s dir (Leaf i j) = do { x \<leftarrow> tab_phys s dir i; leaf_phys s (va x) j }"

text \<open>The translation of a user address by the processor.\<close>

definition user_translate :: "'a vm_scheme \<Rightarrow> u32 \<Rightarrow> u32 \<Rightarrow> u32 option" where
  "user_translate s dir v =
     (let d = pgd_at s dir (unat (pgd_index v))
      in if pgd_present d
         then let t = pgt_at s (va (pgd_page d)) (unat (pgt_index v))
              in if pgt_present t then Some (pgt_page t OR page_offset v) else None
         else None)"

definition slot_of :: "u32 \<Rightarrow> slot" where
  "slot_of v = Leaf (unat (pgd_index v)) (unat (pgt_index v))"

text \<open>Every page is a single allocated page, and it is at one slot only.\<close>

definition slots_ok :: "'a vm_scheme \<Rightarrow> u32 \<Rightarrow> (nat \<rightharpoonup> nat) \<Rightarrow> bool" where
  "slots_ok s dir a \<longleftrightarrow>
     (\<forall>k x. slot_phys s dir k = Some x \<longrightarrow>
        page_offset x = 0 \<and> (\<exists>p. phys_to_page (vmm s) x = Some p \<and> a p = Some 0)) \<and>
     (\<forall>k l x. slot_phys s dir k = Some x \<and> slot_phys s dir l = Some x \<longrightarrow> k = l)"

definition space_ok :: "'a vm_scheme \<Rightarrow> u32 \<Rightarrow> (nat \<rightharpoonup> nat) \<Rightarrow> bool" where
  "space_ok s dir a \<longleftrightarrow> mm_rel (vmm s) a \<and> slots_ok s dir a"

definition space_pages :: "'a vm_scheme \<Rightarrow> u32 \<Rightarrow> nat set" where
  "space_pages s dir = {p. \<exists>k x. slot_phys s dir k = Some x \<and> phys_to_page (vmm s) x = Some p}"

lemma va_pa [simp]: "va (pa x) = x" "pa (va x) = x"
  by (simp_all add: va_def pa_def)

lemma va_inj [simp]: "va x = va y \<longleftrightarrow> x = y"
  by (simp add: va_def)

lemma page_offset_va: "page_offset (va x) = page_offset x" "page_offset (pa x) = page_offset x"
proof -
  have "unat (page_offset (x + y)) = unat (page_offset x)" if "unat y mod 4096 = 0" for x y :: u32
  proof -
    have "(unat x + unat y) mod 2 ^ 32 mod 4096 = (unat x + unat y) mod 4096" by (rule mod_mod_cancel) simp
    also have "\<dots> = unat x mod 4096" using that by (metis add.right_neutral mod_add_right_eq)
    finally show ?thesis by (simp add: unat_page_offset unat_word_ariths)
  qed
  from this [of PAGE_OFFSET x] this [of PAGE_OFFSET "x - PAGE_OFFSET"] show
    "page_offset (va x) = page_offset x" "page_offset (pa x) = page_offset x"
    by (simp_all add: va_def pa_def PAGE_OFFSET_def word_unat_eq_iff)
qed

lemma page_offset_masked [simp]: "page_offset (pgd_page d) = 0" "page_offset (pgt_page t) = 0"
  by (simp_all add: page_ops page_consts bit_eq_iff bit_simps)

lemma user_index:
  assumes "v < PAGE_OFFSET"
  shows "unat (pgd_index v) < USER_PGDS" "unat (pgt_index v) < PTRS_PER_PGT"
proof -
  have "pgd_index v = drop_bit 22 v" by (rule bit_word_eqI) (simp add: bit_drop_bit_eq add.commute)
  also have "unat (drop_bit 22 v) = unat v div 2 ^ 22" by (subst unat_drop_bit_eq) (simp add: drop_bit_eq_div)
  finally have "unat (pgd_index v) = unat v div 2 ^ 22" .
  then show "unat (pgd_index v) < USER_PGDS"
    using assms by (simp add: USER_PGDS_def PAGE_OFFSET_def word_less_nat_alt)
qed (rule pg_index_less)

lemma translate_slot:
  "v < PAGE_OFFSET \<Longrightarrow> user_translate s dir v = map_option (\<lambda>x. x OR page_offset v) (slot_phys s dir (slot_of v))"
  using user_index [of v] by (simp add: user_translate_def slot_of_def Let_def tab_phys_def leaf_phys_def)

lemma entries_word_at: "pgd_at s dir i = Pgd (word_at s dir i)" "pgt_at s t i = Pgt (word_at s t i)"
  by (simp_all add: pgd_at_def pgt_at_def word_at_def)

lemma set_entries: "set_pgd dir i d = store_u32 (dir + 4 * of_nat i) (pgd d)"
  "set_pgt t i e = store_u32 (t + 4 * of_nat i) (pgt e)"
  by (simp_all add: set_pgd_def set_pgt_def)

lemma user_entry:
  assumes "page_offset x = 0"
  shows "pgd_present (mk_pgd x USER_PAGE_MASK)" "pgd_page (mk_pgd x USER_PAGE_MASK) = x"
    "pgt_present (mk_pgt x USER_PAGE_MASK)" "pgt_page (mk_pgt x USER_PAGE_MASK) = x"
proof -
  have f: "USER_PAGE_MASK AND PAGE_ADDR_MASK = 0" by (simp add: USER_PAGE_MASK_def page_consts)
  note e = pgt_page_mk_pgt [OF assms f]
  show "pgt_page (mk_pgt x USER_PAGE_MASK) = x" by (rule e)
  then show "pgd_page (mk_pgd x USER_PAGE_MASK) = x" by (simp add: pgd_page_def pgt_page_def mk_pgd_def mk_pgt_def)
  have "bit (pgt_check (mk_pgt x USER_PAGE_MASK) PAGE_PRESENT) 0"
    by (simp add: pgt_check_def mk_pgt_def USER_PAGE_MASK_def page_consts bit_simps)
  then show "pgt_present (mk_pgt x USER_PAGE_MASK)" by (auto simp: pgt_present_def)
  then show "pgd_present (mk_pgd x USER_PAGE_MASK)"
    by (simp add: pgt_present_def pgd_present_def pgt_check_def pgd_check_def mk_pgt_def mk_pgd_def)
qed

lemma zero_entry: "\<not> pgt_present (Pgt 0)" "\<not> pgd_present (Pgd 0)"
  by (simp_all add: page_ops)

subsection \<open>How stores change the slots\<close>

lemma slot_phys_ram: "ram s' = ram s \<Longrightarrow> slot_phys s' dir = slot_phys s dir"
proof -
  assume "ram s' = ram s"
  then have "word_at s' = word_at s" by (simp add: word_at_def load32_def load_bytes_def fun_eq_iff)
  then have "slot_phys s' dir k = slot_phys s dir k" for k
    by (cases k) (simp_all add: tab_phys_def leaf_phys_def entries_word_at)
  then show ?thesis by blast
qed

lemma slots_okD:
  assumes "slots_ok s dir a" "slot_phys s dir k = Some x"
  shows "page_offset x = 0" "\<exists>p. phys_to_page (vmm s) x = Some p \<and> a p = Some 0"
    "slot_phys s dir l = Some x \<Longrightarrow> l = k"
  using assms unfolding slots_ok_def by blast+

lemma dir_aligned: "slots_ok s dir a \<Longrightarrow> page_offset dir = 0"
  using slots_okD(1) [of s dir a Dir "pa dir"] page_offset_va(2) [of dir] by simp

text \<open>A new entry in a table of the space.\<close>

lemma set_leaf_slots:
  assumes ok: "slots_ok s dir a" and t: "slot_phys s dir (Tab i) = Some x" and j: "j < PTRS_PER_PGT"
    and y: "page_offset y = 0"
  shows "slot_phys (set_pgt (va x) j (mk_pgt y USER_PAGE_MASK) s) dir = (slot_phys s dir)(Leaf i j \<mapsto> y)"
    (is "slot_phys ?s dir = _")
proof
  have x: "page_offset (va x) = 0" using slots_okD(1) [OF ok t] by (simp add: page_offset_va)
  have d: "page_offset dir = 0" by (rule dir_aligned [OF ok])
  have j': "j < 1024" using j by (simp add: PTRS_PER_PGT_def)
  have "va x \<noteq> dir"
  proof
    assume "va x = dir"
    then have "slot_phys s dir Dir = Some x" by auto
    then show False using slots_okD(3) [OF ok t] by blast
  qed
  then have "word_at ?s dir n = word_at s dir n" if "n < 1024" for n
    by (simp add: set_entries word_at_store [OF d x that j'])
  then have tab: "tab_phys ?s dir n = tab_phys s dir n" for n
    by (cases "n < 1024") (simp_all add: tab_phys_def entries_word_at USER_PGDS_def)
  fix k
  show "slot_phys ?s dir k = ((slot_phys s dir)(Leaf i j \<mapsto> y)) k"
  proof (cases k)
    case (Leaf n l)
    show ?thesis
    proof (cases "tab_phys s dir n")
      case (Some z)
      then have z: "slot_phys s dir (Tab n) = Some z" by simp
      have za: "page_offset (va z) = 0" using slots_okD(1) [OF ok z] by (simp add: page_offset_va)
      have zx: "z = x \<longleftrightarrow> n = i" using slots_okD(3) [OF ok t, of "Tab n"] t z by auto
      have w: "word_at ?s (va z) l = (if n = i \<and> l = j then pgt (mk_pgt y USER_PAGE_MASK) else word_at s (va z) l)"
        if "l < 1024" using zx by (simp add: set_entries word_at_store [OF za x that j'])
      show ?thesis
      proof (cases "l < 1024")
        case True
        then show ?thesis using w [OF True] user_entry(3,4) [OF y] Some Leaf j
          by (auto simp: tab leaf_phys_def entries_word_at)
      next
        case False
        then show ?thesis using j' Some Leaf by (auto simp: tab leaf_phys_def PTRS_PER_PGT_def)
      qed
    next
      case None
      then show ?thesis using t Leaf by (auto simp: tab)
    qed
  qed (simp_all add: tab)
qed

text \<open>A new table of the space: a cleared page, then the entry of the directory.\<close>

lemma set_tab_slots:
  assumes ok: "slots_ok s dir a" and i: "i < USER_PGDS" and n: "slot_phys s dir (Tab i) = None"
    and t: "page_offset t = 0" and fresh: "\<And>k. slot_phys s dir k \<noteq> Some (pa t)"
  shows "slot_phys (set_pgd dir i (mk_pgd (pa t) USER_PAGE_MASK) (store_bytes t (replicate 4096 0) s)) dir
      = (slot_phys s dir)(Tab i \<mapsto> pa t)" (is "slot_phys ?s dir = _")
proof
  have d: "page_offset dir = 0" by (rule dir_aligned [OF ok])
  have i': "i < 1024" using i by (simp add: USER_PGDS_def)
  have dt: "dir \<noteq> t" using fresh [of Dir] by auto
  have w: "word_at ?s b l = (if b = dir \<and> l = i then pgd (mk_pgd (pa t) USER_PAGE_MASK)
      else if b = t then 0 else word_at s b l)" if "page_offset b = 0" "l < 1024" for b l
    using dt word_at_clear [OF that(1) t that(2), of s]
    by (auto simp: set_entries word_at_store [OF that(1) d that(2) i'])
  have pt: "page_offset (pa t) = 0" using t by (simp add: page_offset_va)
  have tab: "tab_phys ?s dir n = (if n = i then Some (pa t) else tab_phys s dir n)" for n
    using w [OF d, of n] dt user_entry(1,2) [OF pt] i by (auto simp: tab_phys_def entries_word_at USER_PGDS_def)
  fix k
  show "slot_phys ?s dir k = ((slot_phys s dir)(Tab i \<mapsto> pa t)) k"
  proof (cases k)
    case (Leaf m l)
    show ?thesis
    proof (cases "l < 1024")
      case l: True
      show ?thesis
      proof (cases "m = i")
        case True
        then show ?thesis using Leaf n w [OF t l] dt zero_entry(1) by (simp add: tab leaf_phys_def entries_word_at)
      next
        case False
        show ?thesis
        proof (cases "tab_phys s dir m")
          case (Some z)
          then have z: "slot_phys s dir (Tab m) = Some z" by simp
          then have "page_offset (va z) = 0" using slots_okD(1) [OF ok z] by (simp add: page_offset_va)
          moreover have "va z \<noteq> dir" using slots_okD(3) [OF ok z, of Dir] by auto
          moreover have "va z \<noteq> t" using fresh [of "Tab m"] Some by auto
          ultimately have "word_at ?s (va z) l = word_at s (va z) l" using w [of "va z" l] l by simp
          then show ?thesis using Leaf False Some by (simp add: tab leaf_phys_def entries_word_at)
        qed (use Leaf False in \<open>simp add: tab\<close>)
      qed
    next
      case False
      then show ?thesis using Leaf n by (cases "m = i") (auto simp: tab leaf_phys_def PTRS_PER_PGT_def split: bind_splits)
    qed
  qed (simp_all add: tab)
qed

end
