(* ===== verification/Space_Ops.thy ===== *)
theory Space_Ops
  imports Space_Spec
begin

text \<open>
  Mapping a page and giving an address space back: what \<open>load_page\<close>, \<open>copy_empty_page_dir\<close> and
  \<open>free_page_dir\<close> do to the slots of a directory and to the pages that are handed out.
\<close>

subsection \<open>Keeping the invariant\<close>

lemma phys_inj:
  assumes "mm_rel m a" "phys_to_page m x = Some p" "phys_to_page m y = Some p" "page_offset x = 0" "page_offset y = 0"
  shows "x = y"
proof -
  have "layout_ok m" using assms(1) by (auto simp: mm_rel_def mm_inv_def)
  from phys_to_page_inverse [OF this assms(2)] phys_to_page_inverse [OF this assms(3)]
  show ?thesis using assms(4,5) by (simp add: page_offset_zero_iff)
qed

lemma space_okD:
  assumes "space_ok s dir a"
  shows "mm_rel (vmm s) a" "slots_ok s dir a" "p \<in> space_pages s dir \<Longrightarrow> a p = Some 0"
proof -
  show r: "mm_rel (vmm s) a" and ok: "slots_ok s dir a" using assms by (simp_all add: space_ok_def)
  show "p \<in> space_pages s dir \<Longrightarrow> a p = Some 0" using slots_okD(2) [OF ok] by (fastforce simp: space_pages_def)
qed

lemma space_same:
  assumes "space_ok s dir a" "slot_phys s' dir = slot_phys s dir" "phys_to_page (vmm s') = phys_to_page (vmm s)"
    and "mm_rel (vmm s') a'" "\<forall>p\<in>space_pages s dir. a' p = Some 0"
  shows "space_ok s' dir a'" "space_pages s' dir = space_pages s dir"
proof -
  show "space_pages s' dir = space_pages s dir" by (simp add: space_pages_def assms(2,3))
  have "\<exists>p. phys_to_page (vmm s) x = Some p \<and> a' p = Some 0" if "slot_phys s dir k = Some x" for k x
    using slots_okD(2) [OF space_okD(2) [OF assms(1)] that] assms(5) that by (auto simp: space_pages_def)
  then show "space_ok s' dir a'" using assms(1,4) by (auto simp: space_ok_def slots_ok_def assms(2,3))
qed

lemma space_add:
  assumes "space_ok s dir a" "slot_phys s' dir = (slot_phys s dir)(k \<mapsto> x)" "slot_phys s dir k = None"
    and "phys_to_page (vmm s') = phys_to_page (vmm s)" "mm_rel (vmm s') a" "page_offset x = 0"
    and "phys_to_page (vmm s) x = Some p" "p \<notin> space_pages s dir" "a p = Some 0"
  shows "space_ok s' dir a" "space_pages s' dir = insert p (space_pages s dir)"
proof -
  have n: "slot_phys s dir l \<noteq> Some x" for l using assms(7,8) by (auto simp: space_pages_def)
  have "slots_ok s' dir a" unfolding slots_ok_def assms(2,4)
  proof (intro conjI allI impI; (elim conjE)?)
    fix l y assume l: "((slot_phys s dir)(k \<mapsto> x)) l = Some y"
    then show "page_offset y = 0" "\<exists>p. phys_to_page (vmm s) y = Some p \<and> a p = Some 0"
      using slots_okD(1,2) [OF space_okD(2) [OF assms(1)], of l y] assms(6,7,9) by (auto split: if_splits)
    fix j assume j: "((slot_phys s dir)(k \<mapsto> x)) j = Some y"
    then show "l = j" using l n slots_okD(3) [OF space_okD(2) [OF assms(1)], of j y l] by (auto split: if_splits)
  qed
  then show "space_ok s' dir a" using assms(5) by (simp add: space_ok_def)
  show "space_pages s' dir = insert p (space_pages s dir)"
    using assms(3,7) unfolding space_pages_def assms(2,4)
    by (auto split: if_splits) (metis option.distinct(1))
qed

subsection \<open>Pages for an address space\<close>

lemma zone_page_phys:
  assumes "mm_rel m a" "i \<in> set (fast_zone_entry m t)" "t < NR_ZONE_TYPES"
    and "block_fits (bbase (zones m i)) (bend (zones m i)) p 0"
  shows "\<exists>x. page_to_phys m p = Some x \<and> phys_to_page m x = Some p \<and> page_offset x = 0"
proof -
  have l: "layout_ok m" using assms(1) by (auto simp: mm_rel_def mm_inv_def)
  have i: "i \<in> set (zone_all_for_each m)" using assms(2,3) by (auto simp: set_zone_all)
  note B = block_fitsD [OF assms(4)]
  from page_phys [OF l i B(1,5)] show ?thesis by (metis page_offset_zero_iff)
qed

definition fresh_page :: "'a vm_scheme \<Rightarrow> 'a vm_scheme \<Rightarrow> (nat \<rightharpoonup> nat) \<Rightarrow> nat \<Rightarrow> u32 \<Rightarrow> bool" where
  "fresh_page s s' a p x \<longleftrightarrow> (\<exists>m. s' = s\<lparr>vmm := m\<rparr> \<and> mm_rel m (a(p \<mapsto> 0)) \<and> phys_to_page m = phys_to_page (vmm s) \<and>
     page_to_phys m = page_to_phys (vmm s)) \<and> a p = None \<and> page_to_phys (vmm s) p = Some x \<and>
     phys_to_page (vmm s) x = Some p \<and> page_offset x = 0"

lemma vm_alloc_step:
  assumes "mm_rel (vmm s) a" "t < NR_ZONE_TYPES"
  shows "vm_alloc t 0 s = Some (None, s) \<or>
    (\<exists>p s' x. vm_alloc t 0 s = Some (Some p, s') \<and> fresh_page s s' a p x)"
  using mm_alloc_step [OF assms, of 0] zone_page_phys [OF assms(1) _ assms(2)]
  by (fastforce simp: vm_alloc_def fresh_page_def)

lemma get_avail_step:
  assumes "mm_rel (vmm s) a"
  shows "get_avail_pages 0 s = Some (None, s) \<or>
    (\<exists>p s' x. get_avail_pages 0 s = Some (Some p, s') \<and> fresh_page s s' a p x)"
  using vm_alloc_step [OF assms, of ZONE_HIGHMEM] vm_alloc_step [OF assms, of ZONE_NORMAL]
    vm_alloc_step [OF assms, of ZONE_DMA]
  by (auto simp: get_avail_pages_def zone_consts)

lemma get_page_step:
  assumes "mm_rel (vmm s) a"
  shows "get_page s = Some (None, s) \<or>
    (\<exists>v s' p. get_page s = Some (Some v, s') \<and> page_offset v = 0 \<and> fresh_page s s' a p (pa v))"
proof -
  have t: "ZONE_NORMAL < NR_ZONE_TYPES" by (simp add: zone_consts)
  have "0 \<le> MAX_ORDER" by simp
  from mm_alloc_step [OF assms t this] show ?thesis
  proof (elim disjE exE conjE)
    fix p m' i
    assume p: "alloc_pages (vmm s) ZONE_NORMAL 0 = Some (Some p, m')" "i \<in> set (fast_zone_entry (vmm s) ZONE_NORMAL)"
      "block_fits (bbase (zones (vmm s) i)) (bend (zones (vmm s) i)) p 0" "a p = None" "mm_rel m' (a(p \<mapsto> 0))"
      "page_to_phys m' = page_to_phys (vmm s)" "phys_to_page m' = phys_to_page (vmm s)"
    from zone_page_phys [OF assms p(2) t p(3)] obtain x where x: "page_to_phys (vmm s) p = Some x"
      "phys_to_page (vmm s) x = Some p" "page_offset x = 0" by blast
    have "get_page s = Some (Some (va x), s\<lparr>vmm := m'\<rparr>)"
      using p(1,6) x(1) by (simp add: get_page_def kget_alloc page_to_virt_def)
    then show ?thesis using p x by (auto simp: fresh_page_def page_offset_va)
  qed (auto simp: get_page_def kget_alloc)
qed

lemma fresh_pageD:
  assumes "fresh_page s s' a p x"
  shows "ram s' = ram s" "phys_to_page (vmm s') = phys_to_page (vmm s)" "page_to_phys (vmm s') = page_to_phys (vmm s)"
    "mm_rel (vmm s') (a(p \<mapsto> 0))" "a p = None" "phys_to_page (vmm s) x = Some p" "page_to_phys (vmm s) p = Some x"
    "page_offset x = 0"
  using assms by (auto simp: fresh_page_def)

text \<open>A page just handed out is not yet part of the space.\<close>

lemma space_fresh:
  assumes ok: "space_ok s dir a" and f: "fresh_page s s' a p x"
  shows "space_ok s' dir (a(p \<mapsto> 0))" "space_pages s' dir = space_pages s dir" "p \<notin> space_pages s dir"
    "slot_phys s' dir = slot_phys s dir" "slot_phys s dir k \<noteq> Some x"
proof -
  note F = fresh_pageD [OF f]
  show p: "p \<notin> space_pages s dir" using space_okD(3) [OF ok, of p] F(5) by auto
  show sl: "slot_phys s' dir = slot_phys s dir" by (rule slot_phys_ram [OF F(1)])
  have "\<forall>q\<in>space_pages s dir. (a(p \<mapsto> 0)) q = Some 0" using p space_okD(3) [OF ok] by auto
  note S = space_same [OF ok sl F(2,4) this]
  show "space_ok s' dir (a(p \<mapsto> 0))" "space_pages s' dir = space_pages s dir" by (rule S)+
  show "slot_phys s dir k \<noteq> Some x" using p F(6) by (auto simp: space_pages_def)
qed

lemma map_leaf:
  assumes ok: "space_ok s dir a" and t: "slot_phys s dir (Tab i) = Some x" and j: "j < PTRS_PER_PGT"
    and n: "slot_phys s dir (Leaf i j) = None"
    and p: "phys_to_page (vmm s) y = Some p" "page_offset y = 0" "p \<notin> space_pages s dir" "a p = Some 0"
  defines "s' \<equiv> set_pgt (va x) j (mk_pgt y USER_PAGE_MASK) s"
  shows "space_ok s' dir a" "space_pages s' dir = insert p (space_pages s dir)"
    "slot_phys s' dir = (slot_phys s dir)(Leaf i j \<mapsto> y)" "vmm s' = vmm s" "\<not> pgt_present (pgt_at s (va x) j)"
proof -
  show v: "vmm s' = vmm s" by (simp add: s'_def set_pgt_def)
  show sl: "slot_phys s' dir = (slot_phys s dir)(Leaf i j \<mapsto> y)"
    unfolding s'_def by (rule set_leaf_slots [OF space_okD(2) [OF ok] t j p(2)])
  show "space_ok s' dir a" "space_pages s' dir = insert p (space_pages s dir)"
    using space_add [OF ok sl n _ _ p(2,1,3,4)] space_okD(1) [OF ok] v by simp_all
  show "\<not> pgt_present (pgt_at s (va x) j)" using n t j by (simp add: leaf_phys_def split: if_splits)
qed

lemma map_table:
  assumes ok: "space_ok s dir a" and i: "i < USER_PGDS" and n: "slot_phys s dir (Tab i) = None"
    and f: "fresh_page s u a q (pa t)" and t: "page_offset t = 0"
  defines "s' \<equiv> set_pgd dir i (mk_pgd (pa t) USER_PAGE_MASK) (store_bytes t (replicate 4096 0) u)"
  shows "space_ok s' dir (a(q \<mapsto> 0))" "space_pages s' dir = insert q (space_pages s dir)"
    "slot_phys s' dir = (slot_phys s dir)(Tab i \<mapsto> pa t)" "vmm s' = vmm u"
proof -
  note S = space_fresh [OF ok f] and F = fresh_pageD [OF f]
  show v: "vmm s' = vmm u" by (simp add: s'_def set_pgd_def)
  have n': "slot_phys u dir (Tab i) = None" using n S(4) by simp
  have sl: "slot_phys s' dir = (slot_phys u dir)(Tab i \<mapsto> pa t)"
    unfolding s'_def by (rule set_tab_slots [OF space_okD(2) [OF S(1)] i n' t]) (use S(4,5) in simp)
  then show "slot_phys s' dir = (slot_phys s dir)(Tab i \<mapsto> pa t)" using S(4) by simp
  show "space_ok s' dir (a(q \<mapsto> 0))" "space_pages s' dir = insert q (space_pages s dir)"
    using space_add [OF S(1) sl n', of q] space_okD(1) [OF S(1)] v F(2,6,8) S(2,3) by simp_all
qed

text \<open>What \<open>load_page\<close> answers, for the slot \<open>k\<close>.\<close>

definition loaded :: "'a vm_scheme \<Rightarrow> u32 \<Rightarrow> (nat \<rightharpoonup> nat) \<Rightarrow> slot \<Rightarrow> nat option \<Rightarrow> 'a vm_scheme \<Rightarrow> (nat \<rightharpoonup> nat) \<Rightarrow> bool" where
  "loaded s dir a k r s' a' \<longleftrightarrow> space_ok s' dir a' \<and> space_pages s dir \<subseteq> space_pages s' dir \<and>
     (\<forall>q. q \<notin> space_pages s' dir \<longrightarrow> a' q = a q) \<and>
     (\<forall>q\<in>space_pages s' dir. q \<notin> space_pages s dir \<longrightarrow> a q = None) \<and>
     phys_to_page (vmm s') = phys_to_page (vmm s) \<and> page_to_phys (vmm s') = page_to_phys (vmm s) \<and>
     (case r of
        None \<Rightarrow> a' = a \<and> slot_phys s' dir = slot_phys s dir
      | Some p \<Rightarrow> a p = None \<and> (\<exists>x. page_to_phys (vmm s) p = Some x \<and> slot_phys s' dir k = Some x) \<and>
          (\<forall>i j. Leaf i j \<noteq> k \<longrightarrow> slot_phys s' dir (Leaf i j) = slot_phys s dir (Leaf i j)))"

lemma vm_dealloc_step:
  assumes "mm_rel (vmm s) a" "a p = Some 0"
  shows "\<exists>m. vm_dealloc p s = Some (s\<lparr>vmm := m\<rparr>) \<and> mm_rel m (a(p := None)) \<and>
    phys_to_page m = phys_to_page (vmm s) \<and> page_to_phys m = page_to_phys (vmm s)"
  using mm_dealloc_step [OF assms] by (auto simp: vm_dealloc_def)

lemma page_end:
  assumes "page_offset v = 0" "v < PAGE_OFFSET"
  shows "\<not> PAGE_OFFSET < v + PAGE_SIZE"
proof -
  obtain V where V: "unat v = 4096 * V" using assms(1) by (auto simp: page_offset_dvd elim!: dvdE)
  then have "4096 * V + 4096 \<le> 0xC0000000" using assms(2) by (simp add: PAGE_OFFSET_def word_less_nat_alt)
  then have "unat (v + PAGE_SIZE) \<le> 0xC0000000" by (simp add: unat_word_ariths unat_PAGE_SIZE V)
  then show ?thesis by (simp add: PAGE_OFFSET_def word_less_nat_alt)
qed

text \<open>The entry goes into a table that is there, or into a new one.\<close>

lemma load_page_old_table:
  assumes ok: "space_ok s dir a" and v: "page_offset v = 0" "v < PAGE_OFFSET" and n: "slot_phys s dir (slot_of v) = None"
    and g: "get_avail_pages 0 s = Some (Some p, s1)" and f: "fresh_page s s1 a p y"
    and tab: "slot_phys s1 dir (Tab (unat (pgd_index v))) = Some x"
  shows "\<exists>r s' a'. load_page dir v s = Some (r, s') \<and> loaded s dir a (slot_of v) r s' a'"
proof -
  note ix = user_index [OF v(2)] and pe = page_end [OF v]
  let ?i = "unat (pgd_index v)" and ?j = "unat (pgt_index v)"
  note F = fresh_pageD [OF f] and S = space_fresh [OF ok f]
  have n1: "slot_phys s1 dir (Leaf ?i ?j) = None" using n S(4) by (simp add: slot_of_def)
  let ?s = "set_pgt (va x) ?j (mk_pgt y USER_PAGE_MASK) s1"
  have "p \<notin> space_pages s1 dir" using S(2,3) by simp
  note M = map_leaf [OF S(1) tab ix(2) n1, of y p]
  have M': "space_ok ?s dir (a(p \<mapsto> 0))" "space_pages ?s dir = insert p (space_pages s1 dir)"
    "slot_phys ?s dir = (slot_phys s1 dir)(Leaf ?i ?j \<mapsto> y)" "vmm ?s = vmm s1" "\<not> pgt_present (pgt_at s1 (va x) ?j)"
    using M F(2,6,8) \<open>p \<notin> space_pages s1 dir\<close> by simp_all
  have "pgd_present (pgd_at s1 dir ?i)" "x = pgd_page (pgd_at s1 dir ?i)"
    using tab by (simp_all add: tab_phys_def split: if_splits)
  then have "load_page dir v s = Some (Some p, ?s)"
    using v pe g M'(5) F(3,7) by (simp add: load_page_def Let_def)
  moreover have "loaded s dir a (slot_of v) (Some p) ?s (a(p \<mapsto> 0))"
    using M' S(2,4) F by (auto simp: loaded_def slot_of_def)
  ultimately show ?thesis by blast
qed

lemma load_page_new_table:
  assumes ok: "space_ok s dir a" and v: "page_offset v = 0" "v < PAGE_OFFSET" and n: "slot_phys s dir (slot_of v) = None"
    and g: "get_avail_pages 0 s = Some (Some p, s1)" and f: "fresh_page s s1 a p y"
    and tab: "slot_phys s1 dir (Tab (unat (pgd_index v))) = None"
  shows "\<exists>r s' a'. load_page dir v s = Some (r, s') \<and> loaded s dir a (slot_of v) r s' a'"
proof -
  note ix = user_index [OF v(2)] and pe = page_end [OF v]
  let ?i = "unat (pgd_index v)" and ?j = "unat (pgt_index v)"
  note F = fresh_pageD [OF f] and S = space_fresh [OF ok f]
  have n1: "slot_phys s1 dir (Leaf ?i ?j) = None" using n S(4) by (simp add: slot_of_def)
  have np: "\<not> pgd_present (pgd_at s1 dir ?i)" using tab ix(1) by (simp add: tab_phys_def split: if_splits)
  from get_page_step [OF space_okD(1) [OF S(1)]] show ?thesis
  proof (elim disjE exE conjE)
    assume g1: "get_page s1 = Some (None, s1)"
    from vm_dealloc_step [OF F(4), of p] obtain m where m: "vm_dealloc p s1 = Some (s1\<lparr>vmm := m\<rparr>)"
      "mm_rel m (a(p \<mapsto> 0, p := None))" "phys_to_page m = phys_to_page (vmm s1)" "page_to_phys m = page_to_phys (vmm s1)"
      by auto
    have a: "a(p \<mapsto> 0, p := None) = a" using F(5) by auto
    let ?s = "s1\<lparr>vmm := m\<rparr>"
    have "slot_phys ?s dir = slot_phys s dir" using slot_phys_ram [of ?s s dir] F(1) by simp
    moreover from this have "space_ok ?s dir a" "space_pages ?s dir = space_pages s dir"
      using space_same [OF ok, of ?s a] m F(2) a space_okD(3) [OF ok] by simp_all
    ultimately have "loaded s dir a (slot_of v) None ?s a" using m F by (simp add: loaded_def)
    moreover have "load_page dir v s = Some (None, ?s)"
      using v pe g np g1 m(1) by (simp add: load_page_def Let_def get_zeroed_page_def)
    ultimately show ?thesis by blast
  next
    fix t u q assume g1: "get_page s1 = Some (Some t, u)" and t: "page_offset t = 0"
      and f1: "fresh_page s1 u (a(p \<mapsto> 0)) q (pa t)"
    note G = fresh_pageD [OF f1] and T = map_table [OF S(1) ix(1) tab f1 t]
    let ?u = "set_pgd dir ?i (mk_pgd (pa t) USER_PAGE_MASK) (store_bytes t (replicate 4096 0) u)"
    let ?s = "set_pgt t ?j (mk_pgt y USER_PAGE_MASK) ?u"
    have qp: "q \<noteq> p" "a q = None" using G(5) by (auto split: if_splits)
    have tab': "slot_phys ?u dir (Tab ?i) = Some (pa t)" and leaf: "slot_phys ?u dir (Leaf ?i ?j) = None"
      unfolding T(3) using n1 by simp_all
    have M: "space_ok ?s dir (a(p \<mapsto> 0, q \<mapsto> 0))" "space_pages ?s dir = insert p (space_pages ?u dir)"
      "slot_phys ?s dir = (slot_phys ?u dir)(Leaf ?i ?j \<mapsto> y)" "vmm ?s = vmm ?u" "\<not> pgt_present (pgt_at ?u t ?j)"
      using map_leaf [OF T(1) tab' ix(2) leaf, of y p] F(2,6,8) G(2) T(2,4) S(2,3) qp by simp_all
    have "load_page dir v s = Some (Some p, ?s)"
      using v pe g np g1 M(5) T(4) F(3,7) G(3) by (simp add: load_page_def Let_def get_zeroed_page_def)
    moreover have "loaded s dir a (slot_of v) (Some p) ?s (a(p \<mapsto> 0, q \<mapsto> 0))"
      using M T(2,3,4) S(2,4) F G(2,3) qp by (auto simp: loaded_def slot_of_def)
    ultimately show ?thesis by blast
  qed
qed

lemma load_page_step:
  assumes ok: "space_ok s dir a" and v: "page_offset v = 0" "v < PAGE_OFFSET" and n: "slot_phys s dir (slot_of v) = None"
  shows "\<exists>r s' a'. load_page dir v s = Some (r, s') \<and> loaded s dir a (slot_of v) r s' a'"
  using get_avail_step [OF space_okD(1) [OF ok]]
proof (elim disjE exE conjE)
  assume "get_avail_pages 0 s = Some (None, s)"
  then have "load_page dir v s = Some (None, s)" using v page_end [OF v] by (simp add: load_page_def)
  then show ?thesis using ok by (auto simp: loaded_def)
next
  fix p s1 y assume g: "get_avail_pages 0 s = Some (Some p, s1)" "fresh_page s s1 a p y"
  show ?thesis
    using load_page_old_table [OF assms g] load_page_new_table [OF assms g]
    by (cases "slot_phys s1 dir (Tab (unat (pgd_index v)))") blast+
qed

subsection \<open>Giving an address space back\<close>

definition free_slot :: "u32 \<Rightarrow> slot \<Rightarrow> 'a vm_scheme \<Rightarrow> 'a vm_scheme option" where
  "free_slot dir k s =
     (case slot_phys s dir k of
        None \<Rightarrow> Some s
      | Some x \<Rightarrow> do { p \<leftarrow> phys_to_page (vmm s) x; vm_dealloc p s })"

definition dir_slots :: "slot list" where
  "dir_slots = concat (map (\<lambda>i. map (Leaf i) [0..<PTRS_PER_PGT] @ [Tab i]) [0..<USER_PGDS]) @ [Dir]"

lemma vm_dealloc_ram: "vm_dealloc p s = Some s' \<Longrightarrow> ram s' = ram s"
  by (auto simp: vm_dealloc_def split: Option.bind_splits)

lemma free_slot_ram: "free_slot dir k s = Some s' \<Longrightarrow> ram s' = ram s"
  by (auto simp: free_slot_def vm_dealloc_ram split: option.splits Option.bind_splits)

lemma put_page_phys: "put_page t s = do { p \<leftarrow> phys_to_page (vmm s) (pa t); vm_dealloc p s }"
  by (simp add: put_page_def kput_def free_pages_def virt_to_page_def vm_dealloc_def bind_assoc)

lemma fold_opt_cong:
  assumes "P s" "\<And>x t. x \<in> set xs \<Longrightarrow> P t \<Longrightarrow> f x t = g x t"
    and "\<And>x t t'. x \<in> set xs \<Longrightarrow> P t \<Longrightarrow> g x t = Some t' \<Longrightarrow> P t'"
  shows "fold_opt f xs s = fold_opt g xs s"
  using assms
proof (induction xs arbitrary: s)
  case (Cons x xs)
  have "f x s = g x s" using Cons.prems by simp
  moreover have "fold_opt f xs t = fold_opt g xs t" if t: "g x s = Some t" for t
  proof (rule Cons.IH)
    show "P t" using Cons.prems(3) [OF _ Cons.prems(1) t] by simp
    show "f y u = g y u" if "y \<in> set xs" "P u" for y u using Cons.prems(2) [OF _ that(2)] that(1) by simp
    show "P u'" if "y \<in> set xs" "P u" "g y u = Some u'" for y u u'
      using Cons.prems(3) [OF _ that(2,3)] that(1) by simp
  qed
  ultimately show ?case by (auto split: Option.bind_splits)
qed simp

lemma fold_opt_Nil [simp]: "fold_opt f [] = Some"
  by (rule ext) simp

lemma fold_opt_map: "fold_opt f (map h xs) s = fold_opt (f \<circ> h) xs s"
  by (induction xs arbitrary: s) (auto intro!: Option.bind_cong)

lemma fold_opt_concat: "fold_opt f (concat xss) s = fold_opt (fold_opt f) xss s"
  by (induction xss arbitrary: s) (auto simp: fold_opt_append intro!: Option.bind_cong)

lemma free_dir_entry_slots:
  assumes "i < USER_PGDS"
  shows "free_dir_entry dir i s = fold_opt (free_slot dir) (map (Leaf i) [0..<PTRS_PER_PGT] @ [Tab i]) s"
proof (cases "tab_phys s dir i")
  case None
  have n: "free_slot dir (Leaf i j) t = Some t" "free_slot dir (Tab i) t = Some t" if "ram t = ram s" for j t
    using None fun_cong [OF slot_phys_ram [OF that], of dir "Tab i"] by (simp_all add: free_slot_def)
  have "fold_opt (free_slot dir \<circ> Leaf i) js s = fold_opt (\<lambda>_. Some) js s" for js
    by (rule fold_opt_cong [where P = "\<lambda>t. ram t = ram s"]) (auto simp: n)
  moreover have "fold_opt (\<lambda>_. Some) js s = Some s" for js :: "nat list" by (induction js) simp_all
  ultimately show ?thesis using None assms n(2) [OF refl]
    by (simp add: free_dir_entry_def tab_phys_def fold_opt_append fold_opt_map split: if_splits)
next
  case (Some x)
  then have x: "pgd_present (pgd_at s dir i)" "pgd_page (pgd_at s dir i) = x"
    by (simp_all add: tab_phys_def split: if_splits)
  have t: "tab_phys t dir i = Some x" if "ram t = ram s" for t
    using Some fun_cong [OF slot_phys_ram [OF that], of dir "Tab i"] by simp
  have l: "fold_opt (free_slot dir \<circ> Leaf i) [0..<PTRS_PER_PGT] s = fold_opt (free_table_entry (va x)) [0..<PTRS_PER_PGT] s"
  proof (rule fold_opt_cong [where P = "\<lambda>t. ram t = ram s", symmetric])
    show "free_table_entry (va x) j u = (free_slot dir \<circ> Leaf i) j u" if "j \<in> set [0..<PTRS_PER_PGT]" "ram u = ram s" for j u
      using t [OF that(2)] that(1) by (simp add: free_slot_def free_table_entry_def leaf_phys_def)
  qed (auto simp: free_slot_ram)
  have p: "free_slot dir (Tab i) u = put_page (va x) u" if "ram u = ram s" for u
    using t [OF that] by (simp add: free_slot_def put_page_phys)
  have r: "ram u = ram s" if "fold_opt (free_slot dir \<circ> Leaf i) js t = Some u" "ram t = ram s" for js t u
    using that by (induction js arbitrary: t) (auto simp: free_slot_ram split: Option.bind_splits)
  show ?thesis using x l
    by (auto simp: free_dir_entry_def Let_def fold_opt_append fold_opt_map p [OF r [OF _ refl]] intro!: Option.bind_cong)
qed

lemma free_page_dir_slots: "free_page_dir dir (s :: 'a vm_scheme) = fold_opt (free_slot dir) dir_slots s"
proof -
  have "unat (PAGE_OFFSET div PGD_SIZE) = USER_PGDS" by (simp add: page_consts USER_PGDS_def unat_div)
  moreover have "fold_opt (free_dir_entry dir) [0..<USER_PGDS] s
      = fold_opt (fold_opt (free_slot dir) \<circ> (\<lambda>i. map (Leaf i) [0..<PTRS_PER_PGT] @ [Tab i])) [0..<USER_PGDS] s"
    by (rule fold_opt_cong [where P = "\<lambda>_. True"]) (simp_all add: free_dir_entry_slots del: fold_opt.simps)
  moreover have "put_page dir = (free_slot dir Dir :: 'a vm_scheme \<Rightarrow> _)"
    by (rule ext) (simp add: free_slot_def put_page_phys)
  ultimately show ?thesis
    by (simp add: free_page_dir_def dir_slots_def fold_opt_append fold_opt_concat fold_opt_map)
qed

lemma free_slots:
  assumes "slots_ok s dir a" "ram t = ram s" "phys_to_page (vmm t) = phys_to_page (vmm s)" "mm_rel (vmm t) b" "distinct ks"
    and "\<And>k x p. k \<in> set ks \<Longrightarrow> slot_phys s dir k = Some x \<Longrightarrow> phys_to_page (vmm s) x = Some p \<Longrightarrow> b p = Some 0"
  shows "\<exists>t'. fold_opt (free_slot dir) ks t = Some t' \<and>
    mm_rel (vmm t') (\<lambda>q. if \<exists>k\<in>set ks. \<exists>x. slot_phys s dir k = Some x \<and> phys_to_page (vmm s) x = Some q then None else b q)"
  using assms(2-6)
proof (induction ks arbitrary: t b)
  case (Cons k ks)
  have sl: "slot_phys t dir = slot_phys s dir" by (rule slot_phys_ram [OF Cons.prems(1)])
  show ?case
  proof (cases "slot_phys s dir k")
    case None
    then have "free_slot dir k t = Some t" by (simp add: free_slot_def sl)
    moreover have "\<exists>t'. fold_opt (free_slot dir) ks t = Some t' \<and>
        mm_rel (vmm t') (\<lambda>q. if \<exists>k\<in>set ks. \<exists>x. slot_phys s dir k = Some x \<and> phys_to_page (vmm s) x = Some q
          then None else b q)"
      by (rule Cons.IH [OF Cons.prems(1-3)]) (use Cons.prems(4) in simp, rule Cons.prems(5), auto)
    ultimately show ?thesis using None by simp
  next
    case (Some x)
    from slots_okD(2) [OF assms(1) Some] obtain p where p: "phys_to_page (vmm s) x = Some p" by blast
    have b: "b p = Some 0" using Cons.prems(5) [OF _ Some p] by simp
    from vm_dealloc_step [OF Cons.prems(3) b] obtain m where m: "vm_dealloc p t = Some (t\<lparr>vmm := m\<rparr>)"
      "mm_rel m (b(p := None))" "phys_to_page m = phys_to_page (vmm t)" by blast
    have f: "free_slot dir k t = Some (t\<lparr>vmm := m\<rparr>)" using Some p m(1) Cons.prems(2) by (simp add: free_slot_def sl)
    have ne: "q \<noteq> p" if "l \<in> set ks" "slot_phys s dir l = Some y" "phys_to_page (vmm s) y = Some q" for l y q
    proof
      assume "q = p"
      then have "y = x"
        using phys_inj [OF Cons.prems(3)] that(3) p slots_okD(1) [OF assms(1) that(2)] slots_okD(1) [OF assms(1) Some]
          Cons.prems(2) by simp
      then show False using slots_okD(3) [OF assms(1) Some, of l] that Cons.prems(4) by auto
    qed
    define c where "c = b(p := None)"
    have "mm_rel (vmm (t\<lparr>vmm := m\<rparr>)) c" using m(2) by (simp add: c_def)
    moreover have "c q = Some 0" if "l \<in> set ks" "slot_phys s dir l = Some y" "phys_to_page (vmm s) y = Some q" for l y q
      using Cons.prems(5) [OF _ that(2,3)] ne [OF that] that(1) by (simp add: c_def)
    ultimately have "\<exists>t'. fold_opt (free_slot dir) ks (t\<lparr>vmm := m\<rparr>) = Some t' \<and>
        mm_rel (vmm t') (\<lambda>q. if \<exists>k\<in>set ks. \<exists>x. slot_phys s dir k = Some x \<and> phys_to_page (vmm s) x = Some q
          then None else c q)"
      using Cons.prems(1,2,4) m(3) by (intro Cons.IH) auto
    moreover have "(\<lambda>q. if \<exists>k\<in>set ks. \<exists>x. slot_phys s dir k = Some x \<and> phys_to_page (vmm s) x = Some q
        then None else c q) =
      (\<lambda>q. if \<exists>l\<in>set (k # ks). \<exists>x. slot_phys s dir l = Some x \<and> phys_to_page (vmm s) x = Some q then None else b q)"
      using Some p by (intro ext) (auto simp: c_def)
    ultimately show ?thesis using f by simp
  qed
qed simp

lemma dir_slots: "distinct dir_slots" "slot_phys s dir k = Some x \<Longrightarrow> k \<in> set dir_slots"
proof -
  have "distinct (concat (map (\<lambda>i. map (Leaf i) [0..<PTRS_PER_PGT] @ [Tab i]) [0..<n]))" for n
    by (induction n) (auto simp: distinct_map inj_on_def)
  then show "distinct dir_slots" by (auto simp: dir_slots_def)
  show "slot_phys s dir k = Some x \<Longrightarrow> k \<in> set dir_slots"
    by (cases k) (force simp: dir_slots_def tab_phys_def leaf_phys_def split: if_splits Option.bind_splits)+
qed

lemma free_page_dir_step:
  assumes "space_ok s dir a"
  shows "\<exists>s'. free_page_dir dir s = Some s' \<and> mm_rel (vmm s') (\<lambda>q. if q \<in> space_pages s dir then None else a q)"
proof -
  have "\<exists>t'. fold_opt (free_slot dir) dir_slots s = Some t' \<and>
    mm_rel (vmm t') (\<lambda>q. if \<exists>k\<in>set dir_slots. \<exists>x. slot_phys s dir k = Some x \<and> phys_to_page (vmm s) x = Some q then None else a q)"
    using space_okD(3) [OF assms]
    by (intro free_slots [OF space_okD(2) [OF assms] refl refl space_okD(1) [OF assms] dir_slots(1)]) (auto simp: space_pages_def)
  moreover have "(\<exists>k\<in>set dir_slots. \<exists>x. slot_phys s dir k = Some x \<and> phys_to_page (vmm s) x = Some q) \<longleftrightarrow> q \<in> space_pages s dir" for q
    using dir_slots(2) [of s dir] by (auto simp: space_pages_def)
  ultimately show ?thesis by (simp add: free_page_dir_slots)
qed

subsection \<open>A new address space\<close>

lemma word_at_copy:
  assumes "load_bytes t d 4096 = load_bytes s c 4096" "i < 1024"
  shows "word_at t d i = word_at s c i"
proof -
  have r: "ram t (d + of_nat n) = ram s (c + of_nat n)" if "n < 4096" for n
    using arg_cong [OF assms(1), of "\<lambda>xs. xs ! n"] that by simp
  have "ram t (d + 4 * of_nat i + of_nat k) = ram s (c + 4 * of_nat i + of_nat k)" if "k < 4" for k
    using r [of "4 * i + k"] that assms(2) by (simp add: add.assoc)
  then have "load_bytes t (d + 4 * of_nat i) 4 = load_bytes s (c + 4 * of_nat i) 4" by (simp add: load_bytes_def)
  then show ?thesis by (simp only: word_at_def load32_def)
qed

text \<open>The kernel's directory maps nothing below \<open>PAGE_OFFSET\<close>.\<close>

definition kernel_dir_ok :: "'a vm_scheme \<Rightarrow> bool" where
  "kernel_dir_ok s \<longleftrightarrow> (\<forall>i<USER_PGDS. \<not> pgd_present (pgd_at s (kernel_dir s) i))"

lemma copy_dir_step:
  assumes rel: "mm_rel (vmm s) a" and k: "kernel_dir_ok s"
  shows "copy_empty_page_dir s = Some (None, s) \<or>
    (\<exists>d s' p. copy_empty_page_dir s = Some (Some d, s') \<and> a p = None \<and> space_ok s' d (a(p \<mapsto> 0)) \<and>
       space_pages s' d = {p} \<and> (\<forall>i<PTRS_PER_PGD. pgd_at s' d i = pgd_at s (kernel_dir s) i) \<and>
       (\<forall>k. k \<noteq> Dir \<longrightarrow> slot_phys s' d k = None))"
  using get_page_step [OF rel]
proof (elim disjE exE conjE)
  fix d u p assume g: "get_page s = Some (Some d, u)" and d: "page_offset d = 0" and f: "fresh_page s u a p (pa d)"
  note F = fresh_pageD [OF f]
  have kd: "kernel_dir u = kernel_dir s" using f by (auto simp: fresh_page_def)
  let ?s = "store_bytes d (load_bytes u (kernel_dir u) 4096) u"
  have "load_bytes ?s d 4096 = load_bytes u (kernel_dir u) 4096"
    using load_store_bytes [of "load_bytes u (kernel_dir u) 4096" d u] by simp
  then have c: "load_bytes ?s d 4096 = load_bytes s (kernel_dir s) 4096" using F(1) kd by (simp add: load_bytes_def)
  then have w: "pgd_at ?s d i = pgd_at s (kernel_dir s) i" if "i < 1024" for i
    using word_at_copy [OF c that] by (simp add: entries_word_at)
  then have "tab_phys ?s d i = None" for i using k by (simp add: tab_phys_def kernel_dir_ok_def USER_PGDS_def)
  then have n: "slot_phys ?s d k = (if k = Dir then Some (pa d) else None)" for k by (cases k) simp_all
  have "space_ok ?s d (a(p \<mapsto> 0))" using F d by (auto simp: space_ok_def slots_ok_def n)
  moreover have "space_pages ?s d = {p}" using F(2,6) by (auto simp: space_pages_def n)
  moreover have "copy_empty_page_dir s = Some (Some d, ?s)" using g by (simp add: copy_empty_page_dir_def)
  ultimately show ?thesis using F(5) w n by (auto simp: PTRS_PER_PGD_def intro!: exI)
qed (simp add: copy_empty_page_dir_def)

end
