(* ===== verification/Space_Props.thy ===== *)
theory Space_Props
  imports Space_Ops Ex_Fs
begin

text \<open>
  Properties of the page directories of tasks.
\<close>

subsection \<open>Mapping\<close>

lemma slot_of_eq: "slot_of u = slot_of v \<longleftrightarrow> PAGE_FLOOR u = PAGE_FLOOR v"
proof
  assume "slot_of u = slot_of v"
  then have "pgd_index u = pgd_index v" "pgt_index u = pgt_index v" by (simp_all add: slot_of_def word_unat_eq_iff)
  then have b: "bit u (n + 22) = bit v (n + 22)" "n < 10 \<Longrightarrow> bit u (n + 12) = bit v (n + 12)" for n
    using bit_page_index(3) [of u n] bit_page_index(3) [of v n] bit_page_index(4) [of u n] bit_page_index(4) [of v n]
    by simp_all
  show "PAGE_FLOOR u = PAGE_FLOOR v"
  proof (rule bit_word_eqI)
    fix n
    show "bit (PAGE_FLOOR u) n = bit (PAGE_FLOOR v) n"
      using b(1) [of "n - 22"] b(2) [of "n - 12"] by (cases "n < 22") auto
  qed
next
  assume f: "PAGE_FLOOR u = PAGE_FLOOR v"
  have b: "bit u n = bit v n" if "12 \<le> n" for n using arg_cong [OF f, of "\<lambda>x. bit x n"] that by simp
  have "pgd_index u = pgd_index v" "pgt_index u = pgt_index v"
    by (rule bit_word_eqI, simp add: b)+
  then show "slot_of u = slot_of v" by (simp add: slot_of_def)
qed

lemma ex_kernel_dir: "kernel_dir_ok ex_fs"
proof -
  have "load32 ex_fs x = 0" for x
    by (simp add: load32_def load_bytes_def ex_fs_def horner_sum_eq_sum)
  then show ?thesis by (simp add: kernel_dir_ok_def pgd_at_def zero_entry)
qed

lemma ex_space:
  "\<exists>dir s0 p. copy_empty_page_dir ex_fs = Some (Some dir, s0) \<and> space_ok s0 dir [p \<mapsto> 0] \<and>
     (\<forall>k. k \<noteq> Dir \<longrightarrow> slot_phys s0 dir k = None)"
proof -
  have m: "vmm ex_fs = ex_mm" by (simp add: ex_fs_def)
  have "\<exists>p m'. alloc_pages ex_mm ZONE_NORMAL 0 = Some (Some p, m')"
    by (rule mm_alloc_complete [OF ex_mm_rel, of _ 0 0 0]) (simp_all add: zone_consts ex_chain)
  then have "copy_empty_page_dir ex_fs \<noteq> Some (None, ex_fs)"
    by (auto simp: copy_empty_page_dir_def get_page_def m kget_alloc split: Option.bind_splits option.splits)
  then show ?thesis using copy_dir_step [of ex_fs Map.empty] ex_mm_rel ex_kernel_dir by (auto simp: m)
qed

text \<open>C13: \<open>load_page\<close> maps one page.  For an address that is not mapped it never fails a \<open>BUG_ON\<close>, and
  either finds no memory and changes neither the mapping nor what is handed out, or takes a page
  that was free and maps exactly the page of the address to it: every other user address keeps its
  translation, and no two places of the directory share a page.\<close>

theorem load_page_maps:
  assumes "space_ok s dir a" "page_offset v = 0" "v < PAGE_OFFSET" "user_translate s dir v = None"
  shows "(\<exists>s'. load_page dir v s = Some (None, s') \<and> space_ok s' dir a \<and>
      (\<forall>u<PAGE_OFFSET. user_translate s' dir u = user_translate s dir u)) \<or>
    (\<exists>p s' a' x. load_page dir v s = Some (Some p, s') \<and> a p = None \<and> page_to_phys (vmm s) p = Some x \<and>
      space_ok s' dir a' \<and>
      (\<forall>u<PAGE_OFFSET. user_translate s' dir u =
         (if PAGE_FLOOR u = v then Some (x OR page_offset u) else user_translate s dir u)))"
proof -
  have "slot_phys s dir (slot_of v) = None" using translate_slot [OF assms(3), of s dir] assms(4) by simp
  from load_page_step [OF assms(1-3) this] obtain r s' a' where
    l: "load_page dir v s = Some (r, s')" "loaded s dir a (slot_of v) r s' a'" by blast
  show ?thesis
  proof (cases r)
    case None
    then show ?thesis using l by (auto simp: loaded_def translate_slot)
  next
    case (Some p)
    then obtain x where x: "page_to_phys (vmm s) p = Some x" "slot_phys s' dir (slot_of v) = Some x"
      and o: "\<And>i j. Leaf i j \<noteq> slot_of v \<Longrightarrow> slot_phys s' dir (Leaf i j) = slot_phys s dir (Leaf i j)"
      using l(2) by (auto simp: loaded_def)
    have "user_translate s' dir u = (if PAGE_FLOOR u = v then Some (x OR page_offset u) else user_translate s dir u)"
      if u: "u < PAGE_OFFSET" for u
    proof (cases "PAGE_FLOOR u = v")
      case True
      then have "slot_of u = slot_of v" using assms(2) by (simp add: slot_of_eq page_offset_zero_iff)
      then show ?thesis using True x(2) by (simp add: translate_slot [OF u])
    next
      case False
      then have "slot_of u \<noteq> slot_of v" using assms(2) by (simp add: slot_of_eq page_offset_zero_iff)
      then have "slot_phys s' dir (slot_of u) = slot_phys s dir (slot_of u)" using o by (simp add: slot_of_def)
      then show ?thesis using False by (simp add: translate_slot [OF u])
    qed
    then show ?thesis using l Some x(1) by (auto simp: loaded_def intro!: exI)
  qed
qed

theorem load_page_maps_witness:
  "\<exists>dir s0 r s1. copy_empty_page_dir ex_fs = Some (Some dir, s0) \<and> load_page dir 0x400000 s0 = Some (r, s1)"
proof -
  obtain dir s0 p where s0: "copy_empty_page_dir ex_fs = Some (Some dir, s0)" "space_ok s0 dir [p \<mapsto> 0]"
    "\<forall>k. k \<noteq> Dir \<longrightarrow> slot_phys s0 dir k = None"
    using ex_space by blast
  have v: "page_offset (0x400000 :: u32) = 0" "(0x400000 :: u32) < PAGE_OFFSET"
    by (simp_all add: page_ops page_consts)
  have "user_translate s0 dir 0x400000 = None"
    using s0(3) by (simp add: translate_slot [OF v(2)] slot_of_def del: slot_phys.simps)
  from load_page_maps [OF s0(2) v this] show ?thesis using s0(1) by blast
qed

subsection \<open>The life of an address space\<close>

definition load_all :: "u32 \<Rightarrow> u32 list \<Rightarrow> 'a vm_scheme \<Rightarrow> 'a vm_scheme option" where
  "load_all dir = fold_opt (\<lambda>v s. map_option snd (load_page dir v s))"

lemma load_all_step:
  assumes "space_ok s dir a" "distinct vs"
    and "\<forall>v\<in>set vs. page_offset v = 0 \<and> v < PAGE_OFFSET \<and> slot_phys s dir (slot_of v) = None"
  shows "\<exists>s' a'. load_all dir vs s = Some s' \<and> space_ok s' dir a' \<and> space_pages s dir \<subseteq> space_pages s' dir \<and>
    (\<forall>q. q \<notin> space_pages s' dir \<longrightarrow> a' q = a q) \<and> (\<forall>q\<in>space_pages s' dir. q \<notin> space_pages s dir \<longrightarrow> a q = None)"
  using assms
proof (induction vs arbitrary: s a)
  case Nil
  then show ?case by (auto simp: load_all_def)
next
  case (Cons v vs)
  then obtain r t b where l: "load_page dir v s = Some (r, t)" "loaded s dir a (slot_of v) r t b"
    using load_page_step [OF Cons.prems(1), of v] by auto
  have "slot_phys t dir (slot_of w) = slot_phys s dir (slot_of w)" if "w \<in> set vs" for w
  proof -
    have "slot_of w \<noteq> slot_of v" using that Cons.prems by (auto simp: slot_of_eq page_offset_zero_iff)
    then show ?thesis using l(2) by (cases r) (simp_all add: loaded_def slot_of_def del: slot_phys.simps)
  qed
  then have n: "\<forall>w\<in>set vs. page_offset w = 0 \<and> w < PAGE_OFFSET \<and> slot_phys t dir (slot_of w) = None"
    using Cons.prems(3) by simp
  have t: "space_ok t dir b" using l(2) by (simp add: loaded_def)
  obtain s' a' where IH: "load_all dir vs t = Some s'" "space_ok s' dir a'" "space_pages t dir \<subseteq> space_pages s' dir"
    "\<forall>q. q \<notin> space_pages s' dir \<longrightarrow> a' q = b q" "\<forall>q\<in>space_pages s' dir. q \<notin> space_pages t dir \<longrightarrow> b q = None"
    using Cons.IH [OF t _ n] Cons.prems(2) by auto
  have "load_all dir (v # vs) s = Some s'" using l(1) IH(1) by (simp add: load_all_def)
  moreover have "a' q = a q" if "q \<notin> space_pages s' dir" for q using that IH(3,4) l(2) by (auto simp: loaded_def)
  moreover have "a q = None" if "q \<in> space_pages s' dir" "q \<notin> space_pages s dir" for q
    using that IH(5) l(2) by (cases "q \<in> space_pages t dir") (auto simp: loaded_def)
  ultimately show ?case using IH(2,3) l(2) by (auto simp: loaded_def intro!: exI)
qed

text \<open>C12: An address space gives back what it took.  Whatever pages are loaded into a new directory,
  with or without success, the loads and \<open>free_page_dir\<close> never panic, and afterwards exactly the
  pages are handed out that were before the directory was made: none is lost, and none is freed twice.\<close>

theorem address_space_returned:
  assumes "mm_rel (vmm s) a" "kernel_dir_ok s" "copy_empty_page_dir s = Some (Some dir, s0)"
    and "distinct vs" "\<forall>v\<in>set vs. page_offset v = 0 \<and> v < PAGE_OFFSET"
  shows "\<exists>s1 s2. load_all dir vs s0 = Some s1 \<and> free_page_dir dir s1 = Some s2 \<and> mm_rel (vmm s2) a"
proof -
  from copy_dir_step [OF assms(1,2)] assms(3) obtain p where p: "a p = None" "space_ok s0 dir (a(p \<mapsto> 0))"
    "space_pages s0 dir = {p}" "\<forall>k. k \<noteq> Dir \<longrightarrow> slot_phys s0 dir k = None" by auto
  have "\<forall>v\<in>set vs. page_offset v = 0 \<and> v < PAGE_OFFSET \<and> slot_phys s0 dir (slot_of v) = None"
    using assms(5) p(4) by (simp add: slot_of_def del: slot_phys.simps)
  from load_all_step [OF p(2) assms(4) this] obtain s1 a1 where l: "load_all dir vs s0 = Some s1"
    "space_ok s1 dir a1" "space_pages s0 dir \<subseteq> space_pages s1 dir" "\<forall>q. q \<notin> space_pages s1 dir \<longrightarrow> a1 q = (a(p \<mapsto> 0)) q"
    "\<forall>q\<in>space_pages s1 dir. q \<notin> space_pages s0 dir \<longrightarrow> (a(p \<mapsto> 0)) q = None"
    by blast
  have "(\<lambda>q. if q \<in> space_pages s1 dir then None else a1 q) = a"
    using l(3-5) p(1,3) by (intro ext) (auto split: if_splits)
  then show ?thesis using l(1) free_page_dir_step [OF l(2)] by auto
qed

theorem address_space_returned_witness:
  "\<exists>dir s0 s1 s2. copy_empty_page_dir ex_fs = Some (Some dir, s0) \<and> load_all dir [0, 0x1000, 0x400000] s0 = Some s1 \<and>
     free_page_dir dir s1 = Some s2 \<and> mm_rel (vmm s2) Map.empty"
proof -
  have "mm_rel (vmm ex_fs) Map.empty" using ex_mm_rel by (simp add: ex_fs_def)
  moreover obtain dir s0 where c: "copy_empty_page_dir ex_fs = Some (Some dir, s0)" using ex_space by blast
  moreover have "\<forall>v\<in>set [0, 0x1000, 0x400000 :: u32]. page_offset v = 0 \<and> v < PAGE_OFFSET"
    by (simp add: page_ops page_consts)
  ultimately show ?thesis using address_space_returned [of ex_fs Map.empty dir s0 "[0, 0x1000, 0x400000]"] ex_kernel_dir by auto
qed

end
