(* ===== verification/Switch.thy ===== *)
theory Switch
  imports Signal_Frame Gates Ex_Fs
begin

text \<open>
  Switching between tasks: \<open>arch_get_current\<close> and \<open>arch_switch_to\<close> of include/asm/sched.h, instruction by
  instruction, and the first instructions of a kernel thread (\<open>kthread_wrapper\<close> and
  \<open>_kthread_wrapper\<close> of arch/entry.S).  A task's stack is the page of its structure; the registers live
  in \<open>cpu\<close>, memory and saved contexts in the state.
\<close>

subsection \<open>Registers and stack\<close>

record cpu =
  g_eax :: u32
  g_ecx :: u32
  g_edx :: u32
  g_ebx :: u32
  g_esp :: u32
  g_ebp :: u32
  g_esi :: u32
  g_edi :: u32
  g_eflags :: u32
  g_eip :: u32

definition push_word :: "u32 \<Rightarrow> cpu \<times> 'a vm_scheme \<Rightarrow> cpu \<times> 'a vm_scheme" where
  "push_word v x = (case x of (c, s) \<Rightarrow> (c\<lparr>g_esp := g_esp c - 4\<rparr>, store_u32 (g_esp c - 4) v s))"

definition pop_word :: "cpu \<Rightarrow> 'a vm_scheme \<Rightarrow> u32 \<times> cpu" where
  "pop_word c s = (load32 s (g_esp c), c\<lparr>g_esp := g_esp c + 4\<rparr>)"

definition pusha :: "cpu \<times> 'a vm_scheme \<Rightarrow> cpu \<times> 'a vm_scheme" where
  "pusha x =
     (let c = fst x in fold push_word [g_eax c, g_ecx c, g_edx c, g_ebx c, g_esp c, g_ebp c, g_esi c, g_edi c] x)"

definition pushf :: "cpu \<times> 'a vm_scheme \<Rightarrow> cpu \<times> 'a vm_scheme" where
  "pushf x = push_word (g_eflags (fst x)) x"

definition popf :: "'a vm_scheme \<Rightarrow> cpu \<Rightarrow> cpu" where
  "popf s c = (let (v, c) = pop_word c s in c\<lparr>g_eflags := v\<rparr>)"

text \<open>The saved \<open>esp\<close> is skipped.\<close>

definition popa :: "'a vm_scheme \<Rightarrow> cpu \<Rightarrow> cpu" where
  "popa s c =
     (let (di, c) = pop_word c s; (si, c) = pop_word c s; (bp, c) = pop_word c s; (sp, c) = pop_word c s;
          (bx, c) = pop_word c s; (dx, c) = pop_word c s; (cx, c) = pop_word c s; (ax, c) = pop_word c s
      in c\<lparr>g_edi := di, g_esi := si, g_ebp := bp, g_ebx := bx, g_edx := dx, g_ecx := cx, g_eax := ax\<rparr>)"

subsection \<open>include/asm/sched.h\<close>

definition arch_get_current :: "cpu \<Rightarrow> u32" where
  "arch_get_current c = PAGE_ALIGN (g_esp c - PAGE_SIZE)"

text \<open>\<open>label\<close> is the address of the label 1, where a task goes on that was switched from.\<close>

definition arch_switch_to ::
    "u32 \<Rightarrow> u32 \<Rightarrow> u32 \<Rightarrow> cpu \<times> tss_struct \<times> 'a vm_scheme \<Rightarrow> cpu \<times> tss_struct \<times> 'a vm_scheme" where
  "arch_switch_to label prev next x =
     (case x of (c, t, s) \<Rightarrow>
        let t = write_esp0 (next + PAGE_SIZE) t;
            (c, s) = pushf (pusha (c, s));
            s = upd_task prev (tcontext_update (ctx_esp_update (\<lambda>_. g_esp c))) s;
            c = c\<lparr>g_esp := ctx_esp (tcontext (tasks s next))\<rparr>;
            s = upd_task prev (tcontext_update (ctx_eip_update (\<lambda>_. label))) s;
            (c, s) = push_word (ctx_eip (tcontext (tasks s next))) (c, s);
            (ip, c) = pop_word c s
        in (c\<lparr>g_eip := ip\<rparr>, t, s))"

definition switched_back :: "'a vm_scheme \<Rightarrow> cpu \<Rightarrow> cpu" where
  "switched_back s c = popa s (popf s c)"

subsection \<open>A thread starts and ends (arch/entry.S)\<close>

text \<open>\<open>RESTORE_ALL\<close> and an \<open>iret\<close> within the kernel, which pops three words.\<close>

definition kthread_enter :: "'a vm_scheme \<Rightarrow> cpu \<Rightarrow> cpu" where
  "kthread_enter s c =
     (let r = load_regs s (g_esp c)
      in c\<lparr>g_ebx := r_ebx r, g_ecx := r_ecx r, g_edx := r_edx r, g_edi := r_edi r, g_esi := r_esi r,
           g_ebp := r_ebp r, g_eax := r_eax r, g_eip := r_eip r, g_eflags := r_eflags r, g_esp := g_esp c + 0x40\<rparr>)"

text \<open>\<open>_kthread_wrapper\<close> up to the call, which returns to \<open>back\<close>, and from there to the call of \<open>sys_exit\<close>.\<close>

definition kthread_call :: "u32 \<Rightarrow> cpu \<times> 'a vm_scheme \<Rightarrow> cpu \<times> 'a vm_scheme" where
  "kthread_call back x =
     (let (c, s) = push_word back (push_word (g_edx (fst x)) (push_word (g_ecx (fst x)) x))
      in (c\<lparr>g_eip := g_ecx c\<rparr>, s))"

definition kthread_return :: "u32 \<Rightarrow> u32 \<Rightarrow> cpu \<times> 'a vm_scheme \<Rightarrow> cpu \<times> 'a vm_scheme" where
  "kthread_return exit back x =
     (case x of (c, s) \<Rightarrow>
        let (dx, c) = pop_word c s; (cx, c) = pop_word c s; c = c\<lparr>g_edx := dx, g_ecx := cx\<rparr>;
            (c, s) = push_word back (push_word (g_eax c) (c, s))
        in (c\<lparr>g_eip := exit\<rparr>, s))"

section \<open>Properties\<close>

subsection \<open>Words on a stack\<close>

text \<open>The \<open>n\<close> bytes below \<open>e\<close>.\<close>

definition bytes_below :: "u32 \<Rightarrow> nat \<Rightarrow> u32 set" where
  "bytes_below e n = {x. unat (e - 1 - x) < n}"

lemma bytes_below_mono: "m \<le> n \<Longrightarrow> bytes_below e m \<subseteq> bytes_below e n"
  by (auto simp: bytes_below_def)

lemma bytes_below_shift: "bytes_below (e - of_nat m) n \<subseteq> bytes_below e (m + n)"
proof
  fix x assume "x \<in> bytes_below (e - of_nat m) n"
  moreover have "unat (e - 1 - x) \<le> unat (e - of_nat m - 1 - x) + m"
  proof -
    have e: "e - 1 - x = (e - of_nat m - 1 - x) + of_nat m" by simp
    have "unat (d + of_nat m) \<le> unat d + m" for d :: u32
      by (simp add: unat_word_ariths(1) unat_of_nat)
    then show ?thesis by (subst e) blast
  qed
  ultimately show "x \<in> bytes_below e (m + n)" by (simp add: bytes_below_def)
qed

lemma bytes_beneath:
  assumes "x \<in> bytes_below e m" "m + n \<le> 2 ^ 32"
  shows "x \<notin> bytes_below (e - of_nat m) n"
proof
  assume "x \<in> bytes_below (e - of_nat m) n"
  then have l: "unat (e - of_nat m - 1 - x) < n" by (simp add: bytes_below_def)
  define d where "d = e - of_nat m - 1 - x"
  have m: "unat d < n" using l by (simp add: d_def)
  have "e - 1 - x = d + of_nat m" by (simp add: d_def)
  moreover have "unat (of_nat m :: u32) = m" using m assms(2) by (intro unat_small) simp
  ultimately have "unat (e - 1 - x) = unat d + m"
    using m assms(2) by (simp only: unat_word_ariths(1)) simp
  then show False using assms(1) by (simp add: bytes_below_def)
qed

lemma ram_store_u32: "x \<notin> bytes_below (a + 4) 4 \<Longrightarrow> ram (store_u32 a v s) x = ram s x"
proof -
  have "\<not> unat (x - a) < 4" if "x \<notin> bytes_below (a + 4) 4"
  proof
    assume l: "unat (x - a) < 4"
    have e: "a + 4 - 1 - x = 3 - (x - a)" by simp
    have "unat (3 - (x - a)) = 3 - unat (x - a)"
      using l unat_sub [of "x - a" 3] by (simp add: word_le_nat_alt)
    then have "unat (a + 4 - 1 - x) < 4" by (simp only: e)
    then show False using that by (simp add: bytes_below_def)
  qed
  then show "x \<notin> bytes_below (a + 4) 4 \<Longrightarrow> ram (store_u32 a v s) x = ram s x"
    by (simp add: store_u32_def ram_store_bytes)
qed

lemma push_words:
  assumes "fold push_word ws (c, s) = (c', s')" "length ws < 2 ^ 28"
  shows "c' = c\<lparr>g_esp := g_esp c - 4 * of_nat (length ws)\<rparr> \<and> tasks s' = tasks s \<and> current s' = current s \<and>
    (\<forall>k<length ws. load32 s' (g_esp c - 4 * of_nat (Suc k)) = ws ! k) \<and>
    (\<forall>x. x \<notin> bytes_below (g_esp c) (4 * length ws) \<longrightarrow> ram s' x = ram s x)"
  using assms
proof (induction ws arbitrary: c' s' rule: rev_induct)
  case (snoc w ws)
  obtain c1 s1 where 1: "fold push_word ws (c, s) = (c1, s1)" by fastforce
  define n where "n = length ws"
  let ?a = "g_esp c - 4 * of_nat (Suc n)"
  from snoc.IH [OF 1] snoc.prems(2)
  have IH: "c1 = c\<lparr>g_esp := g_esp c - 4 * of_nat n\<rparr>" "tasks s1 = tasks s" "current s1 = current s"
    "\<And>k. k < n \<Longrightarrow> load32 s1 (g_esp c - 4 * of_nat (Suc k)) = ws ! k"
    "\<And>x. x \<notin> bytes_below (g_esp c) (4 * n) \<Longrightarrow> ram s1 x = ram s x"
    by (auto simp: n_def)
  have "push_word w (c1, s1) = (c', s')" using snoc.prems(1) 1 by simp
  then have r: "c' = c\<lparr>g_esp := ?a\<rparr>" "s' = store_u32 ?a w s1"
    using IH(1) by (auto simp: push_word_def algebra_simps)
  have ld: "load32 s' (g_esp c - 4 * of_nat (Suc k)) = (ws @ [w]) ! k" if "k < Suc n" for k
  proof (cases "k = n")
    case True
    then show ?thesis by (simp add: r(2) load_store_u32 n_def del: of_nat_Suc)
  next
    case False
    then have k: "k < n" using that by simp
    have a: "g_esp c - 4 * of_nat (Suc k) = ?a + 4 * of_nat (n - k)" using k by (simp add: of_nat_diff algebra_simps)
    have "apart 4 (?a + 4 * of_nat (n - k)) 4 (?a + 4 * of_nat 0)"
      using k snoc.prems(2) by (intro apart_words) (auto simp: n_def)
    then have "load32 (store_u32 ?a w s1) (?a + 4 * of_nat (n - k)) = load32 s1 (?a + 4 * of_nat (n - k))"
      by (intro load32_store_u32) simp
    then show ?thesis using IH(4) [OF k] k by (simp only: r(2) a [symmetric]) (simp add: n_def nth_append)
  qed
  have fr: "ram s' x = ram s x" if x: "x \<notin> bytes_below (g_esp c) (4 * Suc n)" for x
  proof -
    have "bytes_below (?a + 4) 4 \<subseteq> bytes_below (g_esp c) (4 * Suc n)"
      using bytes_below_shift [of "g_esp c" "4 * n" 4] by (simp add: algebra_simps)
    then have "x \<notin> bytes_below (?a + 4) 4" "x \<notin> bytes_below (g_esp c) (4 * n)"
      using x bytes_below_mono [of "4 * n" "4 * Suc n" "g_esp c"] by auto
    then show ?thesis using IH(5) by (simp add: r(2) ram_store_u32 del: of_nat_Suc)
  qed
  show ?case using r(1) IH(2,3) ld fr by (simp add: r(2) n_def del: of_nat_Suc)
qed (simp add: bytes_below_def)

lemma load_below:
  assumes "\<forall>x\<in>bytes_below e (4 * n). ram s x = ram t x" "k < n" "n < 2 ^ 28"
  shows "load32 s (e - 4 * of_nat (Suc k)) = load32 t (e - 4 * of_nat (Suc k))"
proof (rule load32_cong)
  fix i :: nat assume i: "i < 4"
  have "e - 1 - (e - 4 * of_nat (Suc k) + of_nat i) = of_nat (4 * k + 3 - i)"
    using i by (simp add: of_nat_diff algebra_simps)
  moreover have "unat (of_nat (4 * k + 3 - i) :: u32) = 4 * k + 3 - i" using assms(2,3) by (intro unat_small) simp
  ultimately have "unat (e - 1 - (e - 4 * of_nat (Suc k) + of_nat i)) = 4 * k + 3 - i" by presburger
  then have "e - 4 * of_nat (Suc k) + of_nat i \<in> bytes_below e (4 * n)"
    unfolding bytes_below_def mem_Collect_eq using assms(2) i by linarith
  then show "ram s (e - 4 * of_nat (Suc k) + of_nat i) = ram t (e - 4 * of_nat (Suc k) + of_nat i)"
    using assms(1) by blast
qed

subsection \<open>Stacks\<close>

text \<open>\<open>e\<close> is a stack pointer of task \<open>t\<close> with room for more than \<open>n\<close> bytes below it.\<close>

definition on_stack :: "u32 \<Rightarrow> u32 \<Rightarrow> nat \<Rightarrow> bool" where
  "on_stack t e n \<longleftrightarrow> 4096 dvd unat t \<and> unat t + n < unat e \<and> unat e \<le> unat t + 4096"

lemma bytes_below_page:
  assumes "on_stack t e n" "m \<le> n + 1" "x \<in> bytes_below e m"
  shows "unat x div 4096 = unat t div 4096"
proof -
  define d where "d = e - 1 - x"
  have d: "unat d < m" "x = e - (1 + d)" using assms(3) by (simp_all add: bytes_below_def d_def)
  have e: "unat t + n < unat e" "unat e \<le> unat t + 4096" "4096 dvd unat t" using assms(1) by (simp_all add: on_stack_def)
  have 1: "unat (1 + d) = 1 + unat d" using d(1) e assms(2) unat_lt_u32 [of e] by (simp add: unat_word_ariths(1))
  then have "1 + d \<le> e" using d(1) e(1) assms(2) by (simp add: word_le_nat_alt)
  then have "unat x = unat e - (1 + unat d)" by (simp add: d(2) unat_sub 1)
  then have "unat t \<le> unat x \<and> unat x < unat t + 4096" using d(1) e(1,2) assms(2) by arith
  moreover obtain q where "unat t = 4096 * q" using e(3) by blast
  ultimately show ?thesis by (metis div_nat_eqI mult.commute mult_Suc_right nonzero_mult_div_cancel_left zero_neq_numeral add.commute)
qed

lemma stacks_apart:
  assumes "on_stack t e n" "on_stack u f m" "t \<noteq> u" "k \<le> n + 1" "l \<le> m + 1"
  shows "bytes_below e k \<inter> bytes_below f l = {}"
proof -
  have "unat t div 4096 \<noteq> unat u div 4096"
  proof
    assume "unat t div 4096 = unat u div 4096"
    moreover have "4096 dvd unat t" "4096 dvd unat u" using assms(1,2) by (simp_all add: on_stack_def)
    ultimately have "unat t = unat u" by (metis dvd_div_eq_iff)
    then show False using assms(3) by (simp add: word_unat_eq_iff)
  qed
  then show ?thesis using bytes_below_page [OF assms(1,4)] bytes_below_page [OF assms(2,5)] by force
qed

lemma current_on_stack:
  assumes "on_stack t (g_esp c) n"
  shows "arch_get_current c = t"
proof -
  let ?e = "g_esp c"
  have e: "unat t + n < unat ?e" "unat ?e \<le> unat t + 4096" "4096 dvd unat t" using assms by (simp_all add: on_stack_def)
  obtain q where q: "unat t = 4096 * q" using e(3) by blast
  have "unat (?e - 1) = unat ?e - 1" using e(1) unat_sub [of 1 ?e] by (simp add: word_le_nat_alt)
  moreover have "(unat ?e - 1) div 4096 = q" using e q by (intro div_nat_eqI) auto
  ultimately have "unat (PAGE_FLOOR (?e - 1)) = unat t" using q by (simp add: unat_PAGE_FLOOR)
  then show ?thesis by (simp add: arch_get_current_def PAGE_ALIGN_def PAGE_FLOOR_def word_unat_eq_iff)
qed

subsection \<open>Switching\<close>

lemma switch_to_spec:
  assumes "arch_switch_to label p n (c, t, s) = (c', t', s')" "p \<noteq> n"
  shows "esp0 t' = n + PAGE_SIZE \<and> g_eip c' = ctx_eip (tcontext (tasks s n)) \<and> g_esp c' = ctx_esp (tcontext (tasks s n)) \<and>
    tcontext (tasks s' p) = \<lparr>ctx_esp = g_esp c - 36, ctx_eip = label\<rparr> \<and>
    (\<forall>x. x \<notin> bytes_below (g_esp c) 36 \<union> bytes_below (g_esp c') 4 \<longrightarrow> ram s' x = ram s x) \<and>
    (bytes_below (g_esp c) 36 \<inter> bytes_below (g_esp c') 4 = {} \<longrightarrow>
      (\<forall>k<9. load32 s' (g_esp c - 4 * of_nat (Suc k)) =
         [g_eax c, g_ecx c, g_edx c, g_ebx c, g_esp c, g_ebp c, g_esi c, g_edi c, g_eflags c] ! k))"
proof -
  define ws where "ws = [g_eax c, g_ecx c, g_edx c, g_ebx c, g_esp c, g_ebp c, g_esi c, g_edi c, g_eflags c]"
  have len: "length ws = 9" by (simp add: ws_def)
  let ?n = "tcontext (tasks s n)"
  obtain c1 s1 where 1: "fold push_word ws (c, s) = (c1, s1)" by fastforce
  from push_words [OF 1, unfolded len]
  have w: "g_esp c1 = g_esp c - 36" "tasks s1 = tasks s" "\<And>k. k < 9 \<Longrightarrow> load32 s1 (g_esp c - 4 * of_nat (Suc k)) = ws ! k"
    "\<And>x. x \<notin> bytes_below (g_esp c) 36 \<Longrightarrow> ram s1 x = ram s x"
    by (simp_all del: of_nat_Suc)
  have "fold push_word [g_eax c, g_ecx c, g_edx c, g_ebx c, g_esp c, g_ebp c, g_esi c, g_edi c] (c, s) = pusha (c, s)"
    by (simp add: pusha_def)
  moreover obtain c0 s0 where 0: "pusha (c, s) = (c0, s0)" by fastforce
  moreover have "g_eflags c0 = g_eflags c" using 0 by (auto simp: pusha_def push_word_def)
  ultimately have 2: "pushf (pusha (c, s)) = (c1, s1)" using 1 by (simp add: pushf_def ws_def)
  define f :: "task \<Rightarrow> task" where "f = tcontext_update (ctx_eip_update (\<lambda>_. label) \<circ> ctx_esp_update (\<lambda>_. g_esp c1))"
  have f: "tcontext (f x) = \<lparr>ctx_esp = g_esp c1, ctx_eip = label\<rparr>" for x
    by (cases "tcontext x") (simp add: f_def)
  have s': "s' = store_u32 (ctx_esp ?n - 4) (ctx_eip ?n) (upd_task p f s1)"
    and c': "c' = c1\<lparr>g_esp := ctx_esp ?n, g_eip := ctx_eip ?n\<rparr>" and t': "t' = write_esp0 (n + PAGE_SIZE) t"
    using assms w(2) by (auto simp: arch_switch_to_def 2 Let_def push_word_def pop_word_def upd_task_def f_def load_store_u32)
  have r: "ram s' x = ram s1 x" if "x \<notin> bytes_below (g_esp c') 4" for x
    using that by (simp add: s' c' upd_task_def ram_store_u32)
  have ld: "load32 s' (g_esp c - 4 * of_nat (Suc k)) = ws ! k"
    if "bytes_below (g_esp c) 36 \<inter> bytes_below (g_esp c') 4 = {}" "k < 9" for k
    using load_below [of "g_esp c" 9 s' s1 k] r that w(3) [OF that(2)] by (auto simp del: of_nat_Suc)
  have "tcontext (tasks s' p) = \<lparr>ctx_esp = g_esp c - 36, ctx_eip = label\<rparr>" by (simp add: s' upd_task_def f w(1))
  moreover have "esp0 t' = n + PAGE_SIZE" "g_eip c' = ctx_eip ?n" "g_esp c' = ctx_esp ?n"
    by (simp_all add: t' c' write_esp0_def)
  ultimately show ?thesis using ld r w(4) unfolding ws_def by simp
qed

lemma switched_back_regs:
  assumes "\<forall>k<9. load32 s (g_esp c - 4 * of_nat (Suc k)) =
      [g_eax c, g_ecx c, g_edx c, g_ebx c, g_esp c, g_ebp c, g_esi c, g_edi c, g_eflags c] ! k"
    and "g_esp c' = g_esp c - 36"
  shows "switched_back s c' = c\<lparr>g_eip := g_eip c'\<rparr>"
proof -
  define e where "e = g_esp c"
  have w: "load32 s (e - 36) = g_eflags c" "load32 s (e - 32) = g_edi c" "load32 s (e - 28) = g_esi c"
    "load32 s (e - 24) = g_ebp c" "load32 s (e - 16) = g_ebx c" "load32 s (e - 12) = g_edx c"
    "load32 s (e - 8) = g_ecx c" "load32 s (e - 4) = g_eax c"
    using assms(1) [rule_format, of 8] assms(1) [rule_format, of 7] assms(1) [rule_format, of 6]
      assms(1) [rule_format, of 5] assms(1) [rule_format, of 3] assms(1) [rule_format, of 2]
      assms(1) [rule_format, of 1] assms(1) [rule_format, of 0]
    by (simp_all add: e_def)
  show ?thesis
    using assms(2) w by (simp add: switched_back_def popf_def popa_def pop_word_def Let_def e_def [symmetric])
qed

text \<open>C5: A task that is switched from goes on as if nothing had happened.  However long other tasks run and
  whatever they do, if they leave its saved context and the 36 bytes below its stack pointer alone, the
  next switch to it, from any other task, jumps to the label behind the switch with a stack from which
  every register and the flags come back as they were; \<open>get_current\<close> is the task again, and a trap from user
  mode will find the top of its page as its kernel stack.\<close>

theorem switch_resumes:
  assumes "arch_switch_to label a b (c, t, s) = (c1, t1, s1)" "a \<noteq> b" "on_stack a (g_esp c) 40" "on_stack b (g_esp c1) 4"
    and "tcontext (tasks s2 a) = tcontext (tasks s1 a)" "\<forall>x\<in>bytes_below (g_esp c) 36. ram s2 x = ram s1 x"
    and "arch_switch_to label x a (c2, t2, s2) = (c3, t3, s3)" "x \<noteq> a" "on_stack x (g_esp c2) 40"
  shows "g_eip c3 = label \<and> switched_back s3 c3 = c\<lparr>g_eip := label\<rparr> \<and> arch_get_current c3 = a \<and>
    esp0 t3 = a + PAGE_SIZE"
proof -
  note 1 = switch_to_spec [OF assms(1,2)] and 2 = switch_to_spec [OF assms(7,8)]
  have e: "g_esp c3 = g_esp c - 36" "g_eip c3 = label" using 1 2 assms(5) by simp_all
  have st: "on_stack a (g_esp c3) 3"
  proof -
    have "unat (g_esp c - 36) = unat (g_esp c) - 36"
      using assms(3) unat_sub [of 36 "g_esp c"] by (simp add: on_stack_def word_le_nat_alt)
    then show ?thesis using assms(3) by (auto simp: e on_stack_def)
  qed
  have "bytes_below (g_esp c) 36 \<inter> bytes_below (g_esp c1) 4 = {}" by (rule stacks_apart [OF assms(3,4,2)]) simp_all
  then have "load32 s1 (g_esp c - 4 * of_nat (Suc k)) =
      [g_eax c, g_ecx c, g_edx c, g_ebx c, g_esp c, g_ebp c, g_esi c, g_edi c, g_eflags c] ! k" if "k < 9" for k
    using 1 that by blast
  moreover have "ram s3 y = ram s1 y" if "y \<in> bytes_below (g_esp c) (4 * 9)" for y
  proof -
    have "bytes_below (g_esp c) 36 \<inter> bytes_below (g_esp c2) 36 = {}" by (rule stacks_apart [OF assms(3,9) assms(8) [symmetric]]) simp_all
    moreover have "y \<notin> bytes_below (g_esp c3) 4"
      using bytes_beneath [of y "g_esp c" 36 4] that by (simp add: e)
    ultimately have "ram s3 y = ram s2 y" using 2 that by auto
    then show ?thesis using assms(6) that by simp
  qed
  ultimately have "\<forall>k<9. load32 s3 (g_esp c - 4 * of_nat (Suc k)) =
      [g_eax c, g_ecx c, g_edx c, g_ebx c, g_esp c, g_ebp c, g_esi c, g_edi c, g_eflags c] ! k"
    using load_below [of "g_esp c" 9 s3 s1] by (auto simp del: of_nat_Suc)
  then have "switched_back s3 c3 = c\<lparr>g_eip := g_eip c3\<rparr>" by (rule switched_back_regs) (rule e(1))
  then show ?thesis using e(2) current_on_stack [OF st] 2 by simp
qed

definition ex_cpu :: cpu where
  "ex_cpu = \<lparr>g_eax = 1, g_ecx = 2, g_edx = 3, g_ebx = 4, g_esp = 0x10F00, g_ebp = 5, g_esi = 6, g_edi = 7,
     g_eflags = 0x200, g_eip = 0x400\<rparr>"

definition ex_two :: fs where
  "ex_two = upd_task 0x20000 (tcontext_update (\<lambda>_. \<lparr>ctx_esp = 0x20F00, ctx_eip = 0x500\<rparr>)) ex_fs"

text \<open>One task after another, back and forth between the pages 0x10000 and 0x20000.\<close>

theorem switch_resumes_witness:
  "\<exists>c1 t1 s1 c3 t3 s3.
     arch_switch_to 0x500 0x10000 0x20000 (ex_cpu, \<lparr>esp0 = 0, ss0 = 0x10\<rparr>, ex_two) = (c1, t1, s1) \<and>
     arch_switch_to 0x500 0x20000 0x10000 (c1, t1, s1) = (c3, t3, s3) \<and>
     switched_back s3 c3 = ex_cpu\<lparr>g_eip := 0x500\<rparr> \<and> arch_get_current c3 = 0x10000 \<and> esp0 t3 = 0x11000"
proof -
  let ?t = "\<lparr>esp0 = 0, ss0 = 0x10\<rparr> :: tss_struct"
  obtain c1 t1 s1 where 1: "arch_switch_to 0x500 0x10000 0x20000 (ex_cpu, ?t, ex_two) = (c1, t1, s1)" by (metis prod_cases3)
  obtain c3 t3 s3 where 3: "arch_switch_to 0x500 0x20000 0x10000 (c1, t1, s1) = (c3, t3, s3)" by (metis prod_cases3)
  have "g_esp c1 = 0x20F00" using switch_to_spec [OF 1] by (simp add: ex_two_def upd_task_def)
  then have st: "on_stack 0x10000 (g_esp ex_cpu) 40" "on_stack 0x20000 (g_esp c1) 4" "on_stack 0x20000 (g_esp c1) 40"
    by (simp_all add: on_stack_def ex_cpu_def)
  show ?thesis
    using switch_resumes [OF 1 _ st(1,2) refl _ 3 _ st(3)] 1 3 by (simp add: PAGE_SIZE_val)
qed

subsection \<open>The first switch to a thread\<close>

lemma load_regs_cong:
  assumes "\<And>k. k < 18 \<Longrightarrow> load32 s (a + 4 * of_nat k) = load32 t (a + 4 * of_nat k)"
  shows "load_regs s a = load_regs t a"
  unfolding load_regs_def Let_def
  using assms [of 0] assms [of 1] assms [of 2] assms [of 3] assms [of 4] assms [of 5] assms [of 6]
    assms [of 7] assms [of 8] assms [of 9] assms [of 10] assms [of 11] assms [of 12] assms [of 13]
    assms [of 14] assms [of 15] assms [of 16] assms [of 17]
  by simp

lemma load_regs_below:
  assumes "\<forall>x\<in>bytes_below e 72. ram s x = ram t x"
  shows "load_regs s (e - 72) = load_regs t (e - 72)"
proof (rule load_regs_cong)
  fix k :: nat assume k: "k < 18"
  have e: "e - 72 + 4 * of_nat k = e - 4 * of_nat (Suc (17 - k))" using k by (simp add: of_nat_diff algebra_simps)
  show "load32 s (e - 72 + 4 * of_nat k) = load32 t (e - 72 + 4 * of_nat k)"
    unfolding e by (rule load_below [where n = 18]) (use assms k in simp_all)
qed

text \<open>C6: A kernel thread starts in its function.  The first switch to a thread with the context
  \<open>arch_kthread_context_init\<close> made, whatever ran in between, enters \<open>kthread_wrapper\<close>, from there
  \<open>_kthread_wrapper\<close>, and from there the function, with its argument above the return address, with
  interrupts on and on the thread's own stack; when the function returns a value, that value is the
  argument of \<open>sys_exit\<close>.\<close>

theorem kthread_starts:
  assumes "arch_kthread_context_init w pfn data (n + PAGE_SIZE) s0 = (ctx, s)"
    and "tcontext (tasks s1 n) = ctx" "\<forall>x\<in>bytes_below (n + PAGE_SIZE) 72. ram s1 x = ram s x"
    and "arch_switch_to label p n (c, t, s1) = (c2, t2, s2)" "p \<noteq> n"
    and "on_stack p (g_esp c) 40" "on_stack n (n + PAGE_SIZE) 80"
    and c3: "c3 = kthread_enter s2 c2" and c4: "kthread_call back (c3, s2) = (c4, s4)"
  shows "g_eip c2 = kthread_wrapper w \<and> g_eip c3 = kthread_wrapper' w \<and> g_eip c4 = pfn \<and>
    load32 s4 (g_esp c4) = back \<and> load32 s4 (g_esp c4 + 4) = data \<and> g_eflags c4 = X86_EFLAGS_IF \<and>
    arch_get_current c4 = n \<and>
    (\<forall>c5 s5. case kthread_return exit back (c5, s5) of (c6, s6) \<Rightarrow>
       g_eip c6 = exit \<and> load32 s6 (g_esp c6 + 4) = g_eax c5)"
proof -
  define e where "e = n + PAGE_SIZE"
  note 2 = switch_to_spec [OF assms(4,5)]
  have x: "ctx = \<lparr>ctx_esp = e - 72, ctx_eip = kthread_wrapper w\<rparr>" "s = store_regs (e - 72) (kthread_regs w pfn data) s0"
    using assms(1) by (simp_all add: arch_kthread_context_init_def Let_def e_def sizeof_pt_regs_def)
  have c2: "g_esp c2 = e - 72" "g_eip c2 = kthread_wrapper w" using 2 assms(2) x(1) by simp_all
  have st: "on_stack n e 80" using assms(7) by (simp add: e_def)
  have "bytes_below e 72 \<inter> bytes_below (g_esp c) 36 = {}" by (rule stacks_apart [OF st assms(6) assms(5) [symmetric]]) simp_all
  moreover have "y \<notin> bytes_below (g_esp c2) 4" if "y \<in> bytes_below e 72" for y using bytes_beneath [OF that, of 4] by (simp add: c2)
  ultimately have "ram s2 y = ram s y" if "y \<in> bytes_below e 72" for y using 2 assms(3) that by (auto simp: e_def)
  then have r: "load_regs s2 (e - 72) = kthread_regs w pfn data"
    using load_regs_below [of e s2 s] load_store_regs [of "e - 72" "kthread_regs w pfn data" s0] x(2) by simp
  have k3: "g_eip c3 = kthread_wrapper' w" "g_ecx c3 = pfn" "g_edx c3 = data" "g_eflags c3 = X86_EFLAGS_IF" "g_esp c3 = e - 8"
    by (simp_all add: c3 kthread_enter_def Let_def c2(1) r kthread_regs_def)
  obtain c' s' where f: "fold push_word [g_ecx c3, g_edx c3, back] (c3, s2) = (c', s')" by fastforce
  have k4: "c4 = c'\<lparr>g_eip := g_ecx c'\<rparr>" "s4 = s'" using c4 f by (auto simp: kthread_call_def)
  have "length [g_ecx c3, g_edx c3, back] = 3" by simp
  from push_words [OF f, unfolded this]
  have p: "c' = c3\<lparr>g_esp := e - 20\<rparr>" "\<forall>k<3. load32 s' (e - 8 - 4 * of_nat (Suc k)) = [g_ecx c3, g_edx c3, back] ! k"
    by (simp_all add: k3(5) del: of_nat_Suc)
  have l: "load32 s' (e - 20) = back" "load32 s' (e - 16) = data"
    using p(2) [rule_format, of 2] p(2) [rule_format, of 1] by (simp_all add: k3(3))
  have "unat (e - 20) = unat e - 20" using st unat_sub [of 20 e] by (simp add: on_stack_def word_le_nat_alt)
  then have "on_stack n (g_esp c4) 1" using st by (auto simp: k4 p(1) on_stack_def)
  moreover have "case kthread_return exit back (c5, s5) of (c6, s6) \<Rightarrow>
       g_eip c6 = exit \<and> load32 s6 (g_esp c6 + 4) = g_eax c5" for c5 :: cpu and s5 :: "'c vm_scheme"
  proof -
    have "apart 4 (g_esp c5 + 4) 4 (g_esp c5)" using apart_words [of 1 0 "g_esp c5"] by simp
    then show ?thesis
      by (simp add: kthread_return_def pop_word_def push_word_def Let_def load32_store_u32 load_store_u32)
  qed
  ultimately show ?thesis using l k3 c2(2) current_on_stack [of n c4 1] by (simp add: k4 p(1))
qed

text \<open>A thread in the page 0x20000 that runs 0x1234 with the argument 7.\<close>

theorem kthread_starts_witness:
  "\<exists>ctx s c2 t2 s2 c4 s4.
     arch_kthread_context_init \<lparr>kthread_wrapper = 0x600, kthread_wrapper' = 0x700\<rparr> 0x1234 7 0x21000 ex_fs = (ctx, s) \<and>
     arch_switch_to 0x500 0x10000 0x20000
       (ex_cpu, \<lparr>esp0 = 0, ss0 = 0x10\<rparr>, upd_task 0x20000 (tcontext_update (\<lambda>_. ctx)) s) = (c2, t2, s2) \<and>
     kthread_call 0x704 (kthread_enter s2 c2, s2) = (c4, s4) \<and>
     g_eip c4 = 0x1234 \<and> load32 s4 (g_esp c4 + 4) = 7 \<and> arch_get_current c4 = 0x20000"
proof -
  let ?w = "\<lparr>kthread_wrapper = 0x600, kthread_wrapper' = 0x700\<rparr>"
  let ?t = "\<lparr>esp0 = 0, ss0 = 0x10\<rparr> :: tss_struct"
  obtain ctx s where 1: "arch_kthread_context_init ?w 0x1234 7 0x21000 ex_fs = (ctx, s)" by fastforce
  define s1 where "s1 = upd_task 0x20000 (tcontext_update (\<lambda>_. ctx)) s"
  obtain c2 t2 s2 where 2: "arch_switch_to 0x500 0x10000 0x20000 (ex_cpu, ?t, s1) = (c2, t2, s2)" by (metis prod_cases3)
  obtain c4 s4 where 4: "kthread_call 0x704 (kthread_enter s2 c2, s2) = (c4, s4)" by fastforce
  have st: "on_stack 0x10000 (g_esp ex_cpu) 40" "on_stack 0x20000 (0x20000 + PAGE_SIZE) 80"
    by (simp_all add: on_stack_def ex_cpu_def PAGE_SIZE_val)
  have s1: "tcontext (tasks s1 0x20000) = ctx" "ram s1 = ram s" by (simp_all add: s1_def upd_task_def)
  have "arch_kthread_context_init ?w 0x1234 7 (0x20000 + PAGE_SIZE) ex_fs = (ctx, s)" using 1 by (simp add: PAGE_SIZE_val)
  from kthread_starts [OF this s1(1) _ 2 _ st refl 4] show ?thesis
    using 1 2 4 s1(2) by (auto simp: s1_def)
qed

end
