(* ===== verification/Exec.thy ===== *)
theory Exec
  imports Signal
begin

text \<open>
  fs/exec.c: \<open>sys_exec\<close> opens the program, copies the arguments into a page, starts a thread that
  loads the program and the arguments into its own address space, and sleeps until the thread
  reports how that went.  Strings are given by their characters before the NUL; the null pointer
  among the arguments is \<open>None\<close>.  The structure the two tasks share stands on the stack of the
  first and is named by its task.  User memory is \<open>ram\<close> as the running task sees it.
\<close>

definition SINS_EXEC_MAGIC :: u32 where "SINS_EXEC_MAGIC = 0x19879023"

record exec_wrapper_params =
  ep_file :: nat
  ep_ret :: int
  ep_argc :: nat
  ep_page :: u32

record exec = fs +
  params :: "u32 \<Rightarrow> exec_wrapper_params"

definition params_wait :: "u32 \<Rightarrow> wait_queue" where
  "params_wait a = Wait_queue (unat a)"

definition set_params :: "u32 \<Rightarrow> (exec_wrapper_params \<Rightarrow> exec_wrapper_params) \<Rightarrow> 'a exec_scheme \<Rightarrow> 'a exec_scheme" where
  "set_params a f s = s\<lparr>params := (params s)(a := f (params s a))\<rparr>"

subsection \<open>Arguments\<close>

text \<open>
  The loop over the arguments, \<open>total_size\<close> being the bytes used so far.  Each terminator is written
  one byte behind its place; the page is zeroed, so the byte before it is 0 as well.
\<close>

fun copy_args :: "u32 \<Rightarrow> nat \<Rightarrow> u8 list option list \<Rightarrow> nat \<Rightarrow> 'a vm_scheme \<Rightarrow> int \<times> 'a vm_scheme" where
  "copy_args dest sz [] start s = (SUCCESS, s)"
| "copy_args dest sz (None # args) start s = (err ERROR, s)"
| "copy_args dest sz (Some a # args) start s =
     (let total_size = start + length a
      in if sz \<le> total_size + 1 then (err ERROR, s)
         else let s = store_bytes (dest + of_nat start) a s;
                  s = store_bytes (dest + of_nat (total_size + 1)) [0] s
              in copy_args dest sz args (total_size + 1) s)"

definition copy_argv ::
    "u8 list \<Rightarrow> u32 \<Rightarrow> nat \<Rightarrow> u8 list option list \<Rightarrow> 'a vm_scheme \<Rightarrow> int \<times> 'a vm_scheme" where
  "copy_argv filename dest sz argv s =
     (let total_size = length filename
      in if sz \<le> total_size then (err ERROR, s)
         else let s = store_bytes dest filename s;
                  s = store_bytes (dest + of_nat (total_size + 1)) [0] s
              in copy_args dest sz argv (total_size + 1) s)"

text \<open>\<open>strlen\<close> of a string in memory.\<close>

partial_function (option) ram_strlen :: "'a vm_scheme \<Rightarrow> u32 \<Rightarrow> nat option" where
  "ram_strlen s a =
     (if ram s a = 0 then Some 0 else do { n \<leftarrow> ram_strlen s (a + 1); Some (n + 1) })"

text \<open>The loop of \<open>write_argv_to_user\<close> that makes the vector of pointers.\<close>

fun write_pointers :: "u32 \<Rightarrow> nat \<Rightarrow> u32 \<Rightarrow> u32 \<Rightarrow> 'a vm_scheme \<Rightarrow> ('a vm_scheme) option" where
  "write_pointers user_addr 0 iter pos s = Some s"
| "write_pointers user_addr (Suc n) iter pos s =
     do { let s = store_u32 iter (user_addr + pos) s;
          len \<leftarrow> ram_strlen s (user_addr + pos);
          write_pointers user_addr n (iter + 4) (pos + of_nat len + 1) s }"

text \<open>The end of \<open>write_argv_to_user\<close>: the strings go to the page before the last, the vector to the last.\<close>

definition place_argv :: "u32 \<Rightarrow> nat \<Rightarrow> 'a vm_scheme \<Rightarrow> ('a vm_scheme) option" where
  "place_argv arg_page argc s =
     (let user_addr = PAGE_OFFSET - 2 * PAGE_SIZE
      in write_pointers user_addr argc (PAGE_OFFSET - PAGE_SIZE) 0
           (store_bytes user_addr (load_bytes s arg_page 4096) s))"

subsection \<open>The loading thread\<close>

function load_loop :: "('a exec_scheme) env \<Rightarrow> u32 \<Rightarrow> nat \<Rightarrow> 'a exec_scheme \<Rightarrow> (int \<times> 'a exec_scheme) option" where
  "load_loop e a load_count s =
     (if unat PAGE_OFFSET \<le> load_count * 4096 then None
      else do {
        let user_addr = of_nat (load_count * 4096);
        (pg, s) \<leftarrow> load_page (page_dir (cur_task s)) user_addr s;
        if pg = None then Some (err ERROR, s)
        else do {
          (read_count, s) \<leftarrow> sys_read e (ep_file (params s a)) user_addr PAGE_SIZE s;
          if 0 < read_count
          then let s = store_bytes (user_addr + word_of_int read_count) (replicate (4096 - nat read_count) 0) s
               in if load_count = 0 \<and> (read_count < 8 \<or> load32 s 4 \<noteq> SINS_EXEC_MAGIC)
                  then Some (err ENOEXEC, s)
                  else load_loop e a (load_count + 1) s
          else if read_count = err EIO then Some (SUCCESS, s)
          else Some (err ERROR, s) } })"
  by pat_completeness auto
termination by (relation "measure (\<lambda>(e, a, n, s). unat PAGE_OFFSET - n)") auto

declare load_loop.simps [simp del]

definition write_program_to_user ::
    "('a exec_scheme) env \<Rightarrow> u32 \<Rightarrow> 'a exec_scheme \<Rightarrow> (int \<times> 'a exec_scheme) option" where
  "write_program_to_user e a s =
     do { (ret, s) \<leftarrow> load_loop e a 0 s;
          Some (ret, set_params a (ep_ret_update (\<lambda>_. ret)) s) }"

definition write_argv_to_user :: "u32 \<Rightarrow> 'a exec_scheme \<Rightarrow> (int \<times> 'a exec_scheme) option" where
  "write_argv_to_user a s =
     do { bug_on (ep_argc (params s a) = 0);
          let fail = (\<lambda>s. (err ERROR, set_params a (ep_ret_update (\<lambda>_. err ERROR)) s));
          (argv_pg, s) \<leftarrow> load_page (page_dir (cur_task s)) (PAGE_OFFSET - 2 * PAGE_SIZE) s;
          if argv_pg = None then Some (fail s)
          else do {
            (argc_pg, s) \<leftarrow> load_page (page_dir (cur_task s)) (PAGE_OFFSET - PAGE_SIZE) s;
            if argc_pg = None then Some (fail s)
            else do {
              s \<leftarrow> place_argv (ep_page (params s a)) (ep_argc (params s a)) s;
              Some (SUCCESS, set_params a (ep_ret_update (\<lambda>_. SUCCESS)) s) } } }"

definition create_user_stack :: "u32 \<Rightarrow> 'a exec_scheme \<Rightarrow> (int \<times> 'a exec_scheme) option" where
  "create_user_stack a s =
     do { (pg, s) \<leftarrow> load_page (page_dir (cur_task s)) (PAGE_OFFSET - 3 * PAGE_SIZE) s;
          if pg = None then Some (err ERROR, set_params a (ep_ret_update (\<lambda>_. err ERROR)) s)
          else let s = store_bytes (PAGE_OFFSET - 3 * PAGE_SIZE) (replicate 4096 0) s
               in Some (SUCCESS, set_params a (ep_ret_update (\<lambda>_. SUCCESS)) s) }"

text \<open>How the thread goes on: into user mode, with the registers of \<open>move_to_user_mode\<close>, or back.\<close>

datatype wrapper_end = User_mode (um_eip: u32) (um_esp: u32) (um_argc: nat) (um_argv: u32) | Return int

definition exec_wrapper ::
    "('a exec_scheme) env \<Rightarrow> u32 \<Rightarrow> 'a exec_scheme \<Rightarrow> (wrapper_end \<times> 'a exec_scheme) option" where
  "exec_wrapper e a s =
     do { (r, s) \<leftarrow> write_program_to_user e a s;
          (ok, s) \<leftarrow> (if 0 \<le> r then do { (r, s) \<leftarrow> write_argv_to_user a s; Some (0 \<le> r, s) }
                    else Some (False, s));
          (ok, s) \<leftarrow> (if ok then do { (r, s) \<leftarrow> create_user_stack a s; Some (\<not> FAILED r, s) }
                    else Some (False, s));
          (_, s) \<leftarrow> sys_close e (ep_file (params s a)) s;
          let s = wake_up (params_wait a) s;
          if ok
          then Some (User_mode 0 (PAGE_OFFSET - 2 * PAGE_SIZE) (ep_argc (params s a)) (PAGE_OFFSET - PAGE_SIZE),
                     upd_task (current s) (\<lambda>t. t\<lparr>tflags := tflags t AND NOT TASK_KTHREAD\<rparr>) s)
          else Some (Return (err ERROR), s) }"

subsection \<open>The system call\<close>

text \<open>
  The name of the program and its arguments, cut to the 20 bytes of \<open>cmd\<close>; the buffer is not used
  afterwards.  \<open>cmd[TASK_CMD_LENGTH] = 0\<close> writes one byte behind the buffer.
\<close>

definition strncpy_to :: "nat \<Rightarrow> nat \<Rightarrow> u8 list \<Rightarrow> u8 list \<Rightarrow> u8 list" where
  "strncpy_to at n src buf =
     (let new = take n (src @ [0]) in take at buf @ new @ drop (at + length new) buf)"

fun cmd_args :: "u8 list list \<Rightarrow> u8 list \<Rightarrow> u8 list" where
  "cmd_args [] buf = buf"
| "cmd_args (a # args) buf =
     (let count = length (takeWhile (\<lambda>c. c \<noteq> 0) buf)
      in if TASK_CMD_LENGTH \<le> count then buf
         else cmd_args args (strncpy_to count (TASK_CMD_LENGTH - count) a buf))"

definition init_task_cmd :: "u8 list \<Rightarrow> u8 list list \<Rightarrow> u8 list \<Rightarrow> u8 list" where
  "init_task_cmd filename argv buf = cmd_args argv (strncpy_to 0 TASK_CMD_LENGTH filename buf)"

definition release_file :: "('a exec_scheme) env \<Rightarrow> nat \<Rightarrow> int \<Rightarrow> 'a exec_scheme \<Rightarrow> (int \<times> 'a exec_scheme) option" where
  "release_file e file ret s = do { (_, s) \<leftarrow> sys_close e file s; Some (ret, s) }"

definition sys_exec ::
    "('a exec_scheme) env \<Rightarrow> entry_points \<Rightarrow> u32 \<Rightarrow> u8 list option \<Rightarrow> u8 list option list \<Rightarrow> 'a exec_scheme \<Rightarrow>
     (int \<times> 'a exec_scheme) option" where
  "sys_exec e w wrapper filename argv s =
     do { (file, s) \<leftarrow> sys_open e filename 0 s;
          if FAILED file then Some (file, s)
          else if 1024 < length argv then release_file e (nat file) (err ERROR) s
          else do {
            name \<leftarrow> filename;
            (page, s) \<leftarrow> get_zeroed_page s;
            (case page of
               None \<Rightarrow> release_file e (nat file) (err ENOMEM) s
             | Some page \<Rightarrow>
                 (case copy_argv name page 4096 argv s of
                    (r, s) \<Rightarrow>
                      do { (ret, s) \<leftarrow>
                             (if FAILED r then Some (err ERROR, s)
                              else do {
                                let a = current s;
                                let s = set_params a (\<lambda>p. p\<lparr>ep_file := nat file, ep_argc := length argv + 1,
                                          ep_page := page\<rparr>) s;
                                (p, s) \<leftarrow> kernel_thread w name wrapper a s;
                                if FAILED p then Some (p, s)
                                else do {
                                  s \<leftarrow> sleep_on e (params_wait a) s;
                                  if FAILED (ep_ret (params s a))
                                  then do { (_, s) \<leftarrow> sys_wait_pid e (word_of_int p) s;
                                            Some (ep_ret (params s a), s) }
                                  else Some (p, s) } });
                           s \<leftarrow> put_page page s;
                           release_file e (nat file) ret s })) } }"

end
