(* ===== verification/Task_Props.thy ===== *)
theory Task_Props
  imports Exec Ram Signal_Frame Ex_Fs
begin

text \<open>
  The arguments of a program on their way from \<open>sys_exec\<close> to user memory: \<open>copy_argv\<close> lays the
  strings out one after another in a page, \<open>write_pointers\<close> makes the vector that points at them.
\<close>

text \<open>The strings with their terminators.\<close>

definition packed :: "u8 list list \<Rightarrow> u8 list" where
  "packed ws = concat (map (\<lambda>w. w @ [0]) ws)"

lemma packed_simps [simp]: "packed [] = []" "packed (w # ws) = w @ 0 # packed ws"
  by (simp_all add: packed_def)

lemma packed_append: "packed (vs @ ws) = packed vs @ packed ws"
  by (simp add: packed_def)

definition page_is :: "'a vm_scheme \<Rightarrow> u32 \<Rightarrow> nat \<Rightarrow> u8 list \<Rightarrow> bool" where
  "page_is s d n bs \<longleftrightarrow> length bs \<le> n \<and> load_bytes s d n = bs @ replicate (n - length bs) 0"

lemma page_append:
  assumes "page_is s d n bs" "length bs + length cs \<le> n" "n < 2 ^ 32"
  shows "page_is (store_bytes (d + of_nat (length bs)) cs s) d n (bs @ cs)"
  using assms by (simp add: page_is_def load_store_inside diff_diff_left)

lemma page_zero:
  assumes "page_is s d n bs" "length bs \<le> k" "k < n" "n < 2 ^ 32"
  shows "page_is (store_bytes (d + of_nat k) [0] s) d n bs"
proof -
  have "replicate (k - length bs) 0 @ 0 # replicate (n - Suc k) 0 = replicate (n - length bs) (0 :: u8)"
    using assms(2,3) by (simp add: Suc_diff_Suc flip: replicate_Suc replicate_add)
  then show ?thesis using assms by (simp add: page_is_def load_store_inside)
qed

lemma copy_args_page:
  assumes "page_is s d n bs" "length bs + length (packed args) < n" "n < 2 ^ 32"
  shows "\<exists>s'. copy_args d n (map Some args) (length bs) s = (SUCCESS, s') \<and> page_is s' d n (bs @ packed args)"
  using assms
proof (induction args arbitrary: s bs)
  case (Cons a args)
  let ?s1 = "store_bytes (d + of_nat (length bs)) a s"
  let ?s2 = "store_bytes (d + of_nat (length bs + length a + 1)) [0] ?s1"
  have "page_is ?s1 d n (bs @ a)" using Cons.prems by (intro page_append) auto
  then have "page_is ?s2 d n (bs @ a)" using Cons.prems by (intro page_zero) auto
  then have "page_is ?s2 d n (bs @ a @ [0])"
    unfolding page_is_def using Cons.prems(2) by (simp add: Suc_diff_Suc flip: replicate_Suc)
  from Cons.IH [OF this] Cons.prems show ?case by (simp add: Let_def ac_simps)
qed simp

lemma copy_argv_page:
  assumes "load_bytes s d n = replicate n 0" "length (packed (f # args)) < n" "n < 2 ^ 32"
  shows "\<exists>s'. copy_argv f d n (map Some args) s = (SUCCESS, s') \<and> page_is s' d n (packed (f # args))"
proof -
  let ?s1 = "store_bytes d f s" and ?s2 = "store_bytes (d + of_nat (length f + 1)) [0] (store_bytes d f s)"
  have "page_is s d n []" using assms(1) by (simp add: page_is_def)
  then have "page_is ?s1 d n f" using page_append [of s d n "[]" f] assms(2,3) by simp
  then have "page_is ?s2 d n f" using assms(2,3) by (intro page_zero) auto
  then have "page_is ?s2 d n (f @ [0])"
    unfolding page_is_def using assms(2) by (simp add: Suc_diff_Suc flip: replicate_Suc)
  from copy_args_page [OF this, of args] assms(2,3) show ?thesis by (simp add: copy_argv_def Let_def)
qed

subsection \<open>The vector of pointers\<close>

lemma ram_strlen_string:
  assumes "load_bytes s a (length w + 1) = w @ [0]" "0 \<notin> set w"
  shows "ram_strlen s a = Some (length w)"
  using assms
proof (induction w arbitrary: a)
  case Nil
  then show ?case by (subst ram_strlen.simps) (simp add: load_bytes_def)
next
  case (Cons c w)
  have e: "ram s (a + of_nat i) = (c # w @ [0]) ! i" if "i < length w + 2" for i
    using arg_cong [OF Cons.prems(1), of "\<lambda>xs. xs ! i"] that by simp
  have "load_bytes s (a + 1) (length w + 1) = w @ [0]"
  proof (rule nth_equalityI)
    fix i assume "i < length (load_bytes s (a + 1) (length w + 1))"
    then show "load_bytes s (a + 1) (length w + 1) ! i = (w @ [0]) ! i"
      using e [of "Suc i"] by (simp add: ac_simps)
  qed simp
  moreover have "ram s a \<noteq> 0" using e [of 0] Cons.prems(2) by auto
  ultimately show ?case using Cons.IH [of "a + 1"] Cons.prems(2)
    by (subst ram_strlen.simps) simp
qed

lemma load_bytes_sub:
  assumes "load_bytes s a n = xs @ ys @ zs"
  shows "load_bytes s (a + of_nat (length xs)) (length ys) = ys"
proof (rule nth_equalityI)
  fix i assume i: "i < length (load_bytes s (a + of_nat (length xs)) (length ys))"
  have "length xs + i < n" using arg_cong [OF assms, of length] i by simp
  then show "load_bytes s (a + of_nat (length xs)) (length ys) ! i = ys ! i"
    using arg_cong [OF assms, of "\<lambda>l. l ! (length xs + i)"] i by (simp add: nth_append add.assoc)
qed simp

text \<open>Where string \<open>k\<close> starts.\<close>

definition string_at :: "u8 list list \<Rightarrow> nat \<Rightarrow> nat" where
  "string_at ws k = length (packed (take k ws))"

lemma string_at_Suc: "k < length ws \<Longrightarrow> string_at ws (Suc k) = string_at ws k + length (ws ! k) + 1"
  by (simp add: string_at_def take_Suc_conv_app_nth packed_append)

lemma string_found:
  assumes "page_is s u n (packed ws)" "k < length ws"
  shows "load_bytes s (u + of_nat (string_at ws k)) (length (ws ! k) + 1) = ws ! k @ [0]"
proof -
  have "packed ws = packed (take k ws) @ (ws ! k @ [0]) @ packed (drop (Suc k) ws)"
    by (metis append.assoc append_Cons append_Nil id_take_nth_drop assms(2) packed_append packed_simps(2))
  then have "load_bytes s u n = packed (take k ws) @ (ws ! k @ [0]) @ packed (drop (Suc k) ws) @ replicate (n - length (packed ws)) 0"
    using assms(1) by (simp add: page_is_def)
  from load_bytes_sub [OF this] show ?thesis by (simp add: string_at_def)
qed

lemma page_is_apart:
  assumes "page_is s u n bs" "apart n u (length cs) a" "length cs \<le> 2 ^ 32"
  shows "page_is (store_bytes a cs s) u n bs"
proof -
  have "load_bytes (store_bytes a cs s) u n = load_bytes s u n"
    by (rule load_bytes_cong) (rule ram_apart [OF assms(2) _ assms(3)])
  then show ?thesis using assms(1) by (simp add: page_is_def)
qed

text \<open>
  The loop from string \<open>k\<close> on: the page of strings stays as it is, the words from \<open>k\<close> on are set.
\<close>

lemma write_pointers_from:
  assumes "page_is s u n (packed ws)" "\<forall>w\<in>set ws. 0 \<notin> set w" "k \<le> length ws" "length ws < 2 ^ 30"
    and "\<And>j. j < length ws \<Longrightarrow> apart n u 4 (v + 4 * of_nat j)"
  shows "\<exists>s'. write_pointers u (length ws - k) (v + 4 * of_nat k) (of_nat (string_at ws k)) s = Some s' \<and>
    page_is s' u n (packed ws) \<and>
    (\<forall>j<length ws. load32 s' (v + 4 * of_nat j) =
       (if k \<le> j then u + of_nat (string_at ws j) else load32 s (v + 4 * of_nat j)))"
  using assms(1,3)
proof (induction "length ws - k" arbitrary: s k)
  case 0
  then show ?case by (intro exI [of _ s]) auto
next
  case (Suc m)
  then have k: "k < length ws" by simp
  let ?p = "u + of_nat (string_at ws k)"
  let ?s = "store_u32 (v + 4 * of_nat k) ?p s"
  have pg: "page_is ?s u n (packed ws)"
    unfolding store_u32_def using Suc.prems(1) assms(5) [OF k] by (intro page_is_apart) simp_all
  have "ram_strlen ?s ?p = Some (length (ws ! k))"
    using string_found [OF pg k] assms(2) k by (intro ram_strlen_string) auto
  then have step: "write_pointers u (length ws - k) (v + 4 * of_nat k) (of_nat (string_at ws k)) s =
      write_pointers u (length ws - Suc k) (v + 4 * of_nat (Suc k)) (of_nat (string_at ws (Suc k))) ?s"
    using k by (simp add: Suc_diff_Suc [symmetric, of k] string_at_Suc algebra_simps)
  have "m = length ws - Suc k" "Suc k \<le> length ws" using Suc.hyps(2) k by simp_all
  from Suc.hyps(1) [OF this(1) pg this(2)] obtain s' where
    s': "write_pointers u (length ws - Suc k) (v + 4 * of_nat (Suc k)) (of_nat (string_at ws (Suc k))) ?s = Some s'"
      "page_is s' u n (packed ws)"
      "\<forall>j<length ws. load32 s' (v + 4 * of_nat j) =
         (if Suc k \<le> j then u + of_nat (string_at ws j) else load32 ?s (v + 4 * of_nat j))"
    by auto
  have "load32 ?s (v + 4 * of_nat j) = (if j = k then ?p else load32 s (v + 4 * of_nat j))"
    if "j < length ws" for j
    using that k assms(4) apart_words [of j k v] by (auto simp: load_store_u32 load32_store_u32)
  then show ?case using s' step by (intro exI [of _ s']) (auto simp: not_less_eq_eq le_Suc_eq)
qed

lemma vector_apart:
  assumes "j < 1024"
  shows "apart 4096 (PAGE_OFFSET - 2 * PAGE_SIZE) 4 (PAGE_OFFSET - PAGE_SIZE + 4 * of_nat j)"
proof -
  have u: "unat (4096 + 4 * of_nat j :: u32) = 4096 + 4 * j"
    using assms unat_small [of "4096 + 4 * j"] by simp
  then have "unat (- (4096 + 4 * of_nat j) :: u32) = 2 ^ 32 - (4096 + 4 * j)"
    using unat_sub_if' [of 0 "4096 + 4 * of_nat j :: u32"] by (simp add: word_le_nat_alt)
  moreover have "PAGE_OFFSET - PAGE_SIZE + 4 * of_nat j - (PAGE_OFFSET - 2 * PAGE_SIZE) = 4096 + 4 * of_nat j"
    "PAGE_OFFSET - 2 * PAGE_SIZE - (PAGE_OFFSET - PAGE_SIZE + 4 * of_nat j) = - (4096 + 4 * of_nat j)"
    by (simp_all add: PAGE_SIZE_def PAGE_SHIFT_def)
  ultimately show ?thesis using u assms by (simp only: apart_def) simp
qed

lemma place_argv_page:
  assumes "page_is s d 4096 (packed ws)" "\<forall>w\<in>set ws. 0 \<notin> set w" "length ws \<le> 1024"
  shows "\<exists>u. place_argv d (length ws) s = Some u \<and>
    (\<forall>k<length ws. load_bytes u (load32 u (PAGE_OFFSET - PAGE_SIZE + 4 * of_nat k)) (length (ws ! k) + 1) = ws ! k @ [0])"
proof -
  let ?u = "PAGE_OFFSET - 2 * PAGE_SIZE :: u32"
  let ?s = "store_bytes ?u (load_bytes s d 4096) s"
  have "load_bytes ?s ?u 4096 = load_bytes s d 4096"
    using load_store_bytes [of "load_bytes s d 4096" ?u s] by simp
  then have pg: "page_is ?s ?u 4096 (packed ws)" using assms(1) by (simp add: page_is_def)
  from write_pointers_from [OF pg assms(2), of 0 "PAGE_OFFSET - PAGE_SIZE"] vector_apart assms(3) obtain u where
    u: "write_pointers ?u (length ws) (PAGE_OFFSET - PAGE_SIZE) 0 ?s = Some u" "page_is u ?u 4096 (packed ws)"
      "\<forall>j<length ws. load32 u (PAGE_OFFSET - PAGE_SIZE + 4 * of_nat j) = ?u + of_nat (string_at ws j)"
    by (auto simp: string_at_def)
  show ?thesis using u string_found [OF u(2)] by (intro exI [of _ u]) (simp add: place_argv_def Let_def)
qed

section \<open>Properties of tasks\<close>

text \<open>
  Properties of signals and of the life of a task.
\<close>

subsection \<open>Signals\<close>

lemma first_signal_pending: "first_signal w = Some i \<Longrightarrow> w \<noteq> 0 \<and> i < NR_SIGNALS \<and> bit w i"
  by (auto simp: first_signal_def find_Some_iff)

lemma check_restored: "arch_check_user_regs (restored r q) = arch_check_user_regs r"
  by (simp add: restored_def arch_check_user_regs_def)

lemma do_signal_handled:
  assumes "first_signal (tsignal (cur_task s)) = Some i" "sig_fn (cur_task s) i = Some h"
    and "sig_mask (cur_task s) = 0" "sig_restorer (cur_task s) = SIG_RESTORER_NULL"
    and "\<not> is_kthread (cur_task s)" "\<not> from_kernel r" "arch_check_user_regs r = 0" "r_esp r \<noteq> 51"
    and "arch_setup_sig_handler r h s = (res, r', s')"
  shows "do_signal e r s = Some (Returns r'
    (upd_task (current s) (\<lambda>x. x\<lparr>sig_restorer := res, tsignal := bit_clear (tsignal x) i\<rparr>) s'))"
proof -
  note S = setup_result [OF assms(9)]
  have "res \<noteq> SIG_RESTORER_NULL"
  proof
    assume "res = SIG_RESTORER_NULL"
    then have "r_esp r = 51" using S(1) by (simp add: SIG_RESTORER_NULL_def algebra_simps)
    then show False using assms(8) by simp
  qed
  then show ?thesis
    using assms S(3,4) first_signal_pending [OF assms(1)]
    by (auto simp: do_signal_def Let_def cur_task_def upd_task_def)
qed

text \<open>C11: A caught signal is transparent to the program.  Delivery makes the task run its handler on a
  new frame, with the signal no longer pending; whatever happens until the handler calls
  \<open>sigreturn\<close> with its frame intact, the system call returns the interrupted value of \<open>eax\<close>, and
  the registers the task goes on with are those it was interrupted with.\<close>

theorem signal_transparent:
  assumes "first_signal (tsignal (cur_task s)) = Some i" "sig_fn (cur_task s) i = Some h"
    and "sig_mask (cur_task s) = 0" "sig_restorer (cur_task s) = SIG_RESTORER_NULL"
    and "\<not> is_kthread (cur_task s)" "\<not> from_kernel r" "arch_check_user_regs r = 0" "r_esp r \<noteq> 51"
  shows "\<exists>r' s'. do_signal e r s = Some (Returns r' s') \<and> r_eip r' = h \<and> \<not> bit (tsignal (cur_task s')) i \<and>
    (\<forall>u. current u = current s \<and> sig_restorer (cur_task u) = sig_restorer (cur_task s') \<and>
         (\<forall>k<52. ram u (r_esp r' + of_nat k) = ram s' (r_esp r' + of_nat k)) \<longrightarrow>
       (\<exists>u'. sys_sigreturn e u = Some (Returns (r_eax r) u') \<and>
          sig_restorer (cur_task u') = SIG_RESTORER_NULL \<and>
          load_regs u' (current u - sizeof_pt_regs + PAGE_SIZE) =
            restored r (load_regs u (current u - sizeof_pt_regs + PAGE_SIZE))))"
proof -
  obtain res r' t where f: "arch_setup_sig_handler r h s = (res, r', t)" by (metis prod_cases3)
  note S = setup_result [OF f]
  define s' where "s' = upd_task (current s) (\<lambda>x. x\<lparr>sig_restorer := res, tsignal := bit_clear (tsignal x) i\<rparr>) t"
  have d: "do_signal e r s = Some (Returns r' s')"
    unfolding s'_def by (rule do_signal_handled [OF assms f])
  have res: "res \<noteq> SIG_RESTORER_NULL"
    using S(1) assms(8) by (auto simp: SIG_RESTORER_NULL_def algebra_simps)
  have s': "sig_restorer (cur_task s') = res" "ram s' = ram t" "\<not> bit (tsignal (cur_task s')) i" "r_esp r' = res"
    using S by (simp_all add: s'_def upd_task_def cur_task_def)
  have "\<exists>u'. sys_sigreturn e u = Some (Returns (r_eax r) u') \<and>
      sig_restorer (cur_task u') = SIG_RESTORER_NULL \<and>
      load_regs u' (current u - sizeof_pt_regs + PAGE_SIZE) =
        restored r (load_regs u (current u - sizeof_pt_regs + PAGE_SIZE))"
    if u: "current u = current s" "sig_restorer (cur_task u) = res"
      "\<forall>k<52. ram u (res + of_nat k) = ram t (res + of_nat k)" for u
  proof -
    let ?at = "current u - sizeof_pt_regs + PAGE_SIZE"
    have R: "arch_sig_restore res (load_regs u ?at) u = (r_eax r, restored r (load_regs u ?at))"
      using u(3) by (intro restore_frame [OF f]) simp
    have keep: "tasks (store_regs a q u) = tasks u" "current (store_regs a q u) = current u" for a q
      by (simp_all add: store_regs_words)
    have ld: "load_regs (upd_task c g v) a = load_regs v a" for c g v a
      by (simp add: load_regs_def load32_def load_bytes_def upd_task_def)
    show ?thesis
      using u(2) res assms(7)
      by (simp add: sys_sigreturn_def Let_def R cur_task_def check_restored FAILED_def ld load_store_regs keep)
  qed
  then show ?thesis using d s' S(2) by (intro exI [of _ r'] exI [of _ s']) auto
qed

definition ex_regs :: pt_regs where
  "ex_regs = \<lparr>r_ebx = 1, r_ecx = 2, r_edx = 3, r_edi = 4, r_esi = 5, r_ebp = 6, r_eax = 7, r_gs = 0x23,
     r_fs = 0x23, r_es = 0x23, r_ds = 0x23, r_ori_eax = 0, r_err_code = 0, r_eip = 0x100, r_cs = 0x1B,
     r_eflags = 0x202, r_esp = 0xBFFF0000, r_ss = 0x23\<rparr>"

definition ex_user :: fs where
  "ex_user = upd_task 1 (\<lambda>x. x\<lparr>tflags := 0, tsignal := 2, sig_fn := (\<lambda>_. Some 0x1000)\<rparr>) ex_fs"

lemma ex_user_task: "cur_task ex_user = (ex_task 1)\<lparr>tflags := 0, tsignal := 2, sig_fn := (\<lambda>_. Some 0x1000)\<rparr>"
  "current ex_user = 1"
  by (simp_all add: ex_user_def upd_task_def ex_fs_def cur_task_def)

lemma ex_regs_user: "\<not> from_kernel ex_regs" "arch_check_user_regs ex_regs = 0" "r_esp ex_regs \<noteq> 51"
  by (simp_all add: from_kernel_def arch_check_user_regs_def ex_regs_def PAGE_OFFSET_def X86_EFLAGS_IOPL_def
    X86_EFLAGS_IF_def)

theorem signal_transparent_witness:
  "\<exists>r' s' u'. do_signal ex_env ex_regs ex_user = Some (Returns r' s') \<and> r_eip r' = 0x1000 \<and>
     sys_sigreturn ex_env s' = Some (Returns 7 (u' :: fs))"
proof -
  have "first_signal (tsignal (cur_task ex_user)) = Some 1"
    by (simp add: first_signal_def ex_user_task NR_SIGNALS_def upt_rec bit_iff_odd)
  moreover have "sig_fn (cur_task ex_user) 1 = Some 0x1000" "sig_mask (cur_task ex_user) = 0"
    "sig_restorer (cur_task ex_user) = SIG_RESTORER_NULL" "\<not> is_kthread (cur_task ex_user)"
    by (simp_all add: ex_user_task ex_task_def is_kthread_def)
  ultimately show ?thesis
    using signal_transparent [of ex_user 1 "0x1000" ex_regs ex_env, OF _ _ _ _ _ ex_regs_user]
  proof (elim meta_impE exE conjE)
    fix r' s'
    assume d: "do_signal ex_env ex_regs ex_user = Some (Returns r' s')" and h: "r_eip r' = 0x1000"
      and *: "\<forall>u :: fs. current u = current ex_user \<and> sig_restorer (cur_task u) = sig_restorer (cur_task s') \<and>
         (\<forall>k<52. ram u (r_esp r' + of_nat k) = ram s' (r_esp r' + of_nat k)) \<longrightarrow>
       (\<exists>u'. sys_sigreturn ex_env u = Some (Returns (r_eax ex_regs) u') \<and>
          sig_restorer (cur_task u') = SIG_RESTORER_NULL \<and>
          load_regs u' (current u - sizeof_pt_regs + PAGE_SIZE) =
            restored ex_regs (load_regs u (current u - sizeof_pt_regs + PAGE_SIZE)))"
    have c: "current s' = current ex_user"
      using d ex_user_task by (auto simp: do_signal_def Let_def arch_setup_sig_handler_def push_def upd_task_def
        die_def split: if_splits option.splits bind_splits)
    show ?thesis using d h * [rule_format, of s'] c by (auto simp: ex_regs_def)
  qed
qed

text \<open>C33: A task that has masked any signal cannot be killed: \<open>do_signal\<close> tests
  \<open>sig_mask && BIT(i) && ~SIG_UNMASK\<close>, so a pending \<open>SIGKILL\<close>, which must not be maskable, is dropped.\<close>

theorem kill_lost_under_mask:
  assumes "sys_sigmask n True s0 = (SUCCESS, s1)" "sys_kill p SIGKILL s1 = (SUCCESS, s2)"
    and "get_task_by_pid s1 p = Some (current s1)"
    and "tsignal (cur_task s0) = 0" "sig_restorer (cur_task s0) = SIG_RESTORER_NULL" "\<not> from_kernel r"
  shows "\<exists>s3. do_signal e r s2 = Some (Returns r s3) \<and> tsignal (cur_task s3) = 0"
proof -
  have s1: "s1 = upd_task (current s0) (\<lambda>t. t\<lparr>sig_mask := bit_set (sig_mask t) n\<rparr>) s0" and n: "n < NR_SIGNALS"
    using assms(1) by (auto simp: sys_sigmask_def split: if_splits)
  have c: "current s1 = current s0" by (simp add: s1 upd_task_def)
  have s2: "s2 = upd_task (current s0) (\<lambda>x. x\<lparr>tsignal := bit_set (tsignal x) SIGKILL\<rparr>) s1"
    and k: "\<not> is_kthread (cur_task s1)"
    using assms(2,3) c by (auto simp: sys_kill_def cur_task_def split: if_splits)
  have t: "cur_task s2 = (cur_task s0)\<lparr>sig_mask := bit_set (sig_mask (cur_task s0)) n, tsignal := bit_set 0 SIGKILL\<rparr>"
    "current s2 = current s0"
    using assms(4) by (simp_all add: s1 s2 upd_task_def cur_task_def)
  have m: "bit_set (sig_mask (cur_task s0)) n \<noteq> 0"
  proof
    assume "bit_set (sig_mask (cur_task s0)) n = 0"
    then have "\<not> bit (bit_set (sig_mask (cur_task s0)) n) n" by simp
    then show False using n by (simp add: NR_SIGNALS_def)
  qed
  have f: "first_signal (bit_set 0 SIGKILL) = Some SIGKILL"
    by (simp add: first_signal_def SIGKILL_def NR_SIGNALS_def upt_rec)
  have b: "bit_set 0 SIGKILL \<noteq> 0" "BIT SIGKILL \<noteq> 0" "NOT SIG_UNMASK \<noteq> 0" "bit_clear (bit_set 0 SIGKILL) SIGKILL = 0"
    by (simp_all add: bit_set_def bit_clear_def BIT_def SIGKILL_def SIG_UNMASK_def)
  have "tflags (cur_task s1) = tflags (cur_task s0)" by (simp add: s1 cur_task_def upd_task_def)
  then have "\<not> is_kthread (cur_task s2)" using k by (simp add: t(1) is_kthread_def)
  then have "do_signal e r s2 = Some (Returns r (upd_task (current s0) (\<lambda>x. x\<lparr>tsignal := bit_clear (tsignal x) SIGKILL\<rparr>) s2))"
    using assms(5,6) t m f b by (simp add: do_signal_def Let_def cur_task_def)
  then show ?thesis using t b by (simp add: cur_task_def upd_task_def)
qed

theorem kill_lost_under_mask_witness:
  "\<exists>s1 s2 s3. sys_sigmask SIGUSR1 True (upd_task 1 (\<lambda>x. x\<lparr>tsignal := 0\<rparr>) ex_user\<lparr>pid_lists := (\<lambda>_. [1])\<rparr>) = (SUCCESS, s1) \<and>
     sys_kill 1 SIGKILL s1 = (SUCCESS, s2) \<and> do_signal ex_env ex_regs s2 = Some (Returns ex_regs s3)"
proof -
  let ?s0 = "upd_task 1 (\<lambda>x. x\<lparr>tsignal := 0\<rparr>) ex_user\<lparr>pid_lists := (\<lambda>_. [1])\<rparr>"
  have a: "sys_sigmask SIGUSR1 True ?s0 = (SUCCESS, snd (sys_sigmask SIGUSR1 True ?s0))"
    by (simp add: sys_sigmask_def SIGUSR1_def NR_SIGNALS_def SIG_UNMASK_def SIGKILL_def BIT_def)
  let ?s1 = "snd (sys_sigmask SIGUSR1 True ?s0)"
  have s1: "tasks ?s1 1 = (ex_task 1)\<lparr>tflags := 0, tsignal := 0, sig_fn := (\<lambda>_. Some 0x1000), sig_mask := 2\<rparr>"
    "pid_lists ?s1 = (\<lambda>_. [1])" "current ?s1 = 1"
    by (simp_all add: sys_sigmask_def SIGUSR1_def NR_SIGNALS_def SIG_UNMASK_def SIGKILL_def BIT_def bit_set_def
      ex_user_def ex_fs_def upd_task_def ex_task_def)
  have g: "get_task_by_pid ?s1 1 = Some (current ?s1)"
    by (simp add: get_task_by_pid_def s1 ex_task_def)
  have b: "sys_kill 1 SIGKILL ?s1 = (SUCCESS, snd (sys_kill 1 SIGKILL ?s1))"
    using g by (simp add: sys_kill_def s1 is_kthread_def ex_task_def SIGKILL_def NR_SIGNALS_def)
  have "tsignal (cur_task ?s0) = 0" "sig_restorer (cur_task ?s0) = SIG_RESTORER_NULL"
    by (simp_all add: cur_task_def ex_user_def ex_fs_def upd_task_def ex_task_def)
  from kill_lost_under_mask [OF a b g this ex_regs_user(1)] a b show ?thesis by blast
qed

subsection \<open>Arguments of a program\<close>

text \<open>C17: The arguments of \<open>exec\<close> arrive.  When the path and the arguments with their terminators
  fit in a page, \<open>copy_argv\<close> succeeds, and after \<open>write_argv_to_user\<close> has moved the page and made
  the vector, word \<open>k\<close> of the vector points at string \<open>k\<close>, the path first, terminated by a zero.\<close>

theorem exec_arguments_arrive:
  assumes "\<forall>w\<in>set (f # args). 0 \<notin> set w" "length (packed (f # args)) < 4096" "length args < 1024"
    and "load_bytes s page 4096 = replicate 4096 0"
  shows "\<exists>s' u. copy_argv f page 4096 (map Some args) s = (SUCCESS, s') \<and>
    place_argv page (length args + 1) s' = Some u \<and>
    (\<forall>k\<le>length args. load_bytes u (load32 u (PAGE_OFFSET - PAGE_SIZE + 4 * of_nat k))
       (length ((f # args) ! k) + 1) = (f # args) ! k @ [0])"
proof -
  obtain s' where s': "copy_argv f page 4096 (map Some args) s = (SUCCESS, s')" "page_is s' page 4096 (packed (f # args))"
    using copy_argv_page [OF assms(4,2)] by auto
  from place_argv_page [OF s'(2) assms(1)] assms(3) s'(1) show ?thesis by (auto simp: less_Suc_eq_le)
qed

theorem exec_arguments_arrive_witness:
  "\<exists>s' u. copy_argv [47, 108, 115] 0xC0300000 4096 [Some [45, 108], Some []] ex_fs = (SUCCESS, s') \<and>
    place_argv 0xC0300000 (2 + 1) s' = Some u \<and>
    load_bytes u (load32 u (PAGE_OFFSET - PAGE_SIZE + 4 * of_nat 1)) (2 + 1) = [45, 108, 0]"
proof -
  have z: "load_bytes ex_fs 0xC0300000 4096 = replicate 4096 0"
    by (rule nth_equalityI) (simp_all add: ex_fs_def)
  have a: "\<forall>w\<in>set ([47, 108, 115] # [[45, 108], []]). (0 :: u8) \<notin> set w" by simp
  have b: "length (packed ([47, 108, 115] # [[45, 108], []])) < 4096" "length [[45 :: u8, 108], []] < 1024"
    by simp_all
  from exec_arguments_arrive [OF a b z] obtain s' u where
    "copy_argv [47, 108, 115] 0xC0300000 4096 (map Some [[45, 108], []]) ex_fs = (SUCCESS, s')"
    "place_argv 0xC0300000 (length [[45 :: u8, 108], []] + 1) s' = Some u" and
    k: "\<forall>k\<le>length [[45 :: u8, 108], []]. load_bytes u (load32 u (PAGE_OFFSET - PAGE_SIZE + 4 * of_nat k))
       (length (([47, 108, 115] # [[45, 108], []]) ! k :: u8 list) + 1) = ([47, 108, 115] # [[45, 108], []]) ! k @ [0]"
    by (elim exE conjE) (rule that)
  moreover have "length [[45 :: u8, 108], []] = 2" by simp
  moreover have "load_bytes u (load32 u (PAGE_OFFSET - PAGE_SIZE + 4 * of_nat 1)) (2 + 1) = [45, 108, 0]"
    using k [rule_format, of 1] by (simp add: numeral_2_eq_2)
  ultimately show ?thesis by (simp only: list.map) blast
qed

end
