(* ===== verification/Tools.thy ===== *)
theory Tools
  imports User Time Minix_File
begin

text \<open>
  The other user programs: tools/wc, cat, hexdump, ls, ps, echo and date.  A program's local or static
  buffer is at \<open>buf\<close>.  A loop over a file ends when a read fails, as the kernel's does at the end.
\<close>

definition TOOL_BUF :: nat where "TOOL_BUF = 1024"

text \<open>\<open>argv[i]\<close>\<close>

definition arg_at :: "'a user_scheme \<Rightarrow> nat \<Rightarrow> nat \<Rightarrow> u32 option" where
  "arg_at s argv i = fetch32 (umem s) (argv + 4 * i)"

definition open_file :: "('a user_scheme) umachine \<Rightarrow> u32 \<Rightarrow> 'a user_scheme \<Rightarrow> (u32 \<times> 'a user_scheme) option" where
  "open_file m path s =
     do { (file, s) \<leftarrow> trap m Sys_open [path, 0] s;
          s \<leftarrow> (if file <s 0 then print m (''open %s failed!'' @ [CHR 0x0A]) [path] s else Some s);
          Some (file, s) }"

subsection \<open>wc\<close>

definition count_lines :: "u8 list \<Rightarrow> nat" where
  "count_lines bs = length (filter (\<lambda>c. c = 10) bs)"

partial_function (option) wc_loop ::
    "('a user_scheme) umachine \<Rightarrow> nat \<Rightarrow> bool \<Rightarrow> u32 \<Rightarrow> u32 \<Rightarrow> 'a user_scheme \<Rightarrow> (u32 \<times> 'a user_scheme) option" where
  "wc_loop m buf line file count s =
     do { (ret, s) \<leftarrow> trap m Sys_read [file, of_nat buf, 1024] s;
          if ret <s 0 then Some (count, s)
          else if line
          then do { bs \<leftarrow> read_bytes (umem s) buf (unat ret);
                    wc_loop m buf line file (count + of_nat (count_lines bs)) s }
          else wc_loop m buf line file (count + ret) s }"

definition count_file ::
    "('a user_scheme) umachine \<Rightarrow> nat \<Rightarrow> u32 \<Rightarrow> bool \<Rightarrow> bool \<Rightarrow> 'a user_scheme \<Rightarrow> 'a user_scheme option" where
  "count_file m buf path line name s =
     do { (file, s) \<leftarrow> open_file m path s;
          (count, s) \<leftarrow> wc_loop m buf line file 0 s;
          let empty = of_nat (u_lit m []);
          s \<leftarrow> print m (''%s%s%d'' @ [CHR 0x0A])
                 [if name then path else empty, if name then of_nat (u_lit m (lit '':'')) else empty, count] s;
          trap_only m Sys_close [file] s }"

text \<open>Whether argument \<open>i\<close> is the option.\<close>

definition is_option :: "('a user_scheme) umachine \<Rightarrow> nat \<Rightarrow> nat \<Rightarrow> 'a user_scheme \<Rightarrow> bool option" where
  "is_option m argv i s =
     do { a \<leftarrow> arg_at s argv i; r \<leftarrow> strcmp (umem s) (u_lit m (lit ''-l'')) (unat a); Some (r = 0) }"

fun wc_options :: "('a user_scheme) umachine \<Rightarrow> nat \<Rightarrow> nat list \<Rightarrow> bool \<Rightarrow> u32 \<Rightarrow> 'a user_scheme \<Rightarrow> (bool \<times> u32) option" where
  "wc_options m argv [] line count s = Some (line, count)"
| "wc_options m argv (i # is) line count s =
     do { opt \<leftarrow> is_option m argv i s;
          if opt then wc_options m argv is True count s else wc_options m argv is line (count + 1) s }"

text \<open>\<open>count\<close> is never set before it is incremented: \<open>garbage\<close> is what it holds.\<close>

definition wc_main ::
    "('a user_scheme) umachine \<Rightarrow> nat \<Rightarrow> u32 \<Rightarrow> nat \<Rightarrow> nat \<Rightarrow> 'a user_scheme \<Rightarrow> (int \<times> 'a user_scheme) option" where
  "wc_main m buf garbage argc argv s =
     do { (line, count) \<leftarrow> wc_options m argv [1..<argc] False garbage s;
          if count = 0 then do { s \<leftarrow> print m ''It need at least one file.'' [] s; Some (- 1, s) }
          else do {
            s \<leftarrow> fold_opt (\<lambda>i s. do { opt \<leftarrow> is_option m argv i s; a \<leftarrow> arg_at s argv i;
                                     if opt then Some s else count_file m buf a line (1 <s count) s }) [1..<argc] s;
            Some (0, s) } }"

subsection \<open>cat\<close>

partial_function (option) cat_loop :: "('a user_scheme) umachine \<Rightarrow> nat \<Rightarrow> u32 \<Rightarrow> 'a user_scheme \<Rightarrow> 'a user_scheme option" where
  "cat_loop m buf file s =
     do { (ret, s) \<leftarrow> trap m Sys_read [file, of_nat buf, 1024] s;
          if ret <s 0 then Some s
          else do { s \<leftarrow> ustore8 (buf + unat ret) 0 s;
                    s \<leftarrow> print m ''%s'' [of_nat buf] s;
                    cat_loop m buf file s } }"

definition cat_file :: "('a user_scheme) umachine \<Rightarrow> nat \<Rightarrow> u32 \<Rightarrow> 'a user_scheme \<Rightarrow> 'a user_scheme option" where
  "cat_file m buf path s =
     do { (file, s) \<leftarrow> open_file m path s; s \<leftarrow> cat_loop m buf file s; trap_only m Sys_close [file] s }"

text \<open>\<open>main\<close> of cat and of hexdump: \<open>each\<close> on every argument.\<close>

definition for_arguments ::
    "(u32 \<Rightarrow> 'a user_scheme \<Rightarrow> 'a user_scheme option) \<Rightarrow> nat \<Rightarrow> nat \<Rightarrow> 'a user_scheme \<Rightarrow> (int \<times> 'a user_scheme) option" where
  "for_arguments each argc argv s =
     (if argc \<le> 1 then Some (- 1, s)
      else do { s \<leftarrow> fold_opt (\<lambda>i s. do { a \<leftarrow> arg_at s argv i; each a s }) [1..<argc] s; Some (0, s) })"

definition cat_main :: "('a user_scheme) umachine \<Rightarrow> nat \<Rightarrow> nat \<Rightarrow> nat \<Rightarrow> 'a user_scheme \<Rightarrow> (int \<times> 'a user_scheme) option" where
  "cat_main m buf = for_arguments (cat_file m buf)"

subsection \<open>hexdump\<close>

definition dump_word :: "('a user_scheme) umachine \<Rightarrow> nat \<Rightarrow> u32 \<Rightarrow> nat \<Rightarrow> 'a user_scheme \<Rightarrow> 'a user_scheme option" where
  "dump_word m buf addr i s =
     do { s \<leftarrow> (if i mod 4 = 0 then print m ''%p:    '' [addr + 4 * of_nat i] s else Some s);
          w \<leftarrow> fetch32 (umem s) (buf + 4 * i);
          s \<leftarrow> print m ''%08x  '' [w] s;
          if i mod 4 = 3 then print m [CHR 0x0A] [] s else Some s }"

partial_function (option) dump_loop ::
    "('a user_scheme) umachine \<Rightarrow> nat \<Rightarrow> u32 \<Rightarrow> u32 \<Rightarrow> 'a user_scheme \<Rightarrow> 'a user_scheme option" where
  "dump_loop m buf file addr s =
     do { (ret, s) \<leftarrow> trap m Sys_read [file, of_nat buf, 1024] s;
          if ret <s 0 then Some s
          else do {
            let n = unat ret div 4;
            s \<leftarrow> fold_opt (dump_word m buf addr) [0..<n] s;
            let addr = addr + 4 * of_nat n;
            s \<leftarrow> (if unat ret mod 4 \<noteq> 0
                 then do { s \<leftarrow> (if n mod 4 = 3 then print m ''%p: '' [addr] s else Some s);
                           w \<leftarrow> fetch32 (umem s) (buf + 4 * n);
                           print m (''%08x'' @ [CHR 0x0A]) [w] s }
                 else Some s);
            s \<leftarrow> (if n < 4 then print m [CHR 0x0A] [] s else Some s);
            dump_loop m buf file addr s } }"

definition dump_file :: "('a user_scheme) umachine \<Rightarrow> nat \<Rightarrow> u32 \<Rightarrow> 'a user_scheme \<Rightarrow> 'a user_scheme option" where
  "dump_file m buf path s =
     do { (file, s) \<leftarrow> open_file m path s; s \<leftarrow> dump_loop m buf file 0 s; trap_only m Sys_close [file] s }"

definition hexdump_main :: "('a user_scheme) umachine \<Rightarrow> nat \<Rightarrow> nat \<Rightarrow> nat \<Rightarrow> 'a user_scheme \<Rightarrow> (int \<times> 'a user_scheme) option" where
  "hexdump_main m buf = for_arguments (dump_file m buf)"

subsection \<open>echo\<close>

definition echo_main :: "('a user_scheme) umachine \<Rightarrow> nat \<Rightarrow> nat \<Rightarrow> 'a user_scheme \<Rightarrow> (int \<times> 'a user_scheme) option" where
  "echo_main m argc argv s =
     do { s \<leftarrow> fold_opt (\<lambda>i s. do { a \<leftarrow> arg_at s argv i;
                                  print m ''%s%c'' [a, if i \<noteq> argc - 1 then 32 else 10] s }) [1..<argc] s;
          Some (0, s) }"

subsection \<open>ls\<close>

definition LS_DIRS :: u32 where "LS_DIRS = 128"

text \<open>Entry \<open>i\<close> of the static array at \<open>buf\<close>, through the name buffer.\<close>

definition ls_entry :: "('a user_scheme) umachine \<Rightarrow> nat \<Rightarrow> nat \<Rightarrow> nat \<Rightarrow> nat \<Rightarrow> 'a user_scheme \<Rightarrow> 'a user_scheme option" where
  "ls_entry m buf name_buf n i s =
     do { mem \<leftarrow> strncpy (umem s) name_buf (buf + i * unat sizeof_dir) MAX_NAME_LEN;
          s \<leftarrow> ustore8 (name_buf + MAX_NAME_LEN) 0 (s\<lparr>umem := mem\<rparr>);
          print m (if i = n - 1 then ''%s'' else ''%s '' @ [CHR 0x09]) [of_nat name_buf] s }"

partial_function (option) ls_loop ::
    "('a user_scheme) umachine \<Rightarrow> nat \<Rightarrow> nat \<Rightarrow> u32 \<Rightarrow> u32 \<Rightarrow> 'a user_scheme \<Rightarrow> 'a user_scheme option" where
  "ls_loop m buf name_buf path file s =
     do { (ret, s) \<leftarrow> trap m Sys_readdir [file, of_nat buf, LS_DIRS] s;
          if sint ret = err EIO then Some s
          else if ret <s 0 then print m ''read %s failed!'' [path] s
          else do { s \<leftarrow> fold_opt (ls_entry m buf name_buf (unat ret)) [0..<unat ret] s;
                    if ret < LS_DIRS then Some s else ls_loop m buf name_buf path file s } }"

definition print_dir ::
    "('a user_scheme) umachine \<Rightarrow> nat \<Rightarrow> nat \<Rightarrow> u32 \<Rightarrow> bool \<Rightarrow> 'a user_scheme \<Rightarrow> 'a user_scheme option" where
  "print_dir m buf name_buf path multipath s =
     do { (file, s) \<leftarrow> trap m Sys_open [path, 0] s;
          if file <s 0 then print m (''open %s failed!'' @ [CHR 0x0A]) [path] s
          else do {
            s \<leftarrow> (if multipath then print m (''%s:'' @ [CHR 0x0A]) [path] s else Some s);
            s \<leftarrow> ls_loop m buf name_buf path file s;
            trap_only m Sys_close [file] s } }"

definition ls_main ::
    "('a user_scheme) umachine \<Rightarrow> nat \<Rightarrow> nat \<Rightarrow> nat \<Rightarrow> nat \<Rightarrow> nat \<Rightarrow> 'a user_scheme \<Rightarrow> (int \<times> 'a user_scheme) option" where
  "ls_main m buf name_buf path_buf argc argv s =
     do { s \<leftarrow> (if argc = 1
               then do { (r, s) \<leftarrow> trap m Sys_getcwd [of_nat path_buf, 128] s;
                         if 0 \<le>s r
                         then do { s \<leftarrow> print_dir m buf name_buf (of_nat path_buf) False s; print m [CHR 0x0A] [] s }
                         else Some s }
               else Some s);
          s \<leftarrow> fold_opt (\<lambda>i s. do { a \<leftarrow> arg_at s argv i;
                                  s \<leftarrow> print_dir m buf name_buf a (3 \<le> argc) s;
                                  print m [CHR 0x0A] [] s }) [1..<argc] s;
          Some (0, s) }"

subsection \<open>ps\<close>

definition PS_TASKS :: nat where "PS_TASKS = 10"
definition SIZEOF_TASK_INFO :: nat where "SIZEOF_TASK_INFO = 104"

text \<open>The offsets of the fields of \<open>struct task_info\<close>.\<close>

definition ps_words :: "nat \<Rightarrow> 'a user_scheme \<Rightarrow> (u32 \<times> u32 \<times> u32 \<times> u32 \<times> u32 \<times> u32) option" where
  "ps_words a s =
     do { state \<leftarrow> fetch32 (umem s) a; p \<leftarrow> fetch32 (umem s) (a + 4); flags \<leftarrow> fetch32 (umem s) (a + 8);
          slice \<leftarrow> fetch32 (umem s) (a + 32); pp \<leftarrow> fetch32 (umem s) (a + 36); nfiles \<leftarrow> fetch32 (umem s) (a + 60);
          Some (state, p, flags, slice, pp, nfiles) }"

definition state_name :: "u32 \<Rightarrow> string" where
  "state_name state =
     (if state = 0 then ''Run'' else if state = 1 then ''Sleep'' else if state = 2 then ''Zombie''
      else if state = 3 then ''Dead'' else ''?'')"

definition ps_line :: "('a user_scheme) umachine \<Rightarrow> nat \<Rightarrow> nat \<Rightarrow> 'a user_scheme \<Rightarrow> 'a user_scheme option" where
  "ps_line m buf i s =
     do { let a = buf + i * SIZEOF_TASK_INFO;
          (state, p, flags, slice, pp, nfiles) \<leftarrow> ps_words a s;
          print m (''%c%-10s%-6d%-7s%-6d%-10s%-6d%-6d%-13s%-13s'' @ [CHR 0x0A])
            [if flags AND TASK_KTHREAD \<noteq> 0 then 42 else 32, of_nat (a + 12), p, of_nat (u_lit m (lit (state_name state))),
             pp, of_nat (a + 40), slice, nfiles, of_nat (a + 64), of_nat (a + 84)] s }"

definition ps_output :: "('a user_scheme) umachine \<Rightarrow> nat \<Rightarrow> nat \<Rightarrow> 'a user_scheme \<Rightarrow> 'a user_scheme option" where
  "ps_output m buf count s =
     do { s \<leftarrow> print m ('' %-10s%-6s%-7s%-6s%-10s%-6s%-6s%-13s%-13s'' @ [CHR 0x0A])
                 (List.map (\<lambda>w. of_nat (u_lit m (lit w)))
                    [''CMD'', ''PID'', ''STATE'', ''PPID'', ''PCMD'', ''SLICE'', ''FILES'', ''ROOT'', ''PWD'']) s;
          fold_opt (ps_line m buf) [0..<count] s }"

text \<open>\<open>read_file\<close>: a failed read leaves the file open.\<close>

definition ps_read_file ::
    "('a user_scheme) umachine \<Rightarrow> nat \<Rightarrow> u32 \<Rightarrow> 'a user_scheme \<Rightarrow> (u32 \<times> 'a user_scheme) option" where
  "ps_read_file m buf path s =
     do { (file, s) \<leftarrow> trap m Sys_open [path, 0] s;
          if file <s 0
          then do { s \<leftarrow> print m (''open %s failed%d!'' @ [CHR 0x0A]) [path, file] s; Some (file, s) }
          else do {
            (ret, s) \<leftarrow> trap m Sys_read [file, of_nat buf, of_nat (PS_TASKS * SIZEOF_TASK_INFO)] s;
            if ret <s 0 then Some (ret, s)
            else do { s \<leftarrow> trap_only m Sys_close [file] s; Some (ret, s) } } }"

definition ps_main :: "('a user_scheme) umachine \<Rightarrow> nat \<Rightarrow> 'a user_scheme \<Rightarrow> (int \<times> 'a user_scheme) option" where
  "ps_main m buf s =
     do { (ret, s) \<leftarrow> ps_read_file m buf (of_nat (u_lit m (lit ''/dev/proc''))) s;
          if ret <s 0 then Some (sint ret, s)
          else do { s \<leftarrow> ps_output m buf (unat ret div SIZEOF_TASK_INFO) s; Some (0, s) } }"

subsection \<open>date\<close>

text \<open>\<open>now\<close> is the local \<open>struct tm\<close>: seconds, minutes, hours, day, month, year.\<close>

definition date_main :: "('a user_scheme) umachine \<Rightarrow> nat \<Rightarrow> 'a user_scheme \<Rightarrow> (int \<times> 'a user_scheme) option" where
  "date_main m now s =
     do { s \<leftarrow> trap_only m Sys_time [of_nat now] s;
          sec \<leftarrow> fetch32 (umem s) now; min' \<leftarrow> fetch32 (umem s) (now + 4); hour \<leftarrow> fetch32 (umem s) (now + 8);
          mday \<leftarrow> fetch32 (umem s) (now + 12); mon \<leftarrow> fetch32 (umem s) (now + 16); year \<leftarrow> fetch32 (umem s) (now + 20);
          s \<leftarrow> print m (''%04d-%02d-%02d %02d:%02d:%02d'' @ [CHR 0x0A]) [year, mon + 1, mday, hour, min', sec] s;
          Some (0, s) }"

subsection \<open>debug and template\<close>

definition my_signal_handler :: "('a user_scheme) umachine \<Rightarrow> 'a user_scheme \<Rightarrow> 'a user_scheme option" where
  "my_signal_handler m = print m ''enter my_signal_handler.'' []"

text \<open>\<open>handler\<close> is the address of \<open>my_signal_handler\<close>; \<open>main\<close> spins after it.\<close>

definition debug_signal :: "('a user_scheme) umachine \<Rightarrow> nat \<Rightarrow> 'a user_scheme \<Rightarrow> 'a user_scheme option" where
  "debug_signal m handler s =
     do { s \<leftarrow> trap_only m Sys_getpid [] s; trap_only m Sys_sigaction [of_nat SIGUSR1, of_nat handler] s }"

definition template_main :: "('a user_scheme) umachine \<Rightarrow> 'a user_scheme \<Rightarrow> (int \<times> 'a user_scheme) option" where
  "template_main m s =
     do { s \<leftarrow> print m (''I'm the template for sins user-mode program.'' @ [CHR 0x0A]) [] s; Some (0, s) }"

section \<open>Properties\<close>

text \<open>
  Properties of the programs that read files.  What they rely on of the kernel is that reading delivers a
  file: pieces of at most 1024 bytes in order, and an error at the end.
\<close>

subsection \<open>A file that is read\<close>

text \<open>\<open>rest\<close> gives what is still to be read, from the part of the state outside the program's memory.\<close>

definition delivers :: "('a user_scheme) umachine \<Rightarrow> nat \<Rightarrow> u32 \<Rightarrow> ('a \<Rightarrow> u8 list) \<Rightarrow> bool" where
  "delivers m buf file rest \<longleftrightarrow>
     (\<forall>s. if rest (user.more s) = []
          then \<exists>r s'. trap m Sys_read [file, of_nat buf, 1024] s = Some (r, s') \<and> r <s 0 \<and> user.more s' = user.more s
          else \<exists>k s'. 0 < k \<and> k \<le> TOOL_BUF \<and> k \<le> length (rest (user.more s)) \<and>
                 trap m Sys_read [file, of_nat buf, 1024] s = Some (of_nat k, s') \<and>
                 umem s' = mwrite (umem s) buf (take k (rest (user.more s))) \<and>
                 rest (user.more s') = drop k (rest (user.more s)))"

lemma piece_not_negative: "k \<le> TOOL_BUF \<Longrightarrow> \<not> (of_nat k :: u32) <s 0 \<and> unat (of_nat k :: u32) = k"
proof -
  assume k: "k \<le> TOOL_BUF"
  then have "unat (of_nat k :: u32) = k" by (intro unat_small) (simp add: TOOL_BUF_def)
  moreover have "0 \<le> sint (of_nat k :: u32)"
    using k \<open>unat (of_nat k :: u32) = k\<close>
    by (simp add: sint_uint uint_nat TOOL_BUF_def signed_take_bit_int_eq_self del: of_nat_unat)
  ultimately show ?thesis by (simp add: word_sless_alt)
qed

lemma deliversE:
  assumes "delivers m buf file rest"
  obtains r s' where "rest (user.more s) = []" "trap m Sys_read [file, of_nat buf, 1024] s = Some (r, s')" "r <s 0"
      "user.more s' = user.more s"
  | k s' where "0 < k" "k \<le> TOOL_BUF" "k \<le> length (rest (user.more s))"
      "trap m Sys_read [file, of_nat buf, 1024] s = Some (of_nat k, s')" "\<not> (of_nat k :: u32) <s 0" "unat (of_nat k :: u32) = k"
      "umem s' = mwrite (umem s) buf (take k (rest (user.more s)))" "rest (user.more s') = drop k (rest (user.more s))"
  using assms piece_not_negative unfolding delivers_def by (metis (no_types, lifting))

subsection \<open>wc\<close>



subsection \<open>cat\<close>

text \<open>Writing to the terminal appends to what it shows, and changes nothing else.\<close>

definition shows_output :: "('a user_scheme) umachine \<Rightarrow> ('a \<Rightarrow> u8 list) \<Rightarrow> ('a \<Rightarrow> u8 list) \<Rightarrow> bool" where
  "shows_output m rest out \<longleftrightarrow>
     (\<forall>s a n bs. read_bytes (umem s) (unat a) (unat n) = Some bs \<longrightarrow>
        (\<exists>r s'. trap m Sys_write [STDOUT, a, n] s = Some (r, s') \<and> umem s' = umem s \<and>
           rest (user.more s') = rest (user.more s) \<and> out (user.more s') = out (user.more s) @ bs))"

text \<open>The memory of \<open>cat\<close>: its buffer, the buffer of the library and the format, apart.\<close>

definition cat_ok :: "('a user_scheme) umachine \<Rightarrow> nat \<Rightarrow> cmem \<Rightarrow> bool" where
  "cat_ok m buf mem \<longleftrightarrow>
     writable mem buf (TOOL_BUF + 1) \<and> writable mem (libc_buf m) 4096 \<and> 0 < buf \<and> buf + TOOL_BUF < 2 ^ 32 \<and>
     1 < libc_buf m \<and> libc_buf m + 4096 \<le> 2 ^ 32 \<and>
     (buf + TOOL_BUF < libc_buf m \<or> libc_buf m + 4096 \<le> buf) \<and>
     cstr_off (libc_buf m) (libc_buf m + 4096 - 1) mem (u_lit m (lit ''%s'')) (lit ''%s'') \<and>
     (u_lit m (lit ''%s'') + 2 < buf \<or> buf + TOOL_BUF < u_lit m (lit ''%s''))"

lemma cat_ok_keeps:
  assumes "cat_ok m buf mem" and "\<And>x. mem x \<noteq> None \<Longrightarrow> mem' x \<noteq> None"
    and "\<And>x. (x < buf \<or> buf + TOOL_BUF < x) \<and> (x < libc_buf m \<or> libc_buf m + 4096 \<le> x) \<Longrightarrow> mem' x = mem x"
  shows "cat_ok m buf mem'"
proof -
  let ?f = "u_lit m (lit ''%s'')"
  have c: "cstr mem ?f (lit ''%s'')" "?f + 2 < libc_buf m \<or> libc_buf m + 4096 - 1 < ?f"
    "?f + 2 < buf \<or> buf + TOOL_BUF < ?f"
    using assms(1) by (auto simp: cat_ok_def cstr_off_def lit_def)
  have "bytes mem' ?f (lit ''%s'' @ [0]) = bytes mem ?f (lit ''%s'' @ [0])"
    using c(2,3) by (intro bytes_cong assms(3)) (auto simp: lit_def)
  then have "cstr mem' ?f (lit ''%s'')" using c(1) by (simp add: cstr_def del: bytes_append)
  then show ?thesis using assms(1,2) by (auto simp: cat_ok_def cstr_off_def writable_def)
qed

text \<open>\<open>printf("%s", buf)\<close>\<close>

lemma print_buffer:
  assumes ok: "cat_ok m buf (umem s)" and c: "cstr (umem s) buf t" "t \<noteq> []" "length t \<le> TOOL_BUF" and w: "shows_output m rest out"
  shows "\<exists>s'. print m ''%s'' [of_nat buf] s = Some s' \<and> cat_ok m buf (umem s') \<and>
    rest (user.more s') = rest (user.more s) \<and> out (user.more s') = out (user.more s) @ t"
proof -
  let ?b = "libc_buf m" and ?f = "u_lit m (lit ''%s'')"
  have o: "0 < buf" "buf + TOOL_BUF < 2 ^ 32" "1 < ?b" "?b + 4096 \<le> 2 ^ 32" "buf + TOOL_BUF < ?b \<or> ?b + 4096 \<le> buf"
    "cstr_off ?b (?b + 4096 - 1) (umem s) ?f (lit ''%s'')" "writable (umem s) ?b 4096"
    using ok by (simp_all add: cat_ok_def)
  have u: "unat (of_nat buf :: u32) = buf" "unat (of_nat ?b :: u32) = ?b" "unat (of_nat (length t) :: u32) = length t"
    using o c(3) by (auto intro!: unat_small simp: TOOL_BUF_def)
  have "renders ?b (?b + 4096 - 1) (umem s) [String] [of_nat buf] (t @ [])"
  proof (rule renders.String [OF renders.Nil])
    show "of_nat buf \<noteq> (0 :: u32)" using u(1) o(1) by (cases "of_nat buf = (0 :: u32)") simp_all
    show "cstr_off ?b (?b + 4096 - 1) (umem s) (unat (of_nat buf :: u32)) t"
      using c(1,3) o(3,5) by (auto simp: u cstr_off_def)
  qed (use c(3) in \<open>simp add: TOOL_BUF_def\<close>)
  then have ren: "renders ?b (?b + 4096 - 1) (umem s) [String] [of_nat buf] t" by simp
  have f: "\<forall>x\<in>set [String]. piece_ok x" "format_of [String] = lit ''%s''" by (simp_all add: format_of_def lit_def)
  have lt: "length t < 4096" using c(3) by (simp add: TOOL_BUF_def)
  from sprintf_renders [OF ren f(1) _ o(7,3,4) lt, of ?f "u_lit m (lit ''<NULL>'')"] o(6) f(2) obtain mem where
    mem: "sprintf (u_lit m (lit ''<NULL>'')) (umem s) ?b ?f [of_nat buf] = Some (mem, length t)" "bytes mem ?b (t @ [0])"
      "\<forall>x. x < ?b \<or> ?b + 4096 \<le> x \<longrightarrow> mem x = umem s x" "\<forall>x. umem s x \<noteq> None \<longrightarrow> mem x \<noteq> None" by auto
  have "read_bytes mem (unat (of_nat ?b :: u32)) (unat (of_nat (length t) :: u32)) = Some t"
    unfolding u using mem(2) by (intro read_bytes_spec) simp
  then obtain r s' where s': "trap m Sys_write [STDOUT, of_nat ?b, of_nat (length t)] (s\<lparr>umem := mem\<rparr>) = Some (r, s')"
    "umem s' = mem" "rest (user.more s') = rest (user.more s)" "out (user.more s') = out (user.more s) @ t"
    using w [unfolded shows_output_def, rule_format, of "s\<lparr>umem := mem\<rparr>" "of_nat ?b" "of_nat (length t)" t] by auto
  have "print m ''%s'' [of_nat buf] s = Some s'"
    using mem(1) s'(1) c(2) by (simp add: print_def printf_def sprintf_def trap_only_def)
  moreover have "cat_ok m buf mem" by (rule cat_ok_keeps [OF ok]) (use mem(3,4) in auto)
  ultimately show ?thesis using s'(2-4) by auto
qed

text \<open>C19: \<open>cat\<close> copies a text.  When reading delivers a file without NUL bytes and writing shows its bytes, the loop
  of \<open>cat\<close> ends and has shown the file, unchanged and whole.\<close>

theorem cat_copies_text:
  assumes d: "delivers m buf file rest" and w: "shows_output m rest out"
    and keep: "\<forall>s r s'. trap m Sys_read [file, of_nat buf, 1024] s = Some (r, s') \<longrightarrow> out (user.more s') = out (user.more s)"
    and "cat_ok m buf (umem s)"
    and "0 \<notin> set (rest (user.more s))"
  shows "\<exists>s'. cat_loop m buf file s = Some s' \<and> out (user.more s') = out (user.more s) @ rest (user.more s)"
  using assms(4,5)
proof (induction "length (rest (user.more s))" arbitrary: s rule: less_induct)
  case less
  let ?t = "rest (user.more s)"
  from d show ?case
  proof (rule deliversE [where s = s], goal_cases)
    case (1 r s')
    then show ?case by (subst cat_loop.simps) simp
  next
    case (2 k s')
    let ?c = "take k ?t" and ?s = "s'\<lparr>umem := mset (umem s') (buf + k) 0\<rparr>"
    have lk: "length ?c = k" using 2(3) by simp
    have ok1: "cat_ok m buf (umem s')"
      using less.prems(1) by (rule cat_ok_keeps) (use 2(2) lk in \<open>auto simp: 2(7) mwrite_def\<close>)
    then have "writable (umem s') buf (Suc TOOL_BUF)" by (simp add: cat_ok_def)
    from writable_nth [OF this, of k] have "umem s' (buf + k) \<noteq> None" using 2(2) by auto
    then have st: "ustore8 (buf + unat (of_nat k :: u32)) 0 s' = Some ?s" by (simp add: ustore8_def 2(6))
    have ok: "cat_ok m buf (umem ?s)"
      using ok1 by (rule cat_ok_keeps) (use 2(2) in \<open>auto simp: mset_apply\<close>)
    have "0 \<notin> set ?c" using less.prems(2) by (auto dest: in_set_takeD)
    moreover have "bytes (umem ?s) buf ?c"
      using mwrite_bytes [of "umem s" buf ?c] lk by (simp add: 2(7))
    ultimately have c: "cstr (umem ?s) buf ?c" using lk by (simp add: cstr_def mset_apply)
    have "?c \<noteq> []" using 2(1) lk by (cases ?c) simp_all
    from print_buffer [OF ok c this _ w] lk 2(2) obtain s2 where
      s2: "print m ''%s'' [of_nat buf] ?s = Some s2" "cat_ok m buf (umem s2)"
        "rest (user.more s2) = rest (user.more s')" "out (user.more s2) = out (user.more s') @ ?c" by auto
    have r: "rest (user.more s2) = drop k ?t" using s2(3) 2(8) by simp
    have "length (rest (user.more s2)) < length ?t" using 2(1,3) r by simp
    moreover have "0 \<notin> set (rest (user.more s2))" using less.prems(2) by (auto simp: r dest: in_set_dropD)
    ultimately obtain s3 where "cat_loop m buf file s2 = Some s3"
      "out (user.more s3) = out (user.more s2) @ rest (user.more s2)" using less.hyps s2(2) by blast
    moreover have "cat_loop m buf file s = cat_loop m buf file s2"
      using 2(4,5) st s2(1) by (subst cat_loop.simps) simp
    moreover have "out (user.more s') = out (user.more s)" using keep 2(4) by blast
    ultimately show ?case using s2(4) r by simp
  qed
qed

subsection \<open>An example\<close>

text \<open>A kernel that has one file and one terminal: what is left of the one and what the other shows.\<close>

type_synonym ex_tool = "(u8 list \<times> u8 list) user_scheme"

definition ex_trap :: "syscall \<Rightarrow> u32 list \<Rightarrow> ex_tool \<Rightarrow> (u32 \<times> ex_tool) option" where
  "ex_trap c args s =
     (let (t, shown) = user.more s
      in if c = Sys_read
         then (if t = [] then Some (- 7, s)
               else Some (of_nat (min 4 (length t)),
                      user.more_update (\<lambda>_. (drop (min 4 (length t)) t, shown))
                        (s\<lparr>umem := mwrite (umem s) 1000 (take (min 4 (length t)) t)\<rparr>)))
         else if c = Sys_write
         then do { bs \<leftarrow> read_bytes (umem s) (unat (args ! 1)) (unat (args ! 2));
                   Some (args ! 2, user.more_update (\<lambda>_. (t, shown @ bs)) s) }
         else Some (0, s))"

definition ex_tools :: "ex_tool umachine" where
  "ex_tools = \<lparr>trap = ex_trap, u_lit = (\<lambda>_. 100), libc_buf = 10000\<rparr>"

definition ex_tool_state :: ex_tool where
  "ex_tool_state = \<lparr>umem = mwrite (\<lambda>_. Some 0) 100 (lit ''%s'' @ [0]), \<dots> = (lit ''seven'' @ [10, 56, 10], [])\<rparr>"

lemma ex_delivers: "delivers ex_tools 1000 file fst"
proof -
  have "(- 7 :: u32) <s 0" by (simp add: word_sless_alt)
  moreover have "0 < min 4 (length t) \<and> min 4 (length t) \<le> length t" if "t \<noteq> []" for t :: "u8 list"
    using that by (cases t) simp_all
  ultimately show ?thesis unfolding delivers_def ex_tools_def
  proof (intro allI, goal_cases)
    case (1 s)
    obtain t shown where t: "user.more s = (t, shown)" by (cases "user.more s")
    then show ?case using 1
      by (cases "t = []") (auto simp: ex_trap_def TOOL_BUF_def intro!: exI [of _ "min 4 (length t)"])
  qed
qed

lemma ex_shows: "shows_output ex_tools fst snd"
  by (auto simp: shows_output_def ex_tools_def ex_trap_def numeral_2_eq_2 split: prod.splits)


theorem cat_copies_text_witness:
  "\<exists>s'. cat_loop ex_tools 1000 5 ex_tool_state = Some s' \<and> snd (user.more s') = lit ''seven'' @ [10, 56, 10]"
proof -
  have "cat_ok ex_tools 1000 (umem ex_tool_state)"
    by (auto simp: cat_ok_def ex_tools_def ex_tool_state_def TOOL_BUF_def writable_def mwrite_def cstr_off_def lit_def)
  moreover have "\<forall>s r s'. trap ex_tools Sys_read [5, of_nat 1000, 1024] s = Some (r, s') \<longrightarrow> snd (user.more s') = snd (user.more s)"
    by (auto simp: ex_tools_def ex_trap_def split: prod.splits if_splits)
  ultimately show ?thesis
    using cat_copies_text [OF ex_delivers ex_shows, of 5 ex_tool_state]
    by (auto simp: ex_tool_state_def lit_def)
qed

end
