(* ===== verification/Traps.thy ===== *)
theory Traps
  imports Printk Signal Gates
begin

text \<open>
  arch/idt_generic.c: an exception prints the registers and ends the task that raised it.
\<close>

unbundle bit_operations_syntax

subsection \<open>The report\<close>

record traps = fs +
  tlog :: klog

text \<open>The flags in the order of \<open>print_eflags\<close>: mask, text when set, text when clear.\<close>

definition high_flags :: "(u32 \<times> string \<times> string) list" where
  "high_flags =
     [(0x00200000, ''ID '', ''id ''), (0x00100000, ''VIP '', ''vip ''), (0x00080000, ''VIF '', ''vif ''),
      (0x00040000, ''AC '', ''ac ''), (0x00020000, ''VM '', ''vm ''), (0x00010000, ''RF '', ''rf ''),
      (0x00004000, ''NT '', ''nt '')]"

definition low_flags :: "(u32 \<times> string \<times> string) list" where
  "low_flags =
     [(0x00000800, ''OF '', ''of ''), (0x00000400, ''DF '', ''df ''), (0x00000200, ''IF '', ''if ''),
      (0x00000100, ''TF '', ''tf ''), (0x00000080, ''SF '', ''sf ''), (0x00000040, ''ZF '', ''zf ''),
      (0x00000010, ''AF '', ''af ''), (0x00000004, ''PF '', ''pf ''), (0x00000001, ''CF'', ''cf'')]"

definition flag_message :: "u32 \<Rightarrow> u32 \<times> string \<times> string \<Rightarrow> u8 list \<times> u32 list" where
  "flag_message eflags x = (case x of (f, s, c) \<Rightarrow> (lit (if eflags AND f \<noteq> 0 then s else c), []))"

definition eflags_messages :: "u32 \<Rightarrow> (u8 list \<times> u32 list) list" where
  "eflags_messages eflags =
     List.map (flag_message eflags) high_flags @
     [(lit ''IOPL=%d '', [drop_bit 13 (eflags AND X86_EFLAGS_IOPL)])] @
     List.map (flag_message eflags) low_flags @ [(lit [CHR 0x0A], [])]"

definition print_eflags :: "klog print_env \<Rightarrow> u32 \<Rightarrow> klog \<Rightarrow> klog option" where
  "print_eflags e eflags s = printks e (eflags_messages eflags) s"

text \<open>Tab and newline as characters of the formats.\<close>

abbreviation "tb \<equiv> [CHR 0x09]"
abbreviation "nl \<equiv> [CHR 0x0A]"

definition die_messages :: "u32 \<Rightarrow> pt_regs \<Rightarrow> u32 \<Rightarrow> (u8 list \<times> u32 list) list" where
  "die_messages str r error_code =
     [(lit (tb @ tb @ tb @ ''kernel RESUME from panic'' @ nl), [])] @
     replicate 80 (lit ''%c'', [45]) @
     [(lit (''eax:%p '' @ tb @ ''ebx:%p '' @ tb @ ''ecx:%p '' @ tb @ ''edx: %p'' @ nl), [r_eax r, r_ebx r, r_ecx r, r_edx r]),
      (lit (''edi:%p '' @ tb @ ''esi:%p '' @ tb @ ''ebp:%p '' @ nl), [r_edi r, r_esi r, r_ebp r]),
      (lit ('' ds:%p '' @ tb @ '' es:%p '' @ tb @ '' fs:%p '' @ tb @ '' gs:%p'' @ tb @ nl), [r_ds r, r_es r, r_fs r, r_gs r]),
      (if r_cs r AND 3 \<noteq> 0
       then (lit ('' cs:%p '' @ tb @ ''eip:%p '' @ tb @ '' ss:%p '' @ tb @ ''esp:%p'' @ nl), [r_cs r, r_eip r, r_ss r, r_esp r])
       else (lit ('' cs:%p '' @ tb @ ''eip:%p '' @ tb @ '' ss:undefined '' @ tb @ ''esp:undefined'' @ nl), [r_cs r, r_eip r])),
      (lit ''eflags:%p      '', [r_eflags r])] @
     eflags_messages (r_eflags r) @
     replicate 80 (lit ''%c'', [45]) @
     [(lit (''panic reason: %s, error code: %p. exit!'' @ nl), [str, error_code])]"

text \<open>\<open>die\<close>: the report, and \<open>sys_exit(-1)\<close>; the state is the one another task finds.\<close>

definition die_trap ::
    "('a traps_scheme) env \<Rightarrow> klog print_env \<Rightarrow> string \<Rightarrow> pt_regs \<Rightarrow> u32 \<Rightarrow> 'a traps_scheme \<Rightarrow>
     (unit, 'a traps_scheme) outcome option" where
  "die_trap e pe str r error_code s =
     do { l \<leftarrow> printks pe (die_messages (of_nat (p_lit pe (lit str))) r error_code) (tlog s);
          s \<leftarrow> sys_exit e (- 1) (s\<lparr>tlog := l\<rparr>);
          Some (Gone s) }"

subsection \<open>The handlers\<close>

fun reason :: "entry \<Rightarrow> string" where
  "reason Divide_error = ''divide error''"
| "reason Double_fault = ''double fault''"
| "reason Int3 = ''int3''"
| "reason Nmi = ''nmi''"
| "reason Debug_trap = ''debug''"
| "reason Overflow = ''overflow''"
| "reason Bounds = ''bounds''"
| "reason Invalid_op = ''invalid op''"
| "reason Device_not_available = ''device not available''"
| "reason Coprocessor_segment_overrun = ''coprocessor segment overrun''"
| "reason Invalid_tss = ''invalid tss''"
| "reason General_protection = ''general protection''"
| "reason Coprocessor_error = ''coprocessor error''"
| "reason Stack_segment = ''stack segment''"
| "reason Page_fault = ''page fault''"
| "reason Segment_not_present = ''segment not present''"
| "reason Reserved = ''reserved''"
| "reason System_call = []"
| "reason Irq_start = []"

text \<open>\<open>do_reserved\<close>, unlike the others, only prints, with arguments its format does not take.\<close>

definition do_trap ::
    "('a traps_scheme) env \<Rightarrow> klog print_env \<Rightarrow> entry \<Rightarrow> pt_regs \<Rightarrow> u32 \<Rightarrow> u32 \<Rightarrow> 'a traps_scheme \<Rightarrow>
     (unit, 'a traps_scheme) outcome option" where
  "do_trap e pe t r regs error_code s =
     (if t = Reserved
      then do { (i, l) \<leftarrow> printk pe (lit (reason t)) [regs, error_code] (tlog s); Some (Returns () (s\<lparr>tlog := l\<rparr>)) }
      else die_trap e pe (reason t) r error_code s)"

end
